(* ===== verification/Prelude.thy ===== *)
theory Prelude
  imports Main "HOL-Library.Word"
begin

text \<open>
  Shared vocabulary of the development.

  \<^item> \<open>res\<close>: the outcome of a C++ call.  \<open>Ok\<close> carries the value returned, \<open>Fault\<close> stands for an
    execution the language gives no meaning to (a dangling pointer, a read past a buffer), for an
    exception that leaves the call, or for running out of the fuel a loop was given.  Operations
    are sequenced with \<open>bindR\<close>.
  \<^item> \<open>std::map\<close> is a list of pairs in key order, because the code iterates over its maps and
    the order of what it sends depends on it; \<open>std::set\<close> is a strictly ordered list.
    The locale \<open>ordered_map\<close> states what the clients use of a map, the locale \<open>ordered_set\<close>
    what they use of a set, and both are interpreted on the lists.
  \<^item> \<open>std::wstring\<close> is a list of code points; \<open>L\<close> turns a literal into one and \<open>itoa\<close> is
    \<open>stream << int\<close>.
\<close>

named_theorems model_defs \<open>definitions of operations that carry no recursion\<close>
named_theorems frame \<open>state components that an operation leaves unchanged\<close>
named_theorems okD \<open>what a successful run of an operation implies\<close>

section \<open>Outcomes of a call\<close>

datatype fault =
    UseAfterFree            \<comment> \<open>a pointer to a deleted object is followed\<close>
  | NullDeref               \<comment> \<open>a null pointer is followed\<close>
  | OutOfBounds             \<comment> \<open>a buffer is read outside its bounds\<close>
  | Uninitialised           \<comment> \<open>a variable is read before it is written\<close>
  | BadCast                 \<comment> \<open>an object is used through a class it is not an instance of\<close>
  | BadConversion           \<comment> \<open>a floating value outside the range of the integer type\<close>
  | Thrown string         \<comment> \<open>an exception leaves the call\<close>
  | MissingReturn           \<comment> \<open>a function that has to return a value ends without a return statement\<close>
  | OutOfFuel               \<comment> \<open>the model's loop bound is exhausted\<close>

datatype 'a res = Ok 'a | Fault fault

fun bindR :: "'a res \<Rightarrow> ('a \<Rightarrow> 'b res) \<Rightarrow> 'b res" where
  "bindR (Ok x) f = f x"
| "bindR (Fault e) f = Fault e"

text \<open>
  Some functions of the program are declared to return a value and end without a return statement.  The standard leaves
  what happens then undefined.  What the compiler makes of it is an argument of the model: it may be harmless, and then
  the caller that reads the value finds the one of the last call in its place, or not.
\<close>

datatype no_return = Harmless | Undefined

definition ends_without_return :: "no_return \<Rightarrow> 'a \<Rightarrow> 'a res" where
  "ends_without_return u x = (case u of Harmless \<Rightarrow> Ok x | Undefined \<Rightarrow> Fault MissingReturn)"

lemma ends_without_return_simps [simp]:
  "ends_without_return Harmless x = Ok x" "ends_without_return Undefined x = Fault MissingReturn"
  by (simp_all add: ends_without_return_def)

fun is_ok :: "'a res \<Rightarrow> bool" where
  "is_ok (Ok x) = True"
| "is_ok (Fault e) = False"

lemma bindR_cong [fundef_cong]:
  "m = m' \<Longrightarrow> (\<And>x. m' = Ok x \<Longrightarrow> f x = f' x) \<Longrightarrow> bindR m f = bindR m' f'"
  by (cases m') auto

lemma bindR_Ok_iff: "bindR m f = Ok y \<longleftrightarrow> (\<exists>x. m = Ok x \<and> f x = Ok y)"
  by (cases m) auto

lemma bindR_OkE [elim!]:
  assumes "bindR m f = Ok y"
  obtains x where "m = Ok x" "f x = Ok y"
  using assms by (auto simp: bindR_Ok_iff)

lemma bindR_Fault_iff: "bindR m f = Fault e \<longleftrightarrow> m = Fault e \<or> (\<exists>x. m = Ok x \<and> f x = Fault e)"
  by (cases m) auto

lemma bindR_assoc: "bindR (bindR m f) g = bindR m (\<lambda>x. bindR (f x) g)"
  by (cases m) auto

text \<open>A loop over a list that threads a state and may fail.\<close>

fun foldR :: "('a \<Rightarrow> 's \<Rightarrow> 's res) \<Rightarrow> 'a list \<Rightarrow> 's \<Rightarrow> 's res" where
  "foldR f [] s = Ok s"
| "foldR f (x # xs) s = bindR (f x s) (foldR f xs)"

fun mapR :: "('a \<Rightarrow> 'b res) \<Rightarrow> 'a list \<Rightarrow> 'b list res" where
  "mapR f [] = Ok []"
| "mapR f (x # xs) = bindR (f x) (\<lambda>y. bindR (mapR f xs) (\<lambda>ys. Ok (y # ys)))"

fun filterR :: "('a \<Rightarrow> bool res) \<Rightarrow> 'a list \<Rightarrow> 'a list res" where
  "filterR f [] = Ok []"
| "filterR f (x # xs) =
     bindR (f x) (\<lambda>b. bindR (filterR f xs) (\<lambda>ys. Ok (if b then x # ys else ys)))"

lemma foldR_append: "foldR f (xs @ ys) s = bindR (foldR f xs s) (foldR f ys)"
proof (induction xs arbitrary: s)
  case (Cons x xs)
  then show ?case by (cases "f x s") auto
qed simp

lemma foldR_invariant:
  assumes "foldR f xs s = Ok t" "P s"
    and "\<And>x s t. x \<in> set xs \<Longrightarrow> P s \<Longrightarrow> f x s = Ok t \<Longrightarrow> P t"
  shows "P t"
  using assms
proof (induction xs arbitrary: s)
  case Nil
  then show ?case by simp
next
  case (Cons x xs)
  from Cons.prems(1) obtain u where u: "f x s = Ok u" "foldR f xs u = Ok t" by auto
  moreover from u(1) Cons.prems(2,3) have "P u" by auto
  ultimately show ?case using Cons.IH Cons.prems(3) by (meson list.set_intros(2))
qed

lemma foldR_frame:
  assumes "foldR f xs s = Ok t" "\<And>x s t. x \<in> set xs \<Longrightarrow> f x s = Ok t \<Longrightarrow> g t = g s"
  shows "g t = g s"
  by (rule foldR_invariant [OF assms(1), of "\<lambda>u. g u = g s"]) (auto dest: assms(2))

lemma foldR_total:
  assumes "P s" "\<And>x s. x \<in> set xs \<Longrightarrow> P s \<Longrightarrow> \<exists>t. f x s = Ok t \<and> P t"
  shows "\<exists>t. foldR f xs s = Ok t \<and> P t"
  using assms
proof (induction xs arbitrary: s)
  case (Cons x xs)
  then obtain u where "f x s = Ok u" "P u" by (meson list.set_intros(1))
  with Cons show ?case by auto
qed simp

lemma filterR_total:
  assumes "\<And>x. x \<in> set xs \<Longrightarrow> f x = Ok (g x)"
  shows "filterR f xs = Ok (filter g xs)"
  using assms by (induction xs) auto

lemma mapR_total:
  assumes "\<And>x. x \<in> set xs \<Longrightarrow> f x = Ok (g x)"
  shows "mapR f xs = Ok (map g xs)"
  using assms by (induction xs) auto

section \<open>Copying memory\<close>

text \<open>\<open>memcpy(d+i,xs,...)\<close> into an array and \<open>memcpy(out,d+i,...)\<close> out of it, within its bounds.\<close>

definition copy_in :: "nat \<Rightarrow> 'a list \<Rightarrow> 'a list \<Rightarrow> 'a list res" where
  "copy_in i xs d = (if i + length xs \<le> length d then Ok (take i d @ xs @ drop (i + length xs) d) else Fault OutOfBounds)"

definition copy_out :: "nat \<Rightarrow> nat \<Rightarrow> 'a list \<Rightarrow> 'a list res" where
  "copy_out i l d = (if i + l \<le> length d then Ok (take l (drop i d)) else Fault OutOfBounds)"

section \<open>\<open>std::map\<close>\<close>

type_synonym ('k, 'v) omap = "('k \<times> 'v) list"

text \<open>\<open>m[k] = v\<close>, \<open>m.find(k)\<close>, \<open>m.erase(k)\<close>.\<close>

fun map_put :: "'k::linorder \<Rightarrow> 'v \<Rightarrow> ('k, 'v) omap \<Rightarrow> ('k, 'v) omap" where
  "map_put k v [] = [(k, v)]"
| "map_put k v ((k', v') # m) =
     (if k < k' then (k, v) # (k', v') # m
      else if k = k' then (k, v) # m
      else (k', v') # map_put k v m)"

definition map_find :: "('k, 'v) omap \<Rightarrow> 'k \<Rightarrow> 'v option" where
  "map_find m k = map_of m k"

definition map_erase :: "'k \<Rightarrow> ('k, 'v) omap \<Rightarrow> ('k, 'v) omap" where
  "map_erase k m = filter (\<lambda>e. fst e \<noteq> k) m"

text \<open>A write through the iterator \<open>find\<close> returned: the entry's value is replaced.\<close>

definition map_adjust :: "'k \<Rightarrow> ('v \<Rightarrow> 'v) \<Rightarrow> ('k, 'v) omap \<Rightarrow> ('k, 'v) omap" where
  "map_adjust k f m = map (\<lambda>e. if fst e = k then (fst e, f (snd e)) else e) m"

definition omap_wf :: "('k::linorder, 'v) omap \<Rightarrow> bool" where
  "omap_wf m \<longleftrightarrow> sorted_wrt (<) (map fst m)"

lemma omap_wf_Nil [simp]: "omap_wf []"
  by (simp add: omap_wf_def)

lemma omap_wf_Cons: "omap_wf (e # m) \<longleftrightarrow> (\<forall>k \<in> fst ` set m. fst e < k) \<and> omap_wf m"
  by (auto simp: omap_wf_def)

lemma omap_wf_distinct: "omap_wf m \<Longrightarrow> distinct (map fst m)"
  unfolding omap_wf_def using strict_sorted_iff by blast

lemma fst_map_put: "fst ` set (map_put k v m) = insert k (fst ` set m)"
  by (induction k v m rule: map_put.induct) auto

lemma omap_wf_put [simp]: "omap_wf m \<Longrightarrow> omap_wf (map_put k v m)"
  by (induction k v m rule: map_put.induct) (auto simp: omap_wf_Cons fst_map_put)

lemma omap_wf_erase [simp]: "omap_wf m \<Longrightarrow> omap_wf (map_erase k m)"
  by (induction m) (auto simp: omap_wf_Cons map_erase_def)

lemma fst_map_adjust [simp]: "map fst (map_adjust k f m) = map fst m"
  by (simp add: map_adjust_def)

lemma omap_wf_adjust [simp]: "omap_wf (map_adjust k f m) \<longleftrightarrow> omap_wf m"
  by (simp add: omap_wf_def)

lemma map_find_Nil [simp]: "map_find [] k = None"
  by (simp add: map_find_def)

lemma map_find_put: "omap_wf m \<Longrightarrow> map_find (map_put k v m) = (map_find m)(k \<mapsto> v)"
proof (induction k v m rule: map_put.induct)
  case (2 k v k' v' m)
  then have wf: "omap_wf m" "\<forall>x \<in> fst ` set m. k' < x" by (auto simp: omap_wf_Cons)
  show ?case
  proof (cases "k < k' \<or> k = k'")
    case True
    then show ?thesis by (auto simp: map_find_def fun_eq_iff)
  next
    case False
    then have "map_find (map_put k v m) = (map_find m)(k \<mapsto> v)" using "2.IH" wf by auto
    with False show ?thesis by (auto simp: map_find_def fun_eq_iff)
  qed
qed (auto simp: map_find_def fun_eq_iff)

lemma map_find_erase: "map_find (map_erase k m) = (map_find m)(k := None)"
  by (induction m) (auto simp: map_find_def map_erase_def fun_eq_iff)

lemma map_find_adjust:
  "map_find (map_adjust k f m) x = (if x = k then map_option f (map_find m x) else map_find m x)"
  by (induction m) (auto simp: map_find_def map_adjust_def)

lemma map_find_Some_in: "map_find m k = Some v \<Longrightarrow> (k, v) \<in> set m"
  by (simp add: map_find_def map_of_SomeD)

lemma map_find_in_iff: "omap_wf m \<Longrightarrow> map_find m k = Some v \<longleftrightarrow> (k, v) \<in> set m"
  by (simp add: map_find_def omap_wf_distinct)

lemma map_find_None_iff: "map_find m k = None \<longleftrightarrow> k \<notin> fst ` set m"
  by (simp add: map_find_def map_of_eq_None_iff)

lemma set_map_erase: "set (map_erase k m) = {e \<in> set m. fst e \<noteq> k}"
  by (auto simp: map_erase_def)

lemma set_map_put: "omap_wf m \<Longrightarrow> set (map_put k v m) = insert (k, v) {e \<in> set m. fst e \<noteq> k}"
  by (induction k v m rule: map_put.induct) (auto simp: omap_wf_Cons)

lemma length_map_erase: "map_find m k = Some v \<Longrightarrow> length (map_erase k m) < length m"
  unfolding map_erase_def by (rule length_filter_less [of "(k, v)"]) (auto simp: map_find_Some_in)

lemma length_map_erase_le: "length (map_erase k m) \<le> length m"
  by (simp add: map_erase_def)

section \<open>\<open>std::set<int>\<close>\<close>

fun set_insert :: "'k::linorder \<Rightarrow> 'k list \<Rightarrow> 'k list" where
  "set_insert x [] = [x]"
| "set_insert x (y # ys) = (if x < y then x # y # ys else if x = y then y # ys else y # set_insert x ys)"

definition oset_wf :: "'k::linorder list \<Rightarrow> bool" where
  "oset_wf xs \<longleftrightarrow> sorted_wrt (<) xs"

lemma oset_wf_Nil [simp]: "oset_wf []"
  by (simp add: oset_wf_def)

lemma oset_wf_Cons: "oset_wf (x # xs) \<longleftrightarrow> (\<forall>y \<in> set xs. x < y) \<and> oset_wf xs"
  by (auto simp: oset_wf_def)

lemma set_set_insert [simp]: "set (set_insert x xs) = insert x (set xs)"
  by (induction x xs rule: set_insert.induct) auto

lemma oset_wf_insert [simp]: "oset_wf xs \<Longrightarrow> oset_wf (set_insert x xs)"
  by (induction x xs rule: set_insert.induct) (auto simp: oset_wf_Cons)

text \<open>What the clients use of the two containers, and that the lists provide it.\<close>

locale ordered_map =
  fixes put :: "'k::linorder \<Rightarrow> 'v \<Rightarrow> 'm \<Rightarrow> 'm"
    and find :: "'m \<Rightarrow> 'k \<Rightarrow> 'v option"
    and erase :: "'k \<Rightarrow> 'm \<Rightarrow> 'm"
    and entries :: "'m \<Rightarrow> ('k \<times> 'v) list"
    and wf :: "'m \<Rightarrow> bool"
  assumes find_put: "wf m \<Longrightarrow> find (put k v m) = (find m)(k \<mapsto> v)"
    and find_erase: "wf m \<Longrightarrow> find (erase k m) = (find m)(k := None)"
    and find_entries: "wf m \<Longrightarrow> find m k = Some v \<longleftrightarrow> (k, v) \<in> set (entries m)"
    and entries_ordered: "wf m \<Longrightarrow> sorted_wrt (<) (map fst (entries m))"
    and wf_put: "wf m \<Longrightarrow> wf (put k v m)"
    and wf_erase: "wf m \<Longrightarrow> wf (erase k m)"
begin

lemma find_put_same: "wf m \<Longrightarrow> find (put k v m) k = Some v"
  by (simp add: find_put)

lemma erase_put: "wf m \<Longrightarrow> find (erase k (put k v m)) = find (erase k m)"
  by (simp add: find_put find_erase wf_put)

lemma entries_put:
  "wf m \<Longrightarrow> set (entries (put k v m)) = insert (k, v) {e \<in> set (entries m). fst e \<noteq> k}"
  by (auto simp flip: find_entries simp: wf_put find_put split: if_splits)

lemma entries_erase: "wf m \<Longrightarrow> set (entries (erase k m)) = {e \<in> set (entries m). fst e \<noteq> k}"
  by (auto simp flip: find_entries simp: wf_erase find_erase split: if_splits)

lemma entries_functional:
  "wf m \<Longrightarrow> (k, v) \<in> set (entries m) \<Longrightarrow> (k, v') \<in> set (entries m) \<Longrightarrow> v = v'"
  by (metis find_entries option.inject)

end

interpretation omap: ordered_map map_put map_find map_erase "\<lambda>m. m" omap_wf
  by unfold_locales
    (auto simp: map_find_put map_find_erase map_find_in_iff omap_wf_def [symmetric])

locale ordered_set =
  fixes insert_elem :: "'k::linorder \<Rightarrow> 's \<Rightarrow> 's"
    and elems :: "'s \<Rightarrow> 'k list"
    and wf :: "'s \<Rightarrow> bool"
  assumes elems_insert: "wf s \<Longrightarrow> set (elems (insert_elem x s)) = insert x (set (elems s))"
    and elems_ordered: "wf s \<Longrightarrow> sorted_wrt (<) (elems s)"
    and wf_insert: "wf s \<Longrightarrow> wf (insert_elem x s)"
begin

lemma elems_distinct: "wf s \<Longrightarrow> distinct (elems s)"
  using elems_ordered strict_sorted_iff by blast

lemma elems_insert_many:
  "wf s \<Longrightarrow> set (elems (fold insert_elem xs s)) = set xs \<union> set (elems s) \<and> wf (fold insert_elem xs s)"
  by (induction xs arbitrary: s) (auto simp: elems_insert wf_insert)

end

interpretation oset: ordered_set set_insert "\<lambda>s. s" oset_wf
  by unfold_locales (auto simp: oset_wf_def [symmetric])

section \<open>Wide strings\<close>

type_synonym wstring = "int list"

definition L :: "string \<Rightarrow> wstring" where
  "L s = map of_char s"

lemma L_simps [simp]: "L [] = []" "L (c # s) = of_char c # L s"
  by (simp_all add: L_def)

lemma L_append [simp]: "L (s @ t) = L s @ L t"
  by (simp add: L_def)

lemma length_L [simp]: "length (L s) = length s"
  by (simp add: L_def)

text \<open>\<open>stream << n\<close> for an \<open>int\<close>: decimal digits, a minus sign in front of a negative one.\<close>

fun udigits :: "nat \<Rightarrow> wstring" where
  "udigits n = (if n < 10 then [48 + int n] else udigits (n div 10) @ [48 + int (n mod 10)])"

declare udigits.simps [simp del]

definition itoa :: "int \<Rightarrow> wstring" where
  "itoa i = (if i < 0 then 45 # udigits (nat (- i)) else udigits (nat i))"

lemma udigits_nonempty [simp]: "udigits n \<noteq> []"
  by (subst udigits.simps) simp

lemma udigits_range: "\<forall>d \<in> set (udigits n). 48 \<le> d \<and> d \<le> 57"
proof (induction n rule: udigits.induct)
  case (1 n)
  show ?case
  proof (cases "n < 10")
    case True
    then show ?thesis by (subst udigits.simps) auto
  next
    case False
    have "int (n mod 10) \<le> 9" by simp
    with False "1.IH" show ?thesis by (subst udigits.simps) auto
  qed
qed

text \<open>The bounds of the C++ type \<open>int\<close>.\<close>

definition int32 :: "int \<Rightarrow> bool" where
  "int32 i \<longleftrightarrow> - (2 ^ 31) \<le> i \<and> i < 2 ^ 31"

end
