(* ===== verification/BFCPAttributes.thy ===== *)
theory BFCPAttributes
  imports Prelude
begin

text \<open>
  The attributes of the Binary Floor Control Protocol as the server builds and prints them
  (\<open>src/mcu/src/bfcp/BFCPAttribute.cpp\<close>, \<open>src/mcu/src/bfcp/attributes/\<close> and their headers).
  A class with one value is a datatype whose selector is its \<open>GetValue\<close>; a grouped attribute is
  a record, a pointer field that may be NULL is an option.  \<open>Stringify\<close> returns what the
  method appends to the stream.  The \<open>Dump\<close> methods only log.  Where an attribute list avoids
  duplicates (\<open>AddFloorRequestStatus\<close>), the code compares pointers and every caller passes
  an object it has just created, so the list is extended.
\<close>

abbreviation NL :: wstring where "NL \<equiv> [10]"
abbreviation DQ :: wstring where "DQ \<equiv> [34]"

section \<open>Attribute names\<close>

datatype attr_name =
    ABeneficiaryId | AFloorId | AFloorRequestId | APriority | ARequestStatus | AErrorCode
  | AErrorInfo | AParticipantProvidedInfo | AStatusInfo | ASupportedAttributes
  | ASupportedPrimitives | AUserDisplayName | AUserUri | ABeneficiaryInformation
  | AFloorRequestInformation | ARequestedByInformation | AFloorRequestStatus
  | AOverallRequestStatus

text \<open>\<open>operator[]\<close> on a missing key yields 0, which is no enumerator: \<open>None\<close>.\<close>

definition mapJsonStr2Name :: "(wstring \<times> attr_name) list" where
  "mapJsonStr2Name =
    [(L ''beneficiaryId'', ABeneficiaryId),
     (L ''floorId'', AFloorId),
     (L ''floorRequestId'', AFloorRequestId),
     (L ''priority'', APriority),
     (L ''requestStatus'', ARequestStatus),
     (L ''errorCode'', AErrorCode),
     (L ''errorInfo'', AErrorInfo),
     (L ''participantProvidedInfo'', AParticipantProvidedInfo),
     (L ''statusInfo'', AStatusInfo),
     (L ''supportedAttributes'', ASupportedAttributes),
     (L ''supportedPrimitives'', ASupportedPrimitives),
     (L ''userDisplayName'', AUserDisplayName),
     (L ''userUri'', AUserUri),
     (L ''beneficiaryInformation'', ABeneficiaryInformation),
     (L ''floorRequestInformation'', AFloorRequestInformation),
     (L ''requestedByInformation'', ARequestedByInformation),
     (L ''floorRequestStatus'', AFloorRequestStatus),
     (L ''overallRequestStatus'', AOverallRequestStatus)]"

definition attr_of_json :: "wstring \<Rightarrow> attr_name option" where
  "attr_of_json s = map_of mapJsonStr2Name s"

fun mapName2JsonStr :: "attr_name \<Rightarrow> wstring" where
  "mapName2JsonStr ABeneficiaryId = L ''beneficiaryId''"
| "mapName2JsonStr AFloorId = L ''floorId''"
| "mapName2JsonStr AFloorRequestId = L ''floorRequestId''"
| "mapName2JsonStr APriority = L ''priority''"
| "mapName2JsonStr ARequestStatus = L ''requestStatus''"
| "mapName2JsonStr AErrorCode = L ''errorCode''"
| "mapName2JsonStr AErrorInfo = L ''errorInfo''"
| "mapName2JsonStr AParticipantProvidedInfo = L ''participantProvidedInfo''"
| "mapName2JsonStr AStatusInfo = L ''statusInfo''"
| "mapName2JsonStr ASupportedAttributes = L ''supportedAttributes''"
| "mapName2JsonStr ASupportedPrimitives = L ''supportedPrimitives''"
| "mapName2JsonStr AUserDisplayName = L ''userDisplayName''"
| "mapName2JsonStr AUserUri = L ''userUri''"
| "mapName2JsonStr ABeneficiaryInformation = L ''beneficiaryInformation''"
| "mapName2JsonStr AFloorRequestInformation = L ''floorRequestInformation''"
| "mapName2JsonStr ARequestedByInformation = L ''requestedByInformation''"
| "mapName2JsonStr AFloorRequestStatus = L ''floorRequestStatus''"
| "mapName2JsonStr AOverallRequestStatus = L ''overallRequestStatus''"

lemma attr_name_roundtrip: "attr_of_json (mapName2JsonStr n) = Some n"
  by (cases n) (simp_all add: attr_of_json_def mapJsonStr2Name_def)

section \<open>Attributes with one value\<close>

datatype BFCPAttrBeneficiaryId = BFCPAttrBeneficiaryId (beneficiaryId_value: int)
datatype BFCPAttrFloorId = BFCPAttrFloorId (floorId_value: int)
datatype BFCPAttrFloorRequestId = BFCPAttrFloorRequestId (floorRequestId_value: int)
datatype BFCPAttrErrorInfo = BFCPAttrErrorInfo (errorInfo_value: wstring)
datatype BFCPAttrStatusInfo = BFCPAttrStatusInfo (statusInfo_value: wstring)
datatype BFCPAttrParticipantProvidedInfo =
  BFCPAttrParticipantProvidedInfo (participantProvidedInfo_value: wstring)

datatype error_code =
    ConferenceDoesNotExist | UserDoesNotExist | UnknownPrimitive | UnknownMandatoryAttribute
  | UnauthorizedOperation | InvalidFloorId | FloorRequestIdDoesNotExist
  | FloorRequestMaxNumberReached | UseTls

fun mapErrorCode2JsonStr :: "error_code \<Rightarrow> wstring" where
  "mapErrorCode2JsonStr ConferenceDoesNotExist = L ''ConferenceDoesNotExist''"
| "mapErrorCode2JsonStr UserDoesNotExist = L ''UserDoesNotExist''"
| "mapErrorCode2JsonStr UnknownPrimitive = L ''UnknownPrimitive''"
| "mapErrorCode2JsonStr UnknownMandatoryAttribute = L ''UnknownMandatoryAttribute''"
| "mapErrorCode2JsonStr UnauthorizedOperation = L ''UnauthorizedOperation''"
| "mapErrorCode2JsonStr InvalidFloorId = L ''InvalidFloorId''"
| "mapErrorCode2JsonStr FloorRequestIdDoesNotExist = L ''FloorRequestIdDoesNotExist''"
| "mapErrorCode2JsonStr FloorRequestMaxNumberReached = L ''FloorRequestMaxNumberReached''"
| "mapErrorCode2JsonStr UseTls = L ''UseTls''"

datatype BFCPAttrErrorCode = BFCPAttrErrorCode (errorCode_value: error_code)

definition errorCode_GetString :: "BFCPAttrErrorCode \<Rightarrow> wstring" where
  "errorCode_GetString a = mapErrorCode2JsonStr (errorCode_value a)"

section \<open>Request status\<close>

datatype status = Pending | Accepted | Granted | Denied | Cancelled | Released | Revoked

fun mapStatus2JsonStr :: "status \<Rightarrow> wstring" where
  "mapStatus2JsonStr Pending = L ''Pending''"
| "mapStatus2JsonStr Accepted = L ''Accepted''"
| "mapStatus2JsonStr Granted = L ''Granted''"
| "mapStatus2JsonStr Denied = L ''Denied''"
| "mapStatus2JsonStr Cancelled = L ''Cancelled''"
| "mapStatus2JsonStr Released = L ''Released''"
| "mapStatus2JsonStr Revoked = L ''Revoked''"

record request_status =
  rs_status :: status
  rs_queuePosition :: int

definition request_status_default :: request_status where
  "request_status_default = \<lparr>rs_status = Pending, rs_queuePosition = 0\<rparr>"

definition request_status_new :: "status \<Rightarrow> int \<Rightarrow> request_status" where
  "request_status_new st pos = \<lparr>rs_status = st, rs_queuePosition = pos\<rparr>"

definition request_status_Stringify :: "request_status \<Rightarrow> wstring" where
  "request_status_Stringify a =
     L ''{'' @
     NL @ L ''  '' @ DQ @ L ''status'' @ DQ @ L '': '' @ DQ @ mapStatus2JsonStr (rs_status a) @ DQ @
     L '','' @ NL @ L ''  '' @ DQ @ L ''queuePosition'' @ DQ @ L '': '' @ itoa (rs_queuePosition a) @
     NL @ L ''}''"

section \<open>Grouped attributes\<close>

record floor_request_status =
  frs_floorId :: BFCPAttrFloorId
  frs_requestStatus :: "request_status option"

definition floor_request_status_new :: "int \<Rightarrow> floor_request_status" where
  "floor_request_status_new floorId =
     \<lparr>frs_floorId = BFCPAttrFloorId floorId, frs_requestStatus = None\<rparr>"

definition frs_SetRequestStatus :: "request_status \<Rightarrow> floor_request_status \<Rightarrow> floor_request_status" where
  "frs_SetRequestStatus rs a = a\<lparr>frs_requestStatus := Some rs\<rparr>"

definition floor_request_status_Stringify :: "floor_request_status \<Rightarrow> wstring" where
  "floor_request_status_Stringify a =
     L ''{'' @
     NL @ L ''  '' @ DQ @ L ''floorId'' @ DQ @ L '': '' @ itoa (floorId_value (frs_floorId a)) @
     (case frs_requestStatus a of
        None \<Rightarrow> []
      | Some rs \<Rightarrow> L '','' @ NL @ L ''  '' @ DQ @ L ''requestStatus'' @ DQ @ L '': '' @
                   request_status_Stringify rs) @
     NL @ L ''}''"

record overall_request_status =
  ors_floorRequestId :: BFCPAttrFloorRequestId
  ors_requestStatus :: "request_status option"
  ors_statusInfo :: "BFCPAttrStatusInfo option"

definition overall_request_status_new :: "int \<Rightarrow> overall_request_status" where
  "overall_request_status_new floorRequestId =
     \<lparr>ors_floorRequestId = BFCPAttrFloorRequestId floorRequestId,
      ors_requestStatus = None, ors_statusInfo = None\<rparr>"

definition ors_SetRequestStatus ::
  "request_status \<Rightarrow> overall_request_status \<Rightarrow> overall_request_status" where
  "ors_SetRequestStatus rs a = a\<lparr>ors_requestStatus := Some rs\<rparr>"

definition ors_SetStatusInfo ::
  "BFCPAttrStatusInfo \<Rightarrow> overall_request_status \<Rightarrow> overall_request_status" where
  "ors_SetStatusInfo si a = a\<lparr>ors_statusInfo := Some si\<rparr>"

definition overall_request_status_Stringify :: "overall_request_status \<Rightarrow> wstring" where
  "overall_request_status_Stringify a =
     L ''{'' @
     NL @ L ''  '' @ DQ @ L ''floorRequestId'' @ DQ @ L '': '' @
     itoa (floorRequestId_value (ors_floorRequestId a)) @
     (case ors_requestStatus a of
        None \<Rightarrow> []
      | Some rs \<Rightarrow> L '','' @ NL @ L ''  '' @ DQ @ L ''requestStatus'' @ DQ @ L '': '' @
                   request_status_Stringify rs) @
     (case ors_statusInfo a of
        None \<Rightarrow> []
      | Some si \<Rightarrow> L '','' @ NL @ L ''  '' @ DQ @ L ''statusInfo'' @ DQ @ L '': '' @ DQ @
                   statusInfo_value si @ DQ) @
     NL @ L ''}''"

record beneficiary_information =
  bi_beneficiaryId :: BFCPAttrBeneficiaryId

definition beneficiary_information_new :: "int \<Rightarrow> beneficiary_information" where
  "beneficiary_information_new i = \<lparr>bi_beneficiaryId = BFCPAttrBeneficiaryId i\<rparr>"

definition beneficiary_information_Stringify :: "beneficiary_information \<Rightarrow> wstring" where
  "beneficiary_information_Stringify a =
     L ''{'' @
     NL @ L ''  '' @ DQ @ L ''beneficiaryId'' @ DQ @ L '': '' @
     itoa (beneficiaryId_value (bi_beneficiaryId a)) @
     NL @ L ''}''"

record requested_by_information =
  rbi_requestedById :: int

definition requested_by_information_Stringify :: "requested_by_information \<Rightarrow> wstring" where
  "requested_by_information_Stringify a =
     L ''{'' @
     NL @ L ''  '' @ DQ @ L ''requestedById'' @ DQ @ L '': '' @ itoa (rbi_requestedById a) @
     NL @ L ''}''"

record floor_request_information =
  fri_floorRequestId :: BFCPAttrFloorRequestId
  fri_floorRequestStatuses :: "floor_request_status list"
  fri_overallRequestStatus :: "overall_request_status option"
  fri_beneficiaryInformation :: "beneficiary_information option"
  fri_requestedByInformation :: "requested_by_information option"

definition floor_request_information_new :: "int \<Rightarrow> floor_request_information" where
  "floor_request_information_new i =
     \<lparr>fri_floorRequestId = BFCPAttrFloorRequestId i,
      fri_floorRequestStatuses = [],
      fri_overallRequestStatus = None,
      fri_beneficiaryInformation = None,
      fri_requestedByInformation = None\<rparr>"

definition fri_AddFloorRequestStatus ::
  "floor_request_status \<Rightarrow> floor_request_information \<Rightarrow> floor_request_information" where
  "fri_AddFloorRequestStatus s a =
     a\<lparr>fri_floorRequestStatuses := fri_floorRequestStatuses a @ [s]\<rparr>"

definition fri_SetOverallRequestStatus ::
  "overall_request_status \<Rightarrow> floor_request_information \<Rightarrow> floor_request_information" where
  "fri_SetOverallRequestStatus s a = a\<lparr>fri_overallRequestStatus := Some s\<rparr>"

definition fri_SetBeneficiaryInformation ::
  "beneficiary_information \<Rightarrow> floor_request_information \<Rightarrow> floor_request_information" where
  "fri_SetBeneficiaryInformation s a = a\<lparr>fri_beneficiaryInformation := Some s\<rparr>"

definition fri_SetRequestedByInformation ::
  "requested_by_information \<Rightarrow> floor_request_information \<Rightarrow> floor_request_information" where
  "fri_SetRequestedByInformation s a = a\<lparr>fri_requestedByInformation := Some s\<rparr>"

definition fri_SetDescription :: "wstring \<Rightarrow> floor_request_information \<Rightarrow> floor_request_information" where
  "fri_SetDescription statusInfo a =
     (case fri_overallRequestStatus a of
        None \<Rightarrow> a
      | Some s \<Rightarrow> a\<lparr>fri_overallRequestStatus :=
                     Some (ors_SetStatusInfo (BFCPAttrStatusInfo statusInfo) s)\<rparr>)"

text \<open>The loop of \<open>Stringify\<close>: a newline before each status, a comma between two.\<close>

fun floor_request_statuses_Stringify :: "floor_request_status list \<Rightarrow> wstring" where
  "floor_request_statuses_Stringify [] = []"
| "floor_request_statuses_Stringify [s] = NL @ floor_request_status_Stringify s"
| "floor_request_statuses_Stringify (s # ss) =
     NL @ floor_request_status_Stringify s @ L '', '' @ floor_request_statuses_Stringify ss"

definition floor_request_information_Stringify :: "floor_request_information \<Rightarrow> wstring" where
  "floor_request_information_Stringify a =
     L ''{'' @
     NL @ L ''  '' @ DQ @ L ''floorRequestId'' @ DQ @ L '': '' @
     itoa (floorRequestId_value (fri_floorRequestId a)) @
     L '','' @ NL @ L ''  '' @ DQ @ L ''floorRequestStatus'' @ DQ @ L '': ['' @
     floor_request_statuses_Stringify (fri_floorRequestStatuses a) @
     NL @ L '']'' @
     (case fri_overallRequestStatus a of
        None \<Rightarrow> []
      | Some s \<Rightarrow> L '','' @ NL @ L ''  '' @ DQ @ L ''overallRequestStatus'' @ DQ @ L '': '' @
                  overall_request_status_Stringify s) @
     (case fri_beneficiaryInformation a of
        None \<Rightarrow> []
      | Some s \<Rightarrow> L '','' @ NL @ L ''  '' @ DQ @ L ''beneficiaryInformation'' @ DQ @ L '': '' @
                  beneficiary_information_Stringify s) @
     (case fri_requestedByInformation a of
        None \<Rightarrow> []
      | Some s \<Rightarrow> L '','' @ NL @ L ''  '' @ DQ @ L ''requestedByInformation'' @ DQ @ L '': '' @
                  requested_by_information_Stringify s) @
     NL @ L ''}''"

end
