(* ===== verification/BFCPMessages.thy ===== *)
theory BFCPMessages
  imports BFCPAttributes
begin

text \<open>
  The messages of the protocol (\<open>src/mcu/src/bfcp/BFCPMessage.cpp\<close> and
  \<open>src/mcu/src/bfcp/messages/\<close>).  The class hierarchy is one record: the fields of the base
  class and a body that says which subclass the object is an instance of.  An accessor of a
  subclass is partial: \<open>BadCast\<close> on an object of another class, and the exception
  \<open>BFCPMessage::AttributeNotFound\<close> where the code throws it.
\<close>

datatype common_field = FVer | FPrimitive | FTransactionId | FConferenceId | FUserId | FAttributes

definition mapJsonStr2CommonField :: "(wstring \<times> common_field) list" where
  "mapJsonStr2CommonField =
    [(L ''ver'', FVer),
     (L ''primitive'', FPrimitive),
     (L ''transactionId'', FTransactionId),
     (L ''conferenceId'', FConferenceId),
     (L ''userId'', FUserId),
     (L ''attributes'', FAttributes)]"

definition common_field_of_json :: "wstring \<Rightarrow> common_field option" where
  "common_field_of_json s = map_of mapJsonStr2CommonField s"

datatype primitive =
    PFloorRequest | PFloorRelease | PFloorRequestQuery | PFloorRequestStatus | PUserQuery
  | PUserStatus | PFloorQuery | PFloorStatus | PChairAction | PChairActionAck | PHello
  | PHelloAck | PError

definition mapJsonStr2Primitive :: "(wstring \<times> primitive) list" where
  "mapJsonStr2Primitive =
    [(L ''FloorRequest'', PFloorRequest),
     (L ''FloorRelease'', PFloorRelease),
     (L ''FloorRequestQuery'', PFloorRequestQuery),
     (L ''FloorRequestStatus'', PFloorRequestStatus),
     (L ''UserQuery'', PUserQuery),
     (L ''UserStatus'', PUserStatus),
     (L ''FloorQuery'', PFloorQuery),
     (L ''FloorStatus'', PFloorStatus),
     (L ''ChairAction'', PChairAction),
     (L ''ChairActionAck'', PChairActionAck),
     (L ''Hello'', PHello),
     (L ''HelloAck'', PHelloAck),
     (L ''Error'', PError)]"

definition primitive_of_json :: "wstring \<Rightarrow> primitive option" where
  "primitive_of_json s = map_of mapJsonStr2Primitive s"

fun mapPrimitive2JsonStr :: "primitive \<Rightarrow> wstring" where
  "mapPrimitive2JsonStr PFloorRequest = L ''FloorRequest''"
| "mapPrimitive2JsonStr PFloorRelease = L ''FloorRelease''"
| "mapPrimitive2JsonStr PFloorRequestQuery = L ''FloorRequestQuery''"
| "mapPrimitive2JsonStr PFloorRequestStatus = L ''FloorRequestStatus''"
| "mapPrimitive2JsonStr PUserQuery = L ''UserQuery''"
| "mapPrimitive2JsonStr PUserStatus = L ''UserStatus''"
| "mapPrimitive2JsonStr PFloorQuery = L ''FloorQuery''"
| "mapPrimitive2JsonStr PFloorStatus = L ''FloorStatus''"
| "mapPrimitive2JsonStr PChairAction = L ''ChairAction''"
| "mapPrimitive2JsonStr PChairActionAck = L ''ChairActionAck''"
| "mapPrimitive2JsonStr PHello = L ''Hello''"
| "mapPrimitive2JsonStr PHelloAck = L ''HelloAck''"
| "mapPrimitive2JsonStr PError = L ''Error''"

lemma primitive_roundtrip: "primitive_of_json (mapPrimitive2JsonStr p) = Some p"
  by (cases p) (simp_all add: primitive_of_json_def mapJsonStr2Primitive_def)

section \<open>Message objects\<close>

record msg_floor_request =
  mfr_floorIds :: "BFCPAttrFloorId list"
  mfr_beneficiaryId :: "BFCPAttrBeneficiaryId option"
  mfr_participantProvidedInfo :: "BFCPAttrParticipantProvidedInfo option"

record msg_floor_release =
  mrl_floorRequestId :: "BFCPAttrFloorRequestId option"

record msg_floor_query =
  mfq_floorIds :: "BFCPAttrFloorId list"

record msg_floor_request_status =
  mrs_floorRequestInformation :: "floor_request_information option"

record msg_floor_status =
  mfs_floorId :: "BFCPAttrFloorId option"
  mfs_floorRequestInformations :: "floor_request_information list"

record msg_error =
  me_errorCode :: "BFCPAttrErrorCode option"
  me_errorInfo :: "BFCPAttrErrorInfo option"

datatype msg_body =
    BaseMessage
  | MsgFloorRequest msg_floor_request
  | MsgFloorRelease msg_floor_release
  | MsgFloorQuery msg_floor_query
  | MsgFloorRequestStatus msg_floor_request_status
  | MsgFloorStatus msg_floor_status
  | MsgHello
  | MsgError msg_error

record bfcp_msg =
  m_primitive :: primitive
  m_transactionId :: int
  m_conferenceId :: int
  m_userId :: int
  m_body :: msg_body

definition BFCPMessage_new :: "primitive \<Rightarrow> int \<Rightarrow> int \<Rightarrow> int \<Rightarrow> bfcp_msg" where
  "BFCPMessage_new p t c u =
     \<lparr>m_primitive = p, m_transactionId = t, m_conferenceId = c, m_userId = u, m_body = BaseMessage\<rparr>"

definition BFCPMsgFloorRequest_new :: "int \<Rightarrow> int \<Rightarrow> int \<Rightarrow> bfcp_msg" where
  "BFCPMsgFloorRequest_new t c u = (BFCPMessage_new PFloorRequest t c u)
     \<lparr>m_body := MsgFloorRequest \<lparr>mfr_floorIds = [], mfr_beneficiaryId = None,
                                 mfr_participantProvidedInfo = None\<rparr>\<rparr>"

definition BFCPMsgFloorRelease_new :: "int \<Rightarrow> int \<Rightarrow> int \<Rightarrow> bfcp_msg" where
  "BFCPMsgFloorRelease_new t c u = (BFCPMessage_new PFloorRelease t c u)
     \<lparr>m_body := MsgFloorRelease \<lparr>mrl_floorRequestId = None\<rparr>\<rparr>"

definition BFCPMsgFloorQuery_new :: "int \<Rightarrow> int \<Rightarrow> int \<Rightarrow> bfcp_msg" where
  "BFCPMsgFloorQuery_new t c u = (BFCPMessage_new PFloorQuery t c u)
     \<lparr>m_body := MsgFloorQuery \<lparr>mfq_floorIds = []\<rparr>\<rparr>"

definition BFCPMsgHello_new :: "int \<Rightarrow> int \<Rightarrow> int \<Rightarrow> bfcp_msg" where
  "BFCPMsgHello_new t c u = (BFCPMessage_new PHello t c u)\<lparr>m_body := MsgHello\<rparr>"

definition BFCPMsgFloorRequestStatus_new :: "int \<Rightarrow> int \<Rightarrow> int \<Rightarrow> bfcp_msg" where
  "BFCPMsgFloorRequestStatus_new t c u = (BFCPMessage_new PFloorRequestStatus t c u)
     \<lparr>m_body := MsgFloorRequestStatus \<lparr>mrs_floorRequestInformation = None\<rparr>\<rparr>"

definition BFCPMsgFloorStatus_new :: "int \<Rightarrow> int \<Rightarrow> int \<Rightarrow> bfcp_msg" where
  "BFCPMsgFloorStatus_new t c u = (BFCPMessage_new PFloorStatus t c u)
     \<lparr>m_body := MsgFloorStatus \<lparr>mfs_floorId = None, mfs_floorRequestInformations = []\<rparr>\<rparr>"

definition BFCPMsgError_new :: "bfcp_msg \<Rightarrow> error_code \<Rightarrow> bfcp_msg" where
  "BFCPMsgError_new msg code =
     (BFCPMessage_new PError (m_transactionId msg) (m_conferenceId msg) (m_userId msg))
     \<lparr>m_body := MsgError \<lparr>me_errorCode = Some (BFCPAttrErrorCode code), me_errorInfo = None\<rparr>\<rparr>"

definition BFCPMsgError_new_info :: "bfcp_msg \<Rightarrow> error_code \<Rightarrow> wstring \<Rightarrow> bfcp_msg" where
  "BFCPMsgError_new_info msg code info =
     (BFCPMessage_new PError (m_transactionId msg) (m_conferenceId msg) (m_userId msg))
     \<lparr>m_body := MsgError \<lparr>me_errorCode = Some (BFCPAttrErrorCode code),
                          me_errorInfo = Some (BFCPAttrErrorInfo info)\<rparr>\<rparr>"

definition msg_SetUserId :: "int \<Rightarrow> bfcp_msg \<Rightarrow> bfcp_msg" where
  "msg_SetUserId u m = m\<lparr>m_userId := u\<rparr>"

section \<open>Accessors of the subclasses\<close>

fun msg_AddFloorId :: "int \<Rightarrow> bfcp_msg \<Rightarrow> bfcp_msg res" where
  "msg_AddFloorId f m =
     (case m_body m of
        MsgFloorRequest r \<Rightarrow>
          Ok (m\<lparr>m_body := MsgFloorRequest (r\<lparr>mfr_floorIds := mfr_floorIds r @ [BFCPAttrFloorId f]\<rparr>)\<rparr>)
      | MsgFloorQuery r \<Rightarrow>
          Ok (m\<lparr>m_body := MsgFloorQuery (r\<lparr>mfq_floorIds := mfq_floorIds r @ [BFCPAttrFloorId f]\<rparr>)\<rparr>)
      | _ \<Rightarrow> Fault BadCast)"

fun msg_SetBeneficiaryId :: "int \<Rightarrow> bfcp_msg \<Rightarrow> bfcp_msg res" where
  "msg_SetBeneficiaryId b m =
     (case m_body m of
        MsgFloorRequest r \<Rightarrow>
          Ok (m\<lparr>m_body := MsgFloorRequest (r\<lparr>mfr_beneficiaryId := Some (BFCPAttrBeneficiaryId b)\<rparr>)\<rparr>)
      | _ \<Rightarrow> Fault BadCast)"

fun msg_SetParticipantProvidedInfo :: "wstring \<Rightarrow> bfcp_msg \<Rightarrow> bfcp_msg res" where
  "msg_SetParticipantProvidedInfo s m =
     (case m_body m of
        MsgFloorRequest r \<Rightarrow>
          Ok (m\<lparr>m_body := MsgFloorRequest
               (r\<lparr>mfr_participantProvidedInfo := Some (BFCPAttrParticipantProvidedInfo s)\<rparr>)\<rparr>)
      | _ \<Rightarrow> Fault BadCast)"

fun msg_SetFloorRequestId :: "int \<Rightarrow> bfcp_msg \<Rightarrow> bfcp_msg res" where
  "msg_SetFloorRequestId i m =
     (case m_body m of
        MsgFloorRelease r \<Rightarrow>
          Ok (m\<lparr>m_body := MsgFloorRelease (r\<lparr>mrl_floorRequestId := Some (BFCPAttrFloorRequestId i)\<rparr>)\<rparr>)
      | _ \<Rightarrow> Fault BadCast)"

definition floor_request_HasBeneficiaryId :: "msg_floor_request \<Rightarrow> bool" where
  "floor_request_HasBeneficiaryId r = (mfr_beneficiaryId r \<noteq> None)"

definition floor_request_GetBeneficiaryId :: "msg_floor_request \<Rightarrow> int res" where
  "floor_request_GetBeneficiaryId r =
     (case mfr_beneficiaryId r of
        None \<Rightarrow> Fault (Thrown ''AttributeNotFound: beneficiaryId'')
      | Some a \<Rightarrow> Ok (beneficiaryId_value a))"

definition floor_request_CountFloorIds :: "msg_floor_request \<Rightarrow> nat" where
  "floor_request_CountFloorIds r = length (mfr_floorIds r)"

definition floor_request_GetFloorId :: "msg_floor_request \<Rightarrow> nat \<Rightarrow> int res" where
  "floor_request_GetFloorId r i =
     (if length (mfr_floorIds r) \<le> i then Fault (Thrown ''AttributeNotFound: floorId'')
      else Ok (floorId_value (mfr_floorIds r ! i)))"

definition floor_release_GetFloorRequestId :: "msg_floor_release \<Rightarrow> int res" where
  "floor_release_GetFloorRequestId r =
     (case mrl_floorRequestId r of
        None \<Rightarrow> Fault (Thrown ''AttributeNotFound: floorRequestId'')
      | Some a \<Rightarrow> Ok (floorRequestId_value a))"

definition floor_query_CountFloorIds :: "msg_floor_query \<Rightarrow> nat" where
  "floor_query_CountFloorIds r = length (mfq_floorIds r)"

definition floor_query_GetFloorId :: "msg_floor_query \<Rightarrow> nat \<Rightarrow> int res" where
  "floor_query_GetFloorId r i =
     (if length (mfq_floorIds r) \<le> i then Fault (Thrown ''AttributeNotFound: floorId'')
      else Ok (floorId_value (mfq_floorIds r ! i)))"

fun msg_SetFloorRequestInformation :: "floor_request_information \<Rightarrow> bfcp_msg \<Rightarrow> bfcp_msg res" where
  "msg_SetFloorRequestInformation fri m =
     (case m_body m of
        MsgFloorRequestStatus r \<Rightarrow>
          Ok (m\<lparr>m_body := MsgFloorRequestStatus (r\<lparr>mrs_floorRequestInformation := Some fri\<rparr>)\<rparr>)
      | _ \<Rightarrow> Fault BadCast)"

fun msg_SetDescription :: "wstring \<Rightarrow> bfcp_msg \<Rightarrow> bfcp_msg res" where
  "msg_SetDescription info m =
     (case m_body m of
        MsgFloorRequestStatus r \<Rightarrow>
          Ok (m\<lparr>m_body := MsgFloorRequestStatus
               (r\<lparr>mrs_floorRequestInformation :=
                    map_option (fri_SetDescription info) (mrs_floorRequestInformation r)\<rparr>)\<rparr>)
      | _ \<Rightarrow> Fault BadCast)"

fun msg_SetFloorId :: "int \<Rightarrow> bfcp_msg \<Rightarrow> bfcp_msg res" where
  "msg_SetFloorId f m =
     (case m_body m of
        MsgFloorStatus r \<Rightarrow>
          Ok (m\<lparr>m_body := MsgFloorStatus (r\<lparr>mfs_floorId := Some (BFCPAttrFloorId f)\<rparr>)\<rparr>)
      | _ \<Rightarrow> Fault BadCast)"

fun msg_AddFloorRequestInformation :: "floor_request_information \<Rightarrow> bfcp_msg \<Rightarrow> bfcp_msg res" where
  "msg_AddFloorRequestInformation fri m =
     (case m_body m of
        MsgFloorStatus r \<Rightarrow>
          Ok (m\<lparr>m_body := MsgFloorStatus
               (r\<lparr>mfs_floorRequestInformations := mfs_floorRequestInformations r @ [fri]\<rparr>)\<rparr>)
      | _ \<Rightarrow> Fault BadCast)"

section \<open>Validity, logging and printing\<close>

text \<open>\<open>IsValid\<close>, virtual: the base class and the messages without an override are valid.\<close>

fun msg_IsValid :: "bfcp_msg \<Rightarrow> bool" where
  "msg_IsValid m =
     (case m_body m of
        MsgFloorRequest r \<Rightarrow> 1 \<le> floor_request_CountFloorIds r
      | MsgFloorRelease r \<Rightarrow> mrl_floorRequestId r \<noteq> None
      | _ \<Rightarrow> True)"

text \<open>
  \<open>Dump\<close> logs the message.  It matters because it reads the attributes through the accessors that
  throw: a FloorRelease without its floorRequestId cannot be logged.
\<close>

fun msg_Dump :: "bfcp_msg \<Rightarrow> unit res" where
  "msg_Dump m =
     (case m_body m of
        MsgFloorRelease r \<Rightarrow> bindR (floor_release_GetFloorRequestId r) (\<lambda>_. Ok ())
      | MsgError r \<Rightarrow> (case me_errorCode r of None \<Rightarrow> Fault NullDeref | Some _ \<Rightarrow> Ok ())
      | _ \<Rightarrow> Ok ())"

definition StringifyCommonHeader :: "bfcp_msg \<Rightarrow> wstring" where
  "StringifyCommonHeader m =
     NL @ DQ @ L ''ver'' @ DQ @ L '': 1,'' @
     NL @ DQ @ L ''primitive'' @ DQ @ L '': '' @ DQ @ mapPrimitive2JsonStr (m_primitive m) @ DQ @ L '','' @
     NL @ DQ @ L ''transactionId'' @ DQ @ L '': '' @ itoa (m_transactionId m) @ L '','' @
     NL @ DQ @ L ''conferenceId'' @ DQ @ L '': '' @ itoa (m_conferenceId m) @ L '','' @
     NL @ DQ @ L ''userId'' @ DQ @ L '': '' @ itoa (m_userId m)"

definition msg_error_attributes :: "msg_error \<Rightarrow> wstring" where
  "msg_error_attributes r =
     (case me_errorCode r of
        None \<Rightarrow> []
      | Some code \<Rightarrow>
          L '','' @ NL @ DQ @ L ''attributes'' @ DQ @ L '': {'' @
          NL @ L ''  '' @ DQ @ L ''errorCode'' @ DQ @ L '': '' @ DQ @ errorCode_GetString code @ DQ @
          (case me_errorInfo r of
             None \<Rightarrow> []
           | Some info \<Rightarrow> L '','' @ NL @ L ''  '' @ DQ @ L ''errorInfo'' @ DQ @ L '': '' @
                          DQ @ errorInfo_value info @ DQ) @
          NL @ L ''}'')"

definition msg_floor_request_status_attributes :: "msg_floor_request_status \<Rightarrow> wstring" where
  "msg_floor_request_status_attributes r =
     L '','' @ NL @ DQ @ L ''attributes'' @ DQ @ L '': {'' @
     (case mrs_floorRequestInformation r of
        None \<Rightarrow> []
      | Some fri \<Rightarrow> NL @ L ''  '' @ DQ @ L ''floorRequestInformation'' @ DQ @ L '': '' @
                    floor_request_information_Stringify fri) @
     NL @ L ''}''"

fun floor_request_informations_Stringify :: "floor_request_information list \<Rightarrow> wstring" where
  "floor_request_informations_Stringify [] = []"
| "floor_request_informations_Stringify [x] = floor_request_information_Stringify x"
| "floor_request_informations_Stringify (x # xs) =
     floor_request_information_Stringify x @ L '', '' @ floor_request_informations_Stringify xs"

definition msg_floor_status_attributes :: "msg_floor_status \<Rightarrow> wstring" where
  "msg_floor_status_attributes r =
     L '','' @ NL @ DQ @ L ''attributes'' @ DQ @ L '': {'' @
     (case mfs_floorId r of
        None \<Rightarrow> []
      | Some f \<Rightarrow> NL @ L ''  '' @ DQ @ L ''floorId'' @ DQ @ L '': '' @ itoa (floorId_value f) @ L '','') @
     NL @ L ''  '' @ DQ @ L ''floorRequestInformation'' @ DQ @ L '': ['' @
     floor_request_informations_Stringify (mfs_floorRequestInformations r) @
     L ''  ]'' @
     NL @ L ''}''"

definition msg_attributes :: "msg_body \<Rightarrow> wstring" where
  "msg_attributes b =
     (case b of
        MsgError r \<Rightarrow> msg_error_attributes r
      | MsgFloorRequestStatus r \<Rightarrow> msg_floor_request_status_attributes r
      | MsgFloorStatus r \<Rightarrow> msg_floor_status_attributes r
      | _ \<Rightarrow> [])"

definition Stringify :: "bfcp_msg \<Rightarrow> wstring" where
  "Stringify m = L ''{'' @ StringifyCommonHeader m @ msg_attributes (m_body m) @ NL @ L ''}''"

end
