(* ===== verification/BFCPFloorRequest.thy ===== *)
theory BFCPFloorRequest
  imports BFCPMessages
begin

text \<open>
  A floor request and a conference user (\<open>src/mcu/src/bfcp/BFCPFloorRequest.cpp\<close>,
  \<open>src/mcu/src/bfcp/BFCPUser.cpp\<close>): their state, their predicates and the messages and
  attributes a floor request generates.
\<close>

section \<open>Floor requests\<close>

record floor_request =
  fr_floorRequestId :: int
  fr_userId :: int
  fr_conferenceId :: int
  fr_beneficiaryId :: int
  fr_floorIds :: "int list"     \<comment> \<open>\<open>std::set<int>\<close>\<close>
  fr_status :: status
  fr_queuePosition :: int

definition BFCPFloorRequest_new :: "int \<Rightarrow> int \<Rightarrow> int \<Rightarrow> floor_request" where
  "BFCPFloorRequest_new floorRequestId userId conferenceId =
     \<lparr>fr_floorRequestId = floorRequestId, fr_userId = userId, fr_conferenceId = conferenceId,
      fr_beneficiaryId = userId, fr_floorIds = [], fr_status = Pending, fr_queuePosition = 0\<rparr>"

definition SetBeneficiaryId :: "int \<Rightarrow> floor_request \<Rightarrow> floor_request" where
  "SetBeneficiaryId b r = r\<lparr>fr_beneficiaryId := b\<rparr>"

definition AddFloorId :: "int \<Rightarrow> floor_request \<Rightarrow> floor_request" where
  "AddFloorId f r = r\<lparr>fr_floorIds := set_insert f (fr_floorIds r)\<rparr>"

definition SetStatus :: "status \<Rightarrow> floor_request \<Rightarrow> floor_request" where
  "SetStatus s r = r\<lparr>fr_status := s\<rparr>"

definition HasFloorId :: "floor_request \<Rightarrow> int \<Rightarrow> bool" where
  "HasFloorId r f = (f \<in> set (fr_floorIds r))"

definition IsGranted :: "floor_request \<Rightarrow> bool" where
  "IsGranted r = (fr_status r = Granted)"

definition CanBeGranted :: "floor_request \<Rightarrow> bool" where
  "CanBeGranted r = (case fr_status r of Pending \<Rightarrow> True | Accepted \<Rightarrow> True | _ \<Rightarrow> False)"

definition CanBeDenied :: "floor_request \<Rightarrow> bool" where
  "CanBeDenied r = (case fr_status r of Pending \<Rightarrow> True | Accepted \<Rightarrow> True | _ \<Rightarrow> False)"

definition CanBeCancelled :: "floor_request \<Rightarrow> bool" where
  "CanBeCancelled r = (case fr_status r of Pending \<Rightarrow> True | Accepted \<Rightarrow> True | _ \<Rightarrow> False)"

lemmas floor_request_ops = SetBeneficiaryId_def AddFloorId_def SetStatus_def HasFloorId_def IsGranted_def

lemma SetStatus_sel [simp]:
  "fr_status (SetStatus s r) = s"
  "fr_floorRequestId (SetStatus s r) = fr_floorRequestId r"
  "fr_userId (SetStatus s r) = fr_userId r"
  "fr_conferenceId (SetStatus s r) = fr_conferenceId r"
  "fr_beneficiaryId (SetStatus s r) = fr_beneficiaryId r"
  "fr_floorIds (SetStatus s r) = fr_floorIds r"
  "fr_queuePosition (SetStatus s r) = fr_queuePosition r"
  by (simp_all add: SetStatus_def)

lemma IsGranted_SetStatus [simp]: "IsGranted (SetStatus s r) \<longleftrightarrow> s = Granted"
  by (simp add: IsGranted_def)

lemma HasFloorId_SetStatus [simp]: "HasFloorId (SetStatus s r) f = HasFloorId r f"
  by (simp add: HasFloorId_def)

lemma granted_cannot: "IsGranted r \<Longrightarrow> \<not> CanBeGranted r \<and> \<not> CanBeDenied r \<and> \<not> CanBeCancelled r"
  by (simp add: IsGranted_def CanBeGranted_def CanBeDenied_def CanBeCancelled_def)

text \<open>\<open>CreateFloorRequestInformation\<close>: one status per floor, then the overall status, the
  beneficiary and the requester.\<close>

definition CreateFloorRequestInformation :: "floor_request \<Rightarrow> floor_request_information" where
  "CreateFloorRequestInformation r =
     (let rs = request_status_new (fr_status r) (fr_queuePosition r);
          fri = fold (\<lambda>f. fri_AddFloorRequestStatus (frs_SetRequestStatus rs (floor_request_status_new f)))
                  (fr_floorIds r) (floor_request_information_new (fr_floorRequestId r));
          overall = ors_SetRequestStatus rs (overall_request_status_new (fr_floorRequestId r));
          fri = fri_SetOverallRequestStatus overall fri;
          fri = fri_SetBeneficiaryInformation (beneficiary_information_new (fr_beneficiaryId r)) fri
      in fri_SetRequestedByInformation \<lparr>rbi_requestedById = fr_userId r\<rparr> fri)"

text \<open>
  \<open>CreateFloorRequestStatus(transactionId)\<close>.  The overload without an argument builds the
  notification with transaction id 0; its body lacks the \<open>return\<close> its signature promises, and
  it is modelled as returning the message it builds.
\<close>

definition CreateFloorRequestStatus :: "floor_request \<Rightarrow> int \<Rightarrow> bfcp_msg res" where
  "CreateFloorRequestStatus r transactionId =
     msg_SetFloorRequestInformation (CreateFloorRequestInformation r)
       (BFCPMsgFloorRequestStatus_new transactionId (fr_conferenceId r) (fr_userId r))"

definition CreateFloorRequestStatus_notification :: "floor_request \<Rightarrow> bfcp_msg res" where
  "CreateFloorRequestStatus_notification r = CreateFloorRequestStatus r 0"

lemma fold_AddFloorRequestStatus:
  "fold (\<lambda>f. fri_AddFloorRequestStatus (g f)) fs fri =
     fri\<lparr>fri_floorRequestStatuses := fri_floorRequestStatuses fri @ map g fs\<rparr>"
  by (induction fs arbitrary: fri) (simp_all add: fri_AddFloorRequestStatus_def)

text \<open>The information attribute in closed form.\<close>

lemma CreateFloorRequestInformation_eq:
  "CreateFloorRequestInformation r =
    (let rs = \<lparr>rs_status = fr_status r, rs_queuePosition = fr_queuePosition r\<rparr> in
     \<lparr>fri_floorRequestId = BFCPAttrFloorRequestId (fr_floorRequestId r),
      fri_floorRequestStatuses =
        map (\<lambda>f. \<lparr>frs_floorId = BFCPAttrFloorId f, frs_requestStatus = Some rs\<rparr>) (fr_floorIds r),
      fri_overallRequestStatus =
        Some \<lparr>ors_floorRequestId = BFCPAttrFloorRequestId (fr_floorRequestId r),
              ors_requestStatus = Some rs, ors_statusInfo = None\<rparr>,
      fri_beneficiaryInformation =
        Some \<lparr>bi_beneficiaryId = BFCPAttrBeneficiaryId (fr_beneficiaryId r)\<rparr>,
      fri_requestedByInformation = Some \<lparr>rbi_requestedById = fr_userId r\<rparr>\<rparr>)"
  by (simp add: CreateFloorRequestInformation_def fold_AddFloorRequestStatus Let_def
      request_status_new_def frs_SetRequestStatus_def floor_request_status_new_def
      floor_request_information_new_def ors_SetRequestStatus_def overall_request_status_new_def
      fri_SetOverallRequestStatus_def fri_SetBeneficiaryInformation_def
      beneficiary_information_new_def fri_SetRequestedByInformation_def)

section \<open>Users\<close>

text \<open>
  The transport of a user is a WebSocket, named by a number.  \<open>u_addr\<close> is the address of the
  object: the server keeps a \<open>std::map\<close> keyed by user pointers, whose order is the order of
  the addresses.
\<close>

record bfcp_user =
  u_addr :: nat
  u_userId :: int
  u_conferenceId :: int
  u_isChair :: bool
  u_transport :: "nat option"
  u_queriedFloorIds :: "int list"

definition BFCPUser_new :: "nat \<Rightarrow> int \<Rightarrow> int \<Rightarrow> bfcp_user" where
  "BFCPUser_new addr userId conferenceId =
     \<lparr>u_addr = addr, u_userId = userId, u_conferenceId = conferenceId, u_isChair = False,
      u_transport = None, u_queriedFloorIds = []\<rparr>"

definition user_SetChair :: "bfcp_user \<Rightarrow> bfcp_user" where
  "user_SetChair u = u\<lparr>u_isChair := True\<rparr>"

definition user_UnsetChair :: "bfcp_user \<Rightarrow> bfcp_user" where
  "user_UnsetChair u = u\<lparr>u_isChair := False\<rparr>"

definition user_SetTransport :: "nat \<Rightarrow> bfcp_user \<Rightarrow> bfcp_user" where
  "user_SetTransport ws u = u\<lparr>u_transport := Some ws\<rparr>"

definition user_UnsetTransport :: "bfcp_user \<Rightarrow> bfcp_user" where
  "user_UnsetTransport u = u\<lparr>u_transport := None\<rparr>"

definition user_IsConnected :: "bfcp_user \<Rightarrow> bool" where
  "user_IsConnected u = (u_transport u \<noteq> None)"

definition user_ResetQueriedFloorIds :: "bfcp_user \<Rightarrow> bfcp_user" where
  "user_ResetQueriedFloorIds u = u\<lparr>u_queriedFloorIds := []\<rparr>"

definition user_AddQueriedFloorId :: "int \<Rightarrow> bfcp_user \<Rightarrow> bfcp_user" where
  "user_AddQueriedFloorId f u =
     (if f \<in> set (u_queriedFloorIds u) then u
      else u\<lparr>u_queriedFloorIds := u_queriedFloorIds u @ [f]\<rparr>)"

definition user_CountQueriedFloorIds :: "bfcp_user \<Rightarrow> nat" where
  "user_CountQueriedFloorIds u = length (u_queriedFloorIds u)"

definition user_HasQueriedFloorId :: "bfcp_user \<Rightarrow> int \<Rightarrow> bool" where
  "user_HasQueriedFloorId u f = (f \<in> set (u_queriedFloorIds u))"

definition user_GetQueriedFloorId :: "bfcp_user \<Rightarrow> nat \<Rightarrow> int res" where
  "user_GetQueriedFloorId u i =
     (if length (u_queriedFloorIds u) \<le> i then Fault (Thrown ''AttributeNotFound: queriedFloorId'')
      else Ok (u_queriedFloorIds u ! i))"

lemmas user_ops = user_SetChair_def user_UnsetChair_def user_SetTransport_def
  user_UnsetTransport_def user_ResetQueriedFloorIds_def user_AddQueriedFloorId_def

lemma user_ops_id [simp]:
  "u_userId (user_SetChair u) = u_userId u" "u_addr (user_SetChair u) = u_addr u"
  "u_userId (user_UnsetChair u) = u_userId u" "u_addr (user_UnsetChair u) = u_addr u"
  "u_userId (user_SetTransport ws u) = u_userId u" "u_addr (user_SetTransport ws u) = u_addr u"
  "u_userId (user_UnsetTransport u) = u_userId u" "u_addr (user_UnsetTransport u) = u_addr u"
  "u_userId (user_ResetQueriedFloorIds u) = u_userId u"
  "u_addr (user_ResetQueriedFloorIds u) = u_addr u"
  "u_userId (user_AddQueriedFloorId f u) = u_userId u"
  "u_addr (user_AddQueriedFloorId f u) = u_addr u"
  by (simp_all add: user_ops)

lemma fold_AddQueriedFloorId:
  "distinct (u_queriedFloorIds u) \<Longrightarrow>
   distinct (u_queriedFloorIds (fold user_AddQueriedFloorId fs u)) \<and>
   set (u_queriedFloorIds (fold user_AddQueriedFloorId fs u)) = set (u_queriedFloorIds u) \<union> set fs"
  by (induction fs arbitrary: u) (auto simp: user_AddQueriedFloorId_def)

lemma fold_AddQueriedFloorId_sel [simp]:
  "u_userId (fold user_AddQueriedFloorId fs u) = u_userId u"
  "u_addr (fold user_AddQueriedFloorId fs u) = u_addr u"
  "u_transport (fold user_AddQueriedFloorId fs u) = u_transport u"
  "u_isChair (fold user_AddQueriedFloorId fs u) = u_isChair u"
  by (induction fs arbitrary: u) (auto simp: user_AddQueriedFloorId_def)

end
