(* ===== verification/Bytes.thy ===== *)
theory Bytes
  imports Prelude
begin

unbundle bit_operations_syntax

text \<open>
  Byte buffers.  The big-endian accessors \<open>get1\<close> to \<open>get8\<close> and \<open>set1\<close> to \<open>set8\<close> of
  \<open>src/mcu/include/tools.h\<close>, and the incremental integer parsers \<open>U16Parser\<close>, \<open>U32Parser\<close> and
  \<open>U29Parser\<close> of \<open>src/mcu/src/amf.cpp\<close>.  A buffer is the list of the bytes that may be accessed;
  an access outside it is the fault \<open>OutOfBounds\<close>.
\<close>

type_synonym BYTE = "8 word"
type_synonym WORD = "16 word"
type_synonym DWORD = "32 word"
type_synonym QWORD = "64 word"

section \<open>Accessors\<close>

definition byte_at :: "BYTE list \<Rightarrow> nat \<Rightarrow> BYTE res" where
  "byte_at data i = (if i < length data then Ok (data ! i) else Fault OutOfBounds)"

definition byte_put :: "nat \<Rightarrow> BYTE \<Rightarrow> BYTE list \<Rightarrow> BYTE list res" where
  "byte_put i b data = (if i < length data then Ok (data[i := b]) else Fault OutOfBounds)"

definition get1 :: "BYTE list \<Rightarrow> nat \<Rightarrow> BYTE res" where
  "get1 data i = byte_at data i"

definition get2 :: "BYTE list \<Rightarrow> nat \<Rightarrow> DWORD res" where
  "get2 data i =
     bindR (byte_at data (i + 1)) (\<lambda>b1. bindR (byte_at data i) (\<lambda>b0.
       Ok (ucast b1 OR push_bit 8 (ucast b0))))"

definition get3 :: "BYTE list \<Rightarrow> nat \<Rightarrow> DWORD res" where
  "get3 data i =
     bindR (byte_at data (i + 2)) (\<lambda>b2. bindR (byte_at data (i + 1)) (\<lambda>b1.
     bindR (byte_at data i) (\<lambda>b0.
       Ok (ucast b2 OR push_bit 8 (ucast b1) OR push_bit 16 (ucast b0)))))"

definition get4 :: "BYTE list \<Rightarrow> nat \<Rightarrow> DWORD res" where
  "get4 data i =
     bindR (byte_at data (i + 3)) (\<lambda>b3. bindR (byte_at data (i + 2)) (\<lambda>b2.
     bindR (byte_at data (i + 1)) (\<lambda>b1. bindR (byte_at data i) (\<lambda>b0.
       Ok (ucast b3 OR push_bit 8 (ucast b2) OR push_bit 16 (ucast b1) OR push_bit 24 (ucast b0))))))"

definition get8 :: "BYTE list \<Rightarrow> nat \<Rightarrow> QWORD res" where
  "get8 data i =
     bindR (get4 data i) (\<lambda>hi. bindR (get4 data (i + 4)) (\<lambda>lo.
       Ok (push_bit 32 (ucast hi) OR ucast lo)))"

definition set1 :: "BYTE list \<Rightarrow> nat \<Rightarrow> BYTE \<Rightarrow> BYTE list res" where
  "set1 data i val = byte_put i val data"

definition set2 :: "BYTE list \<Rightarrow> nat \<Rightarrow> DWORD \<Rightarrow> BYTE list res" where
  "set2 data i val =
     bindR (byte_put (i + 1) (ucast val) data) (\<lambda>data.
     byte_put i (ucast (drop_bit 8 val)) data)"

definition set3 :: "BYTE list \<Rightarrow> nat \<Rightarrow> DWORD \<Rightarrow> BYTE list res" where
  "set3 data i val =
     bindR (byte_put (i + 2) (ucast val) data) (\<lambda>data.
     bindR (byte_put (i + 1) (ucast (drop_bit 8 val)) data) (\<lambda>data.
     byte_put i (ucast (drop_bit 16 val)) data))"

definition set4 :: "BYTE list \<Rightarrow> nat \<Rightarrow> DWORD \<Rightarrow> BYTE list res" where
  "set4 data i val =
     bindR (byte_put (i + 3) (ucast val) data) (\<lambda>data.
     bindR (byte_put (i + 2) (ucast (drop_bit 8 val)) data) (\<lambda>data.
     bindR (byte_put (i + 1) (ucast (drop_bit 16 val)) data) (\<lambda>data.
     byte_put i (ucast (drop_bit 24 val)) data)))"

definition set8 :: "BYTE list \<Rightarrow> nat \<Rightarrow> QWORD \<Rightarrow> BYTE list res" where
  "set8 data i val =
     bindR (byte_put (i + 7) (ucast val) data) (\<lambda>data.
     bindR (byte_put (i + 6) (ucast (drop_bit 8 val)) data) (\<lambda>data.
     bindR (byte_put (i + 5) (ucast (drop_bit 16 val)) data) (\<lambda>data.
     bindR (byte_put (i + 4) (ucast (drop_bit 24 val)) data) (\<lambda>data.
     bindR (byte_put (i + 3) (ucast (drop_bit 32 val)) data) (\<lambda>data.
     bindR (byte_put (i + 2) (ucast (drop_bit 40 val)) data) (\<lambda>data.
     bindR (byte_put (i + 1) (ucast (drop_bit 48 val)) data) (\<lambda>data.
     byte_put i (ucast (drop_bit 56 val)) data)))))))"

lemmas get_set_defs = get1_def get2_def get3_def get4_def set1_def set2_def set3_def set4_def

lemma byte_at_Ok [simp]: "i < length data \<Longrightarrow> byte_at data i = Ok (data ! i)"
  by (simp add: byte_at_def)

lemma byte_put_Ok [simp]: "i < length data \<Longrightarrow> byte_put i b data = Ok (data[i := b])"
  by (simp add: byte_put_def)

lemma bit_shift_back: "\<not> bit v (k + (n - k)) \<Longrightarrow> bit v n \<Longrightarrow> n < k"
  by (rule ccontr) simp

lemma word32_bytes:
  fixes v :: DWORD
  shows "ucast (ucast v :: BYTE) OR push_bit 8 (ucast (ucast (drop_bit 8 v) :: BYTE)) OR
     push_bit 16 (ucast (ucast (drop_bit 16 v) :: BYTE)) OR
     push_bit 24 (ucast (ucast (drop_bit 24 v) :: BYTE)) = v"
  by (rule bit_word_eqI) (auto simp: bit_simps dest: bit_shift_back)

lemma word24_bytes:
  fixes v :: DWORD
  shows "ucast (ucast v :: BYTE) OR push_bit 8 (ucast (ucast (drop_bit 8 v) :: BYTE)) OR
     push_bit 16 (ucast (ucast (drop_bit 16 v) :: BYTE)) = take_bit 24 v"
  by (rule bit_word_eqI) (auto simp: bit_simps dest: bit_shift_back)

lemma word16_bytes:
  fixes v :: DWORD
  shows "ucast (ucast v :: BYTE) OR push_bit 8 (ucast (ucast (drop_bit 8 v) :: BYTE)) = take_bit 16 v"
  by (rule bit_word_eqI) (auto simp: bit_simps)

lemma get2_set2: "i + 2 \<le> length d \<Longrightarrow> bindR (set2 d i v) (\<lambda>d. get2 d i) = Ok (take_bit 16 v)"
  by (simp add: get_set_defs word16_bytes)

lemma get3_set3: "i + 3 \<le> length d \<Longrightarrow> bindR (set3 d i v) (\<lambda>d. get3 d i) = Ok (take_bit 24 v)"
  by (simp add: get_set_defs word24_bytes)

lemma get4_set4: "i + 4 \<le> length d \<Longrightarrow> bindR (set4 d i v) (\<lambda>d. get4 d i) = Ok v"
  by (simp add: get_set_defs word32_bytes)

lemma byte_of_high:
  fixes v :: QWORD
  shows "k < 25 \<Longrightarrow> (ucast (drop_bit (32 + k) v) :: BYTE) = ucast (drop_bit k (ucast (drop_bit 32 v) :: DWORD))"
    and "k < 25 \<Longrightarrow> (ucast (drop_bit k v) :: BYTE) = ucast (drop_bit k (ucast v :: DWORD))"
  by (rule bit_word_eqI; auto simp: bit_simps ac_simps)+

lemma word64_halves:
  fixes v :: QWORD
  shows "push_bit 32 (ucast (ucast (drop_bit 32 v) :: DWORD)) OR ucast (ucast v :: DWORD) = v"
  by (rule bit_word_eqI) (auto simp: bit_simps dest: bit_shift_back)

lemma word64_bytes:
  fixes v :: QWORD
  shows "push_bit 32 (ucast (ucast (ucast (drop_bit 32 v) :: BYTE) OR
       push_bit 8 (ucast (ucast (drop_bit 40 v) :: BYTE)) OR
       push_bit 16 (ucast (ucast (drop_bit 48 v) :: BYTE)) OR
       push_bit 24 (ucast (ucast (drop_bit 56 v) :: BYTE)) :: DWORD)) OR
     ucast (ucast (ucast v :: BYTE) OR push_bit 8 (ucast (ucast (drop_bit 8 v) :: BYTE)) OR
     push_bit 16 (ucast (ucast (drop_bit 16 v) :: BYTE)) OR
     push_bit 24 (ucast (ucast (drop_bit 24 v) :: BYTE)) :: DWORD) = v"
  using word32_bytes [of "ucast (drop_bit 32 v)"] word32_bytes [of "ucast v"] word64_halves [of v]
    byte_of_high(1) [of 0 v] byte_of_high(1) [of 8 v] byte_of_high(1) [of 16 v]
    byte_of_high(1) [of 24 v] byte_of_high(2) [of 0 v] byte_of_high(2) [of 8 v]
    byte_of_high(2) [of 16 v] byte_of_high(2) [of 24 v]
  by simp

lemma get8_set8: "i + 8 \<le> length d \<Longrightarrow> bindR (set8 d i v) (\<lambda>d. get8 d i) = Ok v"
  by (simp add: get8_def get4_def set8_def word64_bytes nth_list_update)

lemma set4_length: "set4 d i v = Ok d' \<Longrightarrow> length d' = length d"
  by (auto simp: set4_def byte_put_def split: if_splits)

lemma set2_length: "set2 d i v = Ok d' \<Longrightarrow> length d' = length d"
  by (auto simp: set2_def byte_put_def split: if_splits)

section \<open>Incremental integer parsers\<close>

text \<open>
  \<open>U16Parser\<close> and \<open>U32Parser\<close> count the missing bytes down in \<open>len\<close> and shift each byte to
  its place.  The counter \<open>i\<close> is a \<open>BYTE\<close>, which cannot wrap: it stops at 4 at the latest.
\<close>

record u16_parser =
  u16_value :: WORD
  u16_len :: nat

definition U16_Reset :: u16_parser where
  "U16_Reset = \<lparr>u16_value = 0, u16_len = 2\<rparr>"

fun U16_Parse :: "BYTE list \<Rightarrow> u16_parser \<Rightarrow> nat \<times> u16_parser" where
  "U16_Parse [] p = (0, p)"
| "U16_Parse (b # data) p =
     (if u16_len p = 0 then (0, p)
      else let l = u16_len p - 1;
               (i, q) = U16_Parse data
                 \<lparr>u16_value = u16_value p OR ucast (push_bit (l * 8) (ucast b :: DWORD)), u16_len = l\<rparr>
           in (Suc i, q))"

definition U16_IsParsed :: "u16_parser \<Rightarrow> bool" where
  "U16_IsParsed p = (u16_len p = 0)"

definition U16_Serialize :: "WORD \<Rightarrow> BYTE list \<Rightarrow> (DWORD \<times> BYTE list) res" where
  "U16_Serialize v data =
     (if length data < 2 then Ok (- 1, data)
      else bindR (set2 data 0 (ucast v)) (\<lambda>data. Ok (2, data)))"

record u32_parser =
  u32_value :: DWORD
  u32_len :: nat

definition U32_Reset :: u32_parser where
  "U32_Reset = \<lparr>u32_value = 0, u32_len = 4\<rparr>"

fun U32_Parse :: "BYTE list \<Rightarrow> u32_parser \<Rightarrow> nat \<times> u32_parser" where
  "U32_Parse [] p = (0, p)"
| "U32_Parse (b # data) p =
     (if u32_len p = 0 then (0, p)
      else let l = u32_len p - 1;
               (i, q) = U32_Parse data
                 \<lparr>u32_value = u32_value p OR push_bit (l * 8) (ucast b), u32_len = l\<rparr>
           in (Suc i, q))"

definition U32_IsParsed :: "u32_parser \<Rightarrow> bool" where
  "U32_IsParsed p = (u32_len p = 0)"

definition U32_Serialize :: "DWORD \<Rightarrow> BYTE list \<Rightarrow> (DWORD \<times> BYTE list) res" where
  "U32_Serialize v data =
     (if length data < 4 then Ok (- 1, data)
      else bindR (set4 data 0 v) (\<lambda>data. Ok (4, data)))"

lemma U32_Parse_append:
  "U32_Parse (xs @ ys) p =
     (let (i, q) = U32_Parse xs p; (j, r) = U32_Parse ys q in (i + j, r))"
proof (induction xs p rule: U32_Parse.induct)
  case (1 p)
  then show ?case by simp
next
  case (2 b xs p)
  have "u32_len p = 0 \<Longrightarrow> U32_Parse ys p = (0, p)" by (cases ys) auto
  with 2 show ?case by (auto simp: Let_def split: prod.splits)
qed

lemma U16_Parse_append:
  "U16_Parse (xs @ ys) p =
     (let (i, q) = U16_Parse xs p; (j, r) = U16_Parse ys q in (i + j, r))"
proof (induction xs p rule: U16_Parse.induct)
  case (1 p)
  then show ?case by simp
next
  case (2 b xs p)
  have "u16_len p = 0 \<Longrightarrow> U16_Parse ys p = (0, p)" by (cases ys) auto
  with 2 show ?case by (auto simp: Let_def split: prod.splits)
qed

lemma U32_roundtrip:
  assumes "4 \<le> length d" "U32_Serialize v d = Ok (n, d')"
  shows "U32_Parse d' U32_Reset = (4, \<lparr>u32_value = v, u32_len = 0\<rparr>)"
proof -
  obtain b0 b1 b2 b3 r where d: "d = b0 # b1 # b2 # b3 # r"
    using assms(1) by (auto simp: Suc_le_length_iff numeral_eq_Suc)
  have v: "push_bit 24 (ucast (ucast (drop_bit 24 v) :: BYTE)) OR
     push_bit 16 (ucast (ucast (drop_bit 16 v) :: BYTE)) OR
     push_bit 8 (ucast (ucast (drop_bit 8 v) :: BYTE)) OR ucast (ucast v :: BYTE) = v"
    using word32_bytes [of v] by (simp add: ac_simps)
  have "d' = ucast (drop_bit 24 v) # ucast (drop_bit 16 v) # ucast (drop_bit 8 v) # ucast v # r"
    using assms(2) d by (auto simp: U32_Serialize_def set4_def)
  moreover have "U32_Parse r \<lparr>u32_value = x, u32_len = 0\<rparr> = (0, \<lparr>u32_value = x, u32_len = 0\<rparr>)" for x
    by (cases r) auto
  ultimately show ?thesis by (simp add: U32_Reset_def Let_def or.assoc v)
qed

text \<open>
  \<open>U29Parser::Parse\<close>.  The loop neither advances \<open>i\<close> nor counts \<open>len\<close>, and always reads the
  first byte; a loop that does not end is the value \<open>None\<close>.  The constructor leaves \<open>last\<close>
  unset, so it is an argument of \<open>U29_Reset\<close>.
\<close>

record u29_parser =
  u29_value :: DWORD
  u29_len :: nat
  u29_last :: bool

definition U29_Reset :: "bool \<Rightarrow> u29_parser" where
  "U29_Reset l = \<lparr>u29_value = 0, u29_len = 0, u29_last = l\<rparr>"

partial_function (option) U29_Parse ::
  "BYTE list \<Rightarrow> nat \<Rightarrow> u29_parser \<Rightarrow> (DWORD \<times> u29_parser) option" where
  "U29_Parse data i p =
     (if \<not> u29_last p \<and> i < length data then
        (if u29_len p = 4 then Some (- 1, p)
         else U29_Parse data i
           (p\<lparr>u29_last := \<not> bit (data ! 0) 7,
              u29_value := u29_value p + push_bit (7 * u29_len p) (ucast (data ! 0 AND 0x7F))\<rparr>))
      else Some (of_nat i, p))"

end
