(* ===== verification/UTF8.thy ===== *)
theory UTF8
  imports Bytes
begin

text \<open>
  \<open>UTF8Parser\<close> (\<open>src/mcu/include/amf.h\<close>, \<open>src/mcu/src/amf.cpp\<close>): an incremental decoder from
  UTF-8 to wide characters that is fed a message in pieces, and the encoder.  A \<open>wchar_t\<close> is an
  \<open>int\<close>; the sizes are 32-bit words, since a fresh parser holds the size \<open>-1\<close>.  A malformed
  sequence is decoded to a full stop and does not stop the parser.
\<close>

record utf8_parser =
  utf8_value :: wstring
  utf8_size :: DWORD
  utf8_bytes :: nat
  utf8_len :: DWORD
  utf8_w :: int

definition UTF8_new :: utf8_parser where
  "UTF8_new = \<lparr>utf8_value = [], utf8_size = - 1, utf8_bytes = 0, utf8_len = 0, utf8_w = 0\<rparr>"

definition UTF8_Reset :: "utf8_parser \<Rightarrow> utf8_parser" where
  "UTF8_Reset p = \<lparr>utf8_value = [], utf8_size = - 1, utf8_bytes = 0, utf8_len = 0, utf8_w = 0\<rparr>"

definition UTF8_SetSize :: "DWORD \<Rightarrow> utf8_parser \<Rightarrow> utf8_parser" where
  "UTF8_SetSize n p = p\<lparr>utf8_size := n\<rparr>"

text \<open>The body of the loop of \<open>Parse\<close>; 46 is \<open>L'.'\<close>.\<close>

definition UTF8_byte :: "BYTE \<Rightarrow> utf8_parser \<Rightarrow> utf8_parser" where
  "UTF8_byte c p =
     (if c \<le> 0x7f then
        (let p = (if utf8_bytes p \<noteq> 0 then p\<lparr>utf8_value := utf8_value p @ [46], utf8_bytes := 0\<rparr> else p)
         in p\<lparr>utf8_value := utf8_value p @ [uint c]\<rparr>)
      else if c \<le> 0xbf then
        (if utf8_bytes p \<noteq> 0 then
           (let w = push_bit 6 (utf8_w p) OR uint (c AND 0x3f);
                p = p\<lparr>utf8_w := w, utf8_bytes := utf8_bytes p - 1\<rparr>
            in if utf8_bytes p = 0 then p\<lparr>utf8_value := utf8_value p @ [w]\<rparr> else p)
         else p\<lparr>utf8_value := utf8_value p @ [46]\<rparr>)
      else if c \<le> 0xdf then p\<lparr>utf8_bytes := 1, utf8_w := uint (c AND 0x1f)\<rparr>
      else if c \<le> 0xef then p\<lparr>utf8_bytes := 2, utf8_w := uint (c AND 0x0f)\<rparr>
      else if c \<le> 0xf7 then p\<lparr>utf8_bytes := 3, utf8_w := uint (c AND 0x07)\<rparr>
      else p\<lparr>utf8_value := utf8_value p @ [46], utf8_bytes := 0\<rparr>)"

definition UTF8_Parse :: "BYTE list \<Rightarrow> utf8_parser \<Rightarrow> DWORD \<times> utf8_parser" where
  "UTF8_Parse buffer p =
     (let n = of_nat (length buffer);
          copy = utf8_size p - utf8_len p;
          copy = (if n < copy then n else copy);
          p = fold UTF8_byte (take (unat copy) buffer) p
      in (copy, p\<lparr>utf8_len := utf8_len p + copy\<rparr>))"

definition UTF8_IsParsed :: "utf8_parser \<Rightarrow> bool" where
  "UTF8_IsParsed p = (utf8_len p = utf8_size p)"

definition UTF8_GetWString :: "utf8_parser \<Rightarrow> wstring" where
  "UTF8_GetWString p = utf8_value p"

definition utf8_width :: "int \<Rightarrow> nat" where
  "utf8_width w = (if w \<le> 0x7f then 1 else if w \<le> 0x7ff then 2 else if w \<le> 0xffff then 3 else 4)"

definition UTF8_SetWString :: "wstring \<Rightarrow> utf8_parser \<Rightarrow> utf8_parser" where
  "UTF8_SetWString str p =
     p\<lparr>utf8_value := str, utf8_size := fold (\<lambda>w n. n + of_nat (utf8_width w)) str 0\<rparr>"

definition UTF8_encode_char :: "int \<Rightarrow> BYTE list" where
  "UTF8_encode_char w =
     (if w \<le> 0x7f then [word_of_int w]
      else if w \<le> 0x7ff then
        [word_of_int (0xc0 OR (drop_bit 6 w AND 0x1f)), word_of_int (0x80 OR (w AND 0x3f))]
      else if w \<le> 0xffff then
        [word_of_int (0xe0 OR (drop_bit 12 w AND 0x0f)), word_of_int (0x80 OR (drop_bit 6 w AND 0x3f)),
         word_of_int (0x80 OR (w AND 0x3f))]
      else if w \<le> 0x10ffff then
        [word_of_int (0xf0 OR (drop_bit 18 w AND 0x07)), word_of_int (0x80 OR (drop_bit 12 w AND 0x3f)),
         word_of_int (0x80 OR (drop_bit 6 w AND 0x3f)), word_of_int (0x80 OR (w AND 0x3f))]
      else [46])"

text \<open>
  \<open>Serialize(buffer, size)\<close>: the bytes written from the start of the buffer; their number is the
  value returned.  Nothing is written when the buffer is smaller than the size computed before.
\<close>

definition UTF8_Serialize :: "nat \<Rightarrow> utf8_parser \<Rightarrow> BYTE list" where
  "UTF8_Serialize n p =
     (if n < unat (utf8_size p) then [] else concat (map UTF8_encode_char (utf8_value p)))"

section \<open>Encoding and decoding\<close>

text \<open>The characters that have an encoding.\<close>

definition unicode :: "int \<Rightarrow> bool" where
  "unicode w \<longleftrightarrow> 0 \<le> w \<and> w \<le> 0x10ffff"

lemma or_is_add:
  assumes "0 \<le> y" "y < 2 ^ n"
  shows "push_bit n x OR y = x * 2 ^ n + (y :: int)"
proof -
  have "take_bit n y = y" using assms by (simp add: take_bit_int_eq_self)
  then have b: "bit y m \<Longrightarrow> m < n" for m by (metis bit_take_bit_iff)
  have "push_bit n x AND y = 0" by (rule bit_eqI) (auto simp: bit_simps dest: b)
  then show ?thesis by (simp add: disjunctive_add_eq_or push_bit_eq_mult)
qed

lemma and_low:
  "(w :: int) AND 63 = w mod 64" "w AND 31 = w mod 32" "w AND 15 = w mod 16" "w AND 7 = w mod 8"
  using take_bit_eq_mask [of 6 w] take_bit_eq_mask [of 5 w] take_bit_eq_mask [of 4 w]
    take_bit_eq_mask [of 3 w]
  by (simp_all add: mask_eq_exp_minus_1 take_bit_eq_mod)

lemma or_lead:
  "0 \<le> y \<Longrightarrow> y < 64 \<Longrightarrow> 192 OR y = 192 + (y :: int)"
  "0 \<le> y \<Longrightarrow> y < 64 \<Longrightarrow> 128 OR y = 128 + (y :: int)"
  "0 \<le> y \<Longrightarrow> y < 32 \<Longrightarrow> 224 OR y = 224 + (y :: int)"
  "0 \<le> y \<Longrightarrow> y < 16 \<Longrightarrow> 240 OR y = 240 + (y :: int)"
  using or_is_add [of y 6 3] or_is_add [of y 6 2] or_is_add [of y 5 7] or_is_add [of y 4 15]
  by simp_all

definition byte_of :: "int \<Rightarrow> BYTE" where
  "byte_of x = word_of_int x"

lemma encode_char_eq:
  "UTF8_encode_char w =
     (if w \<le> 127 then [byte_of w]
      else if w \<le> 2047 then [byte_of (192 + w div 64 mod 32), byte_of (128 + w mod 64)]
      else if w \<le> 65535 then
        [byte_of (224 + w div 4096 mod 16), byte_of (128 + w div 64 mod 64),
         byte_of (128 + w mod 64)]
      else if w \<le> 1114111 then
        [byte_of (240 + w div 262144 mod 8), byte_of (128 + w div 4096 mod 64),
         byte_of (128 + w div 64 mod 64), byte_of (128 + w mod 64)]
      else [46])"
proof -
  have m: "0 \<le> x mod 64 \<and> x mod 64 < 64" "0 \<le> x mod 32 \<and> x mod 32 < 32 \<and> x mod 32 < 64"
    "0 \<le> x mod 16 \<and> x mod 16 < 16 \<and> x mod 16 < 32" "0 \<le> x mod 8 \<and> x mod 8 < 16" for x :: int
    using pos_mod_bound [of 64 x] pos_mod_bound [of 32 x] pos_mod_bound [of 16 x] pos_mod_bound [of 8 x]
    by auto
  show ?thesis
    by (simp add: UTF8_encode_char_def drop_bit_eq_div and_low or_lead m byte_of_def)
qed

lemma uint_byte: "0 \<le> x \<Longrightarrow> x < 256 \<Longrightarrow> uint (byte_of x) = x"
  by (simp add: byte_of_def uint_word_of_int)

text \<open>The loop body by the value of the byte.\<close>

lemma UTF8_byte_eq:
  "UTF8_byte c p =
     (let x = uint c in
      if x \<le> 127 then
        (if utf8_bytes p \<noteq> 0 then p\<lparr>utf8_value := utf8_value p @ [46, x], utf8_bytes := 0\<rparr>
         else p\<lparr>utf8_value := utf8_value p @ [x]\<rparr>)
      else if x \<le> 191 then
        (if utf8_bytes p = 0 then p\<lparr>utf8_value := utf8_value p @ [46]\<rparr>
         else let w = utf8_w p * 64 + x mod 64 in
           if utf8_bytes p = 1 then p\<lparr>utf8_w := w, utf8_bytes := 0, utf8_value := utf8_value p @ [w]\<rparr>
           else p\<lparr>utf8_w := w, utf8_bytes := utf8_bytes p - 1\<rparr>)
      else if x \<le> 223 then p\<lparr>utf8_bytes := 1, utf8_w := x mod 32\<rparr>
      else if x \<le> 239 then p\<lparr>utf8_bytes := 2, utf8_w := x mod 16\<rparr>
      else if x \<le> 247 then p\<lparr>utf8_bytes := 3, utf8_w := x mod 8\<rparr>
      else p\<lparr>utf8_value := utf8_value p @ [46], utf8_bytes := 0\<rparr>)"
proof -
  have "push_bit 6 (utf8_w p) OR uint c mod 64 = utf8_w p * 64 + uint c mod 64"
    using or_is_add [of "uint c mod 64" 6] by simp
  then show ?thesis
    by (auto simp: UTF8_byte_def word_le_def unsigned_and_eq and_low Let_def)
qed

text \<open>One step on a leading byte and on a continuation byte.\<close>

lemma div_div: "(w :: int) div 64 div 64 = w div 4096" "w div 4096 div 64 = w div 262144"
  by (simp_all flip: zdiv_zmult2_eq)

lemma byte_lead:
  "0 \<le> a \<Longrightarrow> a < 32 \<Longrightarrow> UTF8_byte (byte_of (192 + a)) p = p\<lparr>utf8_bytes := 1, utf8_w := a\<rparr>"
  "0 \<le> a \<Longrightarrow> a < 16 \<Longrightarrow> UTF8_byte (byte_of (224 + a)) p = p\<lparr>utf8_bytes := 2, utf8_w := a\<rparr>"
  "0 \<le> a \<Longrightarrow> a < 8 \<Longrightarrow> UTF8_byte (byte_of (240 + a)) p = p\<lparr>utf8_bytes := 3, utf8_w := a\<rparr>"
proof -
  assume a: "0 \<le> a" "a < 32"
  then have "(192 + a) mod 32 = a" using mod_mult_self1 [of a 6 32] by (simp add: add.commute)
  with a show "UTF8_byte (byte_of (192 + a)) p = p\<lparr>utf8_bytes := 1, utf8_w := a\<rparr>"
    by (simp add: UTF8_byte_eq uint_byte)
next
  assume a: "0 \<le> a" "a < 16"
  then have "(224 + a) mod 16 = a" using mod_mult_self1 [of a 14 16] by (simp add: add.commute)
  with a show "UTF8_byte (byte_of (224 + a)) p = p\<lparr>utf8_bytes := 2, utf8_w := a\<rparr>"
    by (simp add: UTF8_byte_eq uint_byte)
next
  assume a: "0 \<le> a" "a < 8"
  then have "(240 + a) mod 8 = a" using mod_mult_self1 [of a 30 8] by (simp add: add.commute)
  with a show "UTF8_byte (byte_of (240 + a)) p = p\<lparr>utf8_bytes := 3, utf8_w := a\<rparr>"
    by (simp add: UTF8_byte_eq uint_byte)
qed

lemma byte_cont:
  assumes "0 \<le> a" "a < 64" "utf8_bytes p = Suc n"
  shows "UTF8_byte (byte_of (128 + a)) p =
    (let w = utf8_w p * 64 + a in
     if n = 0 then p\<lparr>utf8_w := w, utf8_bytes := 0, utf8_value := utf8_value p @ [w]\<rparr>
     else p\<lparr>utf8_w := w, utf8_bytes := n\<rparr>)"
proof -
  have "(128 + a) mod 64 = a" using assms(1,2) mod_mult_self1 [of a 2 64] by (simp add: add.commute)
  with assms show ?thesis by (subst UTF8_byte_eq) (simp add: uint_byte Let_def)
qed

lemma decode_char:
  assumes "unicode w" "utf8_bytes p = 0"
  shows "\<exists>v. fold UTF8_byte (UTF8_encode_char w) p = p\<lparr>utf8_value := utf8_value p @ [w], utf8_w := v\<rparr>"
proof -
  have w: "0 \<le> w" "w \<le> 1114111" using assms by (auto simp: unicode_def)
  have r: "0 \<le> x mod 64" "x mod 64 < 64" for x :: int by auto
  consider "w \<le> 127" | "127 < w" "w \<le> 2047" | "2047 < w" "w \<le> 65535" | "65535 < w" by linarith
  then show ?thesis
  proof cases
    case 1
    with w have "fold UTF8_byte (UTF8_encode_char w) p = p\<lparr>utf8_value := utf8_value p @ [w]\<rparr>"
      by (simp add: encode_char_eq UTF8_byte_eq uint_byte assms(2) Let_def)
    then have "fold UTF8_byte (UTF8_encode_char w) p =
        p\<lparr>utf8_value := utf8_value p @ [w], utf8_w := utf8_w p\<rparr>"
      by simp
    then show ?thesis by blast
  next
    case 2
    then have a: "w div 64 mod 32 = w div 64" "w div 64 < 32" "0 \<le> w div 64"
      and e: "w div 64 * 64 + w mod 64 = w" by auto
    from 2 show ?thesis
      by (intro exI [of _ w]) (simp add: encode_char_eq a byte_lead byte_cont [OF r] e assms(2))
  next
    case 3
    then have a: "w div 4096 mod 16 = w div 4096" "w div 4096 < 16" "0 \<le> w div 4096" by auto
    have e: "(w div 4096 * 64 + w div 64 mod 64) * 64 + w mod 64 = w"
      using div_mult_mod_eq [of "w div 64" 64] div_mult_mod_eq [of w 64] by (simp add: div_div)
    from 3 show ?thesis
      by (intro exI [of _ w]) (simp add: encode_char_eq a byte_lead byte_cont [OF r] e [simplified] assms(2) Let_def)
  next
    case 4
    with w have a: "w div 262144 mod 8 = w div 262144" "w div 262144 < 8" "0 \<le> w div 262144" by auto
    have e: "((w div 262144 * 64 + w div 4096 mod 64) * 64 + w div 64 mod 64) * 64 + w mod 64 = w"
      using div_mult_mod_eq [of "w div 4096" 64] div_mult_mod_eq [of "w div 64" 64]
        div_mult_mod_eq [of w 64] by (simp add: div_div)
    from 4 w show ?thesis
      by (intro exI [of _ w]) (simp add: encode_char_eq a byte_lead byte_cont [OF r] e [simplified] assms(2) Let_def)
  qed
qed

lemma decode_string:
  assumes "list_all unicode ws" "utf8_bytes p = 0"
  shows "\<exists>v. fold UTF8_byte (concat (map UTF8_encode_char ws)) p =
    p\<lparr>utf8_value := utf8_value p @ ws, utf8_w := v\<rparr>"
  using assms
proof (induction ws arbitrary: p)
  case Nil
  have "p = p\<lparr>utf8_value := utf8_value p @ [], utf8_w := utf8_w p\<rparr>" by simp
  then show ?case by (metis concat.simps(1) fold_simps(1) list.map(1))
next
  case (Cons x ws)
  then obtain v where v: "fold UTF8_byte (UTF8_encode_char x) p =
      p\<lparr>utf8_value := utf8_value p @ [x], utf8_w := v\<rparr>"
    using decode_char [of x p] by auto
  obtain v' where "fold UTF8_byte (concat (map UTF8_encode_char ws))
      (p\<lparr>utf8_value := utf8_value p @ [x], utf8_w := v\<rparr>) =
      p\<lparr>utf8_value := utf8_value p @ x # ws, utf8_w := v'\<rparr>"
    using Cons.IH [of "p\<lparr>utf8_value := utf8_value p @ [x], utf8_w := v\<rparr>"] Cons.prems by auto
  with v show ?case by auto
qed

lemma length_encode_char: "length (UTF8_encode_char w) \<le> utf8_width w"
  by (simp add: UTF8_encode_char_def utf8_width_def)

lemma length_encode_char_unicode: "unicode w \<Longrightarrow> length (UTF8_encode_char w) = utf8_width w"
  by (simp add: UTF8_encode_char_def utf8_width_def unicode_def)

section \<open>The size computed by \<open>SetWString\<close>\<close>

lemma fold_width: "fold (\<lambda>w n. n + of_nat (utf8_width w)) str m = m + of_nat (sum_list (map utf8_width str))"
  by (induction str arbitrary: m) (auto simp: ac_simps)

lemma SetWString_size: "utf8_size (UTF8_SetWString str p) = of_nat (sum_list (map utf8_width str))"
  by (simp add: UTF8_SetWString_def fold_width)

lemma Serialize_length:
  "length (concat (map UTF8_encode_char ws)) \<le> sum_list (map utf8_width ws)"
  by (induction ws) (auto simp: length_encode_char add_mono)

lemma Serialize_length_unicode:
  "list_all unicode ws \<Longrightarrow> length (concat (map UTF8_encode_char ws)) = sum_list (map utf8_width ws)"
  by (induction ws) (auto simp: length_encode_char_unicode)

section \<open>Feeding the decoder in pieces\<close>

lemma UTF8_byte_frame [simp]:
  "utf8_size (UTF8_byte c p) = utf8_size p" "utf8_len (UTF8_byte c p) = utf8_len p"
  by (auto simp: UTF8_byte_def Let_def)

lemma fold_UTF8_byte_frame [simp]:
  "utf8_size (fold UTF8_byte bs p) = utf8_size p" "utf8_len (fold UTF8_byte bs p) = utf8_len p"
  by (induction bs arbitrary: p) auto

lemma UTF8_byte_len: "UTF8_byte c (p\<lparr>utf8_len := l\<rparr>) = (UTF8_byte c p)\<lparr>utf8_len := l\<rparr>"
  by (simp add: UTF8_byte_def Let_def)

lemma fold_UTF8_byte_len: "fold UTF8_byte bs (p\<lparr>utf8_len := l\<rparr>) = (fold UTF8_byte bs p)\<lparr>utf8_len := l\<rparr>"
  by (induction bs arbitrary: p) (auto simp: UTF8_byte_len)

text \<open>While the announced size is not passed, \<open>Parse\<close> consumes the whole piece.\<close>

definition utf8_left :: "utf8_parser \<Rightarrow> nat" where
  "utf8_left p = unat (utf8_size p - utf8_len p)"

lemma unat_less_exp: "unat (w :: DWORD) < 2 ^ 32"
  using unsigned_less [of w] by simp

lemma Parse_within:
  assumes "length bs \<le> utf8_left p"
  shows "UTF8_Parse bs p =
    (of_nat (length bs), (fold UTF8_byte bs p)\<lparr>utf8_len := utf8_len p + of_nat (length bs)\<rparr>)"
proof -
  let ?n = "of_nat (length bs) :: DWORD" and ?c = "utf8_size p - utf8_len p"
  have "length bs < 2 ^ 32"
    using assms unat_less_exp [of ?c] by (simp add: utf8_left_def)
  then have u: "unat ?n = length bs" by (simp add: unat_of_nat)
  then have "?n \<le> ?c" using assms by (simp add: word_le_nat_alt utf8_left_def)
  then have "(if ?n < ?c then ?n else ?c) = ?n" by auto
  then show ?thesis using u by (simp add: UTF8_Parse_def Let_def)
qed

lemma utf8_left_Parse:
  assumes "length bs \<le> utf8_left p"
  shows "utf8_left (snd (UTF8_Parse bs p)) = utf8_left p - length bs"
proof -
  let ?n = "of_nat (length bs) :: DWORD" and ?c = "utf8_size p - utf8_len p"
  have "length bs < 2 ^ 32"
    using assms unat_less_exp [of ?c] by (simp add: utf8_left_def)
  then have u: "unat ?n = length bs" by (simp add: unat_of_nat)
  then have "?n \<le> ?c" using assms by (simp add: word_le_nat_alt utf8_left_def)
  then have "unat (?c - ?n) = unat ?c - length bs" using u by (simp add: unat_sub)
  then show ?thesis by (simp add: utf8_left_def Parse_within [OF assms] diff_diff_eq)
qed

end
