(* ===== verification/BFCPServer.thy ===== *)
theory BFCPServer
  imports BFCPFloorRequest UTF8
begin

text \<open>
  The floor control server of one conference
  (\<open>src/mcu/src/bfcp/BFCPFloorControlServer.cpp\<close>) together with the listener it calls back, the
  media conference (\<open>MultiConf\<close>, end of \<open>src/mcu/src/multiconf.cpp\<close>), and what the listener does
  to the application mixer (\<open>SetPresenter\<close>, \<open>SetEditor\<close> of \<open>src/mcu/src/appmixer.cpp\<close>).

  Floor requests are heap objects: \<open>c_floorRequests\<close> maps ids to pointers, \<open>c_heap\<close> is the store,
  \<open>c_next\<close> the next pointer \<open>new\<close> returns.  Reading through a pointer to a deleted object is the
  fault \<open>UseAfterFree\<close>.  The listener is called in the middle of an operation and calls the
  server again, so \<open>RevokeFloorRequest\<close> and \<open>onFloorReleased\<close> are mutually recursive.
  Users are held by value: no user is added or removed while a pointer to one is in use.
  The mutexes of the users map are not part of this model (see \<open>Use\<close>): an operation here is
  one uninterrupted run.
\<close>

section \<open>State\<close>

record conn_data =
  cd_conferenceId :: int
  cd_userId :: int
  cd_closedByServer :: bool
  cd_utf8 :: utf8_parser

text \<open>What leaves the server: calls on WebSockets and on the VNC server of the mixer.\<close>

datatype event =
    WsSend nat wstring
  | WsClose nat int wstring
  | WsReject nat int wstring
  | WsAccept nat
  | PresenterEnd
  | VncReset
  | VncSetEditor int

record conf =
  c_conferenceId :: int
  c_users :: "(int, bfcp_user) omap"
  c_removedUsers :: "bfcp_user list"
  c_floors :: "int list"
  c_floorRequests :: "(int, nat) omap"
  c_floorRequestCounter :: int
  c_ending :: bool
  c_heap :: "nat \<Rightarrow> floor_request option"
  c_next :: nat
  c_chairId :: int
  c_presenterId :: int
  c_editorId :: int
  c_presenting :: bool
  c_conn :: "nat \<Rightarrow> conn_data option"
  c_out :: "event list"

text \<open>The constructor, with a listener that has just been constructed and an empty heap.\<close>

definition BFCPFloorControlServer_new :: "int \<Rightarrow> (nat \<Rightarrow> conn_data option) \<Rightarrow> event list \<Rightarrow> conf" where
  "BFCPFloorControlServer_new conferenceId conn out =
     \<lparr>c_conferenceId = conferenceId, c_users = [], c_removedUsers = [], c_floors = [],
      c_floorRequests = [], c_floorRequestCounter = 1, c_ending = False,
      c_heap = (\<lambda>_. None), c_next = 0,
      c_chairId = 0, c_presenterId = 0, c_editorId = 0, c_presenting = False,
      c_conn = conn, c_out = out\<rparr>"

section \<open>Memory and output\<close>

definition deref :: "conf \<Rightarrow> nat \<Rightarrow> floor_request res" where
  "deref c p = (case c_heap c p of None \<Rightarrow> Fault UseAfterFree | Some r \<Rightarrow> Ok r)"

definition store :: "nat \<Rightarrow> floor_request \<Rightarrow> conf \<Rightarrow> conf" where
  "store p r c = c\<lparr>c_heap := (c_heap c)(p \<mapsto> r)\<rparr>"

definition delete_request :: "nat \<Rightarrow> conf \<Rightarrow> conf res" where
  "delete_request p c =
     (case c_heap c p of None \<Rightarrow> Fault UseAfterFree
      | Some _ \<Rightarrow> Ok (c\<lparr>c_heap := (c_heap c)(p := None)\<rparr>))"

definition emit :: "event \<Rightarrow> conf \<Rightarrow> conf" where
  "emit e c = c\<lparr>c_out := c_out c @ [e]\<rparr>"

section \<open>Lookups\<close>

definition GetUser :: "conf \<Rightarrow> int \<Rightarrow> bfcp_user option" where
  "GetUser c userId = map_find (c_users c) userId"

definition HasUser :: "conf \<Rightarrow> int \<Rightarrow> bool" where
  "HasUser c userId = (GetUser c userId \<noteq> None)"

definition upd_user :: "int \<Rightarrow> (bfcp_user \<Rightarrow> bfcp_user) \<Rightarrow> conf \<Rightarrow> conf" where
  "upd_user userId f c = c\<lparr>c_users := map_adjust userId f (c_users c)\<rparr>"

definition GetFloorRequest :: "conf \<Rightarrow> int \<Rightarrow> nat option" where
  "GetFloorRequest c floorRequestId = map_find (c_floorRequests c) floorRequestId"

definition HasFloor :: "conf \<Rightarrow> int \<Rightarrow> bool" where
  "HasFloor c floorId = (floorId \<in> set (c_floors c))"

definition GetFloorRequestsForFloor :: "conf \<Rightarrow> int \<Rightarrow> nat list res" where
  "GetFloorRequestsForFloor c floorId =
     filterR (\<lambda>p. bindR (deref c p) (\<lambda>r. Ok (HasFloorId r floorId))) (map snd (c_floorRequests c))"

definition GetFloorRequestsForFloors :: "conf \<Rightarrow> int list \<Rightarrow> nat list res" where
  "GetFloorRequestsForFloors c floorIds =
     filterR (\<lambda>p. bindR (deref c p) (\<lambda>r. Ok (list_ex (HasFloorId r) floorIds)))
       (map snd (c_floorRequests c))"

fun first_granted :: "conf \<Rightarrow> nat list \<Rightarrow> int res" where
  "first_granted c [] = Ok 0"
| "first_granted c (p # ps) =
     bindR (deref c p) (\<lambda>r. if IsGranted r then Ok (fr_floorRequestId r) else first_granted c ps)"

definition GetGrantedFloorRequestId :: "conf \<Rightarrow> int \<Rightarrow> int res" where
  "GetGrantedFloorRequestId c floorId =
     (if c_ending c then Ok 0
      else if \<not> HasFloor c floorId then Ok 0
      else bindR (GetFloorRequestsForFloor c floorId) (first_granted c))"

section \<open>Sending\<close>

text \<open>\<open>BFCPUser::SendMessage\<close> and \<open>BFCPFloorControlServer::SendMessage\<close>.\<close>

definition user_SendMessage :: "bfcp_user \<Rightarrow> bfcp_msg \<Rightarrow> conf \<Rightarrow> conf" where
  "user_SendMessage u msg c =
     (case u_transport u of None \<Rightarrow> c | Some ws \<Rightarrow> emit (WsSend ws (Stringify msg)) c)"

definition SendMessage :: "bfcp_msg \<Rightarrow> conf \<Rightarrow> conf res" where
  "SendMessage msg c =
     (case GetUser c (m_userId msg) of
        None \<Rightarrow> Ok c
      | Some u \<Rightarrow> bindR (msg_Dump msg) (\<lambda>_. Ok (user_SendMessage u msg c)))"

definition ReplyError :: "bfcp_msg \<Rightarrow> error_code \<Rightarrow> wstring \<Rightarrow> conf \<Rightarrow> conf res" where
  "ReplyError msg errorCode errorInfo c = SendMessage (BFCPMsgError_new_info msg errorCode errorInfo) c"

text \<open>
  \<open>BFCPUser::CloseTransport\<close>, for any user object and for a user of the map: the connection data of the socket is
  flagged, a close frame is queued, and the user has no transport any more.
\<close>

definition close_socket :: "nat \<Rightarrow> int \<Rightarrow> wstring \<Rightarrow> conf \<Rightarrow> conf res" where
  "close_socket ws code reason c =
     (case c_conn c ws of
        None \<Rightarrow> Fault NullDeref
      | Some d \<Rightarrow> Ok (emit (WsClose ws code reason)
                    (c\<lparr>c_conn := (c_conn c)(ws \<mapsto> d\<lparr>cd_closedByServer := True\<rparr>)\<rparr>)))"

definition user_CloseTransport ::
  "bfcp_user \<Rightarrow> int \<Rightarrow> wstring \<Rightarrow> conf \<Rightarrow> (bfcp_user \<times> conf) res" where
  "user_CloseTransport u code reason c =
     (case u_transport u of
        None \<Rightarrow> Ok (u, c)
      | Some ws \<Rightarrow> bindR (close_socket ws code reason c) (\<lambda>c. Ok (user_UnsetTransport u, c)))"

definition CloseTransport :: "int \<Rightarrow> int \<Rightarrow> wstring \<Rightarrow> conf \<Rightarrow> conf res" where
  "CloseTransport userId code reason c =
     (case GetUser c userId of
        None \<Rightarrow> Fault NullDeref
      | Some u \<Rightarrow> bindR (user_CloseTransport u code reason c) (\<lambda>(u, c). Ok (upd_user userId (\<lambda>_. u) c)))"

section \<open>Notifying the subscribers of a floor\<close>

text \<open>The map from the affected users, by address, to their affected floors.\<close>

definition affected_floors :: "bfcp_user \<Rightarrow> int list \<Rightarrow> int list" where
  "affected_floors u floorIds =
     fold (\<lambda>f acc. if user_HasQueriedFloorId u f then set_insert f acc else acc) floorIds []"

definition affected_users :: "conf \<Rightarrow> int list \<Rightarrow> (nat, bfcp_user \<times> int list) omap" where
  "affected_users c floorIds =
     fold (\<lambda>e acc. let u = snd e; fs = affected_floors u floorIds
                   in if fs = [] then acc else map_put (u_addr u) (u, fs) acc)
       (c_users c) []"

definition notify_one :: "int \<Rightarrow> int \<Rightarrow> bfcp_msg \<Rightarrow> conf \<Rightarrow> conf res" where
  "notify_one userId floorId floorStatus c =
     bindR (msg_SetFloorId floorId (msg_SetUserId userId floorStatus)) (\<lambda>m. SendMessage m c)"

definition NotifyForFloorRequest :: "nat \<Rightarrow> conf \<Rightarrow> conf res" where
  "NotifyForFloorRequest p c =
     bindR (deref c p) (\<lambda>r.
     bindR (msg_AddFloorRequestInformation (CreateFloorRequestInformation r)
              (BFCPMsgFloorStatus_new 0 (c_conferenceId c) 0)) (\<lambda>floorStatus.
     foldR (\<lambda>e c. let (u, fs) = snd e in foldR (\<lambda>f. notify_one (u_userId u) f floorStatus) fs c)
       (affected_users c (fr_floorIds r)) c))"

section \<open>The application mixer\<close>

definition SetPresenter :: "int \<Rightarrow> conf \<Rightarrow> conf" where
  "SetPresenter partId c =
     (let c = c\<lparr>c_presenterId := partId\<rparr>;
          c = (if c_presenting c then (emit PresenterEnd c)\<lparr>c_presenting := False\<rparr> else c)
      in emit VncReset c)"

definition SetEditor :: "int \<Rightarrow> conf \<Rightarrow> conf" where
  "SetEditor partId c = emit (VncSetEditor partId) (c\<lparr>c_editorId := partId\<rparr>)"

section \<open>Changing the status of a request\<close>

text \<open>
  The part \<open>GrantFloorRequest\<close>, \<open>DenyFloorRequest\<close> and \<open>RevokeFloorRequest\<close> share: set the
  status, notify the requester (with a description unless it is empty), notify the subscribers.
\<close>

definition update_and_notify :: "status \<Rightarrow> wstring \<Rightarrow> nat \<Rightarrow> conf \<Rightarrow> conf res" where
  "update_and_notify st statusInfo p c =
     bindR (deref c p) (\<lambda>r.
     let r = SetStatus st r; c = store p r c in
     bindR (CreateFloorRequestStatus_notification r) (\<lambda>m.
     bindR (if statusInfo = [] then Ok m else msg_SetDescription statusInfo m) (\<lambda>m.
     bindR (SendMessage m c) (NotifyForFloorRequest p))))"

definition erase_request :: "int \<Rightarrow> conf \<Rightarrow> conf" where
  "erase_request floorRequestId c =
     c\<lparr>c_floorRequests := map_erase floorRequestId (c_floorRequests c)\<rparr>"

text \<open>What these leave unchanged; the recursion below ends because the map of requests shrinks.\<close>

lemma emit_frame [simp]:
  "c_floorRequests (emit e c) = c_floorRequests c" "c_users (emit e c) = c_users c"
  "c_heap (emit e c) = c_heap c" "c_next (emit e c) = c_next c" "c_ending (emit e c) = c_ending c"
  "c_floors (emit e c) = c_floors c" "c_floorRequestCounter (emit e c) = c_floorRequestCounter c"
  "c_conn (emit e c) = c_conn c" "c_conferenceId (emit e c) = c_conferenceId c"
  "c_chairId (emit e c) = c_chairId c" "c_presenterId (emit e c) = c_presenterId c"
  "c_editorId (emit e c) = c_editorId c" "c_removedUsers (emit e c) = c_removedUsers c"
  by (simp_all add: emit_def)

text \<open>Sending and notifying only append to the output.\<close>

definition only_output :: "conf \<Rightarrow> conf \<Rightarrow> bool" where
  "only_output c c' \<longleftrightarrow> (\<exists>es. c' = c\<lparr>c_out := c_out c @ es\<rparr>)"

lemma only_output_refl [simp]: "only_output c c"
proof -
  have "c = c\<lparr>c_out := c_out c @ []\<rparr>" by simp
  then show ?thesis unfolding only_output_def by blast
qed

lemma only_output_trans: "only_output c d \<Longrightarrow> only_output d e \<Longrightarrow> only_output c e"
  unfolding only_output_def by auto

lemma only_output_emit [simp]: "only_output c (emit e c)"
  by (auto simp: only_output_def emit_def)

lemma only_output_fields:
  "only_output c d \<Longrightarrow> c_floorRequests d = c_floorRequests c \<and> c_users d = c_users c \<and>
     c_heap d = c_heap c \<and> c_next d = c_next c \<and> c_ending d = c_ending c \<and>
     c_floors d = c_floors c \<and> c_floorRequestCounter d = c_floorRequestCounter c \<and>
     c_conn d = c_conn c \<and> c_conferenceId d = c_conferenceId c \<and> c_chairId d = c_chairId c \<and>
     c_presenterId d = c_presenterId c \<and> c_editorId d = c_editorId c \<and>
     c_removedUsers d = c_removedUsers c"
  by (auto simp: only_output_def)

lemma SendMessage_only_output: "SendMessage m c = Ok d \<Longrightarrow> only_output c d"
  by (auto simp: SendMessage_def user_SendMessage_def split: option.splits)

lemma notify_one_only_output: "notify_one u f m c = Ok d \<Longrightarrow> only_output c d"
  by (auto simp: notify_one_def dest: SendMessage_only_output)

lemma foldR_only_output:
  "foldR f xs c = Ok d \<Longrightarrow> (\<And>x c d. x \<in> set xs \<Longrightarrow> f x c = Ok d \<Longrightarrow> only_output c d) \<Longrightarrow> only_output c d"
  by (rule foldR_invariant [where P = "only_output c"]) (auto intro: only_output_trans)

lemma NotifyForFloorRequest_only_output:
  "NotifyForFloorRequest p c = Ok d \<Longrightarrow> only_output c d"
  unfolding NotifyForFloorRequest_def
  by (elim bindR_OkE, erule foldR_only_output)
    (auto split: prod.splits elim!: foldR_only_output dest: notify_one_only_output)

lemma update_and_notify_frame:
  assumes "update_and_notify st info p c = Ok d"
  shows "\<exists>r. c_heap c p = Some r \<and> only_output (store p (SetStatus st r) c) d"
  using assms
  by (auto simp: update_and_notify_def deref_def Let_def split: option.splits if_splits
      dest!: SendMessage_only_output NotifyForFloorRequest_only_output intro: only_output_trans)

lemma update_and_notify_requests:
  "update_and_notify st info p c = Ok d \<Longrightarrow> c_floorRequests d = c_floorRequests c"
  by (drule update_and_notify_frame) (auto simp: store_def dest: only_output_fields)

lemma SetPresenter_requests [simp]: "c_floorRequests (SetPresenter i c) = c_floorRequests c"
  by (simp add: SetPresenter_def Let_def)

section \<open>Revoking, and the listener's reaction\<close>

function (sequential) RevokeFloorRequest :: "int \<Rightarrow> wstring \<Rightarrow> conf \<Rightarrow> (bool \<times> conf) res"
  and onFloorReleased :: "int \<Rightarrow> int \<Rightarrow> int list \<Rightarrow> conf \<Rightarrow> conf res"
where
  "RevokeFloorRequest floorRequestId statusInfo c =
     (case GetFloorRequest c floorRequestId of
        None \<Rightarrow> Ok (False, c)
      | Some p \<Rightarrow>
          bindR (deref c p) (\<lambda>r.
          if \<not> IsGranted r then Ok (False, c)
          else
            bindR (update_and_notify Revoked statusInfo p c) (\<lambda>c.
            let c = erase_request floorRequestId c in
            bindR (if c_ending c then Ok c
                   else bindR (deref c p) (\<lambda>r.
                     onFloorReleased floorRequestId (fr_beneficiaryId r) (fr_floorIds r) c)) (\<lambda>c.
            case GetFloorRequest c floorRequestId of
              None \<Rightarrow> Ok (True, c)
            | Some _ \<Rightarrow> bindR (delete_request p c) (\<lambda>c. Ok (True, c))))))"
| "onFloorReleased floorRequestId beneficiaryId floorIds c =
     bindR (if 1 \<in> set floorIds then
              (let c = SetPresenter 0 c in
               if 2 \<notin> set floorIds then
                 bindR (GetGrantedFloorRequestId c 2) (\<lambda>editorRequestId.
                 if editorRequestId \<noteq> 0 then
                   bindR (RevokeFloorRequest editorRequestId [] c) (\<lambda>x. Ok (snd x))
                 else Ok c)
               else Ok c)
            else Ok c) (\<lambda>c.
     Ok (if 2 \<in> set floorIds then SetEditor 0 c else c))"
  by pat_completeness auto
termination
  by (relation "measure (\<lambda>x. case x of Inl (_, _, c) \<Rightarrow> 2 * length (c_floorRequests c)
        | Inr (_, _, _, c) \<Rightarrow> 2 * length (c_floorRequests c) + 1)")
    (auto simp: erase_request_def GetFloorRequest_def
      dest!: update_and_notify_requests length_map_erase)

declare RevokeFloorRequest.simps [simp del] onFloorReleased.simps [simp del]

end
