(* ===== verification/BFCPConference.thy ===== *)
theory BFCPConference
  imports BFCPServer
begin

text \<open>
  The remaining operations of the floor control server and of its listener: granting and denying,
  the chair's operations, the transport's operations, the processing of messages and the end of
  the conference (\<open>src/mcu/src/bfcp/BFCPFloorControlServer.cpp\<close>,
  \<open>src/mcu/src/multiconf.cpp\<close>).
\<close>

section \<open>Granting and denying\<close>

definition onFloorGranted :: "int \<Rightarrow> int \<Rightarrow> int list \<Rightarrow> conf \<Rightarrow> conf res" where
  "onFloorGranted floorRequestId beneficiaryId floorIds c =
     bindR (if 1 \<in> set floorIds then
              (let c = SetPresenter beneficiaryId c in
               if 2 \<notin> set floorIds then
                 bindR (GetGrantedFloorRequestId c 2) (\<lambda>editorRequestId.
                 if editorRequestId \<noteq> 0 then
                   bindR (RevokeFloorRequest editorRequestId [] c) (\<lambda>x. Ok (snd x))
                 else Ok c)
               else Ok c)
            else Ok c) (\<lambda>c.
     Ok (if 2 \<in> set floorIds then SetEditor beneficiaryId c else c))"

definition revoke_if_granted :: "nat \<Rightarrow> conf \<Rightarrow> conf res" where
  "revoke_if_granted p c =
     bindR (deref c p) (\<lambda>r.
     if IsGranted r then
       bindR (RevokeFloorRequest (fr_floorRequestId r) (L ''granted to other user'') c) (\<lambda>x. Ok (snd x))
     else Ok c)"

definition GrantFloorRequest :: "int \<Rightarrow> conf \<Rightarrow> (bool \<times> conf) res" where
  "GrantFloorRequest floorRequestId c =
     (if c_ending c then Ok (False, c)
      else case GetFloorRequest c floorRequestId of
        None \<Rightarrow> Ok (False, c)
      | Some p \<Rightarrow>
          bindR (deref c p) (\<lambda>r.
          if \<not> CanBeGranted r then Ok (False, c)
          else
            bindR (GetFloorRequestsForFloors c (fr_floorIds r)) (\<lambda>floorRequestsToRevoke.
            bindR (foldR revoke_if_granted floorRequestsToRevoke c) (\<lambda>c.
            bindR (update_and_notify Granted [] p c) (\<lambda>c.
            bindR (deref c p) (\<lambda>r.
            bindR (onFloorGranted floorRequestId (fr_beneficiaryId r) (fr_floorIds r) c) (\<lambda>c.
            Ok (True, c))))))))"

definition DenyFloorRequest :: "int \<Rightarrow> wstring \<Rightarrow> conf \<Rightarrow> (bool \<times> conf) res" where
  "DenyFloorRequest floorRequestId statusInfo c =
     (case GetFloorRequest c floorRequestId of
        None \<Rightarrow> Ok (False, c)
      | Some p \<Rightarrow>
          bindR (deref c p) (\<lambda>r.
          if \<not> CanBeDenied r then Ok (False, c)
          else
            bindR (update_and_notify Denied statusInfo p c) (\<lambda>c.
            bindR (delete_request p (erase_request floorRequestId c)) (\<lambda>c.
            Ok (True, c)))))"

text \<open>\<open>MultiConf::onFloorRequest\<close>: grant for the chair and the presenter, deny otherwise.\<close>

definition onFloorRequest :: "int \<Rightarrow> int \<Rightarrow> int \<Rightarrow> int list \<Rightarrow> conf \<Rightarrow> conf res" where
  "onFloorRequest floorRequestId userId beneficiaryId floorIds c =
     (if userId = c_chairId c \<or> userId = c_presenterId c
      then bindR (GrantFloorRequest floorRequestId c) (\<lambda>x. Ok (snd x))
      else bindR (DenyFloorRequest floorRequestId [] c) (\<lambda>x. Ok (snd x)))"

definition revoked_or_denied :: wstring where
  "revoked_or_denied = L ''FloorRequests from this user have been revoked or denied''"

text \<open>Revoke it if it is granted, deny it otherwise; skip an id that is gone.\<close>

definition revoke_or_deny :: "wstring \<Rightarrow> int \<Rightarrow> conf \<Rightarrow> conf res" where
  "revoke_or_deny info floorRequestId c =
     (case GetFloorRequest c floorRequestId of
        None \<Rightarrow> Ok c
      | Some p \<Rightarrow>
          bindR (deref c p) (\<lambda>r.
          bindR (if IsGranted r then RevokeFloorRequest (fr_floorRequestId r) info c
                 else DenyFloorRequest (fr_floorRequestId r) info c) (\<lambda>x. Ok (snd x))))"

definition user_floor_requests :: "int \<Rightarrow> conf \<Rightarrow> int list res" where
  "user_floor_requests userId c =
     bindR (mapR (deref c) (map snd (c_floorRequests c))) (\<lambda>rs.
     Ok (map fr_floorRequestId (filter (\<lambda>r. fr_beneficiaryId r = userId) rs)))"

definition RevokeUserFloorRequests :: "int \<Rightarrow> conf \<Rightarrow> conf res" where
  "RevokeUserFloorRequests userId c =
     bindR (user_floor_requests userId c) (\<lambda>ids. foldR (revoke_or_deny revoked_or_denied) ids c)"

section \<open>Operations of the chair\<close>

text \<open>\<open>addr\<close> is the address \<open>new BFCPUser\<close> returns.\<close>

definition AddUser :: "nat \<Rightarrow> int \<Rightarrow> conf \<Rightarrow> bool \<times> conf" where
  "AddUser addr userId c =
     (if c_ending c then (False, c)
      else if userId < 1 then (False, c)
      else if HasUser c userId then (False, c)
      else (True, c\<lparr>c_users := map_put userId (BFCPUser_new addr userId (c_conferenceId c)) (c_users c)\<rparr>))"

definition RemoveUser :: "int \<Rightarrow> conf \<Rightarrow> (bool \<times> conf) res" where
  "RemoveUser userId c =
     (if c_ending c then Ok (False, c)
      else case GetUser c userId of
        None \<Rightarrow> Ok (False, c)
      | Some u \<Rightarrow>
          let c = c\<lparr>c_users := map_erase userId (c_users c)\<rparr> in
          bindR (RevokeUserFloorRequests (u_userId u) c) (\<lambda>c.
          bindR (user_CloseTransport u 4001 (L ''you have been removed from the BFCP conference'') c)
            (\<lambda>(u, c). Ok (True, c\<lparr>c_removedUsers := c_removedUsers c @ [u]\<rparr>))))"

definition SetChair :: "int \<Rightarrow> conf \<Rightarrow> bool \<times> conf" where
  "SetChair userId c =
     (if c_ending c then (False, c)
      else if \<not> HasUser c userId then (False, c)
      else
        let c = c\<lparr>c_users := map (\<lambda>e. (fst e, user_UnsetChair (snd e))) (c_users c)\<rparr>
        in (True, upd_user userId user_SetChair c))"

text \<open>\<open>MultiConf::SetChair\<close>.\<close>

definition MultiConf_SetChair :: "int \<Rightarrow> conf \<Rightarrow> conf" where
  "MultiConf_SetChair partId c = snd (SetChair partId (c\<lparr>c_chairId := partId\<rparr>))"

definition AddFloor :: "int \<Rightarrow> conf \<Rightarrow> bool \<times> conf" where
  "AddFloor floorId c =
     (if c_ending c then (False, c)
      else if floorId < 1 then (False, c)
      else if HasFloor c floorId then (False, c)
      else (True, c\<lparr>c_floors := set_insert floorId (c_floors c)\<rparr>))"

text \<open>The floors \<open>MultiConf::Init\<close> creates: presenter and editor.\<close>

definition MultiConf_Init_floors :: "conf \<Rightarrow> conf" where
  "MultiConf_Init_floors c = snd (AddFloor 2 (snd (AddFloor 1 c)))"

text \<open>
  The loop of \<open>End\<close> takes the first request again and again until the map is empty.  The fuel
  is the number of requests; \<open>OutOfFuel\<close> means that the loop of the code does not end.
\<close>

fun End_requests :: "nat \<Rightarrow> conf \<Rightarrow> conf res" where
  "End_requests fuel c =
     (case c_floorRequests c of
        [] \<Rightarrow> Ok c
      | e # _ \<Rightarrow>
          (case fuel of
             0 \<Rightarrow> Fault OutOfFuel
           | Suc fuel \<Rightarrow>
               bindR (deref c (snd e)) (\<lambda>r.
               bindR (if IsGranted r
                      then RevokeFloorRequest (fr_floorRequestId r) (L ''conference ended'') c
                      else DenyFloorRequest (fr_floorRequestId r) (L ''conference ended'') c) (\<lambda>x.
               End_requests fuel (snd x)))))"

declare End_requests.simps [simp del]

definition End_user :: "int \<times> bfcp_user \<Rightarrow> conf \<Rightarrow> conf res" where
  "End_user e c =
     bindR (user_CloseTransport (snd e) 4000 (L ''the BFCP conference has ended'')
              (c\<lparr>c_users := map_erase (fst e) (c_users c)\<rparr>)) (\<lambda>x. Ok (snd x))"

definition End :: "conf \<Rightarrow> conf res" where
  "End c =
     (if c_ending c then Ok c
      else
        let c = c\<lparr>c_ending := True\<rparr> in
        bindR (End_requests (length (c_floorRequests c)) c) (\<lambda>c.
        foldR End_user (c_users c) c))"

section \<open>Operations of the transport\<close>

definition UserConnected :: "int \<Rightarrow> nat \<Rightarrow> conf \<Rightarrow> (bool \<times> conf) res" where
  "UserConnected userId ws c =
     (if c_ending c then Ok (False, c)
      else case GetUser c userId of
        None \<Rightarrow> Ok (False, c)
      | Some u \<Rightarrow>
          bindR (if user_IsConnected u then
                   let c = upd_user userId user_ResetQueriedFloorIds c in
                   bindR (RevokeUserFloorRequests (u_userId u) c) (\<lambda>c.
                   CloseTransport userId 4002 (L ''your user has connected from somewhere else'') c)
                 else Ok c) (\<lambda>c.
          Ok (True, upd_user userId (user_SetTransport ws) c)))"

definition UserDisconnected :: "int \<Rightarrow> bool \<Rightarrow> conf \<Rightarrow> conf res" where
  "UserDisconnected userId closedByServer c =
     (case GetUser c userId of
        None \<Rightarrow> Ok c
      | Some u \<Rightarrow>
          if closedByServer then Ok c
          else
            let c = upd_user userId user_UnsetTransport c;
                c = upd_user userId user_ResetQueriedFloorIds c
            in if c_ending c then Ok c
               else RevokeUserFloorRequests (u_userId u) c)"

definition DisconnectUser :: "int \<Rightarrow> int \<Rightarrow> wstring \<Rightarrow> conf \<Rightarrow> conf res" where
  "DisconnectUser userId code reason c =
     (if c_ending c then Ok c
      else case GetUser c userId of
        None \<Rightarrow> Ok c
      | Some u \<Rightarrow>
          let c = upd_user userId user_ResetQueriedFloorIds c in
          bindR (RevokeUserFloorRequests (u_userId u) c) (\<lambda>c.
          CloseTransport userId code reason c))"

section \<open>Messages\<close>

text \<open>The new floor request of \<open>ProcessFloorRequest\<close>, with its floors and beneficiary.\<close>

definition build_floor_request ::
  "int \<Rightarrow> bfcp_msg \<Rightarrow> msg_floor_request \<Rightarrow> int list \<Rightarrow> int \<Rightarrow> floor_request res" where
  "build_floor_request floorRequestId msg req floorIds conferenceId =
     (let r = BFCPFloorRequest_new floorRequestId (m_userId msg) conferenceId in
      bindR (if floor_request_HasBeneficiaryId req
             then bindR (floor_request_GetBeneficiaryId req) (\<lambda>b. Ok (SetBeneficiaryId b r))
             else Ok r) (\<lambda>r.
      Ok (fold BFCPFloorRequest.AddFloorId floorIds r)))"

definition floor_request_floors :: "msg_floor_request \<Rightarrow> int list res" where
  "floor_request_floors req =
     mapR (floor_request_GetFloorId req) [0..<floor_request_CountFloorIds req]"

text \<open>The beneficiary, when it is present and no user: the first error of \<open>HasBeneficiaryId\<close>.\<close>

definition bad_beneficiary :: "msg_floor_request \<Rightarrow> conf \<Rightarrow> bool res" where
  "bad_beneficiary req c =
     (if floor_request_HasBeneficiaryId req
      then bindR (floor_request_GetBeneficiaryId req) (\<lambda>b. Ok (\<not> HasUser c b))
      else Ok False)"

definition ProcessFloorRequest :: "bfcp_msg \<Rightarrow> msg_floor_request \<Rightarrow> bfcp_user \<Rightarrow> conf \<Rightarrow> conf res" where
  "ProcessFloorRequest msg req user c =
     bindR (floor_request_floors req) (\<lambda>floorIds.
     if list_ex (\<lambda>f. \<not> HasFloor c f) floorIds
     then ReplyError msg InvalidFloorId (L ''requested floor does not exist'') c
     else bindR (bad_beneficiary req c) (\<lambda>bad.
     if bad then ReplyError msg UserDoesNotExist (L ''beneficiary does not exist'') c
     else
       let floorRequestId = c_floorRequestCounter c;
           c = c\<lparr>c_floorRequestCounter := c_floorRequestCounter c + 1\<rparr>;
           p = c_next c
       in
       bindR (build_floor_request floorRequestId msg req floorIds (c_conferenceId c)) (\<lambda>r.
       let c = (store p r c)\<lparr>c_next := p + 1\<rparr>;
           c = c\<lparr>c_floorRequests := map_put floorRequestId p (c_floorRequests c)\<rparr>
       in
       bindR (CreateFloorRequestStatus r (m_transactionId msg)) (\<lambda>floorRequestStatus.
       bindR (SendMessage floorRequestStatus c) (\<lambda>c.
       if u_isChair user then bindR (GrantFloorRequest floorRequestId c) (\<lambda>x. Ok (snd x))
       else bindR (deref c p) (\<lambda>r.
         onFloorRequest floorRequestId (fr_userId r) (fr_beneficiaryId r) (fr_floorIds r) c))))))"

text \<open>
  Who may release: the requester, the beneficiary, the chair.  The new status of the request, and
  whether the listener is told; \<open>None\<close> when the current status forbids a release.
\<close>

definition may_release :: "bfcp_user \<Rightarrow> floor_request \<Rightarrow> bool" where
  "may_release user r \<longleftrightarrow>
     u_userId user = fr_userId r \<or> u_userId user = fr_beneficiaryId r \<or> u_isChair user"

definition release_status :: "bfcp_user \<Rightarrow> floor_request \<Rightarrow> (status \<times> bool) option" where
  "release_status user r =
     (if \<not> IsGranted r \<and> CanBeCancelled r then Some (Cancelled, False)
      else if IsGranted r then
        Some (if u_userId user = fr_beneficiaryId r then Released else Revoked, True)
      else None)"

definition ProcessFloorRelease :: "bfcp_msg \<Rightarrow> msg_floor_release \<Rightarrow> bfcp_user \<Rightarrow> conf \<Rightarrow> conf res" where
  "ProcessFloorRelease msg req user c =
     bindR (floor_release_GetFloorRequestId req) (\<lambda>floorRequestId.
     case GetFloorRequest c floorRequestId of
       None \<Rightarrow> ReplyError msg FloorRequestIdDoesNotExist (L ''FloorRequest does not exist'') c
     | Some p \<Rightarrow>
         bindR (deref c p) (\<lambda>r.
         if \<not> may_release user r
         then ReplyError msg UnauthorizedOperation (L ''you cannot release that FloorRequest'') c
         else case release_status user r of
           None \<Rightarrow> ReplyError msg UnauthorizedOperation
             (L ''cannot release or cancel the FloorRequest due to its current status'') c
         | Some (st, must_notify_chair) \<Rightarrow>
             let r = SetStatus st r; c = store p r c in
             bindR (CreateFloorRequestStatus r (m_transactionId msg)) (\<lambda>m.
             bindR (SendMessage (msg_SetUserId (u_userId user) m) c) (\<lambda>c.
             bindR (if u_userId user \<noteq> fr_userId r then
                      bindR (CreateFloorRequestStatus_notification r) (\<lambda>m.
                      SendMessage (msg_SetUserId (fr_userId r) m) c)
                    else Ok c) (\<lambda>c.
             bindR (NotifyForFloorRequest p c) (\<lambda>c.
             let c = erase_request floorRequestId c in
             bindR (if must_notify_chair then
                      bindR (deref c p) (\<lambda>r'.
                      onFloorReleased floorRequestId (fr_beneficiaryId r) (fr_floorIds r') c)
                    else Ok c) (\<lambda>c.
             case GetFloorRequest c floorRequestId of
               None \<Rightarrow> Ok c
             | Some _ \<Rightarrow> delete_request p c)))))))"

text \<open>One queried floor: a FloorStatus with the information of every request for the floor.\<close>

definition floor_status_for :: "int \<Rightarrow> int \<Rightarrow> int \<Rightarrow> conf \<Rightarrow> bfcp_msg res" where
  "floor_status_for transactionId userId floorId c =
     bindR (msg_SetFloorId floorId (BFCPMsgFloorStatus_new transactionId (c_conferenceId c) userId)) (\<lambda>m.
     bindR (GetFloorRequestsForFloor c floorId) (\<lambda>ps.
     foldR (\<lambda>p m. bindR (deref c p) (\<lambda>r.
        msg_AddFloorRequestInformation (CreateFloorRequestInformation r) m)) ps m))"

text \<open>The loop over the queried floors: the first answer carries the transaction id.\<close>

fun send_floor_statuses :: "int \<Rightarrow> int \<Rightarrow> int list \<Rightarrow> conf \<Rightarrow> conf res" where
  "send_floor_statuses transactionId userId [] c = Ok c"
| "send_floor_statuses transactionId userId (f # fs) c =
     bindR (floor_status_for transactionId userId f c) (\<lambda>m.
     bindR (SendMessage m c) (\<lambda>c. send_floor_statuses 0 userId fs c))"

definition floor_query_floors :: "msg_floor_query \<Rightarrow> int list res" where
  "floor_query_floors req = mapR (floor_query_GetFloorId req) [0..<floor_query_CountFloorIds req]"

definition ProcessFloorQuery :: "bfcp_msg \<Rightarrow> msg_floor_query \<Rightarrow> bfcp_user \<Rightarrow> conf \<Rightarrow> conf res" where
  "ProcessFloorQuery msg req user c =
     bindR (floor_query_floors req) (\<lambda>floorIds.
     if list_ex (\<lambda>f. \<not> HasFloor c f) floorIds
     then ReplyError msg InvalidFloorId (L ''requested floor does not exist'') c
     else
       let user = fold user_AddQueriedFloorId floorIds (user_ResetQueriedFloorIds user);
           c = upd_user (u_userId user) (\<lambda>_. user) c
       in
       if user_CountQueriedFloorIds user = 0
       then SendMessage (BFCPMsgFloorStatus_new (m_transactionId msg) (c_conferenceId c) (m_userId msg)) c
       else send_floor_statuses (m_transactionId msg) (m_userId msg) (u_queriedFloorIds user) c)"

definition ProcessHello :: "bfcp_msg \<Rightarrow> bfcp_user \<Rightarrow> conf \<Rightarrow> conf res" where
  "ProcessHello msg user c = SendMessage msg c"

text \<open>The dispatch; a cast to a class the object is not an instance of is \<open>BadCast\<close>.\<close>

definition dispatch :: "bfcp_msg \<Rightarrow> bfcp_user \<Rightarrow> conf \<Rightarrow> conf res" where
  "dispatch msg user c =
     (case m_primitive msg of
        PFloorRequest \<Rightarrow>
          (case m_body msg of MsgFloorRequest req \<Rightarrow> ProcessFloorRequest msg req user c | _ \<Rightarrow> Fault BadCast)
      | PFloorRelease \<Rightarrow>
          (case m_body msg of MsgFloorRelease req \<Rightarrow> ProcessFloorRelease msg req user c | _ \<Rightarrow> Fault BadCast)
      | PFloorQuery \<Rightarrow>
          (case m_body msg of MsgFloorQuery req \<Rightarrow> ProcessFloorQuery msg req user c | _ \<Rightarrow> Fault BadCast)
      | PHello \<Rightarrow> ProcessHello msg user c
      | _ \<Rightarrow> ReplyError msg UnknownPrimitive (L ''unknown or unsupported primitive'') c)"

definition MessageReceived :: "bfcp_msg \<Rightarrow> conf \<Rightarrow> conf res" where
  "MessageReceived msg c =
     (if c_ending c then Ok c
      else
        bindR (msg_Dump msg) (\<lambda>_.
        case GetUser c (m_userId msg) of
          None \<Rightarrow> ReplyError msg UserDoesNotExist (L ''user does not exist'') c
        | Some user \<Rightarrow> dispatch msg user c))"

end
