(* ===== verification/BFCPInvariant.thy ===== *)
theory BFCPInvariant
  imports BFCPConference
begin

text \<open>
  The invariant of a conference and what each operation does to it.  \<open>requests c\<close> is the abstract
  state: the ongoing floor requests by id.  \<open>mem_ok\<close> says that the map of requests holds live
  objects that carry their key, \<open>exclusive\<close> that no two granted requests share a floor,
  \<open>roles_ok\<close> that the presenter and the editor of the application mixer are the beneficiaries of
  the granted requests for floors 1 and 2.
\<close>

section \<open>The abstract state\<close>

definition requests :: "conf \<Rightarrow> int \<Rightarrow> floor_request option" where
  "requests c k = (case map_find (c_floorRequests c) k of None \<Rightarrow> None | Some p \<Rightarrow> c_heap c p)"

definition mem_ok :: "conf \<Rightarrow> bool" where
  "mem_ok c \<longleftrightarrow> omap_wf (c_floorRequests c) \<and>
     (\<forall>(k, p) \<in> set (c_floorRequests c). 1 \<le> k \<and> k < c_floorRequestCounter c \<and> p < c_next c \<and>
        (\<exists>r. c_heap c p = Some r \<and> fr_floorRequestId r = k)) \<and>
     1 \<le> c_floorRequestCounter c"

lemma mem_okD:
  assumes "mem_ok c" "map_find (c_floorRequests c) k = Some p"
  shows "\<exists>r. c_heap c p = Some r \<and> requests c k = Some r \<and> fr_floorRequestId r = k \<and>
    1 \<le> k \<and> k < c_floorRequestCounter c \<and> p < c_next c"
  using assms map_find_Some_in [OF assms(2)] by (fastforce simp: mem_ok_def requests_def)

lemma requests_SomeD:
  assumes "requests c k = Some r"
  obtains p where "map_find (c_floorRequests c) k = Some p" "c_heap c p = Some r"
  using assms by (auto simp: requests_def split: option.splits)

lemma requests_id: "mem_ok c \<Longrightarrow> requests c k = Some r \<Longrightarrow> fr_floorRequestId r = k"
  by (metis mem_okD option.inject requests_SomeD)

text \<open>Two entries never share a pointer, because the object names its key.\<close>

lemma pointers_distinct:
  assumes "mem_ok c" "map_find (c_floorRequests c) k = Some p" "map_find (c_floorRequests c) k' = Some p"
  shows "k = k'"
  using mem_okD [OF assms(1,2)] mem_okD [OF assms(1,3)] by auto

lemma requests_store:
  assumes "mem_ok c" "map_find (c_floorRequests c) k = Some p"
  shows "requests (store p r c) = (requests c)(k \<mapsto> r)"
proof
  fix k'
  show "requests (store p r c) k' = ((requests c)(k \<mapsto> r)) k'"
  proof (cases "k' = k")
    case True
    with assms show ?thesis by (simp add: requests_def store_def)
  next
    case False
    then have "map_find (c_floorRequests c) k' \<noteq> Some p"
      using pointers_distinct [OF assms] by blast
    with False show ?thesis by (simp add: requests_def store_def split: option.split)
  qed
qed

lemma requests_erase: "requests (erase_request k c) = (requests c)(k := None)"
  by (rule ext) (simp add: requests_def erase_request_def map_find_erase split: option.split)

lemma mem_ok_store:
  "mem_ok c \<Longrightarrow> c_heap c p = Some r \<Longrightarrow> fr_floorRequestId r' = fr_floorRequestId r \<Longrightarrow> mem_ok (store p r' c)"
  by (fastforce simp: mem_ok_def store_def)

lemma mem_ok_erase: "mem_ok c \<Longrightarrow> mem_ok (erase_request k c)"
  by (auto simp: mem_ok_def erase_request_def set_map_erase)

lemma requests_only_output: "only_output c d \<Longrightarrow> requests d = requests c"
  by (rule ext) (simp add: requests_def only_output_fields split: option.split)

lemma mem_ok_only_output: "only_output c d \<Longrightarrow> mem_ok d = mem_ok c"
  by (simp add: mem_ok_def only_output_fields)

text \<open>Updates that commute with what only appends to the output.\<close>

definition set_roles :: "int \<Rightarrow> int \<Rightarrow> bool \<Rightarrow> conf \<Rightarrow> conf" where
  "set_roles pr ed b c = c\<lparr>c_presenterId := pr, c_editorId := ed, c_presenting := b\<rparr>"

lemma only_output_update:
  assumes "only_output c d"
  shows "only_output (store p r c) (store p r d)"
    and "only_output (erase_request k c) (erase_request k d)"
    and "only_output (set_roles pr ed b c) (set_roles pr ed b d)"
proof -
  obtain es where d: "d = c\<lparr>c_out := c_out c @ es\<rparr>" using assms by (auto simp: only_output_def)
  have "store p r d = (store p r c)\<lparr>c_out := c_out (store p r c) @ es\<rparr>"
    "erase_request k d = (erase_request k c)\<lparr>c_out := c_out (erase_request k c) @ es\<rparr>"
    "set_roles pr ed b d = (set_roles pr ed b c)\<lparr>c_out := c_out (set_roles pr ed b c) @ es\<rparr>"
    by (simp_all add: d store_def erase_request_def set_roles_def)
  then show "only_output (store p r c) (store p r d)"
    and "only_output (erase_request k c) (erase_request k d)"
    and "only_output (set_roles pr ed b c) (set_roles pr ed b d)"
    unfolding only_output_def by blast+
qed

section \<open>Operations that only send\<close>

lemma SendMessage_total: "msg_Dump m = Ok () \<Longrightarrow> \<exists>d. SendMessage m c = Ok d \<and> only_output c d"
  by (auto simp: SendMessage_def user_SendMessage_def split: option.splits)

lemma FloorStatus_new_body: "m_body (BFCPMsgFloorStatus_new t i u) =
    MsgFloorStatus \<lparr>mfs_floorId = None, mfs_floorRequestInformations = []\<rparr>"
  by (simp add: BFCPMsgFloorStatus_new_def)

lemma notify_one_total:
  "m_body m = MsgFloorStatus x \<Longrightarrow> \<exists>d. notify_one u f m c = Ok d \<and> only_output c d"
  by (simp add: notify_one_def msg_SetUserId_def SendMessage_total)

lemma foldR_only_output_total:
  assumes "\<And>x c. x \<in> set xs \<Longrightarrow> \<exists>d. f x c = Ok d \<and> only_output c d"
  shows "\<exists>d. foldR f xs c = Ok d \<and> only_output c d"
  by (rule foldR_total [where P = "only_output c"]) (auto dest: assms intro: only_output_trans)

lemma NotifyForFloorRequest_total:
  assumes "c_heap c p = Some r"
  shows "\<exists>d. NotifyForFloorRequest p c = Ok d \<and> only_output c d"
  using assms
  by (auto simp: NotifyForFloorRequest_def deref_def FloorStatus_new_body split: prod.splits
      intro!: foldR_only_output_total notify_one_total)

lemma CreateFloorRequestStatus_body:
  "CreateFloorRequestStatus r t = Ok ((BFCPMsgFloorRequestStatus_new t (fr_conferenceId r) (fr_userId r))
     \<lparr>m_body := MsgFloorRequestStatus
        \<lparr>mrs_floorRequestInformation = Some (CreateFloorRequestInformation r)\<rparr>\<rparr>)"
  by (simp add: CreateFloorRequestStatus_def BFCPMsgFloorRequestStatus_new_def)

lemma update_and_notify_total:
  assumes "c_heap c p = Some r"
  shows "\<exists>d. update_and_notify st info p c = Ok d \<and> only_output (store p (SetStatus st r) c) d"
proof -
  let ?c = "store p (SetStatus st r) c"
  obtain m where m: "CreateFloorRequestStatus_notification (SetStatus st r) = Ok m"
    "\<exists>x. m_body m = MsgFloorRequestStatus x"
    by (simp add: CreateFloorRequestStatus_notification_def CreateFloorRequestStatus_body)
  then obtain m' where m': "(if info = [] then Ok m else msg_SetDescription info m) = Ok m'"
    "msg_Dump m' = Ok ()"
    by (cases "info = []") auto
  obtain d where d: "SendMessage m' ?c = Ok d" "only_output ?c d"
    using SendMessage_total [OF m'(2)] by blast
  then have "c_heap d p = Some (SetStatus st r)"
    using only_output_fields [OF d(2)] by (simp add: store_def)
  then obtain e where "NotifyForFloorRequest p d = Ok e" "only_output d e"
    using NotifyForFloorRequest_total by blast
  with assms m m' d show ?thesis
    by (auto simp: update_and_notify_def deref_def Let_def intro: only_output_trans)
qed

section \<open>Finding the holder of a floor\<close>

definition holds :: "conf \<Rightarrow> int \<Rightarrow> int \<Rightarrow> bool" where
  "holds c k f \<longleftrightarrow> (\<exists>r. requests c k = Some r \<and> IsGranted r \<and> HasFloorId r f)"

lemma deref_all:
  assumes "mem_ok c" "p \<in> snd ` set (c_floorRequests c)"
  shows "\<exists>k r. map_find (c_floorRequests c) k = Some p \<and> c_heap c p = Some r \<and> requests c k = Some r"
proof -
  from assms(2) obtain k where "(k, p) \<in> set (c_floorRequests c)" by auto
  moreover have "omap_wf (c_floorRequests c)" using assms(1) by (simp add: mem_ok_def)
  ultimately have "map_find (c_floorRequests c) k = Some p" by (simp add: map_find_in_iff)
  with mem_okD [OF assms(1) this] show ?thesis by blast
qed

lemma filter_requests:
  assumes "mem_ok c"
  shows "filterR (\<lambda>p. bindR (deref c p) (\<lambda>r. Ok (P r))) (map snd (c_floorRequests c)) =
    Ok (filter (\<lambda>p. P (the (c_heap c p))) (map snd (c_floorRequests c)))"
proof (rule filterR_total)
  fix p
  assume "p \<in> set (map snd (c_floorRequests c))"
  then obtain r where "c_heap c p = Some r" using deref_all [OF assms, of p] by auto
  then show "bindR (deref c p) (\<lambda>r. Ok (P r)) = Ok (P (the (c_heap c p)))"
    by (simp add: deref_def)
qed

lemma first_granted_spec:
  assumes "\<And>p. p \<in> set ps \<Longrightarrow> \<exists>r. c_heap c p = Some r"
  shows "\<exists>k. first_granted c ps = Ok k \<and>
    (if \<exists>p \<in> set ps. IsGranted (the (c_heap c p))
     then \<exists>p \<in> set ps. \<exists>r. c_heap c p = Some r \<and> IsGranted r \<and> k = fr_floorRequestId r
     else k = 0)"
  using assms
proof (induction ps)
  case (Cons p ps)
  then obtain r where r: "c_heap c p = Some r" by auto
  show ?case
  proof (cases "IsGranted r")
    case True
    with r show ?thesis by (auto simp: deref_def)
  next
    case False
    with r Cons.IH Cons.prems show ?thesis by (auto simp: deref_def split: if_splits)
  qed
qed simp

lemma GetGrantedFloorRequestId_spec:
  assumes "mem_ok c"
  shows "\<exists>k. GetGrantedFloorRequestId c f = Ok k \<and>
    (k \<noteq> 0 \<longrightarrow> holds c k f) \<and>
    (k = 0 \<longrightarrow> \<not> c_ending c \<longrightarrow> HasFloor c f \<longrightarrow> (\<forall>k'. \<not> holds c k' f))"
proof (cases "c_ending c \<or> \<not> HasFloor c f")
  case True
  then show ?thesis by (auto simp: GetGrantedFloorRequestId_def)
next
  case False
  define ps where "ps = filter (\<lambda>p. HasFloorId (the (c_heap c p)) f) (map snd (c_floorRequests c))"
  have live: "\<exists>k r. map_find (c_floorRequests c) k = Some p \<and> c_heap c p = Some r \<and>
      requests c k = Some r \<and> HasFloorId r f" if "p \<in> set ps" for p
    using that deref_all [OF assms, of p] by (auto simp: ps_def)
  have get: "GetFloorRequestsForFloor c f = Ok ps"
    using filter_requests [OF assms] by (simp add: GetFloorRequestsForFloor_def ps_def)
  obtain k where k: "first_granted c ps = Ok k"
    "if \<exists>p \<in> set ps. IsGranted (the (c_heap c p))
     then \<exists>p \<in> set ps. \<exists>r. c_heap c p = Some r \<and> IsGranted r \<and> k = fr_floorRequestId r
     else k = 0"
    using first_granted_spec [of ps c] live by meson
  have "holds c k f" if "k \<noteq> 0"
  proof -
    from that k(2) obtain p r where p: "p \<in> set ps" "c_heap c p = Some r" "IsGranted r"
      "k = fr_floorRequestId r"
      by (auto split: if_splits)
    with live [OF p(1)] mem_okD [OF assms] show ?thesis by (fastforce simp: holds_def)
  qed
  moreover have "\<not> holds c k' f" if "k = 0" for k'
  proof
    assume "holds c k' f"
    then obtain p r where r: "map_find (c_floorRequests c) k' = Some p" "c_heap c p = Some r"
      "IsGranted r" "HasFloorId r f"
      by (auto simp: holds_def elim!: requests_SomeD)
    then have p: "p \<in> set ps" using map_find_Some_in [OF r(1)] by (force simp: ps_def)
    with r have "\<exists>p \<in> set ps. IsGranted (the (c_heap c p))" by (auto intro!: bexI [of _ p])
    with k(2) obtain p' r' where p': "p' \<in> set ps" "c_heap c p' = Some r'" "k = fr_floorRequestId r'"
      by auto
    from live [OF p'(1)] p' obtain k'' where "map_find (c_floorRequests c) k'' = Some p'" by auto
    from mem_okD [OF assms this] p' that show False by auto
  qed
  ultimately show ?thesis using False get k(1) by (auto simp: GetGrantedFloorRequestId_def)
qed

section \<open>The invariant\<close>

definition statuses_ok :: "conf \<Rightarrow> bool" where
  "statuses_ok c \<longleftrightarrow> (\<forall>k r. requests c k = Some r \<longrightarrow> fr_status r = Pending \<or> fr_status r = Granted)"

definition floors_ok :: "conf \<Rightarrow> bool" where
  "floors_ok c \<longleftrightarrow> (\<forall>k r. requests c k = Some r \<longrightarrow> set (fr_floorIds r) \<subseteq> set (c_floors c))"

definition exclusive :: "conf \<Rightarrow> bool" where
  "exclusive c \<longleftrightarrow> (\<forall>k k' f. holds c k f \<longrightarrow> holds c k' f \<longrightarrow> k = k')"

text \<open>\<open>i\<close> is the beneficiary of the granted request that includes floor \<open>f\<close>, 0 if there is none.\<close>

definition role_is :: "conf \<Rightarrow> int \<Rightarrow> int \<Rightarrow> bool" where
  "role_is c f i \<longleftrightarrow>
     (\<forall>k r. requests c k = Some r \<longrightarrow> IsGranted r \<longrightarrow> HasFloorId r f \<longrightarrow> i = fr_beneficiaryId r) \<and>
     ((\<forall>k. \<not> holds c k f) \<longrightarrow> i = 0)"

definition roles_ok :: "conf \<Rightarrow> bool" where
  "roles_ok c \<longleftrightarrow> (\<not> c_ending c \<longrightarrow> role_is c 1 (c_presenterId c) \<and> role_is c 2 (c_editorId c))"

definition users_ok :: "conf \<Rightarrow> bool" where
  "users_ok c \<longleftrightarrow> omap_wf (c_users c) \<and>
     (\<forall>(k, u) \<in> set (c_users c). u_userId u = k \<and> 1 \<le> k \<and>
        (\<forall>ws. u_transport u = Some ws \<longrightarrow> c_conn c ws \<noteq> None))"

definition conf_inv :: "conf \<Rightarrow> bool" where
  "conf_inv c \<longleftrightarrow> mem_ok c \<and> statuses_ok c \<and> floors_ok c \<and> exclusive c \<and> roles_ok c \<and> users_ok c"

lemma conf_invD:
  "conf_inv c \<Longrightarrow> mem_ok c" "conf_inv c \<Longrightarrow> statuses_ok c" "conf_inv c \<Longrightarrow> floors_ok c"
  "conf_inv c \<Longrightarrow> exclusive c" "conf_inv c \<Longrightarrow> roles_ok c" "conf_inv c \<Longrightarrow> users_ok c"
  by (simp_all add: conf_inv_def)

lemma holds_only_output: "only_output c d \<Longrightarrow> holds d = holds c"
  by (intro ext) (simp add: holds_def requests_only_output)

lemma role_is_only_output: "only_output c d \<Longrightarrow> role_is d = role_is c"
  by (intro ext) (simp add: role_is_def requests_only_output holds_only_output)

lemma conf_inv_only_output:
  assumes "only_output c d"
  shows "conf_inv d = conf_inv c"
  using assms
  by (simp add: conf_inv_def mem_ok_only_output statuses_ok_def floors_ok_def exclusive_def roles_ok_def
      users_ok_def requests_only_output holds_only_output role_is_only_output only_output_fields)

lemma GetGrantedFloorRequestId_inv:
  assumes "conf_inv c" "\<not> c_ending c"
  shows "\<exists>k. GetGrantedFloorRequestId c f = Ok k \<and>
    (if k = 0 then \<forall>k'. \<not> holds c k' f else holds c k f)"
proof -
  have "\<forall>k'. \<not> holds c k' f" if "\<not> HasFloor c f"
    using that conf_invD(3) [OF assms(1)]
    by (auto simp: floors_ok_def holds_def HasFloor_def HasFloorId_def)
  with GetGrantedFloorRequestId_spec [OF conf_invD(1) [OF assms(1)], of f] assms(2)
  show ?thesis by (metis (no_types))
qed

section \<open>Revocation step by step\<close>

text \<open>The roles after a release of the floors \<open>fs\<close>, and the state after one revocation.\<close>

definition released_roles :: "int list \<Rightarrow> conf \<Rightarrow> conf" where
  "released_roles fs c =
     set_roles (if 1 \<in> set fs then 0 else c_presenterId c) (if 2 \<in> set fs then 0 else c_editorId c)
       (if 1 \<in> set fs then False else c_presenting c) c"

definition after_release :: "status \<Rightarrow> int \<Rightarrow> nat \<Rightarrow> floor_request \<Rightarrow> conf \<Rightarrow> conf" where
  "after_release st k p r c =
     (let c = erase_request k (store p (SetStatus st r) c)
      in if c_ending c then c else released_roles (fr_floorIds r) c)"

definition release_step :: "int \<Rightarrow> conf \<Rightarrow> conf \<Rightarrow> bool" where
  "release_step k c d \<longleftrightarrow> (\<exists>st p r. map_find (c_floorRequests c) k = Some p \<and> c_heap c p = Some r \<and>
     IsGranted r \<and> st \<noteq> Granted \<and> only_output (after_release st k p r c) d)"

lemma set_roles_frame [simp]:
  "c_floorRequests (set_roles a b e c) = c_floorRequests c" "c_heap (set_roles a b e c) = c_heap c"
  "c_next (set_roles a b e c) = c_next c" "c_users (set_roles a b e c) = c_users c"
  "c_ending (set_roles a b e c) = c_ending c" "c_floors (set_roles a b e c) = c_floors c"
  "c_floorRequestCounter (set_roles a b e c) = c_floorRequestCounter c"
  "c_conn (set_roles a b e c) = c_conn c" "c_conferenceId (set_roles a b e c) = c_conferenceId c"
  "c_chairId (set_roles a b e c) = c_chairId c" "c_presenterId (set_roles a b e c) = a"
  "c_editorId (set_roles a b e c) = b" "c_removedUsers (set_roles a b e c) = c_removedUsers c"
  by (simp_all add: set_roles_def)

lemma store_frame [simp]:
  "c_floorRequests (store p r c) = c_floorRequests c" "c_heap (store p r c) = (c_heap c)(p \<mapsto> r)"
  "c_next (store p r c) = c_next c" "c_users (store p r c) = c_users c"
  "c_ending (store p r c) = c_ending c" "c_floors (store p r c) = c_floors c"
  "c_floorRequestCounter (store p r c) = c_floorRequestCounter c"
  "c_conn (store p r c) = c_conn c" "c_conferenceId (store p r c) = c_conferenceId c"
  "c_chairId (store p r c) = c_chairId c" "c_presenterId (store p r c) = c_presenterId c"
  "c_editorId (store p r c) = c_editorId c" "c_removedUsers (store p r c) = c_removedUsers c"
  by (simp_all add: store_def)

lemma erase_request_frame [simp]:
  "c_floorRequests (erase_request k c) = map_erase k (c_floorRequests c)"
  "c_heap (erase_request k c) = c_heap c"
  "c_next (erase_request k c) = c_next c" "c_users (erase_request k c) = c_users c"
  "c_ending (erase_request k c) = c_ending c" "c_floors (erase_request k c) = c_floors c"
  "c_floorRequestCounter (erase_request k c) = c_floorRequestCounter c"
  "c_conn (erase_request k c) = c_conn c" "c_conferenceId (erase_request k c) = c_conferenceId c"
  "c_chairId (erase_request k c) = c_chairId c" "c_presenterId (erase_request k c) = c_presenterId c"
  "c_editorId (erase_request k c) = c_editorId c" "c_removedUsers (erase_request k c) = c_removedUsers c"
  by (simp_all add: erase_request_def)

lemma after_release_frame [simp]:
  "c_floorRequests (after_release st k p r c) = map_erase k (c_floorRequests c)"
  "c_heap (after_release st k p r c) = (c_heap c)(p \<mapsto> SetStatus st r)"
  "c_next (after_release st k p r c) = c_next c" "c_users (after_release st k p r c) = c_users c"
  "c_ending (after_release st k p r c) = c_ending c" "c_floors (after_release st k p r c) = c_floors c"
  "c_floorRequestCounter (after_release st k p r c) = c_floorRequestCounter c"
  "c_conn (after_release st k p r c) = c_conn c"
  "c_conferenceId (after_release st k p r c) = c_conferenceId c"
  "c_chairId (after_release st k p r c) = c_chairId c"
  "c_removedUsers (after_release st k p r c) = c_removedUsers c"
  by (simp_all add: after_release_def released_roles_def Let_def)

lemma requests_set_roles [simp]: "requests (set_roles a b e c) = requests c"
  by (rule ext) (simp add: requests_def split: option.split)

lemma mem_ok_set_roles [simp]: "mem_ok (set_roles a b e c) = mem_ok c"
  by (simp add: mem_ok_def)

lemma requests_after_release:
  assumes "mem_ok c" "map_find (c_floorRequests c) k = Some p"
  shows "requests (after_release st k p r c) = (requests c)(k := None)"
  by (auto simp: after_release_def released_roles_def Let_def requests_erase requests_store [OF assms])

lemma mem_ok_after_release:
  "mem_ok c \<Longrightarrow> c_heap c p = Some r \<Longrightarrow> mem_ok (after_release st k p r c)"
  by (simp add: after_release_def released_roles_def Let_def mem_ok_erase mem_ok_store)

lemma after_release_roles:
  "\<not> c_ending c \<Longrightarrow> c_presenterId (after_release st k p r c) = (if 1 \<in> set (fr_floorIds r) then 0 else c_presenterId c)"
  "\<not> c_ending c \<Longrightarrow> c_editorId (after_release st k p r c) = (if 2 \<in> set (fr_floorIds r) then 0 else c_editorId c)"
  by (simp_all add: after_release_def released_roles_def Let_def)

text \<open>One step takes exactly one granted request away.\<close>

lemma release_step_requests:
  assumes "mem_ok c" "release_step k c d"
  shows "\<exists>r. requests c k = Some r \<and> IsGranted r \<and> requests d = (requests c)(k := None)"
proof -
  obtain st p r where s: "map_find (c_floorRequests c) k = Some p" "c_heap c p = Some r" "IsGranted r"
    "only_output (after_release st k p r c) d"
    using assms(2) by (auto simp: release_step_def)
  with requests_after_release [OF assms(1) s(1)] requests_only_output [OF s(4)]
  show ?thesis by (auto simp: requests_def)
qed

lemma release_step_frame:
  assumes "release_step k c d"
  shows "c_users d = c_users c \<and> c_ending d = c_ending c \<and> c_floors d = c_floors c \<and>
    c_conn d = c_conn c \<and> c_chairId d = c_chairId c \<and> c_next d = c_next c \<and>
    c_floorRequestCounter d = c_floorRequestCounter c \<and> c_conferenceId d = c_conferenceId c \<and>
    c_removedUsers d = c_removedUsers c \<and> c_floorRequests d = map_erase k (c_floorRequests c)"
  using assms by (auto simp: release_step_def dest!: only_output_fields)

lemma role_is_removed:
  assumes "exclusive c" "requests c k = Some r" "IsGranted r"
    and "requests d = (requests c)(k := None)" "role_is c f i"
  shows "role_is d f (if HasFloorId r f then 0 else i)"
proof -
  have holds_d: "holds d k' f \<longleftrightarrow> holds c k' f \<and> k' \<noteq> k" for k'
    by (auto simp: holds_def assms(4))
  show ?thesis
  proof (cases "HasFloorId r f")
    case True
    then have "holds c k f" using assms(2,3) by (auto simp: holds_def)
    then have "\<not> holds d k' f" for k'
      using assms(1) by (auto simp: holds_d exclusive_def)
    with True show ?thesis by (auto simp: role_is_def holds_def)
  next
    case False
    have "\<not> holds c k f" using False assms(2) by (auto simp: holds_def)
    with False assms(4,5) show ?thesis by (auto simp: role_is_def holds_d)
  qed
qed

lemma release_step_inv:
  assumes "conf_inv c" "release_step k c d"
  shows "conf_inv d"
proof -
  obtain st p r where s: "map_find (c_floorRequests c) k = Some p" "c_heap c p = Some r" "IsGranted r"
    "only_output (after_release st k p r c) d"
    using assms(2) by (auto simp: release_step_def)
  let ?e = "after_release st k p r c"
  note inv = conf_invD [OF assms(1)]
  have R: "requests ?e = (requests c)(k := None)" by (rule requests_after_release [OF inv(1) s(1)])
  have k: "requests c k = Some r" using s(1,2) by (simp add: requests_def)
  have "mem_ok ?e" using inv(1) s(2) by (rule mem_ok_after_release)
  moreover have "statuses_ok ?e" using inv(2) by (auto simp: statuses_ok_def R)
  moreover have "floors_ok ?e" using inv(3) by (auto simp: floors_ok_def R)
  moreover have "exclusive ?e"
    using inv(4) unfolding exclusive_def holds_def R by (metis fun_upd_apply option.distinct(1))
  moreover have "users_ok ?e" using inv(6) by (simp add: users_ok_def)
  moreover have "roles_ok ?e"
  proof (cases "c_ending c")
    case False
    then have "role_is c 1 (c_presenterId c)" "role_is c 2 (c_editorId c)"
      using inv(5) by (auto simp: roles_ok_def)
    from this [THEN role_is_removed [OF inv(4) k s(3) R]] False
    show ?thesis by (simp add: roles_ok_def after_release_roles HasFloorId_def)
  qed (simp add: roles_ok_def)
  ultimately have "conf_inv ?e" by (simp add: conf_inv_def)
  then show ?thesis by (simp add: conf_inv_only_output [OF s(4)])
qed

section \<open>Revocation\<close>

lemma only_output_set_roles_fields:
  "only_output (set_roles a b e c) d \<Longrightarrow> c_presenterId d = a \<and> c_editorId d = b"
  by (auto dest: only_output_fields)

lemma SetPresenter_roles:
  "only_output (set_roles i (c_editorId c) False c) (SetPresenter i c)"
  by (cases c) (auto simp: SetPresenter_def Let_def only_output_def set_roles_def emit_def)

lemma SetEditor_roles:
  "only_output (set_roles (c_presenterId c) i (c_presenting c) c) (SetEditor i c)"
  by (auto simp: SetEditor_def only_output_def set_roles_def emit_def)

lemma set_roles_self [simp]: "set_roles (c_presenterId c) (c_editorId c) (c_presenting c) c = c"
  by (simp add: set_roles_def)

lemma set_roles_set_roles [simp]: "set_roles a b e (set_roles a' b' e' c) = set_roles a b e c"
  by (simp add: set_roles_def)

lemma c_presenting_set_roles [simp]: "c_presenting (set_roles a b e c) = e"
  by (simp add: set_roles_def)

lemma c_presenting_only_output: "only_output c d \<Longrightarrow> c_presenting d = c_presenting c"
  by (auto simp: only_output_def)

text \<open>The listener's reaction when the editor's request need not be looked at.\<close>

lemma onFloorReleased_simple:
  assumes "1 \<notin> set fs \<or> 2 \<in> set fs"
  shows "\<exists>d. onFloorReleased k b fs c = Ok d \<and> only_output (released_roles fs c) d"
proof -
  define c1 where "c1 = (if 1 \<in> set fs then SetPresenter 0 c else c)"
  define c2 where "c2 = (if 2 \<in> set fs then SetEditor 0 c1 else c1)"
  have 1: "onFloorReleased k b fs c = Ok c2"
    using assms by (auto simp: onFloorReleased.simps c1_def c2_def Let_def)
  have o1: "only_output (set_roles (if 1 \<in> set fs then 0 else c_presenterId c) (c_editorId c)
      (if 1 \<in> set fs then False else c_presenting c) c) c1"
    using SetPresenter_roles [of 0 c] by (simp add: c1_def)
  have "only_output (released_roles fs c) c2"
  proof (cases "2 \<in> set fs")
    case True
    have "only_output (released_roles fs c)
        (set_roles (c_presenterId c1) 0 (c_presenting c1) c1)"
      using only_output_update(3) [OF o1, of "c_presenterId c1" 0 "c_presenting c1"] True
        only_output_set_roles_fields [OF o1] c_presenting_only_output [OF o1]
      by (simp add: released_roles_def)
    with True SetEditor_roles [of c1 0] show ?thesis
      by (auto simp: c2_def intro: only_output_trans)
  qed (use o1 in \<open>simp add: released_roles_def c2_def\<close>)
  with 1 show ?thesis by blast
qed

lemma only_output_released_roles:
  "only_output c d \<Longrightarrow> only_output (released_roles fs c) (released_roles fs d)"
  unfolding released_roles_def
  using only_output_fields [of c d] c_presenting_only_output [of c d] by (simp add: only_output_update(3) del: set_roles_self)

text \<open>What happens in \<open>RevokeFloorRequest\<close> before the listener is called.\<close>

lemma Revoke_unfold:
  assumes "map_find (c_floorRequests c) k = Some p" "c_heap c p = Some r" "IsGranted r" "mem_ok c"
  obtains d where "only_output (erase_request k (store p (SetStatus Revoked r) c)) d"
    "RevokeFloorRequest k info c =
       bindR (if c_ending c then Ok d
              else onFloorReleased k (fr_beneficiaryId r) (fr_floorIds r) d) (\<lambda>e.
       case GetFloorRequest e k of None \<Rightarrow> Ok (True, e)
       | Some _ \<Rightarrow> bindR (delete_request p e) (\<lambda>e. Ok (True, e)))"
proof -
  obtain d where d: "update_and_notify Revoked info p c = Ok d"
    "only_output (store p (SetStatus Revoked r) c) d"
    using update_and_notify_total [OF assms(2)] by blast
  note o = only_output_update(2) [OF d(2), of k]
  have "c_heap (erase_request k d) p = Some (SetStatus Revoked r)" "c_ending (erase_request k d) = c_ending c"
    using only_output_fields [OF o] by auto
  then have "RevokeFloorRequest k info c =
       bindR (if c_ending c then Ok (erase_request k d)
              else onFloorReleased k (fr_beneficiaryId r) (fr_floorIds r) (erase_request k d)) (\<lambda>e.
       case GetFloorRequest e k of None \<Rightarrow> Ok (True, e)
       | Some _ \<Rightarrow> bindR (delete_request p e) (\<lambda>e. Ok (True, e)))"
    using assms d(1) by (subst RevokeFloorRequest.simps) (simp add: GetFloorRequest_def deref_def Let_def)
  with o that show ?thesis by blast
qed

lemma not_granted_Revoke:
  assumes "mem_ok c" "\<And>r. requests c k = Some r \<Longrightarrow> \<not> IsGranted r"
  shows "RevokeFloorRequest k info c = Ok (False, c)"
proof (cases "map_find (c_floorRequests c) k")
  case None
  then show ?thesis by (simp add: RevokeFloorRequest.simps GetFloorRequest_def)
next
  case (Some p)
  with mem_okD [OF assms(1) this] assms(2) show ?thesis
    by (auto simp: RevokeFloorRequest.simps GetFloorRequest_def deref_def)
qed

lemma Revoke_simple:
  assumes "mem_ok c" "requests c k = Some r" "IsGranted r"
    and "c_ending c \<or> 1 \<notin> set (fr_floorIds r) \<or> 2 \<in> set (fr_floorIds r)"
  shows "\<exists>d. RevokeFloorRequest k info c = Ok (True, d) \<and> release_step k c d"
proof -
  obtain p where p: "map_find (c_floorRequests c) k = Some p" "c_heap c p = Some r"
    using assms(2) by (rule requests_SomeD)
  obtain d where d: "only_output (erase_request k (store p (SetStatus Revoked r) c)) d"
    "RevokeFloorRequest k info c =
       bindR (if c_ending c then Ok d
              else onFloorReleased k (fr_beneficiaryId r) (fr_floorIds r) d) (\<lambda>e.
       case GetFloorRequest e k of None \<Rightarrow> Ok (True, e)
       | Some _ \<Rightarrow> bindR (delete_request p e) (\<lambda>e. Ok (True, e)))"
    by (rule Revoke_unfold [OF p assms(3,1)])
  have "\<exists>e. (if c_ending c then Ok d
      else onFloorReleased k (fr_beneficiaryId r) (fr_floorIds r) d) = Ok e \<and>
      only_output (after_release Revoked k p r c) e"
  proof (cases "c_ending c")
    case False
    then obtain e where "onFloorReleased k (fr_beneficiaryId r) (fr_floorIds r) d = Ok e"
      "only_output (released_roles (fr_floorIds r) d) e"
      using onFloorReleased_simple assms(4) by blast
    with False only_output_released_roles [OF d(1)] show ?thesis
      by (auto simp: after_release_def Let_def intro: only_output_trans)
  qed (use d in \<open>simp add: after_release_def Let_def\<close>)
  then obtain e where e: "(if c_ending c then Ok d
      else onFloorReleased k (fr_beneficiaryId r) (fr_floorIds r) d) = Ok e"
    "only_output (after_release Revoked k p r c) e" by blast
  then have step: "release_step k c e"
    using p assms(3) unfolding release_step_def by (intro exI [of _ Revoked] exI) auto
  then have "GetFloorRequest e k = None"
    using release_step_frame [OF step] by (simp add: GetFloorRequest_def map_find_erase)
  with d(2) e(1) step show ?thesis by simp
qed

end
