(* ===== verification/BFCPOperations.thy ===== *)
theory BFCPOperations
  imports BFCPInvariant
begin

text \<open>
  What each operation of the floor control server does to a conference that satisfies the
  invariant: it ends without a fault, it keeps the invariant, and it changes the requests, the
  users and the roles as stated.  \<open>revokes K c d\<close> is the effect of any sequence of revocations:
  exactly the requests \<open>K\<close>, all of them granted, are gone.
\<close>

section \<open>Sequences of revocations\<close>

inductive revokes :: "int set \<Rightarrow> conf \<Rightarrow> conf \<Rightarrow> bool" where
  revokes_none: "only_output c d \<Longrightarrow> revokes {} c d"
| revokes_step: "release_step k c d \<Longrightarrow> revokes K d e \<Longrightarrow> revokes (insert k K) c e"

lemma revokes_refl [simp]: "revokes {} c c"
  by (simp add: revokes_none)

lemma release_step_only_output_left:
  assumes "only_output c d" "release_step k d e"
  shows "release_step k c e"
proof -
  obtain st p r where s: "map_find (c_floorRequests d) k = Some p" "c_heap d p = Some r" "IsGranted r"
    "st \<noteq> Granted" "only_output (after_release st k p r d) e"
    using assms(2) by (auto simp: release_step_def)
  note f = only_output_fields [OF assms(1)]
  have "only_output (after_release st k p r c) (after_release st k p r d)"
    using only_output_update(1,2) [OF assms(1)] f
    by (simp add: after_release_def Let_def only_output_update only_output_released_roles)
  with s f show ?thesis by (auto simp: release_step_def intro: only_output_trans)
qed

lemma revokes_only_output_left: "revokes K d e \<Longrightarrow> only_output c d \<Longrightarrow> revokes K c e"
  by (induction arbitrary: c rule: revokes.induct)
    (auto intro: revokes.intros only_output_trans release_step_only_output_left)

lemma revokes_trans: "revokes K c d \<Longrightarrow> revokes K' d e \<Longrightarrow> revokes (K \<union> K') c e"
  by (induction rule: revokes.induct) (auto intro: revokes.intros revokes_only_output_left)

lemma revokes_one: "release_step k c d \<Longrightarrow> revokes {k} c d"
  using revokes_step [of k c d "{}" d] by simp

lemma revokes_inv: "revokes K c d \<Longrightarrow> conf_inv c \<Longrightarrow> conf_inv d"
  by (induction rule: revokes.induct) (auto simp: conf_inv_only_output intro: release_step_inv)

lemma revokes_frame:
  "revokes K c d \<Longrightarrow> c_users d = c_users c \<and> c_ending d = c_ending c \<and> c_floors d = c_floors c \<and>
    c_conn d = c_conn c \<and> c_chairId d = c_chairId c \<and> c_next d = c_next c \<and>
    c_floorRequestCounter d = c_floorRequestCounter c \<and> c_conferenceId d = c_conferenceId c \<and>
    c_removedUsers d = c_removedUsers c"
  by (induction rule: revokes.induct) (auto dest: only_output_fields release_step_frame)

lemma revokes_map:
  "revokes K c d \<Longrightarrow> c_floorRequests d = filter (\<lambda>e. fst e \<notin> K) (c_floorRequests c)"
  by (induction rule: revokes.induct)
    (auto simp: map_erase_def conj_commute dest!: only_output_fields release_step_frame)

lemma map_find_filter: "map_find (filter (\<lambda>e. fst e \<notin> K) m) k = (if k \<in> K then None else map_find m k)"
  by (induction m) (auto simp: map_find_def)

lemma revokes_find:
  "revokes K c d \<Longrightarrow> map_find (c_floorRequests d) k = (if k \<in> K then None else map_find (c_floorRequests c) k)"
  by (simp add: revokes_map map_find_filter)

lemma revokes_requests:
  "revokes K c d \<Longrightarrow> mem_ok c \<Longrightarrow>
     (\<forall>k \<in> K. \<exists>r. requests c k = Some r \<and> IsGranted r) \<and>
     requests d = (\<lambda>k. if k \<in> K then None else requests c k)"
proof (induction rule: revokes.induct)
  case (revokes_none c d)
  then show ?case by (simp add: requests_only_output)
next
  case (revokes_step k c d K e)
  obtain st p r where s: "map_find (c_floorRequests c) k = Some p" "c_heap c p = Some r"
    "only_output (after_release st k p r c) d"
    using revokes_step.hyps(1) by (auto simp: release_step_def)
  have "mem_ok d"
    using mem_ok_after_release [OF revokes_step.prems s(2)] mem_ok_only_output [OF s(3)] by simp
  with revokes_step.IH release_step_requests [OF revokes_step.prems revokes_step.hyps(1)]
  show ?case by (auto simp: fun_eq_iff split: if_splits)
qed

text \<open>A revoked request stays in memory: nothing is deleted, only the status changes.\<close>

lemma release_step_heap:
  assumes "release_step k c d" "mem_ok c" "map_find (c_floorRequests c) k' = Some p" "c_heap c p = Some r"
  shows "\<exists>st. c_heap d p = Some (if k' = k then SetStatus st r else r) \<and> st \<noteq> Granted"
proof -
  obtain q st r' where q: "map_find (c_floorRequests c) k = Some q" "c_heap c q = Some r'"
    "st \<noteq> Granted" "c_heap d = (c_heap c)(q \<mapsto> SetStatus st r')"
    using assms(1) by (auto simp: release_step_def dest!: only_output_fields)
  show ?thesis
  proof (cases "k' = k")
    case True
    with q assms(3,4) show ?thesis by auto
  next
    case False
    then have "p \<noteq> q" using pointers_distinct [OF assms(2) assms(3)] q(1) by blast
    with False q assms(4) show ?thesis by auto
  qed
qed

lemma release_step_heap_other:
  assumes "release_step k c d" "c_heap c p = Some r" "\<not> IsGranted r"
  shows "c_heap d p = Some r"
  using assms by (auto simp: release_step_def dest!: only_output_fields)

lemma revokes_heap_other: "revokes K c d \<Longrightarrow> c_heap c p = Some r \<Longrightarrow> \<not> IsGranted r \<Longrightarrow> c_heap d p = Some r"
  by (induction rule: revokes.induct) (auto dest: only_output_fields release_step_heap_other)

lemma release_step_mem_ok: "release_step k c d \<Longrightarrow> mem_ok c \<Longrightarrow> mem_ok d"
  by (auto simp: release_step_def mem_ok_only_output intro: mem_ok_after_release)

lemma revokes_heap:
  "revokes K c d \<Longrightarrow> mem_ok c \<Longrightarrow> map_find (c_floorRequests c) k = Some p \<Longrightarrow> c_heap c p = Some r \<Longrightarrow>
     \<exists>r'. c_heap d p = Some r' \<and> (if k \<in> K then \<not> IsGranted r' else r' = r)"
proof (induction rule: revokes.induct)
  case (revokes_none c d)
  then show ?case using only_output_fields by auto
next
  case (revokes_step j c d K e)
  obtain st where st: "c_heap d p = Some (if k = j then SetStatus st r else r)" "st \<noteq> Granted"
    using release_step_heap [OF revokes_step.hyps(1) revokes_step.prems] by blast
  show ?case
  proof (cases "k = j")
    case True
    with st revokes_heap_other [OF revokes_step.hyps(2), of p] show ?thesis by auto
  next
    case False
    then have "map_find (c_floorRequests d) k = Some p"
      using revokes_step.prems(2) release_step_frame [OF revokes_step.hyps(1)] by (simp add: map_find_erase)
    with False revokes_step.IH [OF release_step_mem_ok [OF revokes_step.hyps(1) revokes_step.prems(1)]] st
    show ?thesis by simp
  qed
qed

section \<open>Revoking one request\<close>

text \<open>Revoking the presenter's floor without the editor's takes the editor's request too.\<close>

definition revoked_with :: "conf \<Rightarrow> int \<Rightarrow> int set" where
  "revoked_with c k =
     insert k (if \<not> c_ending c \<and> holds c k 1 \<and> \<not> holds c k 2 then {e. holds c e 2} else {})"

lemma exclusive_holder: "exclusive c \<Longrightarrow> holds c e f \<Longrightarrow> {e. holds c e f} = {e}"
  by (auto simp: exclusive_def)

lemma holds_after_step:
  assumes "mem_ok c" "release_step k c d"
  shows "holds d e f \<longleftrightarrow> holds c e f \<and> e \<noteq> k"
  using release_step_requests [OF assms] by (auto simp: holds_def split: if_splits)

text \<open>
  The listener's reaction to a release, whatever the new status: one revocation step, and a
  second one when the editor loses the floor together with the presenter.
\<close>

lemma release_step_intro:
  assumes "map_find (c_floorRequests c) k = Some p" "c_heap c p = Some r" "IsGranted r" "st \<noteq> Granted"
    and "only_output (after_release st k p r c) d"
  shows "release_step k c d"
  using assms unfolding release_step_def by (intro exI [of _ st] exI) auto

lemma editor_not_presenter:
  assumes "exclusive c" "mem_ok c" "release_step k c d" "holds c k 1" "requests d e = Some r'"
    "IsGranted r'"
  shows "1 \<notin> set (fr_floorIds r')"
proof
  assume "1 \<in> set (fr_floorIds r')"
  with assms have "holds d e 1" by (auto simp: holds_def HasFloorId_def)
  with assms(1,4) holds_after_step [OF assms(2,3)] show False by (auto simp: exclusive_def)
qed

lemma onFloorReleased_editor:
  assumes inv: "conf_inv c" and p: "map_find (c_floorRequests c) k = Some p" "c_heap c p = Some r"
    and r: "IsGranted r" "st \<noteq> Granted" "1 \<in> set (fr_floorIds r)" "2 \<notin> set (fr_floorIds r)"
    and c: "\<not> c_ending c" "only_output (erase_request k (store p (SetStatus st r) c)) d"
  shows "\<exists>e. onFloorReleased k b (fr_floorIds r) d = Ok e \<and> revokes (insert k {e. holds c e 2}) c e"
proof -
  note i = conf_invD [OF inv]
  define d1 where "d1 = SetPresenter 0 d"
  have "only_output (released_roles (fr_floorIds r) d) d1"
    using SetPresenter_roles [of 0 d] r(3,4) by (simp add: released_roles_def d1_def)
  with only_output_released_roles [OF c(2)] c(1) have "only_output (after_release st k p r c) d1"
    by (auto simp: after_release_def Let_def intro: only_output_trans)
  then have step: "release_step k c d1" by (rule release_step_intro [OF p r(1,2)])
  note inv1 = release_step_inv [OF inv step]
  note h1 = holds_after_step [OF i(1) step]
  have "requests c k = Some r" using p by (simp add: requests_def)
  then have hk: "holds c k 1" "\<not> holds c k 2" using r by (auto simp: holds_def HasFloorId_def)
  obtain e where e: "GetGrantedFloorRequestId d1 2 = Ok e"
    "if e = 0 then \<forall>k'. \<not> holds d1 k' 2 else holds d1 e 2"
    using GetGrantedFloorRequestId_inv [OF inv1, of 2] c(1) release_step_frame [OF step] by auto
  have rel: "onFloorReleased k b (fr_floorIds r) d =
      (if e \<noteq> 0 then bindR (RevokeFloorRequest e [] d1) (\<lambda>x. Ok (snd x)) else Ok d1)"
    using r e(1) by (cases "e = 0") (auto simp: onFloorReleased.simps d1_def Let_def bindR_assoc
        split: res.splits intro: bindR_cong)
  show ?thesis
  proof (cases "e = 0")
    case True
    then have "{e. holds c e 2} = {}" using e(2) h1 hk(2) by (auto split: if_splits)
    then show ?thesis using rel True revokes_one [OF step] by simp
  next
    case False
    then obtain r' where he: "holds d1 e 2" and r': "requests d1 e = Some r'" "IsGranted r'"
      using e(2) by (auto simp: holds_def)
    then obtain d2 where d2: "RevokeFloorRequest e [] d1 = Ok (True, d2)" "release_step e d1 d2"
      using Revoke_simple [OF conf_invD(1) [OF inv1] r'] editor_not_presenter [OF i(4,1) step hk(1) r']
      by blast
    have "{e. holds c e 2} = {e}" using i(4) he h1 by (auto simp: exclusive_def)
    with revokes_step [OF step revokes_one [OF d2(2)]] rel False d2(1) show ?thesis by simp
  qed
qed

lemma onFloorReleased_spec:
  assumes inv: "conf_inv c" and p: "map_find (c_floorRequests c) k = Some p" "c_heap c p = Some r"
    and r: "IsGranted r" "st \<noteq> Granted"
    and c: "\<not> c_ending c" "only_output (erase_request k (store p (SetStatus st r) c)) d"
  shows "\<exists>e. onFloorReleased k b (fr_floorIds r) d = Ok e \<and> revokes (revoked_with c k) c e"
proof -
  have k: "requests c k = Some r" using p by (simp add: requests_def)
  show ?thesis
  proof (cases "1 \<in> set (fr_floorIds r) \<and> 2 \<notin> set (fr_floorIds r)")
    case True
    then have "revoked_with c k = insert k {e. holds c e 2}"
      using k r c(1) by (auto simp: revoked_with_def holds_def HasFloorId_def)
    with onFloorReleased_editor [OF inv p r _ _ c] True show ?thesis by simp
  next
    case False
    then obtain e where e: "onFloorReleased k b (fr_floorIds r) d = Ok e"
      "only_output (released_roles (fr_floorIds r) d) e"
      using onFloorReleased_simple by blast
    with only_output_released_roles [OF c(2)] c(1) have "only_output (after_release st k p r c) e"
      by (auto simp: after_release_def Let_def intro: only_output_trans)
    then have "release_step k c e" by (rule release_step_intro [OF p r])
    moreover have "revoked_with c k = {k}"
      using False k r by (auto simp: revoked_with_def holds_def HasFloorId_def)
    ultimately show ?thesis using e(1) by (auto intro: revokes_one)
  qed
qed

text \<open>\<open>RevokeFloorRequest\<close> in full.\<close>

lemma Revoke_spec:
  assumes inv: "conf_inv c"
  shows "\<exists>d. RevokeFloorRequest k info c =
      Ok (\<exists>r. requests c k = Some r \<and> IsGranted r, d) \<and>
    revokes (if \<exists>r. requests c k = Some r \<and> IsGranted r then revoked_with c k else {}) c d"
proof (cases "\<exists>r. requests c k = Some r \<and> IsGranted r")
  case False
  then show ?thesis using not_granted_Revoke [OF conf_invD(1) [OF inv], of k info] by auto
next
  case True
  then obtain r where r: "requests c k = Some r" "IsGranted r" by blast
  obtain p where p: "map_find (c_floorRequests c) k = Some p" "c_heap c p = Some r"
    using r(1) by (rule requests_SomeD)
  obtain d where d: "only_output (erase_request k (store p (SetStatus Revoked r) c)) d"
    "RevokeFloorRequest k info c =
       bindR (if c_ending c then Ok d
              else onFloorReleased k (fr_beneficiaryId r) (fr_floorIds r) d) (\<lambda>e.
       case GetFloorRequest e k of None \<Rightarrow> Ok (True, e)
       | Some _ \<Rightarrow> bindR (delete_request p e) (\<lambda>e. Ok (True, e)))"
    by (rule Revoke_unfold [OF p r(2) conf_invD(1) [OF inv]])
  have "\<exists>e. (if c_ending c then Ok d
      else onFloorReleased k (fr_beneficiaryId r) (fr_floorIds r) d) = Ok e \<and> revokes (revoked_with c k) c e"
  proof (cases "c_ending c")
    case True
    then have "only_output (after_release Revoked k p r c) d" using d(1) by (simp add: after_release_def Let_def)
    then have "release_step k c d" by (intro release_step_intro [OF p r(2)]) simp_all
    then show ?thesis using True by (auto simp: revoked_with_def intro: revokes_one)
  next
    case False
    with onFloorReleased_spec [OF inv p r(2) _ False d(1)] show ?thesis by simp
  qed
  then obtain e where e: "(if c_ending c then Ok d
      else onFloorReleased k (fr_beneficiaryId r) (fr_floorIds r) d) = Ok e" "revokes (revoked_with c k) c e"
    by blast
  then have "GetFloorRequest e k = None"
    by (simp add: GetFloorRequest_def revokes_find revoked_with_def)
  with d(2) e r show ?thesis by auto
qed

section \<open>What most operations leave unchanged\<close>

definition same_members :: "conf \<Rightarrow> conf \<Rightarrow> bool" where
  "same_members c d \<longleftrightarrow> c_users d = c_users c \<and> c_ending d = c_ending c \<and> c_floors d = c_floors c \<and>
     c_conn d = c_conn c \<and> c_chairId d = c_chairId c \<and> c_conferenceId d = c_conferenceId c \<and>
     c_removedUsers d = c_removedUsers c \<and> c_floorRequestCounter d = c_floorRequestCounter c"

lemma same_members_refl [simp]: "same_members c c"
  by (simp add: same_members_def)

lemma same_members_trans [trans]: "same_members c d \<Longrightarrow> same_members d e \<Longrightarrow> same_members c e"
  by (simp add: same_members_def)

lemma same_members_revokes: "revokes K c d \<Longrightarrow> same_members c d"
  by (simp add: same_members_def revokes_frame)

lemma same_members_only_output: "only_output c d \<Longrightarrow> same_members c d"
  by (simp add: same_members_def only_output_fields)

section \<open>Denying a request\<close>

lemma pending_iff: "statuses_ok c \<Longrightarrow> requests c k = Some r \<Longrightarrow> CanBeDenied r \<longleftrightarrow> \<not> IsGranted r"
  unfolding statuses_ok_def CanBeDenied_def IsGranted_def by (fastforce split: status.split)

lemma requests_delete:
  assumes "mem_ok c" "map_find (c_floorRequests c) k = Some p"
    and "c_floorRequests d = map_erase k (c_floorRequests c)" "c_heap d = (c_heap c)(p := h)"
  shows "requests d = (requests c)(k := None)"
proof
  fix k'
  show "requests d k' = ((requests c)(k := None)) k'"
    using pointers_distinct [OF assms(1,2), of k']
    by (auto simp: requests_def assms(3,4) map_find_erase split: option.split)
qed

lemma mem_ok_delete:
  assumes "mem_ok c" "map_find (c_floorRequests c) k = Some p"
    and "c_floorRequests d = map_erase k (c_floorRequests c)" "c_heap d = (c_heap c)(p := h)"
    and "c_next d = c_next c" "c_floorRequestCounter d = c_floorRequestCounter c"
  shows "mem_ok d"
proof -
  have wf: "omap_wf (c_floorRequests c)" using assms(1) by (simp add: mem_ok_def)
  have "q \<noteq> p" if "(k', q) \<in> set (c_floorRequests c)" "k' \<noteq> k" for k' q
    using pointers_distinct [OF assms(1,2), of k'] that wf by (auto simp: map_find_in_iff)
  then show ?thesis
    using assms(1) by (fastforce simp: mem_ok_def assms(3-6) set_map_erase)
qed

lemma conf_inv_forget:
  assumes "conf_inv c" "requests c k = Some r" "\<not> IsGranted r"
    and "mem_ok d" "requests d = (requests c)(k := None)" "same_members c d"
    and "c_presenterId d = c_presenterId c" "c_editorId d = c_editorId c"
  shows "conf_inv d"
proof -
  note i = conf_invD [OF assms(1)]
  have h: "holds d = holds c"
    using assms(2,3,5) by (intro ext) (auto simp: holds_def split: if_splits)
  have m: "c_users d = c_users c" "c_ending d = c_ending c" "c_floors d = c_floors c" "c_conn d = c_conn c"
    using assms(6) by (auto simp: same_members_def)
  have role: "role_is d f x = role_is c f x" for f x
  proof -
    have "(requests d k' = Some r' \<longrightarrow> IsGranted r' \<longrightarrow> P) = (requests c k' = Some r' \<longrightarrow> IsGranted r' \<longrightarrow> P)"
      for k' r' P
      using assms(2,3) by (auto simp: assms(5) split: if_splits)
    then show ?thesis by (simp add: role_is_def h)
  qed
  have "statuses_ok d" "floors_ok d" "exclusive d" "roles_ok d" "users_ok d"
    using i(2-6) assms(7,8)
    by (auto simp: statuses_ok_def floors_ok_def exclusive_def roles_ok_def users_ok_def h m role assms(5))
  with assms(4) show ?thesis by (simp add: conf_inv_def)
qed

lemma Deny_spec:
  assumes inv: "conf_inv c"
  shows "\<exists>d. DenyFloorRequest k info c = Ok (\<exists>r. requests c k = Some r \<and> \<not> IsGranted r, d) \<and>
    conf_inv d \<and> same_members c d \<and>
    c_presenterId d = c_presenterId c \<and> c_editorId d = c_editorId c \<and>
    requests d = (if \<exists>r. requests c k = Some r \<and> \<not> IsGranted r then (requests c)(k := None) else requests c)"
proof (cases "\<exists>r. requests c k = Some r \<and> \<not> IsGranted r")
  case False
  have "DenyFloorRequest k info c = Ok (False, c)"
  proof (cases "map_find (c_floorRequests c) k")
    case (Some p)
    with mem_okD [OF conf_invD(1) [OF inv] this] False show ?thesis
      by (auto simp: DenyFloorRequest_def GetFloorRequest_def deref_def
          dest: pending_iff [OF conf_invD(2) [OF inv]])
  qed (simp add: DenyFloorRequest_def GetFloorRequest_def)
  with False inv show ?thesis by auto
next
  case True
  then obtain r where r: "requests c k = Some r" "\<not> IsGranted r" by blast
  note i = conf_invD [OF inv]
  obtain p where p: "map_find (c_floorRequests c) k = Some p" "c_heap c p = Some r"
    using r(1) by (rule requests_SomeD)
  obtain d where d: "update_and_notify Denied info p c = Ok d"
    "only_output (store p (SetStatus Denied r) c) d"
    using update_and_notify_total [OF p(2)] by blast
  note f = only_output_fields [OF d(2)]
  define e where "e = (erase_request k d)\<lparr>c_heap := (c_heap (erase_request k d))(p := None)\<rparr>"
  have deny: "DenyFloorRequest k info c = Ok (True, e)"
    using p r pending_iff [OF i(2) r(1)] d(1) f
    by (simp add: DenyFloorRequest_def GetFloorRequest_def deref_def delete_request_def e_def)
  have e: "c_floorRequests e = map_erase k (c_floorRequests c)" "c_heap e = (c_heap c)(p := None)"
    "c_next e = c_next c" "c_floorRequestCounter e = c_floorRequestCounter c"
    using f by (auto simp: e_def)
  have m: "same_members c e" "c_presenterId e = c_presenterId c" "c_editorId e = c_editorId c"
    using f by (auto simp: e_def same_members_def)
  note R = requests_delete [OF i(1) p(1) e(1,2)]
  have "conf_inv e" by (rule conf_inv_forget [OF inv r mem_ok_delete [OF i(1) p(1) e] R m])
  with deny m R True show ?thesis by auto
qed

section \<open>Granting a request\<close>

text \<open>The requests that go when the requests \<open>S\<close> are revoked one after the other.\<close>

definition revoked_all :: "conf \<Rightarrow> int set \<Rightarrow> int set" where
  "revoked_all c S = (\<Union>k \<in> S. revoked_with c k)"

lemma revoked_with_closed: "k \<in> revoked_with c j \<Longrightarrow> revoked_with c k \<subseteq> revoked_with c j"
  by (auto simp: revoked_with_def split: if_splits)

lemma revoked_all_insert: "revoked_all c (insert k S) = revoked_with c k \<union> revoked_all c S"
  by (simp add: revoked_all_def)

lemma holds_revokes:
  "revokes K c d \<Longrightarrow> mem_ok c \<Longrightarrow> holds d k f \<longleftrightarrow> holds c k f \<and> k \<notin> K"
  using revokes_requests [of K c d] by (auto simp: holds_def)

lemma revoked_with_after:
  assumes "revokes K c d" "mem_ok c" "k \<notin> K"
  shows "K \<union> revoked_with d k = K \<union> revoked_with c k"
  using assms(3) revokes_frame [OF assms(1)]
  by (auto simp: revoked_with_def holds_revokes [OF assms(1,2)])

lemma revoke_if_granted_step:
  assumes inv: "conf_inv c" and R: "revokes (revoked_all c S) c d"
    and e: "map_find (c_floorRequests c) k = Some p" "c_heap c p = Some r"
  shows "\<exists>d'. revoke_if_granted p d = Ok d' \<and>
    revokes (revoked_all c (if IsGranted r then insert k S else S)) c d'"
proof -
  note mem = conf_invD(1) [OF inv]
  obtain r' where r': "c_heap d p = Some r'"
    "if k \<in> revoked_all c S then \<not> IsGranted r' else r' = r"
    using revokes_heap [OF R mem e] by blast
  have id: "fr_floorRequestId r = k" using mem_okD [OF mem e(1)] e(2) by auto
  show ?thesis
  proof (cases "IsGranted r \<and> k \<notin> revoked_all c S")
    case False
    then have "\<not> IsGranted r'" "revoked_all c (if IsGranted r then insert k S else S) = revoked_all c S"
      using r'(2) by (auto simp: revoked_all_def dest: revoked_with_closed split: if_splits)
    with r'(1) R show ?thesis by (auto simp: revoke_if_granted_def deref_def)
  next
    case True
    then have k: "requests d k = Some r" using revokes_requests [OF R mem] e by (auto simp: requests_def)
    obtain d' where d': "RevokeFloorRequest k (L ''granted to other user'') d = Ok (True, d')"
      "revokes (revoked_with d k) d d'"
      using Revoke_spec [OF revokes_inv [OF R inv], of k] k True by auto
    have "revokes (revoked_all c S \<union> revoked_with d k) c d'" by (rule revokes_trans [OF R d'(2)])
    then have "revokes (revoked_all c (insert k S)) c d'"
      using revoked_with_after [OF R mem] True by (simp add: revoked_all_insert Un_commute)
    with r' True d'(1) id show ?thesis by (auto simp: revoke_if_granted_def deref_def)
  qed
qed

lemma revoke_loop:
  assumes inv: "conf_inv c" and R: "revokes (revoked_all c S) c d"
    and es: "set es \<subseteq> set (c_floorRequests c)"
  shows "\<exists>d'. foldR revoke_if_granted (map snd es) d = Ok d' \<and>
    revokes (revoked_all c (S \<union> {fst e |e. e \<in> set es \<and> IsGranted (the (c_heap c (snd e)))})) c d'"
  using R es
proof (induction es arbitrary: S d)
  case (Cons e es)
  note mem = conf_invD(1) [OF inv]
  obtain k p where e: "e = (k, p)" by (cases e)
  have "omap_wf (c_floorRequests c)" using mem by (simp add: mem_ok_def)
  then have f: "map_find (c_floorRequests c) k = Some p" using Cons.prems(2) e by (simp add: map_find_in_iff)
  obtain r where r: "c_heap c p = Some r" using mem_okD [OF mem f] by blast
  obtain d1 where d1: "revoke_if_granted p d = Ok d1"
    "revokes (revoked_all c (if IsGranted r then insert k S else S)) c d1"
    using revoke_if_granted_step [OF inv Cons.prems(1) f r] by blast
  have "{fst x |x. x \<in> set (e # es) \<and> IsGranted (the (c_heap c (snd x)))} =
     (if IsGranted r then {k} else {}) \<union> {fst x |x. x \<in> set es \<and> IsGranted (the (c_heap c (snd x)))}"
    using e r by auto
  then have "S \<union> {fst x |x. x \<in> set (e # es) \<and> IsGranted (the (c_heap c (snd x)))} =
     (if IsGranted r then insert k S else S) \<union> {fst x |x. x \<in> set es \<and> IsGranted (the (c_heap c (snd x)))}"
    by auto
  with Cons.IH [OF d1(2)] Cons.prems(2) d1(1) e show ?case by auto
qed simp

text \<open>The requests in the way of the floors \<open>fs\<close>, and all that go with them.\<close>

definition conflicting :: "conf \<Rightarrow> int list \<Rightarrow> int set" where
  "conflicting c fs = {k. \<exists>f \<in> set fs. holds c k f}"

definition granted_over :: "conf \<Rightarrow> int list \<Rightarrow> int set" where
  "granted_over c fs = revoked_all c (conflicting c fs) \<union> (if 1 \<in> set fs then {e. holds c e 2} else {})"

lemma Grant_revocations:
  assumes inv: "conf_inv c"
  shows "\<exists>ps d. GetFloorRequestsForFloors c fs = Ok ps \<and> foldR revoke_if_granted ps c = Ok d \<and>
    revokes (revoked_all c (conflicting c fs)) c d"
proof -
  note mem = conf_invD(1) [OF inv]
  define es where "es = filter (\<lambda>e. list_ex (HasFloorId (the (c_heap c (snd e)))) fs) (c_floorRequests c)"
  have ps: "GetFloorRequestsForFloors c fs = Ok (map snd es)"
    using filter_requests [OF mem, of "\<lambda>r. list_ex (HasFloorId r) fs"]
    by (simp add: GetFloorRequestsForFloors_def es_def filter_map comp_def)
  have wf: "omap_wf (c_floorRequests c)" using mem by (simp add: mem_ok_def)
  have "{fst e |e. e \<in> set es \<and> IsGranted (the (c_heap c (snd e)))} = conflicting c fs" (is "?A = _")
  proof (intro equalityI subsetI)
    fix k assume "k \<in> ?A"
    then obtain p where p: "(k, p) \<in> set (c_floorRequests c)" "IsGranted (the (c_heap c p))"
      "list_ex (HasFloorId (the (c_heap c p))) fs" by (auto simp: es_def)
    with wf have "map_find (c_floorRequests c) k = Some p" by (simp add: map_find_in_iff)
    from mem_okD [OF mem this] p show "k \<in> conflicting c fs"
      by (auto simp: conflicting_def holds_def list_ex_iff)
  next
    fix k assume "k \<in> conflicting c fs"
    then obtain r f where r: "requests c k = Some r" "IsGranted r" "f \<in> set fs" "HasFloorId r f"
      by (auto simp: conflicting_def holds_def)
    obtain p where "map_find (c_floorRequests c) k = Some p" "c_heap c p = Some r"
      using r(1) by (rule requests_SomeD)
    with r wf show "k \<in> ?A"
      by (intro CollectI exI [of _ "(k, p)"]) (auto simp: es_def map_find_in_iff list_ex_iff)
  qed
  with revoke_loop [OF inv, of "{}" c es] ps show ?thesis by (auto simp: revoked_all_def es_def)
qed

text \<open>The listener's part of a grant.\<close>

definition granted_roles :: "int list \<Rightarrow> int \<Rightarrow> conf \<Rightarrow> conf" where
  "granted_roles fs b c =
     set_roles (if 1 \<in> set fs then b else c_presenterId c) (if 2 \<in> set fs then b else c_editorId c)
       (if 1 \<in> set fs then False else c_presenting c) c"

lemma only_output_granted_roles:
  "only_output c d \<Longrightarrow> only_output (granted_roles fs b c) (granted_roles fs b d)"
  unfolding granted_roles_def
  using only_output_fields [of c d] c_presenting_only_output [of c d]
  by (simp add: only_output_update(3) del: set_roles_self)

lemma granted_roles_frame [simp]:
  "c_floorRequests (granted_roles fs b c) = c_floorRequests c" "c_heap (granted_roles fs b c) = c_heap c"
  "c_next (granted_roles fs b c) = c_next c" "c_users (granted_roles fs b c) = c_users c"
  "c_ending (granted_roles fs b c) = c_ending c" "c_floors (granted_roles fs b c) = c_floors c"
  "c_floorRequestCounter (granted_roles fs b c) = c_floorRequestCounter c"
  "c_conn (granted_roles fs b c) = c_conn c" "c_conferenceId (granted_roles fs b c) = c_conferenceId c"
  "c_chairId (granted_roles fs b c) = c_chairId c" "c_removedUsers (granted_roles fs b c) = c_removedUsers c"
  "requests (granted_roles fs b c) = requests c" "mem_ok (granted_roles fs b c) = mem_ok c"
  by (simp_all add: granted_roles_def)

lemma onFloorGranted_head:
  "\<exists>d. only_output (granted_roles fs b c) d \<and> onFloorGranted k b fs c =
     (if 1 \<in> set fs \<and> 2 \<notin> set fs then
        bindR (GetGrantedFloorRequestId d 2) (\<lambda>e.
        if e \<noteq> 0 then bindR (RevokeFloorRequest e [] d) (\<lambda>x. Ok (snd x)) else Ok d)
      else Ok d)"
proof -
  define c1 where "c1 = (if 1 \<in> set fs then SetPresenter b c else c)"
  define c2 where "c2 = (if 2 \<in> set fs then SetEditor b c1 else c1)"
  have o1: "only_output (set_roles (if 1 \<in> set fs then b else c_presenterId c) (c_editorId c)
      (if 1 \<in> set fs then False else c_presenting c) c) c1"
    using SetPresenter_roles [of b c] by (simp add: c1_def)
  have "only_output (granted_roles fs b c) c2"
  proof (cases "2 \<in> set fs")
    case True
    have "only_output (granted_roles fs b c) (set_roles (c_presenterId c1) b (c_presenting c1) c1)"
      using only_output_update(3) [OF o1, of "c_presenterId c1" b "c_presenting c1"] True
        only_output_set_roles_fields [OF o1] c_presenting_only_output [OF o1]
      by (simp add: granted_roles_def)
    with True SetEditor_roles [of c1 b] show ?thesis
      by (auto simp: c2_def intro: only_output_trans)
  qed (use o1 in \<open>simp add: granted_roles_def c2_def\<close>)
  moreover have "onFloorGranted k b fs c =
     (if 1 \<in> set fs \<and> 2 \<notin> set fs then
        bindR (GetGrantedFloorRequestId c2 2) (\<lambda>e.
        if e \<noteq> 0 then bindR (RevokeFloorRequest e [] c2) (\<lambda>x. Ok (snd x)) else Ok c2)
      else Ok c2)"
    by (auto simp: onFloorGranted_def c1_def c2_def Let_def bindR_assoc intro!: bindR_cong split: if_splits)
  ultimately show ?thesis by blast
qed

lemma conf_inv_granted:
  assumes inv: "conf_inv c" and r: "map_find (c_floorRequests c) k = Some p" "c_heap c p = Some r"
    and free: "\<And>f k'. f \<in> set (fr_floorIds r) \<Longrightarrow> \<not> holds c k' f" and "\<not> IsGranted r"
  shows "conf_inv (granted_roles (fr_floorIds r) (fr_beneficiaryId r) (store p (SetStatus Granted r) c))"
    (is "conf_inv ?d")
proof -
  note i = conf_invD [OF inv]
  note R = requests_store [OF i(1) r(1)]
  have k: "requests c k = Some r" using r by (simp add: requests_def)
  have h: "holds ?d k' f \<longleftrightarrow> (if f \<in> set (fr_floorIds r) then k' = k else holds c k' f)" for k' f
    using free [of f k'] k \<open>\<not> IsGranted r\<close> by (auto simp: holds_def R HasFloorId_def)
  have "mem_ok ?d" using mem_ok_store [OF i(1) r(2)] by simp
  moreover have "statuses_ok ?d" "floors_ok ?d" using i(2,3) k by (auto simp: statuses_ok_def floors_ok_def R)
  moreover have "exclusive ?d" using i(4) by (auto simp: exclusive_def h split: if_splits)
  moreover have "users_ok ?d" using i(6) by (simp add: users_ok_def)
  moreover have "role_is ?d f (if f \<in> set (fr_floorIds r) then fr_beneficiaryId r else x)"
    if "role_is c f x" for f x
  proof (cases "f \<in> set (fr_floorIds r)")
    case True
    then show ?thesis using free [OF True] k
      by (auto simp: role_is_def h R) (auto simp: holds_def)
  next
    case False
    with that k \<open>\<not> IsGranted r\<close> show ?thesis
      by (auto simp: role_is_def h R HasFloorId_def)
  qed
  then have "roles_ok ?d"
    using i(5) by (simp add: roles_ok_def) (simp add: granted_roles_def)
  ultimately show ?thesis by (simp add: conf_inv_def)
qed

text \<open>\<open>GrantFloorRequest\<close> in full.\<close>

lemma Grant_refused:
  assumes "conf_inv c" "c_ending c \<or> (\<forall>r. requests c k = Some r \<longrightarrow> IsGranted r)"
  shows "GrantFloorRequest k c = Ok (False, c)"
proof (cases "map_find (c_floorRequests c) k")
  case (Some p)
  with mem_okD [OF conf_invD(1) [OF assms(1)] this] assms(2) show ?thesis
    by (auto simp: GrantFloorRequest_def GetFloorRequest_def deref_def dest: granted_cannot)
qed (simp add: GrantFloorRequest_def GetFloorRequest_def)

lemma holds_revoked_all: "j \<in> revoked_all c (conflicting c fs) \<Longrightarrow> \<exists>f. holds c j f"
  by (auto simp: revoked_all_def revoked_with_def conflicting_def split: if_splits)

lemma onFloorGranted_spec:
  assumes inv: "conf_inv (granted_roles fs b c)" and "\<not> c_ending c"
  shows "\<exists>d. onFloorGranted k b fs c = Ok d \<and>
    revokes (if 1 \<in> set fs \<and> 2 \<notin> set fs then {e. holds c e 2} else {}) (granted_roles fs b c) d"
proof -
  let ?g = "granted_roles fs b c"
  obtain c1 where c1: "only_output ?g c1" "onFloorGranted k b fs c =
     (if 1 \<in> set fs \<and> 2 \<notin> set fs then
        bindR (GetGrantedFloorRequestId c1 2) (\<lambda>e.
        if e \<noteq> 0 then bindR (RevokeFloorRequest e [] c1) (\<lambda>x. Ok (snd x)) else Ok c1)
      else Ok c1)"
    using onFloorGranted_head by blast
  show ?thesis
  proof (cases "1 \<in> set fs \<and> 2 \<notin> set fs")
    case False
    with c1 show ?thesis by (auto intro: revokes_none)
  next
    case True
    have inv1: "conf_inv c1" using inv conf_inv_only_output [OF c1(1)] by simp
    have fr: "\<not> c_ending c1" using only_output_fields [OF c1(1)] assms(2) by simp
    have h: "holds c1 = holds c"
      using holds_only_output [OF c1(1)] by (simp add: holds_def fun_eq_iff)
    obtain e where e: "GetGrantedFloorRequestId c1 2 = Ok e"
      "if e = 0 then \<forall>k'. \<not> holds c1 k' 2 else holds c1 e 2"
      using GetGrantedFloorRequestId_inv [OF inv1 fr, of 2] by blast
    show ?thesis
    proof (cases "e = 0")
      case zero: True
      with e h have "{e. holds c e 2} = {}" by auto
      with zero True c1 e(1) show ?thesis by (auto intro: revokes_none)
    next
      case ne: False
      with e have he: "holds c1 e 2" by simp
      then have "revoked_with c1 e = {e}" by (simp add: revoked_with_def)
      moreover have "\<exists>r. requests c1 e = Some r \<and> IsGranted r" using he by (auto simp: holds_def)
      ultimately obtain d where "RevokeFloorRequest e [] c1 = Ok (True, d)" "revokes {e} c1 d"
        using Revoke_spec [OF inv1, of e "[]"] by auto
      moreover have "{e. holds c e 2} = {e}"
        using exclusive_holder [OF conf_invD(4) [OF inv1] he] h by simp
      ultimately show ?thesis using True ne c1 e(1) by (auto intro: revokes_only_output_left)
    qed
  qed
qed

lemma Grant_spec:
  assumes inv: "conf_inv c" and "\<not> c_ending c" and k: "requests c k = Some r" "\<not> IsGranted r"
  shows "\<exists>d. GrantFloorRequest k c = Ok (True, d) \<and> conf_inv d \<and> same_members c d \<and>
    requests d = (\<lambda>j. if j = k then Some (SetStatus Granted r)
                       else if j \<in> granted_over c (fr_floorIds r) then None else requests c j)"
proof -
  note i = conf_invD [OF inv]
  let ?fs = "fr_floorIds r" and ?b = "fr_beneficiaryId r"
  let ?K = "revoked_all c (conflicting c ?fs)"
  obtain p where p: "map_find (c_floorRequests c) k = Some p" "c_heap c p = Some r"
    using k(1) by (rule requests_SomeD)
  have can: "CanBeGranted r" using pending_iff [OF i(2) k(1)] k(2) by (simp add: CanBeGranted_def CanBeDenied_def)
  obtain ps c1 where ps: "GetFloorRequestsForFloors c ?fs = Ok ps" "foldR revoke_if_granted ps c = Ok c1"
    "revokes ?K c c1"
    using Grant_revocations [OF inv] by blast
  note inv1 = revokes_inv [OF ps(3) inv]
  have kK: "k \<notin> ?K" using k by (auto dest!: holds_revoked_all simp: holds_def)
  have R1: "requests c1 = (\<lambda>j. if j \<in> ?K then None else requests c j)"
    using revokes_requests [OF ps(3) i(1)] by blast
  have p1: "map_find (c_floorRequests c1) k = Some p" "c_heap c1 p = Some r"
    using kK p revokes_find [OF ps(3)] revokes_heap [OF ps(3) i(1) p] by auto
  obtain c2 where c2: "update_and_notify Granted [] p c1 = Ok c2"
    "only_output (store p (SetStatus Granted r) c1) c2"
    using update_and_notify_total [OF p1(2)] by blast
  have free: "\<not> holds c1 k' f" if "f \<in> set ?fs" for f k'
    using that by (auto simp: holds_revokes [OF ps(3) i(1)] revoked_all_def conflicting_def revoked_with_def)
  have o: "only_output (granted_roles ?fs ?b (store p (SetStatus Granted r) c1)) (granted_roles ?fs ?b c2)"
    by (rule only_output_granted_roles [OF c2(2)])
  have "conf_inv (granted_roles ?fs ?b c2)"
    using conf_inv_granted [OF inv1 p1 free k(2)] conf_inv_only_output [OF o] by simp
  moreover have end2: "\<not> c_ending c2"
    using assms(2) only_output_fields [OF c2(2)] revokes_frame [OF ps(3)] by simp
  ultimately obtain d where d: "onFloorGranted k ?b ?fs c2 = Ok d"
    "revokes (if 1 \<in> set ?fs \<and> 2 \<notin> set ?fs then {e. holds c2 e 2} else {}) (granted_roles ?fs ?b c2) d"
    using onFloorGranted_spec by blast
  note invd = revokes_inv [OF d(2) \<open>conf_inv (granted_roles ?fs ?b c2)\<close>]
  have R2: "requests c2 = (requests c1)(k \<mapsto> SetStatus Granted r)"
    using requests_only_output [OF c2(2)] requests_store [OF conf_invD(1) [OF inv1] p1(1)] by simp
  have h2: "holds c2 e 2 \<longleftrightarrow> holds c1 e 2" if "2 \<notin> set ?fs" for e
    using that k kK by (auto simp: holds_def R2 R1 HasFloorId_def)
  have h22: "{e. holds c2 e 2} = {e. holds c e 2} - ?K" if "2 \<notin> set ?fs"
    using h2 [OF that] holds_revokes [OF ps(3) i(1)] by auto
  have memg: "mem_ok (granted_roles ?fs ?b c2)"
    using \<open>conf_inv (granted_roles ?fs ?b c2)\<close> by (rule conf_invD)
  have "requests d = (\<lambda>j. if j = k then Some (SetStatus Granted r)
                       else if j \<in> granted_over c ?fs then None else requests c j)"
  proof -
    have "requests d = (\<lambda>j. if j \<in> (if 1 \<in> set ?fs \<and> 2 \<notin> set ?fs then {e. holds c2 e 2} else {})
        then None else requests c2 j)"
      using revokes_requests [OF d(2) memg, unfolded granted_roles_frame] by blast
    moreover have "\<not> holds c k 2" using k by (auto simp: holds_def)
    moreover have "{e. holds c e 2} \<subseteq> ?K" if "2 \<in> set ?fs"
      using that by (auto simp: revoked_all_def conflicting_def revoked_with_def)
    ultimately show ?thesis using h22
      by (auto simp: fun_eq_iff R2 R1 granted_over_def)
  qed
  moreover have "same_members c d"
    using same_members_revokes [OF ps(3)] same_members_only_output [OF o] same_members_revokes [OF d(2)]
    by (simp add: same_members_def)
  moreover have "GrantFloorRequest k c = Ok (True, d)"
    using assms(2) p can ps(1,2) c2(1) only_output_fields [OF c2(2)] d(1)
    by (simp add: GrantFloorRequest_def GetFloorRequest_def deref_def)
  ultimately show ?thesis using invd by blast
qed

end
