(* ===== verification/BFCPSafety.thy ===== *)
theory BFCPSafety
  imports BFCPOperations
begin

text \<open>
  The operations of the chair, of the transport and of the messages keep the invariant and end
  without a fault.  \<open>dropped S c d\<close>: the requests \<open>S\<close> are gone, and nothing else is, except for
  the editor's request when the presenter's is among \<open>S\<close>.
\<close>

section \<open>Dropping the requests of a user\<close>

definition dropped :: "int set \<Rightarrow> conf \<Rightarrow> conf \<Rightarrow> bool" where
  "dropped S c d \<longleftrightarrow> conf_inv d \<and> same_members c d \<and>
     (\<forall>j. if j \<in> S then requests d j = None
          else requests d j = requests c j \<or>
               requests d j = None \<and> holds c j 2 \<and> (\<exists>k \<in> S. holds c k 1))"

lemma droppedD:
  "dropped S c d \<Longrightarrow> conf_inv d" "dropped S c d \<Longrightarrow> same_members c d"
  "dropped S c d \<Longrightarrow> j \<in> S \<Longrightarrow> requests d j = None"
  "dropped S c d \<Longrightarrow> j \<notin> S \<Longrightarrow> requests d j = requests c j \<or>
     requests d j = None \<and> holds c j 2 \<and> (\<exists>k \<in> S. holds c k 1)"
  by (auto simp: dropped_def)

lemma dropped_requests: "dropped S c d \<Longrightarrow> requests d j = None \<or> requests d j = requests c j"
  by (metis droppedD(3,4))

lemma dropped_holds: "dropped S c d \<Longrightarrow> holds d j f \<Longrightarrow> holds c j f"
  using dropped_requests [of S c d j] by (auto simp: holds_def)

lemma dropped_refl: "conf_inv c \<Longrightarrow> dropped {} c c"
  by (simp add: dropped_def)

lemma dropped_trans:
  assumes "dropped S c d" "dropped T d e"
  shows "dropped (S \<union> T) c e"
  unfolding dropped_def
proof (intro conjI allI)
  show "conf_inv e" using assms(2) by (rule droppedD)
  show "same_members c e" using assms by (auto dest!: droppedD(2) intro: same_members_trans)
  fix j
  show "if j \<in> S \<union> T then requests e j = None
    else requests e j = requests c j \<or>
      requests e j = None \<and> holds c j 2 \<and> (\<exists>k \<in> S \<union> T. holds c k 1)"
    using droppedD(3,4) [OF assms(1), of j] droppedD(3,4) [OF assms(2), of j]
      dropped_requests [OF assms(2), of j] dropped_holds [OF assms(1)]
    by (smt (verit) UnCI UnE)
qed

lemma revoke_or_deny_dropped:
  assumes inv: "conf_inv c"
  shows "\<exists>d. revoke_or_deny info k c = Ok d \<and> dropped {k} c d"
proof (cases "map_find (c_floorRequests c) k")
  case None
  then show ?thesis using inv by (auto simp: revoke_or_deny_def GetFloorRequest_def dropped_def requests_def)
next
  case (Some p)
  then obtain r where r: "c_heap c p = Some r" "requests c k = Some r" "fr_floorRequestId r = k"
    using mem_okD [OF conf_invD(1) [OF inv] Some] by blast
  show ?thesis
  proof (cases "IsGranted r")
    case True
    obtain d where d: "RevokeFloorRequest k info c = Ok (True, d)" "revokes (revoked_with c k) c d"
      using Revoke_spec [OF inv, of k info] r(2) True by auto
    have "dropped {k} c d"
      unfolding dropped_def using revokes_inv [OF d(2) inv] same_members_revokes [OF d(2)]
        revokes_requests [OF d(2) conf_invD(1) [OF inv]]
      by (auto simp: revoked_with_def split: if_splits)
    with d(1) r True Some show ?thesis
      by (auto simp: revoke_or_deny_def GetFloorRequest_def deref_def)
  next
    case False
    then obtain d where "DenyFloorRequest k info c = Ok (True, d)" "dropped {k} c d"
      using Deny_spec [OF inv, of k info] r(2) by (auto simp: dropped_def)
    with r False Some show ?thesis
      by (auto simp: revoke_or_deny_def GetFloorRequest_def deref_def)
  qed
qed

lemma revoke_or_deny_all:
  "conf_inv c \<Longrightarrow> \<exists>d. foldR (revoke_or_deny info) ks c = Ok d \<and> dropped (set ks) c d"
proof (induction ks arbitrary: c)
  case (Cons k ks)
  obtain d where d: "revoke_or_deny info k c = Ok d" "dropped {k} c d"
    using revoke_or_deny_dropped [OF Cons.prems] by blast
  obtain e where e: "foldR (revoke_or_deny info) ks d = Ok e" "dropped (set ks) d e"
    using Cons.IH [OF droppedD(1) [OF d(2)]] by blast
  from dropped_trans [OF d(2) e(2)] d(1) e(1) show ?case by auto
qed (simp add: dropped_refl)

definition requests_of :: "conf \<Rightarrow> int \<Rightarrow> int set" where
  "requests_of c userId = {k. \<exists>r. requests c k = Some r \<and> fr_beneficiaryId r = userId}"

lemma user_floor_requests_spec:
  assumes mem: "mem_ok c"
  shows "\<exists>ids. user_floor_requests userId c = Ok ids \<and> set ids = requests_of c userId"
proof -
  let ?ps = "map snd (c_floorRequests c)"
  let ?rs = "map (\<lambda>p. the (c_heap c p)) ?ps"
  have "mapR (deref c) ?ps = Ok ?rs"
    by (rule mapR_total) (use deref_all [OF mem] in \<open>fastforce simp: deref_def\<close>)
  moreover have "set (map fr_floorRequestId (filter (\<lambda>r. fr_beneficiaryId r = userId) ?rs)) =
    requests_of c userId" (is "?A = _")
  proof (intro equalityI subsetI)
    fix k assume "k \<in> ?A"
    then obtain p where "p \<in> snd ` set (c_floorRequests c)" "k = fr_floorRequestId (the (c_heap c p))"
      "fr_beneficiaryId (the (c_heap c p)) = userId" by auto
    with deref_all [OF mem this(1)] show "k \<in> requests_of c userId"
      by (auto simp: requests_of_def requests_id [OF mem])
  next
    fix k assume "k \<in> requests_of c userId"
    then obtain r where r: "requests c k = Some r" "fr_beneficiaryId r = userId"
      by (auto simp: requests_of_def)
    obtain p where p: "map_find (c_floorRequests c) k = Some p" "c_heap c p = Some r"
      using r(1) by (rule requests_SomeD)
    from map_find_Some_in [OF p(1)] r p(2) requests_id [OF mem r(1)] show "k \<in> ?A" by force
  qed
  ultimately show ?thesis by (auto simp: user_floor_requests_def)
qed

lemma RevokeUserFloorRequests_spec:
  assumes "conf_inv c"
  shows "\<exists>d. RevokeUserFloorRequests userId c = Ok d \<and> dropped (requests_of c userId) c d"
  using user_floor_requests_spec [OF conf_invD(1) [OF assms], of userId]
    revoke_or_deny_all [OF assms, of revoked_or_denied]
  by (auto simp: RevokeUserFloorRequests_def) (metis bindR.simps(1))

section \<open>Changing the users and the floors\<close>

lemma conf_inv_members:
  assumes inv: "conf_inv c"
    and "c_floorRequests d = c_floorRequests c" "c_heap d = c_heap c" "c_next d = c_next c"
      "c_floorRequestCounter d = c_floorRequestCounter c" "c_presenterId d = c_presenterId c"
      "c_editorId d = c_editorId c" "c_ending c \<longrightarrow> c_ending d"
      "set (c_floors c) \<subseteq> set (c_floors d)" "users_ok d"
  shows "conf_inv d"
proof -
  note i = conf_invD [OF inv]
  have R: "requests d = requests c" by (rule ext) (simp add: requests_def assms(2,3) split: option.split)
  have h: "holds d = holds c" by (intro ext) (simp add: holds_def R)
  have "role_is d = role_is c" by (intro ext) (simp add: role_is_def R h)
  moreover have "mem_ok d" using i(1) by (simp add: mem_ok_def assms(2-5))
  moreover have "statuses_ok d" "exclusive d" using i(2,4) by (simp_all add: statuses_ok_def exclusive_def R h)
  moreover have "floors_ok d" using i(3) assms(9) by (fastforce simp: floors_ok_def R)
  ultimately show ?thesis using i(5) assms(6-8,10) by (auto simp: conf_inv_def roles_ok_def)
qed

lemma requests_members:
  "c_floorRequests d = c_floorRequests c \<Longrightarrow> c_heap d = c_heap c \<Longrightarrow> requests d = requests c"
  by (rule ext) (simp add: requests_def split: option.split)

lemma users_okD:
  assumes "users_ok c" "GetUser c k = Some u"
  shows "u_userId u = k" "1 \<le> k" "u_transport u = Some ws \<Longrightarrow> \<exists>x. c_conn c ws = Some x"
  using assms map_find_Some_in [of "c_users c" k u] by (fastforce simp: users_ok_def GetUser_def)+

lemma users_ok_update:
  assumes "users_ok c" "c_users d = map_adjust k f (c_users c)" "\<And>ws. c_conn c ws \<noteq> None \<Longrightarrow> c_conn d ws \<noteq> None"
    and "\<And>u. u_userId (f u) = u_userId u"
    and "\<And>u ws. GetUser c k = Some u \<Longrightarrow> u_transport (f u) = Some ws \<Longrightarrow> c_conn d ws \<noteq> None"
  shows "users_ok d"
proof -
  have wf: "omap_wf (c_users c)" using assms(1) by (simp add: users_ok_def)
  have "u_userId v = j \<and> 1 \<le> j \<and> (\<forall>ws. u_transport v = Some ws \<longrightarrow> c_conn d ws \<noteq> None)"
    if "(j, v) \<in> set (c_users d)" for j v
  proof -
    have "\<exists>u. (j, u) \<in> set (c_users c) \<and> v = (if j = k then f u else u)"
      using that unfolding assms(2) map_adjust_def by (force split: if_splits)
    then obtain u where u: "(j, u) \<in> set (c_users c)" "v = (if j = k then f u else u)" by blast
    then have "GetUser c j = Some u" using wf by (simp add: GetUser_def map_find_in_iff)
    with users_okD [OF assms(1) this] u(2) assms(3-5) show ?thesis
      by (cases "j = k") auto
  qed
  then show ?thesis using wf by (auto simp: users_ok_def assms(2))
qed

lemma upd_user_frame [simp]:
  "c_floorRequests (upd_user k f c) = c_floorRequests c" "c_heap (upd_user k f c) = c_heap c"
  "c_next (upd_user k f c) = c_next c" "c_users (upd_user k f c) = map_adjust k f (c_users c)"
  "c_ending (upd_user k f c) = c_ending c" "c_floors (upd_user k f c) = c_floors c"
  "c_floorRequestCounter (upd_user k f c) = c_floorRequestCounter c"
  "c_conn (upd_user k f c) = c_conn c" "c_conferenceId (upd_user k f c) = c_conferenceId c"
  "c_chairId (upd_user k f c) = c_chairId c" "c_presenterId (upd_user k f c) = c_presenterId c"
  "c_editorId (upd_user k f c) = c_editorId c" "c_removedUsers (upd_user k f c) = c_removedUsers c"
  "requests (upd_user k f c) = requests c"
  by (simp_all add: upd_user_def requests_def fun_eq_iff split: option.split)

lemma GetUser_upd_user:
  "GetUser (upd_user k f c) j = (if j = k then map_option f (GetUser c j) else GetUser c j)"
  by (simp add: GetUser_def map_find_adjust)

lemma conf_inv_upd_user:
  assumes "conf_inv c" "\<And>u. u_userId (f u) = u_userId u"
    and "\<And>u ws. GetUser c k = Some u \<Longrightarrow> u_transport (f u) = Some ws \<Longrightarrow> c_conn c ws \<noteq> None"
  shows "conf_inv (upd_user k f c)"
  by (rule conf_inv_members [OF assms(1)])
    (use users_ok_update [OF conf_invD(6) [OF assms(1)], of "upd_user k f c" k f] assms(2,3) in auto)

lemma ResetQueried_transport [simp]: "u_transport (user_ResetQueriedFloorIds u) = u_transport u"
  by (simp add: user_ResetQueriedFloorIds_def)

lemma UnsetTransport_transport [simp]: "u_transport (user_UnsetTransport u) = None"
  by (simp add: user_UnsetTransport_def)

lemma SetTransport_transport [simp]: "u_transport (user_SetTransport ws u) = Some ws"
  by (simp add: user_SetTransport_def)

lemma conf_inv_reset: "conf_inv c \<Longrightarrow> conf_inv (upd_user k user_ResetQueriedFloorIds c)"
  by (rule conf_inv_upd_user) (use conf_invD(6) users_okD(3) in \<open>fastforce+\<close>)

lemma conf_inv_unset: "conf_inv c \<Longrightarrow> conf_inv (upd_user k user_UnsetTransport c)"
  by (rule conf_inv_upd_user) auto

lemma conf_inv_set_transport:
  "conf_inv c \<Longrightarrow> c_conn c ws \<noteq> None \<Longrightarrow> conf_inv (upd_user k (user_SetTransport ws) c)"
  by (rule conf_inv_upd_user) auto

text \<open>Closing the transport of a user.\<close>

definition closed_by_server :: "nat \<Rightarrow> (nat \<Rightarrow> conn_data option) \<Rightarrow> nat \<Rightarrow> conn_data option" where
  "closed_by_server ws conn = conn(ws := map_option (\<lambda>d. d\<lparr>cd_closedByServer := True\<rparr>) (conn ws))"

lemma close_socket_total:
  assumes "c_conn c ws \<noteq> None"
  shows "\<exists>d. close_socket ws code reason c = Ok d \<and>
    d = c\<lparr>c_conn := closed_by_server ws (c_conn c), c_out := c_out c @ [WsClose ws code reason]\<rparr>"
  using assms by (auto simp: close_socket_def closed_by_server_def emit_def)

lemma closed_by_server_live [simp]: "(closed_by_server ws conn w = None) = (conn w = None)"
  by (simp add: closed_by_server_def)

lemma CloseTransport_spec:
  assumes inv: "conf_inv c" and u: "GetUser c k = Some u"
  shows "\<exists>d. CloseTransport k code reason c = Ok d \<and> conf_inv d \<and> requests d = requests c \<and>
    c_users d = map_adjust k user_UnsetTransport (c_users c) \<and>
    c_presenterId d = c_presenterId c \<and> c_editorId d = c_editorId c \<and> c_ending d = c_ending c \<and>
    c_floors d = c_floors c \<and> c_chairId d = c_chairId c \<and> c_conferenceId d = c_conferenceId c \<and>
    (\<forall>ws. c_conn d ws = None \<longleftrightarrow> c_conn c ws = None)"
proof (cases "u_transport u")
  case None
  then have "user_UnsetTransport u = u" by (simp add: user_UnsetTransport_def)
  have "map_adjust k (\<lambda>_. u) (c_users c) = c_users c"
    "map_adjust k user_UnsetTransport (c_users c) = c_users c"
    using u conf_invD(6) [OF inv] \<open>user_UnsetTransport u = u\<close> unfolding map_adjust_def
    by (auto intro!: map_idI simp: GetUser_def users_ok_def map_find_in_iff)
      (metis map_find_in_iff option.inject)+
  with None inv u show ?thesis
    by (simp add: CloseTransport_def user_CloseTransport_def upd_user_def)
next
  case (Some ws)
  then have ws: "c_conn c ws \<noteq> None" using users_okD(3) [OF conf_invD(6) [OF inv] u] by auto
  obtain e where e: "close_socket ws code reason c = Ok e"
    "e = c\<lparr>c_conn := closed_by_server ws (c_conn c), c_out := c_out c @ [WsClose ws code reason]\<rparr>"
    using close_socket_total [OF ws] by blast
  define d where "d = upd_user k (\<lambda>_. user_UnsetTransport u) e"
  have users: "c_users d = map_adjust k user_UnsetTransport (c_users c)"
    using u conf_invD(6) [OF inv] by (auto simp: d_def e(2) map_adjust_def GetUser_def users_ok_def)
      (metis map_find_in_iff option.inject)
  have d: "CloseTransport k code reason c = Ok d"
    using u Some e(1) by (simp add: CloseTransport_def user_CloseTransport_def d_def)
  have "users_ok d"
    by (rule users_ok_update [OF conf_invD(6) [OF inv] users]) (auto simp: d_def e(2))
  then have "conf_inv d" by (intro conf_inv_members [OF inv]) (auto simp: d_def e(2))
  moreover have "requests d = requests c" by (rule requests_members) (auto simp: d_def e(2))
  ultimately show ?thesis using d users by (auto simp: d_def e(2))
qed

section \<open>The operations of the chair\<close>

lemma AddFloor_inv: "conf_inv c \<Longrightarrow> conf_inv (snd (AddFloor f c))"
  unfolding AddFloor_def
  by (auto intro!: conf_inv_members [of c] simp: users_ok_def dest: conf_invD(6))

lemma AddUser_inv:
  assumes inv: "conf_inv c"
  shows "conf_inv (snd (AddUser addr k c))"
proof (cases "c_ending c \<or> k < 1 \<or> HasUser c k")
  case False
  define d where "d = c\<lparr>c_users := map_put k (BFCPUser_new addr k (c_conferenceId c)) (c_users c)\<rparr>"
  have "users_ok d"
    using conf_invD(6) [OF inv] False by (auto simp: users_ok_def d_def set_map_put BFCPUser_new_def)
  then have "conf_inv d" by (intro conf_inv_members [OF inv]) (auto simp: d_def)
  with False show ?thesis by (auto simp: AddUser_def d_def)
qed (use inv in \<open>auto simp: AddUser_def\<close>)

definition only_chair :: "int \<Rightarrow> conf \<Rightarrow> conf" where
  "only_chair k c = upd_user k user_SetChair
     (c\<lparr>c_users := map (\<lambda>e. (fst e, user_UnsetChair (snd e))) (c_users c)\<rparr>)"

lemma SetChair_eq:
  "SetChair k c = (if c_ending c \<or> \<not> HasUser c k then (False, c) else (True, only_chair k c))"
  by (simp add: SetChair_def only_chair_def Let_def)

lemma GetUser_only_chair:
  "GetUser (only_chair k c) j =
     map_option (\<lambda>u. if j = k then user_SetChair (user_UnsetChair u) else user_UnsetChair u) (GetUser c j)"
  unfolding only_chair_def GetUser_upd_user
  by (auto simp: GetUser_def map_find_def map_of_map [unfolded comp_def, of _ "c_users c"]
      case_prod_beta option.map_comp comp_def)
    (auto simp: map_of_map [unfolded case_prod_beta] option.map_comp comp_def)?

lemma chair_ops_transport [simp]:
  "u_transport (user_SetChair u) = u_transport u" "u_transport (user_UnsetChair u) = u_transport u"
  by (simp_all add: user_SetChair_def user_UnsetChair_def)

lemma only_chair_inv:
  assumes inv: "conf_inv c"
  shows "conf_inv (only_chair k c)"
proof -
  define d where "d = c\<lparr>c_users := map (\<lambda>e. (fst e, user_UnsetChair (snd e))) (c_users c)\<rparr>"
  have "users_ok d"
    using conf_invD(6) [OF inv] by (fastforce simp: users_ok_def d_def omap_wf_def comp_def)
  then have d: "conf_inv d" by (intro conf_inv_members [OF inv]) (auto simp: d_def)
  have "conf_inv (upd_user k user_SetChair d)"
    by (rule conf_inv_upd_user [OF d]) (use users_okD(3) [OF conf_invD(6) [OF d]] in auto)
  then show ?thesis by (simp add: only_chair_def d_def)
qed

lemma conf_inv_chairId [simp]: "conf_inv (c\<lparr>c_chairId := i\<rparr>) = conf_inv c"
proof -
  have "conf_inv (c\<lparr>c_chairId := i\<rparr>)" if "conf_inv c" for c :: conf and i
    using conf_invD(6) [OF that] by (intro conf_inv_members [OF that]) (auto simp: users_ok_def)
  from this [of c i] this [of "c\<lparr>c_chairId := i\<rparr>" "c_chairId c"] show ?thesis by auto
qed

lemma SetChair_inv: "conf_inv c \<Longrightarrow> conf_inv (snd (SetChair k c))"
  by (simp add: SetChair_eq only_chair_inv)

lemma MultiConf_SetChair_inv: "conf_inv c \<Longrightarrow> conf_inv (MultiConf_SetChair k c)"
  by (simp add: MultiConf_SetChair_def SetChair_inv)

lemma RemoveUser_spec:
  assumes inv: "conf_inv c" and e: "\<not> c_ending c" and u: "GetUser c k = Some u"
  shows "\<exists>d c1. RemoveUser k c = Ok (True, d) \<and> conf_inv d \<and>
    c1 = c\<lparr>c_users := map_erase k (c_users c)\<rparr> \<and> requests c1 = requests c \<and>
    (\<exists>d0. dropped (requests_of c k) c1 d0 \<and> requests d = requests d0) \<and>
    c_users d = map_erase k (c_users c) \<and>
    c_ending d = c_ending c \<and> c_floors d = c_floors c \<and> c_chairId d = c_chairId c"
proof -
  define c1 where "c1 = c\<lparr>c_users := map_erase k (c_users c)\<rparr>"
  have "users_ok c1"
    using conf_invD(6) [OF inv] by (auto simp: users_ok_def c1_def set_map_erase)
  then have inv1: "conf_inv c1" by (intro conf_inv_members [OF inv]) (auto simp: c1_def)
  have id: "u_userId u = k" using users_okD(1) [OF conf_invD(6) [OF inv] u] .
  have R1: "requests c1 = requests c" by (rule requests_members) (auto simp: c1_def)
  then have of: "requests_of c1 k = requests_of c k" by (simp add: requests_of_def)
  obtain d0 where d0: "RevokeUserFloorRequests k c1 = Ok d0" "dropped (requests_of c k) c1 d0"
    using RevokeUserFloorRequests_spec [OF inv1, of k] of by auto
  have m: "c_conn d0 = c_conn c" "c_users d0 = map_erase k (c_users c)" "c_ending d0 = c_ending c"
    "c_floors d0 = c_floors c" "c_chairId d0 = c_chairId c"
    using droppedD(2) [OF d0(2)] by (auto simp: same_members_def c1_def)
  have "\<exists>u' d1. user_CloseTransport u 4001 info d0 = Ok (u', d1) \<and> c_users d1 = c_users d0 \<and>
     c_floorRequests d1 = c_floorRequests d0 \<and> c_heap d1 = c_heap d0 \<and> c_next d1 = c_next d0 \<and>
     c_floorRequestCounter d1 = c_floorRequestCounter d0 \<and> c_presenterId d1 = c_presenterId d0 \<and>
     c_editorId d1 = c_editorId d0 \<and> c_ending d1 = c_ending d0 \<and> c_floors d1 = c_floors d0 \<and>
     c_chairId d1 = c_chairId d0 \<and>
     (\<forall>ws. c_conn d1 ws = None \<longleftrightarrow> c_conn d0 ws = None)" for info
  proof (cases "u_transport u")
    case (Some ws)
    then have "c_conn d0 ws \<noteq> None" using users_okD(3) [OF conf_invD(6) [OF inv] u] m by auto
    with Some close_socket_total [OF this, of 4001 info] show ?thesis
      by (auto simp: user_CloseTransport_def)
  qed (simp add: user_CloseTransport_def)
  then obtain u' d1 where d1: "user_CloseTransport u 4001
      (L ''you have been removed from the BFCP conference'') d0 = Ok (u', d1)"
    "c_users d1 = c_users d0" "c_floorRequests d1 = c_floorRequests d0" "c_heap d1 = c_heap d0"
    "c_next d1 = c_next d0" "c_floorRequestCounter d1 = c_floorRequestCounter d0"
    "c_presenterId d1 = c_presenterId d0" "c_editorId d1 = c_editorId d0" "c_ending d1 = c_ending d0"
    "c_floors d1 = c_floors d0" "c_chairId d1 = c_chairId d0" "\<forall>ws. c_conn d1 ws = None \<longleftrightarrow> c_conn d0 ws = None"
    by blast
  define d where "d = d1\<lparr>c_removedUsers := c_removedUsers d1 @ [u']\<rparr>"
  note inv0 = droppedD(1) [OF d0(2)]
  have "users_ok d" using conf_invD(6) [OF inv0] d1 by (auto simp: users_ok_def d_def)
  then have "conf_inv d" by (intro conf_inv_members [OF inv0]) (auto simp: d_def d1)
  moreover have "requests d = requests d0" by (rule requests_members) (auto simp: d_def d1)
  moreover have "RemoveUser k c = Ok (True, d)"
    using e u id d0(1) d1(1) by (simp add: RemoveUser_def c1_def [symmetric] d_def)
  ultimately show ?thesis using R1 d0(2) d1 m c1_def by (auto simp: d_def)
qed

lemma RemoveUser_refused: "c_ending c \<or> GetUser c k = None \<Longrightarrow> RemoveUser k c = Ok (False, c)"
  by (auto simp: RemoveUser_def)

section \<open>The operations of the transport\<close>

lemma CloseTransport_inv:
  "conf_inv c \<Longrightarrow> GetUser c k = Some u \<Longrightarrow> \<exists>d. CloseTransport k code reason c = Ok d \<and> conf_inv d"
  using CloseTransport_spec by blast

lemma GetUser_same: "c_users d = c_users c \<Longrightarrow> GetUser d = GetUser c"
  by (simp add: GetUser_def fun_eq_iff)

text \<open>The transport layer attaches its data to the socket once the server has accepted the user.\<close>

definition attach :: "nat \<Rightarrow> conn_data \<Rightarrow> conf \<Rightarrow> conf" where
  "attach ws cd c = c\<lparr>c_conn := (c_conn c)(ws \<mapsto> cd)\<rparr>"

lemma conf_inv_attach:
  assumes "conf_inv c"
  shows "conf_inv (attach ws cd c)"
proof -
  have "users_ok (attach ws cd c)" using conf_invD(6) [OF assms] by (auto simp: users_ok_def attach_def)
  then show ?thesis by (intro conf_inv_members [OF assms]) (auto simp: attach_def)
qed

lemma conf_inv_connected: "conf_inv c \<Longrightarrow> conf_inv (attach ws cd (upd_user k (user_SetTransport ws) c))"
proof -
  assume inv: "conf_inv c"
  have "attach ws cd (upd_user k (user_SetTransport ws) c) =
      upd_user k (user_SetTransport ws) (attach ws cd c)"
    by (simp add: attach_def upd_user_def)
  moreover have "c_conn (attach ws cd c) ws \<noteq> None" by (simp add: attach_def)
  ultimately show ?thesis using conf_inv_set_transport [OF conf_inv_attach [OF inv]] by simp
qed

lemma UserConnected_total:
  assumes inv: "conf_inv c"
  shows "\<exists>b d. UserConnected k ws c = Ok (b, d) \<and> (b \<longleftrightarrow> \<not> c_ending c \<and> HasUser c k) \<and>
    (if b then conf_inv (attach ws cd d) else d = c)"
proof (cases "c_ending c \<or> GetUser c k = None")
  case True
  then show ?thesis by (auto simp: UserConnected_def HasUser_def)
next
  case False
  then obtain u where u: "GetUser c k = Some u" by blast
  have id: "u_userId u = k" using users_okD(1) [OF conf_invD(6) [OF inv] u] .
  show ?thesis
  proof (cases "user_IsConnected u")
    case no: False
    with False u conf_inv_connected [OF inv] show ?thesis
      by (auto simp: UserConnected_def HasUser_def)
  next
    case True
    define c1 where "c1 = upd_user k user_ResetQueriedFloorIds c"
    have inv1: "conf_inv c1" unfolding c1_def by (rule conf_inv_reset [OF inv])
    obtain d where d: "RevokeUserFloorRequests k c1 = Ok d" "dropped (requests_of c1 k) c1 d"
      using RevokeUserFloorRequests_spec [OF inv1] by blast
    have "c_users d = c_users c1" using droppedD(2) [OF d(2)] by (auto simp: same_members_def)
    from GetUser_same [OF this] have "GetUser d k = Some (user_ResetQueriedFloorIds u)"
      using u by (simp add: c1_def GetUser_upd_user)
    then obtain e where e: "CloseTransport k 4002 (L ''your user has connected from somewhere else'') d = Ok e"
      "conf_inv e"
      using CloseTransport_inv [OF droppedD(1) [OF d(2)]] by blast
    with False True u id d(1) conf_inv_connected [OF e(2)] show ?thesis
      by (auto simp: UserConnected_def HasUser_def c1_def [symmetric])
  qed
qed

lemma UserDisconnected_total:
  assumes inv: "conf_inv c"
  shows "\<exists>d. UserDisconnected k b c = Ok d \<and> conf_inv d"
proof (cases "GetUser c k")
  case (Some u)
  have id: "u_userId u = k" using users_okD(1) [OF conf_invD(6) [OF inv] Some] .
  define c1 where "c1 = upd_user k user_ResetQueriedFloorIds (upd_user k user_UnsetTransport c)"
  have "conf_inv c1" unfolding c1_def by (rule conf_inv_reset [OF conf_inv_unset [OF inv]])
  then show ?thesis using Some id inv RevokeUserFloorRequests_spec [of c1 k]
    by (auto simp: UserDisconnected_def Let_def c1_def [symmetric] dest: droppedD(1))
qed (simp add: UserDisconnected_def inv)

lemma DisconnectUser_total:
  assumes inv: "conf_inv c"
  shows "\<exists>d. DisconnectUser k code reason c = Ok d \<and> conf_inv d"
proof (cases "c_ending c \<or> GetUser c k = None")
  case False
  then obtain u where u: "GetUser c k = Some u" by blast
  have id: "u_userId u = k" using users_okD(1) [OF conf_invD(6) [OF inv] u] .
  define c1 where "c1 = upd_user k user_ResetQueriedFloorIds c"
  have inv1: "conf_inv c1" unfolding c1_def by (rule conf_inv_reset [OF inv])
  obtain d where d: "RevokeUserFloorRequests k c1 = Ok d" "dropped (requests_of c1 k) c1 d"
    using RevokeUserFloorRequests_spec [OF inv1] by blast
  have "GetUser d k = Some (user_ResetQueriedFloorIds u)"
    using GetUser_same [of d c1] droppedD(2) [OF d(2)] u
    by (simp add: same_members_def c1_def GetUser_upd_user)
  with CloseTransport_inv [OF droppedD(1) [OF d(2)]] d(1) u id False show ?thesis
    by (auto simp: DisconnectUser_def c1_def [symmetric])
qed (use inv in \<open>auto simp: DisconnectUser_def\<close>)

section \<open>A new floor request\<close>

definition insert_request :: "floor_request \<Rightarrow> conf \<Rightarrow> conf" where
  "insert_request r c =
     (let p = c_next c; c = c\<lparr>c_floorRequestCounter := c_floorRequestCounter c + 1\<rparr>;
          c = (store p r c)\<lparr>c_next := p + 1\<rparr>
      in c\<lparr>c_floorRequests := map_put (fr_floorRequestId r) p (c_floorRequests c)\<rparr>)"

lemma insert_request_frame:
  "c_floorRequests (insert_request r c) = map_put (fr_floorRequestId r) (c_next c) (c_floorRequests c)"
  "c_heap (insert_request r c) = (c_heap c)(c_next c \<mapsto> r)"
  "c_next (insert_request r c) = c_next c + 1"
  "c_floorRequestCounter (insert_request r c) = c_floorRequestCounter c + 1"
  "c_users (insert_request r c) = c_users c" "c_ending (insert_request r c) = c_ending c"
  "c_floors (insert_request r c) = c_floors c" "c_conn (insert_request r c) = c_conn c"
  "c_chairId (insert_request r c) = c_chairId c" "c_presenterId (insert_request r c) = c_presenterId c"
  "c_editorId (insert_request r c) = c_editorId c" "c_conferenceId (insert_request r c) = c_conferenceId c"
  "c_removedUsers (insert_request r c) = c_removedUsers c"
  by (simp_all add: insert_request_def Let_def)

lemma insert_request_requests:
  assumes "mem_ok c"
  shows "requests (insert_request r c) = (requests c)(fr_floorRequestId r \<mapsto> r)"
proof
  fix k
  have wf: "omap_wf (c_floorRequests c)" using assms by (simp add: mem_ok_def)
  have "p \<noteq> c_next c" if "map_find (c_floorRequests c) k = Some p" for p
    using mem_okD [OF assms that] by auto
  then show "requests (insert_request r c) k = ((requests c)(fr_floorRequestId r \<mapsto> r)) k"
    using wf by (auto simp: requests_def insert_request_frame map_find_put split: option.split)
qed

lemma fresh_id: "mem_ok c \<Longrightarrow> requests c (c_floorRequestCounter c) = None"
  by (metis less_irrefl mem_okD not_None_eq requests_SomeD)

lemma insert_request_inv:
  assumes inv: "conf_inv c" and r: "fr_floorRequestId r = c_floorRequestCounter c"
    "fr_status r = Pending" "set (fr_floorIds r) \<subseteq> set (c_floors c)"
  shows "conf_inv (insert_request r c)"
proof -
  let ?d = "insert_request r c" and ?k = "c_floorRequestCounter c"
  note i = conf_invD [OF inv]
  note fr = insert_request_frame [of r c]
  have R: "requests ?d = (requests c)(?k \<mapsto> r)" using insert_request_requests [OF i(1), of r] r(1) by simp
  have old: "requests c ?k = None" by (rule fresh_id [OF i(1)])
  have ng: "\<not> IsGranted r" using r(2) by (simp add: IsGranted_def)
  have h: "holds ?d = holds c" using old ng by (intro ext) (auto simp: holds_def R split: if_splits)
  have wf: "omap_wf (c_floorRequests c)" using i(1) by (simp add: mem_ok_def)
  have "mem_ok ?d"
    using i(1) r(1) wf by (fastforce simp: mem_ok_def fr set_map_put)
  moreover have "statuses_ok ?d" "floors_ok ?d" using i(2,3) r(2,3) by (auto simp: statuses_ok_def floors_ok_def R fr)
  moreover have "exclusive ?d" using i(4) by (simp add: exclusive_def h)
  moreover have "users_ok ?d" using i(6) by (simp add: users_ok_def fr)
  moreover have "role_is ?d f x" if "role_is c f x" for f x
    using that ng old by (auto simp: role_is_def h R split: if_splits)
  then have "roles_ok ?d" using i(5) by (simp add: roles_ok_def fr)
  ultimately show ?thesis by (simp add: conf_inv_def)
qed

lemma onFloorRequest_total:
  assumes "conf_inv c"
  shows "\<exists>d. onFloorRequest k u b fs c = Ok d \<and> conf_inv d"
proof -
  obtain x where "GrantFloorRequest k c = Ok x" "conf_inv (snd x)"
    using Grant_spec [OF assms] Grant_refused [OF assms] assms by (metis snd_conv)
  moreover obtain y where "DenyFloorRequest k [] c = Ok y" "conf_inv (snd y)"
    using Deny_spec [OF assms] by (metis snd_conv)
  ultimately show ?thesis by (simp add: onFloorRequest_def)
qed

lemma Grant_total: "conf_inv c \<Longrightarrow> \<exists>x. GrantFloorRequest k c = Ok x \<and> conf_inv (snd x)"
  using Grant_spec [of c] Grant_refused [of c] by (metis snd_conv)

lemma Deny_total: "conf_inv c \<Longrightarrow> \<exists>x. DenyFloorRequest k info c = Ok x \<and> conf_inv (snd x)"
  using Deny_spec [of c k info] by (metis snd_conv)

lemma Revoke_total: "conf_inv c \<Longrightarrow> \<exists>x. RevokeFloorRequest k info c = Ok x \<and> conf_inv (snd x)"
  using Revoke_spec [of c k info] revokes_inv by fastforce

section \<open>Messages\<close>

lemma ReplyError_total: "\<exists>d. ReplyError msg e info c = Ok d \<and> only_output c d"
  unfolding ReplyError_def by (rule SendMessage_total) (simp add: BFCPMsgError_new_info_def)

lemma ReplyError_inv: "conf_inv c \<Longrightarrow> \<exists>d. ReplyError msg e info c = Ok d \<and> conf_inv d"
  using ReplyError_total [of msg e info c] conf_inv_only_output by blast

lemma floor_request_floors_total:
  "floor_request_floors req = Ok (map floorId_value (mfr_floorIds req))"
proof -
  have "mapR (floor_request_GetFloorId req) [0..<length (mfr_floorIds req)] =
      Ok (map (\<lambda>i. floorId_value (mfr_floorIds req ! i)) [0..<length (mfr_floorIds req)])"
    by (rule mapR_total) (simp add: floor_request_GetFloorId_def)
  also have "map (\<lambda>i. floorId_value (mfr_floorIds req ! i)) [0..<length (mfr_floorIds req)] =
      map floorId_value (mfr_floorIds req)"
    by (rule nth_equalityI) simp_all
  finally show ?thesis by (simp add: floor_request_floors_def floor_request_CountFloorIds_def)
qed

lemma floor_query_floors_total:
  "floor_query_floors req = Ok (map floorId_value (mfq_floorIds req))"
proof -
  have "mapR (floor_query_GetFloorId req) [0..<length (mfq_floorIds req)] =
      Ok (map (\<lambda>i. floorId_value (mfq_floorIds req ! i)) [0..<length (mfq_floorIds req)])"
    by (rule mapR_total) (simp add: floor_query_GetFloorId_def)
  also have "map (\<lambda>i. floorId_value (mfq_floorIds req ! i)) [0..<length (mfq_floorIds req)] =
      map floorId_value (mfq_floorIds req)"
    by (rule nth_equalityI) simp_all
  finally show ?thesis by (simp add: floor_query_floors_def floor_query_CountFloorIds_def)
qed

text \<open>The request a FloorRequest message creates.\<close>

definition requested :: "bfcp_msg \<Rightarrow> msg_floor_request \<Rightarrow> conf \<Rightarrow> floor_request" where
  "requested msg req c =
     fold BFCPFloorRequest.AddFloorId (map floorId_value (mfr_floorIds req))
       ((BFCPFloorRequest_new (c_floorRequestCounter c) (m_userId msg) (c_conferenceId c))
          \<lparr>fr_beneficiaryId := (case mfr_beneficiaryId req of None \<Rightarrow> m_userId msg
                               | Some a \<Rightarrow> beneficiaryId_value a)\<rparr>)"

lemma fold_AddFloorId:
  "fold BFCPFloorRequest.AddFloorId fs r = r\<lparr>fr_floorIds := fold set_insert fs (fr_floorIds r)\<rparr>"
  by (induction fs arbitrary: r) (simp_all add: BFCPFloorRequest.AddFloorId_def)

lemma requested_sel:
  "fr_floorRequestId (requested msg req c) = c_floorRequestCounter c"
  "fr_userId (requested msg req c) = m_userId msg"
  "fr_status (requested msg req c) = Pending"
  "fr_beneficiaryId (requested msg req c) =
     (case mfr_beneficiaryId req of None \<Rightarrow> m_userId msg | Some a \<Rightarrow> beneficiaryId_value a)"
  "set (fr_floorIds (requested msg req c)) = floorId_value ` set (mfr_floorIds req)"
  using oset.elems_insert_many [of "[]" "map floorId_value (mfr_floorIds req)"]
  by (simp_all add: requested_def fold_AddFloorId BFCPFloorRequest_new_def)

lemma build_floor_request_eq:
  "build_floor_request (c_floorRequestCounter c) msg req (map floorId_value (mfr_floorIds req)) (c_conferenceId c) =
     Ok (requested msg req c)"
  by (auto simp: build_floor_request_def requested_def floor_request_HasBeneficiaryId_def
      floor_request_GetBeneficiaryId_def Let_def SetBeneficiaryId_def BFCPFloorRequest_new_def
      split: option.split)

definition bad_request :: "msg_floor_request \<Rightarrow> conf \<Rightarrow> error_code option" where
  "bad_request req c =
     (if \<not> floorId_value ` set (mfr_floorIds req) \<subseteq> set (c_floors c) then Some InvalidFloorId
      else case mfr_beneficiaryId req of
        None \<Rightarrow> None
      | Some a \<Rightarrow> if HasUser c (beneficiaryId_value a) then None else Some UserDoesNotExist)"

text \<open>\<open>ProcessFloorRequest\<close> with its checks gathered.\<close>

lemma ProcessFloorRequest_eq:
  "ProcessFloorRequest msg req user c =
     (case bad_request req c of
        Some InvalidFloorId \<Rightarrow> ReplyError msg InvalidFloorId (L ''requested floor does not exist'') c
      | Some e \<Rightarrow> ReplyError msg e (L ''beneficiary does not exist'') c
      | None \<Rightarrow>
          let r = requested msg req c; k = c_floorRequestCounter c in
          bindR (CreateFloorRequestStatus r (m_transactionId msg)) (\<lambda>m.
          bindR (SendMessage m (insert_request r c)) (\<lambda>c'.
          if u_isChair user then bindR (GrantFloorRequest k c') (\<lambda>x. Ok (snd x))
          else bindR (deref c' (c_next c)) (\<lambda>r.
            onFloorRequest k (fr_userId r) (fr_beneficiaryId r) (fr_floorIds r) c'))))"
proof -
  have fl: "list_ex (\<lambda>f. \<not> HasFloor c f) (map floorId_value (mfr_floorIds req)) \<longleftrightarrow>
      \<not> floorId_value ` set (mfr_floorIds req) \<subseteq> set (c_floors c)"
    by (auto simp: list_ex_iff HasFloor_def)
  have ins: "(store (c_next c) (requested msg req c) (c\<lparr>c_floorRequestCounter := c_floorRequestCounter c + 1\<rparr>))
       \<lparr>c_next := Suc (c_next c), c_floorRequests := map_put (c_floorRequestCounter c) (c_next c) (c_floorRequests c)\<rparr>
      = insert_request (requested msg req c) c"
    by (simp add: insert_request_def Let_def requested_sel)
  show ?thesis
    by (auto simp: ProcessFloorRequest_def floor_request_floors_total fl bad_request_def bad_beneficiary_def
        floor_request_HasBeneficiaryId_def floor_request_GetBeneficiaryId_def build_floor_request_eq
        Let_def ins cong: if_cong split: option.split)
qed

lemma ProcessFloorRequest_total:
  assumes inv: "conf_inv c"
  shows "\<exists>d. ProcessFloorRequest msg req user c = Ok d \<and> conf_inv d"
proof (cases "bad_request req c")
  case (Some e)
  then show ?thesis using ReplyError_inv [OF inv, of msg] by (cases e) (auto simp: ProcessFloorRequest_eq)
next
  case None
  let ?r = "requested msg req c"
  have "set (fr_floorIds ?r) \<subseteq> set (c_floors c)"
    using None by (auto simp: requested_sel bad_request_def split: if_splits)
  then have inv1: "conf_inv (insert_request ?r c)"
    by (intro insert_request_inv [OF inv]) (simp_all add: requested_sel)
  obtain m where m: "CreateFloorRequestStatus ?r (m_transactionId msg) = Ok m" "msg_Dump m = Ok ()"
    by (simp add: CreateFloorRequestStatus_body)
  obtain d where d: "SendMessage m (insert_request ?r c) = Ok d" "only_output (insert_request ?r c) d"
    using SendMessage_total [OF m(2)] by blast
  have inv2: "conf_inv d" using inv1 conf_inv_only_output [OF d(2)] by simp
  have "deref d (c_next c) = Ok ?r"
    using only_output_fields [OF d(2)] by (simp add: deref_def insert_request_frame)
  with None m d(1) Grant_total [OF inv2, of "c_floorRequestCounter c"] onFloorRequest_total [OF inv2]
  show ?thesis by (auto simp: ProcessFloorRequest_eq Let_def)
qed

text \<open>The messages of a release, up to the point where the request is erased.\<close>

definition release_messages :: "bfcp_msg \<Rightarrow> bfcp_user \<Rightarrow> nat \<Rightarrow> floor_request \<Rightarrow> conf \<Rightarrow> conf res" where
  "release_messages msg user p r c =
     bindR (CreateFloorRequestStatus r (m_transactionId msg)) (\<lambda>m.
     bindR (SendMessage (msg_SetUserId (u_userId user) m) c) (\<lambda>c.
     bindR (if u_userId user \<noteq> fr_userId r then
              bindR (CreateFloorRequestStatus_notification r) (\<lambda>m.
              SendMessage (msg_SetUserId (fr_userId r) m) c)
            else Ok c) (\<lambda>c.
     NotifyForFloorRequest p c)))"

lemma status_message_total:
  assumes "CreateFloorRequestStatus r t = Ok m"
  shows "\<exists>d. SendMessage (msg_SetUserId i m) c = Ok d \<and> only_output c d"
  by (rule SendMessage_total) (use assms in \<open>auto simp: CreateFloorRequestStatus_body msg_SetUserId_def\<close>)

lemma release_messages_total:
  assumes "c_heap c p = Some r"
  shows "\<exists>d. release_messages msg user p r c = Ok d \<and> only_output c d"
proof -
  obtain m where m: "CreateFloorRequestStatus r (m_transactionId msg) = Ok m"
    by (simp add: CreateFloorRequestStatus_body)
  obtain n where n: "CreateFloorRequestStatus r 0 = Ok n" by (simp add: CreateFloorRequestStatus_body)
  obtain c1 where c1: "SendMessage (msg_SetUserId (u_userId user) m) c = Ok c1" "only_output c c1"
    using status_message_total [OF m] by blast
  obtain c2 where c2: "SendMessage (msg_SetUserId (fr_userId r) n) c1 = Ok c2" "only_output c1 c2"
    using status_message_total [OF n] by blast
  have "c_heap c1 p = Some r" "c_heap c2 p = Some r"
    using assms only_output_fields [OF c1(2)] only_output_fields [OF c2(2)] by auto
  then obtain d1 d2 where d: "NotifyForFloorRequest p c1 = Ok d1" "only_output c1 d1"
    "NotifyForFloorRequest p c2 = Ok d2" "only_output c2 d2"
    using NotifyForFloorRequest_total by meson
  show ?thesis
    using m n c1 c2 d by (cases "u_userId user \<noteq> fr_userId r")
      (auto simp: release_messages_def CreateFloorRequestStatus_notification_def intro: only_output_trans)
qed

definition release_id :: "msg_floor_release \<Rightarrow> int option" where
  "release_id req = map_option floorRequestId_value (mrl_floorRequestId req)"

lemma ProcessFloorRelease_no_request:
  assumes "release_id req = Some k" "mem_ok c" "requests c k = None"
  shows "ProcessFloorRelease msg req user c =
    ReplyError msg FloorRequestIdDoesNotExist (L ''FloorRequest does not exist'') c"
proof -
  have "map_find (c_floorRequests c) k = None"
    using assms(2,3) mem_okD by (cases "map_find (c_floorRequests c) k") fastforce+
  with assms(1) show ?thesis
    by (auto simp: ProcessFloorRelease_def release_id_def floor_release_GetFloorRequestId_def GetFloorRequest_def)
qed

lemma ProcessFloorRelease_unauthorized:
  assumes "release_id req = Some k" "requests c k = Some r" "\<not> may_release user r"
  shows "ProcessFloorRelease msg req user c =
    ReplyError msg UnauthorizedOperation (L ''you cannot release that FloorRequest'') c"
proof -
  obtain p where "map_find (c_floorRequests c) k = Some p" "c_heap c p = Some r"
    using assms(2) by (rule requests_SomeD)
  with assms(1,3) show ?thesis
    by (auto simp: ProcessFloorRelease_def release_id_def floor_release_GetFloorRequestId_def
        GetFloorRequest_def deref_def)
qed

lemma ProcessFloorRelease_authorized:
  assumes id: "release_id req = Some k" and r: "map_find (c_floorRequests c) k = Some p" "c_heap c p = Some r"
    and st: "may_release user r" "release_status user r = Some (st, notify)"
  obtains d where "only_output (erase_request k (store p (SetStatus st r) c)) d"
    "ProcessFloorRelease msg req user c =
       bindR (if notify then onFloorReleased k (fr_beneficiaryId r) (fr_floorIds r) d else Ok d) (\<lambda>c.
       case GetFloorRequest c k of None \<Rightarrow> Ok c | Some _ \<Rightarrow> delete_request p c)"
proof -
  let ?r = "SetStatus st r" and ?c = "store p (SetStatus st r) c"
  have "c_heap ?c p = Some ?r" by simp
  then obtain d where d: "release_messages msg user p ?r ?c = Ok d" "only_output ?c d"
    using release_messages_total by blast
  note o = only_output_update(2) [OF d(2), of k]
  have h: "c_heap (erase_request k d) p = Some ?r" using only_output_fields [OF d(2)] by simp
  have "ProcessFloorRelease msg req user c =
      bindR (release_messages msg user p ?r ?c) (\<lambda>c. let c = erase_request k c in
       bindR (if notify then bindR (deref c p) (\<lambda>r'. onFloorReleased k (fr_beneficiaryId r) (fr_floorIds r') c)
              else Ok c) (\<lambda>c.
       case GetFloorRequest c k of None \<Rightarrow> Ok c | Some _ \<Rightarrow> delete_request p c))"
    using id r st
    by (auto simp: ProcessFloorRelease_def release_id_def floor_release_GetFloorRequestId_def
        GetFloorRequest_def deref_def release_messages_def bindR_assoc Let_def cong: if_cong)
  with d(1) h have "ProcessFloorRelease msg req user c =
       bindR (if notify then onFloorReleased k (fr_beneficiaryId r) (fr_floorIds r) (erase_request k d)
              else Ok (erase_request k d)) (\<lambda>c.
       case GetFloorRequest c k of None \<Rightarrow> Ok c | Some _ \<Rightarrow> delete_request p c)"
    by (simp add: deref_def Let_def)
  with o that show ?thesis by blast
qed

lemma ProcessFloorRelease_granted:
  assumes inv: "conf_inv c" and id: "release_id req = Some k" and "\<not> c_ending c"
    and r: "requests c k = Some r" "may_release user r" "IsGranted r"
  shows "\<exists>d. ProcessFloorRelease msg req user c = Ok d \<and> revokes (revoked_with c k) c d"
proof -
  obtain p where p: "map_find (c_floorRequests c) k = Some p" "c_heap c p = Some r"
    using r(1) by (rule requests_SomeD)
  obtain st where st: "release_status user r = Some (st, True)" "st \<noteq> Granted"
    using r(3) by (auto simp: release_status_def)
  obtain d where d: "only_output (erase_request k (store p (SetStatus st r) c)) d"
    "ProcessFloorRelease msg req user c =
       bindR (if True then onFloorReleased k (fr_beneficiaryId r) (fr_floorIds r) d else Ok d) (\<lambda>c.
       case GetFloorRequest c k of None \<Rightarrow> Ok c | Some _ \<Rightarrow> delete_request p c)"
    by (rule ProcessFloorRelease_authorized [OF id p r(2) st(1)])
  obtain e where e: "onFloorReleased k (fr_beneficiaryId r) (fr_floorIds r) d = Ok e"
    "revokes (revoked_with c k) c e"
    using onFloorReleased_spec [OF inv p r(3) st(2) assms(3) d(1)] by blast
  then have "GetFloorRequest e k = None" by (simp add: GetFloorRequest_def revokes_find revoked_with_def)
  with d(2) e show ?thesis by simp
qed

lemma ProcessFloorRelease_pending:
  assumes inv: "conf_inv c" and id: "release_id req = Some k"
    and r: "requests c k = Some r" "may_release user r" "\<not> IsGranted r"
  shows "\<exists>d. ProcessFloorRelease msg req user c = Ok d \<and> conf_inv d \<and> same_members c d \<and>
    requests d = (requests c)(k := None)"
proof -
  note i = conf_invD [OF inv]
  obtain p where p: "map_find (c_floorRequests c) k = Some p" "c_heap c p = Some r"
    using r(1) by (rule requests_SomeD)
  have st: "release_status user r = Some (Cancelled, False)"
    using pending_iff [OF i(2) r(1)] r(3) by (simp add: release_status_def CanBeCancelled_def CanBeDenied_def)
  obtain d where d: "only_output (erase_request k (store p (SetStatus Cancelled r) c)) d"
    "ProcessFloorRelease msg req user c =
       bindR (if False then onFloorReleased k (fr_beneficiaryId r) (fr_floorIds r) d else Ok d) (\<lambda>c.
       case GetFloorRequest c k of None \<Rightarrow> Ok c | Some _ \<Rightarrow> delete_request p c)"
    by (rule ProcessFloorRelease_authorized [OF id p r(2) st])
  note f = only_output_fields [OF d(1)]
  have "GetFloorRequest d k = None" using f by (simp add: GetFloorRequest_def map_find_erase)
  with d(2) have ok: "ProcessFloorRelease msg req user c = Ok d" by simp
  have fr: "c_floorRequests d = map_erase k (c_floorRequests c)"
    "c_heap d = (c_heap c)(p := Some (SetStatus Cancelled r))" "c_next d = c_next c"
    "c_floorRequestCounter d = c_floorRequestCounter c" using f by auto
  have m: "same_members c d" "c_presenterId d = c_presenterId c" "c_editorId d = c_editorId c"
    using f by (auto simp: same_members_def)
  note R = requests_delete [OF i(1) p(1) fr(1,2)]
  have "conf_inv d"
    by (rule conf_inv_forget [OF inv r(1,3) mem_ok_delete [OF i(1) p(1) fr] R m])
  with ok m(1) R show ?thesis by blast
qed

lemma ProcessFloorRelease_total:
  assumes inv: "conf_inv c" and id: "release_id req = Some k" and e: "\<not> c_ending c"
  shows "\<exists>d. ProcessFloorRelease msg req user c = Ok d \<and> conf_inv d"
proof (cases "requests c k")
  case None
  then show ?thesis using ProcessFloorRelease_no_request [OF id conf_invD(1) [OF inv]] ReplyError_inv [OF inv]
    by simp
next
  case (Some r)
  consider "\<not> may_release user r" | "may_release user r" "IsGranted r" | "may_release user r" "\<not> IsGranted r"
    by blast
  then show ?thesis
  proof cases
    case 1
    then show ?thesis using ProcessFloorRelease_unauthorized [OF id Some] ReplyError_inv [OF inv] by simp
  next
    case 2
    obtain d where "ProcessFloorRelease msg req user c = Ok d" "revokes (revoked_with c k) c d"
      using ProcessFloorRelease_granted [OF inv id e Some 2] by blast
    then show ?thesis using revokes_inv inv by blast
  next
    case 3
    obtain d where "ProcessFloorRelease msg req user c = Ok d" "conf_inv d"
      using ProcessFloorRelease_pending [OF inv id Some 3] by blast
    then show ?thesis by blast
  qed
qed

lemma floor_status_for_total:
  assumes "mem_ok c"
  shows "\<exists>m x. floor_status_for t u f c = Ok m \<and> m_body m = MsgFloorStatus x"
proof -
  define ps where "ps = filter (\<lambda>p. HasFloorId (the (c_heap c p)) f) (map snd (c_floorRequests c))"
  have get: "GetFloorRequestsForFloor c f = Ok ps"
    using filter_requests [OF assms] by (simp add: GetFloorRequestsForFloor_def ps_def)
  have "\<exists>m'. foldR (\<lambda>p m. bindR (deref c p) (\<lambda>r.
        msg_AddFloorRequestInformation (CreateFloorRequestInformation r) m)) ps m = Ok m' \<and>
      (\<exists>x. m_body m' = MsgFloorStatus x)" if "\<exists>x. m_body m = MsgFloorStatus x" for m
  proof (rule foldR_total [where P = "\<lambda>m. \<exists>x. m_body m = MsgFloorStatus x"])
    fix p and s :: bfcp_msg
    assume "p \<in> set ps" "\<exists>x. m_body s = MsgFloorStatus x"
    moreover from this obtain r where "c_heap c p = Some r" using deref_all [OF assms, of p] by (auto simp: ps_def)
    ultimately show "\<exists>t. bindR (deref c p) (\<lambda>r. msg_AddFloorRequestInformation (CreateFloorRequestInformation r) s) =
        Ok t \<and> (\<exists>x. m_body t = MsgFloorStatus x)"
      by (auto simp: deref_def)
  qed (use that in simp)
  then show ?thesis by (fastforce simp: floor_status_for_def FloorStatus_new_body get)
qed

lemma send_floor_statuses_total:
  "mem_ok c \<Longrightarrow> \<exists>d. send_floor_statuses t u fs c = Ok d \<and> only_output c d"
proof (induction fs arbitrary: t c)
  case (Cons f fs)
  obtain m x where m: "floor_status_for t u f c = Ok m" "m_body m = MsgFloorStatus x"
    using floor_status_for_total [OF Cons.prems] by blast
  obtain d where d: "SendMessage m c = Ok d" "only_output c d"
    using SendMessage_total [of m c] m(2) by auto
  have "mem_ok d" using Cons.prems mem_ok_only_output [OF d(2)] by simp
  from Cons.IH [OF this, of 0] m(1) d show ?case by (auto intro: only_output_trans)
qed simp

text \<open>The user after a FloorQuery: subscribed to the floors of the message and to no other.\<close>

definition subscribed :: "msg_floor_query \<Rightarrow> bfcp_user \<Rightarrow> bfcp_user" where
  "subscribed req user =
     fold user_AddQueriedFloorId (map floorId_value (mfq_floorIds req)) (user_ResetQueriedFloorIds user)"

lemma subscribed_sel:
  "u_userId (subscribed req user) = u_userId user" "u_transport (subscribed req user) = u_transport user"
  "u_isChair (subscribed req user) = u_isChair user" "u_addr (subscribed req user) = u_addr user"
  "distinct (u_queriedFloorIds (subscribed req user))"
  "set (u_queriedFloorIds (subscribed req user)) = floorId_value ` set (mfq_floorIds req)"
  using fold_AddQueriedFloorId [of "user_ResetQueriedFloorIds user" "map floorId_value (mfq_floorIds req)"]
  by (simp_all add: subscribed_def) (simp_all add: user_ResetQueriedFloorIds_def)

lemma ProcessFloorQuery_spec:
  assumes inv: "conf_inv c" and u: "GetUser c k = Some user"
    and fs: "floorId_value ` set (mfq_floorIds req) \<subseteq> set (c_floors c)"
  shows "\<exists>d. ProcessFloorQuery msg req user c = Ok d \<and> conf_inv d \<and>
    only_output (upd_user k (\<lambda>_. subscribed req user) c) d"
proof -
  let ?c = "upd_user k (\<lambda>_. subscribed req user) c"
  have id: "u_userId user = k" using users_okD(1) [OF conf_invD(6) [OF inv] u] .
  have adj: "map_adjust k (\<lambda>_. subscribed req user) (c_users c) = map_adjust k (subscribed req) (c_users c)"
    using u conf_invD(6) [OF inv] by (auto simp: map_adjust_def GetUser_def users_ok_def)
      (metis map_find_in_iff option.inject)
  then have "?c = upd_user k (subscribed req) c" by (simp add: upd_user_def)
  moreover have "conf_inv (upd_user k (subscribed req) c)"
    by (rule conf_inv_upd_user [OF inv])
      (use users_okD(3) [OF conf_invD(6) [OF inv]] in \<open>auto simp: subscribed_sel\<close>)
  ultimately have inv1: "conf_inv ?c" by simp
  have ok: "\<not> list_ex (\<lambda>f. \<not> HasFloor c f) (map floorId_value (mfq_floorIds req))"
    using fs by (auto simp: list_ex_iff HasFloor_def)
  obtain d1 where d1: "SendMessage (BFCPMsgFloorStatus_new (m_transactionId msg) (c_conferenceId ?c) (m_userId msg)) ?c = Ok d1"
    "only_output ?c d1"
    using SendMessage_total [of "BFCPMsgFloorStatus_new (m_transactionId msg) (c_conferenceId ?c) (m_userId msg)" ?c]
    by (auto simp: FloorStatus_new_body)
  obtain d2 where d2: "send_floor_statuses (m_transactionId msg) (m_userId msg)
      (u_queriedFloorIds (subscribed req user)) ?c = Ok d2" "only_output ?c d2"
    using send_floor_statuses_total [OF conf_invD(1) [OF inv1]] by blast
  have "ProcessFloorQuery msg req user c =
     (if user_CountQueriedFloorIds (subscribed req user) = 0 then Ok d1 else Ok d2)"
    using ok d1(1) d2(1) by (simp add: ProcessFloorQuery_def floor_query_floors_total subscribed_def [symmetric]
        id subscribed_sel Let_def)
  with d1 d2 inv1 show ?thesis
    by (cases "user_CountQueriedFloorIds (subscribed req user) = 0") (auto simp: conf_inv_only_output)
qed

lemma ProcessFloorQuery_total:
  assumes inv: "conf_inv c" and u: "GetUser c k = Some user"
  shows "\<exists>d. ProcessFloorQuery msg req user c = Ok d \<and> conf_inv d"
proof (cases "floorId_value ` set (mfq_floorIds req) \<subseteq> set (c_floors c)")
  case True
  with ProcessFloorQuery_spec [OF inv u] show ?thesis by blast
next
  case False
  then have "list_ex (\<lambda>f. \<not> HasFloor c f) (map floorId_value (mfq_floorIds req))"
    by (auto simp: list_ex_iff HasFloor_def)
  then show ?thesis using ReplyError_inv [OF inv] by (simp add: ProcessFloorQuery_def floor_query_floors_total)
qed

text \<open>
  The messages the server can process: the object is an instance of the class its primitive
  names, and a release says what it releases.
\<close>

definition well_formed :: "bfcp_msg \<Rightarrow> bool" where
  "well_formed msg \<longleftrightarrow> msg_Dump msg = Ok () \<and>
     (case m_primitive msg of
        PFloorRequest \<Rightarrow> (case m_body msg of MsgFloorRequest req \<Rightarrow> True | _ \<Rightarrow> False)
      | PFloorRelease \<Rightarrow> (case m_body msg of MsgFloorRelease req \<Rightarrow> True | _ \<Rightarrow> False)
      | PFloorQuery \<Rightarrow> (case m_body msg of MsgFloorQuery req \<Rightarrow> True | _ \<Rightarrow> False)
      | _ \<Rightarrow> True)"

lemma dispatch_total:
  assumes inv: "conf_inv c" and "\<not> c_ending c" and wf: "well_formed msg"
    and u: "GetUser c (m_userId msg) = Some user"
  shows "\<exists>d. dispatch msg user c = Ok d \<and> conf_inv d"
proof (cases "m_primitive msg")
  case PFloorRequest
  with wf ProcessFloorRequest_total [OF inv] show ?thesis
    by (auto simp: dispatch_def well_formed_def split: msg_body.splits)
next
  case PFloorRelease
  with wf obtain req k where "m_body msg = MsgFloorRelease req" "release_id req = Some k"
    by (auto simp: well_formed_def floor_release_GetFloorRequestId_def release_id_def
        split: msg_body.splits option.splits)
  with PFloorRelease ProcessFloorRelease_total [OF inv _ assms(2)] show ?thesis
    by (auto simp: dispatch_def)
next
  case PFloorQuery
  with wf ProcessFloorQuery_total [OF inv u] show ?thesis
    by (auto simp: dispatch_def well_formed_def split: msg_body.splits)
next
  case PHello
  then show ?thesis using SendMessage_total [of msg c] wf conf_inv_only_output inv
    by (fastforce simp: dispatch_def ProcessHello_def well_formed_def)
qed (use ReplyError_inv [OF inv] in \<open>simp_all add: dispatch_def\<close>)

lemma MessageReceived_total:
  assumes inv: "conf_inv c" and wf: "well_formed msg"
  shows "\<exists>d. MessageReceived msg c = Ok d \<and> conf_inv d"
proof (cases "c_ending c")
  case False
  with wf ReplyError_inv [OF inv] dispatch_total [OF inv False wf] show ?thesis
    by (cases "GetUser c (m_userId msg)") (auto simp: MessageReceived_def well_formed_def)
qed (use inv in \<open>simp add: MessageReceived_def\<close>)

section \<open>The end of the conference\<close>

lemma dom_requests:
  assumes "mem_ok c"
  shows "dom (requests c) = fst ` set (c_floorRequests c)"
proof (intro equalityI subsetI)
  fix k assume "k \<in> dom (requests c)"
  then obtain p where "map_find (c_floorRequests c) k = Some p" by (auto elim: requests_SomeD)
  from map_find_Some_in [OF this] show "k \<in> fst ` set (c_floorRequests c)" by force
next
  fix k assume "k \<in> fst ` set (c_floorRequests c)"
  then obtain p where "map_find (c_floorRequests c) k = Some p"
    by (metis map_find_None_iff not_None_eq)
  with mem_okD [OF assms this] show "k \<in> dom (requests c)" by blast
qed

lemma length_requests:
  assumes "mem_ok c"
  shows "length (c_floorRequests c) = card (dom (requests c))"
proof -
  have "distinct (map fst (c_floorRequests c))" using assms by (simp add: mem_ok_def omap_wf_distinct)
  from distinct_card [OF this] show ?thesis by (simp add: dom_requests [OF assms])
qed

lemma fewer_requests:
  assumes "mem_ok c" "mem_ok d" "\<And>j. requests d j = None \<or> requests d j = requests c j"
    and "requests c k \<noteq> None" "requests d k = None"
  shows "length (c_floorRequests d) < length (c_floorRequests c)"
proof -
  have sub: "dom (requests d) \<subseteq> dom (requests c)" using assms(3) by (metis domIff subsetI)
  moreover have "k \<in> dom (requests c)" "k \<notin> dom (requests d)" using assms(4,5) by auto
  moreover have "finite (dom (requests c))" using assms(1) by (simp add: dom_requests)
  ultimately have "card (dom (requests d)) < card (dom (requests c))" by (metis psubsetI psubset_card_mono)
  then show ?thesis by (simp add: length_requests assms(1,2))
qed

lemma drop_first:
  assumes inv: "conf_inv c" and k: "c_floorRequests c = (k, p) # es"
  shows "\<exists>r x. c_heap c p = Some r \<and>
    (if IsGranted r then RevokeFloorRequest (fr_floorRequestId r) info c
     else DenyFloorRequest (fr_floorRequestId r) info c) = Ok x \<and> dropped {k} c (snd x) \<and>
    length (c_floorRequests (snd x)) < length (c_floorRequests c)"
proof -
  note i = conf_invD [OF inv]
  have f: "map_find (c_floorRequests c) k = Some p" by (simp add: k map_find_def)
  obtain r where r: "c_heap c p = Some r" "requests c k = Some r" "fr_floorRequestId r = k"
    using mem_okD [OF i(1) f] by blast
  obtain d where d: "revoke_or_deny info k c = Ok d" "dropped {k} c d"
    using revoke_or_deny_dropped [OF inv] by blast
  have "length (c_floorRequests d) < length (c_floorRequests c)"
    using fewer_requests [OF i(1) conf_invD(1) [OF droppedD(1) [OF d(2)]] dropped_requests [OF d(2)], of k]
      r(2) droppedD(3) [OF d(2), of k] by simp
  with d r f show ?thesis by (auto simp: revoke_or_deny_def GetFloorRequest_def deref_def)
qed

lemma End_requests_total:
  "conf_inv c \<Longrightarrow> length (c_floorRequests c) \<le> fuel \<Longrightarrow>
     \<exists>d. End_requests fuel c = Ok d \<and> conf_inv d \<and> c_floorRequests d = [] \<and> same_members c d"
proof (induction fuel arbitrary: c)
  case 0
  then show ?case by (simp add: End_requests.simps)
next
  case (Suc fuel)
  show ?case
  proof (cases "c_floorRequests c")
    case Nil
    with Suc.prems show ?thesis by (simp add: End_requests.simps)
  next
    case (Cons e es)
    obtain k p where e: "e = (k, p)" by (cases e)
    obtain r x where x: "c_heap c p = Some r"
      "(if IsGranted r then RevokeFloorRequest (fr_floorRequestId r) (L ''conference ended'') c
        else DenyFloorRequest (fr_floorRequestId r) (L ''conference ended'') c) = Ok x"
      "dropped {k} c (snd x)" "length (c_floorRequests (snd x)) < length (c_floorRequests c)"
      using drop_first [OF Suc.prems(1) Cons [unfolded e]] by blast
    obtain d where d: "End_requests fuel (snd x) = Ok d" "conf_inv d" "c_floorRequests d = []"
      "same_members (snd x) d"
      using Suc.IH [OF droppedD(1) [OF x(3)]] x(4) Suc.prems(2) by auto
    have "End_requests (Suc fuel) c = Ok d"
      using Cons e x(1,2) d(1) by (simp add: End_requests.simps [of "Suc fuel"] deref_def)
    with d droppedD(2) [OF x(3)] show ?thesis by (auto intro: same_members_trans)
  qed
qed

definition told_to_leave :: "bfcp_user \<Rightarrow> conf \<Rightarrow> bool" where
  "told_to_leave u c \<longleftrightarrow> (case u_transport u of None \<Rightarrow> True
     | Some ws \<Rightarrow> WsClose ws 4000 (L ''the BFCP conference has ended'') \<in> set (c_out c))"

lemma End_users_total:
  assumes "omap_wf us" "c_users c = us"
    and "\<And>u ws. u \<in> snd ` set us \<Longrightarrow> u_transport u = Some ws \<Longrightarrow> c_conn c ws \<noteq> None"
  shows "\<exists>d. foldR End_user us c = Ok d \<and> c_users d = [] \<and> c_floorRequests d = c_floorRequests c \<and>
    c_ending d = c_ending c \<and> c_floorRequestCounter d = c_floorRequestCounter c \<and> set (c_out c) \<subseteq> set (c_out d) \<and>
    (\<forall>u \<in> snd ` set us. told_to_leave u d)"
  using assms
proof (induction us arbitrary: c)
  case (Cons e us)
  have erase: "map_erase (fst e) (e # us) = us"
    using Cons.prems(1) by (auto simp: map_erase_def omap_wf_Cons intro!: filter_True)
  let ?c = "c\<lparr>c_users := us\<rparr>"
  have "\<exists>d. End_user e c = Ok d \<and> c_users d = us \<and> c_floorRequests d = c_floorRequests c \<and>
      c_ending d = c_ending c \<and> c_floorRequestCounter d = c_floorRequestCounter c \<and> set (c_out c) \<subseteq> set (c_out d) \<and>
      told_to_leave (snd e) d \<and> (\<forall>ws. c_conn d ws = None \<longleftrightarrow> c_conn c ws = None)"
  proof (cases "u_transport (snd e)")
    case None
    then show ?thesis
      using Cons.prems(2) erase by (simp add: End_user_def user_CloseTransport_def told_to_leave_def)
  next
    case (Some ws)
    with Cons.prems(3) have "c_conn ?c ws \<noteq> None" by auto
    from close_socket_total [OF this, of 4000 "L ''the BFCP conference has ended''"] Some show ?thesis
      using Cons.prems(2) erase by (auto simp: End_user_def user_CloseTransport_def told_to_leave_def)
  qed
  then obtain d where d: "End_user e c = Ok d" "c_users d = us" "c_floorRequests d = c_floorRequests c"
    "c_ending d = c_ending c" "c_floorRequestCounter d = c_floorRequestCounter c" "set (c_out c) \<subseteq> set (c_out d)"
    "told_to_leave (snd e) d" "\<forall>ws. c_conn d ws = None \<longleftrightarrow> c_conn c ws = None" by blast
  have "omap_wf us" using Cons.prems(1) by (simp add: omap_wf_Cons)
  moreover have "c_conn d ws \<noteq> None" if "u \<in> snd ` set us" "u_transport u = Some ws" for u ws
    using that Cons.prems(3) [of u ws] d(8) by simp
  ultimately obtain f where
    "foldR End_user us d = Ok f" "c_users f = []" "c_floorRequests f = c_floorRequests d"
    "c_ending f = c_ending d" "c_floorRequestCounter f = c_floorRequestCounter d" "set (c_out d) \<subseteq> set (c_out f)"
    "\<forall>u \<in> snd ` set us. told_to_leave u f"
    using Cons.IH [OF _ d(2)] by blast
  with d show ?case by (auto simp: told_to_leave_def split: option.splits)
qed simp

lemma conf_inv_ending:
  assumes "conf_inv c"
  shows "conf_inv (c\<lparr>c_ending := True\<rparr>)"
  using conf_invD(6) [OF assms] by (intro conf_inv_members [OF assms]) (auto simp: users_ok_def)

lemma conf_inv_empty:
  assumes "c_floorRequests c = []" "c_users c = []" "c_ending c" "1 \<le> c_floorRequestCounter c"
  shows "conf_inv c"
proof -
  have "requests c = (\<lambda>_. None)" by (rule ext) (simp add: requests_def assms(1))
  with assms show ?thesis
    by (simp add: conf_inv_def mem_ok_def statuses_ok_def floors_ok_def exclusive_def holds_def roles_ok_def users_ok_def)
qed

lemma End_spec:
  assumes inv: "conf_inv c" and "\<not> c_ending c"
  shows "\<exists>d. End c = Ok d \<and> c_ending d \<and> c_users d = [] \<and> c_floorRequests d = [] \<and>
    1 \<le> c_floorRequestCounter d \<and> (\<forall>u \<in> snd ` set (c_users c). told_to_leave u d)"
proof -
  let ?c = "c\<lparr>c_ending := True\<rparr>"
  obtain d where d: "End_requests (length (c_floorRequests c)) ?c = Ok d" "conf_inv d"
    "c_floorRequests d = []" "same_members ?c d"
    using End_requests_total [OF conf_inv_ending [OF inv], of "length (c_floorRequests c)"] by auto
  have m: "c_users d = c_users c" "c_conn d = c_conn c" "c_ending d" "1 \<le> c_floorRequestCounter d"
    using d(4) conf_invD(1) [OF d(2)] by (auto simp: same_members_def mem_ok_def)
  have "c_conn d ws \<noteq> None" if "u \<in> snd ` set (c_users d)" "u_transport u = Some ws" for u ws
    using that conf_invD(6) [OF d(2)] by (force simp: users_ok_def)
  moreover have "omap_wf (c_users d)" using conf_invD(6) [OF d(2)] by (simp add: users_ok_def)
  ultimately obtain e where "foldR End_user (c_users d) d = Ok e" "c_users e = []"
    "c_floorRequests e = c_floorRequests d" "c_ending e = c_ending d"
    "c_floorRequestCounter e = c_floorRequestCounter d" "\<forall>u \<in> snd ` set (c_users d). told_to_leave u e"
    using End_users_total [of "c_users d" d] by meson
  with d m assms(2) show ?thesis by (auto simp: End_def Let_def)
qed

lemma End_total: "conf_inv c \<Longrightarrow> \<exists>d. End c = Ok d \<and> conf_inv d"
  using End_spec [of c] conf_inv_empty by (cases "c_ending c") (auto simp: End_def)

end
