(* ===== verification/BFCPReach.thy ===== *)
theory BFCPReach
  imports BFCPSafety
begin

text \<open>
  The life of a conference: the calls the rest of the media server makes on a floor control server
  (\<open>call\<close>, one constructor per public operation of \<open>BFCPFloorControlServer\<close>), one call
  (\<open>perform\<close>), the states any sequence of calls can lead to (\<open>reachable\<close>), and the properties of
  the conference as a whole.
\<close>

section \<open>Calls\<close>

datatype call =
    CallAddUser nat int
  | CallRemoveUser int
  | CallSetChair int
  | CallAddFloor int
  | CallGrant int
  | CallDeny int wstring
  | CallRevoke int wstring
  | CallConnect int nat conn_data
  | CallDisconnected int bool
  | CallDisconnectUser int int wstring
  | CallMessage bfcp_msg
  | CallEnd

text \<open>
  \<open>CallConnect\<close> is what \<open>BFCP::ConnectTransport\<close> does: offer the socket to the server and attach
  the connection data when the server takes it.
\<close>

definition connect :: "int \<Rightarrow> nat \<Rightarrow> conn_data \<Rightarrow> conf \<Rightarrow> conf res" where
  "connect userId ws cd c =
     bindR (UserConnected userId ws c) (\<lambda>x. Ok (if fst x then attach ws cd (snd x) else snd x))"

fun perform :: "call \<Rightarrow> conf \<Rightarrow> conf res" where
  "perform (CallAddUser addr k) c = Ok (snd (AddUser addr k c))"
| "perform (CallRemoveUser k) c = bindR (RemoveUser k c) (\<lambda>x. Ok (snd x))"
| "perform (CallSetChair k) c = Ok (MultiConf_SetChair k c)"
| "perform (CallAddFloor f) c = Ok (snd (AddFloor f c))"
| "perform (CallGrant k) c = bindR (GrantFloorRequest k c) (\<lambda>x. Ok (snd x))"
| "perform (CallDeny k info) c = bindR (DenyFloorRequest k info c) (\<lambda>x. Ok (snd x))"
| "perform (CallRevoke k info) c = bindR (RevokeFloorRequest k info c) (\<lambda>x. Ok (snd x))"
| "perform (CallConnect k ws cd) c = connect k ws cd c"
| "perform (CallDisconnected k b) c = UserDisconnected k b c"
| "perform (CallDisconnectUser k code reason) c = DisconnectUser k code reason c"
| "perform (CallMessage msg) c = MessageReceived msg c"
| "perform CallEnd c = End c"

text \<open>The only demand on a call: a message is one the parser's \<open>IsValid\<close> would let through.\<close>

fun allowed :: "call \<Rightarrow> bool" where
  "allowed (CallMessage msg) = well_formed msg"
| "allowed _ = True"

definition MultiConf_start :: "int \<Rightarrow> conf" where
  "MultiConf_start conferenceId = MultiConf_Init_floors (BFCPFloorControlServer_new conferenceId (\<lambda>_. None) [])"

inductive reachable :: "conf \<Rightarrow> bool" where
  reachable_start: "reachable (MultiConf_start conferenceId)"
| reachable_step: "reachable c \<Longrightarrow> allowed a \<Longrightarrow> perform a c = Ok d \<Longrightarrow> reachable d"

text \<open>A run of calls, for examples.\<close>

definition run_calls :: "call list \<Rightarrow> conf \<Rightarrow> conf res" where
  "run_calls as c = foldR perform as c"

lemma run_calls_reachable:
  "reachable c \<Longrightarrow> list_all allowed as \<Longrightarrow> run_calls as c = Ok d \<Longrightarrow> reachable d"
  unfolding run_calls_def
  by (rule foldR_invariant [where P = reachable]) (auto simp: list_all_iff intro: reachable_step)

section \<open>The invariant holds in every reachable state\<close>

lemma start_inv: "conf_inv (MultiConf_start conferenceId)"
proof -
  let ?c = "BFCPFloorControlServer_new conferenceId (\<lambda>_. None) []"
  have "requests ?c = (\<lambda>_. None)" by (rule ext) (simp add: requests_def BFCPFloorControlServer_new_def)
  then have "conf_inv ?c"
    by (simp add: conf_inv_def mem_ok_def statuses_ok_def floors_ok_def exclusive_def holds_def roles_ok_def
        role_is_def users_ok_def)
      (simp add: BFCPFloorControlServer_new_def)
  then show ?thesis unfolding MultiConf_start_def MultiConf_Init_floors_def by (intro AddFloor_inv)
qed

lemma RemoveUser_total: "conf_inv c \<Longrightarrow> \<exists>x. RemoveUser k c = Ok x \<and> conf_inv (snd x)"
  using RemoveUser_spec [where c = c and k = k] RemoveUser_refused [of c k]
  by (cases "c_ending c \<or> GetUser c k = None") fastforce+

lemma connect_total: "conf_inv c \<Longrightarrow> \<exists>d. connect k ws cd c = Ok d \<and> conf_inv d"
  using UserConnected_total [of c k ws cd] by (fastforce simp: connect_def split: if_splits)

lemma perform_total:
  assumes inv: "conf_inv c" and "allowed a"
  shows "\<exists>d. perform a c = Ok d \<and> conf_inv d"
proof (cases a)
  case (CallMessage msg)
  with assms MessageReceived_total show ?thesis by simp
next
  case (CallGrant k)
  with Grant_total [OF inv, of k] show ?thesis by auto
next
  case (CallDeny k info)
  with Deny_total [OF inv, of k info] show ?thesis by auto
next
  case (CallRevoke k info)
  with Revoke_total [OF inv, of k info] show ?thesis by auto
next
  case (CallRemoveUser k)
  with RemoveUser_total [OF inv, of k] show ?thesis by auto
qed (use inv in \<open>simp_all add: AddUser_inv MultiConf_SetChair_inv AddFloor_inv connect_total
    UserDisconnected_total DisconnectUser_total End_total\<close>)

lemma reachable_inv: "reachable c \<Longrightarrow> conf_inv c"
proof (induction rule: reachable.induct)
  case (reachable_step c a d)
  with perform_total [of c a] show ?case by auto
qed (rule start_inv)

section \<open>A FloorRequest message\<close>

lemma holds_insert_request:
  assumes "mem_ok c" "fr_floorRequestId r = c_floorRequestCounter c" "\<not> IsGranted r"
  shows "holds (insert_request r c) = holds c"
  using fresh_id [OF assms(1)] insert_request_requests [OF assms(1), of r] assms(2,3)
  by (intro ext) (auto simp: holds_def split: if_splits)

lemma granted_over_cong:
  "holds d = holds c \<Longrightarrow> c_ending d = c_ending c \<Longrightarrow> granted_over d fs = granted_over c fs"
  by (simp add: granted_over_def revoked_all_def revoked_with_def conflicting_def cong: if_cong)

text \<open>The state a FloorRequest is answered in: the new request is pending.\<close>

lemma FloorRequest_pending:
  assumes inv: "conf_inv c" and ok: "bad_request req c = None"
  obtains d where "only_output (insert_request (requested msg req c) c) d" "conf_inv d"
    "requests d = (requests c)(c_floorRequestCounter c \<mapsto> requested msg req c)" "holds d = holds c"
    "ProcessFloorRequest msg req user c =
       (if u_isChair user then bindR (GrantFloorRequest (c_floorRequestCounter c) d) (\<lambda>x. Ok (snd x))
        else onFloorRequest (c_floorRequestCounter c) (m_userId msg)
          (fr_beneficiaryId (requested msg req c)) (fr_floorIds (requested msg req c)) d)"
proof -
  let ?r = "requested msg req c" and ?k = "c_floorRequestCounter c"
  note mem = conf_invD(1) [OF inv]
  have "set (fr_floorIds ?r) \<subseteq> set (c_floors c)"
    using ok by (auto simp: requested_sel bad_request_def split: if_splits)
  then have inv1: "conf_inv (insert_request ?r c)"
    by (intro insert_request_inv [OF inv]) (simp_all add: requested_sel)
  obtain m where m: "CreateFloorRequestStatus ?r (m_transactionId msg) = Ok m" "msg_Dump m = Ok ()"
    by (simp add: CreateFloorRequestStatus_body)
  obtain d where d: "SendMessage m (insert_request ?r c) = Ok d" "only_output (insert_request ?r c) d"
    using SendMessage_total [OF m(2)] by blast
  have R: "requests d = (requests c)(?k \<mapsto> ?r)"
    using requests_only_output [OF d(2)] insert_request_requests [OF mem, of ?r] by (simp add: requested_sel)
  have h: "holds d = holds c"
    using holds_only_output [OF d(2)] holds_insert_request [OF mem, of ?r]
    by (simp add: requested_sel IsGranted_def)
  have "deref d (c_next c) = Ok ?r"
    using only_output_fields [OF d(2)] by (simp add: deref_def insert_request_frame)
  then have "ProcessFloorRequest msg req user c =
       (if u_isChair user then bindR (GrantFloorRequest ?k d) (\<lambda>x. Ok (snd x))
        else onFloorRequest ?k (m_userId msg) (fr_beneficiaryId ?r) (fr_floorIds ?r) d)"
    using ok m(1) d(1) by (simp add: ProcessFloorRequest_eq Let_def requested_sel)
  with that d(2) inv1 conf_inv_only_output [OF d(2)] R h show ?thesis by blast
qed

definition may_have :: "conf \<Rightarrow> bfcp_msg \<Rightarrow> bfcp_user \<Rightarrow> bool" where
  "may_have c msg user \<longleftrightarrow>
     u_isChair user \<or> m_userId msg = c_chairId c \<or> m_userId msg = c_presenterId c"

lemma FloorRequest_granted:
  assumes inv: "conf_inv c" and e: "\<not> c_ending c" and ok: "bad_request req c = None"
    and may: "may_have c msg user"
  shows "\<exists>d. ProcessFloorRequest msg req user c = Ok d \<and> conf_inv d \<and> c_users d = c_users c \<and>
    requests d = (\<lambda>j. if j = c_floorRequestCounter c then Some (SetStatus Granted (requested msg req c))
       else if j \<in> granted_over c (fr_floorIds (requested msg req c)) then None else requests c j)"
proof -
  let ?r = "requested msg req c" and ?k = "c_floorRequestCounter c"
  obtain d where d: "only_output (insert_request ?r c) d" "conf_inv d"
    "requests d = (requests c)(?k \<mapsto> ?r)" "holds d = holds c"
    "ProcessFloorRequest msg req user c =
       (if u_isChair user then bindR (GrantFloorRequest ?k d) (\<lambda>x. Ok (snd x))
        else onFloorRequest ?k (m_userId msg) (fr_beneficiaryId ?r) (fr_floorIds ?r) d)"
    by (rule FloorRequest_pending [OF inv ok])
  note f = only_output_fields [OF d(1)]
  have en: "c_ending d = c_ending c" using f by (simp add: insert_request_frame)
  obtain g where g: "GrantFloorRequest ?k d = Ok (True, g)" "conf_inv g" "same_members d g"
    "requests g = (\<lambda>j. if j = ?k then Some (SetStatus Granted ?r)
       else if j \<in> granted_over d (fr_floorIds ?r) then None else requests d j)"
    using Grant_spec [OF d(2), of ?k ?r] e en d(3) by (auto simp: requested_sel IsGranted_def)
  have "c_chairId d = c_chairId c" "c_presenterId d = c_presenterId c" "c_users g = c_users c"
    using f g(3) by (simp_all add: insert_request_frame same_members_def)
  with d(5) g may granted_over_cong [OF d(4) en] d(3) show ?thesis
    by (auto simp: may_have_def onFloorRequest_def fun_eq_iff)
qed

lemma FloorRequest_denied:
  assumes inv: "conf_inv c" and ok: "bad_request req c = None" and may: "\<not> may_have c msg user"
  shows "\<exists>d. ProcessFloorRequest msg req user c = Ok d \<and> conf_inv d \<and> c_users d = c_users c \<and>
    c_presenterId d = c_presenterId c \<and> c_editorId d = c_editorId c \<and> requests d = requests c"
proof -
  let ?r = "requested msg req c" and ?k = "c_floorRequestCounter c"
  obtain d where d: "only_output (insert_request ?r c) d" "conf_inv d"
    "requests d = (requests c)(?k \<mapsto> ?r)" "holds d = holds c"
    "ProcessFloorRequest msg req user c =
       (if u_isChair user then bindR (GrantFloorRequest ?k d) (\<lambda>x. Ok (snd x))
        else onFloorRequest ?k (m_userId msg) (fr_beneficiaryId ?r) (fr_floorIds ?r) d)"
    by (rule FloorRequest_pending [OF inv ok])
  note f = only_output_fields [OF d(1)]
  obtain g where g: "DenyFloorRequest ?k [] d = Ok (True, g)" "conf_inv g" "same_members d g"
    "c_presenterId g = c_presenterId d" "c_editorId g = c_editorId d" "requests g = (requests d)(?k := None)"
    using Deny_spec [OF d(2), of ?k "[]"] d(3) by (auto simp: requested_sel IsGranted_def)
  have "requests g = requests c"
    using g(6) d(3) fresh_id [OF conf_invD(1) [OF inv]] by (auto simp: fun_eq_iff)
  with d(5) g may f show ?thesis
    by (auto simp: may_have_def onFloorRequest_def insert_request_frame same_members_def)
qed

lemma MessageReceived_dispatch:
  assumes "\<not> c_ending c" "well_formed msg" "GetUser c (m_userId msg) = Some user"
  shows "MessageReceived msg c = dispatch msg user c"
  using assms by (simp add: MessageReceived_def well_formed_def)

end
