(* ===== verification/BFCPProperties.thy ===== *)
theory BFCPProperties
  imports BFCPReach
begin

text \<open>
  The properties of a conference: what holds in every state it can reach, and what each operation
  of the floor control server does.  Each rests on the lemmas of \<open>BFCPOperations\<close> and
  \<open>BFCPSafety\<close>; an example that evaluates the operations follows each property that has a hypothesis.
\<close>

section \<open>Example states\<close>

text \<open>Users 7 and 8, user 7 is the chair, user 8 is connected through socket 3.\<close>

definition ex_conn :: conn_data where
  "ex_conn = \<lparr>cd_conferenceId = 1, cd_userId = 8, cd_closedByServer = False, cd_utf8 = UTF8_new\<rparr>"

definition ex_calls :: "call list" where
  "ex_calls = [CallAddUser 100 7, CallAddUser 101 8, CallSetChair 7, CallConnect 8 3 ex_conn]"

definition ex_conf :: conf where
  "ex_conf = (case run_calls ex_calls (MultiConf_start 1) of Ok c \<Rightarrow> c | Fault _ \<Rightarrow> MultiConf_start 1)"

lemma ex_conf_reachable: "reachable ex_conf"
proof -
  have "list_all allowed ex_calls" by (simp add: ex_calls_def)
  then show ?thesis
    using run_calls_reachable [OF reachable_start [of 1]] reachable_start [of 1]
    by (simp add: ex_conf_def split: res.split)
qed

lemma ex_conf_eq:
  "ex_conf = \<lparr>c_conferenceId = 1,
     c_users = [(7, \<lparr>u_addr = 100, u_userId = 7, u_conferenceId = 1, u_isChair = True,
                     u_transport = None, u_queriedFloorIds = []\<rparr>),
                (8, \<lparr>u_addr = 101, u_userId = 8, u_conferenceId = 1, u_isChair = False,
                     u_transport = Some 3, u_queriedFloorIds = []\<rparr>)],
     c_removedUsers = [], c_floors = [1, 2], c_floorRequests = [], c_floorRequestCounter = 1,
     c_ending = False, c_heap = (\<lambda>_. None), c_next = 0, c_chairId = 7, c_presenterId = 0,
     c_editorId = 0, c_presenting = False, c_conn = (\<lambda>_. None)(3 \<mapsto> ex_conn), c_out = []\<rparr>"
  by (simp add: ex_conf_def ex_calls_def run_calls_def MultiConf_start_def MultiConf_Init_floors_def
      BFCPFloorControlServer_new_def AddFloor_def AddUser_def MultiConf_SetChair_def SetChair_def
      HasFloor_def HasUser_def GetUser_def connect_def UserConnected_def map_find_def attach_def
      upd_user_def map_adjust_def user_ops user_IsConnected_def BFCPUser_new_def)

text \<open>A pending request of user 8 for floor 1.\<close>

definition ex_request :: floor_request where
  "ex_request = BFCPFloorRequest.AddFloorId 1 (BFCPFloorRequest_new 1 8 1)"

definition ex_pending :: conf where
  "ex_pending = insert_request ex_request ex_conf"

lemma ex_pending_facts:
  "conf_inv ex_pending" "\<not> c_ending ex_pending" "requests ex_pending 1 = Some ex_request"
  "\<not> IsGranted ex_request"
proof -
  note inv = reachable_inv [OF ex_conf_reachable]
  have r: "fr_floorRequestId ex_request = c_floorRequestCounter ex_conf" "fr_status ex_request = Pending"
    "set (fr_floorIds ex_request) \<subseteq> set (c_floors ex_conf)"
    by (simp_all add: ex_request_def ex_conf_eq BFCPFloorRequest.AddFloorId_def BFCPFloorRequest_new_def)
  show "conf_inv ex_pending" unfolding ex_pending_def by (rule insert_request_inv [OF inv r])
  show "\<not> c_ending ex_pending" by (simp add: ex_pending_def insert_request_frame ex_conf_eq)
  show "requests ex_pending 1 = Some ex_request"
    using insert_request_requests [OF conf_invD(1) [OF inv], of ex_request] r(1)
    by (simp add: ex_pending_def ex_conf_eq)
  show "\<not> IsGranted ex_request" using r(2) by (simp add: IsGranted_def)
qed

text \<open>The same request granted: user 8 is the presenter.\<close>

definition ex_granted :: conf where
  "ex_granted = (case GrantFloorRequest 1 ex_pending of Ok x \<Rightarrow> snd x | Fault _ \<Rightarrow> ex_pending)"

lemma ex_granted_facts:
  "conf_inv ex_granted" "\<not> c_ending ex_granted" "requests ex_granted 1 = Some (SetStatus Granted ex_request)"
  using Grant_spec [OF ex_pending_facts] by (auto simp: ex_granted_def same_members_def ex_pending_facts(2))

text \<open>A FloorRequest of the chair for floor 1, and the state it leads to.\<close>

definition ex_body :: msg_floor_request where
  "ex_body = \<lparr>mfr_floorIds = [BFCPAttrFloorId 1], mfr_beneficiaryId = None, mfr_participantProvidedInfo = None\<rparr>"

definition ex_msg :: "int \<Rightarrow> bfcp_msg" where
  "ex_msg userId = (BFCPMsgFloorRequest_new 5 1 userId)\<lparr>m_body := MsgFloorRequest ex_body\<rparr>"

lemma ex_msg_sel [simp]:
  "m_primitive (ex_msg u) = PFloorRequest" "m_userId (ex_msg u) = u" "m_body (ex_msg u) = MsgFloorRequest ex_body"
  "well_formed (ex_msg u)"
  by (simp_all add: ex_msg_def BFCPMsgFloorRequest_new_def BFCPMessage_new_def well_formed_def)

lemma ex_bad_request [simp]: "bad_request ex_body ex_conf = None"
  by (simp add: bad_request_def ex_body_def ex_conf_eq)

definition ex_chair :: bfcp_user where
  "ex_chair = \<lparr>u_addr = 100, u_userId = 7, u_conferenceId = 1, u_isChair = True, u_transport = None,
     u_queriedFloorIds = []\<rparr>"

definition ex_user :: bfcp_user where
  "ex_user = \<lparr>u_addr = 101, u_userId = 8, u_conferenceId = 1, u_isChair = False, u_transport = Some 3,
     u_queriedFloorIds = []\<rparr>"

lemma ex_users: "GetUser ex_conf 7 = Some ex_chair" "GetUser ex_conf 8 = Some ex_user"
  "GetUser ex_conf 9 = None" "\<not> c_ending ex_conf" "c_chairId ex_conf = 7" "c_presenterId ex_conf = 0"
  by (simp_all add: ex_conf_eq GetUser_def map_find_def ex_chair_def ex_user_def)

definition ex_presenting :: conf where
  "ex_presenting = (case MessageReceived (ex_msg 7) ex_conf of Ok c \<Rightarrow> c | Fault _ \<Rightarrow> ex_conf)"

lemma ex_presenting_facts:
  "reachable ex_presenting" "requests ex_presenting 1 = Some (SetStatus Granted (requested (ex_msg 7) ex_body ex_conf))"
proof -
  have m: "MessageReceived (ex_msg 7) ex_conf = ProcessFloorRequest (ex_msg 7) ex_body ex_chair ex_conf"
    using MessageReceived_dispatch [of ex_conf "ex_msg 7" ex_chair] by (simp add: ex_users dispatch_def)
  obtain d where d: "ProcessFloorRequest (ex_msg 7) ex_body ex_chair ex_conf = Ok d"
    "requests d = (\<lambda>j. if j = c_floorRequestCounter ex_conf then Some (SetStatus Granted (requested (ex_msg 7) ex_body ex_conf))
       else if j \<in> granted_over ex_conf (fr_floorIds (requested (ex_msg 7) ex_body ex_conf)) then None
       else requests ex_conf j)"
    using FloorRequest_granted [OF reachable_inv [OF ex_conf_reachable], of ex_body "ex_msg 7" ex_chair]
    by (auto simp: ex_users may_have_def ex_chair_def)
  then have "ex_presenting = d" using m by (simp add: ex_presenting_def)
  moreover have "reachable d"
    by (rule reachable_step [OF ex_conf_reachable, of "CallMessage (ex_msg 7)"]) (simp_all add: m d(1))
  ultimately show "reachable ex_presenting"
    "requests ex_presenting 1 = Some (SetStatus Granted (requested (ex_msg 7) ex_body ex_conf))"
    using d(2) by (simp_all add: ex_conf_eq)
qed

section \<open>Every reachable state\<close>

text \<open>C1: In every state a conference can reach, two granted floor requests never share a floor:
  a floor has at most one holder, whatever users, messages, chairs and disconnections did.\<close>

theorem floor_has_one_holder:
  assumes "reachable c"
    and "requests c k = Some r" "IsGranted r" "HasFloorId r f"
    and "requests c k' = Some r'" "IsGranted r'" "HasFloorId r' f"
  shows "k = k'"
  using conf_invD(4) [OF reachable_inv [OF assms(1)]] assms(2-7) by (auto simp: exclusive_def holds_def)

theorem floor_has_one_holder_witness:
  "\<exists>r. reachable ex_presenting \<and> requests ex_presenting 1 = Some r \<and> IsGranted r \<and> HasFloorId r 1 \<and>
     (\<forall>k' r'. requests ex_presenting k' = Some r' \<longrightarrow> IsGranted r' \<longrightarrow> HasFloorId r' 1 \<longrightarrow> 1 = k')"
  using ex_presenting_facts floor_has_one_holder [OF ex_presenting_facts(1,2), of 1]
  by (auto simp: HasFloorId_def requested_sel ex_body_def)



text \<open>C3: The presenter and the editor of the application mixer follow the floors.  While the
  conference runs, the presenter is the beneficiary of the granted request for floor 1 and nobody (0) when
  there is none, and the editor likewise for floor 2.\<close>

theorem presenter_and_editor_hold_their_floors:
  assumes "reachable c" "\<not> c_ending c"
  shows "(\<forall>k r. requests c k = Some r \<and> IsGranted r \<and> HasFloorId r 1 \<longrightarrow> c_presenterId c = fr_beneficiaryId r) \<and>
    ((\<nexists>k r. requests c k = Some r \<and> IsGranted r \<and> HasFloorId r 1) \<longrightarrow> c_presenterId c = 0) \<and>
    (\<forall>k r. requests c k = Some r \<and> IsGranted r \<and> HasFloorId r 2 \<longrightarrow> c_editorId c = fr_beneficiaryId r) \<and>
    ((\<nexists>k r. requests c k = Some r \<and> IsGranted r \<and> HasFloorId r 2) \<longrightarrow> c_editorId c = 0)"
  using conf_invD(5) [OF reachable_inv [OF assms(1)]] assms(2)
  by (auto simp: roles_ok_def role_is_def holds_def)

theorem presenter_and_editor_hold_their_floors_witness:
  "c_presenterId ex_conf = 0 \<and> c_editorId ex_conf = 0"
  using presenter_and_editor_hold_their_floors [OF ex_conf_reachable ex_users(4)]
  by (auto simp: ex_conf_eq requests_def)

text \<open>Between two calls a request is pending or granted, asks for floors that exist and carries
  the key it is stored under, which is below the counter: an id is never given to two requests.\<close>

theorem stored_requests_are_sound:
  assumes "reachable c" "requests c k = Some r"
  shows "(fr_status r = Pending \<or> fr_status r = Granted) \<and> set (fr_floorIds r) \<subseteq> set (c_floors c) \<and>
    fr_floorRequestId r = k \<and> 1 \<le> k \<and> k < c_floorRequestCounter c"
proof -
  note i = conf_invD [OF reachable_inv [OF assms(1)]]
  obtain p where "map_find (c_floorRequests c) k = Some p" using assms(2) by (rule requests_SomeD)
  from mem_okD [OF i(1) this] i(2,3) assms(2) show ?thesis by (auto simp: statuses_ok_def floors_ok_def)
qed

theorem stored_requests_are_sound_witness:
  "\<exists>r. requests ex_presenting 1 = Some r \<and> set (fr_floorIds r) \<subseteq> set (c_floors ex_presenting) \<and>
     1 < c_floorRequestCounter ex_presenting"
  using stored_requests_are_sound [OF ex_presenting_facts] ex_presenting_facts(2) by simp

section \<open>Granting, denying and revoking\<close>

text \<open>C32: Granting a pending request gives it its floors and takes away exactly the granted requests
  in the way: those that share a floor with it, and the editor's request when the presenter changes (the
  new request takes floor 1, or a revoked one held floor 1 without floor 2).  Every other request is untouched.\<close>

theorem grant_takes_the_floors:
  assumes "conf_inv c" "\<not> c_ending c" "requests c k = Some r" "\<not> IsGranted r"
  shows "\<exists>d. GrantFloorRequest k c = Ok (True, d) \<and> conf_inv d \<and>
    requests d = (\<lambda>j. if j = k then Some (SetStatus Granted r)
                      else if j \<in> granted_over c (fr_floorIds r) then None else requests c j)"
  using Grant_spec [OF assms] by blast

theorem grant_takes_the_floors_witness:
  "\<exists>d. GrantFloorRequest 1 ex_pending = Ok (True, d) \<and> requests d 1 = Some (SetStatus Granted ex_request)"
  using grant_takes_the_floors [OF ex_pending_facts] by auto

text \<open>A request that is not there, or is granted already, cannot be granted, and after the end of
  the conference no request can; the call changes nothing at all.\<close>

theorem grant_refused:
  assumes "conf_inv c" "c_ending c \<or> requests c k = None \<or> (\<exists>r. requests c k = Some r \<and> IsGranted r)"
  shows "GrantFloorRequest k c = Ok (False, c)"
  using Grant_refused [OF assms(1)] assms(2) by auto

theorem grant_refused_witness:
  "GrantFloorRequest 1 ex_granted = Ok (False, ex_granted)"
  by (rule grant_refused [OF ex_granted_facts(1)]) (simp add: ex_granted_facts(3))

text \<open>Denying works on pending requests only.  It removes the request from the conference and
  changes no other request, no user and neither the presenter nor the editor.\<close>

theorem deny_removes_a_pending_request:
  assumes "conf_inv c"
  shows "\<exists>d. DenyFloorRequest k info c = Ok (\<exists>r. requests c k = Some r \<and> \<not> IsGranted r, d) \<and>
    requests d = (if \<exists>r. requests c k = Some r \<and> \<not> IsGranted r then (requests c)(k := None) else requests c) \<and>
    c_users d = c_users c \<and> c_presenterId d = c_presenterId c \<and> c_editorId d = c_editorId c \<and> conf_inv d"
proof -
  obtain d where "DenyFloorRequest k info c = Ok (\<exists>r. requests c k = Some r \<and> \<not> IsGranted r, d)" "conf_inv d"
    "same_members c d" "c_presenterId d = c_presenterId c" "c_editorId d = c_editorId c"
    "requests d = (if \<exists>r. requests c k = Some r \<and> \<not> IsGranted r then (requests c)(k := None) else requests c)"
    using Deny_spec [OF assms, of k info] by blast
  then show ?thesis by (simp add: same_members_def)
qed

theorem deny_removes_a_pending_request_witness:
  "\<exists>d. DenyFloorRequest 1 [] ex_pending = Ok (True, d) \<and> requests d 1 = None"
  using deny_removes_a_pending_request [OF ex_pending_facts(1), of 1 "[]"] ex_pending_facts(3,4) by auto

text \<open>C34: Revoking works on granted requests only.  It removes the request and, when it held floor 1
  without floor 2 in a running conference, the request that holds floor 2; nothing else goes.  The
  listener's re-entrant revocation ends after this one further step.\<close>

theorem revoke_takes_the_editor_along:
  assumes "conf_inv c"
  shows "\<exists>d. RevokeFloorRequest k info c = Ok (\<exists>r. requests c k = Some r \<and> IsGranted r, d) \<and> conf_inv d \<and>
    requests d = (if \<exists>r. requests c k = Some r \<and> IsGranted r
       then (\<lambda>j. if j \<in> revoked_with c k then None else requests c j) else requests c)"
  using Revoke_spec [OF assms, of k info] revokes_inv [OF _ assms] revokes_requests [OF _ conf_invD(1) [OF assms]]
  by (cases "\<exists>r. requests c k = Some r \<and> IsGranted r") (auto; blast)+

theorem revoke_takes_the_editor_along_witness:
  "\<exists>d. RevokeFloorRequest 1 [] ex_granted = Ok (True, d) \<and> requests d 1 = None"
  using revoke_takes_the_editor_along [OF ex_granted_facts(1), of 1 "[]"] ex_granted_facts(3)
  by (auto simp: revoked_with_def)

section \<open>Messages\<close>

text \<open>A valid FloorRequest of the chair or of the current presenter is granted at once: the new
  request gets the next id, holds its floors, and the granted requests in the way are gone.\<close>

theorem request_of_the_chair_is_granted:
  assumes "conf_inv c" "\<not> c_ending c" "well_formed msg" "m_primitive msg = PFloorRequest"
    and "m_body msg = MsgFloorRequest req" "GetUser c (m_userId msg) = Some user" "bad_request req c = None"
    and "u_isChair user \<or> m_userId msg = c_chairId c \<or> m_userId msg = c_presenterId c"
  shows "\<exists>d. MessageReceived msg c = Ok d \<and> conf_inv d \<and>
    requests d = (\<lambda>j. if j = c_floorRequestCounter c then Some (SetStatus Granted (requested msg req c))
       else if j \<in> granted_over c (fr_floorIds (requested msg req c)) then None else requests c j)"
proof -
  have "MessageReceived msg c = ProcessFloorRequest msg req user c"
    using MessageReceived_dispatch [OF assms(2,3,6)] assms(4,5) by (simp add: dispatch_def)
  with FloorRequest_granted [OF assms(1,2,7), of msg user] assms(8) show ?thesis by (auto simp: may_have_def)
qed

theorem request_of_the_chair_is_granted_witness:
  "\<exists>d. MessageReceived (ex_msg 7) ex_conf = Ok d \<and>
     requests d 1 = Some (SetStatus Granted (requested (ex_msg 7) ex_body ex_conf))"
proof -
  have "c_floorRequestCounter ex_conf = 1" by (simp add: ex_conf_eq)
  then show ?thesis
    using request_of_the_chair_is_granted [OF reachable_inv [OF ex_conf_reachable] ex_users(4), of "ex_msg 7" ex_body ex_chair]
    by (auto simp: ex_users)
qed

text \<open>A valid FloorRequest of anybody else is denied: all requests, the users, the presenter
  and the editor are afterwards what they were.\<close>

theorem request_of_an_ordinary_user_is_denied:
  assumes "conf_inv c" "\<not> c_ending c" "well_formed msg" "m_primitive msg = PFloorRequest"
    and "m_body msg = MsgFloorRequest req" "GetUser c (m_userId msg) = Some user" "bad_request req c = None"
    and "\<not> u_isChair user" "m_userId msg \<noteq> c_chairId c" "m_userId msg \<noteq> c_presenterId c"
  shows "\<exists>d. MessageReceived msg c = Ok d \<and> requests d = requests c \<and> c_users d = c_users c \<and>
    c_presenterId d = c_presenterId c \<and> c_editorId d = c_editorId c"
proof -
  have "MessageReceived msg c = ProcessFloorRequest msg req user c"
    using MessageReceived_dispatch [OF assms(2,3,6)] assms(4,5) by (simp add: dispatch_def)
  with FloorRequest_denied [OF assms(1,7), of msg user] assms(8-10) show ?thesis by (auto simp: may_have_def)
qed

theorem request_of_an_ordinary_user_is_denied_witness:
  "\<exists>d. MessageReceived (ex_msg 8) ex_conf = Ok d \<and> requests d = requests ex_conf"
  using request_of_an_ordinary_user_is_denied [OF reachable_inv [OF ex_conf_reachable] ex_users(4), of "ex_msg 8" ex_body ex_user]
  by (auto simp: ex_users ex_user_def)

text \<open>A FloorRequest for a floor the conference does not have, or on behalf of somebody who is no
  user, creates no request: all it causes is one error message to the sender, when he is connected.\<close>

theorem invalid_request_is_answered_with_an_error:
  assumes "bad_request req c = Some e" "GetUser c (m_userId msg) = Some user"
  shows "\<exists>info. ProcessFloorRequest msg req user c = Ok (case u_transport user of None \<Rightarrow> c
     | Some ws \<Rightarrow> c\<lparr>c_out := c_out c @ [WsSend ws (Stringify (BFCPMsgError_new_info msg e info))]\<rparr>)"
proof -
  have send: "ReplyError msg e info c = Ok (case u_transport user of None \<Rightarrow> c
     | Some ws \<Rightarrow> c\<lparr>c_out := c_out c @ [WsSend ws (Stringify (BFCPMsgError_new_info msg e info))]\<rparr>)" for info
    using assms(2)
    by (simp add: ReplyError_def SendMessage_def user_SendMessage_def BFCPMsgError_new_info_def
        BFCPMessage_new_def emit_def split: option.split)
  have "\<exists>info. ProcessFloorRequest msg req user c = ReplyError msg e info c"
    unfolding ProcessFloorRequest_eq assms(1) by (cases e) auto
  then show ?thesis by (auto simp: send)
qed

theorem invalid_request_is_answered_with_an_error_witness:
  "\<exists>info. ProcessFloorRequest (ex_msg 8) (ex_body\<lparr>mfr_floorIds := [BFCPAttrFloorId 9]\<rparr>) ex_user ex_conf =
     Ok (ex_conf\<lparr>c_out := c_out ex_conf @ [WsSend 3 (Stringify (BFCPMsgError_new_info (ex_msg 8) InvalidFloorId info))]\<rparr>)"
proof -
  have "bad_request (ex_body\<lparr>mfr_floorIds := [BFCPAttrFloorId 9]\<rparr>) ex_conf = Some InvalidFloorId"
    by (simp add: bad_request_def ex_conf_eq)
  moreover have "u_transport ex_user = Some 3" by (simp add: ex_user_def)
  ultimately show ?thesis
    using invalid_request_is_answered_with_an_error
      [of "ex_body\<lparr>mfr_floorIds := [BFCPAttrFloorId 9]\<rparr>" ex_conf InvalidFloorId "ex_msg 8" ex_user]
    by (simp add: ex_users)
qed



text \<open>A FloorQuery for existing floors subscribes the sender to exactly the queried floors, each
  once, and changes nothing else but the output.\<close>

theorem query_subscribes_to_exactly_the_floors:
  assumes "conf_inv c" "GetUser c k = Some user" "floorId_value ` set (mfq_floorIds req) \<subseteq> set (c_floors c)"
  shows "\<exists>d u. ProcessFloorQuery msg req user c = Ok d \<and> GetUser d k = Some u \<and>
    set (u_queriedFloorIds u) = floorId_value ` set (mfq_floorIds req) \<and> distinct (u_queriedFloorIds u) \<and>
    u_transport u = u_transport user \<and> u_isChair u = u_isChair user \<and>
    (\<forall>j. j \<noteq> k \<longrightarrow> GetUser d j = GetUser c j) \<and> requests d = requests c"
proof -
  obtain d where d: "ProcessFloorQuery msg req user c = Ok d"
    "only_output (upd_user k (\<lambda>_. subscribed req user) c) d"
    using ProcessFloorQuery_spec [OF assms] by blast
  have "GetUser d = GetUser (upd_user k (\<lambda>_. subscribed req user) c)"
    using only_output_fields [OF d(2)] by (intro GetUser_same) simp
  moreover have "requests d = requests c" using requests_only_output [OF d(2)] by simp
  ultimately show ?thesis using d(1) assms(2) by (auto simp: GetUser_upd_user subscribed_sel)
qed

theorem query_subscribes_to_exactly_the_floors_witness:
  "\<exists>d u. ProcessFloorQuery (ex_msg 8) \<lparr>mfq_floorIds = [BFCPAttrFloorId 2, BFCPAttrFloorId 2]\<rparr> ex_user ex_conf = Ok d \<and>
     GetUser d 8 = Some u \<and> set (u_queriedFloorIds u) = {2}"
  using query_subscribes_to_exactly_the_floors [OF reachable_inv [OF ex_conf_reachable] ex_users(2),
      of "\<lparr>mfq_floorIds = [BFCPAttrFloorId 2, BFCPAttrFloorId 2]\<rparr>" "ex_msg 8"]
  by (auto simp: ex_conf_eq)

text \<open>A message whose sender is not a user of the conference is dropped without any effect: the
  error the server builds for it is sent through the same lookup that has just failed, so it reaches nobody.\<close>

theorem message_of_a_stranger_is_dropped:
  assumes "GetUser c (m_userId msg) = None" "msg_Dump msg = Ok ()"
  shows "MessageReceived msg c = Ok c"
  using assms by (simp add: MessageReceived_def ReplyError_def SendMessage_def BFCPMsgError_new_info_def BFCPMessage_new_def)

theorem message_of_a_stranger_is_dropped_witness: "MessageReceived (ex_msg 9) ex_conf = Ok ex_conf"
  by (rule message_of_a_stranger_is_dropped) (simp_all add: ex_users)

section \<open>Users, transports and the end\<close>

text \<open>C36: Removing a user takes away every request made on his behalf, and of the requests of the
  others at most the one for floor 2, when the user held floor 1; the other users stay as they are.\<close>

theorem removed_user_keeps_nothing:
  assumes "conf_inv c" "\<not> c_ending c" "GetUser c k = Some u"
  shows "\<exists>d. RemoveUser k c = Ok (True, d) \<and> conf_inv d \<and> GetUser d k = None \<and>
    (\<forall>j. j \<noteq> k \<longrightarrow> GetUser d j = GetUser c j) \<and>
    (\<forall>j r. requests d j = Some r \<longrightarrow> requests c j = Some r \<and> fr_beneficiaryId r \<noteq> k) \<and>
    (\<forall>j r. requests c j = Some r \<and> requests d j = None \<and> fr_beneficiaryId r \<noteq> k \<longrightarrow>
       holds c j 2 \<and> (\<exists>i s. requests c i = Some s \<and> fr_beneficiaryId s = k \<and> holds c i 1))"
proof -
  obtain d c1 d0 where d: "RemoveUser k c = Ok (True, d)" "conf_inv d" "c_users d = map_erase k (c_users c)"
    "requests c1 = requests c" "dropped (requests_of c k) c1 d0" "requests d = requests d0"
    using RemoveUser_spec [OF assms] by blast
  have h: "holds c1 = holds c" by (simp add: holds_def d(4) fun_eq_iff)
  have "GetUser d k = None" "\<forall>j. j \<noteq> k \<longrightarrow> GetUser d j = GetUser c j"
    by (simp_all add: GetUser_def d(3) map_find_erase)
  moreover have "requests c j = Some r \<and> fr_beneficiaryId r \<noteq> k" if "requests d j = Some r" for j r
    using that droppedD(3,4) [OF d(5), of j] by (cases "j \<in> requests_of c k") (auto simp: d(4,6) requests_of_def)
  moreover have "holds c j 2 \<and> (\<exists>i s. requests c i = Some s \<and> fr_beneficiaryId s = k \<and> holds c i 1)"
    if "requests c j = Some r" "requests d j = None" "fr_beneficiaryId r \<noteq> k" for j r
    using that droppedD(4) [OF d(5), of j] by (auto simp: d(4,6) h requests_of_def)
  ultimately show ?thesis using d(1,2) by blast
qed

theorem removed_user_keeps_nothing_witness:
  "\<exists>d. RemoveUser 8 ex_conf = Ok (True, d) \<and> GetUser d 8 = None \<and> GetUser d 7 = Some ex_chair"
  using removed_user_keeps_nothing [OF reachable_inv [OF ex_conf_reachable] ex_users(4,2)]
  by (metis ex_users(1) numeral_eq_iff num.distinct(1) semiring_norm(87,89,90))

text \<open>\<open>SetChair\<close> leaves exactly one chair, the user it names; it touches nothing else of any user.\<close>

theorem set_chair_makes_one_chair:
  assumes "\<not> c_ending c" "GetUser c k = Some u"
  shows "fst (SetChair k c) \<and>
    (\<forall>j v. GetUser (snd (SetChair k c)) j = Some v \<longrightarrow> u_isChair v = (j = k)) \<and>
    (\<forall>j. map_option u_transport (GetUser (snd (SetChair k c)) j) = map_option u_transport (GetUser c j)) \<and>
    requests (snd (SetChair k c)) = requests c"
proof -
  have "SetChair k c = (True, only_chair k c)" using assms by (simp add: SetChair_eq HasUser_def)
  moreover have "requests (only_chair k c) = requests c"
    by (rule requests_members) (simp_all add: only_chair_def)
  ultimately show ?thesis
    by (auto simp: GetUser_only_chair option.map_comp comp_def user_SetChair_def user_UnsetChair_def
        split: if_splits intro!: option.map_cong dest: arg_cong [of _ _ u_isChair])
qed

theorem set_chair_makes_one_chair_witness:
  "\<exists>u v. GetUser (snd (SetChair 8 ex_conf)) 8 = Some u \<and> u_isChair u \<and>
     GetUser (snd (SetChair 8 ex_conf)) 7 = Some v \<and> \<not> u_isChair v"
proof -
  note s = set_chair_makes_one_chair [OF ex_users(4,2)]
  have "map_option u_transport (GetUser (snd (SetChair 8 ex_conf)) j) = map_option u_transport (GetUser ex_conf j)" for j
    using s by blast
  from this [of 8] this [of 7] obtain u v where
    "GetUser (snd (SetChair 8 ex_conf)) 8 = Some u" "GetUser (snd (SetChair 8 ex_conf)) 7 = Some v"
    by (auto simp: ex_users)
  with s show ?thesis by fastforce
qed

text \<open>When a user's connection is lost, and the server has not closed it itself, he keeps no
  request, no subscription and no transport, and in a running conference stays a user.\<close>

theorem lost_connection_ends_the_user_requests:
  assumes "conf_inv c" "\<not> c_ending c" "GetUser c k = Some u"
  shows "\<exists>d v. UserDisconnected k False c = Ok d \<and> conf_inv d \<and> GetUser d k = Some v \<and>
    u_transport v = None \<and> u_queriedFloorIds v = [] \<and>
    (\<forall>j r. requests d j = Some r \<longrightarrow> requests c j = Some r \<and> fr_beneficiaryId r \<noteq> k)"
proof -
  have id: "u_userId u = k" using users_okD(1) [OF conf_invD(6) [OF assms(1)] assms(3)] .
  define c1 where "c1 = upd_user k user_ResetQueriedFloorIds (upd_user k user_UnsetTransport c)"
  have inv1: "conf_inv c1" unfolding c1_def by (rule conf_inv_reset [OF conf_inv_unset [OF assms(1)]])
  obtain d where d: "RevokeUserFloorRequests k c1 = Ok d" "dropped (requests_of c1 k) c1 d"
    using RevokeUserFloorRequests_spec [OF inv1] by blast
  have "c_users d = c_users c1" using droppedD(2) [OF d(2)] by (simp add: same_members_def)
  from GetUser_same [OF this] have "GetUser d k = Some (user_ResetQueriedFloorIds (user_UnsetTransport u))"
    using assms(3) by (simp add: c1_def GetUser_upd_user)
  moreover have "requests c j = Some r \<and> fr_beneficiaryId r \<noteq> k" if "requests d j = Some r" for j r
    using that droppedD(3,4) [OF d(2), of j]
    by (cases "j \<in> requests_of c1 k") (auto simp: requests_of_def c1_def)
  moreover have "UserDisconnected k False c = Ok d"
    using assms(2,3) id d(1) by (simp add: UserDisconnected_def Let_def c1_def [symmetric])
  ultimately show ?thesis using droppedD(1) [OF d(2)] by (auto simp: user_ResetQueriedFloorIds_def)
qed

theorem lost_connection_ends_the_user_requests_witness:
  "\<exists>d v. UserDisconnected 8 False ex_conf = Ok d \<and> GetUser d 8 = Some v \<and> u_transport v = None"
  using lost_connection_ends_the_user_requests [OF reachable_inv [OF ex_conf_reachable] ex_users(4,2)] by blast

text \<open>C35: The end of the conference ends: the loop that takes the first request again and again empties
  the map of requests, no user is left, and every connected user has been sent a close frame with code 4000.\<close>

theorem end_empties_the_conference:
  assumes "reachable c" "\<not> c_ending c"
  shows "\<exists>d. End c = Ok d \<and> c_ending d \<and> c_users d = [] \<and> c_floorRequests d = [] \<and>
    (\<forall>u ws. u \<in> snd ` set (c_users c) \<and> u_transport u = Some ws \<longrightarrow>
       WsClose ws 4000 (L ''the BFCP conference has ended'') \<in> set (c_out d))"
  using End_spec [OF reachable_inv [OF assms(1)] assms(2)] by (fastforce simp: told_to_leave_def split: option.splits)

theorem end_empties_the_conference_witness:
  "\<exists>d. End ex_conf = Ok d \<and> c_users d = [] \<and>
     WsClose 3 4000 (L ''the BFCP conference has ended'') \<in> set (c_out d)"
proof -
  have "ex_user \<in> snd ` set (c_users ex_conf)" "u_transport ex_user = Some 3"
    by (simp_all add: ex_conf_eq ex_user_def)
  with end_empties_the_conference [OF ex_conf_reachable ex_users(4)] show ?thesis by blast
qed

text \<open>A revoked floor request is never freed.  It is erased from the map before the code asks the map
  whether the object is still there to delete, so every revocation leaves the object in memory for good.\<close>

theorem revoked_request_is_leaked:
  assumes "conf_inv c" "map_find (c_floorRequests c) k = Some p" "c_heap c p = Some r" "IsGranted r"
  shows "\<exists>d r'. RevokeFloorRequest k info c = Ok (True, d) \<and> map_find (c_floorRequests d) k = None \<and>
    c_heap d p = Some r' \<and> \<not> IsGranted r'"
proof -
  have r: "requests c k = Some r" using assms(2,3) by (simp add: requests_def)
  obtain d where d: "RevokeFloorRequest k info c = Ok (True, d)" "revokes (revoked_with c k) c d"
    using Revoke_spec [OF assms(1), of k info] r assms(4) by auto
  have "k \<in> revoked_with c k" by (simp add: revoked_with_def)
  with d revokes_heap [OF d(2) conf_invD(1) [OF assms(1)] assms(2,3)] revokes_find [OF d(2), of k]
  show ?thesis by auto
qed

theorem revoked_request_is_leaked_witness:
  "\<exists>d r' p. RevokeFloorRequest 1 [] ex_granted = Ok (True, d) \<and> map_find (c_floorRequests d) 1 = None \<and>
     c_heap d p = Some r'"
proof -
  obtain p where p: "map_find (c_floorRequests ex_granted) 1 = Some p"
    "c_heap ex_granted p = Some (SetStatus Granted ex_request)"
    using ex_granted_facts(3) by (rule requests_SomeD)
  show ?thesis using revoked_request_is_leaked [OF ex_granted_facts(1) p, of "[]"] by auto
qed

end
