(* ===== verification/FloatingPoint.thy ===== *)
theory FloatingPoint
  imports Complex_Main Prelude
begin

text \<open>
  The floating types the parsers compute with.  A value is a rational, an infinity or not a number;
  \<open>fp_round\<close> rounds a rational to the nearest value with \<open>p\<close> bits of mantissa and a bounded exponent,
  ties to even.  \<open>long double\<close> is the 80-bit format of the x86 (64 bits, exponents up to 16383),
  \<open>double\<close> has 53 bits and exponents up to 1023.  The sign of a zero is not kept: nothing in the
  modelled code looks at it.
\<close>

datatype fp = Fin rat | Infinite bool | NotANumber

fun bit_count :: "nat \<Rightarrow> nat" where
  "bit_count n = (if n = 0 then 0 else Suc (bit_count (n div 2)))"

declare bit_count.simps [simp del]

lemma bit_count_less: "n < 2 ^ k \<Longrightarrow> bit_count n \<le> k"
proof (induction k arbitrary: n)
  case (Suc k)
  show ?case
  proof (cases "n = 0")
    case False
    have "n div 2 < 2 ^ k" using Suc.prems by auto
    with Suc.IH False show ?thesis by (subst bit_count.simps) auto
  qed (simp add: bit_count.simps)
qed (simp add: bit_count.simps)

text \<open>The power of two below a positive rational, and powers of two with a negative exponent.\<close>

definition ilog2 :: "rat \<Rightarrow> int" where
  "ilog2 q = (if 1 \<le> q then int (bit_count (nat \<lfloor>q\<rfloor>)) - 1
              else - int (bit_count (nat (\<lceil>1 / q\<rceil> - 1))))"

definition pow2 :: "int \<Rightarrow> rat" where
  "pow2 e = (if 0 \<le> e then 2 ^ nat e else 1 / 2 ^ nat (- e))"

definition round_even :: "rat \<Rightarrow> int" where
  "round_even q =
     (let f = \<lfloor>q\<rfloor>; d = q - of_int f
      in if d < 1 / 2 then f else if d > 1 / 2 then f + 1 else if even f then f else f + 1)"

definition fp_round :: "int \<Rightarrow> int \<Rightarrow> int \<Rightarrow> rat \<Rightarrow> fp" where
  "fp_round p emin emax q =
     (if q = 0 then Fin 0
      else
        let a = \<bar>q\<bar>; e = max (ilog2 a) emin - (p - 1); r = of_int (round_even (a / pow2 e)) * pow2 e
        in if pow2 (emax + 1) \<le> r then Infinite (q < 0) else Fin (if q < 0 then - r else r))"

definition long_double :: "rat \<Rightarrow> fp" where
  "long_double = fp_round 64 (- 16382) 16383"

definition double :: "rat \<Rightarrow> fp" where
  "double = fp_round 53 (- 1022) 1023"

fun fp_is_zero :: "fp \<Rightarrow> bool" where
  "fp_is_zero (Fin q) = (q = 0)"
| "fp_is_zero _ = False"

text \<open>\<open>(int)x\<close>: towards zero; outside the range of the type the behaviour is undefined.\<close>

fun fp_to_integer :: "nat \<Rightarrow> fp \<Rightarrow> int res" where
  "fp_to_integer w (Fin q) =
     (let i = (if 0 \<le> q then \<lfloor>q\<rfloor> else \<lceil>q\<rceil>)
      in if - (2 ^ (w - 1)) \<le> i \<and> i < 2 ^ (w - 1) then Ok i else Fault BadConversion)"
| "fp_to_integer w (Infinite s) = Fault BadConversion"
| "fp_to_integer w NotANumber = Fault BadConversion"

lemma round_even_int [simp]: "round_even (of_int i) = i"
  by (simp add: round_even_def)

lemma ilog2_less:
  assumes "0 < q" "q < 2 ^ k"
  shows "ilog2 q < int k + 1"
proof (cases "1 \<le> q")
  case True
  have "\<lfloor>q\<rfloor> < 2 ^ k" using assms(2) by (simp add: floor_less_iff)
  then have "nat \<lfloor>q\<rfloor> < 2 ^ k" by (simp add: nat_less_iff)
  from bit_count_less [OF this] True show ?thesis by (simp add: ilog2_def)
qed (simp add: ilog2_def)

text \<open>Integers that fit the mantissa are exact.\<close>

lemma pow2_pos: "0 < pow2 e"
  by (simp add: pow2_def)

lemma pow2_mono_nat: "int k \<le> e \<Longrightarrow> 2 ^ k \<le> pow2 e"
  by (auto simp: pow2_def intro!: power_increasing)

lemma fp_round_int:
  assumes i: "\<bar>i\<bar> < 2 ^ k" and k: "int k < p" "int k \<le> emax + 1" "emin \<le> 0"
  shows "fp_round p emin emax (of_int i) = Fin (of_int i)"
proof (cases "i = 0")
  case False
  define a where "a = \<bar>of_int i :: rat\<bar>"
  define e where "e = max (ilog2 a) emin - (p - 1)"
  have a: "a = of_int \<bar>i\<bar>" "0 < a" using False by (simp_all add: a_def)
  have less: "a < 2 ^ k" using i unfolding a(1) by (metis of_int_less_iff of_int_numeral of_int_power)
  from ilog2_less [OF a(2) this] k have e: "e \<le> 0" by (simp add: e_def)
  have p: "a / pow2 e = of_int (\<bar>i\<bar> * 2 ^ nat (- e))" using e by (auto simp: pow2_def a(1))
  have "pow2 e \<noteq> 0" using pow2_pos [of e] by simp
  then have r: "of_int (round_even (a / pow2 e)) * pow2 e = a"
    unfolding p round_even_int using p [symmetric] by simp
  have "a < pow2 (emax + 1)" using less pow2_mono_nat [OF k(2)] by simp
  with r False show ?thesis
    by (simp add: fp_round_def Let_def e_def [symmetric] a_def [symmetric] del: of_int_abs)
      (auto simp: a_def)
qed (simp add: fp_round_def)

lemma long_double_int: "\<bar>i\<bar> < 2 ^ 32 \<Longrightarrow> long_double (of_int i) = Fin (of_int i)"
  unfolding long_double_def by (rule fp_round_int [where k = 32]) simp_all

lemma fp_to_int32:
  "int32 i \<Longrightarrow> fp_to_integer 32 (Fin (of_int i)) = Ok i"
  by (auto simp: int32_def Let_def)

end
