(* ===== verification/StringParser.thy ===== *)
theory StringParser
  imports FloatingPoint
begin

text \<open>
  The recursive descent helpers of \<open>src/mcu/include/stringparser.h\<close>: \<open>BaseStringParser\<close> and the
  classes \<open>StringParser\<close> and \<open>WideStringParser\<close> derived from it.

  A parser holds the text, the position of its cursor \<open>c - buffer\<close>, the last value and the
  last number.  The text is followed by a terminating zero, which may be read; a read beyond it is
  the fault \<open>OutOfBounds\<close>.  \<open>IsEnded\<close> compares for equality, so a cursor that has been moved past
  the end is not \<open>IsEnded\<close>, and the next check reads out of bounds.  The constructors keep a pointer
  into a copy of the argument: the model takes the implementation of \<open>std::string\<close> in which
  copies share their buffer, as the code does.

  The conversions look at \<open>errno\<close>, which nothing clears: \<open>sp_einval\<close> and \<open>sp_erange\<close> say what an earlier call
  of the thread has left there.
\<close>

record parser =
  sp_buffer :: wstring
  sp_pos :: nat
  sp_value :: wstring
  sp_integer :: int
  sp_number :: fp
  sp_einval :: bool
  sp_erange :: bool

definition parser_new :: "bool \<Rightarrow> bool \<Rightarrow> wstring \<Rightarrow> parser" where
  "parser_new einval erange s =
     \<lparr>sp_buffer = s, sp_pos = 0, sp_value = [], sp_integer = 0, sp_number = Fin 0,
      sp_einval = einval, sp_erange = erange\<rparr>"

definition sp_size :: "parser \<Rightarrow> nat" where
  "sp_size p = length (sp_buffer p)"

text \<open>\<open>*(buffer + i)\<close>.\<close>

definition char_at :: "parser \<Rightarrow> nat \<Rightarrow> int res" where
  "char_at p i =
     (if i < sp_size p then Ok (sp_buffer p ! i) else if i = sp_size p then Ok 0 else Fault OutOfBounds)"

definition Get :: "parser \<Rightarrow> int res" where
  "Get p = char_at p (sp_pos p)"

definition Mark :: "parser \<Rightarrow> nat" where
  "Mark p = sp_pos p"

definition Reset :: "nat \<Rightarrow> parser \<Rightarrow> parser" where
  "Reset pos p = p\<lparr>sp_pos := pos\<rparr>"

definition IsEnded :: "parser \<Rightarrow> bool" where
  "IsEnded p = (sp_pos p = sp_size p)"

text \<open>\<open>Left\<close> is a DWORD: past the end it wraps.\<close>

definition Left :: "parser \<Rightarrow> nat" where
  "Left p = nat ((int (sp_size p) - int (sp_pos p)) mod 2 ^ 32)"

definition GetLeft :: "parser \<Rightarrow> wstring" where
  "GetLeft p = drop (sp_pos p) (sp_buffer p)"

definition Next :: "parser \<Rightarrow> parser" where
  "Next p = (if IsEnded p then p else p\<lparr>sp_pos := sp_pos p + 1\<rparr>)"

definition Move :: "nat \<Rightarrow> parser \<Rightarrow> parser" where
  "Move n p = p\<lparr>sp_pos := sp_pos p + n\<rparr>"

text \<open>A check of the current character: false at the end.\<close>

definition check :: "(int \<Rightarrow> bool) \<Rightarrow> parser \<Rightarrow> bool res" where
  "check P p = (if IsEnded p then Ok False else bindR (Get p) (\<lambda>c. Ok (P c)))"

definition CheckAlpha :: "parser \<Rightarrow> bool res" where
  "CheckAlpha = check (\<lambda>c. 65 \<le> c \<and> c \<le> 90 \<or> 97 \<le> c \<and> c \<le> 122)"

definition CheckDigit :: "parser \<Rightarrow> bool res" where
  "CheckDigit = check (\<lambda>c. 48 \<le> c \<and> c \<le> 57)"

definition CheckAlphaNum :: "parser \<Rightarrow> bool res" where
  "CheckAlphaNum p =
     (if IsEnded p then Ok False else bindR (CheckAlpha p) (\<lambda>b. if b then Ok True else CheckDigit p))"

definition CheckChar :: "int \<Rightarrow> parser \<Rightarrow> bool res" where
  "CheckChar x = check (\<lambda>c. c = x)"

definition CheckCharSet :: "wstring \<Rightarrow> parser \<Rightarrow> bool res" where
  "CheckCharSet str = check (\<lambda>c. c \<in> set str)"

definition CheckMark :: "parser \<Rightarrow> bool res" where
  "CheckMark p = (if IsEnded p then Ok False else CheckCharSet [] p)"

definition ParseWord :: "parser \<Rightarrow> bool" where
  "ParseWord p = (\<not> IsEnded p)"

definition ParseChar :: "int \<Rightarrow> parser \<Rightarrow> (bool \<times> parser) res" where
  "ParseChar x p = bindR (CheckChar x p) (\<lambda>b. Ok (if b then (True, Next p) else (False, p)))"

text \<open>
  The loops \<open>while (!IsEnded() && cond) Next()\<close>.  Past the end of the text the condition reads out of
  bounds, so the loop is over in every case.
\<close>

function skip_while :: "(parser \<Rightarrow> bool res) \<Rightarrow> parser \<Rightarrow> parser res" where
  "skip_while cond p =
     (if IsEnded p then Ok p
      else if sp_size p < sp_pos p then Fault OutOfBounds
      else bindR (cond p) (\<lambda>b. if b then skip_while cond (Next p) else Ok p))"
  by pat_completeness auto
termination
  by (relation "measure (\<lambda>(cond, p). sp_size p - sp_pos p)") (auto simp: Next_def IsEnded_def sp_size_def)

declare skip_while.simps [simp del]

definition SkipSpaces :: "parser \<Rightarrow> parser res" where
  "SkipSpaces = skip_while (CheckChar 32)"

definition SkipWSpaces :: "parser \<Rightarrow> parser res" where
  "SkipWSpaces = skip_while (CheckCharSet (L '' '' @ [9]))"

definition SkipCharset :: "wstring \<Rightarrow> parser \<Rightarrow> parser res" where
  "SkipCharset str = skip_while (CheckCharSet str)"

definition set_value :: "nat \<Rightarrow> parser \<Rightarrow> parser" where
  "set_value start p = p\<lparr>sp_value := take (sp_pos p - start) (drop start (sp_buffer p))\<rparr>"

definition token :: "(parser \<Rightarrow> bool res) \<Rightarrow> parser \<Rightarrow> (bool \<times> parser) res" where
  "token cond p =
     (if IsEnded p then Ok (False, p)
      else bindR (skip_while cond p) (\<lambda>q.
        Ok (if sp_pos q = sp_pos p then (False, q) else (True, set_value (sp_pos p) q))))"

definition ParseUntilCharset :: "wstring \<Rightarrow> parser \<Rightarrow> (bool \<times> parser) res" where
  "ParseUntilCharset str = token (\<lambda>p. bindR (CheckCharSet str p) (\<lambda>b. Ok (\<not> b)))"

definition token_separators :: wstring where
  "token_separators = L ''()<>@,;:'' @ [92, 34] @ L ''/[]?={}''"

text \<open>\<open>StringParser::ParseToken\<close>; the wide version has no upper bound on the characters.\<close>

definition ParseToken :: "parser \<Rightarrow> (bool \<times> parser) res" where
  "ParseToken = token (\<lambda>p. bindR (Get p) (\<lambda>c.
     if 32 < c \<and> c < 127 then bindR (CheckCharSet token_separators p) (\<lambda>b. Ok (\<not> b)) else Ok False))"

definition wide_ParseToken :: "parser \<Rightarrow> (bool \<times> parser) res" where
  "wide_ParseToken = token (\<lambda>p. bindR (Get p) (\<lambda>c.
     if 32 < c then bindR (CheckCharSet token_separators p) (\<lambda>b. Ok (\<not> b)) else Ok False))"

text \<open>The text of a quoted string: a backslash only protects a quote; a control character stops it.\<close>

function quoted_text :: "parser \<Rightarrow> parser res" where
  "quoted_text p =
     (if IsEnded p then Ok p
      else if sp_size p < sp_pos p then Fault OutOfBounds
      else bindR (Get p) (\<lambda>c.
        if c = 34 then Ok p
        else bindR (if 1 < Left p \<and> c = 92 then char_at p (sp_pos p + 1) else Ok 0) (\<lambda>d.
          if d = 34 then quoted_text (Move 2 p)
          else if 31 < c then quoted_text (Next p)
          else Ok p)))"
  by pat_completeness auto
termination
  by (relation "measure (\<lambda>p. sp_size p + 1 - sp_pos p)") (auto simp: Next_def Move_def IsEnded_def sp_size_def)

declare quoted_text.simps [simp del]

definition ParseQuotedString :: "parser \<Rightarrow> (bool \<times> parser) res" where
  "ParseQuotedString p =
     bindR (ParseChar 34 p) (\<lambda>(b, q).
     if \<not> b then Ok (False, q)
     else bindR (quoted_text q) (\<lambda>e.
       bindR (ParseChar 34 e) (\<lambda>(b, r).
       if \<not> b then Ok (False, Reset (sp_pos p) r)
       else Ok (True, r\<lparr>sp_value := take (sp_pos e - sp_pos q) (drop (sp_pos q) (sp_buffer r))\<rparr>))))"

text \<open>A line ends with CR LF; without one the parser stays where it is.\<close>

function line_end :: "parser \<Rightarrow> parser res" where
  "line_end p =
     (if Left p \<le> 1 then Ok p
      else if sp_size p \<le> sp_pos p then Fault OutOfBounds
      else bindR (Get p) (\<lambda>c. bindR (char_at p (sp_pos p + 1)) (\<lambda>d.
        if c \<noteq> 13 \<or> d \<noteq> 10 then line_end (Next p) else Ok p)))"
  by pat_completeness auto
termination
  by (relation "measure (\<lambda>p. sp_size p - sp_pos p)") (auto simp: Next_def IsEnded_def sp_size_def)

declare line_end.simps [simp del]

definition ParseLine :: "parser \<Rightarrow> (bool \<times> parser) res" where
  "ParseLine p =
     (if IsEnded p then Ok (False, p)
      else bindR (line_end p) (\<lambda>q.
        if Left q = 1 then Ok (False, p)
        else Ok (True, Move 2 (set_value (sp_pos p) q))))"

section \<open>Words and numbers\<close>

definition matches :: "wstring \<Rightarrow> parser \<Rightarrow> bool res" where
  "matches str p =
     (if Left p < length str then Ok False
      else if sp_size p < sp_pos p then Fault OutOfBounds
      else Ok (take (length str) (GetLeft p) = str))"

definition CheckString :: "wstring \<Rightarrow> parser \<Rightarrow> bool res" where
  "CheckString str p = matches str p"

definition MatchString :: "wstring \<Rightarrow> parser \<Rightarrow> (bool \<times> parser) res" where
  "MatchString str p =
     bindR (matches str p) (\<lambda>b.
     Ok (if b then (True, set_value (sp_pos p) (Move (length str) p)) else (False, p)))"

definition CheckInteger :: "parser \<Rightarrow> bool res" where
  "CheckInteger p =
     bindR (CheckChar 45 p) (\<lambda>b. if b then Ok True else
     bindR (CheckChar 43 p) (\<lambda>b. if b then Ok True else CheckDigit p))"

definition is_space :: "int \<Rightarrow> bool" where
  "is_space c \<longleftrightarrow> c = 32 \<or> 9 \<le> c \<and> c \<le> 13"

definition is_digit :: "int \<Rightarrow> bool" where
  "is_digit c \<longleftrightarrow> 48 \<le> c \<and> c \<le> 57"

fun digits_value :: "wstring \<Rightarrow> int \<Rightarrow> int" where
  "digits_value [] acc = acc"
| "digits_value (c # cs) acc = digits_value cs (10 * acc + (c - 48))"

definition sign_length :: "wstring \<Rightarrow> nat" where
  "sign_length s = (case s of [] \<Rightarrow> 0 | c # _ \<Rightarrow> if c = 43 \<or> c = 45 then 1 else 0)"

definition is_negative :: "wstring \<Rightarrow> bool" where
  "is_negative s = (case s of [] \<Rightarrow> False | c # _ \<Rightarrow> c = 45)"

text \<open>
  \<open>strtol(s, &end, 10)\<close>: blanks, a sign, digits; the value is cut off at the bounds of a 64-bit
  \<open>long\<close>.  The result has the number of characters taken, 0 when there is no number.
\<close>

definition strtol :: "wstring \<Rightarrow> int \<times> nat" where
  "strtol s =
     (let blanks = length (takeWhile is_space s); t = drop blanks s; sgn = sign_length t;
          ds = takeWhile is_digit (drop sgn t); v = (if is_negative t then - 1 else 1) * digits_value ds 0
      in if ds = [] then (0, 0)
         else (max (- (2 ^ 63)) (min (2 ^ 63 - 1) v), blanks + sgn + length ds))"

definition ParseInteger :: "parser \<Rightarrow> (bool \<times> parser) res" where
  "ParseInteger p =
     bindR (CheckInteger p) (\<lambda>b.
     if \<not> b then Ok (False, p)
     else
       let (v, n) = strtol (GetLeft p); q = p\<lparr>sp_integer := v\<rparr>
       in if v = 0 \<and> (sp_einval p \<or> sp_erange p \<or> n = 0) then Ok (False, q)
          else Ok (True, Move n q))"

section \<open>Progress\<close>

text \<open>
  No helper touches the text or \<open>errno\<close>, none moves the cursor back below where it started, and
  none runs out of fuel: the loops end by themselves.
\<close>

definition ahead :: "parser \<Rightarrow> parser \<Rightarrow> bool" where
  "ahead p q \<longleftrightarrow> sp_buffer q = sp_buffer p \<and> sp_pos p \<le> sp_pos q \<and> sp_einval q = sp_einval p \<and>
     sp_erange q = sp_erange p"

lemma ahead_refl [simp]: "ahead p p"
  by (simp add: ahead_def)

lemma ahead_trans: "ahead p q \<Longrightarrow> ahead q r \<Longrightarrow> ahead p r"
  by (auto simp: ahead_def)

lemma ahead_Next [simp]: "ahead p (Next p)"
  by (simp add: ahead_def Next_def)

lemma ahead_Move [simp]: "ahead p (Move n p)"
  by (simp add: ahead_def Move_def)

lemma ahead_set_value [simp]: "ahead p (set_value n q) = ahead p q"
  by (simp add: ahead_def set_value_def)

lemma ahead_Reset: "ahead p q \<Longrightarrow> sp_pos p \<le> n \<Longrightarrow> ahead p (Reset n q)"
  by (simp add: ahead_def Reset_def)

text \<open>A fault that is not a matter of fuel.\<close>

definition fuelled :: "'a res \<Rightarrow> bool" where
  "fuelled m \<longleftrightarrow> m \<noteq> Fault OutOfFuel"

lemma fuelled_Ok [simp]: "fuelled (Ok x)"
  by (simp add: fuelled_def)

lemma fuelled_Fault [simp]: "fuelled (Fault e) \<longleftrightarrow> e \<noteq> OutOfFuel"
  by (simp add: fuelled_def)

lemma fuelled_bindR [intro!]: "fuelled m \<Longrightarrow> (\<And>x. m = Ok x \<Longrightarrow> fuelled (f x)) \<Longrightarrow> fuelled (bindR m f)"
  by (cases m) (auto simp: fuelled_def)

lemma fuelled_char_at [simp]: "fuelled (char_at p i)"
  by (simp add: char_at_def)

lemma fuelled_Get [simp]: "fuelled (Get p)"
  by (simp add: Get_def)

lemma fuelled_check [simp]: "fuelled (check P p)"
  by (auto simp: check_def)

lemma fuelled_checks [simp]:
  "fuelled (CheckChar x p)" "fuelled (CheckCharSet s p)" "fuelled (CheckDigit p)"
  by (simp_all add: CheckChar_def CheckCharSet_def CheckDigit_def)

lemma fuelled_ParseChar [simp]: "fuelled (ParseChar x p)"
  by (auto simp: ParseChar_def)

lemma fuelled_matches [simp]: "fuelled (matches s p)"
  by (simp add: matches_def)

lemma skip_while_ahead: "skip_while cond p = Ok q \<Longrightarrow> ahead p q"
proof (induction cond p rule: skip_while.induct)
  case (1 cond p)
  from "1.prems" show ?case
    by (subst (asm) skip_while.simps)
      (auto split: if_splits dest!: "1.IH" intro: ahead_trans [OF ahead_Next])
qed

lemma fuelled_skip_while: "(\<And>q. fuelled (cond q)) \<Longrightarrow> fuelled (skip_while cond p)"
proof (induction cond p rule: skip_while.induct)
  case (1 cond p)
  then show ?case by (subst skip_while.simps) auto
qed

text \<open>Only a cursor inside the text can be read successfully.\<close>

lemma check_True: "check P p = Ok True \<Longrightarrow> sp_pos p < sp_size p"
  by (auto simp: check_def Get_def char_at_def IsEnded_def split: if_splits)

lemma check_inside: "check P p = Ok b \<Longrightarrow> sp_pos p \<le> sp_size p"
  by (auto simp: check_def Get_def char_at_def IsEnded_def split: if_splits)

lemma check_total: "sp_pos p \<le> sp_size p \<Longrightarrow> \<exists>b. check P p = Ok b"
  by (auto simp: check_def Get_def char_at_def IsEnded_def)

lemma ParseChar_True:
  assumes "ParseChar x p = Ok (True, q)"
  shows "sp_pos p < sp_size p" "sp_pos q = sp_pos p + 1" "ahead p q"
proof -
  have c: "CheckChar x p = Ok True" "q = Next p" using assms by (auto simp: ParseChar_def split: if_splits)
  then show "sp_pos p < sp_size p" by (auto simp: CheckChar_def dest: check_True)
  with c show "sp_pos q = sp_pos p + 1" "ahead p q" by (auto simp: Next_def IsEnded_def ahead_def)
qed

lemma ParseChar_step:
  "ParseChar x p = Ok (True, q) \<Longrightarrow> sp_pos p < sp_size p \<and> sp_pos q = sp_pos p + 1 \<and> ahead p q"
  using ParseChar_True by blast

lemma ParseChar_ahead: "ParseChar x p = Ok (b, q) \<Longrightarrow> ahead p q"
  by (auto simp: ParseChar_def split: if_splits)

lemma MatchString_ahead: "MatchString s p = Ok (b, q) \<Longrightarrow> ahead p q"
  by (auto simp: MatchString_def split: if_splits)

end
