(* ===== verification/JSONParser.thy ===== *)
theory JSONParser
  imports StringParser
begin

text \<open>
  The JSON parser (\<open>class JSONParser\<close> of \<open>src/mcu/include/stringparser.h\<close>): numbers through
  \<open>wcstold\<close>, strings with their escapes, and the mutually recursive functions that skip a value.
  \<open>wcstold\<close> is the C library's: blanks, a sign, then an infinity, a NaN, a hexadecimal or a decimal
  number, the longest prefix that is one.
\<close>

section \<open>Floating numbers of the C library\<close>

definition lower :: "int \<Rightarrow> int" where
  "lower c = (if 65 \<le> c \<and> c \<le> 90 then c + 32 else c)"

definition starts_with :: "wstring \<Rightarrow> wstring \<Rightarrow> bool" where
  "starts_with w s = (map lower (take (length w) s) = w)"

definition is_hex :: "int \<Rightarrow> bool" where
  "is_hex c \<longleftrightarrow> is_digit c \<or> 97 \<le> lower c \<and> lower c \<le> 102"

definition hex_value :: "int \<Rightarrow> int" where
  "hex_value c = (if is_digit c then c - 48 else lower c - 87)"

definition rat_power :: "rat \<Rightarrow> int \<Rightarrow> rat" where
  "rat_power b e = (if 0 \<le> e then b ^ nat e else 1 / b ^ nat (- e))"

text \<open>The digits around a point: the digits in front, the digits behind, the characters taken.\<close>

definition mantissa :: "(int \<Rightarrow> bool) \<Rightarrow> wstring \<Rightarrow> wstring \<times> wstring \<times> nat" where
  "mantissa digit s =
     (let ip = takeWhile digit s; r = drop (length ip) s; dot = (case r of c # _ \<Rightarrow> c = 46 | [] \<Rightarrow> False);
          fp = (if dot then takeWhile digit (drop 1 r) else [])
      in if ip = [] \<and> fp = [] then ([], [], 0)
         else (ip, fp, length ip + (if dot then 1 + length fp else 0)))"

text \<open>An exponent behind the mark \<open>e\<close> or \<open>p\<close>: its value and the characters taken, none without digits.\<close>

definition exponent :: "int \<Rightarrow> wstring \<Rightarrow> int \<times> nat" where
  "exponent mark s =
     (case s of
        [] \<Rightarrow> (0, 0)
      | c # t \<Rightarrow>
          let sgn = sign_length t; ds = takeWhile is_digit (drop sgn t)
          in if lower c \<noteq> mark \<or> ds = [] then (0, 0)
             else ((if is_negative t then - 1 else 1) * digits_value ds 0, 1 + sgn + length ds))"

definition decimal_number :: "wstring \<Rightarrow> rat \<times> nat" where
  "decimal_number s =
     (let (ip, fp, n) = mantissa is_digit s; (e, m) = exponent 101 (drop n s)
      in if n = 0 then (0, 0)
         else (of_int (digits_value (ip @ fp) 0) * rat_power 10 (e - int (length fp)), n + m))"

definition hex_number :: "wstring \<Rightarrow> rat \<times> nat" where
  "hex_number s =
     (let (ip, fp, n) = mantissa is_hex s; (e, m) = exponent 112 (drop n s)
      in if n = 0 then (0, 0)
         else (of_int (fold (\<lambda>c acc. 16 * acc + hex_value c) (ip @ fp) 0) * rat_power 2 (e - 4 * int (length fp)), n + m))"

definition nan_length :: "wstring \<Rightarrow> nat" where
  "nan_length s =
     (case s of
        [] \<Rightarrow> 0
      | c # t \<Rightarrow>
          let n = length (takeWhile (\<lambda>c. is_digit c \<or> 97 \<le> lower c \<and> lower c \<le> 122 \<or> c = 95) t)
          in if c = 40 \<and> n < length t \<and> t ! n = 41 then n + 2 else 0)"

text \<open>The value and the number of characters taken; \<open>rnd\<close> is the rounding of the result type.\<close>

definition wcstofp :: "(rat \<Rightarrow> fp) \<Rightarrow> wstring \<Rightarrow> fp \<times> nat" where
  "wcstofp rnd s =
     (let blanks = length (takeWhile is_space s); t = drop blanks s; sgn = sign_length t; u = drop sgn t;
          neg = is_negative t; k = blanks + sgn; signed = (\<lambda>q. rnd (if neg then - q else q))
      in if starts_with (L ''infinity'') u then (Infinite neg, k + 8)
         else if starts_with (L ''inf'') u then (Infinite neg, k + 3)
         else if starts_with (L ''nan'') u then (NotANumber, k + 3 + nan_length (drop 3 u))
         else if starts_with (L ''0x'') u \<and> snd (hex_number (drop 2 u)) \<noteq> 0
           then (signed (fst (hex_number (drop 2 u))), k + 2 + snd (hex_number (drop 2 u)))
         else if snd (decimal_number u) \<noteq> 0
           then (signed (fst (decimal_number u)), k + snd (decimal_number u))
         else (Fin 0, 0))"

definition wcstold :: "wstring \<Rightarrow> fp \<times> nat" where
  "wcstold = wcstofp long_double"

definition wcstod :: "wstring \<Rightarrow> fp \<times> nat" where
  "wcstod = wcstofp double"

text \<open>\<open>number *= pow10(e)\<close>: \<open>pow10\<close> is a double, the product a long double.\<close>

fun times_pow10 :: "fp \<Rightarrow> int \<Rightarrow> fp" where
  "times_pow10 (Fin q) e =
     (case double (rat_power 10 e) of
        Fin d \<Rightarrow> long_double (q * d)
      | x \<Rightarrow> if q = 0 then NotANumber else Infinite (q < 0))"
| "times_pow10 (Infinite s) e = (if fp_is_zero (double (rat_power 10 e)) then NotANumber else Infinite s)"
| "times_pow10 NotANumber e = NotANumber"

section \<open>Tokens\<close>

definition SkipJSONSpaces :: "parser \<Rightarrow> parser res" where
  "SkipJSONSpaces = SkipCharset (L '' '' @ [9, 13, 10])"

definition json_char :: "int \<Rightarrow> parser \<Rightarrow> (bool \<times> parser) res" where
  "json_char x p = bindR (SkipJSONSpaces p) (ParseChar x)"

definition ParseJSONObjectStart :: "parser \<Rightarrow> (bool \<times> parser) res" where
  "ParseJSONObjectStart = json_char 123"

definition ParseJSONObjectEnd :: "parser \<Rightarrow> (bool \<times> parser) res" where
  "ParseJSONObjectEnd = json_char 125"

definition ParseJSONArrayStart :: "parser \<Rightarrow> (bool \<times> parser) res" where
  "ParseJSONArrayStart = json_char 91"

definition ParseJSONArrayEnd :: "parser \<Rightarrow> (bool \<times> parser) res" where
  "ParseJSONArrayEnd = json_char 93"

definition ParseComma :: "parser \<Rightarrow> (bool \<times> parser) res" where
  "ParseComma = json_char 44"

definition ParseDoubleDot :: "parser \<Rightarrow> (bool \<times> parser) res" where
  "ParseDoubleDot = json_char 58"

definition json_check :: "(parser \<Rightarrow> bool res) \<Rightarrow> parser \<Rightarrow> (bool \<times> parser) res" where
  "json_check f p = bindR (SkipJSONSpaces p) (\<lambda>p. bindR (f p) (\<lambda>b. Ok (b, p)))"

definition CheckJSONObject :: "parser \<Rightarrow> (bool \<times> parser) res" where
  "CheckJSONObject = json_check (CheckChar 123)"

definition CheckJSONArray :: "parser \<Rightarrow> (bool \<times> parser) res" where
  "CheckJSONArray = json_check (CheckChar 91)"

definition CheckJSONString :: "parser \<Rightarrow> (bool \<times> parser) res" where
  "CheckJSONString = json_check (CheckChar 34)"

definition CheckJSONNumber :: "parser \<Rightarrow> (bool \<times> parser) res" where
  "CheckJSONNumber =
     json_check (\<lambda>p. bindR (CheckChar 45 p) (\<lambda>b. if b then Ok True else CheckDigit p))"

definition CheckJSONTrue :: "parser \<Rightarrow> (bool \<times> parser) res" where
  "CheckJSONTrue = json_check (CheckString (L ''true''))"

definition CheckJSONFalse :: "parser \<Rightarrow> (bool \<times> parser) res" where
  "CheckJSONFalse = json_check (CheckString (L ''false''))"

definition CheckJSONNull :: "parser \<Rightarrow> (bool \<times> parser) res" where
  "CheckJSONNull = json_check (CheckString (L ''null''))"

definition json_word :: "wstring \<Rightarrow> parser \<Rightarrow> (bool \<times> parser) res" where
  "json_word w p = bindR (SkipJSONSpaces p) (MatchString w)"

definition ParseJSONTrue :: "parser \<Rightarrow> (bool \<times> parser) res" where
  "ParseJSONTrue = json_word (L ''true'')"

definition ParseJSONFalse :: "parser \<Rightarrow> (bool \<times> parser) res" where
  "ParseJSONFalse = json_word (L ''false'')"

definition ParseJSONNull :: "parser \<Rightarrow> (bool \<times> parser) res" where
  "ParseJSONNull = json_word (L ''null'')"

text \<open>
  \<open>ParseJSONNumber\<close>.  \<open>wcstold\<close> has taken a well formed exponent already.  The second branch is
  for a mark \<open>e\<close> it has left behind; there the cursor is moved by the distance of the end
  of the exponent from the start of the whole number, as in the source.
\<close>

definition ParseJSONNumber :: "parser \<Rightarrow> (bool \<times> parser) res" where
  "ParseJSONNumber p =
     bindR (SkipJSONSpaces p) (\<lambda>p.
     let ini = Mark p; (v, n) = wcstold (GetLeft p); p = p\<lparr>sp_number := v\<rparr> in
     if fp_is_zero v \<and> (sp_einval p \<or> n = 0) then Ok (False, Reset ini p)
     else
       let p = Move n p in
       bindR (CheckCharSet (L ''Ee'') p) (\<lambda>b.
       if \<not> b then Ok (True, p)
       else
         let p = Next p; (x, m) = wcstod (GetLeft p); end_pos = Mark p + m in
         bindR (fp_to_integer 64 x) (\<lambda>e.
         if e = 0 \<and> (sp_einval p \<or> ini = end_pos) then Ok (False, Reset ini p)
         else Ok (True, (Move (end_pos - ini) p)\<lparr>sp_number := times_pow10 v e\<rparr>))))"

definition push_value :: "int \<Rightarrow> parser \<Rightarrow> parser" where
  "push_value x p = p\<lparr>sp_value := sp_value p @ [x]\<rparr>"

text \<open>The characters that may follow a backslash and what they stand for.\<close>

definition json_escape :: "int \<Rightarrow> int option" where
  "json_escape c = map_of [(34, 34), (92, 92), (47, 47), (98, 8), (102, 12), (110, 10), (114, 13), (116, 9)] c"

text \<open>
  The text of a string, up to the closing quote or to a control character.  Any other escape is
  four characters that are replaced by a question mark; False is the error exit.
\<close>

function json_text :: "parser \<Rightarrow> (bool \<times> parser) res" where
  "json_text p =
     (if IsEnded p then Ok (True, p)
      else if sp_size p < sp_pos p then Fault OutOfBounds
      else bindR (Get p) (\<lambda>c.
        if c = 34 then Ok (True, p)
        else if c = 92 then
          (let q = Next p in
           if IsEnded q then Ok (False, q)
           else bindR (Get q) (\<lambda>d.
             case json_escape d of
               Some x \<Rightarrow> json_text (Next (push_value x q))
             | None \<Rightarrow> if Left q < 4 then Ok (False, q) else json_text (push_value 63 (Move 4 q))))
        else if 31 < c then json_text (Next (push_value c p))
        else Ok (True, p)))"
  by pat_completeness auto
termination
  by (relation "measure (\<lambda>p. sp_size p - sp_pos p)")
    (auto simp: Next_def Move_def IsEnded_def sp_size_def push_value_def)

declare json_text.simps [simp del]

definition ParseJSONString :: "parser \<Rightarrow> (bool \<times> parser) res" where
  "ParseJSONString p =
     bindR (SkipJSONSpaces p) (\<lambda>p.
     let m = Mark p in
     bindR (ParseChar 34 p) (\<lambda>(b, p).
     if \<not> b then Ok (False, p)
     else bindR (json_text (p\<lparr>sp_value := []\<rparr>)) (\<lambda>(b, p).
       if \<not> b then Ok (False, Reset m p)
       else bindR (ParseChar 34 p) (\<lambda>(b, p). Ok (if b then (True, p) else (False, Reset m p))))))"

text \<open>\<open>f() || g()\<close> and \<open>f() && g()\<close> with the cursor as their side effect.\<close>

definition or_else ::
  "(parser \<Rightarrow> (bool \<times> parser) res) \<Rightarrow> (parser \<Rightarrow> (bool \<times> parser) res) \<Rightarrow> parser \<Rightarrow> (bool \<times> parser) res" where
  "or_else f g p = bindR (f p) (\<lambda>(b, q). if b then Ok (True, q) else g q)"

definition and_then ::
  "(parser \<Rightarrow> (bool \<times> parser) res) \<Rightarrow> (parser \<Rightarrow> (bool \<times> parser) res) \<Rightarrow> parser \<Rightarrow> (bool \<times> parser) res" where
  "and_then f g p = bindR (f p) (\<lambda>(b, q). if b then g q else Ok (False, q))"

definition parse_scalar :: "parser \<Rightarrow> (bool \<times> parser) res" where
  "parse_scalar =
     or_else ParseJSONString (or_else ParseJSONNumber (or_else ParseJSONTrue
       (or_else ParseJSONFalse ParseJSONNull)))"

text \<open>
  Skipping a value.  The three functions of the source call each other; the fuel bounds the depth of
  the recursion and the length of the loops, and \<open>SkipJSON_fuel\<close> below shows that twice the length
  of the text is enough.
\<close>

function (sequential) skip_value :: "nat \<Rightarrow> parser \<Rightarrow> (bool \<times> parser) res"
  and skip_object :: "nat \<Rightarrow> parser \<Rightarrow> (bool \<times> parser) res"
  and object_members :: "nat \<Rightarrow> parser \<Rightarrow> (bool \<times> parser) res"
  and skip_array :: "nat \<Rightarrow> parser \<Rightarrow> (bool \<times> parser) res"
  and array_members :: "nat \<Rightarrow> parser \<Rightarrow> (bool \<times> parser) res"
where
  "skip_value 0 p = Fault OutOfFuel"
| "skip_value (Suc n) p =
     bindR (skip_object n p) (\<lambda>(b, p). if b then Ok (True, p)
     else bindR (skip_array n p) (\<lambda>(b, p). if b then Ok (True, p)
     else parse_scalar p))"
| "skip_object n p =
     bindR (ParseJSONObjectStart p) (\<lambda>(b, q). if \<not> b then Ok (False, Reset (Mark p) q)
     else bindR (ParseJSONObjectEnd q) (\<lambda>(b, q). if b then Ok (True, q)
     else bindR (object_members n q) (\<lambda>(b, q). if \<not> b then Ok (False, Reset (Mark p) q)
     else bindR (ParseJSONObjectEnd q) (\<lambda>(b, q). Ok (if b then (True, q) else (False, Reset (Mark p) q))))))"
| "object_members 0 p = Fault OutOfFuel"
| "object_members (Suc n) p =
     bindR (and_then ParseJSONString ParseDoubleDot p) (\<lambda>(b, q). if \<not> b then Ok (False, q)
     else bindR (skip_value n q) (\<lambda>(b, q). if \<not> b then Ok (False, q)
     else bindR (ParseComma q) (\<lambda>(b, q). if b then object_members n q else Ok (True, q))))"
| "skip_array n p =
     bindR (ParseJSONArrayStart p) (\<lambda>(b, q). if \<not> b then Ok (False, Reset (Mark p) q)
     else bindR (ParseJSONArrayEnd q) (\<lambda>(b, q). if b then Ok (True, q)
     else bindR (array_members n q) (\<lambda>(b, q). if \<not> b then Ok (False, Reset (Mark p) q)
     else bindR (ParseJSONArrayEnd q) (\<lambda>(b, q). Ok (if b then (True, q) else (False, Reset (Mark p) q))))))"
| "array_members 0 p = Fault OutOfFuel"
| "array_members (Suc n) p =
     bindR (skip_value n p) (\<lambda>(b, q). if \<not> b then Ok (False, q)
     else bindR (ParseComma q) (\<lambda>(b, q). if b then array_members n q else Ok (True, q)))"
  by pat_completeness auto
termination
  by (relation "measure (\<lambda>x. case x of
        Inl (Inl (n, p)) \<Rightarrow> 2 * n
      | Inl (Inr (n, p)) \<Rightarrow> 2 * n + 1
      | Inr (Inl (n, p)) \<Rightarrow> 2 * n
      | Inr (Inr (Inl (n, p))) \<Rightarrow> 2 * n + 1
      | Inr (Inr (Inr (n, p))) \<Rightarrow> 2 * n)") auto

declare skip_value.simps [simp del] skip_object.simps [simp del] object_members.simps [simp del]
  skip_array.simps [simp del] array_members.simps [simp del]

definition skip_fuel :: "parser \<Rightarrow> nat" where
  "skip_fuel p = 2 * sp_size p + 3"

definition SkipJSONValue :: "parser \<Rightarrow> (bool \<times> parser) res" where
  "SkipJSONValue p = skip_value (skip_fuel p) p"

definition SkipJSONObject :: "parser \<Rightarrow> (bool \<times> parser) res" where
  "SkipJSONObject p = skip_object (skip_fuel p) p"

definition SkipJSONArray :: "parser \<Rightarrow> (bool \<times> parser) res" where
  "SkipJSONArray p = skip_array (skip_fuel p) p"

end
