(* ===== verification/JSONProgress.thy ===== *)
theory JSONProgress
  imports JSONParser
begin

text \<open>
  The JSON parser moves forward and comes back: no function moves the cursor below where it
  started, changes the text, or runs out of the fuel \<open>skip_fuel\<close>.  So every loop of the source
  ends, on every input, whatever else goes wrong.
\<close>

section \<open>Tokens\<close>

lemma SkipJSONSpaces_ahead: "SkipJSONSpaces p = Ok q \<Longrightarrow> ahead p q"
  by (simp add: SkipJSONSpaces_def SkipCharset_def skip_while_ahead)

lemma fuelled_SkipJSONSpaces [simp]: "fuelled (SkipJSONSpaces p)"
  by (simp add: SkipJSONSpaces_def SkipCharset_def fuelled_skip_while)

lemma json_char_ahead: "json_char x p = Ok (b, q) \<Longrightarrow> ahead p q"
  by (auto simp: json_char_def dest!: SkipJSONSpaces_ahead ParseChar_ahead intro: ahead_trans)

lemma json_char_True: "json_char x p = Ok (True, q) \<Longrightarrow> sp_pos p < sp_pos q \<and> sp_pos p < sp_size p"
  by (auto simp: json_char_def ahead_def sp_size_def dest!: SkipJSONSpaces_ahead ParseChar_step)

lemma fuelled_json_char [simp]: "fuelled (json_char x p)"
  by (auto simp: json_char_def)

lemma json_word_ahead: "json_word w p = Ok (b, q) \<Longrightarrow> ahead p q"
  by (auto simp: json_word_def dest!: SkipJSONSpaces_ahead MatchString_ahead intro: ahead_trans)

lemma fuelled_json_word [simp]: "fuelled (json_word w p)"
  by (auto simp: json_word_def MatchString_def)

lemma ahead_update [simp]:
  "ahead p (q\<lparr>sp_number := v\<rparr>) = ahead p q" "ahead p (q\<lparr>sp_value := s\<rparr>) = ahead p q"
  by (simp_all add: ahead_def)

lemma fuelled_fp_to_integer [simp]: "fuelled (fp_to_integer w x)"
  by (cases x) (simp_all add: Let_def)

lemma Reset_Mark_ahead: "ahead p q \<Longrightarrow> ahead q r \<Longrightarrow> ahead p (Reset (sp_pos q) r)"
  by (auto simp: ahead_def Reset_def)

lemma ahead_intros:
  "ahead p q \<Longrightarrow> ahead p (Next q)" "ahead p q \<Longrightarrow> ahead p (Move n q)"
  "ahead p q \<Longrightarrow> ahead p (Reset (sp_pos p) q)"
  by (auto simp: ahead_def Next_def Move_def Reset_def)

lemma ParseJSONNumber_ahead:
  assumes "ParseJSONNumber p = Ok (b, q)"
  shows "ahead p q"
proof -
  obtain p1 where p1: "SkipJSONSpaces p = Ok p1" using assms by (auto simp: ParseJSONNumber_def)
  have "ahead p1 q"
    using assms p1 by (auto simp: ParseJSONNumber_def Let_def Mark_def split: if_splits prod.splits
        intro!: ahead_intros)
  with SkipJSONSpaces_ahead [OF p1] show ?thesis by (rule ahead_trans)
qed

lemma fuelled_ParseJSONNumber [simp]: "fuelled (ParseJSONNumber p)"
  by (auto simp: ParseJSONNumber_def Let_def split: prod.split)

lemma ahead_push [simp]: "ahead p (push_value x q) = ahead p q"
  by (simp add: push_value_def)

lemma ahead_pos [simp]: "ahead p (p\<lparr>sp_pos := n\<rparr>) \<longleftrightarrow> sp_pos p \<le> n"
  by (simp add: ahead_def)

lemma json_text_ahead: "json_text p = Ok (b, q) \<Longrightarrow> ahead p q"
proof (induction "sp_size p - sp_pos p" arbitrary: p rule: less_induct)
  case less
  have rec: "ahead p q" if "json_text r = Ok (b, q)" "sp_buffer r = sp_buffer p" "sp_pos p < sp_pos r"
    "sp_einval r = sp_einval p" "sp_erange r = sp_erange p" "\<not> sp_size p < sp_pos p" "\<not> IsEnded p" for r
  proof (rule ahead_trans)
    show "ahead p r" using that by (simp add: ahead_def)
    show "ahead r q" using that by (intro less.hyps) (auto simp: sp_size_def IsEnded_def)
  qed
  from less.prems show ?case
    by (subst (asm) json_text.simps)
      (auto simp: Let_def split: if_splits option.splits
        elim!: rec simp: Next_def Move_def push_value_def IsEnded_def sp_size_def)
qed

lemma fuelled_json_text [simp]: "fuelled (json_text p)"
proof (induction "sp_size p - sp_pos p" arbitrary: p rule: less_induct)
  case less
  show ?case
    by (subst json_text.simps)
      (auto simp: Let_def Next_def Move_def IsEnded_def sp_size_def push_value_def
        split: option.split intro!: less.hyps diff_less_mono2)
qed

lemma ParseJSONString_ahead:
  assumes "ParseJSONString p = Ok (b, q)"
  shows "ahead p q"
  using assms
  by (auto simp: ParseJSONString_def Let_def Mark_def ahead_def Reset_def split: if_splits
      dest!: SkipJSONSpaces_ahead ParseChar_ahead json_text_ahead)

lemma ParseJSONString_True:
  "ParseJSONString p = Ok (True, q) \<Longrightarrow> sp_pos p < sp_pos q \<and> sp_pos p < sp_size p"
  by (auto simp: ParseJSONString_def Let_def ahead_def sp_size_def split: if_splits
      dest!: SkipJSONSpaces_ahead ParseChar_step json_text_ahead)

lemma fuelled_ParseJSONString [simp]: "fuelled (ParseJSONString p)"
  by (auto simp: ParseJSONString_def Let_def)

lemma or_else_ahead:
  "or_else f g p = Ok (b, q) \<Longrightarrow> (\<And>p b q. f p = Ok (b, q) \<Longrightarrow> ahead p q) \<Longrightarrow>
   (\<And>p b q. g p = Ok (b, q) \<Longrightarrow> ahead p q) \<Longrightarrow> ahead p q"
  by (force simp: or_else_def split: if_splits intro: ahead_trans)

lemma fuelled_or_else [simp]: "(\<And>q. fuelled (f q)) \<Longrightarrow> (\<And>q. fuelled (g q)) \<Longrightarrow> fuelled (or_else f g p)"
  by (auto simp: or_else_def)

lemma parse_scalar_ahead: "parse_scalar p = Ok (b, q) \<Longrightarrow> ahead p q"
  unfolding parse_scalar_def ParseJSONTrue_def ParseJSONFalse_def ParseJSONNull_def
  by (elim or_else_ahead ParseJSONString_ahead ParseJSONNumber_ahead json_word_ahead)

lemma fuelled_parse_scalar [simp]: "fuelled (parse_scalar p)"
  by (simp add: parse_scalar_def ParseJSONTrue_def ParseJSONFalse_def ParseJSONNull_def)

lemmas json_tokens = ParseJSONObjectStart_def ParseJSONObjectEnd_def ParseJSONArrayStart_def
  ParseJSONArrayEnd_def ParseComma_def ParseDoubleDot_def

lemma json_tokens_ahead:
  "ParseJSONObjectStart p = Ok (b, q) \<Longrightarrow> ahead p q" "ParseJSONObjectEnd p = Ok (b, q) \<Longrightarrow> ahead p q"
  "ParseJSONArrayStart p = Ok (b, q) \<Longrightarrow> ahead p q" "ParseJSONArrayEnd p = Ok (b, q) \<Longrightarrow> ahead p q"
  "ParseComma p = Ok (b, q) \<Longrightarrow> ahead p q" "ParseDoubleDot p = Ok (b, q) \<Longrightarrow> ahead p q"
  by (simp_all add: json_tokens json_char_ahead)

lemma json_tokens_step:
  "ParseJSONObjectStart p = Ok (True, q) \<Longrightarrow> sp_pos p < sp_pos q \<and> sp_pos p < sp_size p"
  "ParseJSONArrayStart p = Ok (True, q) \<Longrightarrow> sp_pos p < sp_pos q \<and> sp_pos p < sp_size p"
  "ParseComma p = Ok (True, q) \<Longrightarrow> sp_pos p < sp_pos q \<and> sp_pos p < sp_size p"
  "ParseDoubleDot p = Ok (True, q) \<Longrightarrow> sp_pos p < sp_pos q \<and> sp_pos p < sp_size p"
  by (simp_all add: json_tokens json_char_True)

lemma fuelled_json_tokens [simp]:
  "fuelled (ParseJSONObjectStart p)" "fuelled (ParseJSONObjectEnd p)" "fuelled (ParseJSONArrayStart p)"
  "fuelled (ParseJSONArrayEnd p)" "fuelled (ParseComma p)" "fuelled (ParseDoubleDot p)"
  by (simp_all add: json_tokens)

lemma and_then_ahead:
  "and_then f g p = Ok (b, q) \<Longrightarrow> (\<And>p b q. f p = Ok (b, q) \<Longrightarrow> ahead p q) \<Longrightarrow>
   (\<And>p b q. g p = Ok (b, q) \<Longrightarrow> ahead p q) \<Longrightarrow> ahead p q"
  by (force simp: and_then_def split: if_splits intro: ahead_trans)

lemma fuelled_and_then [simp]: "(\<And>q. fuelled (f q)) \<Longrightarrow> (\<And>q. fuelled (g q)) \<Longrightarrow> fuelled (and_then f g p)"
  by (auto simp: and_then_def)

definition key :: "parser \<Rightarrow> (bool \<times> parser) res" where
  "key = and_then ParseJSONString ParseDoubleDot"

lemma key_ahead: "key p = Ok (b, q) \<Longrightarrow> ahead p q"
  unfolding key_def by (elim and_then_ahead ParseJSONString_ahead json_tokens_ahead)

lemma key_step: "key p = Ok (True, q) \<Longrightarrow> sp_pos p < sp_pos q \<and> sp_pos p < sp_size p"
  by (fastforce simp: key_def and_then_def split: if_splits dest: ParseJSONString_True json_tokens_step)

lemma fuelled_key [simp]: "fuelled (key p)"
  by (simp add: key_def)

section \<open>Skipping\<close>

lemma bracket_ahead:
  assumes "\<And>p b q. members p = Ok (b, q) \<Longrightarrow> ahead p q"
    and "\<And>p b q. st p = Ok (b, q) \<Longrightarrow> ahead p q" "\<And>p b q. en p = Ok (b, q) \<Longrightarrow> ahead p q"
    and "bindR (st p) (\<lambda>(b, q). if \<not> b then Ok (False, Reset (Mark p) q)
      else bindR (en q) (\<lambda>(b, q). if b then Ok (True, q)
      else bindR (members q) (\<lambda>(b, q). if \<not> b then Ok (False, Reset (Mark p) q)
      else bindR (en q) (\<lambda>(b, q). Ok (if b then (True, q) else (False, Reset (Mark p) q)))))) = Ok (b, q)"
  shows "ahead p q"
  using assms(4)
  by (auto split: if_splits simp: Mark_def intro!: ahead_intros dest!: assms(1-3)) (blast intro: ahead_trans)+

lemma skip_ahead:
  "skip_value n p = Ok (b, q) \<Longrightarrow> ahead p q" "object_members n p = Ok (b, q) \<Longrightarrow> ahead p q"
  "array_members n p = Ok (b, q) \<Longrightarrow> ahead p q"
proof (induction n arbitrary: p b q)
  case (Suc n)
  have obj: "skip_object n p = Ok (b, q) \<Longrightarrow> ahead p q" for p b q
    unfolding skip_object.simps by (rule bracket_ahead [OF Suc.IH(2) json_tokens_ahead(1,2)])
  have arr: "skip_array n p = Ok (b, q) \<Longrightarrow> ahead p q" for p b q
    unfolding skip_array.simps by (rule bracket_ahead [OF Suc.IH(3) json_tokens_ahead(3,4)])
  {
    case 1
    then show ?case
      by (auto simp: skip_value.simps split: if_splits dest!: obj arr parse_scalar_ahead)
        (blast intro: ahead_trans)+
  next
    case 2
    then show ?case
      by (auto simp: object_members.simps key_def [symmetric] split: if_splits
          dest!: key_ahead Suc.IH json_tokens_ahead(5) intro: ahead_trans) (blast intro: ahead_trans)+
  next
    case 3
    then show ?case
      by (auto simp: array_members.simps split: if_splits
          dest!: Suc.IH json_tokens_ahead(5) intro: ahead_trans) (blast intro: ahead_trans)+
  }
qed (simp_all add: skip_value.simps object_members.simps array_members.simps)

lemma skip_object_ahead: "skip_object n p = Ok (b, q) \<Longrightarrow> ahead p q"
  unfolding skip_object.simps by (rule bracket_ahead [OF skip_ahead(2) json_tokens_ahead(1,2)])

lemma skip_array_ahead: "skip_array n p = Ok (b, q) \<Longrightarrow> ahead p q"
  unfolding skip_array.simps by (rule bracket_ahead [OF skip_ahead(3) json_tokens_ahead(3,4)])

text \<open>What is left of the text; a cursor past the end has nothing left.\<close>

definition remaining :: "parser \<Rightarrow> nat" where
  "remaining p = sp_size p - sp_pos p"

lemma ahead_remaining: "ahead p q \<Longrightarrow> remaining q \<le> remaining p"
  by (auto simp: ahead_def remaining_def sp_size_def)

lemma step_remaining:
  "ahead p q \<Longrightarrow> sp_pos p < sp_pos q \<Longrightarrow> sp_pos p < sp_size p \<Longrightarrow> remaining q < remaining p"
  by (auto simp: ahead_def remaining_def sp_size_def)

lemma key_remaining: "key p = Ok (True, q) \<Longrightarrow> remaining q < remaining p"
  using key_ahead key_step step_remaining by blast

lemma token_remaining:
  "ParseJSONObjectStart p = Ok (True, q) \<Longrightarrow> remaining q < remaining p"
  "ParseJSONArrayStart p = Ok (True, q) \<Longrightarrow> remaining q < remaining p"
  "ParseComma p = Ok (True, q) \<Longrightarrow> remaining q < remaining p"
  using json_tokens_ahead(1,3,5) json_tokens_step(1-3) step_remaining by blast+

lemma fuelled_bracket:
  assumes st: "\<And>q. st p = Ok (True, q) \<Longrightarrow> remaining q < remaining p"
    and en: "\<And>p b q. en p = Ok (b, q) \<Longrightarrow> ahead p q"
    and f: "fuelled (st p)" "\<And>q. fuelled (en q)" "\<And>q. remaining q < remaining p \<Longrightarrow> fuelled (members q)"
  shows "fuelled (bindR (st p) (\<lambda>(b, q). if \<not> b then Ok (False, Reset (Mark p) q)
      else bindR (en q) (\<lambda>(b, q). if b then Ok (True, q)
      else bindR (members q) (\<lambda>(b, q). if \<not> b then Ok (False, Reset (Mark p) q)
      else bindR (en q) (\<lambda>(b, q). Ok (if b then (True, q) else (False, Reset (Mark p) q)))))))"
  using f st by (auto simp: split: if_splits dest!: en ahead_remaining intro!: f(3))

text \<open>Twice the rest of the text, and a little, is fuel enough.\<close>

lemma fuelled_skip:
  "2 * remaining p + 2 \<le> n \<Longrightarrow> fuelled (skip_value n p)"
  "2 * remaining p + 2 \<le> n \<Longrightarrow> fuelled (object_members n p)"
  "2 * remaining p + 3 \<le> n \<Longrightarrow> fuelled (array_members n p)"
proof (induction n arbitrary: p)
  case (Suc n)
  have obj: "fuelled (skip_object n p)" if "2 * remaining p + 1 \<le> n" for p
    unfolding skip_object.simps
    by (rule fuelled_bracket [OF token_remaining(1) json_tokens_ahead(2)])
      (use that in \<open>auto intro!: Suc.IH\<close>)
  have arr: "fuelled (skip_array n p)" if "2 * remaining p + 1 \<le> n" for p
    unfolding skip_array.simps
    by (rule fuelled_bracket [OF token_remaining(2) json_tokens_ahead(4)])
      (use that in \<open>auto intro!: Suc.IH\<close>)
  {
    case 1
    then show ?case
      by (auto simp: skip_value.simps intro!: obj arr dest!: skip_object_ahead [THEN ahead_remaining])
  next
    case 2
    show ?case
      unfolding object_members.simps key_def [symmetric]
    proof (intro fuelled_bindR)
      fix x
      assume x: "key p = Ok x"
      obtain b q where q: "x = (b, q)" by (cases x)
      show "fuelled (case x of (b, q) \<Rightarrow> if \<not> b then Ok (False, q)
        else bindR (skip_value n q) (\<lambda>(b, q). if \<not> b then Ok (False, q)
        else bindR (ParseComma q) (\<lambda>(b, q). if b then object_members n q else Ok (True, q))))"
      proof (cases b)
        case True
        with x q have r: "remaining q < remaining p" by (simp add: key_remaining)
        then have "fuelled (skip_value n q)" using 2 by (intro Suc.IH) simp
        moreover have "fuelled (object_members n s)" if "skip_value n q = Ok (c, t)" "ParseComma t = Ok (True, s)" for c t s
          using that 2 r by (intro Suc.IH) (auto dest!: skip_ahead(1) [THEN ahead_remaining] token_remaining)
        ultimately show ?thesis using q True by auto
      qed (simp add: q)
    qed simp
  next
    case 3
    have "fuelled (skip_value n p)" using 3 by (intro Suc.IH) simp
    moreover have "fuelled (array_members n s)" if "skip_value n p = Ok (c, t)" "ParseComma t = Ok (True, s)" for c t s
      using that 3 by (intro Suc.IH) (auto dest!: skip_ahead(1) [THEN ahead_remaining] token_remaining)
    ultimately show ?case by (auto simp: array_members.simps)
  }
qed simp_all

lemma remaining_le_size: "remaining p \<le> sp_size p"
  by (simp add: remaining_def)

lemma fuelled_SkipJSONValue [simp]: "fuelled (SkipJSONValue p)"
  unfolding SkipJSONValue_def using remaining_le_size [of p] by (intro fuelled_skip) (simp add: skip_fuel_def)

lemma fuelled_SkipJSONObject [simp]: "fuelled (SkipJSONObject p)"
proof -
  have "fuelled (object_members (skip_fuel p) q)" if "remaining q < remaining p" for q
    using remaining_le_size [of p] that by (intro fuelled_skip) (simp add: skip_fuel_def)
  then show ?thesis unfolding SkipJSONObject_def skip_object.simps
    by (intro fuelled_bracket [OF token_remaining(1) json_tokens_ahead(2)]) auto
qed

lemma SkipJSONValue_ahead: "SkipJSONValue p = Ok (b, q) \<Longrightarrow> ahead p q"
  by (simp add: SkipJSONValue_def skip_ahead)

lemma SkipJSONObject_ahead: "SkipJSONObject p = Ok (b, q) \<Longrightarrow> ahead p q"
  by (simp add: SkipJSONObject_def skip_object_ahead)

end
