(* ===== verification/BFCPParse.thy ===== *)
theory BFCPParse
  imports JSONProgress BFCPMessages
begin

text \<open>
  Reading a message: \<open>BFCPMessage::Parse\<close> of \<open>src/mcu/src/bfcp/BFCPMessage.cpp\<close> and the methods
  \<open>ParseAttributes\<close> of the messages in \<open>src/mcu/src/bfcp/messages/\<close>.  \<open>None\<close> is the NULL the code
  returns for a text that is no message.  A local that has not been assigned yet is \<open>None\<close> in
  \<open>fields\<close>; reading the primitive then is the fault \<open>Uninitialised\<close>.
\<close>

section \<open>Attributes\<close>

definition int_value :: "parser \<Rightarrow> int res" where
  "int_value p = fp_to_integer 32 (sp_number p)"

text \<open>The numbers of a \<open>floorId\<close> array, up to the closing bracket.\<close>

function floor_id_list :: "parser \<Rightarrow> bfcp_msg \<Rightarrow> (bool \<times> parser \<times> bfcp_msg) res" where
  "floor_id_list p m =
     bindR (ParseJSONNumber p) (\<lambda>(b, q). if \<not> b then Ok (False, q, m)
     else bindR (int_value q) (\<lambda>f. bindR (msg_AddFloorId f m) (\<lambda>m.
     bindR (ParseComma q) (\<lambda>(b, q). if b then floor_id_list q m else Ok (True, q, m)))))"
  by pat_completeness auto
termination
  by (relation "measure (\<lambda>(p, m). remaining p)")
    (auto dest!: ParseJSONNumber_ahead [THEN ahead_remaining] token_remaining(3))

declare floor_id_list.simps [simp del]

definition floor_id_array :: "parser \<Rightarrow> bfcp_msg \<Rightarrow> (bool \<times> parser \<times> bfcp_msg) res" where
  "floor_id_array p m =
     bindR (ParseJSONArrayStart p) (\<lambda>(b, q). if \<not> b then Ok (False, q, m)
     else bindR (ParseJSONArrayEnd q) (\<lambda>(b, q). if b then Ok (True, q, m)
     else bindR (floor_id_list q m) (\<lambda>(b, q, m). if \<not> b then Ok (False, q, m)
     else bindR (ParseJSONArrayEnd q) (\<lambda>(b, q). Ok (b, q, m)))))"

text \<open>An attribute that is a number or a string, handed to a setter; and one that is skipped, whatever comes of it.\<close>

definition number_attribute ::
  "(int \<Rightarrow> bfcp_msg \<Rightarrow> bfcp_msg res) \<Rightarrow> parser \<Rightarrow> bfcp_msg \<Rightarrow> (bool \<times> parser \<times> bfcp_msg) res" where
  "number_attribute set_it p m =
     bindR (ParseJSONNumber p) (\<lambda>(b, q). if \<not> b then Ok (False, q, m)
     else bindR (int_value q) (\<lambda>i. bindR (set_it i m) (\<lambda>m. Ok (True, q, m))))"

definition text_attribute ::
  "(wstring \<Rightarrow> bfcp_msg \<Rightarrow> bfcp_msg res) \<Rightarrow> parser \<Rightarrow> bfcp_msg \<Rightarrow> (bool \<times> parser \<times> bfcp_msg) res" where
  "text_attribute set_it p m =
     bindR (ParseJSONString p) (\<lambda>(b, q). if \<not> b then Ok (False, q, m)
     else bindR (set_it (sp_value q) m) (\<lambda>m. Ok (True, q, m)))"

definition skipped_attribute :: "parser \<Rightarrow> bfcp_msg \<Rightarrow> (bool \<times> parser \<times> bfcp_msg) res" where
  "skipped_attribute p m = bindR (SkipJSONValue p) (\<lambda>(b, q). Ok (True, q, m))"

definition FloorRequest_attribute ::
  "attr_name option \<Rightarrow> parser \<Rightarrow> bfcp_msg \<Rightarrow> (bool \<times> parser \<times> bfcp_msg) res" where
  "FloorRequest_attribute a p m =
     (case a of
        Some AFloorId \<Rightarrow> floor_id_array p m
      | Some ABeneficiaryId \<Rightarrow> number_attribute msg_SetBeneficiaryId p m
      | Some AParticipantProvidedInfo \<Rightarrow> text_attribute msg_SetParticipantProvidedInfo p m
      | _ \<Rightarrow> skipped_attribute p m)"

definition FloorRelease_attribute ::
  "attr_name option \<Rightarrow> parser \<Rightarrow> bfcp_msg \<Rightarrow> (bool \<times> parser \<times> bfcp_msg) res" where
  "FloorRelease_attribute a p m =
     (case a of
        Some AFloorRequestId \<Rightarrow> number_attribute msg_SetFloorRequestId p m
      | _ \<Rightarrow> skipped_attribute p m)"

definition FloorQuery_attribute ::
  "attr_name option \<Rightarrow> parser \<Rightarrow> bfcp_msg \<Rightarrow> (bool \<times> parser \<times> bfcp_msg) res" where
  "FloorQuery_attribute a p m =
     (case a of
        Some AFloorId \<Rightarrow> floor_id_array p m
      | _ \<Rightarrow> skipped_attribute p m)"

text \<open>The method of the class the object is an instance of.\<close>

definition attribute_value ::
  "attr_name option \<Rightarrow> parser \<Rightarrow> bfcp_msg \<Rightarrow> (bool \<times> parser \<times> bfcp_msg) res" where
  "attribute_value a p m =
     (case m_body m of
        MsgFloorRequest _ \<Rightarrow> FloorRequest_attribute a p m
      | MsgFloorRelease _ \<Rightarrow> FloorRelease_attribute a p m
      | _ \<Rightarrow> FloorQuery_attribute a p m)"

lemma floor_id_list_ahead: "floor_id_list p m = Ok (b, q, m') \<Longrightarrow> ahead p q"
proof (induction "remaining p" arbitrary: p m rule: less_induct)
  case less
  have rec: "ahead p q" if "floor_id_list s m1 = Ok (b, q, m')" "ahead p r" "ParseComma r = Ok (True, s)" for r s m1
  proof (rule ahead_trans)
    show "ahead p s" using that(2) json_tokens_ahead(5) [OF that(3)] by (rule ahead_trans)
    show "ahead s q" using that token_remaining(3) [OF that(3)] ahead_remaining [OF that(2)]
      by (intro less.hyps) auto
  qed
  from less.prems show ?case
    by (subst (asm) floor_id_list.simps)
      (auto split: if_splits simp del: msg_AddFloorId.simps dest!: ParseJSONNumber_ahead,
        (blast intro: rec json_tokens_ahead(5) ahead_trans)+)
qed

lemma floor_id_array_ahead: "floor_id_array p m = Ok (b, q, m') \<Longrightarrow> ahead p q"
  by (auto simp: floor_id_array_def split: if_splits dest!: floor_id_list_ahead json_tokens_ahead(3,4))
    (blast intro: ahead_trans)+

lemma number_attribute_ahead: "number_attribute f p m = Ok (b, q, m') \<Longrightarrow> ahead p q"
  by (auto simp: number_attribute_def split: if_splits dest!: ParseJSONNumber_ahead)

lemma skipped_attribute_ahead: "skipped_attribute p m = Ok (b, q, m') \<Longrightarrow> ahead p q"
  by (auto simp: skipped_attribute_def dest!: SkipJSONValue_ahead)

lemma text_attribute_ahead: "text_attribute f p m = Ok (b, q, m') \<Longrightarrow> ahead p q"
  by (auto simp: text_attribute_def split: if_splits dest!: ParseJSONString_ahead)

lemmas value_ahead = floor_id_array_ahead number_attribute_ahead text_attribute_ahead skipped_attribute_ahead

lemma class_attribute_ahead:
  "FloorRequest_attribute a p m = Ok (b, q, m') \<Longrightarrow> ahead p q"
  "FloorRelease_attribute a p m = Ok (b, q, m') \<Longrightarrow> ahead p q"
  "FloorQuery_attribute a p m = Ok (b, q, m') \<Longrightarrow> ahead p q"
  unfolding FloorRequest_attribute_def FloorRelease_attribute_def FloorQuery_attribute_def
  by (simp split: option.split_asm attr_name.split_asm, (erule value_ahead)+)+

lemma attribute_value_ahead: "attribute_value a p m = Ok (b, q, m') \<Longrightarrow> ahead p q"
  unfolding attribute_value_def by (simp split: msg_body.split_asm, (erule class_attribute_ahead)+)

text \<open>The loop of \<open>ParseAttributes\<close>, and the method: a Hello has no attributes to parse.\<close>

function attributes_loop :: "parser \<Rightarrow> bfcp_msg \<Rightarrow> (bool \<times> parser \<times> bfcp_msg) res" where
  "attributes_loop p m =
     bindR (ParseJSONString p) (\<lambda>(b, q). if \<not> b then Ok (False, q, m)
     else let a = attr_of_json (sp_value q) in
     bindR (ParseDoubleDot q) (\<lambda>(b, q). if \<not> b then Ok (False, q, m)
     else bindR (attribute_value a q m) (\<lambda>(b, q, m). if \<not> b then Ok (False, q, m)
     else bindR (ParseComma q) (\<lambda>(b, q). if b then attributes_loop q m else Ok (True, q, m)))))"
  by pat_completeness auto
termination
  by (relation "measure (\<lambda>(p, m). remaining p)")
    (auto dest!: ParseJSONString_ahead [THEN ahead_remaining] json_tokens_ahead(6) [THEN ahead_remaining]
      attribute_value_ahead [THEN ahead_remaining] token_remaining(3))

declare attributes_loop.simps [simp del]

definition ParseAttributes :: "parser \<Rightarrow> bfcp_msg \<Rightarrow> (bool \<times> parser \<times> bfcp_msg) res" where
  "ParseAttributes p m =
     (case m_body m of
        MsgFloorRequest _ \<Rightarrow> attributes_loop p m
      | MsgFloorRelease _ \<Rightarrow> attributes_loop p m
      | MsgFloorQuery _ \<Rightarrow> attributes_loop p m
      | _ \<Rightarrow> Ok (True, p, m))"

section \<open>The common header\<close>

record fields =
  pa_hasVer :: bool
  pa_primitive :: "primitive option"
  pa_transactionId :: "int option"
  pa_conferenceId :: "int option"
  pa_userId :: "int option"
  pa_hasAttributes :: bool
  pa_attributesPos :: nat

definition fields_new :: fields where
  "fields_new = \<lparr>pa_hasVer = False, pa_primitive = None, pa_transactionId = None, pa_conferenceId = None,
     pa_userId = None, pa_hasAttributes = False, pa_attributesPos = 0\<rparr>"

definition number_field ::
  "(int \<Rightarrow> fields \<Rightarrow> fields) \<Rightarrow> parser \<Rightarrow> fields \<Rightarrow> (bool \<times> parser \<times> fields) res" where
  "number_field set_it p fs =
     bindR (ParseJSONNumber p) (\<lambda>(b, q). if \<not> b then Ok (False, q, fs)
     else bindR (int_value q) (\<lambda>i. Ok (True, q, set_it i fs)))"

text \<open>The object \<open>attributes\<close> is skipped; where its members start is remembered.\<close>

definition attributes_field :: "parser \<Rightarrow> fields \<Rightarrow> (bool \<times> parser \<times> fields) res" where
  "attributes_field p fs =
     (let object_start_pos = Mark p in
      bindR (SkipJSONObject p) (\<lambda>(b, q). if \<not> b then Ok (False, q, fs)
      else
        let object_end_pos = Mark q in
        bindR (ParseJSONObjectStart (Reset object_start_pos q)) (\<lambda>(_, q).
        let fs = fs\<lparr>pa_attributesPos := Mark q\<rparr> in
        bindR (ParseJSONObjectEnd q) (\<lambda>(b, q).
        Ok (True, Reset object_end_pos q, if b then fs else fs\<lparr>pa_hasAttributes := True\<rparr>)))))"

definition one_field :: "common_field option \<Rightarrow> parser \<Rightarrow> fields \<Rightarrow> (bool \<times> parser \<times> fields) res" where
  "one_field field p fs =
     (case field of
        Some FVer \<Rightarrow>
          bindR (ParseJSONNumber p) (\<lambda>(b, q).
          if \<not> b \<or> sp_number q \<noteq> Fin 1 then Ok (False, q, fs) else Ok (True, q, fs\<lparr>pa_hasVer := True\<rparr>))
      | Some FPrimitive \<Rightarrow>
          bindR (ParseJSONString p) (\<lambda>(b, q). if \<not> b then Ok (False, q, fs)
          else case primitive_of_json (sp_value q) of
            None \<Rightarrow> Ok (False, q, fs)
          | Some prim \<Rightarrow> Ok (True, q, fs\<lparr>pa_primitive := Some prim\<rparr>))
      | Some FTransactionId \<Rightarrow> number_field (\<lambda>i fs. fs\<lparr>pa_transactionId := Some i\<rparr>) p fs
      | Some FConferenceId \<Rightarrow> number_field (\<lambda>i fs. fs\<lparr>pa_conferenceId := Some i\<rparr>) p fs
      | Some FUserId \<Rightarrow> number_field (\<lambda>i fs. fs\<lparr>pa_userId := Some i\<rparr>) p fs
      | Some FAttributes \<Rightarrow> attributes_field p fs
      | None \<Rightarrow> bindR (SkipJSONValue p) (\<lambda>(b, q). Ok (True, q, fs)))"

lemma number_field_ahead: "number_field f p fs = Ok (b, q, fs') \<Longrightarrow> ahead p q"
  by (auto simp: number_field_def split: if_splits dest!: ParseJSONNumber_ahead)

lemma attributes_field_ahead:
  assumes "attributes_field p fs = Ok (b, q, fs')"
  shows "ahead p q"
  using assms
  by (auto simp: attributes_field_def Let_def Mark_def ahead_def Reset_def split: if_splits
      dest!: SkipJSONObject_ahead json_tokens_ahead(1,2))

lemma one_field_ahead: "one_field field p fs = Ok (b, q, fs') \<Longrightarrow> ahead p q"
  by (auto simp: one_field_def split: option.splits common_field.splits if_splits
      dest: ParseJSONNumber_ahead ParseJSONString_ahead number_field_ahead attributes_field_ahead SkipJSONValue_ahead)

function fields_loop :: "parser \<Rightarrow> fields \<Rightarrow> (bool \<times> parser \<times> fields) res" where
  "fields_loop p fs =
     bindR (ParseJSONString p) (\<lambda>(b, q). if \<not> b then Ok (False, q, fs)
     else let field = common_field_of_json (sp_value q) in
     bindR (ParseDoubleDot q) (\<lambda>(b, q). if \<not> b then Ok (False, q, fs)
     else bindR (one_field field q fs) (\<lambda>(b, q, fs). if \<not> b then Ok (False, q, fs)
     else bindR (ParseComma q) (\<lambda>(b, q). if b then fields_loop q fs else Ok (True, q, fs)))))"
  by pat_completeness auto
termination
  by (relation "measure (\<lambda>(p, m). remaining p)")
    (auto dest!: ParseJSONString_ahead [THEN ahead_remaining] json_tokens_ahead(6) [THEN ahead_remaining]
      one_field_ahead [THEN ahead_remaining] token_remaining(3))

declare fields_loop.simps [simp del]

section \<open>A message\<close>

text \<open>The object for the primitive; the others get a generic object whose attributes are not read.\<close>

definition message_for :: "primitive \<Rightarrow> int \<Rightarrow> int \<Rightarrow> int \<Rightarrow> bfcp_msg" where
  "message_for prim t c u =
     (case prim of
        PFloorRequest \<Rightarrow> BFCPMsgFloorRequest_new t c u
      | PFloorRelease \<Rightarrow> BFCPMsgFloorRelease_new t c u
      | PFloorQuery \<Rightarrow> BFCPMsgFloorQuery_new t c u
      | PHello \<Rightarrow> BFCPMsgHello_new t c u
      | _ \<Rightarrow> BFCPMessage_new prim t c u)"

definition parse_body :: "parser \<Rightarrow> fields \<Rightarrow> bfcp_msg \<Rightarrow> bfcp_msg option res" where
  "parse_body p fs m =
     (if \<not> pa_hasAttributes fs then Ok (Some m)
      else if m_body m = BaseMessage then Ok (Some m)
      else bindR (ParseAttributes (Reset (pa_attributesPos fs) p) m) (\<lambda>(b, q, m).
        Ok (if b \<and> msg_IsValid m then Some m else None)))"

text \<open>The mandatory fields are the version and the three numbers; the primitive is not among them.\<close>

definition Parse_root :: "parser \<Rightarrow> bfcp_msg option res" where
  "Parse_root p =
     bindR (ParseJSONObjectStart p) (\<lambda>(b, p). if \<not> b then Ok None
     else bindR (ParseJSONObjectEnd p) (\<lambda>(b, p). if b then Ok None
     else bindR (fields_loop p fields_new) (\<lambda>(b, p, fs). if \<not> b then Ok None
     else bindR (ParseJSONObjectEnd p) (\<lambda>(b, p). if \<not> b then Ok None
     else bindR (SkipJSONSpaces p) (\<lambda>p. if \<not> IsEnded p then Ok None
     else case (pa_hasVer fs, pa_transactionId fs, pa_conferenceId fs, pa_userId fs) of
       (True, Some t, Some c, Some u) \<Rightarrow>
         (case pa_primitive fs of
            None \<Rightarrow> Fault Uninitialised
          | Some prim \<Rightarrow> parse_body p fs (message_for prim t c u))
     | _ \<Rightarrow> Ok None)))))"

definition Parse :: "bool \<Rightarrow> bool \<Rightarrow> wstring \<Rightarrow> bfcp_msg option res" where
  "Parse einval erange json = Parse_root (parser_new einval erange json)"

end
