(* ===== verification/JSONTokens.thy ===== *)
theory JSONTokens
  imports BFCPParse
begin

text \<open>
  What the tokens of the JSON parser do on text that starts with the token, in terms of the text
  that is left (\<open>rest_is\<close>): spaces, punctuation, plain strings and decimal integers.
\<close>

definition rest_is :: "parser \<Rightarrow> wstring \<Rightarrow> bool" where
  "rest_is p s \<longleftrightarrow> GetLeft p = s \<and> sp_pos p \<le> sp_size p"

lemma rest_is_new: "rest_is (parser_new a b s) s"
  by (simp add: rest_is_def parser_new_def GetLeft_def)

lemma rest_is_size: "rest_is p s \<Longrightarrow> sp_size p = sp_pos p + length s"
  by (auto simp: rest_is_def GetLeft_def sp_size_def)

lemma rest_is_ended: "rest_is p s \<Longrightarrow> IsEnded p \<longleftrightarrow> s = []"
  using rest_is_size [of p s] by (auto simp: IsEnded_def)

lemma rest_is_char: "rest_is p (c # s) \<Longrightarrow> Get p = Ok c"
  using rest_is_size [of p "c # s"]
  by (auto simp: Get_def char_at_def rest_is_def GetLeft_def sp_size_def)
    (metis nth_via_drop)

lemma rest_is_check: "rest_is p s \<Longrightarrow> check P p = Ok (case s of [] \<Rightarrow> False | c # _ \<Rightarrow> P c)"
  by (auto simp: check_def rest_is_ended rest_is_char split: list.split)

lemma rest_is_Move: "rest_is p (w @ s) \<Longrightarrow> rest_is (Move (length w) p) s"
  using rest_is_size [of p "w @ s"]
  by (auto simp: rest_is_def Move_def GetLeft_def sp_size_def add.commute simp flip: drop_drop)

lemma rest_is_Next: "rest_is p (c # s) \<Longrightarrow> rest_is (Next p) s \<and> Next p = Move 1 p"
  using rest_is_Move [of p "[c]" s] rest_is_ended [of p "c # s"] by (simp add: Next_def Move_def)

lemma rest_is_update [simp]:
  "rest_is (p\<lparr>sp_value := v\<rparr>) s = rest_is p s" "rest_is (p\<lparr>sp_number := x\<rparr>) s = rest_is p s"
  "rest_is (push_value y p) s = rest_is p s"
  by (simp_all add: rest_is_def GetLeft_def sp_size_def push_value_def)

text \<open>The cursor has moved to \<open>s\<close>, and \<open>errno\<close> is as before.\<close>

definition moved :: "parser \<Rightarrow> wstring \<Rightarrow> parser \<Rightarrow> bool" where
  "moved p s q \<longleftrightarrow> rest_is q s \<and> sp_einval q = sp_einval p"

lemma moved_Next: "rest_is p (c # s) \<Longrightarrow> moved p s (Next p)"
  using rest_is_Next [of p c s] by (auto simp: moved_def Move_def)

lemma moved_trans: "moved p s q \<Longrightarrow> moved q t r \<Longrightarrow> moved p t r"
  by (simp add: moved_def)

lemma skip_check:
  "rest_is p (w @ s) \<Longrightarrow> \<forall>c \<in> set w. P c \<Longrightarrow> s = [] \<or> \<not> P (hd s) \<Longrightarrow>
     \<exists>q. skip_while (check P) p = Ok q \<and> moved p s q \<and> sp_pos q = sp_pos p + length w \<and>
       sp_value q = sp_value p \<and> sp_buffer q = sp_buffer p \<and> sp_number q = sp_number p"
proof (induction w arbitrary: p)
  case Nil
  then show ?case
    using rest_is_size [of p s] by (subst skip_while.simps)
      (auto simp: rest_is_ended rest_is_check moved_def split: list.split)
next
  case (Cons c w)
  then have r: "rest_is p (c # (w @ s))" by simp
  note n = rest_is_Next [OF r]
  from n Cons.IH [of "Next p"] Cons.prems obtain q where q:
    "skip_while (check P) (Next p) = Ok q" "moved (Next p) s q" "sp_pos q = sp_pos (Next p) + length w"
    "sp_value q = sp_value (Next p)" "sp_buffer q = sp_buffer (Next p)" "sp_number q = sp_number (Next p)" by auto
  have "skip_while (check P) p = skip_while (check P) (Next p)"
    using r Cons.prems(2) rest_is_size [OF r] by (subst skip_while.simps) (simp add: rest_is_ended rest_is_check)
  with q n show ?case by (auto simp: moved_def Move_def)
qed

definition json_blank :: "int \<Rightarrow> bool" where
  "json_blank c \<longleftrightarrow> c = 32 \<or> c = 9 \<or> c = 13 \<or> c = 10"

lemma SkipJSONSpaces_token:
  assumes "rest_is p (w @ s)" "\<forall>c \<in> set w. json_blank c" "s = [] \<or> \<not> json_blank (hd s)"
  shows "\<exists>q. SkipJSONSpaces p = Ok q \<and> moved p s q \<and> sp_value q = sp_value p \<and> sp_number q = sp_number p"
proof -
  have "CheckCharSet (L '' '' @ [9, 13, 10]) = check json_blank"
    by (simp add: CheckCharSet_def json_blank_def [abs_def] insert_iff)
  then show ?thesis
    using skip_check [OF assms] by (auto simp: SkipJSONSpaces_def SkipCharset_def)
qed

lemma json_char_token:
  assumes "rest_is p (w @ x # s)" "\<forall>c \<in> set w. json_blank c" "\<not> json_blank x"
  shows "\<exists>q. json_char x p = Ok (True, q) \<and> moved p s q \<and> sp_value q = sp_value p \<and> sp_number q = sp_number p"
proof -
  obtain q where q: "SkipJSONSpaces p = Ok q" "moved p (x # s) q" "sp_value q = sp_value p" "sp_number q = sp_number p"
    using SkipJSONSpaces_token [OF assms(1,2)] assms(3) by auto
  then have r: "rest_is q (x # s)" by (simp add: moved_def)
  with rest_is_Next [OF r] q show ?thesis
    by (auto simp: json_char_def ParseChar_def CheckChar_def rest_is_check moved_def Move_def)
qed

lemma json_char_no_token:
  assumes "rest_is p (w @ y # s)" "\<forall>c \<in> set w. json_blank c" "\<not> json_blank y" "y \<noteq> x"
  shows "\<exists>q. json_char x p = Ok (False, q) \<and> moved p (y # s) q \<and> sp_value q = sp_value p \<and> sp_number q = sp_number p"
proof -
  obtain q where q: "SkipJSONSpaces p = Ok q" "moved p (y # s) q" "sp_value q = sp_value p" "sp_number q = sp_number p"
    using SkipJSONSpaces_token [OF assms(1,2)] assms(3) by auto
  with assms(4) show ?thesis
    by (auto simp: json_char_def ParseChar_def CheckChar_def rest_is_check moved_def)
qed

definition plain :: "int \<Rightarrow> bool" where
  "plain c \<longleftrightarrow> 31 < c \<and> c \<noteq> 34 \<and> c \<noteq> 92"

lemma json_text_token:
  "rest_is p (t @ 34 # s) \<Longrightarrow> \<forall>c \<in> set t. plain c \<Longrightarrow>
     \<exists>q. json_text p = Ok (True, q) \<and> moved p (34 # s) q \<and> sp_value q = sp_value p @ t"
proof (induction t arbitrary: p)
  case Nil
  then have r: "rest_is p (34 # s)" by simp
  with rest_is_size [OF r] show ?case
    by (subst json_text.simps) (auto simp: rest_is_ended rest_is_char moved_def)
next
  case (Cons c t)
  then have r: "rest_is p (c # (t @ 34 # s))" by simp
  then have n: "rest_is (Next (push_value c p)) (t @ 34 # s)"
    using rest_is_Next [of "push_value c p" c "t @ 34 # s", THEN conjunct1] by simp
  have "json_text p = json_text (Next (push_value c p))"
    using r Cons.prems(2) rest_is_size [OF r]
    by (subst json_text.simps) (auto simp: rest_is_ended rest_is_char plain_def)
  moreover have "sp_einval (Next (push_value c p)) = sp_einval p" "sp_value (Next (push_value c p)) = sp_value p @ [c]"
    by (simp_all add: Next_def push_value_def)
  ultimately show ?case using Cons.IH [OF n] Cons.prems(2) by (auto simp: moved_def)
qed

lemma ParseJSONString_token:
  assumes "rest_is p (w @ 34 # t @ 34 # s)" "\<forall>c \<in> set w. json_blank c" "\<forall>c \<in> set t. plain c"
  shows "\<exists>q. ParseJSONString p = Ok (True, q) \<and> moved p s q \<and> sp_value q = t"
proof -
  obtain p1 where p1: "SkipJSONSpaces p = Ok p1" "moved p (34 # t @ 34 # s) p1"
    using SkipJSONSpaces_token [OF assms(1,2)] by (auto simp: json_blank_def)
  then have r1: "rest_is p1 (34 # t @ 34 # s)" by (simp add: moved_def)
  note n1 = rest_is_Next [OF r1]
  obtain p2 where p2: "json_text ((Next p1)\<lparr>sp_value := []\<rparr>) = Ok (True, p2)"
    "moved ((Next p1)\<lparr>sp_value := []\<rparr>) (34 # s) p2" "sp_value p2 = t"
    using json_text_token [of "(Next p1)\<lparr>sp_value := []\<rparr>" t s] n1 assms(3) by auto
  then have r2: "rest_is p2 (34 # s)" by (simp add: moved_def)
  from rest_is_Next [OF r2] p1 p2 n1 show ?thesis
    by (auto simp: ParseJSONString_def ParseChar_def CheckChar_def rest_is_check [OF r1] rest_is_check [OF r2]
        moved_def Move_def Let_def)
qed

section \<open>Decimal integers\<close>

lemma digits_value_append: "digits_value (xs @ ys) a = digits_value ys (digits_value xs a)"
  by (induction xs arbitrary: a) auto

lemma digits_value_udigits: "digits_value (udigits n) 0 = int n"
proof (induction n rule: udigits.induct)
  case (1 n)
  show ?case
  proof (cases "n < 10")
    case True
    then show ?thesis by (subst udigits.simps) simp
  next
    case False
    then have "udigits n = udigits (n div 10) @ [48 + int (n mod 10)]" by (subst udigits.simps) simp
    with "1.IH" [OF False] show ?thesis by (simp add: digits_value_append) presburger
  qed
qed

lemma udigits_digits: "\<forall>c \<in> set (udigits n). is_digit c"
  using udigits_range by (simp add: is_digit_def)

lemma udigits_zero: "hd (udigits n) = 48 \<Longrightarrow> n = 0"
proof (induction n rule: udigits.induct)
  case (1 n)
  show ?case
  proof (cases "n < 10")
    case True
    with "1.prems" show ?thesis by (subst (asm) udigits.simps) simp
  next
    case False
    then have "udigits n = udigits (n div 10) @ [48 + int (n mod 10)]" by (subst udigits.simps) simp
    with "1.prems" "1.IH" [OF False] False show ?thesis by simp
  qed
qed

lemma udigits_0: "udigits 0 = [48]"
  by (simp add: udigits.simps)

text \<open>What ends a number: not a digit, a point, an exponent or the mark of a hexadecimal number.\<close>

definition number_end :: "wstring \<Rightarrow> bool" where
  "number_end s \<longleftrightarrow> s = [] \<or> \<not> is_digit (hd s) \<and> hd s \<noteq> 46 \<and> hd s \<noteq> 69 \<and> hd s \<noteq> 101 \<and> hd s \<noteq> 88 \<and> hd s \<noteq> 120"

lemma takeWhile_udigits: "number_end s \<Longrightarrow> takeWhile is_digit (udigits n @ s) = udigits n"
  using udigits_digits by (cases s) (auto simp: number_end_def takeWhile_append2)

lemma decimal_udigits:
  assumes "number_end s"
  shows "decimal_number (udigits n @ s) = (of_int (int n), length (udigits n))"
proof -
  have "mantissa is_digit (udigits n @ s) = (udigits n, [], length (udigits n))"
    unfolding mantissa_def takeWhile_udigits [OF assms] Let_def
    using assms by (auto simp: number_end_def split: list.split)
  moreover have "exponent 101 s = (0, 0)"
    using assms by (cases s) (auto simp: exponent_def number_end_def lower_def Let_def)
  ultimately show ?thesis
    by (simp add: decimal_number_def digits_value_udigits rat_power_def)
qed

lemma digits_no_word: "starts_with (c # w) (udigits n @ s) \<Longrightarrow> 58 \<le> c \<or> c < 48 \<Longrightarrow> False"
proof -
  assume a: "starts_with (c # w) (udigits n @ s)" "58 \<le> c \<or> c < 48"
  obtain d ds where d: "udigits n = d # ds" by (cases "udigits n") auto
  with udigits_range [of n] have "48 \<le> d" "d \<le> 57" by auto
  with a d show False by (auto simp: starts_with_def lower_def)
qed

lemma digits_not_hex:
  assumes "number_end s"
  shows "\<not> starts_with (L ''0x'') (udigits n @ s)"
proof
  assume a: "starts_with (L ''0x'') (udigits n @ s)"
  obtain d ds where d: "udigits n = d # ds" by (cases "udigits n") auto
  with udigits_range [of n] have "48 \<le> d" "d \<le> 57" by auto
  with a d have "d = 48" by (auto simp: starts_with_def lower_def)
  with d udigits_zero [of n] have "n = 0" by simp
  with a assms show False
    by (cases s) (auto simp: starts_with_def udigits_0 number_end_def lower_def split: if_splits)
qed

lemma wcstofp_itoa:
  assumes "number_end s"
  shows "wcstofp rnd (itoa i @ s) = (rnd (of_int i), length (itoa i))"
proof -
  define n where "n = nat \<bar>i\<bar>"
  obtain d ds where d: "udigits n = d # ds" by (cases "udigits n") auto
  with udigits_range [of n] have r: "48 \<le> d" "d \<le> 57" by auto
  have itoa: "itoa i = (if i < 0 then [45] else []) @ udigits n"
    by (simp add: itoa_def n_def)
  have space: "takeWhile is_space (itoa i @ s) = []"
    using d r by (auto simp: itoa is_space_def)
  have sgn: "sign_length (itoa i @ s) = (if i < 0 then 1 else 0)" "is_negative (itoa i @ s) = (i < 0)"
    using d r by (auto simp: itoa sign_length_def is_negative_def)
  have u: "drop (if i < 0 then 1 else 0) (itoa i @ s) = udigits n @ s" by (simp add: itoa)
  have words: "\<not> starts_with (L ''infinity'') (udigits n @ s)" "\<not> starts_with (L ''inf'') (udigits n @ s)"
    "\<not> starts_with (L ''nan'') (udigits n @ s)"
    by (auto dest: digits_no_word)
  have val: "(if i < 0 then - rat_of_int (int n) else rat_of_int (int n)) = rat_of_int i"
    by (simp add: n_def)
  have "wcstofp rnd (itoa i @ s) =
      (rnd (if i < 0 then - rat_of_int (int n) else rat_of_int (int n)), (if i < 0 then 1 else 0) + length (udigits n))"
    unfolding wcstofp_def space sgn Let_def list.size drop_0 add_0 u decimal_udigits [OF assms] fst_conv snd_conv
    using words digits_not_hex [OF assms, of n] by (simp del: L_simps)
  then show ?thesis unfolding val by (simp add: itoa)
qed

lemma itoa_hd: "itoa i = c # cs \<Longrightarrow> \<not> json_blank c \<and> itoa i \<noteq> []"
  using udigits_range [of "nat i"] by (auto simp: itoa_def json_blank_def split: if_splits)

lemma itoa_nonempty [simp]: "itoa i \<noteq> []"
  by (simp add: itoa_def)

lemma ParseJSONNumber_token:
  assumes rest: "rest_is p (w @ itoa i @ s)" "\<forall>c \<in> set w. json_blank c" "number_end s" and i: "int32 i"
  shows "\<exists>q. ParseJSONNumber p = Ok (i \<noteq> 0 \<or> \<not> sp_einval p, q) \<and>
    (i \<noteq> 0 \<or> \<not> sp_einval p \<longrightarrow> moved p s q \<and> sp_number q = Fin (of_int i))"
proof -
  obtain c cs where c: "itoa i = c # cs" by (cases "itoa i") auto
  obtain p1 where p1: "SkipJSONSpaces p = Ok p1" "moved p (itoa i @ s) p1"
    using SkipJSONSpaces_token [OF rest(1,2)] itoa_hd [OF c] c by auto
  then have r1: "rest_is p1 (itoa i @ s)" by (simp add: moved_def)
  have "\<bar>i\<bar> < 2 ^ 32" using i by (auto simp: int32_def)
  then have v: "wcstold (GetLeft p1) = (Fin (of_int i), length (itoa i))"
    using r1 by (simp add: rest_is_def wcstold_def wcstofp_itoa [OF rest(3)] long_double_int)
  define p2 where "p2 = Move (length (itoa i)) (p1\<lparr>sp_number := Fin (of_int i)\<rparr>)"
  have r2: "rest_is p2 s" unfolding p2_def by (rule rest_is_Move) (simp add: r1)
  have "CheckCharSet (L ''Ee'') p2 = Ok False"
    using rest(3) by (cases s) (auto simp: CheckCharSet_def rest_is_check [OF r2] number_end_def)
  moreover have "sp_einval p2 = sp_einval p" "sp_number p2 = Fin (of_int i)" "sp_einval p1 = sp_einval p"
    using p1(2) by (simp_all add: p2_def Move_def moved_def)
  ultimately show ?thesis using p1(1) v r2
    by (cases "i = 0 \<and> sp_einval p")
      (auto simp: ParseJSONNumber_def Let_def Mark_def p2_def [symmetric] moved_def)
qed

end
