(* ===== verification/BFCPParseProperties.thy ===== *)
theory BFCPParseProperties
  imports JSONTokens BFCPProperties
begin

text \<open>
  The parser of BFCP messages: it ends on every input, what it accepts can be processed (with one
  exception), what the server prints is read back, and the inputs on which it goes wrong.
\<close>

section \<open>Every loop ends\<close>

lemma fuelled_int_value [simp]: "fuelled (int_value p)"
  by (simp add: int_value_def)

lemma fuelled_accessors [simp]:
  "fuelled (msg_AddFloorId f m)" "fuelled (msg_SetBeneficiaryId b m)"
  "fuelled (msg_SetParticipantProvidedInfo s m)" "fuelled (msg_SetFloorRequestId i m)"
  by (cases "m_body m"; simp)+

lemma fuelled_floor_id_list [simp]: "fuelled (floor_id_list p m)"
proof (induction "remaining p" arbitrary: p m rule: less_induct)
  case less
  have rec: "fuelled (floor_id_list s m1)" if "ParseJSONNumber p = Ok (b, r)" "ParseComma r = Ok (True, s)" for b r s m1
    using ParseJSONNumber_ahead [OF that(1)] token_remaining(3) [OF that(2)]
    by (intro less.hyps) (auto dest: ahead_remaining)
  show ?case
    by (subst floor_id_list.simps) (auto simp del: msg_AddFloorId.simps, (blast intro: rec)+)
qed

lemma fuelled_values [simp]:
  "fuelled (floor_id_array p m)" "fuelled (skipped_attribute p m)"
  "(\<And>i m. fuelled (f i m)) \<Longrightarrow> fuelled (number_attribute f p m)"
  "(\<And>s m. fuelled (g s m)) \<Longrightarrow> fuelled (text_attribute g p m)"
  by (auto simp: floor_id_array_def skipped_attribute_def number_attribute_def text_attribute_def)

lemma fuelled_attribute_value [simp]: "fuelled (attribute_value a p m)"
  by (simp add: attribute_value_def FloorRequest_attribute_def FloorRelease_attribute_def
      FloorQuery_attribute_def del: msg_SetBeneficiaryId.simps msg_SetParticipantProvidedInfo.simps
      msg_SetFloorRequestId.simps split: msg_body.split option.split attr_name.split)

lemma fuelled_attributes_loop [simp]: "fuelled (attributes_loop p m)"
proof (induction "remaining p" arbitrary: p m rule: less_induct)
  case less
  have rec: "fuelled (attributes_loop t m1)"
    if "ParseJSONString p = Ok (b, q)" "ParseDoubleDot q = Ok (c, r)" "attribute_value a r m = Ok (d, s, m1)"
      "ParseComma s = Ok (True, t)" for a b c d q r s t m1
    using ParseJSONString_ahead [OF that(1)] json_tokens_ahead(6) [OF that(2)] attribute_value_ahead [OF that(3)]
      token_remaining(3) [OF that(4)]
    by (intro less.hyps) (auto dest!: ahead_remaining)
  show ?case by (subst attributes_loop.simps) (auto simp: Let_def, (blast intro: rec)+)
qed

lemma fuelled_one_field [simp]: "fuelled (one_field field p fs)"
  by (auto simp: one_field_def number_field_def attributes_field_def Let_def
      split: option.split common_field.split)

lemma fuelled_fields_loop [simp]: "fuelled (fields_loop p fs)"
proof (induction "remaining p" arbitrary: p fs rule: less_induct)
  case less
  have rec: "fuelled (fields_loop t fs1)"
    if "ParseJSONString p = Ok (b, q)" "ParseDoubleDot q = Ok (c, r)" "one_field a r fs = Ok (d, s, fs1)"
      "ParseComma s = Ok (True, t)" for a b c d q r s t fs1
    using ParseJSONString_ahead [OF that(1)] json_tokens_ahead(6) [OF that(2)] one_field_ahead [OF that(3)]
      token_remaining(3) [OF that(4)]
    by (intro less.hyps) (auto dest!: ahead_remaining)
  show ?case by (subst fields_loop.simps) (auto simp: Let_def, (blast intro: rec)+)
qed

lemma fuelled_Parse [simp]: "fuelled (Parse einval erange s)"
  by (auto simp: Parse_def Parse_root_def parse_body_def ParseAttributes_def
      split: option.split bool.split msg_body.split)

section \<open>What is accepted\<close>

definition kept :: "bfcp_msg \<Rightarrow> bfcp_msg \<Rightarrow> bool" where
  "kept m m' \<longleftrightarrow> m_primitive m' = m_primitive m \<and> m_transactionId m' = m_transactionId m \<and>
     m_conferenceId m' = m_conferenceId m \<and> m_userId m' = m_userId m \<and>
     (case m_body m of
        MsgFloorRequest _ \<Rightarrow> \<exists>r. m_body m' = MsgFloorRequest r
      | MsgFloorRelease _ \<Rightarrow> \<exists>r. m_body m' = MsgFloorRelease r
      | MsgFloorQuery _ \<Rightarrow> \<exists>r. m_body m' = MsgFloorQuery r
      | b \<Rightarrow> m_body m' = b)"

lemma kept_refl [simp]: "kept m m"
  by (simp add: kept_def split: msg_body.split)

lemma kept_trans: "kept m m' \<Longrightarrow> kept m' m'' \<Longrightarrow> kept m m''"
  by (auto simp: kept_def split: msg_body.splits)

lemma accessors_kept:
  "msg_AddFloorId f m = Ok m' \<Longrightarrow> kept m m'" "msg_SetBeneficiaryId b m = Ok m' \<Longrightarrow> kept m m'"
  "msg_SetParticipantProvidedInfo s m = Ok m' \<Longrightarrow> kept m m'" "msg_SetFloorRequestId i m = Ok m' \<Longrightarrow> kept m m'"
  by (auto simp: kept_def split: msg_body.splits)

lemma floor_id_list_kept: "floor_id_list p m = Ok (b, q, m') \<Longrightarrow> kept m m'"
proof (induction "remaining p" arbitrary: p m rule: less_induct)
  case less
  have rec: "kept m m'" if "ParseJSONNumber p = Ok (c, r)" "ParseComma r = Ok (True, s)"
    "msg_AddFloorId f m = Ok m1" "floor_id_list s m1 = Ok (b, q, m')" for c r s f m1
  proof (rule kept_trans)
    show "kept m m1" using that(3) by (rule accessors_kept)
    show "kept m1 m'" using ParseJSONNumber_ahead [OF that(1)] token_remaining(3) [OF that(2)] that(4)
      by (intro less.hyps) (auto dest: ahead_remaining)
  qed
  from less.prems show ?case
    by (subst (asm) floor_id_list.simps)
      (auto simp del: msg_AddFloorId.simps split: if_splits, (blast intro: rec accessors_kept)+)
qed

lemma floor_id_array_kept: "floor_id_array p m = Ok (b, q, m') \<Longrightarrow> kept m m'"
  by (auto simp: floor_id_array_def split: if_splits) (erule floor_id_list_kept)+

lemma values_kept:
  "floor_id_array p m = Ok (b, q, m') \<Longrightarrow> kept m m'" "skipped_attribute p m = Ok (b, q, m') \<Longrightarrow> kept m m'"
  "number_attribute f p m = Ok (b, q, m') \<Longrightarrow> (\<And>i m m'. f i m = Ok m' \<Longrightarrow> kept m m') \<Longrightarrow> kept m m'"
  "text_attribute g p m = Ok (b, q, m') \<Longrightarrow> (\<And>i m m'. g i m = Ok m' \<Longrightarrow> kept m m') \<Longrightarrow> kept m m'"
  by (auto simp: skipped_attribute_def number_attribute_def text_attribute_def
      split: if_splits dest: floor_id_array_kept)

lemma class_attribute_kept:
  "FloorRequest_attribute a p m = Ok (b, q, m') \<Longrightarrow> kept m m'"
  "FloorRelease_attribute a p m = Ok (b, q, m') \<Longrightarrow> kept m m'"
  "FloorQuery_attribute a p m = Ok (b, q, m') \<Longrightarrow> kept m m'"
  unfolding FloorRequest_attribute_def FloorRelease_attribute_def FloorQuery_attribute_def
  by (simp split: option.split_asm attr_name.split_asm,
      (erule values_kept(1,2) | erule values_kept(3,4), erule accessors_kept)+)+

lemma attribute_value_kept: "attribute_value a p m = Ok (b, q, m') \<Longrightarrow> kept m m'"
  unfolding attribute_value_def by (simp split: msg_body.split_asm, (erule class_attribute_kept)+)

lemma attributes_loop_kept: "attributes_loop p m = Ok (b, q, m') \<Longrightarrow> kept m m'"
proof (induction "remaining p" arbitrary: p m rule: less_induct)
  case less
  have rec: "kept m m'"
    if "ParseJSONString p = Ok (b1, q1)" "ParseDoubleDot q1 = Ok (c, r)" "attribute_value a r m = Ok (d, s, m1)"
      "ParseComma s = Ok (True, t)" "attributes_loop t m1 = Ok (b, q, m')" for a b1 c d q1 r s t m1
  proof (rule kept_trans)
    show "kept m m1" using that(3) by (rule attribute_value_kept)
    show "kept m1 m'"
      using ParseJSONString_ahead [OF that(1)] json_tokens_ahead(6) [OF that(2)] attribute_value_ahead [OF that(3)]
        token_remaining(3) [OF that(4)] that(5)
      by (intro less.hyps) (auto dest!: ahead_remaining)
  qed
  from less.prems show ?case
    by (subst (asm) attributes_loop.simps)
      (auto simp: Let_def split: if_splits, (blast intro: rec attribute_value_kept)+)
qed

lemma ParseAttributes_kept: "ParseAttributes p m = Ok (b, q, m') \<Longrightarrow> kept m m'"
  by (auto simp: ParseAttributes_def split: msg_body.splits dest: attributes_loop_kept)

lemma parse_body_kept: "parse_body p fs m = Ok (Some m') \<Longrightarrow> kept m m'"
  by (auto simp: parse_body_def split: if_splits dest: ParseAttributes_kept)

text \<open>An accepted message carries the fields that were read, and is of the class of its primitive.\<close>

lemma Parse_accepted:
  assumes "Parse einval erange s = Ok (Some m)"
  shows "\<exists>prim t c u p fs. parse_body p fs (message_for prim t c u) = Ok (Some m)"
  using assms
  by (auto simp: Parse_def Parse_root_def split: if_splits option.splits bool.splits) blast?

lemma message_for_fields [simp]:
  "m_primitive (message_for prim t c u) = prim" "m_transactionId (message_for prim t c u) = t"
  "m_conferenceId (message_for prim t c u) = c" "m_userId (message_for prim t c u) = u"
  by (cases prim; simp add: message_for_def BFCPMessage_new_def BFCPMsgFloorRequest_new_def
      BFCPMsgFloorRelease_new_def BFCPMsgFloorQuery_new_def BFCPMsgHello_new_def)+

lemma message_for_body:
  "m_body (message_for prim t c u) =
     (case prim of
        PFloorRequest \<Rightarrow> MsgFloorRequest
          \<lparr>mfr_floorIds = [], mfr_beneficiaryId = None, mfr_participantProvidedInfo = None\<rparr>
      | PFloorRelease \<Rightarrow> MsgFloorRelease \<lparr>mrl_floorRequestId = None\<rparr>
      | PFloorQuery \<Rightarrow> MsgFloorQuery \<lparr>mfq_floorIds = []\<rparr>
      | PHello \<Rightarrow> MsgHello
      | _ \<Rightarrow> BaseMessage)"
  by (cases prim; simp add: message_for_def BFCPMessage_new_def BFCPMsgFloorRequest_new_def
      BFCPMsgFloorRelease_new_def BFCPMsgFloorQuery_new_def BFCPMsgHello_new_def)

definition no_request_id :: "bfcp_msg \<Rightarrow> bool" where
  "no_request_id m \<longleftrightarrow> m_primitive m = PFloorRelease \<and> m_body m = MsgFloorRelease \<lparr>mrl_floorRequestId = None\<rparr>"

lemma kept_well_formed:
  assumes "kept (message_for prim t c u) m"
  shows "well_formed m \<or> no_request_id m"
proof (cases "prim = PFloorRelease")
  case True
  with assms obtain r where "m_primitive m = PFloorRelease" "m_body m = MsgFloorRelease r"
    by (auto simp: kept_def message_for_body)
  then show ?thesis
    by (cases "mrl_floorRequestId r")
      (auto simp: well_formed_def no_request_id_def floor_release_GetFloorRequestId_def)
next
  case False
  with assms show ?thesis
    by (cases prim) (auto simp: kept_def message_for_body well_formed_def)
qed

section \<open>What the server prints is read back\<close>

definition item :: "string \<Rightarrow> wstring \<Rightarrow> wstring" where
  "item label v = 34 # L label @ 34 # 58 # v"

lemma header_items:
  "StringifyCommonHeader m @ t =
     10 # item ''ver'' (32 # itoa 1) @ 44 # 10 # item ''primitive'' (32 # 34 # mapPrimitive2JsonStr (m_primitive m) @ [34]) @
     44 # 10 # item ''transactionId'' (32 # itoa (m_transactionId m)) @
     44 # 10 # item ''conferenceId'' (32 # itoa (m_conferenceId m)) @
     44 # 10 # item ''userId'' (32 # itoa (m_userId m)) @ t"
  by (simp add: StringifyCommonHeader_def item_def itoa_def udigits.simps)

text \<open>
  A member the loop of the header accepts, and a text of members separated by commas.
\<close>

definition good_item :: "string \<Rightarrow> wstring \<Rightarrow> fields \<Rightarrow> fields \<Rightarrow> bool" where
  "good_item label v fs fs' \<longleftrightarrow> (\<forall>c \<in> set (L label). plain c) \<and>
     (\<forall>q s. rest_is q (v @ s) \<and> \<not> sp_einval q \<and> number_end s \<longrightarrow>
        (\<exists>r. one_field (common_field_of_json (L label)) q fs = Ok (True, r, fs') \<and> moved q s r))"

inductive reads :: "wstring \<Rightarrow> fields \<Rightarrow> fields \<Rightarrow> bool" where
  reads_one: "good_item label v fs fs' \<Longrightarrow> reads (item label v) fs fs'"
| reads_more: "good_item label v fs f1 \<Longrightarrow> reads t f1 fs' \<Longrightarrow> reads (item label v @ 44 # 10 # t) fs fs'"

lemma number_end_char [simp]: "number_end (44 # s)" "number_end (10 # s)" "number_end (125 # s)"
  by (simp_all add: number_end_def is_digit_def)

lemma json_blank_newline [simp]: "json_blank 10"
  by (simp add: json_blank_def)

lemma field_item:
  assumes p: "rest_is p (w @ item label v @ s)" "\<forall>c \<in> set w. json_blank c" "\<not> sp_einval p"
    and good: "good_item label v fs fs'" "number_end s"
  shows "\<exists>r. moved p s r \<and>
    fields_loop p fs = bindR (ParseComma r) (\<lambda>(b, q). if b then fields_loop q fs' else Ok (True, q, fs'))"
proof -
  obtain p1 where p1: "ParseJSONString p = Ok (True, p1)" "moved p (58 # v @ s) p1" "sp_value p1 = L label"
    using ParseJSONString_token [of p w "L label" "58 # v @ s"] p good(1)
    by (auto simp: item_def good_item_def)
  obtain p2 where p2: "ParseDoubleDot p1 = Ok (True, p2)" "moved p1 (v @ s) p2"
    using json_char_token [of p1 "[]" 58 "v @ s"] p1(2)
    by (auto simp: ParseDoubleDot_def json_blank_def moved_def)
  have "rest_is p2 (v @ s)" "\<not> sp_einval p2" using p1(2) p2(2) p(3) by (simp_all add: moved_def)
  with good obtain r where
    r: "one_field (common_field_of_json (L label)) p2 fs = Ok (True, r, fs')" "moved p2 s r"
    unfolding good_item_def by blast
  from moved_trans [OF moved_trans [OF p1(2) p2(2)] r(2)] p1 p2 r(1) show ?thesis
    by (subst fields_loop.simps) (auto simp: Let_def)
qed

lemma reads_loop:
  assumes "reads t fs fs'" "rest_is p (w @ t @ 10 # y # s)" "\<forall>c \<in> set w. json_blank c" "\<not> sp_einval p"
    and y: "\<not> json_blank y" "y \<noteq> 44"
  shows "\<exists>r. moved p (y # s) r \<and> fields_loop p fs = Ok (True, r, fs')"
  using assms(1-4)
proof (induction arbitrary: p w rule: reads.induct)
  case (reads_one label v fs fs')
  from field_item [OF reads_one.prems reads_one.hyps] obtain r where r: "moved p (10 # y # s) r"
    "fields_loop p fs = bindR (ParseComma r) (\<lambda>(b, q). if b then fields_loop q fs' else Ok (True, q, fs'))"
    by auto
  obtain q where q: "ParseComma r = Ok (False, q)" "moved r (y # s) q"
    using json_char_no_token [of r "[10]" y s 44] r(1) y by (auto simp: ParseComma_def moved_def)
  from moved_trans [OF r(1) q(2)] r(2) q(1) show ?case by auto
next
  case (reads_more label v fs f1 t fs')
  have "rest_is p (w @ item label v @ 44 # 10 # t @ 10 # y # s)" using reads_more.prems(1) by simp
  from field_item [OF this reads_more.prems(2,3) reads_more.hyps(1)] obtain r where
    r: "moved p (44 # 10 # t @ 10 # y # s) r"
      "fields_loop p fs = bindR (ParseComma r) (\<lambda>(b, q). if b then fields_loop q f1 else Ok (True, q, f1))"
    by auto
  obtain q where q: "ParseComma r = Ok (True, q)" "moved r (10 # t @ 10 # y # s) q"
    using json_char_token [of r "[]" 44 "10 # t @ 10 # y # s"] r(1)
    by (auto simp: ParseComma_def json_blank_def moved_def)
  have pq: "moved p (10 # t @ 10 # y # s) q" using r(1) q(2) by (rule moved_trans)
  from reads_more.IH [of q "[10]"] pq reads_more.prems(3) obtain e where
    e: "moved q (y # s) e" "fields_loop q f1 = Ok (True, e, fs')" by (auto simp: moved_def)
  from moved_trans [OF pq e(1)] e(2) q(1) r(2) show ?case by auto
qed

lemma Parse_reads:
  assumes t: "reads t fields_new fs" and e: "\<not> einval"
  shows "\<exists>p. Parse einval erange (123 # 10 # t @ [10, 125]) =
    (case (pa_hasVer fs, pa_transactionId fs, pa_conferenceId fs, pa_userId fs) of
       (True, Some i, Some c, Some u) \<Rightarrow>
         (case pa_primitive fs of None \<Rightarrow> Fault Uninitialised
          | Some prim \<Rightarrow> parse_body p fs (message_for prim i c u))
     | _ \<Rightarrow> Ok None)"
proof -
  define p where "p = parser_new einval erange (123 # 10 # t @ [10, 125])"
  obtain h where h: "t = 34 # h" using t by cases (simp_all add: item_def)
  have p: "rest_is p (123 # 10 # t @ [10, 125])" "\<not> sp_einval p"
    using e rest_is_new unfolding p_def by (blast, simp add: parser_new_def)
  obtain p1 where p1: "ParseJSONObjectStart p = Ok (True, p1)" "moved p (10 # t @ [10, 125]) p1"
    using json_char_token [of p "[]" 123] p(1) by (auto simp: ParseJSONObjectStart_def json_blank_def)
  obtain p2 where p2: "ParseJSONObjectEnd p1 = Ok (False, p2)" "moved p1 (t @ [10, 125]) p2"
    using json_char_no_token [of p1 "[10]" 34 "h @ [10, 125]" 125] p1(2)
    by (auto simp: ParseJSONObjectEnd_def json_blank_def moved_def h)
  have e2: "\<not> sp_einval p2" "rest_is p2 ([] @ t @ 10 # 125 # [])" using p1 p2 p(2) by (simp_all add: moved_def)
  from reads_loop [OF t e2(2) _ e2(1)] obtain p3 where
    p3: "moved p2 [125] p3" "fields_loop p2 fields_new = Ok (True, p3, fs)" by (auto simp: json_blank_def)
  obtain p4 where p4: "ParseJSONObjectEnd p3 = Ok (True, p4)" "rest_is p4 []"
    using json_char_token [of p3 "[]" 125 "[]"] p3(1) by (auto simp: ParseJSONObjectEnd_def json_blank_def moved_def)
  obtain p5 where p5: "SkipJSONSpaces p4 = Ok p5" "rest_is p5 []"
    using SkipJSONSpaces_token [of p4 "[]" "[]"] p4(2) by (auto simp: moved_def)
  show ?thesis
    by (rule exI [of _ p5]) (simp add: Parse_def p_def [symmetric] Parse_root_def p1(1) p2(1) p3(2) p4(1) p5(1)
        rest_is_ended [OF p5(2)] cong: if_cong)
qed

section \<open>The members of a header\<close>

lemma common_names:
  "common_field_of_json (L ''ver'') = Some FVer" "common_field_of_json (L ''primitive'') = Some FPrimitive"
  "common_field_of_json (L ''transactionId'') = Some FTransactionId"
  "common_field_of_json (L ''conferenceId'') = Some FConferenceId"
  "common_field_of_json (L ''userId'') = Some FUserId"
  by (simp_all add: common_field_of_json_def mapJsonStr2CommonField_def)

lemma plain_names:
  "\<forall>c \<in> set (L ''ver''). plain c" "\<forall>c \<in> set (L ''primitive''). plain c"
  "\<forall>c \<in> set (L ''transactionId''). plain c" "\<forall>c \<in> set (L ''conferenceId''). plain c"
  "\<forall>c \<in> set (L ''userId''). plain c" "\<forall>c \<in> set (mapPrimitive2JsonStr prim). plain c"
  by (simp_all add: plain_def) (cases prim; simp)

lemma number_value_token:
  assumes "rest_is q ((32 # itoa i) @ s)" "\<not> sp_einval q" "int32 i" "number_end s"
  shows "\<exists>r. number_field f q fs = Ok (True, r, f i fs) \<and> moved q s r"
  using ParseJSONNumber_token [of q "[32]" i s] assms
  by (auto simp: number_field_def int_value_def json_blank_def fp_to_int32 simp del: fp_to_integer.simps)

lemma good_items:
  "good_item ''ver'' (32 # itoa 1) fs (fs\<lparr>pa_hasVer := True\<rparr>)"
  "good_item ''primitive'' (32 # 34 # mapPrimitive2JsonStr prim @ [34]) fs (fs\<lparr>pa_primitive := Some prim\<rparr>)"
  "int32 i \<Longrightarrow> good_item ''transactionId'' (32 # itoa i) fs (fs\<lparr>pa_transactionId := Some i\<rparr>)"
  "int32 i \<Longrightarrow> good_item ''conferenceId'' (32 # itoa i) fs (fs\<lparr>pa_conferenceId := Some i\<rparr>)"
  "int32 i \<Longrightarrow> good_item ''userId'' (32 # itoa i) fs (fs\<lparr>pa_userId := Some i\<rparr>)"
proof -
  have "\<exists>r. one_field (Some FVer) q fs = Ok (True, r, fs\<lparr>pa_hasVer := True\<rparr>) \<and> moved q s r"
    if "rest_is q ((32 # itoa 1) @ s)" "number_end s" for q s
    using ParseJSONNumber_token [of q "[32]" 1 s] that by (auto simp: one_field_def json_blank_def int32_def)
  then show "good_item ''ver'' (32 # itoa 1) fs (fs\<lparr>pa_hasVer := True\<rparr>)"
    unfolding good_item_def common_names using plain_names(1) by blast
  have "\<exists>r. one_field (Some FPrimitive) q fs = Ok (True, r, fs\<lparr>pa_primitive := Some prim\<rparr>) \<and> moved q s r"
    if "rest_is q ((32 # 34 # mapPrimitive2JsonStr prim @ [34]) @ s)" for q s
    using ParseJSONString_token [of q "[32]" "mapPrimitive2JsonStr prim" s] plain_names(6) that
    by (auto simp: one_field_def json_blank_def primitive_roundtrip)
  then show "good_item ''primitive'' (32 # 34 # mapPrimitive2JsonStr prim @ [34]) fs (fs\<lparr>pa_primitive := Some prim\<rparr>)"
    unfolding good_item_def common_names using plain_names(2) by blast
qed (unfold good_item_def common_names one_field_def option.case common_field.case,
  (use plain_names number_value_token in blast)+)

lemma Parse_Stringify:
  assumes b: "m_body m = BaseMessage \<or> m_body m = MsgHello" and e: "\<not> einval"
    and n: "int32 (m_transactionId m)" "int32 (m_conferenceId m)" "int32 (m_userId m)"
  shows "Parse einval erange (Stringify m) =
    Ok (Some (message_for (m_primitive m) (m_transactionId m) (m_conferenceId m) (m_userId m)))"
proof -
  obtain t where t: "Stringify m = 123 # 10 # t @ [10, 125]"
    "reads t fields_new (fields_new\<lparr>pa_hasVer := True, pa_primitive := Some (m_primitive m),
      pa_transactionId := Some (m_transactionId m), pa_conferenceId := Some (m_conferenceId m),
      pa_userId := Some (m_userId m)\<rparr>)"
  proof
    show "reads (item ''ver'' (32 # itoa 1) @ 44 # 10 #
      item ''primitive'' (32 # 34 # mapPrimitive2JsonStr (m_primitive m) @ [34]) @ 44 # 10 #
      item ''transactionId'' (32 # itoa (m_transactionId m)) @ 44 # 10 #
      item ''conferenceId'' (32 # itoa (m_conferenceId m)) @ 44 # 10 # item ''userId'' (32 # itoa (m_userId m)))
      fields_new (fields_new\<lparr>pa_hasVer := True, pa_primitive := Some (m_primitive m),
        pa_transactionId := Some (m_transactionId m), pa_conferenceId := Some (m_conferenceId m),
        pa_userId := Some (m_userId m)\<rparr>)"
      by (rule reads_more reads_one good_items n)+
  qed (use b header_items [of m "[10, 125]"] in \<open>auto simp: Stringify_def msg_attributes_def\<close>)
  from Parse_reads [OF t(2) e] show ?thesis by (simp add: t(1) fields_new_def parse_body_def)
qed

text \<open>The same header without its primitive.\<close>

definition header_without_primitive :: "int \<Rightarrow> int \<Rightarrow> int \<Rightarrow> wstring" where
  "header_without_primitive i c u =
     123 # 10 # (item ''ver'' (32 # itoa 1) @ 44 # 10 # item ''transactionId'' (32 # itoa i) @ 44 # 10 #
       item ''conferenceId'' (32 # itoa c) @ 44 # 10 # item ''userId'' (32 # itoa u)) @ [10, 125]"

lemma Parse_without_primitive:
  assumes n: "int32 i" "int32 c" "int32 u" and e: "\<not> einval"
  shows "Parse einval erange (header_without_primitive i c u) = Fault Uninitialised"
proof -
  have "reads (item ''ver'' (32 # itoa 1) @ 44 # 10 # item ''transactionId'' (32 # itoa i) @ 44 # 10 #
      item ''conferenceId'' (32 # itoa c) @ 44 # 10 # item ''userId'' (32 # itoa u))
    fields_new (fields_new\<lparr>pa_hasVer := True, pa_transactionId := Some i, pa_conferenceId := Some c,
      pa_userId := Some u\<rparr>)"
    by (rule reads_more reads_one good_items n)+
  from Parse_reads [OF this e] show ?thesis by (simp add: header_without_primitive_def fields_new_def)
qed

section \<open>The properties\<close>

text \<open>C39: Reading a message ends on every text, whatever its nesting and its escapes: no loop of the parser,
  of the header or of the attributes goes on forever, and no recursion is deeper than the text is long.\<close>

theorem Parse_ends: "Parse einval erange s \<noteq> Fault OutOfFuel"
  using fuelled_Parse by (simp add: fuelled_def)

text \<open>C38: A text that is accepted yields a message the server can process: the object is of the class
  its primitive names and can be logged.  The exception is a FloorRelease without a floorRequestId, which is
  only refused when the text has attributes.\<close>

theorem accepted_messages_are_well_formed:
  assumes "Parse einval erange s = Ok (Some m)"
  shows "well_formed m \<or> no_request_id m"
  using Parse_accepted [OF assms] kept_well_formed parse_body_kept by blast

lemma example_numbers [simp]: "int32 3" "int32 7" "int32 8"
  by (simp_all add: int32_def)

definition ex_hello :: bfcp_msg where
  "ex_hello = BFCPMsgHello_new 3 1 7"

lemma ex_hello_fields [simp]:
  "m_primitive ex_hello = PHello" "m_transactionId ex_hello = 3" "m_conferenceId ex_hello = 1"
  "m_userId ex_hello = 7" "m_body ex_hello = MsgHello"
  by (simp_all add: ex_hello_def BFCPMsgHello_new_def BFCPMessage_new_def)

lemma int32_one [simp]: "int32 1"
  by (simp add: int32_def)

lemma Parse_ex_hello: "Parse False er (Stringify ex_hello) = Ok (Some ex_hello)"
  using Parse_Stringify [of ex_hello False er] by (simp add: message_for_def ex_hello_def [symmetric])

theorem accepted_messages_are_well_formed_witness: "well_formed ex_hello"
  using accepted_messages_are_well_formed [OF Parse_ex_hello [of False]] by (simp add: no_request_id_def)



text \<open>What is printed is read back: a message without attributes, a Hello for one, yields the text from
  which the parser makes the object of the same primitive with the same three numbers, for all \<open>int\<close> values,
  when no earlier call of the thread has left \<open>EINVAL\<close> in \<open>errno\<close>.\<close>

theorem header_is_read_back:
  assumes "m_body m = BaseMessage \<or> m_body m = MsgHello" "\<not> einval"
    and "int32 (m_transactionId m)" "int32 (m_conferenceId m)" "int32 (m_userId m)"
  shows "Parse einval erange (Stringify m) =
    Ok (Some (message_for (m_primitive m) (m_transactionId m) (m_conferenceId m) (m_userId m)))"
  using assms by (rule Parse_Stringify)

theorem header_is_read_back_witness:
  "Parse False False (Stringify ex_hello) = Ok (Some (message_for PHello 3 1 7))"
  using header_is_read_back [of ex_hello False] by simp

text \<open>A FloorRelease without attributes gets through the parser, and the server does not answer it:
  logging the message reads the attribute that is not there and throws \<open>AttributeNotFound\<close> out of
  \<open>MessageReceived\<close>, in every conference that is not ending, for every user.\<close>

theorem bare_release_throws:
  assumes "int32 t" "int32 c" "int32 u"
  shows "\<exists>m. Parse False erange (Stringify (BFCPMessage_new PFloorRelease t c u)) = Ok (Some m) \<and>
    MessageReceived m conf =
      (if c_ending conf then Ok conf else Fault (Thrown ''AttributeNotFound: floorRequestId''))"
proof
  let ?m = "BFCPMessage_new PFloorRelease t c u"
  show "Parse False erange (Stringify ?m) = Ok (Some (BFCPMsgFloorRelease_new t c u)) \<and>
    MessageReceived (BFCPMsgFloorRelease_new t c u) conf =
      (if c_ending conf then Ok conf else Fault (Thrown ''AttributeNotFound: floorRequestId''))"
    using Parse_Stringify [of ?m False erange] assms
    by (simp add: BFCPMessage_new_def message_for_def MessageReceived_def BFCPMsgFloorRelease_new_def
        floor_release_GetFloorRequestId_def)
qed

theorem bare_release_throws_witness:
  "\<exists>m. MessageReceived m ex_conf = Fault (Thrown ''AttributeNotFound: floorRequestId'')"
  using bare_release_throws [of 3 1 8 False ex_conf] by (auto simp: ex_users(4))

text \<open>A header with the version and the three numbers but no primitive passes the check of the mandatory
  fields; the code then switches on a variable nothing has been assigned to.\<close>

theorem missing_primitive_is_not_noticed:
  assumes "int32 i" "int32 c" "int32 u"
  shows "Parse False erange (header_without_primitive i c u) = Fault Uninitialised"
  using Parse_without_primitive [OF assms] by blast

theorem missing_primitive_is_not_noticed_witness:
  "Parse False False (header_without_primitive 3 1 8) = Fault Uninitialised"
  by (rule missing_primitive_is_not_noticed) simp_all

section \<open>Numbers\<close>

text \<open>A number is read exactly: after blanks, the decimal form of any \<open>int\<close> that no point, exponent or
  further digit follows is taken whole and leaves the cursor right behind it.\<close>

theorem integers_are_read_exactly:
  assumes "rest_is p (w @ itoa i @ s)" "\<forall>c \<in> set w. json_blank c" "number_end s" "int32 i" "i \<noteq> 0 \<or> \<not> sp_einval p"
  shows "\<exists>q. ParseJSONNumber p = Ok (True, q) \<and> rest_is q s \<and> int_value q = Ok i"
  using ParseJSONNumber_token [OF assms(1-4)] assms(4,5)
  by (auto simp: moved_def int_value_def fp_to_int32 simp del: fp_to_integer.simps)

theorem integers_are_read_exactly_witness:
  "\<exists>q. ParseJSONNumber (parser_new False False [32, 55, 44]) = Ok (True, q) \<and> rest_is q [44] \<and> int_value q = Ok 7"
  by (rule integers_are_read_exactly [where w = "[32]"])
    (simp_all add: rest_is_def parser_new_def GetLeft_def itoa_def udigits.simps json_blank_def)

text \<open>When an earlier call has left \<open>EINVAL\<close> in \<open>errno\<close>, which the parser never clears, the number 0 is
  refused.\<close>

theorem stale_errno_refuses_zero:
  assumes "rest_is p (itoa 0 @ s)" "number_end s" "sp_einval p"
  shows "\<exists>q. ParseJSONNumber p = Ok (False, q)"
  using ParseJSONNumber_token [of p "[]" 0 s] assms by (simp add: int32_def)

theorem stale_errno_refuses_zero_witness:
  "\<exists>q. ParseJSONNumber (parser_new True False [48, 44]) = Ok (False, q)"
  by (rule stale_errno_refuses_zero [where s = "[44]"])
    (simp_all add: rest_is_def parser_new_def GetLeft_def itoa_def udigits.simps)

text \<open>A digit followed by the letter e that ends the text moves the cursor past the end of the buffer:
  the distance from the start of the number is added to a cursor that has passed it already.\<close>

theorem dangling_exponent_overruns:
  "\<exists>q. ParseJSONNumber (parser_new False erange (L ''1e'')) = Ok (True, q) \<and> sp_size q < sp_pos q"
proof -
  define p where "p = parser_new False erange (L ''1e'')"
  have p: "sp_buffer p = [49, 101]" "sp_pos p = 0" "sp_einval p = False" by (simp_all add: p_def parser_new_def)
  have s: "SkipJSONSpaces p = Ok p"
    by (simp add: SkipJSONSpaces_def SkipCharset_def skip_while.simps IsEnded_def CheckCharSet_def check_def Get_def
        char_at_def sp_size_def p)
  have one: "wcstold (GetLeft p) = (Fin 1, 1)"
    using long_double_int [of 1]
    by (simp add: p GetLeft_def wcstold_def wcstofp_def is_space_def sign_length_def is_negative_def
        starts_with_def lower_def decimal_number_def mantissa_def is_digit_def exponent_def rat_power_def)
  have none: "wcstod [] = (Fin 0, 0)"
    by (simp add: wcstod_def wcstofp_def sign_length_def is_negative_def starts_with_def decimal_number_def
        mantissa_def exponent_def)
  show ?thesis
    unfolding p_def [symmetric]
    by (simp add: ParseJSONNumber_def s one Mark_def Let_def)
      (simp add: Move_def CheckCharSet_def check_def IsEnded_def Get_def char_at_def sp_size_def Next_def
        GetLeft_def p none Mark_def Let_def del: times_pow10.simps)
qed

end
