(* ===== verification/BFCPTransport.thy ===== *)
theory BFCPTransport
  imports BFCPReach
begin

text \<open>
  The sockets of the users: what every operation of the floor control server does to the transports
  and to the connection data behind them.  Nothing but closing a transport writes to connection data,
  and it writes only to the data of its own conference.
\<close>

definition transport_of :: "conf \<Rightarrow> int \<Rightarrow> nat option" where
  "transport_of c k = Option.bind (GetUser c k) u_transport"

text \<open>The data of a user's socket names the user and the conference, and is not flagged as closed.\<close>

definition links :: "conf \<Rightarrow> bool" where
  "links c \<longleftrightarrow> (\<forall>k ws. transport_of c k = Some ws \<longrightarrow>
     (\<exists>cd. c_conn c ws = Some cd \<and> cd_conferenceId cd = c_conferenceId c \<and> cd_userId cd = k \<and>
           \<not> cd_closedByServer cd))"

text \<open>All that can happen to connection data is that the server flags data of its own conference.\<close>

definition closes :: "conf \<Rightarrow> conf \<Rightarrow> bool" where
  "closes c d \<longleftrightarrow> c_conferenceId d = c_conferenceId c \<and>
     (\<forall>ws. c_conn d ws = c_conn c ws \<or>
        (\<exists>cd. c_conn c ws = Some cd \<and> cd_conferenceId cd = c_conferenceId c \<and>
              c_conn d ws = Some (cd\<lparr>cd_closedByServer := True\<rparr>)))"

definition no_new_transport :: "conf \<Rightarrow> conf \<Rightarrow> bool" where
  "no_new_transport c d \<longleftrightarrow> c_conn d = c_conn c \<and> c_conferenceId d = c_conferenceId c \<and>
     (\<forall>k ws. transport_of d k = Some ws \<longrightarrow> transport_of c k = Some ws)"

lemma no_new_transport_refl [simp]: "no_new_transport c c"
  by (simp add: no_new_transport_def)

lemma no_new_transport_trans [trans]: "no_new_transport c d \<Longrightarrow> no_new_transport d e \<Longrightarrow> no_new_transport c e"
  by (simp add: no_new_transport_def)

lemma no_new_transport_links: "no_new_transport c d \<Longrightarrow> links c \<Longrightarrow> links d"
  by (simp add: no_new_transport_def links_def)

lemma no_new_transport_closes: "no_new_transport c d \<Longrightarrow> closes c d"
  by (simp add: no_new_transport_def closes_def)

lemma closes_refl [simp]: "closes c c"
  by (simp add: closes_def)

lemma closes_trans: "closes c d \<Longrightarrow> closes d e \<Longrightarrow> closes c e"
  unfolding closes_def
  by (intro conjI allI, simp, elim conjE, erule_tac x = ws in allE, erule_tac x = ws in allE) auto

lemma same_members_transport: "same_members c d \<Longrightarrow> no_new_transport c d"
  by (simp add: same_members_def no_new_transport_def transport_of_def GetUser_def)

lemma only_output_transport: "only_output c d \<Longrightarrow> no_new_transport c d"
  by (intro same_members_transport same_members_only_output)

lemma upd_user_transport:
  "(\<And>u ws. GetUser c k = Some u \<Longrightarrow> u_transport (f u) = Some ws \<Longrightarrow> u_transport u = Some ws) \<Longrightarrow>
     no_new_transport c (upd_user k f c)"
  by (auto simp: no_new_transport_def transport_of_def GetUser_upd_user bind_eq_Some_conv)

section \<open>Operations that leave the sockets alone\<close>

lemma Revoke_transport: "conf_inv c \<Longrightarrow> RevokeFloorRequest k info c = Ok x \<Longrightarrow> no_new_transport c (snd x)"
  using Revoke_spec [of c k info] by (auto intro!: same_members_transport elim: same_members_revokes)

lemma Deny_transport: "conf_inv c \<Longrightarrow> DenyFloorRequest k info c = Ok x \<Longrightarrow> no_new_transport c (snd x)"
  using Deny_spec [of c k info] by (auto intro!: same_members_transport)

lemma Grant_transport: "conf_inv c \<Longrightarrow> GrantFloorRequest k c = Ok x \<Longrightarrow> no_new_transport c (snd x)"
proof (cases "c_ending c \<or> (\<forall>r. requests c k = Some r \<longrightarrow> IsGranted r)")
  case False
  moreover assume "conf_inv c" "GrantFloorRequest k c = Ok x"
  ultimately show ?thesis using Grant_spec [of c k] by (auto intro!: same_members_transport)
qed (use Grant_refused [of c k] in auto)

lemma onFloorRequest_transport: "conf_inv c \<Longrightarrow> onFloorRequest k u b fs c = Ok d \<Longrightarrow> no_new_transport c d"
  by (auto simp: onFloorRequest_def split: if_splits dest: Grant_transport Deny_transport)

lemma RevokeUserFloorRequests_transport: "conf_inv c \<Longrightarrow> RevokeUserFloorRequests k c = Ok d \<Longrightarrow> no_new_transport c d"
  using RevokeUserFloorRequests_spec [of c k] by (auto intro!: same_members_transport elim: droppedD(2))

lemma ReplyError_transport: "ReplyError msg e info c = Ok d \<Longrightarrow> no_new_transport c d"
  using ReplyError_total [of msg e info c] by (auto intro: only_output_transport)

lemma insert_request_transport: "no_new_transport c (insert_request r c)"
  by (simp add: no_new_transport_def transport_of_def GetUser_def insert_request_frame)

lemma ProcessFloorRequest_transport:
  assumes inv: "conf_inv c" and ok: "ProcessFloorRequest msg req user c = Ok d"
  shows "no_new_transport c d"
proof (cases "bad_request req c")
  case (Some e)
  with ok ReplyError_transport show ?thesis by (cases e) (auto simp: ProcessFloorRequest_eq)
next
  case None
  obtain e where e: "only_output (insert_request (requested msg req c) c) e" "conf_inv e"
    "ProcessFloorRequest msg req user c =
       (if u_isChair user then bindR (GrantFloorRequest (c_floorRequestCounter c) e) (\<lambda>x. Ok (snd x))
        else onFloorRequest (c_floorRequestCounter c) (m_userId msg)
          (fr_beneficiaryId (requested msg req c)) (fr_floorIds (requested msg req c)) e)"
    by (rule FloorRequest_pending [OF inv None])
  have "no_new_transport c e"
    using insert_request_transport only_output_transport [OF e(1)] by (rule no_new_transport_trans)
  moreover have "no_new_transport e d"
    using ok e(3) Grant_transport [OF e(2)] onFloorRequest_transport [OF e(2)] by (auto split: if_splits)
  ultimately show ?thesis by (rule no_new_transport_trans)
qed

lemma ProcessFloorRelease_transport:
  assumes inv: "conf_inv c" and e: "\<not> c_ending c" and ok: "ProcessFloorRelease msg req user c = Ok d"
  shows "no_new_transport c d"
proof -
  obtain k where id: "release_id req = Some k"
    using ok by (cases "mrl_floorRequestId req")
      (auto simp: ProcessFloorRelease_def floor_release_GetFloorRequestId_def release_id_def)
  show ?thesis
  proof (cases "requests c k")
    case None
    with ok ProcessFloorRelease_no_request [OF id conf_invD(1) [OF inv]] ReplyError_transport show ?thesis by simp
  next
    case (Some r)
    consider "\<not> may_release user r" | "may_release user r" "IsGranted r" | "may_release user r" "\<not> IsGranted r"
      by blast
    then show ?thesis
    proof cases
      case 1
      with ok ProcessFloorRelease_unauthorized [OF id Some] ReplyError_transport show ?thesis by simp
    next
      case 2
      with ok ProcessFloorRelease_granted [OF inv id e Some, of user msg] show ?thesis
        by (auto intro!: same_members_transport elim: same_members_revokes)
    next
      case 3
      with ok ProcessFloorRelease_pending [OF inv id Some, of user msg] show ?thesis
        by (auto intro!: same_members_transport)
    qed
  qed
qed

lemma ProcessFloorQuery_transport:
  assumes inv: "conf_inv c" and u: "GetUser c k = Some user" and ok: "ProcessFloorQuery msg req user c = Ok d"
  shows "no_new_transport c d"
proof (cases "floorId_value ` set (mfq_floorIds req) \<subseteq> set (c_floors c)")
  case True
  have "no_new_transport c (upd_user k (\<lambda>_. subscribed req user) c)"
    by (rule upd_user_transport) (simp add: u subscribed_sel)
  moreover obtain e where "ProcessFloorQuery msg req user c = Ok e" "only_output (upd_user k (\<lambda>_. subscribed req user) c) e"
    using ProcessFloorQuery_spec [OF inv u True] by blast
  ultimately show ?thesis using ok only_output_transport no_new_transport_trans by fastforce
next
  case False
  then have "list_ex (\<lambda>f. \<not> HasFloor c f) (map floorId_value (mfq_floorIds req))"
    by (auto simp: list_ex_iff HasFloor_def)
  with ok ReplyError_transport show ?thesis by (simp add: ProcessFloorQuery_def floor_query_floors_total)
qed

lemma MessageReceived_transport:
  assumes inv: "conf_inv c" and ok: "MessageReceived msg c = Ok d"
  shows "no_new_transport c d"
proof (cases "c_ending c \<or> GetUser c (m_userId msg) = None")
  case True
  with ok ReplyError_transport show ?thesis by (auto simp: MessageReceived_def split: if_splits)
next
  case False
  then obtain user where u: "GetUser c (m_userId msg) = Some user" and e: "\<not> c_ending c" by blast
  have "dispatch msg user c = Ok d" using ok u e by (auto simp: MessageReceived_def)
  with ProcessFloorRequest_transport [OF inv] ProcessFloorRelease_transport [OF inv e]
    ProcessFloorQuery_transport [OF inv u] ReplyError_transport
  show ?thesis
    by (cases "m_primitive msg")
      (auto simp: dispatch_def ProcessHello_def split: msg_body.splits
        intro: only_output_transport SendMessage_only_output)
qed

lemma chair_transport:
  "no_new_transport c (MultiConf_SetChair k c)" "no_new_transport c (snd (AddFloor f c))"
proof -
  have "no_new_transport c (c\<lparr>c_chairId := k\<rparr>)" "no_new_transport c (only_chair j c)" for c k j
    by (simp_all add: no_new_transport_def transport_of_def GetUser_only_chair bind_eq_Some_conv)
      (auto simp: GetUser_def only_chair_def)
  then show "no_new_transport c (MultiConf_SetChair k c)"
    unfolding MultiConf_SetChair_def SetChair_eq
    by (cases "c_ending c \<or> \<not> HasUser (c\<lparr>c_chairId := k\<rparr>) k")
      (simp_all, blast intro: no_new_transport_trans)
  show "no_new_transport c (snd (AddFloor f c))"
    by (auto simp: AddFloor_def no_new_transport_def transport_of_def GetUser_def)
qed

lemma AddUser_transport: "conf_inv c \<Longrightarrow> no_new_transport c (snd (AddUser addr k c))"
  using map_find_put [of "c_users c" k "BFCPUser_new addr k (c_conferenceId c)"] conf_invD(6) [of c]
  by (auto simp: AddUser_def no_new_transport_def transport_of_def GetUser_def bind_eq_Some_conv
      BFCPUser_new_def users_ok_def split: if_splits)

lemma UserDisconnected_transport:
  assumes inv: "conf_inv c" and ok: "UserDisconnected k False c = Ok d"
  shows "no_new_transport c d \<and> transport_of d k = None"
proof (cases "GetUser c k")
  case None
  with ok show ?thesis by (simp add: UserDisconnected_def transport_of_def)
next
  case (Some u)
  define c1 where "c1 = upd_user k user_ResetQueriedFloorIds (upd_user k user_UnsetTransport c)"
  have t: "no_new_transport c c1" unfolding c1_def
    by (rule no_new_transport_trans; rule upd_user_transport) auto
  have inv1: "conf_inv c1" unfolding c1_def by (rule conf_inv_reset [OF conf_inv_unset [OF inv]])
  have "transport_of c1 k = None" by (simp add: c1_def transport_of_def GetUser_upd_user Some)
  moreover have "no_new_transport c1 d"
    using ok Some RevokeUserFloorRequests_transport [OF inv1]
    by (auto simp: UserDisconnected_def Let_def c1_def [symmetric] split: if_splits)
  ultimately have "transport_of d k = None" unfolding no_new_transport_def by (metis not_None_eq)
  with no_new_transport_trans [OF t \<open>no_new_transport c1 d\<close>] show ?thesis ..
qed

section \<open>Closing a transport\<close>

lemma links_D:
  assumes "links c" "transport_of c k = Some ws"
  obtains cd where "c_conn c ws = Some cd" "cd_conferenceId cd = c_conferenceId c" "cd_userId cd = k"
    "\<not> cd_closedByServer cd"
  using assms by (auto simp: links_def)

text \<open>The socket of a user is flagged; the users left keep theirs.\<close>

lemma close_links:
  assumes "links c" "transport_of c k = Some ws" "c_conn d = closed_by_server ws (c_conn c)"
    and "c_conferenceId d = c_conferenceId c"
    and "\<And>j w. transport_of d j = Some w \<Longrightarrow> j \<noteq> k \<and> transport_of c j = Some w"
  shows "links d \<and> closes c d"
proof
  obtain cd where cd: "c_conn c ws = Some cd" "cd_conferenceId cd = c_conferenceId c" "cd_userId cd = k"
    "\<not> cd_closedByServer cd"
    using assms(1,2) by (rule links_D)
  then show "closes c d" using assms(3,4) by (auto simp: closes_def closed_by_server_def)
  show "links d" unfolding links_def
  proof (intro allI impI)
    fix j w assume t: "transport_of d j = Some w"
    from assms(5) [OF this] have j: "j \<noteq> k" "transport_of c j = Some w" by auto
    obtain x where x: "c_conn c w = Some x" "cd_conferenceId x = c_conferenceId c" "cd_userId x = j"
      "\<not> cd_closedByServer x"
      using assms(1) j(2) by (rule links_D)
    with cd j(1) have "w \<noteq> ws" by auto
    with x assms(3,4) show "\<exists>cd. c_conn d w = Some cd \<and> cd_conferenceId cd = c_conferenceId d \<and>
        cd_userId cd = j \<and> \<not> cd_closedByServer cd"
      by (simp add: closed_by_server_def)
  qed
qed

lemma user_CloseTransport_effect:
  assumes "user_CloseTransport u code reason c = Ok (u', d)"
  shows "c_users d = c_users c \<and> c_conferenceId d = c_conferenceId c \<and>
    (case u_transport u of None \<Rightarrow> c_conn d = c_conn c | Some ws \<Rightarrow> c_conn d = closed_by_server ws (c_conn c))"
  using assms
  by (cases "u_transport u")
    (auto simp: user_CloseTransport_def close_socket_def emit_def closed_by_server_def split: option.splits)

lemma close_user_links:
  assumes l: "links c" and t: "transport_of c k = u_transport u"
    and u: "user_CloseTransport u code reason c' = Ok (u', d)" "c_conn c' = c_conn c" "c_conferenceId c' = c_conferenceId c"
    and e: "c_conn e = c_conn d" "c_conferenceId e = c_conferenceId d"
    and gone: "\<And>j w. transport_of e j = Some w \<Longrightarrow> j \<noteq> k \<and> transport_of c j = Some w"
  shows "links e \<and> closes c e"
proof (cases "u_transport u")
  case None
  with user_CloseTransport_effect [OF u(1)] u(2,3) e gone have "no_new_transport c e"
    by (simp add: no_new_transport_def)
  with l show ?thesis using no_new_transport_links no_new_transport_closes by blast
next
  case (Some ws)
  with user_CloseTransport_effect [OF u(1)] u(2,3) e t show ?thesis
    by (intro close_links [where k = k and ws = ws, OF l _ _ _ gone]) auto
qed

lemma CloseTransport_links:
  assumes inv: "conf_inv c" and l: "links c" and ok: "CloseTransport k code reason c = Ok d"
  shows "links d \<and> closes c d \<and> transport_of d k = None"
proof -
  obtain u where u: "GetUser c k = Some u" using ok by (auto simp: CloseTransport_def split: option.splits)
  obtain u' e where e: "user_CloseTransport u code reason c = Ok (u', e)" "d = upd_user k (\<lambda>_. u') e"
    using ok u by (auto simp: CloseTransport_def)
  have "c_users d = map_adjust k user_UnsetTransport (c_users c)" using CloseTransport_spec [OF inv u, of code reason] ok by auto
  then have t: "transport_of d j = (if j = k then None else transport_of c j)" for j
    using u by (simp add: transport_of_def GetUser_def map_find_adjust)
  have "links d \<and> closes c d"
  proof (rule close_user_links [OF l _ e(1)])
    show "transport_of c k = u_transport u" using u by (simp add: transport_of_def)
    show "j \<noteq> k \<and> transport_of c j = Some w" if "transport_of d j = Some w" for j w
      using that by (simp add: t split: if_splits)
  qed (simp_all add: e(2))
  with t show ?thesis by simp
qed

section \<open>Operations that close transports\<close>

lemma links_step: "links d \<and> closes c d \<Longrightarrow> no_new_transport d e \<Longrightarrow> links e \<and> closes c e"
  using no_new_transport_links no_new_transport_closes closes_trans by blast

lemma links_after: "no_new_transport c d \<Longrightarrow> links e \<and> closes d e \<Longrightarrow> links e \<and> closes c e"
  using no_new_transport_closes closes_trans by blast

lemma DisconnectUser_links:
  assumes inv: "conf_inv c" and l: "links c" and ok: "DisconnectUser k code reason c = Ok d"
  shows "links d \<and> closes c d"
proof (cases "c_ending c \<or> GetUser c k = None")
  case False
  then obtain u where u: "GetUser c k = Some u" by blast
  define c1 where "c1 = upd_user k user_ResetQueriedFloorIds c"
  have t: "no_new_transport c c1" unfolding c1_def by (rule upd_user_transport) auto
  have inv1: "conf_inv c1" unfolding c1_def by (rule conf_inv_reset [OF inv])
  obtain e where e: "RevokeUserFloorRequests (u_userId u) c1 = Ok e" "CloseTransport k code reason e = Ok d"
    using ok False u by (auto simp: DisconnectUser_def Let_def c1_def [symmetric])
  have te: "no_new_transport c e"
    using t RevokeUserFloorRequests_transport [OF inv1 e(1)] by (rule no_new_transport_trans)
  have "conf_inv e" using RevokeUserFloorRequests_spec [OF inv1, of "u_userId u"] e(1) by (auto dest: droppedD(1))
  from CloseTransport_links [OF this no_new_transport_links [OF te l] e(2)] show ?thesis
    using links_after [OF te] by blast
next
  case True
  with ok have "d = c" by (auto simp: DisconnectUser_def split: if_splits)
  with l show ?thesis by simp
qed

lemma UserConnected_links:
  assumes inv: "conf_inv c" and l: "links c" and ok: "UserConnected k ws c = Ok (b, d)"
    and ws: "c_conn c ws = None" and cd: "cd_conferenceId cd = c_conferenceId c" "cd_userId cd = k" "\<not> cd_closedByServer cd"
  shows "if b then links (attach ws cd d) \<and> closes c d \<and> c_conn d ws = None else d = c"
proof (cases "c_ending c \<or> GetUser c k = None")
  case False
  then obtain u where u: "GetUser c k = Some u" by blast
  have "\<exists>e. conf_inv e \<and> links e \<and> closes c e \<and> b \<and> d = upd_user k (user_SetTransport ws) e"
  proof (cases "user_IsConnected u")
    case True
    define c1 where "c1 = upd_user k user_ResetQueriedFloorIds c"
    have t: "no_new_transport c c1" unfolding c1_def by (rule upd_user_transport) auto
    have inv1: "conf_inv c1" unfolding c1_def by (rule conf_inv_reset [OF inv])
    obtain e1 e where e: "RevokeUserFloorRequests (u_userId u) c1 = Ok e1"
      "CloseTransport k 4002 (L ''your user has connected from somewhere else'') e1 = Ok e"
      "b" "d = upd_user k (user_SetTransport ws) e"
      using ok False u True by (auto simp: UserConnected_def Let_def c1_def [symmetric])
    have te: "no_new_transport c e1"
      using t RevokeUserFloorRequests_transport [OF inv1 e(1)] by (rule no_new_transport_trans)
    have inv2: "conf_inv e1" using RevokeUserFloorRequests_spec [OF inv1, of "u_userId u"] e(1) by (auto dest: droppedD(1))
    obtain u' where "GetUser e1 k = Some u'" using e(2) by (auto simp: CloseTransport_def split: option.splits)
    from CloseTransport_inv [OF inv2 this, of 4002 "L ''your user has connected from somewhere else''"] e(2)
    have "conf_inv e" by auto
    with CloseTransport_links [OF inv2 no_new_transport_links [OF te l] e(2)] links_after [OF te] e(3,4)
    show ?thesis by blast
  qed (use ok False u inv l in \<open>auto simp: UserConnected_def\<close>)
  then obtain e where e: "conf_inv e" "links e" "closes c e" "b" "d = upd_user k (user_SetTransport ws) e" by blast
  have id: "c_conferenceId e = c_conferenceId c" and none: "c_conn e ws = None"
    using e(3) ws unfolding closes_def by (auto dest: spec [of _ ws])
  have t: "transport_of (attach ws cd d) j = Some w \<Longrightarrow> j = k \<and> w = ws \<or> w \<noteq> ws \<and> transport_of e j = Some w" for j w
    using e(2) none
    by (auto simp: e(5) attach_def transport_of_def links_def GetUser_def map_find_adjust bind_eq_Some_conv split: if_splits)
      fastforce+
  have "links (attach ws cd d)" unfolding links_def
  proof (intro allI impI)
    fix j w assume "transport_of (attach ws cd d) j = Some w"
    from t [OF this] show "\<exists>x. c_conn (attach ws cd d) w = Some x \<and>
        cd_conferenceId x = c_conferenceId (attach ws cd d) \<and> cd_userId x = j \<and> \<not> cd_closedByServer x"
      using e(2) cd id by (auto simp: attach_def e(5) links_def)
  qed
  with e(3-5) none show ?thesis by (simp add: closes_def)
qed (use ok in \<open>auto simp: UserConnected_def split: if_splits\<close>)

lemma RemoveUser_links:
  assumes inv: "conf_inv c" and l: "links c" and ok: "RemoveUser k c = Ok x"
  shows "links (snd x) \<and> closes c (snd x)"
proof (cases "c_ending c \<or> GetUser c k = None")
  case False
  then obtain u where u: "GetUser c k = Some u" by blast
  define c1 where "c1 = c\<lparr>c_users := map_erase k (c_users c)\<rparr>"
  have wf: "users_ok c" by (rule conf_invD(6) [OF inv])
  have "users_ok c1" using wf by (auto simp: users_ok_def c1_def set_map_erase)
  then have inv1: "conf_inv c1" by (intro conf_inv_members [OF inv]) (auto simp: c1_def)
  obtain e u' d where e: "RevokeUserFloorRequests (u_userId u) c1 = Ok e"
    "user_CloseTransport u 4001 (L ''you have been removed from the BFCP conference'') e = Ok (u', d)"
    "snd x = d\<lparr>c_removedUsers := c_removedUsers d @ [u']\<rparr>"
    using ok False u by (auto simp: RemoveUser_def Let_def c1_def [symmetric])
  have te: "no_new_transport c1 e" by (rule RevokeUserFloorRequests_transport [OF inv1 e(1)])
  have t1: "transport_of c1 j = (if j = k then None else transport_of c j)" for j
    by (simp add: transport_of_def GetUser_def c1_def map_find_erase)
  show ?thesis
  proof (rule close_user_links [OF l _ e(2)])
    show "transport_of c k = u_transport u" by (simp add: transport_of_def u)
    fix j w assume "transport_of (snd x) j = Some w"
    then have "transport_of e j = Some w"
      using user_CloseTransport_effect [OF e(2)] by (simp add: e(3) transport_of_def GetUser_def)
    then have "transport_of c1 j = Some w" using te by (simp add: no_new_transport_def)
    then show "j \<noteq> k \<and> transport_of c j = Some w" by (simp add: t1 split: if_splits)
  qed (use te in \<open>auto simp: e(3) no_new_transport_def c1_def\<close>)
qed (use ok l RemoveUser_refused in auto)

lemma End_user_links:
  assumes l: "links c" and us: "c_users c = e # us" "omap_wf (e # us)" and ok: "End_user e c = Ok d"
  shows "links d \<and> closes c d \<and> c_users d = us"
proof -
  have erase: "map_erase (fst e) (e # us) = us"
    using us(2) by (auto simp: map_erase_def omap_wf_Cons intro!: filter_True)
  obtain u' where u: "user_CloseTransport (snd e) 4000 (L ''the BFCP conference has ended'') (c\<lparr>c_users := us\<rparr>) = Ok (u', d)"
    using ok by (auto simp: End_user_def us(1) erase)
  note eff = user_CloseTransport_effect [OF u]
  have find: "map_find (e # us) (fst e) = Some (snd e)" by (simp add: map_find_def)
  have "links d \<and> closes c d"
  proof (rule close_user_links [OF l _ u, of "fst e"])
    show "transport_of c (fst e) = u_transport (snd e)" by (simp add: transport_of_def GetUser_def us(1) find)
    fix j w assume "transport_of d j = Some w"
    then have t: "Option.bind (map_find (map_erase (fst e) (e # us)) j) u_transport = Some w"
      using eff by (simp add: transport_of_def GetUser_def erase)
    then show "j \<noteq> fst e \<and> transport_of c j = Some w"
      by (simp add: map_find_erase transport_of_def GetUser_def us(1) split: if_splits)
  qed simp_all
  with eff show ?thesis by simp
qed

lemma End_users_links:
  "links c \<Longrightarrow> c_users c = us \<Longrightarrow> omap_wf us \<Longrightarrow> foldR End_user us c = Ok d \<Longrightarrow> links d \<and> closes c d"
proof (induction us arbitrary: c)
  case (Cons e us)
  from Cons.prems(4) obtain c1 where c1: "End_user e c = Ok c1" "foldR End_user us c1 = Ok d" by auto
  from End_user_links [OF Cons.prems(1-3) c1(1)] have "links c1" "closes c c1" "c_users c1 = us" by auto
  with Cons.IH [OF this(1,3) _ c1(2)] Cons.prems(3) closes_trans show ?case by (simp add: omap_wf_Cons)
qed simp

lemma End_links:
  assumes inv: "conf_inv c" and l: "links c" and ok: "End c = Ok d"
  shows "links d \<and> closes c d"
proof (cases "c_ending c")
  case False
  let ?c = "c\<lparr>c_ending := True\<rparr>"
  have t0: "no_new_transport c ?c" by (simp add: no_new_transport_def transport_of_def GetUser_def)
  obtain e where e: "End_requests (length (c_floorRequests c)) ?c = Ok e" "conf_inv e" "same_members ?c e"
    using End_requests_total [OF conf_inv_ending [OF inv], of "length (c_floorRequests c)"] by auto
  have t: "no_new_transport c e" using t0 same_members_transport [OF e(3)] by (rule no_new_transport_trans)
  have "omap_wf (c_users e)" using conf_invD(6) [OF e(2)] by (simp add: users_ok_def)
  with End_users_links [OF no_new_transport_links [OF t l] refl this] ok False e(1) links_after [OF t]
  show ?thesis by (auto simp: End_def Let_def)
qed (use ok l in \<open>auto simp: End_def\<close>)

end
