(* ===== verification/BFCPService.thy ===== *)
theory BFCPService
  imports BFCPTransport BFCPParse
begin

text \<open>
  The BFCP service (\<open>class BFCP\<close>, \<open>src/mcu/src/bfcp.cpp\<close>): the conferences by id, the WebSockets
  and the data attached to them.  A socket is a number; \<open>b_conn\<close> is the user data of the sockets
  that have some, \<open>b_freed\<close> lists the sockets whose user data has been deleted (the pointer in the
  socket stays as it was).  The connection data and the output are one for all conferences:
  \<open>enter\<close> hands them to a conference, \<open>store_conf\<close> takes them back.
\<close>

record bfcp =
  b_conferences :: "(int, conf) omap"
  b_conn :: "nat \<Rightarrow> conn_data option"
  b_freed :: "nat list"
  b_out :: "event list"

definition BFCP_new :: bfcp where
  "BFCP_new = \<lparr>b_conferences = [], b_conn = (\<lambda>_. None), b_freed = [], b_out = []\<rparr>"

definition enter :: "bfcp \<Rightarrow> conf \<Rightarrow> conf" where
  "enter b c = c\<lparr>c_conn := b_conn b, c_out := b_out b\<rparr>"

definition store_conf :: "int \<Rightarrow> conf \<Rightarrow> bfcp \<Rightarrow> bfcp" where
  "store_conf k c b =
     b\<lparr>b_conferences := map_put k c (b_conferences b), b_conn := c_conn c, b_out := c_out c\<rparr>"

definition b_emit :: "event \<Rightarrow> bfcp \<Rightarrow> bfcp" where
  "b_emit e b = b\<lparr>b_out := b_out b @ [e]\<rparr>"

definition GetConference :: "bfcp \<Rightarrow> int \<Rightarrow> conf option" where
  "GetConference b conferenceId = map_option (enter b) (map_find (b_conferences b) conferenceId)"

text \<open>A call on the conference, when it exists.\<close>

definition with_conf :: "int \<Rightarrow> (conf \<Rightarrow> conf res) \<Rightarrow> bfcp \<Rightarrow> bfcp res" where
  "with_conf k f b =
     (case GetConference b k of
        None \<Rightarrow> Ok b
      | Some c \<Rightarrow> bindR (f c) (\<lambda>d. Ok (store_conf k d b)))"

section \<open>Conferences\<close>

definition CreateConference :: "int \<Rightarrow> bfcp \<Rightarrow> bool \<times> bfcp" where
  "CreateConference conferenceId b =
     (case GetConference b conferenceId of
        Some _ \<Rightarrow> (False, b)
      | None \<Rightarrow> (True, store_conf conferenceId (BFCPFloorControlServer_new conferenceId (b_conn b) (b_out b)) b))"

definition RemoveConference :: "int \<Rightarrow> bfcp \<Rightarrow> (bool \<times> bfcp) res" where
  "RemoveConference conferenceId b =
     (case GetConference b conferenceId of
        None \<Rightarrow> Ok (False, b)
      | Some c \<Rightarrow> bindR (End c) (\<lambda>d.
          let b = store_conf conferenceId d b in
          Ok (True, b\<lparr>b_conferences := map_erase conferenceId (b_conferences b)\<rparr>)))"

section \<open>Connections\<close>

definition ConnectionData_new :: "int \<Rightarrow> int \<Rightarrow> conn_data" where
  "ConnectionData_new conferenceId userId =
     \<lparr>cd_conferenceId = conferenceId, cd_userId = userId, cd_closedByServer = False, cd_utf8 = UTF8_new\<rparr>"

text \<open>
  The part \<open>ConnectTransport\<close> and \<open>onWebSocketConnection\<close> share: offer the user to the conference,
  then reject the socket, or attach the data to it and accept it.
\<close>

definition accept_user :: "nat \<Rightarrow> int \<Rightarrow> conf \<Rightarrow> int \<Rightarrow> bfcp \<Rightarrow> (bool \<times> bfcp) res" where
  "accept_user ws k c userId b =
     bindR (UserConnected userId ws c) (\<lambda>(accepted, c).
     if \<not> accepted then Ok (False, b_emit (WsReject ws 403 (L ''Invalid User'')) (store_conf k c b))
     else Ok (True, b_emit (WsAccept ws)
       (store_conf k (attach ws (ConnectionData_new k userId) c) b)))"

definition ConnectTransport :: "nat \<Rightarrow> int \<Rightarrow> int \<Rightarrow> bfcp \<Rightarrow> (bool \<times> bfcp) res" where
  "ConnectTransport ws conferenceId userId b =
     (case GetConference b conferenceId of
        None \<Rightarrow> Fault UseAfterFree
      | Some c \<Rightarrow> accept_user ws conferenceId c userId b)"

text \<open>\<open>(int)parser.GetIntegerValue()\<close>: the \<open>long\<close> is cut down to 32 bits.\<close>

definition long_to_int :: "int \<Rightarrow> int" where
  "long_to_int i = (i + 2 ^ 31) mod 2 ^ 32 - 2 ^ 31"

text \<open>The URL \<open>/bfcp/CONFERENCE/USER\<close>; \<open>None\<close> is one of the five exits with \<open>400\<close>.\<close>

definition parse_url :: "bool \<Rightarrow> bool \<Rightarrow> wstring \<Rightarrow> (int \<times> int) option res" where
  "parse_url einval erange url =
     bindR (MatchString (L ''/bfcp'') (parser_new einval erange url)) (\<lambda>(b, p). if \<not> b then Ok None
     else bindR (ParseChar 47 p) (\<lambda>(b, p). if \<not> b then Ok None
     else bindR (ParseInteger p) (\<lambda>(b, p). if \<not> b then Ok None
     else let conferenceId = long_to_int (sp_integer p) in
     bindR (ParseChar 47 p) (\<lambda>(b, p). if \<not> b then Ok None
     else bindR (ParseInteger p) (\<lambda>(b, p). if \<not> b then Ok None
     else Ok (Some (conferenceId, long_to_int (sp_integer p))))))))"

definition onWebSocketConnection :: "bool \<Rightarrow> bool \<Rightarrow> wstring \<Rightarrow> nat \<Rightarrow> bfcp \<Rightarrow> bfcp res" where
  "onWebSocketConnection einval erange url ws b =
     bindR (parse_url einval erange url) (\<lambda>ids.
     case ids of
       None \<Rightarrow> Ok (b_emit (WsReject ws 400 (L ''Bad Request'')) b)
     | Some (conferenceId, userId) \<Rightarrow>
         (case GetConference b conferenceId of
            None \<Rightarrow> Ok (b_emit (WsReject ws 404 (L ''Conference Does Not Exist'')) b)
          | Some c \<Rightarrow> bindR (accept_user ws conferenceId c userId b) (\<lambda>(_, b). Ok b)))"

section \<open>Events of a connection\<close>

text \<open>
  Following \<open>ws->GetUserData()\<close>.  A pointer to deleted data is dangling; a socket that was never
  given data has an uninitialised pointer.
\<close>

definition user_data :: "nat \<Rightarrow> bfcp \<Rightarrow> conn_data res" where
  "user_data ws b =
     (case b_conn b ws of
        Some d \<Rightarrow> Ok d
      | None \<Rightarrow> Fault (if ws \<in> set (b_freed b) then UseAfterFree else Uninitialised))"

definition set_user_data :: "nat \<Rightarrow> conn_data \<Rightarrow> bfcp \<Rightarrow> bfcp" where
  "set_user_data ws d b = b\<lparr>b_conn := (b_conn b)(ws \<mapsto> d)\<rparr>"

definition delete_user_data :: "nat \<Rightarrow> bfcp \<Rightarrow> bfcp" where
  "delete_user_data ws b = b\<lparr>b_conn := (b_conn b)(ws := None), b_freed := ws # b_freed b\<rparr>"

definition onClose :: "nat \<Rightarrow> bfcp \<Rightarrow> bfcp res" where
  "onClose ws b =
     bindR (user_data ws b) (\<lambda>d.
     with_conf (cd_conferenceId d) (UserDisconnected (cd_userId d) (cd_closedByServer d)) (delete_user_data ws b))"

definition onError :: "nat \<Rightarrow> bfcp \<Rightarrow> bfcp res" where
  "onError ws b = bindR (user_data ws b) (\<lambda>_. onClose ws b)"

definition onMessageStart :: "nat \<Rightarrow> DWORD \<Rightarrow> bfcp \<Rightarrow> bfcp res" where
  "onMessageStart ws len b =
     bindR (user_data ws b) (\<lambda>d.
     Ok (set_user_data ws (d\<lparr>cd_utf8 := UTF8_SetSize len (UTF8_Reset (cd_utf8 d))\<rparr>) b))"

definition onMessageData :: "nat \<Rightarrow> BYTE list \<Rightarrow> bfcp \<Rightarrow> bfcp res" where
  "onMessageData ws data b =
     bindR (user_data ws b) (\<lambda>d.
     Ok (set_user_data ws (d\<lparr>cd_utf8 := snd (UTF8_Parse data (cd_utf8 d))\<rparr>) b))"

text \<open>Disconnect the user of the connection, or close the socket when there is no conference.\<close>

definition kick :: "nat \<Rightarrow> conn_data \<Rightarrow> int \<Rightarrow> wstring \<Rightarrow> bfcp \<Rightarrow> bfcp res" where
  "kick ws d code reason b =
     (if GetConference b (cd_conferenceId d) \<noteq> None
      then with_conf (cd_conferenceId d) (DisconnectUser (cd_userId d) code reason) b
      else Ok (b_emit (WsClose ws code reason) b))"

definition reply_error :: "nat \<Rightarrow> bfcp_msg \<Rightarrow> error_code \<Rightarrow> wstring \<Rightarrow> bfcp \<Rightarrow> bfcp" where
  "reply_error ws msg code info b = b_emit (WsSend ws (Stringify (BFCPMsgError_new_info msg code info))) b"

definition onMessageEnd :: "bool \<Rightarrow> bool \<Rightarrow> nat \<Rightarrow> bfcp \<Rightarrow> bfcp res" where
  "onMessageEnd einval erange ws b =
     bindR (user_data ws b) (\<lambda>d.
     if \<not> UTF8_IsParsed (cd_utf8 d) then kick ws d 1007 (L ''invalid UTF8 in the WebSocket message'') b
     else bindR (Parse einval erange (UTF8_GetWString (cd_utf8 d))) (\<lambda>parsed.
     case parsed of
       None \<Rightarrow> kick ws d 4003 (L ''invalid JSON BFCP message'') b
     | Some msg \<Rightarrow>
         if m_userId msg \<noteq> cd_userId d then
           kick ws d 4003 (L ''userId does not match the userId for this WebSocket connection'')
             (reply_error ws msg UnauthorizedOperation
               (L ''userId in message does not match the userId for this connection'') b)
         else if m_conferenceId msg \<noteq> cd_conferenceId d then
           kick ws d 4003 (L ''conferenceId does not match the conferenceId for this WebSocket connection'')
             (reply_error ws msg UnauthorizedOperation
               (L ''conferenceId in the message does not match the conferenceId for this connection'') b)
         else if GetConference b (cd_conferenceId d) = None then
           kick ws d 4003 (L ''conference does not longer exist'')
             (reply_error ws msg ConferenceDoesNotExist (L ''the conference does no longer exist'') b)
         else with_conf (cd_conferenceId d) (MessageReceived msg) b))"

end
