(* ===== verification/BFCPServiceInvariant.thy ===== *)
theory BFCPServiceInvariant
  imports BFCPService BFCPParseProperties
begin

text \<open>
  The invariant of the BFCP service: every conference is sound, and the socket of every user of every
  conference has live connection data that names the user and the conference.  The locale
  \<open>conference_op\<close> is the contract of an operation of a conference with the service that calls it.
\<close>

definition conf_ok :: "bfcp \<Rightarrow> int \<Rightarrow> conf \<Rightarrow> bool" where
  "conf_ok b k c \<longleftrightarrow> c_conferenceId c = k \<and> conf_inv (enter b c) \<and> links (enter b c)"

definition b_inv :: "bfcp \<Rightarrow> bool" where
  "b_inv b \<longleftrightarrow> omap_wf (b_conferences b) \<and>
     (\<forall>k c. map_find (b_conferences b) k = Some c \<longrightarrow> conf_ok b k c) \<and>
     (\<forall>ws \<in> set (b_freed b). b_conn b ws = None)"

lemma enter_frame [simp]:
  "c_conferenceId (enter b c) = c_conferenceId c" "c_users (enter b c) = c_users c"
  "c_conn (enter b c) = b_conn b" "c_out (enter b c) = b_out b" "c_ending (enter b c) = c_ending c"
  "enter b (enter b' c) = enter b c" "GetUser (enter b c) = GetUser c" "transport_of (enter b c) = transport_of c"
  "requests (enter b c) = requests c"
  by (simp_all add: enter_def fun_eq_iff GetUser_def transport_of_def requests_def split: option.split)

lemma store_conf_frame [simp]:
  "b_conn (store_conf k c b) = c_conn c" "b_out (store_conf k c b) = c_out c"
  "b_freed (store_conf k c b) = b_freed b" "b_conferences (store_conf k c b) = map_put k c (b_conferences b)"
  by (simp_all add: store_conf_def)

lemma enter_stored [simp]: "enter (store_conf k c b) c = c"
  by (simp add: enter_def)

lemma links_cong: "transport_of d = transport_of c \<Longrightarrow> c_conn d = c_conn c \<Longrightarrow> c_conferenceId d = c_conferenceId c \<Longrightarrow> links d = links c"
  by (simp add: links_def)

lemma conf_inv_same_conn:
  assumes inv: "conf_inv c"
    and conn: "\<And>k u ws. (k, u) \<in> set (c_users c) \<Longrightarrow> u_transport u = Some ws \<Longrightarrow> conn ws \<noteq> None"
  shows "conf_inv (c\<lparr>c_conn := conn, c_out := out\<rparr>)"
proof -
  have "users_ok (c\<lparr>c_conn := conn, c_out := out\<rparr>)"
    using conf_invD(6) [OF inv] conn unfolding users_ok_def by (simp add: case_prod_beta) (metis prod.collapse)
  then show ?thesis by (intro conf_inv_members [OF inv]) simp_all
qed

lemma b_inv_GetConference:
  assumes "b_inv b" "GetConference b k = Some c"
  shows "c_conferenceId c = k" "conf_inv c" "links c" "c_conn c = b_conn b" "c_out c = b_out b"
  using assms by (auto simp: b_inv_def GetConference_def conf_ok_def)

text \<open>Changing data of no user's socket, or of this conference only, leaves the other conferences sound.\<close>

lemma conf_ok_conn:
  assumes ok: "conf_ok b k c"
    and conn: "\<And>j ws. transport_of c j = Some ws \<Longrightarrow>
      \<exists>x y. b_conn b ws = Some x \<and> b_conn b' ws = Some y \<and> cd_conferenceId y = cd_conferenceId x \<and>
        cd_userId y = cd_userId x \<and> cd_closedByServer y = cd_closedByServer x"
  shows "conf_ok b' k c"
proof -
  have l: "links (enter b c)" and inv: "conf_inv (enter b c)" and k: "c_conferenceId c = k"
    using ok by (simp_all add: conf_ok_def)
  have "b_conn b' ws \<noteq> None" if "(j, u) \<in> set (c_users c)" "u_transport u = Some ws" for j u ws
  proof -
    have "omap_wf (c_users c)" using conf_invD(6) [OF inv] by (simp add: users_ok_def)
    with that have "transport_of c j = Some ws" by (simp add: transport_of_def GetUser_def flip: map_find_in_iff)
    with conn show ?thesis by fastforce
  qed
  then have "conf_inv (enter b' c)"
    using conf_inv_same_conn [OF inv, of "b_conn b'" "b_out b'"] by (simp add: enter_def)
  moreover have "links (enter b' c)" unfolding links_def
  proof (intro allI impI)
    fix j ws assume "transport_of (enter b' c) j = Some ws"
    then have t: "transport_of c j = Some ws" by simp
    with l conn [OF t] show "\<exists>cd. c_conn (enter b' c) ws = Some cd \<and>
        cd_conferenceId cd = c_conferenceId (enter b' c) \<and> cd_userId cd = j \<and> \<not> cd_closedByServer cd"
      by (fastforce simp: links_def)
  qed
  ultimately show ?thesis using k by (simp add: conf_ok_def)
qed

lemma conf_ok_same_conn:
  assumes ok: "conf_ok b k c" and conn: "b_conn b' = b_conn b"
  shows "conf_ok b' k c"
proof (rule conf_ok_conn [OF ok])
  fix j ws assume "transport_of c j = Some ws"
  with ok obtain x where "b_conn b ws = Some x" by (auto simp: conf_ok_def links_def)
  with conn show "\<exists>x y. b_conn b ws = Some x \<and> b_conn b' ws = Some y \<and> cd_conferenceId y = cd_conferenceId x \<and>
      cd_userId y = cd_userId x \<and> cd_closedByServer y = cd_closedByServer x"
    by auto
qed

lemma closes_other:
  assumes "closes c d" "c_conn c ws = Some x" "cd_conferenceId x \<noteq> c_conferenceId c"
  shows "c_conn d ws = Some x"
  using assms unfolding closes_def by (metis option.inject)

lemma closes_none: "closes c d \<Longrightarrow> c_conn c ws = None \<Longrightarrow> c_conn d ws = None"
  unfolding closes_def by (metis option.distinct(1))

lemma store_conf_inv:
  assumes b: "b_inv b" and k: "GetConference b k = Some c"
    and d: "conf_inv d" "links d" "closes c d"
  shows "b_inv (store_conf k d b)"
proof -
  note c = b_inv_GetConference [OF b k]
  have wf: "omap_wf (b_conferences b)" using b by (simp add: b_inv_def)
  have "conf_ok (store_conf k d b) k' c'" if find: "map_find (map_put k d (b_conferences b)) k' = Some c'" for k' c'
  proof (cases "k' = k")
    case True
    with find wf have "c' = d" by (simp add: map_find_put)
    with d True c(1) show ?thesis by (simp add: conf_ok_def closes_def)
  next
    case False
    with find wf have find: "map_find (b_conferences b) k' = Some c'" by (simp add: map_find_put)
    with b have ok: "conf_ok b k' c'" by (simp add: b_inv_def)
    show ?thesis
    proof (rule conf_ok_conn [OF ok])
      fix j ws assume "transport_of c' j = Some ws"
      with ok obtain x where x: "b_conn b ws = Some x" "cd_conferenceId x = k'"
        by (auto simp: conf_ok_def links_def)
      with closes_other [OF d(3), of ws x] False c(1,4) show "\<exists>x y. b_conn b ws = Some x \<and>
          b_conn (store_conf k d b) ws = Some y \<and> cd_conferenceId y = cd_conferenceId x \<and>
          cd_userId y = cd_userId x \<and> cd_closedByServer y = cd_closedByServer x"
        by auto
    qed
  qed
  moreover have "c_conn d ws = None" if "ws \<in> set (b_freed b)" for ws
    using that b c(4) closes_none [OF d(3)] by (simp add: b_inv_def)
  ultimately show ?thesis using wf by (simp add: b_inv_def)
qed

section \<open>The contract of an operation of a conference\<close>

locale conference_op =
  fixes opn :: "conf \<Rightarrow> conf res"
  assumes keeps: "conf_inv c \<Longrightarrow> links c \<Longrightarrow> opn c = Ok d \<Longrightarrow> conf_inv d \<and> links d \<and> closes c d"
begin

lemma with_conf_inv:
  assumes "b_inv b" "with_conf k opn b = Ok b'"
  shows "b_inv b'"
proof (cases "GetConference b k")
  case (Some c)
  note c = b_inv_GetConference [OF assms(1) Some]
  from assms(2) Some obtain d where d: "opn c = Ok d" "b' = store_conf k d b" by (auto simp: with_conf_def)
  from keeps [OF c(2,3) d(1)] store_conf_inv [OF assms(1) Some] d(2) show ?thesis by simp
qed (use assms in \<open>auto simp: with_conf_def\<close>)

lemma with_conf_freed: "with_conf k opn b = Ok b' \<Longrightarrow> b_freed b' = b_freed b"
  by (auto simp: with_conf_def split: option.splits)

text \<open>The live data of a socket stays live and keeps its user and conference.\<close>

lemma with_conf_data:
  assumes "b_inv b" "with_conf k opn b = Ok b'" "b_conn b ws = Some x"
  shows "\<exists>y. b_conn b' ws = Some y \<and> cd_conferenceId y = cd_conferenceId x \<and> cd_userId y = cd_userId x"
proof (cases "GetConference b k")
  case (Some c)
  note c = b_inv_GetConference [OF assms(1) Some]
  from assms(2) Some obtain d where d: "opn c = Ok d" "b' = store_conf k d b" by (auto simp: with_conf_def)
  from keeps [OF c(2,3) d(1)] have "closes c d" by simp
  with c(4) assms(3) have "c_conn d ws = Some x \<or> c_conn d ws = Some (x\<lparr>cd_closedByServer := True\<rparr>)"
    by (auto simp: closes_def dest: spec [of _ ws])
  with d(2) show ?thesis by auto
qed (use assms in \<open>auto simp: with_conf_def\<close>)

end

lemma quiet_keeps:
  "links c \<Longrightarrow> conf_inv d \<Longrightarrow> no_new_transport c d \<Longrightarrow> conf_inv d \<and> links d \<and> closes c d"
  using no_new_transport_links no_new_transport_closes by blast

interpretation disconnect: conference_op "DisconnectUser userId code reason" for userId code reason
proof unfold_locales
  fix c d assume a: "conf_inv c" "links c" "DisconnectUser userId code reason c = Ok d"
  with DisconnectUser_total [OF a(1), of userId code reason] DisconnectUser_links [OF a]
  show "conf_inv d \<and> links d \<and> closes c d" by auto
qed

interpretation ending: conference_op End
proof unfold_locales
  fix c d assume a: "conf_inv c" "links c" "End c = Ok d"
  with End_total [OF a(1)] End_links [OF a] show "conf_inv d \<and> links d \<and> closes c d" by auto
qed

text \<open>The messages the parser makes; a release without a request id is not well-formed, and goes no further than
  the log.\<close>

definition parsed_form :: "bfcp_msg \<Rightarrow> bool" where
  "parsed_form msg \<longleftrightarrow> well_formed msg \<or> no_request_id msg"

lemma Parse_form: "Parse einval erange s = Ok (Some m) \<Longrightarrow> parsed_form m"
  unfolding parsed_form_def using Parse_accepted kept_well_formed parse_body_kept by blast

lemma no_request_id_ends: "no_request_id msg \<Longrightarrow> MessageReceived msg c = Ok d \<Longrightarrow> d = c"
  by (auto simp: no_request_id_def MessageReceived_def floor_release_GetFloorRequestId_def split: if_splits)

interpretation message: conference_op "\<lambda>c. if parsed_form msg then MessageReceived msg c else Ok c" for msg
proof unfold_locales
  fix c d assume a: "conf_inv c" "links c" "(if parsed_form msg then MessageReceived msg c else Ok c) = Ok d"
  consider "well_formed msg" | "no_request_id msg" "\<not> well_formed msg" | "\<not> parsed_form msg"
    by (auto simp: parsed_form_def)
  then show "conf_inv d \<and> links d \<and> closes c d"
  proof cases
    case 1
    with a(3) have d: "MessageReceived msg c = Ok d" by (simp add: parsed_form_def)
    with MessageReceived_total [OF a(1) 1] have "conf_inv d" by simp
    with a(2) MessageReceived_transport [OF a(1) d] show ?thesis by (intro quiet_keeps)
  next
    case 2
    with a(3) no_request_id_ends [of msg c d] have "d = c" by (simp add: parsed_form_def)
    with a show ?thesis by simp
  qed (use a in simp)
qed

end
