(* ===== verification/BFCPServiceReach.thy ===== *)
theory BFCPServiceReach
  imports BFCPServiceInvariant
begin

text \<open>
  The life of the BFCP service: the events the rest of the media server and the sockets send it
  (\<open>svc_event\<close>), when they can happen (\<open>svc_allowed\<close>: a socket is offered once, and it delivers events
  only while it has its data), and the states any sequence of them leads to.
\<close>

section \<open>Calls of the media conference\<close>

fun control :: "call \<Rightarrow> bool" where
  "control (CallConnect _ _ _) = False"
| "control (CallDisconnected _ _) = False"
| "control (CallMessage _) = False"
| "control CallEnd = False"
| "control _ = True"

definition control_call :: "call \<Rightarrow> conf \<Rightarrow> conf res" where
  "control_call a c = (if control a then perform a c else Ok c)"

interpretation controlled: conference_op "control_call a" for a
proof unfold_locales
  fix c d assume inv: "conf_inv c" and l: "links c" and ok: "control_call a c = Ok d"
  show "conf_inv d \<and> links d \<and> closes c d"
  proof (cases "control a")
    case True
    then have p: "perform a c = Ok d" and al: "allowed a" using ok by (auto simp: control_call_def) (cases a; simp)
    have d: "conf_inv d" using perform_total [OF inv al] p by auto
    from True p have "links d \<and> closes c d"
    proof (cases a)
      case (CallRemoveUser k)
      with p RemoveUser_links [OF inv l, of k] show ?thesis by auto
    next
      case (CallDisconnectUser k code reason)
      with p DisconnectUser_links [OF inv l, of k code reason] show ?thesis by auto
    qed (use p quiet_keeps [OF l d] AddUser_transport [OF inv] chair_transport Grant_transport [OF inv]
        Deny_transport [OF inv] Revoke_transport [OF inv] in auto)
    with d show ?thesis by blast
  qed (use inv l ok in \<open>auto simp: control_call_def\<close>)
qed

section \<open>Events\<close>

datatype svc_event =
    SvcCreate int
  | SvcRemove int
  | SvcControl int call
  | SvcConnect nat int int
  | SvcUpgrade bool bool wstring nat
  | SvcClose nat
  | SvcError nat
  | SvcStart nat DWORD
  | SvcData nat "BYTE list"
  | SvcEnd bool bool nat

fun svc_perform :: "svc_event \<Rightarrow> bfcp \<Rightarrow> bfcp res" where
  "svc_perform (SvcCreate k) b = Ok (snd (CreateConference k b))"
| "svc_perform (SvcRemove k) b = bindR (RemoveConference k b) (\<lambda>x. Ok (snd x))"
| "svc_perform (SvcControl k a) b = with_conf k (control_call a) b"
| "svc_perform (SvcConnect ws k u) b = bindR (ConnectTransport ws k u b) (\<lambda>x. Ok (snd x))"
| "svc_perform (SvcUpgrade ei er url ws) b = onWebSocketConnection ei er url ws b"
| "svc_perform (SvcClose ws) b = onClose ws b"
| "svc_perform (SvcError ws) b = onError ws b"
| "svc_perform (SvcStart ws n) b = onMessageStart ws n b"
| "svc_perform (SvcData ws bs) b = onMessageData ws bs b"
| "svc_perform (SvcEnd ei er ws) b = onMessageEnd ei er ws b"

definition unused :: "bfcp \<Rightarrow> nat \<Rightarrow> bool" where
  "unused b ws \<longleftrightarrow> b_conn b ws = None \<and> ws \<notin> set (b_freed b)"

fun svc_allowed :: "bfcp \<Rightarrow> svc_event \<Rightarrow> bool" where
  "svc_allowed b (SvcControl k a) = control a"
| "svc_allowed b (SvcConnect ws k u) = (unused b ws \<and> GetConference b k \<noteq> None)"
| "svc_allowed b (SvcUpgrade ei er url ws) = unused b ws"
| "svc_allowed b (SvcClose ws) = (b_conn b ws \<noteq> None)"
| "svc_allowed b (SvcError ws) = (b_conn b ws \<noteq> None)"
| "svc_allowed b (SvcStart ws n) = (b_conn b ws \<noteq> None)"
| "svc_allowed b (SvcData ws bs) = (b_conn b ws \<noteq> None)"
| "svc_allowed b (SvcEnd ei er ws) = (b_conn b ws \<noteq> None)"
| "svc_allowed b _ = True"

inductive svc_reachable :: "bfcp \<Rightarrow> bool" where
  svc_start: "svc_reachable BFCP_new"
| svc_step: "svc_reachable b \<Longrightarrow> svc_allowed b e \<Longrightarrow> svc_perform e b = Ok b' \<Longrightarrow> svc_reachable b'"

section \<open>Each event keeps the invariant\<close>

lemma b_inv_new: "b_inv BFCP_new"
  by (simp add: b_inv_def BFCP_new_def)

lemma b_inv_emit [simp]: "b_inv (b_emit e b) = b_inv b"
proof -
  have "conf_ok (b_emit e b) k c = conf_ok b k c" for k c
    by (rule iffI; erule conf_ok_same_conn) (simp_all add: b_emit_def)
  then show ?thesis by (simp add: b_inv_def b_emit_def)
qed

lemma GetConference_emit [simp]: "(GetConference (b_emit e b) k = None) = (GetConference b k = None)"
  by (simp add: GetConference_def b_emit_def)

lemma BFCPFloorControlServer_new_ok:
  "conf_inv (BFCPFloorControlServer_new k conn out) \<and> links (BFCPFloorControlServer_new k conn out)"
proof -
  let ?c = "BFCPFloorControlServer_new k conn out"
  have "requests ?c = (\<lambda>_. None)" by (rule ext) (simp add: requests_def BFCPFloorControlServer_new_def)
  then have "conf_inv ?c"
    by (simp add: conf_inv_def mem_ok_def statuses_ok_def floors_ok_def exclusive_def holds_def roles_ok_def
        role_is_def users_ok_def)
      (simp add: BFCPFloorControlServer_new_def)
  then show ?thesis by (simp add: links_def transport_of_def GetUser_def) (simp add: BFCPFloorControlServer_new_def)
qed

lemma CreateConference_inv:
  assumes "b_inv b"
  shows "b_inv (snd (CreateConference k b))"
proof (cases "GetConference b k")
  case None
  let ?c = "BFCPFloorControlServer_new k (b_conn b) (b_out b)"
  let ?b = "store_conf k ?c b"
  have conn: "b_conn ?b = b_conn b" by (simp add: BFCPFloorControlServer_new_def)
  have "conf_ok ?b k' c'" if "map_find (map_put k ?c (b_conferences b)) k' = Some c'" for k' c'
  proof (cases "k' = k")
    case True
    with that assms have "c' = ?c" by (simp add: map_find_put b_inv_def)
    with True BFCPFloorControlServer_new_ok show ?thesis
      by (simp add: conf_ok_def) (simp add: BFCPFloorControlServer_new_def)
  next
    case False
    with that assms have "conf_ok b k' c'" by (simp add: map_find_put b_inv_def)
    then show ?thesis by (rule conf_ok_same_conn [OF _ conn])
  qed
  with None assms show ?thesis by (simp add: CreateConference_def b_inv_def) (simp add: BFCPFloorControlServer_new_def)
qed (use assms in \<open>simp add: CreateConference_def\<close>)

lemma erase_conference_inv: "b_inv b \<Longrightarrow> b_inv (b\<lparr>b_conferences := map_erase k (b_conferences b)\<rparr>)"
proof -
  assume b: "b_inv b"
  let ?b = "b\<lparr>b_conferences := map_erase k (b_conferences b)\<rparr>"
  have "conf_ok ?b k' c" if "conf_ok b k' c" for k' c
    using that by (simp add: conf_ok_def enter_def)
  with b show ?thesis by (simp add: b_inv_def map_find_erase split: if_splits)
qed

lemma RemoveConference_total:
  assumes "b_inv b"
  shows "\<exists>x. RemoveConference k b = Ok x \<and> b_inv (snd x)"
proof (cases "GetConference b k")
  case (Some c)
  note c = b_inv_GetConference [OF assms Some]
  obtain d where d: "End c = Ok d" using End_total [OF c(2)] by blast
  from ending.keeps [OF c(2,3) d] store_conf_inv [OF assms Some] have "b_inv (store_conf k d b)" by blast
  from erase_conference_inv [OF this, of k] Some d show ?thesis
    by (simp add: RemoveConference_def Let_def del: store_conf_frame(4))
qed (use assms in \<open>simp add: RemoveConference_def\<close>)

text \<open>A socket that is accepted: the data is new, no user had the socket before.\<close>

lemma accept_user_total:
  assumes b: "b_inv b" and k: "GetConference b k = Some c" and ws: "unused b ws"
  shows "\<exists>x. accept_user ws k c u b = Ok x \<and> b_inv (snd x) \<and> b_freed (snd x) = b_freed b"
proof -
  note c = b_inv_GetConference [OF b k]
  let ?cd = "ConnectionData_new k u"
  have ws': "c_conn c ws = None" using ws c(4) by (simp add: unused_def)
  obtain a d where d: "UserConnected u ws c = Ok (a, d)" "if a then conf_inv (attach ws ?cd d) else d = c"
    using UserConnected_total [OF c(2), of u ws ?cd] by blast
  from UserConnected_links [OF c(2,3) d(1) ws', of ?cd] c(1)
  have l: "if a then links (attach ws ?cd d) \<and> closes c d \<and> c_conn d ws = None else d = c"
    by (simp add: ConnectionData_new_def)
  have wf: "omap_wf (b_conferences b)" using b by (simp add: b_inv_def)
  show ?thesis
  proof (cases a)
    case False
    with d l store_conf_inv [OF b k c(2,3)] show ?thesis by (simp add: accept_user_def b_emit_def [symmetric])
      (simp add: b_emit_def)
  next
    case True
    let ?d = "attach ws ?cd d"
    let ?b = "store_conf k ?d b"
    have conn: "c_conn ?d w = (if w = ws then Some ?cd else c_conn d w)" for w by (simp add: attach_def)
    have "conf_ok ?b k' c'" if find: "map_find (map_put k ?d (b_conferences b)) k' = Some c'" for k' c'
    proof (cases "k' = k")
      case True
      with find wf have "c' = ?d" by (simp add: map_find_put)
      moreover have "c_conferenceId ?d = k" using l \<open>a\<close> c(1) by (simp add: attach_def closes_def)
      ultimately show ?thesis using d(2) l \<open>a\<close> True by (simp add: conf_ok_def)
    next
      case False
      with find wf b have ok: "conf_ok b k' c'" by (simp add: map_find_put b_inv_def)
      show ?thesis
      proof (rule conf_ok_conn [OF ok])
        fix j w assume "transport_of c' j = Some w"
        with ok obtain x where x: "b_conn b w = Some x" "cd_conferenceId x = k'"
          by (auto simp: conf_ok_def links_def)
        with ws have "w \<noteq> ws" by (auto simp: unused_def)
        with closes_other [of c d w x] l \<open>a\<close> x False c(1,4)
        have "b_conn ?b w = Some x" by (simp add: conn)
        with x show "\<exists>x y. b_conn b w = Some x \<and> b_conn ?b w = Some y \<and> cd_conferenceId y = cd_conferenceId x \<and>
            cd_userId y = cd_userId x \<and> cd_closedByServer y = cd_closedByServer x" by blast
      qed
    qed
    moreover have "c_conn ?d w = None" if "w \<in> set (b_freed b)" for w
    proof -
      have "c_conn c w = None" "w \<noteq> ws" using that b ws c(4) by (auto simp: b_inv_def unused_def)
      with l \<open>a\<close> closes_none [of c d w] show ?thesis by (simp add: conn)
    qed
    ultimately have "b_inv ?b" using wf by (simp add: b_inv_def)
    with d(1) True show ?thesis by (simp add: accept_user_def) (simp add: b_emit_def)
  qed
qed

end
