(* ===== verification/BFCPServiceEvents.thy ===== *)
theory BFCPServiceEvents
  imports BFCPServiceReach
begin

text \<open>
  The socket events of the BFCP service one by one: a URL is always taken apart, the data of a socket is
  deleted only when no user has the socket any more, and each event keeps the invariant.
\<close>

section \<open>The URL of a connection\<close>

definition inside :: "parser \<Rightarrow> bool" where
  "inside p \<longleftrightarrow> sp_pos p \<le> sp_size p"

lemma strtol_length: "snd (strtol s) \<le> length s"
proof -
  let ?n = "length (takeWhile is_space s)"
  let ?g = "sign_length (drop ?n s)"
  let ?d = "takeWhile is_digit (drop ?g (drop ?n s))"
  have "length ?d \<le> length s - ?n - ?g" using length_takeWhile_le [of is_digit "drop ?g (drop ?n s)"] by simp
  moreover have "?g \<le> length s - ?n" by (cases "drop ?n s") (auto simp: sign_length_def dest: arg_cong [of _ _ length])
  moreover have "?n \<le> length s" by (rule length_takeWhile_le)
  ultimately have "?n + ?g + length ?d \<le> length s" by linarith
  then show ?thesis by (simp add: strtol_def Let_def add.commute)
qed

lemma inside_ParseChar: "inside p \<Longrightarrow> \<exists>b q. ParseChar x p = Ok (b, q) \<and> inside q"
  using check_total [of p "\<lambda>c. c = x"]
  by (auto simp: inside_def ParseChar_def CheckChar_def Next_def IsEnded_def sp_size_def)

lemma inside_MatchString: "inside p \<Longrightarrow> \<exists>b q. MatchString s p = Ok (b, q) \<and> inside q"
proof -
  assume p: "inside p"
  then have "length s \<le> sp_size p - sp_pos p" if "take (length s) (GetLeft p) = s"
    using arg_cong [OF that, of length] by (simp add: GetLeft_def sp_size_def)
  with p show ?thesis
    by (auto simp: inside_def MatchString_def matches_def Move_def set_value_def sp_size_def)
qed

lemma inside_ParseInteger: "inside p \<Longrightarrow> \<exists>b q. ParseInteger p = Ok (b, q) \<and> inside q"
proof -
  assume p: "inside p"
  then have c: "\<exists>b. CheckChar x p = Ok b" "\<exists>b. CheckDigit p = Ok b" for x
    unfolding inside_def CheckChar_def CheckDigit_def by (rule check_total)+
  obtain b1 b2 b3 where "CheckChar 45 p = Ok b1" "CheckChar 43 p = Ok b2" "CheckDigit p = Ok b3"
    using c by metis
  then have "\<exists>b. CheckInteger p = Ok b" by (cases b1; cases b2) (auto simp: CheckInteger_def)
  then obtain b where b: "CheckInteger p = Ok b" ..
  have "snd (strtol (GetLeft p)) \<le> sp_size p - sp_pos p"
    using strtol_length [of "GetLeft p"] by (simp add: GetLeft_def sp_size_def)
  with b p show ?thesis
    by (auto simp: inside_def ParseInteger_def Move_def sp_size_def case_prod_beta Let_def)
qed

lemma parse_url_total: "\<exists>ids. parse_url einval erange url = Ok ids"
proof -
  let ?p0 = "parser_new einval erange url"
  have "inside ?p0" by (simp add: inside_def parser_new_def)
  from inside_MatchString [OF this, of "L ''/bfcp''"] obtain b1 p1
    where 1: "MatchString (L ''/bfcp'') ?p0 = Ok (b1, p1)" "inside p1" by blast
  from inside_ParseChar [OF 1(2), of 47] obtain b2 p2 where 2: "ParseChar 47 p1 = Ok (b2, p2)" "inside p2" by blast
  from inside_ParseInteger [OF 2(2)] obtain b3 p3 where 3: "ParseInteger p2 = Ok (b3, p3)" "inside p3" by blast
  from inside_ParseChar [OF 3(2), of 47] obtain b4 p4 where 4: "ParseChar 47 p3 = Ok (b4, p4)" "inside p4" by blast
  from inside_ParseInteger [OF 4(2)] obtain b5 p5 where 5: "ParseInteger p4 = Ok (b5, p5)" by blast
  show ?thesis using 1(1) 2(1) 3(1) 4(1) 5 by (simp add: parse_url_def Let_def)
qed

lemma onWebSocketConnection_total:
  assumes b: "b_inv b" and ws: "unused b ws"
  shows "\<exists>b'. onWebSocketConnection einval erange url ws b = Ok b' \<and> b_inv b'"
proof -
  obtain ids where ids: "parse_url einval erange url = Ok ids" using parse_url_total by blast
  show ?thesis
  proof (cases ids)
    case (Some x)
    obtain k u where x: "x = (k, u)" by (cases x)
    show ?thesis
    proof (cases "GetConference b k")
      case None
      with ids Some x b show ?thesis by (simp add: onWebSocketConnection_def)
    next
      case (Some c)
      from accept_user_total [OF b Some ws, of u] ids \<open>ids = Some x\<close> x Some show ?thesis
        by (auto simp: onWebSocketConnection_def)
    qed
  qed (use ids b in \<open>simp add: onWebSocketConnection_def\<close>)
qed

section \<open>Data that changes\<close>

lemma set_user_data_inv:
  assumes b: "b_inv b" and x: "b_conn b ws = Some x"
    and y: "cd_conferenceId y = cd_conferenceId x" "cd_userId y = cd_userId x"
      "cd_closedByServer y = cd_closedByServer x"
  shows "b_inv (set_user_data ws y b)"
proof -
  have "conf_ok (set_user_data ws y b) k c" if ok: "conf_ok b k c" for k c
  proof (rule conf_ok_conn [OF ok])
    fix j w assume "transport_of c j = Some w"
    with ok obtain z where "b_conn b w = Some z" by (auto simp: conf_ok_def links_def)
    with x y show "\<exists>x' y'. b_conn b w = Some x' \<and> b_conn (set_user_data ws y b) w = Some y' \<and>
        cd_conferenceId y' = cd_conferenceId x' \<and> cd_userId y' = cd_userId x' \<and>
        cd_closedByServer y' = cd_closedByServer x'"
      by (auto simp: set_user_data_def)
  qed
  with b x show ?thesis by (auto simp: b_inv_def set_user_data_def)
qed

lemma data_events_total:
  assumes b: "b_inv b" and x: "b_conn b ws = Some x"
  shows "\<exists>b'. onMessageStart ws n b = Ok b' \<and> b_inv b'" "\<exists>b'. onMessageData ws bs b = Ok b' \<and> b_inv b'"
  using x set_user_data_inv [OF b x] by (simp_all add: onMessageStart_def onMessageData_def user_data_def)

section \<open>Data that is deleted\<close>

lemma delete_user_data_inv:
  assumes b: "b_inv b" and free: "\<And>k c j. map_find (b_conferences b) k = Some c \<Longrightarrow> transport_of c j \<noteq> Some ws"
  shows "b_inv (delete_user_data ws b)"
proof -
  have "conf_ok (delete_user_data ws b) k c" if find: "map_find (b_conferences b) k = Some c" for k c
  proof (rule conf_ok_conn)
    show ok: "conf_ok b k c" using b find by (simp add: b_inv_def)
    fix j w assume t: "transport_of c j = Some w"
    with ok obtain z where "b_conn b w = Some z" by (auto simp: conf_ok_def links_def)
    with t free [OF find] show "\<exists>x y. b_conn b w = Some x \<and> b_conn (delete_user_data ws b) w = Some y \<and>
        cd_conferenceId y = cd_conferenceId x \<and> cd_userId y = cd_userId x \<and>
        cd_closedByServer y = cd_closedByServer x"
      by (auto simp: delete_user_data_def)
  qed
  with b show ?thesis by (auto simp: b_inv_def delete_user_data_def)
qed

text \<open>The user that has a socket is the one its data names.\<close>

lemma transport_names:
  assumes b: "b_inv b" and find: "map_find (b_conferences b) k = Some c" and t: "transport_of c j = Some ws"
    and x: "b_conn b ws = Some x"
  shows "cd_conferenceId x = k \<and> cd_userId x = j \<and> \<not> cd_closedByServer x"
proof -
  have "conf_ok b k c" using b find by (simp add: b_inv_def)
  then have "links (enter b c)" "c_conferenceId c = k" by (simp_all add: conf_ok_def)
  with t x show ?thesis using links_D [of "enter b c" j ws] by auto
qed

lemma upd_user_none: "GetUser c k = None \<Longrightarrow> upd_user k f c = c"
proof -
  assume "GetUser c k = None"
  then have "map_adjust k f (c_users c) = c_users c"
    by (force simp: map_adjust_def GetUser_def map_find_def map_of_eq_None_iff intro: map_idI)
  then show ?thesis by (simp add: upd_user_def)
qed

lemma upd_user_upd_user: "upd_user k f (upd_user k g c) = upd_user k (\<lambda>u. f (g u)) c"
  by (simp add: upd_user_def map_adjust_def split_def comp_def)

lemma UserDisconnected_unset:
  "UserDisconnected k False (upd_user k user_UnsetTransport c) = UserDisconnected k False c"
proof -
  have "user_UnsetTransport (user_UnsetTransport u) = user_UnsetTransport u" for u
    by (simp add: user_UnsetTransport_def)
  then show ?thesis
    by (auto simp: UserDisconnected_def GetUser_upd_user Let_def upd_user_upd_user upd_user_none split: option.split)
qed

interpretation disconnected: conference_op "UserDisconnected userId False" for userId
proof unfold_locales
  fix c d assume a: "conf_inv c" "links c" "UserDisconnected userId False c = Ok d"
  with UserDisconnected_total [OF a(1), of userId False] have "conf_inv d" by auto
  with a(2) UserDisconnected_transport [OF a(1,3)] show "conf_inv d \<and> links d \<and> closes c d"
    by (intro quiet_keeps) simp_all
qed

lemma enter_upd_user: "enter b (upd_user k f c) = upd_user k f (enter b c)"
  by (simp add: enter_def upd_user_def)

lemma map_put_put: "omap_wf l \<Longrightarrow> map_put k y (map_put k x l) = map_put k y l"
  by (induction k x l rule: map_put.induct) (auto simp: omap_wf_Cons)

lemma onClose_total:
  assumes b: "b_inv b" and x: "b_conn b ws = Some x"
  shows "\<exists>b'. onClose ws b = Ok b' \<and> b_inv b'"
proof (cases "GetConference b (cd_conferenceId x)")
  case None
  then have "b_inv (delete_user_data ws b)"
    using transport_names [OF b _ _ x] by (intro delete_user_data_inv [OF b]) (auto simp: GetConference_def)
  with None x show ?thesis
    by (simp add: onClose_def user_data_def with_conf_def GetConference_def delete_user_data_def)
next
  case (Some c)
  define k where "k = cd_conferenceId x"
  define j where "j = cd_userId x"
  obtain c0 where c0: "map_find (b_conferences b) k = Some c0" "c = enter b c0"
    using Some by (auto simp: GetConference_def k_def)
  note c = b_inv_GetConference [OF b Some]
  let ?del = "delete_user_data ws b"
  show ?thesis
  proof (cases "cd_closedByServer x")
    case True
    then have d: "b_inv ?del"
      using transport_names [OF b _ _ x] by (intro delete_user_data_inv [OF b]) auto
    have g: "GetConference ?del k = Some (enter ?del c0)" using c0(1) by (simp add: GetConference_def delete_user_data_def)
    note e = b_inv_GetConference [OF d g]
    from True g have "onClose ws b = Ok (store_conf k (enter ?del c0) ?del)"
      using x by (simp add: onClose_def user_data_def with_conf_def UserDisconnected_def k_def split: option.split)
    with store_conf_inv [OF d g e(2,3)] show ?thesis by simp
  next
    case False
    let ?c1 = "upd_user j user_UnsetTransport c"
    define b1 where "b1 = store_conf k ?c1 b"
    have t: "no_new_transport c ?c1" by (rule upd_user_transport) simp
    have b1: "b_inv b1" unfolding b1_def
      using Some store_conf_inv [OF b _ _ no_new_transport_links no_new_transport_closes, of k c ?c1]
        conf_inv_unset [OF c(2)] t c(3) by (simp add: k_def)
    have wf: "omap_wf (b_conferences b)" using b by (simp add: b_inv_def)
    have find: "map_find (b_conferences b1) k' = (if k' = k then Some ?c1 else map_find (b_conferences b) k')" for k'
      using wf by (simp add: b1_def map_find_put)
    have x1: "b_conn b1 ws = Some x" using x c(4) by (simp add: b1_def)
    have d: "b_inv (delete_user_data ws b1)"
    proof (rule delete_user_data_inv [OF b1])
      fix k' c' j' assume f: "map_find (b_conferences b1) k' = Some c'"
      show "transport_of c' j' \<noteq> Some ws"
      proof
        assume t: "transport_of c' j' = Some ws"
        from transport_names [OF b1 f this x1] have "k' = k" "j' = j" by (simp_all add: k_def j_def)
        with f find t show False by (auto simp: transport_of_def GetUser_upd_user bind_eq_Some_conv)
      qed
    qed
    let ?d1 = "delete_user_data ws b1"
    have g: "GetConference ?d1 k = Some (upd_user j user_UnsetTransport (enter ?del c0))"
      using find [of k] c0 c(4,5)
      by (simp add: GetConference_def delete_user_data_def b1_def enter_def upd_user_def)
    note e = b_inv_GetConference [OF d g]
    from UserDisconnected_total [OF e(2), of j False] obtain f
      where f: "UserDisconnected j False (upd_user j user_UnsetTransport (enter ?del c0)) = Ok f" by blast
    have "onClose ws b = Ok (store_conf k f ?del)"
      using False x f c0(1) by (simp add: onClose_def user_data_def with_conf_def UserDisconnected_unset
          GetConference_def delete_user_data_def k_def j_def)
    moreover have "store_conf k f ?del = store_conf k f ?d1"
      using c(4,5) by (simp add: store_conf_def delete_user_data_def b1_def map_put_put [OF wf])
    moreover from disconnected.keeps [OF e(2,3) f] have "b_inv (store_conf k f ?d1)"
      using store_conf_inv [OF d g] by blast
    ultimately show ?thesis by simp
  qed
qed

lemma onError_total: "b_inv b \<Longrightarrow> b_conn b ws = Some x \<Longrightarrow> \<exists>b'. onError ws b = Ok b' \<and> b_inv b'"
  using onClose_total [of b ws x] by (simp add: onError_def user_data_def)

section \<open>The end of a message\<close>

lemma kick_total: "b_inv b \<Longrightarrow> \<exists>b'. kick ws d code reason b = Ok b'"
  using DisconnectUser_total [OF b_inv_GetConference(2), of b "cd_conferenceId d" _ "cd_userId d" code reason]
  by (cases "GetConference b (cd_conferenceId d)") (auto simp: kick_def with_conf_def)

lemma kick_inv: "b_inv b \<Longrightarrow> kick ws d code reason b = Ok b' \<Longrightarrow> b_inv b'"
  by (auto simp: kick_def split: if_splits dest: disconnect.with_conf_inv)

lemma b_inv_reply [simp]: "b_inv (reply_error ws msg code info b) = b_inv b"
  by (simp add: reply_error_def)

lemma onMessageEnd_inv:
  assumes b: "b_inv b" and ok: "onMessageEnd einval erange ws b = Ok b'"
  shows "b_inv b'"
proof -
  have msg: "b_inv b'" if "with_conf k (MessageReceived m) b = Ok b'" "Parse einval erange s = Ok (Some m)" for s m k
    using message.with_conf_inv [OF b, of k m b'] Parse_form [OF that(2)] that(1) by simp
  have plain: "b_inv b'" if "kick ws d code reason b = Ok b'" for d code reason
    using kick_inv [OF b that] .
  have replied: "b_inv b'" if "kick ws d code reason (reply_error ws m e info b) = Ok b'" for d code reason m e info
    using kick_inv [OF _ that] b by simp
  show ?thesis
    using ok by (auto simp: onMessageEnd_def split: if_splits option.splits)
      (erule plain | erule replied | erule (1) msg)+
qed

text \<open>What the end of a message can fault on.\<close>

definition bad_end :: "bool \<Rightarrow> bool \<Rightarrow> nat \<Rightarrow> bfcp \<Rightarrow> bool" where
  "bad_end einval erange ws b \<longleftrightarrow>
     (case b_conn b ws of
        None \<Rightarrow> True
      | Some d \<Rightarrow> UTF8_IsParsed (cd_utf8 d) \<and>
          (case Parse einval erange (UTF8_GetWString (cd_utf8 d)) of
             Fault _ \<Rightarrow> True
           | Ok None \<Rightarrow> False
           | Ok (Some msg) \<Rightarrow> no_request_id msg))"

lemma onMessageEnd_total:
  assumes b: "b_inv b" and good: "\<not> bad_end einval erange ws b"
  shows "\<exists>b'. onMessageEnd einval erange ws b = Ok b'"
proof -
  obtain d where d: "b_conn b ws = Some d" using good by (auto simp: bad_end_def split: option.splits)
  show ?thesis
  proof (cases "UTF8_IsParsed (cd_utf8 d)")
    case False
    with d kick_total [OF b] show ?thesis by (simp add: onMessageEnd_def user_data_def)
  next
    case True
    then obtain m where m: "Parse einval erange (UTF8_GetWString (cd_utf8 d)) = Ok m"
      "m = None \<or> (\<exists>msg. m = Some msg \<and> \<not> no_request_id msg)"
      using good d by (auto simp: bad_end_def split: res.splits option.splits)
    show ?thesis
    proof (cases m)
      case None
      with d m True kick_total [OF b] show ?thesis by (simp add: onMessageEnd_def user_data_def)
    next
      case (Some msg)
      with m Parse_form [of einval erange _ msg] have wf: "well_formed msg" by (auto simp: parsed_form_def)
      have "\<exists>b'. with_conf (cd_conferenceId d) (MessageReceived msg) b = Ok b'"
      proof (cases "GetConference b (cd_conferenceId d)")
        case (Some c)
        from MessageReceived_total [OF b_inv_GetConference(2) [OF b Some] wf] Some show ?thesis
          by (auto simp: with_conf_def)
      qed (simp add: with_conf_def)
      moreover have "\<exists>b'. kick ws d code reason (reply_error ws msg e info b) = Ok b'" for code reason e info
        using kick_total b by simp
      ultimately show ?thesis using Some d m(1) True by (simp add: onMessageEnd_def user_data_def)
    qed
  qed
qed

section \<open>Every event\<close>

lemma with_control_total:
  assumes b: "b_inv b" and a: "control a"
  shows "\<exists>b'. with_conf k (control_call a) b = Ok b' \<and> b_inv b'"
proof (cases "GetConference b k")
  case (Some c)
  have "allowed a" using a by (cases a; simp)
  with perform_total [OF b_inv_GetConference(2) [OF b Some]] a obtain d where "control_call a c = Ok d"
    by (auto simp: control_call_def)
  with Some have "with_conf k (control_call a) b = Ok (store_conf k d b)" by (simp add: with_conf_def)
  with controlled.with_conf_inv [OF b this] show ?thesis by simp
qed (use b in \<open>simp add: with_conf_def\<close>)

fun svc_faults :: "svc_event \<Rightarrow> bfcp \<Rightarrow> bool" where
  "svc_faults (SvcEnd ei er ws) b = bad_end ei er ws b"
| "svc_faults _ b = False"

lemma svc_perform_total:
  assumes b: "b_inv b" and e: "svc_allowed b e" "\<not> svc_faults e b"
  shows "\<exists>b'. svc_perform e b = Ok b' \<and> b_inv b'"
proof (cases e)
  case (SvcRemove k)
  with RemoveConference_total [OF b, of k] show ?thesis by auto
next
  case (SvcConnect ws k u)
  with e obtain c where c: "GetConference b k = Some c" "unused b ws" by auto
  with SvcConnect accept_user_total [OF b c, of u] show ?thesis by (auto simp: ConnectTransport_def)
next
  case (SvcEnd ei er ws)
  with e onMessageEnd_total [OF b, of ei er ws] onMessageEnd_inv [OF b] show ?thesis by auto
next
  case (SvcControl k a)
  with e with_control_total [OF b] show ?thesis by simp
next
  case (SvcUpgrade ei er url ws)
  with e onWebSocketConnection_total [OF b] show ?thesis by simp
qed (use e CreateConference_inv [OF b] onClose_total [OF b] onError_total [OF b] data_events_total [OF b] in auto)

text \<open>An event that faults leads nowhere, so the invariant holds in all states reached.\<close>

lemma svc_perform_inv:
  assumes "b_inv b" "svc_allowed b e" "svc_perform e b = Ok b'"
  shows "b_inv b'"
proof (cases "\<exists>ei er ws. e = SvcEnd ei er ws")
  case False
  then have "\<not> svc_faults e b" by (cases e) auto
  from svc_perform_total [OF assms(1,2) this] assms(3) show ?thesis by simp
qed (use assms onMessageEnd_inv in auto)

lemma svc_reachable_inv: "svc_reachable b \<Longrightarrow> b_inv b"
  by (induction rule: svc_reachable.induct) (auto intro: b_inv_new svc_perform_inv)

end
