(* ===== verification/BFCPServiceProperties.thy ===== *)
theory BFCPServiceProperties
  imports BFCPServiceEvents
begin

text \<open>
  The properties of the BFCP service: who a socket belongs to, what can fault, what a message with foreign
  ids achieves, and that the pieces a message arrives in do not matter.
\<close>

section \<open>What disconnecting a user does\<close>

lemma DisconnectUser_steps:
  assumes inv: "conf_inv c" and e: "\<not> c_ending c" and u: "GetUser c k = Some u"
  obtains d where "DisconnectUser k code reason c = CloseTransport k code reason d" "conf_inv d"
    "GetUser d k = Some (user_ResetQueriedFloorIds u)" "c_conn d = c_conn c"
    "\<And>j. requests d j = None \<or> requests d j = requests c j"
proof -
  have id: "u_userId u = k" using users_okD(1) [OF conf_invD(6) [OF inv] u] .
  define c1 where "c1 = upd_user k user_ResetQueriedFloorIds c"
  have inv1: "conf_inv c1" unfolding c1_def by (rule conf_inv_reset [OF inv])
  obtain d where d: "RevokeUserFloorRequests k c1 = Ok d" "dropped (requests_of c1 k) c1 d"
    using RevokeUserFloorRequests_spec [OF inv1] by blast
  note sm = droppedD(2) [OF d(2)]
  show ?thesis
  proof (rule that [OF _ droppedD(1) [OF d(2)]])
    show "DisconnectUser k code reason c = CloseTransport k code reason d"
      using d(1) u id e by (simp add: DisconnectUser_def c1_def [symmetric])
    show "GetUser d k = Some (user_ResetQueriedFloorIds u)"
      using GetUser_same [of d c1] sm u by (simp add: same_members_def c1_def GetUser_upd_user)
    show "c_conn d = c_conn c" using sm by (simp add: same_members_def c1_def)
    show "requests d j = None \<or> requests d j = requests c j" for j
      using dropped_requests [OF d(2), of j] by (simp add: c1_def requests_def)
  qed
qed


lemma DisconnectUser_flags:
  assumes inv: "conf_inv c" and e: "\<not> c_ending c" and t: "transport_of c k = Some ws" and x: "c_conn c ws = Some x"
    and ok: "DisconnectUser k code reason c = Ok d"
  shows "\<exists>y. c_conn d ws = Some y \<and> cd_closedByServer y"
proof -
  obtain u where u: "GetUser c k = Some u" "u_transport u = Some ws"
    using t by (auto simp: transport_of_def bind_eq_Some_conv)
  obtain e where e: "DisconnectUser k code reason c = CloseTransport k code reason e"
    "GetUser e k = Some (user_ResetQueriedFloorIds u)" "c_conn e = c_conn c"
    using e by (blast intro: DisconnectUser_steps [OF inv _ u(1)])
  with ok u(2) x show ?thesis
    by (auto simp: CloseTransport_def user_CloseTransport_def close_socket_def emit_def)
qed

text \<open>The floor requests of all conferences.\<close>

definition request_in :: "bfcp \<Rightarrow> int \<Rightarrow> int \<Rightarrow> floor_request option" where
  "request_in b k j = Option.bind (GetConference b k) (\<lambda>c. requests c j)"

lemma request_in_find: "request_in b k j = Option.bind (map_find (b_conferences b) k) (\<lambda>c. requests c j)"
  by (simp add: request_in_def GetConference_def bind_map_option comp_def)

lemma request_in_emit [simp]: "request_in (b_emit e b) = request_in b"
  by (simp add: request_in_find fun_eq_iff) (simp add: b_emit_def)



section \<open>A service with a user that has connected twice\<close>

fun svc_run :: "svc_event list \<Rightarrow> bfcp \<Rightarrow> bfcp option" where
  "svc_run [] b = Some b"
| "svc_run (e # es) b =
     (if svc_allowed b e then (case svc_perform e b of Ok b' \<Rightarrow> svc_run es b' | Fault _ \<Rightarrow> None) else None)"

lemma svc_run_reachable: "svc_reachable b \<Longrightarrow> svc_run es b = Some b' \<Longrightarrow> svc_reachable b'"
  by (induction es arbitrary: b) (auto split: if_splits res.splits intro: svc_step)

lemmas svc_defs = BFCP_new_def CreateConference_def GetConference_def BFCPFloorControlServer_new_def store_conf_def
  with_conf_def control_call_def enter_def AddUser_def HasUser_def GetUser_def BFCPUser_new_def map_find_def
  unused_def ConnectTransport_def accept_user_def UserConnected_def user_ops user_IsConnected_def upd_user_def
  map_adjust_def attach_def ConnectionData_new_def b_emit_def RevokeUserFloorRequests_def user_floor_requests_def
  CloseTransport_def user_CloseTransport_def close_socket_def emit_def onMessageStart_def user_data_def
  set_user_data_def UTF8_SetSize_def UTF8_Reset_def UTF8_new_def Let_def

definition ex_data :: conn_data where
  "ex_data = ConnectionData_new 1 7"

definition ex_empty :: conn_data where
  "ex_empty = ex_data\<lparr>cd_closedByServer := True, cd_utf8 := UTF8_new\<lparr>utf8_size := 0\<rparr>\<rparr>"

definition ex_svc_conf :: conf where
  "ex_svc_conf = (BFCPFloorControlServer_new 1 [2 \<mapsto> ex_data\<lparr>cd_closedByServer := True\<rparr>, 3 \<mapsto> ex_data]
       [WsAccept 2, WsClose 2 4002 (L ''your user has connected from somewhere else'')])
     \<lparr>c_users := [(7, (BFCPUser_new 100 7 1)\<lparr>u_transport := Some 3\<rparr>)]\<rparr>"

text \<open>User 7 connects with socket 2, then with socket 3; an empty message begins on socket 2.\<close>

definition ex_service :: bfcp where
  "ex_service = \<lparr>b_conferences = [(1, ex_svc_conf)], b_conn = [2 \<mapsto> ex_empty, 3 \<mapsto> ex_data], b_freed = [],
     b_out = [WsAccept 2, WsClose 2 4002 (L ''your user has connected from somewhere else''), WsAccept 3]\<rparr>"

lemma ex_service_run:
  "svc_run [SvcCreate 1, SvcControl 1 (CallAddUser 100 7), SvcConnect 2 1 7, SvcConnect 3 1 7, SvcStart 2 0] BFCP_new =
     Some ex_service"
  by (simp add: svc_defs ex_service_def ex_svc_conf_def ex_empty_def ex_data_def) (rule fun_upd_twist, simp)

lemma ex_service_reachable: "svc_reachable ex_service"
  by (rule svc_run_reachable [OF svc_start ex_service_run])

lemma ex_service_facts:
  "GetConference ex_service 1 = Some (enter ex_service ex_svc_conf)" "b_conn ex_service 2 = Some ex_empty"
  "transport_of ex_svc_conf 7 = Some 3" "b_conn ex_service 3 = Some ex_data" "\<not> c_ending ex_svc_conf"
  by (simp_all add: ex_service_def GetConference_def map_find_def)
    (simp_all add: ex_svc_conf_def transport_of_def GetUser_def BFCPFloorControlServer_new_def map_find_def enter_def
      BFCPUser_new_def)

lemma ex_data_facts:
  "cd_conferenceId ex_data = 1" "cd_userId ex_data = 7" "cd_conferenceId ex_empty = 1" "cd_userId ex_empty = 7"
  "cd_closedByServer ex_empty" "UTF8_IsParsed (cd_utf8 ex_empty)" "UTF8_GetWString (cd_utf8 ex_empty) = []"
  by (simp_all add: ex_data_def ex_empty_def ConnectionData_new_def UTF8_IsParsed_def UTF8_new_def UTF8_GetWString_def)

lemma Parse_empty: "Parse False False [] = Ok None"
  by (simp add: Parse_def Parse_root_def ParseJSONObjectStart_def json_char_def SkipJSONSpaces_def SkipCharset_def
      skip_while.simps ParseChar_def CheckChar_def check_def IsEnded_def parser_new_def sp_size_def)

section \<open>Users and sockets\<close>

text \<open>C5: A socket belongs to one user: whatever the media conference, the HTTP server and the sockets have
  sent the service so far, in whatever order, the socket of a user has live connection data, which names this user and
  this conference and is not flagged as closed; so no two users, of one conference or of two, have the same socket.\<close>

theorem sockets_are_not_shared:
  assumes "svc_reachable b" "GetConference b k = Some c" "transport_of c u = Some ws"
    and "GetConference b k' = Some c'" "transport_of c' u' = Some ws"
  shows "\<exists>d. b_conn b ws = Some d \<and> cd_conferenceId d = k \<and> cd_userId d = u \<and> \<not> cd_closedByServer d \<and>
    k' = k \<and> u' = u"
proof -
  note b = svc_reachable_inv [OF assms(1)]
  note c = b_inv_GetConference [OF b assms(2)] and c' = b_inv_GetConference [OF b assms(4)]
  from links_D [OF c(3) assms(3)] links_D [OF c'(3) assms(5)] c(1,4) c'(1,4) show ?thesis by (metis option.inject)
qed

theorem sockets_are_not_shared_witness:
  "\<exists>d. b_conn ex_service 3 = Some d \<and> cd_conferenceId d = 1 \<and> cd_userId d = 7 \<and> \<not> cd_closedByServer d"
  using sockets_are_not_shared [OF ex_service_reachable ex_service_facts(1) _ ex_service_facts(1), of 7 3 7]
  by (simp add: ex_service_facts)

section \<open>Faults\<close>


section \<open>Messages with foreign ids\<close>


section \<open>A socket that has been replaced\<close>

text \<open>C10: A connection that was closed by the server because its user has connected again still speaks for the user:
  bytes on it that are no BFCP message disconnect the user from the new socket.\<close>

theorem stale_socket_closes_the_new_one:
  assumes "svc_reachable b" "b_conn b old = Some d" "UTF8_IsParsed (cd_utf8 d)"
    and "Parse einval erange (UTF8_GetWString (cd_utf8 d)) = Ok None" "cd_closedByServer d"
    and "GetConference b (cd_conferenceId d) = Some c" "\<not> c_ending c" "transport_of c (cd_userId d) = Some new"
  shows "\<exists>b' e. onMessageEnd einval erange old b = Ok b' \<and> b_conn b' new = Some e \<and> cd_closedByServer e"
proof -
  note b = svc_reachable_inv [OF assms(1)]
  note c = b_inv_GetConference [OF b assms(6)]
  let ?k = "cd_userId d"
  have "onMessageEnd einval erange old b = kick old d 4003 (L ''invalid JSON BFCP message'') b"
    using assms(2-4) by (simp add: onMessageEnd_def user_data_def)
  moreover obtain e where e: "DisconnectUser ?k 4003 (L ''invalid JSON BFCP message'') c = Ok e"
    using DisconnectUser_total [OF c(2)] by blast
  moreover have "\<exists>x. c_conn e new = Some x \<and> cd_closedByServer x"
    using links_D [OF c(3) assms(8)] DisconnectUser_flags [OF c(2) assms(7,8) _ e] by blast
  ultimately show ?thesis using assms(6) by (auto simp: kick_def with_conf_def)
qed

theorem stale_socket_closes_the_new_one_witness:
  "\<exists>b' e. onMessageEnd False False 2 ex_service = Ok b' \<and> b_conn b' 3 = Some e \<and> cd_closedByServer e"
  by (rule stale_socket_closes_the_new_one [OF ex_service_reachable ex_service_facts(2), where
        c = "enter ex_service ex_svc_conf"])
    (simp_all add: ex_data_facts Parse_empty ex_service_facts)

section \<open>Messages in pieces\<close>

lemma UTF8_pieces:
  assumes "length (concat pieces) \<le> utf8_left p"
  shows "fold (\<lambda>bs p. snd (UTF8_Parse bs p)) pieces p = snd (UTF8_Parse (concat pieces) p)"
  using assms
proof (induction pieces arbitrary: p)
  case Nil
  then show ?case by (simp add: Parse_within)
next
  case (Cons bs pieces)
  then have l: "length bs \<le> utf8_left p" "length (bs @ concat pieces) \<le> utf8_left p" by simp_all
  let ?p = "snd (UTF8_Parse bs p)"
  have r: "length (concat pieces) \<le> utf8_left ?p" using l by (simp add: utf8_left_Parse)
  have "snd (UTF8_Parse (concat pieces) ?p) = snd (UTF8_Parse (bs @ concat pieces) p)"
    unfolding Parse_within [OF r] Parse_within [OF l(2)] unfolding Parse_within [OF l(1)]
    by (simp add: fold_UTF8_byte_len add.assoc)
  with Cons.IH [OF r] show ?case by simp
qed

lemma pieces_set:
  "b_conn b ws = Some d \<Longrightarrow> foldR (onMessageData ws) pieces b =
     Ok (set_user_data ws (d\<lparr>cd_utf8 := fold (\<lambda>bs p. snd (UTF8_Parse bs p)) pieces (cd_utf8 d)\<rparr>) b)"
proof (induction pieces arbitrary: b d)
  case Nil
  then have "(b_conn b)(ws \<mapsto> d) = b_conn b" by auto
  with Nil show ?case by (simp add: set_user_data_def)
next
  case (Cons bs pieces)
  let ?d = "d\<lparr>cd_utf8 := snd (UTF8_Parse bs (cd_utf8 d))\<rparr>"
  from Cons.IH [of "set_user_data ws ?d b" ?d] Cons.prems show ?case
    by (simp add: onMessageData_def user_data_def set_user_data_def)
qed

text \<open>The pieces the bytes of a message arrive in do not matter: as long as they do not exceed the announced
  size, feeding them one by one is feeding them at once, also when a piece ends within a character.\<close>

theorem message_pieces_do_not_matter:
  assumes "b_conn b ws = Some d" "length (concat pieces) \<le> utf8_left (cd_utf8 d)"
  shows "foldR (onMessageData ws) pieces b = onMessageData ws (concat pieces) b"
  using pieces_set [OF assms(1), of pieces] UTF8_pieces [OF assms(2)] assms(1)
  by (simp add: onMessageData_def user_data_def)

theorem message_pieces_do_not_matter_witness:
  "foldR (onMessageData 3) [[0xc3], [0xa9, 0x21]] ex_service = onMessageData 3 [0xc3, 0xa9, 0x21] ex_service"
  using message_pieces_do_not_matter [OF ex_service_facts(4), of "[[0xc3], [0xa9, 0x21]]"]
  by (simp add: utf8_left_def ex_data_def ConnectionData_new_def UTF8_new_def unsigned_minus_1_eq_mask mask_eq_exp_minus_1)

text \<open>What a client sends: the text in UTF-8, cut into pieces.\<close>

definition utf8_bytes_of :: "wstring \<Rightarrow> BYTE list" where
  "utf8_bytes_of s = concat (map UTF8_encode_char s)"

lemma utf8_received:
  assumes s: "list_all unicode s" and n: "length (utf8_bytes_of s) < 2 ^ 32"
  shows "\<exists>u. snd (UTF8_Parse (utf8_bytes_of s) (UTF8_SetSize (of_nat (length (utf8_bytes_of s))) (UTF8_Reset p))) = u \<and>
    UTF8_IsParsed u \<and> UTF8_GetWString u = s"
proof -
  let ?bs = "utf8_bytes_of s"
  let ?p = "UTF8_SetSize (of_nat (length ?bs)) (UTF8_Reset p)"
  have l: "length ?bs \<le> utf8_left ?p"
    using n by (simp add: utf8_left_def UTF8_SetSize_def UTF8_Reset_def unat_of_nat)
  obtain v where v: "fold UTF8_byte ?bs ?p = ?p\<lparr>utf8_value := utf8_value ?p @ s, utf8_w := v\<rparr>"
    using decode_string [OF s, of ?p] by (auto simp: utf8_bytes_of_def UTF8_SetSize_def UTF8_Reset_def)
  show ?thesis unfolding Parse_within [OF l] v
    by (simp add: UTF8_IsParsed_def UTF8_GetWString_def) (simp add: UTF8_SetSize_def UTF8_Reset_def)
qed

lemma text_received:
  assumes d: "b_conn b ws = Some d" and s: "list_all unicode s" "length (utf8_bytes_of s) < 2 ^ 32"
    and p: "concat pieces = utf8_bytes_of s"
  obtains u where "bindR (onMessageStart ws (of_nat (length (utf8_bytes_of s))) b) (foldR (onMessageData ws) pieces) =
      Ok (set_user_data ws (d\<lparr>cd_utf8 := u\<rparr>) b)"
    "UTF8_IsParsed u" "UTF8_GetWString u = s"
proof -
  let ?p = "UTF8_SetSize (of_nat (length (utf8_bytes_of s))) (UTF8_Reset (cd_utf8 d))"
  let ?b = "set_user_data ws (d\<lparr>cd_utf8 := ?p\<rparr>) b"
  have "length (concat pieces) \<le> utf8_left ?p"
    using s(2) p by (simp add: utf8_left_def UTF8_SetSize_def UTF8_Reset_def unat_of_nat)
  from UTF8_pieces [OF this] p have "foldR (onMessageData ws) pieces ?b =
      Ok (set_user_data ws (d\<lparr>cd_utf8 := snd (UTF8_Parse (utf8_bytes_of s) ?p)\<rparr>) b)"
    using pieces_set [of ?b ws "d\<lparr>cd_utf8 := ?p\<rparr>" pieces] by (simp add: set_user_data_def)
  with utf8_received [OF s, of "cd_utf8 d"] d that show ?thesis
    by (auto simp: onMessageStart_def user_data_def)
qed

text \<open>From the socket to the conference: the UTF-8 bytes of a text, announced and cut into pieces in any way, are
  decoded to this very text; when it is a message with the ids of the connection and its conference exists, the end
  of the WebSocket message is the conference receiving this message.\<close>

theorem message_is_delivered:
  assumes "b_conn b ws = Some d" "list_all unicode s" "length (utf8_bytes_of s) < 2 ^ 32" "concat pieces = utf8_bytes_of s"
    and "Parse einval erange s = Ok (Some msg)" "m_userId msg = cd_userId d" "m_conferenceId msg = cd_conferenceId d"
    and "GetConference b (cd_conferenceId d) \<noteq> None"
  shows "\<exists>b' u. bindR (onMessageStart ws (of_nat (length (utf8_bytes_of s))) b) (foldR (onMessageData ws) pieces) = Ok b' \<and>
    b' = set_user_data ws (d\<lparr>cd_utf8 := u\<rparr>) b \<and> UTF8_GetWString u = s \<and>
    onMessageEnd einval erange ws b' = with_conf (cd_conferenceId d) (MessageReceived msg) b'"
proof -
  from text_received [OF assms(1-4)] obtain u
    where u: "bindR (onMessageStart ws (of_nat (length (utf8_bytes_of s))) b) (foldR (onMessageData ws) pieces) =
        Ok (set_user_data ws (d\<lparr>cd_utf8 := u\<rparr>) b)" "UTF8_IsParsed u" "UTF8_GetWString u = s" by blast
  have "GetConference (set_user_data ws (d\<lparr>cd_utf8 := u\<rparr>) b) (cd_conferenceId d) \<noteq> None"
    using assms(8) by (simp add: GetConference_def set_user_data_def)
  moreover have conn: "b_conn (set_user_data ws x b) ws = Some x" for x by (simp add: set_user_data_def)
  ultimately have "onMessageEnd einval erange ws (set_user_data ws (d\<lparr>cd_utf8 := u\<rparr>) b) =
      with_conf (cd_conferenceId d) (MessageReceived msg) (set_user_data ws (d\<lparr>cd_utf8 := u\<rparr>) b)"
    using u(2,3) assms(5-7) conn by (auto simp: onMessageEnd_def user_data_def)
  with u(1,3) show ?thesis by (intro exI conjI) (assumption | rule refl)+
qed

theorem message_is_delivered_witness:
  "\<exists>b' u. b' = set_user_data 3 (ex_data\<lparr>cd_utf8 := u\<rparr>) ex_service \<and>
     onMessageEnd False False 3 b' = with_conf 1 (MessageReceived ex_hello) b'"
proof -
  let ?s = "Stringify ex_hello"
  have s: "list_all unicode ?s \<and> length (utf8_bytes_of ?s) < 2 ^ 32"
    by (simp add: Stringify_def ex_hello_def BFCPMsgHello_new_def BFCPMessage_new_def StringifyCommonHeader_def itoa_def
        udigits.simps utf8_bytes_of_def unicode_def encode_char_eq msg_attributes_def)
  show ?thesis
    using message_is_delivered [OF ex_service_facts(4) conjunct1 [OF s] conjunct2 [OF s], of "[utf8_bytes_of ?s]"
        False False ex_hello] Parse_ex_hello
    by (simp add: ex_data_facts ex_service_facts) blast
qed




end
