(* ===== verification/WebSocketFrames.thy ===== *)
theory WebSocketFrames
  imports Bytes
begin

text \<open>
  WebSocket frames (\<open>src/mcu/include/websocketconnection.h\<close>): the frame header with its setters and getters,
  the incremental parser of a header, and the frames that wait to be sent.  A header is the array of 14 bytes of
  the class; the buffer of a frame is the list of the bytes \<open>calloc\<close> has returned.
\<close>

section \<open>The header\<close>

datatype ws_opcode =
    ContinuationFrame | TextFrame | BinaryFrame | Reserved3 | Reserved4 | Reserved5 | Reserved6 | Reserved7
  | Close | Ping | Pong | ReservedB | ReservedC | ReservedD | ReservedE | ReservedF

fun opcode_value :: "ws_opcode \<Rightarrow> BYTE" where
  "opcode_value ContinuationFrame = 0x0"
| "opcode_value TextFrame = 0x1"
| "opcode_value BinaryFrame = 0x2"
| "opcode_value Reserved3 = 0x3"
| "opcode_value Reserved4 = 0x4"
| "opcode_value Reserved5 = 0x5"
| "opcode_value Reserved6 = 0x6"
| "opcode_value Reserved7 = 0x7"
| "opcode_value Close = 0x8"
| "opcode_value Ping = 0x9"
| "opcode_value Pong = 0xA"
| "opcode_value ReservedB = 0xB"
| "opcode_value ReservedC = 0xC"
| "opcode_value ReservedD = 0xD"
| "opcode_value ReservedE = 0xE"
| "opcode_value ReservedF = 0xF"

text \<open>The cast \<open>(OpCode) x\<close> of four bits.\<close>

definition to_opcode :: "BYTE \<Rightarrow> ws_opcode" where
  "to_opcode x =
     [ContinuationFrame, TextFrame, BinaryFrame, Reserved3, Reserved4, Reserved5, Reserved6, Reserved7,
      Close, Ping, Pong, ReservedB, ReservedC, ReservedD, ReservedE, ReservedF] ! unat (x AND 0x0F)"

type_synonym ws_header = "BYTE list"

definition IsFin :: "ws_header \<Rightarrow> bool" where
  "IsFin h = (h ! 0 AND 0x80 \<noteq> 0)"

definition GetOpCode :: "ws_header \<Rightarrow> ws_opcode" where
  "GetOpCode h = to_opcode (h ! 0 AND 0x0F)"

definition IsMasked :: "ws_header \<Rightarrow> bool" where
  "IsMasked h = (h ! 1 AND 0x80 \<noteq> 0)"

definition GetPayloadLenghtSize :: "ws_header \<Rightarrow> nat" where
  "GetPayloadLenghtSize h =
     (let len = h ! 1 AND 0x7F in if len = 126 then 3 else if len = 127 then 9 else 1)"

definition GetMask :: "ws_header \<Rightarrow> DWORD res" where
  "GetMask h = (if IsMasked h then get4 h (1 + GetPayloadLenghtSize h) else Ok 0)"

definition GetSize :: "ws_header \<Rightarrow> nat" where
  "GetSize h = 1 + GetPayloadLenghtSize h + (if IsMasked h then 4 else 0)"

definition GetPayloadLength :: "ws_header \<Rightarrow> QWORD res" where
  "GetPayloadLength h =
     (let len = h ! 1 AND 0x7F in
      if len = 126 then bindR (get2 h 2) (\<lambda>n. Ok (ucast n))
      else if len = 127 then get8 h 2
      else Ok (ucast len))"

definition header_new :: ws_header where
  "header_new = replicate 14 0"

definition SetFin :: "bool \<Rightarrow> ws_header \<Rightarrow> ws_header" where
  "SetFin fin h = h[0 := (h ! 0 AND 0x7F) OR (if fin then 0x80 else 0)]"

definition SetOpCode :: "ws_opcode \<Rightarrow> ws_header \<Rightarrow> ws_header" where
  "SetOpCode opCode h = h[0 := (h ! 0 AND 0x80) OR opcode_value opCode]"

definition SetMask :: "DWORD \<Rightarrow> ws_header \<Rightarrow> ws_header res" where
  "SetMask msk h = (let h = h[1 := h ! 1 OR 0x80] in set4 h (1 + GetPayloadLenghtSize h) msk)"

definition SetPayloadLength :: "QWORD \<Rightarrow> ws_header \<Rightarrow> ws_header res" where
  "SetPayloadLength len h =
     (if len < 126 then Ok (h[1 := h ! 1 OR ucast len])
      else if len < 0xFFFF then set2 (h[1 := h ! 1 OR 126]) 2 (ucast len)
      else set8 (h[1 := h ! 1 OR 127]) 2 len)"

definition WebSocketFrameHeader_new :: "bool \<Rightarrow> ws_opcode \<Rightarrow> QWORD \<Rightarrow> DWORD \<Rightarrow> ws_header res" where
  "WebSocketFrameHeader_new fin opCode len msk =
     bindR (SetPayloadLength len (SetOpCode opCode (SetFin fin header_new))) (\<lambda>h.
     if msk \<noteq> 0 then SetMask msk h else Ok h)"

section \<open>The parser of a header\<close>

text \<open>\<open>hp_len\<close> is the number of bytes the current header has received.\<close>

record header_parser =
  hp_header :: "ws_header option"
  hp_len :: nat

definition header_parser_new :: header_parser where
  "header_parser_new = \<lparr>hp_header = None, hp_len = 0\<rparr>"

definition hp_IsParsed :: "header_parser \<Rightarrow> bool" where
  "hp_IsParsed p = (case hp_header p of None \<Rightarrow> False | Some h \<Rightarrow> GetSize h = hp_len p)"

text \<open>\<open>memcpy(header->data+len,data,c)\<close>.\<close>

definition copy_into :: "nat \<Rightarrow> BYTE list \<Rightarrow> BYTE list \<Rightarrow> BYTE list res" where
  "copy_into i bs d =
     (if i + length bs \<le> length d then Ok (take i d @ bs @ drop (i + length bs) d) else Fault OutOfBounds)"

text \<open>The number of bytes missing is kept in a \<open>BYTE\<close>.\<close>

definition missing :: "nat \<Rightarrow> nat \<Rightarrow> nat" where
  "missing n len = nat ((int n - int len) mod 256)"

text \<open>Get the missing bytes, or what there is of them, up to the size \<open>n\<close>.\<close>

definition hp_fill :: "nat \<Rightarrow> ws_header \<Rightarrow> nat \<Rightarrow> BYTE list \<Rightarrow> (ws_header \<times> nat \<times> nat) res" where
  "hp_fill n h len data =
     (let c = min (missing n len) (length data) in
      bindR (copy_into len (take c data) h) (\<lambda>h. Ok (h, len + c, c)))"

definition hp_Parse :: "BYTE list \<Rightarrow> header_parser \<Rightarrow> (nat \<times> header_parser) res" where
  "hp_Parse data p =
     (let p = (if hp_header p = None then \<lparr>hp_header = Some header_new, hp_len = 0\<rparr> else p);
          h = the (hp_header p); len = hp_len p
      in bindR (if len < 2 then hp_fill 2 h len data else Ok (h, len, 0)) (\<lambda>(h, len, c).
         let data = drop c data in
         if data = [] then Ok (c, \<lparr>hp_header = Some h, hp_len = len\<rparr>)
         else bindR (hp_fill (GetSize h) h len data) (\<lambda>(h, len, c').
           Ok (c + c', \<lparr>hp_header = Some h, hp_len = len\<rparr>))))"

definition ConsumeHeader :: "header_parser \<Rightarrow> ws_header option \<times> header_parser" where
  "ConsumeHeader p = (hp_header p, p\<lparr>hp_header := None\<rparr>)"

section \<open>Frames to send\<close>

record ws_frame =
  wf_opCode :: ws_opcode
  wf_data :: "BYTE list"
  wf_size :: DWORD
  wf_headerSize :: DWORD
  wf_length :: DWORD

text \<open>The sum is a \<open>DWORD\<close> and may wrap.  The result of the call is never used.\<close>

definition frame_Append :: "BYTE list \<Rightarrow> ws_frame \<Rightarrow> ws_frame res" where
  "frame_Append bs f =
     (if of_nat (length bs) + wf_length f > wf_size f then Ok f
      else bindR (copy_into (unat (wf_length f)) bs (wf_data f)) (\<lambda>d.
        Ok (f\<lparr>wf_data := d, wf_length := wf_length f + of_nat (length bs)\<rparr>)))"

definition frame_new :: "bool \<Rightarrow> ws_opcode \<Rightarrow> BYTE list option \<Rightarrow> DWORD \<Rightarrow> ws_frame res" where
  "frame_new fin opCode data n =
     bindR (WebSocketFrameHeader_new fin opCode (ucast n) 0) (\<lambda>h.
     let hs = GetSize h; total = n + of_nat hs in
     bindR (copy_into 0 (take hs h) (replicate (unat total) 0)) (\<lambda>d.
     let f = \<lparr>wf_opCode = opCode, wf_data = d, wf_size = total, wf_headerSize = of_nat hs, wf_length = of_nat hs\<rparr> in
     case data of None \<Rightarrow> Ok f | Some bs \<Rightarrow> frame_Append bs f))"

definition GetPayloadData :: "ws_frame \<Rightarrow> BYTE list" where
  "GetPayloadData f = drop (unat (wf_headerSize f)) (wf_data f)"

definition GetPayloadSize :: "ws_frame \<Rightarrow> DWORD" where
  "GetPayloadSize f = wf_size f - wf_headerSize f"

text \<open>Writing through the pointer \<open>GetPayloadData()+i\<close>.\<close>

definition put_payload :: "nat \<Rightarrow> BYTE list \<Rightarrow> ws_frame \<Rightarrow> ws_frame res" where
  "put_payload i bs f =
     bindR (copy_into (unat (wf_headerSize f) + i) bs (wf_data f)) (\<lambda>d. Ok (f\<lparr>wf_data := d\<rparr>))"

section \<open>The header is read back\<close>

lemma opcode_round_trip: "to_opcode (opcode_value op) = op"
  by (cases op) (simp_all add: to_opcode_def)

lemma opcode_value_small: "opcode_value op AND 0x0F = opcode_value op" "opcode_value op AND 0x80 = 0"
  by (cases op; simp)+

lemma first_byte:
  "SetOpCode op (SetFin fin header_new) =
     ((if fin then 0x80 else 0) OR opcode_value op) # replicate 13 0"
  by (cases fin) (simp_all add: SetOpCode_def SetFin_def header_new_def numeral_eq_Suc)

lemma take_bit_small: "unat (n :: 'a::len word) < 2 ^ k \<Longrightarrow> take_bit k n = n"
  by (rule word_unat_eq_iff [THEN iffD2]) (simp add: unsigned_take_bit_eq take_bit_nat_eq_self)

text \<open>The second byte: the length field with the mask bit.\<close>

lemma length_bits:
  fixes n :: BYTE
  assumes "n \<le> 127"
  shows "n AND 127 = n" "n AND 128 = 0" "(n OR 128) AND 127 = n" "(n OR 128) AND 128 = 128"
proof -
  have "take_bit 7 n = n" using assms by (simp add: take_bit_small word_le_nat_alt)
  then show n: "n AND 127 = n" by (simp add: take_bit_eq_mask mask_eq_exp_minus_1)
  have "n AND 128 = n AND (127 AND 128)" by (simp only: n flip: and.assoc)
  then show z: "n AND 128 = 0" by simp
  show "(n OR 128) AND 127 = n" "(n OR 128) AND 128 = 128"
    by (simp_all add: n z bit.conj_disj_distrib2)
qed

lemma first_bits:
  "((if fin then 0x80 else 0) OR opcode_value op) AND 0x80 = (if fin then 0x80 else 0)"
  "((if fin then 0x80 else 0) OR opcode_value op) AND 0x0F = opcode_value op"
  by (cases op; cases fin; simp)+

text \<open>A header is filled in with its first byte, its length field and the bytes after it.\<close>

definition length_field :: "QWORD \<Rightarrow> BYTE" where
  "length_field len = (if len < 126 then ucast len else if len < 0xFFFF then 126 else 127)"

definition ext_length :: "QWORD \<Rightarrow> nat" where
  "ext_length len = (if len < 126 then 1 else if len < 0xFFFF then 3 else 9)"

lemma length_field_small: "length_field len \<le> 127"
proof (cases "len < 126")
  case True
  then have "unat len < 126" by (simp add: word_less_nat_alt)
  then have "unat (ucast len :: BYTE) \<le> 127" by (simp add: take_bit_nat_eq_self unsigned_ucast_eq)
  with True show ?thesis by (simp add: length_field_def word_le_nat_alt)
qed (simp add: length_field_def)

lemma length_field_bits [simp]: "length_field len AND 127 = length_field len" "length_field len AND 128 = 0"
  using length_bits length_field_small by blast+

lemma short_length:
  fixes len :: QWORD
  assumes "len < 126"
  shows "ucast len \<noteq> (126 :: BYTE)" "ucast len \<noteq> (127 :: BYTE)" "ucast (ucast len :: BYTE) = len"
proof -
  have l: "unat len < 126" using assms by (simp add: word_less_nat_alt)
  then have u: "unat (ucast len :: BYTE) = unat len" by (simp add: unsigned_ucast_eq take_bit_nat_eq_self)
  with l show "ucast len \<noteq> (126 :: BYTE)" "ucast len \<noteq> (127 :: BYTE)"
    by (auto dest: arg_cong [of _ _ unat])
  show "ucast (ucast len :: BYTE) = len" using u l by (intro word_unat_eq_iff [THEN iffD2]) (simp add: unsigned_ucast_eq unsigned_take_bit_eq take_bit_nat_eq_self)
qed

lemma middle_length:
  fixes len :: QWORD
  assumes "len < 0xFFFF"
  shows "ucast (take_bit 16 (ucast len :: DWORD)) = (len :: QWORD)"
proof -
  have "unat len < 2 ^ 16" using assms by (simp add: word_less_nat_alt)
  then show ?thesis by (intro word_unat_eq_iff [THEN iffD2]) (simp add: unsigned_ucast_eq unsigned_take_bit_eq take_bit_nat_eq_self)
qed

lemma list14:
  assumes "length d = 14"
  obtains a b r where "d = a # b # r" "length r = 12"
  using assms by (cases d; cases "tl d") auto

lemma SetPayloadLength_new:
  assumes d: "length d = 14" "d ! 1 = 0" and h: "SetPayloadLength len d = Ok h"
  shows "length h = 14" "h ! 0 = d ! 0" "h ! 1 = length_field len" "GetPayloadLength h = Ok len"
    "GetPayloadLenghtSize h = ext_length len"
proof -
  have "length h = 14 \<and> h ! 0 = d ! 0 \<and> h ! 1 = length_field len \<and> GetPayloadLength h = Ok len \<and>
    GetPayloadLenghtSize h = ext_length len"
  proof (cases "len < 126")
    case True
    then have "h = d[1 := length_field len]" using h d by (simp add: SetPayloadLength_def length_field_def)
    with True d short_length [OF True] show ?thesis
      by (auto simp: GetPayloadLength_def GetPayloadLenghtSize_def ext_length_def length_field_def [symmetric] Let_def)
        (auto simp: length_field_def)
  next
    case False
    show ?thesis
    proof (cases "len < 0xFFFF")
      case True
      with False d h get2_set2 [of 2 "d[1 := 126]" "ucast len"] middle_length [OF True]
      show ?thesis by (auto simp: SetPayloadLength_def GetPayloadLength_def GetPayloadLenghtSize_def ext_length_def
            length_field_def Let_def set2_def)
    next
      case large: False
      with False d h get8_set8 [of 2 "d[1 := 127]" len]
      show ?thesis by (auto simp: SetPayloadLength_def GetPayloadLength_def GetPayloadLenghtSize_def ext_length_def
            length_field_def Let_def set8_def)
    qed
  qed
  then show "length h = 14" "h ! 0 = d ! 0" "h ! 1 = length_field len" "GetPayloadLength h = Ok len"
    "GetPayloadLenghtSize h = ext_length len" by simp_all
qed

lemma SetMask_filled:
  assumes d: "length d = 14" "d ! 1 \<le> 127" and h: "SetMask msk d = Ok h"
  shows "length h = 14" "h ! 0 = d ! 0" "h ! 1 = d ! 1 OR 128" "GetMask h = Ok msk" "IsMasked h"
    "GetPayloadLength h = GetPayloadLength d" "GetPayloadLenghtSize h = GetPayloadLenghtSize d"
proof -
  let ?d = "d[1 := d ! 1 OR 128]"
  have n: "GetPayloadLenghtSize ?d = GetPayloadLenghtSize d" using d length_bits [OF d(2)]
    by (simp add: GetPayloadLenghtSize_def)
  have "length h = 14 \<and> h ! 0 = d ! 0 \<and> h ! 1 = d ! 1 OR 128 \<and> GetPayloadLength h = GetPayloadLength d \<and>
    get4 h (1 + GetPayloadLenghtSize d) = Ok msk"
    using h d length_bits [OF d(2)] get4_set4 [of "1 + GetPayloadLenghtSize d" ?d msk] n
    by (auto simp: SetMask_def Let_def GetPayloadLenghtSize_def GetPayloadLength_def set4_def get2_def get8_def get4_def
        split: if_splits)
  then show "length h = 14" "h ! 0 = d ! 0" "h ! 1 = d ! 1 OR 128" "GetMask h = Ok msk" "IsMasked h"
    "GetPayloadLength h = GetPayloadLength d" "GetPayloadLenghtSize h = GetPayloadLenghtSize d"
    using n length_bits [OF d(2)] by (simp_all add: IsMasked_def GetMask_def GetPayloadLenghtSize_def)
qed

lemma header_new_filled:
  "length (SetOpCode op (SetFin fin header_new)) = 14" "SetOpCode op (SetFin fin header_new) ! 1 = 0"
  "SetOpCode op (SetFin fin header_new) ! 0 = (if fin then 0x80 else 0) OR opcode_value op"
  by (simp_all add: first_byte)

lemma header_fields:
  assumes h: "WebSocketFrameHeader_new fin op len msk = Ok h"
  shows "length h = 14" "IsFin h = fin" "GetOpCode h = op" "GetPayloadLength h = Ok len" "IsMasked h = (msk \<noteq> 0)"
    "GetMask h = Ok msk" "GetSize h = 1 + ext_length len + (if msk \<noteq> 0 then 4 else 0)"
proof -
  obtain d where d: "SetPayloadLength len (SetOpCode op (SetFin fin header_new)) = Ok d"
    "(if msk \<noteq> 0 then SetMask msk d else Ok d) = Ok h"
    using h by (auto simp: WebSocketFrameHeader_new_def)
  note l = SetPayloadLength_new [OF header_new_filled(1,2) d(1)]
  have s: "d ! 1 \<le> 127" using l(3) length_field_small by simp
  have "length h = 14 \<and> h ! 0 = (if fin then 0x80 else 0) OR opcode_value op \<and> GetPayloadLength h = Ok len \<and>
    IsMasked h = (msk \<noteq> 0) \<and> GetMask h = Ok msk \<and> GetPayloadLenghtSize h = ext_length len"
  proof (cases "msk = 0")
    case True
    with d(2) l header_new_filled(3) show ?thesis by (simp add: IsMasked_def GetMask_def)
  next
    case False
    with d(2) have "SetMask msk d = Ok h" by simp
    from SetMask_filled [OF l(1) s this] l False header_new_filled(3) show ?thesis by simp
  qed
  then show "length h = 14" "IsFin h = fin" "GetOpCode h = op" "GetPayloadLength h = Ok len" "IsMasked h = (msk \<noteq> 0)"
    "GetMask h = Ok msk" "GetSize h = 1 + ext_length len + (if msk \<noteq> 0 then 4 else 0)"
    using first_bits [of fin op] opcode_round_trip [of op]
    by (simp_all add: IsFin_def GetOpCode_def GetSize_def) 
qed

lemma header_total: "\<exists>h. WebSocketFrameHeader_new fin op len msk = Ok h"
proof -
  have "\<exists>d. SetPayloadLength len (SetOpCode op (SetFin fin header_new)) = Ok d"
    by (simp add: SetPayloadLength_def set2_def set8_def header_new_filled)
  then obtain d where d: "SetPayloadLength len (SetOpCode op (SetFin fin header_new)) = Ok d" ..
  note l = SetPayloadLength_new(1) [OF header_new_filled(1,2) d]
  with d show ?thesis
    by (simp add: WebSocketFrameHeader_new_def SetMask_def set4_def Let_def GetPayloadLenghtSize_def)
qed

section \<open>A header that arrives in pieces\<close>

text \<open>The parser after the bytes \<open>r\<close>; it is always waiting for more.\<close>

definition parser_with :: "BYTE list \<Rightarrow> header_parser" where
  "parser_with r = \<lparr>hp_header = Some (r @ replicate (14 - length r) 0), hp_len = length r\<rparr>"

definition header_bytes :: "BYTE list \<Rightarrow> nat" where
  "header_bytes s = (if length s < 2 then 2 else GetSize s)"

definition hp_ok :: "header_parser \<Rightarrow> bool" where
  "hp_ok p \<longleftrightarrow> hp_header p = None \<or> (\<exists>r. p = parser_with r \<and> length r < header_bytes r)"

definition received :: "header_parser \<Rightarrow> BYTE list" where
  "received p = (case hp_header p of None \<Rightarrow> [] | Some h \<Rightarrow> take (hp_len p) h)"

lemma GetSize_bounds: "2 \<le> GetSize h" "GetSize h \<le> 14"
  by (simp_all add: GetSize_def GetPayloadLenghtSize_def Let_def)

lemma GetSize_cong: "h ! 1 = h' ! 1 \<Longrightarrow> GetSize h = GetSize h'"
  by (simp add: GetSize_def GetPayloadLenghtSize_def IsMasked_def)

lemma header_bytes_bounds: "2 \<le> header_bytes s" "header_bytes s \<le> 14"
  using GetSize_bounds [of s] by (auto simp: header_bytes_def)

lemma header_bytes_append: "2 \<le> length s \<Longrightarrow> header_bytes (s @ t) = header_bytes s"
  by (auto simp: header_bytes_def nth_append intro!: GetSize_cong)

lemma missing_small: "len \<le> n \<Longrightarrow> n \<le> 14 \<Longrightarrow> missing n len = n - len"
  by (simp add: missing_def nat_mod_distrib)

lemma received_with [simp]: "length r \<le> 14 \<Longrightarrow> received (parser_with r) = r"
  by (simp add: received_def parser_with_def)

definition padded :: "BYTE list \<Rightarrow> ws_header" where
  "padded r = r @ replicate (14 - length r) 0"

lemma hp_fill_padded:
  assumes "length r \<le> n" "n \<le> 14"
  shows "hp_fill n (padded r) (length r) data =
    (let r' = take n (r @ data) in Ok (padded r', length r', length r' - length r))"
proof -
  let ?c = "min (n - length r) (length data)"
  have "r @ take ?c data = take n (r @ data)" using assms by (simp add: min_def)
  then have r: "r @ take ?c data = take n (r @ data)" "length r + ?c = length (take n (r @ data))"
    using assms by (simp_all add: min_def)
  have "copy_into (length r) (take ?c data) (padded r) = Ok (padded (r @ take ?c data))"
    using assms by (simp add: copy_into_def padded_def)
  with r assms show ?thesis by (simp add: hp_fill_def missing_small Let_def)
qed

lemma padded_second: "2 \<le> length r \<Longrightarrow> GetSize (padded r) = GetSize r"
  by (rule GetSize_cong) (simp add: padded_def nth_append)

lemma hp_Parse_with:
  assumes r: "length r < header_bytes r" and p: "hp_header p = None \<and> r = [] \<or> p = parser_with r"
  shows "hp_Parse data p =
    (let r' = take (header_bytes (r @ data)) (r @ data) in Ok (length r' - length r, parser_with r'))"
proof -
  have start: "(if hp_header p = None then \<lparr>hp_header = Some header_new, hp_len = 0\<rparr> else p) =
      \<lparr>hp_header = Some (padded r), hp_len = length r\<rparr>"
    using p by (auto simp: parser_with_def header_new_def padded_def)
  let ?r = "if length r < 2 then take 2 (r @ data) else r"
  have 1: "(if length r < 2 then hp_fill 2 (padded r) (length r) data else Ok (padded r, length r, 0)) =
      Ok (padded ?r, length ?r, length ?r - length r)"
    by (simp add: hp_fill_padded Let_def)
  let ?d = "drop (length ?r - length r) data"
  have step: "hp_Parse data p =
      (if ?d = [] then Ok (length ?r - length r, \<lparr>hp_header = Some (padded ?r), hp_len = length ?r\<rparr>)
       else bindR (hp_fill (GetSize (padded ?r)) (padded ?r) (length ?r) ?d) (\<lambda>(h, len, c').
         Ok (length ?r - length r + c', \<lparr>hp_header = Some h, hp_len = len\<rparr>)))"
    unfolding hp_Parse_def start Let_def by (simp only: header_parser.simps option.sel 1 bindR.simps prod.case)
  have whole: "?r @ ?d = r @ data" by (cases "length data \<le> 2 - length r") auto
  show ?thesis
  proof (cases "?d = []")
    case True
    then have "take (header_bytes (r @ data)) (r @ data) = r @ data" "?r = r @ data"
      using header_bytes_bounds [of "r @ data"] r whole by (auto split: if_splits)
    with True show ?thesis unfolding step Let_def by (simp add: parser_with_def padded_def)
  next
    case False
    then have two: "2 \<le> length ?r" by (auto split: if_splits)
    have n: "header_bytes (r @ data) = GetSize (padded ?r)"
      using two header_bytes_append [OF two, of ?d] unfolding whole by (simp add: header_bytes_def padded_second)
    have le: "length ?r \<le> GetSize (padded ?r)"
      using GetSize_bounds [of "padded ?r"] r n header_bytes_append [of r data] by auto
    have grow: "length ?r - length r + (length (take (header_bytes (r @ data)) (r @ data)) - length ?r) =
        length (take (header_bytes (r @ data)) (r @ data)) - length r"
      using le n whole [THEN arg_cong, of length] by (cases "length r < 2") auto
    let ?t = "take (header_bytes (r @ data)) (r @ data)"
    have fill: "hp_fill (GetSize (padded ?r)) (padded ?r) (length ?r) ?d = Ok (padded ?t, length ?t, length ?t - length ?r)"
      using hp_fill_padded [OF le GetSize_bounds(2), of ?d] by (simp only: whole n [symmetric] Let_def)
    show ?thesis using False grow
      by (simp only: step if_False fill bindR.simps prod.case Let_def parser_with_def padded_def [symmetric])
  qed
qed

end
