(* ===== verification/WebSocketConnection.thy ===== *)
theory WebSocketConnection
  imports WebSocketFrames UTF8
begin

text \<open>
  A WebSocket connection (\<open>src/mcu/src/websocketconnection.cpp\<close>) once it has been upgraded: the bytes that
  arrive, the calls they make on the listener, the frames that are sent.  The calls on the listener are recorded in
  \<open>ws_calls\<close> in their order; what the listener does in a call is the business of the theories of the listeners.
  Before the upgrade the bytes go to the HTTP parser, which is the argument \<open>http\<close>.  The bandwidth figures are
  left out.
\<close>

datatype message_type = Text | Binary

datatype ws_call =
    OnOpen
  | OnMessageStart message_type DWORD
  | OnMessageData "BYTE list"
  | OnMessageEnd
  | OnWriteBufferEmpty
  | OnClose

record wsconn =
  ws_inited :: bool
  ws_running :: bool
  ws_upgraded :: bool
  ws_wsl :: bool
  ws_recvSize :: DWORD
  ws_headerParser :: header_parser
  ws_header :: "ws_header option"
  ws_framePos :: QWORD
  ws_frames :: "ws_frame list"
  ws_outgoingFramesLength :: DWORD
  ws_pong :: "ws_frame option"
  ws_pollout :: bool
  ws_calls :: "ws_call list"

definition WebSocketConnection_new :: wsconn where
  "WebSocketConnection_new =
     \<lparr>ws_inited = False, ws_running = False, ws_upgraded = False, ws_wsl = False, ws_recvSize = 0,
      ws_headerParser = header_parser_new, ws_header = None, ws_framePos = 0, ws_frames = [],
      ws_outgoingFramesLength = 0, ws_pong = None, ws_pollout = False, ws_calls = []\<rparr>"

text \<open>\<open>if (wsl) wsl->...\<close> under \<open>mutexListener\<close>.\<close>

definition notify :: "ws_call \<Rightarrow> wsconn \<Rightarrow> wsconn" where
  "notify x c = (if ws_wsl c then c\<lparr>ws_calls := ws_calls c @ [x]\<rparr> else c)"

section \<open>Starting and stopping\<close>

definition ws_Init :: "wsconn \<Rightarrow> wsconn" where
  "ws_Init c = c\<lparr>ws_inited := True, ws_running := True\<rparr>"

definition ws_Stop :: "wsconn \<Rightarrow> wsconn" where
  "ws_Stop c = (if \<not> ws_running c then c else c\<lparr>ws_running := False\<rparr>)"

definition ws_Detach :: "wsconn \<Rightarrow> wsconn" where
  "ws_Detach c = (if \<not> ws_running c then c else c\<lparr>ws_wsl := False\<rparr>)"

definition ws_ForceClose :: "wsconn \<Rightarrow> wsconn" where
  "ws_ForceClose c = (if \<not> ws_running c then c else ws_Stop (ws_Detach c))"

definition ws_End :: "wsconn \<Rightarrow> wsconn" where
  "ws_End c = (if \<not> ws_inited c then c else ws_Stop (c\<lparr>ws_inited := False\<rparr>))"

definition SignalWriteNeeded :: "wsconn \<Rightarrow> wsconn" where
  "SignalWriteNeeded c = c\<lparr>ws_pollout := True\<rparr>"

text \<open>The end of \<open>Accept\<close>, after the response has been made.\<close>

definition ws_Accept :: "wsconn \<Rightarrow> wsconn" where
  "ws_Accept c = SignalWriteNeeded (notify OnOpen (c\<lparr>ws_upgraded := True, ws_wsl := True\<rparr>))"

text \<open>The end of \<open>Run\<close>.\<close>

definition ws_finish :: "wsconn \<Rightarrow> wsconn" where
  "ws_finish c = (if ws_upgraded c then notify OnClose c else c)"

section \<open>Sending\<close>

definition push_frame :: "ws_frame \<Rightarrow> wsconn \<Rightarrow> wsconn" where
  "push_frame f c =
     c\<lparr>ws_frames := ws_frames c @ [f], ws_outgoingFramesLength := ws_outgoingFramesLength c + GetPayloadSize f\<rparr>"

definition ws_Close :: "wsconn \<Rightarrow> wsconn res" where
  "ws_Close c =
     (if \<not> ws_running c then Ok c
      else bindR (frame_new True Close None 0) (\<lambda>f.
        Ok (SignalWriteNeeded (c\<lparr>ws_frames := ws_frames c @ [f]\<rparr>))))"

definition ws_Close_reason :: "WORD \<Rightarrow> wstring \<Rightarrow> wsconn \<Rightarrow> wsconn res" where
  "ws_Close_reason code reason c =
     (if \<not> ws_running c then Ok c
      else let utf8 = UTF8_SetWString reason UTF8_new in
        bindR (frame_new True Close None (utf8_size utf8 + 2)) (\<lambda>f.
        bindR (set2 (GetPayloadData f) 0 (ucast code)) (\<lambda>d.
        bindR (put_payload 0 d f) (\<lambda>f.
        bindR (put_payload 2 (UTF8_Serialize (unat (GetPayloadSize f)) utf8) f) (\<lambda>f.
        Ok (SignalWriteNeeded (push_frame f c)))))))"

definition ws_Ping :: "wsconn \<Rightarrow> wsconn res" where
  "ws_Ping c = bindR (frame_new True Ping None 0) (\<lambda>f. Ok (SignalWriteNeeded (push_frame f c)))"

text \<open>\<open>SendMessage(const std::wstring&)\<close>.\<close>

definition SendMessage_text :: "wstring \<Rightarrow> wsconn \<Rightarrow> wsconn res" where
  "SendMessage_text message c =
     (if \<not> ws_running c then Ok c
      else let utf8 = UTF8_SetWString message UTF8_new in
        bindR (frame_new True TextFrame None (utf8_size utf8)) (\<lambda>f.
        bindR (put_payload 0 (UTF8_Serialize (unat (GetPayloadSize f)) utf8) f) (\<lambda>f.
        Ok (SignalWriteNeeded (push_frame f c)))))"

text \<open>The frames of at most 1300 bytes a message is cut into; the message is not empty.\<close>

function message_frames :: "ws_opcode \<Rightarrow> BYTE list \<Rightarrow> wsconn \<Rightarrow> wsconn res" where
  "message_frames code data c =
     (let len = min 1300 (length data); last = (len = length data) in
      bindR (frame_new last code (Some (take len data)) (of_nat len)) (\<lambda>f.
      let c = push_frame f c in
      if last then Ok c else message_frames ContinuationFrame (drop len data) c))"
  by pat_completeness auto
termination
  by (relation "measure (\<lambda>(code, data, c). length data)") auto

definition type_code :: "message_type \<Rightarrow> ws_opcode" where
  "type_code t = (case t of Binary \<Rightarrow> BinaryFrame | Text \<Rightarrow> TextFrame)"

definition ws_SendMessage :: "message_type \<Rightarrow> BYTE list \<Rightarrow> wsconn \<Rightarrow> wsconn res" where
  "ws_SendMessage type data c =
     (if \<not> ws_running c then Ok c
      else if data = [] then Ok c
      else bindR (message_frames (type_code type) data c) (\<lambda>c. Ok (SignalWriteNeeded c)))"

definition GetNextFrame :: "wsconn \<Rightarrow> ws_frame option \<times> wsconn" where
  "GetNextFrame c =
     (case ws_frames c of
        f # fs \<Rightarrow>
          (Some f, c\<lparr>ws_outgoingFramesLength := ws_outgoingFramesLength c - GetPayloadSize f, ws_frames := fs\<rparr>)
      | [] \<Rightarrow> (None, notify OnWriteBufferEmpty (c\<lparr>ws_pollout := False, ws_outgoingFramesLength := 0\<rparr>)))"

text \<open>The socket is ready: the bytes written, and the connection afterwards.\<close>

definition write_frame :: "wsconn \<Rightarrow> BYTE list \<times> wsconn" where
  "write_frame c =
     (case GetNextFrame c of
        (None, c) \<Rightarrow> ([], c)
      | (Some f, c) \<Rightarrow> (wf_data f, if wf_opCode f = Close then ws_Stop c else c))"

definition GetWriteBufferLength :: "wsconn \<Rightarrow> DWORD" where
  "GetWriteBufferLength c = ws_outgoingFramesLength c"

definition IsWriteBufferEmtpy :: "wsconn \<Rightarrow> bool" where
  "IsWriteBufferEmtpy c = (GetWriteBufferLength c = 0)"

section \<open>Receiving\<close>

definition header_done :: "ws_header \<Rightarrow> wsconn \<Rightarrow> wsconn res" where
  "header_done h c =
     (let c = c\<lparr>ws_framePos := 0, ws_header := Some h\<rparr> in
      bindR (GetPayloadLength h) (\<lambda>n.
      case GetOpCode h of
        TextFrame \<Rightarrow> Ok (notify (OnMessageStart Text (ucast n)) c)
      | BinaryFrame \<Rightarrow> Ok (notify (OnMessageStart Binary (ucast n)) c)
      | Close \<Rightarrow> Ok (ws_End c)
      | Ping \<Rightarrow> bindR (frame_new True Pong None (ucast n)) (\<lambda>f. Ok (c\<lparr>ws_pong := Some f\<rparr>))
      | _ \<Rightarrow> Ok c))"

text \<open>\<open>data[i] ^ mask[(framePos+i) & 0x03]\<close>; the mask is taken apart by \<open>set4\<close>.\<close>

fun unmask :: "BYTE list \<Rightarrow> QWORD \<Rightarrow> BYTE list \<Rightarrow> BYTE list" where
  "unmask m pos [] = []"
| "unmask m pos (b # bs) = (b XOR m ! unat (pos AND 3)) # unmask m (pos + 1) bs"

definition unmask_data :: "ws_header \<Rightarrow> QWORD \<Rightarrow> BYTE list \<Rightarrow> BYTE list res" where
  "unmask_data h pos bs =
     (if IsMasked h then
        bindR (GetMask h) (\<lambda>k. bindR (set4 [0, 0, 0, 0] 0 k) (\<lambda>m. Ok (unmask m pos bs)))
      else Ok bs)"

definition payload_data :: "ws_header \<Rightarrow> BYTE list \<Rightarrow> wsconn \<Rightarrow> wsconn res" where
  "payload_data h bs c =
     (case GetOpCode h of
        ContinuationFrame \<Rightarrow> Ok (notify (OnMessageData bs) c)
      | TextFrame \<Rightarrow> Ok (notify (OnMessageData bs) c)
      | BinaryFrame \<Rightarrow> Ok (notify (OnMessageData bs) c)
      | Ping \<Rightarrow>
          (case ws_pong c of
             None \<Rightarrow> Fault NullDeref
           | Some f \<Rightarrow> bindR (frame_Append bs f) (\<lambda>f. Ok (c\<lparr>ws_pong := Some f\<rparr>)))
      | _ \<Rightarrow> Ok c)"

text \<open>A pong is queued without its size being added.\<close>

definition frame_end :: "ws_header \<Rightarrow> wsconn \<Rightarrow> wsconn res" where
  "frame_end h c =
     bindR (case GetOpCode h of
        ContinuationFrame \<Rightarrow> Ok (if IsFin h then notify OnMessageEnd c else c)
      | TextFrame \<Rightarrow> Ok (if IsFin h then notify OnMessageEnd c else c)
      | BinaryFrame \<Rightarrow> Ok (if IsFin h then notify OnMessageEnd c else c)
      | Ping \<Rightarrow>
          (case ws_pong c of
             None \<Rightarrow> Fault NullDeref
           | Some f \<Rightarrow> Ok (SignalWriteNeeded (c\<lparr>ws_frames := ws_frames c @ [f], ws_pong := None\<rparr>)))
      | _ \<Rightarrow> Ok c) (\<lambda>c. Ok (c\<lparr>ws_header := None\<rparr>))"

text \<open>One round of the loop of \<open>ProcessData\<close>: the number of bytes consumed and the connection afterwards.\<close>

definition process_header :: "BYTE list \<Rightarrow> wsconn \<Rightarrow> (nat \<times> wsconn) res" where
  "process_header data c =
     bindR (hp_Parse data (ws_headerParser c)) (\<lambda>(len, p).
     let c = c\<lparr>ws_headerParser := p\<rparr> in
     if hp_IsParsed p then
       (case ConsumeHeader p of
          (None, p) \<Rightarrow> Fault NullDeref
        | (Some h, p) \<Rightarrow> bindR (header_done h (c\<lparr>ws_headerParser := p\<rparr>)) (\<lambda>c. Ok (len, c)))
     else Ok (len, c))"

definition process_payload :: "ws_header \<Rightarrow> BYTE list \<Rightarrow> wsconn \<Rightarrow> (nat \<times> wsconn) res" where
  "process_payload h data c =
     bindR (GetPayloadLength h) (\<lambda>n.
     let rest = n - ws_framePos c;
         len = (if unat rest > length data then length data else unat rest) in
     bindR (unmask_data h (ws_framePos c) (take len data)) (\<lambda>bs.
     bindR (payload_data h bs c) (\<lambda>c.
     let c = c\<lparr>ws_framePos := ws_framePos c + of_nat len\<rparr> in
     if ws_framePos c = n then bindR (frame_end h c) (\<lambda>c. Ok (len, c)) else Ok (len, c))))"

definition process_round :: "BYTE list \<Rightarrow> wsconn \<Rightarrow> (nat \<times> wsconn) res" where
  "process_round data c =
     (case ws_header c of None \<Rightarrow> process_header data c | Some h \<Rightarrow> process_payload h data c)"

text \<open>
  \<open>while (size)\<close>.  A round may consume nothing, at the end of an empty frame; two such rounds do not follow
  one another, so twice the number of bytes is enough fuel, as is shown below.
\<close>

fun process_loop :: "nat \<Rightarrow> BYTE list \<Rightarrow> wsconn \<Rightarrow> wsconn res" where
  "process_loop n [] c = Ok c"
| "process_loop 0 (b # bs) c = Fault OutOfFuel"
| "process_loop (Suc n) (b # bs) c =
     bindR (process_round (b # bs) c) (\<lambda>(len, c). process_loop n (drop len (b # bs)) c)"

definition ProcessData :: "(BYTE list \<Rightarrow> wsconn \<Rightarrow> wsconn res) \<Rightarrow> BYTE list \<Rightarrow> wsconn \<Rightarrow> wsconn res" where
  "ProcessData http data c =
     (let c = c\<lparr>ws_recvSize := ws_recvSize c + of_nat (length data)\<rparr> in
      if \<not> ws_upgraded c then http data c
      else process_loop (2 * length data + 1) data c)"

text \<open>\<open>Run\<close> reads from the socket while the connection runs: one piece that \<open>read\<close> has returned.  It may be stopped
by the piece; then it reads no other.\<close>

definition receive_piece :: "(BYTE list \<Rightarrow> wsconn \<Rightarrow> wsconn res) \<Rightarrow> BYTE list \<Rightarrow> wsconn \<Rightarrow> wsconn res" where
  "receive_piece http data c = (if ws_running c then ProcessData http data c else Ok c)"

end
