(* ===== verification/WebSocketStream.thy ===== *)
theory WebSocketStream
  imports WebSocketConnection
begin

text \<open>
  What a connection makes of a stream of frames.  A frame of the peer is a \<open>cframe\<close>, \<open>wire\<close> gives its bytes.
  \<open>expects c s out\<close> says that the connection \<open>c\<close> is somewhere in such a stream: \<open>s\<close> are the bytes still to
  come and \<open>out\<close> is what it has yet to hand on for them.  Every round of \<open>ProcessData\<close> keeps it, wherever the bytes
  at hand end.
\<close>

section \<open>Frames of the peer\<close>

record cframe =
  cf_fin :: bool
  cf_op :: ws_opcode
  cf_mask :: DWORD
  cf_payload :: "BYTE list"

definition plen :: "cframe \<Rightarrow> QWORD" where
  "plen f = of_nat (length (cf_payload f))"

text \<open>A close frame ends the connection; it is looked at apart.\<close>

definition cf_ok :: "cframe \<Rightarrow> bool" where
  "cf_ok f \<longleftrightarrow> cf_op f \<noteq> Close \<and> length (cf_payload f) < 2 ^ 64 \<and>
     (cf_op f = Ping \<longrightarrow> length (cf_payload f) < 2 ^ 31)"

definition full_header :: "cframe \<Rightarrow> ws_header" where
  "full_header f =
     (case WebSocketFrameHeader_new (cf_fin f) (cf_op f) (plen f) (cf_mask f) of Ok h \<Rightarrow> h | Fault _ \<Rightarrow> header_new)"

definition header_wire :: "cframe \<Rightarrow> BYTE list" where
  "header_wire f = take (GetSize (full_header f)) (full_header f)"

definition mask_bytes :: "DWORD \<Rightarrow> BYTE list" where
  "mask_bytes k = [ucast (drop_bit 24 k), ucast (drop_bit 16 k), ucast (drop_bit 8 k), ucast k]"

definition masked :: "cframe \<Rightarrow> BYTE list" where
  "masked f = (if cf_mask f = 0 then cf_payload f else unmask (mask_bytes (cf_mask f)) 0 (cf_payload f))"

definition wire :: "cframe \<Rightarrow> BYTE list" where
  "wire f = header_wire f @ masked f"

lemma full_header:
  "length (full_header f) = 14" "IsFin (full_header f) = cf_fin f" "GetOpCode (full_header f) = cf_op f"
  "GetPayloadLength (full_header f) = Ok (plen f)" "IsMasked (full_header f) = (cf_mask f \<noteq> 0)"
  "GetMask (full_header f) = Ok (cf_mask f)"
proof -
  obtain h where h: "WebSocketFrameHeader_new (cf_fin f) (cf_op f) (plen f) (cf_mask f) = Ok h"
    using header_total by blast
  from header_fields [OF h] h show "length (full_header f) = 14" "IsFin (full_header f) = cf_fin f"
    "GetOpCode (full_header f) = cf_op f" "GetPayloadLength (full_header f) = Ok (plen f)"
    "IsMasked (full_header f) = (cf_mask f \<noteq> 0)" "GetMask (full_header f) = Ok (cf_mask f)"
    by (simp_all add: full_header_def)
qed

text \<open>The fields are in the first bytes, as many as \<open>GetSize\<close> tells.\<close>

lemma same_fields:
  assumes l: "length h = 14" "length h' = 14" and eq: "\<And>i. i < GetSize h \<Longrightarrow> h' ! i = h ! i"
  shows "GetSize h' = GetSize h" "IsFin h' = IsFin h" "GetOpCode h' = GetOpCode h"
    "GetPayloadLength h' = GetPayloadLength h" "IsMasked h' = IsMasked h" "GetMask h' = GetMask h"
proof -
  have 01: "h' ! 0 = h ! 0" "h' ! 1 = h ! 1" using eq [of 0] eq [of 1] GetSize_bounds [of h] by simp_all
  then show s: "GetSize h' = GetSize h" "IsFin h' = IsFin h" "GetOpCode h' = GetOpCode h" "IsMasked h' = IsMasked h"
    using GetSize_cong [of h' h] by (simp_all add: IsFin_def GetOpCode_def IsMasked_def)
  have n: "GetPayloadLenghtSize h' = GetPayloadLenghtSize h" using 01 by (simp add: GetPayloadLenghtSize_def)
  have e: "\<forall>i < 1 + GetPayloadLenghtSize h. h' ! i = h ! i" using eq by (simp add: GetSize_def)
  show "GetPayloadLength h' = GetPayloadLength h"
  proof (cases "h ! 1 AND 0x7F = 126 \<or> h ! 1 AND 0x7F = 127")
    case True
    with e 01 l show ?thesis
      by (auto simp: GetPayloadLength_def GetPayloadLenghtSize_def get2_def get8_def get4_def)
  qed (use 01 in \<open>auto simp: GetPayloadLength_def Let_def\<close>)
  show "GetMask h' = GetMask h"
  proof (cases "IsMasked h")
    case True
    then have "\<forall>i < 5 + GetPayloadLenghtSize h. h' ! i = h ! i" using eq by (simp add: GetSize_def)
    moreover have "GetPayloadLenghtSize h \<le> 9" by (simp add: GetPayloadLenghtSize_def Let_def)
    ultimately show ?thesis using True s l n by (simp add: GetMask_def get4_def)
  qed (simp add: GetMask_def s)
qed

lemma header_wire:
  "length (header_wire f) = GetSize (full_header f)" "header_bytes (header_wire f @ s) = length (header_wire f)"
  "2 \<le> length (header_wire f)" "length (header_wire f) \<le> 14"
proof -
  show l: "length (header_wire f) = GetSize (full_header f)"
    using GetSize_bounds [of "full_header f"] by (simp add: header_wire_def full_header)
  then show b: "2 \<le> length (header_wire f)" "length (header_wire f) \<le> 14"
    using GetSize_bounds [of "full_header f"] by simp_all
  then have "header_wire f ! 1 = full_header f ! 1" by (simp add: header_wire_def)
  then have "GetSize (header_wire f) = GetSize (full_header f)" by (rule GetSize_cong)
  with b l show "header_bytes (header_wire f @ s) = length (header_wire f)"
    by (simp add: header_bytes_append) (simp add: header_bytes_def)
qed

definition wire_header :: "cframe \<Rightarrow> ws_header" where
  "wire_header f = padded (header_wire f)"

lemma wire_header [simp]:
  "GetSize (wire_header f) = length (header_wire f)" "IsFin (wire_header f) = cf_fin f"
  "GetOpCode (wire_header f) = cf_op f" "GetPayloadLength (wire_header f) = Ok (plen f)"
  "IsMasked (wire_header f) = (cf_mask f \<noteq> 0)" "GetMask (wire_header f) = Ok (cf_mask f)"
proof -
  have l: "length (wire_header f) = 14" using header_wire by (simp add: wire_header_def padded_def)
  have e: "wire_header f ! i = full_header f ! i" if "i < GetSize (full_header f)" for i
    using that header_wire(1) [of f] by (simp add: wire_header_def padded_def nth_append) (simp add: header_wire_def)
  note s = same_fields [OF full_header(1) l e]
  from s header_wire(1) [of f] full_header show "GetSize (wire_header f) = length (header_wire f)" "IsFin (wire_header f) = cf_fin f"
    "GetOpCode (wire_header f) = cf_op f" "GetPayloadLength (wire_header f) = Ok (plen f)"
    "IsMasked (wire_header f) = (cf_mask f \<noteq> 0)" "GetMask (wire_header f) = Ok (cf_mask f)"
    by simp_all
qed

section \<open>Masking\<close>

lemma unmask_length [simp]: "length (unmask m pos bs) = length bs"
  by (induction m pos bs rule: unmask.induct) auto

lemma unmask_unmask: "unmask m pos (unmask m pos bs) = bs"
  by (induction m pos bs rule: unmask.induct) (auto simp: xor.assoc)

lemma unmask_take: "take k (unmask m pos bs) = unmask m pos (take k bs)"
  by (induction m pos bs arbitrary: k rule: unmask.induct) (simp_all add: take_Cons split: nat.split)

lemma unmask_drop: "drop k (unmask m pos bs) = unmask m (pos + of_nat k) (drop k bs)"
  by (induction m pos bs arbitrary: k rule: unmask.induct) (simp_all add: drop_Cons add.assoc split: nat.split)

lemma masked_length [simp]: "length (masked f) = length (cf_payload f)"
  by (simp add: masked_def)

lemma mask_bytes: "set4 [0, 0, 0, 0] 0 k = Ok (mask_bytes k)"
  by (simp add: set4_def mask_bytes_def)

text \<open>Whatever slice of the masked payload is at hand, its bytes are recovered from their position.\<close>

lemma unmask_slice:
  "unmask_data (wire_header f) (of_nat k) (take n (drop k (masked f))) = Ok (take n (drop k (cf_payload f)))"
  by (simp add: unmask_data_def mask_bytes masked_def unmask_drop unmask_take unmask_unmask)

section \<open>Frames to send\<close>

text \<open>The frame to send for \<open>g\<close>, an unmasked one, when \<open>k\<close> bytes of its payload have been appended.\<close>

definition filled :: "nat \<Rightarrow> cframe \<Rightarrow> ws_frame" where
  "filled k g =
     (let h = full_header g; hs = GetSize h; n = length (cf_payload g) in
      \<lparr>wf_opCode = cf_op g, wf_data = take hs h @ take k (cf_payload g) @ replicate (n - k) 0,
       wf_size = of_nat n + of_nat hs, wf_headerSize = of_nat hs, wf_length = of_nat hs + of_nat k\<rparr>)"

lemma small_sum:
  assumes "n < 2 ^ 31" "hs \<le> 14" "k \<le> n"
  shows "unat (of_nat n + of_nat hs :: DWORD) = n + hs" "unat (of_nat hs + of_nat k :: DWORD) = hs + k"
    "unat (of_nat hs :: DWORD) = hs"
proof -
  have "n + hs < 2 ^ 32" "hs + k < 2 ^ 32" "hs < 2 ^ 32" using assms by simp_all
  then show "unat (of_nat n + of_nat hs :: DWORD) = n + hs" "unat (of_nat hs + of_nat k :: DWORD) = hs + k"
    "unat (of_nat hs :: DWORD) = hs"
    by (simp_all flip: of_nat_add add: unat_of_nat)
qed

lemma copy_into_zeros:
  "length a = i \<Longrightarrow> length bs \<le> n \<Longrightarrow>
     copy_into i bs (a @ replicate n 0) = Ok (a @ bs @ replicate (n - length bs) 0)"
  by (auto simp: copy_into_def)

lemma filled_new:
  assumes n: "length (cf_payload g) < 2 ^ 31" and m: "cf_mask g = 0"
  shows "frame_new (cf_fin g) (cf_op g) None (of_nat (length (cf_payload g))) = Ok (filled 0 g)"
proof -
  let ?n = "length (cf_payload g)"
  have u: "ucast (of_nat ?n :: DWORD) = plen g"
    using n by (intro word_unat_eq_iff [THEN iffD2])
      (simp add: plen_def unsigned_ucast_eq unat_of_nat take_bit_nat_eq_self)
  obtain h where h: "WebSocketFrameHeader_new (cf_fin g) (cf_op g) (plen g) 0 = Ok h" using header_total by blast
  then have p: "full_header g = h" using m by (simp add: full_header_def)
  have l: "length h = 14" by (rule header_fields(1) [OF h])
  note hs = GetSize_bounds(2) [of h]
  have "copy_into 0 (take (GetSize h) h) (replicate (?n + GetSize h) 0) = Ok (take (GetSize h) h @ replicate ?n 0)"
    using hs l by (simp add: copy_into_def)
  with h u hs p show ?thesis using small_sum(1) [OF n hs, of 0]
    by (simp add: frame_new_def Let_def filled_def)
qed

lemma filled_Append:
  assumes n: "length (cf_payload g) < 2 ^ 31" and k: "k \<le> length (cf_payload g)"
  shows "frame_Append (take m (drop k (cf_payload g))) (filled k g) =
    Ok (filled (k + length (take m (drop k (cf_payload g)))) g)"
proof -
  let ?h = "full_header g" and ?n = "length (cf_payload g)" and ?bs = "take m (drop k (cf_payload g))"
  let ?hs = "GetSize ?h" and ?l = "length ?bs"
  have h: "length ?h = 14" by (rule full_header)
  note hs = GetSize_bounds(2) [of ?h]
  have l: "k + ?l \<le> ?n" using k by simp
  have sum: "of_nat ?l + (of_nat ?hs + of_nat k :: DWORD) = of_nat ?hs + of_nat (k + ?l)" by (simp add: ac_simps)
  have "unat (of_nat ?l + wf_length (filled k g)) \<le> unat (wf_size (filled k g))"
    using small_sum [OF n hs l] l by (simp add: filled_def Let_def sum del: length_take)
  then have fits: "\<not> wf_size (filled k g) < of_nat ?l + wf_length (filled k g)"
    by (simp add: word_less_nat_alt not_less)
  have t: "take (k + ?l) (cf_payload g) = take k (cf_payload g) @ ?bs"
    by (simp add: take_add min_def)
  have "length (take ?hs ?h @ take k (cf_payload g)) = ?hs + k" using hs h k by simp
  from copy_into_zeros [OF this, of ?bs "?n - k"] l
  have "copy_into (?hs + k) ?bs (take ?hs ?h @ take k (cf_payload g) @ replicate (?n - k) 0) =
      Ok (take ?hs ?h @ take (k + ?l) (cf_payload g) @ replicate (?n - (k + ?l)) 0)"
    unfolding t by (simp del: length_take)
  with fits sum small_sum(2) [OF n hs k] show ?thesis
    by (simp add: frame_Append_def) (simp add: filled_def Let_def ac_simps)
qed

lemma filled_all:
  assumes n: "length (cf_payload g) < 2 ^ 31" and m: "cf_mask g = 0"
  shows "wf_data (filled (length (cf_payload g)) g) = wire g"
    "GetPayloadSize (filled k g) = of_nat (length (cf_payload g))"
  using m by (simp_all add: filled_def Let_def wire_def header_wire_def masked_def GetPayloadSize_def)

lemma filled_whole:
  assumes n: "length (cf_payload g) < 2 ^ 31" and m: "cf_mask g = 0"
  shows "frame_new (cf_fin g) (cf_op g) (Some (cf_payload g)) (of_nat (length (cf_payload g))) =
    Ok (filled (length (cf_payload g)) g)"
proof -
  have "frame_new fin op (Some bs) x = bindR (frame_new fin op None x) (frame_Append bs)" for fin op bs x
    by (simp add: frame_new_def Let_def bindR_assoc)
  with filled_new [OF n m] filled_Append [OF n, of 0 "length (cf_payload g)"] show ?thesis by simp
qed

text \<open>The pong of a ping when \<open>k\<close> bytes of the ping's payload have arrived.\<close>

definition pong_of :: "cframe \<Rightarrow> cframe" where
  "pong_of f = \<lparr>cf_fin = True, cf_op = Pong, cf_mask = 0, cf_payload = cf_payload f\<rparr>"

lemma pong_of_sel [simp]:
  "cf_fin (pong_of f) = True" "cf_op (pong_of f) = Pong" "cf_mask (pong_of f) = 0" "cf_payload (pong_of f) = cf_payload f"
  by (simp_all add: pong_of_def)

definition pong_at :: "nat \<Rightarrow> cframe \<Rightarrow> ws_frame" where
  "pong_at k f = filled k (pong_of f)"

lemma pong_new:
  "length (cf_payload f) < 2 ^ 31 \<Longrightarrow> frame_new True Pong None (of_nat (length (cf_payload f))) = Ok (pong_at 0 f)"
  using filled_new [of "pong_of f"] by (simp add: pong_at_def)

lemma pong_Append:
  "length (cf_payload f) < 2 ^ 31 \<Longrightarrow> k \<le> length (cf_payload f) \<Longrightarrow>
   frame_Append (take m (drop k (cf_payload f))) (pong_at k f) =
     Ok (pong_at (k + length (take m (drop k (cf_payload f)))) f)"
  using filled_Append [of "pong_of f" k m] by (simp add: pong_at_def)

section \<open>What a stream is worth\<close>

text \<open>The calls on the listener, with the data byte by byte: where the data of a frame is cut is left open.\<close>

datatype atom = ACall ws_call | AByte BYTE

fun call_atoms :: "ws_call \<Rightarrow> atom list" where
  "call_atoms (OnMessageData bs) = (if bs = [] then [ACall (OnMessageData [])] else map AByte bs)"
| "call_atoms x = [ACall x]"

definition atoms :: "ws_call list \<Rightarrow> atom list" where
  "atoms xs = concat (map call_atoms xs)"

lemma atoms_append [simp]: "atoms (xs @ ys) = atoms xs @ atoms ys"
  by (simp add: atoms_def)

lemma atoms_Cons [simp]: "atoms (x # xs) = call_atoms x @ atoms xs" and atoms_Nil [simp]: "atoms [] = []"
  by (simp_all add: atoms_def)

definition is_data :: "ws_opcode \<Rightarrow> bool" where
  "is_data op \<longleftrightarrow> op = ContinuationFrame \<or> op = TextFrame \<or> op = BinaryFrame"

definition first_atoms :: "cframe \<Rightarrow> atom list" where
  "first_atoms f =
     (case cf_op f of
        TextFrame \<Rightarrow> [ACall (OnMessageStart Text (ucast (plen f)))]
      | BinaryFrame \<Rightarrow> [ACall (OnMessageStart Binary (ucast (plen f)))]
      | _ \<Rightarrow> [])"

definition end_atoms :: "cframe \<Rightarrow> atom list" where
  "end_atoms f = (if is_data (cf_op f) \<and> cf_fin f then [ACall OnMessageEnd] else [])"

text \<open>For a data frame without payload there is a call without data.\<close>

definition rest_atoms :: "nat \<Rightarrow> cframe \<Rightarrow> atom list" where
  "rest_atoms k f =
     (if \<not> is_data (cf_op f) then []
      else if cf_payload f = [] then [ACall (OnMessageData [])] else map AByte (drop k (cf_payload f))) @ end_atoms f"

definition pongs :: "cframe \<Rightarrow> ws_frame list" where
  "pongs f = (if cf_op f = Ping then [pong_at (length (cf_payload f)) f] else [])"

definition stream :: "cframe list \<Rightarrow> BYTE list" where
  "stream fs = concat (map wire fs)"

definition stream_atoms :: "cframe list \<Rightarrow> atom list" where
  "stream_atoms fs = concat (map (\<lambda>f. first_atoms f @ rest_atoms 0 f) fs)"

definition stream_pongs :: "cframe list \<Rightarrow> ws_frame list" where
  "stream_pongs fs = concat (map pongs fs)"

lemma stream_simps [simp]:
  "stream [] = []" "stream (f # fs) = header_wire f @ masked f @ stream fs"
  "stream_atoms [] = []" "stream_atoms (f # fs) = first_atoms f @ rest_atoms 0 f @ stream_atoms fs"
  "stream_pongs [] = []" "stream_pongs (f # fs) = pongs f @ stream_pongs fs"
  by (simp_all add: stream_def stream_atoms_def stream_pongs_def wire_def)

text \<open>The last frame has some payload: the end of an empty frame is noticed only when more bytes arrive.\<close>

definition good_stream :: "cframe list \<Rightarrow> bool" where
  "good_stream fs \<longleftrightarrow> list_all cf_ok fs \<and> (fs \<noteq> [] \<longrightarrow> cf_payload (last fs) \<noteq> [])"

lemma good_stream_Cons: "good_stream (f # fs) \<Longrightarrow> cf_ok f \<and> good_stream fs"
  by (auto simp: good_stream_def split: if_splits)

inductive expects :: "wsconn \<Rightarrow> BYTE list \<Rightarrow> atom list \<Rightarrow> ws_frame list \<Rightarrow> bool" where
  idle: "ws_header c = None \<Longrightarrow> hp_header (ws_headerParser c) = None \<Longrightarrow> good_stream fs \<Longrightarrow>
    expects c (stream fs) (stream_atoms fs) (stream_pongs fs)"
| in_header: "ws_header c = None \<Longrightarrow> ws_headerParser c = parser_with r \<Longrightarrow> header_wire f = r @ t \<Longrightarrow> t \<noteq> [] \<Longrightarrow>
    good_stream (f # fs) \<Longrightarrow>
    expects c (t @ masked f @ stream fs) (first_atoms f @ rest_atoms 0 f @ stream_atoms fs) (pongs f @ stream_pongs fs)"
| in_payload: "ws_header c = Some (wire_header f) \<Longrightarrow> hp_header (ws_headerParser c) = None \<Longrightarrow>
    ws_framePos c = of_nat k \<Longrightarrow> k < length (cf_payload f) \<or> k = 0 \<and> cf_payload f = [] \<Longrightarrow>
    (cf_op f = Ping \<Longrightarrow> ws_pong c = Some (pong_at k f)) \<Longrightarrow> good_stream (f # fs) \<Longrightarrow>
    expects c (drop k (masked f) @ stream fs) (rest_atoms k f @ stream_atoms fs) (pongs f @ stream_pongs fs)"

text \<open>One round on the bytes \<open>xs\<close>: it hands on what it has promised, and promises the rest.\<close>

definition weight :: "BYTE list \<Rightarrow> wsconn \<Rightarrow> nat" where
  "weight xs c = 2 * length xs + (if ws_header c = None then 0 else 1)"

definition good_round :: "BYTE list \<Rightarrow> wsconn \<Rightarrow> BYTE list \<Rightarrow> atom list \<Rightarrow> ws_frame list \<Rightarrow> bool" where
  "good_round xs c ys as ps \<longleftrightarrow> (\<exists>n d as' ps'. process_round xs c = Ok (n, d) \<and> expects d (drop n xs @ ys) as' ps' \<and>
     atoms (ws_calls d) @ as' = atoms (ws_calls c) @ as \<and> ws_frames d @ ps' = ws_frames c @ ps \<and>
     ws_wsl d \<and> ws_upgraded d = ws_upgraded c \<and> ws_running d = ws_running c \<and> weight (drop n xs) d < weight xs c)"

lemma good_roundI:
  assumes "process_round xs c = Ok (n, d)" "expects d (drop n xs @ ys) as' ps'"
    and "atoms (ws_calls d) @ as' = atoms (ws_calls c) @ as" "ws_frames d @ ps' = ws_frames c @ ps"
    and "ws_wsl d" "ws_upgraded d = ws_upgraded c \<and> ws_running d = ws_running c" "weight (drop n xs) d < weight xs c"
  shows "good_round xs c ys as ps"
  unfolding good_round_def using assms by blast

lemma notify_frame [simp]:
  "ws_header (notify x c) = ws_header c" "ws_headerParser (notify x c) = ws_headerParser c"
  "ws_framePos (notify x c) = ws_framePos c" "ws_pong (notify x c) = ws_pong c" "ws_wsl (notify x c) = ws_wsl c"
  "ws_upgraded (notify x c) = ws_upgraded c" "ws_running (notify x c) = ws_running c" "ws_frames (notify x c) = ws_frames c"
  "ws_wsl c \<Longrightarrow> ws_calls (notify x c) = ws_calls c @ [x]"
  by (simp_all add: notify_def)

lemma End_frame [simp]:
  "ws_header (ws_End c) = ws_header c" "ws_headerParser (ws_End c) = ws_headerParser c"
  "ws_framePos (ws_End c) = ws_framePos c" "ws_pong (ws_End c) = ws_pong c" "ws_wsl (ws_End c) = ws_wsl c"
  "ws_upgraded (ws_End c) = ws_upgraded c" "ws_frames (ws_End c) = ws_frames c" "ws_calls (ws_End c) = ws_calls c"
  by (simp_all add: ws_End_def ws_Stop_def)

lemma hp_parsed_with: "hp_IsParsed (parser_with q) \<longleftrightarrow> header_bytes q = length q"
proof (cases "length q < 2")
  case True
  with GetSize_bounds [of "padded q"] show ?thesis
    by (simp add: hp_IsParsed_def parser_with_def padded_def header_bytes_def)
next
  case False
  then show ?thesis
    by (simp add: hp_IsParsed_def parser_with_def padded_def [symmetric] header_bytes_def padded_second)
qed

lemma header_done_ok:
  assumes f: "cf_ok f" and w: "ws_wsl c"
  shows "\<exists>d. header_done (wire_header f) c = Ok d \<and> ws_header d = Some (wire_header f) \<and> ws_framePos d = 0 \<and>
    ws_headerParser d = ws_headerParser c \<and> (cf_op f = Ping \<longrightarrow> ws_pong d = Some (pong_at 0 f)) \<and> ws_wsl d \<and>
    ws_upgraded d = ws_upgraded c \<and> ws_running d = ws_running c \<and> ws_frames d = ws_frames c \<and>
    atoms (ws_calls d) = atoms (ws_calls c) @ first_atoms f"
proof (cases "cf_op f = Ping")
  case True
  with f have n: "length (cf_payload f) < 2 ^ 31" by (simp add: cf_ok_def)
  then have "ucast (plen f) = (of_nat (length (cf_payload f)) :: DWORD)"
    by (intro word_unat_eq_iff [THEN iffD2]) (simp add: plen_def unsigned_ucast_eq unat_of_nat take_bit_nat_eq_self)
  with True w pong_new [OF n] show ?thesis by (simp add: header_done_def first_atoms_def)
next
  case False
  with f w show ?thesis by (cases "cf_op f") (simp_all add: header_done_def first_atoms_def cf_ok_def)
qed

lemma header_round:
  assumes c: "ws_header c = None" "hp_header (ws_headerParser c) = None \<and> r = [] \<or> ws_headerParser c = parser_with r"
    and f: "header_wire f = r @ t" "t \<noteq> []" "good_stream (f # fs)"
    and xs: "xs @ ys = t @ masked f @ stream fs" "xs \<noteq> []" and w: "ws_wsl c"
  shows "good_round xs c ys (first_atoms f @ rest_atoms 0 f @ stream_atoms fs) (pongs f @ stream_pongs fs)"
proof -
  note H = header_wire [of f]
  have full: "header_bytes (r @ t @ s) = length (r @ t)" for s using H(2) [of s] f(1) by simp
  have r: "length r < header_bytes r"
  proof (cases "length r < 2")
    case True
    then show ?thesis by (simp add: header_bytes_def)
  next
    case False
    with header_bytes_append [of r t] full [of "[]"] f(2) show ?thesis by simp
  qed
  note parse = hp_Parse_with [OF r c(2), of xs]
  show ?thesis
  proof (cases "length xs < length t")
    case True
    with xs(1) obtain t' where t: "t = xs @ t'" "t' \<noteq> []" "ys = t' @ masked f @ stream fs"
      by (auto simp: append_eq_append_conv2) 
    have b: "length (r @ xs) < header_bytes (r @ xs)"
    proof (cases "length (r @ xs) < 2")
      case True
      then show ?thesis by (simp add: header_bytes_def)
    next
      case False
      moreover have "0 < length t'" using t(2) by simp
      ultimately show ?thesis using header_bytes_append [of "r @ xs" t'] full [of "[]"] t by simp
    qed
    let ?d = "c\<lparr>ws_headerParser := parser_with (r @ xs)\<rparr>"
    from b have "process_round xs c = Ok (length xs, ?d)"
      using c(1) parse by (simp add: process_round_def process_header_def Let_def hp_parsed_with)
    moreover have "expects ?d (drop (length xs) xs @ ys) (first_atoms f @ rest_atoms 0 f @ stream_atoms fs) (pongs f @ stream_pongs fs)"
      using in_header [of ?d "r @ xs" f t' fs] c(1) f t by simp
    ultimately show ?thesis using w xs(2) c(1) by (auto simp: good_round_def weight_def)
  next
    case False
    define xs' where "xs' = drop (length t) xs"
    have "take (length t) (xs @ ys) = t" "drop (length t) (xs @ ys) = masked f @ stream fs" using xs(1) by simp_all
    with False have t: "xs = t @ xs'" "xs' @ ys = masked f @ stream fs"
      by (auto simp: xs'_def) (metis append_take_drop_id)
    have b: "take (header_bytes (r @ xs)) (r @ xs) = header_wire f" using full [of xs'] t(1) f(1) by simp
    have q: "hp_IsParsed (parser_with (header_wire f))" using H(2) [of "[]"] by (simp add: hp_parsed_with)
    have h: "ConsumeHeader (parser_with (header_wire f)) = (Some (wire_header f), (parser_with (header_wire f))\<lparr>hp_header := None\<rparr>)"
      by (simp add: ConsumeHeader_def parser_with_def wire_header_def padded_def)
    let ?c = "c\<lparr>ws_headerParser := (parser_with (header_wire f))\<lparr>hp_header := None\<rparr>\<rparr>"
    obtain d where d: "header_done (wire_header f) ?c = Ok d" "ws_header d = Some (wire_header f)" "ws_framePos d = 0"
      "ws_headerParser d = ws_headerParser ?c" "cf_op f = Ping \<longrightarrow> ws_pong d = Some (pong_at 0 f)" "ws_wsl d"
      "ws_upgraded d = ws_upgraded ?c \<and> ws_running d = ws_running ?c" "ws_frames d = ws_frames ?c"
      "atoms (ws_calls d) = atoms (ws_calls ?c) @ first_atoms f"
      using header_done_ok [of f ?c] good_stream_Cons [OF f(3)] w by auto
    have "hp_Parse xs (ws_headerParser c) = Ok (length t, parser_with (header_wire f))"
      using parse f(1) by (simp only: b Let_def) simp
    then have "process_round xs c = Ok (length t, d)"
      using c(1) q h d(1) by (simp add: process_round_def process_header_def Let_def)
    moreover have "expects d (drop (length t) xs @ ys) (rest_atoms 0 f @ stream_atoms fs) (pongs f @ stream_pongs fs)"
      using in_payload [of d f 0 fs] d f t by (cases "cf_payload f") simp_all
    moreover have "weight (drop (length t) xs) d < weight xs c"
      using f(2) t(1) by (cases t) (simp_all add: weight_def)
    ultimately show ?thesis using d t w c(1)
      by (intro good_roundI [of xs c "length t" d]) auto
  qed
qed

lemma payload_data_ok:
  assumes f: "cf_ok f" and w: "ws_wsl c" and k: "k \<le> length (cf_payload f)"
    and p: "cf_op f = Ping \<Longrightarrow> ws_pong c = Some (pong_at k f)"
    and bs: "bs = take m (drop k (cf_payload f))"
  shows "\<exists>d. payload_data (wire_header f) bs c = Ok d \<and> ws_header d = ws_header c \<and> ws_framePos d = ws_framePos c \<and>
    ws_headerParser d = ws_headerParser c \<and> (cf_op f = Ping \<longrightarrow> ws_pong d = Some (pong_at (k + length bs) f)) \<and>
    ws_wsl d \<and> ws_upgraded d = ws_upgraded c \<and> ws_running d = ws_running c \<and> ws_frames d = ws_frames c \<and>
    atoms (ws_calls d) = atoms (ws_calls c) @ (if is_data (cf_op f) then call_atoms (OnMessageData bs) else [])"
proof (cases "cf_op f = Ping")
  case True
  with f have n: "length (cf_payload f) < 2 ^ 31" by (simp add: cf_ok_def)
  from True p w pong_Append [OF n k, of m] show ?thesis by (simp add: payload_data_def is_data_def bs)
next
  case False
  with w show ?thesis by (cases "cf_op f") (simp_all add: payload_data_def is_data_def)
qed

lemma frame_end_ok:
  assumes w: "ws_wsl c" and p: "cf_op f = Ping \<Longrightarrow> ws_pong c = Some (pong_at (length (cf_payload f)) f)"
  shows "\<exists>d. frame_end (wire_header f) c = Ok d \<and> ws_header d = None \<and> ws_headerParser d = ws_headerParser c \<and>
    ws_wsl d \<and> ws_upgraded d = ws_upgraded c \<and> ws_running d = ws_running c \<and> ws_frames d = ws_frames c @ pongs f \<and>
    atoms (ws_calls d) = atoms (ws_calls c) @ end_atoms f"
  using assms by (cases "cf_op f") (simp_all add: frame_end_def end_atoms_def is_data_def pongs_def SignalWriteNeeded_def)

lemma payload_round:
  assumes c: "ws_header c = Some (wire_header f)" "hp_header (ws_headerParser c) = None" "ws_framePos c = of_nat k"
      "k < length (cf_payload f) \<or> k = 0 \<and> cf_payload f = []" "cf_op f = Ping \<Longrightarrow> ws_pong c = Some (pong_at k f)"
    and f: "good_stream (f # fs)"
    and xs: "xs @ ys = drop k (masked f) @ stream fs" "xs \<noteq> []" and w: "ws_wsl c"
  shows "good_round xs c ys (rest_atoms k f @ stream_atoms fs) (pongs f @ stream_pongs fs)"
proof -
  let ?n = "length (cf_payload f)"
  have k: "k \<le> ?n" using c(4) by auto
  have ok: "cf_ok f" "good_stream fs" using good_stream_Cons [OF f] by simp_all
  have big: "?n < 2 ^ 64" using ok(1) by (simp add: cf_ok_def)
  have left: "unat (plen f - ws_framePos c) = ?n - k"
  proof -
    have "plen f - ws_framePos c = of_nat (?n - k)" using c(3) k by (simp add: plen_def of_nat_diff)
    then show ?thesis using big by (simp add: unat_of_nat)
  qed
  define len where "len = (if length xs < ?n - k then length xs else ?n - k)"
  define bs where "bs = take len (drop k (cf_payload f))"
  have len: "len \<le> length xs" "k + len \<le> ?n" "length bs = len" using k by (auto simp: len_def bs_def)
  have "take len xs = take len (xs @ ys)" using len(1) by simp
  also have "\<dots> = take len (drop k (masked f))" unfolding xs(1) using len(2) by simp
  finally have slice: "unmask_data (wire_header f) (ws_framePos c) (take len xs) = Ok bs"
    using unmask_slice [of f k len] c(3) by (simp add: bs_def)
  have rest: "drop len xs @ ys = drop (k + len) (masked f) @ stream fs"
  proof -
    have "drop len xs @ ys = drop len (xs @ ys)" using len(1) by simp
    also have "\<dots> = drop (k + len) (masked f) @ stream fs" unfolding xs(1) using len(2) by (simp add: add.commute)
    finally show ?thesis .
  qed
  have xs0: "0 < length xs" using xs(2) by simp
  have outs: "rest_atoms k f = (if is_data (cf_op f) then call_atoms (OnMessageData bs) else []) @
      (if k + len = ?n then end_atoms f else rest_atoms (k + len) f)"
  proof (cases "cf_payload f = []")
    case True
    with c(4) show ?thesis by (simp add: rest_atoms_def bs_def len_def)
  next
    case False
    with c(4) xs0 have "bs \<noteq> []" by (auto simp: bs_def len_def)
    moreover have "drop k (cf_payload f) = bs @ drop (k + len) (cf_payload f)"
      unfolding bs_def by (metis append_take_drop_id drop_drop add.commute)
    ultimately show ?thesis using False by (simp add: rest_atoms_def)
  qed
  obtain d where d: "payload_data (wire_header f) bs c = Ok d" "ws_header d = ws_header c" "ws_framePos d = ws_framePos c"
    "ws_headerParser d = ws_headerParser c" "cf_op f = Ping \<longrightarrow> ws_pong d = Some (pong_at (k + len) f)"
    "ws_wsl d" "ws_upgraded d = ws_upgraded c \<and> ws_running d = ws_running c" "ws_frames d = ws_frames c"
    "atoms (ws_calls d) = atoms (ws_calls c) @ (if is_data (cf_op f) then call_atoms (OnMessageData bs) else [])"
    using payload_data_ok [OF ok(1) w k c(5) bs_def] len(3) by auto
  let ?d = "d\<lparr>ws_framePos := ws_framePos d + of_nat len\<rparr>"
  have pos: "ws_framePos ?d = of_nat (k + len)" using c(3) d(3) by simp
  have full: "ws_framePos ?d = plen f \<longleftrightarrow> k + len = ?n"
    unfolding pos plen_def
  proof
    assume "of_nat (k + len) = (of_nat ?n :: QWORD)"
    then have "unat (of_nat (k + len) :: QWORD) = unat (of_nat ?n :: QWORD)" by (rule arg_cong)
    with big len(2) show "k + len = ?n" by (simp add: unat_of_nat del: of_nat_add)
  qed simp
  have l: "(if unat (plen f - ws_framePos c) > length xs then length xs else unat (plen f - ws_framePos c)) = len"
    unfolding left len_def by simp
  have round: "process_round xs c = (if k + len = ?n then bindR (frame_end (wire_header f) ?d) (\<lambda>c. Ok (len, c)) else Ok (len, ?d))"
    by (simp only: process_round_def process_payload_def Let_def c(1) option.case wire_header bindR.simps l slice d(1) full)
  show ?thesis
  proof (cases "k + len = ?n")
    case True
    obtain e where e: "frame_end (wire_header f) ?d = Ok e" "ws_header e = None" "ws_headerParser e = ws_headerParser ?d"
      "ws_wsl e" "ws_upgraded e = ws_upgraded ?d \<and> ws_running e = ws_running ?d" "ws_frames e = ws_frames ?d @ pongs f"
      "atoms (ws_calls e) = atoms (ws_calls ?d) @ end_atoms f"
      using frame_end_ok [of ?d f] d True by auto
    have "expects e (drop len xs @ ys) (stream_atoms fs) (stream_pongs fs)"
      unfolding rest using idle [of e fs] e c(2) d(4) ok(2) True by simp
    moreover have "process_round xs c = Ok (len, e)" using round True e(1) by simp
    ultimately show ?thesis using True e d c(1) outs len(1)
      by (intro good_roundI [of xs c len e]) (auto simp: weight_def)
  next
    case False
    then have "0 < len" using xs(2) len(2) by (auto simp: len_def split: if_splits)
    have "expects ?d (drop len xs @ ys) (rest_atoms (k + len) f @ stream_atoms fs) (pongs f @ stream_pongs fs)"
      unfolding rest using in_payload [of ?d f "k + len" fs] c(1,2) d pos len(2) f False by simp
    moreover have "process_round xs c = Ok (len, ?d)" using round False by simp
    ultimately show ?thesis using d c(1) outs False \<open>0 < len\<close> len(1)
      by (intro good_roundI [of xs c len ?d]) (auto simp: weight_def)
  qed
qed

lemma expects_round:
  assumes e: "expects c (xs @ ys) as ps" and xs: "xs \<noteq> []" and w: "ws_wsl c"
  shows "good_round xs c ys as ps"
  using e
proof cases
  case (idle fs)
  with xs obtain f fs' where fs: "fs = f # fs'" by (cases fs) auto
  have "header_wire f \<noteq> []" using header_wire(3) [of f] by auto
  with idle fs header_round [of c "[]" f "header_wire f" fs' xs ys] xs w show ?thesis by simp
next
  case (in_header r f t fs)
  with header_round [of c r f t fs xs ys] xs w show ?thesis by simp
next
  case (in_payload f k fs)
  with payload_round [of c f k fs xs ys] xs w show ?thesis by simp
qed

lemma expects_loop:
  assumes "expects c (xs @ ys) as ps" "ws_wsl c" "weight xs c \<le> n"
  shows "\<exists>d as' ps'. process_loop n xs c = Ok d \<and> expects d ys as' ps' \<and>
    atoms (ws_calls d) @ as' = atoms (ws_calls c) @ as \<and> ws_frames d @ ps' = ws_frames c @ ps \<and>
    ws_wsl d \<and> ws_upgraded d = ws_upgraded c \<and> ws_running d = ws_running c"
  using assms
proof (induction n arbitrary: xs c as ps)
  case 0
  then have "xs = []" by (simp add: weight_def)
  with 0 show ?case by auto
next
  case (Suc n)
  show ?case
  proof (cases xs)
    case Nil
    with Suc.prems show ?thesis by auto
  next
    case (Cons b bs)
    with expects_round [OF Suc.prems(1) _ Suc.prems(2)] obtain k d as' ps'
      where d: "process_round xs c = Ok (k, d)" "expects d (drop k xs @ ys) as' ps'"
        "atoms (ws_calls d) @ as' = atoms (ws_calls c) @ as" "ws_frames d @ ps' = ws_frames c @ ps"
        "ws_wsl d" "ws_upgraded d = ws_upgraded c \<and> ws_running d = ws_running c" "weight (drop k xs) d < weight xs c"
      by (auto simp: good_round_def)
    from Suc.IH [OF d(2,5)] d(7) Suc.prems(3) obtain e as'' ps''
      where "process_loop n (drop k xs) d = Ok e" "expects e ys as'' ps''"
        "atoms (ws_calls e) @ as'' = atoms (ws_calls d) @ as'" "ws_frames e @ ps'' = ws_frames d @ ps'"
        "ws_wsl e" "ws_upgraded e = ws_upgraded d \<and> ws_running e = ws_running d" by auto
    with d Cons show ?thesis by auto
  qed
qed

lemma expects_recvSize: "expects c s as ps \<Longrightarrow> expects (c\<lparr>ws_recvSize := n\<rparr>) s as ps"
  by (induction rule: expects.induct) (auto intro: expects.intros)

lemma expects_ProcessData:
  assumes e: "expects c (xs @ ys) as ps" and c: "ws_wsl c" "ws_upgraded c"
  shows "\<exists>d as' ps'. ProcessData http xs c = Ok d \<and> expects d ys as' ps' \<and>
    atoms (ws_calls d) @ as' = atoms (ws_calls c) @ as \<and> ws_frames d @ ps' = ws_frames c @ ps \<and> ws_wsl d \<and> ws_upgraded d \<and>
    ws_running d = ws_running c"
proof -
  let ?c = "c\<lparr>ws_recvSize := ws_recvSize c + of_nat (length xs)\<rparr>"
  have "weight xs ?c \<le> 2 * length xs + 1" by (simp add: weight_def)
  from expects_loop [OF expects_recvSize [OF e] _ this] c show ?thesis by (simp add: ProcessData_def)
qed

lemma expects_pieces:
  assumes "expects c (concat pieces @ ys) as ps" "ws_wsl c" "ws_upgraded c"
  shows "\<exists>d as' ps'. foldR (ProcessData http) pieces c = Ok d \<and> expects d ys as' ps' \<and>
    atoms (ws_calls d) @ as' = atoms (ws_calls c) @ as \<and> ws_frames d @ ps' = ws_frames c @ ps \<and> ws_wsl d \<and> ws_upgraded d \<and>
    ws_running d = ws_running c"
  using assms
proof (induction pieces arbitrary: c as ps)
  case Nil
  then show ?case by auto
next
  case (Cons x pieces)
  from expects_ProcessData [of c x "concat pieces @ ys" as ps http] Cons.prems obtain d as' ps'
    where d: "ProcessData http x c = Ok d" "expects d (concat pieces @ ys) as' ps'"
      "atoms (ws_calls d) @ as' = atoms (ws_calls c) @ as" "ws_frames d @ ps' = ws_frames c @ ps" "ws_wsl d"
      "ws_upgraded d" "ws_running d = ws_running c"
    by auto
  from Cons.IH [OF d(2,5,6)] d show ?case by auto
qed

text \<open>When no byte is to come, all has been handed on, and the connection is ready for a new frame.\<close>

lemma expects_nothing:
  assumes "expects c [] as ps"
  shows "as = [] \<and> ps = [] \<and> ws_header c = None \<and> hp_header (ws_headerParser c) = None"
proof -
  have none: "fs = []" if "stream fs = []" for fs
    using that header_wire(3) [of "hd fs"] by (cases fs) auto
  from assms show ?thesis
  proof cases
    case (idle fs)
    with none [of fs] show ?thesis by simp
  next
    case (in_payload f k fs)
    with none [of fs] show ?thesis by (auto simp: good_stream_def)
  qed simp
qed

end
