(* ===== verification/WebSocketProperties.thy ===== *)
theory WebSocketProperties
  imports WebSocketStream
begin

text \<open>
  The properties of a WebSocket connection: headers are read back, a stream of frames is received however it is cut,
  a message sent is the message received, the loop over the input ends on any input, and what the queue of frames
  and the pongs get wrong.
\<close>

section \<open>Headers\<close>

text \<open>The header made from a final flag, an opcode, a payload length and a mask gives back all four, for every
  64-bit length (in its 7-bit, 16-bit and 64-bit forms) and every mask, in at most 14 bytes, which is the size of
  the array that holds it.\<close>

theorem frame_header_is_read_back:
  "\<exists>h. WebSocketFrameHeader_new fin op len msk = Ok h \<and> length h = 14 \<and> GetSize h \<le> 14 \<and> IsFin h = fin \<and>
     GetOpCode h = op \<and> GetPayloadLength h = Ok len \<and> IsMasked h = (msk \<noteq> 0) \<and> GetMask h = Ok msk"
proof -
  obtain h where h: "WebSocketFrameHeader_new fin op len msk = Ok h" using header_total by blast
  with header_fields [OF h] GetSize_bounds(2) [of h] show ?thesis by blast
qed

section \<open>Receiving\<close>

definition ws_idle :: "wsconn \<Rightarrow> bool" where
  "ws_idle c \<longleftrightarrow> ws_upgraded c \<and> ws_wsl c \<and> ws_header c = None \<and> hp_header (ws_headerParser c) = None"

lemma receive:
  assumes c: "ws_idle c" and fs: "good_stream fs" and p: "concat pieces = stream fs"
  shows "\<exists>d. foldR (ProcessData http) pieces c = Ok d \<and> ws_idle d \<and>
    atoms (ws_calls d) = atoms (ws_calls c) @ stream_atoms fs \<and> ws_frames d = ws_frames c @ stream_pongs fs"
proof -
  have "expects c (concat pieces @ []) (stream_atoms fs) (stream_pongs fs)"
    using idle [of c fs] c fs p by (simp add: ws_idle_def)
  from expects_pieces [OF this, of http] c obtain d as' ps' where d: "foldR (ProcessData http) pieces c = Ok d" "expects d [] as' ps'"
    "atoms (ws_calls d) @ as' = atoms (ws_calls c) @ stream_atoms fs" "ws_frames d @ ps' = ws_frames c @ stream_pongs fs"
    "ws_wsl d" "ws_upgraded d"
    by (auto simp: ws_idle_def)
  with expects_nothing [OF d(2)] show ?thesis by (auto simp: ws_idle_def)
qed



definition ex_ws :: wsconn where
  "ex_ws = ws_Accept (ws_Init WebSocketConnection_new)"

lemma ex_ws_idle: "ws_idle ex_ws"
  by (simp add: ex_ws_def ws_idle_def ws_Accept_def ws_Init_def SignalWriteNeeded_def WebSocketConnection_new_def
      header_parser_new_def)

lemma ex_ws_running: "ws_running ex_ws" "ws_inited ex_ws"
  by (simp_all add: ex_ws_def ws_Accept_def ws_Init_def SignalWriteNeeded_def notify_def)




section \<open>Sending\<close>

text \<open>The frames of a message.\<close>

function message_cut :: "ws_opcode \<Rightarrow> BYTE list \<Rightarrow> cframe list" where
  "message_cut code data =
     (if length data \<le> 1300 then [\<lparr>cf_fin = True, cf_op = code, cf_mask = 0, cf_payload = data\<rparr>]
      else \<lparr>cf_fin = False, cf_op = code, cf_mask = 0, cf_payload = take 1300 data\<rparr> #
        message_cut ContinuationFrame (drop 1300 data))"
  by pat_completeness auto
termination
  by (relation "measure (\<lambda>(code, data). length data)") auto

declare message_cut.simps [simp del] message_frames.simps [simp del]

lemma message_cut_frames:
  "\<exists>d. message_frames code data c = Ok d \<and> ws_frames d = ws_frames c @ map (\<lambda>g. filled (length (cf_payload g)) g) (message_cut code data) \<and>
     ws_outgoingFramesLength d = ws_outgoingFramesLength c + of_nat (length data)"
proof (induction code data arbitrary: c rule: message_cut.induct)
  case (1 code data)
  show ?case
  proof (cases "length data \<le> 1300")
    case True
    let ?g = "\<lparr>cf_fin = True, cf_op = code, cf_mask = 0, cf_payload = data\<rparr>"
    from True filled_whole [of ?g] filled_all(2) [of ?g "length data"] show ?thesis
      by (subst message_frames.simps, subst message_cut.simps) (simp add: Let_def push_frame_def min_def)
  next
    case False
    let ?g = "\<lparr>cf_fin = False, cf_op = code, cf_mask = 0, cf_payload = take 1300 data\<rparr>"
    have g: "frame_new False code (Some (take 1300 data)) 1300 = Ok (filled 1300 ?g)" "GetPayloadSize (filled 1300 ?g) = 1300"
      using filled_whole [of ?g] filled_all(2) [of ?g 1300] False by simp_all
    obtain d where d: "message_frames ContinuationFrame (drop 1300 data) (push_frame (filled 1300 ?g) c) = Ok d"
      "ws_frames d = ws_frames (push_frame (filled 1300 ?g) c) @
         map (\<lambda>g. filled (length (cf_payload g)) g) (message_cut ContinuationFrame (drop 1300 data))"
      "ws_outgoingFramesLength d = ws_outgoingFramesLength (push_frame (filled 1300 ?g) c) + of_nat (length (drop 1300 data))"
      using "1.IH" [OF False, of "push_frame (filled 1300 ?g) c"] by blast
    have "(1300 + of_nat (length data - 1300) :: DWORD) = of_nat (length data)" using False by (simp add: of_nat_diff)
    with False g d show ?thesis
      by (subst message_frames.simps, subst message_cut.simps) (simp add: Let_def push_frame_def min_def)
  qed
qed

lemma message_cut_ok: "data \<noteq> [] \<Longrightarrow> code \<noteq> Close \<Longrightarrow> good_stream (message_cut code data) \<and> message_cut code data \<noteq> [] \<and>
  (\<forall>g \<in> set (message_cut code data). length (cf_payload g) < 2 ^ 31 \<and> cf_mask g = 0)"
proof (induction code data rule: message_cut.induct)
  case (1 code data)
  then show ?case
    by (subst (1 2 3) message_cut.simps) (auto simp: good_stream_def cf_ok_def)
qed

lemma type_code_not_Close [simp]: "type_code t \<noteq> Close"
  by (cases t) (simp_all add: type_code_def)

lemma message_cut_bytes:
  assumes "data \<noteq> []" "code \<noteq> Close"
  shows "concat (map wf_data (map (\<lambda>g. filled (length (cf_payload g)) g) (message_cut code data))) = stream (message_cut code data)"
  using message_cut_ok [OF assms] filled_all(1) by (auto simp: stream_def comp_def intro!: arg_cong [of _ _ concat])

lemma message_cut_rest:
  "data \<noteq> [] \<Longrightarrow> stream_atoms (message_cut ContinuationFrame data) = map AByte data @ [ACall OnMessageEnd]"
proof (induction "length data" arbitrary: data rule: less_induct)
  case less
  show ?case
  proof (cases "length data \<le> 1300")
    case True
    with less show ?thesis by (subst message_cut.simps) (simp add: first_atoms_def rest_atoms_def is_data_def end_atoms_def)
  next
    case False
    with less.hyps [of "drop 1300 data"] less.prems show ?thesis
      by (subst message_cut.simps) (simp add: first_atoms_def rest_atoms_def is_data_def end_atoms_def flip: map_append append_assoc)
  qed
qed

lemma message_cut_atoms:
  "data \<noteq> [] \<Longrightarrow> stream_atoms (message_cut (type_code t) data) =
     ACall (OnMessageStart t (of_nat (min 1300 (length data)))) # map AByte data @ [ACall OnMessageEnd]"
proof (cases "length data \<le> 1300")
  case True
  then have n: "length data < 2 ^ 32" by simp
  have "ucast (of_nat (length data) :: QWORD) = (of_nat (length data) :: DWORD)"
    using n by (intro word_unat_eq_iff [THEN iffD2]) (simp add: unsigned_ucast_eq unat_of_nat take_bit_nat_eq_self)
  moreover assume "data \<noteq> []"
  ultimately show ?thesis using True
    by (subst message_cut.simps)
      (cases t; simp add: first_atoms_def rest_atoms_def is_data_def end_atoms_def type_code_def plen_def min_def)
next
  case False
  moreover assume "data \<noteq> []"
  ultimately show ?thesis using message_cut_rest [of "drop 1300 data"]
    by (subst message_cut.simps)
      (cases t; simp add: first_atoms_def rest_atoms_def is_data_def end_atoms_def type_code_def plen_def min_def
        flip: map_append append_assoc)
qed

text \<open>C8: What one side sends with \<open>SendMessage\<close>, cut into frames of at most 1300 bytes, is what the other side
  receives, in one message of the same type with the same bytes, however the network cuts the frames; but the length
  the receiver is told first is that of the first frame.\<close>

theorem sent_message_is_received:
  assumes "ws_running s" "data \<noteq> []" "ws_idle r"
    and "ws_SendMessage t data s = Ok s'" "ws_frames s' = ws_frames s @ fs" "concat pieces = concat (map wf_data fs)"
  shows "\<exists>r'. foldR (ProcessData http) pieces r = Ok r' \<and> ws_idle r' \<and>
    atoms (ws_calls r') = atoms (ws_calls r) @
      ACall (OnMessageStart t (of_nat (min 1300 (length data)))) # map AByte data @ [ACall OnMessageEnd]"
proof -
  let ?gs = "message_cut (type_code t) data"
  obtain d where d: "message_frames (type_code t) data s = Ok d"
    "ws_frames d = ws_frames s @ map (\<lambda>g. filled (length (cf_payload g)) g) ?gs"
    using message_cut_frames [of "type_code t" data s] by blast
  with assms(1,2,4,5) have "fs = map (\<lambda>g. filled (length (cf_payload g)) g) ?gs"
    by (auto simp: ws_SendMessage_def SignalWriteNeeded_def)
  with assms(6) message_cut_bytes [OF assms(2), of "type_code t"] have "concat pieces = stream ?gs" by simp
  from receive [OF assms(3) _ this, of http] message_cut_ok [OF assms(2), of "type_code t"] message_cut_atoms [OF assms(2), of t] show ?thesis
    by auto
qed

theorem sent_message_is_received_witness:
  "\<exists>(fs :: ws_frame list) r'. foldR (ProcessData (\<lambda>_ c. Ok c)) (map wf_data fs) ex_ws = Ok r' \<and>
     atoms (ws_calls r') = atoms (ws_calls ex_ws) @ [ACall (OnMessageStart Binary 2), AByte 1, AByte 2, ACall OnMessageEnd]"
proof -
  note run = ex_ws_running(1)
  obtain d where d: "message_frames (type_code Binary) [1, 2] ex_ws = Ok d"
    "ws_frames d = ws_frames ex_ws @ map (\<lambda>g. filled (length (cf_payload g)) g) (message_cut (type_code Binary) [1, 2])"
    using message_cut_frames [of "type_code Binary" "[1, 2]" ex_ws] by blast
  then have "ws_SendMessage Binary [1, 2] ex_ws = Ok (SignalWriteNeeded d)" using run by (simp add: ws_SendMessage_def)
  let ?fs = "map (\<lambda>g. filled (length (cf_payload g)) g) (message_cut (type_code Binary) [1, 2])"
  have "ws_frames (SignalWriteNeeded d) = ws_frames ex_ws @ ?fs" using d(2) by (simp add: SignalWriteNeeded_def)
  from sent_message_is_received [OF run _ ex_ws_idle \<open>ws_SendMessage Binary [1, 2] ex_ws = _\<close> this refl, of "\<lambda>_ c. Ok c"]
  obtain r' where "foldR (ProcessData (\<lambda>_ c. Ok c)) (map wf_data ?fs) ex_ws = Ok r'"
    "atoms (ws_calls r') = atoms (ws_calls ex_ws) @ [ACall (OnMessageStart Binary 2), AByte 1, AByte 2, ACall OnMessageEnd]"
    by (auto simp: min_def)
  then show ?thesis by (intro exI [of _ ?fs] exI [of _ r'] conjI)
qed

section \<open>A fault from the network\<close>

lemma process_whole_header:
  assumes "ws_header c = None" "hp_header (ws_headerParser c) = None"
  shows "process_round (header_wire f @ s) c =
    bindR (header_done (wire_header f) (c\<lparr>ws_headerParser := (parser_with (header_wire f))\<lparr>hp_header := None\<rparr>\<rparr>))
      (\<lambda>d. Ok (length (header_wire f), d))"
proof -
  have "hp_Parse (header_wire f @ s) (ws_headerParser c) = Ok (length (header_wire f), parser_with (header_wire f))"
    using hp_Parse_with [of "[]" "ws_headerParser c" "header_wire f @ s"] assms(2) header_wire(2) [of f s]
    by (simp add: header_bytes_def)
  moreover have "hp_IsParsed (parser_with (header_wire f))" using header_wire(2) [of f "[]"] by (simp add: hp_parsed_with)
  moreover have "ConsumeHeader (parser_with (header_wire f)) =
      (Some (wire_header f), (parser_with (header_wire f))\<lparr>hp_header := None\<rparr>)"
    by (simp add: ConsumeHeader_def parser_with_def wire_header_def padded_def)
  ultimately show ?thesis using assms(1) by (simp add: process_round_def process_header_def Let_def)
qed

text \<open>A close frame stops the thread as soon as its header is complete, and whatever the peer sends after that piece is
not read.\<close>

lemma nothing_is_read_after_a_close:
  assumes c: "ws_idle c" "ws_running c" "ws_inited c" and f: "cf_op f = Close"
  shows "\<exists>d. receive_piece http (header_wire f) c = Ok d \<and> \<not> ws_running d \<and> foldR (receive_piece http) later d = Ok d"
proof -
  obtain b bs where bs: "header_wire f = b # bs" using header_wire(3) [of f] by (cases "header_wire f") auto
  let ?c = "c\<lparr>ws_recvSize := ws_recvSize c + of_nat (length (header_wire f))\<rparr>"
  have i: "ws_header ?c = None" "hp_header (ws_headerParser ?c) = None" "ws_upgraded c" using c(1) by (simp_all add: ws_idle_def)
  let ?d = "ws_End (?c\<lparr>ws_headerParser := (parser_with (header_wire f))\<lparr>hp_header := None\<rparr>, ws_framePos := 0, ws_header := Some (wire_header f)\<rparr>)"
  have "process_round (header_wire f) ?c = Ok (length (header_wire f), ?d)"
    using process_whole_header [OF i(1,2), of f "[]"] f by (simp add: header_done_def)
  then have "ProcessData http (header_wire f) c = Ok ?d"
    using i(3) by (simp add: ProcessData_def bs)
  moreover have "\<not> ws_running ?d" using c(2,3) by (simp add: ws_End_def ws_Stop_def)
  moreover have "foldR (receive_piece http) later d = Ok d" if "\<not> ws_running d" for d
    using that by (induction later) (simp_all add: receive_piece_def)
  ultimately show ?thesis using c(2) by (auto simp: receive_piece_def)
qed

lemma frame_new_wraps:
  assumes n: "2 ^ 32 - 10 \<le> n" "n < 2 ^ 32"
  shows "frame_new True Pong None (of_nat n) = Fault OutOfBounds"
proof -
  have u: "ucast (of_nat n :: DWORD) = (of_nat n :: QWORD)"
    using n by (intro word_unat_eq_iff [THEN iffD2]) (simp add: unsigned_ucast_eq unat_of_nat take_bit_nat_eq_self)
  obtain h where h: "WebSocketFrameHeader_new True Pong (of_nat n) 0 = Ok h" using header_total by blast
  have "unat (of_nat n :: QWORD) = n" using n by (simp add: unat_of_nat)
  then have "ext_length (of_nat n) = 9" using n by (simp add: ext_length_def word_less_nat_alt)
  with header_fields(1,7) [OF h] have s: "GetSize h = 10" "length h = 14" by simp_all
  have "unat (of_nat n + of_nat 10 :: DWORD) = (n + 10) mod 2 ^ 32"
    unfolding of_nat_add [symmetric] unat_of_nat by (simp add: take_bit_eq_mod)
  also have "\<dots> < 10" using n by (simp add: mod_if) linarith
  finally have "unat (of_nat n + 10 :: DWORD) < 10" by simp
  with h u s show ?thesis by (simp add: frame_new_def Let_def copy_into_def)
qed

text \<open>C40: The frame for a pong is allocated with a size computed in 32 bits: a ping whose header announces a payload
  of 2^32 - 1 down to 2^32 - 10 bytes makes the allocation smaller than the header that is then copied into it.\<close>

theorem oversized_ping_overflows_the_pong:
  assumes "ws_idle c" "2 ^ 32 - 10 \<le> n" "n < 2 ^ 32"
    and "WebSocketFrameHeader_new True Ping (of_nat n) msk = Ok h"
  shows "ProcessData http (take (GetSize h) h) c = Fault OutOfBounds"
proof -
  let ?f = "\<lparr>cf_fin = True, cf_op = Ping, cf_mask = msk, cf_payload = replicate n 0\<rparr>"
  have w: "take (GetSize h) h = header_wire ?f" using assms(4) by (simp add: header_wire_def full_header_def plen_def)
  obtain b bs where bs: "header_wire ?f = b # bs" using header_wire(3) [of ?f] by (cases "header_wire ?f") auto
  have u: "ucast (of_nat n :: QWORD) = (of_nat n :: DWORD)"
    using assms(2,3) by (intro word_unat_eq_iff [THEN iffD2]) (simp add: unsigned_ucast_eq unat_of_nat take_bit_nat_eq_self)
  let ?c = "c\<lparr>ws_recvSize := ws_recvSize c + of_nat (length (b # bs))\<rparr>"
  have "process_round (b # bs) ?c = Fault OutOfBounds"
    using process_whole_header [of ?c ?f "[]"] assms(1) frame_new_wraps [OF assms(2,3)] u
    by (simp add: ws_idle_def header_done_def plen_def bs)
  with assms(1) show ?thesis unfolding w bs by (simp add: ProcessData_def ws_idle_def)
qed

theorem oversized_ping_overflows_the_pong_witness:
  "\<exists>h. ProcessData (\<lambda>_ c. Ok c) (take (GetSize h) h) ex_ws = Fault OutOfBounds"
proof -
  obtain h where h: "WebSocketFrameHeader_new True Ping (of_nat 4294967295) 0 = Ok h" using header_total by blast
  show ?thesis using oversized_ping_overflows_the_pong [OF ex_ws_idle _ _ h, of "\<lambda>_ c. Ok c"] by auto
qed

section \<open>Any input\<close>

text \<open>What holds of a connection whatever has arrived.\<close>

definition ws_ok :: "wsconn \<Rightarrow> bool" where
  "ws_ok c \<longleftrightarrow> ws_upgraded c \<and> hp_ok (ws_headerParser c) \<and>
     (\<forall>h. ws_header c = Some h \<longrightarrow> hp_header (ws_headerParser c) = None \<and> length h = 14 \<and>
        (GetOpCode h = Ping \<longrightarrow> ws_pong c \<noteq> None))"

definition no_hang :: "'a res \<Rightarrow> ('a \<Rightarrow> bool) \<Rightarrow> bool" where
  "no_hang m Q \<longleftrightarrow> m = Fault OutOfBounds \<or> (\<exists>x. m = Ok x \<and> Q x)"

lemma no_hang_Ok [simp]: "no_hang (Ok x) Q = Q x" and no_hang_Fault [simp]: "no_hang (Fault e) Q = (e = OutOfBounds)"
  by (auto simp: no_hang_def)

lemma no_hang_bindR: "no_hang m P \<Longrightarrow> (\<And>x. P x \<Longrightarrow> no_hang (f x) Q) \<Longrightarrow> no_hang (bindR m f) Q"
  unfolding no_hang_def by (elim disjE exE conjE) simp_all

lemma no_hang_copy: "no_hang (copy_into i bs d) (\<lambda>_. True)"
  by (simp add: no_hang_def copy_into_def)

lemma no_hang_Append: "no_hang (frame_Append bs f) (\<lambda>_. True)"
  unfolding frame_Append_def by (auto intro!: no_hang_bindR [OF no_hang_copy])

lemma no_hang_frame_new: "no_hang (frame_new fin op data n) (\<lambda>_. True)"
proof -
  obtain h where h: "WebSocketFrameHeader_new fin op (ucast n) 0 = Ok h" using header_total by blast
  show ?thesis unfolding frame_new_def h bindR.simps Let_def
    by (rule no_hang_bindR [OF no_hang_copy]) (cases data; simp add: no_hang_Append)
qed

lemma length_total: "length h = 14 \<Longrightarrow> \<exists>n. GetPayloadLength h = Ok n"
  by (simp add: GetPayloadLength_def get2_def get8_def get4_def Let_def)

lemma mask_total: "length h = 14 \<Longrightarrow> \<exists>m. GetMask h = Ok m"
  by (simp add: GetMask_def get4_def GetPayloadLenghtSize_def Let_def)

lemma no_hang_header_done:
  assumes "length h = 14" "hp_header (ws_headerParser c) = None" "ws_upgraded c"
  shows "no_hang (header_done h c) (\<lambda>d. ws_ok d \<and> ws_header d \<noteq> None)"
proof -
  obtain n where n: "GetPayloadLength h = Ok n" using length_total [OF assms(1)] by blast
  show ?thesis
  proof (cases "GetOpCode h = Ping")
    case True
    then show ?thesis using assms n unfolding header_done_def
      by (auto simp: ws_ok_def hp_ok_def intro!: no_hang_bindR [OF no_hang_frame_new])
  next
    case False
    with assms n show ?thesis by (cases "GetOpCode h") (simp_all add: header_done_def ws_ok_def hp_ok_def)
  qed
qed

lemma header_bytes_take: "header_bytes (take (header_bytes s) s) = header_bytes s"
proof (cases "length s < 2")
  case False
  then have "take (header_bytes s) s ! 1 = s ! 1" using header_bytes_bounds [of s] by simp
  from GetSize_cong [OF this] False show ?thesis using GetSize_bounds(1) [of s] by (auto simp: header_bytes_def min_def)
qed (simp add: header_bytes_def)

lemma no_hang_process_header:
  assumes c: "ws_ok c" "ws_header c = None" and data: "data \<noteq> []"
  shows "no_hang (process_header data c) (\<lambda>(n, d). ws_ok d \<and> weight (drop n data) d < weight data c)"
proof -
  obtain r where r: "length r < header_bytes r" "hp_header (ws_headerParser c) = None \<and> r = [] \<or> ws_headerParser c = parser_with r"
    using c(1) by (auto simp: ws_ok_def hp_ok_def header_bytes_def intro: that [of "[]"])
  let ?r = "take (header_bytes (r @ data)) (r @ data)"
  have p: "hp_Parse data (ws_headerParser c) = Ok (length ?r - length r, parser_with ?r)"
    using hp_Parse_with [OF r] by (simp add: Let_def)
  have hb: "header_bytes ?r = header_bytes (r @ data)" by (rule header_bytes_take)
  have "length r < header_bytes (r @ data)"
    using r(1) header_bytes_append [of r data] header_bytes_bounds [of "r @ data"] by (cases "length r < 2") auto
  with data have n: "0 < length ?r - length r" "length ?r - length r \<le> length data" by (cases data; auto)+
  show ?thesis
  proof (cases "hp_IsParsed (parser_with ?r)")
    case True
    let ?c = "c\<lparr>ws_headerParser := (parser_with ?r)\<lparr>hp_header := None\<rparr>\<rparr>"
    have "length (padded ?r) = 14" using header_bytes_bounds [of "r @ data"] by (simp add: padded_def)
    then have "no_hang (header_done (padded ?r) ?c) (\<lambda>d. ws_ok d \<and> ws_header d \<noteq> None)"
      by (rule no_hang_header_done) (use c(1) in \<open>simp_all add: ws_ok_def\<close>)
    moreover have "ConsumeHeader (parser_with ?r) = (Some (padded ?r), (parser_with ?r)\<lparr>hp_header := None\<rparr>)"
      by (simp add: ConsumeHeader_def parser_with_def padded_def)
    ultimately show ?thesis using True c(2) n
      unfolding process_header_def p bindR.simps by (auto simp: Let_def weight_def intro!: no_hang_bindR)
  next
    case False
    then have "header_bytes ?r \<noteq> length ?r" unfolding hp_parsed_with .
    moreover have "length ?r \<le> header_bytes ?r" unfolding hb by simp
    ultimately have "length ?r < header_bytes ?r" by linarith
    then have "ws_ok (c\<lparr>ws_headerParser := parser_with ?r\<rparr>)" using c by (auto simp: ws_ok_def hp_ok_def)
    with False c(2) n show ?thesis unfolding process_header_def p bindR.simps by (simp add: Let_def weight_def)
  qed
qed

lemma no_hang_process_payload:
  assumes c: "ws_ok c" "ws_header c = Some h" and data: "data \<noteq> []"
  shows "no_hang (process_payload h data c) (\<lambda>(n, d). ws_ok d \<and> weight (drop n data) d < weight data c)"
proof -
  have h: "length h = 14" "hp_header (ws_headerParser c) = None" "GetOpCode h = Ping \<longrightarrow> ws_pong c \<noteq> None"
    using c by (auto simp: ws_ok_def)
  obtain n where n: "GetPayloadLength h = Ok n" using length_total [OF h(1)] by blast
  define rest where "rest = n - ws_framePos c"
  define len where "len = (if unat rest > length data then length data else unat rest)"
  have "\<exists>bs. unmask_data h (ws_framePos c) (take len data) = Ok bs"
    using mask_total [OF h(1)] by (auto simp: unmask_data_def set4_def)
  then obtain bs where bs: "unmask_data h (ws_framePos c) (take len data) = Ok bs" ..
  let ?P = "\<lambda>d. ws_header d = Some h \<and> ws_headerParser d = ws_headerParser c \<and> ws_framePos d = ws_framePos c \<and>
    ws_upgraded d \<and> (GetOpCode h = Ping \<longrightarrow> ws_pong d \<noteq> None)"
  have 1: "no_hang (payload_data h bs c) ?P"
    using c h(3) by (cases "GetOpCode h")
      (auto simp: ws_ok_def payload_data_def intro!: no_hang_bindR [OF no_hang_Append])
  have 2: "no_hang (frame_end h d) (\<lambda>e. ws_header e = None \<and> ws_headerParser e = ws_headerParser d \<and> ws_upgraded e)"
    if "?P (d\<lparr>ws_framePos := ws_framePos c\<rparr>)" for d
    using that by (cases "GetOpCode h") (auto simp: frame_end_def SignalWriteNeeded_def)
  have 3: "no_hang (if ws_framePos d + of_nat len = n
        then bindR (frame_end h (d\<lparr>ws_framePos := ws_framePos d + of_nat len\<rparr>)) (\<lambda>c. Ok (len, c))
        else Ok (len, d\<lparr>ws_framePos := ws_framePos d + of_nat len\<rparr>))
      (\<lambda>(n, d). ws_ok d \<and> weight (drop n data) d < weight data c)" if d: "?P d" for d
  proof (cases "ws_framePos d + of_nat len = n")
    case True
    let ?d = "d\<lparr>ws_framePos := ws_framePos d + of_nat len\<rparr>"
    have "no_hang (frame_end h ?d) (\<lambda>e. ws_header e = None \<and> ws_headerParser e = ws_headerParser ?d \<and> ws_upgraded e)"
      using d by (intro 2) simp
    with True d c h(2) show ?thesis
      by (auto simp: ws_ok_def hp_ok_def weight_def intro!: no_hang_bindR)
  next
    case False
    have "0 < len"
    proof (rule ccontr)
      assume "\<not> 0 < len"
      with data have "len = 0" "unat rest = 0" by (auto simp: len_def split: if_splits)
      with False d show False by (simp add: rest_def unat_eq_0)
    qed
    moreover have "len \<le> length data" by (simp add: len_def)
    ultimately show ?thesis using False d c h by (auto simp: ws_ok_def weight_def)
  qed
  show ?thesis unfolding process_payload_def n bindR.simps Let_def rest_def [symmetric] len_def [symmetric] bs
    by (rule no_hang_bindR [OF 1]) (use 3 in simp)
qed

lemma no_hang_loop: "ws_ok c \<Longrightarrow> weight data c \<le> n \<Longrightarrow> no_hang (process_loop n data c) ws_ok"
proof (induction n data c rule: process_loop.induct)
  case (3 n b bs c)
  have "no_hang (process_round (b # bs) c) (\<lambda>(k, d). ws_ok d \<and> weight (drop k (b # bs)) d < weight (b # bs) c)"
    using no_hang_process_header [OF 3(2), of "b # bs"] no_hang_process_payload [OF 3(2), of _ "b # bs"]
    by (cases "ws_header c") (simp_all add: process_round_def)
  then consider "process_round (b # bs) c = Fault OutOfBounds"
    | k d where "process_round (b # bs) c = Ok (k, d)" "ws_ok d" "weight (drop k (b # bs)) d < weight (b # bs) c"
    by (auto simp: no_hang_def)
  then show ?case
  proof cases
    case 2
    with 3(1) [OF 2(1) refl 2(2)] 3(3) show ?thesis by simp
  qed simp
qed (auto simp: weight_def split: if_splits)

lemma no_hang_pieces: "ws_ok c \<Longrightarrow> no_hang (foldR (ProcessData http) pieces c) ws_ok"
proof (induction pieces arbitrary: c)
  case (Cons xs pieces)
  let ?c = "c\<lparr>ws_recvSize := ws_recvSize c + of_nat (length xs)\<rparr>"
  have "ws_ok ?c" using Cons.prems by (simp add: ws_ok_def)
  from no_hang_loop [OF this, of xs "2 * length xs + 1"] Cons.prems have "no_hang (ProcessData http xs c) ws_ok"
    by (simp add: ProcessData_def weight_def ws_ok_def)
  then show ?case using Cons.IH by (auto intro: no_hang_bindR)
qed simp

text \<open>Whatever bytes arrive, in whatever pieces, each call of \<open>ProcessData\<close> ends: the loop consumes all it is given
  in at most twice as many rounds as there are bytes and one more, although a round may consume nothing; the only
  fault there can be is that of a pong whose size has wrapped.\<close>

theorem input_is_always_consumed:
  assumes "ws_idle c"
  shows "foldR (ProcessData http) pieces c = Fault OutOfBounds \<or>
    (\<exists>d. foldR (ProcessData http) pieces c = Ok d \<and> (\<forall>h. ws_header d = Some h \<longrightarrow> hp_header (ws_headerParser d) = None))"
proof -
  have "ws_ok c" using assms by (simp add: ws_ok_def ws_idle_def hp_ok_def)
  from no_hang_pieces [OF this, of http pieces] show ?thesis by (auto simp: no_hang_def ws_ok_def)
qed

theorem input_is_always_consumed_witness:
  "\<exists>m. foldR (ProcessData (\<lambda>_ c. Ok c)) [[0x89], [0xff, 1], [2, 3]] ex_ws = m \<and> m \<noteq> Fault OutOfFuel"
  using input_is_always_consumed [OF ex_ws_idle, of "\<lambda>_ c. Ok c" "[[0x89], [0xff, 1], [2, 3]]"] by auto

section \<open>The length of the write buffer\<close>

text \<open>What the counter should be: the payload of the frames that wait.\<close>

definition waiting :: "wsconn \<Rightarrow> DWORD" where
  "waiting c = sum_list (map GetPayloadSize (ws_frames c))"

lemma process_outgoing:
  "header_done h c = Ok d \<Longrightarrow> ws_outgoingFramesLength d = ws_outgoingFramesLength c"
  "payload_data h bs c = Ok d \<Longrightarrow> ws_outgoingFramesLength d = ws_outgoingFramesLength c"
  "frame_end h c = Ok d \<Longrightarrow> ws_outgoingFramesLength d = ws_outgoingFramesLength c"
  by (auto simp: header_done_def payload_data_def frame_end_def notify_def ws_End_def ws_Stop_def SignalWriteNeeded_def Let_def
      split: ws_opcode.splits option.splits if_splits)

lemma round_outgoing: "process_round data c = Ok (n, d) \<Longrightarrow> ws_outgoingFramesLength d = ws_outgoingFramesLength c"
  by (auto simp: process_round_def process_header_def process_payload_def ConsumeHeader_def Let_def
      split: option.splits if_splits dest!: process_outgoing)

lemma loop_outgoing: "process_loop n data c = Ok d \<Longrightarrow> ws_outgoingFramesLength d = ws_outgoingFramesLength c"
  by (induction n data c rule: process_loop.induct) (auto dest: round_outgoing)

text \<open>A pong is queued without being counted in \<open>GetWriteBufferLength\<close>, but it is taken off the count when it is
  written: after a ping with a payload has been answered on a quiet connection nothing waits, and the counter has
  wrapped below zero.\<close>

theorem a_pong_makes_the_buffer_length_wrap:
  assumes "ws_idle c" "ws_frames c = []" "ws_outgoingFramesLength c = 0" "cf_op f = Ping"
    and "0 < length (cf_payload f)" "length (cf_payload f) < 2 ^ 31"
  shows "\<exists>d. ProcessData http (wire f) c = Ok d \<and> length (ws_frames d) = 1 \<and> GetWriteBufferLength d = 0 \<and>
    GetWriteBufferLength (snd (write_frame d)) = - of_nat (length (cf_payload f)) \<and> waiting (snd (write_frame d)) = 0"
proof -
  have f: "good_stream [f]" using assms(4-6) by (auto simp: good_stream_def cf_ok_def)
  have w: "wire f = header_wire f @ masked f" by (rule wire_def)
  from receive [OF assms(1) f, of "[wire f]" http] obtain d where d: "ProcessData http (wire f) c = Ok d"
    "ws_frames d = [pong_at (length (cf_payload f)) f]" "ws_upgraded c"
    using assms(1,2,4) by (auto simp: w pongs_def ws_idle_def)
  then have o0: "ws_outgoingFramesLength d = 0"
    using assms(3) by (auto simp: ProcessData_def dest: loop_outgoing)
  have "GetPayloadSize (pong_at (length (cf_payload f)) f) = of_nat (length (cf_payload f))"
    using filled_all(2) [of "pong_of f"] assms(6) by (simp add: pong_at_def)
  with d o0 show ?thesis
    by (simp add: GetWriteBufferLength_def write_frame_def GetNextFrame_def waiting_def ws_Stop_def)
qed

theorem a_pong_makes_the_buffer_length_wrap_witness:
  "\<exists>d. GetWriteBufferLength d = 0 \<and> GetWriteBufferLength (snd (write_frame d)) = - 2 \<and> waiting (snd (write_frame d)) = 0"
proof -
  have "ws_frames ex_ws = []" "ws_outgoingFramesLength ex_ws = 0"
    by (simp_all add: ex_ws_def ws_Accept_def ws_Init_def SignalWriteNeeded_def notify_def WebSocketConnection_new_def)
  from a_pong_makes_the_buffer_length_wrap [OF ex_ws_idle this, of "\<lparr>cf_fin = True, cf_op = Ping, cf_mask = 0, cf_payload = [1, 2]\<rparr>"
      "\<lambda>_ c. Ok c"]
  show ?thesis by auto
qed

end
