(* ===== verification/BFCPOverWebSocket.thy ===== *)
theory BFCPOverWebSocket
  imports BFCPServiceProperties WebSocketProperties
begin

text \<open>
  The BFCP service at the end of a WebSocket connection: the calls \<open>ProcessData\<close> makes on its listener are the events
  of the service.
\<close>

fun bfcp_listener :: "bool \<Rightarrow> bool \<Rightarrow> nat \<Rightarrow> ws_call \<Rightarrow> bfcp \<Rightarrow> bfcp res" where
  "bfcp_listener ei er ws OnOpen b = Ok b"
| "bfcp_listener ei er ws (OnMessageStart t n) b = onMessageStart ws n b"
| "bfcp_listener ei er ws (OnMessageData bs) b = onMessageData ws bs b"
| "bfcp_listener ei er ws OnMessageEnd b = onMessageEnd ei er ws b"
| "bfcp_listener ei er ws OnWriteBufferEmpty b = Ok b"
| "bfcp_listener ei er ws OnClose b = onClose ws b"

definition deliver :: "bool \<Rightarrow> bool \<Rightarrow> nat \<Rightarrow> ws_call list \<Rightarrow> bfcp \<Rightarrow> bfcp res" where
  "deliver ei er ws calls = foldR (bfcp_listener ei er ws) calls"

text \<open>The calls that stand for some data followed by other calls.\<close>

lemma atoms_data:
  assumes "atoms xs = map AByte bs @ ACall x # ys" "x \<noteq> OnMessageData []"
  shows "\<exists>dss zs. xs = map OnMessageData dss @ x # zs \<and> concat dss = bs \<and> atoms zs = ys \<and> [] \<notin> set dss"
  using assms(1)
proof (induction xs arbitrary: bs)
  case (Cons c xs)
  show ?case
  proof (cases "\<exists>d. c = OnMessageData d \<and> d \<noteq> []")
    case True
    then obtain d where d: "c = OnMessageData d" "d \<noteq> []" by blast
    with Cons.prems have e: "map AByte d @ atoms xs = map AByte bs @ ACall x # ys" by simp
    have "length d \<le> length bs"
    proof (rule ccontr)
      assume "\<not> length d \<le> length bs"
      then have "length bs < length d" by simp
      then have "(map AByte d @ atoms xs) ! length bs = AByte (d ! length bs)" by (simp add: nth_append)
      with e show False by (simp add: nth_append)
    qed
    then have "map AByte d = map AByte (take (length d) bs)" "atoms xs = map AByte (drop (length d) bs) @ ACall x # ys"
      using arg_cong [OF e, of "take (length d)"] arg_cong [OF e, of "drop (length d)"] by (simp_all add: take_map drop_map)
    moreover have "inj AByte" by (simp add: inj_def)
    ultimately have "d = take (length d) bs" by (simp only: inj_map_eq_map)
    with \<open>atoms xs = _\<close> obtain bs' where bs: "bs = d @ bs'" "atoms xs = map AByte bs' @ ACall x # ys"
      by (metis append_take_drop_id)
    from Cons.IH [OF bs(2)] obtain dss zs where "xs = map OnMessageData dss @ x # zs" "concat dss = bs'" "atoms zs = ys" "[] \<notin> set dss"
      by blast
    with d bs(1) show ?thesis by (intro exI [of _ "d # dss"]) auto
  next
    case False
    with Cons.prems assms(2) have "bs = []" "c = x" "atoms xs = ys" by (cases c; cases bs; auto split: if_splits)+
    then show ?thesis by (intro exI [of _ "[]"] exI [of _ xs]) simp
  qed
qed simp

lemma deliver_append: "deliver ei er ws (xs @ ys) b = bindR (deliver ei er ws xs b) (deliver ei er ws ys)"
  by (simp add: deliver_def foldR_append)

lemma deliver_data: "foldR (bfcp_listener ei er ws) (map OnMessageData dss) = foldR (onMessageData ws) dss"
proof
  show "foldR (bfcp_listener ei er ws) (map OnMessageData dss) b = foldR (onMessageData ws) dss b" for b
    by (induction dss arbitrary: b) (simp_all, metis bindR_cong)
qed

text \<open>Calls are only added.\<close>

lemma notify_calls: "\<exists>ys. ws_calls (notify x c) = ws_calls c @ ys"
  by (simp add: notify_def)

definition adds_calls :: "wsconn \<Rightarrow> wsconn \<Rightarrow> bool" where
  "adds_calls c d \<longleftrightarrow> ws_upgraded d = ws_upgraded c \<and> (\<exists>ys. ws_calls d = ws_calls c @ ys)"

lemma adds_calls_trans: "adds_calls c d \<Longrightarrow> adds_calls d e \<Longrightarrow> adds_calls c e"
  by (auto simp: adds_calls_def)

lemma adds_calls_cong:
  "ws_upgraded c' = ws_upgraded c \<Longrightarrow> ws_calls c' = ws_calls c \<Longrightarrow> adds_calls c' d = adds_calls c d"
  "ws_upgraded d' = ws_upgraded d \<Longrightarrow> ws_calls d' = ws_calls d \<Longrightarrow> adds_calls c d' = adds_calls c d"
  by (simp_all add: adds_calls_def)

lemma process_calls:
  "header_done h c = Ok d \<Longrightarrow> adds_calls c d" "payload_data h bs c = Ok d \<Longrightarrow> adds_calls c d"
  "frame_end h c = Ok d \<Longrightarrow> adds_calls c d"
  by (auto simp: adds_calls_def header_done_def payload_data_def frame_end_def notify_def ws_End_def ws_Stop_def
      SignalWriteNeeded_def Let_def split: ws_opcode.splits option.splits if_splits)

lemma round_calls: "process_round data c = Ok (n, d) \<Longrightarrow> adds_calls c d"
  by (auto simp: process_round_def process_header_def process_payload_def ConsumeHeader_def Let_def
      split: option.splits if_splits dest!: process_calls) (auto simp: adds_calls_def)

lemma loop_calls: "process_loop n data c = Ok d \<Longrightarrow> adds_calls c d"
proof (induction n data c rule: process_loop.induct)
  case (3 n b bs c)
  then obtain k e where e: "process_round (b # bs) c = Ok (k, e)" "process_loop n (drop k (b # bs)) e = Ok d" by auto
  from adds_calls_trans [OF round_calls [OF e(1)] 3(1) [OF e(1) refl e(2)]] show ?case .
qed (auto simp: adds_calls_def)

lemma pieces_calls: "foldR (ProcessData http) pieces c = Ok d \<Longrightarrow> ws_upgraded c \<Longrightarrow> adds_calls c d"
proof (induction pieces arbitrary: c)
  case (Cons xs pieces)
  from Cons.prems(1) obtain e where e: "ProcessData http xs c = Ok e" "foldR (ProcessData http) pieces e = Ok d" by auto
  have "adds_calls (c\<lparr>ws_recvSize := ws_recvSize c + of_nat (length xs)\<rparr>) e"
    using e(1) Cons.prems(2) by (intro loop_calls) (simp add: ProcessData_def)
  then have "adds_calls c e" by (simp add: adds_calls_def)
  with Cons.IH [OF e(2)] Cons.prems(2) show ?case by (auto simp: adds_calls_def)
qed (simp add: adds_calls_def)

lemma Parse_nothing: "Parse einval erange [] = Ok None"
  by (simp add: Parse_def Parse_root_def ParseJSONObjectStart_def json_char_def SkipJSONSpaces_def SkipCharset_def
      skip_while.simps ParseChar_def CheckChar_def check_def IsEnded_def parser_new_def sp_size_def)

lemma utf8_bytes_empty: "utf8_bytes_of s = [] \<longleftrightarrow> s = []"
  by (cases s) (simp_all add: utf8_bytes_of_def UTF8_encode_char_def)

lemma bindR_Ok_right [simp]: "bindR m Ok = m"
  by (cases m) simp_all

lemma foldR_Nil: "foldR f [] = Ok"
  by (rule ext) simp

lemma deliver_message:
  assumes "atoms calls = ACall (OnMessageStart t n) # map AByte bs @ [ACall OnMessageEnd]"
  obtains dss where "concat dss = bs" "deliver einval erange ws calls b =
    bindR (bindR (onMessageStart ws n b) (foldR (onMessageData ws) dss)) (onMessageEnd einval erange ws)"
proof -
  from assms have "atoms calls = map AByte [] @ ACall (OnMessageStart t n) # map AByte bs @ [ACall OnMessageEnd]" by simp
  from atoms_data [OF this] obtain ds xs where 1: "calls = map OnMessageData ds @ OnMessageStart t n # xs" "concat ds = []"
    "atoms xs = map AByte bs @ [ACall OnMessageEnd]" "[] \<notin> set ds" by auto
  from atoms_data [OF 1(3)] obtain dss zs where 2: "xs = map OnMessageData dss @ OnMessageEnd # zs" "concat dss = bs"
    "atoms zs = []" by auto
  have "ds = []" using 1(2,4) by (cases ds) auto
  moreover have "zs = []" using 2(3) by (cases zs; cases "hd zs") (auto split: if_splits)
  ultimately have shape: "calls = OnMessageStart t n # map OnMessageData dss @ [OnMessageEnd]" using 1(1) 2(1) by simp
  have "foldR (bfcp_listener einval erange ws) [OnMessageEnd] = onMessageEnd einval erange ws"
    by (rule ext) (simp add: foldR_Nil)
  then show ?thesis
    by (intro that [OF 2(2)])
      (use deliver_append [of einval erange ws "OnMessageStart t n # map OnMessageData dss" "[OnMessageEnd]" b]
        in \<open>simp add: shape deliver_def deliver_data bindR_assoc\<close>)
qed

lemma received_calls:
  assumes "ws_idle c" "good_stream fs" "concat pieces = stream fs"
  obtains c' calls where "foldR (ProcessData http) pieces c = Ok c'" "ws_calls c' = ws_calls c @ calls"
    "atoms calls = stream_atoms fs"
proof -
  from receive [OF assms, of http] obtain c' where c': "foldR (ProcessData http) pieces c = Ok c'"
    "atoms (ws_calls c') = atoms (ws_calls c) @ stream_atoms fs" by auto
  with pieces_calls [OF c'(1)] assms(1) that show ?thesis by (auto simp: adds_calls_def ws_idle_def)
qed

lemma plen_DWORD: "length (cf_payload f) < 2 ^ 32 \<Longrightarrow> ucast (plen f) = (of_nat (length (cf_payload f)) :: DWORD)"
  by (intro word_unat_eq_iff [THEN iffD2]) (simp add: plen_def unsigned_ucast_eq unat_of_nat take_bit_nat_eq_self)

text \<open>C6: From the network to the conference: a client's message in one WebSocket frame, masked with any key, whose
  payload is the UTF-8 form of a BFCP text with the ids of the connection, makes the conference receive exactly this
  message, however the network cuts the bytes of the frame.\<close>

theorem bytes_reach_the_conference:
  assumes c: "ws_idle c" "concat pieces = wire f" "cf_op f = TextFrame" "cf_fin f" "cf_payload f = utf8_bytes_of s"
    and s: "list_all unicode s" "length (utf8_bytes_of s) < 2 ^ 32" "Parse einval erange s = Ok (Some msg)"
    and b: "b_conn b ws = Some d" "m_userId msg = cd_userId d" "m_conferenceId msg = cd_conferenceId d"
      "GetConference b (cd_conferenceId d) \<noteq> None"
  shows "\<exists>c' calls u b'. foldR (ProcessData http) pieces c = Ok c' \<and> ws_calls c' = ws_calls c @ calls \<and>
    b' = set_user_data ws (d\<lparr>cd_utf8 := u\<rparr>) b \<and>
    deliver einval erange ws calls b = with_conf (cd_conferenceId d) (MessageReceived msg) b'"
proof -
  let ?bs = "utf8_bytes_of s" and ?n = "of_nat (length (utf8_bytes_of s)) :: DWORD"
  have "?bs \<noteq> []" using s(3) Parse_nothing utf8_bytes_empty by (metis option.distinct(1) res.inject(1))
  with c s(2) have f: "good_stream [f]" by (simp add: good_stream_def cf_ok_def)
  obtain c' calls where calls: "foldR (ProcessData http) pieces c = Ok c'" "ws_calls c' = ws_calls c @ calls"
    "atoms calls = stream_atoms [f]"
    by (rule received_calls [OF c(1) f, of pieces http]) (use c(2) in \<open>simp add: wire_def\<close>)
  have "atoms calls = ACall (OnMessageStart Text ?n) # map AByte ?bs @ [ACall OnMessageEnd]"
    using calls(3) c(3-5) plen_DWORD [of f] s(2) \<open>?bs \<noteq> []\<close> by (simp add: first_atoms_def rest_atoms_def end_atoms_def is_data_def)
  then obtain dss where dss: "concat dss = ?bs" "deliver einval erange ws calls b =
      bindR (bindR (onMessageStart ws ?n b) (foldR (onMessageData ws) dss)) (onMessageEnd einval erange ws)"
    by (rule deliver_message)
  obtain u where u: "bindR (onMessageStart ws ?n b) (foldR (onMessageData ws) dss) = Ok (set_user_data ws (d\<lparr>cd_utf8 := u\<rparr>) b)"
    "UTF8_IsParsed u" "UTF8_GetWString u = s"
    by (rule text_received [OF b(1) s(1,2) dss(1)])
  let ?b = "set_user_data ws (d\<lparr>cd_utf8 := u\<rparr>) b"
  have "deliver einval erange ws calls b = onMessageEnd einval erange ws ?b" using dss(2) u(1) by simp
  also have "\<dots> = with_conf (cd_conferenceId d) (MessageReceived msg) ?b"
  proof -
    have "GetConference ?b (cd_conferenceId d) \<noteq> None"
      using b(4) by (simp add: GetConference_def set_user_data_def)
    moreover have "b_conn ?b ws = Some (d\<lparr>cd_utf8 := u\<rparr>)" by (simp add: set_user_data_def)
    ultimately show ?thesis using u(2,3) s(3) b(2,3) by (auto simp: onMessageEnd_def user_data_def)
  qed
  finally show ?thesis using calls(1,2) by blast
qed

definition ex_text_frame :: cframe where
  "ex_text_frame =
     \<lparr>cf_fin = True, cf_op = TextFrame, cf_mask = 0xdeadbeef, cf_payload = utf8_bytes_of (Stringify ex_hello)\<rparr>"

lemma ex_hello_text: "list_all unicode (Stringify ex_hello) \<and> length (utf8_bytes_of (Stringify ex_hello)) < 2 ^ 32"
  by (simp add: Stringify_def ex_hello_def BFCPMsgHello_new_def BFCPMessage_new_def StringifyCommonHeader_def itoa_def
      udigits.simps utf8_bytes_of_def unicode_def encode_char_eq msg_attributes_def)

theorem bytes_reach_the_conference_witness:
  "\<exists>calls u b'. b' = set_user_data 3 (ex_data\<lparr>cd_utf8 := u\<rparr>) ex_service \<and>
     deliver False False 3 calls ex_service = with_conf 1 (MessageReceived ex_hello) b'"
proof -
  have f: "concat [wire ex_text_frame] = wire ex_text_frame" "cf_op ex_text_frame = TextFrame" "cf_fin ex_text_frame"
    "cf_payload ex_text_frame = utf8_bytes_of (Stringify ex_hello)"
    by (simp_all add: ex_text_frame_def)
  have g: "m_userId ex_hello = cd_userId ex_data" "m_conferenceId ex_hello = cd_conferenceId ex_data"
    "GetConference ex_service (cd_conferenceId ex_data) \<noteq> None"
    by (simp_all add: ex_data_facts ex_service_facts)
  from bytes_reach_the_conference [OF ex_ws_idle f conjunct1 [OF ex_hello_text] conjunct2 [OF ex_hello_text]
      Parse_ex_hello [of False] ex_service_facts(4) g, of "\<lambda>_ c. Ok c"]
  show ?thesis by (simp add: ex_data_facts) blast
qed

section \<open>Messages in two frames\<close>

lemma Parse_beyond:
  assumes "length bs < 2 ^ 32" "utf8_left p \<le> length bs"
  shows "snd (UTF8_Parse bs p) = snd (UTF8_Parse (take (utf8_left p) bs) p)"
proof -
  let ?c = "utf8_size p - utf8_len p"
  have "unat (of_nat (length bs) :: DWORD) = length bs" using assms(1) by (simp add: unat_of_nat)
  then have "\<not> of_nat (length bs) < ?c" using assms(2) by (simp add: word_less_nat_alt utf8_left_def)
  then have "snd (UTF8_Parse bs p) = (fold UTF8_byte (take (utf8_left p) bs) p)\<lparr>utf8_len := utf8_len p + ?c\<rparr>"
    by (simp add: UTF8_Parse_def Let_def utf8_left_def)
  moreover have "(of_nat (utf8_left p) :: DWORD) = ?c" by (simp add: utf8_left_def)
  ultimately show ?thesis using assms(2) Parse_within [of "take (utf8_left p) bs" p] by (simp add: min_def)
qed

lemma UTF8_pieces_beyond:
  "length (concat dss) < 2 ^ 32 \<Longrightarrow>
   fold (\<lambda>bs p. snd (UTF8_Parse bs p)) dss p = snd (UTF8_Parse (take (utf8_left p) (concat dss)) p)"
proof (induction dss arbitrary: p)
  case Nil
  then show ?case by (simp add: Parse_within)
next
  case (Cons bs dss)
  let ?p = "snd (UTF8_Parse bs p)"
  have IH: "fold (\<lambda>bs p. snd (UTF8_Parse bs p)) dss ?p = snd (UTF8_Parse (take (utf8_left ?p) (concat dss)) ?p)"
    using Cons by simp
  show ?case
  proof (cases "length bs \<le> utf8_left p")
    case True
    let ?r = "take (utf8_left p - length bs) (concat dss)"
    have "fold (\<lambda>bs p. snd (UTF8_Parse bs p)) [bs, ?r] p = snd (UTF8_Parse (concat [bs, ?r]) p)"
      using True by (intro UTF8_pieces) simp
    with IH True show ?thesis by (simp add: utf8_left_Parse)
  next
    case False
    let ?t = "take (utf8_left p) bs"
    have p: "?p = snd (UTF8_Parse ?t p)" using False Cons.prems by (intro Parse_beyond) simp_all
    have "utf8_left ?p = 0" unfolding p using False by (simp add: utf8_left_Parse)
    with IH False p show ?thesis by (simp add: Parse_within)
  qed
qed

text \<open>A message in more than one frame is cut: the service is told the length of the first frame only, and takes
  no more than that; the bytes of the frames that follow are dropped without a word, and what the first
  frame held is taken for the message.\<close>

theorem fragmented_message_is_cut:
  assumes c: "ws_idle c" "concat pieces = wire f @ wire g"
    and f: "cf_op f = TextFrame" "\<not> cf_fin f" "cf_payload f \<noteq> []" "length (cf_payload f) < 2 ^ 31"
    and g: "cf_op g = ContinuationFrame" "cf_fin g" "cf_payload g \<noteq> []" "length (cf_payload g) < 2 ^ 31"
    and b: "b_conn b ws = Some d"
  shows "\<exists>c' calls. foldR (ProcessData http) pieces c = Ok c' \<and> ws_calls c' = ws_calls c @ calls \<and>
    deliver einval erange ws calls b = onMessageEnd einval erange ws
      (set_user_data ws (d\<lparr>cd_utf8 := snd (UTF8_Parse (cf_payload f)
         (UTF8_SetSize (of_nat (length (cf_payload f))) (UTF8_Reset (cd_utf8 d))))\<rparr>) b)"
proof -
  let ?bs = "cf_payload f" and ?n = "of_nat (length (cf_payload f)) :: DWORD"
  have fs: "good_stream [f, g]" using f g by (simp add: good_stream_def cf_ok_def)
  have w: "concat pieces = stream [f, g]" using c(2) by (simp add: wire_def)
  obtain c' calls where calls: "foldR (ProcessData http) pieces c = Ok c'" "ws_calls c' = ws_calls c @ calls"
    "atoms calls = stream_atoms [f, g]"
    by (rule received_calls [OF c(1) fs w, of http])
  have "atoms calls = ACall (OnMessageStart Text ?n) # map AByte (?bs @ cf_payload g) @ [ACall OnMessageEnd]"
    using calls(3) f g plen_DWORD [of f] by (simp add: first_atoms_def rest_atoms_def end_atoms_def is_data_def)
  then obtain dss where dss: "concat dss = ?bs @ cf_payload g" "deliver einval erange ws calls b =
      bindR (bindR (onMessageStart ws ?n b) (foldR (onMessageData ws) dss)) (onMessageEnd einval erange ws)"
    by (rule deliver_message)
  let ?p = "UTF8_SetSize ?n (UTF8_Reset (cd_utf8 d))"
  have l: "utf8_left ?p = length ?bs" using f(4) by (simp add: utf8_left_def UTF8_SetSize_def UTF8_Reset_def unat_of_nat)
  have "fold (\<lambda>bs p. snd (UTF8_Parse bs p)) dss ?p = snd (UTF8_Parse ?bs ?p)"
    using UTF8_pieces_beyond [of dss ?p] dss(1) l f(4) g(4) by simp
  then have "foldR (onMessageData ws) dss (set_user_data ws (d\<lparr>cd_utf8 := ?p\<rparr>) b) =
      Ok (set_user_data ws (d\<lparr>cd_utf8 := snd (UTF8_Parse ?bs ?p)\<rparr>) b)"
    using pieces_set [of "set_user_data ws (d\<lparr>cd_utf8 := ?p\<rparr>) b" ws "d\<lparr>cd_utf8 := ?p\<rparr>" dss]
    by (simp add: set_user_data_def)
  with dss(2) b have "deliver einval erange ws calls b =
      onMessageEnd einval erange ws (set_user_data ws (d\<lparr>cd_utf8 := snd (UTF8_Parse ?bs ?p)\<rparr>) b)"
    by (simp add: onMessageStart_def user_data_def)
  with calls(1,2) show ?thesis by blast
qed

theorem fragmented_message_is_cut_witness:
  "\<exists>calls u. UTF8_GetWString u = [123] \<and>
     deliver False False 3 calls ex_service =
       onMessageEnd False False 3 (set_user_data 3 (ex_data\<lparr>cd_utf8 := u\<rparr>) ex_service)"
proof -
  let ?f = "\<lparr>cf_fin = False, cf_op = TextFrame, cf_mask = 1, cf_payload = [123]\<rparr>"
  let ?g = "\<lparr>cf_fin = True, cf_op = ContinuationFrame, cf_mask = 2, cf_payload = [125]\<rparr>"
  let ?u = "snd (UTF8_Parse [123] (UTF8_SetSize 1 (UTF8_Reset (cd_utf8 ex_data))))"
  have "UTF8_GetWString ?u = [123]"
    by (simp add: UTF8_GetWString_def UTF8_Parse_def UTF8_SetSize_def UTF8_Reset_def UTF8_byte_def Let_def)
  moreover have "concat [wire ?f, wire ?g] = wire ?f @ wire ?g" by simp
  from fragmented_message_is_cut [OF ex_ws_idle this, of ex_service 3 ex_data "\<lambda>_ c. Ok c" False False]
  obtain calls where "deliver False False 3 calls ex_service =
      onMessageEnd False False 3 (set_user_data 3 (ex_data\<lparr>cd_utf8 := ?u\<rparr>) ex_service)"
    by (auto simp: ex_service_facts)
  ultimately show ?thesis by blast
qed

end
