(* ===== verification/UseLock.thy ===== *)
theory UseLock
  imports Prelude
begin

text \<open>
  The readers-writer lock \<open>Use\<close> of \<open>src/mcu/include/use.h\<close>, one step for each call of the thread library: the two
  mutexes, the condition variable, the counter.  Threads are the numbers below \<open>n\<close>; each is at one point of one of
  the four operations, or outside of them, and has \<open>uses\<close> uses of the lock.  A thread that waits for the condition
  is at \<open>WSleep\<close>; \<open>pthread_cond_signal\<close> wakes one such thread if there is one, and POSIX allows it to wake without
  a signal.
\<close>

datatype use_pc =
    Out
  | Inc_lock | Inc_mutex | Inc_count | Inc_unmutex | Inc_unlock
  | Dec_mutex | Dec_count | Dec_unmutex | Dec_signal
  | Wait_lock | Wait_mutex | Wait_test | WSleep | Wait_woken
  | Locked
  | Un_mutex | Un_lock

record use =
  use_lock :: "nat option"
  use_mutex :: "nat option"
  use_cont :: int
  use_pc :: "nat \<Rightarrow> use_pc"
  uses :: "nat \<Rightarrow> nat"

definition Use_new :: use where
  "Use_new = \<lparr>use_lock = None, use_mutex = None, use_cont = 0, use_pc = (\<lambda>_. Out), uses = (\<lambda>_. 0)\<rparr>"

definition goto :: "nat \<Rightarrow> use_pc \<Rightarrow> use \<Rightarrow> use" where
  "goto i p s = s\<lparr>use_pc := (use_pc s)(i := p)\<rparr>"

text \<open>The steps inside the operations, in the order of the code.\<close>

inductive IncUse_step :: "nat \<Rightarrow> use \<Rightarrow> use \<Rightarrow> bool" for i where
  "use_pc s i = Inc_lock \<Longrightarrow> use_lock s = None \<Longrightarrow> IncUse_step i s (goto i Inc_mutex (s\<lparr>use_lock := Some i\<rparr>))"
| "use_pc s i = Inc_mutex \<Longrightarrow> use_mutex s = None \<Longrightarrow> IncUse_step i s (goto i Inc_count (s\<lparr>use_mutex := Some i\<rparr>))"
| "use_pc s i = Inc_count \<Longrightarrow>
     IncUse_step i s (goto i Inc_unmutex (s\<lparr>use_cont := use_cont s + 1, uses := (uses s)(i := Suc (uses s i))\<rparr>))"
| "use_pc s i = Inc_unmutex \<Longrightarrow> IncUse_step i s (goto i Inc_unlock (s\<lparr>use_mutex := None\<rparr>))"
| "use_pc s i = Inc_unlock \<Longrightarrow> IncUse_step i s (goto i Out (s\<lparr>use_lock := None\<rparr>))"

inductive DecUse_step :: "nat \<Rightarrow> use \<Rightarrow> use \<Rightarrow> bool" for i where
  "use_pc s i = Dec_mutex \<Longrightarrow> use_mutex s = None \<Longrightarrow> DecUse_step i s (goto i Dec_count (s\<lparr>use_mutex := Some i\<rparr>))"
| "use_pc s i = Dec_count \<Longrightarrow>
     DecUse_step i s (goto i Dec_unmutex (s\<lparr>use_cont := use_cont s - 1, uses := (uses s)(i := uses s i - 1)\<rparr>))"
| "use_pc s i = Dec_unmutex \<Longrightarrow> DecUse_step i s (goto i Dec_signal (s\<lparr>use_mutex := None\<rparr>))"
| "use_pc s i = Dec_signal \<Longrightarrow> use_pc s j = WSleep \<Longrightarrow> DecUse_step i s (goto i Out (goto j Wait_woken s))"
| "use_pc s i = Dec_signal \<Longrightarrow> (\<And>j. use_pc s j \<noteq> WSleep) \<Longrightarrow> DecUse_step i s (goto i Out s)"

inductive WaitUnusedAndLock_step :: "nat \<Rightarrow> use \<Rightarrow> use \<Rightarrow> bool" for i where
  "use_pc s i = Wait_lock \<Longrightarrow> use_lock s = None \<Longrightarrow>
     WaitUnusedAndLock_step i s (goto i Wait_mutex (s\<lparr>use_lock := Some i\<rparr>))"
| "use_pc s i = Wait_mutex \<Longrightarrow> use_mutex s = None \<Longrightarrow>
     WaitUnusedAndLock_step i s (goto i Wait_test (s\<lparr>use_mutex := Some i\<rparr>))"
| "use_pc s i = Wait_test \<Longrightarrow> use_cont s \<noteq> 0 \<Longrightarrow>
     WaitUnusedAndLock_step i s (goto i WSleep (s\<lparr>use_mutex := None\<rparr>))"
| "use_pc s i = Wait_test \<Longrightarrow> use_cont s = 0 \<Longrightarrow> WaitUnusedAndLock_step i s (goto i Locked s)"
| "use_pc s i = Wait_woken \<Longrightarrow> use_mutex s = None \<Longrightarrow>
     WaitUnusedAndLock_step i s (goto i Wait_test (s\<lparr>use_mutex := Some i\<rparr>))"

inductive Unlock_step :: "nat \<Rightarrow> use \<Rightarrow> use \<Rightarrow> bool" for i where
  "use_pc s i = Un_mutex \<Longrightarrow> Unlock_step i s (goto i Un_lock (s\<lparr>use_mutex := None\<rparr>))"
| "use_pc s i = Un_lock \<Longrightarrow> Unlock_step i s (goto i Out (s\<lparr>use_lock := None\<rparr>))"

text \<open>
  What a thread does outside of the operations: it gives up a use or the lock, or it asks for one of them.  A thread
  gives up only what it has.
\<close>

inductive leave_step :: "nat \<Rightarrow> use \<Rightarrow> use \<Rightarrow> bool" for i where
  "use_pc s i = Out \<Longrightarrow> 0 < uses s i \<Longrightarrow> leave_step i s (goto i Dec_mutex s)"
| "use_pc s i = Locked \<Longrightarrow> leave_step i s (goto i Un_mutex s)"

inductive enter_step :: "nat \<Rightarrow> use \<Rightarrow> use \<Rightarrow> bool" for i where
  "use_pc s i = Out \<Longrightarrow> enter_step i s (goto i Inc_lock s)"
| "use_pc s i = Out \<Longrightarrow> enter_step i s (goto i Wait_lock s)"

inductive spurious_step :: "nat \<Rightarrow> use \<Rightarrow> use \<Rightarrow> bool" for i where
  "use_pc s i = WSleep \<Longrightarrow> spurious_step i s (goto i Wait_woken s)"

text \<open>
  The steps that bring the threads out of the lock, those that any thread may make at any time, and the discipline
  under which a thread that has a use does not ask for another one, nor for the lock.
\<close>

definition work_step :: "nat \<Rightarrow> use \<Rightarrow> use \<Rightarrow> bool" where
  "work_step n s t \<longleftrightarrow>
     (\<exists>i<n. IncUse_step i s t \<or> DecUse_step i s t \<or> WaitUnusedAndLock_step i s t \<or> Unlock_step i s t \<or> leave_step i s t)"

definition use_step :: "nat \<Rightarrow> use \<Rightarrow> use \<Rightarrow> bool" where
  "use_step n s t \<longleftrightarrow> work_step n s t \<or> (\<exists>i<n. enter_step i s t \<or> spurious_step i s t)"

definition scoped_step :: "nat \<Rightarrow> use \<Rightarrow> use \<Rightarrow> bool" where
  "scoped_step n s t \<longleftrightarrow> work_step n s t \<or> (\<exists>i<n. uses s i = 0 \<and> enter_step i s t \<or> spurious_step i s t)"

inductive use_reachable :: "nat \<Rightarrow> use \<Rightarrow> bool" for n where
  start: "use_reachable n Use_new"
| step: "use_reachable n s \<Longrightarrow> use_step n s t \<Longrightarrow> use_reachable n t"

inductive scoped_reachable :: "nat \<Rightarrow> use \<Rightarrow> bool" for n where
  start: "scoped_reachable n Use_new"
| step: "scoped_reachable n s \<Longrightarrow> scoped_step n s t \<Longrightarrow> scoped_reachable n t"

section \<open>The invariant\<close>

text \<open>
  The points at which a thread holds \<open>lock\<close>, holds \<open>mutex\<close>, has a use although it is not outside, has the lock to
  itself, is to signal the condition.
\<close>

fun has_lock :: "use_pc \<Rightarrow> bool" where
  "has_lock Out = False"
| "has_lock Inc_lock = False"
| "has_lock Dec_mutex = False"
| "has_lock Dec_count = False"
| "has_lock Dec_unmutex = False"
| "has_lock Dec_signal = False"
| "has_lock Wait_lock = False"
| "has_lock _ = True"

fun has_mutex :: "use_pc \<Rightarrow> bool" where
  "has_mutex Inc_count = True"
| "has_mutex Inc_unmutex = True"
| "has_mutex Dec_count = True"
| "has_mutex Dec_unmutex = True"
| "has_mutex Wait_test = True"
| "has_mutex Locked = True"
| "has_mutex Un_mutex = True"
| "has_mutex _ = False"

fun has_use :: "use_pc \<Rightarrow> bool" where
  "has_use Inc_unmutex = True"
| "has_use Inc_unlock = True"
| "has_use Dec_mutex = True"
| "has_use Dec_count = True"
| "has_use _ = False"

fun unused :: "use_pc \<Rightarrow> bool" where
  "unused Locked = True"
| "unused Un_mutex = True"
| "unused _ = False"

fun owes_signal :: "use_pc \<Rightarrow> bool" where
  "owes_signal Dec_unmutex = True"
| "owes_signal Dec_signal = True"
| "owes_signal _ = False"

text \<open>A thread that is to give up a use has one; a sleeping writer is owed a signal.\<close>

definition use_inv :: "nat \<Rightarrow> use \<Rightarrow> bool" where
  "use_inv n s \<longleftrightarrow>
     (\<forall>i. has_lock (use_pc s i) \<longleftrightarrow> use_lock s = Some i) \<and>
     (\<forall>i. has_mutex (use_pc s i) \<longleftrightarrow> use_mutex s = Some i) \<and>
     use_cont s = int (\<Sum>i<n. uses s i) \<and>
     (\<forall>i. has_use (use_pc s i) \<longrightarrow> 0 < uses s i) \<and>
     (\<forall>i. unused (use_pc s i) \<longrightarrow> use_cont s = 0) \<and>
     (\<forall>i. use_pc s i = WSleep \<longrightarrow> use_cont s \<noteq> 0 \<or> (\<exists>j. owes_signal (use_pc s j))) \<and>
     (\<forall>i\<ge>n. use_pc s i = Out \<and> uses s i = 0)"

lemma use_inv_new: "use_inv n Use_new"
  by (simp add: use_inv_def Use_new_def)

lemma sum_uses_upd:
  fixes u :: "nat \<Rightarrow> nat"
  assumes "i < n"
  shows "(\<Sum>j<n. (u(i := v)) j) + u i = (\<Sum>j<n. u j) + v"
proof -
  have "(\<Sum>j\<in>{..<n} - {i}. (u(i := v)) j) = (\<Sum>j\<in>{..<n} - {i}. u j)" by (rule sum.cong) auto
  with assms show ?thesis by (simp add: sum.remove [of "{..<n}" i])
qed

lemma use_inv_parts:
  assumes "use_inv n s"
  shows use_inv_lock: "has_lock (use_pc s i) \<longleftrightarrow> use_lock s = Some i"
    and use_inv_mutex: "has_mutex (use_pc s i) \<longleftrightarrow> use_mutex s = Some i"
    and use_inv_cont: "use_cont s = int (\<Sum>i<n. uses s i)"
    and use_inv_uses: "has_use (use_pc s i) \<Longrightarrow> 0 < uses s i"
    and use_inv_zero: "unused (use_pc s i) \<Longrightarrow> use_cont s = 0"
    and use_inv_sleep: "use_pc s i = WSleep \<Longrightarrow> use_cont s \<noteq> 0 \<or> (\<exists>j. owes_signal (use_pc s j))"
    and use_inv_out: "n \<le> i \<Longrightarrow> use_pc s i = Out \<and> uses s i = 0"
  using assms unfolding use_inv_def by blast+

lemma use_inv_cont_nonneg: "use_inv n s \<Longrightarrow> 0 \<le> use_cont s"
  by (simp only: use_inv_cont of_nat_0_le_iff)

lemma use_inv_at:
  "use_inv n s \<Longrightarrow> (has_lock (use_pc s i) \<longleftrightarrow> use_lock s = Some i) \<and> (has_mutex (use_pc s i) \<longleftrightarrow> use_mutex s = Some i)
     \<and> (has_use (use_pc s i) \<longrightarrow> 0 < uses s i) \<and> (unused (use_pc s i) \<longrightarrow> use_cont s = 0)"
  using use_inv_lock [of n s i] use_inv_mutex [of n s i] use_inv_uses [of n s i] use_inv_zero [of n s i] by blast

text \<open>What one thread's move must do for the invariant to be kept.\<close>

lemma use_inv_move:
  assumes inv: "use_inv n s" and i: "i < n"
    and pc: "use_pc t = (use_pc s)(i := use_pc t i)"
    and lock: "use_lock t =
      (if has_lock (use_pc t i) then Some i else if has_lock (use_pc s i) then None else use_lock s)"
    and lock_free: "has_lock (use_pc t i) \<Longrightarrow> has_lock (use_pc s i) \<or> use_lock s = None"
    and mutex: "use_mutex t =
      (if has_mutex (use_pc t i) then Some i else if has_mutex (use_pc s i) then None else use_mutex s)"
    and mutex_free: "has_mutex (use_pc t i) \<Longrightarrow> has_mutex (use_pc s i) \<or> use_mutex s = None"
    and uses: "uses t = (uses s)(i := uses t i)"
    and cont: "use_cont t + int (uses s i) = use_cont s + int (uses t i)"
    and use: "has_use (use_pc t i) \<Longrightarrow> 0 < uses t i"
    and zero: "unused (use_pc t i) \<Longrightarrow> use_cont t = 0"
    and fixed: "use_cont t = use_cont s \<or> has_mutex (use_pc s i)"
    and sleep: "use_pc t i = WSleep \<Longrightarrow> use_cont t \<noteq> 0"
    and down: "use_cont t = 0 \<Longrightarrow> use_cont s = 0 \<or> owes_signal (use_pc t i)"
    and signal: "owes_signal (use_pc s i) \<Longrightarrow> owes_signal (use_pc t i) \<or> (\<forall>j. use_pc s j \<noteq> WSleep)"
  shows "use_inv n t"
proof -
  note I = use_inv_parts [OF inv]
  have other_pc: "use_pc t j = use_pc s j" and other_uses: "uses t j = uses s j" if "j \<noteq> i" for j
    by (metis that pc fun_upd_other, metis that uses fun_upd_other)
  have other: "has_mutex (use_pc s j) \<Longrightarrow> has_mutex (use_pc s i) \<Longrightarrow> j = i" for j
    using I(2) [of j] I(2) [of i] by simp
  have 1: "has_lock (use_pc t j) \<longleftrightarrow> use_lock t = Some j" for j
    using I(1) [of j] I(1) [of i] lock lock_free other_pc [of j] by (cases "j = i") auto
  have 2: "has_mutex (use_pc t j) \<longleftrightarrow> use_mutex t = Some j" for j
    using I(2) [of j] I(2) [of i] mutex mutex_free other_pc [of j] by (cases "j = i") auto
  have "(\<Sum>j<n. uses t j) = (\<Sum>j<n. ((uses s)(i := uses t i)) j)" using uses by simp
  with sum_uses_upd [OF i, of "uses s" "uses t i"] have "(\<Sum>j<n. uses t j) + uses s i = (\<Sum>j<n. uses s j) + uses t i"
    by simp
  with I(3) cont have 3: "use_cont t = int (\<Sum>j<n. uses t j)" by (simp only: of_nat_add [symmetric] add_right_cancel)
  have 4: "0 < uses t j" if "has_use (use_pc t j)" for j
    using that I(4) [of j] use other_pc [of j] other_uses [of j] by (cases "j = i") auto
  have 5: "use_cont t = 0" if "unused (use_pc t j)" for j
  proof (cases "j = i")
    case True
    with that zero show ?thesis by simp
  next
    case False
    with that have u: "unused (use_pc s j)" by (simp add: other_pc)
    then have "has_mutex (use_pc s j)" by (cases "use_pc s j") simp_all
    with False other fixed I(5) [OF u] show ?thesis by auto
  qed
  have 6: "use_cont t \<noteq> 0 \<or> (\<exists>k. owes_signal (use_pc t k))" if "use_pc t j = WSleep" for j
  proof (cases "j = i")
    case True
    with that sleep show ?thesis by simp
  next
    case False
    with that have w: "use_pc s j = WSleep" by (simp add: other_pc)
    show ?thesis
    proof (rule ccontr)
      assume "\<not> ?thesis"
      then have z: "use_cont t = 0" and none: "\<And>k. \<not> owes_signal (use_pc t k)" by auto
      with down have "use_cont s = 0" by blast
      with I(6) [OF w] obtain k where k: "owes_signal (use_pc s k)" by auto
      with none [of k] other_pc [of k] have "k = i" by fastforce
      with k signal none w show False by blast
    qed
  qed
  have 7: "use_pc t j = Out \<and> uses t j = 0" if "n \<le> j" for j
    using that i I(7) [OF that] by (simp add: other_pc other_uses)
  from 1 2 3 4 5 6 7 show ?thesis by (simp add: use_inv_def)
qed

lemma IncUse_step_inv: "IncUse_step i s t \<Longrightarrow> i < n \<Longrightarrow> use_inv n s \<Longrightarrow> use_inv n t"
  by (induction rule: IncUse_step.induct; frule use_inv_at [where i = i]; frule use_inv_cont_nonneg;
      (rule use_inv_move [where i = i], assumption, assumption; simp add: goto_def))

lemma WaitUnusedAndLock_step_inv: "WaitUnusedAndLock_step i s t \<Longrightarrow> i < n \<Longrightarrow> use_inv n s \<Longrightarrow> use_inv n t"
  by (induction rule: WaitUnusedAndLock_step.induct; frule use_inv_at [where i = i]; frule use_inv_cont_nonneg;
      (rule use_inv_move [where i = i], assumption, assumption; simp add: goto_def))

lemma Unlock_step_inv: "Unlock_step i s t \<Longrightarrow> i < n \<Longrightarrow> use_inv n s \<Longrightarrow> use_inv n t"
  by (induction rule: Unlock_step.induct; frule use_inv_at [where i = i]; frule use_inv_cont_nonneg;
      (rule use_inv_move [where i = i], assumption, assumption; simp add: goto_def))

lemma leave_step_inv: "leave_step i s t \<Longrightarrow> i < n \<Longrightarrow> use_inv n s \<Longrightarrow> use_inv n t"
  by (induction rule: leave_step.induct; frule use_inv_at [where i = i]; frule use_inv_cont_nonneg;
      (rule use_inv_move [where i = i], assumption, assumption; simp add: goto_def use_inv_zero))

lemma enter_step_inv: "enter_step i s t \<Longrightarrow> i < n \<Longrightarrow> use_inv n s \<Longrightarrow> use_inv n t"
  by (induction rule: enter_step.induct; frule use_inv_at [where i = i]; frule use_inv_cont_nonneg;
      (rule use_inv_move [where i = i], assumption, assumption; simp add: goto_def))

lemma spurious_step_inv: "spurious_step i s t \<Longrightarrow> i < n \<Longrightarrow> use_inv n s \<Longrightarrow> use_inv n t"
  by (induction rule: spurious_step.induct; frule use_inv_at [where i = i]; frule use_inv_cont_nonneg;
      (rule use_inv_move [where i = i], assumption, assumption; simp add: goto_def))

lemma one_sleeper: "use_inv n s \<Longrightarrow> use_pc s i = WSleep \<Longrightarrow> use_pc s j = WSleep \<Longrightarrow> i = j"
  using use_inv_lock [of n s i] use_inv_lock [of n s j] by simp

lemma sleeper_is_a_thread: "use_inv n s \<Longrightarrow> use_pc s j = WSleep \<Longrightarrow> j < n"
  using use_inv_out [of n s j] by (cases "j < n") auto

lemma DecUse_step_inv: "DecUse_step i s t \<Longrightarrow> i < n \<Longrightarrow> use_inv n s \<Longrightarrow> use_inv n t"
proof (induction rule: DecUse_step.induct)
  case (4 s j)
  then have j: "j < n" and ij: "i \<noteq> j" by (auto dest: sleeper_is_a_thread)
  from 4 j have w: "use_inv n (goto j Wait_woken s)"
    using spurious_step_inv [OF spurious_step.intros [of s j], of n] by blast
  from 4 have "use_pc (goto j Wait_woken s) k \<noteq> WSleep" for k
    by (auto simp: goto_def dest: one_sleeper)
  with 4(1,3) ij use_inv_at [OF w, of i] show ?case
    by - (rule use_inv_move [OF w, where i = i]; simp add: goto_def)
qed (frule use_inv_at [where i = i]; frule use_inv_cont_nonneg;
  (rule use_inv_move [where i = i], assumption, assumption; simp add: goto_def))+

lemma work_step_inv: "work_step n s t \<Longrightarrow> use_inv n s \<Longrightarrow> use_inv n t"
  unfolding work_step_def
  by (elim exE conjE disjE; erule IncUse_step_inv DecUse_step_inv WaitUnusedAndLock_step_inv Unlock_step_inv leave_step_inv;
      assumption)

lemma use_step_inv: "use_step n s t \<Longrightarrow> use_inv n s \<Longrightarrow> use_inv n t"
  unfolding use_step_def
  by (elim disjE exE conjE; erule work_step_inv enter_step_inv spurious_step_inv; assumption)

lemma use_reachable_inv: "use_reachable n s \<Longrightarrow> use_inv n s"
  by (induction rule: use_reachable.induct) (auto intro: use_inv_new use_step_inv)

lemma scoped_step_use_step: "scoped_step n s t \<Longrightarrow> use_step n s t"
  by (auto simp: scoped_step_def use_step_def)

lemma scoped_reachable_use_reachable: "scoped_reachable n s \<Longrightarrow> use_reachable n s"
  by (induction rule: scoped_reachable.induct) (auto intro: use_reachable.intros scoped_step_use_step)

text \<open>Whoever is inside the lock finds no use of it, and nobody else inside.\<close>

lemma locked_is_alone:
  assumes inv: "use_inv n s" and l: "use_pc s i = Locked"
  shows "uses s j = 0" "use_pc s j = Locked \<Longrightarrow> j = i"
proof -
  from l use_inv_zero [OF inv, of i] have "use_cont s = 0" by simp
  with use_inv_cont [OF inv] have z: "(\<Sum>k<n. uses s k) = 0" by (metis of_nat_eq_0_iff)
  show "uses s j = 0"
  proof (cases "j < n")
    case True
    with z show ?thesis by simp
  next
    case False
    with use_inv_out [OF inv, of j] show ?thesis by simp
  qed
  show "j = i" if "use_pc s j = Locked"
    using that l use_inv_lock [OF inv, of i] use_inv_lock [OF inv, of j] by simp
qed

section \<open>Threads that do not nest\<close>

text \<open>The points at which a thread may have a use when it does not nest.\<close>

fun may_use :: "use_pc \<Rightarrow> bool" where
  "may_use Out = True"
| "may_use Inc_unmutex = True"
| "may_use Inc_unlock = True"
| "may_use Dec_mutex = True"
| "may_use Dec_count = True"
| "may_use _ = False"

definition scoped_inv :: "use \<Rightarrow> bool" where
  "scoped_inv s \<longleftrightarrow> (\<forall>i. uses s i = 0 \<or> uses s i = 1 \<and> may_use (use_pc s i))"

lemma scoped_inv_move:
  assumes "scoped_inv s" and "\<And>j. j \<noteq> i \<Longrightarrow> use_pc t j = use_pc s j \<or> uses s j = 0"
    and "\<And>j. j \<noteq> i \<Longrightarrow> uses t j = uses s j"
    and "uses t i = 0 \<or> uses t i = 1 \<and> may_use (use_pc t i)"
  shows "scoped_inv t"
  using assms unfolding scoped_inv_def by metis

lemma scoped_inv_at: "scoped_inv s \<Longrightarrow> uses s i = 0 \<or> uses s i = 1 \<and> may_use (use_pc s i)"
  by (simp add: scoped_inv_def)

lemma IncUse_step_scoped: "IncUse_step i s t \<Longrightarrow> scoped_inv s \<Longrightarrow> scoped_inv t"
  by (induction rule: IncUse_step.induct; frule scoped_inv_at [where i = i];
      (rule scoped_inv_move [where i = i], assumption; auto simp: goto_def))

lemma WaitUnusedAndLock_step_scoped: "WaitUnusedAndLock_step i s t \<Longrightarrow> scoped_inv s \<Longrightarrow> scoped_inv t"
  by (induction rule: WaitUnusedAndLock_step.induct; frule scoped_inv_at [where i = i];
      (rule scoped_inv_move [where i = i], assumption; auto simp: goto_def))

lemma Unlock_step_scoped: "Unlock_step i s t \<Longrightarrow> scoped_inv s \<Longrightarrow> scoped_inv t"
  by (induction rule: Unlock_step.induct; frule scoped_inv_at [where i = i];
      (rule scoped_inv_move [where i = i], assumption; auto simp: goto_def))

lemma leave_step_scoped: "leave_step i s t \<Longrightarrow> scoped_inv s \<Longrightarrow> scoped_inv t"
  by (induction rule: leave_step.induct; frule scoped_inv_at [where i = i];
      (rule scoped_inv_move [where i = i], assumption; auto simp: goto_def))

lemma enter_step_scoped: "enter_step i s t \<Longrightarrow> uses s i = 0 \<Longrightarrow> scoped_inv s \<Longrightarrow> scoped_inv t"
  by (induction rule: enter_step.induct; frule scoped_inv_at [where i = i];
      (rule scoped_inv_move [where i = i], assumption; auto simp: goto_def))

lemma spurious_step_scoped: "spurious_step i s t \<Longrightarrow> scoped_inv s \<Longrightarrow> scoped_inv t"
  by (induction rule: spurious_step.induct; frule scoped_inv_at [where i = i];
      (rule scoped_inv_move [where i = i], assumption; auto simp: goto_def))

lemma DecUse_step_scoped: "DecUse_step i s t \<Longrightarrow> scoped_inv s \<Longrightarrow> scoped_inv t"
proof (induction rule: DecUse_step.induct)
  case (4 s j)
  with scoped_inv_at [of s i] scoped_inv_at [of s j] show ?case
    by - (rule scoped_inv_move [where i = i], assumption; auto simp: goto_def)
qed (frule scoped_inv_at [where i = i];
  (rule scoped_inv_move [where i = i], assumption; auto simp: goto_def))+

lemma work_step_scoped: "work_step n s t \<Longrightarrow> scoped_inv s \<Longrightarrow> scoped_inv t"
  unfolding work_step_def
  by (elim exE conjE disjE; erule IncUse_step_scoped DecUse_step_scoped WaitUnusedAndLock_step_scoped
      Unlock_step_scoped leave_step_scoped; assumption)

lemma scoped_step_scoped: "scoped_step n s t \<Longrightarrow> scoped_inv s \<Longrightarrow> scoped_inv t"
  unfolding scoped_step_def
  by (elim disjE exE conjE; erule work_step_scoped enter_step_scoped spurious_step_scoped; assumption)

lemma scoped_inv_new: "scoped_inv Use_new"
  by (simp add: scoped_inv_def Use_new_def)

lemma scoped_reachable_inv: "scoped_reachable n s \<Longrightarrow> scoped_inv s"
  by (induction rule: scoped_reachable.induct) (auto intro: scoped_inv_new scoped_step_scoped)

section \<open>Every thread gets out\<close>

text \<open>
  How far a thread is from being outside without a use.  A signal sets a writer back by two points and takes the
  thread that signals six points further.
\<close>

fun pc_rank :: "use_pc \<Rightarrow> nat" where
  "pc_rank Out = 2"
| "pc_rank Inc_lock = 17"
| "pc_rank Inc_mutex = 16"
| "pc_rank Inc_count = 15"
| "pc_rank Inc_unmutex = 4"
| "pc_rank Inc_unlock = 3"
| "pc_rank Dec_mutex = 1"
| "pc_rank Dec_count = 0"
| "pc_rank Dec_unmutex = 9"
| "pc_rank Dec_signal = 8"
| "pc_rank Wait_lock = 9"
| "pc_rank Wait_mutex = 8"
| "pc_rank Wait_test = 7"
| "pc_rank WSleep = 6"
| "pc_rank Wait_woken = 8"
| "pc_rank Locked = 5"
| "pc_rank Un_mutex = 4"
| "pc_rank Un_lock = 3"

definition thread_rank :: "use \<Rightarrow> nat \<Rightarrow> nat" where
  "thread_rank s i = 10 * uses s i + pc_rank (use_pc s i)"

definition rank :: "nat \<Rightarrow> use \<Rightarrow> nat" where
  "rank n s = (\<Sum>i<n. thread_rank s i)"

lemma rank_move:
  assumes i: "i < n" and other: "\<And>j. j \<noteq> i \<Longrightarrow> thread_rank t j = thread_rank s j"
  shows "rank n t + thread_rank s i = rank n s + thread_rank t i"
proof -
  have "(\<Sum>j\<in>{..<n} - {i}. thread_rank t j) = (\<Sum>j\<in>{..<n} - {i}. thread_rank s j)"
    by (rule sum.cong) (auto simp: other)
  with i show ?thesis by (simp add: rank_def sum.remove [of "{..<n}" i])
qed

lemma rank_less:
  assumes "i < n" "\<And>j. j \<noteq> i \<Longrightarrow> thread_rank t j = thread_rank s j" "thread_rank t i < thread_rank s i"
  shows "rank n t < rank n s"
  using rank_move [OF assms(1,2)] assms(3) by linarith

lemma IncUse_step_rank: "IncUse_step i s t \<Longrightarrow> i < n \<Longrightarrow> rank n t < rank n s"
  by (induction rule: IncUse_step.induct) (rule rank_less [where i = i], assumption; simp add: thread_rank_def goto_def)+

lemma WaitUnusedAndLock_step_rank: "WaitUnusedAndLock_step i s t \<Longrightarrow> i < n \<Longrightarrow> rank n t < rank n s"
  by (induction rule: WaitUnusedAndLock_step.induct)
    (rule rank_less [where i = i], assumption; simp add: thread_rank_def goto_def)+

lemma Unlock_step_rank: "Unlock_step i s t \<Longrightarrow> i < n \<Longrightarrow> rank n t < rank n s"
  by (induction rule: Unlock_step.induct)
    (rule rank_less [where i = i], assumption; simp add: thread_rank_def goto_def)+

lemma leave_step_rank: "leave_step i s t \<Longrightarrow> i < n \<Longrightarrow> rank n t < rank n s"
  by (induction rule: leave_step.induct)
    (rule rank_less [where i = i], assumption; simp add: thread_rank_def goto_def)+

lemma DecUse_step_rank: "DecUse_step i s t \<Longrightarrow> i < n \<Longrightarrow> use_inv n s \<Longrightarrow> rank n t < rank n s"
proof (induction rule: DecUse_step.induct)
  case (2 s)
  with use_inv_at [OF 2(3), of i] show ?case
    by - (rule rank_less [where i = i], assumption; cases "uses s i"; simp add: thread_rank_def goto_def)
next
  case (4 s j)
  then have j: "j < n" and ij: "i \<noteq> j" by (auto dest: sleeper_is_a_thread)
  have "rank n (goto j Wait_woken s) + 6 = rank n s + 8"
    using rank_move [OF j, of "goto j Wait_woken s" s] 4(2) by (simp add: thread_rank_def goto_def)
  moreover have "rank n (goto i Out (goto j Wait_woken s)) + 8 = rank n (goto j Wait_woken s) + 2"
    using rank_move [OF 4(3), of "goto i Out (goto j Wait_woken s)" "goto j Wait_woken s"] 4(1) ij
    by (simp add: thread_rank_def goto_def)
  ultimately show ?case by simp
qed (rule rank_less [where i = i], assumption; simp add: thread_rank_def goto_def)+

lemma work_step_rank: "work_step n s t \<Longrightarrow> use_inv n s \<Longrightarrow> rank n t < rank n s"
  unfolding work_step_def
  by (elim exE conjE disjE; erule IncUse_step_rank DecUse_step_rank WaitUnusedAndLock_step_rank Unlock_step_rank
      leave_step_rank; assumption)

lemma work_steps_rank:
  "(work_step n ^^ k) s t \<Longrightarrow> use_inv n s \<Longrightarrow> scoped_inv s \<Longrightarrow> k + rank n t \<le> rank n s \<and> use_inv n t \<and> scoped_inv t"
proof (induction k arbitrary: t)
  case 0
  then show ?case by simp
next
  case (Suc k)
  from Suc.prems(1) obtain u where u: "(work_step n ^^ k) s u" and ut: "work_step n u t" by auto
  from Suc.IH [OF u Suc.prems(2,3)] work_step_rank [OF ut] work_step_inv [OF ut] work_step_scoped [OF ut]
  show ?case by auto
qed

lemma pc_rank_le: "pc_rank p \<le> 17" and pc_rank_may_use: "may_use p \<Longrightarrow> pc_rank p \<le> 4"
  by (cases p; simp)+

lemma scoped_rank: "scoped_inv s \<Longrightarrow> rank n s \<le> 17 * n"
proof -
  assume s: "scoped_inv s"
  have "thread_rank s i \<le> 17" for i
    using scoped_inv_at [OF s, of i] pc_rank_le [of "use_pc s i"] pc_rank_may_use [of "use_pc s i"]
    by (auto simp: thread_rank_def)
  then have "(\<Sum>i<n. thread_rank s i) \<le> (\<Sum>i<n. 17)" by (rule sum_mono)
  then show ?thesis by (simp add: rank_def)
qed

definition drained :: "use \<Rightarrow> bool" where
  "drained s \<longleftrightarrow> (\<forall>i. use_pc s i = Out \<and> uses s i = 0)"

text \<open>Where a thread can be when no thread can move.\<close>

fun is_blocked :: "use_pc \<Rightarrow> bool" where
  "is_blocked Inc_lock = True"
| "is_blocked Wait_lock = True"
| "is_blocked WSleep = True"
| "is_blocked _ = False"

lemma work_stepI:
  assumes "i < n"
  shows "IncUse_step i s t \<Longrightarrow> \<exists>t. work_step n s t" "DecUse_step i s t \<Longrightarrow> \<exists>t. work_step n s t"
    "WaitUnusedAndLock_step i s t \<Longrightarrow> \<exists>t. work_step n s t" "Unlock_step i s t \<Longrightarrow> \<exists>t. work_step n s t"
    "leave_step i s t \<Longrightarrow> \<exists>t. work_step n s t"
  using assms unfolding work_step_def by blast+

lemma mutex_owner_moves:
  assumes "i < n" "has_mutex (use_pc s i)"
  shows "\<exists>t. work_step n s t"
proof (cases "use_pc s i")
  case Inc_count
  then show ?thesis by (rule work_stepI(1) [OF assms(1) IncUse_step.intros(3)])
next
  case Inc_unmutex
  then show ?thesis by (rule work_stepI(1) [OF assms(1) IncUse_step.intros(4)])
next
  case Dec_count
  then show ?thesis by (rule work_stepI(2) [OF assms(1) DecUse_step.intros(2)])
next
  case Dec_unmutex
  then show ?thesis by (rule work_stepI(2) [OF assms(1) DecUse_step.intros(3)])
next
  case Wait_test
  then show ?thesis
    using work_stepI(3) [OF assms(1) WaitUnusedAndLock_step.intros(3)]
      work_stepI(3) [OF assms(1) WaitUnusedAndLock_step.intros(4)] by blast
next
  case Locked
  then show ?thesis by (rule work_stepI(5) [OF assms(1) leave_step.intros(2)])
next
  case Un_mutex
  then show ?thesis by (rule work_stepI(4) [OF assms(1) Unlock_step.intros(1)])
qed (use assms(2) in simp_all)

lemma mutex_free_moves:
  assumes "i < n" "use_mutex s = None" "\<not> is_blocked (use_pc s i)" "use_pc s i \<noteq> Out \<or> 0 < uses s i"
  shows "\<exists>t. work_step n s t"
proof (cases "has_mutex (use_pc s i)")
  case True
  with assms(1) show ?thesis by (rule mutex_owner_moves)
next
  case False
  then show ?thesis
  proof (cases "use_pc s i")
    case Out
    with assms(4) show ?thesis by (intro work_stepI(5) [OF assms(1) leave_step.intros(1)]) simp_all
  next
    case Inc_mutex
    then show ?thesis using assms(2) by (rule work_stepI(1) [OF assms(1) IncUse_step.intros(2)])
  next
    case Inc_unlock
    then show ?thesis by (rule work_stepI(1) [OF assms(1) IncUse_step.intros(5)])
  next
    case Dec_mutex
    then show ?thesis using assms(2) by (rule work_stepI(2) [OF assms(1) DecUse_step.intros(1)])
  next
    case Dec_signal
    then show ?thesis
      using work_stepI(2) [OF assms(1) DecUse_step.intros(4)] work_stepI(2) [OF assms(1) DecUse_step.intros(5)] by blast
  next
    case Wait_mutex
    then show ?thesis using assms(2) by (rule work_stepI(3) [OF assms(1) WaitUnusedAndLock_step.intros(2)])
  next
    case Wait_woken
    then show ?thesis using assms(2) by (rule work_stepI(3) [OF assms(1) WaitUnusedAndLock_step.intros(5)])
  next
    case Un_lock
    then show ?thesis by (rule work_stepI(4) [OF assms(1) Unlock_step.intros(2)])
  qed (use assms(3) in simp_all)
qed

lemma stuck_is_drained:
  assumes inv: "use_inv n s" and scoped: "scoped_inv s" and stuck: "\<nexists>t. work_step n s t"
  shows "drained s"
proof -
  have lt: "i < n" if "use_pc s i \<noteq> Out \<or> 0 < uses s i" for i
    using that use_inv_out [OF inv, of i] by (cases "i < n") auto
  have mutex: "use_mutex s = None"
  proof (cases "use_mutex s")
    case (Some i)
    with use_inv_mutex [OF inv, of i] have m: "has_mutex (use_pc s i)" by simp
    then have "i < n" using lt [of i] by (cases "use_pc s i") simp_all
    with m mutex_owner_moves stuck show ?thesis by blast
  qed simp
  have pc: "is_blocked (use_pc s i) \<or> use_pc s i = Out \<and> uses s i = 0" for i
    using mutex_free_moves [of i n s] lt [of i] mutex stuck by blast
  have no_use: "uses s i = 0" for i
    using pc [of i] scoped_inv_at [OF scoped, of i] by (cases "use_pc s i") auto
  then have "use_cont s = 0" using use_inv_cont [OF inv] by simp
  moreover have "\<not> owes_signal (use_pc s i)" for i
    using pc [of i] by (cases "use_pc s i") auto
  ultimately have awake: "use_pc s i \<noteq> WSleep" for i
    using use_inv_sleep [OF inv, of i] by blast
  have lock: "use_lock s = None"
  proof (cases "use_lock s")
    case (Some i)
    with use_inv_lock [OF inv, of i] have "has_lock (use_pc s i)" by simp
    with pc [of i] awake [of i] show ?thesis by (cases "use_pc s i") auto
  qed simp
  have "use_pc s i = Out" for i
  proof (rule ccontr)
    assume out: "use_pc s i \<noteq> Out"
    with lt have i: "i < n" by blast
    from out pc [of i] awake [of i] have "use_pc s i = Inc_lock \<or> use_pc s i = Wait_lock"
      by (cases "use_pc s i") auto
    then show False
      using work_stepI(1) [OF i IncUse_step.intros(1)] work_stepI(3) [OF i WaitUnusedAndLock_step.intros(1)] lock stuck
      by blast
  qed
  with no_use show ?thesis by (simp add: drained_def)
qed

end
