(* ===== verification/LockProperties.thy ===== *)
theory LockProperties
  imports UseLock
begin

text \<open>What the readers-writer lock promises to the components that share their maps with it.\<close>

text \<open>C11: Mutual exclusion.  When a thread has returned from \<open>WaitUnusedAndLock\<close> and has not called \<open>Unlock\<close>, no
  thread has a use of the lock and no other thread has it, whatever the threads do and however they are scheduled,
  and even when the condition variable wakes without a signal.\<close>

theorem writer_is_alone:
  assumes "use_reachable n s" and "use_pc s i = Locked"
  shows "uses s j = 0 \<and> (use_pc s j = Locked \<longrightarrow> j = i)"
  using locked_is_alone [OF use_reachable_inv [OF assms(1)] assms(2), of j] by blast

definition writer_alone :: use where
  "writer_alone =
     goto 0 Locked (goto 0 Wait_test
       ((goto 0 Wait_mutex ((goto 0 Wait_lock Use_new)\<lparr>use_lock := Some 0\<rparr>))\<lparr>use_mutex := Some 0\<rparr>))"

lemma reach_wait: "use_reachable n s \<Longrightarrow> WaitUnusedAndLock_step i s t \<Longrightarrow> i < n \<Longrightarrow> use_reachable n t"
  and reach_enter: "use_reachable n s \<Longrightarrow> enter_step i s t \<Longrightarrow> i < n \<Longrightarrow> use_reachable n t"
  by (erule use_reachable.step; auto simp: use_step_def work_step_def)+

lemma writer_alone_reachable: "use_reachable 2 writer_alone"
proof -
  let ?a = "goto 0 Wait_lock Use_new"
  let ?b = "goto 0 Wait_mutex (?a\<lparr>use_lock := Some 0\<rparr>)"
  let ?c = "goto 0 Wait_test (?b\<lparr>use_mutex := Some 0\<rparr>)"
  have "enter_step 0 Use_new ?a" by (rule enter_step.intros(2)) (simp add: Use_new_def)
  moreover have "WaitUnusedAndLock_step 0 ?a ?b"
    by (rule WaitUnusedAndLock_step.intros(1); simp add: Use_new_def goto_def)
  moreover have "WaitUnusedAndLock_step 0 ?b ?c"
    by (rule WaitUnusedAndLock_step.intros(2); simp add: Use_new_def goto_def)
  moreover have "WaitUnusedAndLock_step 0 ?c (goto 0 Locked ?c)"
    by (rule WaitUnusedAndLock_step.intros(4); simp add: Use_new_def goto_def)
  ultimately show ?thesis
    unfolding writer_alone_def by (meson reach_wait reach_enter use_reachable.start zero_less_numeral)
qed

theorem writer_is_alone_witness: "use_pc writer_alone 0 = Locked \<and> uses writer_alone 1 = 0"
  using writer_is_alone [OF writer_alone_reachable, of 0 1] by (simp add: writer_alone_def goto_def)

text \<open>C12: Nobody waits for ever.  When the threads do not nest (a thread that has a use asks for nothing), then
  from any state, with no new call made, every run of the threads' steps ends within seventeen steps a thread,
  and it can end only when every thread is out of the lock and its uses are given up: no call is left waiting, no
  wake-up is lost.\<close>

theorem nobody_waits_for_ever:
  assumes s: "scoped_reachable n s" and run: "(work_step n ^^ k) s t"
  shows "k \<le> 17 * n \<and> ((\<exists>u. work_step n t u) \<or> drained t)"
proof -
  note inv = use_reachable_inv [OF scoped_reachable_use_reachable [OF s]] and scoped = scoped_reachable_inv [OF s]
  from work_steps_rank [OF run inv scoped] scoped_rank [OF scoped, of n] stuck_is_drained [of n t]
  show ?thesis by auto
qed

theorem nobody_waits_for_ever_witness:
  "(\<exists>u. work_step 2 (goto 0 Wait_mutex ((goto 0 Wait_lock Use_new)\<lparr>use_lock := Some 0\<rparr>)) u)
   \<or> drained (goto 0 Wait_mutex ((goto 0 Wait_lock Use_new)\<lparr>use_lock := Some 0\<rparr>))"
proof -
  have s: "scoped_reachable 2 (goto 0 Wait_lock Use_new)"
  proof (rule scoped_reachable.step [OF scoped_reachable.start])
    have "enter_step 0 Use_new (goto 0 Wait_lock Use_new)" by (rule enter_step.intros(2)) (simp add: Use_new_def)
    then show "scoped_step 2 Use_new (goto 0 Wait_lock Use_new)"
      unfolding scoped_step_def by (intro disjI2 exI [of _ 0]) (simp add: Use_new_def)
  qed
  have "WaitUnusedAndLock_step 0 (goto 0 Wait_lock Use_new)
      (goto 0 Wait_mutex ((goto 0 Wait_lock Use_new)\<lparr>use_lock := Some 0\<rparr>))"
    by (rule WaitUnusedAndLock_step.intros(1); simp add: Use_new_def goto_def)
  then have "(work_step 2 ^^ 1) (goto 0 Wait_lock Use_new) (goto 0 Wait_mutex ((goto 0 Wait_lock Use_new)\<lparr>use_lock := Some 0\<rparr>))"
    unfolding relpowp_1 work_step_def by (intro exI [of _ 0]) simp
  from nobody_waits_for_ever [OF s this] show ?thesis by blast
qed

end
