(* ===== verification/Fifo.thy ===== *)
theory Fifo
  imports Prelude
begin

text \<open>
  The ring buffer \<open>fifo<T,S>\<close> of \<open>src/mcu/include/fifo.h\<close>, which the audio pipes share with the codecs.  The array
  has the length \<open>S\<close> of its list; the counts are natural numbers, they stay below twice \<open>S\<close>.  The contract of a
  bounded queue is the locale \<open>bounded_queue\<close>, interpreted on the ring buffer at the end.
\<close>

record 'a fifo =
  ff_data :: "'a list"
  ff_ini :: nat
  ff_end :: nat
  ff_len :: nat

text \<open>The array is not initialised: its contents are an argument.\<close>

definition fifo_new :: "'a list \<Rightarrow> 'a fifo" where
  "fifo_new data = \<lparr>ff_data = data, ff_ini = 0, ff_end = 0, ff_len = 0\<rparr>"

definition fifo_size :: "'a fifo \<Rightarrow> nat" where
  "fifo_size f = length (ff_data f)"

definition fifo_length :: "'a fifo \<Rightarrow> nat" where
  "fifo_length f = ff_len f"

text \<open>\<open>push\<close>: the number of elements queued, all of them or none.\<close>

definition fifo_push :: "'a list \<Rightarrow> 'a fifo \<Rightarrow> (nat \<times> 'a fifo) res" where
  "fifo_push xs f =
     (let l = length xs in
      if fifo_size f < ff_len f + l then Ok (0, f)
      else let free = fifo_size f - ff_end f in
        bindR (if free \<ge> l then
            bindR (copy_in (ff_end f) xs (ff_data f)) (\<lambda>d.
            let e = ff_end f + l in Ok (d, if e = fifo_size f then 0 else e))
          else
            bindR (copy_in (ff_end f) (take free xs) (ff_data f)) (\<lambda>d.
            bindR (copy_in 0 (drop free xs) d) (\<lambda>d. Ok (d, l - free)))) (\<lambda>(d, e).
        Ok (l, f\<lparr>ff_data := d, ff_end := e, ff_len := ff_len f + l\<rparr>)))"

text \<open>\<open>pop(out,l,remove)\<close>: the elements copied to \<open>out\<close>, \<open>l\<close> of them or none.\<close>

definition fifo_take :: "nat \<Rightarrow> bool \<Rightarrow> 'a fifo \<Rightarrow> ('a list \<times> 'a fifo) res" where
  "fifo_take l remove f =
     (if ff_len f < l then Ok ([], f)
      else let total = fifo_size f - ff_ini f in
        bindR (if total \<ge> l then
            bindR (copy_out (ff_ini f) l (ff_data f)) (\<lambda>out.
            let i = (if remove then ff_ini f + l else ff_ini f) in Ok (out, if i = fifo_size f then 0 else i))
          else
            bindR (copy_out (ff_ini f) total (ff_data f)) (\<lambda>out.
            bindR (copy_out 0 (l - total) (ff_data f)) (\<lambda>out'.
            Ok (out @ out', if remove then l - total else ff_ini f)))) (\<lambda>(out, i).
        Ok (out, f\<lparr>ff_ini := i, ff_len := if remove then ff_len f - l else ff_len f\<rparr>)))"

definition fifo_pop :: "nat \<Rightarrow> 'a fifo \<Rightarrow> ('a list \<times> 'a fifo) res" where
  "fifo_pop l f = fifo_take l True f"

definition fifo_peek :: "nat \<Rightarrow> 'a fifo \<Rightarrow> ('a list \<times> 'a fifo) res" where
  "fifo_peek l f = fifo_take l False f"

text \<open>\<open>remove\<close> may leave \<open>ini\<close> at the end of the array.\<close>

definition fifo_remove :: "nat \<Rightarrow> 'a fifo \<Rightarrow> nat \<times> 'a fifo" where
  "fifo_remove l f =
     (if ff_len f < l then (0, f)
      else let total = fifo_size f - ff_ini f in
        (l, f\<lparr>ff_ini := if total \<ge> l then ff_ini f + l else l - total, ff_len := ff_len f - l\<rparr>))"

definition fifo_clear :: "'a fifo \<Rightarrow> 'a fifo" where
  "fifo_clear f = f\<lparr>ff_ini := ff_end f, ff_len := 0\<rparr>"

section \<open>A bounded queue\<close>

locale bounded_queue =
  fixes push :: "'a list \<Rightarrow> 'q \<Rightarrow> (nat \<times> 'q) res"
    and pop :: "nat \<Rightarrow> 'q \<Rightarrow> ('a list \<times> 'q) res"
    and remove :: "nat \<Rightarrow> 'q \<Rightarrow> nat \<times> 'q"
    and clear :: "'q \<Rightarrow> 'q"
    and elems :: "'q \<Rightarrow> 'a list"
    and cap :: "'q \<Rightarrow> nat"
    and wf :: "'q \<Rightarrow> bool"
  assumes push_full: "wf q \<Longrightarrow> cap q < length (elems q) + length xs \<Longrightarrow> push xs q = Ok (0, q)"
    and push_fits: "wf q \<Longrightarrow> length (elems q) + length xs \<le> cap q \<Longrightarrow>
      \<exists>q'. push xs q = Ok (length xs, q') \<and> wf q' \<and> elems q' = elems q @ xs \<and> cap q' = cap q"
    and pop_short: "wf q \<Longrightarrow> length (elems q) < n \<Longrightarrow> pop n q = Ok ([], q)"
    and pop_some: "wf q \<Longrightarrow> n \<le> length (elems q) \<Longrightarrow>
      \<exists>q'. pop n q = Ok (take n (elems q), q') \<and> wf q' \<and> elems q' = drop n (elems q) \<and> cap q' = cap q"
    and remove_short: "wf q \<Longrightarrow> length (elems q) < n \<Longrightarrow> remove n q = (0, q)"
    and remove_some: "wf q \<Longrightarrow> n \<le> length (elems q) \<Longrightarrow>
      \<exists>q'. remove n q = (n, q') \<and> wf q' \<and> elems q' = drop n (elems q) \<and> cap q' = cap q"
    and clear_all: "wf q \<Longrightarrow> wf (clear q) \<and> elems (clear q) = [] \<and> cap (clear q) = cap q"
    and within: "wf q \<Longrightarrow> length (elems q) \<le> cap q"
begin

text \<open>As much as there is, at most \<open>n\<close>.\<close>

lemma pop_min:
  "wf q \<Longrightarrow> \<exists>q'. pop (min (length (elems q)) n) q = Ok (take n (elems q), q') \<and> wf q' \<and> elems q' = drop n (elems q) \<and>
     cap q' = cap q"
  using pop_some [of q "min (length (elems q)) n"] by (cases "n \<le> length (elems q)") (auto simp: min_def)

text \<open>Room is made by dropping the oldest elements.\<close>

lemma make_room:
  assumes wf: "wf q" and n: "length xs \<le> cap q"
  shows "\<exists>q'. push xs (snd (remove (length (elems q) + length xs - cap q) q)) = Ok (length xs, q') \<and> wf q' \<and>
    elems q' = drop (length (elems q) + length xs - cap q) (elems q) @ xs \<and> cap q' = cap q"
proof -
  let ?n = "length (elems q) + length xs - cap q"
  from n have "?n \<le> length (elems q)" by simp
  from remove_some [OF wf this] obtain r
    where r: "remove ?n q = (?n, r)" "wf r" "elems r = drop ?n (elems q)" "cap r = cap q" by blast
  from within [OF wf] n r have "length (elems r) + length xs \<le> cap r" by simp
  from push_fits [OF r(2) this] r show ?thesis by auto
qed

text \<open>A queue that cannot take the elements is emptied first.\<close>

lemma clear_push:
  assumes wf: "wf q" and n: "length xs \<le> cap q"
  shows "\<exists>q'. push xs (if cap q < length (elems q) + length xs then clear q else q) = Ok (length xs, q') \<and> wf q' \<and>
    elems q' = (if cap q < length (elems q) + length xs then [] else elems q) @ xs \<and> cap q' = cap q"
proof (cases "cap q < length (elems q) + length xs")
  case True
  from clear_all [OF wf] n have "length (elems (clear q)) + length xs \<le> cap (clear q)" by simp
  from push_fits [OF _ this] clear_all [OF wf] True show ?thesis by auto
next
  case False
  with push_fits [OF wf, of xs] show ?thesis by auto
qed

end

section \<open>The ring buffer is a bounded queue\<close>

definition fifo_wf :: "'a fifo \<Rightarrow> bool" where
  "fifo_wf f \<longleftrightarrow> 0 < fifo_size f \<and> ff_ini f \<le> fifo_size f \<and> ff_len f \<le> fifo_size f \<and>
     ff_end f = (ff_ini f + ff_len f) mod fifo_size f"

definition fifo_elems :: "'a fifo \<Rightarrow> 'a list" where
  "fifo_elems f = map (\<lambda>k. ff_data f ! ((ff_ini f + k) mod fifo_size f)) [0..<ff_len f]"

lemma fifo_new_wf: "data \<noteq> [] \<Longrightarrow> fifo_wf (fifo_new data)"
  and fifo_new_elems: "fifo_elems (fifo_new data) = []"
  by (simp_all add: fifo_wf_def fifo_new_def fifo_elems_def fifo_size_def)

lemma length_fifo_elems [simp]: "length (fifo_elems f) = ff_len f"
  by (simp add: fifo_elems_def)

lemma ring_mod: "x < 2 * n \<Longrightarrow> x mod n = (if x < n then x else x - n)" for x n :: nat
  by (simp add: mod_if)

lemma ring_distance:
  fixes i k l n :: nat
  assumes "i \<le> n" "k < n" "l \<le> n" "0 < n"
  shows "((i + k) mod n + n - (i + l) mod n) mod n = (k + n - l) mod n"
proof -
  have "(i + l) mod n < n" using assms(4) by simp
  then have "int (((i + k) mod n + n - (i + l) mod n) mod n) =
      ((int i + int k) mod int n + int n - (int i + int l) mod int n) mod int n"
    by (simp add: of_nat_diff zmod_int)
  also have "\<dots> = ((int i + int k) + int n - (int i + int l)) mod int n"
    by (metis mod_add_left_eq mod_diff_left_eq mod_diff_right_eq)
  also have "\<dots> = int ((k + n - l) mod n)" using assms(3) by (simp add: zmod_int of_nat_diff algebra_simps)
  finally show ?thesis by simp
qed

text \<open>Writing \<open>xs\<close> from the position \<open>e\<close> on, around the end of the array.\<close>

definition ring_write :: "nat \<Rightarrow> 'a list \<Rightarrow> 'a list \<Rightarrow> 'a list" where
  "ring_write e xs d = map (\<lambda>m. let j = (m + length d - e) mod length d in if j < length xs then xs ! j else d ! m)
     [0..<length d]"

lemma ring_write_nth:
  "m < length d \<Longrightarrow> ring_write e xs d ! m =
     (let j = (m + length d - e) mod length d in if j < length xs then xs ! j else d ! m)"
  by (simp add: ring_write_def Let_def)

lemma ring_write_flat:
  assumes "e + length xs \<le> length d" "e < length d"
  shows "take e d @ xs @ drop (e + length xs) d = ring_write e xs d"
proof (rule nth_equalityI)
  fix m
  assume "m < length (take e d @ xs @ drop (e + length xs) d)"
  with assms have m: "m < length d" by simp
  then have "(m + length d - e) mod length d = (if m < e then m + length d - e else m - e)"
    using assms(2) by (simp add: mod_if)
  moreover have "m < e \<Longrightarrow> \<not> m + length d - e < length xs" using assms by linarith
  ultimately show "(take e d @ xs @ drop (e + length xs) d) ! m = ring_write e xs d ! m"
    using m assms by (simp add: ring_write_def nth_append Let_def)
qed (use assms in \<open>simp add: ring_write_def\<close>)

lemma ring_write_round:
  fixes d :: "'a list"
  assumes "length d < e + length xs" "e < length d" "length xs \<le> length d"
  defines "n \<equiv> length d - e"
  shows "drop n xs @ drop (length xs - n) (take e d @ take n xs) = ring_write e xs d"
proof (rule nth_equalityI)
  show "length (drop n xs @ drop (length xs - n) (take e d @ take n xs)) = length (ring_write e xs d)"
    using assms by (simp add: ring_write_def)
  fix m
  assume "m < length (drop n xs @ drop (length xs - n) (take e d @ take n xs))"
  with assms have m: "m < length d" by simp
  then have "(m + length d - e) mod length d = (if m < e then m + length d - e else m - e)"
    using assms(2) by (simp add: mod_if)
  with m have w: "ring_write e xs d ! m =
      (let j = (if m < e then m + length d - e else m - e) in if j < length xs then xs ! j else d ! m)"
    by (simp add: ring_write_nth)
  show "(drop n xs @ drop (length xs - n) (take e d @ take n xs)) ! m = ring_write e xs d ! m"
  proof (cases "m < length xs - n")
    case True
    with assms have "m < e" "n + m = m + length d - e" "m + length d - e < length xs" by linarith+
    with True w show ?thesis by (simp add: nth_append)
  next
    case False
    have "(drop n xs @ drop (length xs - n) (take e d @ take n xs)) ! m =
        drop (length xs - n) (take e d @ take n xs) ! (m - (length xs - n))"
      using False by (simp only: nth_append length_drop if_False)
    also have "\<dots> = (take e d @ take n xs) ! m"
      using False assms by (subst nth_drop) (simp_all add: min_def)
    finally have "(drop n xs @ drop (length xs - n) (take e d @ take n xs)) ! m = (take e d @ take n xs) ! m" .
    moreover have "m < e \<Longrightarrow> \<not> m + length d - e < length xs" "m - e < length xs" "\<not> m < e \<Longrightarrow> m - e < n"
      using False assms m by linarith+
    ultimately show ?thesis using w assms by (auto simp: nth_append)
  qed
qed

lemma fifo_wf_end: "fifo_wf f \<Longrightarrow> ff_end f < fifo_size f"
  by (simp add: fifo_wf_def)

lemma fifo_push_full: "fifo_size f < ff_len f + length xs \<Longrightarrow> fifo_push xs f = Ok (0, f)"
  by (simp add: fifo_push_def Let_def)

lemma fifo_push_eq:
  assumes wf: "fifo_wf f" and fits: "ff_len f + length xs \<le> fifo_size f"
  shows "fifo_push xs f = Ok (length xs, f\<lparr>ff_data := ring_write (ff_end f) xs (ff_data f),
      ff_end := (ff_end f + length xs) mod fifo_size f, ff_len := ff_len f + length xs\<rparr>)"
proof -
  note e = fifo_wf_end [OF wf]
  show ?thesis
  proof (cases "length xs \<le> fifo_size f - ff_end f")
    case True
    with e have le: "ff_end f + length xs \<le> length (ff_data f)" by (simp add: fifo_size_def)
    with e have "copy_in (ff_end f) xs (ff_data f) = Ok (ring_write (ff_end f) xs (ff_data f))"
      by (simp add: copy_in_def fifo_size_def ring_write_flat)
    moreover from le have "(ff_end f + length xs) mod fifo_size f =
        (if ff_end f + length xs = fifo_size f then 0 else ff_end f + length xs)"
      by (simp add: fifo_size_def)
    ultimately show ?thesis using True fits by (simp add: fifo_push_def Let_def)
  next
    case False
    let ?n = "fifo_size f - ff_end f"
    have d: "length (ff_data f) = fifo_size f" by (simp add: fifo_size_def)
    with e False have "copy_in (ff_end f) (take ?n xs) (ff_data f) = Ok (take (ff_end f) (ff_data f) @ take ?n xs)"
      by (simp add: copy_in_def)
    moreover have "copy_in 0 (drop ?n xs) (take (ff_end f) (ff_data f) @ take ?n xs) =
        Ok (ring_write (ff_end f) xs (ff_data f))"
      using ring_write_round [of "ff_data f" "ff_end f" xs] e False fits d by (simp add: copy_in_def)
    moreover have "(ff_end f + length xs) mod fifo_size f = length xs - ?n"
    proof -
      have "ff_end f + length xs < 2 * fifo_size f" "\<not> ff_end f + length xs < fifo_size f" using e False fits by linarith+
      then show ?thesis using e by (simp add: ring_mod)
    qed
    ultimately show ?thesis using False fits by (simp add: fifo_push_def Let_def)
  qed
qed

lemma ring_write_length [simp]: "length (ring_write e xs d) = length d"
  by (simp add: ring_write_def)

lemma ring_write_elems:
  assumes wf: "fifo_wf f" and fits: "ff_len f + length xs \<le> fifo_size f" and k: "k < ff_len f + length xs"
  shows "ring_write (ff_end f) xs (ff_data f) ! ((ff_ini f + k) mod fifo_size f) = (fifo_elems f @ xs) ! k"
proof -
  let ?S = "fifo_size f" let ?m = "(ff_ini f + k) mod ?S"
  from wf have S: "0 < ?S" and i: "ff_ini f \<le> ?S" and l: "ff_len f \<le> ?S"
    and e: "ff_end f = (ff_ini f + ff_len f) mod ?S" by (auto simp: fifo_wf_def)
  from k fits have kS: "k < ?S" by simp
  have "(?m + ?S - ff_end f) mod ?S = (k + ?S - ff_len f) mod ?S"
    unfolding e by (rule ring_distance [OF i kS l S])
  also have "\<dots> = (if k < ff_len f then k + ?S - ff_len f else k - ff_len f)"
    using kS l by (simp add: mod_if)
  finally have j: "(?m + ?S - ff_end f) mod ?S = \<dots>" .
  have m: "?m < ?S" using S by simp
  then have w: "ring_write (ff_end f) xs (ff_data f) ! ?m =
      (let j = (?m + ?S - ff_end f) mod ?S in if j < length xs then xs ! j else ff_data f ! ?m)"
    using ring_write_nth [of ?m "ff_data f" "ff_end f" xs] by (simp only: fifo_size_def)
  show ?thesis
  proof (cases "k < ff_len f")
    case True
    with fits have "\<not> k + ?S - ff_len f < length xs" by linarith
    with True w j show ?thesis by (simp add: Let_def nth_append fifo_elems_def)
  next
    case False
    with k have "k - ff_len f < length xs" by linarith
    with False w j show ?thesis by (simp add: Let_def nth_append)
  qed
qed

lemma fifo_push_fits:
  assumes wf: "fifo_wf f" and fits: "ff_len f + length xs \<le> fifo_size f"
  shows "\<exists>g. fifo_push xs f = Ok (length xs, g) \<and> fifo_wf g \<and> fifo_elems g = fifo_elems f @ xs \<and>
    fifo_size g = fifo_size f"
proof -
  let ?g = "f\<lparr>ff_data := ring_write (ff_end f) xs (ff_data f), ff_end := (ff_end f + length xs) mod fifo_size f,
      ff_len := ff_len f + length xs\<rparr>"
  have S: "fifo_size ?g = fifo_size f" by (simp add: fifo_size_def)
  have "fifo_elems ?g = fifo_elems f @ xs"
  proof (rule nth_equalityI)
    fix k
    assume "k < length (fifo_elems ?g)"
    then have k: "k < ff_len f + length xs" by simp
    then have "fifo_elems ?g ! k = ring_write (ff_end f) xs (ff_data f) ! ((ff_ini f + k) mod fifo_size f)"
      by (simp add: fifo_elems_def S)
    also have "\<dots> = (fifo_elems f @ xs) ! k" by (rule ring_write_elems [OF wf fits k])
    finally show "fifo_elems ?g ! k = (fifo_elems f @ xs) ! k" .
  qed simp
  moreover have "fifo_wf ?g"
    using wf fits mod_add_left_eq [of "ff_ini f + ff_len f" "fifo_size f" "length xs"]
    by (simp add: fifo_wf_def fifo_size_def add.assoc)
  ultimately show ?thesis using fifo_push_eq [OF wf fits] S by blast
qed

text \<open>Reading \<open>l\<close> elements from the position \<open>i\<close> on, around the end of the array.\<close>

lemma ring_read:
  assumes "i \<le> length d" "l \<le> length d" "0 < length d"
  shows "map (\<lambda>k. d ! ((i + k) mod length d)) [0..<l] =
    (if l \<le> length d - i then take l (drop i d) else drop i d @ take (l - (length d - i)) d)"
proof (rule nth_equalityI)
  fix k
  assume "k < length (map (\<lambda>k. d ! ((i + k) mod length d)) [0..<l])"
  then have "k < l" by simp
  with assms have "(i + k) mod length d = (if i + k < length d then i + k else i + k - length d)"
    by (simp add: mod_if)
  with \<open>k < l\<close> assms show "map (\<lambda>k. d ! ((i + k) mod length d)) [0..<l] ! k =
      (if l \<le> length d - i then take l (drop i d) else drop i d @ take (l - (length d - i)) d) ! k"
    by (auto simp: nth_append add.commute)
qed (use assms in auto)

lemma take_fifo_elems:
  assumes "fifo_wf f" "l \<le> ff_len f"
  shows "take l (fifo_elems f) = (if l \<le> fifo_size f - ff_ini f then take l (drop (ff_ini f) (ff_data f))
     else drop (ff_ini f) (ff_data f) @ take (l - (fifo_size f - ff_ini f)) (ff_data f))"
  using assms ring_read [of "ff_ini f" "ff_data f" l]
  by (simp add: fifo_elems_def fifo_wf_def fifo_size_def take_map min_def)

lemma drop_fifo_elems:
  assumes wf: "fifo_wf f" and l: "l \<le> ff_len f" and i: "i mod fifo_size f = (ff_ini f + l) mod fifo_size f"
    and le: "i \<le> fifo_size f"
  shows "fifo_elems (f\<lparr>ff_ini := i, ff_len := ff_len f - l\<rparr>) = drop l (fifo_elems f)"
    "fifo_wf (f\<lparr>ff_ini := i, ff_len := ff_len f - l\<rparr>)"
    "fifo_size (f\<lparr>ff_ini := i, ff_len := ff_len f - l\<rparr>) = fifo_size f"
proof -
  show S: "fifo_size (f\<lparr>ff_ini := i, ff_len := ff_len f - l\<rparr>) = fifo_size f" by (simp add: fifo_size_def)
  have m: "(i + k) mod fifo_size f = (ff_ini f + (l + k)) mod fifo_size f" for k
    using mod_add_cong [OF i refl, of k] by (simp add: add.assoc)
  show "fifo_elems (f\<lparr>ff_ini := i, ff_len := ff_len f - l\<rparr>) = drop l (fifo_elems f)"
  proof (rule nth_equalityI)
    fix k
    assume "k < length (fifo_elems (f\<lparr>ff_ini := i, ff_len := ff_len f - l\<rparr>))"
    then have "k < ff_len f - l" "l + k < ff_len f" using l by simp_all
    then show "fifo_elems (f\<lparr>ff_ini := i, ff_len := ff_len f - l\<rparr>) ! k = drop l (fifo_elems f) ! k"
      using l by (simp add: fifo_elems_def S m)
  qed (use l in simp)
  show "fifo_wf (f\<lparr>ff_ini := i, ff_len := ff_len f - l\<rparr>)"
    using wf le l m [of "ff_len f - l"] by (simp add: fifo_wf_def S) linarith
qed

lemma fifo_pop_short: "ff_len f < l \<Longrightarrow> fifo_pop l f = Ok ([], f)"
  by (simp add: fifo_pop_def fifo_take_def)

lemma around: "i \<le> n \<Longrightarrow> n - i \<le> l \<Longrightarrow> (l - (n - i)) mod n = (i + l) mod n" for i n l :: nat
  using mod_add_self2 [of "l - (n - i)" n] by (simp add: add.commute)

text \<open>The next position of the front, when \<open>l\<close> elements are taken.\<close>

lemma fifo_take_eq:
  assumes wf: "fifo_wf f" and l: "l \<le> ff_len f"
  shows "\<exists>i. fifo_take l remove f = Ok (take l (fifo_elems f),
      f\<lparr>ff_ini := i, ff_len := if remove then ff_len f - l else ff_len f\<rparr>) \<and>
    i \<le> fifo_size f \<and> i mod fifo_size f = (ff_ini f + (if remove then l else 0)) mod fifo_size f"
proof (cases "l \<le> fifo_size f - ff_ini f")
  case True
  let ?i = "ff_ini f + (if remove then l else 0)"
  from True wf have le: "ff_ini f + l \<le> length (ff_data f)" by (auto simp: fifo_wf_def fifo_size_def)
  from le have "copy_out (ff_ini f) l (ff_data f) = Ok (take l (drop (ff_ini f) (ff_data f)))"
    by (simp add: copy_out_def)
  with True l take_fifo_elems [OF wf l] have "fifo_take l remove f = Ok (take l (fifo_elems f),
      f\<lparr>ff_ini := if ?i = fifo_size f then 0 else ?i, ff_len := if remove then ff_len f - l else ff_len f\<rparr>)"
    by (simp add: fifo_take_def Let_def)
  moreover have "?i \<le> fifo_size f" using le by (simp add: fifo_size_def)
  ultimately show ?thesis by (intro exI [of _ "if ?i = fifo_size f then 0 else ?i"]) auto
next
  case False
  let ?n = "fifo_size f - ff_ini f"
  from wf l have le: "l \<le> fifo_size f" "ff_ini f \<le> fifo_size f" by (auto simp: fifo_wf_def)
  then have "copy_out (ff_ini f) ?n (ff_data f) = Ok (drop (ff_ini f) (ff_data f))"
    "copy_out 0 (l - ?n) (ff_data f) = Ok (take (l - ?n) (ff_data f))"
    by (simp_all add: copy_out_def fifo_size_def)
  then have "fifo_take l remove f = Ok (take l (fifo_elems f),
      f\<lparr>ff_ini := if remove then l - ?n else ff_ini f, ff_len := if remove then ff_len f - l else ff_len f\<rparr>)"
    using False l take_fifo_elems [OF wf l] by (simp add: fifo_take_def Let_def)
  moreover have "(l - ?n) mod fifo_size f = (ff_ini f + l) mod fifo_size f"
    using le False by (intro around) simp_all
  ultimately show ?thesis using False le
    by (intro exI [of _ "if remove then l - ?n else ff_ini f"]) auto
qed

lemma fifo_pop_some:
  assumes wf: "fifo_wf f" and l: "l \<le> ff_len f"
  shows "\<exists>g. fifo_pop l f = Ok (take l (fifo_elems f), g) \<and> fifo_wf g \<and> fifo_elems g = drop l (fifo_elems f) \<and>
    fifo_size g = fifo_size f"
proof -
  from fifo_take_eq [OF wf l, of True] obtain i where
    p: "fifo_pop l f = Ok (take l (fifo_elems f), f\<lparr>ff_ini := i, ff_len := ff_len f - l\<rparr>)" and
    i: "i \<le> fifo_size f" "i mod fifo_size f = (ff_ini f + l) mod fifo_size f"
    by (auto simp: fifo_pop_def)
  from drop_fifo_elems [OF wf l i(2,1)] p show ?thesis by blast
qed

lemma fifo_peek_some:
  assumes wf: "fifo_wf f" and l: "l \<le> ff_len f"
  shows "\<exists>g. fifo_peek l f = Ok (take l (fifo_elems f), g) \<and> fifo_wf g \<and> fifo_elems g = fifo_elems f \<and>
    fifo_size g = fifo_size f"
proof -
  from fifo_take_eq [OF wf l, of False] obtain i where
    p: "fifo_peek l f = Ok (take l (fifo_elems f), f\<lparr>ff_ini := i, ff_len := ff_len f\<rparr>)" and
    i: "i \<le> fifo_size f" "i mod fifo_size f = (ff_ini f + 0) mod fifo_size f"
    by (auto simp: fifo_peek_def)
  from drop_fifo_elems [OF wf le0 i(2,1)] p show ?thesis by auto
qed

lemma fifo_remove_some:
  assumes wf: "fifo_wf f" and l: "l \<le> ff_len f"
  shows "\<exists>g. fifo_remove l f = (l, g) \<and> fifo_wf g \<and> fifo_elems g = drop l (fifo_elems f) \<and> fifo_size g = fifo_size f"
proof -
  let ?i = "if fifo_size f - ff_ini f \<ge> l then ff_ini f + l else l - (fifo_size f - ff_ini f)"
  from wf l have le: "l \<le> fifo_size f" "ff_ini f \<le> fifo_size f" by (auto simp: fifo_wf_def)
  then have "?i \<le> fifo_size f" "?i mod fifo_size f = (ff_ini f + l) mod fifo_size f"
    using around [of "ff_ini f" "fifo_size f" l] by auto
  from drop_fifo_elems [OF wf l this(2,1)] show ?thesis using l by (auto simp: fifo_remove_def Let_def)
qed

lemma fifo_clear_all:
  "fifo_wf f \<Longrightarrow> fifo_wf (fifo_clear f) \<and> fifo_elems (fifo_clear f) = [] \<and> fifo_size (fifo_clear f) = fifo_size f"
  by (auto simp: fifo_wf_def fifo_clear_def fifo_elems_def fifo_size_def)

lemma fifo_remove_short: "ff_len f < l \<Longrightarrow> fifo_remove l f = (0, f)"
  by (simp add: fifo_remove_def)

lemma fifo_within: "fifo_wf f \<Longrightarrow> ff_len f \<le> fifo_size f"
  by (simp add: fifo_wf_def)

interpretation ring: bounded_queue fifo_push fifo_pop fifo_remove fifo_clear fifo_elems fifo_size fifo_wf
proof (unfold_locales, unfold length_fifo_elems)
  fix q :: "'a fifo" and xs :: "'a list" and n
  show "fifo_size q < ff_len q + length xs \<Longrightarrow> fifo_push xs q = Ok (0, q)" by (rule fifo_push_full)
  show "ff_len q < n \<Longrightarrow> fifo_pop n q = Ok ([], q)" by (rule fifo_pop_short)
  show "ff_len q < n \<Longrightarrow> fifo_remove n q = (0, q)" by (rule fifo_remove_short)
  assume wf: "fifo_wf q"
  show "ff_len q \<le> fifo_size q" using wf by (rule fifo_within)
  show "fifo_wf (fifo_clear q) \<and> fifo_elems (fifo_clear q) = [] \<and> fifo_size (fifo_clear q) = fifo_size q"
    using wf by (rule fifo_clear_all)
  show "ff_len q + length xs \<le> fifo_size q \<Longrightarrow>
      \<exists>q'. fifo_push xs q = Ok (length xs, q') \<and> fifo_wf q' \<and> fifo_elems q' = fifo_elems q @ xs \<and> fifo_size q' = fifo_size q"
    using wf by (rule fifo_push_fits)
  assume n: "n \<le> ff_len q"
  show "\<exists>q'. fifo_pop n q = Ok (take n (fifo_elems q), q') \<and> fifo_wf q' \<and> fifo_elems q' = drop n (fifo_elems q) \<and>
      fifo_size q' = fifo_size q"
    using wf n by (rule fifo_pop_some)
  show "\<exists>q'. fifo_remove n q = (n, q') \<and> fifo_wf q' \<and> fifo_elems q' = drop n (fifo_elems q) \<and> fifo_size q' = fifo_size q"
    using wf n by (rule fifo_remove_some)
qed

end
