(* ===== verification/QueueProperties.thy ===== *)
theory QueueProperties
  imports Fifo
begin

text \<open>The ring buffer against a list with a capacity: the same calls give the same results.\<close>

datatype 'a queue_call = QPush "'a list" | QPop nat | QPeek nat | QRemove nat | QClear

text \<open>The result of a call: a count, and the elements copied out.\<close>

fun fifo_call :: "'a queue_call \<Rightarrow> 'a fifo \<Rightarrow> ((nat \<times> 'a list) \<times> 'a fifo) res" where
  "fifo_call (QPush xs) f = bindR (fifo_push xs f) (\<lambda>(n, f). Ok ((n, []), f))"
| "fifo_call (QPop n) f = bindR (fifo_pop n f) (\<lambda>(out, f). Ok ((length out, out), f))"
| "fifo_call (QPeek n) f = bindR (fifo_peek n f) (\<lambda>(out, f). Ok ((length out, out), f))"
| "fifo_call (QRemove n) f = Ok (case fifo_remove n f of (k, f) \<Rightarrow> ((k, []), f))"
| "fifo_call QClear f = Ok ((0, []), fifo_clear f)"

fun fifo_calls :: "'a queue_call list \<Rightarrow> 'a fifo \<Rightarrow> ((nat \<times> 'a list) list \<times> 'a fifo) res" where
  "fifo_calls [] f = Ok ([], f)"
| "fifo_calls (c # cs) f = bindR (fifo_call c f) (\<lambda>(r, f). bindR (fifo_calls cs f) (\<lambda>(rs, f). Ok (r # rs, f)))"

fun list_call :: "nat \<Rightarrow> 'a queue_call \<Rightarrow> 'a list \<Rightarrow> (nat \<times> 'a list) \<times> 'a list" where
  "list_call cap (QPush xs) q = (if length q + length xs \<le> cap then ((length xs, []), q @ xs) else ((0, []), q))"
| "list_call cap (QPop n) q = (if n \<le> length q then ((n, take n q), drop n q) else ((0, []), q))"
| "list_call cap (QPeek n) q = (if n \<le> length q then ((n, take n q), q) else ((0, []), q))"
| "list_call cap (QRemove n) q = (if n \<le> length q then ((n, []), drop n q) else ((0, []), q))"
| "list_call cap QClear q = ((0, []), [])"

fun list_calls :: "nat \<Rightarrow> 'a queue_call list \<Rightarrow> 'a list \<Rightarrow> (nat \<times> 'a list) list \<times> 'a list" where
  "list_calls cap [] q = ([], q)"
| "list_calls cap (c # cs) q = (let (r, q) = list_call cap c q; (rs, q) = list_calls cap cs q in (r # rs, q))"

lemma fifo_call_list:
  assumes wf: "fifo_wf f"
  shows "\<exists>g. fifo_call c f = Ok (fst (list_call (fifo_size f) c (fifo_elems f)), g) \<and> fifo_wf g \<and>
    fifo_elems g = snd (list_call (fifo_size f) c (fifo_elems f)) \<and> fifo_size g = fifo_size f"
proof (cases c)
  case (QPush xs)
  with ring.push_fits [OF wf, of xs] ring.push_full [OF wf, of xs] wf show ?thesis
    by (cases "length (fifo_elems f) + length xs \<le> fifo_size f") auto
next
  case (QPop n)
  with ring.pop_some [OF wf, of n] ring.pop_short [OF wf, of n] wf show ?thesis
    by (cases "n \<le> length (fifo_elems f)") auto
next
  case (QPeek n)
  have "\<not> n \<le> ff_len f \<Longrightarrow> fifo_peek n f = Ok ([], f)" by (simp add: fifo_peek_def fifo_take_def)
  with QPeek fifo_peek_some [OF wf, of n] wf show ?thesis
    by (cases "n \<le> ff_len f") auto
next
  case (QRemove n)
  with ring.remove_some [OF wf, of n] ring.remove_short [OF wf, of n] wf show ?thesis
    by (cases "n \<le> length (fifo_elems f)") auto
next
  case QClear
  with ring.clear_all [OF wf] show ?thesis by simp
qed

lemma fifo_calls_list:
  "fifo_wf f \<Longrightarrow> \<exists>g. fifo_calls cs f = Ok (fst (list_calls (fifo_size f) cs (fifo_elems f)), g) \<and>
     fifo_elems g = snd (list_calls (fifo_size f) cs (fifo_elems f))"
proof (induction cs arbitrary: f)
  case (Cons c cs)
  from fifo_call_list [OF Cons.prems, of c] obtain g where
    g: "fifo_call c f = Ok (fst (list_call (fifo_size f) c (fifo_elems f)), g)" "fifo_wf g"
    "fifo_elems g = snd (list_call (fifo_size f) c (fifo_elems f))" "fifo_size g = fifo_size f" by blast
  from Cons.IH [OF g(2)] g show ?case by (auto simp: Let_def case_prod_beta)
qed simp

lemma fifo_new_size: "fifo_size (fifo_new data) = length data"
  by (simp add: fifo_size_def fifo_new_def)

text \<open>C30: The ring buffer is a bounded queue.  Whatever is pushed, popped, peeked, removed and cleared, and however often
  the positions have gone around the array, each call returns what it would on a list that holds at most \<open>S\<close> elements:
  all that is asked for or nothing, in the order it came in, and never what was in the memory before.\<close>

theorem ring_is_a_bounded_queue:
  assumes "data \<noteq> []"
  shows "\<exists>f. fifo_calls cs (fifo_new data) = Ok (fst (list_calls (length data) cs []), f) \<and>
    fifo_elems f = snd (list_calls (length data) cs [])"
  using fifo_calls_list [OF fifo_new_wf [OF assms], of cs] unfolding fifo_new_elems fifo_new_size by blast

theorem ring_is_a_bounded_queue_witness:
  "\<exists>f. fifo_calls [QPush [1, 2], QPop 1, QPush [3, 4], QPush [5], QPeek 3] (fifo_new [9, 9, 9::nat]) =
     Ok ([(2, []), (1, [1]), (2, []), (0, []), (3, [2, 3, 4])], f) \<and> fifo_elems f = [2, 3, 4]"
proof -
  have "list_calls (length [9, 9, 9::nat]) [QPush [1, 2], QPop 1, QPush [3, 4], QPush [5], QPeek 3] [] =
      ([(2, []), (1, [1]), (2, []), (0, []), (3, [2, 3, 4])], [2, 3, 4::nat])" by simp
  with ring_is_a_bounded_queue [of "[9, 9, 9::nat]" "[QPush [1, 2], QPop 1, QPush [3, 4], QPush [5], QPeek 3]"]
  show ?thesis by (simp only: fst_conv snd_conv list.distinct not_False_eq_True)
qed

end
