(* ===== verification/AudioPipes.thy ===== *)
theory AudioPipes
  imports Fifo Bytes
begin

text \<open>
  The pipes between a participant and the audio mixer: what the participant plays goes through a \<open>PipeAudioOutput\<close>
  to the mixer, what the mixer makes for it goes through a \<open>PipeAudioInput\<close> (\<open>src/mcu/src/pipeaudioinput.cpp\<close>,
  \<open>pipeaudiooutput.cpp\<close>, \<open>audiotransrater.cpp\<close>, \<open>vad.cpp\<close> built with \<open>VADWEBRTC\<close>).  A call holds the mutex of the
  pipe, so it is one step; \<open>RecBuffer\<close>, which waits, is one step for each time its loop tests the queue, and
  \<open>PlayBuffer\<close> is two, what it does before it takes the mutex and what it does with it.

  Outside of these sources, and arguments here: the speex resampler, the voice detector of WebRTC, and the
  loudness of a frame, which \<open>PlayBuffer\<close> computes in \<open>double\<close>.
\<close>

type_synonym SWORD = "16 word"

section \<open>The change of rate\<close>

record 's speex =
  mcu_resampler_init :: "DWORD \<Rightarrow> DWORD \<Rightarrow> 's option"
  mcu_resampler_process :: "'s \<Rightarrow> SWORD list \<Rightarrow> (SWORD list \<times> 's) option"

type_synonym 's transrater = "'s option"

definition Transrater_IsOpen :: "'s transrater \<Rightarrow> bool" where
  "Transrater_IsOpen t = (t \<noteq> None)"

definition Transrater_Close :: "'s transrater \<Rightarrow> 's transrater" where
  "Transrater_Close t = None"

definition Transrater_Open :: "'s speex \<Rightarrow> DWORD \<Rightarrow> DWORD \<Rightarrow> 's transrater \<Rightarrow> 's transrater" where
  "Transrater_Open rs inputRate outputRate t =
     (let t = Transrater_Close t in
      if inputRate = 0 \<or> outputRate = 0 then t
      else if inputRate = outputRate then t
      else mcu_resampler_init rs inputRate outputRate)"

definition ProcessBuffer :: "'s speex \<Rightarrow> SWORD list \<Rightarrow> 's transrater \<Rightarrow> (SWORD list \<times> 's transrater) option res" where
  "ProcessBuffer rs xs t =
     (case t of
        None \<Rightarrow> Fault NullDeref
      | Some s \<Rightarrow> Ok (case mcu_resampler_process rs s xs of None \<Rightarrow> None | Some (ys, s) \<Rightarrow> Some (ys, Some s)))"

section \<open>From the mixer to the participant\<close>

record 's audio_in =
  pi_fifo :: "SWORD fifo"
  pi_recording :: bool
  pi_inited :: bool
  pi_canceled :: bool
  pi_transrater :: "'s transrater"
  pi_recordRate :: DWORD
  pi_nativeRate :: DWORD

text \<open>What is not initialised is an argument.\<close>

definition PipeAudioInput_new :: "SWORD list \<Rightarrow> DWORD \<Rightarrow> 's audio_in" where
  "PipeAudioInput_new junk rate =
     \<lparr>pi_fifo = fifo_new junk, pi_recording = False, pi_inited = False, pi_canceled = False, pi_transrater = None,
      pi_recordRate = rate, pi_nativeRate = 8000\<rparr>"

definition PipeInput_Init :: "DWORD \<Rightarrow> 's audio_in \<Rightarrow> 's audio_in" where
  "PipeInput_Init rate p = p\<lparr>pi_inited := True, pi_nativeRate := rate\<rparr>"

definition PipeInput_End :: "'s audio_in \<Rightarrow> 's audio_in" where
  "PipeInput_End p = p\<lparr>pi_inited := False\<rparr>"

text \<open>No return statement.\<close>

definition ClearBuffer :: "no_return \<Rightarrow> 's audio_in \<Rightarrow> 's audio_in res" where
  "ClearBuffer u p = ends_without_return u (p\<lparr>pi_fifo := fifo_clear (pi_fifo p)\<rparr>)"

definition StartRecording :: "'s speex \<Rightarrow> DWORD \<Rightarrow> 's audio_in \<Rightarrow> 's audio_in" where
  "StartRecording rs rate p =
     p\<lparr>pi_recordRate := rate, pi_transrater := Transrater_Open rs (pi_nativeRate p) rate (pi_transrater p),
       pi_recording := True\<rparr>"

definition StopRecording :: "'s audio_in \<Rightarrow> 's audio_in" where
  "StopRecording p = p\<lparr>pi_recording := False, pi_transrater := Transrater_Close (pi_transrater p)\<rparr>"

definition CancelRecBuffer :: "'s audio_in \<Rightarrow> 's audio_in" where
  "CancelRecBuffer p = p\<lparr>pi_canceled := True\<rparr>"

text \<open>One pass of the loop of \<open>RecBuffer\<close>; \<open>woken\<close> when it comes from the wait.  \<open>None\<close> is another wait.\<close>

definition RecBuffer_pass :: "bool \<Rightarrow> nat \<Rightarrow> 's audio_in \<Rightarrow> (SWORD list option \<times> 's audio_in) res" where
  "RecBuffer_pass woken n p =
     (if woken \<and> pi_canceled p then Ok (Some [], p\<lparr>pi_canceled := False\<rparr>)
      else if pi_recording p \<and> fifo_length (pi_fifo p) < n then Ok (None, p)
      else bindR (fifo_pop n (pi_fifo p)) (\<lambda>(out, f). Ok (Some out, p\<lparr>pi_fifo := f\<rparr>)))"

text \<open>The end of \<open>PutSamples\<close>: a queue that has no room for the samples is cleared.\<close>

definition store_samples :: "SWORD list \<Rightarrow> 's audio_in \<Rightarrow> (bool \<times> 's audio_in) res" where
  "store_samples xs p =
     (if pi_recording p then
        let f = (if fifo_length (pi_fifo p) + length xs > fifo_size (pi_fifo p) then fifo_clear (pi_fifo p) else pi_fifo p)
        in bindR (fifo_push xs f) (\<lambda>(_, f). Ok (True, p\<lparr>pi_fifo := f\<rparr>))
      else Ok (True, p))"

definition PutSamples :: "'s speex \<Rightarrow> SWORD list \<Rightarrow> 's audio_in \<Rightarrow> (bool \<times> 's audio_in) res" where
  "PutSamples rs xs p =
     bindR (if Transrater_IsOpen (pi_transrater p) then ProcessBuffer rs xs (pi_transrater p)
            else Ok (Some (xs, pi_transrater p))) (\<lambda>r.
     case r of
       None \<Rightarrow> Ok (False, p)
     | Some (xs, t) \<Rightarrow> store_samples xs (p\<lparr>pi_transrater := t\<rparr>))"

section \<open>Voice detection\<close>

record 'v vad =
  va_inst :: 'v
  va_samples :: "SWORD fifo"

definition IsRateSupported :: "DWORD \<Rightarrow> bool" where
  "IsRateSupported rate = (rate = 8000 \<or> rate = 16000 \<or> rate = 32000 \<or> rate = 48000)"

text \<open>
  The detector is \<open>core rate\<close>, for 20 ms of samples.  The loop takes \<open>len\<close> samples, at least one, off a queue that
  holds at most its size.
\<close>

fun vad_loop :: "nat \<Rightarrow> (DWORD \<Rightarrow> 'v \<Rightarrow> SWORD list \<Rightarrow> int \<times> 'v) \<Rightarrow> DWORD \<Rightarrow> nat \<Rightarrow> int \<Rightarrow> 'v vad \<Rightarrow> (int \<times> 'v vad) res" where
  "vad_loop n core rate len v d =
     (if fifo_length (va_samples d) \<ge> len then
        (case n of
           0 \<Rightarrow> Fault OutOfFuel
         | Suc n \<Rightarrow>
             bindR (fifo_pop len (va_samples d)) (\<lambda>(buffer, f).
             let (w, i) = core rate (va_inst d) buffer
             in vad_loop n core rate len (v + w) (d\<lparr>va_inst := i, va_samples := f\<rparr>)))
      else Ok (v, d))"

declare vad_loop.simps [simp del]

definition CalcVad :: "(DWORD \<Rightarrow> 'v \<Rightarrow> SWORD list \<Rightarrow> int \<times> 'v) \<Rightarrow> SWORD list \<Rightarrow> DWORD \<Rightarrow> 'v vad \<Rightarrow> (int \<times> 'v vad) res" where
  "CalcVad core xs rate d =
     (if \<not> IsRateSupported rate then Ok (0, d)
      else let len = unat (20 * rate div 1000) in
        bindR (fifo_push xs (va_samples d)) (\<lambda>(_, f).
        vad_loop (Suc (fifo_length f)) core rate len 0 (d\<lparr>va_samples := f\<rparr>)))"

section \<open>From the participant to the mixer\<close>

record ('s, 'v) audio_out =
  po_fifo :: "SWORD fifo"
  po_inited :: bool
  po_vad :: "'v vad"
  po_acu :: DWORD
  po_calcVAD :: bool
  po_transrater :: "'s transrater"
  po_playRate :: DWORD
  po_nativeRate :: DWORD

definition PipeAudioOutput_new :: "bool \<Rightarrow> SWORD list \<Rightarrow> 'v vad \<Rightarrow> ('s, 'v) audio_out" where
  "PipeAudioOutput_new calcVAD junk v =
     \<lparr>po_fifo = fifo_new junk, po_inited = False, po_vad = v, po_acu = 0, po_calcVAD = calcVAD, po_transrater = None,
      po_playRate = 0, po_nativeRate = 0\<rparr>"

definition PipeOutput_Init :: "DWORD \<Rightarrow> ('s, 'v) audio_out \<Rightarrow> ('s, 'v) audio_out" where
  "PipeOutput_Init rate p = p\<lparr>po_nativeRate := rate, po_inited := True\<rparr>"

definition PipeOutput_End :: "('s, 'v) audio_out \<Rightarrow> ('s, 'v) audio_out" where
  "PipeOutput_End p = p\<lparr>po_inited := False\<rparr>"

definition StartPlaying :: "'s speex \<Rightarrow> DWORD \<Rightarrow> ('s, 'v) audio_out \<Rightarrow> ('s, 'v) audio_out" where
  "StartPlaying rs rate p =
     (let p = p\<lparr>po_playRate := rate\<rparr>;
          p = (if Transrater_IsOpen (po_transrater p) then p\<lparr>po_transrater := Transrater_Close (po_transrater p)\<rparr> else p)
      in if po_playRate p \<noteq> po_nativeRate p
         then p\<lparr>po_transrater := Transrater_Open rs (po_playRate p) (po_nativeRate p) (po_transrater p)\<rparr> else p)"

definition StopPlaying :: "('s, 'v) audio_out \<Rightarrow> ('s, 'v) audio_out" where
  "StopPlaying p = p\<lparr>po_transrater := Transrater_Close (po_transrater p)\<rparr>"

text \<open>\<open>acu\<close> after a frame of \<open>n\<close> samples with the detection \<open>v\<close> and the loudness \<open>level\<close>.\<close>

definition acumulate_vad :: "int \<Rightarrow> BYTE \<Rightarrow> DWORD \<Rightarrow> DWORD \<Rightarrow> DWORD \<Rightarrow> DWORD res" where
  "acumulate_vad v level n playRate acu =
     (let acu = (if acu = 0 \<and> v > 0 then acu + 8000 else acu) in
      if v > 0 \<and> playRate = 0 then Fault (Thrown ''division by zero'')
      else let acu = (if v > 0 then acu + of_int v * ucast level * n * 8000 div playRate else acu)
      in Ok (if acu > 48000 then 48000 else acu))"

text \<open>The detection on a frame at the rate of the participant; \<open>-1\<close> when there is none.\<close>

definition detect_voice ::
  "(DWORD \<Rightarrow> 'v \<Rightarrow> SWORD list \<Rightarrow> int \<times> 'v) \<Rightarrow> SWORD list \<Rightarrow> ('s, 'v) audio_out \<Rightarrow> (int \<times> 'v vad) res" where
  "detect_voice core xs p =
     (if po_calcVAD p \<and> IsRateSupported (po_playRate p) then CalcVad core xs (po_playRate p) (po_vad p)
      else Ok (-1, po_vad p))"

text \<open>When the rate is changed, the detection is tried again on the samples that came in, at the other rate.\<close>

definition change_rate ::
  "'s speex \<Rightarrow> (DWORD \<Rightarrow> 'v \<Rightarrow> SWORD list \<Rightarrow> int \<times> 'v) \<Rightarrow> SWORD list \<Rightarrow> int \<Rightarrow> ('s, 'v) audio_out
    \<Rightarrow> (SWORD list option \<times> int \<times> ('s, 'v) audio_out) res" where
  "change_rate rs core xs v p =
     (if Transrater_IsOpen (po_transrater p) then
        bindR (ProcessBuffer rs xs (po_transrater p)) (\<lambda>r.
        case r of
          None \<Rightarrow> Ok (None, v, p)
        | Some (ys, t) \<Rightarrow>
            bindR (if po_calcVAD p \<and> v < 0 \<and> IsRateSupported (po_nativeRate p)
                   then CalcVad core xs (po_nativeRate p) (po_vad p) else Ok (v, po_vad p)) (\<lambda>(v, d).
            Ok (Some ys, v, p\<lparr>po_transrater := t, po_vad := d\<rparr>)))
      else Ok (Some xs, v, p))"

text \<open>The oldest samples are dropped when there is no room for \<open>n\<close> more.\<close>

definition make_room :: "nat \<Rightarrow> 'a fifo \<Rightarrow> 'a fifo" where
  "make_room n f =
     (let left = fifo_size f - fifo_length f in if n > left then snd (fifo_remove (n - left) f) else f)"

text \<open>Before the mutex is taken: the frame at the rate of the mixer (\<open>None\<close> when it cannot be made) and the detection.\<close>

definition play_prepare ::
  "'s speex \<Rightarrow> (DWORD \<Rightarrow> 'v \<Rightarrow> SWORD list \<Rightarrow> int \<times> 'v) \<Rightarrow> SWORD list \<Rightarrow> ('s, 'v) audio_out
    \<Rightarrow> (SWORD list option \<times> int \<times> ('s, 'v) audio_out) res" where
  "play_prepare rs core xs p =
     bindR (detect_voice core xs p) (\<lambda>(v, d). change_rate rs core xs v (p\<lparr>po_vad := d\<rparr>))"

text \<open>With it.\<close>

definition play_store ::
  "(SWORD list \<Rightarrow> BYTE) \<Rightarrow> SWORD list \<Rightarrow> int \<Rightarrow> ('s, 'v) audio_out \<Rightarrow> (nat \<times> ('s, 'v) audio_out) res" where
  "play_store loudness xs v p =
     bindR (acumulate_vad v (loudness xs) (of_nat (length xs)) (po_playRate p) (po_acu p)) (\<lambda>acu.
     bindR (fifo_push xs (make_room (length xs) (po_fifo p))) (\<lambda>(_, f).
     Ok (length xs, p\<lparr>po_fifo := f, po_acu := acu\<rparr>)))"

definition PlayBuffer ::
  "'s speex \<Rightarrow> (DWORD \<Rightarrow> 'v \<Rightarrow> SWORD list \<Rightarrow> int \<times> 'v) \<Rightarrow> (SWORD list \<Rightarrow> BYTE) \<Rightarrow> SWORD list \<Rightarrow> ('s, 'v) audio_out
    \<Rightarrow> (nat \<times> ('s, 'v) audio_out) res" where
  "PlayBuffer rs core loudness xs p =
     bindR (play_prepare rs core xs p) (\<lambda>(out, v, p).
     case out of None \<Rightarrow> Ok (0, p) | Some xs \<Rightarrow> play_store loudness xs v p)"

definition GetSamples :: "nat \<Rightarrow> ('s, 'v) audio_out \<Rightarrow> (SWORD list \<times> ('s, 'v) audio_out) res" where
  "GetSamples num p =
     (let len = fifo_length (po_fifo p); len = (if len > num then num else len) in
      bindR (fifo_pop len (po_fifo p)) (\<lambda>(out, f). Ok (out, p\<lparr>po_fifo := f\<rparr>)))"

definition GetVAD :: "DWORD \<Rightarrow> ('s, 'v) audio_out \<Rightarrow> DWORD \<times> ('s, 'v) audio_out" where
  "GetVAD numSamples p =
     (let n = numSamples * 8000 div po_nativeRate p in
      (po_acu p, p\<lparr>po_acu := if po_nativeRate p = 0 \<or> po_acu p < n then 0 else po_acu p - n\<rparr>))"

section \<open>The pipes as queues\<close>

definition audio_in_wf :: "'s audio_in \<Rightarrow> bool" where
  "audio_in_wf p \<longleftrightarrow> fifo_wf (pi_fifo p) \<and> fifo_size (pi_fifo p) = 4096"

definition audio_out_wf :: "('s, 'v) audio_out \<Rightarrow> bool" where
  "audio_out_wf p \<longleftrightarrow> fifo_wf (po_fifo p) \<and> fifo_size (po_fifo p) = 8192 \<and>
     fifo_wf (va_samples (po_vad p)) \<and> fifo_size (va_samples (po_vad p)) = 1204 \<and>
     (po_transrater p \<noteq> None \<longrightarrow> po_playRate p \<noteq> 0)"

lemma PipeAudioInput_new_wf: "length junk = 4096 \<Longrightarrow> audio_in_wf (PipeAudioInput_new junk rate)"
  by (auto simp: audio_in_wf_def PipeAudioInput_new_def fifo_wf_def fifo_new_def fifo_size_def)

lemma PipeAudioOutput_new_wf:
  "length junk = 8192 \<Longrightarrow> fifo_wf (va_samples v) \<Longrightarrow> fifo_size (va_samples v) = 1204 \<Longrightarrow>
     audio_out_wf (PipeAudioOutput_new calcVAD junk v)"
  by (auto simp: audio_out_wf_def PipeAudioOutput_new_def fifo_wf_def fifo_new_def fifo_size_def)

lemma pipe_rate_wf [simp]:
  "audio_in_wf (PipeInput_Init r p) = audio_in_wf p" "audio_in_wf (PipeInput_End p) = audio_in_wf p"
  "audio_out_wf (PipeOutput_Init r q) = audio_out_wf q" "audio_out_wf (PipeOutput_End q) = audio_out_wf q"
  "audio_out_wf (snd (GetVAD n q)) = audio_out_wf q"
  by (simp_all add: audio_in_wf_def audio_out_wf_def PipeInput_Init_def PipeInput_End_def PipeOutput_Init_def
      PipeOutput_End_def GetVAD_def Let_def)

text \<open>A push, whether or not it fits, keeps the queue.\<close>

lemma fifo_push_wf:
  assumes "fifo_wf f"
  shows "\<exists>n g. fifo_push xs f = Ok (n, g) \<and> fifo_wf g \<and> fifo_size g = fifo_size f"
  using fifo_push_fits [OF assms, of xs] fifo_push_full [of f xs] assms
  by (cases "fifo_size f < ff_len f + length xs") auto

lemma GetSamples_ok:
  assumes "audio_out_wf p"
  shows "\<exists>q. GetSamples n p = Ok (take n (fifo_elems (po_fifo p)), q) \<and> audio_out_wf q \<and>
    fifo_elems (po_fifo q) = drop n (fifo_elems (po_fifo p))"
proof -
  from assms have wf: "fifo_wf (po_fifo p)" by (simp add: audio_out_wf_def)
  have "(if fifo_length (po_fifo p) > n then n else fifo_length (po_fifo p)) = min (length (fifo_elems (po_fifo p))) n"
    by (simp add: fifo_length_def)
  with ring.pop_min [OF wf, of n] assms show ?thesis
    by (auto simp: GetSamples_def Let_def audio_out_wf_def)
qed

lemma store_samples_ok:
  assumes wf: "audio_in_wf p"
  shows "\<exists>r q. store_samples xs p = Ok (r, q) \<and> audio_in_wf q"
proof -
  let ?f = "if fifo_length (pi_fifo p) + length xs > fifo_size (pi_fifo p) then fifo_clear (pi_fifo p) else pi_fifo p"
  from wf have "fifo_wf ?f" "fifo_size ?f = 4096"
    using fifo_clear_all [of "pi_fifo p"] by (auto simp: audio_in_wf_def)
  with fifo_push_wf [of ?f xs] wf show ?thesis by (auto simp: store_samples_def Let_def audio_in_wf_def)
qed

lemma audio_in_wf_transrater [simp]: "audio_in_wf (p\<lparr>pi_transrater := t\<rparr>) = audio_in_wf p"
  by (simp add: audio_in_wf_def)

lemma PutSamples_ok:
  assumes wf: "audio_in_wf p"
  shows "\<exists>r q. PutSamples rs xs p = Ok (r, q) \<and> audio_in_wf q"
  using store_samples_ok [of "p\<lparr>pi_transrater := t\<rparr>" for t] wf
  by (auto simp: PutSamples_def Transrater_IsOpen_def ProcessBuffer_def split: option.split)

text \<open>What a participant that records at the rate of the mixer is given: the samples behind those it has not read
  yet, or the samples alone when they would not fit.\<close>

lemma PutSamples_plain:
  assumes wf: "audio_in_wf p" and rec: "pi_recording p" "pi_transrater p = None" and n: "length xs \<le> 4096"
  shows "\<exists>q. PutSamples rs xs p = Ok (True, q) \<and> audio_in_wf q \<and> fifo_elems (pi_fifo q) =
    (if 4096 < length (fifo_elems (pi_fifo p)) + length xs then [] else fifo_elems (pi_fifo p)) @ xs"
proof -
  from wf have f: "fifo_wf (pi_fifo p)" "fifo_size (pi_fifo p) = 4096" by (auto simp: audio_in_wf_def)
  from n have "length xs \<le> fifo_size (pi_fifo p)" by (simp add: f)
  from ring.clear_push [OF f(1) this] rec show ?thesis
    by (auto simp: PutSamples_def store_samples_def Transrater_IsOpen_def Let_def audio_in_wf_def f fifo_length_def)
qed

section \<open>Playing never faults\<close>

lemma vad_loop_ok:
  assumes "fifo_wf (va_samples d)" "0 < len" "fifo_length (va_samples d) < n"
  shows "\<exists>w e. vad_loop n core rate len v d = Ok (w, e) \<and> fifo_wf (va_samples e) \<and>
    fifo_size (va_samples e) = fifo_size (va_samples d)"
  using assms
proof (induction n arbitrary: v d)
  case (Suc n)
  show ?case
  proof (cases "fifo_length (va_samples d) \<ge> len")
    case True
    then have le: "len \<le> ff_len (va_samples d)" by (simp add: fifo_length_def)
    from fifo_pop_some [OF Suc.prems(1) le] obtain g where
      g: "fifo_pop len (va_samples d) = Ok (take len (fifo_elems (va_samples d)), g)" "fifo_wf g"
      "fifo_elems g = drop len (fifo_elems (va_samples d))" "fifo_size g = fifo_size (va_samples d)" by blast
    obtain w i where c: "core rate (va_inst d) (take len (fifo_elems (va_samples d))) = (w, i)" by fastforce
    let ?d = "d\<lparr>va_inst := i, va_samples := g\<rparr>"
    have "ff_len g = ff_len (va_samples d) - len" using arg_cong [OF g(3), of length] by simp
    with Suc.prems(2,3) le have "fifo_length (va_samples ?d) < n" by (simp add: fifo_length_def)
    from Suc.IH [of ?d "v + w", OF _ Suc.prems(2) this] g True c show ?thesis
      by (subst vad_loop.simps) simp
  next
    case False
    with Suc.prems(1) show ?thesis by (subst vad_loop.simps) simp
  qed
qed simp

lemma supported_step: "IsRateSupported rate \<Longrightarrow> 0 < unat (20 * rate div 1000)"
  by (auto simp: IsRateSupported_def)

lemma CalcVad_ok:
  assumes "fifo_wf (va_samples d)"
  shows "\<exists>w e. CalcVad core xs rate d = Ok (w, e) \<and> fifo_wf (va_samples e) \<and>
    fifo_size (va_samples e) = fifo_size (va_samples d)"
proof (cases "IsRateSupported rate")
  case True
  from fifo_push_wf [OF assms, of xs] obtain k g where
    g: "fifo_push xs (va_samples d) = Ok (k, g)" "fifo_wf g" "fifo_size g = fifo_size (va_samples d)" by blast
  from vad_loop_ok [of "d\<lparr>va_samples := g\<rparr>" "unat (20 * rate div 1000)" "Suc (fifo_length g)" core rate 0]
    g True supported_step [OF True] show ?thesis by (simp add: CalcVad_def Let_def)
qed (use assms in \<open>simp add: CalcVad_def\<close>)

lemma make_room_wf:
  assumes f: "fifo_wf f"
  shows "fifo_wf (make_room n f) \<and> fifo_size (make_room n f) = fifo_size f"
proof -
  let ?n = "n - (fifo_size f - fifo_length f)"
  have "fifo_wf (snd (fifo_remove ?n f)) \<and> fifo_size (snd (fifo_remove ?n f)) = fifo_size f"
    using fifo_remove_some [OF f, of ?n] fifo_remove_short [of f ?n] f by (cases "?n \<le> ff_len f") auto
  with f show ?thesis by (simp add: make_room_def Let_def)
qed

lemma acumulate_vad_ok: "v > 0 \<longrightarrow> r \<noteq> 0 \<Longrightarrow> \<exists>a. acumulate_vad v level k r acu = Ok a \<and> a \<le> 48000"
  by (auto simp: acumulate_vad_def Let_def)

text \<open>A frame is always taken: voice detection ends, no rate is divided by when it is zero.\<close>

lemma play_prepare_ok:
  assumes wf: "audio_out_wf p"
  shows "\<exists>out w q. play_prepare rs core xs p = Ok (out, w, q) \<and> audio_out_wf q \<and> po_playRate q = po_playRate p \<and>
    (w > 0 \<longrightarrow> po_playRate p \<noteq> 0)"
proof -
  from wf have f: "fifo_wf (po_fifo p)" "fifo_size (po_fifo p) = 8192"
    and v: "fifo_wf (va_samples (po_vad p))" "fifo_size (va_samples (po_vad p)) = 1204"
    and t: "po_transrater p \<noteq> None \<Longrightarrow> po_playRate p \<noteq> 0" by (auto simp: audio_out_wf_def)
  obtain w d where one: "detect_voice core xs p = Ok (w, d)"
    and d: "fifo_wf (va_samples d)" "fifo_size (va_samples d) = 1204" and w: "w > 0 \<longrightarrow> po_playRate p \<noteq> 0"
  proof (cases "po_calcVAD p \<and> IsRateSupported (po_playRate p)")
    case True
    then have "po_playRate p \<noteq> 0" by (auto simp: IsRateSupported_def)
    with CalcVad_ok [OF v(1), of core xs "po_playRate p"] True v(2) that show ?thesis by (auto simp: detect_voice_def)
  next
    case False
    with v that show ?thesis by (auto simp: detect_voice_def)
  qed
  obtain out w' d' s where two: "change_rate rs core xs w (p\<lparr>po_vad := d\<rparr>) = Ok (out, w', p\<lparr>po_transrater := s, po_vad := d'\<rparr>)"
    and d': "fifo_wf (va_samples d')" "fifo_size (va_samples d') = 1204"
    and w': "w' > 0 \<longrightarrow> po_playRate p \<noteq> 0" and s: "s \<noteq> None \<longrightarrow> po_playRate p \<noteq> 0"
  proof (cases "po_transrater p")
    case None
    have "change_rate rs core xs w (p\<lparr>po_vad := d\<rparr>) = Ok (Some xs, w, p\<lparr>po_transrater := None, po_vad := d\<rparr>)"
      using None by (cases p) (simp add: change_rate_def Transrater_IsOpen_def)
    then show ?thesis using d w by (rule that) simp
  next
    case (Some tr)
    with t have r: "po_playRate p \<noteq> 0" by simp
    show ?thesis
    proof (cases "mcu_resampler_process rs tr xs")
      case None
      have "change_rate rs core xs w (p\<lparr>po_vad := d\<rparr>) = Ok (None, w, p\<lparr>po_transrater := Some tr, po_vad := d\<rparr>)"
        using Some None by (cases p) (simp add: change_rate_def Transrater_IsOpen_def ProcessBuffer_def)
      then show ?thesis using d w by (rule that) (use r in simp)
    next
      case y: (Some y)
      note c = CalcVad_ok [OF d(1), of core xs "po_nativeRate p"]
      have "\<exists>v e. change_rate rs core xs w (p\<lparr>po_vad := d\<rparr>) =
          Ok (Some (fst y), v, p\<lparr>po_transrater := Some (snd y), po_vad := e\<rparr>) \<and>
          fifo_wf (va_samples e) \<and> fifo_size (va_samples e) = 1204"
      proof (cases "po_calcVAD p \<and> w < 0 \<and> IsRateSupported (po_nativeRate p)")
        case True
        with c Some y d(2) show ?thesis
          by (auto simp: change_rate_def Transrater_IsOpen_def ProcessBuffer_def case_prod_beta)
      next
        case False
        have "change_rate rs core xs w (p\<lparr>po_vad := d\<rparr>) =
            Ok (Some (fst y), w, p\<lparr>po_transrater := Some (snd y), po_vad := d\<rparr>)"
          using False Some y by (auto simp: change_rate_def Transrater_IsOpen_def ProcessBuffer_def case_prod_beta)
        with d show ?thesis by blast
      qed
      then obtain v e where ch: "change_rate rs core xs w (p\<lparr>po_vad := d\<rparr>) =
          Ok (Some (fst y), v, p\<lparr>po_transrater := Some (snd y), po_vad := e\<rparr>)"
        and e: "fifo_wf (va_samples e)" "fifo_size (va_samples e) = 1204" by blast
      show ?thesis by (rule that [OF ch e]) (use r in auto)
    qed
  qed
  have "play_prepare rs core xs p = Ok (out, w', p\<lparr>po_transrater := s, po_vad := d'\<rparr>)"
    using one two by (simp add: play_prepare_def)
  with d' s f w' show ?thesis by (auto simp: audio_out_wf_def)
qed

lemma play_store_ok:
  assumes wf: "audio_out_wf p" and w: "w > 0 \<longrightarrow> po_playRate p \<noteq> 0"
  shows "\<exists>k q. play_store loudness ys w p = Ok (k, q) \<and> audio_out_wf q \<and> po_playRate q = po_playRate p"
proof -
  from wf have f: "fifo_wf (po_fifo p)" "fifo_size (po_fifo p) = 8192" by (auto simp: audio_out_wf_def)
  from fifo_push_wf [of "make_room (length ys) (po_fifo p)" ys] make_room_wf [OF f(1), of "length ys"] f(2) obtain k g where
    g: "fifo_push ys (make_room (length ys) (po_fifo p)) = Ok (k, g)" "fifo_wf g" "fifo_size g = 8192" by auto
  from acumulate_vad_ok [OF w] obtain a where
    a: "acumulate_vad w (loudness ys) (of_nat (length ys)) (po_playRate p) (po_acu p) = Ok a" by blast
  have "play_store loudness ys w p = Ok (length ys, p\<lparr>po_fifo := g, po_acu := a\<rparr>)"
    using g(1) a by (simp add: play_store_def)
  with wf g show ?thesis by (auto simp: audio_out_wf_def)
qed

lemma PlayBuffer_ok:
  assumes wf: "audio_out_wf p"
  shows "\<exists>k q. PlayBuffer rs core loudness xs p = Ok (k, q) \<and> audio_out_wf q"
proof -
  obtain out w q where p: "play_prepare rs core xs p = Ok (out, w, q)" "audio_out_wf q" "w > 0 \<longrightarrow> po_playRate q \<noteq> 0"
    using play_prepare_ok [OF wf, of rs core xs] by auto
  show ?thesis
  proof (cases out)
    case None
    with p show ?thesis by (simp add: PlayBuffer_def)
  next
    case (Some ys)
    with p play_store_ok [OF p(2,3), of loudness ys] show ?thesis by (auto simp: PlayBuffer_def)
  qed
qed

end
