(* ===== verification/AudioMixer.thy ===== *)
theory AudioMixer
  imports AudioPipes
begin

unbundle bit_operations_syntax

text \<open>
  The audio mixer of a conference (\<open>src/mcu/src/audiomixer.cpp\<close>, \<open>sidebar.cpp\<close>).  Every participant has an
  \<open>AudioSource\<close>; a \<open>Sidebar\<close> adds up the sound of its participants; every participant hears the sidebar its source
  points to, without its own sound.

  A pointer to a sidebar is an address of \<open>am_heap\<close>, where a deleted sidebar is \<open>None\<close>; the sources and the pipes
  have one owner and are kept in place.  \<open>defaultSidebar\<close> is not initialised before \<open>Init\<close>.  An operation is one step, as
  is one round of the thread that mixes, which has \<open>lstAudiosUse\<close> for itself.  (\<open>InitMixer\<close>, \<open>EndMixer\<close>,
  \<open>CreateSidebar\<close> and the changes of a sidebar's participants only have a share of the lock: the model is that of calls
  that do not overlap with one another.)  Samples are words of 16 bits: the
  SSE instructions add and subtract them with wrap-around.
\<close>

record sidebar =
  sb_buffer :: "SWORD list"
  sb_participants :: "int list"

definition MIXER_BUFFER_SIZE :: nat where
  "MIXER_BUFFER_SIZE = 4096"

definition Sidebar_new :: "SWORD list \<Rightarrow> sidebar" where
  "Sidebar_new junk = \<lparr>sb_buffer = junk, sb_participants = []\<rparr>"

text \<open>Eight samples at a time: \<open>f\<close> on the first \<open>len\<close> samples of the two buffers, rounded up.\<close>

definition round8 :: "nat \<Rightarrow> nat" where
  "round8 len = 8 * ((len + 7) div 8)"

definition sse_map2 :: "(SWORD \<Rightarrow> SWORD \<Rightarrow> SWORD) \<Rightarrow> nat \<Rightarrow> SWORD list \<Rightarrow> SWORD list \<Rightarrow> SWORD list res" where
  "sse_map2 f len d s =
     (let n = round8 len in
      if n \<le> length d \<and> n \<le> length s then Ok (map2 f (take n d) (take n s) @ drop n d) else Fault OutOfBounds)"

definition Sidebar_Update :: "SWORD list \<Rightarrow> nat \<Rightarrow> sidebar \<Rightarrow> (nat \<times> sidebar) res" where
  "Sidebar_Update samples len sb =
     (if len > MIXER_BUFFER_SIZE then Ok (0, sb)
      else bindR (sse_map2 (+) len (sb_buffer sb) samples) (\<lambda>d. Ok (len, sb\<lparr>sb_buffer := d\<rparr>)))"

definition Sidebar_Reset :: "sidebar \<Rightarrow> sidebar" where
  "Sidebar_Reset sb = sb\<lparr>sb_buffer := replicate MIXER_BUFFER_SIZE 0\<rparr>"

definition AddParticipant :: "int \<Rightarrow> sidebar \<Rightarrow> sidebar" where
  "AddParticipant i sb = sb\<lparr>sb_participants := set_insert i (sb_participants sb)\<rparr>"

definition RemoveParticipant :: "int \<Rightarrow> sidebar \<Rightarrow> sidebar" where
  "RemoveParticipant i sb = sb\<lparr>sb_participants := filter (\<lambda>j. j \<noteq> i) (sb_participants sb)\<rparr>"

definition HasParticipant :: "int \<Rightarrow> sidebar \<Rightarrow> bool" where
  "HasParticipant i sb = (i \<in> set (sb_participants sb))"

record ('s, 'v) audio_source =
  as_buffer :: "SWORD list"
  as_len :: nat
  as_input :: "'s audio_in"
  as_output :: "('s, 'v) audio_out"
  as_sidebar :: "nat option"
  as_vad :: DWORD

record ('s, 'v) mixer =
  am_mixingAudio :: bool
  am_audios :: "(int, ('s, 'v) audio_source) omap"
  am_sidebars :: "(int, nat) omap"
  am_heap :: "nat \<Rightarrow> sidebar option"
  am_next :: nat
  am_defaultSidebar :: "nat option"
  am_numSidebars :: int
  am_vad :: bool
  am_rate :: DWORD

definition AudioMixer_new :: "DWORD \<Rightarrow> ('s, 'v) mixer" where
  "AudioMixer_new rate =
     \<lparr>am_mixingAudio = False, am_audios = [], am_sidebars = [], am_heap = (\<lambda>_. None), am_next = 0,
      am_defaultSidebar = None, am_numSidebars = 0, am_vad = False, am_rate = rate\<rparr>"

section \<open>Sidebars\<close>

text \<open>Following a pointer to a sidebar.\<close>

definition load_sidebar :: "nat \<Rightarrow> ('s, 'v) mixer \<Rightarrow> sidebar res" where
  "load_sidebar p m = (case am_heap m p of None \<Rightarrow> Fault UseAfterFree | Some sb \<Rightarrow> Ok sb)"

definition update_sidebar :: "nat \<Rightarrow> (sidebar \<Rightarrow> sidebar) \<Rightarrow> ('s, 'v) mixer \<Rightarrow> ('s, 'v) mixer res" where
  "update_sidebar p f m = bindR (load_sidebar p m) (\<lambda>sb. Ok (m\<lparr>am_heap := (am_heap m)(p \<mapsto> f sb)\<rparr>))"

definition default_sidebar :: "('s, 'v) mixer \<Rightarrow> nat res" where
  "default_sidebar m = (case am_defaultSidebar m of None \<Rightarrow> Fault Uninitialised | Some p \<Rightarrow> Ok p)"

definition CreateSidebar :: "SWORD list \<Rightarrow> ('s, 'v) mixer \<Rightarrow> int \<times> ('s, 'v) mixer" where
  "CreateSidebar junk m =
     (let i = am_numSidebars m; p = am_next m in
      (i, m\<lparr>am_numSidebars := i + 1, am_sidebars := map_put i p (am_sidebars m),
            am_heap := (am_heap m)(p \<mapsto> Sidebar_new junk), am_next := Suc p\<rparr>))"

definition AddSidebarParticipant :: "int \<Rightarrow> int \<Rightarrow> ('s, 'v) mixer \<Rightarrow> (bool \<times> ('s, 'v) mixer) res" where
  "AddSidebarParticipant sidebarId partId m =
     (case map_find (am_sidebars m) sidebarId of
        None \<Rightarrow> Ok (False, m)
      | Some p \<Rightarrow> bindR (update_sidebar p (AddParticipant partId) m) (\<lambda>m. Ok (True, m)))"

definition RemoveSidebarParticipant :: "int \<Rightarrow> int \<Rightarrow> ('s, 'v) mixer \<Rightarrow> (bool \<times> ('s, 'v) mixer) res" where
  "RemoveSidebarParticipant sidebarId partId m =
     (case map_find (am_sidebars m) sidebarId of
        None \<Rightarrow> Ok (False, m)
      | Some p \<Rightarrow> bindR (update_sidebar p (RemoveParticipant partId) m) (\<lambda>m. Ok (True, m)))"

definition map_values :: "('v \<Rightarrow> 'w) \<Rightarrow> ('k, 'v) omap \<Rightarrow> ('k, 'w) omap" where
  "map_values f m = map (\<lambda>(k, v). (k, f v)) m"

text \<open>The sources that point to the sidebar are told, \<open>defaultSidebar\<close> is not.\<close>

definition DeleteSidebar :: "int \<Rightarrow> ('s, 'v) mixer \<Rightarrow> bool \<times> ('s, 'v) mixer" where
  "DeleteSidebar sidebarId m =
     (case map_find (am_sidebars m) sidebarId of
        None \<Rightarrow> (False, m)
      | Some p \<Rightarrow> (True, m\<lparr>
          am_audios := map_values (\<lambda>a. if as_sidebar a = Some p then a\<lparr>as_sidebar := None\<rparr> else a) (am_audios m),
          am_sidebars := map_erase sidebarId (am_sidebars m), am_heap := (am_heap m)(p := None)\<rparr>))"

section \<open>Sources\<close>

text \<open>No return statement.\<close>

definition SetCalculateVAD :: "no_return \<Rightarrow> bool \<Rightarrow> ('s, 'v) mixer \<Rightarrow> ('s, 'v) mixer res" where
  "SetCalculateVAD u v m = ends_without_return u (m\<lparr>am_vad := v\<rparr>)"

definition AudioMixer_Init :: "DWORD \<Rightarrow> SWORD list \<Rightarrow> ('s, 'v) mixer \<Rightarrow> ('s, 'v) mixer" where
  "AudioMixer_Init rate junk m =
     (let m = m\<lparr>am_rate := rate, am_mixingAudio := True\<rparr>; (i, m) = CreateSidebar junk m
      in m\<lparr>am_defaultSidebar := map_find (am_sidebars m) i\<rparr>)"

definition AudioMixer_End :: "('s, 'v) mixer \<Rightarrow> ('s, 'v) mixer" where
  "AudioMixer_End m =
     m\<lparr>am_mixingAudio := False, am_audios := [], am_sidebars := [],
       am_heap := foldr (\<lambda>p h. h(p := None)) (map snd (am_sidebars m)) (am_heap m)\<rparr>"

text \<open>The pipes are new, the buffer of a source is zeroed.\<close>

definition CreateMixer ::
  "int \<Rightarrow> 's audio_in \<Rightarrow> (bool \<Rightarrow> ('s, 'v) audio_out) \<Rightarrow> ('s, 'v) mixer \<Rightarrow> bool \<times> ('s, 'v) mixer" where
  "CreateMixer i new_input new_output m =
     (if map_find (am_audios m) i \<noteq> None then (False, m)
      else let a = \<lparr>as_buffer = replicate MIXER_BUFFER_SIZE 0, as_len = 0, as_input = new_input,
                    as_output = new_output (am_vad m), as_sidebar = None, as_vad = 0\<rparr>
      in (True, m\<lparr>am_audios := map_put i a (am_audios m)\<rparr>))"

definition InitMixer :: "int \<Rightarrow> int \<Rightarrow> ('s, 'v) mixer \<Rightarrow> (bool \<times> ('s, 'v) mixer) res" where
  "InitMixer i sidebarId m =
     (case map_find (am_audios m) i of
        None \<Rightarrow> Ok (False, m)
      | Some a \<Rightarrow>
          let a = (case map_find (am_sidebars m) sidebarId of
                     Some p \<Rightarrow> a\<lparr>as_sidebar := Some p\<rparr> | None \<Rightarrow> a);
              a = a\<lparr>as_input := PipeInput_Init (am_rate m) (as_input a),
                    as_output := PipeOutput_Init (am_rate m) (as_output a)\<rparr>;
              m = m\<lparr>am_audios := map_put i a (am_audios m)\<rparr> in
          bindR (default_sidebar m) (\<lambda>p.
          bindR (update_sidebar p (AddParticipant i) m) (\<lambda>m. Ok (True, m))))"

definition EndMixer :: "int \<Rightarrow> ('s, 'v) mixer \<Rightarrow> (bool \<times> ('s, 'v) mixer) res" where
  "EndMixer i m =
     (case map_find (am_audios m) i of
        None \<Rightarrow> Ok (False, m)
      | Some a \<Rightarrow>
          bindR (default_sidebar m) (\<lambda>p.
          bindR (update_sidebar p (RemoveParticipant i) m) (\<lambda>m.
          let a = a\<lparr>as_input := PipeInput_End (as_input a), as_output := PipeOutput_End (as_output a), as_sidebar := None\<rparr>;
              m = m\<lparr>am_audios := map_put i a (am_audios m)\<rparr> in
          bindR (foldR (\<lambda>(_, p). update_sidebar p (RemoveParticipant i)) (am_sidebars m) m) (\<lambda>m. Ok (True, m)))))"

definition DeleteMixer :: "int \<Rightarrow> ('s, 'v) mixer \<Rightarrow> bool \<times> ('s, 'v) mixer" where
  "DeleteMixer i m =
     (if map_find (am_audios m) i = None then (False, m)
      else (True, m\<lparr>am_audios := map_erase i (am_audios m)\<rparr>))"

definition GetInput :: "int \<Rightarrow> ('s, 'v) mixer \<Rightarrow> 's audio_in option" where
  "GetInput i m = map_option as_input (map_find (am_audios m) i)"

definition GetOutput :: "int \<Rightarrow> ('s, 'v) mixer \<Rightarrow> ('s, 'v) audio_out option" where
  "GetOutput i m = map_option as_output (map_find (am_audios m) i)"

definition SetMixerSidebar :: "int \<Rightarrow> int \<Rightarrow> ('s, 'v) mixer \<Rightarrow> bool \<times> ('s, 'v) mixer" where
  "SetMixerSidebar i sidebarId m =
     (case map_find (am_audios m) i of
        None \<Rightarrow> (False, m)
      | Some a \<Rightarrow>
          (True, (case map_find (am_sidebars m) sidebarId of
             Some p \<Rightarrow> m\<lparr>am_audios := map_put i (a\<lparr>as_sidebar := Some p\<rparr>) (am_audios m)\<rparr>
           | None \<Rightarrow> m)))"

definition AudioMixer_GetVAD :: "int \<Rightarrow> ('s, 'v) mixer \<Rightarrow> DWORD" where
  "AudioMixer_GetVAD i m = (case map_find (am_audios m) i of None \<Rightarrow> 0 | Some a \<Rightarrow> as_vad a)"

section \<open>Mixing\<close>

text \<open>\<open>memset(buffer+i,0,n)\<close>: \<open>n\<close> bytes of a buffer of two-byte samples, the low byte of a sample first.\<close>

definition zero_bytes :: "nat \<Rightarrow> nat \<Rightarrow> SWORD list \<Rightarrow> SWORD list res" where
  "zero_bytes i n d =
     (if 2 * i + n > 2 * length d then Fault OutOfBounds
      else let k = n div 2; rest = drop (i + k) d in
        Ok (take i d @ replicate k 0 @
            (if odd n then map2 (\<lambda>j s. if j = 0 then s AND 0xFF00 else s) [0..<length rest] rest else rest)))"

text \<open>The first pass over a source: its samples are read, and added to the sidebars it is in.\<close>

definition read_source :: "nat \<Rightarrow> ('s, 'v) audio_source \<Rightarrow> ('s, 'v) audio_source res" where
  "read_source numSamples a =
     bindR (GetSamples numSamples (as_output a)) (\<lambda>(samples, out).
     let len = length samples in
     bindR (copy_in 0 samples (as_buffer a)) (\<lambda>d.
     bindR (zero_bytes len (MIXER_BUFFER_SIZE - len) d) (\<lambda>d.
     let (v, out) = GetVAD (of_nat numSamples) out in
     Ok (a\<lparr>as_len := len, as_buffer := d, as_output := out, as_vad := v\<rparr>))))"

definition mix_into :: "int \<Rightarrow> ('s, 'v) audio_source \<Rightarrow> nat \<Rightarrow> ('s, 'v) mixer \<Rightarrow> ('s, 'v) mixer res" where
  "mix_into i a p m =
     bindR (load_sidebar p m) (\<lambda>sb.
     if HasParticipant i sb then
       bindR (Sidebar_Update (as_buffer a) (as_len a) sb) (\<lambda>(_, sb).
       Ok (m\<lparr>am_heap := (am_heap m)(p \<mapsto> sb)\<rparr>))
     else Ok m)"

definition first_pass :: "nat \<Rightarrow> int \<times> ('s, 'v) audio_source \<Rightarrow> ('s, 'v) mixer \<Rightarrow> ('s, 'v) mixer res" where
  "first_pass numSamples e m =
     (case e of (i, a) \<Rightarrow>
        bindR (read_source numSamples a) (\<lambda>a.
        let m = m\<lparr>am_audios := map_put i a (am_audios m)\<rparr> in
        foldR (\<lambda>(_, p). mix_into i a p) (am_sidebars m) m))"

text \<open>The second pass: a participant of the sidebar it hears is given the mix without its own samples.\<close>

definition without_own :: "nat \<Rightarrow> ('s, 'v) audio_source \<Rightarrow> SWORD list \<Rightarrow> SWORD list res" where
  "without_own numSamples a mixed =
     bindR (sse_map2 (\<lambda>b x. x - b) (as_len a) (as_buffer a) mixed) (\<lambda>d.
     if as_len a < numSamples
     then bindR (copy_out (as_len a) (numSamples - as_len a) mixed) (\<lambda>rest. copy_in (as_len a) rest d)
     else Ok d)"

definition second_pass ::
  "'s speex \<Rightarrow> nat \<Rightarrow> int \<times> ('s, 'v) audio_source \<Rightarrow> ('s, 'v) mixer \<Rightarrow> ('s, 'v) mixer res" where
  "second_pass rs numSamples e m =
     (case e of (i, a) \<Rightarrow>
        case as_sidebar a of
          None \<Rightarrow> Ok m
        | Some p \<Rightarrow>
            bindR (load_sidebar p m) (\<lambda>sb.
            let mixed = sb_buffer sb in
            bindR (if HasParticipant i sb then without_own numSamples a mixed else Ok (as_buffer a)) (\<lambda>d.
            bindR (PutSamples rs (take numSamples (if HasParticipant i sb then d else mixed)) (as_input a)) (\<lambda>(_, input).
            Ok (m\<lparr>am_audios := map_put i (a\<lparr>as_buffer := d, as_input := input\<rparr>) (am_audios m)\<rparr>)))))"

text \<open>One round of \<open>MixAudio\<close> for a number of samples.\<close>

definition mix_round :: "'s speex \<Rightarrow> nat \<Rightarrow> ('s, 'v) mixer \<Rightarrow> ('s, 'v) mixer res" where
  "mix_round rs numSamples m =
     bindR (foldR (\<lambda>(_, p). update_sidebar p Sidebar_Reset) (am_sidebars m) m) (\<lambda>m.
     bindR (foldR (first_pass numSamples) (am_audios m) m) (\<lambda>m.
     foldR (second_pass rs numSamples) (am_audios m) m))"

text \<open>The number of samples of a round, from the times in microseconds of the last round and of this one.\<close>

definition num_samples :: "DWORD \<Rightarrow> QWORD \<Rightarrow> QWORD \<Rightarrow> nat" where
  "num_samples rate prev now =
     (let n = unat (ucast (now * ucast rate div 1000000 - prev * ucast rate div 1000000) :: DWORD)
      in if n > MIXER_BUFFER_SIZE then MIXER_BUFFER_SIZE else n)"

definition MixAudio :: "'s speex \<Rightarrow> QWORD \<Rightarrow> QWORD \<Rightarrow> ('s, 'v) mixer \<Rightarrow> ('s, 'v) mixer res" where
  "MixAudio rs prev now m =
     (if am_mixingAudio m then mix_round rs (num_samples (am_rate m) prev now) m else Ok m)"

end
