(* ===== verification/AudioMixing.thy ===== *)
theory AudioMixing
  imports AudioMixer
begin

text \<open>
  What a round of the mixer computes.  The invariant \<open>mixer_wf\<close> says that the pointers to the sidebars are live; with
  it a round never faults, and it gives every participant the sum of the others (\<open>mix_round_ok\<close>).
\<close>

section \<open>The invariant\<close>

definition source_wf :: "('s, 'v) audio_source \<Rightarrow> bool" where
  "source_wf a \<longleftrightarrow> length (as_buffer a) = 4096 \<and> audio_in_wf (as_input a) \<and> audio_out_wf (as_output a)"

text \<open>The sidebars of the map are live and different, and the heap is used from below.\<close>

definition sidebars_wf :: "('s, 'v) mixer \<Rightarrow> bool" where
  "sidebars_wf m \<longleftrightarrow> omap_wf (am_sidebars m) \<and> distinct (map snd (am_sidebars m)) \<and>
     (\<forall>p \<in> snd ` set (am_sidebars m). \<exists>sb. am_heap m p = Some sb \<and> length (sb_buffer sb) = 4096) \<and>
     (\<forall>p. am_next m \<le> p \<longrightarrow> am_heap m p = None) \<and> (\<forall>i \<in> fst ` set (am_sidebars m). i < am_numSidebars m)"

definition mixer_wf :: "('s, 'v) mixer \<Rightarrow> bool" where
  "mixer_wf m \<longleftrightarrow> omap_wf (am_audios m) \<and> sidebars_wf m \<and>
     (\<forall>a \<in> snd ` set (am_audios m). source_wf a \<and> (\<forall>p. as_sidebar a = Some p \<longrightarrow> p \<in> snd ` set (am_sidebars m)))"

definition default_live :: "('s, 'v) mixer \<Rightarrow> bool" where
  "default_live m \<longleftrightarrow> (\<exists>p. am_defaultSidebar m = Some p \<and> p \<in> snd ` set (am_sidebars m))"

lemma sidebar_live:
  assumes "sidebars_wf m" "(i, p) \<in> set (am_sidebars m)"
  obtains sb where "am_heap m p = Some sb" "length (sb_buffer sb) = 4096"
  using assms by (force simp: sidebars_wf_def)

section \<open>Reading the sources\<close>

text \<open>The samples of a source for a round, with silence behind them.\<close>

definition sample :: "nat \<Rightarrow> ('s, 'v) audio_source \<Rightarrow> nat \<Rightarrow> SWORD" where
  "sample n a k = (let xs = take n (fifo_elems (po_fifo (as_output a))) in if k < length xs then xs ! k else 0)"

lemma round8_bounds: "len \<le> round8 len" "round8 len \<le> len + 7" "len \<le> 4096 \<Longrightarrow> round8 len \<le> 4096"
  by (simp_all add: round8_def)

text \<open>The rest of the buffer is zeroed by half only: that is enough for the seven samples by which \<open>len\<close> is rounded,
  unless the buffer is all but full.\<close>

lemma zero_bytes_ok:
  assumes "length d = 4096" "len \<le> 4096"
  shows "\<exists>d'. zero_bytes len (4096 - len) d = Ok d' \<and> length d' = 4096 \<and> (\<forall>k < len. d' ! k = d ! k) \<and>
    (len \<le> 4082 \<longrightarrow> (\<forall>k. len \<le> k \<longrightarrow> k < round8 len \<longrightarrow> d' ! k = 0))"
proof -
  let ?k = "(4096 - len) div 2" and ?rest = "drop (len + (4096 - len) div 2) d"
  let ?tail = "if odd (4096 - len) then map2 (\<lambda>j s. if j = 0 then s AND 0xFF00 else s) [0..<length ?rest] ?rest else ?rest"
  have "zero_bytes len (4096 - len) d = Ok (take len d @ replicate ?k 0 @ ?tail)"
    using assms by (simp add: zero_bytes_def Let_def)
  moreover have "length (take len d @ replicate ?k 0 @ ?tail) = 4096"
    using assms by auto
  moreover have "(take len d @ replicate ?k 0 @ ?tail) ! k = d ! k" if "k < len" for k
    using that assms by (simp add: nth_append)
  moreover have "(take len d @ replicate ?k 0 @ ?tail) ! k = 0" if "len \<le> 4082" "len \<le> k" "k < round8 len" for k
  proof -
    from that round8_bounds(2) [of len] have "k - len < ?k" by linarith
    then show ?thesis using assms that by (simp add: nth_append)
  qed
  ultimately show ?thesis by blast
qed

lemma read_source_ok:
  assumes wf: "source_wf a" and n: "n \<le> 4096"
  shows "\<exists>a'. read_source n a = Ok a' \<and> source_wf a' \<and> po_playRate (as_output a') = po_playRate (as_output a) \<and>
    as_input a' = as_input a \<and> as_sidebar a' = as_sidebar a \<and>
    as_len a' = min n (length (fifo_elems (po_fifo (as_output a)))) \<and>
    (\<forall>k < as_len a'. as_buffer a' ! k = sample n a k) \<and>
    (n \<le> 4082 \<longrightarrow> (\<forall>k < round8 (as_len a'). as_buffer a' ! k = sample n a k))"
proof -
  let ?xs = "take n (fifo_elems (po_fifo (as_output a)))"
  from wf GetSamples_ok [of "as_output a" n] obtain q where
    q: "GetSamples n (as_output a) = Ok (?xs, q)" "audio_out_wf q" by (auto simp: source_wf_def)
  let ?d = "?xs @ drop (length ?xs) (as_buffer a)"
  from wf n have c: "copy_in 0 ?xs (as_buffer a) = Ok ?d" "length ?d = 4096"
    by (auto simp: copy_in_def source_wf_def)
  from n have len: "length ?xs \<le> 4096" by simp
  from zero_bytes_ok [OF c(2) len] obtain d' where
    d: "zero_bytes (length ?xs) (4096 - length ?xs) ?d = Ok d'" "length d' = 4096" and
    own: "\<forall>k < length ?xs. d' ! k = ?d ! k" and
    zero: "length ?xs \<le> 4082 \<longrightarrow> (\<forall>k. length ?xs \<le> k \<longrightarrow> k < round8 (length ?xs) \<longrightarrow> d' ! k = 0)" by blast
  obtain v q' where g: "GetVAD (of_nat n) q = (v, q')" by (cases "GetVAD (of_nat n) q")
  with q(2) pipe_rate_wf(5) [of "of_nat n" q] have "audio_out_wf q'" by simp
  moreover have "po_playRate q' = po_playRate (as_output a)"
    using q(1) g by (auto simp: GetSamples_def GetVAD_def Let_def)
  ultimately have q': "audio_out_wf q'" "po_playRate q' = po_playRate (as_output a)" by simp_all
  with wf d(2) have "source_wf (a\<lparr>as_len := length ?xs, as_buffer := d', as_output := q', as_vad := v\<rparr>)"
    by (simp add: source_wf_def)
  moreover have "read_source n a = Ok (a\<lparr>as_len := length ?xs, as_buffer := d', as_output := q', as_vad := v\<rparr>)"
    using q c d g by (simp add: read_source_def Let_def MIXER_BUFFER_SIZE_def)
  moreover have le: "\<forall>k < length ?xs. d' ! k = sample n a k"
    using own by (simp add: sample_def Let_def nth_append)
  moreover have "\<forall>k < round8 (length ?xs). d' ! k = sample n a k" if "n \<le> 4082"
  proof (intro allI impI)
    fix k
    assume k: "k < round8 (length ?xs)"
    show "d' ! k = sample n a k"
    proof (cases "k < length ?xs")
      case True
      with le show ?thesis by blast
    next
      case False
      moreover have "length ?xs \<le> 4082" using that by simp
      ultimately have "d' ! k = 0" using zero k by (meson not_less)
      with False show ?thesis by (auto simp: sample_def Let_def)
    qed
  qed
  ultimately show ?thesis using q'(2) by (intro exI [of _ "a\<lparr>as_len := length ?xs, as_buffer := d', as_output := q', as_vad := v\<rparr>"])
      (simp add: min.commute)
qed

text \<open>The source a read gives, and what it adds to a sidebar: its samples, with up to seven more of its buffer.\<close>

definition read_to :: "nat \<Rightarrow> ('s, 'v) audio_source \<Rightarrow> ('s, 'v) audio_source" where
  "read_to n a = (case read_source n a of Ok a' \<Rightarrow> a' | Fault e \<Rightarrow> a)"

definition contrib :: "nat \<Rightarrow> ('s, 'v) audio_source \<Rightarrow> nat \<Rightarrow> SWORD" where
  "contrib n b k = (if k < round8 (as_len (read_to n b)) then as_buffer (read_to n b) ! k else 0)"

lemma read_to:
  assumes "source_wf a" "n \<le> 4096"
  shows "read_source n a = Ok (read_to n a)" "source_wf (read_to n a)" "as_input (read_to n a) = as_input a"
    "as_sidebar (read_to n a) = as_sidebar a" "length (as_buffer (read_to n a)) = 4096"
    "as_len (read_to n a) = min n (length (fifo_elems (po_fifo (as_output a))))"
    "\<forall>k < as_len (read_to n a). as_buffer (read_to n a) ! k = sample n a k"
    "n \<le> 4082 \<longrightarrow> (\<forall>k < round8 (as_len (read_to n a)). as_buffer (read_to n a) ! k = sample n a k)"
    "po_playRate (as_output (read_to n a)) = po_playRate (as_output a)"
  using read_source_ok [OF assms] by (auto simp: read_to_def source_wf_def)

lemma sample_beyond: "min n (ff_len (po_fifo (as_output b))) \<le> k \<Longrightarrow> sample n b k = 0"
  by (auto simp: sample_def Let_def)

lemma contrib_sample:
  assumes "source_wf b" "n \<le> 4082"
  shows "contrib n b k = sample n b k"
proof (cases "k < round8 (as_len (read_to n b))")
  case True
  with assms read_to(8) [of b n] show ?thesis by (simp add: contrib_def)
next
  case False
  with round8_bounds(1) [of "as_len (read_to n b)"] have "as_len (read_to n b) \<le> k" by simp
  with assms read_to(6) [of b n] have "sample n b k = 0" by (intro sample_beyond) simp
  with False show ?thesis by (simp add: contrib_def)
qed

section \<open>Adding up\<close>

lemma sse_map2_ok:
  assumes "length d = 4096" "length s = 4096" "len \<le> 4096"
  shows "\<exists>r. sse_map2 f len d s = Ok r \<and> length r = 4096 \<and>
    (\<forall>k < 4096. r ! k = (if k < round8 len then f (d ! k) (s ! k) else d ! k))"
  using assms round8_bounds(3) [of len]
  by (auto simp: sse_map2_def Let_def nth_append)

text \<open>What a sidebar holds once the source \<open>b\<close>, read into \<open>a\<close>, has been offered to it.\<close>

definition offered :: "nat \<Rightarrow> int \<Rightarrow> ('s, 'v) audio_source \<Rightarrow> sidebar \<Rightarrow> sidebar \<Rightarrow> bool" where
  "offered n i b sb sb' \<longleftrightarrow> sb_participants sb' = sb_participants sb \<and> length (sb_buffer sb') = 4096 \<and>
     (\<forall>k < 4096. sb_buffer sb' ! k = sb_buffer sb ! k + (if HasParticipant i sb then contrib n b k else 0))"

lemma mix_into_ok:
  assumes sb: "am_heap m p = Some sb" "length (sb_buffer sb) = 4096" and b: "source_wf b" "n \<le> 4096"
  shows "\<exists>sb'. mix_into i (read_to n b) p m = Ok (m\<lparr>am_heap := (am_heap m)(p \<mapsto> sb')\<rparr>) \<and> offered n i b sb sb'"
proof (cases "HasParticipant i sb")
  case True
  let ?a = "read_to n b"
  from b read_to(6) [OF b] have len: "as_len ?a \<le> 4096" by simp
  from sse_map2_ok [OF sb(2) read_to(5) [OF b] len, of "(+)"] obtain r where
    r: "sse_map2 (+) (as_len ?a) (sb_buffer sb) (as_buffer ?a) = Ok r" "length r = 4096"
    "\<forall>k < 4096. r ! k = (if k < round8 (as_len ?a) then sb_buffer sb ! k + as_buffer ?a ! k else sb_buffer sb ! k)"
    by auto
  then have "r ! k = sb_buffer sb ! k + contrib n b k" if "k < 4096" for k
    using that by (simp add: contrib_def)
  with True r len sb show ?thesis
    by (intro exI [of _ "sb\<lparr>sb_buffer := r\<rparr>"])
      (simp add: mix_into_def load_sidebar_def Sidebar_Update_def MIXER_BUFFER_SIZE_def offered_def)
next
  case False
  with sb show ?thesis
    by (intro exI [of _ sb]) (simp add: mix_into_def load_sidebar_def offered_def fun_upd_idem)
qed

text \<open>One source is offered to every sidebar of a list of different ones.\<close>

lemma mix_into_all:
  assumes "distinct (map snd sbs)" and b: "source_wf b" "n \<le> 4096"
    and "\<forall>p \<in> snd ` set sbs. \<exists>sb. am_heap m p = Some sb \<and> length (sb_buffer sb) = 4096"
  shows "\<exists>h. foldR (\<lambda>(_, p). mix_into i (read_to n b) p) sbs m = Ok (m\<lparr>am_heap := h\<rparr>) \<and>
    (\<forall>p. p \<notin> snd ` set sbs \<longrightarrow> h p = am_heap m p) \<and>
    (\<forall>p \<in> snd ` set sbs. \<exists>sb sb'. am_heap m p = Some sb \<and> h p = Some sb' \<and> offered n i b sb sb')"
  using assms
proof (induction sbs arbitrary: m)
  case Nil
  then show ?case by (intro exI [of _ "am_heap m"]) simp
next
  case (Cons e sbs)
  obtain j p where e: "e = (j, p)" by (cases e)
  from Cons.prems(4) e obtain sb where sb: "am_heap m p = Some sb" "length (sb_buffer sb) = 4096" by auto
  from mix_into_ok [OF sb b, of i] obtain sb' where
    s: "mix_into i (read_to n b) p m = Ok (m\<lparr>am_heap := (am_heap m)(p \<mapsto> sb')\<rparr>)" "offered n i b sb sb'" by blast
  let ?m = "m\<lparr>am_heap := (am_heap m)(p \<mapsto> sb')\<rparr>"
  from Cons.prems(1) e have p: "p \<notin> snd ` set sbs" "distinct (map snd sbs)" by auto
  have "\<forall>q \<in> snd ` set sbs. \<exists>sb. am_heap ?m q = Some sb \<and> length (sb_buffer sb) = 4096"
    using p Cons.prems(4) by auto
  from Cons.IH [OF p(2) b this] obtain h where
    h1: "foldR (\<lambda>(_, p). mix_into i (read_to n b) p) sbs ?m = Ok (?m\<lparr>am_heap := h\<rparr>)" and
    h2: "\<forall>q. q \<notin> snd ` set sbs \<longrightarrow> h q = am_heap ?m q" and
    h3: "\<forall>q \<in> snd ` set sbs. \<exists>sb sb'. am_heap ?m q = Some sb \<and> h q = Some sb' \<and> offered n i b sb sb'"
    by (elim exE conjE)
  note h = h1 h2 [rule_format] h3 [rule_format]
  have "\<exists>sb sb'. am_heap m q = Some sb \<and> h q = Some sb' \<and> offered n i b sb sb'" if "q \<in> snd ` set (e # sbs)" for q
  proof (cases "q = p")
    case True
    with h(2) [of p] p sb s show ?thesis by simp
  next
    case False
    with that e h(3) [of q] show ?thesis by auto
  qed
  moreover have "h q = am_heap m q" if "q \<notin> snd ` set (e # sbs)" for q
    using that e h(2) [of q] by simp
  ultimately show ?case using h(1) s(1) e by (intro exI [of _ h]) simp
qed

section \<open>The first pass\<close>

lemma map_put_middle:
  assumes "omap_wf (xs @ (i, v) # ys)"
  shows "map_put i w (xs @ (i, v) # ys) = xs @ (i, w) # ys"
  using assms by (induction xs) (auto simp: omap_wf_Cons)

lemma omap_wf_keys: "map fst m = map fst m' \<Longrightarrow> omap_wf m = omap_wf m'"
  by (simp add: omap_wf_def)

text \<open>What the sources \<open>es\<close> add to a sidebar.\<close>

definition total :: "nat \<Rightarrow> (int \<times> ('s, 'v) audio_source) list \<Rightarrow> sidebar \<Rightarrow> nat \<Rightarrow> SWORD" where
  "total n es sb k = (\<Sum>(i, a)\<leftarrow>es. if HasParticipant i sb then contrib n a k else 0)"

definition added :: "nat \<Rightarrow> (int \<times> ('s, 'v) audio_source) list \<Rightarrow> sidebar \<Rightarrow> sidebar \<Rightarrow> bool" where
  "added n es sb sb' \<longleftrightarrow> sb_participants sb' = sb_participants sb \<and> length (sb_buffer sb') = 4096 \<and>
     (\<forall>k < 4096. sb_buffer sb' ! k = sb_buffer sb ! k + total n es sb k)"

lemma added_offered: "offered n i a sb sb' \<Longrightarrow> added n es sb' sb'' \<Longrightarrow> added n ((i, a) # es) sb sb''"
  by (auto simp: offered_def added_def total_def HasParticipant_def add.assoc)

lemma first_pass_ok:
  assumes "\<And>a. a \<in> snd ` set es \<Longrightarrow> source_wf a" and n: "n \<le> 4096"
    and "am_audios m = old @ es" "omap_wf (am_audios m)" and d: "distinct (map snd (am_sidebars m))"
    and "\<And>p. p \<in> snd ` set (am_sidebars m) \<Longrightarrow> \<exists>sb. am_heap m p = Some sb \<and> length (sb_buffer sb) = 4096"
  shows "\<exists>h. foldR (first_pass n) es m = Ok (m\<lparr>am_audios := old @ map_values (read_to n) es, am_heap := h\<rparr>) \<and>
    (\<forall>p. p \<notin> snd ` set (am_sidebars m) \<longrightarrow> h p = am_heap m p) \<and>
    (\<forall>p \<in> snd ` set (am_sidebars m). \<exists>sb sb'. am_heap m p = Some sb \<and> h p = Some sb' \<and> added n es sb sb')"
  using assms
proof (induction es arbitrary: old m)
  case Nil
  from Nil.prems(3) have "m\<lparr>am_audios := old, am_heap := am_heap m\<rparr> = m" by simp
  with Nil.prems(6) show ?case
    by (intro exI [of _ "am_heap m"]) (fastforce simp: map_values_def added_def total_def)
next
  case (Cons e es)
  obtain i a where e: "e = (i, a)" by (cases e)
  from Cons.prems(1) e have b: "source_wf a" by simp
  note a = read_to [OF b n]
  let ?a = "read_to n a" and ?sbs = "am_sidebars m"
  let ?m1 = "m\<lparr>am_audios := (old @ [(i, ?a)]) @ es\<rparr>"
  from e Cons.prems(3,4) have put: "map_put i ?a (am_audios m) = (old @ [(i, ?a)]) @ es"
    by (simp add: map_put_middle)
  from mix_into_all [OF Cons.prems(5) b n, of ?m1 i] Cons.prems(6)
  have "\<exists>h. foldR (\<lambda>(_, p). mix_into i ?a p) ?sbs ?m1 = Ok (?m1\<lparr>am_heap := h\<rparr>) \<and>
      (\<forall>p. p \<notin> snd ` set ?sbs \<longrightarrow> h p = am_heap m p) \<and>
      (\<forall>p \<in> snd ` set ?sbs. \<exists>sb sb'. am_heap m p = Some sb \<and> h p = Some sb' \<and> offered n i a sb sb')"
    by simp
  then obtain h where
    h1: "foldR (\<lambda>(_, p). mix_into i ?a p) ?sbs ?m1 = Ok (?m1\<lparr>am_heap := h\<rparr>)" and
    h2: "\<forall>p. p \<notin> snd ` set ?sbs \<longrightarrow> h p = am_heap m p" and
    h3: "\<forall>p \<in> snd ` set ?sbs. \<exists>sb sb'. am_heap m p = Some sb \<and> h p = Some sb' \<and> offered n i a sb sb'"
    by (elim exE conjE)
  note h = h1 h2 [rule_format] h3 [rule_format]
  let ?m2 = "?m1\<lparr>am_heap := h\<rparr>"
  have first: "first_pass n e m = Ok ?m2"
    using a(1) e put h(1) by (simp add: first_pass_def)
  have keys: "map fst (am_audios ?m2) = map fst (am_audios m)" using Cons.prems(3) e by simp
  have live: "\<exists>sb. am_heap ?m2 p = Some sb \<and> length (sb_buffer sb) = 4096" if "p \<in> snd ` set (am_sidebars ?m2)" for p
    using that h(3) [of p] by (auto simp: offered_def)
  have wf2: "omap_wf (am_audios ?m2)" using omap_wf_keys [OF keys] Cons.prems(4) by simp
  have "\<exists>h'. foldR (first_pass n) es ?m2 =
      Ok (?m2\<lparr>am_audios := (old @ [(i, ?a)]) @ map_values (read_to n) es, am_heap := h'\<rparr>) \<and>
    (\<forall>p. p \<notin> snd ` set (am_sidebars ?m2) \<longrightarrow> h' p = am_heap ?m2 p) \<and>
    (\<forall>p \<in> snd ` set (am_sidebars ?m2). \<exists>sb sb'. am_heap ?m2 p = Some sb \<and> h' p = Some sb' \<and> added n es sb sb')"
    by (rule Cons.IH [OF _ n _ wf2 _ live]) (use Cons.prems(1,5) in simp_all)
  then have "\<exists>h'. foldR (first_pass n) es ?m2 =
      Ok (?m2\<lparr>am_audios := (old @ [(i, ?a)]) @ map_values (read_to n) es, am_heap := h'\<rparr>) \<and>
    (\<forall>p. p \<notin> snd ` set ?sbs \<longrightarrow> h' p = h p) \<and>
    (\<forall>p \<in> snd ` set ?sbs. \<exists>sb sb'. h p = Some sb \<and> h' p = Some sb' \<and> added n es sb sb')"
    by simp
  then obtain h' where
    h1': "foldR (first_pass n) es ?m2 = Ok (?m2\<lparr>am_audios := (old @ [(i, ?a)]) @ map_values (read_to n) es, am_heap := h'\<rparr>)" and
    h2': "\<forall>p. p \<notin> snd ` set ?sbs \<longrightarrow> h' p = h p" and
    h3': "\<forall>p \<in> snd ` set ?sbs. \<exists>sb sb'. h p = Some sb \<and> h' p = Some sb' \<and> added n es sb sb'"
    by (elim exE conjE)
  note h' = h1' h2' [rule_format] h3' [rule_format]
  have "\<exists>sb sb'. am_heap m p = Some sb \<and> h' p = Some sb' \<and> added n (e # es) sb sb'" if "p \<in> snd ` set ?sbs" for p
    using h(3) [OF that] h'(3) [OF that] e by (auto intro: added_offered)
  moreover have "foldR (first_pass n) (e # es) m =
      Ok (m\<lparr>am_audios := old @ map_values (read_to n) (e # es), am_heap := h'\<rparr>)"
    using first h'(1) e by (simp add: map_values_def)
  ultimately show ?case using h(2) h'(2) by (intro exI [of _ h']) simp
qed

section \<open>The second pass\<close>

lemma reset_all:
  assumes "distinct (map snd sbs)" and "\<forall>p \<in> snd ` set sbs. \<exists>sb. am_heap m p = Some sb"
  shows "foldR (\<lambda>(_, p). update_sidebar p Sidebar_Reset) sbs m = Ok (m\<lparr>am_heap := \<lambda>p.
    if p \<in> snd ` set sbs then map_option Sidebar_Reset (am_heap m p) else am_heap m p\<rparr>)"
  using assms
proof (induction sbs arbitrary: m)
  case Nil
  then show ?case by simp
next
  case (Cons e sbs)
  obtain j p where e: "e = (j, p)" by (cases e)
  from Cons.prems(2) e obtain sb where sb: "am_heap m p = Some sb" by auto
  let ?m = "m\<lparr>am_heap := (am_heap m)(p \<mapsto> Sidebar_Reset sb)\<rparr>"
  from Cons.prems(1) e have p: "p \<notin> snd ` set sbs" "distinct (map snd sbs)" by auto
  have "\<forall>q \<in> snd ` set sbs. \<exists>sb. am_heap ?m q = Some sb" using Cons.prems(2) by auto
  note rest = Cons.IH [OF p(2) this]
  have "update_sidebar p Sidebar_Reset m = Ok ?m" using sb by (simp add: update_sidebar_def load_sidebar_def)
  with rest e have "foldR (\<lambda>(_, p). update_sidebar p Sidebar_Reset) (e # sbs) m =
      Ok (?m\<lparr>am_heap := \<lambda>q. if q \<in> snd ` set sbs then map_option Sidebar_Reset (am_heap ?m q) else am_heap ?m q\<rparr>)"
    by simp
  also have "(\<lambda>q. if q \<in> snd ` set sbs then map_option Sidebar_Reset (am_heap ?m q) else am_heap ?m q) =
      (\<lambda>q. if q \<in> snd ` set (e # sbs) then map_option Sidebar_Reset (am_heap m q) else am_heap m q)"
    using p(1) sb e by (intro ext) auto
  finally show ?case by simp
qed

lemma without_own_ok:
  assumes b: "source_wf b" "n \<le> 4096" and m: "length mixed = 4096"
  shows "\<exists>d. without_own n (read_to n b) mixed = Ok d \<and> length d = 4096 \<and> take n d = map (\<lambda>k. mixed ! k - sample n b k) [0..<n]"
proof -
  let ?a = "read_to n b"
  from read_to(5,6) [OF b] b(2) have len: "as_len ?a \<le> n" "n \<le> 4096" "length (as_buffer ?a) = 4096" by auto
  then have "as_len ?a \<le> 4096" by simp
  from sse_map2_ok [OF len(3) m this, of "\<lambda>b x. x - b"] obtain r where
    r: "sse_map2 (\<lambda>b x. x - b) (as_len ?a) (as_buffer ?a) mixed = Ok r" "length r = 4096"
    "\<forall>k < 4096. r ! k = (if k < round8 (as_len ?a) then mixed ! k - as_buffer ?a ! k else as_buffer ?a ! k)"
    by auto
  have own: "r ! k = mixed ! k - sample n b k" if "k < as_len ?a" for k
    using that r(3) len read_to(7) [OF b] round8_bounds(1) [of "as_len ?a"] by auto
  have rest: "sample n b k = 0" if "as_len ?a \<le> k" for k
    using that read_to(6) [OF b] by (intro sample_beyond) simp
  show ?thesis
  proof (cases "as_len ?a < n")
    case True
    let ?d = "take (as_len ?a) r @ take (n - as_len ?a) (drop (as_len ?a) mixed) @ drop n r"
    from True len m r have "without_own n ?a mixed = Ok ?d" "length ?d = 4096"
      by (auto simp: without_own_def copy_out_def copy_in_def)
    moreover have "take n ?d = map (\<lambda>k. mixed ! k - sample n b k) [0..<n]"
      by (rule nth_equalityI) (use True len m r own rest in \<open>auto simp: nth_append\<close>)
    ultimately show ?thesis by blast
  next
    case False
    with r(1) have "without_own n ?a mixed = Ok r" by (simp add: without_own_def)
    moreover have "take n r = map (\<lambda>k. mixed ! k - sample n b k) [0..<n]"
      by (rule nth_equalityI) (use False len r own in auto)
    ultimately show ?thesis using r(2) by blast
  qed
qed

text \<open>What the source \<open>b\<close>, read into \<open>a\<close>, is given from the sidebars of a heap; \<open>a'\<close> is the source afterwards.\<close>

definition mix_for :: "nat \<Rightarrow> int \<Rightarrow> ('s, 'v) audio_source \<Rightarrow> sidebar \<Rightarrow> SWORD list" where
  "mix_for n i b sb = map (\<lambda>k. sb_buffer sb ! k - (if HasParticipant i sb then sample n b k else 0)) [0..<n]"

definition given ::
  "'s speex \<Rightarrow> nat \<Rightarrow> (nat \<Rightarrow> sidebar option) \<Rightarrow> int \<Rightarrow> ('s, 'v) audio_source \<Rightarrow> ('s, 'v) audio_source \<Rightarrow> bool" where
  "given rs n h i b a' \<longleftrightarrow> source_wf a' \<and> as_sidebar a' = as_sidebar b \<and>
     po_playRate (as_output a') = po_playRate (as_output b) \<and>
     (case as_sidebar b of
        None \<Rightarrow> as_input a' = as_input b
      | Some p \<Rightarrow> \<exists>sb r. h p = Some sb \<and> PutSamples rs (mix_for n i b sb) (as_input b) = Ok (r, as_input a'))"

lemma second_pass_one:
  assumes b: "source_wf b" and n: "n \<le> 4096"
    and h: "\<And>p. as_sidebar b = Some p \<Longrightarrow> \<exists>sb. am_heap m p = Some sb \<and> length (sb_buffer sb) = 4096"
    and au: "am_audios m = old @ (i, read_to n b) # es" "omap_wf (am_audios m)"
  shows "\<exists>a'. second_pass rs n (i, read_to n b) m = Ok (m\<lparr>am_audios := old @ (i, a') # es\<rparr>) \<and>
    given rs n (am_heap m) i b a'"
proof (cases "as_sidebar b")
  case None
  with au have "second_pass rs n (i, read_to n b) m = Ok (m\<lparr>am_audios := old @ (i, read_to n b) # es\<rparr>)"
    using read_to [OF b n] by (simp add: second_pass_def)
  moreover have "given rs n (am_heap m) i b (read_to n b)"
    using None read_to [OF b n] by (simp add: given_def)
  ultimately show ?thesis by blast
next
  case (Some p)
  let ?a = "read_to n b"
  note a = read_to [OF b n]
  from h [OF Some] obtain sb where sb: "am_heap m p = Some sb" "length (sb_buffer sb) = 4096" by blast
  have put: "map_put i x (am_audios m) = old @ (i, x) # es" for x
    using au by (simp add: map_put_middle)
  from without_own_ok [OF b n sb(2)] obtain d where
    d: "without_own n ?a (sb_buffer sb) = Ok d" "length d = 4096"
    "take n d = map (\<lambda>k. sb_buffer sb ! k - sample n b k) [0..<n]" by blast
  let ?d = "if HasParticipant i sb then d else as_buffer ?a"
  have mix: "take n (if HasParticipant i sb then d else sb_buffer sb) = mix_for n i b sb"
    using d n sb(2) by (auto simp: mix_for_def intro!: nth_equalityI)
  from a(2,3) have "audio_in_wf (as_input b)" using b by (simp add: source_wf_def)
  from PutSamples_ok [OF this, of rs "mix_for n i b sb"] obtain r q where
    q: "PutSamples rs (mix_for n i b sb) (as_input b) = Ok (r, q)" "audio_in_wf q" by blast
  let ?a' = "?a\<lparr>as_buffer := ?d, as_input := q\<rparr>"
  have "second_pass rs n (i, ?a) m = Ok (m\<lparr>am_audios := old @ (i, ?a') # es\<rparr>)"
    using Some sb a(3,4) d(1) mix q put by (cases "HasParticipant i sb") (simp_all add: second_pass_def load_sidebar_def Let_def)
  moreover have "given rs n (am_heap m) i b ?a'"
    using Some a(2,4,9) b sb q d(2) by (auto simp: given_def source_wf_def)
  ultimately show ?thesis by blast
qed

lemma second_pass_ok:
  assumes "\<And>b. b \<in> snd ` set bs \<Longrightarrow> source_wf b" and n: "n \<le> 4096"
    and "\<And>b p. b \<in> snd ` set bs \<Longrightarrow> as_sidebar b = Some p \<Longrightarrow> \<exists>sb. am_heap m p = Some sb \<and> length (sb_buffer sb) = 4096"
    and "am_audios m = old @ map_values (read_to n) bs" "omap_wf (am_audios m)"
  shows "\<exists>es. foldR (second_pass rs n) (map_values (read_to n) bs) m = Ok (m\<lparr>am_audios := old @ es\<rparr>) \<and>
    list_all2 (\<lambda>(i, b) (j, a'). j = i \<and> given rs n (am_heap m) i b a') bs es"
  using assms
proof (induction bs arbitrary: old m)
  case Nil
  then show ?case by (intro exI [of _ "[]"]) (simp add: map_values_def)
next
  case (Cons e bs)
  obtain i b where e: "e = (i, b)" by (cases e)
  have wf: "source_wf b" using Cons.prems(1) e by simp
  have "\<exists>a'. second_pass rs n (i, read_to n b) m = Ok (m\<lparr>am_audios := old @ (i, a') # map_values (read_to n) bs\<rparr>) \<and>
      given rs n (am_heap m) i b a'"
    by (rule second_pass_one [OF wf n]) (use Cons.prems(3-5) e in \<open>auto simp: map_values_def\<close>)
  then obtain a' where a': "second_pass rs n (i, read_to n b) m =
      Ok (m\<lparr>am_audios := (old @ [(i, a')]) @ map_values (read_to n) bs\<rparr>)" "given rs n (am_heap m) i b a'" by auto
  let ?m = "m\<lparr>am_audios := (old @ [(i, a')]) @ map_values (read_to n) bs\<rparr>"
  have keys: "map fst (am_audios ?m) = map fst (am_audios m)" using Cons.prems(4) e by (simp add: map_values_def)
  have "\<exists>es. foldR (second_pass rs n) (map_values (read_to n) bs) ?m = Ok (?m\<lparr>am_audios := (old @ [(i, a')]) @ es\<rparr>) \<and>
      list_all2 (\<lambda>(i, b) (j, a'). j = i \<and> given rs n (am_heap ?m) i b a') bs es"
  proof (rule Cons.IH [OF _ n])
    fix b p
    assume "b \<in> snd ` set bs"
    then have "b \<in> snd ` set (e # bs)" by auto
    then show "source_wf b" and "as_sidebar b = Some p \<Longrightarrow> \<exists>sb. am_heap ?m p = Some sb \<and> length (sb_buffer sb) = 4096"
      using Cons.prems(1,3) by simp_all
  qed (use Cons.prems(5) omap_wf_keys [OF keys] in simp_all)
  then obtain es where
    es: "foldR (second_pass rs n) (map_values (read_to n) bs) ?m = Ok (?m\<lparr>am_audios := (old @ [(i, a')]) @ es\<rparr>)"
    "list_all2 (\<lambda>(i, b) (j, a'). j = i \<and> given rs n (am_heap m) i b a') bs es" by auto
  show ?case
    using a' es e by (intro exI [of _ "(i, a') # es"]) (simp add: map_values_def)
qed

section \<open>A round\<close>

lemma total_others:
  assumes "distinct (map fst es)" "(i, a) \<in> set es" and "\<forall>e \<in> set es. contrib n (snd e) k = sample n (snd e) k"
  shows "total n es sb k - (if HasParticipant i sb then sample n a k else 0) =
    (\<Sum>(j, b)\<leftarrow>filter (\<lambda>e. fst e \<noteq> i \<and> HasParticipant (fst e) sb) es. sample n b k)"
  using assms
proof (induction es)
  case (Cons e es)
  obtain j b where e: "e = (j, b)" by (cases e)
  have none: "total n es sb k = (\<Sum>(j, b)\<leftarrow>filter (\<lambda>e. fst e \<noteq> i \<and> HasParticipant (fst e) sb) es. sample n b k)"
    if "i \<notin> fst ` set es"
    using that Cons.prems(3) by (induction es) (auto simp: total_def)
  show ?case
  proof (cases "j = i")
    case True
    with Cons.prems e have "i \<notin> fst ` set es" "a = b" by (auto simp: rev_image_eqI)
    with none True e Cons.prems(3) show ?thesis by (simp add: total_def)
  next
    case False
    with Cons e have "total n es sb k - (if HasParticipant i sb then sample n a k else 0) =
      (\<Sum>(j, b)\<leftarrow>filter (\<lambda>e. fst e \<noteq> i \<and> HasParticipant (fst e) sb) es. sample n b k)" by auto
    with False e Cons.prems(3) show ?thesis by (simp add: total_def algebra_simps)
  qed
qed simp

text \<open>The sum of the others: what the sources of the participants of a sidebar send, without one's own.\<close>

definition mix_of_others :: "nat \<Rightarrow> ('s, 'v) mixer \<Rightarrow> sidebar \<Rightarrow> int \<Rightarrow> SWORD list" where
  "mix_of_others n m sb i =
     map (\<lambda>k. \<Sum>(j, b)\<leftarrow>filter (\<lambda>e. fst e \<noteq> i \<and> HasParticipant (fst e) sb) (am_audios m). sample n b k) [0..<n]"

lemma added_mix_for:
  assumes "added n (am_audios m) (Sidebar_Reset sb) sb'" "(i, b) \<in> set (am_audios m)" "omap_wf (am_audios m)" "n \<le> 4082"
    "\<And>b. b \<in> snd ` set (am_audios m) \<Longrightarrow> source_wf b"
  shows "mix_for n i b sb' = mix_of_others n m sb i"
proof -
  have p: "HasParticipant j sb' = HasParticipant j sb" for j
    using assms(1) by (simp add: added_def HasParticipant_def Sidebar_Reset_def)
  have t: "total n (am_audios m) (Sidebar_Reset sb) k = total n (am_audios m) sb k" for k
    by (simp add: total_def HasParticipant_def Sidebar_Reset_def)
  have "sb_buffer sb' ! k = total n (am_audios m) sb k" if "k < n" for k
    using that assms(1,4) t by (simp add: added_def Sidebar_Reset_def MIXER_BUFFER_SIZE_def)
  moreover have "\<forall>e \<in> set (am_audios m). contrib n (snd e) k = sample n (snd e) k" for k
    using assms(4,5) by (auto intro: contrib_sample)
  ultimately show ?thesis
    using total_others [OF omap_wf_distinct [OF assms(3)] assms(2)] by (simp add: mix_for_def mix_of_others_def p)
qed

lemma mix_round_ok:
  assumes wf: "mixer_wf m" and n: "n \<le> 4096"
  shows "\<exists>es h. mix_round rs n m = Ok (m\<lparr>am_heap := h, am_audios := es\<rparr>) \<and> mixer_wf (m\<lparr>am_heap := h, am_audios := es\<rparr>) \<and>
    list_all2 (\<lambda>(i, b) (j, a'). j = i \<and> given rs n h i b a') (am_audios m) es \<and>
    (\<forall>p \<in> snd ` set (am_sidebars m). \<exists>sb sb'. am_heap m p = Some sb \<and> h p = Some sb' \<and>
       added n (am_audios m) (Sidebar_Reset sb) sb')"
proof -
  let ?sbs = "am_sidebars m" and ?bs = "am_audios m"
  from wf have au: "omap_wf ?bs" and sw: "\<And>b. b \<in> snd ` set ?bs \<Longrightarrow> source_wf b"
    and ptr: "\<And>b p. b \<in> snd ` set ?bs \<Longrightarrow> as_sidebar b = Some p \<Longrightarrow> p \<in> snd ` set ?sbs"
    and so: "omap_wf ?sbs" and d: "distinct (map snd ?sbs)"
    and live: "\<forall>p \<in> snd ` set ?sbs. \<exists>sb. am_heap m p = Some sb \<and> length (sb_buffer sb) = 4096"
    and unused: "\<And>p. am_next m \<le> p \<Longrightarrow> am_heap m p = None"
    and num: "\<forall>i \<in> fst ` set ?sbs. i < am_numSidebars m"
    by (auto simp: mixer_wf_def sidebars_wf_def)
  let ?h0 = "\<lambda>p. if p \<in> snd ` set ?sbs then map_option Sidebar_Reset (am_heap m p) else am_heap m p"
  let ?m0 = "m\<lparr>am_heap := ?h0\<rparr>"
  have reset: "foldR (\<lambda>(_, p). update_sidebar p Sidebar_Reset) ?sbs m = Ok ?m0"
    using live by (intro reset_all [OF d]) blast
  have live0: "\<exists>sb. am_heap ?m0 p = Some sb \<and> length (sb_buffer sb) = 4096" if "p \<in> snd ` set (am_sidebars ?m0)" for p
    using that live by (force simp: Sidebar_Reset_def MIXER_BUFFER_SIZE_def)
  have "\<exists>h. foldR (first_pass n) ?bs ?m0 = Ok (?m0\<lparr>am_audios := [] @ map_values (read_to n) ?bs, am_heap := h\<rparr>) \<and>
    (\<forall>p. p \<notin> snd ` set (am_sidebars ?m0) \<longrightarrow> h p = am_heap ?m0 p) \<and>
    (\<forall>p \<in> snd ` set (am_sidebars ?m0). \<exists>sb sb'. am_heap ?m0 p = Some sb \<and> h p = Some sb' \<and> added n ?bs sb sb')"
    by (rule first_pass_ok [OF sw n _ _ _ live0]) (use au d in simp_all)
  then obtain h where
    first: "foldR (first_pass n) ?bs ?m0 = Ok (m\<lparr>am_audios := map_values (read_to n) ?bs, am_heap := h\<rparr>)" and
    h_out: "\<forall>p. p \<notin> snd ` set (am_sidebars ?m0) \<longrightarrow> h p = am_heap ?m0 p" and
    h_in: "\<forall>p \<in> snd ` set (am_sidebars ?m0). \<exists>sb sb'. am_heap ?m0 p = Some sb \<and> h p = Some sb' \<and> added n ?bs sb sb'"
    by auto
  have h_added: "\<exists>sb sb'. am_heap m p = Some sb \<and> h p = Some sb' \<and> added n ?bs (Sidebar_Reset sb) sb'"
    if "p \<in> snd ` set ?sbs" for p
    using that h_in by force
  let ?m1 = "m\<lparr>am_audios := map_values (read_to n) ?bs, am_heap := h\<rparr>"
  have keys: "map fst (map_values (read_to n) ?bs) = map fst ?bs" by (simp add: map_values_def case_prod_beta)
  have live1: "\<exists>sb. am_heap ?m1 p = Some sb \<and> length (sb_buffer sb) = 4096"
    if "b \<in> snd ` set ?bs" "as_sidebar b = Some p" for b p
    using h_added [OF ptr [OF that]] by (auto simp: added_def)
  have "\<exists>es. foldR (second_pass rs n) (map_values (read_to n) ?bs) ?m1 = Ok (?m1\<lparr>am_audios := [] @ es\<rparr>) \<and>
      list_all2 (\<lambda>(i, b) (j, a'). j = i \<and> given rs n (am_heap ?m1) i b a') ?bs es"
    by (rule second_pass_ok [OF sw n live1]) (use au omap_wf_keys [OF keys] in simp_all)
  then obtain es where
    second: "foldR (second_pass rs n) (map_values (read_to n) ?bs) ?m1 = Ok (m\<lparr>am_heap := h, am_audios := es\<rparr>)" and
    es: "list_all2 (\<lambda>(i, b) (j, a'). j = i \<and> given rs n h i b a') ?bs es" by auto
  have run: "mix_round rs n m = Ok (m\<lparr>am_heap := h, am_audios := es\<rparr>)"
    using reset first second by (simp add: mix_round_def)
  have "map fst es = map fst ?bs"
    using es by (induction rule: list_all2_induct) auto
  then have "omap_wf es" using omap_wf_keys au by blast
  moreover have "source_wf a \<and> (\<forall>p. as_sidebar a = Some p \<longrightarrow> p \<in> snd ` set ?sbs)" if "a \<in> snd ` set es" for a
  proof -
    from that obtain k where k: "k < length es" "a = snd (es ! k)" by (force simp: in_set_conv_nth)
    with es have "k < length ?bs" "given rs n h (fst (?bs ! k)) (snd (?bs ! k)) a"
      by (auto simp: list_all2_conv_all_nth case_prod_beta)
    moreover from this(1) have "snd (?bs ! k) \<in> snd ` set ?bs" by simp
    ultimately show ?thesis using ptr [of "snd (?bs ! k)"] by (auto simp: given_def)
  qed
  moreover have "\<exists>sb. h p = Some sb \<and> length (sb_buffer sb) = 4096" if "p \<in> snd ` set ?sbs" for p
    using h_added [OF that] by (auto simp: added_def)
  moreover have "h p = None" if "am_next m \<le> p" for p
  proof -
    from unused [OF that] live have "p \<notin> snd ` set ?sbs" by force
    with h_out unused [OF that] show ?thesis by simp
  qed
  ultimately have "mixer_wf (m\<lparr>am_heap := h, am_audios := es\<rparr>)"
    using so d num by (simp add: mixer_wf_def sidebars_wf_def)
  with run es h_added show ?thesis by blast
qed

end
