(* ===== verification/AudioMixerProperties.thy ===== *)
theory AudioMixerProperties
  imports AudioMixing
begin

text \<open>
  The life of a mixer: the calls that are made on it and on its pipes, from its construction over \<open>Init\<close> and \<open>End\<close>, in any
  order between the rounds of the thread that mixes.  They keep the invariant and do not fault, under the conditions of
  \<open>allowed\<close>.  Then the properties of the mixer.
\<close>
















text \<open>The sidebar of number \<open>d\<close> is the default one.\<close>

definition default_is :: "int \<Rightarrow> ('s, 'v) mixer \<Rightarrow> bool" where
  "default_is d m \<longleftrightarrow> (\<exists>p. am_defaultSidebar m = Some p \<and> map_find (am_sidebars m) d = Some p)"

definition steady :: "int \<Rightarrow> ('s, 'v) mixer \<Rightarrow> bool" where
  "steady d m \<longleftrightarrow> mixer_wf m \<and> default_is d m"

section \<open>Every call keeps the invariant\<close>

lemma map_find_snd: "map_find m k = Some p \<Longrightarrow> p \<in> snd ` set m"
  by (drule map_find_Some_in) force

lemma steadyD:
  assumes "steady d m"
  shows steady_audios: "omap_wf (am_audios m)" and steady_sidebars: "omap_wf (am_sidebars m)"
    and steady_distinct: "distinct (map snd (am_sidebars m))"
    and steady_live: "p \<in> snd ` set (am_sidebars m) \<Longrightarrow> \<exists>sb. am_heap m p = Some sb \<and> length (sb_buffer sb) = 4096"
    and steady_default: "\<exists>p. am_defaultSidebar m = Some p \<and> p \<in> snd ` set (am_sidebars m)"
proof -
  from assms have wf: "mixer_wf m" "sidebars_wf m" "default_is d m" by (auto simp: steady_def mixer_wf_def)
  then show "omap_wf (am_audios m)" "omap_wf (am_sidebars m)" "distinct (map snd (am_sidebars m))"
    "p \<in> snd ` set (am_sidebars m) \<Longrightarrow> \<exists>sb. am_heap m p = Some sb \<and> length (sb_buffer sb) = 4096"
    unfolding mixer_wf_def sidebars_wf_def by blast+
  from wf(3) show "\<exists>p. am_defaultSidebar m = Some p \<and> p \<in> snd ` set (am_sidebars m)"
    unfolding default_is_def by (blast intro: map_find_snd)
qed

text \<open>What a source must be to be in the map.\<close>

definition source_ok :: "('s, 'v) mixer \<Rightarrow> ('s, 'v) audio_source \<Rightarrow> bool" where
  "source_ok m a \<longleftrightarrow> source_wf a \<and> (\<forall>p. as_sidebar a = Some p \<longrightarrow> p \<in> snd ` set (am_sidebars m))"

lemma mixer_wf_alt: "mixer_wf m \<longleftrightarrow> omap_wf (am_audios m) \<and> sidebars_wf m \<and> (\<forall>a \<in> snd ` set (am_audios m). source_ok m a)"
  by (simp add: mixer_wf_def source_ok_def)


lemma audios_update [simp]:
  "sidebars_wf (m\<lparr>am_audios := x\<rparr>) = sidebars_wf m" "default_is d (m\<lparr>am_audios := x\<rparr>) = default_is d m"
  "source_ok (m\<lparr>am_audios := x\<rparr>) = source_ok m"
  by (simp_all add: sidebars_wf_def default_is_def source_ok_def fun_eq_iff)





lemma participants_keep_buffer [simp]:
  "sb_buffer (AddParticipant i sb) = sb_buffer sb" "sb_buffer (RemoveParticipant i sb) = sb_buffer sb"
  by (simp_all add: AddParticipant_def RemoveParticipant_def)




















section \<open>The pipes\<close>












lemma keeps_mixing [simp]:
  "am_mixingAudio (snd (CreateSidebar junk m)) = am_mixingAudio m" "am_mixingAudio (snd (DeleteSidebar k m)) = am_mixingAudio m"
  "am_audios (snd (CreateSidebar junk m)) = am_audios m"
  by (simp_all add: CreateSidebar_def DeleteSidebar_def Let_def split: option.split)

lemma update_keeps_mixing: "update_sidebar p f m = Ok m' \<Longrightarrow> am_mixingAudio m' = am_mixingAudio m \<and> am_audios m' = am_audios m"
  by (auto simp: update_sidebar_def load_sidebar_def split: option.splits)



section \<open>The invariant of a run\<close>

definition play_rate :: "('s, 'v) mixer \<Rightarrow> int \<Rightarrow> DWORD option" where
  "play_rate m i = map_option (\<lambda>a. po_playRate (as_output a)) (map_find (am_audios m) i)"

text \<open>A frame that is held belongs to a participant, whose rate is not zero when the frame is voice.\<close>

definition playing_ok :: "('s, 'v) mixer \<Rightarrow> (int, SWORD list \<times> int) omap \<Rightarrow> bool" where
  "playing_ok m ps \<longleftrightarrow> omap_wf ps \<and>
     (\<forall>i ys w. map_find ps i = Some (ys, w) \<longrightarrow> (\<exists>r. play_rate m i = Some r \<and> (w > 0 \<longrightarrow> r \<noteq> 0)))"





lemma update_sidebars_rate:
  "foldR (\<lambda>(_, p). update_sidebar p f) sbs m = Ok m' \<Longrightarrow> am_audios m' = am_audios m"
  by (induction sbs arbitrary: m) (auto dest!: update_keeps_mixing)
















lemma playing_nothing [simp]: "playing_ok m []"
  by (simp add: playing_ok_def omap_wf_def map_find_def)









section \<open>The properties\<close>

text \<open>C23: Everybody hears the others.  In a round of at most 4082 samples, a participant that records at the rate of
  the mixer gets, behind the samples it has not read yet, the sum of what the participants of its sidebar sent, without
  its own samples: the subtraction undoes the addition exactly, even where the sum has wrapped around.  When the samples
  would not fit behind the unread ones, the unread ones are dropped.\<close>

theorem everybody_hears_the_others:
  assumes wf: "mixer_wf m" and n: "n \<le> 4082"
    and b: "map_find (am_audios m) i = Some b" "as_sidebar b = Some p" "am_heap m p = Some sb"
    and rec: "pi_recording (as_input b)" "pi_transrater (as_input b) = None"
  shows "\<exists>m' a'. mix_round rs n m = Ok m' \<and> map_find (am_audios m') i = Some a' \<and>
    fifo_elems (pi_fifo (as_input a')) =
      (if 4096 < length (fifo_elems (pi_fifo (as_input b))) + n then [] else fifo_elems (pi_fifo (as_input b))) @
      mix_of_others n m sb i"
proof -
  from n have n': "n \<le> 4096" by simp
  from mix_round_ok [OF wf n', of rs] obtain es h where
    run: "mix_round rs n m = Ok (m\<lparr>am_heap := h, am_audios := es\<rparr>)" and
    wf': "mixer_wf (m\<lparr>am_heap := h, am_audios := es\<rparr>)" and
    es: "list_all2 (\<lambda>(i, b) (j, a'). j = i \<and> given rs n h i b a') (am_audios m) es" and
    add: "\<forall>p \<in> snd ` set (am_sidebars m). \<exists>sb sb'. am_heap m p = Some sb \<and> h p = Some sb' \<and>
       added n (am_audios m) (Sidebar_Reset sb) sb'" by blast
  note ib = map_find_Some_in [OF b(1)]
  then obtain k where k: "k < length (am_audios m)" "am_audios m ! k = (i, b)" by (auto simp: in_set_conv_nth)
  with es obtain a' where a': "k < length es" "es ! k = (i, a')" "given rs n h i b a'"
    by (fastforce simp: list_all2_conv_all_nth)
  then have "(i, a') \<in> set es" by (metis nth_mem)
  with wf' have find: "map_find es i = Some a'" by (simp add: mixer_wf_def map_find_in_iff)
  have src: "\<And>b. b \<in> snd ` set (am_audios m) \<Longrightarrow> source_wf b"
    using wf unfolding mixer_wf_def by blast
  have "source_ok m b" using wf b(1) by (auto simp: mixer_wf_alt dest: map_find_snd)
  with b(2) add b(3) obtain sb' where sb': "h p = Some sb'" "added n (am_audios m) (Sidebar_Reset sb) sb'"
    by (force simp: source_ok_def)
  have mix: "mix_for n i b sb' = mix_of_others n m sb i"
    using wf ib n src by (intro added_mix_for [OF sb'(2)]) (simp_all add: mixer_wf_def)
  with a'(3) b(2) sb'(1) obtain r where put: "PutSamples rs (mix_of_others n m sb i) (as_input b) = Ok (r, as_input a')"
    by (auto simp: given_def)
  have len: "length (mix_of_others n m sb i) = n" by (simp add: mix_of_others_def)
  have "audio_in_wf (as_input b)" using src ib by (force simp: source_wf_def)
  from PutSamples_plain [OF this rec, of "mix_of_others n m sb i" rs] put n len have
    "fifo_elems (pi_fifo (as_input a')) =
      (if 4096 < length (fifo_elems (pi_fifo (as_input b))) + n then [] else fifo_elems (pi_fifo (as_input b))) @
      mix_of_others n m sb i" by auto
  with run find show ?thesis by (intro exI [of _ "m\<lparr>am_heap := h, am_audios := es\<rparr>"] exI [of _ a']) simp
qed

text \<open>Two participants, 1 and 2, in the sidebar at 0; 1 has sent the samples 5 and 6, 2 the sample 7.\<close>

definition demo_speex :: "unit speex" where
  "demo_speex = \<lparr>mcu_resampler_init = \<lambda>_ _. None, mcu_resampler_process = \<lambda>_ _. None\<rparr>"

definition demo_vad :: "unit vad" where
  "demo_vad = \<lparr>va_inst = (), va_samples = fifo_new (replicate 1204 0)\<rparr>"

definition demo_source :: "SWORD list \<Rightarrow> (unit, unit) audio_source" where
  "demo_source xs = \<lparr>as_buffer = replicate 4096 0, as_len = 0,
     as_input = (PipeAudioInput_new (replicate 4096 0) 8000)\<lparr>pi_recording := True\<rparr>,
     as_output = (PipeAudioOutput_new False (replicate 8192 0) demo_vad)
       \<lparr>po_fifo := \<lparr>ff_data = xs @ replicate (8192 - length xs) 0, ff_ini = 0, ff_end = length xs, ff_len = length xs\<rparr>\<rparr>,
     as_sidebar = Some 0, as_vad = 0\<rparr>"

definition demo_sidebar :: sidebar where
  "demo_sidebar = \<lparr>sb_buffer = replicate 4096 0, sb_participants = [1, 2]\<rparr>"

definition demo_mixer :: "(unit, unit) mixer" where
  "demo_mixer = \<lparr>am_mixingAudio = True, am_audios = [(1, demo_source [5, 6]), (2, demo_source [7])], am_sidebars = [(0, 0)],
     am_heap = [0 \<mapsto> demo_sidebar], am_next = 1, am_defaultSidebar = Some 0, am_numSidebars = 1, am_vad = False,
     am_rate = 8000\<rparr>"

lemma demo_source_wf: "length xs < 8192 \<Longrightarrow> source_wf (demo_source xs)"
  by (simp add: source_wf_def demo_source_def demo_vad_def audio_in_wf_def audio_out_wf_def PipeAudioInput_new_def
      PipeAudioOutput_new_def fifo_wf_def fifo_size_def fifo_new_def)

lemma demo_mixer_wf: "mixer_wf demo_mixer"
  using demo_source_wf [of "[5, 6]"] demo_source_wf [of "[7]"]
  by (simp add: mixer_wf_def sidebars_wf_def demo_mixer_def demo_sidebar_def omap_wf_def)
    (simp add: demo_source_def)

theorem everybody_hears_the_others_witness:
  "\<exists>m' a'. mix_round demo_speex 2 demo_mixer = Ok m' \<and> map_find (am_audios m') 1 = Some a' \<and>
     fifo_elems (pi_fifo (as_input a')) = [7, 0]"
proof -
  have "mix_of_others 2 demo_mixer demo_sidebar 1 = [7, 0]"
    by (simp add: mix_of_others_def demo_mixer_def demo_sidebar_def HasParticipant_def sample_def demo_source_def
        fifo_elems_def fifo_size_def Let_def upt_rec)
  with everybody_hears_the_others [OF demo_mixer_wf, of 2 1 "demo_source [5, 6]" 0 demo_sidebar demo_speex]
  show ?thesis
    by (simp add: demo_mixer_def map_find_def demo_source_def PipeAudioInput_new_def fifo_new_def fifo_elems_def)
qed








text \<open>\<open>End\<close> deletes the sidebars and leaves \<open>defaultSidebar\<close> as it is: a participant that is created after it, before the
  next \<open>Init\<close>, joins a sidebar that is freed.\<close>

lemma ended_mixer_uses_its_sidebar:
  fixes r rate junk pin pout i k
  defines "m \<equiv> snd (CreateMixer i pin pout (AudioMixer_End (AudioMixer_Init rate junk (AudioMixer_new r))))"
  shows "InitMixer i k m = Fault UseAfterFree \<and> EndMixer i m = Fault UseAfterFree"
  by (simp add: m_def AudioMixer_Init_def AudioMixer_new_def CreateSidebar_def CreateMixer_def AudioMixer_End_def InitMixer_def
      EndMixer_def default_sidebar_def update_sidebar_def load_sidebar_def map_find_def Let_def)

text \<open>The default sidebar dangles.  \<open>DeleteSidebar\<close> deletes sidebar 0 like any other, and takes care of the sources
  that point to it but not of \<open>defaultSidebar\<close>: the next participant that joins, or leaves, uses it after it is freed.\<close>

theorem deleted_default_sidebar_is_used:
  fixes r rate junk pin pout i k
  defines "m \<equiv> snd (DeleteSidebar 0 (snd (CreateMixer i pin pout (AudioMixer_Init rate junk (AudioMixer_new r)))))"
  shows "InitMixer i k m = Fault UseAfterFree \<and> EndMixer i m = Fault UseAfterFree"
  by (simp add: m_def AudioMixer_Init_def AudioMixer_new_def CreateSidebar_def CreateMixer_def DeleteSidebar_def InitMixer_def
      EndMixer_def default_sidebar_def update_sidebar_def load_sidebar_def map_find_def map_values_def Let_def map_erase_def)

fun mixed_samples :: "DWORD \<Rightarrow> QWORD \<Rightarrow> QWORD list \<Rightarrow> nat" where
  "mixed_samples rate prev [] = 0"
| "mixed_samples rate prev (t # ts) = num_samples rate prev t + mixed_samples rate t ts"

fun on_time :: "DWORD \<Rightarrow> QWORD \<Rightarrow> QWORD list \<Rightarrow> bool" where
  "on_time rate prev [] = True"
| "on_time rate prev (t # ts) \<longleftrightarrow> prev \<le> t \<and> unat t * unat rate < 2 ^ 64 \<and>
     unat t * unat rate div 1000000 \<le> unat prev * unat rate div 1000000 + 4096 \<and> on_time rate t ts"

lemma unat_product:
  fixes t :: QWORD and rate :: DWORD
  assumes "unat t * unat rate < 2 ^ 64"
  shows "unat (t * ucast rate) = unat t * unat rate"
proof -
  have "unat (ucast rate :: QWORD) = unat rate"
    using unsigned_less [of rate, where ?'a = nat] by (simp add: unsigned_ucast_eq take_bit_nat_eq_self)
  with assms show ?thesis by (simp add: unat_word_ariths(2))
qed

lemma num_samples_exact:
  assumes "prev \<le> t" "unat t * unat rate < 2 ^ 64"
    and "unat t * unat rate div 1000000 \<le> unat prev * unat rate div 1000000 + 4096"
  shows "num_samples rate prev t + unat prev * unat rate div 1000000 = unat t * unat rate div 1000000"
proof -
  let ?a = "t * ucast rate div 1000000" and ?b = "prev * ucast rate div 1000000"
  from assms(1) have le: "unat prev * unat rate \<le> unat t * unat rate" by (simp add: word_le_nat_alt)
  then have lt: "unat prev * unat rate < 2 ^ 64" using assms(2) by (rule le_less_trans)
  have a: "unat ?a = unat t * unat rate div 1000000" by (simp only: unat_div unat_product [OF assms(2)]) simp
  have b: "unat ?b = unat prev * unat rate div 1000000" by (simp only: unat_div unat_product [OF lt]) simp
  have "unat ?b \<le> unat ?a" unfolding a b by (rule div_le_mono [OF le])
  then have d: "unat (?a - ?b) = unat ?a - unat ?b" by (simp add: unat_sub word_le_nat_alt)
  with assms(3) a b have "unat (?a - ?b) \<le> 4096" by linarith
  then have "unat (ucast (?a - ?b) :: DWORD) = unat ?a - unat ?b"
    by (simp add: unsigned_ucast_eq take_bit_nat_eq_self d)
  with assms(3) a b show ?thesis
    using \<open>unat ?b \<le> unat ?a\<close> by (simp add: num_samples_def Let_def MIXER_BUFFER_SIZE_def) linarith
qed

text \<open>The mix keeps the time.  Over any number of rounds, at rising times at which the mixer is not so late that a
  round is cut to its buffer, the samples mixed are those of the whole time at the rate of the mixer: rounding does not
  add up.\<close>

theorem mix_keeps_the_time:
  assumes "on_time rate prev ts" and "ts \<noteq> []"
  shows "mixed_samples rate prev ts + unat prev * unat rate div 1000000 = unat (last ts) * unat rate div 1000000"
  using assms
proof (induction ts arbitrary: prev)
  case (Cons t ts)
  then have "num_samples rate prev t + unat prev * unat rate div 1000000 = unat t * unat rate div 1000000"
    by (intro num_samples_exact) simp_all
  moreover have "mixed_samples rate t ts + unat t * unat rate div 1000000 = unat (last (t # ts)) * unat rate div 1000000"
    using Cons by (cases "ts = []") simp_all
  ultimately show ?case by simp
qed simp

theorem mix_keeps_the_time_witness: "mixed_samples 8000 0 [10500, 20700, 31000] = 248"
  using mix_keeps_the_time [of 8000 0 "[10500, 20700, 31000]"] by simp

end
