(* ===== verification/Acumulator.thy ===== *)
theory Acumulator
  imports Prelude Bytes
begin

text \<open>
  The counter over a sliding window of \<open>src/mcu/include/acumulator.h\<close>, from which the bitrates are computed.
\<close>

record acumulator =
  ac_values :: "(QWORD \<times> DWORD) list"
  ac_window :: DWORD
  ac_inWindow :: bool
  ac_acumulated :: QWORD
  ac_instant :: QWORD
  ac_max :: QWORD
  ac_min :: QWORD
  ac_first :: QWORD
  ac_last :: QWORD

definition Acumulator_ResetMinMax :: "acumulator \<Rightarrow> acumulator" where
  "Acumulator_ResetMinMax a = a\<lparr>ac_max := 0, ac_min := -1\<rparr>"

text \<open>\<open>Reset\<close> keeps the values of the window, and their sum.\<close>

definition Acumulator_Reset :: "QWORD \<Rightarrow> acumulator \<Rightarrow> acumulator" where
  "Acumulator_Reset now a =
     a\<lparr>ac_acumulated := 0, ac_max := 0, ac_min := -1, ac_first := now, ac_last := 0, ac_inWindow := False\<rparr>"

definition Acumulator_new :: "DWORD \<Rightarrow> acumulator" where
  "Acumulator_new window = Acumulator_Reset 0
     \<lparr>ac_values = [], ac_window = window, ac_inWindow = False, ac_acumulated = 0, ac_instant = 0, ac_max = 0, ac_min = 0,
      ac_first = 0, ac_last = 0\<rparr>"

text \<open>\<open>while(values.front().first+window<now)\<close>.\<close>

fun erase_old :: "QWORD \<Rightarrow> DWORD \<Rightarrow> (QWORD \<times> DWORD) list \<Rightarrow> QWORD \<Rightarrow> bool \<Rightarrow> ((QWORD \<times> DWORD) list \<times> QWORD \<times> bool) res" where
  "erase_old now window [] instant inWindow = Fault OutOfBounds"
| "erase_old now window ((t, v) # vs) instant inWindow =
     (if t + ucast window < now then erase_old now window vs (instant - ucast v) True
      else Ok ((t, v) # vs, instant, inWindow))"

definition Acumulator_Update :: "QWORD \<Rightarrow> DWORD \<Rightarrow> acumulator \<Rightarrow> (QWORD \<times> acumulator) res" where
  "Acumulator_Update now val a =
     bindR (erase_old now (ac_window a) (ac_values a @ [(now, val)]) (ac_instant a + ucast val) (ac_inWindow a))
       (\<lambda>(vs, instant, inWindow).
     Ok (instant, a\<lparr>ac_values := vs, ac_acumulated := ac_acumulated a + ucast val, ac_instant := instant,
       ac_inWindow := inWindow, ac_first := if ac_first a = 0 then now else ac_first a, ac_last := now,
       ac_max := if instant > ac_max a then instant else ac_max a,
       ac_min := if inWindow \<and> instant < ac_min a then instant else ac_min a\<rparr>))"

definition GetDiff :: "acumulator \<Rightarrow> QWORD" where
  "GetDiff a = ac_last a - ac_first a"

definition IsInMinMaxWindow :: "acumulator \<Rightarrow> bool" where
  "IsInMinMaxWindow a = (ac_inWindow a \<and> ac_min a \<noteq> -1)"

text \<open>The averages divide integers: by the window, or by the time between the first and the last update.\<close>

definition divide :: "QWORD \<Rightarrow> QWORD \<Rightarrow> QWORD res" where
  "divide x y = (if y = 0 then Fault (Thrown ''division by zero'') else Ok (x div y))"

definition GetInstantAvg :: "acumulator \<Rightarrow> QWORD res" where
  "GetInstantAvg a = divide (ac_instant a * 1000) (ucast (ac_window a))"

definition GetAverage :: "acumulator \<Rightarrow> QWORD res" where
  "GetAverage a = divide (ac_acumulated a * 1000) (GetDiff a)"

definition GetMinAvg :: "acumulator \<Rightarrow> QWORD res" where
  "GetMinAvg a = divide (ac_min a * 1000) (ucast (ac_window a))"

definition GetMaxAvg :: "acumulator \<Rightarrow> QWORD res" where
  "GetMaxAvg a = divide (ac_max a * 1000) (ucast (ac_window a))"

section \<open>The window\<close>

definition weight :: "(QWORD \<times> DWORD) list \<Rightarrow> QWORD" where
  "weight vs = (\<Sum>(t, v)\<leftarrow>vs. ucast v)"

definition in_window :: "DWORD \<Rightarrow> QWORD \<Rightarrow> QWORD \<times> DWORD \<Rightarrow> bool" where
  "in_window window now e \<longleftrightarrow> unat now \<le> unat (fst e) + unat window"

text \<open>Times that do not go back, and stay a window away from the end of the clock.\<close>

definition window_wf :: "acumulator \<Rightarrow> bool" where
  "window_wf a \<longleftrightarrow> sorted (map fst (ac_values a)) \<and> ac_instant a = weight (ac_values a)"

lemma weight_append [simp]: "weight (xs @ ys) = weight xs + weight ys"
  by (simp add: weight_def)

lemma weight_Cons [simp]: "weight ((t, v) # vs) = ucast v + weight vs"
  by (simp add: weight_def)

lemma in_window_word:
  assumes "t \<le> now" "unat now + unat window < 2 ^ 64"
  shows "t + ucast window < now \<longleftrightarrow> \<not> in_window window now (t, v)"
proof -
  have w: "unat (ucast window :: QWORD) = unat window"
    using unsigned_less [of window, where ?'a = nat] by (simp add: unsigned_ucast_eq take_bit_nat_eq_self)
  from assms have "unat t + unat window < 2 ^ 64" by (simp add: word_le_nat_alt)
  then have "unat (t + ucast window) = unat t + unat window"
    by (simp add: unat_word_ariths(1) w)
  then show ?thesis by (simp add: word_less_nat_alt in_window_def not_le)
qed

lemma erase_old_filter:
  assumes "sorted (map fst vs)" "\<forall>e \<in> set vs. fst e \<le> now" "vs \<noteq> []" "in_window window now (last vs)"
    and now: "unat now + unat window < 2 ^ 64"
  shows "\<exists>w. erase_old now window vs (x + weight vs) b =
    Ok (filter (in_window window now) vs, x + weight (filter (in_window window now) vs), w)"
  using assms(1-4)
proof (induction vs arbitrary: b)
  case (Cons e vs)
  obtain t v where e: "e = (t, v)" by (cases e)
  with Cons.prems(2) have "t \<le> now" by simp
  note w = in_window_word [OF this now, of v]
  show ?case
  proof (cases "in_window window now e")
    case True
    have "in_window window now f" if "f \<in> set vs" for f
    proof -
      from that Cons.prems(1) e have "t \<le> fst f" by auto
      with True e show ?thesis by (simp add: in_window_def word_le_nat_alt)
    qed
    then have "filter (in_window window now) (e # vs) = e # vs" using True by simp
    with True w e show ?thesis by simp
  next
    case False
    with Cons.prems(3,4) have ne: "vs \<noteq> []" by (cases vs) auto
    with Cons.prems e have "in_window window now (last vs)" "sorted (map fst vs)" "\<forall>e \<in> set vs. fst e \<le> now" by auto
    from Cons.IH [OF this(2,3) ne this(1), of True] False w e show ?thesis by (auto simp: algebra_simps)
  qed
qed simp

section \<open>What the counter counts\<close>

fun Acumulator_Updates :: "(QWORD \<times> DWORD) list \<Rightarrow> acumulator \<Rightarrow> (QWORD list \<times> acumulator) res" where
  "Acumulator_Updates [] a = Ok ([], a)"
| "Acumulator_Updates ((now, v) # es) a = bindR (Acumulator_Update now v a) (\<lambda>(n, a).
     bindR (Acumulator_Updates es a) (\<lambda>(ns, a). Ok (n # ns, a)))"

text \<open>The reference: the values of the whole history that the window of the last time covers.\<close>

definition window_weight :: "DWORD \<Rightarrow> (QWORD \<times> DWORD) list \<Rightarrow> QWORD" where
  "window_weight window es = weight (filter (in_window window (fst (last es))) es)"

definition clock_ok :: "DWORD \<Rightarrow> QWORD list \<Rightarrow> bool" where
  "clock_ok window ts \<longleftrightarrow> sorted ts \<and> (\<forall>t \<in> set ts. unat t + unat window < 2 ^ 64)"

text \<open>The values kept are those of the history that the window still covers.\<close>

definition counts :: "(QWORD \<times> DWORD) list \<Rightarrow> acumulator \<Rightarrow> bool" where
  "counts es a \<longleftrightarrow> ac_instant a = weight (ac_values a) \<and> ac_acumulated a = weight es \<and>
     ac_values a = (if es = [] then [] else filter (in_window (ac_window a) (fst (last es))) es)"

lemma clock_ok_snoc: "clock_ok window (ts @ [t]) \<Longrightarrow> clock_ok window ts \<and> (\<forall>s \<in> set ts. s \<le> t) \<and> unat t + unat window < 2 ^ 64"
  by (auto simp: clock_ok_def sorted_append)

lemma filter_window_twice:
  assumes "s \<le> t"
  shows "filter (in_window w t) (filter (in_window w s) es) = filter (in_window w t) es"
  using assms by (auto simp: in_window_def word_le_nat_alt intro!: filter_cong)

lemma Acumulator_Update_counts:
  assumes c: "counts es a" and t: "clock_ok (ac_window a) (map fst (es @ [(now, v)]))"
  shows "\<exists>b. Acumulator_Update now v a = Ok (window_weight (ac_window a) (es @ [(now, v)]), b) \<and>
    counts (es @ [(now, v)]) b \<and> ac_window b = ac_window a"
proof -
  let ?w = "ac_window a" let ?vs = "ac_values a @ [(now, v)]" let ?f = "filter (in_window ?w now) (es @ [(now, v)])"
  have t': "sorted (map fst es)" "\<forall>e \<in> set es. fst e \<le> now" "unat now + unat ?w < 2 ^ 64"
    using t by (auto simp: clock_ok_def sorted_append)
  have sub: "set (ac_values a) \<subseteq> set es" "sorted (map fst (ac_values a))"
    using c t'(1) by (auto simp: counts_def sorted_filter)
  have f: "filter (in_window ?w now) ?vs = ?f"
  proof (cases "es = []")
    case False
    then have "fst (last es) \<le> now" using t'(2) by simp
    with False c show ?thesis
      by (simp add: counts_def filter_window_twice del: filter_filter)
  qed (use c in \<open>simp add: counts_def\<close>)
  have "\<exists>b. erase_old now ?w ?vs (0 + weight ?vs) (ac_inWindow a) =
      Ok (filter (in_window ?w now) ?vs, 0 + weight (filter (in_window ?w now) ?vs), b)"
    by (rule erase_old_filter [OF _ _ _ _ t'(3)]) (use sub t'(2) in \<open>auto simp: sorted_append in_window_def\<close>)
  then obtain b where "erase_old now ?w ?vs (weight ?vs) (ac_inWindow a) = Ok (?f, weight ?f, b)"
    unfolding f by auto
  moreover have "ac_instant a + ucast v = weight ?vs" "weight (es @ [(now, v)]) = weight es + ucast v"
    using c by (simp_all add: counts_def weight_def)
  ultimately show ?thesis
    using c by (simp add: Acumulator_Update_def counts_def window_weight_def)
qed

lemma Acumulator_Updates_counts:
  "counts es a \<Longrightarrow> clock_ok (ac_window a) (map fst (es @ fs)) \<Longrightarrow>
     \<exists>b. Acumulator_Updates fs a = Ok (map (\<lambda>n. window_weight (ac_window a) (es @ take (Suc n) fs)) [0..<length fs], b) \<and>
       counts (es @ fs) b"
proof (induction fs arbitrary: es a)
  case (Cons f fs)
  obtain now v where f: "f = (now, v)" by (cases f)
  from Cons.prems(2) have "clock_ok (ac_window a) (map fst (es @ [(now, v)]))"
    by (auto simp: clock_ok_def sorted_append f)
  from Acumulator_Update_counts [OF Cons.prems(1) this] obtain b where
    b: "Acumulator_Update now v a = Ok (window_weight (ac_window a) (es @ [(now, v)]), b)"
    "counts (es @ [(now, v)]) b" "ac_window b = ac_window a" by blast
  from Cons.IH [OF b(2)] Cons.prems(2) b obtain c where
    c: "Acumulator_Updates fs b = Ok (map (\<lambda>n. window_weight (ac_window a) (es @ (now, v) # take (Suc n) fs)) [0..<length fs], c)"
    "counts (es @ (now, v) # fs) c" by (auto simp: f)
  have "map g [0..<length (f # fs)] = g 0 # map (\<lambda>n. g (Suc n)) [0..<length fs]" for g :: "nat \<Rightarrow> QWORD"
    by (simp add: upt_conv_Cons map_Suc_upt [symmetric] comp_def del: upt_Suc)
  from this [of "\<lambda>n. window_weight (ac_window a) (es @ take (Suc n) (f # fs))"] b c show ?case
    by (auto simp: f)
qed simp

lemma Acumulator_new_counts: "counts [] (Acumulator_new window)" "ac_window (Acumulator_new window) = window"
  by (simp_all add: counts_def Acumulator_new_def Acumulator_Reset_def weight_def)

text \<open>The bitrate counter, which subtracts what leaves its window and never adds up its list again, always returns
  the sum of the values of the whole history that are at most a window old, wrapped to 64 bits, and its total is
  the sum of all of them; the clock does not go back and stays a window away from its end.\<close>

theorem acumulator_counts_the_window:
  assumes "clock_ok window (map fst es)"
  shows "\<exists>a. Acumulator_Updates es (Acumulator_new window) =
    Ok (map (\<lambda>n. window_weight window (take (Suc n) es)) [0..<length es], a) \<and> ac_acumulated a = weight es"
  using Acumulator_Updates_counts [OF Acumulator_new_counts(1), of window es] assms
  by (auto simp: Acumulator_new_counts(2) counts_def)

theorem acumulator_counts_the_window_witness:
  "\<exists>a. Acumulator_Updates [(10, 5), (15, 7), (30, 1)] (Acumulator_new 10) = Ok ([5, 12, 1], a) \<and> ac_acumulated a = 13"
  using acumulator_counts_the_window [of 10 "[(10, 5), (15, 7), (30, 1)]"]
  by (simp add: clock_ok_def window_weight_def in_window_def weight_def)

text \<open>One update is not enough for the average: the time between the first and the last is zero.\<close>

lemma one_update_has_no_average:
  "now \<noteq> 0 \<Longrightarrow> Acumulator_Update now v (Acumulator_new w) = Ok (n, a) \<Longrightarrow>
     GetAverage a = Fault (Thrown ''division by zero'')"
  by (auto simp: Acumulator_Update_def Acumulator_new_def Acumulator_Reset_def GetAverage_def GetDiff_def divide_def
    split: if_splits)

end
