(* ===== verification/RTPPacket.thy ===== *)
theory RTPPacket
  imports Bytes
begin

unbundle bit_operations_syntax

text \<open>
  RTP packets (\<open>src/mcu/include/rtp.h\<close>, \<open>src/mcu/src/rtp.cpp\<close>): the header in the packet's own array of 1700 bytes,
  the payload behind it, the header extensions, and the packets with redundant data of RFC 2198.

  The bit fields of \<open>rtp_hdr_t\<close> are laid out as on the x86, the first one in the lowest bits.  The array is not
  initialised: what it holds at first is an argument of the constructors.  The constant positions of the header are
  inside the array; a position that depends on the packet is checked.
\<close>

datatype media_type = Audio | Video | Text

type_synonym RTPMap = "(BYTE, BYTE) omap"

definition NotFound :: BYTE where
  "NotFound = -1"

definition GetCodecForType :: "BYTE \<Rightarrow> RTPMap \<Rightarrow> BYTE" where
  "GetCodecForType t m = (case map_find m t of None \<Rightarrow> NotFound | Some c \<Rightarrow> c)"

definition GetTypeForCodec :: "BYTE \<Rightarrow> RTPMap \<Rightarrow> BYTE" where
  "GetTypeForCodec codec m = (case filter (\<lambda>(_, c). c = codec) m of [] \<Rightarrow> NotFound | (t, _) # _ \<Rightarrow> t)"

text \<open>\<open>timeOffset\<close> is an \<open>int\<close>, kept as its 32 bits.\<close>

record header_extension =
  he_absSentTime :: QWORD
  he_timeOffset :: DWORD
  he_vad :: bool
  he_level :: BYTE
  he_hasAbsSentTime :: bool
  he_hasTimeOffset :: bool
  he_hasAudioLevel :: bool

definition HeaderExtension_new :: header_extension where
  "HeaderExtension_new = \<lparr>he_absSentTime = 0, he_timeOffset = 0, he_vad = False, he_level = 0, he_hasAbsSentTime = False,
     he_hasTimeOffset = False, he_hasAudioLevel = False\<rparr>"

record rtp_packet =
  rp_media :: media_type
  rp_codec :: DWORD
  rp_clockRate :: DWORD
  rp_cycles :: WORD
  rp_buffer :: "BYTE list"
  rp_len :: DWORD
  rp_extension :: header_extension

definition RTP_SIZE :: nat where
  "RTP_SIZE = 1700"

section \<open>The header\<close>

text \<open>A bit field of \<open>n\<close> bits from the bit \<open>k\<close> of a byte on, and big-endian words in the array.\<close>

definition get_bits :: "nat \<Rightarrow> nat \<Rightarrow> BYTE \<Rightarrow> BYTE" where
  "get_bits k n b = take_bit n (drop_bit k b)"

definition put_bits :: "nat \<Rightarrow> nat \<Rightarrow> BYTE \<Rightarrow> BYTE \<Rightarrow> BYTE" where
  "put_bits k n v b = (b AND NOT (push_bit k (mask n))) OR push_bit k (take_bit n v)"

definition load2 :: "nat \<Rightarrow> BYTE list \<Rightarrow> WORD" where
  "load2 i d = ucast (d ! Suc i) OR push_bit 8 (ucast (d ! i))"

definition load4 :: "nat \<Rightarrow> BYTE list \<Rightarrow> DWORD" where
  "load4 i d = ucast (d ! (i + 3)) OR push_bit 8 (ucast (d ! (i + 2))) OR push_bit 16 (ucast (d ! (i + 1))) OR
     push_bit 24 (ucast (d ! i))"

definition store2 :: "nat \<Rightarrow> WORD \<Rightarrow> BYTE list \<Rightarrow> BYTE list" where
  "store2 i v d = d[i := ucast (drop_bit 8 v), Suc i := ucast v]"

definition store4 :: "nat \<Rightarrow> DWORD \<Rightarrow> BYTE list \<Rightarrow> BYTE list" where
  "store4 i v d = d[i := ucast (drop_bit 24 v), i + 1 := ucast (drop_bit 16 v), i + 2 := ucast (drop_bit 8 v), i + 3 := ucast v]"

definition set_field :: "nat \<Rightarrow> nat \<Rightarrow> nat \<Rightarrow> BYTE \<Rightarrow> 'a rtp_packet_scheme \<Rightarrow> 'a rtp_packet_scheme" where
  "set_field i k n v p = p\<lparr>rp_buffer := (rp_buffer p)[i := put_bits k n v (rp_buffer p ! i)]\<rparr>"

definition get_field :: "nat \<Rightarrow> nat \<Rightarrow> nat \<Rightarrow> 'a rtp_packet_scheme \<Rightarrow> BYTE" where
  "get_field i k n p = get_bits k n (rp_buffer p ! i)"

definition SetCC :: "BYTE \<Rightarrow> 'a rtp_packet_scheme \<Rightarrow> 'a rtp_packet_scheme" where "SetCC v = set_field 0 0 4 v"
definition SetX :: "bool \<Rightarrow> 'a rtp_packet_scheme \<Rightarrow> 'a rtp_packet_scheme" where "SetX x = set_field 0 4 1 (of_bool x)"
definition SetP :: "bool \<Rightarrow> 'a rtp_packet_scheme \<Rightarrow> 'a rtp_packet_scheme" where "SetP p = set_field 0 5 1 (of_bool p)"
definition SetVersion :: "BYTE \<Rightarrow> 'a rtp_packet_scheme \<Rightarrow> 'a rtp_packet_scheme" where "SetVersion v = set_field 0 6 2 v"
definition SetType :: "DWORD \<Rightarrow> 'a rtp_packet_scheme \<Rightarrow> 'a rtp_packet_scheme" where "SetType t = set_field 1 0 7 (ucast t)"
definition SetMark :: "bool \<Rightarrow> 'a rtp_packet_scheme \<Rightarrow> 'a rtp_packet_scheme" where "SetMark m = set_field 1 7 1 (of_bool m)"

definition GetCC :: "'a rtp_packet_scheme \<Rightarrow> BYTE" where "GetCC = get_field 0 0 4"
definition GetX :: "'a rtp_packet_scheme \<Rightarrow> bool" where "GetX p = (get_field 0 4 1 p \<noteq> 0)"
definition GetP :: "'a rtp_packet_scheme \<Rightarrow> bool" where "GetP p = (get_field 0 5 1 p \<noteq> 0)"
definition GetVersion :: "'a rtp_packet_scheme \<Rightarrow> BYTE" where "GetVersion = get_field 0 6 2"
definition GetType :: "'a rtp_packet_scheme \<Rightarrow> DWORD" where "GetType p = ucast (get_field 1 0 7 p)"
definition GetMark :: "'a rtp_packet_scheme \<Rightarrow> bool" where "GetMark p = (get_field 1 7 1 p \<noteq> 0)"

definition SetSeqNum :: "WORD \<Rightarrow> 'a rtp_packet_scheme \<Rightarrow> 'a rtp_packet_scheme" where
  "SetSeqNum sn p = p\<lparr>rp_buffer := store2 2 sn (rp_buffer p)\<rparr>"

definition SetTimestamp :: "DWORD \<Rightarrow> 'a rtp_packet_scheme \<Rightarrow> 'a rtp_packet_scheme" where
  "SetTimestamp ts p = p\<lparr>rp_buffer := store4 4 ts (rp_buffer p)\<rparr>"

definition SetSSRC :: "DWORD \<Rightarrow> 'a rtp_packet_scheme \<Rightarrow> 'a rtp_packet_scheme" where
  "SetSSRC ssrc p = p\<lparr>rp_buffer := store4 8 ssrc (rp_buffer p)\<rparr>"

definition GetSeqNum :: "'a rtp_packet_scheme \<Rightarrow> WORD" where "GetSeqNum p = load2 2 (rp_buffer p)"
definition GetTimestamp :: "'a rtp_packet_scheme \<Rightarrow> DWORD" where "GetTimestamp p = load4 4 (rp_buffer p)"
definition GetSSRC :: "'a rtp_packet_scheme \<Rightarrow> DWORD" where "GetSSRC p = load4 8 (rp_buffer p)"

definition GetExtSeqNum :: "'a rtp_packet_scheme \<Rightarrow> DWORD" where
  "GetExtSeqNum p = push_bit 16 (ucast (rp_cycles p)) OR ucast (GetSeqNum p)"

definition GetClockTimestamp :: "'a rtp_packet_scheme \<Rightarrow> DWORD res" where
  "GetClockTimestamp p =
     (if rp_clockRate p = 0 then Fault (Thrown ''division by zero'')
      else Ok (ucast ((ucast (GetTimestamp p) :: QWORD) * 1000 div ucast (rp_clockRate p))))"

section \<open>The sizes\<close>

definition ext_at :: "'a rtp_packet_scheme \<Rightarrow> nat" where
  "ext_at p = 12 + 4 * unat (GetCC p)"

text \<open>The length of the extension in bytes is cut to 16 bits.\<close>

definition GetExtensionLength :: "'a rtp_packet_scheme \<Rightarrow> WORD" where
  "GetExtensionLength p = (if GetX p then load2 (ext_at p + 2) (rp_buffer p) * 4 else 0)"

definition GetExtensionSize :: "'a rtp_packet_scheme \<Rightarrow> DWORD" where
  "GetExtensionSize p = (if GetX p then ucast (GetExtensionLength p) + 4 else 0)"

definition GetRTPHeaderLen :: "'a rtp_packet_scheme \<Rightarrow> DWORD" where
  "GetRTPHeaderLen p = 12 + 4 * ucast (GetCC p) + GetExtensionSize p"

definition rtp_SetSize :: "DWORD \<Rightarrow> 'a rtp_packet_scheme \<Rightarrow> 'a rtp_packet_scheme" where
  "rtp_SetSize n p = p\<lparr>rp_len := n - GetRTPHeaderLen p\<rparr>"

definition rtp_GetSize :: "'a rtp_packet_scheme \<Rightarrow> DWORD" where
  "rtp_GetSize p = rp_len p + GetRTPHeaderLen p"

definition GetMaxMediaLength :: "'a rtp_packet_scheme \<Rightarrow> DWORD" where
  "GetMaxMediaLength p = (if of_nat RTP_SIZE > GetRTPHeaderLen p then of_nat RTP_SIZE - GetRTPHeaderLen p else 0)"

text \<open>\<open>GetMediaData\<close>: where the payload starts.\<close>

definition media_at :: "'a rtp_packet_scheme \<Rightarrow> nat" where
  "media_at p = unat (GetRTPHeaderLen p)"

definition GetMediaBytes :: "'a rtp_packet_scheme \<Rightarrow> BYTE list res" where
  "GetMediaBytes p = copy_out (media_at p) (unat (rp_len p)) (rp_buffer p)"

section \<open>Filling a packet\<close>

text \<open>\<open>data\<close> is the memory behind the caller's pointer, \<open>sz\<close> the size it passes.\<close>

definition rtp_memcpy :: "nat \<Rightarrow> BYTE list \<Rightarrow> nat \<Rightarrow> 'a rtp_packet_scheme \<Rightarrow> 'a rtp_packet_scheme res" where
  "rtp_memcpy i data n p =
     (if n = 0 then Ok p
      else bindR (copy_out 0 n data) (\<lambda>xs. bindR (copy_in i xs (rp_buffer p)) (\<lambda>b. Ok (p\<lparr>rp_buffer := b\<rparr>))))"

definition SetData :: "BYTE list \<Rightarrow> DWORD \<Rightarrow> 'a rtp_packet_scheme \<Rightarrow> (bool \<times> 'a rtp_packet_scheme) res" where
  "SetData data sz p =
     (if unat sz > RTP_SIZE then Ok (False, p)
      else bindR (rtp_memcpy 0 data (unat sz) p) (\<lambda>p. Ok (True, rtp_SetSize sz p)))"

definition SetPayload :: "BYTE list \<Rightarrow> DWORD \<Rightarrow> 'a rtp_packet_scheme \<Rightarrow> (bool \<times> 'a rtp_packet_scheme) res" where
  "SetPayload data sz p =
     (if sz > GetMaxMediaLength p then Ok (False, p)
      else bindR (rtp_memcpy (media_at p) data (unat sz) p) (\<lambda>p. Ok (True, p\<lparr>rp_len := sz\<rparr>)))"

text \<open>Without the extension flag \<open>GeExtensionHeader\<close> is null.\<close>

definition SetExtensionHeader :: "BYTE list \<Rightarrow> DWORD \<Rightarrow> 'a rtp_packet_scheme \<Rightarrow> (nat \<times> 'a rtp_packet_scheme) res" where
  "SetExtensionHeader data sz p =
     (if sz < 4 then Ok (0, p)
      else if \<not> GetX p then Fault NullDeref
      else bindR (rtp_memcpy (ext_at p) data 4 p) (\<lambda>p. Ok (4, p)))"

definition SetExtensionData :: "BYTE list \<Rightarrow> DWORD \<Rightarrow> 'a rtp_packet_scheme \<Rightarrow> (nat \<times> 'a rtp_packet_scheme) res" where
  "SetExtensionData data sz p =
     (let n = unat (GetExtensionLength p) in
      if unat sz < n then Ok (0, p)
      else if n = 0 then Ok (0, p)
      else bindR (rtp_memcpy (ext_at p + 4) data n p) (\<lambda>p. Ok (n, p)))"

definition SetPayloadWithExtensionData ::
  "BYTE list \<Rightarrow> DWORD \<Rightarrow> 'a rtp_packet_scheme \<Rightarrow> (bool \<times> 'a rtp_packet_scheme) res" where
  "SetPayloadWithExtensionData data sz p =
     (if GetX p then
        bindR (SetExtensionHeader data sz p) (\<lambda>(n, p).
        if n = 0 then Ok (False, p)
        else let data = drop n data; sz = sz - of_nat n in
          bindR (SetExtensionData data sz p) (\<lambda>(n, p).
          if n = 0 then Ok (False, p) else SetPayload (drop n data) (sz - of_nat n) p))
      else SetPayload data sz p)"

section \<open>Packets\<close>

definition default_rate :: "media_type \<Rightarrow> DWORD" where
  "default_rate media = (case media of Video \<Rightarrow> 90000 | Audio \<Rightarrow> 8000 | Text \<Rightarrow> 1000)"

definition zero_header :: "'a rtp_packet_scheme \<Rightarrow> 'a rtp_packet_scheme" where
  "zero_header p = p\<lparr>rp_buffer := replicate 12 0 @ drop 12 (rp_buffer p)\<rparr>"

text \<open>\<open>len\<close> is not initialised by the constructor for a packet to be sent: its value is the argument \<open>len0\<close>.\<close>

definition RTPPacket_new :: "BYTE list \<Rightarrow> DWORD \<Rightarrow> media_type \<Rightarrow> DWORD \<Rightarrow> DWORD \<Rightarrow> rtp_packet" where
  "RTPPacket_new junk len0 media codec ty =
     SetType ty (SetVersion 2 (zero_header
       \<lparr>rp_media = media, rp_codec = codec, rp_clockRate = default_rate media, rp_cycles = 0, rp_buffer = junk,
        rp_len = len0, rp_extension = HeaderExtension_new\<rparr>))"

definition RTPPacket_data :: "BYTE list \<Rightarrow> DWORD \<Rightarrow> media_type \<Rightarrow> BYTE list \<Rightarrow> DWORD \<Rightarrow> rtp_packet res" where
  "RTPPacket_data junk len0 media data sz =
     bindR (SetData data sz
       \<lparr>rp_media = media, rp_codec = 0, rp_clockRate = default_rate media, rp_cycles = 0, rp_buffer = junk,
        rp_len = len0, rp_extension = HeaderExtension_new\<rparr>) (\<lambda>(_, p).
     Ok (p\<lparr>rp_codec := GetType p\<rparr>))"

text \<open>What \<open>Clone\<close> copies into the new packet; the payload is copied when it fits.\<close>

definition copy_header :: "'a rtp_packet_scheme \<Rightarrow> 'b rtp_packet_scheme \<Rightarrow> 'b rtp_packet_scheme" where
  "copy_header p q = SetTimestamp (GetTimestamp p) ((SetSeqNum (GetSeqNum p)
     (SetMark (GetMark p) (q\<lparr>rp_clockRate := rp_clockRate p\<rparr>)))\<lparr>rp_cycles := rp_cycles p\<rparr>)"

definition copy_payload :: "'a rtp_packet_scheme \<Rightarrow> 'b rtp_packet_scheme \<Rightarrow> 'b rtp_packet_scheme res" where
  "copy_payload p q = bindR (SetPayload (drop (media_at p) (rp_buffer p)) (rp_len p) q) (\<lambda>(_, q). Ok q)"

definition RTP_Clone :: "BYTE list \<Rightarrow> DWORD \<Rightarrow> rtp_packet \<Rightarrow> rtp_packet res" where
  "RTP_Clone junk len0 p = copy_payload p (copy_header p (RTPPacket_new junk len0 (rp_media p) (rp_codec p) (GetType p)))"

text \<open>The static functions look at the bytes of a datagram.\<close>

definition IsRTP :: "BYTE list \<Rightarrow> DWORD \<Rightarrow> bool res" where
  "IsRTP data sz = (if sz < 12 then Ok False else bindR (byte_at data 0) (\<lambda>b. Ok (get_bits 6 2 b = 2)))"

definition data_GetType :: "BYTE list \<Rightarrow> BYTE res" where
  "data_GetType data = bindR (byte_at data 1) (\<lambda>b. Ok (get_bits 0 7 b))"

definition data_GetSSRC :: "BYTE list \<Rightarrow> DWORD res" where
  "data_GetSSRC data = get4 data 8"

section \<open>Packets with a time\<close>

text \<open>The time is in milliseconds, \<open>now\<close> is the clock in microseconds.  The constructor for a packet to be sent does not
  divide, and \<open>Clone\<close> stores the time offset as the absolute time.\<close>

record timed_packet = rtp_packet +
  rt_time :: QWORD

definition RTPTimedPacket_new :: "QWORD \<Rightarrow> BYTE list \<Rightarrow> DWORD \<Rightarrow> media_type \<Rightarrow> DWORD \<Rightarrow> timed_packet" where
  "RTPTimedPacket_new now junk len0 media codec =
     rtp_packet.extend (RTPPacket_new junk len0 media codec codec) \<lparr>rt_time = now div 1000\<rparr>"

definition RTPTimedPacket_data :: "QWORD \<Rightarrow> BYTE list \<Rightarrow> DWORD \<Rightarrow> media_type \<Rightarrow> BYTE list \<Rightarrow> DWORD \<Rightarrow> timed_packet res" where
  "RTPTimedPacket_data now junk len0 media data sz =
     bindR (RTPPacket_data junk len0 media data sz) (\<lambda>p. Ok (rtp_packet.extend p \<lparr>rt_time = now div 1000\<rparr>))"

definition RTPTimedPacket_type :: "QWORD \<Rightarrow> BYTE list \<Rightarrow> DWORD \<Rightarrow> media_type \<Rightarrow> DWORD \<Rightarrow> DWORD \<Rightarrow> timed_packet" where
  "RTPTimedPacket_type now junk len0 media codec ty =
     rtp_packet.extend (RTPPacket_new junk len0 media codec ty) \<lparr>rt_time = now\<rparr>"

definition Timed_Clone :: "QWORD \<Rightarrow> BYTE list \<Rightarrow> DWORD \<Rightarrow> 'a timed_packet_scheme \<Rightarrow> timed_packet res" where
  "Timed_Clone now junk len0 p =
     bindR (copy_payload p (copy_header p (RTPTimedPacket_type now junk len0 (rp_media p) (rp_codec p) (GetType p)))) (\<lambda>q.
     let q = q\<lparr>rt_time := rt_time p\<rparr>;
         e = rp_extension p;
         set = (\<lambda>t q. q\<lparr>rp_extension := (rp_extension q)\<lparr>he_absSentTime := t\<rparr>\<rparr>);
         q = (if he_hasAbsSentTime e then set (he_absSentTime e) q else q);
         q = (if he_hasTimeOffset e then set (scast (he_timeOffset e)) q else q)
     in Ok q)"

section \<open>Header extensions\<close>

text \<open>One element at the position \<open>i\<close> of the array, for the mapped type \<open>t\<close>.\<close>

definition set_extension :: "BYTE \<Rightarrow> BYTE list \<Rightarrow> nat \<Rightarrow> header_extension \<Rightarrow> header_extension res" where
  "set_extension t d i e =
     (if t = 1 then bindR (byte_at d i) (\<lambda>b.
        Ok (e\<lparr>he_hasAudioLevel := True, he_vad := (get_bits 7 1 b \<noteq> 0), he_level := get_bits 0 7 b\<rparr>))
      else if t = 2 then bindR (get3 d i) (\<lambda>v.
        Ok (e\<lparr>he_hasTimeOffset := True, he_timeOffset := if v AND 0x800000 \<noteq> 0 then v OR 0xFF000000 else v\<rparr>))
      else if t = 3 then bindR (get3 d i) (\<lambda>v.
        Ok (e\<lparr>he_hasAbsSentTime := True, he_absSentTime := drop_bit 18 ((ucast v :: QWORD) * 1000)\<rparr>))
      else Ok e)"

text \<open>\<open>length\<close> bytes are left at \<open>i\<close>: a padding byte, or the header of an element and the element.\<close>

function extension_loop :: "RTPMap \<Rightarrow> BYTE list \<Rightarrow> nat \<Rightarrow> nat \<Rightarrow> header_extension \<Rightarrow> header_extension res" where
  "extension_loop extMap d i n e =
     (if n = 0 then Ok e
      else bindR (byte_at d i) (\<lambda>header.
        let k = unat (get_bits 0 4 header) + 1 in
        if header = 0 then extension_loop extMap d (i + 1) (n - 1) e
        else if k > n - 1 then Ok e
        else bindR (set_extension (GetCodecForType (get_bits 4 4 header) extMap) d (i + 1) e) (\<lambda>e.
          extension_loop extMap d (i + 1 + k) (n - 1 - k) e)))"
  by pat_completeness auto

termination by (relation "measure (\<lambda>(_, _, _, n, _). n)") auto

declare extension_loop.simps [simp del]

definition ProcessExtensions :: "RTPMap \<Rightarrow> 'a rtp_packet_scheme \<Rightarrow> 'a rtp_packet_scheme res" where
  "ProcessExtensions extMap p =
     (if GetX p then
        bindR (extension_loop extMap (rp_buffer p) (ext_at p + 4) (unat (GetExtensionLength p)) (rp_extension p)) (\<lambda>e.
        Ok (p\<lparr>rp_extension := e\<rparr>))
      else Ok p)"

section \<open>Redundant data\<close>

record red_header =
  rh_type :: BYTE
  rh_codec :: BYTE
  rh_offset :: DWORD
  rh_ini :: DWORD
  rh_size :: DWORD

definition RedHeader_new :: "BYTE \<Rightarrow> DWORD \<Rightarrow> DWORD \<Rightarrow> DWORD \<Rightarrow> red_header" where
  "RedHeader_new ty offset ini sz = \<lparr>rh_type = ty, rh_codec = ty, rh_offset = offset, rh_ini = ini, rh_size = sz\<rparr>"

text \<open>\<open>primaryData\<close> and \<open>redundantData\<close> point into the packet's own array.\<close>

record red_packet = timed_packet +
  rd_headers :: "red_header list"
  rd_primaryType :: BYTE
  rd_primaryCodec :: BYTE
  rd_primarySize :: DWORD
  rd_primaryData :: nat
  rd_redundantData :: nat

text \<open>
  The headers of the blocks, from the one at \<open>i\<close> on, with \<open>skip\<close> bytes of blocks before it; the result has the place of
  the last header, which has one byte.  The size of a block is two bits and a byte, put together 6 bits apart.
\<close>

function red_headers :: "BYTE list \<Rightarrow> nat \<Rightarrow> WORD \<Rightarrow> (red_header list \<times> nat \<times> WORD) res" where
  "red_headers d i skip =
     bindR (byte_at d i) (\<lambda>b0.
     if get_bits 7 1 b0 = 0 then Ok ([], i, skip)
     else
       bindR (byte_at d (i + 1)) (\<lambda>b1. bindR (byte_at d (i + 2)) (\<lambda>b2. bindR (byte_at d (i + 3)) (\<lambda>b3.
       let offset = push_bit 6 (ucast b1) OR ucast (drop_bit 2 b2) :: WORD;
           sz = push_bit 6 (ucast (get_bits 0 2 b2)) OR ucast b3 :: WORD in
       bindR (red_headers d (i + 4) (skip + sz)) (\<lambda>(hs, j, skip').
       Ok (RedHeader_new (get_bits 0 7 b0) (ucast offset) (ucast skip) (ucast sz) # hs, j, skip'))))))"
  by pat_completeness auto

termination
  by (relation "measure (\<lambda>(d, i, _). length d - i)") (auto simp: byte_at_def split: if_splits)

declare red_headers.simps [simp del]

definition RTPRedundantPacket_new ::
  "QWORD \<Rightarrow> BYTE list \<Rightarrow> DWORD \<Rightarrow> media_type \<Rightarrow> BYTE list \<Rightarrow> DWORD \<Rightarrow> red_packet res" where
  "RTPRedundantPacket_new now junk len0 media data sz =
     bindR (RTPTimedPacket_data now junk len0 media data sz) (\<lambda>p.
     bindR (red_headers (rp_buffer p) (media_at p) 0) (\<lambda>(hs, j, skip).
     bindR (byte_at (rp_buffer p) j) (\<lambda>b.
     let i = j + 1 - media_at p in
     Ok (timed_packet.extend p
       \<lparr>rd_headers = hs, rd_primaryType = get_bits 0 7 b, rd_primaryCodec = 0,
        rd_primarySize = rp_len p - of_nat i - ucast skip, rd_primaryData = j + 1 + unat skip, rd_redundantData = j + 1\<rparr>))))"

definition red_at :: "('a \<Rightarrow> red_header \<Rightarrow> 'b) \<Rightarrow> 'b \<Rightarrow> nat \<Rightarrow> 'a \<Rightarrow> red_header list \<Rightarrow> 'b" where
  "red_at f none i p hs = (if i < length hs then f p (hs ! i) else none)"

definition GetRedundantPayloadData :: "nat \<Rightarrow> red_packet \<Rightarrow> nat option" where
  "GetRedundantPayloadData i p = red_at (\<lambda>p h. Some (rd_redundantData p + unat (rh_ini h))) None i p (rd_headers p)"

definition GetRedundantPayloadSize :: "nat \<Rightarrow> red_packet \<Rightarrow> DWORD" where
  "GetRedundantPayloadSize i p = red_at (\<lambda>_. rh_size) 0 i p (rd_headers p)"

definition GetRedundantType :: "nat \<Rightarrow> red_packet \<Rightarrow> BYTE" where
  "GetRedundantType i p = red_at (\<lambda>_. rh_type) 0 i p (rd_headers p)"

definition GetRedundantCodec :: "nat \<Rightarrow> red_packet \<Rightarrow> BYTE" where
  "GetRedundantCodec i p = red_at (\<lambda>_. rh_codec) 0 i p (rd_headers p)"

text \<open>The offset and the time of a block are returned as bytes.\<close>

definition GetRedundantOffser :: "nat \<Rightarrow> red_packet \<Rightarrow> BYTE" where
  "GetRedundantOffser i p = red_at (\<lambda>_ h. ucast (rh_offset h)) 0 i p (rd_headers p)"

definition GetRedundantTimestamp :: "nat \<Rightarrow> red_packet \<Rightarrow> BYTE" where
  "GetRedundantTimestamp i p = red_at (\<lambda>p h. ucast (GetTimestamp p - rh_offset h)) 0 i p (rd_headers p)"

definition SetRedundantCodec :: "nat \<Rightarrow> BYTE \<Rightarrow> red_packet \<Rightarrow> red_packet" where
  "SetRedundantCodec i codec p =
     (if i < length (rd_headers p) then p\<lparr>rd_headers := (rd_headers p)[i := (rd_headers p ! i)\<lparr>rh_codec := codec\<rparr>]\<rparr> else p)"

text \<open>The time of the primary packet stays that of its own creation.\<close>

definition CreatePrimaryPacket :: "QWORD \<Rightarrow> BYTE list \<Rightarrow> DWORD \<Rightarrow> red_packet \<Rightarrow> timed_packet res" where
  "CreatePrimaryPacket now junk len0 p =
     bindR (SetPayload (drop (rd_primaryData p) (rp_buffer p)) (rd_primarySize p)
       (SetSSRC (GetSSRC p) (copy_header p
         (RTPTimedPacket_type now junk len0 (rp_media p) (ucast (rd_primaryCodec p)) (ucast (rd_primaryType p)))))) (\<lambda>(_, q).
     Ok q)"

end
