(* ===== verification/RTPPacketProperties.thy ===== *)
theory RTPPacketProperties
  imports RTPPacket
begin

unbundle bit_operations_syntax

text \<open>
  What the packets keep: the fields of the header beside each other, the copies, and the blocks of redundant data.
\<close>

section \<open>The fields of the header\<close>

definition rtp_wf :: "'a rtp_packet_scheme \<Rightarrow> bool" where
  "rtp_wf p \<longleftrightarrow> length (rp_buffer p) = RTP_SIZE"

lemma get_put_bits: "k + n \<le> 8 \<Longrightarrow> get_bits k n (put_bits k n v b) = take_bit n v"
  by (rule bit_word_eqI) (auto simp: get_bits_def put_bits_def bit_simps)

lemma get_put_other: "k + n \<le> 8 \<Longrightarrow> l + m \<le> 8 \<Longrightarrow> k + n \<le> l \<or> l + m \<le> k \<Longrightarrow> get_bits l m (put_bits k n v b) = get_bits l m b"
  by (rule bit_word_eqI) (auto simp: get_bits_def put_bits_def bit_simps)

lemma get_field_set: "rtp_wf p \<Longrightarrow> i < 12 \<Longrightarrow> k + n \<le> 8 \<Longrightarrow> get_field i k n (set_field i k n v p) = take_bit n v"
  by (simp add: get_field_def set_field_def get_put_bits rtp_wf_def RTP_SIZE_def)

lemma get_field_other:
  "i \<noteq> j \<or> k + n \<le> 8 \<and> l + m \<le> 8 \<and> (k + n \<le> l \<or> l + m \<le> k) \<Longrightarrow> get_field j l m (set_field i k n v p) = get_field j l m p"
  by (cases "i < length (rp_buffer p)")
    (auto simp: get_field_def set_field_def get_put_other nth_list_update list_update_beyond split: if_splits)

lemma load_store2: "Suc i < length d \<Longrightarrow> load2 i (store2 i v d) = v"
  by (rule bit_word_eqI) (auto simp: load2_def store2_def bit_simps dest: bit_shift_back)

lemma load_store4:
  fixes v :: DWORD
  assumes "i + 3 < length d"
  shows "load4 i (store4 i v d) = v"
proof -
  from assms have "load4 i (store4 i v d) = ucast (ucast v :: BYTE) OR push_bit 8 (ucast (ucast (drop_bit 8 v) :: BYTE)) OR
      push_bit 16 (ucast (ucast (drop_bit 16 v) :: BYTE)) OR push_bit 24 (ucast (ucast (drop_bit 24 v) :: BYTE))"
    by (simp add: load4_def store4_def)
  also have "\<dots> = v" by (rule word32_bytes)
  finally show ?thesis .
qed

lemma load2_cong: "d ! i = d' ! i \<Longrightarrow> d ! Suc i = d' ! Suc i \<Longrightarrow> load2 i d = load2 i d'"
  by (simp add: load2_def)

lemma load4_cong:
  "d ! i = d' ! i \<Longrightarrow> d ! (i + 1) = d' ! (i + 1) \<Longrightarrow> d ! (i + 2) = d' ! (i + 2) \<Longrightarrow> d ! (i + 3) = d' ! (i + 3) \<Longrightarrow>
     load4 i d = load4 i d'"
  by (simp add: load4_def)

lemma store2_nth: "j \<noteq> i \<Longrightarrow> j \<noteq> Suc i \<Longrightarrow> store2 i v d ! j = d ! j"
  by (simp add: store2_def)

lemma store4_nth: "j < i \<or> i + 4 \<le> j \<Longrightarrow> store4 i v d ! j = d ! j"
  by (auto simp: store4_def)

lemma length_store [simp]: "length (store2 i v d) = length d" "length (store4 i w d) = length d"
  by (simp_all add: store2_def store4_def)

lemmas fields = GetCC_def GetX_def GetP_def GetVersion_def GetType_def GetMark_def
  SetCC_def SetX_def SetP_def SetVersion_def SetType_def SetMark_def

lemma rtp_wf_sets [simp]:
  "rtp_wf (set_field i k n v p) = rtp_wf p" "rtp_wf (SetSeqNum sn p) = rtp_wf p"
  "rtp_wf (SetTimestamp ts p) = rtp_wf p" "rtp_wf (SetSSRC ssrc p) = rtp_wf p"
  "rtp_wf (p\<lparr>rp_clockRate := c\<rparr>) = rtp_wf p" "rtp_wf (p\<lparr>rp_cycles := y\<rparr>) = rtp_wf p" "rtp_wf (p\<lparr>rp_len := l\<rparr>) = rtp_wf p"
  by (simp_all add: rtp_wf_def set_field_def SetSeqNum_def SetTimestamp_def SetSSRC_def)

lemma get_field_words [simp]:
  "j < 2 \<Longrightarrow> get_field j l m (SetSeqNum sn p) = get_field j l m p"
  "j < 2 \<Longrightarrow> get_field j l m (SetTimestamp ts p) = get_field j l m p"
  "j < 2 \<Longrightarrow> get_field j l m (SetSSRC ssrc p) = get_field j l m p"
  by (simp_all add: get_field_def SetSeqNum_def SetTimestamp_def SetSSRC_def store2_def store4_def)

lemma get_field_rest [simp]:
  "get_field j l m (p\<lparr>rp_clockRate := c\<rparr>) = get_field j l m p" "get_field j l m (p\<lparr>rp_cycles := y\<rparr>) = get_field j l m p"
  "get_field j l m (p\<lparr>rp_len := n\<rparr>) = get_field j l m p"
  by (simp_all add: get_field_def)

lemma word_field [simp]:
  "i < 2 \<Longrightarrow> GetSeqNum (set_field i k n v p) = GetSeqNum p" "i < 2 \<Longrightarrow> GetTimestamp (set_field i k n v p) = GetTimestamp p"
  "i < 2 \<Longrightarrow> GetSSRC (set_field i k n v p) = GetSSRC p"
  by (auto simp: GetSeqNum_def GetTimestamp_def GetSSRC_def set_field_def intro!: load2_cong load4_cong)

lemma word_words [simp]:
  "GetSeqNum (SetTimestamp ts p) = GetSeqNum p" "GetSeqNum (SetSSRC ssrc p) = GetSeqNum p"
  "GetTimestamp (SetSeqNum sn p) = GetTimestamp p" "GetTimestamp (SetSSRC ssrc p) = GetTimestamp p"
  "GetSSRC (SetSeqNum sn p) = GetSSRC p" "GetSSRC (SetTimestamp ts p) = GetSSRC p"
  by (auto simp: GetSeqNum_def GetTimestamp_def GetSSRC_def SetSeqNum_def SetTimestamp_def SetSSRC_def store2_nth store4_nth
    intro!: load2_cong load4_cong)

lemma word_rest [simp]:
  "GetSeqNum (p\<lparr>rp_clockRate := c\<rparr>) = GetSeqNum p" "GetSeqNum (p\<lparr>rp_cycles := y\<rparr>) = GetSeqNum p" "GetSeqNum (p\<lparr>rp_len := l\<rparr>) = GetSeqNum p"
  "GetTimestamp (p\<lparr>rp_clockRate := c\<rparr>) = GetTimestamp p" "GetTimestamp (p\<lparr>rp_cycles := y\<rparr>) = GetTimestamp p" "GetTimestamp (p\<lparr>rp_len := l\<rparr>) = GetTimestamp p"
  "GetSSRC (p\<lparr>rp_clockRate := c\<rparr>) = GetSSRC p" "GetSSRC (p\<lparr>rp_cycles := y\<rparr>) = GetSSRC p" "GetSSRC (p\<lparr>rp_len := l\<rparr>) = GetSSRC p"
  by (simp_all add: GetSeqNum_def GetTimestamp_def GetSSRC_def)

lemma word_set [simp]:
  "rtp_wf p \<Longrightarrow> GetSeqNum (SetSeqNum sn p) = sn" "rtp_wf p \<Longrightarrow> GetTimestamp (SetTimestamp ts p) = ts"
  "rtp_wf p \<Longrightarrow> GetSSRC (SetSSRC ssrc p) = ssrc"
  by (simp_all add: GetSeqNum_def GetTimestamp_def GetSSRC_def SetSeqNum_def SetTimestamp_def SetSSRC_def rtp_wf_def RTP_SIZE_def
    load_store2 load_store4)

lemma rest_sets [simp]:
  "rp_cycles (set_field i k n v p) = rp_cycles p" "rp_cycles (SetSeqNum sn p) = rp_cycles p"
  "rp_cycles (SetTimestamp ts p) = rp_cycles p" "rp_cycles (SetSSRC ssrc p) = rp_cycles p"
  "rp_clockRate (set_field i k n v p) = rp_clockRate p" "rp_clockRate (SetSeqNum sn p) = rp_clockRate p"
  "rp_clockRate (SetTimestamp ts p) = rp_clockRate p" "rp_clockRate (SetSSRC ssrc p) = rp_clockRate p"
  "rp_media (set_field i k n v p) = rp_media p" "rp_media (SetSeqNum sn p) = rp_media p"
  "rp_media (SetTimestamp ts p) = rp_media p" "rp_media (SetSSRC ssrc p) = rp_media p"
  "rp_codec (set_field i k n v p) = rp_codec p" "rp_codec (SetSeqNum sn p) = rp_codec p"
  "rp_codec (SetTimestamp ts p) = rp_codec p" "rp_codec (SetSSRC ssrc p) = rp_codec p"
  by (simp_all add: set_field_def SetSeqNum_def SetTimestamp_def SetSSRC_def)


section \<open>New packets and copies\<close>

lemma get_bits_0 [simp]: "get_bits k n 0 = 0"
  by (simp add: get_bits_def)

lemma extend_fields [simp]:
  "rtp_wf (rtp_packet.extend p r) = rtp_wf p" "get_field j l m (rtp_packet.extend p r) = get_field j l m p"
  "GetSeqNum (rtp_packet.extend p r) = GetSeqNum p" "GetTimestamp (rtp_packet.extend p r) = GetTimestamp p"
  "GetSSRC (rtp_packet.extend p r) = GetSSRC p" "rp_media (rtp_packet.extend p r) = rp_media p"
  "rp_codec (rtp_packet.extend p r) = rp_codec p"
  by (simp_all add: rtp_packet.defs rtp_wf_def get_field_def GetSeqNum_def GetTimestamp_def GetSSRC_def)

lemma extend_gets [simp]:
  "GetX (rtp_packet.extend p r) = GetX p" "GetP (rtp_packet.extend p r) = GetP p" "GetCC (rtp_packet.extend p r) = GetCC p"
  "GetType (rtp_packet.extend p r) = GetType p"
  by (simp_all add: fields)

text \<open>What the getters read.\<close>

lemma same_buffer:
  assumes "rp_buffer p = rp_buffer q"
  shows "GetX p = GetX q" "GetP p = GetP q" "GetCC p = GetCC q" "GetType p = GetType q" "GetMark p = GetMark q"
    "GetSeqNum p = GetSeqNum q" "GetTimestamp p = GetTimestamp q" "GetSSRC p = GetSSRC q" "rtp_wf p = rtp_wf q"
    "GetRTPHeaderLen p = GetRTPHeaderLen q" "media_at p = media_at q"
  using assms by (simp_all add: fields get_field_def GetSeqNum_def GetTimestamp_def GetSSRC_def rtp_wf_def GetRTPHeaderLen_def
      GetExtensionSize_def GetExtensionLength_def ext_at_def media_at_def)

lemma zero_header_fields [simp]:
  "rtp_wf p \<Longrightarrow> rtp_wf (zero_header p)" "i < 12 \<Longrightarrow> get_field i k n (zero_header p) = 0"
  "GetSSRC (zero_header p) = 0" "rp_media (zero_header p) = rp_media p" "rp_codec (zero_header p) = rp_codec p"
  by (simp_all add: zero_header_def rtp_wf_def RTP_SIZE_def get_field_def GetSSRC_def load4_def nth_append)

lemma new_packet:
  assumes "length junk = RTP_SIZE"
  shows "rtp_wf (RTPPacket_new junk len0 media codec ty)"
    "GetX (RTPPacket_new junk len0 media codec ty) = False" "GetP (RTPPacket_new junk len0 media codec ty) = False"
    "GetCC (RTPPacket_new junk len0 media codec ty) = 0" "GetType (RTPPacket_new junk len0 media codec ty) = take_bit 7 ty"
    "GetSSRC (RTPPacket_new junk len0 media codec ty) = 0" "GetVersion (RTPPacket_new junk len0 media codec ty) = 2"
    "rp_media (RTPPacket_new junk len0 media codec ty) = media" "rp_codec (RTPPacket_new junk len0 media codec ty) = codec"
proof -
  have wf: "rtp_wf \<lparr>rp_media = media, rp_codec = codec, rp_clockRate = default_rate media, rp_cycles = 0, rp_buffer = junk,
      rp_len = len0, rp_extension = HeaderExtension_new\<rparr>" using assms by (simp add: rtp_wf_def)
  have t: "ucast (take_bit 7 (ucast ty :: BYTE)) = take_bit 7 ty" by (rule bit_word_eqI) (auto simp: bit_simps)
  show "rtp_wf (RTPPacket_new junk len0 media codec ty)"
    "GetX (RTPPacket_new junk len0 media codec ty) = False" "GetP (RTPPacket_new junk len0 media codec ty) = False"
    "GetCC (RTPPacket_new junk len0 media codec ty) = 0" "GetType (RTPPacket_new junk len0 media codec ty) = take_bit 7 ty"
    "GetSSRC (RTPPacket_new junk len0 media codec ty) = 0" "GetVersion (RTPPacket_new junk len0 media codec ty) = 2"
    "rp_media (RTPPacket_new junk len0 media codec ty) = media" "rp_codec (RTPPacket_new junk len0 media codec ty) = codec"
    using wf by (simp_all add: RTPPacket_new_def fields get_field_set get_field_other t)
qed

lemma plain_header: "\<not> GetX q \<Longrightarrow> GetCC q = 0 \<Longrightarrow> GetRTPHeaderLen q = 12 \<and> media_at q = 12"
  by (simp add: GetRTPHeaderLen_def GetExtensionSize_def media_at_def)

lemma field_sizes: "rp_buffer p = rp_buffer q \<Longrightarrow> get_field i k n p = get_field i k n q"
  by (simp add: get_field_def)

text \<open>Filling a packet without extensions.\<close>

lemma SetPayload_plain:
  assumes q: "rtp_wf q" "\<not> GetX q" "GetCC q = 0" and n: "unat sz \<le> 1688" "unat sz \<le> length data"
  shows "SetPayload data sz q = Ok (True, q\<lparr>rp_buffer := take 12 (rp_buffer q) @ take (unat sz) data @ drop (12 + unat sz) (rp_buffer q),
    rp_len := sz\<rparr>)"
proof -
  note h = plain_header [OF q(2,3)]
  have "\<not> sz > GetMaxMediaLength q" using h n(1) by (simp add: GetMaxMediaLength_def RTP_SIZE_def word_less_nat_alt)
  moreover have len: "length (rp_buffer q) = 1700" using q(1) by (simp add: rtp_wf_def RTP_SIZE_def)
  ultimately show ?thesis using h n
    by (cases "unat sz = 0") (simp_all add: SetPayload_def rtp_memcpy_def copy_out_def copy_in_def unsigned_eq_0_iff)
qed

lemma filled_fields:
  assumes "length (rp_buffer q) = 1700" "b = take 12 (rp_buffer q) @ xs"
  shows "j < 12 \<Longrightarrow> get_field j k n (q\<lparr>rp_buffer := b, rp_len := l\<rparr>) = get_field j k n q"
    "GetSeqNum (q\<lparr>rp_buffer := b, rp_len := l\<rparr>) = GetSeqNum q" "GetTimestamp (q\<lparr>rp_buffer := b, rp_len := l\<rparr>) = GetTimestamp q"
    "GetSSRC (q\<lparr>rp_buffer := b, rp_len := l\<rparr>) = GetSSRC q"
  using assms by (simp_all add: get_field_def GetSeqNum_def GetTimestamp_def GetSSRC_def load2_def load4_def nth_append)


definition same_media :: "'a rtp_packet_scheme \<Rightarrow> 'b rtp_packet_scheme \<Rightarrow> bool" where
  "same_media p q \<longleftrightarrow> rp_media p = rp_media q \<and> rp_codec p = rp_codec q \<and> GetType p = GetType q \<and>
     rp_clockRate p = rp_clockRate q \<and> GetMark p = GetMark q \<and> GetExtSeqNum p = GetExtSeqNum q \<and>
     GetTimestamp p = GetTimestamp q"

lemma mark_set: "rtp_wf q \<Longrightarrow> GetMark (SetMark m q) = m"
  by (simp add: fields get_field_set)

lemma take_bit_type: "take_bit 7 (GetType p) = GetType p"
  by (rule bit_word_eqI) (auto simp: fields get_field_def get_bits_def bit_simps)

lemma copy_header_fields:
  assumes "rtp_wf q"
  shows "rtp_wf (copy_header p q)" "GetType (copy_header p q) = GetType q" "GetX (copy_header p q) = GetX q"
    "GetP (copy_header p q) = GetP q" "GetCC (copy_header p q) = GetCC q" "GetMark (copy_header p q) = GetMark p"
    "GetSeqNum (copy_header p q) = GetSeqNum p" "GetTimestamp (copy_header p q) = GetTimestamp p"
    "GetSSRC (copy_header p q) = GetSSRC q" "rp_clockRate (copy_header p q) = rp_clockRate p"
    "rp_cycles (copy_header p q) = rp_cycles p" "rp_media (copy_header p q) = rp_media q"
    "rp_codec (copy_header p q) = rp_codec q"
  using assms
  by (simp_all add: copy_header_def) (simp_all add: fields get_field_other get_field_set)

lemma payload_behind:
  assumes "rtp_wf p" "media_at p + unat (rp_len p) \<le> RTP_SIZE"
  shows "GetMediaBytes p = Ok (take (unat (rp_len p)) (drop (media_at p) (rp_buffer p)))"
  using assms by (simp add: GetMediaBytes_def copy_out_def rtp_wf_def)

lemma copy_payload_fields:
  assumes p: "rtp_wf p" "media_at p + unat (rp_len p) \<le> RTP_SIZE" and n: "unat (rp_len p) \<le> 1688"
    and q: "rtp_wf q" "\<not> GetX q" "GetCC q = 0"
  shows "\<exists>b xs. copy_payload p q = Ok (q\<lparr>rp_buffer := b, rp_len := rp_len p\<rparr>) \<and> b = take 12 (rp_buffer q) @ xs \<and>
    length b = RTP_SIZE \<and> GetMediaBytes (q\<lparr>rp_buffer := b, rp_len := rp_len p\<rparr>) = GetMediaBytes p"
proof -
  let ?data = "drop (media_at p) (rp_buffer p)" and ?n = "unat (rp_len p)"
  let ?b = "take 12 (rp_buffer q) @ take ?n ?data @ drop (12 + ?n) (rp_buffer q)"
  have len: "length (rp_buffer p) = RTP_SIZE" "length (rp_buffer q) = 1700" using p(1) q(1) by (simp_all add: rtp_wf_def RTP_SIZE_def)
  then have "?n \<le> length ?data" using p(2) by simp
  from SetPayload_plain [OF q n this]
  have c: "copy_payload p q = Ok (q\<lparr>rp_buffer := ?b, rp_len := rp_len p\<rparr>)" by (simp add: copy_payload_def)
  let ?q = "q\<lparr>rp_buffer := ?b, rp_len := rp_len p\<rparr>"
  have "\<not> GetX ?q" "GetCC ?q = 0" using q(2,3) filled_fields(1) [OF len(2) refl] by (simp_all add: fields)
  from plain_header [OF this] have h: "media_at ?q = 12" by simp
  have lb: "length ?b = RTP_SIZE" using len n p(2) by (simp add: RTP_SIZE_def)
  then have "GetMediaBytes ?q = Ok (take ?n (drop 12 ?b))"
    using h n by (simp add: GetMediaBytes_def copy_out_def RTP_SIZE_def)
  also have "\<dots> = GetMediaBytes p" using payload_behind [OF p] len p(2) by simp
  finally show ?thesis using c lb by blast
qed

text \<open>A copy is a copy of the media, not of the packet.  \<open>Clone\<close> keeps the media, the codec, the type, the clock rate, the
  marker, the extended sequence number, the timestamps and the payload of every packet whose payload lies in its array;
  but the copy has no SSRC, no padding flag and no header extension.\<close>

theorem clone_keeps_the_media:
  assumes p: "rtp_wf p" "media_at p + unat (rp_len p) \<le> RTP_SIZE" and n: "unat (rp_len p) \<le> 1688"
    and junk: "length junk = RTP_SIZE"
  shows "\<exists>q. Timed_Clone now junk len0 p = Ok q \<and> same_media q p \<and> GetMediaBytes q = GetMediaBytes p \<and>
    rt_time q = rt_time p \<and> GetSSRC q = 0 \<and> \<not> GetP q \<and> \<not> GetX q \<and> GetCC q = 0 \<and> rtp_wf q \<and> rp_len q = rp_len p"
proof -
  let ?new = "RTPTimedPacket_type now junk len0 (rp_media p) (rp_codec p) (GetType p)"
  let ?h = "copy_header p ?new"
  have wf: "rtp_wf ?new" using new_packet(1) [OF junk] by (simp add: RTPTimedPacket_type_def)
  have new: "\<not> GetX ?new" "\<not> GetP ?new" "GetCC ?new = 0" "GetType ?new = GetType p" "GetSSRC ?new = 0"
    "rp_media ?new = rp_media p" "rp_codec ?new = rp_codec p"
    using new_packet(2,3,4,5) [OF junk] new_packet(6,8,9) [OF junk]
    by (simp_all add: RTPTimedPacket_type_def take_bit_type)
  note h = copy_header_fields [OF wf, of p]
  from copy_payload_fields [OF p n h(1)] h(3,5) new(1,3) obtain b xs where
    c: "copy_payload p ?h = Ok (?h\<lparr>rp_buffer := b, rp_len := rp_len p\<rparr>)" "b = take 12 (rp_buffer ?h) @ xs" "length b = RTP_SIZE"
    "GetMediaBytes (?h\<lparr>rp_buffer := b, rp_len := rp_len p\<rparr>) = GetMediaBytes p" by auto
  let ?q = "?h\<lparr>rp_buffer := b, rp_len := rp_len p\<rparr>"
  obtain r where r: "Timed_Clone now junk len0 p = Ok r" "rp_buffer r = rp_buffer ?q" "rp_len r = rp_len ?q"
    "rp_media r = rp_media ?h" "rp_codec r = rp_codec ?h" "rp_clockRate r = rp_clockRate ?h" "rp_cycles r = rp_cycles ?h"
    "rt_time r = rt_time p"
    by (simp add: Timed_Clone_def Let_def c(1) split: if_splits)
  have len: "length (rp_buffer ?h) = 1700" using h(1) by (simp add: rtp_wf_def RTP_SIZE_def)
  note f = filled_fields [OF len c(2)]
  have q: "GetX ?q = GetX ?h" "GetP ?q = GetP ?h" "GetCC ?q = GetCC ?h" "GetType ?q = GetType ?h" "GetMark ?q = GetMark ?h" "GetSSRC ?q = GetSSRC ?h"
    "GetSeqNum ?q = GetSeqNum ?h" "GetTimestamp ?q = GetTimestamp ?h"
    using f by (simp_all add: fields)
  have "GetMediaBytes r = GetMediaBytes p"
    using c(4) same_buffer(11) [OF r(2)] r(2,3) by (simp add: GetMediaBytes_def)
  moreover have "rtp_wf r" using c(3) r(2) by (simp add: rtp_wf_def)
  ultimately show ?thesis using r q h new same_buffer [OF r(2)] by (auto simp: same_media_def GetExtSeqNum_def)
qed


theorem clone_keeps_the_media_witness:
  "\<exists>q. Timed_Clone 5 (replicate 1700 1) 0 (SetSSRC 9 (RTPTimedPacket_new 7000 (replicate 1700 0) 3 Audio 8)) = Ok q \<and>
     GetMediaBytes q = Ok [0, 0, 0] \<and> rt_time q = 7 \<and> GetSSRC q = 0"
proof -
  let ?n = "RTPTimedPacket_new 7000 (replicate 1700 0) 3 Audio 8" let ?p = "SetSSRC 9 ?n"
  have j: "length (replicate 1700 (0 :: BYTE)) = RTP_SIZE" "length (replicate 1700 (1 :: BYTE)) = RTP_SIZE" by (simp_all add: RTP_SIZE_def)
  have n: "rtp_wf ?n" "\<not> GetX ?n" "GetCC ?n = 0" using new_packet(1,2,4) [OF j(1)] by (simp_all add: RTPTimedPacket_new_def)
  then have p: "rtp_wf ?p" "\<not> GetX ?p" "GetCC ?p = 0" by (simp_all add: fields)
  have len: "rp_len ?p = 3" "rt_time ?p = 7"
    by (simp_all add: SetSSRC_def RTPTimedPacket_new_def rtp_packet.defs RTPPacket_new_def SetType_def SetVersion_def set_field_def zero_header_def)
  have m: "media_at ?p = 12" using plain_header [OF p(2,3)] by simp
  have b: "take 3 (drop 12 (rp_buffer ?p)) = [0, 0, 0]"
    by (simp add: SetSSRC_def RTPTimedPacket_new_def rtp_packet.defs RTPPacket_new_def SetType_def SetVersion_def set_field_def zero_header_def
        store4_def numeral_3_eq_3)
  have bytes: "GetMediaBytes ?p = Ok [0, 0, 0]" using payload_behind [OF p(1)] m len b by (simp add: RTP_SIZE_def)
  from clone_keeps_the_media [OF p(1) _ _ j(2), of 5 0] m len bytes show ?thesis by (auto simp: RTP_SIZE_def)
qed

section \<open>Redundant data\<close>

text \<open>The payload of RFC 2198: blocks with their type, the offset of their time and their data, then the primary data.\<close>

type_synonym red_block = "BYTE \<times> WORD \<times> BYTE list"

definition red_block_header :: "red_block \<Rightarrow> BYTE list" where
  "red_block_header b = (case b of (t, offset, xs) \<Rightarrow>
     let n = of_nat (length xs) :: WORD in
     [0x80 OR take_bit 7 t, ucast (drop_bit 6 offset), push_bit 2 (ucast offset) OR ucast (drop_bit 8 n), ucast n])"

definition rfc2198 :: "red_block list \<Rightarrow> BYTE \<Rightarrow> BYTE list \<Rightarrow> BYTE list" where
  "rfc2198 bs t primary =
     concat (map red_block_header bs) @ [take_bit 7 t] @ concat (map (\<lambda>(_, _, xs). xs) bs) @ primary"

definition short_block :: "red_block \<Rightarrow> bool" where
  "short_block b = (case b of (t, offset, xs) \<Rightarrow> offset < 2 ^ 14 \<and> length xs < 256)"

lemma high_bit: "get_bits 7 (Suc 0) b = (if bit b 7 then 1 else 0)"
proof (rule bit_word_eqI)
  fix i
  show "bit (get_bits 7 (Suc 0) b) i = bit (if bit b 7 then 1 else 0) i"
    by (cases "i = 0") (simp_all add: bit_iff_odd_drop_bit [of b] get_bits_def bit_take_bit_iff bit_1_iff)
qed

lemma top_bit:
  fixes h :: BYTE
  assumes h: "\<And>k. bit h k \<longleftrightarrow> k = 7"
  shows "get_bits 7 (Suc 0) (h OR take_bit 7 t) = 1" "get_bits 0 7 (h OR take_bit 7 t) = take_bit 7 t"
proof -
  show "get_bits 7 (Suc 0) (h OR take_bit 7 t) = 1" by (simp add: high_bit bit_or_iff h)
  have "bit (get_bits 0 7 (h OR take_bit 7 t)) i = bit (take_bit 7 t) i" for i
    by (auto simp: get_bits_def bit_take_bit_iff bit_or_iff h)
  then show "get_bits 0 7 (h OR take_bit 7 t) = take_bit 7 t" by (intro bit_word_eqI)
qed

lemma bit_0x80: "bit (0x80 :: BYTE) k \<longleftrightarrow> k = 7"
  using bit_exp_iff [of 7 k, where ?'a = "8 word"] by (auto dest: bit_imp_le_length)

lemma word_below: "v < 2 ^ n \<Longrightarrow> bit v i \<Longrightarrow> i < n" for v :: WORD
  using less_mask_eq [of v n] by (metis bit_and_iff bit_mask_iff)

lemma red_offset:
  fixes offset n :: WORD
  assumes "offset < 2 ^ 14" "n < 2 ^ 8"
  shows "push_bit 6 (ucast (ucast (drop_bit 6 offset) :: BYTE)) OR
      ucast (drop_bit 2 (push_bit 2 (ucast offset) OR ucast (drop_bit 8 n) :: BYTE)) = offset"
proof -
  have "\<not> bit n (10 + i)" for i using word_below [OF assms(2), of "10 + i"] by auto
  moreover have "bit offset i \<Longrightarrow> i - 6 < 8" for i using word_below [OF assms(1), of i] by auto
  ultimately show ?thesis by (intro bit_word_eqI) (auto simp: bit_simps dest: bit_shift_back)
qed

lemma red_size:
  fixes n :: WORD
  assumes "n < 2 ^ 8"
  shows "push_bit 6 (ucast (get_bits 0 2 (push_bit 2 b OR ucast (drop_bit 8 n) :: BYTE))) OR ucast (ucast n :: BYTE) = n"
proof -
  have "\<not> bit n (8 + i)" for i using word_below [OF assms, of "8 + i"] by auto
  moreover have "bit n i \<Longrightarrow> i < 8" for i using word_below [OF assms, of i] by auto
  ultimately show ?thesis by (intro bit_word_eqI) (auto simp: get_bits_def bit_simps)
qed


lemma red_block_header_simp:
  "red_block_header (t, offset, xs) = [0x80 OR take_bit 7 t, ucast (drop_bit 6 offset),
     push_bit 2 (ucast offset) OR ucast (drop_bit 8 (of_nat (length xs) :: WORD)), ucast (of_nat (length xs) :: WORD)]"
  by (simp add: red_block_header_def Let_def)

lemma length_red_block_header [simp]: "length (red_block_header b) = 4"
  by (simp add: red_block_header_def Let_def split: prod.splits)

text \<open>The headers of the blocks \<open>bs\<close>, the first of them after \<open>skip\<close> bytes of data.\<close>

fun red_fields :: "red_block list \<Rightarrow> nat \<Rightarrow> red_header list" where
  "red_fields [] skip = []"
| "red_fields ((t, offset, xs) # bs) skip =
     RedHeader_new (take_bit 7 t) (ucast offset) (of_nat skip) (of_nat (length xs)) # red_fields bs (skip + length xs)"

definition red_total :: "red_block list \<Rightarrow> nat" where
  "red_total bs = (\<Sum>(_, _, xs)\<leftarrow>bs. length xs)"

lemma bytes_at: "drop i d = b # bs \<Longrightarrow> byte_at d i = Ok b \<and> i < length d"
  by (metis byte_at_Ok drop_all list.discI not_le nth_via_drop)

lemma drops_at:
  assumes "drop i d = b0 # b1 # b2 # b3 # bs"
  shows "byte_at d i = Ok b0" "byte_at d (i + 1) = Ok b1" "byte_at d (i + 2) = Ok b2" "byte_at d (i + 3) = Ok b3"
    "drop (i + 4) d = bs"
proof -
  have d: "drop (i + k) d = drop k (b0 # b1 # b2 # b3 # bs)" for k using assms by (metis add.commute drop_drop)
  have "drop (i + 1) d = b1 # b2 # b3 # bs" "drop (i + 2) d = b2 # b3 # bs" "drop (i + 3) d = b3 # bs"
    using d [of 1] d [of 2] d [of 3] by simp_all
  note this [THEN bytes_at]
  with bytes_at [OF assms] show "byte_at d i = Ok b0" "byte_at d (i + 1) = Ok b1" "byte_at d (i + 2) = Ok b2"
    "byte_at d (i + 3) = Ok b3" by blast+
  show "drop (i + 4) d = bs" using d [of 4] by simp
qed

lemma red_headers_of_blocks:
  assumes "drop i d = concat (map red_block_header bs) @ take_bit 7 t # rest" "list_all short_block bs"
    and "skip + red_total bs < 2 ^ 16"
  shows "red_headers d i (of_nat skip) = Ok (red_fields bs skip, i + 4 * length bs, of_nat (skip + red_total bs))"
  using assms
proof (induction bs arbitrary: i skip)
  case Nil
  have "get_bits 7 (Suc 0) (take_bit 7 t) = 0" by (simp add: high_bit bit_take_bit_iff)
  with Nil bytes_at [of i d] show ?case by (simp add: red_headers.simps [of d i] red_total_def)
next
  case (Cons b bs)
  obtain t' offset xs where b: "b = (t', offset, xs)" by (cases b)
  let ?n = "of_nat (length xs) :: WORD"
  from Cons.prems(2) b have o: "offset < 2 ^ 14" and n: "length xs < 256" by (auto simp: short_block_def)
  then have un: "unat ?n = length xs" by (simp add: unat_of_nat take_bit_nat_eq_self)
  with n have n8: "?n < 2 ^ 8" by (simp add: word_less_nat_alt)
  have "drop i d = (0x80 OR take_bit 7 t') # ucast (drop_bit 6 offset) # (push_bit 2 (ucast offset) OR ucast (drop_bit 8 ?n)) #
      ucast ?n # concat (map red_block_header bs) @ take_bit 7 t # rest"
    using Cons.prems(1) b by (simp add: red_block_header_simp)
  note at = drops_at [OF this]
  have total: "red_total (b # bs) = length xs + red_total bs" using b by (simp add: red_total_def)
  have "skip + length xs + red_total bs < 2 ^ 16" using Cons.prems(3) total by simp
  note ih = Cons.IH [OF at(5) _ this]
  have u: "ucast (of_nat m :: WORD) = (of_nat m :: DWORD)" if "m < 2 ^ 16" for m
    using that by (simp add: word_unat_eq_iff unsigned_ucast_eq unat_of_nat take_bit_nat_eq_self)
  have s16: "skip < 2 ^ 16" "length xs < 2 ^ 16" using Cons.prems(3) n by simp_all
  show ?case
    using at(1-4) ih Cons.prems(2) total b red_offset [OF o n8] red_size [OF n8] u [OF s16(1)] u [OF s16(2)]
    by (simp add: red_headers.simps [of d i] top_bit [OF bit_0x80] Let_def add.assoc)
qed


text \<open>A datagram with a plain header: no extension, no contributing sources.\<close>

definition plain_datagram :: "BYTE list \<Rightarrow> bool" where
  "plain_datagram h \<longleftrightarrow> length h = 12 \<and> get_bits 4 1 (h ! 0) = 0 \<and> get_bits 0 4 (h ! 0) = 0"

lemma RTPTimedPacket_data_plain:
  assumes h: "plain_datagram h" and n: "length (h @ payload) \<le> RTP_SIZE" and junk: "length junk = RTP_SIZE"
  shows "\<exists>p. RTPTimedPacket_data now junk len0 media (h @ payload) (of_nat (length (h @ payload))) = Ok p \<and>
    rp_buffer p = h @ payload @ drop (12 + length payload) junk \<and> media_at p = 12 \<and> unat (rp_len p) = length payload \<and>
    rp_len p = of_nat (length payload)"
proof -
  let ?d = "h @ payload"
  let ?b = "h @ payload @ drop (12 + length payload) junk"
  let ?e = "\<lparr>rp_media = media, rp_codec = 0, rp_clockRate = default_rate media, rp_cycles = 0, rp_buffer = ?b,
      rp_len = len0, rp_extension = HeaderExtension_new\<rparr>"
  define k where "k = (of_nat (length (h @ payload)) :: DWORD)"
  from h have h12: "length h = 12" by (simp add: plain_datagram_def)
  have "unat k = length (h @ payload)"
    unfolding k_def using n by (simp only: unat_of_nat) (simp add: take_bit_nat_eq_self RTP_SIZE_def)
  then have un: "unat k = 12 + length payload" using h12 by simp
  have "\<not> GetX ?e" "GetCC ?e = 0" using h by (simp_all add: fields get_field_def plain_datagram_def nth_append)
  from plain_header [OF this] have hdr: "GetRTPHeaderLen ?e = 12" "media_at ?e = 12" by simp_all
  have k12: "unat (k - 12) = length payload" using un by (subst unat_sub) (simp_all add: word_le_nat_alt)
  moreover have "k - 12 = of_nat (length payload)" unfolding k12 [symmetric] by simp
  moreover have "SetData ?d k (?e\<lparr>rp_buffer := junk\<rparr>) = Ok (True, ?e\<lparr>rp_len := k - 12\<rparr>)"
    using un n h12 junk hdr by (simp add: SetData_def rtp_memcpy_def copy_out_def copy_in_def RTP_SIZE_def rtp_SetSize_def)
  ultimately obtain p where p: "RTPTimedPacket_data now junk len0 media ?d k = Ok p" "rp_buffer p = rp_buffer ?e"
    "unat (rp_len p) = length payload" "rp_len p = of_nat (length payload)"
    by (simp add: RTPTimedPacket_data_def RTPPacket_data_def rtp_packet.defs)
  moreover have "media_at p = 12" using same_buffer(11) [OF p(2)] hdr(2) by simp
  ultimately show ?thesis unfolding k_def by auto
qed

lemma length_headers: "length (concat (map red_block_header bs)) = 4 * length bs"
  by (induction bs) simp_all

lemma length_bodies: "length (concat (map (\<lambda>(_, _, xs). xs) bs)) = red_total bs"
  by (induction bs) (auto simp: red_total_def)

lemma drop_past: "drop i d = xs @ ys \<Longrightarrow> drop (i + length xs) d = ys"
  by (metis add.commute append_eq_conv_conj drop_drop)

lemma red_fields_blocks:
  assumes "drop (r + skip) d = concat (map (\<lambda>(_, _, xs). xs) bs) @ rest" "list_all short_block bs"
    and "skip + red_total bs < 2 ^ 16" "r + skip + red_total bs \<le> length d"
  shows "map (\<lambda>h. (rh_type h, rh_offset h, copy_out (r + unat (rh_ini h)) (unat (rh_size h)) d)) (red_fields bs skip) =
    map (\<lambda>(t, offset, xs). (take_bit 7 t, ucast offset, Ok xs)) bs"
  using assms
proof (induction bs arbitrary: skip)
  case (Cons b bs)
  obtain t offset xs where b: "b = (t, offset, xs)" by (cases b)
  with Cons.prems(1) have d: "drop (r + skip) d = xs @ concat (map (\<lambda>(_, _, xs). xs) bs) @ rest" by simp
  from drop_past [OF this] have "drop (r + (skip + length xs)) d = concat (map (\<lambda>(_, _, xs). xs) bs) @ rest"
    by (simp only: add.assoc)
  moreover have "r + skip + length xs + red_total bs \<le> length d"
    using Cons.prems(4) b by (simp add: red_total_def)
  moreover have "skip < 2 ^ 16" "length xs < 2 ^ 16" "skip + length xs + red_total bs < 2 ^ 16"
    using Cons.prems(3) b by (simp_all add: red_total_def)
  moreover have "unat (of_nat skip :: DWORD) = skip" "unat (of_nat (length xs) :: DWORD) = length xs"
    using calculation(3,4) by (simp_all only: unat_of_nat) (simp_all add: take_bit_nat_eq_self)
  moreover have "copy_out (r + skip) (length xs) d = Ok xs"
    using calculation(2) d by (simp add: copy_out_def)
  ultimately show ?case
    using Cons.IH [of "skip + length xs"] Cons.prems(2) b by (simp add: RedHeader_new_def)
qed simp

text \<open>Redundant data comes out as it went in.  A datagram with a plain header whose payload is that of RFC 2198, with any
  number of blocks of less than 256 bytes, gives a packet whose redundant types, time offsets and data are those of the
  blocks, in their order, and whose primary type and data are the primary ones; everything lies in the packet's array.\<close>

theorem redundant_blocks_are_separated:
  assumes h: "plain_datagram h" and n: "length (h @ rfc2198 bs t primary) \<le> RTP_SIZE" and bs: "list_all short_block bs"
    and junk: "length junk = RTP_SIZE"
  defines "datagram \<equiv> h @ rfc2198 bs t primary"
  shows "\<exists>p. RTPRedundantPacket_new now junk len0 media datagram (of_nat (length datagram)) = Ok p \<and>
    rd_primaryType p = take_bit 7 t \<and> copy_out (rd_primaryData p) (unat (rd_primarySize p)) (rp_buffer p) = Ok primary \<and>
    map (\<lambda>r. (rh_type r, rh_offset r, copy_out (rd_redundantData p + unat (rh_ini r)) (unat (rh_size r)) (rp_buffer p)))
      (rd_headers p) = map (\<lambda>(t, offset, xs). (take_bit 7 t, ucast offset, Ok xs)) bs"
proof -
  let ?d = "rfc2198 bs t primary" and ?k = "length bs" and ?total = "red_total bs"
  let ?B = "h @ ?d @ drop (12 + length ?d) junk"
  let ?body = "concat (map (\<lambda>(_, _, xs). xs) bs)"
  from RTPTimedPacket_data_plain [OF h n junk] obtain q where
    q: "RTPTimedPacket_data now junk len0 media datagram (of_nat (length datagram)) = Ok q" "rp_buffer q = ?B"
    "media_at q = 12" "rp_len q = of_nat (length ?d)" unfolding datagram_def by blast
  have h12: "length h = 12" using h by (simp add: plain_datagram_def)
  have len: "length ?d = 4 * ?k + 1 + ?total + length primary" by (simp add: rfc2198_def length_bodies length_headers)
  with n h12 have small: "?total < 2 ^ 16" "?k < 2 ^ 16" "length primary < 2 ^ 16" by (simp_all add: RTP_SIZE_def)
  have d12: "drop 12 ?B = concat (map red_block_header bs) @ take_bit 7 t # ?body @ primary @ drop (12 + length ?d) junk"
    using h12 by (simp add: rfc2198_def)
  from red_headers_of_blocks [OF this bs, of 0] small
  have r: "red_headers ?B 12 0 = Ok (red_fields bs 0, 12 + 4 * ?k, of_nat ?total)" by simp
  have dk: "drop (12 + 4 * ?k + j) ?B = drop j (take_bit 7 t # ?body @ primary @ drop (12 + length ?d) junk)" for j
  proof -
    have "drop (12 + 4 * ?k + j) xs = drop j (drop (4 * ?k) (drop 12 xs))" for xs :: "BYTE list" by (simp add: ac_simps)
    then have "drop (12 + 4 * ?k + j) ?B = drop j (drop (4 * ?k) (drop 12 ?B))" .
    also have "drop (4 * ?k) (drop 12 ?B) = take_bit 7 t # ?body @ primary @ drop (12 + length ?d) junk"
      unfolding d12 by (simp add: length_headers)
    finally show ?thesis .
  qed
  from dk [of 0] have b: "byte_at ?B (12 + 4 * ?k) = Ok (take_bit 7 t)" using bytes_at by fastforce
  have d1: "drop (12 + 4 * ?k + 1) ?B = ?body @ primary @ drop (12 + length ?d) junk" using dk [of 1] by simp
  have ut: "unat (of_nat ?total :: WORD) = ?total" using small by (simp add: unat_of_nat take_bit_nat_eq_self)
  have up: "unat (of_nat (length primary) :: DWORD) = length primary" using small by (simp add: unat_of_nat take_bit_nat_eq_self)
  have "ucast (of_nat ?total :: WORD) = (of_nat ?total :: DWORD)"
    using ut small by (simp add: word_unat_eq_iff unsigned_ucast_eq unat_of_nat take_bit_nat_eq_self)
  then have size: "rp_len q - of_nat (4 * ?k + 1) - ucast (of_nat ?total :: WORD) = of_nat (length primary)"
    using q(4) len by simp
  let ?P = "12 + 4 * ?k + 1 + ?total"
  have "drop ?P ?B = primary @ drop (12 + length ?d) junk"
    using drop_past [OF d1] unfolding length_bodies .
  moreover have "?P + length primary \<le> length ?B" using len h12 by simp
  ultimately have c: "copy_out ?P (length primary) ?B = Ok primary" by (simp add: copy_out_def)
  have "12 + 4 * ?k + 1 + 0 + ?total \<le> length ?B" using len h12 by simp
  with red_fields_blocks [OF _ bs, of "12 + 4 * ?k + 1" 0 ?B "primary @ drop (12 + length ?d) junk"] d1 small
  have blocks: "map (\<lambda>r. (rh_type r, rh_offset r,
      copy_out (12 + 4 * ?k + 1 + unat (rh_ini r)) (unat (rh_size r)) ?B)) (red_fields bs 0) =
    map (\<lambda>(t, offset, xs). (take_bit 7 t, ucast offset, Ok xs)) bs" by simp
  show ?thesis
    unfolding RTPRedundantPacket_new_def q(1) bindR.simps
    using q(2,3) r b size c up ut blocks
    by (simp add: timed_packet.defs Let_def get_bits_def add.assoc)
qed

theorem redundant_blocks_are_separated_witness:
  "let h = [0x80, 0x65, 0, 1, 0, 0, 0, 0, 0, 0, 0, 9]; d = h @ rfc2198 [(98, 1000, [11, 22, 33])] 98 [44, 55] in
   \<exists>p. RTPRedundantPacket_new 5 (replicate 1700 0) 0 Text d (of_nat (length d)) = Ok p \<and>
    rd_primaryType p = 98 \<and> copy_out (rd_primaryData p) (unat (rd_primarySize p)) (rp_buffer p) = Ok [44, 55] \<and>
    map (\<lambda>r. (rh_type r, rh_offset r, copy_out (rd_redundantData p + unat (rh_ini r)) (unat (rh_size r)) (rp_buffer p)))
      (rd_headers p) = [(98, 1000, Ok [11, 22, 33])]"
proof -
  let ?h = "[0x80, 0x65, 0, 1, 0, 0, 0, 0, 0, 0, 0, 9] :: BYTE list"
  show ?thesis
    using redundant_blocks_are_separated [of ?h "[(98, 1000, [11, 22, 33])]" 98 "[44, 55]" "replicate 1700 0" 5 0 Text]
    by (simp add: plain_datagram_def get_bits_def rfc2198_def red_block_header_simp short_block_def RTP_SIZE_def Let_def)
qed

end
