(* ===== verification/RTPBuffer.thy ===== *)
theory RTPBuffer
  imports RTPPacketProperties "HOL-Library.Multiset"
begin

text \<open>
  The jitter buffer (\<open>src/mcu/include/rtpbuffer.h\<close>): packets come in any order and leave in the order of their
  extended sequence numbers, each at its turn or when it has waited for \<open>maxWaitTime\<close> milliseconds.

  Every operation but \<open>HurryUp\<close> and the two accessors holds the mutex from its first access to its last one, so each is one
  step.  \<open>Wait\<close> gives the mutex up only to sleep: \<open>Wait_pass\<close> is what it does between two sleeps, and \<open>now\<close> is the
  clock in microseconds at that time.  \<open>HurryUp\<close> writes one flag, which a pass reads at most once.
\<close>

record rtp_buffer =
  rb_packets :: "(DWORD, timed_packet) omap"
  rb_cancel :: bool
  rb_hurryUp :: bool
  rb_next :: DWORD
  rb_maxWaitTime :: DWORD

definition no_next :: DWORD where
  "no_next = -1"

definition RTPBuffer_new :: rtp_buffer where
  "RTPBuffer_new = \<lparr>rb_packets = [], rb_cancel = False, rb_hurryUp = False, rb_next = no_next, rb_maxWaitTime = 0\<rparr>"

text \<open>A packet that is refused is deleted.\<close>

definition Buffer_Add :: "timed_packet \<Rightarrow> rtp_buffer \<Rightarrow> bool \<times> rtp_buffer" where
  "Buffer_Add rtp b =
     (let seq = GetExtSeqNum rtp in
      if rb_next b \<noteq> no_next \<and> seq < rb_next b then (False, b)
      else if map_find (rb_packets b) seq \<noteq> None then (False, b)
      else (True, b\<lparr>rb_packets := map_put seq rtp (rb_packets b)\<rparr>))"

definition Buffer_Cancel :: "rtp_buffer \<Rightarrow> rtp_buffer" where
  "Buffer_Cancel b = b\<lparr>rb_cancel := True\<rparr>"

text \<open>A pass ends the call, or it sleeps: until the time \<open>tv_sec\<close>, \<open>tv_nsec\<close>, or until there is a signal.\<close>

datatype wait_outcome =
    Delivers timed_packet
  | ReturnsNull
  | SleepsUntil QWORD QWORD
  | Sleeps

definition Wait_pass :: "QWORD \<Rightarrow> rtp_buffer \<Rightarrow> wait_outcome \<times> rtp_buffer" where
  "Wait_pass now b =
     (if rb_cancel b then (ReturnsNull, b)
      else case rb_packets b of
        [] \<Rightarrow> (Sleeps, b\<lparr>rb_hurryUp := False\<rparr>)
      | (seq, candidate) # packets \<Rightarrow>
          let until = rt_time candidate + ucast (rb_maxWaitTime b) in
          if rb_next b = no_next \<or> seq = rb_next b \<or> until < now div 1000 \<or> rb_hurryUp b
          then (Delivers candidate, b\<lparr>rb_next := seq + 1, rb_packets := packets\<rparr>)
          else (SleepsUntil (until div 1000) ((until - until div 1000 * 1000) * 1000), b))"

definition Buffer_Clear :: "rtp_buffer \<Rightarrow> rtp_buffer" where
  "Buffer_Clear b = b\<lparr>rb_packets := []\<rparr>"

definition Buffer_HurryUp :: "rtp_buffer \<Rightarrow> rtp_buffer" where
  "Buffer_HurryUp b = b\<lparr>rb_hurryUp := True\<rparr>"

definition Buffer_Reset :: "rtp_buffer \<Rightarrow> rtp_buffer" where
  "Buffer_Reset b = b\<lparr>rb_packets := [], rb_cancel := False, rb_next := no_next\<rparr>"

definition Buffer_Length :: "rtp_buffer \<Rightarrow> DWORD" where
  "Buffer_Length b = of_nat (length (rb_packets b))"

definition SetMaxWaitTime :: "DWORD \<Rightarrow> rtp_buffer \<Rightarrow> rtp_buffer" where
  "SetMaxWaitTime t b = b\<lparr>rb_maxWaitTime := t\<rparr>"

section \<open>Interleavings\<close>

text \<open>
  The calls of all threads in the order in which they get the mutex, and what becomes of the packets: those \<open>Add\<close> has
  stored; those \<open>Wait\<close> has returned, each with the clock and the buffer of that pass; those \<open>Clear\<close> and \<open>Reset\<close> have
  deleted.
\<close>

datatype buffer_op =
    AddOp timed_packet
  | WaitOp QWORD
  | CancelOp
  | ClearOp
  | HurryUpOp
  | ResetOp
  | SetMaxWaitTimeOp DWORD

record buffer_log =
  br_buffer :: rtp_buffer
  br_added :: "timed_packet list"
  br_out :: "(QWORD \<times> rtp_buffer \<times> timed_packet) list"
  br_deleted :: "timed_packet list"

fun buffer_call :: "buffer_op \<Rightarrow> buffer_log \<Rightarrow> buffer_log" where
  "buffer_call (AddOp rtp) r =
     (case Buffer_Add rtp (br_buffer r) of (ok, b) \<Rightarrow>
        r\<lparr>br_buffer := b, br_added := br_added r @ (if ok then [rtp] else [])\<rparr>)"
| "buffer_call (WaitOp now) r =
     (case Wait_pass now (br_buffer r) of
        (Delivers rtp, b) \<Rightarrow> r\<lparr>br_buffer := b, br_out := br_out r @ [(now, br_buffer r, rtp)]\<rparr>
      | (_, b) \<Rightarrow> r\<lparr>br_buffer := b\<rparr>)"
| "buffer_call CancelOp r = r\<lparr>br_buffer := Buffer_Cancel (br_buffer r)\<rparr>"
| "buffer_call ClearOp r =
     r\<lparr>br_buffer := Buffer_Clear (br_buffer r), br_deleted := br_deleted r @ map snd (rb_packets (br_buffer r))\<rparr>"
| "buffer_call HurryUpOp r = r\<lparr>br_buffer := Buffer_HurryUp (br_buffer r)\<rparr>"
| "buffer_call ResetOp r =
     r\<lparr>br_buffer := Buffer_Reset (br_buffer r), br_deleted := br_deleted r @ map snd (rb_packets (br_buffer r))\<rparr>"
| "buffer_call (SetMaxWaitTimeOp t) r = r\<lparr>br_buffer := SetMaxWaitTime t (br_buffer r)\<rparr>"

definition buffer_run :: "buffer_op list \<Rightarrow> buffer_log" where
  "buffer_run ops = fold buffer_call ops \<lparr>br_buffer = RTPBuffer_new, br_added = [], br_out = [], br_deleted = []\<rparr>"

lemma buffer_run_Nil:
  "buffer_run [] = \<lparr>br_buffer = RTPBuffer_new, br_added = [], br_out = [], br_deleted = []\<rparr>"
  by (simp add: buffer_run_def)

lemma buffer_run_snoc: "buffer_run (ops @ [x]) = buffer_call x (buffer_run ops)"
  by (simp add: buffer_run_def)

section \<open>No packet is lost or delivered twice\<close>

lemma mset_map_put:
  "map_find m k = None \<Longrightarrow> omap_wf m \<Longrightarrow>
     image_mset snd (mset (map_put k v m)) = add_mset v (image_mset snd (mset m))"
  by (induction k v m rule: map_put.induct) (auto simp: map_find_def omap_wf_Cons split: if_splits)

text \<open>A pass delivers the first packet for one of the reasons of the code, or it changes no packet.\<close>

lemma buffer_call_WaitOp:
  obtains (delivers) seq p packets where "rb_packets (br_buffer r) = (seq, p) # packets"
      "buffer_call (WaitOp now) r = r\<lparr>br_buffer := (br_buffer r)\<lparr>rb_next := seq + 1, rb_packets := packets\<rparr>,
         br_out := br_out r @ [(now, br_buffer r, p)]\<rparr>"
      "rb_next (br_buffer r) = no_next \<or> seq = rb_next (br_buffer r) \<or> rb_hurryUp (br_buffer r) \<or>
         rt_time p + ucast (rb_maxWaitTime (br_buffer r)) < now div 1000"
    | (waits) h where "buffer_call (WaitOp now) r = r\<lparr>br_buffer := (br_buffer r)\<lparr>rb_hurryUp := h\<rparr>\<rparr>"
proof (cases "rb_cancel (br_buffer r) \<or> rb_packets (br_buffer r) = []")
  case True
  then show ?thesis
    by (intro waits [of "rb_cancel (br_buffer r) \<and> rb_hurryUp (br_buffer r)"]) (auto simp: Wait_pass_def)
next
  case False
  then obtain seq p packets where d: "rb_packets (br_buffer r) = (seq, p) # packets" "\<not> rb_cancel (br_buffer r)"
    by (cases "rb_packets (br_buffer r)") auto
  show ?thesis
  proof (cases "rb_next (br_buffer r) = no_next \<or> seq = rb_next (br_buffer r) \<or> rb_hurryUp (br_buffer r) \<or>
      rt_time p + ucast (rb_maxWaitTime (br_buffer r)) < now div 1000")
    case True
    with d show ?thesis by (intro delivers [OF d(1)]) (auto simp: Wait_pass_def Let_def)
  next
    case False
    with d show ?thesis by (intro waits [of "rb_hurryUp (br_buffer r)"]) (simp add: Wait_pass_def Let_def)
  qed
qed

text \<open>What every operation keeps.\<close>

definition buffer_inv :: "buffer_log \<Rightarrow> bool" where
  "buffer_inv r \<longleftrightarrow>
     (let b = br_buffer r in
      omap_wf (rb_packets b) \<and> (\<forall>(seq, p) \<in> set (rb_packets b). seq = GetExtSeqNum p) \<and>
      mset (br_added r) = mset (map (snd \<circ> snd) (br_out r)) + mset (br_deleted r) + mset (map snd (rb_packets b)))"

lemma buffer_call_inv: "buffer_inv r \<Longrightarrow> buffer_inv (buffer_call x r)"
proof (cases x)
  case (AddOp rtp)
  assume "buffer_inv r"
  with AddOp show ?thesis
    by (auto simp: buffer_inv_def Buffer_Add_def Let_def mset_map_put set_map_put)
next
  case (WaitOp now)
  assume "buffer_inv r"
  with WaitOp show ?thesis
    by (cases rule: buffer_call_WaitOp [of r now]) (simp_all del: buffer_call.simps add: buffer_inv_def Let_def omap_wf_Cons)
qed (auto simp: buffer_inv_def Let_def Buffer_Cancel_def Buffer_Clear_def Buffer_HurryUp_def Buffer_Reset_def
  SetMaxWaitTime_def)

lemma buffer_run_inv: "buffer_inv (buffer_run ops)"
  by (induction ops rule: rev_induct)
    (simp_all add: buffer_run_Nil buffer_run_snoc buffer_call_inv, simp add: buffer_inv_def RTPBuffer_new_def)


section \<open>Packets leave in order\<close>

text \<open>
  Two packets that leave one after the other: the numbers rise, and a number is skipped only for a packet that has waited
  for its time or when the buffer is told to hurry up.
\<close>

fun follows :: "QWORD \<times> rtp_buffer \<times> timed_packet \<Rightarrow> QWORD \<times> rtp_buffer \<times> timed_packet \<Rightarrow> bool" where
  "follows (_, _, p) (now, b, q) \<longleftrightarrow>
     GetExtSeqNum p < GetExtSeqNum q \<and>
     (GetExtSeqNum q = GetExtSeqNum p + 1 \<or> rb_hurryUp b \<or> rt_time q + ucast (rb_maxWaitTime b) < now div 1000)"

definition last_numbers :: "DWORD" where
  "last_numbers = 0xFFFFFFFE"

definition order_inv :: "buffer_log \<Rightarrow> bool" where
  "order_inv r \<longleftrightarrow>
     (let b = br_buffer r; out = br_out r in
      (\<forall>seq \<in> fst ` set (rb_packets b). seq < last_numbers) \<and>
      (out = [] \<longrightarrow> rb_next b = no_next) \<and>
      (out \<noteq> [] \<longrightarrow> rb_next b = GetExtSeqNum (snd (snd (last out))) + 1 \<and> GetExtSeqNum (snd (snd (last out))) < last_numbers \<and>
         (\<forall>seq \<in> fst ` set (rb_packets b). rb_next b \<le> seq)) \<and>
      successively follows out)"

lemma next_number:
  assumes "s < last_numbers" shows "s + 1 \<noteq> no_next" "s + 1 \<le> q \<longleftrightarrow> s < q"
proof -
  have "unat s < 0xFFFFFFFE" using assms by (simp add: last_numbers_def word_less_nat_alt)
  then have u: "unat (s + 1) = unat s + 1" by (simp add: unat_word_ariths)
  have "unat no_next = 0xFFFFFFFF" by (simp add: no_next_def unsigned_minus_1_eq_mask mask_eq_exp_minus_1)
  with u \<open>unat s < 0xFFFFFFFE\<close> show "s + 1 \<noteq> no_next" by auto
  show "s + 1 \<le> q \<longleftrightarrow> s < q" using u by (simp add: word_le_nat_alt word_less_nat_alt Suc_le_eq)
qed

lemma successively_snoc:
  "successively P (xs @ [x]) \<longleftrightarrow> successively P xs \<and> (xs \<noteq> [] \<longrightarrow> P (last xs) x)"
  by (auto simp: successively_append_iff)

lemma ball_map_put:
  "(\<forall>e \<in> set (map_put k v m). fst e < c) \<longleftrightarrow> k < c \<and> (\<forall>e \<in> set m. fst e < c)"
  "(\<forall>e \<in> set (map_put k v m). c \<le> fst e) \<longleftrightarrow> c \<le> k \<and> (\<forall>e \<in> set m. c \<le> fst e)"
  by (induction k v m rule: map_put.induct) auto

lemma buffer_call_order:
  assumes inv: "buffer_inv r" and order: "order_inv r" and x: "x \<noteq> ResetOp"
    and small: "\<And>p. x = AddOp p \<Longrightarrow> GetExtSeqNum p < last_numbers"
  shows "order_inv (buffer_call x r)"
proof (cases x)
  case (AddOp p)
  let ?b = "br_buffer r"
  show ?thesis
  proof (cases "fst (Buffer_Add p ?b)")
    case True
    have "rb_next ?b \<noteq> no_next" if "br_out r \<noteq> []"
      using that order next_number(1) by (auto simp: order_inv_def Let_def)
    with True have "br_out r \<noteq> [] \<Longrightarrow> rb_next ?b \<le> GetExtSeqNum p"
      by (auto simp: Buffer_Add_def Let_def split: if_splits)
    moreover from True have "snd (Buffer_Add p ?b) = ?b\<lparr>rb_packets := map_put (GetExtSeqNum p) p (rb_packets ?b)\<rparr>"
      by (auto simp: Buffer_Add_def Let_def split: if_splits)
    ultimately show ?thesis
      using AddOp order small [OF AddOp] by (cases "Buffer_Add p ?b") (auto simp: order_inv_def Let_def ball_map_put)
  next
    case False
    then have "Buffer_Add p ?b = (False, ?b)" by (auto simp: Buffer_Add_def Let_def split: if_splits)
    with AddOp order show ?thesis by (auto simp: order_inv_def Let_def)
  qed
next
  case (WaitOp now)
  let ?b = "br_buffer r"
  show ?thesis
  proof (cases rule: buffer_call_WaitOp [of r now])
    case (delivers seq p packets)
    from inv delivers(1) have seq: "seq = GetExtSeqNum p" and after: "\<forall>s \<in> fst ` set packets. seq < s"
      by (auto simp: buffer_inv_def Let_def omap_wf_Cons)
    from order delivers(1) have small: "seq < last_numbers" by (simp add: order_inv_def Let_def)
    have "s < s + 1" if "s < last_numbers" for s using next_number(2) [OF that, of "s + 1"] by simp
    then have "follows (last (br_out r)) (now, ?b, p)" if "br_out r \<noteq> []"
      using that order delivers(1,3) next_number seq
      by (cases "last (br_out r)") (auto simp: order_inv_def Let_def)
    with order delivers(1,2) next_number [OF small] seq after small WaitOp show ?thesis
      by (auto simp del: buffer_call.simps simp: order_inv_def Let_def successively_snoc)
  next
    case (waits h)
    with order WaitOp show ?thesis by (auto simp del: buffer_call.simps simp: order_inv_def Let_def)
  qed
qed (use order x in \<open>auto simp: order_inv_def Let_def Buffer_Cancel_def Buffer_Clear_def Buffer_HurryUp_def SetMaxWaitTime_def\<close>)



lemma buffer_run_order:
  assumes "\<forall>p. AddOp p \<in> set ops \<longrightarrow> GetExtSeqNum p < last_numbers" "ResetOp \<notin> set ops"
  shows "order_inv (buffer_run ops)"
  using assms
proof (induction ops rule: rev_induct)
  case Nil
  show ?case by (simp add: buffer_run_Nil order_inv_def RTPBuffer_new_def)
next
  case (snoc x ops)
  then have "order_inv (buffer_run ops)" by simp
  with snoc.prems show ?case unfolding buffer_run_snoc by (intro buffer_call_order buffer_run_inv) auto
qed

text \<open>What is told of each packet given to \<open>Add\<close>: it was stored, or another one with its number was, or a later one has
  left.\<close>

definition accounted :: "buffer_log \<Rightarrow> timed_packet \<Rightarrow> bool" where
  "accounted r p \<longleftrightarrow> p \<in> set (br_added r) \<or> (\<exists>q \<in> set (br_added r). GetExtSeqNum q = GetExtSeqNum p) \<or>
     (\<exists>(now, b, q) \<in> set (br_out r). GetExtSeqNum p < GetExtSeqNum q)"

lemma buffer_call_grows:
  "set (br_added r) \<subseteq> set (br_added (buffer_call x r)) \<and> set (br_out r) \<subseteq> set (br_out (buffer_call x r))"
  by (cases x) (auto simp: Buffer_Add_def Let_def split: wait_outcome.split prod.split)

lemma accounted_call: "accounted r p \<Longrightarrow> accounted (buffer_call x r) p"
  using buffer_call_grows [of r x] unfolding accounted_def by blast

lemma added_accounted:
  assumes inv: "buffer_inv r" and order: "order_inv r"
  shows "accounted (buffer_call (AddOp p) r) p"
proof -
  let ?b = "br_buffer r"
  consider "fst (Buffer_Add p ?b)" | "rb_next ?b \<noteq> no_next" "GetExtSeqNum p < rb_next ?b"
    | q where "map_find (rb_packets ?b) (GetExtSeqNum p) = Some q"
    by (fastforce simp: Buffer_Add_def Let_def split: if_splits)
  then show ?thesis
  proof cases
    case 1
    then show ?thesis by (cases "Buffer_Add p ?b") (simp add: accounted_def)
  next
    case 2
    with order have out: "br_out r \<noteq> []" by (auto simp: order_inv_def Let_def)
    obtain now b q where q: "last (br_out r) = (now, b, q)" by (cases "last (br_out r)") auto
    with out have l: "(now, b, q) \<in> set (br_out r)" using last_in_set by fastforce
    have "q \<in># mset (br_added r)" using inv l by (force simp: buffer_inv_def Let_def)
    moreover from order out q 2 have "GetExtSeqNum p \<le> GetExtSeqNum q"
      using next_number(2) by (fastforce simp: order_inv_def Let_def not_less [symmetric])
    ultimately have "accounted r p" using l by (force simp: accounted_def order.order_iff_strict)
    then show ?thesis by (rule accounted_call)
  next
    case 3
    then have "(GetExtSeqNum p, q) \<in> set (rb_packets ?b)" by (rule map_find_Some_in)
    with inv have "q \<in># mset (br_added r)" "GetExtSeqNum q = GetExtSeqNum p" by (force simp: buffer_inv_def Let_def)+
    then have "accounted r p" by (force simp: accounted_def)
    then show ?thesis by (rule accounted_call)
  qed
qed

lemma buffer_run_accounts:
  assumes "\<forall>p. AddOp p \<in> set ops \<longrightarrow> GetExtSeqNum p < last_numbers" "ResetOp \<notin> set ops" "AddOp p \<in> set ops"
  shows "accounted (buffer_run ops) p"
  using assms
proof (induction ops rule: rev_induct)
  case (snoc x ops)
  show ?case
  proof (cases "x = AddOp p")
    case True
    from snoc.prems have "order_inv (buffer_run ops)" by (intro buffer_run_order) auto
    with True show ?thesis unfolding buffer_run_snoc by (simp only: added_accounted buffer_run_inv)
  next
    case False
    with snoc have "accounted (buffer_run ops) p" by auto
    then show ?thesis unfolding buffer_run_snoc by (rule accounted_call)
  qed
qed simp

text \<open>C13: The jitter buffer delivers every packet in order, once.  However the calls of the threads are interleaved, as long as
  the buffer is not reset and the extended sequence numbers are below 0xFFFFFFFE: the packets leave in the order of their
  numbers, and a number is skipped only for a packet that has waited longer than \<open>maxWaitTime\<close> or on \<open>HurryUp\<close>; every
  stored packet is delivered once, deleted by \<open>Clear\<close>, or still stored; and a packet is refused only for another one with
  its number or after a later one has left.\<close>

theorem packets_leave_in_order:
  assumes "\<forall>p. AddOp p \<in> set ops \<longrightarrow> GetExtSeqNum p < 0xFFFFFFFE" and "ResetOp \<notin> set ops"
  defines "r \<equiv> buffer_run ops"
  shows "successively follows (br_out r)
     \<and> mset (br_added r) =
         mset (map (snd \<circ> snd) (br_out r)) + mset (br_deleted r) + mset (map snd (rb_packets (br_buffer r)))
     \<and> (\<forall>p. AddOp p \<in> set ops \<longrightarrow> accounted r p)"
proof (intro conjI allI impI)
  note small = assms(1) [folded last_numbers_def]
  show "successively follows (br_out r)"
    using buffer_run_order [OF small assms(2)] by (simp add: order_inv_def Let_def r_def)
  show "mset (br_added r) =
      mset (map (snd \<circ> snd) (br_out r)) + mset (br_deleted r) + mset (map snd (rb_packets (br_buffer r)))"
    using buffer_run_inv [of ops] by (simp add: buffer_inv_def Let_def r_def)
  show "accounted r p" if "AddOp p \<in> set ops" for p
    unfolding r_def by (rule buffer_run_accounts [OF small assms(2) that])
qed



text \<open>Three packets in the wrong order: the one with the number 7 comes after the one with the number 8, and 9 is given
  twice.\<close>

theorem packets_leave_in_order_witness:
  "let p = (\<lambda>n. SetSeqNum n (RTPTimedPacket_new 5000 (replicate 1700 0) 0 Audio 8));
       ops = [SetMaxWaitTimeOp 100, AddOp (p 6), WaitOp 5000, AddOp (p 8), WaitOp 5000, AddOp (p 7), WaitOp 6000,
         WaitOp 6000, AddOp (p 9), AddOp (p 9), AddOp (p 5)];
       r = buffer_run ops in
   successively follows (br_out r)
     \<and> mset (br_added r) =
         mset (map (snd \<circ> snd) (br_out r)) + mset (br_deleted r) + mset (map snd (rb_packets (br_buffer r)))
     \<and> accounted r (p 5)"
proof -
  define p where "p n = SetSeqNum n (RTPTimedPacket_new 5000 (replicate 1700 0) 0 Audio 8)" for n
  let ?ops = "[SetMaxWaitTimeOp 100, AddOp (p 6), WaitOp 5000, AddOp (p 8), WaitOp 5000, AddOp (p 7), WaitOp 6000,
    WaitOp 6000, AddOp (p 9), AddOp (p 9), AddOp (p 5)]"
  have "GetExtSeqNum (p n) = ucast n" for n
    by (simp add: p_def GetExtSeqNum_def GetSeqNum_def SetSeqNum_def RTPTimedPacket_new_def RTPPacket_new_def load_store2
      SetType_def SetVersion_def set_field_def zero_header_def rtp_packet.defs)
  then have "\<forall>q. AddOp q \<in> set ?ops \<longrightarrow> GetExtSeqNum q < 0xFFFFFFFE" "ResetOp \<notin> set ?ops" by auto
  from packets_leave_in_order [OF this] show ?thesis by (simp add: p_def [symmetric] Let_def)
qed


end
