(* ===== verification/BitStream.thy ===== *)
theory BitStream
  imports Bytes
begin

unbundle bit_operations_syntax

text \<open>
  The bit streams of \<open>src/mcu/include/bitstream.h\<close>: \<open>BitReader\<close> and \<open>BitWritter\<close> move bits, the highest first,
  through a cache of 32 bits, and \<open>ExpGolombDecoder\<close> reads the variable length codes of the video headers.

  C++ leaves a shift by the width of its operand or more undefined.  The code makes such shifts (a cache that is
  exactly full, a read of no bits); the model gives them the meaning of the shift instructions of the x86, which the
  program is written for: the count is taken modulo the width.
\<close>

definition shl :: "'a::len word \<Rightarrow> nat \<Rightarrow> 'a word" where
  "shl w n = push_bit (n mod LENGTH('a)) w"

definition shr :: "'a::len word \<Rightarrow> nat \<Rightarrow> 'a word" where
  "shr w n = drop_bit (n mod LENGTH('a)) w"

definition ones :: DWORD where
  "ones = 0xFFFFFFFF"

section \<open>Reading\<close>

text \<open>\<open>br_data\<close> is the memory behind the pointer \<open>buffer\<close>.\<close>

record bit_reader =
  br_data :: "BYTE list"
  br_len :: DWORD
  br_pos :: DWORD
  br_cache :: DWORD
  br_cached :: BYTE

definition BitReader_new :: "BYTE list \<Rightarrow> DWORD \<Rightarrow> bit_reader" where
  "BitReader_new data sz = \<lparr>br_data = data, br_len = sz, br_pos = 0, br_cache = 0, br_cached = 0\<rparr>"

definition br_Left :: "bit_reader \<Rightarrow> QWORD" where
  "br_Left r = ucast (ucast (br_cached r) + br_len r * 8 :: DWORD)"

definition GetPos :: "bit_reader \<Rightarrow> DWORD" where
  "GetPos r = br_pos r * 8 - ucast (br_cached r)"

text \<open>What \<open>Cache\<close> takes next: the number of bytes, and the bits.\<close>

definition next_cache :: "bit_reader \<Rightarrow> (nat \<times> DWORD) res" where
  "next_cache r =
     (if br_len r > 3 then bindR (get4 (br_data r) 0) (\<lambda>c. Ok (4, c))
      else if br_len r = 3 then bindR (get3 (br_data r) 0) (\<lambda>c. Ok (3, push_bit 8 c))
      else if br_len r = 2 then bindR (get2 (br_data r) 0) (\<lambda>c. Ok (2, push_bit 16 c))
      else if br_len r = 1 then bindR (get1 (br_data r) 0) (\<lambda>c. Ok (1, push_bit 24 (ucast c)))
      else Fault (Thrown ''Reading past end of stream''))"

definition Cache :: "bit_reader \<Rightarrow> bit_reader res" where
  "Cache r = bindR (next_cache r) (\<lambda>(n, c).
     Ok (r\<lparr>br_data := drop n (br_data r), br_len := br_len r - of_nat n, br_pos := br_pos r + of_nat n,
          br_cache := c, br_cached := of_nat (8 * n)\<rparr>))"

definition PeekNextCached :: "bit_reader \<Rightarrow> DWORD res" where
  "PeekNextCached r = bindR (next_cache r) (\<lambda>(n, c). Ok c)"

definition SkipCached :: "DWORD \<Rightarrow> bit_reader \<Rightarrow> bit_reader" where
  "SkipCached n r = r\<lparr>br_cache := shl (br_cache r) (unat n), br_cached := br_cached r - ucast n\<rparr>"

definition GetCached :: "DWORD \<Rightarrow> bit_reader \<Rightarrow> DWORD \<times> bit_reader" where
  "GetCached n r = (shr (br_cache r) (unat (32 - n)), SkipCached n r)"

text \<open>The number of bits still to be taken is a \<open>BYTE\<close>.\<close>

definition br_Get :: "DWORD \<Rightarrow> bit_reader \<Rightarrow> (DWORD \<times> bit_reader) res" where
  "br_Get n r =
     (if n > ucast (br_cached r) then
        let a = ucast (n - ucast (br_cached r)) :: BYTE; ret = shr (br_cache r) (unat (32 - n)) in
        bindR (Cache r) (\<lambda>r. let (v, r) = GetCached (ucast a) r in Ok (ret OR v, r))
      else Ok (GetCached n r))"

definition br_Skip :: "DWORD \<Rightarrow> bit_reader \<Rightarrow> bit_reader res" where
  "br_Skip n r =
     (if n > ucast (br_cached r) then
        let a = ucast (n - ucast (br_cached r)) :: BYTE in
        bindR (Cache r) (\<lambda>r. Ok (SkipCached (ucast a) r))
      else Ok (SkipCached n r))"

definition br_Peek :: "DWORD \<Rightarrow> bit_reader \<Rightarrow> DWORD res" where
  "br_Peek n r =
     (if n > ucast (br_cached r) then
        let a = ucast (n - ucast (br_cached r)) :: BYTE; ret = shr (br_cache r) (unat (32 - n)) in
        bindR (PeekNextCached r) (\<lambda>c. Ok (ret OR shr c (unat (32 - (ucast a :: DWORD)))))
      else Ok (shr (br_cache r) (unat (32 - n))))"

definition br_Check :: "DWORD \<Rightarrow> DWORD \<Rightarrow> bit_reader \<Rightarrow> (bool \<times> bit_reader) res" where
  "br_Check n val r = bindR (br_Get n r) (\<lambda>(v, r). Ok (v = val, r))"

section \<open>Writing\<close>

text \<open>\<open>bw_at\<close> is the place of \<open>buffer\<close> in \<open>data\<close>.\<close>

record bit_writer =
  bw_data :: "BYTE list"
  bw_size :: DWORD
  bw_at :: nat
  bw_len :: DWORD
  bw_left :: DWORD
  bw_cache :: DWORD
  bw_cached :: BYTE

definition bw_Reset :: "bit_writer \<Rightarrow> bit_writer" where
  "bw_Reset w = w\<lparr>bw_at := 0, bw_len := 0, bw_left := bw_size w, bw_cached := 0, bw_cache := 0\<rparr>"

definition BitWritter_new :: "BYTE list \<Rightarrow> DWORD \<Rightarrow> bit_writer" where
  "BitWritter_new data sz = bw_Reset
     \<lparr>bw_data = data, bw_size = sz, bw_at = 0, bw_len = 0, bw_left = 0, bw_cache = 0, bw_cached = 0\<rparr>"

text \<open>The bytes of the cache are written when there is a whole number of them.\<close>

definition FlushCache :: "bit_writer \<Rightarrow> bit_writer res" where
  "FlushCache w =
     (let n = unat (bw_cached w) div 8;
          store = (\<lambda>d. Ok (w\<lparr>bw_data := d, bw_at := bw_at w + n, bw_len := bw_len w + of_nat n,
                        bw_left := bw_left w - of_nat n, bw_cached := 0\<rparr>)) in
      if bw_cached w = 0 then Ok w
      else if ucast (bw_cached w) > bw_left w * 8 then Fault (Thrown ''Writing past end of bit stream'')
      else if bw_cached w = 32 then bindR (set4 (bw_data w) (bw_at w) (bw_cache w)) store
      else if bw_cached w = 24 then bindR (set3 (bw_data w) (bw_at w) (bw_cache w)) store
      else if bw_cached w = 16 then bindR (set2 (bw_data w) (bw_at w) (bw_cache w)) store
      else if bw_cached w = 8 then bindR (set1 (bw_data w) (bw_at w) (ucast (bw_cache w))) store
      else Ok (w\<lparr>bw_cached := 0\<rparr>))"

definition Put :: "BYTE \<Rightarrow> DWORD \<Rightarrow> bit_writer \<Rightarrow> bit_writer res" where
  "Put n v w =
     (let cached = bw_cached w in
      if unat n + unat cached > 32 then
        let a = 32 - cached; b = n - a in
        bindR (FlushCache (w\<lparr>bw_cache := shl (bw_cache w) (unat a) OR (shr v (unat b) AND shr ones (unat cached)),
                            bw_cached := 32\<rparr>)) (\<lambda>w.
        Ok (w\<lparr>bw_cache := v AND shr ones (unat (32 - b)), bw_cached := b\<rparr>))
      else Ok (w\<lparr>bw_cache := shl (bw_cache w) (unat n) OR (v AND shr ones (unat (32 - n))),
                bw_cached := cached + n\<rparr>))"

definition Align :: "bit_writer \<Rightarrow> bit_writer res" where
  "Align w =
     (let c = bw_cached w in
      if c mod 8 = 0 then Ok w
      else if c > 24 then Put (32 - c) 0 w
      else if c > 16 then Put (24 - c) 0 w
      else if c > 8 then Put (16 - c) 0 w
      else Put (8 - c) 0 w)"

definition Flush :: "bit_writer \<Rightarrow> (DWORD \<times> bit_writer) res" where
  "Flush w = bindR (Align w) (\<lambda>w. bindR (FlushCache w) (\<lambda>w. Ok (bw_len w, w)))"

section \<open>Exponential Golomb codes\<close>

text \<open>The zeros are counted up to the end of the stream, where the reader throws.\<close>

fun count_zeros :: "nat \<Rightarrow> bit_reader \<Rightarrow> (nat \<times> bit_reader) res" where
  "count_zeros fuel r =
     bindR (br_Get 1 r) (\<lambda>(v, r).
     if v \<noteq> 0 then Ok (0, r)
     else case fuel of
       0 \<Rightarrow> Fault OutOfFuel
     | Suc fuel \<Rightarrow> bindR (count_zeros fuel r) (\<lambda>(n, r). Ok (Suc n, r)))"

declare count_zeros.simps [simp del]

definition ExpGolomb_Decode :: "bit_reader \<Rightarrow> (DWORD \<times> bit_reader) res" where
  "ExpGolomb_Decode r =
     bindR (count_zeros (unat (br_Left r)) r) (\<lambda>(len, r).
     bindR (br_Get (of_nat len) r) (\<lambda>(val, r).
     Ok (shl 1 len - 1 + val, r)))"

definition DecodeSE :: "bit_reader \<Rightarrow> (DWORD \<times> bit_reader) res" where
  "DecodeSE r = bindR (ExpGolomb_Decode r) (\<lambda>(codeNum, r).
     Ok (if codeNum AND 1 \<noteq> 0 then drop_bit 1 codeNum else - drop_bit 1 codeNum, r))"


section \<open>Strings of bits\<close>

text \<open>The lowest \<open>n\<close> bits of a word, and the bits of a buffer, the highest first.\<close>

definition word_bits :: "nat \<Rightarrow> 'a::len word \<Rightarrow> bool list" where
  "word_bits n v = map (bit v) (rev [0..<n])"

definition bytes_bits :: "BYTE list \<Rightarrow> bool list" where
  "bytes_bits bs = concat (map (word_bits 8) bs)"

lemma length_word_bits [simp]: "length (word_bits n v) = n"
  by (simp add: word_bits_def)

lemma word_bits_0 [simp]: "word_bits 0 v = []"
  by (simp add: word_bits_def)

lemma nth_word_bits: "i < n \<Longrightarrow> word_bits n v ! i = bit v (n - 1 - i)"
  by (simp add: word_bits_def rev_nth)

lemma length_bytes_bits [simp]: "length (bytes_bits bs) = 8 * length bs"
  by (induction bs) (simp_all add: bytes_bits_def)

lemma bytes_bits_Nil [simp]: "bytes_bits [] = []"
  and bytes_bits_Cons: "bytes_bits (b # bs) = word_bits 8 b @ bytes_bits bs"
  and bytes_bits_append [simp]: "bytes_bits (bs @ cs) = bytes_bits bs @ bytes_bits cs"
  by (simp_all add: bytes_bits_def)

lemma word_bits_eq_iff: "word_bits n v = word_bits n w \<longleftrightarrow> (\<forall>i<n. bit v i = bit w i)"
  by (auto simp: word_bits_def)

lemma word_bits_ucast:
  "n \<le> LENGTH('b) \<Longrightarrow> n \<le> LENGTH('a) \<Longrightarrow> word_bits n (ucast v :: 'b::len word) = word_bits n v" for v :: "'a::len word"
  by (rule nth_equalityI) (auto simp: nth_word_bits bit_simps)

lemma word_bits_cong: "(\<And>i. i < n \<Longrightarrow> bit v i = bit w i) \<Longrightarrow> word_bits n v = word_bits n w"
  by (auto simp: word_bits_def)

text \<open>A word made of two pieces.\<close>

lemma word_bits_append:
  assumes "\<And>i. i < b \<Longrightarrow> bit w i = bit y i" "\<And>i. i < a \<Longrightarrow> bit w (b + i) = bit x i"
  shows "word_bits (a + b) w = word_bits a x @ word_bits b y"
proof (rule nth_equalityI)
  fix i
  assume i: "i < length (word_bits (a + b) w)"
  show "word_bits (a + b) w ! i = (word_bits a x @ word_bits b y) ! i"
  proof (cases "i < a")
    case True
    then have "a + b - 1 - i = b + (a - 1 - i)" "a - 1 - i < a" by simp_all
    with assms(2) [of "a - 1 - i"] True show ?thesis by (simp add: nth_word_bits nth_append)
  next
    case False
    with i have "a + b - 1 - i = b - 1 - (i - a)" "b - 1 - (i - a) < b" by simp_all
    with assms(1) [of "b - 1 - (i - a)"] False i show ?thesis by (simp add: nth_word_bits nth_append)
  qed
qed simp

lemma word_bits_split: "word_bits (a + b) w = word_bits a (drop_bit b w) @ word_bits b w"
  by (rule word_bits_append) (auto simp: bit_simps)


text \<open>The big-endian accessors in bits.\<close>

lemma set_bits_split:
  fixes v :: DWORD
  shows "set1 (as @ x0 # bs) (length as) b = Ok (as @ [b] @ bs)"
    and "set2 (as @ x0 # x1 # bs) (length as) v = Ok (as @ [ucast (drop_bit 8 v), ucast v] @ bs)"
    and "set3 (as @ x0 # x1 # x2 # bs) (length as) v =
      Ok (as @ [ucast (drop_bit 16 v), ucast (drop_bit 8 v), ucast v] @ bs)"
    and "set4 (as @ x0 # x1 # x2 # x3 # bs) (length as) v =
      Ok (as @ [ucast (drop_bit 24 v), ucast (drop_bit 16 v), ucast (drop_bit 8 v), ucast v] @ bs)"
  by (simp_all add: set1_def set2_def set3_def set4_def list_update_append eval_nat_numeral)

lemma lengths:
  "length bs = 2 \<Longrightarrow> \<exists>x0 x1. bs = [x0, x1]"
  "length bs = 3 \<Longrightarrow> \<exists>x0 x1 x2. bs = [x0, x1, x2]"
  "length bs = 4 \<Longrightarrow> \<exists>x0 x1 x2 x3. bs = [x0, x1, x2, x3]"
  by (auto simp: eval_nat_numeral length_Suc_conv)

lemma split_at:
  assumes "k + n \<le> length d"
  obtains bs where "d = take k d @ bs @ drop (k + n) d" "length bs = n" "length (take k d) = k"
proof
  show "d = take k d @ take n (drop k d) @ drop (k + n) d"
    by (metis append_take_drop_id drop_drop add.commute)
qed (use assms in auto)

lemma set_bits_result:
  shows "k + 1 \<le> length d \<Longrightarrow> set1 d k b = Ok (take k d @ [b] @ drop (k + 1) d)"
    and "k + 2 \<le> length d \<Longrightarrow> set2 d k v = Ok (take k d @ [ucast (drop_bit 8 v), ucast v] @ drop (k + 2) d)"
    and "k + 3 \<le> length d \<Longrightarrow>
      set3 d k v = Ok (take k d @ [ucast (drop_bit 16 v), ucast (drop_bit 8 v), ucast v] @ drop (k + 3) d)"
    and "k + 4 \<le> length d \<Longrightarrow>
      set4 d k v = Ok (take k d @ [ucast (drop_bit 24 v), ucast (drop_bit 16 v), ucast (drop_bit 8 v), ucast v] @ drop (k + 4) d)"
proof -
  show "k + 1 \<le> length d \<Longrightarrow> set1 d k b = Ok (take k d @ [b] @ drop (k + 1) d)"
  proof (erule split_at)
    fix bs
    assume d: "d = take k d @ bs @ drop (k + 1) d" "length bs = 1" "length (take k d) = k"
    then obtain x0 where "bs = [x0]" by (auto simp: length_Suc_conv)
    with d set_bits_split(1) show ?thesis by (metis append_Cons append_Nil)
  qed
  show "k + 2 \<le> length d \<Longrightarrow> set2 d k v = Ok (take k d @ [ucast (drop_bit 8 v), ucast v] @ drop (k + 2) d)"
  proof (erule split_at)
    fix bs
    assume d: "d = take k d @ bs @ drop (k + 2) d" "length bs = 2" "length (take k d) = k"
    then obtain x0 x1 where "bs = [x0, x1]" using lengths(1) by blast
    with d set_bits_split(2) show ?thesis by (metis append_Cons append_Nil)
  qed
  show "k + 3 \<le> length d \<Longrightarrow> set3 d k v = Ok (take k d @ [ucast (drop_bit 16 v), ucast (drop_bit 8 v), ucast v] @ drop (k + 3) d)"
  proof (erule split_at)
    fix bs
    assume d: "d = take k d @ bs @ drop (k + 3) d" "length bs = 3" "length (take k d) = k"
    then obtain x0 x1 x2 where "bs = [x0, x1, x2]" using lengths(2) by blast
    with d set_bits_split(3) show ?thesis by (metis append_Cons append_Nil)
  qed
  show "k + 4 \<le> length d \<Longrightarrow> set4 d k v = Ok (take k d @ [ucast (drop_bit 24 v), ucast (drop_bit 16 v), ucast (drop_bit 8 v), ucast v] @ drop (k + 4) d)"
  proof (erule split_at)
    fix bs
    assume d: "d = take k d @ bs @ drop (k + 4) d" "length bs = 4" "length (take k d) = k"
    then obtain x0 x1 x2 x3 where "bs = [x0, x1, x2, x3]" using lengths(3) by blast
    with d set_bits_split(4) show ?thesis by (metis append_Cons append_Nil)
  qed
qed

lemma word_bits_byte: "k + 8 \<le> LENGTH('a) \<Longrightarrow> word_bits 8 (ucast (drop_bit k v) :: BYTE) = word_bits 8 (drop_bit k v)"
  for v :: "'a::len word"
  by (simp add: word_bits_ucast)

lemma bytes_of_word:
  fixes v :: DWORD
  shows "bytes_bits [ucast v] = word_bits 8 v"
    and "bytes_bits [ucast (drop_bit 8 v), ucast v] = word_bits 16 v"
    and "bytes_bits [ucast (drop_bit 16 v), ucast (drop_bit 8 v), ucast v] = word_bits 24 v"
    and "bytes_bits [ucast (drop_bit 24 v), ucast (drop_bit 16 v), ucast (drop_bit 8 v), ucast v] = word_bits 32 v"
  using word_bits_split [of 8 8 v] word_bits_split [of 8 16 v] word_bits_split [of 8 24 v]
  by (simp_all add: bytes_bits_Cons word_bits_ucast)

text \<open>A word that the first bytes of a buffer make up, at the left end of the cache.\<close>

lemma get_bits_result:
  shows "get1 (b0 # bs) 0 = Ok b0"
    and "get2 (b0 # b1 # bs) 0 = Ok (ucast b1 OR push_bit 8 (ucast b0))"
    and "get3 (b0 # b1 # b2 # bs) 0 = Ok (ucast b2 OR push_bit 8 (ucast b1) OR push_bit 16 (ucast b0))"
    and "get4 (b0 # b1 # b2 # b3 # bs) 0 = Ok (ucast b3 OR push_bit 8 (ucast b2) OR push_bit 16 (ucast b1) OR push_bit 24 (ucast b0))"
  by (simp_all add: get1_def get2_def get3_def get4_def)

lemma word_of_bytes:
  fixes b0 b1 b2 b3 :: BYTE
  shows "word_bits 16 (ucast b1 OR push_bit 8 (ucast b0) :: DWORD) = bytes_bits [b0, b1]"
    and "word_bits 24 (ucast b2 OR push_bit 8 (ucast b1) OR push_bit 16 (ucast b0) :: DWORD) = bytes_bits [b0, b1, b2]"
    and "word_bits 32 (ucast b3 OR push_bit 8 (ucast b2) OR push_bit 16 (ucast b1) OR push_bit 24 (ucast b0) :: DWORD) =
      bytes_bits [b0, b1, b2, b3]"
proof -
  have u: "word_bits 8 (ucast b :: DWORD) = word_bits 8 b" for b :: BYTE by (simp add: word_bits_ucast)
  have s: "word_bits (8 + n) (x OR push_bit n (ucast b)) = word_bits 8 b @ word_bits n x"
    if "\<And>i. n \<le> i \<Longrightarrow> \<not> bit x i" "n + 8 \<le> 32" for n and b :: BYTE and x :: DWORD
    using that by (intro word_bits_append) (auto simp: bit_simps)
  have nb: "8 \<le> i \<Longrightarrow> \<not> bit b i" for b :: BYTE and i
    using bit_imp_le_length [of b i] by auto
  show 2: "word_bits 16 (ucast b1 OR push_bit 8 (ucast b0) :: DWORD) = bytes_bits [b0, b1]"
    using s [of 8 "ucast b1" b0] by (simp add: u bit_simps nb bytes_bits_Cons)
  show 3: "word_bits 24 (ucast b2 OR push_bit 8 (ucast b1) OR push_bit 16 (ucast b0) :: DWORD) = bytes_bits [b0, b1, b2]"
    using s [of 16 "ucast b2 OR push_bit 8 (ucast b1)" b0] s [of 8 "ucast b2" b1]
    by (simp add: u bit_simps nb bytes_bits_Cons or.assoc)
  show "word_bits 32 (ucast b3 OR push_bit 8 (ucast b2) OR push_bit 16 (ucast b1) OR push_bit 24 (ucast b0) :: DWORD) =
      bytes_bits [b0, b1, b2, b3]"
    using s [of 24 "ucast b3 OR push_bit 8 (ucast b2) OR push_bit 16 (ucast b1)" b0]
      s [of 16 "ucast b3 OR push_bit 8 (ucast b2)" b1] s [of 8 "ucast b3" b2]
    by (simp add: u bit_simps nb bytes_bits_Cons or.assoc)
qed


section \<open>What the writer has written\<close>

definition written :: "bool list \<Rightarrow> bit_writer \<Rightarrow> bool" where
  "written xs w \<longleftrightarrow> unat (bw_len w) = bw_at w \<and> bw_at w + unat (bw_left w) = length (bw_data w) \<and>
     length (bw_data w) < 2 ^ 29 \<and> unat (bw_cached w) \<le> 32 \<and>
     xs = bytes_bits (take (bw_at w) (bw_data w)) @ word_bits (unat (bw_cached w)) (bw_cache w)"

lemma unat_times8:
  fixes l :: DWORD
  assumes "unat l < 2 ^ 29"
  shows "unat (l * 8) = unat l * 8"
  using assms by (simp add: unat_word_ariths(2))

lemma room_left:
  fixes c :: BYTE and l :: DWORD
  assumes "unat l < 2 ^ 29"
  shows "l * 8 < ucast c \<longleftrightarrow> unat l * 8 < unat c"
proof -
  have "unat (ucast c :: DWORD) = unat c"
    using unsigned_less [of c, where ?'a = nat] by (simp add: unsigned_ucast_eq take_bit_nat_eq_self)
  with unat_times8 [OF assms] show ?thesis by (simp add: word_less_nat_alt)
qed

lemma written_length: "written xs w \<Longrightarrow> length xs = 8 * bw_at w + unat (bw_cached w)"
  by (simp add: written_def)

text \<open>What is stored in the buffer by one step of the flush.\<close>

lemma written_store:
  assumes w: "written xs w" and n: "unat (bw_cached w) = 8 * n" and le: "bw_at w + n \<le> length (bw_data w)"
    and bs: "length bs = n" "bytes_bits bs = word_bits (8 * n) (bw_cache w)"
  shows "written xs (w\<lparr>bw_data := take (bw_at w) (bw_data w) @ bs @ drop (bw_at w + n) (bw_data w), bw_at := bw_at w + n,
    bw_len := bw_len w + of_nat n, bw_left := bw_left w - of_nat n, bw_cached := 0\<rparr>)"
proof -
  from w have l: "unat (bw_len w) = bw_at w" "bw_at w + unat (bw_left w) = length (bw_data w)" "length (bw_data w) < 2 ^ 29"
    by (auto simp: written_def)
  with le have n': "n < 2 ^ 32" "n \<le> unat (bw_left w)" by simp_all
  then have u: "unat (of_nat n :: DWORD) = n" by (simp add: unat_of_nat take_bit_nat_eq_self)
  have "unat (bw_len w + of_nat n) = bw_at w + n" using l le u by (simp add: unat_word_ariths(1))
  moreover have "unat (bw_left w - of_nat n) = unat (bw_left w) - n"
    using u n' by (simp add: unat_sub word_le_nat_alt)
  ultimately show ?thesis using w n le bs l n' by (auto simp: written_def)
qed

lemma FlushCache_written:
  assumes w: "written xs w" and n: "unat (bw_cached w) = 8 * n" and le: "length xs \<le> 8 * length (bw_data w)"
  shows "\<exists>w'. FlushCache w = Ok w' \<and> written xs w' \<and> bw_cached w' = 0 \<and> length (bw_data w') = length (bw_data w)"
proof (cases "bw_cached w = 0")
  case True
  with w show ?thesis by (simp add: FlushCache_def)
next
  case False
  have "n \<le> 4" using w n by (simp add: written_def)
  moreover have "n \<noteq> 0" using False n unsigned_eq_0_iff [of "bw_cached w", where ?'a = nat] by auto
  ultimately consider "n = 1" | "n = 2" | "n = 3" | "n = 4" by linarith
  note cs = this
  have le': "bw_at w + n \<le> length (bw_data w)" using le written_length [OF w] n by simp
  have left: "unat (bw_left w) < 2 ^ 29" "n \<le> unat (bw_left w)" using w le' by (auto simp: written_def)
  with n have nf: "\<not> bw_left w * 8 < ucast (bw_cached w)" by (simp add: room_left)
  have c: "bw_cached w = of_nat (8 * n)" using n by (simp flip: n)
  note st = written_store [OF w n le']
  from cs show ?thesis
  proof cases
    case 1
    with st [of "[ucast (bw_cache w)]"] nf c le' show ?thesis
      by (simp add: FlushCache_def set_bits_result bytes_of_word)
  next
    case 2
    with st [of "[ucast (drop_bit 8 (bw_cache w)), ucast (bw_cache w)]"] nf c le' show ?thesis
      by (simp add: FlushCache_def set_bits_result bytes_of_word)
  next
    case 3
    with st [of "[ucast (drop_bit 16 (bw_cache w)), ucast (drop_bit 8 (bw_cache w)), ucast (bw_cache w)]"] nf c le' show ?thesis
      by (simp add: FlushCache_def set_bits_result bytes_of_word)
  next
    case 4
    with st [of "[ucast (drop_bit 24 (bw_cache w)), ucast (drop_bit 16 (bw_cache w)), ucast (drop_bit 8 (bw_cache w)), ucast (bw_cache w)]"]
      nf c le' show ?thesis
      by (simp add: FlushCache_def set_bits_result bytes_of_word)
  qed
qed


definition fits :: "nat \<Rightarrow> DWORD \<Rightarrow> bool" where
  "fits n v \<longleftrightarrow> 1 \<le> n \<and> n \<le> 31 \<and> unat v < 2 ^ n"

lemma fits_bit: "fits n v \<Longrightarrow> bit v i \<Longrightarrow> i < n"
proof (unfold fits_def, elim conjE)
  assume "unat v < 2 ^ n" and b: "bit v i"
  then have "bit (take_bit n (unat v)) i"
    using bit_imp_le_length [OF b] by (simp add: take_bit_nat_eq_self bit_unsigned_iff)
  then show "i < n" by (simp add: bit_take_bit_iff)
qed

lemma bit_ones [bit_simps]: "bit ones i \<longleftrightarrow> i < 32"
  using bit_mask_iff [of 32 i, where ?'a = "32 word"] by (simp add: ones_def mask_eq_exp_minus_1)

lemma unat_32_minus: "unat c \<le> 32 \<Longrightarrow> unat (32 - c) = 32 - unat c" for c :: BYTE
  by (simp add: unat_sub word_le_nat_alt)

text \<open>The two cases of \<open>Put\<close>, in bits.\<close>

lemma Put_more:
  fixes cache v :: DWORD
  assumes n: "fits n v" and c: "n + c \<le> 32"
  shows "word_bits (c + n) (shl cache n OR (v AND shr ones (32 - n))) = word_bits c cache @ word_bits n v"
proof (rule word_bits_append)
  from n have "n \<le> 31" "1 \<le> n" by (simp_all add: fits_def)
  show "i < n \<Longrightarrow> bit (shl cache n OR (v AND shr ones (32 - n))) i = bit v i" for i
    using n \<open>n \<le> 31\<close> \<open>1 \<le> n\<close> by (auto simp: shl_def shr_def bit_simps)
  show "i < c \<Longrightarrow> bit (shl cache n OR (v AND shr ones (32 - n))) (n + i) = bit cache i" for i
    using n c \<open>n \<le> 31\<close> \<open>1 \<le> n\<close> fits_bit [OF n, of "n + i"] by (auto simp: shl_def shr_def bit_simps)
qed

lemma Put_full:
  fixes cache v :: DWORD
  assumes n: "fits n v" and c: "c \<le> 32" "32 < n + c"
  shows "word_bits 32 (shl cache (32 - c) OR (shr v (n - (32 - c)) AND shr ones c)) @
      word_bits (n - (32 - c)) (v AND shr ones (32 - (n - (32 - c)))) = word_bits c cache @ word_bits n v"
proof -
  define b where "b = n - (32 - c)"
  from n c have b: "1 \<le> b" "b \<le> 31" "n = (32 - c) + b" "n \<le> 31" by (auto simp: fits_def b_def)
  have "word_bits (c + (32 - c)) (shl cache (32 - c) OR (shr v b AND shr ones c)) =
      word_bits c cache @ word_bits (32 - c) (drop_bit b v)"
  proof (rule word_bits_append)
    show "i < 32 - c \<Longrightarrow> bit (shl cache (32 - c) OR (shr v b AND shr ones c)) i = bit (drop_bit b v) i" for i
      using b c by (cases "c = 0") (auto simp: shl_def shr_def bit_simps)
    have nb: "\<not> bit v (32 - c + b + i)" for i using fits_bit [OF n, of "32 - c + b + i"] b by auto
    show "i < c \<Longrightarrow> bit (shl cache (32 - c) OR (shr v b AND shr ones c)) (32 - c + i) = bit cache i" for i
      using b c nb [of i] by (cases "c = 32") (auto simp: shl_def shr_def bit_simps ac_simps)
  qed
  moreover have "word_bits b (v AND shr ones (32 - b)) = word_bits b v"
    using b by (intro word_bits_cong) (auto simp: shr_def bit_simps)
  ultimately show ?thesis
    using word_bits_split [of "32 - c" b v] b(3) c by (simp add: b_def [symmetric])
qed


lemma Put_written:
  assumes w: "written xs w" and f: "fits (unat n) v" and le: "length xs + unat n \<le> 8 * length (bw_data w)"
  shows "\<exists>w'. Put n v w = Ok w' \<and> written (xs @ word_bits (unat n) v) w' \<and> length (bw_data w') = length (bw_data w)"
proof (cases "unat n + unat (bw_cached w) > 32")
  case False
  from f have n: "unat n \<le> 31" by (simp add: fits_def)
  from w have c: "unat (bw_cached w) \<le> 32"
    and xs: "xs = bytes_bits (take (bw_at w) (bw_data w)) @ word_bits (unat (bw_cached w)) (bw_cache w)"
    by (auto simp: written_def)
  have u: "unat (bw_cached w + n) = unat (bw_cached w) + unat n" using False by (simp add: unat_word_ariths(1))
  have r: "unat (32 - n) = 32 - unat n" using n by (intro unat_32_minus) simp
  have "word_bits (unat (bw_cached w) + unat n) (shl (bw_cache w) (unat n) OR (v AND shr ones (32 - unat n))) =
      word_bits (unat (bw_cached w)) (bw_cache w) @ word_bits (unat n) v"
    using False by (intro Put_more [OF f]) simp
  with w xs u r False show ?thesis by (auto simp: Put_def Let_def written_def)
next
  case True
  let ?c = "unat (bw_cached w)" and ?b = "unat n - (32 - unat (bw_cached w))"
  let ?cache = "shl (bw_cache w) (32 - ?c) OR (shr v ?b AND shr ones ?c)"
  from f have n: "unat n \<le> 31" "1 \<le> unat n" by (simp_all add: fits_def)
  from w have c: "?c \<le> 32" by (simp add: written_def)
  have a: "unat (32 - bw_cached w) = 32 - ?c" by (rule unat_32_minus [OF c])
  have b: "unat (n - (32 - bw_cached w)) = ?b" using True a c by (subst unat_sub) (auto simp: word_le_nat_alt)
  have b32: "unat (32 - (n - (32 - bw_cached w))) = 32 - ?b" using b n by (subst unat_32_minus) auto
  have full: "word_bits 32 ?cache @ word_bits ?b (v AND shr ones (32 - ?b)) =
      word_bits ?c (bw_cache w) @ word_bits (unat n) v"
    using Put_full [OF f c] True by simp
  let ?w = "w\<lparr>bw_cache := ?cache, bw_cached := 32\<rparr>"
  let ?ys = "bytes_bits (take (bw_at w) (bw_data w)) @ word_bits 32 ?cache"
  have w1: "written ?ys ?w" using w by (auto simp: written_def)
  have le1: "length ?ys \<le> 8 * length (bw_data ?w)" using le written_length [OF w] True w by (auto simp: written_def)
  from FlushCache_written [OF w1 _ le1, of 4] obtain w' where
    w': "FlushCache ?w = Ok w'" "written ?ys w'" "bw_cached w' = 0" "length (bw_data w') = length (bw_data w)" by auto
  from w have xs: "xs = bytes_bits (take (bw_at w) (bw_data w)) @ word_bits ?c (bw_cache w)" by (simp add: written_def)
  have "bytes_bits (take (bw_at w') (bw_data w')) = ?ys" using w'(2,3) by (simp add: written_def)
  moreover have "xs @ word_bits (unat n) v = ?ys @ word_bits ?b (v AND shr ones (32 - ?b))" using full xs by simp
  ultimately have "written (xs @ word_bits (unat n) v)
      (w'\<lparr>bw_cache := v AND shr ones (32 - ?b), bw_cached := n - (32 - bw_cached w)\<rparr>)"
    using w'(2) b n by (simp add: written_def)
  moreover have "Put n v w = Ok (w'\<lparr>bw_cache := v AND shr ones (32 - ?b), bw_cached := n - (32 - bw_cached w)\<rparr>)"
    unfolding Put_def Let_def a b b32 using w'(1) True by simp
  ultimately show ?thesis using w'(4) by auto
qed

lemma pad_to_byte:
  fixes x a c n r l :: nat
  assumes "x = 8 * a + c" "x \<le> 8 * l" "c = 8 * n + r" "r < 8" "0 < r"
  shows "x + (8 - r) \<le> 8 * l"
proof -
  from assms have "a + n < l" by linarith
  then have "8 * (a + n + 1) \<le> 8 * l" by (intro mult_le_mono2) simp
  moreover from assms have "x + (8 - r) = 8 * (a + n + 1)" by simp
  ultimately show ?thesis by simp
qed

lemma Align_written:
  assumes w: "written xs w" and le: "length xs \<le> 8 * length (bw_data w)"
  shows "\<exists>w' k n. Align w = Ok w' \<and> k < 8 \<and> unat (bw_cached w') = 8 * n \<and> written (xs @ replicate k False) w' \<and>
    length (bw_data w') = length (bw_data w) \<and> length xs + k \<le> 8 * length (bw_data w)"
proof -
  let ?c = "unat (bw_cached w)"
  have c32: "?c \<le> 32" using w by (simp add: written_def)
  show ?thesis
  proof (cases "?c mod 8 = 0")
    case True
    then have "bw_cached w mod 8 = 0" by (simp add: word_arith_nat_mod)
    with w le True show ?thesis
      by (intro exI [of _ w] exI [of _ 0] exI [of _ "?c div 8"]) (auto simp: Align_def Let_def)
  next
    case False
    define n where "n = ?c div 8"
    define m where "m = (of_nat (8 * Suc n) :: BYTE)"
    have "?c < 32" using c32 False by (cases "?c = 32") auto
    then have n: "?c = 8 * n + ?c mod 8" "?c mod 8 < 8" "n < 4" by (simp_all add: n_def)
    from n(3) have n4: "n = 0 \<or> n = 1 \<or> n = 2 \<or> n = 3" by linarith
    then have um: "unat m = 8 * Suc n" by (auto simp: m_def)
    have k: "unat (m - bw_cached w) = 8 - ?c mod 8" using um n by (subst unat_sub) (auto simp: word_le_nat_alt)
    have f: "fits (unat (m - bw_cached w)) 0" unfolding k fits_def using n(2) False by (simp; linarith)
    have wb: "word_bits j (0 :: DWORD) = replicate j False" for j
      by (rule nth_equalityI) (auto simp: nth_word_bits)
    have "length xs = 8 * bw_at w + ?c" by (rule written_length [OF w])
    then have "length xs + (8 - ?c mod 8) \<le> 8 * length (bw_data w)" by (rule pad_to_byte [OF _ le n(1,2)]) (use False in simp)
    then have le': "length xs + unat (m - bw_cached w) \<le> 8 * length (bw_data w)" unfolding k .
    from Put_written [OF w f le'] obtain w' where
      w': "Put (m - bw_cached w) 0 w = Ok w'" "written (xs @ replicate (8 - ?c mod 8) False) w'"
      "length (bw_data w') = length (bw_data w)" by (auto simp: wb k)

    have nz: "bw_cached w mod 8 \<noteq> 0"
    proof
      assume "bw_cached w mod 8 = 0"
      then have "unat (bw_cached w mod 8) = 0" by (simp only: unat_0)
      with False show False by (simp only: unat_mod) simp
    qed
    have gt: "x < bw_cached w \<longleftrightarrow> unat x < ?c" for x by (simp add: word_less_nat_alt)
    obtain r where "?c = 8 * n + r" "r < 8" "0 < r" using n(1,2) False by blast
    with n4 have "Align w = Put (m - bw_cached w) 0 w"
      using nz by (elim disjE) (simp_all add: Align_def Let_def gt m_def)
    moreover obtain j where "unat (bw_cached w') = 8 * j"
    proof
      have "8 * bw_at w' + unat (bw_cached w') = 8 * bw_at w + 8 * Suc n"
        using written_length [OF w'(2)] written_length [OF w] n by simp
      then show "unat (bw_cached w') = 8 * (bw_at w + Suc n - bw_at w')" by simp
    qed
    moreover have "8 - ?c mod 8 < 8" using False by simp
    ultimately show ?thesis using w' le' unfolding k by auto
  qed
qed

lemma Flush_written:
  assumes w: "written xs w" and le: "length xs \<le> 8 * length (bw_data w)"
  shows "\<exists>l w' k. Flush w = Ok (l, w') \<and> k < 8 \<and> bytes_bits (take (unat l) (bw_data w')) = xs @ replicate k False \<and>
    unat l \<le> length (bw_data w') \<and> length (bw_data w') = length (bw_data w)"
proof -
  from Align_written [OF w le] obtain v k n where
    v: "Align w = Ok v" "k < 8" "unat (bw_cached v) = 8 * n" "written (xs @ replicate k False) v"
    "length (bw_data v) = length (bw_data w)" "length xs + k \<le> 8 * length (bw_data w)" by blast
  from FlushCache_written [OF v(4,3)] v(5,6) obtain w' where
    w': "FlushCache v = Ok w'" "written (xs @ replicate k False) w'" "bw_cached w' = 0"
    "length (bw_data w') = length (bw_data w)" by auto
  with v(1,2) show ?thesis by (intro exI [of _ "bw_len w'"] exI [of _ w'] exI [of _ k]) (auto simp: Flush_def written_def)
qed


section \<open>What is left for the reader\<close>

definition top_bits :: "nat \<Rightarrow> DWORD \<Rightarrow> bool list" where
  "top_bits c w = word_bits c (drop_bit (32 - c) w)"

definition readable :: "bool list \<Rightarrow> bit_reader \<Rightarrow> bool" where
  "readable xs r \<longleftrightarrow> unat (br_len r) \<le> length (br_data r) \<and> unat (br_cached r) \<le> 32 \<and>
     (\<forall>i < 32 - unat (br_cached r). \<not> bit (br_cache r) i) \<and>
     xs = top_bits (unat (br_cached r)) (br_cache r) @ bytes_bits (take (unat (br_len r)) (br_data r))"

lemma top_bits_split: "n + m \<le> 32 \<Longrightarrow> top_bits (n + m) w = top_bits n w @ top_bits m (push_bit n w)"
  unfolding top_bits_def by (rule word_bits_append) (auto simp: bit_simps ac_simps)

lemma length_top_bits [simp]: "length (top_bits n w) = n"
  by (simp add: top_bits_def)

lemma lengths_le:
  "4 \<le> length bs \<Longrightarrow> \<exists>x0 x1 x2 x3 cs. bs = x0 # x1 # x2 # x3 # cs"
  "3 \<le> length bs \<Longrightarrow> \<exists>x0 x1 x2 cs. bs = x0 # x1 # x2 # cs"
  "2 \<le> length bs \<Longrightarrow> \<exists>x0 x1 cs. bs = x0 # x1 # cs"
  by (auto simp: eval_nat_numeral Suc_le_length_iff)

lemma next_cache_bits:
  assumes len: "unat (br_len r) \<le> length (br_data r)" and nz: "br_len r \<noteq> 0"
  shows "\<exists>n c. next_cache r = Ok (n, c) \<and> n = min 4 (unat (br_len r)) \<and>
    top_bits (8 * n) c = bytes_bits (take n (br_data r)) \<and> (\<forall>i < 32 - 8 * n. \<not> bit c i)"
proof -
  let ?l = "unat (br_len r)" and ?d = "br_data r"
  have top: "top_bits (8 * n) (push_bit (32 - 8 * n) c) = word_bits (8 * n) c" if "n \<le> 4" for n c
    using that unfolding top_bits_def by (intro word_bits_cong) (auto simp: bit_simps)
  have low: "\<not> bit (push_bit k c) i" if "i < k" for k i and c :: DWORD using that by (simp add: bit_simps)
  have "?l \<noteq> 0" using nz by (simp add: unsigned_eq_0_iff)
  then have cs: "4 \<le> ?l \<or> ?l = 3 \<or> ?l = 2 \<or> ?l = 1" by linarith
  have w: "br_len r > 3 \<longleftrightarrow> ?l > 3" "br_len r = 3 \<longleftrightarrow> ?l = 3" "br_len r = 2 \<longleftrightarrow> ?l = 2" "br_len r = 1 \<longleftrightarrow> ?l = 1"
    by (simp_all add: word_less_nat_alt word_unat_eq_iff)
  from cs show ?thesis
  proof (elim disjE)
    assume l: "4 \<le> ?l"
    then obtain b0 b1 b2 b3 bs where "?d = b0 # b1 # b2 # b3 # bs" using len lengths_le(1) [of ?d] by auto
    with l w top [of 4] show ?thesis by (auto simp: next_cache_def get_bits_result word_of_bytes)
  next
    assume l: "?l = 3"
    then obtain b0 b1 b2 bs where "?d = b0 # b1 # b2 # bs" using len lengths_le(2) [of ?d] by auto
    with l w top [of 3 "ucast b2 OR push_bit 8 (ucast b1) OR push_bit 16 (ucast b0)"]
      low [of _ 8 "ucast b2 OR push_bit 8 (ucast b1) OR push_bit 16 (ucast b0)"]
    show ?thesis by (auto simp: next_cache_def get_bits_result word_of_bytes)
  next
    assume l: "?l = 2"
    then obtain b0 b1 bs where "?d = b0 # b1 # bs" using len lengths_le(3) [of ?d] by auto
    with l w top [of 2 "ucast b1 OR push_bit 8 (ucast b0)"] low [of _ 16 "ucast b1 OR push_bit 8 (ucast b0)"]
    show ?thesis by (auto simp: next_cache_def get_bits_result word_of_bytes)
  next
    assume l: "?l = 1"
    then obtain b0 bs where "?d = b0 # bs" using len by (cases ?d) auto
    with l w top [of 1 "ucast b0"] low [of _ 24] show ?thesis
      by (auto simp: next_cache_def get_bits_result bytes_bits_Cons word_bits_ucast)
  qed
qed


lemma Cache_readable:
  assumes r: "readable xs r" and nz: "br_len r \<noteq> 0"
  shows "\<exists>r'. Cache r = Ok r' \<and> readable (drop (unat (br_cached r)) xs) r' \<and> unat (br_cached r') = 8 * min 4 (unat (br_len r))"
proof -
  from r have len: "unat (br_len r) \<le> length (br_data r)" by (simp add: readable_def)
  from next_cache_bits [OF len nz] obtain n c where
    n: "next_cache r = Ok (n, c)" "n = min 4 (unat (br_len r))" "top_bits (8 * n) c = bytes_bits (take n (br_data r))"
    "\<forall>i < 32 - 8 * n. \<not> bit c i" by blast
  then have n4: "n \<le> 4" "n \<le> unat (br_len r)" by auto
  have u: "unat (of_nat (8 * n) :: BYTE) = 8 * n" using n4 by (simp only: unat_of_nat take_bit_nat_eq_self) simp
  have l: "unat (br_len r - of_nat n) = unat (br_len r) - n"
    using n4 by (subst unat_sub) (simp_all add: word_le_nat_alt unat_of_nat take_bit_nat_eq_self)
  have "take (unat (br_len r)) (br_data r) = take n (br_data r) @ take (unat (br_len r) - n) (drop n (br_data r))"
    using n4 by (metis le_add_diff_inverse take_add)
  with r n(1,3,4) have "readable (drop (unat (br_cached r)) xs) (r\<lparr>br_data := drop n (br_data r), br_len := br_len r - of_nat n,
      br_pos := br_pos r + of_nat n, br_cache := c, br_cached := of_nat (8 * n)\<rparr>)"
    using n4 len by (simp add: readable_def u l top_bits_def del: of_nat_mult)
  then show ?thesis using n u by (simp add: Cache_def del: of_nat_mult)
qed


lemma GetCached_readable:
  assumes r: "readable xs r" and n: "1 \<le> unat n" "unat n \<le> 31" "unat n \<le> unat (br_cached r)"
  shows "\<exists>v r'. GetCached n r = (v, r') \<and> v = drop_bit (32 - unat n) (br_cache r) \<and> readable (drop (unat n) xs) r' \<and>
    top_bits (unat n) (br_cache r) = take (unat n) xs \<and> unat (br_cached r') = unat (br_cached r) - unat n"
proof -
  let ?n = "unat n" and ?c = "unat (br_cached r)"
  from r have c: "?c \<le> 32" and xs: "xs = top_bits ?c (br_cache r) @ bytes_bits (take (unat (br_len r)) (br_data r))"
    and low: "\<forall>i < 32 - ?c. \<not> bit (br_cache r) i" and len: "unat (br_len r) \<le> length (br_data r)"
    by (auto simp: readable_def)
  have un: "unat (ucast n :: BYTE) = ?n" using n by (simp add: unsigned_ucast_eq take_bit_nat_eq_self)
  have u: "unat (br_cached r - ucast n) = ?c - ?n" using n un by (subst unat_sub) (simp_all add: word_le_nat_alt)
  have u32: "unat (32 - n) = 32 - ?n" using n by (subst unat_sub) (simp_all add: word_le_nat_alt)
  have s: "top_bits ?c (br_cache r) = top_bits ?n (br_cache r) @ top_bits (?c - ?n) (push_bit ?n (br_cache r))"
    using top_bits_split [of ?n "?c - ?n" "br_cache r"] n c by simp
  have "\<forall>i < 32 - (?c - ?n). \<not> bit (push_bit ?n (br_cache r)) i"
    using low n by (auto simp: bit_simps)
  then have "readable (drop ?n xs) (SkipCached n r)"
    using xs s n c len by (simp add: readable_def SkipCached_def u shl_def)
  moreover have "fst (GetCached n r) = drop_bit (32 - ?n) (br_cache r)"
    using n by (simp add: GetCached_def shr_def u32)
  ultimately show ?thesis using xs s n by (auto simp: GetCached_def SkipCached_def u)
qed

text \<open>What a read of the highest bits of a word leaves.\<close>

lemma drop_top:
  fixes w :: DWORD
  assumes "1 \<le> n" "n \<le> 32"
  shows "word_bits n (drop_bit (32 - n) w) = top_bits n w" and "n \<le> i \<Longrightarrow> \<not> bit (drop_bit (32 - n) w) i"
proof -
  assume i: "n \<le> i"
  show "\<not> bit (drop_bit (32 - n) w) i"
  proof
    assume "bit (drop_bit (32 - n) w) i"
    then have "bit w (32 - n + i)" by (simp add: bit_drop_bit_eq)
    from bit_imp_le_length [OF this] have "32 - n + i < 32" by simp
    with i assms show False by linarith
  qed
qed (simp add: top_bits_def)

lemma br_Get_readable:
  assumes r: "readable xs r" and n: "1 \<le> unat n" "unat n \<le> 31" "unat n \<le> length xs"
  shows "\<exists>v r'. br_Get n r = Ok (v, r') \<and> word_bits (unat n) v = take (unat n) xs \<and> (\<forall>i \<ge> unat n. \<not> bit v i) \<and>
    readable (drop (unat n) xs) r'"
proof (cases "n > ucast (br_cached r)")
  case False
  have "unat (ucast (br_cached r) :: DWORD) = unat (br_cached r)"
    using unsigned_less [of "br_cached r", where ?'a = nat] by (simp add: unsigned_ucast_eq take_bit_nat_eq_self)
  with False have "unat n \<le> unat (br_cached r)" by (simp add: word_less_nat_alt)
  from GetCached_readable [OF r n(1,2) this] drop_top [where n = "unat n" and w = "br_cache r"] n False
  show ?thesis by (auto simp: br_Get_def)
next
  case True
  let ?c = "unat (br_cached r)"
  have uc: "unat (ucast (br_cached r) :: DWORD) = ?c"
    using unsigned_less [of "br_cached r", where ?'a = nat] by (simp add: unsigned_ucast_eq take_bit_nat_eq_self)
  with True have lt: "?c < unat n" by (simp add: word_less_nat_alt)
  from r have c: "?c \<le> 32" and xs: "xs = top_bits ?c (br_cache r) @ bytes_bits (take (unat (br_len r)) (br_data r))"
    and low: "\<forall>i < 32 - ?c. \<not> bit (br_cache r) i" and len: "unat (br_len r) \<le> length (br_data r)"
    by (auto simp: readable_def)
  define a where "a = unat n - ?c"
  have a: "1 \<le> a" "a \<le> 31" "unat n = ?c + a" using lt n by (auto simp: a_def)
  have d: "unat (n - ucast (br_cached r)) = a" using lt uc by (subst unat_sub) (simp_all add: word_le_nat_alt a_def)
  then have ua: "unat (ucast (ucast (n - ucast (br_cached r)) :: BYTE) :: DWORD) = a"
    using a by (simp add: unsigned_ucast_eq unsigned_take_bit_eq take_bit_nat_eq_self)
  have u32: "unat (32 - n) = 32 - unat n" using n by (subst unat_sub) (simp_all add: word_le_nat_alt)
  have "length xs = ?c + 8 * unat (br_len r)" using xs len by simp
  with n(3) a have room: "a \<le> 8 * unat (br_len r)" by simp
  with a have "br_len r \<noteq> 0" by auto
  from Cache_readable [OF r this] obtain q where
    q: "Cache r = Ok q" "readable (drop ?c xs) q" "unat (br_cached q) = 8 * min 4 (unat (br_len r))" by blast
  have "a \<le> unat (br_cached q)" using q(3) room a by simp
  from GetCached_readable [OF q(2), of "ucast (ucast (n - ucast (br_cached r)) :: BYTE)"] this a obtain v t where
    v: "GetCached (ucast (ucast (n - ucast (br_cached r)) :: BYTE)) q = (v, t)" "v = drop_bit (32 - a) (br_cache q)"
    "readable (drop a (drop ?c xs)) t" "top_bits a (br_cache q) = take a (drop ?c xs)" unfolding ua by blast
  note tops = drop_top(1) [of a "br_cache q"] drop_top(2) [where n = a and w = "br_cache q"]
  let ?ret = "drop_bit (32 - unat n) (br_cache r)"
  have a32: "a \<le> 32" using a(2) by simp
  have wv: "word_bits a v = take a (drop ?c xs)" unfolding v(2) v(4) [symmetric] by (rule tops(1) [OF a(1) a32])
  have "word_bits (?c + a) (?ret OR v) = word_bits ?c (drop_bit (32 - ?c) (br_cache r)) @ word_bits a v"
  proof (rule word_bits_append)
    show "bit (?ret OR v) i = bit v i" if "i < a" for i
      using that low n(2) a by (simp add: bit_or_iff bit_drop_bit_eq)
    show "bit (?ret OR v) (a + i) = bit (drop_bit (32 - ?c) (br_cache r)) i" if "i < ?c" for i
    proof -
      have "\<not> bit v (a + i)" using tops(2) a v(2) by simp
      moreover have "32 - unat n + (a + i) = 32 - ?c + i" using a n(2) by simp
      ultimately show ?thesis by (simp only: bit_or_iff bit_drop_bit_eq comp_apply simp_thms)
    qed
  qed
  moreover have "take (unat n) xs = top_bits ?c (br_cache r) @ take a (drop ?c xs)"
    using xs a(3) by simp
  ultimately have "word_bits (unat n) (?ret OR v) = take (unat n) xs"
    by (simp only: a(3) wv top_bits_def)
  moreover have "\<not> bit (?ret OR v) i" if "unat n \<le> i" for i
  proof -
    have "unat n \<le> 32" "a \<le> 32" "a \<le> i" using n(2) a that by simp_all
    with drop_top(2) [OF n(1) this(1) that, of "br_cache r"] tops(2) [of i] a(1) show ?thesis
      unfolding v(2) by (simp add: bit_or_iff)
  qed
  moreover have "drop a (drop ?c xs) = drop (unat n) xs" using a(3) by (simp add: add.commute)
  moreover have "br_Get n r = Ok (?ret OR v, t)"
    using True q(1) v(1) n(1) by (simp add: br_Get_def Let_def shr_def u32)
  ultimately show ?thesis using v(3) by auto
qed


section \<open>What is written is read\<close>

fun put_all :: "(BYTE \<times> DWORD) list \<Rightarrow> bit_writer \<Rightarrow> bit_writer res" where
  "put_all [] w = Ok w"
| "put_all ((n, v) # ps) w = bindR (Put n v w) (put_all ps)"

fun get_all :: "BYTE list \<Rightarrow> bit_reader \<Rightarrow> (DWORD list \<times> bit_reader) res" where
  "get_all [] r = Ok ([], r)"
| "get_all (n # ns) r = bindR (br_Get (ucast n) r) (\<lambda>(v, r). bindR (get_all ns r) (\<lambda>(vs, r). Ok (v # vs, r)))"

definition bits_of :: "(BYTE \<times> DWORD) list \<Rightarrow> bool list" where
  "bits_of ps = concat (map (\<lambda>(n, v). word_bits (unat n) v) ps)"

definition all_fit :: "(BYTE \<times> DWORD) list \<Rightarrow> bool" where
  "all_fit ps = list_all (\<lambda>(n, v). fits (unat n) v) ps"

lemma put_all_written:
  "written xs w \<Longrightarrow> all_fit ps \<Longrightarrow> length xs + length (bits_of ps) \<le> 8 * length (bw_data w) \<Longrightarrow>
     \<exists>w'. put_all ps w = Ok w' \<and> written (xs @ bits_of ps) w' \<and> length (bw_data w') = length (bw_data w)"
proof (induction ps arbitrary: xs w)
  case (Cons p ps)
  obtain n v where p: "p = (n, v)" by (cases p)
  from Cons.prems p have "fits (unat n) v" "length xs + unat n \<le> 8 * length (bw_data w)"
    by (auto simp: all_fit_def bits_of_def)
  from Put_written [OF Cons.prems(1) this] obtain u where
    u: "Put n v w = Ok u" "written (xs @ word_bits (unat n) v) u" "length (bw_data u) = length (bw_data w)" by blast
  from Cons.IH [OF u(2)] Cons.prems u p show ?case by (auto simp: all_fit_def bits_of_def)
qed (simp add: bits_of_def)

lemma word_of_bits:
  fixes v w :: DWORD
  assumes "word_bits n v = word_bits n w" "\<forall>i \<ge> n. \<not> bit v i" "fits n w"
  shows "v = w"
proof (rule bit_word_eqI)
  fix i
  show "bit v i = bit w i"
    using assms fits_bit [OF assms(3), of i] by (cases "i < n") (auto simp: word_bits_eq_iff)
qed

lemma get_all_readable:
  "readable (bits_of ps @ ys) r \<Longrightarrow> all_fit ps \<Longrightarrow> \<exists>r'. get_all (map fst ps) r = Ok (map snd ps, r') \<and> readable ys r'"
proof (induction ps arbitrary: r)
  case (Cons p ps)
  obtain n v where p: "p = (n, v)" by (cases p)
  have un: "unat (ucast n :: DWORD) = unat n"
    using unsigned_less [of n, where ?'a = nat] by (simp add: unsigned_ucast_eq take_bit_nat_eq_self)
  from Cons.prems p have f: "fits (unat n) v" and xs: "bits_of (p # ps) @ ys = word_bits (unat n) v @ bits_of ps @ ys"
    by (auto simp: all_fit_def bits_of_def)
  from f have n: "1 \<le> unat n" "unat n \<le> 31" by (auto simp: fits_def)
  from br_Get_readable [OF Cons.prems(1), of "ucast n"] n xs obtain v' q where
    q: "br_Get (ucast n) r = Ok (v', q)" "word_bits (unat n) v' = word_bits (unat n) v" "\<forall>i \<ge> unat n. \<not> bit v' i"
    "readable (bits_of ps @ ys) q" by (auto simp: un)
  from word_of_bits [OF q(2,3) f] q(1) Cons.IH [OF q(4)] Cons.prems(2) p show ?case by (auto simp: all_fit_def)
qed (simp add: bits_of_def)

lemma BitWritter_new_written:
  assumes "length data < 2 ^ 29"
  shows "written [] (BitWritter_new data (of_nat (length data)))"
  using assms by (simp add: written_def BitWritter_new_def bw_Reset_def unat_of_nat take_bit_nat_eq_self)

text \<open>What \<open>BitWritter\<close> writes \<open>BitReader\<close> reads back.  Any values of 1 to 31 bits that fit their sizes and, together,
  the buffer are written without running out of it, and reading the same sizes from what the flush says it has written
  gives the same values; what the buffer held before, and the cache left from a flush, never show.\<close>

theorem bits_are_read_back:
  assumes "all_fit ps" and "length (bits_of ps) \<le> 8 * length data" and "length data < 2 ^ 29"
  shows "\<exists>w n w' r. put_all ps (BitWritter_new data (of_nat (length data))) = Ok w \<and> Flush w = Ok (n, w') \<and>
    get_all (map fst ps) (BitReader_new (bw_data w') n) = Ok (map snd ps, r)"
proof -
  let ?new = "BitWritter_new data (of_nat (length data))"
  have len: "length (bw_data ?new) = length data" by (simp add: BitWritter_new_def bw_Reset_def)
  from put_all_written [OF BitWritter_new_written [OF assms(3)] assms(1)] assms(2) len obtain w where
    w: "put_all ps ?new = Ok w" "written (bits_of ps) w" "length (bw_data w) = length data" by auto
  from Flush_written [OF w(2)] assms(2) w(3) obtain n w' k where
    f: "Flush w = Ok (n, w')" "bytes_bits (take (unat n) (bw_data w')) = bits_of ps @ replicate k False"
    "unat n \<le> length (bw_data w')" by auto
  then have "readable (bits_of ps @ replicate k False) (BitReader_new (bw_data w') n)"
    by (simp add: readable_def BitReader_new_def top_bits_def)
  from get_all_readable [OF this assms(1)] w f show ?thesis by blast
qed

theorem bits_are_read_back_witness:
  "\<exists>w n w' r. put_all [(3, 5), (31, 0x12345678), (1, 1)] (BitWritter_new [7, 7, 7, 7, 7] 5) = Ok w \<and> Flush w = Ok (n, w') \<and>
     get_all [3, 31, 1] (BitReader_new (bw_data w') n) = Ok ([5, 0x12345678, 1], r)"
  using bits_are_read_back [of "[(3, 5), (31, 0x12345678), (1, 1)]" "[7, 7, 7, 7, 7]"]
  by (simp add: all_fit_def fits_def bits_of_def)


section \<open>Codes\<close>

lemma get_one:
  assumes r: "readable (b # xs) r"
  shows "\<exists>v r'. br_Get 1 r = Ok (v, r') \<and> (v \<noteq> 0 \<longleftrightarrow> b) \<and> readable xs r'"
proof -
  from br_Get_readable [OF r, of 1] obtain v r' where
    v: "br_Get 1 r = Ok (v, r')" "word_bits 1 v = [b]" "\<forall>i \<ge> 1. \<not> bit v i" "readable xs r'" by auto
  have "v \<noteq> 0 \<longleftrightarrow> bit v 0"
  proof
    assume "v \<noteq> 0"
    then obtain i where "bit v i" by (auto simp: bit_eq_iff)
    with v(3) show "bit v 0" by (cases i) auto
  qed auto
  with v show ?thesis by (auto simp: word_bits_def)
qed

lemma count_zeros_readable:
  "readable (replicate n False @ True # xs) r \<Longrightarrow> n \<le> fuel \<Longrightarrow>
     \<exists>r'. count_zeros fuel r = Ok (n, r') \<and> readable xs r'"
proof (induction n arbitrary: r fuel)
  case 0
  with get_one [of True xs r] show ?case by (auto simp: count_zeros.simps)
next
  case (Suc n)
  from Suc.prems(2) obtain f where f: "fuel = Suc f" "n \<le> f" by (cases fuel) auto
  from Suc.prems(1) have "readable (False # replicate n False @ True # xs) r" by simp
  from get_one [OF this] obtain v r' where
    v: "br_Get 1 r = Ok (v, r')" "v = 0" "readable (replicate n False @ True # xs) r'" by auto
  from Suc.IH [OF v(3) f(2)] v f show ?case by (auto simp: count_zeros.simps [of "Suc f"])
qed

lemma readable_Left:
  assumes r: "readable xs r" and len: "length xs < 2 ^ 32"
  shows "unat (br_Left r) = length xs"
proof -
  have c: "unat (ucast (br_cached r) :: DWORD) = unat (br_cached r)"
    using unsigned_less [of "br_cached r", where ?'a = nat] by (simp add: unsigned_ucast_eq take_bit_nat_eq_self)
  from r have xs: "length xs = unat (br_cached r) + unat (br_len r) * 8" by (simp add: readable_def)
  with len have "unat (br_len r * 8) = unat (br_len r) * 8" by (simp add: unat_word_ariths(2))
  with xs len c have "unat (ucast (br_cached r) + br_len r * 8) = length xs" by (simp add: unat_word_ariths(1))
  moreover from this len have "unat (ucast (ucast (br_cached r) + br_len r * 8 :: DWORD) :: QWORD) = length xs"
    by (simp add: unsigned_ucast_eq take_bit_nat_eq_self)
  ultimately show ?thesis by (simp add: br_Left_def)
qed

lemma ExpGolomb_readable:
  assumes r: "readable (replicate n False @ True # word_bits n x @ xs) r" and n: "fits n x"
    and len: "2 * n + 1 + length xs < 2 ^ 32"
  shows "\<exists>r'. ExpGolomb_Decode r = Ok (2 ^ n - 1 + x, r') \<and> readable xs r'"
proof -
  from readable_Left [OF r] len have "n \<le> unat (br_Left r)" by simp
  from count_zeros_readable [OF r this] obtain q where
    q: "count_zeros (unat (br_Left r)) r = Ok (n, q)" "readable (word_bits n x @ xs) q" by blast
  from n have "1 \<le> n" "n \<le> 31" by (auto simp: fits_def)
  moreover have un: "unat (of_nat n :: DWORD) = n" using \<open>n \<le> 31\<close> by (simp add: unat_of_nat take_bit_nat_eq_self)
  ultimately obtain v t where
    v: "br_Get (of_nat n) q = Ok (v, t)" "word_bits n v = word_bits n x" "\<forall>i \<ge> n. \<not> bit v i" "readable xs t"
    using br_Get_readable [OF q(2), of "of_nat n"] by auto
  from word_of_bits [OF v(2,3) n] q v \<open>n \<le> 31\<close> show ?thesis
    by (simp add: ExpGolomb_Decode_def shl_def push_bit_eq_mult)
qed

text \<open>A zero is misread.  The exponential Golomb code of zero is the single bit 1, after which the decoder reads zero
  bits: the reader shifts its cache by 32 places, which C++ does not define and the x86 does as no shift at all.
  The decoder returns whatever bits are in the cache; with no bits left it is a zero, and only then.\<close>

theorem code_of_zero_is_misread:
  "\<exists>r. ExpGolomb_Decode (BitReader_new [b0 OR 0x80, b1, b2, b3] 4) =
     Ok (push_bit 25 (ucast b0) OR push_bit 17 (ucast b1) OR push_bit 9 (ucast b2) OR push_bit 1 (ucast b3), r)"
proof -
  let ?c = "ucast b3 OR push_bit 8 (ucast b2) OR push_bit 16 (ucast b1) OR push_bit 24 (ucast (b0 OR 0x80)) :: DWORD"
  let ?r = "BitReader_new [b0 OR 0x80, b1, b2, b3] 4"
  have c: "Cache ?r = Ok (?r\<lparr>br_data := [], br_len := 0, br_pos := 4, br_cache := ?c, br_cached := 32\<rparr>)"
    by (simp add: Cache_def next_cache_def BitReader_new_def get_bits_result)
  have "drop_bit 31 ?c = 1"
    by (rule bit_word_eqI) (auto simp: bit_simps bit_numeral_rec dest: bit_imp_le_length)
  have one: "br_Get 1 ?r = Ok (1, ?r\<lparr>br_data := [], br_len := 0, br_pos := 4, br_cache := push_bit 1 ?c, br_cached := 31\<rparr>)"
    using \<open>drop_bit 31 ?c = 1\<close>
    by (simp add: br_Get_def c GetCached_def SkipCached_def shl_def shr_def) (simp add: BitReader_new_def)
  have b128: "bit (0x80 :: BYTE) k \<longleftrightarrow> k = 7" for k
    using bit_exp_iff [of 7 k, where ?'a = "8 word"] by (auto dest: bit_imp_le_length)
  have "push_bit 1 (ucast b3 OR push_bit 8 (ucast b2) OR push_bit 16 (ucast b1) OR push_bit 24 (ucast (b0 OR h))) =
      (push_bit 25 (ucast b0) OR push_bit 17 (ucast b1) OR push_bit 9 (ucast b2) OR push_bit 1 (ucast b3) :: DWORD)"
    if "\<And>k. bit h k \<longleftrightarrow> k = 7" for h :: BYTE
    by (rule bit_word_eqI) (auto simp: bit_simps that)
  from this [OF b128]
  have "push_bit 1 ?c = push_bit 25 (ucast b0) OR push_bit 17 (ucast b1) OR push_bit 9 (ucast b2) OR push_bit 1 (ucast b3)" .
  with one show ?thesis
    by (simp add: ExpGolomb_Decode_def count_zeros.simps) (simp add: br_Get_def GetCached_def SkipCached_def shl_def shr_def)
qed

end
