(* ===== verification/RTPLostPackets.thy ===== *)
theory RTPLostPackets
  imports RTPPacketProperties BitStream
begin

unbundle bit_operations_syntax

text \<open>
  The tracker of lost packets, \<open>RTPLostPackets\<close> of \<open>src/mcu/src/rtp.cpp\<close>: a window of the times at which the packets with
  the extended sequence numbers from \<open>first\<close> on came, 0 for those that have not come, and the list of NACK fields made
  of it.  The comparisons are made in \<open>int\<close>, to which C++ promotes the 16-bit \<open>size\<close>, \<open>len\<close> and \<open>pos\<close>; the test
  \<open>len-1<=pos\<close> is written without the subtraction.
\<close>

record nack_field =
  nf_pid :: WORD
  nf_blp :: WORD

definition NACKField_mask :: "WORD \<Rightarrow> BYTE list \<Rightarrow> nack_field res" where
  "NACKField_mask pid blp = bindR (get2 blp 0) (\<lambda>v. Ok \<lparr>nf_pid = pid, nf_blp = ucast v\<rparr>)"

record lost_packets =
  lp_packets :: "QWORD list"
  lp_size :: WORD
  lp_len :: WORD
  lp_first :: DWORD

definition RTPLostPackets_new :: "WORD \<Rightarrow> lost_packets" where
  "RTPLostPackets_new num = \<lparr>lp_packets = replicate (unat num) 0, lp_size = num, lp_len = 0, lp_first = 0\<rparr>"

definition LostPackets_Reset :: "lost_packets \<Rightarrow> lost_packets" where
  "LostPackets_Reset l = l\<lparr>lp_packets := replicate (unat (lp_size l)) 0, lp_first := 0, lp_len := 0\<rparr>"

text \<open>The loop that goes down from the packet before \<open>pos\<close> while the packets are lost.\<close>

fun lost_before :: "nat \<Rightarrow> QWORD list \<Rightarrow> nat" where
  "lost_before 0 d = 0"
| "lost_before (Suc i) d = (if d ! i = 0 then Suc (lost_before i d) else 0)"

definition AddPacket :: "'a timed_packet_scheme \<Rightarrow> lost_packets \<Rightarrow> (WORD \<times> lost_packets) res" where
  "AddPacket packet l =
     (let extSeq = GetExtSeqNum packet; sz = unat (lp_size l) in
      if extSeq < lp_first l then Ok (0, l)
      else
        let l = (if lp_first l = 0 then l\<lparr>lp_first := extSeq\<rparr> else l);
            pos = ucast (extSeq - lp_first l) :: WORD;
            (pos, l) =
              (if unat pos + 1 > sz then
                 let n = min (unat pos + 1 - sz) sz in
                 (lp_size l - 1, l\<lparr>lp_packets := drop n (lp_packets l) @ replicate n 0,
                    lp_first := extSeq - ucast (lp_size l) + 1, lp_len := lp_size l\<rparr>)
               else (pos, l));
            (lost, l) =
              (if unat (lp_len l) \<le> unat pos + 1 then (lost_before (unat pos) (lp_packets l), l\<lparr>lp_len := pos + 1\<rparr>)
               else (0, l)) in
        if unat pos < length (lp_packets l)
        then Ok (of_nat lost, l\<lparr>lp_packets := (lp_packets l)[unat pos := rt_time packet]\<rparr>)
        else Fault OutOfBounds)"

text \<open>One packet of the window in the loop of \<open>GetNacks\<close>.  The list of the fields, the first lost number of the field
  under way or 0, the writer of its mask, and the number of packets in the mask.\<close>

fun nack_packet ::
  "lost_packets \<Rightarrow> nat \<Rightarrow> nack_field list \<times> WORD \<times> bit_writer \<times> nat \<Rightarrow> (nack_field list \<times> WORD \<times> bit_writer \<times> nat) res" where
  "nack_packet l i (nacks, lost, w, n) =
     (if length (lp_packets l) \<le> i then Fault OutOfBounds
      else if lost \<noteq> 0 then
        bindR (Put 1 (of_bool (lp_packets l ! i = 0)) w) (\<lambda>w.
        if n + 1 = 16 then
          bindR (Flush w) (\<lambda>(_, w).
          bindR (NACKField_mask lost (bw_data w)) (\<lambda>f.
          Ok (nacks @ [f], 0, bw_Reset w, 0)))
        else Ok (nacks, lost, w, n + 1))
      else if lp_packets l ! i = 0 then Ok (nacks, ucast (lp_first l + of_nat i), w, n)
      else Ok (nacks, lost, w, n))"

text \<open>\<open>junk\<close> is what the array \<open>mask\<close> holds at first.\<close>

definition GetNacks :: "BYTE list \<Rightarrow> lost_packets \<Rightarrow> nack_field list res" where
  "GetNacks junk l =
     bindR (foldR (nack_packet l) [0..<unat (lp_len l)] ([], 0, BitWritter_new junk 2, 0)) (\<lambda>(nacks, lost, w, n).
     if lost \<noteq> 0 then
       bindR (Put (16 - of_nat n) 0 w) (\<lambda>w.
       bindR (Flush w) (\<lambda>(_, w).
       bindR (NACKField_mask lost (bw_data w)) (\<lambda>f. Ok (nacks @ [f]))))
     else Ok nacks)"

section \<open>The window\<close>

text \<open>\<open>R\<close> are the extended sequence numbers that have come.\<close>

definition tracks :: "nat set \<Rightarrow> lost_packets \<Rightarrow> bool" where
  "tracks R l \<longleftrightarrow>
     length (lp_packets l) = unat (lp_size l) \<and> lp_first l \<noteq> 0 \<and> 0 < unat (lp_len l) \<and>
     unat (lp_len l) \<le> unat (lp_size l) \<and> finite R \<and> R \<noteq> {} \<and>
     unat (lp_first l) + unat (lp_len l) = Suc (Max R) \<and>
     (\<forall>i < unat (lp_size l). lp_packets l ! i \<noteq> 0 \<longleftrightarrow> unat (lp_first l) + i \<in> R)"

lemma tracks_above: "tracks R l \<Longrightarrow> s \<in> R \<Longrightarrow> s < unat (lp_first l) + unat (lp_len l)"
  by (simp add: tracks_def less_Suc_eq_le)

text \<open>The four ways of a packet: before the window, the first one, inside the window, beyond it.\<close>

lemma AddPacket_old:
  assumes t: "tracks R l" and s: "GetExtSeqNum p < lp_first l"
  shows "AddPacket p l = Ok (0, l)" "tracks (insert (unat (GetExtSeqNum p)) R) l"
proof -
  show "AddPacket p l = Ok (0, l)" using s by (simp add: AddPacket_def)
  from s have "unat (GetExtSeqNum p) < unat (lp_first l)" by (simp add: word_less_nat_alt)
  moreover from this t have "unat (GetExtSeqNum p) \<le> Max R" by (simp add: tracks_def)
  ultimately show "tracks (insert (unat (GetExtSeqNum p)) R) l" using t by (auto simp: tracks_def max_absorb2)
qed

lemma AddPacket_first:
  assumes sz: "0 < num" and s: "GetExtSeqNum p \<noteq> 0" and time: "rt_time p \<noteq> 0"
  shows "\<exists>l. AddPacket p (RTPLostPackets_new num) = Ok (0, l) \<and> lp_size l = num \<and> tracks {unat (GetExtSeqNum p)} l"
proof -
  from sz have n: "0 < unat num" by (simp add: word_greater_zero_iff unat_gt_0)
  then obtain k where k: "unat num = Suc k" by (cases "unat num") auto
  show ?thesis
    using n s time k by (simp add: AddPacket_def RTPLostPackets_new_def tracks_def nth_Cons split: nat.split)
qed

lemma AddPacket_inside:
  assumes t: "tracks R l" and s: "lp_first l \<le> GetExtSeqNum p" and time: "rt_time p \<noteq> 0"
    and d: "unat (GetExtSeqNum p) < unat (lp_first l) + unat (lp_size l)"
  shows "\<exists>lost l'. AddPacket p l = Ok (lost, l') \<and> lp_size l' = lp_size l \<and> tracks (insert (unat (GetExtSeqNum p)) R) l'"
proof -
  let ?s = "GetExtSeqNum p" and ?f = "unat (lp_first l)"
  define k where "k = unat ?s - ?f"
  have sk: "unat ?s = ?f + k" using s by (simp add: k_def word_le_nat_alt)
  have sz: "unat (lp_size l) < 2 ^ 16" using unsigned_less [of "lp_size l", where ?'a = nat] by simp
  have kd: "k < unat (lp_size l)" using d sk by simp
  have "unat (?s - lp_first l) = k" using s by (simp add: unat_sub word_le_nat_alt k_def)
  then have pos: "unat (ucast (?s - lp_first l) :: WORD) = k" using kd sz by (simp add: unsigned_ucast_eq take_bit_nat_eq_self)
  then have pos1: "unat (ucast (?s - lp_first l) + 1 :: WORD) = Suc k" using kd sz by (simp add: unat_word_ariths)
  have hi: "Suc (Max R) = ?f + unat (lp_len l)" and fin: "finite R" "R \<noteq> {}" using t by (simp_all add: tracks_def)
  have m: "Max (insert (?f + k) R) = max (?f + k) (Max R)" using fin by simp
  from t kd have in_R: "\<forall>i < unat (lp_size l). lp_packets l ! i \<noteq> 0 \<longleftrightarrow> ?f + i \<in> R" by (simp add: tracks_def)
  have "max (?f + k) (Max R) = (if unat (lp_len l) \<le> Suc k then ?f + k else Max R)"
    using hi by auto
  with t s kd pos pos1 time hi m show ?thesis
    by (auto simp: AddPacket_def Let_def not_less [symmetric] tracks_def sk nth_list_update)
qed

lemma AddPacket_beyond:
  assumes t: "tracks R l" and s: "unat (lp_first l) + unat (lp_size l) \<le> unat (GetExtSeqNum p)" and time: "rt_time p \<noteq> 0"
    and d: "unat (GetExtSeqNum p) < unat (lp_first l) + 2 ^ 16"
  shows "\<exists>lost l'. AddPacket p l = Ok (lost, l') \<and> lp_size l' = lp_size l \<and> tracks (insert (unat (GetExtSeqNum p)) R) l'"
proof -
  let ?s = "GetExtSeqNum p" and ?f = "unat (lp_first l)" and ?z = "unat (lp_size l)" and ?d = "lp_packets l"
  define k where "k = unat ?s - ?f"
  have sk: "unat ?s = ?f + k" and kz: "?z \<le> k" and k16: "k < 2 ^ 16" using s d by (simp_all add: k_def)
  have z: "0 < ?z" and len: "length ?d = ?z" and hi: "Suc (Max R) = ?f + unat (lp_len l)" "unat (lp_len l) \<le> ?z"
    and fin: "finite R" "R \<noteq> {}" and in_R: "\<And>i. i < ?z \<Longrightarrow> ?d ! i \<noteq> 0 \<longleftrightarrow> ?f + i \<in> R"
    using t by (auto simp: tracks_def)
  have le: "lp_first l \<le> ?s" using sk by (simp add: word_le_nat_alt)
  then have "unat (?s - lp_first l) = k" by (simp add: unat_sub word_le_nat_alt k_def)
  then have pos: "unat (ucast (?s - lp_first l) :: WORD) = k" using k16 by (simp add: unsigned_ucast_eq take_bit_nat_eq_self)
  have z1: "unat (lp_size l - 1) = ?z - 1" using z by (simp add: unat_sub word_le_nat_alt)
  then have z2: "lp_size l - 1 + 1 = lp_size l" by simp
  have uz: "unat (ucast (lp_size l) :: DWORD) = ?z"
    using unsigned_less [of "lp_size l", where ?'a = nat] by (simp add: unsigned_ucast_eq take_bit_nat_eq_self)
  have "?z \<le> unat ?s" using sk kz by simp
  then have "unat (?s - ucast (lp_size l)) = unat ?s - ?z" using uz by (subst unat_sub) (simp_all add: word_le_nat_alt)
  moreover have "unat ?s - ?z + 1 < 2 ^ 32" using unsigned_less [of ?s, where ?'a = nat] z by simp
  ultimately have first: "unat (?s - ucast (lp_size l) + 1) = unat ?s - ?z + 1" by (simp add: unat_word_ariths(1))
  then have first0: "?s - ucast (lp_size l) + 1 \<noteq> 0" by auto
  define n where "n = min (k + 1 - ?z) ?z"
  define e where "e = drop n ?d @ replicate n 0"
  have le: "length e = ?z" using len by (simp add: e_def n_def)
  have e: "e ! i \<noteq> 0 \<longleftrightarrow> ?f + (k + 1 - ?z) + i \<in> R" if i: "i < ?z" for i
  proof (cases "n + i < ?z")
    case True
    then have "n = k + 1 - ?z" by (simp add: n_def min_def split: if_splits)
    moreover have "i < ?z - n" using True by simp
    then have "e ! i = ?d ! (n + i)" using len by (simp add: e_def nth_append)
    ultimately show ?thesis using in_R [OF True] by (simp add: add.assoc)
  next
    case False
    then have "?f + ?z \<le> ?f + (k + 1 - ?z) + i" using i by (simp add: n_def min_def split: if_splits)
    with tracks_above [OF t, of "?f + (k + 1 - ?z) + i"] hi(2) have "?f + (k + 1 - ?z) + i \<notin> R" by auto
    moreover have "\<not> i < ?z - n" "i - (?z - n) < n" using False i by (auto simp: n_def)
    then have "e ! i = 0" using len by (simp add: e_def nth_append)
    ultimately show ?thesis by simp
  qed
  have m: "Max (insert (?f + k) R) = ?f + k" using fin hi kz z by (simp add: max_def)
  let ?l = "l\<lparr>lp_packets := e, lp_first := ?s - ucast (lp_size l) + 1, lp_len := lp_size l\<rparr>"
  have "AddPacket p l = Ok (of_nat (lost_before (?z - 1) e), ?l\<lparr>lp_packets := e[?z - 1 := rt_time p]\<rparr>)"
    using t pos kz z z1 z2 le first0
    by (simp add: AddPacket_def Let_def word_less_nat_alt sk tracks_def n_def e_def)
  moreover
  define g where "g = unat ?s - ?z + 1"
  have g: "?f + (k + 1 - ?z) = g" "g + ?z = Suc (unat ?s)" using sk kz by (simp_all add: g_def)
  then have last: "g + i = unat ?s \<longleftrightarrow> i = ?z - 1" if "i < ?z" for i using that by auto
  have "e[?z - 1 := rt_time p] ! i \<noteq> 0 \<longleftrightarrow> g + i \<in> insert (unat ?s) R" if "i < ?z" for i
    using e [OF that] last [OF that] that le time unfolding g(1) by (auto simp: nth_list_update)
  then have "tracks (insert (unat ?s) R) (?l\<lparr>lp_packets := e[?z - 1 := rt_time p]\<rparr>)"
    using le first0 first [folded g_def] z fin m [folded sk] g(2) by (simp add: tracks_def)
  ultimately show ?thesis by auto
qed

section \<open>The missing packets\<close>

text \<open>What a NACK field asks for: the packet \<open>pid\<close> and, for each bit of \<open>blp\<close> from the highest one on, the packet that
  many numbers later.\<close>

definition asks :: "WORD \<Rightarrow> bool list \<Rightarrow> WORD list" where
  "asks pid bs = pid # map (\<lambda>k. pid + 1 + of_nat k) (filter (\<lambda>k. bs ! k) [0..<length bs])"

definition nack_numbers :: "nack_field \<Rightarrow> WORD list" where
  "nack_numbers f = asks (nf_pid f) (word_bits 16 (nf_blp f))"

lemma asks_Nil [simp]: "asks pid [] = [pid]"
  by (simp add: asks_def)

lemma asks_snoc: "asks pid (bs @ [b]) = asks pid bs @ (if b then [pid + 1 + of_nat (length bs)] else [])"
proof -
  have "filter (\<lambda>k. (bs @ [b]) ! k) [0..<length bs] = filter (\<lambda>k. bs ! k) [0..<length bs]"
    by (rule filter_cong) (auto simp: nth_append)
  then show ?thesis by (simp add: asks_def)
qed

lemma asks_pad: "asks pid (bs @ replicate k False) = asks pid bs"
  by (induction k) (simp_all add: asks_snoc replicate_append_same [symmetric] del: append_assoc add: append_assoc [symmetric])

text \<open>The writer keeps its size.\<close>

lemma FlushCache_size: "FlushCache w = Ok w' \<Longrightarrow> bw_size w' = bw_size w"
  by (auto simp: FlushCache_def Let_def split: if_splits)

lemma Put_size: "Put n v w = Ok w' \<Longrightarrow> bw_size w' = bw_size w"
  by (auto simp: Put_def Let_def split: if_splits dest!: FlushCache_size)

lemma Flush_size: "Flush w = Ok (n, w') \<Longrightarrow> bw_size w' = bw_size w"
  by (auto simp: Flush_def Align_def Let_def split: if_splits dest!: FlushCache_size Put_size)

text \<open>The bits that are in the writer when a field is finished.\<close>

lemma finished_field:
  assumes w: "written bs w" and d: "length (bw_data w) = 2" and bs: "length bs = 16"
  shows "\<exists>l w' f. Flush w = Ok (l, w') \<and> length (bw_data w') = 2 \<and> NACKField_mask pid (bw_data w') = Ok f \<and>
    nack_numbers f = asks pid bs"
proof -
  from Flush_written [OF w] d bs obtain l w' k where
    f: "Flush w = Ok (l, w')" "bytes_bits (take (unat l) (bw_data w')) = bs @ replicate k False"
      "unat l \<le> 2" "length (bw_data w') = 2" by auto
  from arg_cong [OF f(2), of length] f(3,4) bs have "unat l = 2" "k = 0" by simp_all
  with f(2,4) have bits: "bytes_bits (bw_data w') = bs" by simp
  from f(4) obtain b0 b1 where b: "bw_data w' = [b0, b1]" using lengths(1) by blast
  have "word_bits 16 (ucast (ucast b1 OR push_bit 8 (ucast b0) :: DWORD) :: WORD) = bs"
    using word_of_bytes(1) [of b1 b0] bits unfolding b by (subst word_bits_ucast) simp_all
  with f(1,4) b show ?thesis by (simp add: NACKField_mask_def get_bits_result nack_numbers_def)
qed

text \<open>The sequence numbers, cut to 16 bits, of the lost packets among the first \<open>i\<close> of the window.\<close>

definition missing_numbers :: "lost_packets \<Rightarrow> nat \<Rightarrow> WORD list" where
  "missing_numbers l i = map (\<lambda>j. ucast (lp_first l + of_nat j)) (filter (\<lambda>j. lp_packets l ! j = 0) [0..<i])"

lemma missing_numbers_0 [simp]: "missing_numbers l 0 = []"
  by (simp add: missing_numbers_def)

lemma missing_numbers_Suc:
  "missing_numbers l (Suc i) = missing_numbers l i @ (if lp_packets l ! i = 0 then [ucast (lp_first l + of_nat i)] else [])"
  by (simp add: missing_numbers_def)

abbreviation nonzero :: "WORD list \<Rightarrow> WORD list" where
  "nonzero \<equiv> filter (\<lambda>s. s \<noteq> 0)"

text \<open>After \<open>i\<close> packets of the window: what the finished fields ask for and what the one under way does.\<close>

fun nacks_so_far :: "lost_packets \<Rightarrow> nat \<Rightarrow> nack_field list \<times> WORD \<times> bit_writer \<times> nat \<Rightarrow> bool" where
  "nacks_so_far l i (nacks, lost, w, n) \<longleftrightarrow>
     length (bw_data w) = 2 \<and> bw_size w = 2 \<and>
     (if lost = 0 then
        n = 0 \<and> written [] w \<and> nonzero (concat (map nack_numbers nacks)) = nonzero (missing_numbers l i)
      else n < 16 \<and> lost + 1 + of_nat n = ucast (lp_first l + of_nat i) \<and>
        (\<exists>bs. length bs = n \<and> written bs w \<and>
           nonzero (concat (map nack_numbers nacks) @ asks lost bs) = nonzero (missing_numbers l i)))"

lemma word_bits_1: "word_bits 1 (of_bool b :: 'a::len word) = [b]"
  by (simp add: word_bits_def bit_simps)

lemma written_Reset: "length (bw_data w) = 2 \<Longrightarrow> bw_size w = 2 \<Longrightarrow> written [] (bw_Reset w)"
  by (simp add: written_def bw_Reset_def)


lemma ucast_Suc: "(ucast (w + 1 :: DWORD) :: WORD) = ucast w + 1"
  by (simp add: word_unat_eq_iff unsigned_ucast_eq unat_word_ariths take_bit_eq_mod mod_mod_cancel mod_simps)

lemma nack_packet_ok:
  assumes s: "nacks_so_far l i s" and i: "i < length (lp_packets l)"
  shows "\<exists>s'. nack_packet l i s = Ok s' \<and> nacks_so_far l (Suc i) s'"
proof -
  obtain nacks lost w n where st: "s = (nacks, lost, w, n)" by (cases s)
  let ?seq = "ucast (lp_first l + of_nat i) :: WORD"
  have next_seq: "ucast (lp_first l + of_nat (Suc i)) = ?seq + 1"
  proof -
    have "lp_first l + of_nat (Suc i) = lp_first l + of_nat i + 1" by simp
    then show ?thesis by (simp only: ucast_Suc)
  qed
  show ?thesis
  proof (cases "lost = 0")
    case True
    with s st i next_seq show ?thesis
      by (auto simp: missing_numbers_Suc intro!: exI [of _ "[]"])
  next
    case False
    with s st obtain bs where n: "n < 16" "lost + 1 + of_nat n = ?seq" and w: "length (bw_data w) = 2" "bw_size w = 2"
      and bs: "length bs = n" "written bs w" "nonzero (concat (map nack_numbers nacks) @ asks lost bs) = nonzero (missing_numbers l i)"
      by auto
    let ?b = "lp_packets l ! i = 0"
    have "fits (unat (1 :: BYTE)) (of_bool ?b)" by (simp add: fits_def)
    from Put_written [OF bs(2) this] bs(1) n(1) w(1) obtain u where
      u: "Put 1 (of_bool ?b) w = Ok u" "written (bs @ word_bits 1 (of_bool ?b :: DWORD)) u" "length (bw_data u) = 2" by auto
    note bs' = u(2) [unfolded word_bits_1]
    have "asks lost (bs @ [?b]) = asks lost bs @ (if ?b then [?seq] else [])" by (simp only: asks_snoc bs(1) n(2))
    then have asked: "nonzero (concat (map nack_numbers nacks) @ asks lost (bs @ [?b])) = nonzero (missing_numbers l (Suc i))"
      using bs(3) by (simp add: missing_numbers_Suc)
    show ?thesis
    proof (cases "n + 1 = 16")
      case True
      then have "length (bs @ [?b]) = 16" using bs(1) by simp
      from finished_field [OF bs' u(3) this, of lost] obtain k v f where
        f: "Flush u = Ok (k, v)" "length (bw_data v) = 2" "NACKField_mask lost (bw_data v) = Ok f"
          "nack_numbers f = asks lost (bs @ [?b])" by blast
      have "bw_size v = 2" using Flush_size [OF f(1)] Put_size [OF u(1)] w(2) by simp
      with f(2) have "written [] (bw_Reset v)" "length (bw_data (bw_Reset v)) = 2" "bw_size (bw_Reset v) = 2"
        by (simp_all add: written_Reset) (simp_all add: bw_Reset_def)
      with True False st i u(1) f asked show ?thesis by simp
    next
      case not_full: False
      have "lost + 1 + of_nat (n + 1) = ?seq + 1" unfolding n(2) [symmetric] by simp
      then have "nacks_so_far l (Suc i) (nacks, lost, u, n + 1)"
        using False not_full n(1) u(3) Put_size [OF u(1)] w(2) bs(1) bs' asked next_seq
        by (auto intro!: exI [of _ "bs @ [?b]"])
      with False not_full st i u(1) show ?thesis by auto
    qed
  qed
qed

lemma nack_packets_ok:
  assumes "nacks_so_far l i s" "i \<le> k" "k \<le> length (lp_packets l)"
  shows "\<exists>s'. foldR (nack_packet l) [i..<k] s = Ok s' \<and> nacks_so_far l k s'"
  using assms(2,3,1)
proof (induction k rule: dec_induct)
  case (step k)
  then obtain t where t: "foldR (nack_packet l) [i..<k] s = Ok t" "nacks_so_far l k t" by auto
  from step.prems have "k < length (lp_packets l)" by simp
  from nack_packet_ok [OF t(2) this] obtain u where "nack_packet l k t = Ok u" "nacks_so_far l (Suc k) u" by blast
  with t(1) step.hyps show ?case by (simp del: nack_packet.simps nacks_so_far.simps add: foldR_append)
qed simp

lemma GetNacks_asks:
  assumes l: "unat (lp_len l) \<le> length (lp_packets l)" and junk: "length junk = 2"
  shows "\<exists>nacks. GetNacks junk l = Ok nacks \<and>
    nonzero (concat (map nack_numbers nacks)) = nonzero (missing_numbers l (unat (lp_len l)))"
proof -
  have "nacks_so_far l 0 ([], 0, BitWritter_new junk 2, 0)"
    using BitWritter_new_written [of junk] junk by (simp add: BitWritter_new_def bw_Reset_def)
  from nack_packets_ok [OF this _ l] obtain nacks lost w n where
    r: "foldR (nack_packet l) [0..<unat (lp_len l)] ([], 0, BitWritter_new junk 2, 0) = Ok (nacks, lost, w, n)"
      "nacks_so_far l (unat (lp_len l)) (nacks, lost, w, n)" by auto
  show ?thesis
  proof (cases "lost = 0")
    case True
    with r show ?thesis by (simp add: GetNacks_def)
  next
    case False
    with r(2) obtain bs where n: "n < 16" "length (bw_data w) = 2" and bs: "length bs = n" "written bs w"
      "nonzero (concat (map nack_numbers nacks) @ asks lost bs) = nonzero (missing_numbers l (unat (lp_len l)))" by auto
    have un: "unat (16 - of_nat n :: BYTE) = 16 - n"
      using n(1) by (subst unat_sub) (simp_all add: word_le_nat_alt unat_of_nat take_bit_nat_eq_self)
    moreover have "1 \<le> 16 - n \<and> 16 - n \<le> 31" using n(1) by auto
    ultimately have "fits (unat (16 - of_nat n :: BYTE)) 0" by (simp add: fits_def)
    from Put_written [OF bs(2) this] bs(1) n un obtain u where
      u: "Put (16 - of_nat n) 0 w = Ok u" "written (bs @ word_bits (16 - n) (0 :: DWORD)) u" "length (bw_data u) = 2" by auto
    have z: "word_bits (16 - n) (0 :: DWORD) = replicate (16 - n) False" by (rule nth_equalityI) (auto simp: nth_word_bits)
    from finished_field [OF u(2,3), of lost] n(1) bs(1) obtain k v f where
      f: "Flush u = Ok (k, v)" "NACKField_mask lost (bw_data v) = Ok f"
        "nack_numbers f = asks lost (bs @ replicate (16 - n) False)" unfolding z by auto
    with False r(1) u(1) bs(3) show ?thesis by (simp add: GetNacks_def asks_pad)
  qed
qed


section \<open>From the packets to the negative acknowledgements\<close>

fun add_packets :: "timed_packet list \<Rightarrow> lost_packets \<Rightarrow> lost_packets res" where
  "add_packets [] l = Ok l"
| "add_packets (p # ps) l = bindR (AddPacket p l) (\<lambda>(_, l). add_packets ps l)"

text \<open>No packet is so far ahead of those before it that its position in the window, which is cut to 16 bits, is wrong.\<close>

fun steady :: "nat \<Rightarrow> nat \<Rightarrow> nat list \<Rightarrow> bool" where
  "steady sz hi [] = True"
| "steady sz hi (s # ss) \<longleftrightarrow> s + sz \<le> hi + 2 ^ 16 \<and> steady sz (max hi s) ss"

lemma add_packets_tracks:
  assumes "tracks R l" "steady (unat (lp_size l)) (Max R) (map (\<lambda>p. unat (GetExtSeqNum p)) ps)" "\<forall>p \<in> set ps. rt_time p \<noteq> 0"
  shows "\<exists>l'. add_packets ps l = Ok l' \<and> lp_size l' = lp_size l \<and> tracks (R \<union> (\<lambda>p. unat (GetExtSeqNum p)) ` set ps) l'"
  using assms
proof (induction ps arbitrary: R l)
  case (Cons p ps)
  let ?s = "unat (GetExtSeqNum p)"
  note t = Cons.prems(1)
  have time: "rt_time p \<noteq> 0" using Cons.prems(3) by simp
  have s: "?s + unat (lp_size l) \<le> Max R + 2 ^ 16" using Cons.prems(2) by simp
  have "Max (insert ?s R) = max (Max R) ?s" using t by (simp add: tracks_def max.commute)
  then have steady: "steady (unat (lp_size l)) (Max (insert ?s R)) (map (\<lambda>p. unat (GetExtSeqNum p)) ps)"
    using Cons.prems(2) by simp
  have "\<exists>lost l'. AddPacket p l = Ok (lost, l') \<and> lp_size l' = lp_size l \<and> tracks (insert ?s R) l'"
  proof (cases "GetExtSeqNum p < lp_first l")
    case True
    with AddPacket_old [OF t] show ?thesis by blast
  next
    case False
    then have le: "lp_first l \<le> GetExtSeqNum p" by simp
    have "Suc (Max R) \<le> unat (lp_first l) + unat (lp_size l)" using t by (simp add: tracks_def)
    with s have "?s < unat (lp_first l) + 2 ^ 16" by simp
    with AddPacket_inside [OF t le time] AddPacket_beyond [OF t _ time] show ?thesis
      by (cases "?s < unat (lp_first l) + unat (lp_size l)") auto
  qed
  then obtain lost u where u: "AddPacket p l = Ok (lost, u)" "lp_size u = lp_size l" "tracks (insert ?s R) u" by blast
  from Cons.IH [OF u(3)] steady u(2) Cons.prems(3) u(1) show ?case by auto
qed simp

text \<open>C14: The server asks for the packets that are missing.  After any packets, in any order and with any gaps, \<open>GetNacks\<close>
  returns fields that ask for exactly the numbers of the window that have not come, each once and in their order, all
  up to the highest one that has; the number 0 modulo 65536 apart, which the code cannot ask for at the start of a
  field.  The packets have numbers and times other than 0, and none is more than 65536 minus the size of the window
  ahead of those before.\<close>

theorem missing_packets_are_asked_for:
  assumes "0 < num" and "length junk = 2" and "\<forall>q \<in> set (p # ps). GetExtSeqNum q \<noteq> 0 \<and> rt_time q \<noteq> 0"
    and "steady (unat num) (unat (GetExtSeqNum p)) (map (\<lambda>q. unat (GetExtSeqNum q)) ps)"
  defines "R \<equiv> (\<lambda>q. unat (GetExtSeqNum q)) ` set (p # ps)"
  shows "\<exists>l nacks. add_packets (p # ps) (RTPLostPackets_new num) = Ok l \<and> GetNacks junk l = Ok nacks \<and>
    Max R < unat (lp_first l) + unat num \<and>
    nonzero (concat (map nack_numbers nacks)) =
      nonzero (map of_nat (filter (\<lambda>s. s \<notin> R) [unat (lp_first l)..<Suc (Max R)]))"
proof -
  from assms(3) have "GetExtSeqNum p \<noteq> 0" "rt_time p \<noteq> 0" by simp_all
  from AddPacket_first [OF assms(1) this] obtain u where
    u: "AddPacket p (RTPLostPackets_new num) = Ok (0, u)" "lp_size u = num" "tracks {unat (GetExtSeqNum p)} u" by blast
  from add_packets_tracks [OF u(3)] u(2) assms(3,4) obtain l where
    l: "add_packets ps u = Ok l" "tracks R l" and sz: "lp_size l = num" by (auto simp: R_def)
  let ?f = "unat (lp_first l)" and ?n = "unat (lp_len l)"
  from l(2) have w: "?n \<le> length (lp_packets l)" "?f + ?n = Suc (Max R)" "?n \<le> unat num" "0 < ?n"
    using sz by (simp_all add: tracks_def)
  have come: "lp_packets l ! i = 0 \<longleftrightarrow> ?f + i \<notin> R" if "i < ?n" for i
  proof -
    have "\<forall>i < unat (lp_size l). lp_packets l ! i \<noteq> 0 \<longleftrightarrow> ?f + i \<in> R" using l(2) by (simp add: tracks_def)
    moreover have "i < unat (lp_size l)" using that w(3) sz by simp
    ultimately show ?thesis by blast
  qed
  from GetNacks_asks [OF w(1) assms(2)] obtain nacks where
    nacks: "GetNacks junk l = Ok nacks" "nonzero (concat (map nack_numbers nacks)) = nonzero (missing_numbers l ?n)" by blast
  have "(ucast (lp_first l + of_nat i) :: WORD) = of_nat (?f + i)" for i
    by (simp add: word_unat_eq_iff unsigned_ucast_eq unat_word_ariths unat_of_nat take_bit_eq_mod mod_mod_cancel mod_simps)
  moreover have "filter (\<lambda>j. lp_packets l ! j = 0) [0..<?n] = filter (\<lambda>i. ?f + i \<notin> R) [0..<?n]"
    by (rule filter_cong) (simp_all add: come)
  ultimately have "missing_numbers l ?n = map (of_nat \<circ> (+) ?f) (filter ((\<lambda>s. s \<notin> R) \<circ> (+) ?f) [0..<?n])"
    by (simp add: missing_numbers_def comp_def)
  also have "\<dots> = map of_nat (filter (\<lambda>s. s \<notin> R) (map ((+) ?f) [0..<?n]))" by (simp add: filter_map comp_def)
  also have "map ((+) ?f) [0..<?n] = map (\<lambda>i. i + ?f) [0..<?n]" by simp
  also have "\<dots> = [?f..<Suc (Max R)]" unfolding w(2) [symmetric] map_add_upt by (simp add: add.commute)
  finally show ?thesis using u(1) l(1) nacks w(2,3,4) by (intro exI [of _ l] exI [of _ nacks]) simp
qed



text \<open>The packets 65530 and 65540 come, then 65533: seven numbers between them are asked for and 65536, which is 0 in 16
  bits, in the same field; the window is of eight packets, so 65533 is its first one.\<close>

theorem missing_packets_are_asked_for_witness:
  "let p = (\<lambda>n. SetSeqNum n (RTPTimedPacket_new 5000 (replicate 1700 0) 0 Video 96)); q = (\<lambda>n. (p n)\<lparr>rp_cycles := 1\<rparr>);
       R = {65530, 65533, 65540} in
   \<exists>l nacks. add_packets [p 65530, q 4, p 65533] (RTPLostPackets_new 8) = Ok l \<and> GetNacks [7, 7] l = Ok nacks \<and>
     Max R < unat (lp_first l) + 8 \<and>
     nonzero (concat (map nack_numbers nacks)) =
       nonzero (map of_nat (filter (\<lambda>s. s \<notin> R) [unat (lp_first l)..<Suc (Max R)]))"
proof -
  define p where "p n = SetSeqNum n (RTPTimedPacket_new 5000 (replicate 1700 0) 0 Video 96)" for n
  have seq: "GetExtSeqNum (p n) = ucast n" "GetExtSeqNum ((p n)\<lparr>rp_cycles := 1\<rparr>) = 0x10000 OR ucast n" "rt_time (p n) = 5" for n
    by (simp_all add: p_def GetExtSeqNum_def GetSeqNum_def SetSeqNum_def RTPTimedPacket_new_def RTPPacket_new_def load_store2
      SetType_def SetVersion_def set_field_def zero_header_def rtp_packet.defs)
  let ?ps = "[(p 4)\<lparr>rp_cycles := 1\<rparr>, p 65533]"
  have R: "(\<lambda>q. unat (GetExtSeqNum q)) ` set (p 65530 # ?ps) = {65530, 65533, 65540}" by (auto simp: seq)
  have "0 < (8 :: WORD)" "length [7 :: BYTE, 7] = 2" "\<forall>q \<in> set (p 65530 # ?ps). GetExtSeqNum q \<noteq> 0 \<and> rt_time q \<noteq> 0"
    "steady (unat (8 :: WORD)) (unat (GetExtSeqNum (p 65530))) (map (\<lambda>q. unat (GetExtSeqNum q)) ?ps)"
    by (simp_all add: seq)
  from missing_packets_are_asked_for [OF this] show ?thesis
    unfolding R p_def [symmetric] Let_def by (simp del: add_packets.simps)
qed

text \<open>A lost packet whose number is 0 modulo 65536 is never asked for on its own: \<open>GetNacks\<close> takes the number for no
  packet at all.\<close>

lemma number_zero_is_not_asked_for:
  "let l = \<lparr>lp_packets = [5, 0, 5], lp_size = 3, lp_len = 3, lp_first = 0xFFFF\<rparr> in
   missing_numbers l 3 = [0] \<and> GetNacks [7, 7] l = Ok []"
  by (simp add: missing_numbers_def GetNacks_def upt_conv_Cons)


end
