(* ===== verification/RTCP.thy ===== *)
theory RTCP
  imports RTPLostPackets
begin

unbundle bit_operations_syntax

text \<open>
  RTCP (\<open>src/mcu/include/rtp.h\<close>, \<open>src/mcu/src/rtp.cpp\<close>): the packets, how each is written into a buffer and read from one,
  and the compound packets that a datagram is made of.

  \<open>d\<close> is the memory from the pointer \<open>data\<close> of \<open>Parse\<close> on, which can be longer than the packet, and all of the buffer for
  \<open>Serialize\<close>, whose pointer is at the position \<open>at\<close>.  A \<open>Parse\<close> that returns 0 gives \<open>None\<close>.  Lengths are natural
  numbers; the subtraction that can go below zero is written with \<open>DWORD\<close>s.
\<close>

definition pad32 :: "nat \<Rightarrow> nat" where
  "pad32 n = (if n mod 4 = 0 then n else n - n mod 4 + 4)"

section \<open>The common header\<close>

definition header_count :: "BYTE list \<Rightarrow> nat res" where
  "header_count d = bindR (byte_at d 0) (\<lambda>b. Ok (unat (get_bits 0 5 b)))"

definition GetRTCPHeaderLength :: "BYTE list \<Rightarrow> nat res" where
  "GetRTCPHeaderLength d = bindR (get2 d 2) (\<lambda>n. Ok ((unat n + 1) * 4))"

text \<open>\<open>SetRTCPHeaderLength\<close> and the four assignments before it; the count is a field of 5 bits.\<close>

definition put_header :: "nat \<Rightarrow> BYTE \<Rightarrow> BYTE \<Rightarrow> nat \<Rightarrow> BYTE list \<Rightarrow> BYTE list res" where
  "put_header at count pt sz d =
     bindR (set1 d at (0x80 OR take_bit 5 count)) (\<lambda>d.
     bindR (set1 d (at + 1) pt) (\<lambda>d.
     set2 d (at + 2) (of_nat (sz div 4 - 1))))"

text \<open>The loops \<open>len += x->Serialize(data+len,size-len)\<close>, and one over \<open>DWORD\<close>s.\<close>

fun serialize_all ::
  "('a \<Rightarrow> nat \<Rightarrow> nat \<Rightarrow> BYTE list \<Rightarrow> (nat \<times> BYTE list) res) \<Rightarrow> 'a list \<Rightarrow> nat \<Rightarrow> nat \<Rightarrow> nat \<Rightarrow> BYTE list \<Rightarrow> (nat \<times> BYTE list) res"
where
  "serialize_all ser [] at len sz d = Ok (len, d)"
| "serialize_all ser (x # xs) at len sz d =
     bindR (ser x (at + len) (sz - len) d) (\<lambda>(n, d). serialize_all ser xs at (len + n) sz d)"

fun put_words :: "DWORD list \<Rightarrow> nat \<Rightarrow> BYTE list \<Rightarrow> BYTE list res" where
  "put_words [] i d = Ok d"
| "put_words (v # vs) i d = bindR (set4 d i v) (put_words vs (i + 4))"

fun get_words :: "nat \<Rightarrow> nat \<Rightarrow> BYTE list \<Rightarrow> DWORD list res" where
  "get_words 0 i d = Ok []"
| "get_words (Suc n) i d = bindR (get4 d i) (\<lambda>v. bindR (get_words n (i + 4) d) (\<lambda>vs. Ok (v # vs)))"

section \<open>Report blocks\<close>

record rtcp_report =
  rc_buffer :: "BYTE list"

definition Report_GetSSRC :: "rtcp_report \<Rightarrow> DWORD" where "Report_GetSSRC r = load4 0 (rc_buffer r)"
definition GetFactionLost :: "rtcp_report \<Rightarrow> BYTE" where "GetFactionLost r = rc_buffer r ! 4"
definition GetLostCount :: "rtcp_report \<Rightarrow> DWORD" where
  "GetLostCount r = ucast (rc_buffer r ! 7) OR push_bit 8 (ucast (rc_buffer r ! 6)) OR push_bit 16 (ucast (rc_buffer r ! 5))"
definition GetLastSeqNum :: "rtcp_report \<Rightarrow> DWORD" where "GetLastSeqNum r = load4 8 (rc_buffer r)"
definition GetJitter :: "rtcp_report \<Rightarrow> DWORD" where "GetJitter r = load4 12 (rc_buffer r)"
definition GetLastSR :: "rtcp_report \<Rightarrow> DWORD" where "GetLastSR r = load4 16 (rc_buffer r)"
definition GetDelaySinceLastSR :: "rtcp_report \<Rightarrow> DWORD" where "GetDelaySinceLastSR r = load4 20 (rc_buffer r)"

definition Report_SetSSRC :: "DWORD \<Rightarrow> rtcp_report \<Rightarrow> rtcp_report" where
  "Report_SetSSRC v r = r\<lparr>rc_buffer := store4 0 v (rc_buffer r)\<rparr>"
definition SetFractionLost :: "BYTE \<Rightarrow> rtcp_report \<Rightarrow> rtcp_report" where
  "SetFractionLost v r = r\<lparr>rc_buffer := (rc_buffer r)[4 := v]\<rparr>"
definition SetLostCount :: "DWORD \<Rightarrow> rtcp_report \<Rightarrow> rtcp_report" where
  "SetLostCount v r = r\<lparr>rc_buffer := (rc_buffer r)[7 := ucast v, 6 := ucast (drop_bit 8 v), 5 := ucast (drop_bit 16 v)]\<rparr>"
definition SetLastSeqNum :: "DWORD \<Rightarrow> rtcp_report \<Rightarrow> rtcp_report" where
  "SetLastSeqNum v r = r\<lparr>rc_buffer := store4 8 v (rc_buffer r)\<rparr>"
definition SetLastJitter :: "DWORD \<Rightarrow> rtcp_report \<Rightarrow> rtcp_report" where
  "SetLastJitter v r = r\<lparr>rc_buffer := store4 12 v (rc_buffer r)\<rparr>"
definition SetLastSR :: "DWORD \<Rightarrow> rtcp_report \<Rightarrow> rtcp_report" where
  "SetLastSR v r = r\<lparr>rc_buffer := store4 16 v (rc_buffer r)\<rparr>"
definition SetDelaySinceLastSR :: "DWORD \<Rightarrow> rtcp_report \<Rightarrow> rtcp_report" where
  "SetDelaySinceLastSR v r = r\<lparr>rc_buffer := store4 20 v (rc_buffer r)\<rparr>"

definition Report_Serialize :: "rtcp_report \<Rightarrow> nat \<Rightarrow> nat \<Rightarrow> BYTE list \<Rightarrow> (nat \<times> BYTE list) res" where
  "Report_Serialize r at sz d =
     (if sz < 24 then Ok (0, d) else bindR (copy_in at (take 24 (rc_buffer r)) d) (\<lambda>d. Ok (24, d)))"

definition Report_Parse :: "BYTE list \<Rightarrow> nat \<Rightarrow> (nat \<times> rtcp_report) option res" where
  "Report_Parse d sz = (if sz < 24 then Ok None else bindR (copy_out 0 24 d) (\<lambda>b. Ok (Some (24, \<lparr>rc_buffer = b\<rparr>))))"

text \<open>The loop of the two reports: at most \<open>count\<close> blocks, while there is room.\<close>

fun parse_reports :: "nat \<Rightarrow> nat \<Rightarrow> nat \<Rightarrow> BYTE list \<Rightarrow> (nat \<times> rtcp_report list) res" where
  "parse_reports 0 len sz d = Ok (len, [])"
| "parse_reports (Suc count) len sz d =
     (if sz \<ge> len + 24 then
        bindR (Report_Parse (drop len d) (sz - len)) (\<lambda>p.
        let (n, r) = (case p of Some (n, r) \<Rightarrow> (n, [r]) | None \<Rightarrow> (0, [])) in
        bindR (parse_reports count (len + n) sz d) (\<lambda>(len, rs). Ok (len, r @ rs)))
      else Ok (len, []))"

section \<open>Packets\<close>

record sdes_item =
  it_type :: BYTE
  it_data :: "BYTE list"
  it_size :: BYTE

definition Item_new :: "BYTE \<Rightarrow> BYTE list \<Rightarrow> sdes_item" where
  "Item_new t bs = \<lparr>it_type = t, it_data = bs, it_size = of_nat (length bs)\<rparr>"

record sdes_description =
  de_ssrc :: DWORD
  de_items :: "sdes_item list"

record tmmbr_field =
  tf_ssrc :: DWORD
  tf_exp :: BYTE
  tf_mantissa :: DWORD
  tf_overhead :: WORD

datatype rtpfb_field = NackF nack_field | BitrateF tmmbr_field

datatype psfb_field =
    SliceLossF WORD WORD BYTE                       \<comment> \<open>first, number, pictureId\<close>
  | PictureSelectionF BYTE BYTE "BYTE list"         \<comment> \<open>padding, type, payload\<close>
  | IntraRequestF DWORD BYTE                        \<comment> \<open>ssrc, seq\<close>
  | TradeOffF DWORD BYTE BYTE                       \<comment> \<open>ssrc, seq, index\<close>
  | BackChannelF DWORD BYTE BYTE "BYTE list"        \<comment> \<open>ssrc, seq, type, payload\<close>
  | ApplicationF "BYTE list"                        \<comment> \<open>payload\<close>

text \<open>A payload is as long as the \<open>length\<close> beside it.  The constructors are the classes, with their fields in order.\<close>

datatype rtcp =
    SenderReport DWORD DWORD DWORD DWORD DWORD DWORD "rtcp_report list"
  | ReceiverReport DWORD "rtcp_report list"
  | SDES "sdes_description list"
  | Bye "DWORD list" "BYTE list option"
  | App BYTE DWORD "BYTE list" "BYTE list"
  | RTPFeedback BYTE DWORD DWORD "rtpfb_field list"
  | PayloadFeedback BYTE DWORD DWORD "psfb_field list"
  | FullIntraRequest DWORD
  | NACK DWORD WORD WORD
  | ExtendedJitterReport "DWORD list"

fun rtcp_type :: "rtcp \<Rightarrow> BYTE" where
  "rtcp_type (FullIntraRequest _) = 192"
| "rtcp_type (NACK _ _ _) = 193"
| "rtcp_type (ExtendedJitterReport _) = 195"
| "rtcp_type (SenderReport _ _ _ _ _ _ _) = 200"
| "rtcp_type (ReceiverReport _ _) = 201"
| "rtcp_type (SDES _) = 202"
| "rtcp_type (Bye _ _) = 203"
| "rtcp_type (App _ _ _ _) = 204"
| "rtcp_type (RTPFeedback _ _ _ _) = 205"
| "rtcp_type (PayloadFeedback _ _ _ _) = 206"


section \<open>Source descriptions\<close>

definition Description_GetSize :: "sdes_description \<Rightarrow> nat" where
  "Description_GetSize s = pad32 (4 + (\<Sum>i\<leftarrow>de_items s. unat (it_size i) + 2) + 1)"

fun put_items :: "sdes_item list \<Rightarrow> nat \<Rightarrow> nat \<Rightarrow> BYTE list \<Rightarrow> (nat \<times> BYTE list) res" where
  "put_items [] at len d = Ok (len, d)"
| "put_items (i # is) at len d =
     bindR (set1 d (at + len) (it_type i)) (\<lambda>d.
     bindR (set1 d (at + len + 1) (it_size i)) (\<lambda>d.
     bindR (copy_out 0 (unat (it_size i)) (it_data i)) (\<lambda>xs.
     bindR (copy_in (at + len + 2) xs d) (\<lambda>d.
     put_items is at (len + 2 + unat (it_size i)) d))))"

definition Description_Serialize :: "sdes_description \<Rightarrow> nat \<Rightarrow> nat \<Rightarrow> BYTE list \<Rightarrow> (nat \<times> BYTE list) res" where
  "Description_Serialize s at sz d =
     (if sz < Description_GetSize s then Ok (0, d)
      else bindR (set4 d at (de_ssrc s)) (\<lambda>d.
        bindR (put_items (de_items s) at 4 d) (\<lambda>(len, d).
        bindR (set1 d (at + len) 0) (\<lambda>d.
        bindR (copy_in (at + (len + 1)) (replicate (pad32 (len + 1) - (len + 1)) 0) d) (\<lambda>d.
        Ok (pad32 (len + 1), d))))))"

function get_items :: "nat \<Rightarrow> nat \<Rightarrow> BYTE list \<Rightarrow> (nat \<times> sdes_item list) option res" where
  "get_items len sz d =
     (if sz > len + 2 then
        bindR (byte_at d len) (\<lambda>t.
        if t = 0 then Ok (Some (len, []))
        else bindR (byte_at d (len + 1)) (\<lambda>n.
          if len + 2 + unat n > sz then Ok None
          else bindR (copy_out (len + 2) (unat n) d) (\<lambda>xs.
            bindR (get_items (len + unat n + 2) sz d) (\<lambda>r.
            Ok (case r of Some (len, is) \<Rightarrow> Some (len, Item_new t xs # is) | None \<Rightarrow> None)))))
      else Ok (Some (len, [])))"
  by pat_completeness auto

termination by (relation "measure (\<lambda>(len, sz, _). sz - len)") auto

declare get_items.simps [simp del]

definition Description_Parse :: "BYTE list \<Rightarrow> nat \<Rightarrow> (nat \<times> sdes_description) option res" where
  "Description_Parse d sz =
     (if sz < 4 then Ok None
      else bindR (get4 d 0) (\<lambda>ssrc. bindR (get_items 4 sz d) (\<lambda>r.
        Ok (case r of Some (len, is) \<Rightarrow> Some (pad32 (len + 1), \<lparr>de_ssrc = ssrc, de_items = is\<rparr>) | None \<Rightarrow> None))))"

section \<open>Feedback fields\<close>

definition NackField_Parse :: "BYTE list \<Rightarrow> nat \<Rightarrow> (nat \<times> rtpfb_field) option res" where
  "NackField_Parse d sz =
     (if sz < 4 then Ok None
      else bindR (get2 d 0) (\<lambda>pid. bindR (get2 d 2) (\<lambda>blp.
        Ok (Some (4, NackF \<lparr>nf_pid = ucast pid, nf_blp = ucast blp\<rparr>)))))"

definition BitrateField_Parse :: "BYTE list \<Rightarrow> nat \<Rightarrow> (nat \<times> rtpfb_field) option res" where
  "BitrateField_Parse d sz =
     (if sz < 8 then Ok None
      else bindR (get4 d 0) (\<lambda>ssrc.
        bindR (byte_at d 4) (\<lambda>b4. bindR (byte_at d 5) (\<lambda>b5. bindR (byte_at d 6) (\<lambda>b6. bindR (byte_at d 7) (\<lambda>b7.
        let m = ucast (b4 AND 3) :: DWORD;
            m = push_bit 8 m OR ucast b5;
            m = push_bit 7 m OR ucast (drop_bit 1 b6);
            overhead = push_bit 8 (ucast (b6 AND 1) :: WORD) OR ucast b7 in
        Ok (Some (8, BitrateF \<lparr>tf_ssrc = ssrc, tf_exp = drop_bit 2 b4, tf_mantissa = m, tf_overhead = overhead\<rparr>))))))))"

fun rtpfb_GetSize :: "rtpfb_field \<Rightarrow> nat" where
  "rtpfb_GetSize (NackF _) = 4"
| "rtpfb_GetSize (BitrateF _) = 8"

definition NackField_Serialize :: "nack_field \<Rightarrow> nat \<Rightarrow> nat \<Rightarrow> BYTE list \<Rightarrow> (nat \<times> BYTE list) res" where
  "NackField_Serialize f at sz d =
     (if sz < 4 then Ok (0, d)
      else bindR (set2 d at (ucast (nf_pid f))) (\<lambda>d. bindR (set2 d (at + 2) (ucast (nf_blp f))) (\<lambda>d. Ok (4, d))))"

definition BitrateField_Serialize :: "tmmbr_field \<Rightarrow> nat \<Rightarrow> nat \<Rightarrow> BYTE list \<Rightarrow> (nat \<times> BYTE list) res" where
  "BitrateField_Serialize f at sz d =
     (if sz < 8 then Ok (0, d)
      else bindR (set4 d at (tf_ssrc f)) (\<lambda>d.
        bindR (copy_in (at + 4)
          [push_bit 2 (tf_exp f) OR ucast (drop_bit 15 (tf_mantissa f) AND 3), ucast (drop_bit 7 (tf_mantissa f)),
           ucast (push_bit 1 (tf_mantissa f)) OR ucast (drop_bit 8 (tf_overhead f) AND 1), ucast (tf_overhead f)] d) (\<lambda>d.
        Ok (8, d))))"

fun rtpfb_Serialize :: "rtpfb_field \<Rightarrow> nat \<Rightarrow> nat \<Rightarrow> BYTE list \<Rightarrow> (nat \<times> BYTE list) res" where
  "rtpfb_Serialize (NackF f) = NackField_Serialize f"
| "rtpfb_Serialize (BitrateF f) = BitrateField_Serialize f"

lemmas rtpfb_Serializes [simp] =
  NackField_Serialize_def BitrateField_Serialize_def

text \<open>\<open>mantissa<<exp\<close> with the least exponent for which the mantissa has at most 17 bits; the loop shifts up to 63 places.\<close>

definition find_exponent :: "DWORD \<Rightarrow> DWORD \<Rightarrow> BYTE" where
  "find_exponent m bitrate = (case filter (\<lambda>i. bitrate \<le> shl m i) [0..<64] of [] \<Rightarrow> 0 | i # _ \<Rightarrow> of_nat i)"

definition SetBitrate :: "DWORD \<Rightarrow> tmmbr_field \<Rightarrow> tmmbr_field" where
  "SetBitrate bitrate f =
     (let e = find_exponent 0x1FFFF bitrate in f\<lparr>tf_exp := e, tf_mantissa := shr bitrate (unat e)\<rparr>)"

definition BitrateField_new :: "DWORD \<Rightarrow> DWORD \<Rightarrow> WORD \<Rightarrow> tmmbr_field" where
  "BitrateField_new ssrc bitrate overhead =
     SetBitrate bitrate \<lparr>tf_ssrc = ssrc, tf_exp = 0, tf_mantissa = 0, tf_overhead = overhead\<rparr>"

definition GetBitrate :: "tmmbr_field \<Rightarrow> DWORD" where
  "GetBitrate f = shl (tf_mantissa f) (unat (tf_exp f))"

text \<open>The picture id is read behind the field, and the number of an intra request beside the place it is written to.\<close>

definition SliceLoss_Parse :: "BYTE list \<Rightarrow> nat \<Rightarrow> (nat \<times> psfb_field) option res" where
  "SliceLoss_Parse d sz =
     (if sz < 4 then Ok None
      else bindR (byte_at d 0) (\<lambda>b0. bindR (byte_at d 1) (\<lambda>b1. bindR (byte_at d 2) (\<lambda>b2. bindR (byte_at d 3) (\<lambda>b3.
        bindR (byte_at d 4) (\<lambda>b4.
        let first = push_bit 5 (ucast b0) OR ucast (drop_bit 3 b1) :: WORD;
            number = ucast (b1 AND 7) :: WORD;
            number = push_bit 8 number OR ucast b2;
            number = push_bit 2 number OR ucast (drop_bit 6 b3) in
        Ok (Some (4, SliceLossF first number (b4 AND 0x3F)))))))))"

definition PictureSelection_Parse :: "BYTE list \<Rightarrow> nat \<Rightarrow> (nat \<times> psfb_field) option res" where
  "PictureSelection_Parse d sz =
     (if sz < 2 then Ok None
      else bindR (byte_at d 0) (\<lambda>padding. bindR (byte_at d 1) (\<lambda>t.
        if sz < 2 + unat padding then Ok None
        else bindR (copy_out 2 (sz - unat padding - 2) d) (\<lambda>xs. Ok (Some (sz, PictureSelectionF padding t xs))))))"

definition IntraRequest_Parse :: "BYTE list \<Rightarrow> nat \<Rightarrow> (nat \<times> psfb_field) option res" where
  "IntraRequest_Parse d sz =
     (if sz < 8 then Ok None
      else bindR (get4 d 0) (\<lambda>ssrc. bindR (byte_at d 5) (\<lambda>seq. Ok (Some (8, IntraRequestF ssrc seq)))))"

definition TradeOff_Parse :: "BYTE list \<Rightarrow> nat \<Rightarrow> (nat \<times> psfb_field) option res" where
  "TradeOff_Parse d sz =
     (if sz < 8 then Ok None
      else bindR (get4 d 0) (\<lambda>ssrc. bindR (byte_at d 4) (\<lambda>seq. bindR (byte_at d 7) (\<lambda>index.
        Ok (Some (8, TradeOffF ssrc seq index))))))"

definition BackChannel_Parse :: "BYTE list \<Rightarrow> nat \<Rightarrow> (nat \<times> psfb_field) option res" where
  "BackChannel_Parse d sz =
     (if sz < 8 then Ok None
      else bindR (get4 d 0) (\<lambda>ssrc. bindR (byte_at d 4) (\<lambda>seq. bindR (byte_at d 5) (\<lambda>t. bindR (get2 d 6) (\<lambda>n.
        if sz < 8 + pad32 (unat n) then Ok None
        else bindR (copy_out 8 (unat n) d) (\<lambda>xs. Ok (Some (8 + pad32 (unat n), BackChannelF ssrc seq t xs))))))))"

text \<open>\<open>length\<close> is a \<open>WORD\<close>.\<close>

definition Application_Parse :: "BYTE list \<Rightarrow> nat \<Rightarrow> (nat \<times> psfb_field) option res" where
  "Application_Parse d sz =
     (if sz \<noteq> pad32 sz then Ok None
      else let n = unat (of_nat sz :: WORD) in
        bindR (copy_out 0 n d) (\<lambda>xs. Ok (Some (n, ApplicationF xs))))"

fun psfb_GetSize :: "psfb_field \<Rightarrow> nat" where
  "psfb_GetSize (SliceLossF _ _ _) = 4"
| "psfb_GetSize (PictureSelectionF padding _ xs) = 2 + length xs + unat padding"
| "psfb_GetSize (IntraRequestF _ _) = 8"
| "psfb_GetSize (TradeOffF _ _ _) = 8"
| "psfb_GetSize (BackChannelF _ _ _ xs) = 8 + length xs"
| "psfb_GetSize (ApplicationF xs) = pad32 (length xs)"

definition SliceLoss_Serialize :: "WORD \<Rightarrow> WORD \<Rightarrow> BYTE \<Rightarrow> nat \<Rightarrow> nat \<Rightarrow> BYTE list \<Rightarrow> (nat \<times> BYTE list) res" where
  "SliceLoss_Serialize first number pictureId at sz d =
     (if sz < 4 then Ok (0, d)
      else bindR (copy_in at
        [ucast (drop_bit 5 first), ucast (push_bit 3 first) OR ucast (drop_bit 10 number), ucast (drop_bit 2 number),
         ucast (push_bit 6 number) OR pictureId] d) (\<lambda>d. Ok (4, d)))"

definition PictureSelection_Serialize :: "BYTE \<Rightarrow> BYTE \<Rightarrow> BYTE list \<Rightarrow> nat \<Rightarrow> nat \<Rightarrow> BYTE list \<Rightarrow> (nat \<times> BYTE list) res" where
  "PictureSelection_Serialize padding t xs at sz d =
     (if sz < 2 + unat padding + length xs then Ok (0, d)
      else bindR (copy_in at [padding, t AND 0x7F] d) (\<lambda>d.
        bindR (set2 d (at + 6) (of_nat (length xs))) (\<lambda>d.
        bindR (copy_in (at + 2) xs d) (\<lambda>d.
        bindR (copy_in (at + 2 + length xs) (replicate (unat padding) 0) d) (\<lambda>d.
        Ok (2 + unat padding + length xs, d))))))"

definition IntraRequest_Serialize :: "DWORD \<Rightarrow> BYTE \<Rightarrow> nat \<Rightarrow> nat \<Rightarrow> BYTE list \<Rightarrow> (nat \<times> BYTE list) res" where
  "IntraRequest_Serialize ssrc seq at sz d =
     (if sz < 8 then Ok (0, d)
      else bindR (set4 d at ssrc) (\<lambda>d. bindR (copy_in (at + 4) [seq, 0, 0, 0] d) (\<lambda>d. Ok (8, d))))"

definition TradeOff_Serialize :: "DWORD \<Rightarrow> BYTE \<Rightarrow> BYTE \<Rightarrow> nat \<Rightarrow> nat \<Rightarrow> BYTE list \<Rightarrow> (nat \<times> BYTE list) res" where
  "TradeOff_Serialize ssrc seq index at sz d =
     (if sz < 8 then Ok (0, d)
      else bindR (set4 d at ssrc) (\<lambda>d. bindR (copy_in (at + 4) [seq, 0, 0, index] d) (\<lambda>d. Ok (8, d))))"

definition BackChannel_Serialize :: "DWORD \<Rightarrow> BYTE \<Rightarrow> BYTE \<Rightarrow> BYTE list \<Rightarrow> nat \<Rightarrow> nat \<Rightarrow> BYTE list \<Rightarrow> (nat \<times> BYTE list) res" where
  "BackChannel_Serialize ssrc seq t xs at sz d =
     (if sz < 8 + pad32 (length xs) then Ok (0, d)
      else bindR (set4 d at ssrc) (\<lambda>d.
        bindR (copy_in (at + 4) [seq, t AND 0x7F] d) (\<lambda>d.
        bindR (set2 d (at + 6) (of_nat (length xs))) (\<lambda>d.
        bindR (copy_in (at + 8) xs d) (\<lambda>d.
        bindR (copy_in (at + 8 + length xs) (replicate (pad32 (length xs) - length xs) 0) d) (\<lambda>d.
        Ok (8 + pad32 (length xs), d)))))))"

definition Application_Serialize :: "BYTE list \<Rightarrow> nat \<Rightarrow> nat \<Rightarrow> BYTE list \<Rightarrow> (nat \<times> BYTE list) res" where
  "Application_Serialize xs at sz d =
     (if sz < pad32 (length xs) then Ok (0, d)
      else bindR (copy_in at xs d) (\<lambda>d.
        bindR (copy_in (at + length xs) (replicate (pad32 (length xs) - length xs) 0) d) (\<lambda>d.
        Ok (pad32 (length xs), d))))"

fun psfb_Serialize :: "psfb_field \<Rightarrow> nat \<Rightarrow> nat \<Rightarrow> BYTE list \<Rightarrow> (nat \<times> BYTE list) res" where
  "psfb_Serialize (SliceLossF first number pictureId) = SliceLoss_Serialize first number pictureId"
| "psfb_Serialize (PictureSelectionF padding t xs) = PictureSelection_Serialize padding t xs"
| "psfb_Serialize (IntraRequestF ssrc seq) = IntraRequest_Serialize ssrc seq"
| "psfb_Serialize (TradeOffF ssrc seq index) = TradeOff_Serialize ssrc seq index"
| "psfb_Serialize (BackChannelF ssrc seq t xs) = BackChannel_Serialize ssrc seq t xs"
| "psfb_Serialize (ApplicationF xs) = Application_Serialize xs"

lemmas psfb_Serializes [simp] =
  SliceLoss_Serialize_def PictureSelection_Serialize_def IntraRequest_Serialize_def TradeOff_Serialize_def BackChannel_Serialize_def Application_Serialize_def

text \<open>\<open>CreateReceiverEstimatedMaxBitrate\<close>; the size of the payload is kept in a \<open>WORD\<close>, so is the memory for it.\<close>

definition CreateReceiverEstimatedMaxBitrate :: "DWORD list \<Rightarrow> DWORD \<Rightarrow> psfb_field res" where
  "CreateReceiverEstimatedMaxBitrate ssrcs bitrate =
     (let e = find_exponent 0x3FFFF bitrate; m = shr bitrate (unat e);
          n = unat (8 + 4 * of_nat (length ssrcs) :: WORD) in
      bindR (copy_in 0 [0x52, 0x45, 0x4D, 0x42, of_nat (length ssrcs),
        push_bit 2 e OR ucast (drop_bit 16 m AND 3), ucast (drop_bit 8 m), ucast m] (replicate n 0)) (\<lambda>d.
      bindR (put_words ssrcs 8 d) (\<lambda>d. Ok (ApplicationF d))))"

section \<open>The packets\<close>

text \<open>The string behind \<open>reason\<close> ends at its first zero.\<close>

definition c_string :: "BYTE list \<Rightarrow> BYTE list" where
  "c_string xs = takeWhile (\<lambda>b. b \<noteq> 0) xs"

fun rtcp_GetSize :: "rtcp \<Rightarrow> nat" where
  "rtcp_GetSize (SenderReport _ _ _ _ _ _ rs) = 4 + 24 + 24 * length rs"
| "rtcp_GetSize (ReceiverReport _ rs) = 4 + 4 + 24 * length rs"
| "rtcp_GetSize (SDES ds) = 4 + (\<Sum>s\<leftarrow>ds. Description_GetSize s)"
| "rtcp_GetSize (Bye ssrcs reason) =
     4 + 4 * length ssrcs + (case reason of Some r \<Rightarrow> length (c_string r) + 1 | None \<Rightarrow> 0)"
| "rtcp_GetSize (App _ _ _ xs) = 4 + 8 + length xs"
| "rtcp_GetSize (RTPFeedback _ _ _ fs) = 8 + 4 + (\<Sum>f\<leftarrow>fs. rtpfb_GetSize f)"
| "rtcp_GetSize (PayloadFeedback _ _ _ fs) = 8 + 4 + (\<Sum>f\<leftarrow>fs. psfb_GetSize f)"
| "rtcp_GetSize (FullIntraRequest _) = 4 + 4"
| "rtcp_GetSize (NACK _ _ _) = 4 + 8"
| "rtcp_GetSize (ExtendedJitterReport js) = 4 + 4 * length js"



text \<open>The number of blocks of a report is written, and counted, in the 5 bits of the header.\<close>

definition SenderReport_Serialize :: "DWORD \<Rightarrow> DWORD \<Rightarrow> DWORD \<Rightarrow> DWORD \<Rightarrow> DWORD \<Rightarrow> DWORD \<Rightarrow> rtcp_report list \<Rightarrow> nat \<Rightarrow> nat \<Rightarrow> BYTE list \<Rightarrow> (nat \<times> BYTE list) res" where
  "SenderReport_Serialize ssrc ntpSec ntpFrac rtpTimestamp packetsSent octectsSent rs at sz d =
     (let p = SenderReport ssrc ntpSec ntpFrac rtpTimestamp packetsSent octectsSent rs in
      if sz < rtcp_GetSize p then Ok (0, d)
      else bindR (put_header at (of_nat (length rs)) (rtcp_type p) (rtcp_GetSize p) d) (\<lambda>d.
        bindR (put_words [ssrc, ntpSec, ntpFrac, rtpTimestamp, packetsSent, octectsSent] (at + 4) d) (\<lambda>d.
        serialize_all Report_Serialize (take (length rs mod 32) rs) at 28 sz d)))"

definition ReceiverReport_Serialize :: "DWORD \<Rightarrow> rtcp_report list \<Rightarrow> nat \<Rightarrow> nat \<Rightarrow> BYTE list \<Rightarrow> (nat \<times> BYTE list) res" where
  "ReceiverReport_Serialize ssrc rs at sz d =
     (let p = ReceiverReport ssrc rs in
      if sz < rtcp_GetSize p then Ok (0, d)
      else bindR (put_header at (of_nat (length rs)) (rtcp_type p) (rtcp_GetSize p) d) (\<lambda>d.
        bindR (set4 d (at + 4) ssrc) (\<lambda>d.
        serialize_all Report_Serialize (take (length rs mod 32) rs) at 8 sz d)))"

definition SDES_Serialize :: "sdes_description list \<Rightarrow> nat \<Rightarrow> nat \<Rightarrow> BYTE list \<Rightarrow> (nat \<times> BYTE list) res" where
  "SDES_Serialize ds at sz d =
     (let p = SDES ds in
      if sz < rtcp_GetSize p then Ok (0, d)
      else bindR (put_header at (of_nat (length ds)) (rtcp_type p) (rtcp_GetSize p) d) (\<lambda>d.
        serialize_all Description_Serialize ds at 4 sz d))"

definition Bye_Serialize :: "DWORD list \<Rightarrow> BYTE list option \<Rightarrow> nat \<Rightarrow> nat \<Rightarrow> BYTE list \<Rightarrow> (nat \<times> BYTE list) res" where
  "Bye_Serialize ssrcs reason at sz d =
     (let p = Bye ssrcs reason; len = 4 + 4 * length ssrcs in
      if sz < rtcp_GetSize p then Ok (0, d)
      else bindR (put_header at (of_nat (length ssrcs)) (rtcp_type p) (rtcp_GetSize p) d) (\<lambda>d.
        bindR (put_words ssrcs (at + 4) d) (\<lambda>d.
        case reason of
          None \<Rightarrow> Ok (len, d)
        | Some r \<Rightarrow>
            bindR (set1 d (at + len) (of_nat (length (c_string r)))) (\<lambda>d.
            bindR (copy_in (at + len + 1) (c_string r) d) (\<lambda>d.
            Ok (len + length (c_string r) + 1, d))))))"

definition App_Serialize :: "BYTE \<Rightarrow> DWORD \<Rightarrow> BYTE list \<Rightarrow> BYTE list \<Rightarrow> nat \<Rightarrow> nat \<Rightarrow> BYTE list \<Rightarrow> (nat \<times> BYTE list) res" where
  "App_Serialize subtype ssrc name xs at sz d =
     (let p = App subtype ssrc name xs in
      if sz < rtcp_GetSize p then Ok (0, d)
      else bindR (put_header at subtype (rtcp_type p) (rtcp_GetSize p) d) (\<lambda>d.
        bindR (set4 d (at + 4) ssrc) (\<lambda>d.
        bindR (copy_in (at + 8) (take 4 name) d) (\<lambda>d.
        bindR (copy_in (at + 12) xs d) (\<lambda>d.
        Ok (12 + length xs, d))))))"

definition RTPFeedback_Serialize :: "BYTE \<Rightarrow> DWORD \<Rightarrow> DWORD \<Rightarrow> rtpfb_field list \<Rightarrow> nat \<Rightarrow> nat \<Rightarrow> BYTE list \<Rightarrow> (nat \<times> BYTE list) res" where
  "RTPFeedback_Serialize feedbackType senderSSRC mediaSSRC fs at sz d =
     (let p = RTPFeedback feedbackType senderSSRC mediaSSRC fs in
      if sz < rtcp_GetSize p then Ok (0, d)
      else bindR (put_header at feedbackType (rtcp_type p) (rtcp_GetSize p) d) (\<lambda>d.
        bindR (put_words [senderSSRC, mediaSSRC] (at + 4) d) (\<lambda>d.
        serialize_all rtpfb_Serialize fs at 12 sz d)))"

definition PayloadFeedback_Serialize :: "BYTE \<Rightarrow> DWORD \<Rightarrow> DWORD \<Rightarrow> psfb_field list \<Rightarrow> nat \<Rightarrow> nat \<Rightarrow> BYTE list \<Rightarrow> (nat \<times> BYTE list) res" where
  "PayloadFeedback_Serialize feedbackType senderSSRC mediaSSRC fs at sz d =
     (let p = PayloadFeedback feedbackType senderSSRC mediaSSRC fs in
      if sz < rtcp_GetSize p then Ok (0, d)
      else bindR (put_header at feedbackType (rtcp_type p) (rtcp_GetSize p) d) (\<lambda>d.
        bindR (put_words [senderSSRC, mediaSSRC] (at + 4) d) (\<lambda>d.
        serialize_all psfb_Serialize fs at 12 sz d)))"

definition FullIntraRequest_Serialize :: "DWORD \<Rightarrow> nat \<Rightarrow> nat \<Rightarrow> BYTE list \<Rightarrow> (nat \<times> BYTE list) res" where
  "FullIntraRequest_Serialize ssrc at sz d =
     (let p = FullIntraRequest ssrc in
      if sz < rtcp_GetSize p then Ok (0, d)
      else bindR (put_header at 0 (rtcp_type p) (rtcp_GetSize p) d) (\<lambda>d.
        bindR (set4 d (at + 4) ssrc) (\<lambda>d. Ok (8, d))))"

definition NACK_Serialize :: "DWORD \<Rightarrow> WORD \<Rightarrow> WORD \<Rightarrow> nat \<Rightarrow> nat \<Rightarrow> BYTE list \<Rightarrow> (nat \<times> BYTE list) res" where
  "NACK_Serialize ssrc fsn blp at sz d =
     (let p = NACK ssrc fsn blp in
      if sz < rtcp_GetSize p then Ok (0, d)
      else bindR (put_header at 0 (rtcp_type p) (rtcp_GetSize p) d) (\<lambda>d.
        bindR (set4 d (at + 4) ssrc) (\<lambda>d.
        bindR (set2 d (at + 8) (ucast fsn)) (\<lambda>d.
        bindR (set2 d (at + 10) (ucast blp)) (\<lambda>d. Ok (12, d))))))"

definition ExtendedJitterReport_Serialize :: "DWORD list \<Rightarrow> nat \<Rightarrow> nat \<Rightarrow> BYTE list \<Rightarrow> (nat \<times> BYTE list) res" where
  "ExtendedJitterReport_Serialize js at sz d =
     (let p = ExtendedJitterReport js in
      if sz < rtcp_GetSize p then Ok (0, d)
      else bindR (put_header at (of_nat (length js)) (rtcp_type p) (rtcp_GetSize p) d) (\<lambda>d.
        bindR (put_words js (at + 4) d) (\<lambda>d. Ok (4 + 4 * length js, d))))"

fun rtcp_Serialize :: "rtcp \<Rightarrow> nat \<Rightarrow> nat \<Rightarrow> BYTE list \<Rightarrow> (nat \<times> BYTE list) res" where
  "rtcp_Serialize (SenderReport ssrc ntpSec ntpFrac rtpTimestamp packetsSent octectsSent rs) = SenderReport_Serialize ssrc ntpSec ntpFrac rtpTimestamp packetsSent octectsSent rs"
| "rtcp_Serialize (ReceiverReport ssrc rs) = ReceiverReport_Serialize ssrc rs"
| "rtcp_Serialize (SDES ds) = SDES_Serialize ds"
| "rtcp_Serialize (Bye ssrcs reason) = Bye_Serialize ssrcs reason"
| "rtcp_Serialize (App subtype ssrc name xs) = App_Serialize subtype ssrc name xs"
| "rtcp_Serialize (RTPFeedback feedbackType senderSSRC mediaSSRC fs) = RTPFeedback_Serialize feedbackType senderSSRC mediaSSRC fs"
| "rtcp_Serialize (PayloadFeedback feedbackType senderSSRC mediaSSRC fs) = PayloadFeedback_Serialize feedbackType senderSSRC mediaSSRC fs"
| "rtcp_Serialize (FullIntraRequest ssrc) = FullIntraRequest_Serialize ssrc"
| "rtcp_Serialize (NACK ssrc fsn blp) = NACK_Serialize ssrc fsn blp"
| "rtcp_Serialize (ExtendedJitterReport js) = ExtendedJitterReport_Serialize js"

lemmas rtcp_Serializes [simp] =
  SenderReport_Serialize_def ReceiverReport_Serialize_def SDES_Serialize_def Bye_Serialize_def App_Serialize_def RTPFeedback_Serialize_def PayloadFeedback_Serialize_def FullIntraRequest_Serialize_def NACK_Serialize_def ExtendedJitterReport_Serialize_def

text \<open>The loop over the fields of a feedback packet, for the \<open>Parse\<close> of its type.\<close>

function parse_fields ::
  "(BYTE list \<Rightarrow> nat \<Rightarrow> (nat \<times> 'f) option res) \<Rightarrow> nat \<Rightarrow> nat \<Rightarrow> BYTE list \<Rightarrow> 'f list option res"
where
  "parse_fields parse len packetSize d =
     (if len < packetSize then
        bindR (parse (drop len d) (packetSize - len)) (\<lambda>r.
        case r of
          None \<Rightarrow> Ok None
        | Some (n, f) \<Rightarrow>
            if n = 0 then Ok None
            else bindR (parse_fields parse (len + n) packetSize d) (\<lambda>fs. Ok (map_option ((#) f) fs)))
      else Ok (Some []))"
  by pat_completeness auto

termination by (relation "measure (\<lambda>(_, len, packetSize, _). packetSize - len)") auto

declare parse_fields.simps [simp del]

definition rtpfb_Parse :: "BYTE \<Rightarrow> BYTE list \<Rightarrow> nat \<Rightarrow> (nat \<times> rtpfb_field) option res" where
  "rtpfb_Parse feedbackType d sz =
     (if feedbackType = 1 then NackField_Parse d sz
      else if feedbackType = 3 \<or> feedbackType = 4 then BitrateField_Parse d sz
      else Ok None)"

definition psfb_Parse :: "BYTE \<Rightarrow> BYTE list \<Rightarrow> nat \<Rightarrow> (nat \<times> psfb_field) option res" where
  "psfb_Parse feedbackType d sz =
     (if feedbackType = 2 then SliceLoss_Parse d sz
      else if feedbackType = 3 then PictureSelection_Parse d sz
      else if feedbackType = 4 then IntraRequest_Parse d sz
      else if feedbackType = 5 \<or> feedbackType = 6 then TradeOff_Parse d sz
      else if feedbackType = 7 then BackChannel_Parse d sz
      else if feedbackType = 15 then Application_Parse d sz
      else Ok None)"

definition SenderReport_Parse :: "BYTE list \<Rightarrow> nat \<Rightarrow> rtcp option res" where
  "SenderReport_Parse d sz =
     bindR (GetRTCPHeaderLength d) (\<lambda>packetSize. bindR (header_count d) (\<lambda>count.
     if sz < packetSize then Ok None
     else bindR (get_words 6 4 d) (\<lambda>v. bindR (parse_reports count 28 sz d) (\<lambda>(_, rs).
       Ok (Some (SenderReport (v ! 0) (v ! 1) (v ! 2) (v ! 3) (v ! 4) (v ! 5) rs))))))"

definition ReceiverReport_Parse :: "BYTE list \<Rightarrow> nat \<Rightarrow> rtcp option res" where
  "ReceiverReport_Parse d sz =
     bindR (GetRTCPHeaderLength d) (\<lambda>packetSize. bindR (header_count d) (\<lambda>count.
     if sz < packetSize then Ok None
     else bindR (get4 d 4) (\<lambda>ssrc. bindR (parse_reports count 8 sz d) (\<lambda>(_, rs).
       Ok (Some (ReceiverReport ssrc rs))))))"

text \<open>The index \<open>i\<close> of the loop is never counted up: it goes on to the end of the packet if there is to be any description.\<close>

function parse_descriptions :: "nat \<Rightarrow> nat \<Rightarrow> nat \<Rightarrow> BYTE list \<Rightarrow> sdes_description list option res" where
  "parse_descriptions count len sz d =
     (if sz > len \<and> 0 < count then
        bindR (Description_Parse (drop len d) (sz - len)) (\<lambda>r.
        case r of
          None \<Rightarrow> Ok None
        | Some (n, s) \<Rightarrow>
            if n = 0 then Ok None
            else bindR (parse_descriptions count (len + n) sz d) (\<lambda>ds. Ok (map_option ((#) s) ds)))
      else Ok (Some []))"
  by pat_completeness auto

termination by (relation "measure (\<lambda>(_, len, sz, _). sz - len)") auto

declare parse_descriptions.simps [simp del]

definition SDES_Parse :: "BYTE list \<Rightarrow> nat \<Rightarrow> rtcp option res" where
  "SDES_Parse d sz =
     bindR (GetRTCPHeaderLength d) (\<lambda>packetSize. bindR (header_count d) (\<lambda>count.
     if sz < packetSize then Ok None
     else bindR (parse_descriptions count 4 sz d) (\<lambda>ds. Ok (map_option SDES ds))))"

definition Bye_Parse :: "BYTE list \<Rightarrow> nat \<Rightarrow> rtcp option res" where
  "Bye_Parse d sz =
     bindR (GetRTCPHeaderLength d) (\<lambda>packetSize. bindR (header_count d) (\<lambda>count.
     if sz < packetSize then Ok None
     else bindR (get_words count 4 d) (\<lambda>ssrcs.
       let len = 4 + 4 * count in
       if packetSize > len then
         bindR (byte_at d len) (\<lambda>n. bindR (copy_out (len + 1) (unat n) d) (\<lambda>xs. Ok (Some (Bye ssrcs (Some xs)))))
       else Ok (Some (Bye ssrcs None)))))"

text \<open>The size of the data is \<open>packetSize-len\<close> in 32 bits.\<close>

definition App_Parse :: "BYTE list \<Rightarrow> nat \<Rightarrow> rtcp option res" where
  "App_Parse d sz =
     bindR (GetRTCPHeaderLength d) (\<lambda>packetSize. bindR (header_count d) (\<lambda>subtype.
     if sz < packetSize then Ok None
     else bindR (get4 d 4) (\<lambda>ssrc. bindR (copy_out 8 4 d) (\<lambda>name.
       bindR (copy_out 12 (unat (of_nat packetSize - 12 :: DWORD)) d) (\<lambda>xs.
       Ok (Some (App (of_nat subtype) ssrc name xs)))))))"

definition RTPFeedback_Parse :: "BYTE list \<Rightarrow> nat \<Rightarrow> rtcp option res" where
  "RTPFeedback_Parse d sz =
     bindR (GetRTCPHeaderLength d) (\<lambda>packetSize. bindR (header_count d) (\<lambda>count.
     if sz < packetSize then Ok None
     else bindR (get_words 2 4 d) (\<lambda>v. bindR (parse_fields (rtpfb_Parse (of_nat count)) 12 packetSize d) (\<lambda>fs.
       Ok (map_option (RTPFeedback (of_nat count) (v ! 0) (v ! 1)) fs)))))"

definition PayloadFeedback_Parse :: "BYTE list \<Rightarrow> nat \<Rightarrow> rtcp option res" where
  "PayloadFeedback_Parse d sz =
     bindR (GetRTCPHeaderLength d) (\<lambda>packetSize. bindR (header_count d) (\<lambda>count.
     if sz < packetSize then Ok None
     else bindR (get_words 2 4 d) (\<lambda>v. bindR (parse_fields (psfb_Parse (of_nat count)) 12 packetSize d) (\<lambda>fs.
       Ok (map_option (PayloadFeedback (of_nat count) (v ! 0) (v ! 1)) fs)))))"

definition FullIntraRequest_Parse :: "BYTE list \<Rightarrow> nat \<Rightarrow> rtcp option res" where
  "FullIntraRequest_Parse d sz =
     bindR (GetRTCPHeaderLength d) (\<lambda>packetSize.
     if sz < packetSize then Ok None else bindR (get4 d 4) (\<lambda>ssrc. Ok (Some (FullIntraRequest ssrc))))"

text \<open>\<open>blp\<close> is read from inside the SSRC.\<close>

definition NACK_Parse :: "BYTE list \<Rightarrow> nat \<Rightarrow> rtcp option res" where
  "NACK_Parse d sz =
     bindR (GetRTCPHeaderLength d) (\<lambda>packetSize.
     if sz < packetSize then Ok None
     else bindR (get4 d 4) (\<lambda>ssrc. bindR (get2 d 8) (\<lambda>fsn. bindR (get2 d 6) (\<lambda>blp.
       Ok (Some (NACK ssrc (ucast fsn) (ucast blp)))))))"

definition ExtendedJitterReport_Parse :: "BYTE list \<Rightarrow> nat \<Rightarrow> rtcp option res" where
  "ExtendedJitterReport_Parse d sz =
     bindR (GetRTCPHeaderLength d) (\<lambda>packetSize. bindR (header_count d) (\<lambda>count.
     if sz < packetSize then Ok None
     else bindR (get_words count 4 d) (\<lambda>js. Ok (Some (ExtendedJitterReport js)))))"

section \<open>Compound packets\<close>

definition IsRTCP :: "BYTE list \<Rightarrow> nat \<Rightarrow> bool res" where
  "IsRTCP d sz =
     (if sz < 4 then Ok False
      else bindR (byte_at d 0) (\<lambda>b. bindR (byte_at d 1) (\<lambda>pt.
        Ok (get_bits 6 2 b = 2 \<and> 200 \<le> pt \<and> pt \<le> 206))))"

text \<open>\<open>packet->Parse(buffer,len)\<close>, for the class that the type stands for.\<close>

definition parse_packet :: "BYTE \<Rightarrow> BYTE list \<Rightarrow> nat \<Rightarrow> rtcp option res" where
  "parse_packet pt d len =
     (if pt = 200 then SenderReport_Parse d len
      else if pt = 201 then ReceiverReport_Parse d len
      else if pt = 202 then SDES_Parse d len
      else if pt = 203 then Bye_Parse d len
      else if pt = 204 then App_Parse d len
      else if pt = 205 then RTPFeedback_Parse d len
      else if pt = 206 then PayloadFeedback_Parse d len
      else if pt = 192 then FullIntraRequest_Parse d len
      else if pt = 193 then NACK_Parse d len
      else if pt = 195 then ExtendedJitterReport_Parse d len
      else Ok None)"

lemma GetRTCPHeaderLength_pos: "GetRTCPHeaderLength d = Ok n \<Longrightarrow> 4 \<le> n"
  by (auto simp: GetRTCPHeaderLength_def)

function parse_compound :: "BYTE list \<Rightarrow> nat \<Rightarrow> rtcp list option res" where
  "parse_compound d n =
     (if n = 0 then Ok (Some [])
      else bindR (byte_at d 1) (\<lambda>pt. bindR (GetRTCPHeaderLength d) (\<lambda>len.
        if len > n then Ok None
        else bindR (parse_packet pt d len) (\<lambda>p.
          bindR (parse_compound (drop len d) (n - len)) (\<lambda>ps.
          Ok (map_option (\<lambda>ps. (case p of Some q \<Rightarrow> q # ps | None \<Rightarrow> ps)) ps))))))"
  by pat_completeness auto

termination by (relation "measure snd") (auto dest: GetRTCPHeaderLength_pos)

declare parse_compound.simps [simp del]

definition Compound_Parse :: "BYTE list \<Rightarrow> nat \<Rightarrow> rtcp list option res" where
  "Compound_Parse d sz = bindR (IsRTCP d sz) (\<lambda>ok. if ok then parse_compound d sz else Ok None)"

text \<open>The size is that of the last packet only.\<close>

definition Compound_GetSize :: "rtcp list \<Rightarrow> nat" where
  "Compound_GetSize ps = (case ps of [] \<Rightarrow> 0 | _ \<Rightarrow> 4 + rtcp_GetSize (List.last ps))"

definition Compound_Serialize :: "rtcp list \<Rightarrow> nat \<Rightarrow> BYTE list \<Rightarrow> (nat \<times> BYTE list) res" where
  "Compound_Serialize ps sz d =
     (if sz < Compound_GetSize ps then Ok (0, d) else serialize_all rtcp_Serialize ps 0 0 sz d)"


end
