(* ===== verification/RTCPProperties.thy ===== *)
theory RTCPProperties
  imports RTCP
begin

unbundle bit_operations_syntax

text \<open>
  What RTCP packets look like on the wire, that \<open>Serialize\<close> writes it and \<open>Parse\<close> reads it, for every packet that the two
  agree on; and what they make of the others.
\<close>

section \<open>Writing\<close>

definition be2 :: "DWORD \<Rightarrow> BYTE list" where
  "be2 v = [ucast (drop_bit 8 v), ucast v]"

definition be4 :: "DWORD \<Rightarrow> BYTE list" where
  "be4 v = [ucast (drop_bit 24 v), ucast (drop_bit 16 v), ucast (drop_bit 8 v), ucast v]"

lemma length_be [simp]: "length (be2 v) = 2" "length (be4 v) = 4"
  by (simp_all add: be2_def be4_def)

definition put_at :: "nat \<Rightarrow> 'a list \<Rightarrow> 'a list \<Rightarrow> 'a list" where
  "put_at i xs d = take i d @ xs @ drop (i + length xs) d"

lemma length_put_at [simp]: "i + length xs \<le> length d \<Longrightarrow> length (put_at i xs d) = length d"
  by (simp add: put_at_def)

lemma put_at_put_at: "i + length xs \<le> length d \<Longrightarrow> put_at (i + length xs) ys (put_at i xs d) = put_at i (xs @ ys) d"
  by (simp add: put_at_def ac_simps)

lemma put_at_Nil: "put_at i [] d = d"
  by (simp add: put_at_def)

lemma put_next: "i + length xs \<le> length d \<Longrightarrow> j = i + length xs \<Longrightarrow> put_at j ys (put_at i xs d) = put_at i (xs @ ys) d"
  by (simp add: put_at_put_at)

lemma writes_bytes:
  "i + length xs \<le> length d \<Longrightarrow> copy_in i xs d = Ok (put_at i xs d)"
  "i + 1 \<le> length d \<Longrightarrow> set1 d i b = Ok (put_at i [b] d)"
  "i + 2 \<le> length d \<Longrightarrow> set2 d i v = Ok (put_at i (be2 v) d)"
  "i + 4 \<le> length d \<Longrightarrow> set4 d i v = Ok (put_at i (be4 v) d)"
  by (simp_all add: copy_in_def put_at_def set_bits_result be2_def be4_def eval_nat_numeral)

definition enc_header :: "BYTE \<Rightarrow> BYTE \<Rightarrow> nat \<Rightarrow> BYTE list" where
  "enc_header count pt n = [0x80 OR take_bit 5 count, pt] @ be2 (of_nat (n div 4 - 1))"

lemma length_enc_header [simp]: "length (enc_header count pt n) = 4"
  by (simp add: enc_header_def)

lemma put_header_writes: "at + 4 \<le> length d \<Longrightarrow> put_header at count pt n d = Ok (put_at at (enc_header count pt n) d)"
  by (simp add: put_header_def writes_bytes put_next enc_header_def)

text \<open>\<open>x\<close> is written as \<open>enc x\<close>, wherever there is room.\<close>

definition writes :: "('a \<Rightarrow> nat \<Rightarrow> nat \<Rightarrow> BYTE list \<Rightarrow> (nat \<times> BYTE list) res) \<Rightarrow> ('a \<Rightarrow> BYTE list) \<Rightarrow> 'a \<Rightarrow> bool" where
  "writes ser enc x \<longleftrightarrow>
     (\<forall>at sz d. length (enc x) \<le> sz \<longrightarrow> at + length (enc x) \<le> length d \<longrightarrow>
        ser x at sz d = Ok (length (enc x), put_at at (enc x) d))"

lemma writesD:
  "writes ser enc x \<Longrightarrow> length (enc x) \<le> sz \<Longrightarrow> at + length (enc x) \<le> length d \<Longrightarrow>
     ser x at sz d = Ok (length (enc x), put_at at (enc x) d)"
  by (simp add: writes_def)

definition enc_all :: "('a \<Rightarrow> BYTE list) \<Rightarrow> 'a list \<Rightarrow> BYTE list" where
  "enc_all enc xs = concat (map enc xs)"

lemma enc_all_simps [simp]: "enc_all enc [] = []" "enc_all enc (x # xs) = enc x @ enc_all enc xs"
  by (simp_all add: enc_all_def)

lemma length_enc_all: "\<forall>x \<in> set xs. length (enc x) = f x \<Longrightarrow> length (enc_all enc xs) = (\<Sum>x\<leftarrow>xs. f x)"
  by (induction xs) simp_all

lemma serialize_all_writes:
  "\<forall>x \<in> set xs. writes ser enc x \<Longrightarrow> len + length (enc_all enc xs) \<le> sz \<Longrightarrow> at + len + length (enc_all enc xs) \<le> length d \<Longrightarrow>
     serialize_all ser xs at len sz d = Ok (len + length (enc_all enc xs), put_at (at + len) (enc_all enc xs) d)"
proof (induction xs arbitrary: len d)
  case (Cons x xs)
  then have "ser x (at + len) (sz - len) d = Ok (length (enc x), put_at (at + len) (enc x) d)"
    by (intro writesD) auto
  with Cons.IH [of "len + length (enc x)" "put_at (at + len) (enc x) d"] Cons.prems show ?case
    by (simp add: put_next add.assoc [symmetric])
qed (simp add: put_at_Nil)

lemma put_words_writes:
  "i + 4 * length vs \<le> length d \<Longrightarrow> put_words vs i d = Ok (put_at i (enc_all be4 vs) d)"
  by (induction vs arbitrary: i d) (simp_all add: put_at_Nil writes_bytes put_next)

lemma length_words [simp]: "length (enc_all be4 vs) = 4 * length vs"
  by (induction vs) simp_all

section \<open>Reading\<close>

lemma byte_at_drop: "byte_at (drop i d) k = byte_at d (i + k)"
  by (auto simp: byte_at_def)

lemma get_drop: "get2 (drop i d) k = get2 d (i + k)" "get4 (drop i d) k = get4 d (i + k)"
  by (simp_all add: get2_def get4_def byte_at_drop add.assoc)

lemma byte_at_append: "length xs = i \<Longrightarrow> byte_at (xs @ ys) (i + k) = byte_at ys k"
  using byte_at_drop [of i "xs @ ys" k] by simp

lemma get_be: "get2 (be2 v @ rest) 0 = Ok (take_bit 16 v)" "get4 (be4 v @ rest) 0 = Ok v"
  by (simp_all add: be2_def be4_def get_bits_result word16_bytes word32_bytes)

lemma get4_at: "drop i d = be4 v @ rest \<Longrightarrow> get4 d i = Ok v"
  using get_drop(2) [of i d 0] by (simp add: get_be)

lemma get2_at: "drop i d = be2 v @ rest \<Longrightarrow> get2 d i = Ok (take_bit 16 v)"
  using get_drop(1) [of i d 0] by (simp add: get_be)

lemma byte_at_at: "drop i d = b # rest \<Longrightarrow> byte_at d i = Ok b"
  using byte_at_drop [of i d 0] by simp

lemma copy_out_at: "drop i d = xs @ rest \<Longrightarrow> i \<le> length d \<Longrightarrow> copy_out i (length xs) d = Ok xs"
proof -
  assume d: "drop i d = xs @ rest" and i: "i \<le> length d"
  then have "length d - i = length xs + length rest" by (metis length_append length_drop)
  with d i show ?thesis by (simp add: copy_out_def)
qed

lemma get_words_at: "drop i d = enc_all be4 vs @ rest \<Longrightarrow> get_words (length vs) i d = Ok vs"
proof (induction vs arbitrary: i)
  case (Cons v vs)
  then have d: "drop i d = be4 v @ enc_all be4 vs @ rest" by simp
  with drop_past [OF d] Cons.IH [of "i + 4"] get4_at [OF d] show ?case by simp
qed simp

text \<open>\<open>x\<close> is read from \<open>enc x\<close>, whatever comes behind it.\<close>

definition reads :: "(BYTE list \<Rightarrow> nat \<Rightarrow> (nat \<times> 'a) option res) \<Rightarrow> ('a \<Rightarrow> BYTE list) \<Rightarrow> 'a \<Rightarrow> bool" where
  "reads parse enc x \<longleftrightarrow>
     enc x \<noteq> [] \<and> (\<forall>n rest. length (enc x) \<le> n \<longrightarrow> parse (enc x @ rest) n = Ok (Some (length (enc x), x)))"

lemma parse_fields_reads:
  "\<forall>x \<in> set xs. reads parse enc x \<Longrightarrow> drop len d = enc_all enc xs @ rest \<Longrightarrow> n = len + length (enc_all enc xs) \<Longrightarrow>
     parse_fields parse len n d = Ok (Some xs)"
proof (induction xs arbitrary: len)
  case (Cons x xs)
  from Cons.prems(2) have d: "drop len d = enc x @ enc_all enc xs @ rest" by simp
  from Cons.prems(1) have x: "enc x \<noteq> []"
    "parse (enc x @ enc_all enc xs @ rest) (n - len) = Ok (Some (length (enc x), x))"
    using Cons.prems(3) by (auto simp: reads_def)
  from Cons.IH [OF _ drop_past [OF d]] Cons.prems(1,3) x show ?case
    by (subst parse_fields.simps) (simp add: d)
qed (simp add: parse_fields.simps)


section \<open>Report blocks\<close>

definition report_ok :: "rtcp_report \<Rightarrow> bool" where
  "report_ok r \<longleftrightarrow> length (rc_buffer r) = 24"

lemma Report_writes: "report_ok r \<Longrightarrow> writes Report_Serialize rc_buffer r"
  by (simp add: writes_def report_ok_def Report_Serialize_def writes_bytes)

lemma parse_reports_reads:
  "list_all report_ok rs \<Longrightarrow> drop len d = enc_all rc_buffer rs @ rest \<Longrightarrow> sz = len + 24 * length rs \<Longrightarrow>
     parse_reports (length rs) len sz d = Ok (sz, rs)"
proof (induction rs arbitrary: len)
  case (Cons r rs)
  from Cons.prems(1,2) have r: "length (rc_buffer r) = 24" and d: "drop len d = rc_buffer r @ enc_all rc_buffer rs @ rest"
    by (simp_all add: report_ok_def)
  have "Report_Parse (drop len d) (sz - len) = Ok (Some (24, r))"
    using Cons.prems(3) r d copy_out_at [of 0 "drop len d" "rc_buffer r"] by (simp add: Report_Parse_def)
  with Cons.IH [OF _ drop_past [OF d]] Cons.prems(1,3) r show ?case by simp
qed simp

section \<open>Source descriptions\<close>

definition item_ok :: "sdes_item \<Rightarrow> bool" where
  "item_ok i \<longleftrightarrow> it_type i \<noteq> 0 \<and> length (it_data i) = unat (it_size i)"

definition enc_item :: "sdes_item \<Rightarrow> BYTE list" where
  "enc_item i = it_type i # it_size i # it_data i"

definition enc_description :: "sdes_description \<Rightarrow> BYTE list" where
  "enc_description s =
     (let xs = be4 (de_ssrc s) @ enc_all enc_item (de_items s) @ [0] in xs @ replicate (pad32 (length xs) - length xs) 0)"

definition description_ok :: "sdes_description \<Rightarrow> bool" where
  "description_ok s \<longleftrightarrow> list_all item_ok (de_items s)"

lemma pad32_ge: "n \<le> pad32 n"
  using mod_less_divisor [of 4 n] by (simp add: pad32_def) linarith

lemma pad32_mod [simp]: "pad32 n mod 4 = 0"
proof -
  have "4 dvd n - n mod 4 + 4" by (intro dvd_add dvd_minus_mod) simp
  then show ?thesis unfolding pad32_def by (simp del: add_diff_assoc2 diff_add_assoc2)
qed

lemma length_enc_item: "item_ok i \<Longrightarrow> length (enc_item i) = unat (it_size i) + 2"
  by (simp add: enc_item_def item_ok_def)

lemma length_enc_items:
  "list_all item_ok is \<Longrightarrow> length (enc_all enc_item is) = (\<Sum>i\<leftarrow>is. unat (it_size i) + 2)"
  by (rule length_enc_all) (simp add: list_all_iff length_enc_item)

lemma length_enc_description: "description_ok s \<Longrightarrow> length (enc_description s) = Description_GetSize s"
  using pad32_ge [of "Suc (4 + length (enc_all enc_item (de_items s)))"]
  by (simp add: enc_description_def description_ok_def Description_GetSize_def length_enc_items Let_def)

lemma put_items_writes:
  "list_all item_ok is \<Longrightarrow> at + len + length (enc_all enc_item is) \<le> length d \<Longrightarrow>
     put_items is at len d = Ok (len + length (enc_all enc_item is), put_at (at + len) (enc_all enc_item is) d)"
proof (induction "is" arbitrary: len d)
  case (Cons i "is")
  from Cons.prems have n: "length (it_data i) = unat (it_size i)" "at + len + 2 + unat (it_size i) + length (enc_all enc_item is) \<le> length d"
    by (simp_all add: length_enc_item) (simp add: item_ok_def)
  have c: "copy_out 0 (unat (it_size i)) (it_data i) = Ok (it_data i)" using n(1) by (simp add: copy_out_def)
  have e: "enc_item i = [it_type i] @ [it_size i] @ it_data i" by (simp add: enc_item_def)
  from Cons.IH [of "len + 2 + unat (it_size i)" "put_at (at + len) (enc_item i) d"] Cons.prems(1) n show ?case
    by (simp add: c writes_bytes put_next e add.assoc [symmetric] del: append.append_Cons)
qed (simp add: put_at_Nil)

lemma Description_writes: "description_ok s \<Longrightarrow> writes Description_Serialize enc_description s"
proof (unfold writes_def, intro allI impI)
  fix at sz :: nat and d :: "BYTE list"
  assume s: "description_ok s" and sz: "length (enc_description s) \<le> sz" and d: "at + length (enc_description s) \<le> length d"
  let ?items = "enc_all enc_item (de_items s)"
  let ?n = "4 + length ?items + 1"
  have e: "enc_description s = ((be4 (de_ssrc s) @ ?items) @ [0]) @ replicate (pad32 ?n - ?n) 0"
    by (simp add: enc_description_def Let_def)
  then have len: "length (enc_description s) = pad32 ?n" using pad32_ge [of ?n] by simp
  have "at + ?n \<le> length d" "at + ?n + (pad32 ?n - ?n) \<le> length d" using d pad32_ge [of ?n] unfolding len by auto
  moreover have "Description_GetSize s = pad32 ?n" using length_enc_description [OF s] len by simp
  ultimately show "Description_Serialize s at sz d = Ok (length (enc_description s), put_at at (enc_description s) d)"
    using s sz unfolding len
    by (simp add: Description_Serialize_def writes_bytes put_items_writes description_ok_def put_next e add.assoc [symmetric]
      del: append_assoc)
qed



lemma Item_new_ok: "item_ok i \<Longrightarrow> Item_new (it_type i) (it_data i) = i"
  by (simp add: Item_new_def item_ok_def)

lemma get_items_reads:
  "list_all item_ok is \<Longrightarrow> drop len d = enc_all enc_item is @ 0 # rest \<Longrightarrow> len + length (enc_all enc_item is) < sz \<Longrightarrow>
     get_items len sz d = Ok (Some (len + length (enc_all enc_item is), is))"
proof (induction "is" arbitrary: len)
  case Nil
  with byte_at_at [of len d 0 rest] show ?case by (simp add: get_items.simps [of len])
next
  case (Cons i "is")
  let ?n = "unat (it_size i)"
  from Cons.prems(1) have i: "it_type i \<noteq> 0" "length (it_data i) = ?n" by (simp_all add: item_ok_def)
  from Cons.prems(2) have d: "drop len d = it_type i # it_size i # it_data i @ enc_all enc_item is @ 0 # rest"
    by (simp add: enc_item_def [of i])
  then have d1: "drop (len + 1) d = it_size i # it_data i @ enc_all enc_item is @ 0 # rest"
    using drop_past [of len d "[it_type i]"] by simp
  then have d2: "drop (len + 2) d = it_data i @ enc_all enc_item is @ 0 # rest"
    using drop_past [of "len + 1" d "[it_size i]"] by simp
  then have le: "len + 2 \<le> length d" using d1 by (cases "len + 2 \<le> length d") auto
  have n: "len + ?n + 2 + length (enc_all enc_item is) < sz" using Cons.prems(1,3) by (simp add: length_enc_item)
  have "drop (len + ?n + 2) d = enc_all enc_item is @ 0 # rest" using drop_past [OF d2] i(2) by (simp add: ac_simps)
  from Cons.IH [OF _ this n] Cons.prems(1) n i byte_at_at [OF d] byte_at_at [OF d1] copy_out_at [OF d2 le] show ?case
    by (simp add: get_items.simps [of len] Item_new_ok length_enc_item)
qed

lemma Description_reads: "description_ok s \<Longrightarrow> reads Description_Parse enc_description s"
proof (unfold reads_def, intro conjI allI impI)
  assume s: "description_ok s"
  let ?items = "enc_all enc_item (de_items s)"
  let ?n = "4 + length ?items + 1"
  have e: "enc_description s = be4 (de_ssrc s) @ ?items @ 0 # replicate (pad32 ?n - ?n) 0"
    by (simp add: enc_description_def Let_def)
  then have len: "length (enc_description s) = pad32 ?n" using pad32_ge [of ?n] by simp
  show "enc_description s \<noteq> []" unfolding e by (simp add: be4_def)
  fix n :: nat and rest
  assume n: "length (enc_description s) \<le> n"
  let ?d = "enc_description s @ rest"
  have "drop 4 ?d = ?items @ 0 # replicate (pad32 ?n - ?n) 0 @ rest" unfolding e by simp
  moreover have "4 + length ?items < n" using n pad32_ge [of ?n] len by simp
  ultimately have "get_items 4 n ?d = Ok (Some (4 + length ?items, de_items s))"
    using s by (intro get_items_reads) (auto simp: description_ok_def)
  moreover have "get4 ?d 0 = Ok (de_ssrc s)" unfolding e by (simp add: get_be)
  moreover have "\<not> n < 4" using \<open>4 + length ?items < n\<close> by simp
  ultimately show "Description_Parse ?d n = Ok (Some (length (enc_description s), s))"
    using len by (simp add: Description_Parse_def)
qed

lemma parse_descriptions_reads:
  "list_all description_ok ds \<Longrightarrow> drop len d = enc_all enc_description ds @ rest \<Longrightarrow>
     sz = len + length (enc_all enc_description ds) \<Longrightarrow> (ds \<noteq> [] \<Longrightarrow> 0 < count) \<Longrightarrow>
     parse_descriptions count len sz d = Ok (Some ds)"
proof (induction ds arbitrary: len)
  case (Cons s ds)
  from Cons.prems(2) have d: "drop len d = enc_description s @ enc_all enc_description ds @ rest" by simp
  from Cons.prems(1) Description_reads have s: "enc_description s \<noteq> []"
    "Description_Parse (drop len d) (sz - len) = Ok (Some (length (enc_description s), s))"
    using Cons.prems(3) by (auto simp: reads_def d)
  from Cons.IH [OF _ drop_past [OF d]] Cons.prems s show ?case
    by (subst parse_descriptions.simps) simp
qed (simp add: parse_descriptions.simps)

section \<open>Feedback\<close>

definition enc_nack :: "nack_field \<Rightarrow> BYTE list" where
  "enc_nack f = be2 (ucast (nf_pid f)) @ be2 (ucast (nf_blp f))"

definition enc_bitrate :: "tmmbr_field \<Rightarrow> BYTE list" where
  "enc_bitrate f = be4 (tf_ssrc f) @
     [push_bit 2 (tf_exp f) OR ucast (drop_bit 15 (tf_mantissa f) AND 3), ucast (drop_bit 7 (tf_mantissa f)),
      ucast (push_bit 1 (tf_mantissa f)) OR ucast (drop_bit 8 (tf_overhead f) AND 1), ucast (tf_overhead f)]"

fun enc_rtpfb :: "rtpfb_field \<Rightarrow> BYTE list" where
  "enc_rtpfb (NackF f) = enc_nack f"
| "enc_rtpfb (BitrateF f) = enc_bitrate f"

text \<open>The fields are within the bits they have.\<close>

definition bitrate_ok :: "tmmbr_field \<Rightarrow> bool" where
  "bitrate_ok f \<longleftrightarrow> take_bit 6 (tf_exp f) = tf_exp f \<and> take_bit 17 (tf_mantissa f) = tf_mantissa f \<and>
     take_bit 9 (tf_overhead f) = tf_overhead f"

fun rtpfb_ok :: "BYTE \<Rightarrow> rtpfb_field \<Rightarrow> bool" where
  "rtpfb_ok t (NackF f) \<longleftrightarrow> t = 1"
| "rtpfb_ok t (BitrateF f) \<longleftrightarrow> (t = 3 \<or> t = 4) \<and> bitrate_ok f"

lemma length_enc_rtpfb: "length (enc_rtpfb f) = rtpfb_GetSize f"
  by (cases f) (simp_all add: enc_nack_def enc_bitrate_def)

lemma rtpfb_writes: "writes rtpfb_Serialize enc_rtpfb f"
  by (cases f) (simp_all add: writes_def enc_nack_def enc_bitrate_def writes_bytes put_next)

lemma bit_of_field: "take_bit n w = w \<Longrightarrow> bit w i \<Longrightarrow> i < n" for w :: "'a::len word"
  by (metis bit_take_bit_iff)

lemma bits_3: "w AND 3 = take_bit 2 w" and bits_1: "w AND 1 = take_bit 1 w" for w :: "'a::len word"
  by (simp_all add: take_bit_eq_mask mask_eq_exp_minus_1)

lemma bit_doubled: "bit (m * 2 :: DWORD) (Suc n) \<longleftrightarrow> n < 31 \<and> bit m n"
  using bit_double_iff [of m "Suc n"] by (simp add: mult.commute)

lemma overhead_bits:
  fixes m :: DWORD and ov :: WORD
  assumes k: "k \<le> 1" "1 \<le> k" and ov: "take_bit 9 ov = ov"
  shows "push_bit 8 (ucast (take_bit k (ucast (push_bit k m) OR ucast (take_bit k (drop_bit 8 ov)) :: BYTE)) :: WORD) OR
    ucast (ucast ov :: BYTE) = ov"
  using k by (intro bit_word_eqI) (auto simp: bit_simps dest: bit_of_field [OF ov] bit_imp_le_length)

lemma bitrate_bits:
  fixes e :: BYTE and m :: DWORD and ov :: WORD
  assumes e: "take_bit 6 e = e" and m: "take_bit 17 m = m" and ov: "take_bit 9 ov = ov"
  defines "b4 \<equiv> push_bit 2 e OR ucast (take_bit 2 (drop_bit 15 m))" and "b5 \<equiv> ucast (drop_bit 7 m) :: BYTE"
    and "b6 \<equiv> ucast (push_bit 1 m) OR ucast (take_bit 1 (drop_bit 8 ov)) :: BYTE"
  shows "drop_bit 2 b4 = e"
    and "push_bit 7 (push_bit 8 (ucast (take_bit 2 b4) :: DWORD) OR ucast b5) OR ucast (drop_bit 1 b6) = m"
    and "push_bit 8 (ucast (take_bit 1 b6) :: WORD) OR ucast (ucast ov :: BYTE) = ov"
proof -
  note eb = bit_of_field [OF e] and mb = bit_of_field [OF m]
  show "drop_bit 2 b4 = e"
    unfolding b4_def by (rule bit_word_eqI) (auto simp: bit_simps dest: eb bit_imp_le_length)
  show "push_bit 7 (push_bit 8 (ucast (take_bit 2 b4) :: DWORD) OR ucast b5) OR ucast (drop_bit 1 b6) = m"
    unfolding b4_def b5_def b6_def
    by (rule bit_word_eqI) (auto simp: bit_simps bit_doubled not_le dest: mb bit_imp_le_length)
  show "push_bit 8 (ucast (take_bit 1 b6) :: WORD) OR ucast (ucast ov :: BYTE) = ov"
    unfolding b6_def by (rule overhead_bits [OF _ _ ov]) simp_all
qed



lemma take_16_word [simp]: "take_bit 16 (ucast (w :: WORD) :: DWORD) = ucast w"
  by (rule bit_word_eqI) (auto simp: bit_simps dest: bit_imp_le_length)

lemma word_and_back [simp]: "(ucast (ucast w :: DWORD) :: WORD) = w"
  by (rule bit_word_eqI) (auto simp: bit_simps dest: bit_imp_le_length)

lemma rtpfb_reads: "rtpfb_ok t f \<Longrightarrow> reads (rtpfb_Parse t) enc_rtpfb f"
proof (cases f)
  case (NackF g)
  assume "rtpfb_ok t f"
  with NackF have "t = 1" by simp
  moreover have "get2 (enc_nack g @ rest) 0 = Ok (ucast (nf_pid g))" "get2 (enc_nack g @ rest) 2 = Ok (ucast (nf_blp g))" for rest
    using get2_at [of 0 "enc_nack g @ rest" "ucast (nf_pid g)"] get2_at [of 2 "enc_nack g @ rest" "ucast (nf_blp g)" rest]
    by (simp_all add: enc_nack_def)
  ultimately show ?thesis
    using NackF by (auto simp: reads_def rtpfb_Parse_def NackField_Parse_def enc_nack_def be2_def)
next
  case (BitrateF g)
  assume f: "rtpfb_ok t f"
  let ?b4 = "push_bit 2 (tf_exp g) OR ucast (take_bit 2 (drop_bit 15 (tf_mantissa g)))"
  let ?b6 = "ucast (push_bit 1 (tf_mantissa g)) OR ucast (take_bit 1 (drop_bit 8 (tf_overhead g)))"
  have e: "enc_bitrate g @ rest =
      be4 (tf_ssrc g) @ ?b4 # ucast (drop_bit 7 (tf_mantissa g)) # ?b6 # ucast (tf_overhead g) # rest" for rest
    by (simp only: enc_bitrate_def bits_3 bits_1 append.append_Cons append.append_Nil append_assoc)
  have d: "drop 4 (enc_bitrate g @ rest) = ?b4 # ucast (drop_bit 7 (tf_mantissa g)) # ?b6 # ucast (tf_overhead g) # rest" for rest
    unfolding e by simp
  note at = drops_at [OF d]
  have b: "byte_at (enc_bitrate g @ rest) 4 = Ok ?b4" "byte_at (enc_bitrate g @ rest) 5 = Ok (ucast (drop_bit 7 (tf_mantissa g)))"
    "byte_at (enc_bitrate g @ rest) 6 = Ok ?b6" "byte_at (enc_bitrate g @ rest) 7 = Ok (ucast (tf_overhead g))"
    "get4 (enc_bitrate g @ rest) 0 = Ok (tf_ssrc g)" for rest
    using at [of rest] unfolding e by (simp_all add: get_be)
  from f BitrateF have t: "t = 3 \<or> t = 4" and ok: "bitrate_ok g" by simp_all
  from ok have "take_bit 6 (tf_exp g) = tf_exp g" "take_bit 17 (tf_mantissa g) = tf_mantissa g"
    "take_bit 9 (tf_overhead g) = tf_overhead g" by (simp_all add: bitrate_ok_def)
  note bits = bitrate_bits [OF this]
  have "BitrateField_Parse (enc_bitrate g @ rest) n = Ok (Some (8, BitrateF g))" if "8 \<le> n" for n rest
    using that unfolding BitrateField_Parse_def b bindR.simps bits_3 bits_1 Let_def bits by simp
  with t BitrateF show ?thesis
    by (auto simp: reads_def rtpfb_Parse_def enc_bitrate_def be4_def)
qed


fun enc_psfb :: "psfb_field \<Rightarrow> BYTE list" where
  "enc_psfb (SliceLossF first number pictureId) =
     [ucast (drop_bit 5 first), ucast (push_bit 3 first) OR ucast (drop_bit 10 number), ucast (drop_bit 2 number),
      ucast (push_bit 6 number) OR pictureId]"
| "enc_psfb (PictureSelectionF padding t xs) = []"
| "enc_psfb (IntraRequestF ssrc seq) = be4 ssrc @ [seq, 0, 0, 0]"
| "enc_psfb (TradeOffF ssrc seq index) = be4 ssrc @ [seq, 0, 0, index]"
| "enc_psfb (BackChannelF ssrc seq t xs) = be4 ssrc @ [seq, t AND 0x7F] @ be2 (of_nat (length xs)) @ xs"
| "enc_psfb (ApplicationF xs) = xs"

text \<open>The fields that are read as they are written: not those whose \<open>Parse\<close> looks at another byte than \<open>Serialize\<close>, nor the
  picture selection, into whose payload \<open>Serialize\<close> writes its length; the payloads are whole words, because
  \<open>GetSize\<close> of the back channel message counts no padding and the application field keeps it.\<close>

fun psfb_ok :: "BYTE \<Rightarrow> psfb_field \<Rightarrow> bool" where
  "psfb_ok t (TradeOffF ssrc seq index) \<longleftrightarrow> t = 5 \<or> t = 6"
| "psfb_ok t (BackChannelF ssrc seq ty xs) \<longleftrightarrow> t = 7 \<and> ty AND 0x7F = ty \<and> length xs mod 4 = 0 \<and> length xs < 2 ^ 16"
| "psfb_ok t _ \<longleftrightarrow> False"

definition application_ok :: "psfb_field list \<Rightarrow> bool" where
  "application_ok fs \<longleftrightarrow> (\<exists>xs. fs = [ApplicationF xs] \<and> xs \<noteq> [] \<and> length xs mod 4 = 0 \<and> length xs < 2 ^ 16)"

definition psfbs_ok :: "BYTE \<Rightarrow> psfb_field list \<Rightarrow> bool" where
  "psfbs_ok t fs \<longleftrightarrow> fs = [] \<or> list_all (psfb_ok t) fs \<or> t = 15 \<and> application_ok fs"

lemma pad32_same [simp]: "n mod 4 = 0 \<Longrightarrow> pad32 n = n"
  by (simp add: pad32_def)

lemma psfb_writes: "psfb_ok t f \<Longrightarrow> writes psfb_Serialize enc_psfb f" "length xs mod 4 = 0 \<Longrightarrow> writes psfb_Serialize enc_psfb (ApplicationF xs)"
  by (cases f; simp add: writes_def writes_bytes put_next put_at_Nil)
    (simp add: writes_def writes_bytes put_next put_at_Nil)

lemma length_enc_psfb: "psfb_ok t f \<Longrightarrow> length (enc_psfb f) = psfb_GetSize f"
  by (cases f) simp_all

lemma psfb_reads: "psfb_ok t f \<Longrightarrow> reads (psfb_Parse t) enc_psfb f"
proof (cases f)
  case (TradeOffF ssrc seq index)
  assume f: "psfb_ok t f"
  have d: "drop 4 (be4 ssrc @ seq # 0 # 0 # index # rest) = seq # 0 # 0 # index # rest" for rest by simp
  note at = drops_at [OF d]
  have b: "byte_at (be4 ssrc @ seq # 0 # 0 # index # rest) 4 = Ok seq" "byte_at (be4 ssrc @ seq # 0 # 0 # index # rest) 7 = Ok index"
    for rest using at [of rest] by simp_all
  from f TradeOffF have t: "t = 5 \<or> t = 6" by simp
  have "be4 ssrc \<noteq> []" by (simp add: be4_def)
  with t TradeOffF b show ?thesis by (auto simp: reads_def psfb_Parse_def TradeOff_Parse_def get_be)
next
  case (BackChannelF ssrc seq ty xs)
  assume f: "psfb_ok t f"
  with BackChannelF have t: "t = 7" "ty AND 0x7F = ty" and xs: "length xs mod 4 = 0" "length xs < 2 ^ 16" by simp_all
  let ?d = "\<lambda>rest. be4 ssrc @ seq # ty # be2 (of_nat (length xs)) @ xs @ rest"
  have d: "drop 4 (?d rest) = seq # ty # be2 (of_nat (length xs)) @ xs @ rest" for rest by simp
  have d6: "drop 6 (?d rest) = be2 (of_nat (length xs)) @ xs @ rest" for rest using drop_past [of 4 "?d rest" "[seq, ty]"] by simp
  have d8: "drop 8 (?d rest) = xs @ rest" for rest using drop_past [OF d6] by simp
  have b: "byte_at (?d rest) 4 = Ok seq" "byte_at (?d rest) 5 = Ok ty" for rest
    using byte_at_at [OF d] byte_at_at [of 5 "?d rest" ty] drop_past [of 4 "?d rest" "[seq]"] by simp_all
  have "take_bit 16 (of_nat (length xs) :: DWORD) = of_nat (length xs)"
    using xs(2) by (simp add: word_unat_eq_iff unsigned_take_bit_eq unat_of_nat take_bit_nat_eq_self)
  then have g: "get2 (?d rest) 6 = Ok (of_nat (length xs))" for rest using get2_at [OF d6] by simp
  have un: "unat (of_nat (length xs) :: DWORD) = length xs" using xs(2) by (simp add: unat_of_nat take_bit_nat_eq_self)
  have c: "copy_out 8 (length xs) (?d rest) = Ok xs" for rest using copy_out_at [OF d8] by simp
  have "be4 ssrc \<noteq> []" by (simp add: be4_def)
  with t xs(1) BackChannelF b g un c show ?thesis
    by (auto simp: reads_def psfb_Parse_def BackChannel_Parse_def get_be)
qed simp_all

lemma application_reads:
  assumes fs: "application_ok fs" and d: "drop len d = enc_all enc_psfb fs @ rest" and n: "n = len + length (enc_all enc_psfb fs)"
  shows "parse_fields (psfb_Parse 15) len n d = Ok (Some fs)"
proof -
  from fs obtain xs where xs: "fs = [ApplicationF xs]" "xs \<noteq> []" "length xs mod 4 = 0" "length xs < 2 ^ 16"
    by (auto simp: application_ok_def)
  have "unat (of_nat (length xs) :: WORD) = length xs" using xs(4) by (simp add: unat_of_nat take_bit_nat_eq_self)
  moreover have "copy_out 0 (length xs) (drop len d) = Ok xs" using copy_out_at [of 0 "drop len d" xs] d xs(1) by simp
  ultimately show ?thesis
    using xs n by (simp add: parse_fields.simps [of _ len] parse_fields.simps [of _ "len + length xs"] psfb_Parse_def
      Application_Parse_def)
qed


section \<open>Packets\<close>

fun body :: "rtcp \<Rightarrow> BYTE list" where
  "body (SenderReport ssrc ntpSec ntpFrac rtpTimestamp packetsSent octectsSent rs) =
     enc_all be4 [ssrc, ntpSec, ntpFrac, rtpTimestamp, packetsSent, octectsSent] @ enc_all rc_buffer rs"
| "body (ReceiverReport ssrc rs) = be4 ssrc @ enc_all rc_buffer rs"
| "body (SDES ds) = enc_all enc_description ds"
| "body (Bye ssrcs reason) =
     enc_all be4 ssrcs @ (case reason of None \<Rightarrow> [] | Some r \<Rightarrow> of_nat (length r) # r)"
| "body (App subtype ssrc name xs) = be4 ssrc @ name @ xs"
| "body (RTPFeedback t senderSSRC mediaSSRC fs) = enc_all be4 [senderSSRC, mediaSSRC] @ enc_all enc_rtpfb fs"
| "body (PayloadFeedback t senderSSRC mediaSSRC fs) = enc_all be4 [senderSSRC, mediaSSRC] @ enc_all enc_psfb fs"
| "body (FullIntraRequest ssrc) = be4 ssrc"
| "body (NACK ssrc fsn blp) = be4 ssrc @ be2 (ucast fsn) @ be2 (ucast blp)"
| "body (ExtendedJitterReport js) = enc_all be4 js"

fun count_of :: "rtcp \<Rightarrow> BYTE" where
  "count_of (SenderReport _ _ _ _ _ _ rs) = of_nat (length rs)"
| "count_of (ReceiverReport _ rs) = of_nat (length rs)"
| "count_of (SDES ds) = of_nat (length ds)"
| "count_of (Bye ssrcs _) = of_nat (length ssrcs)"
| "count_of (App subtype _ _ _) = subtype"
| "count_of (RTPFeedback t _ _ _) = t"
| "count_of (PayloadFeedback t _ _ _) = t"
| "count_of (ExtendedJitterReport js) = of_nat (length js)"
| "count_of _ = 0"

definition enc_rtcp :: "rtcp \<Rightarrow> BYTE list" where
  "enc_rtcp p = enc_header (count_of p) (rtcp_type p) (4 + length (body p)) @ body p"

text \<open>
  The packets on which \<open>Serialize\<close> and \<open>Parse\<close> agree: what is counted fits the 5 bits of the header, each part is as its
  own section wants it, a reason is a string that makes up whole words with its length, and so does the data of an
  application packet; all of the packet is counted by the 16 bits of its length.
\<close>

fun parts_ok :: "rtcp \<Rightarrow> bool" where
  "parts_ok (SenderReport _ _ _ _ _ _ rs) \<longleftrightarrow> length rs < 32 \<and> list_all report_ok rs"
| "parts_ok (ReceiverReport _ rs) \<longleftrightarrow> length rs < 32 \<and> list_all report_ok rs"
| "parts_ok (SDES ds) \<longleftrightarrow> length ds < 32 \<and> list_all description_ok ds"
| "parts_ok (Bye ssrcs reason) \<longleftrightarrow> length ssrcs < 32 \<and>
     (case reason of None \<Rightarrow> True | Some r \<Rightarrow> 0 \<notin> set r \<and> length r < 256 \<and> length r mod 4 = 3)"
| "parts_ok (App subtype _ name xs) \<longleftrightarrow> take_bit 5 subtype = subtype \<and> length name = 4 \<and> length xs mod 4 = 0"
| "parts_ok (RTPFeedback t _ _ fs) \<longleftrightarrow> take_bit 5 t = t \<and> list_all (rtpfb_ok t) fs"
| "parts_ok (PayloadFeedback t _ _ fs) \<longleftrightarrow> take_bit 5 t = t \<and> psfbs_ok t fs"
| "parts_ok (FullIntraRequest _) \<longleftrightarrow> True"
| "parts_ok (NACK _ _ _) \<longleftrightarrow> False"
| "parts_ok (ExtendedJitterReport js) \<longleftrightarrow> length js < 32"

definition rtcp_ok :: "rtcp \<Rightarrow> bool" where
  "rtcp_ok p \<longleftrightarrow> parts_ok p \<and> rtcp_GetSize p \<le> 2 ^ 18"

lemma c_string_id: "0 \<notin> set r \<Longrightarrow> c_string r = r"
  unfolding c_string_def by (rule takeWhile_eq_all_conv [THEN iffD2]) auto

lemma length_reports: "list_all report_ok rs \<Longrightarrow> length (enc_all rc_buffer rs) = 24 * length rs"
  by (induction rs) (simp_all add: report_ok_def)

lemma length_psfbs: "psfbs_ok t fs \<Longrightarrow> length (enc_all enc_psfb fs) = (\<Sum>f\<leftarrow>fs. psfb_GetSize f)"
proof -
  have "length (enc_all enc_psfb fs) = (\<Sum>f\<leftarrow>fs. psfb_GetSize f)" if "list_all (psfb_ok t) fs"
    using that by (intro length_enc_all) (auto simp: list_all_iff intro: length_enc_psfb)
  then show "psfbs_ok t fs \<Longrightarrow> length (enc_all enc_psfb fs) = (\<Sum>f\<leftarrow>fs. psfb_GetSize f)"
    by (auto simp: psfbs_ok_def application_ok_def)
qed

lemma length_body: "parts_ok p \<Longrightarrow> 4 + length (body p) = rtcp_GetSize p"
  by (cases p)
    (auto simp: length_reports c_string_id length_psfbs length_enc_all [OF ballI, of _ enc_rtpfb, OF length_enc_rtpfb]
      length_enc_all [of _ enc_description Description_GetSize] length_enc_description list_all_iff split: option.splits)

lemma sum_words: "\<forall>x \<in> set xs. f x mod 4 = (0 :: nat) \<Longrightarrow> (\<Sum>x\<leftarrow>xs. f x) mod 4 = 0"
  by (induction xs) (auto simp: mod_add_eq [symmetric])

lemma twelve: "n mod 4 = 0 \<Longrightarrow> (12 + n) mod 4 = (0 :: nat)"
  by presburger

lemma GetSize_words: "parts_ok p \<Longrightarrow> rtcp_GetSize p mod 4 = 0"
proof (cases p)
  case (SDES ds)
  have "(\<Sum>s\<leftarrow>ds. Description_GetSize s) mod 4 = 0" by (rule sum_words) (simp add: Description_GetSize_def)
  with SDES show ?thesis by simp
next
  case (Bye ssrcs reason)
  assume "parts_ok p"
  moreover have "(5 + (4 * length ssrcs + k)) mod 4 = 0" if "k mod 4 = 3" for k using that by presburger
  ultimately show ?thesis using Bye by (auto simp: c_string_id split: option.splits)
next
  case (RTPFeedback t s m fs)
  have "rtpfb_GetSize f mod 4 = 0" for f by (cases f) simp_all
  then have "(\<Sum>f\<leftarrow>fs. rtpfb_GetSize f) mod 4 = 0" by (intro sum_words) simp
  with RTPFeedback twelve show ?thesis by simp
next
  case (PayloadFeedback t s m fs)
  assume "parts_ok p"
  moreover have "(8 + n) mod 4 = 0" if "n mod 4 = 0" for n :: nat using that by presburger
  then have "psfb_ok t f \<Longrightarrow> psfb_GetSize f mod 4 = 0" for f by (cases f) simp_all
  ultimately have "(\<Sum>f\<leftarrow>fs. psfb_GetSize f) mod 4 = 0"
    using PayloadFeedback by (intro sum_words) (auto simp: psfbs_ok_def application_ok_def list_all_iff)
  with PayloadFeedback twelve show ?thesis by simp
qed auto



text \<open>Writing a packet.\<close>

lemma length_enc_rtcp: "parts_ok p \<Longrightarrow> length (enc_rtcp p) = rtcp_GetSize p"
  using length_body [of p] by (simp add: enc_rtcp_def)

lemma rtcp_writes:
  assumes p: "parts_ok p"
  shows "writes rtcp_Serialize enc_rtcp p"
proof (unfold writes_def, intro allI impI)
  fix at sz :: nat and d :: "BYTE list"
  assume sz: "length (enc_rtcp p) \<le> sz" and d: "at + length (enc_rtcp p) \<le> length d"
  note n = length_enc_rtcp [OF p] length_body [OF p]
  have room: "rtcp_GetSize p \<le> sz" "at + rtcp_GetSize p \<le> length d" using sz d n by simp_all
  have e: "enc_rtcp p = enc_header (count_of p) (rtcp_type p) (rtcp_GetSize p) @ body p"
    using n(2) by (simp add: enc_rtcp_def)
  have "rtcp_Serialize p at sz d =
    Ok (rtcp_GetSize p, put_at at (enc_header (count_of p) (rtcp_type p) (rtcp_GetSize p) @ body p) d)"
  proof (cases p)
    case (SenderReport ssrc ntpSec ntpFrac rtpTimestamp packetsSent octectsSent rs)
    with p have rs: "list_all report_ok rs" "length rs < 32" by simp_all
    then have w: "\<forall>r \<in> set rs. writes Report_Serialize rc_buffer r" by (auto simp: list_all_iff Report_writes)
    show ?thesis
      using SenderReport room rs serialize_all_writes [OF w] n length_reports [OF rs(1)]
      by (simp add: put_header_writes put_words_writes put_next del: put_words.simps)
  next
    case (ReceiverReport ssrc rs)
    with p have rs: "list_all report_ok rs" "length rs < 32" by simp_all
    then have w: "\<forall>r \<in> set rs. writes Report_Serialize rc_buffer r" by (auto simp: list_all_iff Report_writes)
    show ?thesis
      using ReceiverReport room rs serialize_all_writes [OF w] n length_reports [OF rs(1)]
      by (simp add: put_header_writes writes_bytes put_next)
  next
    case (SDES ds)
    with p have w: "\<forall>s \<in> set ds. writes Description_Serialize enc_description s" by (auto simp: list_all_iff Description_writes)
    show ?thesis using SDES room serialize_all_writes [OF w] n by (simp add: put_header_writes put_next)
  next
    case (Bye ssrcs reason)
    with p room n show ?thesis
      by (cases reason) (simp_all add: put_header_writes put_words_writes put_next writes_bytes c_string_id)
  next
    case (App subtype ssrc name xs)
    with p room n show ?thesis by (simp add: put_header_writes writes_bytes put_next)
  next
    case (RTPFeedback t s m fs)
    with p room n serialize_all_writes [of fs rtpfb_Serialize enc_rtpfb] show ?thesis
      by (simp add: put_header_writes put_words_writes put_next rtpfb_writes del: put_words.simps)
  next
    case (PayloadFeedback t s m fs)
    with p have "\<forall>f \<in> set fs. writes psfb_Serialize enc_psfb f"
      by (auto simp: psfbs_ok_def application_ok_def list_all_iff psfb_writes)
    from PayloadFeedback p room n serialize_all_writes [OF this] show ?thesis
      by (simp add: put_header_writes put_words_writes put_next del: put_words.simps)
  next
    case (ExtendedJitterReport js)
    with p room n show ?thesis by (simp add: put_header_writes put_words_writes put_next del: put_words.simps)
  qed (use p room n in \<open>simp_all add: put_header_writes writes_bytes put_next\<close>)
  then show "rtcp_Serialize p at sz d = Ok (length (enc_rtcp p), put_at at (enc_rtcp p) d)" by (simp only: n(1)) (simp only: e)
qed



text \<open>Reading it.\<close>

lemma header_bits: "get_bits 0 5 (0x80 OR take_bit 5 c) = take_bit 5 c" "get_bits 6 2 (0x80 OR take_bit 5 c) = 2"
proof -
  have high: "bit (0x80 :: BYTE) i \<longleftrightarrow> i = 7" for i
    using bit_exp_iff [of 7 i, where ?'a = "8 word"] by (auto dest: bit_imp_le_length)
  have two: "bit (2 :: BYTE) i \<longleftrightarrow> i = 1" for i
    using bit_exp_iff [of 1 i, where ?'a = "8 word"] by (auto dest: bit_imp_le_length)
  have gen: "get_bits 0 5 (h OR take_bit 5 c) = take_bit 5 c" "get_bits 6 2 (h OR take_bit 5 c) = v"
    if h: "\<And>i. bit h i \<longleftrightarrow> i = 7" and v: "\<And>i. bit v i \<longleftrightarrow> i = 1" for h v :: BYTE
  proof -
    show "get_bits 0 5 (h OR take_bit 5 c) = take_bit 5 c"
      by (rule bit_word_eqI) (auto simp: get_bits_def bit_take_bit_iff bit_or_iff h)
    show "get_bits 6 2 (h OR take_bit 5 c) = v"
      by (rule bit_word_eqI) (auto simp: get_bits_def bit_take_bit_iff bit_drop_bit_eq bit_or_iff h v)
  qed
  show "get_bits 0 5 (0x80 OR take_bit 5 c) = take_bit 5 c" "get_bits 6 2 (0x80 OR take_bit 5 c) = 2"
    by (rule gen [OF high two])+
qed

lemma enc_header_reads:
  assumes n: "n mod 4 = 0" "0 < n" "n \<le> 2 ^ 18"
  shows "byte_at (enc_header c pt n @ rest) 0 = Ok (0x80 OR take_bit 5 c)" "byte_at (enc_header c pt n @ rest) 1 = Ok pt"
    "header_count (enc_header c pt n @ rest) = Ok (unat (take_bit 5 c))"
    "GetRTCPHeaderLength (enc_header c pt n @ rest) = Ok n"
proof -
  let ?d = "enc_header c pt n @ rest"
  show b: "byte_at ?d 0 = Ok (0x80 OR take_bit 5 c)" "byte_at ?d 1 = Ok pt"
    by (simp_all add: enc_header_def byte_at_def)
  show "header_count ?d = Ok (unat (take_bit 5 c))" by (simp add: header_count_def b header_bits)
  have "drop 2 ?d = be2 (of_nat (n div 4 - 1)) @ rest" by (simp add: enc_header_def)
  from get2_at [OF this] have "get2 ?d 2 = Ok (take_bit 16 (of_nat (n div 4 - 1)))" .
  moreover have "n div 4 - 1 < 2 ^ 16" using n(2,3) by (simp add: less_diff_conv2 div_less_iff_less_mult)
  then have "unat (take_bit 16 (of_nat (n div 4 - 1) :: DWORD)) = n div 4 - 1"
    by (simp add: unsigned_take_bit_eq unat_of_nat take_bit_nat_eq_self)
  moreover have "(n div 4 - 1 + 1) * 4 = n" using n by auto
  ultimately show "GetRTCPHeaderLength ?d = Ok n" by (simp add: GetRTCPHeaderLength_def)
qed

lemma count_32: "k < 32 \<Longrightarrow> unat (take_bit 5 (of_nat k :: BYTE)) = k"
  by (simp add: unsigned_take_bit_eq unat_of_nat take_bit_nat_eq_self)

lemma rtcp_reads:
  assumes p: "rtcp_ok p"
  shows "parse_packet (rtcp_type p) (enc_rtcp p @ rest) (rtcp_GetSize p) = Ok (Some p)"
proof -
  from p have ok: "parts_ok p" and max: "rtcp_GetSize p \<le> 2 ^ 18" by (simp_all add: rtcp_ok_def)
  define d where "d = enc_rtcp p @ rest"
  define n where "n = rtcp_GetSize p"
  have len: "4 + length (body p) = n" using length_body [OF ok] by (simp add: n_def)
  have d: "d = enc_header (count_of p) (rtcp_type p) n @ body p @ rest" using len by (simp add: d_def enc_rtcp_def)
  have h: "header_count d = Ok (unat (take_bit 5 (count_of p)))" "GetRTCPHeaderLength d = Ok n"
    unfolding d using GetSize_words [OF ok] len max enc_header_reads(3,4) [of n] by (simp_all add: n_def)
  have b: "drop 4 d = body p @ rest" unfolding d by simp
  have "parse_packet (rtcp_type p) d n = Ok (Some p)"
  proof (cases p)
    case (SenderReport ssrc ntpSec ntpFrac rtpTimestamp packetsSent octectsSent rs)
    let ?w = "[ssrc, ntpSec, ntpFrac, rtpTimestamp, packetsSent, octectsSent]"
    have w: "drop 4 d = enc_all be4 ?w @ enc_all rc_buffer rs @ rest" using b SenderReport by simp
    from SenderReport ok have rs: "list_all report_ok rs" "length rs < 32" by simp_all
    from parse_reports_reads [OF rs(1), of 28 d rest n] drop_past [OF w] len SenderReport length_reports [OF rs(1)]
    have "parse_reports (length rs) 28 n d = Ok (n, rs)" by simp
    moreover have "length ?w = 6" by simp
    ultimately show ?thesis using get_words_at [OF w, unfolded \<open>length ?w = 6\<close>] h SenderReport rs
      by (simp add: parse_packet_def SenderReport_Parse_def count_32 del: get_words.simps)
  next
    case (ReceiverReport ssrc rs)
    have w: "drop 4 d = be4 ssrc @ enc_all rc_buffer rs @ rest" using b ReceiverReport by simp
    from ReceiverReport ok have rs: "list_all report_ok rs" "length rs < 32" by simp_all
    from parse_reports_reads [OF rs(1), of 8 d rest n] drop_past [OF w] len ReceiverReport length_reports [OF rs(1)]
    have "parse_reports (length rs) 8 n d = Ok (n, rs)" by simp
    with get4_at [OF w] h ReceiverReport rs show ?thesis
      by (simp add: parse_packet_def ReceiverReport_Parse_def count_32)
  next
    case (SDES ds)
    from SDES ok have ds: "list_all description_ok ds" "length ds < 32" by simp_all
    from SDES b len have "parse_descriptions (length ds) 4 n d = Ok (Some ds)"
      by (intro parse_descriptions_reads [OF ds(1)]) auto
    with h SDES ds show ?thesis by (simp add: parse_packet_def SDES_Parse_def count_32)
  next
    case (Bye ssrcs reason)
    have w: "drop 4 d = enc_all be4 ssrcs @ (case reason of None \<Rightarrow> [] | Some r \<Rightarrow> of_nat (length r) # r) @ rest"
      using b Bye by (cases reason) simp_all
    from Bye ok have s: "length ssrcs < 32" by simp
    show ?thesis
    proof (cases reason)
      case None
      with get_words_at [OF w] h Bye s len show ?thesis by (simp add: parse_packet_def Bye_Parse_def count_32)
    next
      case (Some r)
      with Bye ok have r: "length r < 256" by simp
      have dr: "drop (4 + 4 * length ssrcs) d = of_nat (length r) # r @ rest" using drop_past [OF w] Some by simp
      have dr1: "drop (4 + 4 * length ssrcs + 1) d = r @ rest"
        using drop_past [of "4 + 4 * length ssrcs" d "[of_nat (length r)]" "r @ rest"] dr
        by (simp only: append.append_Cons append.append_Nil list.size add_0 One_nat_def simp_thms)
      have "4 + 4 * length ssrcs + 1 \<le> length d" using dr dr1 by (cases "4 + 4 * length ssrcs + 1 \<le> length d") auto
      from copy_out_at [OF dr1 this] byte_at_at [OF dr] get_words_at [OF w] h Bye s len Some r show ?thesis
        by (simp add: parse_packet_def Bye_Parse_def count_32 unat_of_nat take_bit_nat_eq_self)
    qed
  next
    case (App subtype ssrc name xs)
    have w: "drop 4 d = be4 ssrc @ name @ xs @ rest" using b App by simp
    have w8: "drop 8 d = name @ xs @ rest" using drop_past [OF w] by simp
    from App ok have name: "length name = 4" "take_bit 5 subtype = subtype" by simp_all
    have w12: "drop 12 d = xs @ rest" using drop_past [OF w8] name by simp
    have ld: "12 \<le> length d" unfolding d using App name by simp
    have n: "n = 12 + length xs" using len App name by simp
    have "n \<le> 2 ^ 18" using max by (simp only: n_def)
    then have "unat (of_nat n :: DWORD) = n" by (simp add: unat_of_nat take_bit_nat_eq_self)
    then have "unat (of_nat n - 12 :: DWORD) = length xs" using n by (subst unat_sub) (simp_all add: word_le_nat_alt)
    with copy_out_at [OF w12 ld] copy_out_at [OF w8] ld get4_at [OF w] h App name show ?thesis
      by (simp add: parse_packet_def App_Parse_def)
  next
    case (RTPFeedback t s m fs)
    have w: "drop 4 d = enc_all be4 [s, m] @ enc_all enc_rtpfb fs @ rest" using b RTPFeedback by simp
    from RTPFeedback ok have fs: "\<forall>f \<in> set fs. reads (rtpfb_Parse t) enc_rtpfb f" and t: "take_bit 5 t = t"
      by (auto simp: list_all_iff rtpfb_reads)
    from parse_fields_reads [OF fs, of 12 d rest n] drop_past [OF w] len RTPFeedback
    have "parse_fields (rtpfb_Parse t) 12 n d = Ok (Some fs)" by simp
    moreover have "length [s, m] = 2" by simp
    ultimately show ?thesis using get_words_at [OF w, unfolded \<open>length [s, m] = 2\<close>] h RTPFeedback t
      by (simp add: parse_packet_def RTPFeedback_Parse_def del: get_words.simps)
  next
    case (PayloadFeedback t s m fs)
    have w: "drop 4 d = enc_all be4 [s, m] @ enc_all enc_psfb fs @ rest" using b PayloadFeedback by simp
    from PayloadFeedback ok have fs: "psfbs_ok t fs" and t: "take_bit 5 t = t" by simp_all
    have w12: "drop 12 d = enc_all enc_psfb fs @ rest" and n: "n = 12 + length (enc_all enc_psfb fs)"
      using drop_past [OF w] len PayloadFeedback by simp_all
    from fs have "parse_fields (psfb_Parse t) 12 n d = Ok (Some fs)"
      using application_reads [OF _ w12 n] parse_fields_reads [OF _ w12 n, of "psfb_Parse t"]
      by (auto simp: psfbs_ok_def list_all_iff psfb_reads)
    moreover have "length [s, m] = 2" by simp
    ultimately show ?thesis using get_words_at [OF w, unfolded \<open>length [s, m] = 2\<close>] h PayloadFeedback t
      by (simp add: parse_packet_def PayloadFeedback_Parse_def del: get_words.simps)
  next
    case (FullIntraRequest ssrc)
    with b h get4_at [of 4 d ssrc rest] show ?thesis by (simp add: parse_packet_def FullIntraRequest_Parse_def)
  next
    case (NACK ssrc fsn blp)
    with ok show ?thesis by simp
  next
    case (ExtendedJitterReport js)
    with b h get_words_at [of 4 d js rest] ok show ?thesis
      by (simp add: parse_packet_def ExtendedJitterReport_Parse_def count_32)
  qed
  then show ?thesis by (simp add: d_def n_def)
qed



section \<open>Compound packets\<close>

lemma Compound_size: "ps \<noteq> [] \<Longrightarrow> Compound_GetSize ps \<le> 4 + (\<Sum>p\<leftarrow>ps. rtcp_GetSize p)"
  by (induction ps) (auto simp: Compound_GetSize_def split: list.splits)

lemma parse_compound_reads:
  "list_all rtcp_ok ps \<Longrightarrow> parse_compound (enc_all enc_rtcp ps @ rest) (\<Sum>p\<leftarrow>ps. rtcp_GetSize p) = Ok (Some ps)"
proof (induction ps)
  case (Cons p ps)
  let ?d = "enc_all enc_rtcp (p # ps) @ rest" and ?n = "\<Sum>p\<leftarrow>p # ps. rtcp_GetSize p"
  from Cons.prems have p: "rtcp_ok p" and ok: "parts_ok p" and max: "rtcp_GetSize p \<le> 2 ^ 18"
    by (simp_all add: rtcp_ok_def)
  have len: "length (enc_rtcp p) = rtcp_GetSize p" by (rule length_enc_rtcp [OF ok])
  have e: "?d = enc_header (count_of p) (rtcp_type p) (rtcp_GetSize p) @ body p @ enc_all enc_rtcp ps @ rest"
    using length_body [OF ok] by (simp add: enc_rtcp_def)
  have pos: "0 < rtcp_GetSize p" using length_body [OF ok] by simp
  note h = enc_header_reads [OF GetSize_words [OF ok] pos max, of "count_of p" "rtcp_type p" "body p @ enc_all enc_rtcp ps @ rest",
    folded e]
  have "drop (rtcp_GetSize p) ?d = enc_all enc_rtcp ps @ rest" using len by simp
  with h(2,4) rtcp_reads [OF p, of "enc_all enc_rtcp ps @ rest"] Cons.IH Cons.prems pos show ?case
    by (subst parse_compound.simps) simp
qed (simp add: parse_compound.simps)

text \<open>C15: What the server sends over RTCP it would understand.  A compound packet of any packets that are sound in the sense of
  \<open>rtcp_ok\<close>, the first of them of a type from 200 to 206, is written at the start of any buffer with room for it and
  four bytes more, and parsing what was written, whatever lies behind it in the buffer, gives the same packets in
  their order: sender and receiver reports with their report blocks, source descriptions, goodbyes with and without a
  reason, application data, negative acknowledgements, bitrate limits, back channel and application feedback.\<close>

theorem compound_packets_are_read_back:
  assumes "list_all rtcp_ok ps" and "ps = p # ps'" and "rtcp_type p \<in> {200..206}"
    and "(\<Sum>p\<leftarrow>ps. rtcp_GetSize p) + 4 \<le> sz" and "sz \<le> length d"
  shows "\<exists>n d'. Compound_Serialize ps sz d = Ok (n, d') \<and> n = (\<Sum>p\<leftarrow>ps. rtcp_GetSize p) \<and> length d' = length d \<and>
    drop n d' = drop n d \<and> Compound_Parse d' n = Ok (Some ps)"
proof -
  let ?n = "\<Sum>p\<leftarrow>ps. rtcp_GetSize p" and ?e = "enc_all enc_rtcp ps"
  have w: "\<forall>p \<in> set ps. writes rtcp_Serialize enc_rtcp p" and len: "length ?e = ?n"
    using assms(1) by (auto simp: list_all_iff rtcp_ok_def rtcp_writes length_enc_rtcp intro!: length_enc_all)
  from serialize_all_writes [OF w, of 0 sz 0 d] assms(4,5) len
  have s: "serialize_all rtcp_Serialize ps 0 0 sz d = Ok (?n, ?e @ drop ?n d)" by (simp add: put_at_def)
  have "Compound_GetSize ps \<le> sz" using Compound_size [of ps] assms(2,4) by simp
  with s have c: "Compound_Serialize ps sz d = Ok (?n, ?e @ drop ?n d)" by (simp add: Compound_Serialize_def)
  from assms(1,2) have ok: "parts_ok p" "rtcp_GetSize p \<le> 2 ^ 18" by (simp_all add: rtcp_ok_def)
  have pos: "4 \<le> rtcp_GetSize p" using length_body [OF ok(1)] by simp
  then have pos': "0 < rtcp_GetSize p" by simp
  have "?e @ drop ?n d =
    enc_header (count_of p) (rtcp_type p) (rtcp_GetSize p) @ body p @ enc_all enc_rtcp ps' @ drop ?n d"
    using length_body [OF ok(1)] assms(2) by (simp add: enc_rtcp_def)
  with enc_header_reads [OF GetSize_words [OF ok(1)] pos' ok(2)]
  have "byte_at (?e @ drop ?n d) 0 = Ok (0x80 OR take_bit 5 (count_of p))" "byte_at (?e @ drop ?n d) 1 = Ok (rtcp_type p)"
    by simp_all
  then have "IsRTCP (?e @ drop ?n d) ?n = Ok True"
    using assms(2,3) pos by (simp add: IsRTCP_def header_bits)
  with parse_compound_reads [OF assms(1)] have "Compound_Parse (?e @ drop ?n d) ?n = Ok (Some ps)"
    by (simp add: Compound_Parse_def)
  with c len assms(4,5) show ?thesis by (intro exI [of _ ?n] exI [of _ "?e @ drop ?n d"]) simp
qed



theorem compound_packets_are_read_back_witness:
  "let ps = [ReceiverReport 7 [\<lparr>rc_buffer = replicate 24 1\<rparr>],
      SDES [\<lparr>de_ssrc = 7, de_items = [Item_new 1 [109, 99, 117]]\<rparr>],
      RTPFeedback 1 7 9 [NackF \<lparr>nf_pid = 100, nf_blp = 0x8001\<rparr>],
      RTPFeedback 3 7 9 [BitrateF (BitrateField_new 9 300000 5)],
      PayloadFeedback 15 7 0 [ApplicationF [0x52, 0x45, 0x4D, 0x42]], Bye [7] (Some [101, 110, 100])] in
   \<exists>n d'. Compound_Serialize ps 1400 (replicate 1500 5) = Ok (n, d') \<and> n = (\<Sum>p\<leftarrow>ps. rtcp_GetSize p) \<and>
     length d' = length (replicate 1500 (5 :: BYTE)) \<and> drop n d' = drop n (replicate 1500 5) \<and>
     Compound_Parse d' n = Ok (Some ps)"
proof -
  let ?p = "ReceiverReport 7 [\<lparr>rc_buffer = replicate 24 1\<rparr>]"
  let ?b = "BitrateField_new 9 300000 5"
  let ?ps = "[SDES [\<lparr>de_ssrc = 7, de_items = [Item_new 1 [109, 99, 117]]\<rparr>],
      RTPFeedback 1 7 9 [NackF \<lparr>nf_pid = 100, nf_blp = 0x8001\<rparr>], RTPFeedback 3 7 9 [BitrateF ?b],
      PayloadFeedback 15 7 0 [ApplicationF [0x52, 0x45, 0x4D, 0x42]], Bye [7] (Some [101, 110, 100])]"
  have "filter (\<lambda>i. (300000 :: DWORD) \<le> shl 0x1FFFF i) [0..<64] = 2 # filter (\<lambda>i. (300000 :: DWORD) \<le> shl 0x1FFFF i) [3..<64]"
    by (simp add: upt_conv_Cons [of 0] upt_conv_Cons [of "Suc 0"] upt_conv_Cons [of 2] shl_def numeral_2_eq_2 [symmetric])
  then have e: "find_exponent 0x1FFFF 300000 = 2" by (simp add: find_exponent_def)
  have b: "bitrate_ok ?b" by (simp add: bitrate_ok_def BitrateField_new_def SetBitrate_def e shr_def take_bit_eq_mod drop_bit_eq_div)
  have "list_all rtcp_ok (?p # ?ps)"
    using b by (simp add: rtcp_ok_def report_ok_def description_ok_def item_ok_def Item_new_def psfbs_ok_def application_ok_def
      Description_GetSize_def pad32_def take_bit_eq_mod c_string_def)
  moreover have "rtcp_type ?p \<in> {200..206}" "(\<Sum>p\<leftarrow>?p # ?ps. rtcp_GetSize p) + 4 \<le> 1400"
    by (simp_all add: Description_GetSize_def pad32_def Item_new_def c_string_def)
  ultimately show ?thesis
    using compound_packets_are_read_back [of "?p # ?ps" ?p ?ps 1400 "replicate 1500 5"] by simp
qed

section \<open>Packets on which the two sides differ\<close>

text \<open>An application packet of eight bytes brings the server down.  Its header is sound and says that the packet is
  two words long, which it is; \<open>Parse\<close> takes twelve bytes from it, computes the size of its data as 8 - 12 in 32 bits and
  copies 4294967292 bytes from the datagram.\<close>

theorem short_application_packet_overruns:
  assumes "length memory < 2 ^ 32 - 4"
  shows "Compound_Parse ([0x80, 204, 0, 1, 0, 0, 0, 7] @ memory) 8 = Fault OutOfBounds"
proof -
  let ?d = "[0x80, 204, 0, 1, 0, 0, 0, 7] @ memory"
  have n: "GetRTCPHeaderLength ?d = Ok 8"
    by (simp add: GetRTCPHeaderLength_def get2_def byte_at_def)
  have c: "header_count ?d = Ok 0" by (simp add: header_count_def byte_at_def get_bits_def)
  have g: "get4 ?d 4 = Ok 7" by (simp add: get4_def byte_at_def nth_append)
  have u: "unat (of_nat 8 - 12 :: DWORD) = 4294967292" by simp
  have "App_Parse ?d 8 = Fault OutOfBounds"
  proof (cases "12 \<le> length ?d")
    case True
    then have "copy_out 8 4 ?d = Ok (take 4 memory)" by (simp add: copy_out_def)
    moreover have "copy_out 12 4294967292 ?d = Fault OutOfBounds" using assms by (simp add: copy_out_def)
    ultimately show ?thesis by (simp only: App_Parse_def n c g u bindR.simps) simp
  next
    case False
    then have "copy_out 8 4 ?d = Fault OutOfBounds" by (simp add: copy_out_def)
    then show ?thesis by (simp only: App_Parse_def n c g u bindR.simps) simp
  qed
  then show ?thesis
    using n by (simp add: Compound_Parse_def IsRTCP_def byte_at_def parse_compound.simps [of _ 8] parse_packet_def get_bits_def)
qed

theorem short_application_packet_overruns_witness:
  "Compound_Parse [0x80, 204, 0, 1, 0, 0, 0, 7, 1, 2, 3, 4] 8 = Fault OutOfBounds"
  using short_application_packet_overruns [of "[1, 2, 3, 4]"] by simp

text \<open>The number of an intra request is lost, and so is the mask of an old negative acknowledgement.\<close>

lemma intra_request_number_is_lost:
  "IntraRequest_Parse (enc_psfb (IntraRequestF ssrc seq) @ rest) 8 = Ok (Some (8, IntraRequestF ssrc 0))"
proof -
  have "drop 5 (be4 ssrc @ seq # 0 # 0 # 0 # rest) = 0 # 0 # 0 # rest" by simp
  from byte_at_at [OF this] show ?thesis by (simp add: IntraRequest_Parse_def get_be)
qed

lemma old_nack_mask_is_lost:
  "NACK_Parse (enc_rtcp (NACK ssrc fsn blp) @ rest) 12 = Ok (Some (NACK ssrc fsn (ucast ssrc)))"
proof -
  let ?d = "enc_rtcp (NACK ssrc fsn blp) @ rest"
  have e: "?d = enc_header 0 193 12 @ be4 ssrc @ be2 (ucast fsn) @ be2 (ucast blp) @ rest"
    by (simp add: enc_rtcp_def)
  then have d4: "drop 4 ?d = be4 ssrc @ be2 (ucast fsn) @ be2 (ucast blp) @ rest" by simp
  have "be4 ssrc = be2 (drop_bit 16 ssrc) @ be2 ssrc" by (simp add: be4_def be2_def)
  with d4 have "drop 4 ?d = be2 (drop_bit 16 ssrc) @ be2 ssrc @ be2 (ucast fsn) @ be2 (ucast blp) @ rest" by simp
  from drop_past [OF this] have d6: "drop 6 ?d = be2 ssrc @ be2 (ucast fsn) @ be2 (ucast blp) @ rest" by simp
  from drop_past [OF this] have d8: "drop 8 ?d = be2 (ucast fsn) @ be2 (ucast blp) @ rest" by simp
  have "ucast (take_bit 16 ssrc) = (ucast ssrc :: WORD)" by (rule bit_word_eqI) (auto simp: bit_simps)
  moreover have "GetRTCPHeaderLength ?d = Ok 12" unfolding e by (rule enc_header_reads(4)) simp_all
  ultimately show ?thesis using get4_at [OF d4] get2_at [OF d6] get2_at [OF d8] by (simp add: NACK_Parse_def)
qed



section \<open>Bitrates\<close>

lemma find_exponent_least:
  assumes "b \<le> shl m i" "i < 64"
  obtains e where "e \<le> i" "find_exponent m b = of_nat e" "b \<le> shl m e" "\<And>j. j < e \<Longrightarrow> \<not> b \<le> shl m j"
proof -
  define e where "e = (LEAST e. b \<le> shl m e)"
  have e: "b \<le> shl m e" "e \<le> i" "\<And>j. j < e \<Longrightarrow> \<not> b \<le> shl m j"
    unfolding e_def using assms(1) by (auto intro: LeastI Least_le dest: not_less_Least)
  then have "[0..<64] = [0..<e] @ [e..<64]" using assms(2) upt_add_eq_append [of 0 e "64 - e"] by simp
  then have "[0..<64] = [0..<e] @ e # [Suc e..<64]" using e(2) assms(2) by (simp add: upt_conv_Cons)
  moreover have "filter (\<lambda>j. b \<le> shl m j) [0..<e] = []" using e(3) by (auto simp: filter_empty_conv)
  ultimately have "find_exponent m b = of_nat e" using e(1) by (simp add: find_exponent_def)
  with e that show ?thesis by blast
qed

lemma unat_shl: "unat m * 2 ^ e < 2 ^ 32 \<Longrightarrow> e < 32 \<Longrightarrow> unat (shl m e) = unat m * 2 ^ e" for m :: DWORD
  unfolding shl_def by (simp add: unsigned_push_bit_eq) (simp add: push_bit_eq_mult take_bit_nat_eq_self)

lemma unat_shr: "e < 32 \<Longrightarrow> unat (shr b e) = unat b div 2 ^ e" for b :: DWORD
  using unsigned_less [of b, where ?'a = nat] unfolding shr_def
  by (simp only: unsigned_drop_bit_eq) (simp add: drop_bit_eq_div take_bit_nat_eq_self)

lemma few_bits: "unat w < 2 ^ n \<Longrightarrow> take_bit n w = w" for w :: "'a::len word"
  by (simp add: word_unat_eq_iff unsigned_take_bit_eq take_bit_nat_eq_self)

text \<open>A bitrate limit is sent with an error of less than one part in 65536.  Any bitrate up to 4294934528 (0xFFFF8000) bits
  per second is cut to a mantissa of 17 bits and an exponent that fit their fields; what the other side computes from
  them is not above the bitrate and is less than 1/65536 of it below.\<close>

theorem bitrate_is_nearly_kept:
  fixes ssrc b :: DWORD and overhead :: WORD
  assumes "b \<le> 0xFFFF8000"
  defines "f \<equiv> BitrateField_new ssrc b overhead"
  shows "take_bit 6 (tf_exp f) = tf_exp f \<and> take_bit 17 (tf_mantissa f) = tf_mantissa f \<and>
    unat (GetBitrate f) \<le> unat b \<and> (unat b - unat (GetBitrate f)) * 65536 \<le> unat b"
proof -
  have m: "unat (0x1FFFF :: DWORD) = 2 ^ 17 - 1" by simp
  have b: "unat b \<le> (2 ^ 17 - 1) * 2 ^ 15" using assms(1) by (simp add: word_le_nat_alt)
  have "shl 0x1FFFF 15 = (0xFFFF8000 :: DWORD)" by (simp add: shl_def push_bit_eq_mult)
  with assms(1) have "b \<le> shl 0x1FFFF 15" by simp
  from find_exponent_least [OF this] obtain e where
    e: "e \<le> 15" "find_exponent 0x1FFFF b = of_nat e" "b \<le> shl 0x1FFFF e" "\<And>j. j < e \<Longrightarrow> \<not> b \<le> shl 0x1FFFF j" by auto
  have u: "unat (shl 0x1FFFF j :: DWORD) = (2 ^ 17 - 1) * 2 ^ j" if "j \<le> 15" for j
  proof -
    have "(2 ^ 17 - 1) * 2 ^ j \<le> (2 ^ 17 - 1) * (2 ^ 15 :: nat)" by (intro mult_left_mono power_increasing that) simp_all
    with that show ?thesis by (subst unat_shl) simp_all
  qed
  have ue: "unat (of_nat e :: BYTE) = e" using e(1) by (simp add: unat_of_nat take_bit_nat_eq_self)
  have le: "unat b \<le> (2 ^ 17 - 1) * 2 ^ e" using e(1,3) u by (simp add: word_le_nat_alt)
  let ?q = "unat b div 2 ^ e"
  have q: "unat (shr b e) = ?q" using e(1) by (simp add: unat_shr)
  have q17: "?q \<le> 2 ^ 17 - 1" using le by (metis div_le_mono nonzero_mult_div_cancel_right power_not_zero zero_neq_numeral)
  have f: "tf_exp f = of_nat e" "tf_mantissa f = shr b e"
    unfolding f_def using e(2) ue by (simp_all add: BitrateField_new_def SetBitrate_def)
  have prod: "?q * 2 ^ e \<le> unat b" by simp
  have "unat (GetBitrate f) = ?q * 2 ^ e"
  proof -
    have "?q * 2 ^ e < 2 ^ 32" using prod b by (rule order.strict_trans1 [OF order_trans]) simp
    then show ?thesis unfolding GetBitrate_def f ue using e(1) q by (simp add: unat_shl)
  qed
  moreover have "(unat b - ?q * 2 ^ e) * 65536 \<le> unat b"
  proof (cases e)
    case 0
    then show ?thesis by simp
  next
    case (Suc k)
    have "unat b - ?q * 2 ^ e = unat b mod 2 ^ e" by (simp add: minus_div_mult_eq_mod)
    also have "\<dots> \<le> 2 ^ e - 1" using mod_less_divisor [of "2 ^ e" "unat b"] by (metis Suc_pred' less_Suc_eq_le zero_less_numeral zero_less_power One_nat_def)
    finally have "(unat b - ?q * 2 ^ e) * 65536 \<le> (2 ^ e - 1) * 65536" by (rule mult_right_mono) simp
    moreover have "\<not> b \<le> shl 0x1FFFF k" "k \<le> 15" using e(1,4) Suc by auto
    then have "(2 ^ 17 - 1) * 2 ^ k < unat b" using u [of k] by (simp add: word_le_nat_alt not_le)
    moreover have "2 ^ k \<le> (2 ^ 14 :: nat)" using e(1) Suc by (intro power_increasing) simp_all
    ultimately show ?thesis using Suc by (simp add: diff_mult_distrib)
  qed
  moreover have "take_bit 6 (tf_exp f) = tf_exp f"
    unfolding f by (rule few_bits) (use e(1) ue in simp)
  moreover have "take_bit 17 (tf_mantissa f) = tf_mantissa f"
    unfolding f by (rule few_bits) (use q q17 in simp)
  ultimately show ?thesis using prod by simp
qed

theorem bitrate_is_nearly_kept_witness:
  "let f = BitrateField_new 9 123456789 5 in
   take_bit 6 (tf_exp f) = tf_exp f \<and> take_bit 17 (tf_mantissa f) = tf_mantissa f \<and>
    unat (GetBitrate f) \<le> 123456789 \<and> (123456789 - unat (GetBitrate f)) * 65536 \<le> 123456789"
  using bitrate_is_nearly_kept [of 123456789 9 5] by (simp add: Let_def)


end
