(* ===== verification/FECDecoder.thy ===== *)
theory FECDecoder
  imports RTPPacketProperties BitStream
begin

unbundle bit_operations_syntax

text \<open>
  Forward error correction (\<open>src/mcu/include/fecdecoder.h\<close>, \<open>src/mcu/src/fecdecoder.cpp\<close>): a FEC packet of RFC 5109
  carries the exclusive or of the packets its mask names, and \<open>FECDecoder\<close> computes a lost packet from it and the others.

  The decoder owns copies of the packets, so they are kept by value; a look-up with \<open>medias[k]\<close> of a packet that is not
  there gives a null pointer, which is followed at once.  What new objects hold before they are written is part of the
  argument \<open>fec_memory\<close>, with the clock.
\<close>

section \<open>FEC data\<close>

text \<open>The array has \<open>MTU\<close> and \<open>SRTP_MAX_TRAILER_LEN\<close> (1500 and 144) bytes.\<close>

definition FEC_SIZE :: nat where
  "FEC_SIZE = 1644"

record fec_data =
  fd_data :: "BYTE list"
  fd_size :: DWORD
  fd_cycles :: WORD

definition FECData_new :: "BYTE list \<Rightarrow> BYTE list \<Rightarrow> DWORD \<Rightarrow> fec_data res" where
  "FECData_new junk data sz =
     bindR (copy_out 0 (unat sz) data) (\<lambda>xs. bindR (copy_in 0 xs junk) (\<lambda>d.
     Ok \<lparr>fd_data = d, fd_size = sz, fd_cycles = 0\<rparr>))"

definition GetExtensionFlag :: "fec_data \<Rightarrow> bool" where "GetExtensionFlag f = bit (fd_data f ! 0) 7"
definition GetLongMask :: "fec_data \<Rightarrow> bool" where "GetLongMask f = bit (fd_data f ! 0) 6"
definition GetRecoveryP :: "fec_data \<Rightarrow> bool" where "GetRecoveryP f = bit (fd_data f ! 0) 5"
definition GetRecoveryX :: "fec_data \<Rightarrow> bool" where "GetRecoveryX f = bit (fd_data f ! 0) 4"
definition GetRecoveryCC :: "fec_data \<Rightarrow> BYTE" where "GetRecoveryCC f = take_bit 4 (fd_data f ! 0)"
definition GetRecoveryM :: "fec_data \<Rightarrow> bool" where "GetRecoveryM f = bit (fd_data f ! 1) 7"
definition GetRecoveryType :: "fec_data \<Rightarrow> BYTE" where "GetRecoveryType f = take_bit 7 (fd_data f ! 1)"
definition GetBaseSeqNum :: "fec_data \<Rightarrow> WORD" where "GetBaseSeqNum f = load2 2 (fd_data f)"
definition GetRecoveryTimestamp :: "fec_data \<Rightarrow> DWORD" where "GetRecoveryTimestamp f = load4 4 (fd_data f)"
definition GetRecoveryLength :: "fec_data \<Rightarrow> WORD" where "GetRecoveryLength f = load2 8 (fd_data f)"

definition GetBaseExtSeq :: "fec_data \<Rightarrow> DWORD" where
  "GetBaseExtSeq f = push_bit 16 (ucast (fd_cycles f)) OR ucast (GetBaseSeqNum f)"

definition fec_SetSeqCycles :: "WORD \<Rightarrow> fec_data \<Rightarrow> fec_data" where
  "fec_SetSeqCycles c f = f\<lparr>fd_cycles := c\<rparr>"

text \<open>\<open>GetLevel0Data\<close>: where the data of level 0 starts.\<close>

definition level0_at :: "fec_data \<Rightarrow> nat" where
  "level0_at f = (if GetLongMask f then 18 else 14)"

definition GetLevel0Size :: "fec_data \<Rightarrow> DWORD" where
  "GetLevel0Size f = ucast (load2 10 (fd_data f))"

definition GetLevel0Mask :: "fec_data \<Rightarrow> QWORD" where
  "GetLevel0Mask f =
     (let m = push_bit 48 (ucast (load2 12 (fd_data f))) in
      if GetLongMask f then m OR push_bit 16 (ucast (load4 14 (fd_data f))) else m)"

text \<open>The number is an \<open>int\<close> here and the difference a \<open>BYTE\<close>.\<close>

definition IsProtectedAtLevel0 :: "DWORD \<Rightarrow> fec_data \<Rightarrow> bool" where
  "IsProtectedAtLevel0 sq f =
     (if sint sq < uint (GetBaseSeqNum f) \<or> sint sq > uint (GetBaseSeqNum f) + 48 then False
      else bit (GetLevel0Mask f) (64 - unat (ucast (sq - ucast (GetBaseSeqNum f)) :: BYTE) - 1))"

section \<open>Adding a packet\<close>

text \<open>\<open>codes\<close> is a \<open>std::multimap\<close>, which puts a new entry behind those with the same key.\<close>

record fec_decoder =
  fx_medias :: "(DWORD, timed_packet) omap"
  fx_codes :: "(DWORD \<times> fec_data) list"

record fec_memory =
  fm_now :: QWORD
  fm_junk :: "BYTE list"
  fm_len :: DWORD
  fm_data :: "nat \<Rightarrow> BYTE list"

definition FECDecoder_new :: fec_decoder where
  "FECDecoder_new = \<lparr>fx_medias = [], fx_codes = []\<rparr>"

fun multi_insert :: "'k::linorder \<Rightarrow> 'v \<Rightarrow> ('k \<times> 'v) list \<Rightarrow> ('k \<times> 'v) list" where
  "multi_insert k v [] = [(k, v)]"
| "multi_insert k v ((k', v') # m) = (if k < k' then (k, v) # (k', v') # m else (k', v') # multi_insert k v m)"

definition add_code :: "BYTE list \<Rightarrow> BYTE list \<Rightarrow> DWORD \<Rightarrow> fec_decoder \<Rightarrow> fec_decoder res" where
  "add_code junk data sz d =
     bindR (FECData_new junk data sz) (\<lambda>f. Ok (d\<lparr>fx_codes := multi_insert (GetBaseExtSeq f) f (fx_codes d)\<rparr>))"

text \<open>A packet is an instance of \<open>RTPTimedPacket\<close> or of \<open>RTPRedundantPacket\<close>.\<close>

datatype any_packet = Timed timed_packet | Redundant red_packet

definition base_packet :: "any_packet \<Rightarrow> timed_packet" where
  "base_packet p = (case p of Timed t \<Rightarrow> t | Redundant r \<Rightarrow> timed_packet.truncate r)"

definition VideoCodec_ULPFEC :: DWORD where "VideoCodec_ULPFEC = 108"
definition VideoCodec_RED :: DWORD where "VideoCodec_RED = 109"

text \<open>
  The last number decides what is kept.  The bound is a \<open>DWORD\<close> and wraps for the first 63 numbers.  The loops read
  the key of an entry before they compare the iterator with the end: at the end they read the key of the end node, whose
  value does not matter.
\<close>

definition drop_old :: "fec_decoder \<Rightarrow> fec_decoder" where
  "drop_old d =
     (let sq = fst (last (fx_medias d)) in
      d\<lparr>fx_medias := dropWhile (\<lambda>e. fst e < sq - 63) (fx_medias d),
        fx_codes := dropWhile (\<lambda>e. fst e < sq - 63) (fx_codes d)\<rparr>)"

definition add_media :: "DWORD \<Rightarrow> timed_packet \<Rightarrow> fec_decoder \<Rightarrow> fec_decoder" where
  "add_media k p d = d\<lparr>fx_medias := map_put k p (fx_medias d)\<rparr>"

text \<open>The redundant blocks that hold FEC data.\<close>

definition add_redundant :: "fec_memory \<Rightarrow> red_packet \<Rightarrow> nat \<Rightarrow> fec_decoder \<Rightarrow> fec_decoder res" where
  "add_redundant m red i d =
     (if ucast (GetRedundantCodec i red) = VideoCodec_ULPFEC then
        (case GetRedundantPayloadData i red of
           None \<Rightarrow> Fault NullDeref
         | Some k \<Rightarrow> add_code (fm_data m i) (drop k (rp_buffer red)) (GetRedundantPayloadSize i red) d)
      else Ok d)"

definition FEC_AddPacket :: "fec_memory \<Rightarrow> any_packet \<Rightarrow> fec_decoder \<Rightarrow> (bool \<times> fec_decoder) res" where
  "FEC_AddPacket m packet d =
     (let p = base_packet packet; k = GetExtSeqNum p in
      if rp_codec p = VideoCodec_RED then
        (case packet of
           Timed _ \<Rightarrow> Fault BadCast
         | Redundant red \<Rightarrow>
             if ucast (rd_primaryCodec red) = VideoCodec_ULPFEC then
               bindR (add_code (fm_data m 0) (drop (rd_primaryData red) (rp_buffer red)) (rd_primarySize red) d)
                 (\<lambda>d. Ok (False, d))
             else
               bindR (if map_find (fx_medias d) k = None
                      then bindR (CreatePrimaryPacket (fm_now m) (fm_junk m) (fm_len m) red) (\<lambda>q. Ok (add_media k q d))
                      else Ok d) (\<lambda>d.
               bindR (foldR (add_redundant m red) [0..<length (rd_headers red)] d) (\<lambda>d.
               Ok (True, drop_old d))))
      else if rp_codec p = VideoCodec_ULPFEC then
        bindR (add_code (fm_data m 0) (drop (media_at p) (rp_buffer p)) (rp_len p) d) (\<lambda>d. Ok (False, d))
      else if map_find (fx_medias d) k \<noteq> None then Ok (False, d)
      else bindR (Timed_Clone (fm_now m) (fm_junk m) (fm_len m) p) (\<lambda>q. Ok (True, drop_old (add_media k q d))))"

section \<open>Recovering a packet\<close>

text \<open>The packets lost between the last number and the one at hand: a zero in the mask for each.\<close>

function lost_between :: "DWORD \<Rightarrow> DWORD \<Rightarrow> bit_writer \<Rightarrow> DWORD list \<Rightarrow> (bit_writer \<times> DWORD list) res" where
  "lost_between i cur w losts =
     (if i < cur then bindR (Put 1 0 w) (\<lambda>w. lost_between (i + 1) cur w (losts @ [i])) else Ok (w, losts))"
  by pat_completeness auto

termination
proof (relation "measure (\<lambda>(i, cur, _). unat cur - unat i)")
  fix i cur :: DWORD and w v :: bit_writer and losts
  assume "i < cur"
  moreover from this have "unat i + 1 < 2 ^ 32"
    using unsigned_less [of cur, where ?'a = nat] by (simp add: word_less_nat_alt)
  then have "unat (i + 1) = unat i + 1" by (simp add: unat_word_ariths(1))
  ultimately show "((i + 1, cur, v, losts @ [i]), i, cur, w, losts) \<in> measure (\<lambda>(i, cur, _). unat cur - unat i)"
    by (simp add: word_less_nat_alt)
qed simp

declare lost_between.simps [simp del]

fun scan_medias :: "DWORD list \<Rightarrow> DWORD \<Rightarrow> bit_writer \<Rightarrow> DWORD list \<Rightarrow> (bit_writer \<times> DWORD list) res" where
  "scan_medias [] lastSeq w losts = Ok (w, losts)"
| "scan_medias (cur # ks) lastSeq w losts =
     bindR (lost_between (lastSeq + 1) cur w losts) (\<lambda>(w, losts).
     bindR (Put 1 1 w) (\<lambda>w. scan_medias ks cur w losts))"

text \<open>What is recovered: the fields of the header and the payload, at first those of the FEC data.\<close>

record recovery =
  rc_data :: "BYTE list"
  rc_p :: bool
  rc_x :: bool
  rc_cc :: BYTE
  rc_m :: bool
  rc_pt :: BYTE
  rc_ts :: DWORD
  rc_l :: WORD

definition recovery_start :: "fec_data \<Rightarrow> recovery res" where
  "recovery_start f =
     bindR (copy_out (level0_at f) (unat (GetLevel0Size f)) (fd_data f)) (\<lambda>xs.
     Ok \<lparr>rc_data = xs @ replicate (FEC_SIZE - length xs) 0, rc_p = GetRecoveryP f, rc_x = GetRecoveryX f,
         rc_cc = GetRecoveryCC f, rc_m = GetRecoveryM f, rc_pt = GetRecoveryType f, rc_ts = GetRecoveryTimestamp f,
         rc_l = GetRecoveryLength f\<rparr>)"

definition recovery_xor :: "DWORD \<Rightarrow> timed_packet \<Rightarrow> recovery \<Rightarrow> recovery res" where
  "recovery_xor level0Size media c =
     (let n = unat (min (rp_len media) level0Size) in
      bindR (copy_out (media_at media) n (rp_buffer media)) (\<lambda>payload.
      if n > length (rc_data c) then Fault OutOfBounds
      else Ok \<lparr>rc_data = map2 (XOR) (take n (rc_data c)) payload @ drop n (rc_data c),
               rc_p = (rc_p c \<noteq> GetP media), rc_x = (rc_x c \<noteq> GetX media), rc_cc = rc_cc c XOR GetCC media,
               rc_m = (rc_m c \<noteq> GetMark media), rc_pt = rc_pt c XOR ucast (GetType media),
               rc_ts = rc_ts c XOR GetTimestamp media, rc_l = rc_l c XOR ucast (rp_len media)\<rparr>))"

text \<open>Every bit of the mask of the FEC data is read; the fuel is the number of its bits.\<close>

fun xor_medias :: "nat \<Rightarrow> (DWORD, timed_packet) omap \<Rightarrow> DWORD \<Rightarrow> DWORD \<Rightarrow> bit_reader \<Rightarrow> recovery \<Rightarrow> recovery res" where
  "xor_medias fuel medias base level0Size r c =
     (if br_Left r = 0 then Ok c
      else case fuel of
        0 \<Rightarrow> Fault OutOfFuel
      | Suc fuel \<Rightarrow>
          bindR (br_Get 1 r) (\<lambda>(v, r).
          if v \<noteq> 0 then
            (case map_find medias (base + GetPos r - 1) of
               None \<Rightarrow> Fault NullDeref
             | Some media \<Rightarrow>
                 bindR (recovery_xor level0Size media c) (xor_medias fuel medias base level0Size r))
          else xor_medias fuel medias base level0Size r c))"

declare xor_medias.simps [simp del]

definition recovered_packet :: "fec_memory \<Rightarrow> DWORD \<Rightarrow> DWORD \<Rightarrow> WORD \<Rightarrow> recovery \<Rightarrow> (bool \<times> timed_packet) res" where
  "recovered_packet m ssrc sq cycles c =
     SetPayloadWithExtensionData (rc_data c) (ucast (rc_l c))
       (SetSSRC ssrc ((SetSeqNum (ucast sq) (SetTimestamp (rc_ts c) (SetMark (rc_m c) (SetX (rc_x c) (SetP (rc_p c)
         (RTPTimedPacket_new (fm_now m) (fm_junk m) (fm_len m) Video (ucast (rc_pt c))))))))\<lparr>rp_cycles := cycles\<rparr>))"

text \<open>One FEC packet tried for the lost packet \<open>sq\<close>: the packet recovered, or none.\<close>

definition try_code ::
  "fec_memory \<Rightarrow> DWORD \<Rightarrow> DWORD \<Rightarrow> QWORD \<Rightarrow> DWORD \<Rightarrow> fec_data \<Rightarrow> fec_decoder \<Rightarrow> (timed_packet option \<times> fec_decoder) res" where
  "try_code m ssrc minSeq lostMask sq f d =
     (if \<not> IsProtectedAtLevel0 sq f then Ok (None, d)
      else
        let diff = sq - GetBaseExtSeq f;
            mediaMask = shl lostMask (unat (GetBaseExtSeq f - minSeq));
            fecMask = GetLevel0Mask f AND NOT (shl 1 (unat (64 - diff - 1))) in
        if fecMask AND mediaMask \<noteq> fecMask then Ok (None, d)
        else if GetLevel0Size f > 1500 then Ok (None, d)
        else
          bindR (recovery_start f) (\<lambda>c.
          bindR (set8 (replicate 8 0) 0 fecMask) (\<lambda>aux.
          bindR (xor_medias 64 (fx_medias d) (GetBaseExtSeq f) (GetLevel0Size f) (BitReader_new aux 8) c) (\<lambda>c.
          bindR (recovered_packet m ssrc sq (fd_cycles f) c) (\<lambda>(ok, p).
          if \<not> ok then Ok (None, d)
          else bindR (FEC_AddPacket m (Timed p) d) (\<lambda>(media, d).
            Ok (if media then Some p else None, d)))))))"

text \<open>
  A recovered packet may itself be a FEC packet, which is then added to the codes while they are gone through.  The
  iterator stays at its entry; the entries added before it move its index.
\<close>

definition next_index :: "nat \<Rightarrow> (DWORD \<times> fec_data) list \<Rightarrow> (DWORD \<times> fec_data) list \<Rightarrow> nat" where
  "next_index i cs cs' =
     (let before = (\<lambda>es. length (filter (\<lambda>e. fst e < fst (cs ! i)) es)) in i + 1 + (before cs' - before cs))"

fun try_codes ::
  "nat \<Rightarrow> fec_memory \<Rightarrow> DWORD \<Rightarrow> DWORD \<Rightarrow> QWORD \<Rightarrow> DWORD \<Rightarrow> nat \<Rightarrow> fec_decoder \<Rightarrow> (timed_packet option \<times> fec_decoder) res" where
  "try_codes fuel m ssrc minSeq lostMask sq i d =
     (if i \<ge> length (fx_codes d) then Ok (None, d)
      else case fuel of
        0 \<Rightarrow> Fault OutOfFuel
      | Suc fuel \<Rightarrow>
          bindR (try_code m ssrc minSeq lostMask sq (snd (fx_codes d ! i)) d) (\<lambda>(r, d').
          case r of
            Some p \<Rightarrow> Ok (Some p, d')
          | None \<Rightarrow> try_codes fuel m ssrc minSeq lostMask sq (next_index i (fx_codes d) (fx_codes d')) d'))"

declare try_codes.simps [simp del]

fun try_losts ::
  "nat \<Rightarrow> fec_memory \<Rightarrow> DWORD \<Rightarrow> DWORD \<Rightarrow> QWORD \<Rightarrow> DWORD list \<Rightarrow> fec_decoder \<Rightarrow> (timed_packet option \<times> fec_decoder) res" where
  "try_losts fuel m ssrc minSeq lostMask [] d = Ok (None, d)"
| "try_losts fuel m ssrc minSeq lostMask (sq # losts) d =
     bindR (try_codes fuel m ssrc minSeq lostMask sq 0 d) (\<lambda>(r, d).
     case r of Some p \<Rightarrow> Ok (Some p, d) | None \<Rightarrow> try_losts fuel m ssrc minSeq lostMask losts d)"

text \<open>\<open>fuel\<close> bounds the FEC packets that are tried for one lost packet.\<close>

definition FEC_Recover :: "nat \<Rightarrow> fec_memory \<Rightarrow> fec_decoder \<Rightarrow> (timed_packet option \<times> fec_decoder) res" where
  "FEC_Recover fuel m d =
     (case fx_medias d of
        [] \<Rightarrow> Ok (None, d)
      | (_, first) # _ \<Rightarrow>
          let minSeq = GetExtSeqNum first in
          bindR (scan_medias (map fst (fx_medias d)) minSeq (BitWritter_new (replicate 8 0) 8) []) (\<lambda>(w, losts).
          bindR (Flush w) (\<lambda>(_, w).
          bindR (get8 (bw_data w) 0) (\<lambda>lostMask.
          if losts = [] then Ok (None, d)
          else try_losts fuel m (GetSSRC first) minSeq lostMask losts d))))"

text \<open>
  The loop of \<open>RTPSession\<close> (\<open>src/mcu/src/rtpsession.cpp\<close>) after it has added a packet: what it recovers gets its codec and
  its extensions and goes to the jitter buffer.  \<open>n\<close> bounds the rounds.
\<close>

definition set_codec :: "RTPMap \<Rightarrow> timed_packet \<Rightarrow> timed_packet" where
  "set_codec rtpMapIn p =
     (let t = ucast (GetType p) :: BYTE; c = GetCodecForType t rtpMapIn in
      p\<lparr>rp_codec := ucast (if c \<noteq> NotFound then c else t)\<rparr>)"

fun recover_all ::
  "nat \<Rightarrow> nat \<Rightarrow> fec_memory \<Rightarrow> RTPMap \<Rightarrow> RTPMap \<Rightarrow> fec_decoder \<Rightarrow> (timed_packet list \<times> fec_decoder) res" where
  "recover_all n fuel m rtpMapIn extMap d =
     bindR (FEC_Recover fuel m d) (\<lambda>(r, d).
     case r of
       None \<Rightarrow> Ok ([], d)
     | Some p \<Rightarrow>
         (case n of
            0 \<Rightarrow> Fault OutOfFuel
          | Suc n \<Rightarrow>
              bindR (ProcessExtensions extMap (set_codec rtpMapIn p)) (\<lambda>p.
              bindR (recover_all n fuel m rtpMapIn extMap d) (\<lambda>(ps, d). Ok (p # ps, d)))))"

declare recover_all.simps [simp del]

end
