(* ===== verification/FECRecovery.thy ===== *)
theory FECRecovery
  imports FECDecoder
begin

unbundle bit_operations_syntax

text \<open>
  What the decoder of forward error correction recovers.  The exclusive or of some packets and the exclusive or of all but
  one of them give the missing one; \<open>xor_group\<close> is what the proof uses of the exclusive or, and it is interpreted on
  booleans and on words.  \<open>sums\<close> is the invariant of the loop over the packets.
\<close>

section \<open>Exclusive or\<close>

definition xor_total :: "('a \<Rightarrow> 'a \<Rightarrow> 'a) \<Rightarrow> 'a \<Rightarrow> 'a list \<Rightarrow> 'a" where
  "xor_total add zero xs = foldr add xs zero"

locale xor_group =
  fixes add :: "'a \<Rightarrow> 'a \<Rightarrow> 'a" and zero :: 'a
  assumes assoc: "add (add a b) c = add a (add b c)"
    and comm: "add a b = add b a"
    and zero: "add a zero = a"
    and self: "add a a = zero"
begin

lemma cancel: "add (add a b) b = a"
  by (simp add: assoc self zero)

lemma total_Nil: "xor_total add zero [] = zero"
  and total_Cons: "xor_total add zero (x # xs) = add x (xor_total add zero xs)"
  by (simp_all add: xor_total_def)

lemma total_one: "xor_total add zero [x] = x"
  by (simp add: xor_total_def zero)

lemma total_remove:
  assumes "distinct ks" "k \<in> set ks"
  shows "add (xor_total add zero (map f ks)) (f k) = xor_total add zero (map f (filter (\<lambda>x. x \<noteq> k) ks))"
  using assms
proof (induction ks)
  case (Cons x ks)
  show ?case
  proof (cases "x = k")
    case True
    with Cons.prems have "filter (\<lambda>x. x \<noteq> k) ks = ks" by (auto intro: filter_True)
    with True show ?thesis by (simp add: total_Cons comm [of "f k"] cancel)
  next
    case False
    with Cons show ?thesis by (simp add: total_Cons assoc)
  qed
qed simp

end

definition xor_bit :: "bool \<Rightarrow> bool \<Rightarrow> bool" where
  "xor_bit a b \<longleftrightarrow> a \<noteq> b"

interpretation xor_bool: xor_group xor_bit False
  by unfold_locales (auto simp: xor_bit_def)

interpretation xor_word: xor_group "(XOR) :: 'a::len word \<Rightarrow> 'a word \<Rightarrow> 'a word" 0
  by unfold_locales (simp_all add: ac_simps)

section \<open>The packets that were sent\<close>

text \<open>The media of a packet, and that a packet without extension, padding and sources carries it.\<close>

record sent_media =
  sm_mark :: bool
  sm_type :: BYTE
  sm_ts :: DWORD
  sm_payload :: "BYTE list"

definition carries :: "'a rtp_packet_scheme \<Rightarrow> sent_media \<Rightarrow> bool" where
  "carries p x \<longleftrightarrow> rtp_wf p \<and> \<not> GetX p \<and> \<not> GetP p \<and> GetCC p = 0 \<and> GetMark p = sm_mark x \<and>
     GetType p = ucast (sm_type x) \<and> GetTimestamp p = sm_ts x \<and> length (sm_payload x) \<le> 1500 \<and>
     rp_len p = of_nat (length (sm_payload x)) \<and> take (length (sm_payload x)) (drop 12 (rp_buffer p)) = sm_payload x"

definition pad_at :: "BYTE list \<Rightarrow> nat \<Rightarrow> BYTE" where
  "pad_at xs j = (if j < length xs then xs ! j else 0)"

text \<open>\<open>c\<close> holds the exclusive or of the packets \<open>ks\<close> of the stream \<open>s\<close>, in its first \<open>l\<close> bytes.\<close>

definition sums :: "(nat \<Rightarrow> sent_media) \<Rightarrow> nat list \<Rightarrow> nat \<Rightarrow> recovery \<Rightarrow> bool" where
  "sums s ks l c \<longleftrightarrow> \<not> rc_p c \<and> \<not> rc_x c \<and> rc_cc c = 0 \<and>
     rc_m c = xor_total xor_bit False (map (\<lambda>k. sm_mark (s k)) ks) \<and>
     rc_pt c = xor_total (XOR) 0 (map (\<lambda>k. sm_type (s k)) ks) \<and>
     rc_ts c = xor_total (XOR) 0 (map (\<lambda>k. sm_ts (s k)) ks) \<and>
     rc_l c = xor_total (XOR) 0 (map (\<lambda>k. of_nat (length (sm_payload (s k)))) ks) \<and>
     length (rc_data c) = FEC_SIZE \<and>
     (\<forall>j < FEC_SIZE. rc_data c ! j = (if j < l then xor_total (XOR) 0 (map (\<lambda>k. pad_at (sm_payload (s k)) j) ks) else 0))"

lemma carries_header: "carries p x \<Longrightarrow> media_at p = 12"
  using plain_header [of p] by (auto simp: carries_def)

lemma carries_length: "carries p x \<Longrightarrow> unat (rp_len p) = length (sm_payload x)"
  by (auto simp: carries_def unat_of_nat take_bit_nat_eq_self)

lemma carries_bytes:
  assumes c: "carries p x" and n: "n \<le> length (sm_payload x)"
  shows "copy_out (media_at p) n (rp_buffer p) = Ok (take n (sm_payload x))"
proof -
  have "12 + n \<le> length (rp_buffer p)" using c n by (auto simp: carries_def rtp_wf_def RTP_SIZE_def)
  moreover have e: "take (length (sm_payload x)) (drop 12 (rp_buffer p)) = sm_payload x" using c by (simp add: carries_def)
  have "take n (sm_payload x) = take n (take (length (sm_payload x)) (drop 12 (rp_buffer p)))" by (simp only: e)
  then have "take n (drop 12 (rp_buffer p)) = take n (sm_payload x)" using n by (simp only: take_take min_absorb1)
  ultimately show ?thesis using carries_header [OF c] by (simp add: copy_out_def)
qed

lemma recovery_xor_sums:
  assumes c: "sums s ks l c" and k: "k \<in> set ks" "distinct ks" and p: "carries p (s k)"
    and l: "length (sm_payload (s k)) \<le> l" "l \<le> 1500"
  shows "\<exists>c'. recovery_xor (of_nat l) p c = Ok c' \<and> sums s (filter (\<lambda>x. x \<noteq> k) ks) l c'"
proof -
  let ?y = "sm_payload (s k)" let ?n = "length ?y"
  have ul: "unat (of_nat l :: DWORD) = l" using l by (simp add: unat_of_nat take_bit_nat_eq_self)
  have n: "unat (min (rp_len p) (of_nat l)) = ?n"
    using carries_length [OF p] l ul by (simp add: min_def word_le_nat_alt)
  have len: "length (rc_data c) = FEC_SIZE" "?n \<le> FEC_SIZE" using c l by (auto simp: sums_def FEC_SIZE_def)
  let ?d = "map2 (XOR) (take ?n (rc_data c)) ?y @ drop ?n (rc_data c)"
  have d: "?d ! j = rc_data c ! j XOR pad_at ?y j" if "j < FEC_SIZE" for j
    using that len by (auto simp: nth_append pad_at_def)
  have ld: "length ?d = FEC_SIZE" using len by simp
  let ?c' = "\<lparr>rc_data = ?d, rc_p = (rc_p c \<noteq> GetP p), rc_x = (rc_x c \<noteq> GetX p), rc_cc = rc_cc c XOR GetCC p,
     rc_m = (rc_m c \<noteq> GetMark p), rc_pt = rc_pt c XOR ucast (GetType p), rc_ts = rc_ts c XOR GetTimestamp p,
     rc_l = rc_l c XOR ucast (rp_len p)\<rparr>"
  have r: "recovery_xor (of_nat l) p c = Ok ?c'"
    using carries_bytes [OF p, of ?n] len by (simp add: recovery_xor_def n Let_def)
  have t: "ucast (ucast (sm_type (s k)) :: DWORD) = sm_type (s k)" by (rule bit_word_eqI) (auto simp: bit_simps)
  have ol: "ucast (of_nat ?n :: DWORD) = (of_nat ?n :: WORD)" by (rule bit_word_eqI) (auto simp: bit_simps)
  have f: "GetP p = False" "GetX p = False" "GetCC p = 0" "GetMark p = sm_mark (s k)" "GetType p = ucast (sm_type (s k))"
    "GetTimestamp p = sm_ts (s k)" "rp_len p = of_nat ?n" using p by (simp_all add: carries_def)
  have z: "pad_at ?y j = 0" if "l \<le> j" for j using that l by (simp add: pad_at_def)
  note rm = xor_bool.total_remove [OF k(2,1)] xor_word.total_remove [OF k(2,1)]
  have "sums s (filter (\<lambda>x. x \<noteq> k) ks) l ?c'"
    unfolding sums_def
  proof (intro conjI)
    show "\<forall>j<FEC_SIZE. rc_data ?c' ! j =
        (if j < l then xor_total (XOR) 0 (map (\<lambda>k. pad_at (sm_payload (s k)) j) (filter (\<lambda>x. x \<noteq> k) ks)) else 0)"
    proof (intro allI impI)
      fix j assume j: "j < FEC_SIZE"
      have e: "rc_data ?c' ! j = rc_data c ! j XOR pad_at ?y j" using d [OF j] by simp
      show "rc_data ?c' ! j = (if j < l then xor_total (XOR) 0 (map (\<lambda>k. pad_at (sm_payload (s k)) j) (filter (\<lambda>x. x \<noteq> k) ks)) else 0)"
      proof (cases "j < l")
        case True
        with c j have "rc_data c ! j = xor_total (XOR) 0 (map (\<lambda>k. pad_at (sm_payload (s k)) j) ks)" by (simp add: sums_def)
        with e True rm(2) [of "\<lambda>k. pad_at (sm_payload (s k)) j"] show ?thesis by simp
      next
        case False
        with c j have "rc_data c ! j = 0" by (simp add: sums_def)
        with e False z show ?thesis by simp
      qed
    qed
  qed (use c ld f t ol rm(1) [of "\<lambda>k. sm_mark (s k)"] rm(2) [of "\<lambda>k. sm_type (s k)"] xor_word.total_remove [OF k(2,1), of "\<lambda>k. sm_ts (s k)"]
      xor_word.total_remove [OF k(2,1), of "\<lambda>k. of_nat (length (sm_payload (s k)))"] in \<open>simp_all add: sums_def xor_bit_def\<close>)
  with r show ?thesis by blast
qed

section \<open>The loop over the mask\<close>

text \<open>The reader stands at the bit \<open>n\<close> of 64.\<close>

definition reading :: "nat \<Rightarrow> bool list \<Rightarrow> bit_reader \<Rightarrow> bool" where
  "reading n bs r \<longleftrightarrow> readable bs r \<and> n + length bs = 64 \<and> unat (br_pos r) + unat (br_len r) = 8"

lemma br_Get_pos:
  assumes "br_Get n r = Ok (v, r')" "unat (br_pos r) + unat (br_len r) = 8"
  shows "unat (br_pos r') + unat (br_len r') = 8"
proof -
  have c: "unat (br_pos q) + unat (br_len q) = 8" if q: "Cache r = Ok q" for q
  proof -
    from q obtain k c where k: "next_cache r = Ok (k, c)"
      "q = r\<lparr>br_data := drop k (br_data r), br_len := br_len r - of_nat k, br_pos := br_pos r + of_nat k,
         br_cache := c, br_cached := of_nat (8 * k)\<rparr>" by (auto simp: Cache_def)
    from k(1) have le: "k \<le> 4" "k \<le> unat (br_len r)"
      by (auto simp: next_cache_def word_less_nat_alt word_unat_eq_iff split: if_splits)
    then have u: "unat (of_nat k :: DWORD) = k" by (simp add: unat_of_nat take_bit_nat_eq_self)
    with le have "unat (br_len r - of_nat k) = unat (br_len r) - k" by (simp add: unat_sub word_le_nat_alt)
    moreover have "unat (br_pos r + of_nat k) = unat (br_pos r) + k" using u le assms(2) by (simp add: unat_word_ariths(1))
    ultimately show ?thesis using k(2) le assms(2) by simp
  qed
  show ?thesis using assms c
    by (auto simp: br_Get_def Let_def GetCached_def SkipCached_def split: if_splits)
qed

lemma reading_Left: "reading n bs r \<Longrightarrow> br_Left r = 0 \<longleftrightarrow> bs = []"
proof -
  assume "reading n bs r"
  with readable_Left [of bs r] have "unat (br_Left r) = length bs" by (auto simp: reading_def)
  then show ?thesis by (metis length_0_conv unsigned_eq_0_iff)
qed

lemma reading_Get:
  assumes "reading n (b # bs) r"
  shows "\<exists>v r'. br_Get 1 r = Ok (v, r') \<and> (v \<noteq> 0 \<longleftrightarrow> b) \<and> reading (Suc n) bs r'"
  using assms get_one [of b bs r] br_Get_pos unfolding reading_def by fastforce

lemma reading_GetPos:
  assumes "reading n bs r"
  shows "GetPos r = of_nat n"
proof -
  from assms have l: "length bs = unat (br_cached r) + 8 * unat (br_len r)" "n + length bs = 64"
    "unat (br_pos r) + unat (br_len r) = 8" "unat (br_cached r) \<le> 32" by (auto simp: reading_def readable_def)
  have c: "unat (ucast (br_cached r) :: DWORD) = unat (br_cached r)"
    using unsigned_less [of "br_cached r", where ?'a = nat] by (simp add: unsigned_ucast_eq take_bit_nat_eq_self)
  have p: "unat (br_pos r * 8) = unat (br_pos r) * 8" using l by (simp add: unat_word_ariths(2))
  have "unat (br_pos r * 8 - ucast (br_cached r)) = n"
    using l p c by (subst unat_sub) (simp_all add: word_le_nat_alt)
  moreover have "unat (of_nat n :: DWORD) = n" using l by (simp add: unat_of_nat take_bit_nat_eq_self)
  ultimately show ?thesis unfolding GetPos_def by (metis word_unat_eq_iff)
qed

text \<open>The places of the ones.\<close>

fun true_at :: "nat \<Rightarrow> bool list \<Rightarrow> nat list" where
  "true_at n [] = []"
| "true_at n (b # bs) = (if b then n # true_at (Suc n) bs else true_at (Suc n) bs)"

lemma true_at_map: "true_at n (map P [n..<n + k]) = filter P [n..<n + k]"
proof (induction k arbitrary: n)
  case (Suc k)
  have "[n..<n + Suc k] = n # [Suc n..<Suc n + k]" by (simp add: upt_rec)
  with Suc [of "Suc n"] show ?case by simp
qed simp

definition xor_packet :: "(DWORD, timed_packet) omap \<Rightarrow> DWORD \<Rightarrow> DWORD \<Rightarrow> nat \<Rightarrow> recovery \<Rightarrow> recovery res" where
  "xor_packet medias base level0Size i c =
     (case map_find medias (base + of_nat i) of None \<Rightarrow> Fault NullDeref | Some media \<Rightarrow> recovery_xor level0Size media c)"

lemma xor_medias_fold:
  "reading n bs r \<Longrightarrow> length bs \<le> fuel \<Longrightarrow>
     xor_medias fuel medias base l r c = foldR (xor_packet medias base l) (true_at n bs) c"
proof (induction bs arbitrary: n r c fuel)
  case Nil
  then show ?case using reading_Left [of n "[]" r] by (simp add: xor_medias.simps [of fuel])
next
  case (Cons b bs)
  from Cons.prems(2) obtain f where f: "fuel = Suc f" "length bs \<le> f" by (cases fuel) auto
  have left: "br_Left r \<noteq> 0" using reading_Left [OF Cons.prems(1)] by simp
  from reading_Get [OF Cons.prems(1)] obtain v r' where
    v: "br_Get 1 r = Ok (v, r')" "v \<noteq> 0 \<longleftrightarrow> b" "reading (Suc n) bs r'" by blast
  have pos: "GetPos r' = 1 + of_nat n" using reading_GetPos [OF v(3)] by simp
  have e: "xor_medias f medias base l r' = foldR (xor_packet medias base l) (true_at (Suc n) bs)"
    using Cons.IH [OF v(3) f(2)] by (rule ext)
  show ?case
  proof (cases b)
    case True
    then show ?thesis using v left f e pos
      by (cases "map_find medias (base + of_nat n)") (simp_all add: xor_medias.simps [of "Suc f"] xor_packet_def [of medias base l n c])
  next
    case False
    then show ?thesis using v left f e by (simp add: xor_medias.simps [of "Suc f"])
  qed
qed


text \<open>All the packets but those of \<open>ps\<close> are left in the sum.\<close>

lemma xor_packets_sums:
  assumes "sums s ks l c" "distinct ks" "distinct ps" "set ps \<subseteq> set ks" "l \<le> 1500"
    and "\<And>k. k \<in> set ps \<Longrightarrow> length (sm_payload (s k)) \<le> l"
    and "\<And>k. k \<in> set ps \<Longrightarrow> \<exists>p. map_find medias (base + of_nat k) = Some p \<and> carries p (s k)"
  shows "\<exists>c'. foldR (xor_packet medias base (of_nat l)) ps c = Ok c' \<and> sums s (filter (\<lambda>k. k \<notin> set ps) ks) l c'"
  using assms
proof (induction ps arbitrary: ks c)
  case (Cons k ps)
  from Cons.prems(7) [of k] obtain p where p: "map_find medias (base + of_nat k) = Some p" "carries p (s k)" by auto
  have k: "k \<in> set ks" "length (sm_payload (s k)) \<le> l" using Cons.prems(4,6) by auto
  from recovery_xor_sums [OF Cons.prems(1) k(1) Cons.prems(2) p(2) k(2) Cons.prems(5)] obtain c1 where
    c1: "recovery_xor (of_nat l) p c = Ok c1" "sums s (filter (\<lambda>x. x \<noteq> k) ks) l c1" by blast
  have s: "distinct (filter (\<lambda>x. x \<noteq> k) ks)" "distinct ps" "set ps \<subseteq> set (filter (\<lambda>x. x \<noteq> k) ks)"
    using Cons.prems(2,3,4) by auto
  from Cons.IH [OF c1(2) s Cons.prems(5)] Cons.prems(6,7) obtain c' where
    c': "foldR (xor_packet medias base (of_nat l)) ps c1 = Ok c'"
    "sums s (filter (\<lambda>x. x \<notin> set ps) (filter (\<lambda>x. x \<noteq> k) ks)) l c'" by auto
  have "filter (\<lambda>x. x \<notin> set ps) (filter (\<lambda>x. x \<noteq> k) ks) = filter (\<lambda>x. x \<notin> set (k # ps)) ks"
    by (auto intro: filter_cong)
  with c' c1 p show ?case by (auto simp: xor_packet_def [of medias base _ k])
qed simp

section \<open>The masks\<close>

text \<open>The packets a FEC packet protects, by their distance from its base.\<close>

definition fec_offsets :: "fec_data \<Rightarrow> nat list" where
  "fec_offsets f = filter (\<lambda>i. bit (GetLevel0Mask f) (63 - i)) [0..<48]"

lemma mask_low: "bit (GetLevel0Mask f) j \<Longrightarrow> 16 \<le> j"
  by (auto simp: GetLevel0Mask_def Let_def bit_simps split: if_splits)

lemma set8_bits:
  obtains d where "set8 (replicate 8 0) 0 v = Ok d" "length d = 8" "bytes_bits d = word_bits 64 v"
proof -
  have b: "bytes_bits [ucast (drop_bit 56 v), ucast (drop_bit 48 v), ucast (drop_bit 40 v), ucast (drop_bit 32 v),
      ucast (drop_bit 24 v), ucast (drop_bit 16 v), ucast (drop_bit 8 v), ucast v] = word_bits 64 v" for v :: QWORD
    using word_bits_split [of 8 8 v] word_bits_split [of 8 16 v] word_bits_split [of 8 24 v] word_bits_split [of 8 32 v]
      word_bits_split [of 8 40 v] word_bits_split [of 8 48 v] word_bits_split [of 8 56 v]
    by (simp add: bytes_bits_Cons word_bits_ucast)
  have "replicate 8 (0 :: BYTE) = [0, 0, 0, 0, 0, 0, 0, 0]" by (simp add: eval_nat_numeral)
  then have "set8 (replicate 8 0) 0 v = Ok [ucast (drop_bit 56 v), ucast (drop_bit 48 v), ucast (drop_bit 40 v),
      ucast (drop_bit 32 v), ucast (drop_bit 24 v), ucast (drop_bit 16 v), ucast (drop_bit 8 v), ucast v]"
    by (simp add: set8_def)
  from that [OF this _ b] show thesis by simp
qed

lemma get8_bits:
  assumes "length d = 8"
  obtains v where "get8 d 0 = Ok v" "word_bits 64 v = bytes_bits d"
proof -
  from assms obtain b0 b1 b2 b3 b4 b5 b6 b7 where d: "d = [b0, b1, b2, b3, b4, b5, b6, b7]"
    by (auto simp: eval_nat_numeral length_Suc_conv)
  let ?w = "\<lambda>b0 b1 b2 b3 :: BYTE. ucast b3 OR push_bit 8 (ucast b2) OR push_bit 16 (ucast b1) OR push_bit 24 (ucast b0) :: DWORD"
  let ?v = "push_bit 32 (ucast (?w b0 b1 b2 b3)) OR ucast (?w b4 b5 b6 b7) :: QWORD"
  have "get8 d 0 = Ok ?v" by (simp add: d get8_def get4_def)
  moreover have "word_bits (32 + 32) ?v = word_bits 32 (?w b0 b1 b2 b3) @ word_bits 32 (?w b4 b5 b6 b7)"
    by (rule word_bits_append) (auto simp: bit_simps dest: bit_imp_le_length)
  then have "word_bits 64 ?v = bytes_bits d" by (simp add: word_of_bytes d bytes_bits_Cons)
  ultimately show thesis by (rule that)
qed


section \<open>The packets that are there\<close>

text \<open>The buffer of the writer is zero behind what has been written.\<close>

definition clean :: "bit_writer \<Rightarrow> bool" where
  "clean w \<longleftrightarrow> (\<forall>i. bw_at w \<le> i \<and> i < length (bw_data w) \<longrightarrow> bw_data w ! i = 0)"

lemma set_beyond:
  "set1 d k b = Ok d' \<Longrightarrow> k + 1 \<le> i \<Longrightarrow> d' ! i = d ! i \<and> length d' = length d"
  "set2 d k v = Ok d' \<Longrightarrow> k + 2 \<le> i \<Longrightarrow> d' ! i = d ! i \<and> length d' = length d"
  "set3 d k v = Ok d' \<Longrightarrow> k + 3 \<le> i \<Longrightarrow> d' ! i = d ! i \<and> length d' = length d"
  "set4 d k v = Ok d' \<Longrightarrow> k + 4 \<le> i \<Longrightarrow> d' ! i = d ! i \<and> length d' = length d"
  by (auto simp: set1_def set2_def set3_def set4_def byte_put_def nth_list_update split: if_splits)

lemma set_beyond_clean:
  assumes "clean w" "\<And>i. bw_at w + n \<le> i \<Longrightarrow> d ! i = bw_data w ! i \<and> length d = length (bw_data w)" "bw_data v = d" "bw_at v = bw_at w + n"
  shows "clean v"
  using assms unfolding clean_def by (metis add_leE)

lemma FlushCache_clean:
  assumes "FlushCache w = Ok w'" "clean w"
  shows "clean w'"
proof -
  consider "bw_data w' = bw_data w" "bw_at w' = bw_at w"
    | n d where "n \<in> {1, 2, 3, 4}" "bw_data w' = d" "bw_at w' = bw_at w + n"
        "n = 4 \<Longrightarrow> set4 (bw_data w) (bw_at w) (bw_cache w) = Ok d" "n = 3 \<Longrightarrow> set3 (bw_data w) (bw_at w) (bw_cache w) = Ok d"
        "n = 2 \<Longrightarrow> set2 (bw_data w) (bw_at w) (bw_cache w) = Ok d" "n = 1 \<Longrightarrow> set1 (bw_data w) (bw_at w) (ucast (bw_cache w)) = Ok d"
    using assms(1) by (auto simp: FlushCache_def Let_def split: if_splits)
  then show ?thesis
  proof cases
    case 1
    with assms(2) show ?thesis by (simp add: clean_def)
  next
    case (2 n d)
    from 2(1) have "d ! i = bw_data w ! i \<and> length d = length (bw_data w)" if "bw_at w + n \<le> i" for i
      using that 2(4,5,6,7) set_beyond(1) [of "bw_data w" "bw_at w" _ d i] set_beyond(2) [of "bw_data w" "bw_at w" _ d i]
        set_beyond(3) [of "bw_data w" "bw_at w" _ d i] set_beyond(4) [of "bw_data w" "bw_at w" _ d i] by auto
    from set_beyond_clean [OF assms(2) this 2(2,3)] show ?thesis .
  qed
qed

lemma Put_clean:
  assumes "Put n v w = Ok w'" "clean w"
  shows "clean w'"
proof (cases "unat n + unat (bw_cached w) > 32")
  case True
  with assms(1) obtain c u where u: "FlushCache (w\<lparr>bw_cache := c, bw_cached := 32\<rparr>) = Ok u"
    "bw_data w' = bw_data u" "bw_at w' = bw_at u" by (auto simp: Put_def Let_def)
  from FlushCache_clean [OF u(1)] assms(2) u(2,3) show ?thesis by (simp add: clean_def)
next
  case False
  with assms show ?thesis by (auto simp: Put_def Let_def clean_def)
qed

lemma Align_clean: "Align w = Ok w' \<Longrightarrow> clean w \<Longrightarrow> clean w'"
  by (auto simp: Align_def Let_def split: if_splits intro: Put_clean)

lemma clean_rest:
  assumes "clean w" "bw_at w \<le> length (bw_data w)"
  shows "bytes_bits (bw_data w) = bytes_bits (take (bw_at w) (bw_data w)) @ replicate (8 * (length (bw_data w) - bw_at w)) False"
proof -
  have "drop (bw_at w) (bw_data w) = replicate (length (bw_data w) - bw_at w) 0"
    using assms by (intro nth_equalityI) (auto simp: clean_def)
  moreover have "bytes_bits (replicate n 0) = replicate (8 * n) False" for n
    by (induction n) (simp_all add: bytes_bits_Cons word_bits_def numeral_eq_Suc)
  ultimately show ?thesis by (metis append_take_drop_id bytes_bits_append)
qed

lemma Flush_all:
  assumes w: "written xs w" and le: "length xs \<le> 8 * length (bw_data w)" and c: "clean w"
  shows "\<exists>l w'. Flush w = Ok (l, w') \<and> length (bw_data w') = length (bw_data w) \<and>
    bytes_bits (bw_data w') = xs @ replicate (8 * length (bw_data w) - length xs) False"
proof -
  from Align_written [OF w le] obtain v k n where
    v: "Align w = Ok v" "unat (bw_cached v) = 8 * n" "written (xs @ replicate k False) v"
    "length (bw_data v) = length (bw_data w)" "length xs + k \<le> 8 * length (bw_data w)" by blast
  from FlushCache_written [OF v(3,2)] v(4,5) obtain w' where
    w': "FlushCache v = Ok w'" "written (xs @ replicate k False) w'" "bw_cached w' = 0"
    "length (bw_data w') = length (bw_data w)" by auto
  from FlushCache_clean [OF w'(1)] Align_clean [OF v(1) c] have "clean w'" by simp
  moreover from w'(2,3) have at: "bw_at w' \<le> length (bw_data w')"
    "bytes_bits (take (bw_at w') (bw_data w')) = xs @ replicate k False" by (auto simp: written_def)
  ultimately have b: "bytes_bits (bw_data w') = xs @ replicate k False @ replicate (8 * (length (bw_data w') - bw_at w')) False"
    using clean_rest [of w'] by simp
  then have "8 * length (bw_data w') = length xs + (k + 8 * (length (bw_data w') - bw_at w'))"
    by (metis length_append length_bytes_bits length_replicate)
  then have "k + 8 * (length (bw_data w') - bw_at w') = 8 * length (bw_data w) - length xs" using w'(4) by simp
  with b have "bytes_bits (bw_data w') = xs @ replicate (8 * length (bw_data w) - length xs) False"
    by (simp flip: replicate_add)
  with v(1) w'(1,4) show ?thesis by (auto simp: Flush_def)
qed


text \<open>One bit.\<close>

lemma Put_one:
  assumes "written xs w" "clean w" "length xs < 64" "length (bw_data w) = 8"
  shows "\<exists>w'. Put 1 (of_bool b) w = Ok w' \<and> written (xs @ [b]) w' \<and> clean w' \<and> length (bw_data w') = 8"
proof -
  have "fits (unat (1 :: BYTE)) (of_bool b)" by (simp add: fits_def)
  from Put_written [OF assms(1) this] assms(3,4) obtain w' where
    "Put 1 (of_bool b) w = Ok w'" "written (xs @ word_bits 1 (of_bool b :: DWORD)) w'" "length (bw_data w') = 8" by auto
  moreover have "word_bits 1 (of_bool b :: DWORD) = [b]" by (simp add: word_bits_def)
  ultimately show ?thesis using Put_clean [OF _ assms(2)] by auto
qed

lemma lost_between_ok:
  assumes "written xs w" "clean w" "length (bw_data w) = 8" "length xs + n \<le> 64" "i + n < 2 ^ 32"
  shows "\<exists>w'. lost_between (of_nat i) (of_nat (i + n)) w ls = Ok (w', ls @ map of_nat [i..<i + n]) \<and>
    written (xs @ replicate n False) w' \<and> clean w' \<and> length (bw_data w') = 8"
  using assms
proof (induction n arbitrary: i xs w ls)
  case 0
  then show ?case by (simp add: lost_between.simps)
next
  case (Suc n)
  have lt: "(of_nat i :: DWORD) < of_nat (i + Suc n)"
    using Suc.prems(5) by (simp add: word_less_nat_alt unat_of_nat take_bit_nat_eq_self del: of_nat_add of_nat_Suc)
  from Put_one [OF Suc.prems(1,2) _ Suc.prems(3), of False] Suc.prems(4) obtain v where
    v: "Put 1 0 w = Ok v" "written (xs @ [False]) v" "clean v" "length (bw_data v) = 8" by auto
  from Suc.IH [OF v(2,3,4), of "Suc i" "ls @ [of_nat i]"] Suc.prems(4,5) obtain w' where
    w': "lost_between (of_nat (Suc i)) (of_nat (Suc i + n)) v (ls @ [of_nat i]) = Ok (w', (ls @ [of_nat i]) @ map of_nat [Suc i..<Suc i + n])"
    "written ((xs @ [False]) @ replicate n False) w'" "clean w'" "length (bw_data w') = 8" by auto
  have s: "of_nat i + 1 = (of_nat (Suc i) :: DWORD)" "i + Suc n = Suc i + n" by simp_all
  have u: "[i..<Suc (i + n)] = i # [Suc i..<Suc (i + n)]" by (rule upt_conv_Cons) simp
  from w' v(1) lt show ?case
    by (subst lost_between.simps) (simp add: s(2) u replicate_append_same del: of_nat_Suc of_nat_add upt_Suc add: s(1))
qed

lemma last_sorted: "sorted_wrt (<) (a # ns) \<Longrightarrow> a \<le> last (a # ns)" for a :: nat
  using last_in_set [of ns] by (cases "ns = []") (auto dest!: bspec [of "set ns" _ "last ns"])

lemma scan_medias_ok:
  assumes "written xs w" "clean w" "length (bw_data w) = 8" "sorted_wrt (<) (a # ns)"
    and "length xs + (last (a # ns) - a) \<le> 64" "last (a # ns) < 2 ^ 32"
  shows "\<exists>w'. scan_medias (map of_nat ns) (of_nat a) w ls =
      Ok (w', ls @ map of_nat (filter (\<lambda>k. k \<notin> set ns) [Suc a..<Suc (last (a # ns))])) \<and>
    written (xs @ map (\<lambda>k. k \<in> set ns) [Suc a..<Suc (last (a # ns))]) w' \<and> clean w' \<and> length (bw_data w') = 8"
  using assms
proof (induction ns arbitrary: a xs w ls)
  case (Cons n ns)
  define z where "z = last (n # ns)"
  have z: "last (a # n # ns) = z" "a < n" "n \<le> z" using Cons.prems(4) last_sorted [of n ns] by (auto simp: z_def)
  have len: "length xs + (n - Suc a) \<le> 64" "n < 2 ^ 32" "length xs + (n - Suc a) < 64"
    "length ((xs @ replicate (n - Suc a) False) @ [True]) + (z - n) \<le> 64" "z < 2 ^ 32"
    using Cons.prems(5,6) [unfolded z(1)] z(2,3) by auto
  from lost_between_ok [OF Cons.prems(1,2,3) len(1), of "Suc a" ls] z len(2) obtain u where
    u: "lost_between (of_nat (Suc a)) (of_nat n) w ls = Ok (u, ls @ map of_nat [Suc a..<n])"
    "written (xs @ replicate (n - Suc a) False) u" "clean u" "length (bw_data u) = 8" by auto
  from Put_one [OF u(2,3) _ u(4), of True] len(3) obtain v where
    v: "Put 1 1 u = Ok v" "written ((xs @ replicate (n - Suc a) False) @ [True]) v" "clean v" "length (bw_data v) = 8" by auto
  from Cons.IH [OF v(2,3,4), of n "ls @ map of_nat [Suc a..<n]"] Cons.prems(4) len(4,5) obtain w' where
    w': "scan_medias (map of_nat ns) (of_nat n) v (ls @ map of_nat [Suc a..<n]) =
      Ok (w', (ls @ map of_nat [Suc a..<n]) @ map of_nat (filter (\<lambda>k. k \<notin> set ns) [Suc n..<Suc z]))"
    "written (((xs @ replicate (n - Suc a) False) @ [True]) @ map (\<lambda>k. k \<in> set ns) [Suc n..<Suc z]) w'" "clean w'" "length (bw_data w') = 8"
    by (auto simp: z_def)
  have sp: "[Suc a..<Suc z] = [Suc a..<n] @ n # [Suc n..<Suc z]"
    using z upt_add_eq_append [of "Suc a" n "Suc z - n"] upt_conv_Cons [of n "Suc z"] by (simp del: upt_Suc)
  have above: "k \<in> set ns \<Longrightarrow> n < k" for k using Cons.prems(4) by auto
  have m: "map (\<lambda>k. k \<in> set (n # ns)) [Suc a..<n] = replicate (n - Suc a) False"
    by (intro nth_equalityI) (auto dest!: above)
  have m': "map (\<lambda>k. k \<in> set (n # ns)) [Suc n..<Suc z] = map (\<lambda>k. k \<in> set ns) [Suc n..<Suc z]"
    by (auto simp del: upt_Suc)
  have f: "filter (\<lambda>k. k \<notin> set (n # ns)) [Suc a..<n] = [Suc a..<n]" using above by (intro filter_True) (auto dest!: above)
  have f': "filter (\<lambda>k. k \<notin> set (n # ns)) [Suc n..<Suc z] = filter (\<lambda>k. k \<notin> set ns) [Suc n..<Suc z]"
    by (intro filter_cong) (auto simp del: upt_Suc)
  have "map (\<lambda>k. k \<in> set (n # ns)) [Suc a..<Suc z] = replicate (n - Suc a) False @ True # map (\<lambda>k. k \<in> set ns) [Suc n..<Suc z]"
    by (simp only: sp map_append list.map m m') simp
  moreover have "filter (\<lambda>k. k \<notin> set (n # ns)) [Suc a..<Suc z] = [Suc a..<n] @ filter (\<lambda>k. k \<notin> set ns) [Suc n..<Suc z]"
    by (simp only: sp filter_append filter.simps f f') simp
  ultimately show ?case using w' v(1) u(1) unfolding z(1)
    by (simp add: add.commute [of _ 1] del: upt_Suc set_simps)
qed simp


end
