(* ===== verification/FECDecoderProperties.thy ===== *)
theory FECDecoderProperties
  imports FECRecovery
begin

unbundle bit_operations_syntax

text \<open>
  The properties of the decoder of forward error correction: with FEC packets of the stream at hand it recovers exactly the
  packets that can be recovered; a crafted FEC packet keeps it busy for ever, and one that comes late makes it follow a
  null pointer.
\<close>

section \<open>FEC packets of a stream\<close>

text \<open>The stream \<open>s\<close> gives the media of each number.  \<open>protects s f\<close>: the FEC data \<open>f\<close> holds the exclusive or of the
  packets its mask names, as RFC 5109 asks for.\<close>

definition fec_numbers :: "fec_data \<Rightarrow> nat list" where
  "fec_numbers f = map (\<lambda>i. unat (GetBaseSeqNum f) + i) (fec_offsets f)"

definition protects :: "(nat \<Rightarrow> sent_media) \<Rightarrow> fec_data \<Rightarrow> bool" where
  "protects s f \<longleftrightarrow>
     length (fd_data f) = FEC_SIZE \<and> fd_cycles f = 0 \<and> unat (GetLevel0Size f) \<le> 1500 \<and>
     \<not> GetRecoveryP f \<and> \<not> GetRecoveryX f \<and> GetRecoveryCC f = 0 \<and>
     GetRecoveryM f = xor_total xor_bit False (map (\<lambda>k. sm_mark (s k)) (fec_numbers f)) \<and>
     GetRecoveryType f = xor_total (XOR) 0 (map (\<lambda>k. sm_type (s k)) (fec_numbers f)) \<and>
     GetRecoveryTimestamp f = xor_total (XOR) 0 (map (\<lambda>k. sm_ts (s k)) (fec_numbers f)) \<and>
     GetRecoveryLength f = xor_total (XOR) 0 (map (\<lambda>k. of_nat (length (sm_payload (s k)))) (fec_numbers f)) \<and>
     (\<forall>k \<in> set (fec_numbers f). length (sm_payload (s k)) \<le> unat (GetLevel0Size f)) \<and>
     (\<forall>j < unat (GetLevel0Size f). fd_data f ! (level0_at f + j) =
        xor_total (XOR) 0 (map (\<lambda>k. pad_at (sm_payload (s k)) j) (fec_numbers f)))"

text \<open>What the decoder holds: packets of the stream, in a window of 64 numbers, and FEC packets of it that begin in
  the window.\<close>

definition numbers :: "fec_decoder \<Rightarrow> nat list" where
  "numbers d = map (\<lambda>e. unat (fst e)) (fx_medias d)"

definition stream_of :: "(nat \<Rightarrow> sent_media) \<Rightarrow> fec_decoder \<Rightarrow> bool" where
  "stream_of s d \<longleftrightarrow> fx_medias d \<noteq> [] \<and> omap_wf (fx_medias d) \<and>
     (\<forall>e \<in> set (fx_medias d). unat (fst e) < 65536 \<and> GetExtSeqNum (snd e) = fst e \<and> carries (snd e) (s (unat (fst e)))) \<and>
     63 \<le> last (numbers d) \<and> last (numbers d) \<le> hd (numbers d) + 63 \<and>
     (\<forall>e \<in> set (fx_codes d). fst e = GetBaseExtSeq (snd e) \<and> protects s (snd e) \<and> hd (numbers d) \<le> unat (fst e))"






text \<open>A lost packet, and that a FEC packet and the packets at hand determine it.\<close>

definition is_lost :: "fec_decoder \<Rightarrow> nat \<Rightarrow> bool" where
  "is_lost d q \<longleftrightarrow> hd (numbers d) < q \<and> q < last (numbers d) \<and> q \<notin> set (numbers d)"

definition determined_by :: "fec_decoder \<Rightarrow> nat \<Rightarrow> fec_data \<Rightarrow> bool" where
  "determined_by d q f \<longleftrightarrow> q \<in> set (fec_numbers f) \<and> (\<forall>k \<in> set (fec_numbers f). k \<noteq> q \<longrightarrow> k \<in> set (numbers d))"


section \<open>The packet that is recovered\<close>

lemma recovery_start_sums:
  assumes "protects s f"
  shows "\<exists>c. recovery_start f = Ok c \<and>
    sums (\<lambda>i. s (unat (GetBaseSeqNum f) + i)) (fec_offsets f) (unat (GetLevel0Size f)) c"
proof -
  let ?l = "unat (GetLevel0Size f)" let ?xs = "take ?l (drop (level0_at f) (fd_data f))"
  have l: "?l \<le> 1500" "length (fd_data f) = FEC_SIZE" using assms by (simp_all add: protects_def)
  then have le: "level0_at f + ?l \<le> length (fd_data f)" by (simp add: level0_at_def FEC_SIZE_def)
  then have len: "length ?xs = ?l" by simp
  have d: "(?xs @ replicate (FEC_SIZE - ?l) 0) ! j =
      (if j < ?l then xor_total (XOR) 0 (map (\<lambda>i. pad_at (sm_payload (s (unat (GetBaseSeqNum f) + i))) j) (fec_offsets f)) else 0)"
    if "j < FEC_SIZE" for j
    using assms that len le by (simp add: protects_def nth_append fec_numbers_def comp_def)
  show ?thesis
    using assms d le l by (simp add: recovery_start_def copy_out_def sums_def protects_def fec_numbers_def comp_def FEC_SIZE_def)
qed




lemma seven_bits:
  fixes v :: BYTE
  assumes "v < 128"
  shows "take_bit 7 (ucast v :: DWORD) = ucast v"
proof (rule bit_word_eqI)
  fix j
  have "v < 2 ^ 7" using assms by simp
  then have "bit v j \<Longrightarrow> j < 7" using less_mask_eq [of v 7] by (metis bit_and_iff bit_mask_iff)
  then show "bit (take_bit 7 (ucast v :: DWORD)) j = bit (ucast v :: DWORD) j" by (auto simp: bit_simps)
qed

lemma recovered_packet_carries:
  assumes c: "sums s [i] l c" and x: "length (sm_payload (s i)) \<le> l" "l \<le> 1500" "sm_type (s i) < 128"
    and junk: "length (fm_junk m) = RTP_SIZE"
  shows "\<exists>p. recovered_packet m ssrc sq cycles c = Ok (True, p) \<and> carries p (s i) \<and> GetSeqNum p = ucast sq \<and>
    rp_cycles p = cycles \<and> rp_codec p = ucast (sm_type (s i))"
proof -
  let ?x = "s i" let ?y = "sm_payload ?x" let ?n = "length ?y"
  have f: "\<not> rc_p c" "\<not> rc_x c" "rc_m c = sm_mark ?x" "rc_pt c = sm_type ?x" "rc_ts c = sm_ts ?x" "rc_l c = of_nat ?n"
    "length (rc_data c) = FEC_SIZE" using c by (simp_all add: sums_def xor_bool.total_one xor_word.total_one)
  have d: "rc_data c ! j = ?y ! j" if "j < ?n" for j
    using c that x by (simp add: sums_def xor_word.total_one FEC_SIZE_def pad_at_def)
  let ?new = "RTPTimedPacket_new (fm_now m) (fm_junk m) (fm_len m) Video (ucast (rc_pt c))"
  let ?h = "SetSSRC ssrc ((SetSeqNum (ucast sq) (SetTimestamp (rc_ts c) (SetMark (rc_m c) (SetX (rc_x c) (SetP (rc_p c) ?new)))))\<lparr>rp_cycles := cycles\<rparr>)"
  note new = new_packet [OF junk, of "fm_len m" Video "ucast (rc_pt c)" "ucast (rc_pt c)"]
  note t7 = seven_bits [OF x(3)]
  have wf0: "rtp_wf ?new" using new(1) by (simp add: RTPTimedPacket_new_def)
  have h: "rtp_wf ?h" "\<not> GetX ?h" "\<not> GetP ?h" "GetCC ?h = 0" "GetMark ?h = sm_mark ?x" "GetTimestamp ?h = sm_ts ?x"
    "GetType ?h = ucast (sm_type ?x)" "GetSeqNum ?h = ucast sq" "rp_cycles ?h = cycles" "rp_codec ?h = ucast (sm_type ?x)"
    using wf0 f new t7
    by (simp_all add: RTPTimedPacket_new_def) (simp_all add: fields get_field_other get_field_set)
  have n: "unat (ucast (rc_l c) :: DWORD) = ?n" using f x by (simp add: unsigned_ucast_eq unat_of_nat take_bit_nat_eq_self)
  have lb: "length (rp_buffer ?h) = 1700" using h(1) unfolding rtp_wf_def RTP_SIZE_def .
  let ?b = "take 12 (rp_buffer ?h) @ take ?n (rc_data c) @ drop (12 + ?n) (rp_buffer ?h)"
  let ?p = "?h\<lparr>rp_buffer := ?b, rp_len := ucast (rc_l c)\<rparr>"
  have set: "SetPayload (rc_data c) (ucast (rc_l c)) ?h = Ok (True, ?p)"
    using SetPayload_plain [OF h(1,2,4), of "ucast (rc_l c)" "rc_data c"] n x f(7) by (simp add: FEC_SIZE_def)
  have y: "take ?n (rc_data c) = ?y" using d x f(7) by (intro nth_equalityI) (simp_all add: FEC_SIZE_def)
  note ff = filled_fields [OF lb refl]
  have "unat (of_nat ?n :: DWORD) = ?n" using x by (simp add: unat_of_nat take_bit_nat_eq_self)
  with n have len: "(ucast (rc_l c) :: DWORD) = of_nat ?n" by (metis word_unat_eq_iff)
  have "carries ?p ?x"
    using h ff y len x lb by (simp add: carries_def rtp_wf_def RTP_SIZE_def fields)
  moreover have "recovered_packet m ssrc sq cycles c = Ok (True, ?p)"
    using set h(2) by (simp add: recovered_packet_def SetPayloadWithExtensionData_def)
  ultimately show ?thesis using h ff by auto
qed

section \<open>The masks of a code\<close>

lemma in_fec_numbers: "k \<in> set (fec_numbers f) \<longleftrightarrow> (\<exists>i<48. k = unat (GetBaseSeqNum f) + i \<and> bit (GetLevel0Mask f) (63 - i))"
  by (auto simp: fec_numbers_def fec_offsets_def)

lemma fec_number_bit:
  "unat (GetBaseSeqNum f) + i \<in> set (fec_numbers f) \<longleftrightarrow> i < 64 \<and> bit (GetLevel0Mask f) (63 - i)"
  using mask_low [of f "63 - i"] by (auto simp: in_fec_numbers)

lemma of_nat_word_diff: "b \<le> q \<Longrightarrow> (of_nat q :: 'a::len word) - of_nat b = of_nat (q - b)"
  by (simp add: of_nat_diff)

lemma ucast_unat: "(ucast w :: DWORD) = of_nat (unat w)" for w :: WORD
proof -
  have "unat w < 2 ^ 16" using unsigned_less [of w, where ?'a = nat] by simp
  then have "unat (ucast w :: DWORD) = unat w" "unat (of_nat (unat w) :: DWORD) = unat w"
    by (simp_all add: unsigned_ucast_eq unsigned_of_nat take_bit_nat_eq_self)
  then show ?thesis by (metis word_unat_eq_iff)
qed

lemma GetBaseExtSeq_nat: "fd_cycles f = 0 \<Longrightarrow> GetBaseExtSeq f = of_nat (unat (GetBaseSeqNum f))"
  unfolding GetBaseExtSeq_def ucast_unat by simp

lemma IsProtected_iff:
  assumes q: "q < 65536"
  shows "IsProtectedAtLevel0 (of_nat q) f \<longleftrightarrow> q \<in> set (fec_numbers f)"
proof -
  let ?b = "unat (GetBaseSeqNum f)"
  have "uint (GetBaseSeqNum f) = int ?b" by simp
  then have b: "int q < uint (GetBaseSeqNum f) \<longleftrightarrow> q < ?b" "int q > uint (GetBaseSeqNum f) + 48 \<longleftrightarrow> q > ?b + 48" by linarith+
  have s: "sint (of_nat q :: DWORD) = int q"
    using q by (simp add: signed_of_nat signed_take_bit_int_eq_self)
  show ?thesis
  proof (cases "?b \<le> q \<and> q \<le> ?b + 48")
    case False
    then have "\<not> IsProtectedAtLevel0 (of_nat q) f" unfolding IsProtectedAtLevel0_def s b by auto
    moreover have "q \<notin> set (fec_numbers f)" using False by (auto simp: in_fec_numbers)
    ultimately show ?thesis by simp
  next
    case True
    define i where "i = q - ?b"
    have i: "q = ?b + i" "i \<le> 48" using True by (auto simp: i_def)
    have "(of_nat q :: DWORD) - ucast (GetBaseSeqNum f) = of_nat i"
      using of_nat_word_diff [of ?b q, where ?'a = 32] True unfolding ucast_unat i_def by blast
    moreover have "unat (ucast (of_nat i :: DWORD) :: BYTE) = i"
      using i(2) by (simp add: unsigned_ucast_eq unat_of_nat take_bit_nat_eq_self)
    ultimately have "IsProtectedAtLevel0 (of_nat q) f \<longleftrightarrow> bit (GetLevel0Mask f) (63 - i)"
      using True unfolding IsProtectedAtLevel0_def s b by auto
    also have "\<dots> \<longleftrightarrow> q \<in> set (fec_numbers f)" using fec_number_bit [of f i] i by auto
    finally show ?thesis .
  qed
qed

text \<open>The mask without the lost packet, and the mask of the packets at hand, shifted to the base.\<close>

lemma fec_mask_bit:
  assumes k: "k < 48" and i: "i < 64"
  shows "bit (GetLevel0Mask f AND NOT (shl 1 (unat (64 - of_nat k - 1 :: DWORD)))) (63 - i) \<longleftrightarrow>
    unat (GetBaseSeqNum f) + i \<in> set (fec_numbers f) \<and> i \<noteq> k"
proof -
  have "(64 - of_nat k - 1 :: DWORD) = of_nat 63 - of_nat k" by simp
  also have "\<dots> = of_nat (63 - k)" using k by (intro of_nat_word_diff) simp
  finally have u: "unat (64 - of_nat k - 1 :: DWORD) = 63 - k"
    using k by (simp add: unat_of_nat take_bit_nat_eq_self del: of_nat_diff)
  have "bit (shl 1 (63 - k) :: QWORD) (63 - i) \<longleftrightarrow> i = k" using k i by (auto simp: shl_def bit_simps)
  moreover have "63 - i < 64" by simp
  ultimately show ?thesis unfolding u fec_number_bit using i by (simp only: bit_and_iff bit_not_iff possible_bit_word) simp
qed

lemma media_mask_bit:
  assumes lm: "\<And>i. i < 64 \<Longrightarrow> bit lostMask (63 - i) \<longleftrightarrow> a + i \<in> N" and N: "\<And>n. n \<in> N \<Longrightarrow> n \<le> a + 63"
    and b: "a \<le> b" "b \<le> a + 63" and i: "i < 64"
  shows "bit (shl lostMask (unat (of_nat b - of_nat a :: DWORD)) :: QWORD) (63 - i) \<longleftrightarrow> b + i \<in> N"
proof -
  define n where "n = b - a"
  have n: "b = a + n" "n < 64" using b by (auto simp: n_def)
  have u: "unat (of_nat b - of_nat a :: DWORD) = n"
    using b of_nat_word_diff [of a b, where ?'a = 32] by (simp add: n_def unat_of_nat take_bit_nat_eq_self del: of_nat_diff)
  have sh: "shl lostMask n = push_bit n lostMask" using n by (simp add: shl_def)
  have l: "63 - i < (64 :: nat)" by simp
  have "bit (push_bit n lostMask) (63 - i) \<longleftrightarrow> n \<le> 63 - i \<and> bit lostMask (63 - i - n)"
    using l by (simp only: bit_push_bit_iff possible_bit_word) simp
  also have "\<dots> \<longleftrightarrow> b + i \<in> N"
  proof (cases "n + i < 64")
    case True
    then have "63 - i - n = 63 - (n + i)" "n \<le> 63 - i" by linarith+
    with True lm [of "n + i"] n show ?thesis by (simp add: ac_simps)
  next
    case False
    then have "b + i \<notin> N" using N n by fastforce
    moreover have "\<not> n \<le> 63 - i" using False i by linarith
    ultimately show ?thesis by blast
  qed
  finally show ?thesis unfolding u sh .
qed

lemma mask_subset: "A AND B = A \<longleftrightarrow> (\<forall>i<64. bit A (63 - i) \<longrightarrow> bit B (63 - i))" for A B :: QWORD
proof
  assume "A AND B = A"
  then show "\<forall>i<64. bit A (63 - i) \<longrightarrow> bit B (63 - i)" by (metis bit_and_iff)
next
  assume h: "\<forall>i<64. bit A (63 - i) \<longrightarrow> bit B (63 - i)"
  show "A AND B = A"
  proof (rule bit_word_eqI)
    fix j assume "j < LENGTH(64)"
    then have "63 - (63 - j) = j" "63 - j < 64" by simp_all
    with h have "bit A j \<longrightarrow> bit B j" by metis
    then show "bit (A AND B) j = bit A j" by (auto simp: bit_simps)
  qed
qed

lemma word_bits_64: "word_bits 64 v = map (\<lambda>i. bit v (63 - i)) [0..<64]"
  by (rule nth_equalityI) (simp_all add: nth_word_bits)


section \<open>One code\<close>

lemma numbers_mem: "k \<in> set (numbers d) \<longleftrightarrow> (\<exists>e \<in> set (fx_medias d). unat (fst e) = k)"
  by (auto simp: numbers_def)

lemma stream_find:
  assumes s: "stream_of s d" and k: "k \<in> set (numbers d)"
  shows "\<exists>p. map_find (fx_medias d) (of_nat k) = Some p \<and> carries p (s k)"
proof -
  from k obtain e where e: "e \<in> set (fx_medias d)" "unat (fst e) = k" by (auto simp: numbers_mem)
  then have "of_nat k = fst e" by auto
  with e s show ?thesis by (auto simp: stream_of_def map_find_in_iff intro!: exI [of _ "snd e"])
qed

lemma stream_find_None:
  assumes "q \<notin> set (numbers d)" "q < 65536"
  shows "map_find (fx_medias d) (of_nat q) = None"
proof -
  have "of_nat q \<notin> fst ` set (fx_medias d)"
  proof
    assume "of_nat q \<in> fst ` set (fx_medias d)"
    then obtain e where "e \<in> set (fx_medias d)" "fst e = of_nat q" by auto
    moreover from this assms(2) have "unat (fst e) = q" by (simp add: unsigned_of_nat take_bit_nat_eq_self)
    ultimately show False using assms(1) by (auto simp: numbers_mem)
  qed
  then show ?thesis by (simp add: map_find_None_iff)
qed

lemma numbers_sorted: "stream_of s d \<Longrightarrow> sorted_wrt (<) (numbers d)"
  by (simp add: stream_of_def omap_wf_def numbers_def sorted_wrt_map word_less_nat_alt)

lemma numbers_bounds:
  assumes "stream_of s d" "k \<in> set (numbers d)"
  shows "hd (numbers d) \<le> k" "k \<le> last (numbers d)" "k < 65536"
proof -
  have so: "sorted_wrt (<) (numbers d)" using numbers_sorted [OF assms(1)] .
  from so have sd: "sorted (numbers d)" by (simp add: strict_sorted_iff)
  show "hd (numbers d) \<le> k" using sd assms(2) by (cases "numbers d") auto
  show "k \<le> last (numbers d)" using sd assms(2) by (cases "numbers d" rule: rev_cases) (auto simp: sorted_append)
  have "\<forall>e \<in> set (fx_medias d). unat (fst e) < 65536" using assms(1) unfolding stream_of_def by blast
  with assms(2) show "k < 65536" unfolding numbers_mem by blast
qed

lemma one_left: "distinct xs \<Longrightarrow> set xs = {x} \<Longrightarrow> xs = [x]"
  by (cases xs) (auto simp: subset_singleton_iff)

text \<open>The sum of the packets at hand leaves the lost one.\<close>

lemma xor_leaves_lost:
  assumes s: "stream_of s d" and f: "protects s f" and q: "q \<in> set (fec_numbers f)" "\<forall>k \<in> set (fec_numbers f). k \<noteq> q \<longrightarrow> k \<in> set (numbers d)"
    and lq: "q \<notin> set (numbers d)"
    and c: "sums (\<lambda>i. s (unat (GetBaseSeqNum f) + i)) (fec_offsets f) (unat (GetLevel0Size f)) c"
    and v: "\<And>i. i < 64 \<Longrightarrow> bit v (63 - i) \<longleftrightarrow> unat (GetBaseSeqNum f) + i \<in> set (fec_numbers f) \<and> i \<noteq> q - unat (GetBaseSeqNum f)"
  shows "\<exists>aux c'. set8 (replicate 8 0) 0 v = Ok aux \<and>
    xor_medias 64 (fx_medias d) (GetBaseExtSeq f) (GetLevel0Size f) (BitReader_new aux 8) c = Ok c' \<and>
    sums (\<lambda>i. s (unat (GetBaseSeqNum f) + i)) [q - unat (GetBaseSeqNum f)] (unat (GetLevel0Size f)) c'"
proof -
  let ?b = "unat (GetBaseSeqNum f)" let ?l = "unat (GetLevel0Size f)" let ?k = "q - ?b"
  obtain aux where aux: "set8 (replicate 8 0) 0 v = Ok aux" "length aux = 8" "bytes_bits aux = word_bits 64 v"
    by (rule set8_bits)
  have "reading 0 (word_bits 64 v) (BitReader_new aux 8)"
    using aux by (simp add: reading_def readable_def BitReader_new_def top_bits_def)
  from xor_medias_fold [OF this, of 64]
  have x: "xor_medias 64 (fx_medias d) (GetBaseExtSeq f) (GetLevel0Size f) (BitReader_new aux 8) c =
      foldR (xor_packet (fx_medias d) (GetBaseExtSeq f) (GetLevel0Size f)) (true_at 0 (word_bits 64 v)) c" by simp
  define ps where "ps = true_at 0 (word_bits 64 v)"
  have ps: "ps = filter (\<lambda>i. bit v (63 - i)) [0..<64]"
    unfolding ps_def word_bits_64 using true_at_map [of 0 _ 64] by simp
  have mem: "i \<in> set ps \<longleftrightarrow> ?b + i \<in> set (fec_numbers f) \<and> i \<noteq> ?k" for i
    using v [of i] fec_number_bit [of f i] by (auto simp: ps)
  have offs: "i \<in> set (fec_offsets f) \<longleftrightarrow> ?b + i \<in> set (fec_numbers f)" for i by (auto simp: fec_numbers_def)
  have qk: "q = ?b + ?k" using q(1) by (auto simp: in_fec_numbers)
  have "\<exists>c'. foldR (xor_packet (fx_medias d) (of_nat ?b) (of_nat ?l)) ps c = Ok c' \<and>
      sums (\<lambda>i. s (?b + i)) (filter (\<lambda>k. k \<notin> set ps) (fec_offsets f)) ?l c'"
  proof (rule xor_packets_sums [OF c])
    show "distinct (fec_offsets f)" "distinct ps" by (simp_all add: fec_offsets_def ps)
    show "set ps \<subseteq> set (fec_offsets f)" using mem offs by blast
    show "?l \<le> 1500" using f by (simp add: protects_def)
    show "length (sm_payload (s (?b + k))) \<le> ?l" if "k \<in> set ps" for k using f that mem by (simp add: protects_def)
    show "\<exists>p. map_find (fx_medias d) (of_nat ?b + of_nat k) = Some p \<and> carries p (s (?b + k))" if "k \<in> set ps" for k
    proof -
      have "?b + k \<in> set (fec_numbers f)" "?b + k \<noteq> q" using that mem [of k] qk by auto
      with q(2) stream_find [OF s, of "?b + k"] show ?thesis by simp
    qed
  qed
  moreover have "filter (\<lambda>k. k \<notin> set ps) (fec_offsets f) = [?k]"
  proof (rule one_left)
    have "?b + ?k \<in> set (fec_numbers f)" using q(1) qk by metis
    then show "set (filter (\<lambda>k. k \<notin> set ps) (fec_offsets f)) = {?k}" by (auto simp: mem offs)
  qed (simp add: fec_offsets_def)
  moreover have "GetBaseExtSeq f = of_nat ?b" using f GetBaseExtSeq_nat by (auto simp: protects_def)
  ultimately show ?thesis using x aux(1) by (simp add: ps_def)
qed


section \<open>Adding what has been recovered\<close>




lemma lost_small: "stream_of s d \<Longrightarrow> is_lost d q \<Longrightarrow> q < 65536"
proof -
  assume s: "stream_of s d" and q: "is_lost d q"
  have "numbers d \<noteq> []" using s unfolding stream_of_def by (auto simp: numbers_def)
  with numbers_bounds(3) [OF s, of "last (numbers d)"] q show "q < 65536" by (simp add: is_lost_def)
qed



section \<open>One call\<close>

text \<open>The mask of the packets at hand.\<close>

definition mask_of :: "fec_decoder \<Rightarrow> QWORD \<Rightarrow> bool" where
  "mask_of d v \<longleftrightarrow> (\<forall>i<64. bit v (63 - i) \<longleftrightarrow> hd (numbers d) + i \<in> set (numbers d))"

lemma ext_number:
  assumes "GetSeqNum p = ucast (of_nat q :: DWORD)" "rp_cycles p = 0" "q < 65536"
  shows "GetExtSeqNum p = of_nat q"
proof -
  have "unat (ucast (of_nat q :: DWORD) :: WORD) = q"
    using assms(3) by (simp add: unsigned_ucast_eq unsigned_of_nat take_bit_nat_eq_self)
  with assms(1) have "unat (GetSeqNum p) = q" by simp
  then show ?thesis unfolding GetExtSeqNum_def ucast_unat using assms(2) by simp
qed

lemma try_code_cases:
  assumes s: "stream_of s d" and ty: "sm_type (s q) < 128" and q: "is_lost d q" and e: "e \<in> set (fx_codes d)"
    and v: "mask_of d v" and junk: "length (fm_junk m) = RTP_SIZE"
  shows "if determined_by d q (snd e)
    then \<exists>p. try_code m ssrc (of_nat (hd (numbers d))) v (of_nat q) (snd e) d =
        bindR (FEC_AddPacket m (Timed p) d) (\<lambda>(media, d). Ok (if media then Some p else None, d)) \<and>
      carries p (s q) \<and> GetExtSeqNum p = of_nat q \<and> rp_codec p = ucast (sm_type (s q))
    else try_code m ssrc (of_nat (hd (numbers d))) v (of_nat q) (snd e) d = Ok (None, d)"
proof -
  define f where "f = snd e"
  let ?a = "hd (numbers d)" let ?b = "unat (GetBaseSeqNum f)"
  from s e have f: "protects s f" and ek: "fst e = GetBaseExtSeq f" "?a \<le> unat (fst e)"
    unfolding stream_of_def f_def by blast+
  then have base: "GetBaseExtSeq f = of_nat ?b" and cy: "fd_cycles f = 0" using GetBaseExtSeq_nat by (auto simp: protects_def)
  have "?b < 65536" using unsigned_less [of "GetBaseSeqNum f", where ?'a = nat] by simp
  then have "unat (GetBaseExtSeq f) = ?b" unfolding base by (simp only: unsigned_of_nat) (simp add: take_bit_nat_eq_self)
  then have ab: "?a \<le> ?b" using ek by simp
  have q16: "q < 65536" using lost_small [OF s q] .
  note prot = IsProtected_iff [OF q16, of f]
  have lasts: "last (numbers d) \<le> ?a + 63" using s unfolding stream_of_def by blast
  show ?thesis
  proof (cases "q \<in> set (fec_numbers f)")
    case False
    then show ?thesis using prot by (simp add: try_code_def determined_by_def flip: f_def)
  next
    case True
    then obtain k where k: "q = ?b + k" "k < 48" by (auto simp: in_fec_numbers)
    have qb: "q - ?b = k" using k by simp
    have diff: "(of_nat q :: DWORD) - GetBaseExtSeq f = of_nat k" using k base by simp
    have b63: "?b \<le> ?a + 63" using q k(1) lasts by (simp add: is_lost_def)
    let ?F = "GetLevel0Mask f AND NOT (shl 1 (unat (64 - of_nat k - 1 :: DWORD)))"
    let ?M = "shl v (unat (GetBaseExtSeq f - of_nat ?a))"
    have F: "bit ?F (63 - i) \<longleftrightarrow> ?b + i \<in> set (fec_numbers f) \<and> i \<noteq> k" if "i < 64" for i
      by (rule fec_mask_bit [OF k(2) that])
    have M: "bit ?M (63 - i) \<longleftrightarrow> ?b + i \<in> set (numbers d)" if "i < 64" for i
      unfolding base
    proof (rule media_mask_bit [OF _ _ ab b63 that])
      show "n \<le> ?a + 63" if "n \<in> set (numbers d)" for n using numbers_bounds(2) [OF s that] lasts by simp
    qed (use v in \<open>simp add: mask_of_def\<close>)
    have sub: "?F AND ?M = ?F \<longleftrightarrow> (\<forall>n \<in> set (fec_numbers f). n \<noteq> q \<longrightarrow> n \<in> set (numbers d))"
      unfolding mask_subset
    proof
      assume h: "\<forall>i<64. bit ?F (63 - i) \<longrightarrow> bit ?M (63 - i)"
      show "\<forall>n \<in> set (fec_numbers f). n \<noteq> q \<longrightarrow> n \<in> set (numbers d)"
      proof (intro ballI impI)
        fix n assume n: "n \<in> set (fec_numbers f)" "n \<noteq> q"
        then obtain i where i: "n = ?b + i" "i < 48" by (auto simp: in_fec_numbers)
        with n k F [of i] M [of i] h show "n \<in> set (numbers d)" by auto
      qed
    next
      assume h: "\<forall>n \<in> set (fec_numbers f). n \<noteq> q \<longrightarrow> n \<in> set (numbers d)"
      show "\<forall>i<64. bit ?F (63 - i) \<longrightarrow> bit ?M (63 - i)"
      proof (intro allI impI)
        fix i :: nat assume "i < 64" "bit ?F (63 - i)"
        with F [of i] M [of i] h k show "bit ?M (63 - i)" by auto
      qed
    qed
    show ?thesis
    proof (cases "determined_by d q f")
      case False
      then have "?F AND ?M \<noteq> ?F" using sub True by (simp add: determined_by_def)
      then have "try_code m ssrc (of_nat ?a) v (of_nat q) f d = Ok (None, d)"
        using True prot unfolding try_code_def Let_def diff by simp
      with False show ?thesis by (simp add: f_def)
    next
      case det: True
      then have eq: "?F AND ?M = ?F" using sub by (simp add: determined_by_def)
      obtain c where c: "recovery_start f = Ok c"
        "sums (\<lambda>i. s (?b + i)) (fec_offsets f) (unat (GetLevel0Size f)) c" using recovery_start_sums [OF f] by blast
      have lq: "q \<notin> set (numbers d)" using q by (simp add: is_lost_def)
      have rest: "\<forall>n \<in> set (fec_numbers f). n \<noteq> q \<longrightarrow> n \<in> set (numbers d)" using det by (simp add: determined_by_def)
      from xor_leaves_lost [OF s f True rest lq c(2), of ?F] F qb obtain aux c' where
        x: "set8 (replicate 8 0) 0 ?F = Ok aux"
        "xor_medias 64 (fx_medias d) (GetBaseExtSeq f) (GetLevel0Size f) (BitReader_new aux 8) c = Ok c'"
        "sums (\<lambda>i. s (?b + i)) [k] (unat (GetLevel0Size f)) c'" by auto
      have ln: "length (sm_payload (s (?b + k))) \<le> unat (GetLevel0Size f)" "unat (GetLevel0Size f) \<le> 1500" "sm_type (s (?b + k)) < 128"
        using f True k(1) ty by (auto simp: protects_def)
      from recovered_packet_carries [OF x(3) ln junk, of ssrc "of_nat q" "fd_cycles f"] obtain p where
        p: "recovered_packet m ssrc (of_nat q) (fd_cycles f) c' = Ok (True, p)" "carries p (s q)" "GetSeqNum p = ucast (of_nat q :: DWORD)"
        "rp_cycles p = 0" "rp_codec p = ucast (sm_type (s q))" using k(1) cy by auto
      have pn: "GetExtSeqNum p = of_nat q" using ext_number [OF p(3,4) q16] .
      have sz: "\<not> GetLevel0Size f > 1500" using ln(2) by (simp add: word_less_nat_alt)
      have "try_code m ssrc (of_nat ?a) v (of_nat q) f d =
          bindR (FEC_AddPacket m (Timed p) d) (\<lambda>(media, d). Ok (if media then Some p else None, d))"
        using True prot eq sz c(1) x(1,2) p(1) unfolding try_code_def Let_def diff by simp
      with det p(2,5) pn show ?thesis by (auto simp: f_def)
    qed
  qed
qed






lemma numbers_codes [simp]: "numbers (d\<lparr>fx_codes := cs\<rparr>) = numbers d"
  by (simp add: numbers_def)

lemma stream_no_codes: "stream_of s d \<Longrightarrow> stream_of s (d\<lparr>fx_codes := []\<rparr>)"
  unfolding stream_of_def by simp

lemma FEC_Recover_scan:
  assumes s: "stream_of s (d\<lparr>fx_codes := []\<rparr>)"
  shows "\<exists>ssrc v qs. mask_of d v \<and> (\<forall>q. q \<in> set qs \<longleftrightarrow> is_lost d q) \<and>
    FEC_Recover fuel m d = (if qs = [] then Ok (None, d)
      else try_losts fuel m ssrc (of_nat (hd (numbers d))) v (map of_nat qs) d)"
proof -
  obtain e es where es: "fx_medias d = e # es" using s unfolding stream_of_def numbers_codes by (cases "fx_medias d") auto
  define a where "a = hd (numbers d)"
  have ae: "a = unat (fst e)" by (simp add: numbers_def es a_def)
  have keys: "map fst (fx_medias d) = map of_nat (numbers d)" by (simp add: numbers_def comp_def)
  have "GetExtSeqNum (snd e) = fst e" using s es unfolding stream_of_def by auto
  then have first: "GetExtSeqNum (snd e) = of_nat a" using ae by simp
  define ns z where "ns = map (\<lambda>e. unat (fst e)) es" and "z = last (numbers d)"
  have nums: "numbers d = a # ns" by (simp add: numbers_def es ns_def a_def)
  have z: "z = last (a # ns)" unfolding z_def nums by (rule refl)
  have "z \<in> set (numbers d)" unfolding z_def nums by (rule last_in_set) simp
  note zb = this numbers_bounds [OF s, unfolded numbers_codes, OF this, folded a_def]
  have z63: "z \<le> a + 63" using s unfolding stream_of_def numbers_codes z_def a_def by blast
  let ?w0 = "BitWritter_new (replicate 8 0) 8"
  have w0: "written [] ?w0" "clean ?w0" "length (bw_data ?w0) = 8"
    using BitWritter_new_written [of "replicate 8 0"] by (simp_all add: clean_def BitWritter_new_def bw_Reset_def)
  have lb: "lost_between (of_nat a + 1) (of_nat a) ?w0 [] = Ok (?w0, [])"
  proof -
    have "a < 65536" using zb by simp
    then have "unat (of_nat a + 1 :: DWORD) = a + 1" "unat (of_nat a :: DWORD) = a"
      by (simp_all add: unat_word_ariths unsigned_of_nat take_bit_nat_eq_self)
    then show ?thesis by (subst lost_between.simps) (simp add: word_less_nat_alt)
  qed
  from Put_one [OF w0(1,2) _ w0(3), of True] obtain w1 where
    w1: "Put 1 1 ?w0 = Ok w1" "written [True] w1" "clean w1" "length (bw_data w1) = 8" by auto
  let ?bits = "map (\<lambda>k. k \<in> set ns) [Suc a..<Suc z]" let ?qs = "filter (\<lambda>k. k \<notin> set ns) [Suc a..<Suc z]"
  have so: "sorted_wrt (<) (a # ns)" using numbers_sorted [OF s, unfolded numbers_codes] nums by metis
  have za: "z - a \<le> 63" using z63 by linarith
  from scan_medias_ok [OF w1(2,3,4) so, of "[]"] za zb(4) obtain w2 where
    w2: "scan_medias (map of_nat ns) (of_nat a) w1 [] = Ok (w2, map of_nat ?qs)" "written (True # ?bits) w2" "clean w2" "length (bw_data w2) = 8"
    unfolding z [symmetric] by (auto simp del: upt_Suc)
  have scan: "scan_medias (map fst (fx_medias d)) (GetExtSeqNum (snd e)) ?w0 [] = Ok (w2, map of_nat ?qs)"
    unfolding keys first nums using lb w1(1) w2(1) by (simp del: upt_Suc)
  have len: "length (True # ?bits) = Suc (z - a)" using zb(2) by (simp del: upt_Suc)
  then have le: "length (True # ?bits) \<le> 8 * length (bw_data w2)" using w2(4) za by linarith
  from Flush_all [OF w2(2) le w2(3)] obtain l w3 where
    w3: "Flush w2 = Ok (l, w3)" "length (bw_data w3) = 8"
    "bytes_bits (bw_data w3) = (True # ?bits) @ replicate (64 - length (True # ?bits)) False" using w2(4) by auto
  obtain v where v: "get8 (bw_data w3) 0 = Ok v" "word_bits 64 v = bytes_bits (bw_data w3)" by (rule get8_bits [OF w3(2)])
  have mask: "mask_of d v"
    unfolding mask_of_def a_def [symmetric]
  proof (intro allI impI)
    fix i :: nat
    assume i: "i < 64"
    have "bit v (63 - i) = word_bits 64 v ! i" using i by (simp add: nth_word_bits)
    also have "\<dots> = ((True # ?bits) @ replicate (64 - length (True # ?bits)) False) ! i" unfolding v(2) w3(3) ..
    also have "\<dots> \<longleftrightarrow> a + i \<in> set (numbers d)"
    proof (cases "i \<le> z - a")
      case True
      with len show ?thesis unfolding nums by (cases i) (auto simp: nth_append simp del: upt_Suc)
    next
      case False
      then have "a + i \<notin> set (numbers d)" using numbers_bounds(2) [OF s, unfolded numbers_codes, of "a + i"] by (auto simp: z_def)
      moreover have "\<not> i - Suc 0 < z - a" using False by linarith
      ultimately show ?thesis using len False i by (simp add: nth_append del: upt_Suc)
    qed
    finally show "bit v (63 - i) \<longleftrightarrow> a + i \<in> set (numbers d)" .
  qed
  have losts: "q \<in> set ?qs \<longleftrightarrow> is_lost d q" for q
    unfolding is_lost_def z_def [symmetric] a_def [symmetric] using zb(1) nums by (auto simp: less_Suc_eq simp del: upt_Suc)
  obtain k p0 where e: "e = (k, p0)" by (cases e)
  note scan' = scan [unfolded es e snd_conv]
  have r: "FEC_Recover fuel m d = (if ?qs = [] then Ok (None, d)
      else try_losts fuel m (GetSSRC (snd e)) (of_nat a) v (map of_nat ?qs) d)"
    unfolding FEC_Recover_def es e list.case prod.case Let_def snd_conv scan' bindR.simps w3(1) v(1)
    using first e by (simp del: upt_Suc)
  from mask losts r show ?thesis unfolding a_def by blast
qed


section \<open>The loop\<close>







section \<open>What is recovered\<close>


text \<open>Packets to try it on.\<close>

definition ex_media :: "nat \<Rightarrow> BYTE list \<Rightarrow> BYTE \<Rightarrow> timed_packet" where
  "ex_media k pl ty = SetSeqNum (of_nat k)
     (RTPTimedPacket_new 0 (replicate 12 0 @ pl @ replicate (1688 - length pl) 0) (of_nat (length pl)) Video (ucast ty))"

definition ex_sent :: "BYTE \<Rightarrow> BYTE list \<Rightarrow> sent_media" where
  "ex_sent ty pl = \<lparr>sm_mark = False, sm_type = ty, sm_ts = 0, sm_payload = pl\<rparr>"

definition ex_memory :: fec_memory where
  "ex_memory = \<lparr>fm_now = 0, fm_junk = replicate 1700 0, fm_len = 0, fm_data = (\<lambda>_. replicate 1644 0)\<rparr>"

lemma ex_carries:
  assumes "length pl \<le> 1500" "ty < 128"
  shows "carries (ex_media k pl ty) (ex_sent ty pl)" "k < 65536 \<Longrightarrow> GetExtSeqNum (ex_media k pl ty) = of_nat k"
proof -
  let ?junk = "replicate 12 0 @ pl @ replicate (1688 - length pl) 0 :: BYTE list"
  let ?n = "RTPTimedPacket_new 0 ?junk (of_nat (length pl)) Video (ucast ty)"
  have j: "length ?junk = RTP_SIZE" using assms by (simp add: RTP_SIZE_def)
  note t = seven_bits [OF assms(2)]
  note new = new_packet [OF j, of "of_nat (length pl)" Video "ucast ty" "ucast ty"]
  have n: "rtp_wf ?n" "\<not> GetX ?n" "\<not> GetP ?n" "GetCC ?n = 0" "GetType ?n = ucast ty"
    using new t by (simp_all add: RTPTimedPacket_new_def)
  have b: "rp_len ?n = of_nat (length pl)" "drop 12 (rp_buffer ?n) = pl @ replicate (1688 - length pl) 0" "rp_cycles ?n = 0"
    "GetTimestamp ?n = 0"
    by (simp_all add: RTPTimedPacket_new_def rtp_packet.defs RTPPacket_new_def SetType_def SetVersion_def set_field_def
        zero_header_def GetTimestamp_def load4_def nth_append)
  have mk: "\<not> GetMark ?n"
    by (simp add: RTPTimedPacket_new_def RTPPacket_new_def fields get_field_other)
  have "take (length pl) (drop 12 (rp_buffer (ex_media k pl ty))) = pl"
    using b(2) by (simp add: ex_media_def SetSeqNum_def store2_def)
  moreover have "rp_len (ex_media k pl ty) = of_nat (length pl)" using b(1) by (simp add: ex_media_def SetSeqNum_def)
  ultimately show "carries (ex_media k pl ty) (ex_sent ty pl)"
    using n b(4) mk assms by (simp add: carries_def ex_sent_def) (simp add: ex_media_def fields)
  assume k: "k < 65536"
  have "GetSeqNum (ex_media k pl ty) = of_nat k" using n(1) by (simp add: ex_media_def)
  moreover have "rp_cycles (ex_media k pl ty) = 0" using b(3) by (simp add: ex_media_def)
  moreover have "ucast (of_nat k :: WORD) = (of_nat k :: DWORD)"
    unfolding ucast_unat using k by (simp add: unsigned_of_nat take_bit_nat_eq_self)
  ultimately show "GetExtSeqNum (ex_media k pl ty) = of_nat k" by (simp add: GetExtSeqNum_def)
qed

definition ex_medias :: "(nat \<Rightarrow> sent_media) \<Rightarrow> nat list \<Rightarrow> (DWORD, timed_packet) omap" where
  "ex_medias s ks = map (\<lambda>k. (of_nat k, ex_media k (sm_payload (s k)) (sm_type (s k)))) ks"

lemma ex_medias_stream:
  assumes "sorted_wrt (<) ks" "ks \<noteq> []" "63 \<le> last ks" "last ks \<le> hd ks + 63" "last ks < 65536"
    and s: "\<And>k. s k = ex_sent (sm_type (s k)) (sm_payload (s k)) \<and> length (sm_payload (s k)) \<le> 1500 \<and> sm_type (s k) < 128"
    and d: "fx_medias d = ex_medias s ks"
  shows "numbers d = ks" "stream_of s (d\<lparr>fx_codes := []\<rparr>)"
proof -
  have le: "k < 65536" if "k \<in> set ks" for k
  proof -
    have "sorted ks" using assms(1) by (simp add: strict_sorted_iff)
    with that have "k \<le> last ks" by (cases ks rule: rev_cases) (auto simp: sorted_append)
    with assms(5) show ?thesis by simp
  qed
  then have u: "unat (of_nat k :: DWORD) = k" if "k \<in> set ks" for k
    using le [OF that] by (simp add: unsigned_of_nat take_bit_nat_eq_self)
  show n: "numbers d = ks" unfolding numbers_def d ex_medias_def by (simp add: comp_def u cong: map_cong)
  have "omap_wf (fx_medias d)"
    unfolding omap_wf_def d ex_medias_def
    using assms(1) u by (simp add: sorted_wrt_map comp_def word_less_nat_alt) (metis (no_types, lifting) sorted_wrt_mono_rel)
  moreover have "unat (fst e) < 65536 \<and> GetExtSeqNum (snd e) = fst e \<and> carries (snd e) (s (unat (fst e)))"
    if "e \<in> set (fx_medias d)" for e
  proof -
    from that obtain k where k: "k \<in> set ks" "e = (of_nat k, ex_media k (sm_payload (s k)) (sm_type (s k)))"
      by (auto simp: d ex_medias_def)
    with ex_carries [of "sm_payload (s k)" "sm_type (s k)" k] s [of k] le u show ?thesis by (metis fst_conv snd_conv)
  qed
  moreover have "fx_medias d \<noteq> []" using assms(2) by (simp add: d ex_medias_def)
  ultimately show "stream_of s (d\<lparr>fx_codes := []\<rparr>)"
    unfolding stream_of_def numbers_codes n using assms(3,4) by simp
qed




text \<open>A short mask.\<close>

lemma short_mask:
  assumes "\<not> GetLongMask f" "load2 12 (fd_data f) = w"
  shows "fec_offsets f = filter (\<lambda>i. bit w (15 - i)) [0..<16]"
proof -
  have m: "bit (GetLevel0Mask f) (63 - i) \<longleftrightarrow> i < 16 \<and> bit w (15 - i)" if "i < 48" for i
  proof (cases "i < 16")
    case True
    then have "63 - i - 48 = 15 - i" "48 \<le> 63 - i" "63 - i < 64" "15 - i < 64" by linarith+
    with assms show ?thesis using True by (simp add: GetLevel0Mask_def bit_simps)
  next
    case False
    then have "\<not> 48 \<le> 63 - i" by linarith
    with False that assms show ?thesis by (simp add: GetLevel0Mask_def bit_simps)
  qed
  have "fec_offsets f = filter (\<lambda>i. i < 16 \<and> bit w (15 - i)) [0..<48]"
    unfolding fec_offsets_def by (rule filter_cong) (use m in auto)
  also have "[0..<48] = [0..<16] @ [16..<48]" using upt_add_eq_append [of 0 16 32] by simp
  finally have "fec_offsets f = filter (\<lambda>i. i < 16 \<and> bit w (15 - i)) ([0..<16] @ [16..<48])" .
  also have "\<dots> = filter (\<lambda>i. i < 16 \<and> bit w (15 - i)) [0..<16]" by (auto intro: filter_False)
  also have "\<dots> = filter (\<lambda>i. bit w (15 - i)) [0..<16]" by (rule filter_cong) auto
  finally show ?thesis .
qed

lemma two_bits: "filter (\<lambda>i. bit (0xC000 :: WORD) (15 - i)) [0..<16] = [0, 1]"
  by (simp add: upt_rec)





section \<open>Crafted and late codes\<close>

text \<open>With a single FEC packet, stored any number of times.\<close>

definition with_codes :: "nat \<Rightarrow> DWORD \<times> fec_data \<Rightarrow> fec_decoder \<Rightarrow> fec_decoder" where
  "with_codes n e d = d\<lparr>fx_codes := replicate n e\<rparr>"

lemma multi_insert_same: "multi_insert k v (replicate n (k, v)) = replicate (Suc n) (k, v)"
  by (induction n) simp_all

lemma AddPacket_code:
  assumes p: "carries p x" "rp_codec p = VideoCodec_ULPFEC"
    and f: "FECData_new (fm_data m 0) (sm_payload x) (of_nat (length (sm_payload x))) = Ok f"
    and d: "fx_codes d = replicate n (GetBaseExtSeq f, f)"
  shows "FEC_AddPacket m (Timed p) d = Ok (False, with_codes (Suc n) (GetBaseExtSeq f, f) d)"
proof -
  let ?y = "sm_payload x"
  have l: "rp_len p = of_nat (length ?y)" "unat (rp_len p) = length ?y" "media_at p = 12"
    using p(1) carries_length [OF p(1)] carries_header [OF p(1)] by (auto simp: carries_def)
  have "copy_out 0 (length ?y) (drop 12 (rp_buffer p)) = Ok ?y"
    using carries_bytes [OF p(1), of "length ?y"] l(3) by (auto simp: copy_out_def split: if_splits)
  moreover have "unat (of_nat (length ?y) :: DWORD) = length ?y" using l by simp
  ultimately have "FECData_new (fm_data m 0) (drop 12 (rp_buffer p)) (rp_len p) = Ok f"
    using f unfolding FECData_new_def l(1) by (simp add: copy_out_def)
  then have "add_code (fm_data m 0) (drop (media_at p) (rp_buffer p)) (rp_len p) d = Ok (with_codes (Suc n) (GetBaseExtSeq f, f) d)"
    by (simp add: add_code_def l(3) d multi_insert_same with_codes_def del: replicate_Suc)
  then show ?thesis
    using p(2) by (simp add: FEC_AddPacket_def base_packet_def Let_def VideoCodec_RED_def VideoCodec_ULPFEC_def)
qed

lemma tried_again:
  assumes s: "stream_of s d" and q: "is_lost d q" "determined_by d q f" and t: "ucast (sm_type (s q)) = VideoCodec_ULPFEC"
    and f: "FECData_new (fm_data m 0) (sm_payload (s q)) (of_nat (length (sm_payload (s q)))) = Ok f"
    and e: "fx_codes d = replicate (Suc n) (GetBaseExtSeq f, f)" and v: "mask_of d v" and junk: "length (fm_junk m) = RTP_SIZE"
    and i: "i \<le> n"
  shows "try_codes fuel m ssrc (of_nat (hd (numbers d))) v (of_nat q) i d = Fault OutOfFuel"
  using s q e v i
proof (induction fuel arbitrary: i n d)
  case 0
  then show ?case by (simp add: try_codes.simps)
next
  case (Suc fuel)
  let ?e = "(GetBaseExtSeq f, f)"
  let ?d = "with_codes (Suc (Suc n)) ?e d"
  have i: "fx_codes d ! i = ?e" "?e \<in> set (fx_codes d)" using Suc.prems(4,6) by (auto simp del: replicate_Suc)
  have ty: "sm_type (s q) < 128"
  proof -
    have "unat (ucast (sm_type (s q)) :: DWORD) = 108" using t by (simp add: VideoCodec_ULPFEC_def)
    then have "unat (sm_type (s q)) = 108"
      using unsigned_less [of "sm_type (s q)", where ?'a = nat] by (simp add: unsigned_ucast_eq take_bit_nat_eq_self)
    then show ?thesis by (simp add: word_less_nat_alt)
  qed
  from try_code_cases [OF Suc.prems(1) ty Suc.prems(2) i(2) Suc.prems(5) junk, of ssrc] Suc.prems(3) obtain p where
    p: "try_code m ssrc (of_nat (hd (numbers d))) v (of_nat q) f d =
      bindR (FEC_AddPacket m (Timed p) d) (\<lambda>(media, d). Ok (if media then Some p else None, d))"
    "carries p (s q)" "rp_codec p = ucast (sm_type (s q))" by auto
  from AddPacket_code [OF p(2) _ f Suc.prems(4)] p(3) t
  have r: "try_code m ssrc (of_nat (hd (numbers d))) v (of_nat q) f d = Ok (None, ?d)" using p(1) by simp
  have n: "next_index i (fx_codes d) (fx_codes ?d) = Suc i"
    unfolding next_index_def Suc.prems(4) using Suc.prems(6) by (simp add: with_codes_def del: replicate_Suc)
  have nums: "numbers ?d = numbers d" "fx_medias ?d = fx_medias d" by (simp_all add: with_codes_def)
  have "stream_of s ?d" using Suc.prems(1,4) unfolding stream_of_def nums by (simp add: with_codes_def)
  moreover have "is_lost ?d q" "determined_by ?d q f" "mask_of ?d v"
    using Suc.prems(2,3,5) by (simp_all add: is_lost_def determined_by_def mask_of_def nums)
  ultimately have "try_codes fuel m ssrc (of_nat (hd (numbers ?d))) v (of_nat q) (Suc i) ?d = Fault OutOfFuel"
    using Suc.prems(6) by (intro Suc.IH [of ?d "Suc n"]) (simp_all add: with_codes_def)
  then show ?case using r n i(1) Suc.prems(4,6) unfolding nums by (simp add: try_codes.simps [of "Suc fuel"])
qed


text \<open>C22: A crafted FEC packet keeps the decoder busy for ever.  When the packet that a FEC packet recovers is the same FEC
  packet again, \<open>Recover\<close> adds it to the codes behind the one it is looking at and goes on to it: no number of codes tried is
  enough, and each time a FEC packet more is allocated.\<close>

theorem crafted_code_is_tried_for_ever:
  assumes s: "stream_of s d" and q: "is_lost d q" "determined_by d q f" and t: "ucast (sm_type (s q)) = VideoCodec_ULPFEC"
    and f: "FECData_new (fm_data m 0) (sm_payload (s q)) (of_nat (length (sm_payload (s q)))) = Ok f"
    and e: "fx_codes d = [(GetBaseExtSeq f, f)]" and junk: "length (fm_junk m) = RTP_SIZE"
  shows "FEC_Recover fuel m d = Fault OutOfFuel"
proof -
  from FEC_Recover_scan [OF stream_no_codes [OF s], of fuel m] obtain ssrc v qs where
    v: "mask_of d v" "\<forall>q. q \<in> set qs \<longleftrightarrow> is_lost d q"
    "FEC_Recover fuel m d = (if qs = [] then Ok (None, d)
      else try_losts fuel m ssrc (of_nat (hd (numbers d))) v (map of_nat qs) d)" by blast
  have e1: "fx_codes d = replicate (Suc 0) (GetBaseExtSeq f, f)" using e by simp
  note again = tried_again [OF s q t f e1 v(1) junk, of 0 fuel ssrc]
  have "try_losts fuel m ssrc (of_nat (hd (numbers d))) v (map of_nat ns) d = Fault OutOfFuel"
    if "q \<in> set ns" "\<forall>n \<in> set ns. is_lost d n" for ns
    using that
  proof (induction ns)
    case (Cons n ns)
    show ?case
    proof (cases "n = q")
      case True
      with again show ?thesis by simp
    next
      case False
      with q have "\<not> (n \<in> set (fec_numbers f))" using Cons.prems(2) by (auto simp: determined_by_def is_lost_def)
      then have "\<not> IsProtectedAtLevel0 (of_nat n) f"
        using IsProtected_iff [OF lost_small [OF s, of n]] Cons.prems(2) by simp
      then have "try_code m ssrc (of_nat (hd (numbers d))) v (of_nat n) f d = Ok (None, d)" by (simp add: try_code_def)
      moreover have "next_index 0 (fx_codes d) (fx_codes d) = 1" by (simp add: next_index_def)
      ultimately have "try_codes fuel m ssrc (of_nat (hd (numbers d))) v (of_nat n) 0 d =
          (if fuel = 0 then Fault OutOfFuel else Ok (None, d))"
        using e by (cases fuel) (simp_all add: try_codes.simps [of _ m ssrc])
      with Cons False show ?thesis by auto
    qed
  qed simp
  moreover have "q \<in> set qs" using v(2) q(1) by blast
  ultimately show ?thesis using v(2,3) by auto
qed

definition ex_loop :: "BYTE list" where
  "ex_loop = [0, 108, 0, 70, 0, 0, 0, 0, 0, 18, 0, 28, 0xC0, 0]"

definition ex_loop_stream :: "nat \<Rightarrow> sent_media" where
  "ex_loop_stream k = (if k = 71 then ex_sent 108 (ex_loop @ replicate 14 0) else ex_sent 0 ex_loop)"

definition ex_loop_code :: fec_data where
  "ex_loop_code = \<lparr>fd_data = ex_loop @ replicate 1630 0, fd_size = 28, fd_cycles = 0\<rparr>"

definition ex_loop_decoder :: fec_decoder where
  "ex_loop_decoder = \<lparr>fx_medias = ex_medias ex_loop_stream [70, 72], fx_codes = [(70, ex_loop_code)]\<rparr>"

lemma ex_loop_fields:
  "fec_numbers ex_loop_code = [70, 71]" "GetLevel0Size ex_loop_code = 28" "level0_at ex_loop_code = 14"
  "GetBaseSeqNum ex_loop_code = 70" "length (fd_data ex_loop_code) = FEC_SIZE" "fd_cycles ex_loop_code = 0"
proof -
  have d: "fd_data ex_loop_code = [0, 108, 0, 70, 0, 0, 0, 0, 0, 18, 0, 28, 0xC0, 0] @ replicate 1630 0"
    by (simp add: ex_loop_code_def ex_loop_def)
  have m: "\<not> GetLongMask ex_loop_code" "load2 12 (fd_data ex_loop_code) = 0xC000" by (simp_all add: GetLongMask_def d load2_def)
  show b: "GetBaseSeqNum ex_loop_code = 70" by (simp add: GetBaseSeqNum_def d load2_def)
  show "fec_numbers ex_loop_code = [70, 71]" unfolding fec_numbers_def short_mask [OF m] two_bits b by simp
  show "GetLevel0Size ex_loop_code = 28" by (simp add: GetLevel0Size_def d load2_def)
  show "level0_at ex_loop_code = 14" using m(1) by (simp add: level0_at_def)
  show "length (fd_data ex_loop_code) = FEC_SIZE" by (simp add: d FEC_SIZE_def)
  show "fd_cycles ex_loop_code = 0" by (simp add: ex_loop_code_def)
qed

lemma ex_loop_numbers: "numbers ex_loop_decoder = [70, 72]"
  and ex_loop_medias: "stream_of ex_loop_stream (ex_loop_decoder\<lparr>fx_codes := []\<rparr>)"
  by (rule ex_medias_stream [of "[70, 72]" ex_loop_stream]; simp add: ex_loop_stream_def ex_loop_decoder_def ex_sent_def ex_loop_def)+

lemma ex_loop_protects: "protects ex_loop_stream ex_loop_code"
proof -
  have d: "fd_data ex_loop_code = [0, 108, 0, 70, 0, 0, 0, 0, 0, 18, 0, 28, 0xC0, 0] @ replicate 1630 0"
    by (simp add: ex_loop_code_def ex_loop_def)
  have "xor_total (XOR) 0 (map (\<lambda>k. pad_at (sm_payload (ex_loop_stream k)) j) [70, 71]) = 0" for j
    by (auto simp: xor_total_def ex_loop_stream_def ex_sent_def pad_at_def nth_append)
  moreover have "(ex_loop @ replicate 1630 0) ! (14 + j) = 0" if "j < 28" for j
    using that by (simp add: ex_loop_def nth_append)
  ultimately have "\<forall>j < 28. fd_data ex_loop_code ! (14 + j) = xor_total (XOR) 0 (map (\<lambda>k. pad_at (sm_payload (ex_loop_stream k)) j) [70, 71])"
    by (simp add: ex_loop_code_def)
  then show ?thesis
    unfolding protects_def ex_loop_fields
    by (simp add: d ex_loop_stream_def ex_sent_def ex_loop_def xor_total_def xor_bit_def GetRecoveryP_def GetRecoveryX_def GetRecoveryCC_def
      GetRecoveryM_def GetRecoveryType_def GetRecoveryTimestamp_def GetRecoveryLength_def load2_def load4_def)
qed

theorem crafted_code_is_tried_for_ever_witness: "FEC_Recover 1000000 ex_memory ex_loop_decoder = Fault OutOfFuel"
proof -
  have k: "GetBaseExtSeq ex_loop_code = 70" by (simp add: GetBaseExtSeq_def ex_loop_fields)
  have c: "fx_codes ex_loop_decoder = [(70, ex_loop_code)]" by (simp add: ex_loop_decoder_def)
  have s: "stream_of ex_loop_stream ex_loop_decoder"
    using ex_loop_medias ex_loop_protects unfolding stream_of_def numbers_codes ex_loop_numbers by (simp add: c k)
  have q: "is_lost ex_loop_decoder 71" "determined_by ex_loop_decoder 71 ex_loop_code"
    by (simp_all add: is_lost_def determined_by_def ex_loop_numbers ex_loop_fields)
  have f: "FECData_new (fm_data ex_memory 0) (sm_payload (ex_loop_stream 71)) (of_nat (length (sm_payload (ex_loop_stream 71)))) = Ok ex_loop_code"
    by (simp add: FECData_new_def ex_memory_def ex_loop_stream_def ex_sent_def copy_out_def copy_in_def ex_loop_code_def ex_loop_def
        flip: replicate_add)
  show ?thesis
    by (rule crafted_code_is_tried_for_ever [OF s q _ f])
      (simp_all add: c k ex_loop_stream_def ex_sent_def VideoCodec_ULPFEC_def ex_memory_def RTP_SIZE_def)
qed


text \<open>A late FEC packet makes the decoder follow a null pointer.  When the window is full and the base of a FEC packet is the
  number before the window, the shift of the mask wraps, the packet of the base is taken to be there, and
  \<open>medias[base]\<close> is null.\<close>

theorem late_code_follows_null:
  assumes s: "stream_of s (d\<lparr>fx_codes := []\<rparr>)" and c: "fx_codes d = [(k, f)]" and f: "fd_cycles f = 0"
    "length (fd_data f) = FEC_SIZE" "unat (GetLevel0Size f) \<le> 1500" "fec_numbers f = [b, q]" "unat (GetBaseSeqNum f) = b"
    and w: "Suc b = hd (numbers d)" "last (numbers d) = hd (numbers d) + 63" and q: "is_lost d q" and fuel: "fuel = Suc g"
  shows "FEC_Recover fuel m d = Fault NullDeref"
proof -
  from FEC_Recover_scan [OF s, of fuel m] obtain ssrc v qs where
    v: "mask_of d v" "\<forall>q. q \<in> set qs \<longleftrightarrow> is_lost d q"
    "FEC_Recover fuel m d = (if qs = [] then Ok (None, d)
      else try_losts fuel m ssrc (of_nat (hd (numbers d))) v (map of_nat qs) d)" by blast
  have small: "x < 65536" if "is_lost d x" for x
    using lost_small [OF s, of x] that by (simp add: is_lost_def)
  have qb: "b < q" using w(1) q by (auto simp: is_lost_def)
  define j where "j = q - b"
  have j: "q = b + j" "0 < j" using qb by (auto simp: j_def)
  have "q \<in> set (fec_numbers f)" by (simp add: f(4))
  then have j48: "j < 48" using f(5) j by (auto simp: in_fec_numbers)
  have base: "GetBaseExtSeq f = of_nat b" using GetBaseExtSeq_nat [OF f(1)] f(5) by simp
  have diff: "(of_nat q :: DWORD) - GetBaseExtSeq f = of_nat j" using base j by simp
  let ?F = "GetLevel0Mask f AND NOT (shl 1 (unat (64 - of_nat j - 1 :: DWORD)))"
  have F: "bit ?F (63 - i) \<longleftrightarrow> i = 0" if "i < 64" for i
    using fec_mask_bit [OF j48 that, of f] f(4,5) j by auto
  have "(GetBaseExtSeq f - of_nat (hd (numbers d)) :: DWORD) = - 1" unfolding base by (simp flip: w(1))
  then have sh: "unat (GetBaseExtSeq f - of_nat (hd (numbers d))) = 2 ^ 32 - 1" by (simp add: unsigned_minus_1_eq_mask mask_eq_exp_minus_1)
  have "numbers d \<noteq> []" using s by (auto simp: stream_of_def numbers_def)
  then have last: "last (numbers d) \<in> set (numbers d)" by simp
  have "bit v 0" using v(1) [unfolded mask_of_def, rule_format, of 63] last w(2) by simp
  then have M: "bit (shl v (unat (GetBaseExtSeq f - of_nat (hd (numbers d))))) 63" unfolding sh by (simp add: shl_def bit_simps)
  let ?M = "shl v (unat (GetBaseExtSeq f - of_nat (hd (numbers d))))"
  have eq: "?F AND ?M = ?F" unfolding mask_subset using F M by auto
  have prot: "IsProtectedAtLevel0 (of_nat q) f" using IsProtected_iff [OF small [OF q], of f] by (simp add: f(4))
  obtain c where c: "recovery_start f = Ok c"
  proof -
    have "level0_at f + unat (GetLevel0Size f) \<le> length (fd_data f)"
      using f(2,3) by (simp add: level0_at_def FEC_SIZE_def)
    then show thesis using that by (simp add: recovery_start_def copy_out_def)
  qed
  obtain aux where aux: "set8 (replicate 8 0) 0 ?F = Ok aux" "length aux = 8" "bytes_bits aux = word_bits 64 ?F"
    by (rule set8_bits)
  have "reading 0 (word_bits 64 ?F) (BitReader_new aux 8)"
    using aux by (simp add: reading_def readable_def BitReader_new_def top_bits_def)
  note x = xor_medias_fold [OF this, of 64]
  have "true_at 0 (word_bits 64 ?F) = filter (\<lambda>i. bit ?F (63 - i)) [0..<64]"
    unfolding word_bits_64 using true_at_map [of 0 _ 64] by simp
  also have "\<dots> = filter (\<lambda>i. i = 0) [0..<64]" by (rule filter_cong) (use F in auto)
  also have "\<dots> = [0]" by (simp add: upt_conv_Cons)
  finally have ones: "true_at 0 (word_bits 64 ?F) = [0]" .
  have "b \<notin> set (numbers d)" using numbers_bounds(1) [OF s, unfolded numbers_codes, of b] w(1) by auto
  then have "map_find (fx_medias d) (of_nat b) = None" using stream_find_None [of b d] small [OF q] qb by simp
  then have null: "xor_medias 64 (fx_medias d) (GetBaseExtSeq f) (GetLevel0Size f) (BitReader_new aux 8) c = Fault NullDeref"
    using x ones base by (simp add: xor_packet_def)
  have sz: "\<not> GetLevel0Size f > 1500" using f(3) by (simp add: word_less_nat_alt)
  have crash: "try_code m ssrc (of_nat (hd (numbers d))) v (of_nat q) f d = Fault NullDeref"
    using prot eq sz c aux(1) null unfolding try_code_def Let_def diff by simp
  have codes: "fx_codes d = [(k, f)]" by fact
  have "try_losts fuel m ssrc (of_nat (hd (numbers d))) v (map of_nat ns) d = Fault NullDeref"
    if "q \<in> set ns" "\<forall>n \<in> set ns. is_lost d n" for ns
    using that
  proof (induction ns)
    case (Cons n ns)
    show ?case
    proof (cases "n = q")
      case True
      with crash codes show ?thesis by (simp add: try_codes.simps [of "Suc g"] fuel)
    next
      case False
      have "n \<notin> set (fec_numbers f)" using Cons.prems(2) False w(1) by (auto simp: f(4) is_lost_def)
      then have "\<not> IsProtectedAtLevel0 (of_nat n) f" using IsProtected_iff [OF small, of n f] Cons.prems(2) by simp
      then have "try_code m ssrc (of_nat (hd (numbers d))) v (of_nat n) f d = Ok (None, d)" by (simp add: try_code_def)
      moreover have "next_index 0 (fx_codes d) (fx_codes d) = 1" by (simp add: next_index_def)
      ultimately have "try_codes fuel m ssrc (of_nat (hd (numbers d))) v (of_nat n) 0 d = Ok (None, d)"
        using codes by (cases g) (simp_all add: try_codes.simps [of _ m ssrc] fuel)
      with Cons False show ?thesis by auto
    qed
  qed simp
  moreover have "q \<in> set qs" using v(2) q by blast
  ultimately show ?thesis using v(2,3) by auto
qed


definition ex_late_code :: fec_data where
  "ex_late_code = \<lparr>fd_data = [0, 0, 0, 99, 0, 0, 0, 0, 0, 0, 0, 0, 0x90, 0] @ replicate 1630 0, fd_size = 14, fd_cycles = 0\<rparr>"

definition ex_late_decoder :: fec_decoder where
  "ex_late_decoder = \<lparr>fx_medias = ex_medias (\<lambda>k. ex_sent 0 []) ([100, 101] @ [103..<164]), fx_codes = [(99, ex_late_code)]\<rparr>"

theorem late_code_follows_null_witness: "FEC_Recover 1 ex_memory ex_late_decoder = Fault NullDeref"
proof -
  have d: "fd_data ex_late_code = [0, 0, 0, 99, 0, 0, 0, 0, 0, 0, 0, 0, 0x90, 0] @ replicate 1630 0" by (simp add: ex_late_code_def)
  have m: "\<not> GetLongMask ex_late_code" "load2 12 (fd_data ex_late_code) = 0x9000" by (simp_all add: GetLongMask_def d load2_def)
  have b: "GetBaseSeqNum ex_late_code = 99" by (simp add: GetBaseSeqNum_def d load2_def)
  have o: "filter (\<lambda>i. bit (0x9000 :: WORD) (15 - i)) [0..<16] = [0, 3]" by (simp add: upt_rec)
  have f: "fec_numbers ex_late_code = [99, 102]" unfolding fec_numbers_def short_mask [OF m] o b by simp
  have l: "unat (GetLevel0Size ex_late_code) \<le> 1500" by (simp add: GetLevel0Size_def d load2_def)
  define ks where "ks = [100, 101] @ [103..<164 :: nat]"
  have "sorted_wrt (<) ks" "ks \<noteq> []" "63 \<le> last ks" "last ks \<le> hd ks + 63" "last ks < 65536" by (simp_all add: ks_def)
  note st = ex_medias_stream [OF this, of "\<lambda>k. ex_sent 0 []" ex_late_decoder]
  have "fx_medias ex_late_decoder = ex_medias (\<lambda>k. ex_sent 0 []) ks" unfolding ks_def by (simp only: ex_late_decoder_def fec_decoder.simps)
  with st have n: "numbers ex_late_decoder = ks" and s: "stream_of (\<lambda>k. ex_sent 0 []) (ex_late_decoder\<lparr>fx_codes := []\<rparr>)"
    by (simp_all add: ex_sent_def)
  have hl: "hd (numbers ex_late_decoder) = 100" "last (numbers ex_late_decoder) = 163" "102 \<notin> set (numbers ex_late_decoder)"
    unfolding n ks_def by simp_all
  have q: "is_lost ex_late_decoder 102" unfolding is_lost_def hl using hl(3) by simp
  have c: "fx_codes ex_late_decoder = [(99, ex_late_code)]" "fd_cycles ex_late_code = 0" "length (fd_data ex_late_code) = FEC_SIZE"
    by (simp_all add: ex_late_decoder_def ex_late_code_def FEC_SIZE_def)
  have "unat (GetBaseSeqNum ex_late_code) = 99" by (simp add: b)
  from late_code_follows_null [OF s c l f this _ _ q, of 1 0] hl show ?thesis by simp
qed

text \<open>Beyond the first cycle of the sequence numbers the codes are thrown away: their base has no cycles.\<close>

lemma codes_do_not_last:
  assumes "\<And>e. e \<in> set (fx_codes d) \<Longrightarrow> fst e < 65536" and "fx_medias d \<noteq> []" and "fst (last (fx_medias d)) \<ge> 65599"
  shows "fx_codes (drop_old d) = []"
proof -
  have "65536 \<le> fst (last (fx_medias d)) - 63" using assms(3) by (simp add: word_le_nat_alt unat_sub)
  then have "\<forall>e \<in> set (fx_codes d). fst e < fst (last (fx_medias d)) - 63" using assms(1) by (meson dual_order.strict_trans1)
  then show ?thesis by (simp add: drop_old_def Let_def)
qed

end
