(* ===== verification/MosaicLayout.thy ===== *)
theory MosaicLayout
  imports Prelude
begin

text \<open>
  The layouts of a mosaic (\<open>src/mcu/include/mosaic.h\<close>, \<open>partedmosaic.cpp\<close>, \<open>asymmetricmosaic.cpp\<close>,
  \<open>pipmosaic.cpp\<close>): how many slots a composition has and the rectangle of the picture each slot is drawn in.

  Sizes and offsets are pixels; a picture is at most 1920 by 1080, so that natural numbers stand for the \<open>int\<close>s and
  \<open>DWORD\<close>s of the code.  A position is a natural number: the callers only pass indices of slots.  The two composition
  sizes of a slot and its place come from three switches of the code, one over the number of columns, one over the
  number of rows, one over the grid the places are counted in.
\<close>

section \<open>Compositions\<close>

datatype mosaic_type =
    mosaic1x1 | mosaic2x2 | mosaic3x3 | mosaic3p4 | mosaic1p7 | mosaic1p5 | mosaic1p1 | mosaicPIP1 | mosaicPIP3
  | mosaic4x4 | mosaic1p4A | mosaic1p2A | mosaic1p2x2A | mosaic1p6A | mosaic1p12 | mosaic1p16A | mosaic4x5A
  | mosaic5x5 | mosaic1p1A | mosaic1p2 | mosaic1p2x6A | mosaic1p1p2x4A | mosaic1p3A

text \<open>The values of the enumeration, in the order of their numbers; a number beyond them is a value no \<open>case\<close> names.\<close>

definition mosaic_types :: "mosaic_type list" where
  "mosaic_types =
     [mosaic1x1, mosaic2x2, mosaic3x3, mosaic3p4, mosaic1p7, mosaic1p5, mosaic1p1, mosaicPIP1, mosaicPIP3, mosaic4x4,
      mosaic1p4A, mosaic1p2A, mosaic1p2x2A, mosaic1p6A, mosaic1p12, mosaic1p16A, mosaic4x5A, mosaic5x5, mosaic1p1A,
      mosaic1p2, mosaic1p2x6A, mosaic1p1p2x4A, mosaic1p3A]"

definition mosaic_type_of :: "int \<Rightarrow> mosaic_type option" where
  "mosaic_type_of n = (if 0 \<le> n \<and> n < 23 then Some (mosaic_types ! nat n) else None)"

fun GetNumSlotsForType :: "mosaic_type \<Rightarrow> nat" where
  "GetNumSlotsForType mosaic1x1 = 1"
| "GetNumSlotsForType mosaic2x2 = 4"
| "GetNumSlotsForType mosaic3x3 = 9"
| "GetNumSlotsForType mosaic3p4 = 7"
| "GetNumSlotsForType mosaic1p7 = 8"
| "GetNumSlotsForType mosaic1p5 = 6"
| "GetNumSlotsForType mosaic1p1 = 2"
| "GetNumSlotsForType mosaicPIP1 = 2"
| "GetNumSlotsForType mosaicPIP3 = 4"
| "GetNumSlotsForType mosaic4x4 = 16"
| "GetNumSlotsForType mosaic1p4A = 5"
| "GetNumSlotsForType mosaic1p2A = 3"
| "GetNumSlotsForType mosaic1p2x2A = 5"
| "GetNumSlotsForType mosaic1p6A = 7"
| "GetNumSlotsForType mosaic1p12 = 13"
| "GetNumSlotsForType mosaic1p16A = 17"
| "GetNumSlotsForType mosaic4x5A = 20"
| "GetNumSlotsForType mosaic5x5 = 25"
| "GetNumSlotsForType mosaic1p1A = 2"
| "GetNumSlotsForType mosaic1p2 = 3"
| "GetNumSlotsForType mosaic1p2x6A = 13"
| "GetNumSlotsForType mosaic1p1p2x4A = 10"
| "GetNumSlotsForType mosaic1p3A = 4"

text \<open>The class \<open>CreateMosaic\<close> makes an object of.\<close>

datatype mosaic_class = PartedMosaic | AsymmetricMosaic | PIPMosaic

fun CreateMosaic_class :: "mosaic_type \<Rightarrow> mosaic_class" where
  "CreateMosaic_class mosaic1x1 = PartedMosaic"
| "CreateMosaic_class mosaic2x2 = PartedMosaic"
| "CreateMosaic_class mosaic3x3 = PartedMosaic"
| "CreateMosaic_class mosaic4x4 = PartedMosaic"
| "CreateMosaic_class mosaic5x5 = PartedMosaic"
| "CreateMosaic_class mosaic4x5A = PartedMosaic"
| "CreateMosaic_class mosaic1p1A = PartedMosaic"
| "CreateMosaic_class mosaicPIP1 = PIPMosaic"
| "CreateMosaic_class mosaicPIP3 = PIPMosaic"
| "CreateMosaic_class _ = AsymmetricMosaic"

section \<open>Sizes of a picture\<close>

text \<open>The width and the height of each named size; any other number has no pixels.\<close>

definition GetWidth_size :: "int \<Rightarrow> nat" where
  "GetWidth_size s =
     (if 0 \<le> s \<and> s < 23
      then [176, 352, 640, 768, 480, 320, 1280, 400, 768, 576, 512, 1024, 704, 704, 1024, 800, 528, 352, 176, 480,
            128, 256, 1920] ! nat s
      else 0)"

definition GetHeight_size :: "int \<Rightarrow> nat" where
  "GetHeight_size s =
     (if 0 \<le> s \<and> s < 23
      then [144, 288, 480, 576, 320, 240, 720, 240, 448, 448, 288, 576, 576, 480, 768, 480, 384, 240, 120, 360,
            96, 192, 1080] ! nat s
      else 0)"

section \<open>Grids of equal slots\<close>

text \<open>Columns and rows; the constructor throws for any other composition.\<close>

fun PartedMosaic_grid :: "mosaic_type \<Rightarrow> (nat \<times> nat) res" where
  "PartedMosaic_grid mosaic1x1 = Ok (1, 1)"
| "PartedMosaic_grid mosaic2x2 = Ok (2, 2)"
| "PartedMosaic_grid mosaic3x3 = Ok (3, 3)"
| "PartedMosaic_grid mosaic4x4 = Ok (4, 4)"
| "PartedMosaic_grid mosaic4x5A = Ok (4, 5)"
| "PartedMosaic_grid mosaic5x5 = Ok (5, 5)"
| "PartedMosaic_grid mosaic1p1A = Ok (2, 1)"
| "PartedMosaic_grid _ = Fault (Thrown ''Unknown mosaic type'')"

text \<open>Of a grid of \<open>c\<close> columns and \<open>r\<close> rows with \<open>n\<close> slots in a picture of \<open>W\<close> by \<open>H\<close>.\<close>

definition parted_GetWidth :: "nat \<Rightarrow> nat \<Rightarrow> nat \<Rightarrow> nat \<Rightarrow> nat" where
  "parted_GetWidth c n W pos = (if pos \<ge> n then 0 else W div c)"

definition parted_GetHeight :: "nat \<Rightarrow> nat \<Rightarrow> nat \<Rightarrow> nat \<Rightarrow> nat" where
  "parted_GetHeight r n H pos = (if pos \<ge> n then 0 else H div r)"

definition parted_GetTop :: "nat \<Rightarrow> nat \<Rightarrow> nat \<Rightarrow> nat \<Rightarrow> nat" where
  "parted_GetTop c r H pos = (let i = pos div c in H div r * i)"

definition parted_GetLeft :: "nat \<Rightarrow> nat \<Rightarrow> nat \<Rightarrow> nat" where
  "parted_GetLeft c W pos = (let i = pos div c; j = pos - i * c in W div c * j)"

section \<open>Asymmetric compositions\<close>

text \<open>The switch of \<open>GetWidth\<close>: the columns the picture is divided into and how many of them a slot takes.\<close>

fun asym_cols :: "mosaic_type \<Rightarrow> nat \<Rightarrow> nat \<times> nat" where
  "asym_cols mosaic3p4 pos = (4, if pos < 3 then 2 else 1)"
| "asym_cols mosaic1p7 pos = (4, if pos = 0 then 3 else 1)"
| "asym_cols mosaic1p4A pos = (5, if pos = 0 then 4 else 1)"
| "asym_cols mosaic1p5 pos = (3, if pos = 0 then 2 else 1)"
| "asym_cols mosaic1p1 pos = (4, 2)"
| "asym_cols mosaic1p2 pos = (3, if pos = 0 then 2 else 1)"
| "asym_cols mosaic1p2A pos = (3, if pos = 0 then 2 else 1)"
| "asym_cols mosaic1p2x2A pos = (4, if pos = 0 then 2 else 1)"
| "asym_cols mosaic1p6A pos = (4, if pos = 0 then 2 else 1)"
| "asym_cols mosaic1p12 pos = (4, if pos = 0 then 2 else 1)"
| "asym_cols mosaic1p16A pos = (5, if pos = 0 then 2 else 1)"
| "asym_cols mosaic1p2x6A pos = (8, if pos = 0 then 6 else 1)"
| "asym_cols mosaic1p1p2x4A pos = (8, if pos = 0 then 6 else if pos = 1 then 2 else 1)"
| "asym_cols mosaic1p3A pos = (4, if pos = 0 then 3 else 1)"
| "asym_cols _ pos = (1, 1)"

text \<open>The switch of \<open>GetHeight\<close>.\<close>

fun asym_rows :: "mosaic_type \<Rightarrow> nat \<Rightarrow> nat \<times> nat" where
  "asym_rows mosaic3p4 pos = (4, if pos < 3 then 2 else 1)"
| "asym_rows mosaic1p7 pos = (4, if pos = 0 then 3 else 1)"
| "asym_rows mosaic1p4A pos = (4, if pos = 0 then 4 else 1)"
| "asym_rows mosaic1p5 pos = (3, if pos = 0 then 2 else 1)"
| "asym_rows mosaic1p1 pos = (4, 2)"
| "asym_rows mosaic1p2 pos = (3, if pos = 0 then 2 else 1)"
| "asym_rows mosaic1p2A pos = (2, if pos = 0 then 2 else 1)"
| "asym_rows mosaic1p2x2A pos = (2, if pos = 0 then 2 else 1)"
| "asym_rows mosaic1p6A pos = (3, if pos = 0 then 3 else 1)"
| "asym_rows mosaic1p12 pos = (4, if pos = 0 then 2 else 1)"
| "asym_rows mosaic1p16A pos = (4, if pos = 0 then 2 else 1)"
| "asym_rows mosaic1p2x6A pos = (6, if pos = 0 then 6 else 1)"
| "asym_rows mosaic1p1p2x4A pos = (6, if pos = 0 then 6 else if pos = 1 then 2 else 1)"
| "asym_rows mosaic1p3A pos = (3, if pos = 0 then 3 else 1)"
| "asym_rows _ pos = (1, 1)"

text \<open>
  The switch \<open>GetTop\<close> and \<open>GetLeft\<close> share: columns, rows and the cell of each slot.  For a composition it does not
  name \<open>index\<close> is not initialised.
\<close>

fun asym_grid :: "mosaic_type \<Rightarrow> nat \<times> nat \<times> nat list" where
  "asym_grid mosaic3p4 = (4, 4, [0,2,8,10,11,14,15])"
| "asym_grid mosaic1p7 = (4, 4, [0,3,7,11,12,13,14,15])"
| "asym_grid mosaic1p4A = (5, 4, [0,4,9,14,19])"
| "asym_grid mosaic1p5 = (3, 3, [0,2,5,6,7,8])"
| "asym_grid mosaic1p1 = (2, 4, [2,3])"
| "asym_grid mosaic1p2 = (3, 6, [3,5,11])"
| "asym_grid mosaic1p2A = (3, 2, [0,2,5])"
| "asym_grid mosaic1p2x2A = (4, 2, [0,2,3,6,7])"
| "asym_grid mosaic1p6A = (4, 3, [0,2,3,6,7,10,11])"
| "asym_grid mosaic1p12 = (4, 4, [0, 2,3, 6,7, 8,9,10,11, 12,13,14,15])"
| "asym_grid mosaic1p16A = (5, 4, [0, 2,3,4, 7,8,9, 10,11,12,13,14, 15,16,17,18,19])"
| "asym_grid mosaic1p2x6A = (8, 6, [0, 6,7, 14,15, 22,23, 30,31, 38,39, 46,47])"
| "asym_grid mosaic1p1p2x4A = (8, 6, [0, 6, 22,23, 30,31, 38,39, 46,47])"
| "asym_grid mosaic1p3A = (4, 3, [0, 3,7,11])"
| "asym_grid _ = (1, 1, [])"

definition asym_GetWidth :: "mosaic_type \<Rightarrow> nat \<Rightarrow> nat \<Rightarrow> nat" where
  "asym_GetWidth t W pos =
     (if pos \<ge> GetNumSlotsForType t then 0 else case asym_cols t pos of (cols, s) \<Rightarrow> W div cols * s)"

definition asym_GetHeight :: "mosaic_type \<Rightarrow> nat \<Rightarrow> nat \<Rightarrow> nat" where
  "asym_GetHeight t H pos =
     (if pos \<ge> GetNumSlotsForType t then 0 else case asym_rows t pos of (rows, s) \<Rightarrow> H div rows * s)"

definition asym_GetTop :: "mosaic_type \<Rightarrow> nat \<Rightarrow> nat \<Rightarrow> nat res" where
  "asym_GetTop t H pos =
     (if pos \<ge> GetNumSlotsForType t then Ok 0
      else case asym_grid t of (cols, rows, cells) \<Rightarrow>
        if pos < length cells then let i = cells ! pos div cols in Ok (H div rows * i) else Fault Uninitialised)"

definition asym_GetLeft :: "mosaic_type \<Rightarrow> nat \<Rightarrow> nat \<Rightarrow> nat res" where
  "asym_GetLeft t W pos =
     (if pos \<ge> GetNumSlotsForType t then Ok 0
      else case asym_grid t of (cols, rows, cells) \<Rightarrow>
        if pos < length cells
        then let index = cells ! pos; i = index div cols; j = index - i * cols in Ok (W div cols * j)
        else Fault Uninitialised)"

section \<open>Pictures in a picture\<close>

definition SIZE4MUL :: "nat \<Rightarrow> nat" where
  "SIZE4MUL n = n div 4 * 4"

text \<open>Of a composition with \<open>n\<close> slots; slot 0 is the whole picture.\<close>

definition pip_GetWidth :: "nat \<Rightarrow> nat \<Rightarrow> nat \<Rightarrow> nat" where
  "pip_GetWidth n W pos =
     (if pos + 1 > n then 0 else if pos = 0 then W else if n = 2 then SIZE4MUL (W div 4) else SIZE4MUL (W div 5))"

definition pip_GetHeight :: "nat \<Rightarrow> nat \<Rightarrow> nat \<Rightarrow> nat" where
  "pip_GetHeight n H pos =
     (if pos + 1 > n then 0 else if pos = 0 then H else if n = 2 then SIZE4MUL (H div 4) else SIZE4MUL (H div 5))"

definition pip_GetTop :: "nat \<Rightarrow> nat \<Rightarrow> nat \<Rightarrow> nat" where
  "pip_GetTop n H pos =
     (if pos + 1 > n then 0 else if pos = 0 then 0
      else let mosaicHeight = SIZE4MUL (H div 5) in SIZE4MUL (H - mosaicHeight - mosaicHeight div 2))"

definition pip_GetLeft :: "nat \<Rightarrow> nat \<Rightarrow> nat \<Rightarrow> nat" where
  "pip_GetLeft n W pos =
     (if pos + 1 > n then 0 else if pos = 0 then 0
      else let mosaicWidth = SIZE4MUL (W div 5); intraWidth = mosaicWidth div 2
           in intraWidth + (intraWidth + mosaicWidth) * (pos - 1))"

text \<open>Where \<open>Update\<close> draws the small pictures: their top is computed from their own height.\<close>

definition pip_size :: "nat \<Rightarrow> nat \<Rightarrow> nat" where
  "pip_size n D = (if n = 2 then SIZE4MUL (D div 4) else SIZE4MUL (D div 5))"

definition pip_ini :: "nat \<Rightarrow> nat \<Rightarrow> nat" where
  "pip_ini n H = SIZE4MUL (H - pip_size n H - SIZE4MUL (H div 5) div 4)"

section \<open>The rectangle of a slot\<close>

record rect =
  r_left :: nat
  r_top :: nat
  r_width :: nat
  r_height :: nat

text \<open>What the four virtual functions of a mosaic of the composition say of a slot.\<close>

definition slot_rect :: "mosaic_type \<Rightarrow> nat \<Rightarrow> nat \<Rightarrow> nat \<Rightarrow> rect res" where
  "slot_rect t W H pos =
     (let n = GetNumSlotsForType t in
      case CreateMosaic_class t of
        PartedMosaic \<Rightarrow>
          bindR (PartedMosaic_grid t) (\<lambda>(c, r).
          Ok \<lparr>r_left = parted_GetLeft c W pos, r_top = parted_GetTop c r H pos,
              r_width = parted_GetWidth c n W pos, r_height = parted_GetHeight r n H pos\<rparr>)
      | AsymmetricMosaic \<Rightarrow>
          bindR (asym_GetLeft t W pos) (\<lambda>l.
          bindR (asym_GetTop t H pos) (\<lambda>u.
          Ok \<lparr>r_left = l, r_top = u, r_width = asym_GetWidth t W pos, r_height = asym_GetHeight t H pos\<rparr>))
      | PIPMosaic \<Rightarrow>
          Ok \<lparr>r_left = pip_GetLeft n W pos, r_top = pip_GetTop n H pos,
              r_width = pip_GetWidth n W pos, r_height = pip_GetHeight n H pos\<rparr>)"

definition in_rect :: "rect \<Rightarrow> nat \<Rightarrow> nat \<Rightarrow> bool" where
  "in_rect a x y \<longleftrightarrow>
     r_left a \<le> x \<and> x < r_left a + r_width a \<and> r_top a \<le> y \<and> y < r_top a + r_height a"

end
