(* ===== verification/FrameScaler.thy ===== *)
theory FrameScaler
  imports FloatingPoint Bytes
begin

text \<open>
  The scaler of the pictures (\<open>src/mcu/src/framescaler.cpp\<close>).  Scaling itself is done by libswscale, which is not
  part of the program: \<open>swscale\<close> is a parameter, the result of scaling a picture is its rows, plane by plane, each
  of the width asked for.  The code reads them back from a temporary buffer whose lines are at least as long.

  A plane of the destination is written at an offset into one buffer of bytes; a line written outside the buffer is a
  fault.  Widths and heights are natural numbers: the code passes sizes of pictures.
\<close>

type_synonym rows = "8 word list list"

text \<open>What a context was made for.\<close>

record sws_context =
  sws_srcw :: nat
  sws_srch :: nat
  sws_dstw :: nat
  sws_dsth :: nat

record swscale =
  sws_alloc_context :: bool
  sws_init_context :: "sws_context \<Rightarrow> bool"
  sws_scale :: "sws_context \<Rightarrow> nat \<Rightarrow> 8 word list \<Rightarrow> 8 word list \<Rightarrow> 8 word list \<Rightarrow> rows \<times> rows \<times> rows"

record frame_scaler =
  resizeCtx :: "sws_context option"
  resizeWidth :: nat
  resizeHeight :: nat
  resizeDstWidth :: nat
  resizeDstHeight :: nat
  resizeDstAdjustedHeight :: nat
  resizeDstAdjustedWidth :: nat
  resizeDstLineWidth :: nat
  resizeSrc :: nat

definition FrameScaler_new :: frame_scaler where
  "FrameScaler_new =
     \<lparr>resizeCtx = None, resizeWidth = 0, resizeHeight = 0, resizeDstWidth = 0, resizeDstHeight = 0,
      resizeDstAdjustedHeight = 0, resizeDstAdjustedWidth = 0, resizeDstLineWidth = 0, resizeSrc = 0\<rparr>"

section \<open>The size of the scaled picture\<close>

text \<open>Quotients and products of \<open>double\<close>s; a ratio of two positive integers is finite.\<close>

definition ratio :: "nat \<Rightarrow> nat \<Rightarrow> fp" where
  "ratio a b = double (of_nat a / of_nat b)"

fun fp_less :: "fp \<Rightarrow> fp \<Rightarrow> bool" where
  "fp_less (Fin a) (Fin b) = (a < b)"
| "fp_less _ _ = False"

fun times_ratio :: "nat \<Rightarrow> fp \<Rightarrow> fp" where
  "times_ratio n (Fin r) = double (of_nat n * r)"
| "times_ratio n _ = NotANumber"

fun by_ratio :: "nat \<Rightarrow> fp \<Rightarrow> fp" where
  "by_ratio n (Fin r) = (if r = 0 then Infinite False else double (of_nat n / r))"
| "by_ratio n _ = NotANumber"

definition adjusted :: "nat \<Rightarrow> nat \<Rightarrow> nat \<Rightarrow> nat \<Rightarrow> bool \<Rightarrow> (nat \<times> nat) res" where
  "adjusted srcWidth srcHeight dstWidth dstHeight keepAspectRatio =
     (if keepAspectRatio then
        let srcRatio = ratio srcWidth srcHeight; dstRatio = ratio dstWidth dstHeight in
        if fp_less srcRatio dstRatio
        then bindR (fp_to_integer 32 (times_ratio dstHeight srcRatio)) (\<lambda>w. Ok (nat w, dstHeight))
        else if fp_less dstRatio srcRatio
        then bindR (fp_to_integer 32 (by_ratio dstWidth srcRatio)) (\<lambda>h. Ok (dstWidth, nat h))
        else Ok (dstWidth, dstHeight)
      else Ok (dstWidth, dstHeight))"

text \<open>A context that fits is kept, whatever the line width and the aspect ratio it was made for.\<close>

definition SetResize ::
  "swscale \<Rightarrow> nat \<Rightarrow> nat \<Rightarrow> nat \<Rightarrow> nat \<Rightarrow> nat \<Rightarrow> nat \<Rightarrow> bool \<Rightarrow> frame_scaler \<Rightarrow> (bool \<times> frame_scaler) res" where
  "SetResize sw srcWidth srcHeight srcLineWidth dstWidth dstHeight dstLineWidth keepAspectRatio s =
     (if srcWidth = 0 \<or> srcHeight = 0 \<or> srcLineWidth = 0 \<or> dstWidth = 0 \<or> dstHeight = 0 \<or> dstLineWidth = 0
      then Ok (False, s\<lparr>resizeCtx := None\<rparr>)
      else if resizeCtx s \<noteq> None \<and> resizeWidth s = srcWidth \<and> srcHeight = resizeHeight s \<and>
              dstWidth = resizeDstWidth s \<and> dstHeight = resizeDstHeight s
      then Ok (True, s)
      else if \<not> sws_alloc_context sw then Ok (False, s\<lparr>resizeCtx := None\<rparr>)
      else bindR (adjusted srcWidth srcHeight dstWidth dstHeight keepAspectRatio) (\<lambda>(w, h).
        let s = s\<lparr>resizeWidth := srcWidth, resizeHeight := srcHeight, resizeDstWidth := dstWidth,
                  resizeDstHeight := dstHeight, resizeDstLineWidth := dstLineWidth,
                  resizeDstAdjustedWidth := w, resizeDstAdjustedHeight := h\<rparr>;
            c = \<lparr>sws_srcw = srcWidth, sws_srch = srcHeight, sws_dstw = w, sws_dsth = h\<rparr> in
        if sws_init_context sw c then Ok (True, s\<lparr>resizeCtx := Some c, resizeSrc := srcLineWidth\<rparr>)
        else Ok (False, s\<lparr>resizeCtx := None\<rparr>)))"

section \<open>Scaling into a buffer\<close>

text \<open>\<open>memset(d+i,v,n)\<close>.\<close>

definition fill :: "nat \<Rightarrow> nat \<Rightarrow> 'a \<Rightarrow> 'a list \<Rightarrow> 'a list res" where
  "fill i n v d = copy_in i (replicate n v) d"

text \<open>One line of a plane: black, or the line of the scaled picture between two bars.\<close>

definition put_line :: "nat \<Rightarrow> nat \<Rightarrow> nat \<Rightarrow> 'a \<Rightarrow> 'a list option \<Rightarrow> nat \<Rightarrow> 'a list \<Rightarrow> 'a list res" where
  "put_line width w x black line off d =
     (case line of
        None \<Rightarrow> fill off width black d
      | Some l \<Rightarrow>
          bindR (if x > 0
                 then bindR (fill off x black d) (\<lambda>d.
                      if x + w \<le> width then fill (off + x + w) (width - w - x) black d else Fault OutOfBounds)
                 else Ok d) (\<lambda>d.
          copy_in (off + x) (take w l) d))"

text \<open>The line of the scaled picture that line \<open>i\<close> shows, none above and below it.\<close>

definition shown_line :: "nat \<Rightarrow> nat \<Rightarrow> 'a list list \<Rightarrow> nat \<Rightarrow> 'a list option" where
  "shown_line h y img i = (if i < y \<or> i \<ge> h + y then None else Some (img ! (i - y)))"

text \<open>\<open>(n/2) & ~1\<close>: half of the pixels that are left, an even number of them.\<close>

definition half_even :: "nat \<Rightarrow> nat" where
  "half_even n = n div 2 div 2 * 2"

definition Resize ::
  "swscale \<Rightarrow> 8 word list \<Rightarrow> 8 word list \<Rightarrow> 8 word list \<Rightarrow> nat \<Rightarrow> nat \<Rightarrow> nat \<Rightarrow> frame_scaler \<Rightarrow> 8 word list \<Rightarrow>
     (bool \<times> 8 word list) res" where
  "Resize sw srcY srcU srcV dstY dstU dstV s d =
     (case resizeCtx s of
        None \<Rightarrow> Ok (False, d)
      | Some c \<Rightarrow>
          let width = resizeDstWidth s; height = resizeDstHeight s; line = resizeDstLineWidth s;
              w = resizeDstAdjustedWidth s; h = resizeDstAdjustedHeight s in
          if w > width \<or> h > height \<or> length srcY < resizeSrc s * (resizeHeight s - 1) + resizeWidth s then Fault OutOfBounds
          else
            let (imgY, imgU, imgV) = sws_scale sw c (resizeSrc s) srcY srcU srcV;
                x = half_even (width - w); y = half_even (height - h) in
            bindR (foldR (\<lambda>i. put_line width w x 0 (shown_line h y imgY i) (dstY + line * i)) [0..<height] d) (\<lambda>d.
            let x = x div 2; y = y div 2 in
            bindR (foldR (\<lambda>i d.
                bindR (put_line (width div 2) (w div 2) x 128 (shown_line (h div 2) y imgU i) (dstU + line * i div 2) d)
                  (put_line (width div 2) (w div 2) x 128 (shown_line (h div 2) y imgV i) (dstV + line * i div 2)))
              [0..<height div 2] d) (\<lambda>d.
            Ok (True, d))))"

end
