(* ===== verification/Mosaic.thy ===== *)
theory Mosaic
  imports MosaicLayout FrameScaler
begin

text \<open>
  A mosaic (\<open>src/mcu/src/mosaic.cpp\<close>): the participants it may show, the setting of its slots and what each slot
  shows now.

  A slot is set to a participant, or it is free, locked or the slot of the active speaker (0, -1 and -2).
  \<open>order\<close> is the \<open>std::set\<close> of the participants by falling score, a list of identifiers: the objects it points to
  are those of \<open>participants\<close>, one for an identifier, and the comparison reads their present score.  Elements of
  equal score are one element of the set.  The overlays drawn over a mosaic are not modelled.
\<close>

definition PositionNotShown :: int where "PositionNotShown = -1"
definition PositionNotFound :: int where "PositionNotFound = -2"

definition SlotFree :: int where "SlotFree = 0"
definition SlotLocked :: int where "SlotLocked = -1"
definition SlotVAD :: int where "SlotVAD = -2"

record part_info =
  score :: QWORD
  isFixed :: int

record mosaic =
  participants :: "(int, part_info) omap"
  order :: "int list"
  mosaicSlots :: "int list"
  mosaicPos :: "int list"
  oldPos :: "int list"
  vadParticipant :: int
  vadBlockingTime :: QWORD
  hideVadParticipant :: bool
  mosaicChanged :: bool
  overlayNeedsUpdate :: bool
  mosaicType :: mosaic_type
  mosaicTotalWidth :: nat
  mosaicTotalHeight :: nat
  picture :: "BYTE list"
  resizer :: "frame_scaler list"
  under :: "BYTE list"

text \<open>The number of slots is the length of the three arrays.\<close>

definition numSlots :: "mosaic \<Rightarrow> nat" where
  "numSlots m = length (mosaicSlots m)"

section \<open>The order of the participants\<close>

definition score_of :: "(int, part_info) omap \<Rightarrow> int \<Rightarrow> QWORD" where
  "score_of ps p = (case map_find ps p of Some i \<Rightarrow> score i | None \<Rightarrow> 0)"

text \<open>\<open>order.insert(info)\<close> and \<open>order.erase(info)\<close>, with the bigger score first.\<close>

fun order_insert :: "('p \<Rightarrow> 's::linorder) \<Rightarrow> 'p \<Rightarrow> 'p list \<Rightarrow> 'p list" where
  "order_insert sc p [] = [p]"
| "order_insert sc p (q # qs) =
     (if sc q > sc p then q # order_insert sc p qs
      else if sc p > sc q then p # q # qs
      else q # qs)"

definition order_erase :: "('p \<Rightarrow> 's::linorder) \<Rightarrow> 'p \<Rightarrow> 'p list \<Rightarrow> 'p list" where
  "order_erase sc p qs = filter (\<lambda>q. sc q > sc p \<or> sc p > sc q) qs"

section \<open>Construction\<close>

text \<open>\<open>FF_INPUT_BUFFER_PADDING_SIZE\<close> is a constant of libavcodec; the buffer is aligned to 32 bytes.\<close>

definition planes_length :: "nat \<Rightarrow> nat \<Rightarrow> nat" where
  "planes_length W H = W * H * 3 div 2"

definition Mosaic_new :: "nat \<Rightarrow> mosaic_type \<Rightarrow> int \<Rightarrow> mosaic" where
  "Mosaic_new padding t sz =
     (let W = GetWidth_size sz; H = GetHeight_size sz; n = GetNumSlotsForType t; numPixels = W * H in
      \<lparr>participants = [], order = [], mosaicSlots = replicate n 0, mosaicPos = replicate n 0,
       oldPos = replicate n (-1), vadParticipant = 0, vadBlockingTime = 0, hideVadParticipant = False,
       mosaicChanged = False, overlayNeedsUpdate = False, mosaicType = t, mosaicTotalWidth = W, mosaicTotalHeight = H,
       picture = replicate numPixels 0 @ replicate (numPixels div 4) 128 @ replicate (numPixels div 4) 128 @
                 replicate (planes_length W H + padding - numPixels - 2 * (numPixels div 4)) 0,
       resizer = replicate n FrameScaler_new,
       under = (case CreateMosaic_class t of PIPMosaic \<Rightarrow> replicate (planes_length W H + padding) 128 | _ \<Rightarrow> [])\<rparr>)"

definition CreateMosaic :: "nat \<Rightarrow> int \<Rightarrow> int \<Rightarrow> mosaic res" where
  "CreateMosaic padding ctype sz =
     (case mosaic_type_of ctype of
        None \<Rightarrow> Fault (Thrown ''Unknown mosaic type'')
      | Some t \<Rightarrow> Ok (Mosaic_new padding t sz))"

section \<open>Participants\<close>

definition Mosaic_HasParticipant :: "int \<Rightarrow> mosaic \<Rightarrow> bool" where
  "Mosaic_HasParticipant i m = (map_find (participants m) i \<noteq> None)"

definition GetScore :: "int \<Rightarrow> mosaic \<Rightarrow> QWORD" where
  "GetScore i m = (case map_find (participants m) i of None \<Rightarrow> 0 | Some info \<Rightarrow> score info)"

definition SetScore :: "int \<Rightarrow> QWORD \<Rightarrow> mosaic \<Rightarrow> bool \<times> mosaic" where
  "SetScore i s m =
     (case map_find (participants m) i of
        None \<Rightarrow> (False, m)
      | Some info \<Rightarrow>
          let m = m\<lparr>order := order_erase (score_of (participants m)) i (order m)\<rparr>;
              m = m\<lparr>participants := map_put i (info\<lparr>score := s\<rparr>) (participants m)\<rparr>;
              m = m\<lparr>order := order_insert (score_of (participants m)) i (order m)\<rparr> in
          (True, m))"

definition Mosaic_AddParticipant :: "int \<Rightarrow> QWORD \<Rightarrow> mosaic \<Rightarrow> bool \<times> mosaic" where
  "Mosaic_AddParticipant i s m =
     (if map_find (participants m) i \<noteq> None then (False, m)
      else
        let m = m\<lparr>participants := map_put i \<lparr>score = s, isFixed = 0\<rparr> (participants m)\<rparr>;
            m = m\<lparr>order := order_insert (score_of (participants m)) i (order m)\<rparr> in
        (True, m))"

text \<open>The object is still there when the set compares with it.\<close>

definition free_slots_of :: "int \<Rightarrow> int list \<Rightarrow> int list \<Rightarrow> int list \<times> int list" where
  "free_slots_of i slots pos =
     (map (\<lambda>s. if s = i then SlotFree else s) slots, map2 (\<lambda>s p. if s = i then 0 else p) slots pos)"

definition Mosaic_RemoveParticipant :: "int \<Rightarrow> mosaic \<Rightarrow> bool \<times> mosaic" where
  "Mosaic_RemoveParticipant i m =
     (case map_find (participants m) i of
        None \<Rightarrow> (False, m)
      | Some info \<Rightarrow>
          let m = m\<lparr>order := order_erase (score_of (participants m)) i (order m),
                    participants := map_erase i (participants m)\<rparr>;
              m = (if i = vadParticipant m then m\<lparr>vadParticipant := 0, vadBlockingTime := 0\<rparr> else m);
              (slots, pos) = free_slots_of i (mosaicSlots m) (mosaicPos m) in
          (True, m\<lparr>mosaicSlots := slots, mosaicPos := pos\<rparr>))"

section \<open>Slots\<close>

definition IsVADShown :: "mosaic \<Rightarrow> bool" where
  "IsVADShown m = (SlotVAD \<in> set (mosaicSlots m))"

definition add_fixed :: "int \<Rightarrow> int \<Rightarrow> (int, part_info) omap \<Rightarrow> (int, part_info) omap" where
  "add_fixed k i ps = map_adjust i (\<lambda>info. info\<lparr>isFixed := isFixed info + k\<rparr>) ps"

text \<open>The three updates that follow a slot's change from \<open>oldId\<close> to \<open>i\<close>.\<close>

definition fix_new :: "int \<Rightarrow> int \<Rightarrow> mosaic \<Rightarrow> mosaic" where
  "fix_new oldId i m = (if i > 0 \<and> oldId \<noteq> i then m\<lparr>participants := add_fixed 1 i (participants m)\<rparr> else m)"

definition unfix_old :: "int \<Rightarrow> int \<Rightarrow> mosaic \<Rightarrow> mosaic" where
  "unfix_old oldId i m =
     (if oldId > 0 \<and> oldId \<noteq> i then m\<lparr>participants := add_fixed (-1) oldId (participants m)\<rparr> else m)"

definition forget_vad :: "int \<Rightarrow> mosaic \<Rightarrow> mosaic" where
  "forget_vad oldId m =
     (if oldId = SlotVAD \<and> \<not> IsVADShown m then m\<lparr>vadParticipant := 0, vadBlockingTime := 0\<rparr> else m)"

definition Mosaic_SetSlot :: "int \<Rightarrow> int \<Rightarrow> mosaic \<Rightarrow> bool \<times> mosaic" where
  "Mosaic_SetSlot num i m =
     (if num > int (numSlots m) - 1 \<or> num < 0 then (False, m)
      else
        let oldId = mosaicSlots m ! nat num;
            m = m\<lparr>mosaicSlots := (mosaicSlots m)[nat num := i]\<rparr> in
        (True, forget_vad oldId (unfix_old oldId i (fix_new oldId i m))))"

fun find_slot :: "int \<Rightarrow> int \<Rightarrow> int list \<Rightarrow> int" where
  "find_slot i k [] = PositionNotShown"
| "find_slot i k (s # ss) = (if s = i then k else find_slot i (k + 1) ss)"

definition GetParticipantSlot :: "int \<Rightarrow> mosaic \<Rightarrow> int" where
  "GetParticipantSlot i m = find_slot i 0 (mosaicSlots m)"

text \<open>\<open>SetSlots(slots,num)\<close>: all slots free, then the given ones, as far as there are slots.\<close>

fun copy_slots :: "int list \<Rightarrow> nat \<Rightarrow> mosaic \<Rightarrow> mosaic" where
  "copy_slots [] k m = m"
| "copy_slots (i # is) k m =
     (if k < numSlots m then
        let m = (if i > 0 then m\<lparr>participants := add_fixed 1 i (participants m)\<rparr> else m) in
        copy_slots is (Suc k) (m\<lparr>mosaicSlots := (mosaicSlots m)[k := i]\<rparr>)
      else m)"

definition SetSlots :: "int list option \<Rightarrow> mosaic \<Rightarrow> mosaic" where
  "SetSlots slots m =
     (let m = m\<lparr>mosaicSlots := replicate (numSlots m) 0\<rparr> in
      case slots of None \<Rightarrow> m | Some is \<Rightarrow> copy_slots is 0 m)"

definition SetVADParticipant :: "int \<Rightarrow> bool \<Rightarrow> QWORD \<Rightarrow> mosaic \<Rightarrow> mosaic" where
  "SetVADParticipant i hide blockedUntil m =
     m\<lparr>vadParticipant := i, vadBlockingTime := blockedUntil, hideVadParticipant := hide\<rparr>"

definition Mosaic_Reset :: "mosaic \<Rightarrow> mosaic" where
  "Mosaic_Reset m = m\<lparr>mosaicChanged := False, oldPos := mosaicPos m\<rparr>"

section \<open>Positions\<close>

definition skipped :: "mosaic \<Rightarrow> int \<Rightarrow> bool" where
  "skipped m p \<longleftrightarrow>
     p = vadParticipant m \<and> hideVadParticipant m \<and> IsVADShown m \<or>
     (case map_find (participants m) p of Some info \<Rightarrow> isFixed info > 0 | None \<Rightarrow> False)"

text \<open>The next participant to draw, if there is one, and the rest of the order after it.\<close>

fun next_to_draw :: "mosaic \<Rightarrow> int list \<Rightarrow> int option \<times> int list" where
  "next_to_draw m [] = (None, [])"
| "next_to_draw m (p # ps) = (if skipped m p then next_to_draw m ps else (Some p, ps))"

definition fill_slot :: "nat \<Rightarrow> mosaic \<times> int list \<Rightarrow> mosaic \<times> int list" where
  "fill_slot i s =
     (case s of (m, it) \<Rightarrow>
        case next_to_draw m it of
          (None, it) \<Rightarrow> (m, it)
        | (Some p, it) \<Rightarrow> (m\<lparr>mosaicPos := (mosaicPos m)[i := p]\<rparr>, it))"

text \<open>One slot: \<open>it\<close> is what is left of the order.\<close>

definition position_slot :: "nat \<Rightarrow> mosaic \<times> int list \<Rightarrow> mosaic \<times> int list" where
  "position_slot i s =
     (case s of (m, it) \<Rightarrow>
        let slot = mosaicSlots m ! i in
        if slot = SlotFree then fill_slot i (m, it)
        else if slot = SlotLocked then (m, it)
        else if slot = SlotVAD then
          (if vadParticipant m \<noteq> 0 then (m\<lparr>mosaicPos := (mosaicPos m)[i := vadParticipant m]\<rparr>, it) else (m, it))
        else if map_find (participants m) slot \<noteq> None then (m\<lparr>mosaicPos := (mosaicPos m)[i := slot]\<rparr>, it)
        else fill_slot i (m\<lparr>mosaicSlots := (mosaicSlots m)[i := SlotFree]\<rparr>, it))"

definition CalculatePositions :: "mosaic \<Rightarrow> mosaic" where
  "CalculatePositions m =
     fst (fold position_slot [0..<numSlots m] (m\<lparr>mosaicPos := replicate (numSlots m) 0\<rparr>, order m))"

end
