(* ===== verification/MosaicPositions.thy ===== *)
theory MosaicPositions
  imports Mosaic
begin

text \<open>
  What \<open>CalculatePositions\<close> computes: a slot that is set shows what it is set to, and the free slots show, from the
  first one on, the participants that are not skipped, in their order.  A slot set to somebody who is not in
  the mosaic becomes a free one.
\<close>

definition free_like :: "mosaic \<Rightarrow> int \<Rightarrow> bool" where
  "free_like m s \<longleftrightarrow>
     s = SlotFree \<or> s \<noteq> SlotLocked \<and> s \<noteq> SlotVAD \<and> map_find (participants m) s = None"

definition settled :: "mosaic \<Rightarrow> int \<Rightarrow> int" where
  "settled m s = (if free_like m s then SlotFree else s)"

text \<open>The positions for the slots, given the participants left to draw.\<close>

fun shown :: "mosaic \<Rightarrow> int list \<Rightarrow> int list \<Rightarrow> int list" where
  "shown m [] es = []"
| "shown m (s # ss) es =
     (if free_like m s then (case es of [] \<Rightarrow> 0 # shown m ss [] | e # es \<Rightarrow> e # shown m ss es)
      else if s = SlotLocked then 0 # shown m ss es
      else if s = SlotVAD then vadParticipant m # shown m ss es
      else s # shown m ss es)"

definition candidates :: "mosaic \<Rightarrow> int list" where
  "candidates m = filter (\<lambda>p. \<not> skipped m p) (order m)"

lemmas slot_values = SlotFree_def SlotLocked_def SlotVAD_def

lemma length_shown [simp]: "length (shown m ss es) = length ss"
  by (induction m ss es rule: shown.induct) (auto split: list.splits)

text \<open>What the positions depend on.\<close>

definition same_view :: "mosaic \<Rightarrow> mosaic \<Rightarrow> bool" where
  "same_view m m' \<longleftrightarrow>
     participants m' = participants m \<and> vadParticipant m' = vadParticipant m \<and>
     hideVadParticipant m' = hideVadParticipant m \<and> IsVADShown m' = IsVADShown m"

lemma same_view_skipped: "same_view m m' \<Longrightarrow> skipped m' p = skipped m p"
  by (simp add: same_view_def skipped_def)

lemma same_view_free_like: "same_view m m' \<Longrightarrow> free_like m' s = free_like m s"
  by (simp add: same_view_def free_like_def)

lemma same_view_settled: "same_view m m' \<Longrightarrow> settled m' s = settled m s"
  by (simp add: settled_def same_view_free_like)

lemma same_view_shown:
  assumes "same_view m m'"
  shows "shown m' ss es = shown m ss es"
proof -
  have "vadParticipant m' = vadParticipant m" using assms by (simp add: same_view_def)
  then show ?thesis
    by (induction ss arbitrary: es) (simp_all add: same_view_free_like [OF assms] split: list.split)
qed

lemma next_to_draw_filter:
  "case next_to_draw m it of
     (None, r) \<Rightarrow> r = [] \<and> filter (\<lambda>p. \<not> skipped m p) it = []
   | (Some p, r) \<Rightarrow> filter (\<lambda>p. \<not> skipped m p) it = p # filter (\<lambda>p. \<not> skipped m p) r"
  by (induction it) (auto split: prod.splits option.splits)

text \<open>One slot, with the slots before it settled.\<close>

lemma settle_view:
  assumes "mosaicSlots m = ds @ s # ss"
  shows "same_view m (m\<lparr>mosaicSlots := ds @ settled m s # ss, mosaicPos := p\<rparr>)"
  using assms by (auto simp: same_view_def IsVADShown_def settled_def free_like_def slot_values)

lemma position_slot_step:
  assumes slots: "mosaicSlots m = ds @ s # ss" and pos: "mosaicPos m = ps @ 0 # zs" "length ps = length ds"
  shows "\<exists>r. position_slot (length ds) (m, it) =
      (m\<lparr>mosaicSlots := ds @ settled m s # ss,
         mosaicPos := ps @ hd (shown m [s] (filter (\<lambda>p. \<not> skipped m p) it)) # zs\<rparr>, r) \<and>
    filter (\<lambda>p. \<not> skipped m p) r =
      (if free_like m s then tl (filter (\<lambda>p. \<not> skipped m p) it) else filter (\<lambda>p. \<not> skipped m p) it)"
proof -
  have nth: "mosaicSlots m ! length ds = s" using slots by simp
  have upd: "(mosaicSlots m)[length ds := x] = ds @ x # ss" "(mosaicPos m)[length ds := x] = ps @ x # zs" for x
    using slots pos by (simp_all add: list_update_append flip: pos(2))
  have id: "m\<lparr>mosaicSlots := ds @ s # ss\<rparr> = m" "m\<lparr>mosaicPos := ps @ 0 # zs\<rparr> = m"
    "m\<lparr>mosaicSlots := ds @ s # ss, mosaicPos := ps @ 0 # zs\<rparr> = m"
    "m\<lparr>mosaicSlots := x, mosaicPos := ps @ 0 # zs\<rparr> = m\<lparr>mosaicSlots := x\<rparr>"
    "m\<lparr>mosaicSlots := ds @ s # ss, mosaicPos := y\<rparr> = m\<lparr>mosaicPos := y\<rparr>" for x y
    using slots pos by simp_all
  show ?thesis
  proof (cases "free_like m s")
    case True
    define m0 where "m0 = m\<lparr>mosaicSlots := ds @ settled m s # ss\<rparr>"
    have view: "same_view m m0"
      using settle_view [OF slots, of "mosaicPos m"] by (simp add: m0_def)
    have "m0 = m" if "s = SlotFree"
      using that slots by (simp add: m0_def settled_def)
    then have "position_slot (length ds) (m, it) = fill_slot (length ds) (m0, it)"
      using True nth by (cases "s = SlotFree") (auto simp: position_slot_def free_like_def settled_def m0_def upd Let_def)
    moreover have "next_to_draw m0 it = next_to_draw m it" for it
      by (induction it) (simp_all add: same_view_skipped [OF view])
    ultimately show ?thesis
      using True next_to_draw_filter [of m it]
      by (auto simp: fill_slot_def m0_def upd id split: prod.splits option.splits)
  next
    case False
    then have "settled m s = s" by (simp add: settled_def)
    then show ?thesis
      unfolding \<open>settled m s = s\<close> id(5)
      using False nth by (auto simp: position_slot_def free_like_def upd id(2) slot_values Let_def)
  qed
qed


lemma shown_step:
  "shown m (s # ss) es = hd (shown m [s] es) # shown m ss (if free_like m s then tl es else es)"
  by (cases es) auto

lemma fold_positions:
  assumes "mosaicSlots m = ds @ ss" "mosaicPos m = ps @ replicate (length ss) 0" "length ps = length ds"
  shows "fst (fold position_slot [length ds..<length ds + length ss] (m, it)) =
    m\<lparr>mosaicSlots := ds @ map (settled m) ss,
      mosaicPos := ps @ shown m ss (filter (\<lambda>p. \<not> skipped m p) it)\<rparr>"
  using assms
proof (induction ss arbitrary: m ds ps it)
  case Nil
  then show ?case by simp
next
  case (Cons s ss)
  let ?es = "filter (\<lambda>p. \<not> skipped m p) it"
  define e where "e = hd (shown m [s] ?es)"
  define m1 where "m1 = m\<lparr>mosaicSlots := ds @ settled m s # ss, mosaicPos := ps @ e # replicate (length ss) 0\<rparr>"
  obtain r where r: "position_slot (length ds) (m, it) = (m1, r)"
    "filter (\<lambda>p. \<not> skipped m p) r = (if free_like m s then tl ?es else ?es)"
    using position_slot_step [of m ds s ss ps "replicate (length ss) 0" it] Cons.prems by (auto simp: m1_def e_def)
  have view: "same_view m m1"
    unfolding m1_def using Cons.prems(1) by (intro settle_view) simp
  have "fst (fold position_slot [length ds..<length ds + length (s # ss)] (m, it)) =
    fst (fold position_slot [Suc (length ds)..<Suc (length ds) + length ss] (m1, r))"
    by (simp add: upt_conv_Cons r(1) del: upt_Suc)
  also have "\<dots> = m1\<lparr>mosaicSlots := (ds @ [settled m s]) @ map (settled m1) ss,
      mosaicPos := (ps @ [e]) @ shown m1 ss (filter (\<lambda>p. \<not> skipped m1 p) r)\<rparr>"
    using Cons.IH [of m1 "ds @ [settled m s]" "ps @ [e]" r] Cons.prems(3) by (simp add: m1_def)
  also have "\<dots> = m\<lparr>mosaicSlots := ds @ map (settled m) (s # ss), mosaicPos := ps @ shown m (s # ss) ?es\<rparr>"
    unfolding shown_step [of m s ss] same_view_shown [OF view] same_view_skipped [OF view] r(2)
      same_view_settled [OF view, abs_def] by (simp add: m1_def e_def)
  finally show ?case .
qed

theorem CalculatePositions_shown:
  "CalculatePositions m =
     m\<lparr>mosaicSlots := map (settled m) (mosaicSlots m), mosaicPos := shown m (mosaicSlots m) (candidates m)\<rparr>"
proof -
  define m0 where "m0 = m\<lparr>mosaicPos := replicate (numSlots m) 0\<rparr>"
  have "same_view m m0" by (simp add: same_view_def m0_def IsVADShown_def)
  note view = same_view_shown [OF this] same_view_skipped [OF this] same_view_settled [OF this, abs_def]
  show ?thesis
    using fold_positions [of m0 "[]" "mosaicSlots m" "[]" "order m"]
    by (simp add: CalculatePositions_def numSlots_def candidates_def m0_def [symmetric, unfolded numSlots_def] view)
      (simp add: m0_def numSlots_def)
qed


section \<open>The free slots\<close>

text \<open>What the free slots show, in the order of the slots.\<close>

definition free_positions :: "mosaic \<Rightarrow> int list" where
  "free_positions m = map snd (filter (\<lambda>(s, p). s = SlotFree) (zip (mosaicSlots m) (mosaicPos m)))"

lemma zip_shown_free:
  "map snd (filter (\<lambda>(s, p). free_like m s) (zip ss (shown m ss es))) =
     take (length (filter (free_like m) ss)) es @ replicate (length (filter (free_like m) ss) - length es) 0"
  by (induction ss arbitrary: es) (auto split: list.split)

lemma nth_shown:
  assumes "i < length ss" "\<not> free_like m (ss ! i)"
  shows "shown m ss es ! i =
    (if ss ! i = SlotLocked then 0 else if ss ! i = SlotVAD then vadParticipant m else ss ! i)"
  using assms
proof (induction ss arbitrary: es i)
  case (Cons s ss)
  then show ?case by (cases i) (auto split: list.split)
qed simp

end
