(* ===== verification/MosaicInvariant.thy ===== *)
theory MosaicInvariant
  imports MosaicPositions
begin

text \<open>
  What every mosaic of the mixer keeps: the order of the participants is strict in their scores, nobody is set in
  two slots, \<open>isFixed\<close> is the number of slots a participant is set in, and the active speaker is a participant.
\<close>

section \<open>A set ordered by a score\<close>

lemma sorted_wrt_score_inj:
  fixes sc :: "'p \<Rightarrow> 's::linorder"
  shows "sorted_wrt (\<lambda>p q. sc p > sc q) xs \<Longrightarrow> inj_on sc (set xs)"
  by (induction xs) (auto dest: order.strict_implies_not_eq)

lemma sorted_wrt_score_cong:
  fixes sc :: "'p \<Rightarrow> 's::linorder"
  assumes "\<And>p. p \<in> set xs \<Longrightarrow> sc' p = sc p"
  shows "sorted_wrt (\<lambda>p q. sc' p > sc' q) xs = sorted_wrt (\<lambda>p q. sc p > sc q) xs"
  using assms by (induction xs) auto

text \<open>
  The contract of \<open>std::set\<close> with a comparison by score: an element is inserted unless its score is taken, and
  erasing an element erases the one of its score.
\<close>

locale ranked_set =
  fixes ins :: "('p \<Rightarrow> 's::linorder) \<Rightarrow> 'p \<Rightarrow> 'o \<Rightarrow> 'o"
    and del :: "('p \<Rightarrow> 's) \<Rightarrow> 'p \<Rightarrow> 'o \<Rightarrow> 'o"
    and elems :: "'o \<Rightarrow> 'p list"
  assumes elems_ins:
      "sorted_wrt (\<lambda>p q. sc p > sc q) (elems qs) \<Longrightarrow>
       set (elems (ins sc p qs)) = (if sc p \<in> sc ` set (elems qs) then set (elems qs) else insert p (set (elems qs)))"
    and ranked_ins:
      "sorted_wrt (\<lambda>p q. sc p > sc q) (elems qs) \<Longrightarrow> sorted_wrt (\<lambda>p q. sc p > sc q) (elems (ins sc p qs))"
    and elems_del: "elems (del sc p qs) = filter (\<lambda>q. sc q \<noteq> sc p) (elems qs)"
begin

definition ranked :: "('p \<Rightarrow> 's) \<Rightarrow> 'o \<Rightarrow> bool" where
  "ranked sc qs \<longleftrightarrow> sorted_wrt (\<lambda>p q. sc p > sc q) (elems qs)"

lemma ranked_inj: "ranked sc qs \<Longrightarrow> inj_on sc (set (elems qs))"
  unfolding ranked_def by (rule sorted_wrt_score_inj)

lemma ranked_cong: "(\<And>p. p \<in> set (elems qs) \<Longrightarrow> sc' p = sc p) \<Longrightarrow> ranked sc' qs = ranked sc qs"
  unfolding ranked_def by (rule sorted_wrt_score_cong)

lemma ranked_insert: "ranked sc qs \<Longrightarrow> ranked sc (ins sc p qs)"
  unfolding ranked_def by (rule ranked_ins)

lemma ranked_erase: "ranked sc qs \<Longrightarrow> ranked sc (del sc p qs)"
  by (simp add: ranked_def elems_del sorted_wrt_filter)

lemma set_insert:
  "ranked sc qs \<Longrightarrow> set (elems (ins sc p qs)) \<subseteq> insert p (set (elems qs)) \<and> set (elems qs) \<subseteq> set (elems (ins sc p qs))"
  by (auto simp: ranked_def elems_ins)

lemma set_insert_new:
  "ranked sc qs \<Longrightarrow> sc p \<notin> sc ` set (elems qs) \<Longrightarrow> set (elems (ins sc p qs)) = insert p (set (elems qs))"
  by (simp add: ranked_def elems_ins)

lemma set_erase: "set (elems (del sc p qs)) = {q \<in> set (elems qs). sc q \<noteq> sc p}"
  by (simp add: elems_del)

text \<open>A new score: the element is erased under the old one and inserted under the new one.\<close>

lemma ranked_erase_cong:
  assumes "\<And>q. q \<noteq> p \<Longrightarrow> sc' q = sc q"
  shows "ranked sc' (del sc p qs) = ranked sc (del sc p qs)"
proof (rule ranked_cong)
  fix q assume "q \<in> set (elems (del sc p qs))"
  then have "q \<noteq> p" by (auto simp: set_erase)
  then show "sc' q = sc q" by (rule assms)
qed

lemma ranked_rescore:
  assumes "ranked sc qs" "\<And>q. q \<noteq> p \<Longrightarrow> sc' q = sc q"
  shows "ranked sc' (ins sc' p (del sc p qs))"
proof -
  have "ranked sc' (del sc p qs) = ranked sc (del sc p qs)"
    by (rule ranked_erase_cong [OF assms(2)])
  then show ?thesis using ranked_erase [OF assms(1)] ranked_insert by blast
qed

lemma set_rescore:
  assumes "ranked sc qs" "\<And>q. q \<noteq> p \<Longrightarrow> sc' q = sc q"
  shows "set (elems (ins sc' p (del sc p qs))) \<subseteq> insert p (set (elems qs))"
proof -
  have "ranked sc' (del sc p qs) = ranked sc (del sc p qs)"
    by (rule ranked_erase_cong [OF assms(2)])
  then show ?thesis using set_insert [of sc' "del sc p qs" p] ranked_erase [OF assms(1)] by (auto simp: set_erase)
qed

lemma set_rescore_all:
  assumes "ranked sc qs" "\<And>q. q \<noteq> p \<Longrightarrow> sc' q = sc q" "set (elems qs) = K" "p \<in> K" "inj_on sc' K"
  shows "set (elems (ins sc' p (del sc p qs))) = K"
proof -
  have r: "ranked sc' (del sc p qs)"
    using ranked_erase [OF assms(1)] ranked_erase_cong [of p sc' sc qs] assms(2) by blast
  have "set (elems (del sc p qs)) = K - {p}"
    using ranked_inj [OF assms(1)] assms(3,4) by (auto simp: set_erase inj_on_def)
  moreover from this assms(4,5) have "sc' p \<notin> sc' ` set (elems (del sc p qs))"
    by (auto simp: inj_on_def)
  ultimately show ?thesis using set_insert_new [OF r, of p] assms(4) by auto
qed

end

lemma set_order_insert:
  "sorted_wrt (\<lambda>p q. sc p > sc q) qs \<Longrightarrow>
     set (order_insert sc p qs) = (if sc p \<in> sc ` set qs then set qs else insert p (set qs))"
  by (induction sc p qs rule: order_insert.induct) auto

lemma sorted_order_insert:
  "sorted_wrt (\<lambda>p q. sc p > sc q) qs \<Longrightarrow> sorted_wrt (\<lambda>p q. sc p > sc q) (order_insert sc p qs)"
proof (induction sc p qs rule: order_insert.induct)
  case (2 sc p q qs)
  then show ?case by (auto simp: set_order_insert)
qed simp

interpretation rank: ranked_set order_insert order_erase "\<lambda>qs. qs"
  by unfold_locales (auto simp: set_order_insert sorted_order_insert order_erase_def neq_iff intro!: filter_cong)


section \<open>The invariant\<close>

definition members :: "mosaic \<Rightarrow> int set" where
  "members m = fst ` set (participants m)"

definition fixed_count :: "mosaic \<Rightarrow> bool" where
  "fixed_count m \<longleftrightarrow>
     (\<forall>p info. map_find (participants m) p = Some info \<longrightarrow> isFixed info = of_bool (p \<in> set (mosaicSlots m)))"

definition mosaic_ok :: "mosaic \<Rightarrow> bool" where
  "mosaic_ok m \<longleftrightarrow>
     omap_wf (participants m) \<and> (\<forall>p \<in> members m. 0 < p) \<and>
     rank.ranked (score_of (participants m)) (order m) \<and> set (order m) \<subseteq> members m \<and>
     length (mosaicSlots m) = GetNumSlotsForType (mosaicType m) \<and>
     length (mosaicPos m) = length (mosaicSlots m) \<and> length (oldPos m) = length (mosaicSlots m) \<and>
     distinct (filter (\<lambda>s. 0 < s) (mosaicSlots m)) \<and> fixed_count m \<and>
     (vadParticipant m = 0 \<or> vadParticipant m \<in> members m)"

text \<open>Every slot is free, locked, the active speaker's or set to a participant of the mosaic.\<close>

definition mosaic_settled :: "mosaic \<Rightarrow> bool" where
  "mosaic_settled m \<longleftrightarrow> set (mosaicSlots m) \<subseteq> {SlotFree, SlotLocked, SlotVAD} \<union> members m"

text \<open>Scores differ, and everybody is in the order.\<close>

definition mosaic_complete :: "mosaic \<Rightarrow> bool" where
  "mosaic_complete m \<longleftrightarrow> inj_on (score_of (participants m)) (members m) \<and> set (order m) = members m"

lemma find_member: "map_find (participants m) p \<noteq> None \<longleftrightarrow> p \<in> members m"
  by (simp add: members_def map_find_None_iff)

lemma member_info: "p \<in> members m \<Longrightarrow> \<exists>info. map_find (participants m) p = Some info"
  using find_member by blast

lemma not_member: "map_find (participants m) p = None \<longleftrightarrow> p \<notin> members m"
  by (simp add: members_def map_find_None_iff)

lemma mosaic_new_ok: "mosaic_ok (Mosaic_new padding t sz)"
  by (simp add: mosaic_ok_def Mosaic_new_def Let_def members_def fixed_count_def rank.ranked_def)

lemma mosaic_new_settled: "mosaic_settled (Mosaic_new padding t sz)"
  by (auto simp: mosaic_settled_def Mosaic_new_def Let_def slot_values)

lemma mosaic_new_complete: "mosaic_complete (Mosaic_new padding t sz)"
  by (simp add: mosaic_complete_def Mosaic_new_def Let_def members_def)

section \<open>Calculating positions\<close>

lemma settled_eq: "settled m s = (if s \<in> {SlotLocked, SlotVAD} \<union> members m then s else SlotFree)"
  by (auto simp: settled_def free_like_def not_member slot_values)

lemma free_like_settled: "mosaic_settled m \<Longrightarrow> s \<in> set (mosaicSlots m) \<Longrightarrow> (\<forall>p \<in> members m. 0 < p) \<Longrightarrow>
  free_like m s \<longleftrightarrow> s = SlotFree"
  by (auto simp: free_like_def mosaic_settled_def not_member)

lemma distinct_positive_map:
  assumes "\<And>s. f s = s \<or> f s = (0::int)" "distinct (filter (\<lambda>s. 0 < s) xs)"
  shows "distinct (filter (\<lambda>s. 0 < s) (map f xs)) \<and> {s \<in> set (map f xs). 0 < s} \<subseteq> set xs"
  using assms(2)
proof (induction xs)
  case (Cons s xs)
  then have IH: "distinct (filter (\<lambda>s. 0 < s) (map f xs))" "{s \<in> set (map f xs). 0 < s} \<subseteq> set xs"
    by (auto split: if_splits)
  have "f s = s \<or> f s = 0" by (rule assms(1))
  then show ?case using IH Cons.prems by (auto split: if_splits)
qed simp

lemma settled_zero: "settled m s = s \<or> settled m s = 0"
  by (simp add: settled_def SlotFree_def)

definition positions_current :: "mosaic \<Rightarrow> bool" where
  "positions_current m \<longleftrightarrow> mosaicPos m = shown m (mosaicSlots m) (candidates m)"

lemma same_view_CalculatePositions: "same_view m (CalculatePositions m)"
proof -
  have "SlotVAD \<in> settled m ` set (mosaicSlots m) \<longleftrightarrow> SlotVAD \<in> set (mosaicSlots m)"
    by (force simp: settled_eq slot_values)
  then show ?thesis by (simp add: same_view_def CalculatePositions_shown IsVADShown_def)
qed

lemma shown_settled: "shown m (map (settled m) ss) es = shown m ss es"
proof (induction ss arbitrary: es)
  case (Cons s ss)
  have "free_like m (settled m s) = free_like m s" "\<not> free_like m s \<Longrightarrow> settled m s = s"
    by (auto simp: settled_def free_like_def)
  then show ?case by (simp add: Cons.IH split: list.split)
qed simp

lemma positions_current_CalculatePositions: "positions_current (CalculatePositions m)"
proof -
  note view = same_view_CalculatePositions [of m]
  have "candidates (CalculatePositions m) = candidates m"
    by (simp add: candidates_def same_view_skipped [OF view]) (simp add: CalculatePositions_shown)
  then show ?thesis
    by (simp add: positions_current_def same_view_shown [OF view]) (simp add: CalculatePositions_shown shown_settled)
qed

lemma members_CalculatePositions [simp]: "members (CalculatePositions m) = members m"
  by (simp add: members_def CalculatePositions_shown)

lemma mosaic_settled_CalculatePositions: "mosaic_settled (CalculatePositions m)"
  unfolding mosaic_settled_def members_CalculatePositions
  by (auto simp: CalculatePositions_shown settled_eq)

lemma CalculatePositions_ok:
  assumes "mosaic_ok m"
  shows "mosaic_ok (CalculatePositions m)"
proof -
  let ?ss = "mosaicSlots m"
  have pos: "\<forall>p \<in> members m. 0 < p" using assms by (simp add: mosaic_ok_def)
  have "distinct (filter (\<lambda>s. 0 < s) ?ss)" using assms by (simp add: mosaic_ok_def)
  from distinct_positive_map [of "settled m", OF settled_zero this]
  have d: "distinct (filter (\<lambda>s. 0 < s) (map (settled m) ?ss))" by simp
  have "p \<in> set (map (settled m) ?ss) \<longleftrightarrow> p \<in> set ?ss" if "p \<in> members m" for p
  proof -
    have "0 < p" using pos that by blast
    then show ?thesis using that by (force simp: settled_eq slot_values)
  qed
  note slot = this
  have "isFixed info = of_bool (p \<in> set (map (settled m) ?ss))" if "map_find (participants m) p = Some info" for p info
    using assms that slot [of p] find_member [of m p] unfolding mosaic_ok_def fixed_count_def by simp
  then have "fixed_count (CalculatePositions m)" by (simp add: fixed_count_def CalculatePositions_shown)
  with assms d show ?thesis
    unfolding mosaic_ok_def by (simp add: members_def) (simp add: CalculatePositions_shown)
qed

lemma CalculatePositions_complete: "mosaic_complete (CalculatePositions m) = mosaic_complete m"
  unfolding mosaic_complete_def by simp (simp add: CalculatePositions_shown)

section \<open>Participants come and go\<close>

lemma score_of_put: "omap_wf ps \<Longrightarrow> score_of (map_put i x ps) p = (if p = i then score x else score_of ps p)"
  by (simp add: score_of_def map_find_put)

lemma score_of_erase: "p \<noteq> i \<Longrightarrow> score_of (map_erase i ps) p = score_of ps p"
  by (simp add: score_of_def map_find_erase)

lemma score_of_add_fixed [simp]: "score_of (add_fixed k i ps) = score_of ps"
  by (auto simp: score_of_def add_fixed_def map_find_adjust fun_eq_iff split: option.split)

lemma mosaic_okD:
  assumes "mosaic_ok m"
  shows "omap_wf (participants m)" "p \<in> members m \<Longrightarrow> 0 < p"
    "rank.ranked (score_of (participants m)) (order m)" "set (order m) \<subseteq> members m"
    "length (mosaicPos m) = length (mosaicSlots m)" "distinct (filter (\<lambda>s. 0 < s) (mosaicSlots m))"
    "map_find (participants m) p = Some info \<Longrightarrow> isFixed info = of_bool (p \<in> set (mosaicSlots m))"
    "vadParticipant m \<noteq> 0 \<Longrightarrow> vadParticipant m \<in> members m"
    "length (mosaicSlots m) = GetNumSlotsForType (mosaicType m)" "length (oldPos m) = length (mosaicSlots m)"
  using assms by (auto simp: mosaic_ok_def fixed_count_def)

lemma AddParticipant_ok:
  assumes "mosaic_ok m" "mosaic_settled m" "0 < i" "Mosaic_AddParticipant i s m = (b, m')"
  shows "mosaic_ok m' \<and> mosaic_settled m'"
proof (cases "map_find (participants m) i")
  case None
  let ?ps = "map_put i \<lparr>score = s, isFixed = 0\<rparr> (participants m)"
  note ok = mosaic_okD [OF assms(1)]
  have i: "i \<notin> members m" using None by (simp add: not_member)
  then have slot: "i \<notin> set (mosaicSlots m)" using assms(2,3) by (auto simp: mosaic_settled_def slot_values)
  have m': "m' = m\<lparr>participants := ?ps, order := order_insert (score_of ?ps) i (order m)\<rparr>"
    using assms(4) None by (simp add: Mosaic_AddParticipant_def Let_def)
  have members: "members m' = insert i (members m)" by (simp add: m' members_def fst_map_put)
  have "rank.ranked (score_of ?ps) (order m) = rank.ranked (score_of (participants m)) (order m)"
    using ok(1,4) i by (intro rank.ranked_cong) (auto simp: score_of_put)
  then have r: "rank.ranked (score_of ?ps) (order m)" using ok(3) by simp
  have "set (order m') \<subseteq> members m'" unfolding members using rank.set_insert [OF r, of i] ok(4) by (auto simp: m')
  moreover have "fixed_count m'"
    using ok(1,7) slot by (auto simp: m' fixed_count_def map_find_put)
  ultimately have "mosaic_ok m'"
    using ok(2,5,6,8-10) rank.ranked_insert [OF r] assms(3) ok(1)
    unfolding mosaic_ok_def members by (auto simp: m')
  moreover have "mosaic_settled m'"
    using assms(2) unfolding mosaic_settled_def members by (auto simp: m')
  ultimately show ?thesis ..
qed (use assms in \<open>simp add: Mosaic_AddParticipant_def\<close>)

lemma AddParticipant_complete:
  assumes "mosaic_ok m" "mosaic_complete m" "s \<notin> score_of (participants m) ` members m" "Mosaic_AddParticipant i s m = (b, m')"
  shows "mosaic_complete m'"
proof (cases "map_find (participants m) i")
  case None
  let ?ps = "map_put i \<lparr>score = s, isFixed = 0\<rparr> (participants m)"
  note ok = mosaic_okD [OF assms(1)]
  have i: "i \<notin> members m" using None by (simp add: not_member)
  have m': "m' = m\<lparr>participants := ?ps, order := order_insert (score_of ?ps) i (order m)\<rparr>"
    using assms(4) None by (simp add: Mosaic_AddParticipant_def Let_def)
  have members: "members m' = insert i (members m)" by (simp add: m' members_def fst_map_put)
  have sc: "score_of ?ps p = (if p = i then s else score_of (participants m) p)" for p
    by (simp add: score_of_put ok(1))
  have "rank.ranked (score_of ?ps) (order m) = rank.ranked (score_of (participants m)) (order m)"
    using ok(4) i by (intro rank.ranked_cong) (auto simp: sc)
  then have r: "rank.ranked (score_of ?ps) (order m)" using ok(3) by simp
  have o: "set (order m) = members m" using assms(2) by (simp add: mosaic_complete_def)
  have "score_of ?ps i \<notin> score_of ?ps ` set (order m)" using assms(3) i unfolding o by (auto simp: sc)
  from rank.set_insert_new [OF r this] have "set (order m') = members m'"
    unfolding members by (simp add: m' o)
  moreover have "inj_on (score_of (participants m')) (members m')"
    using assms(2,3) i unfolding mosaic_complete_def members inj_on_def by (auto simp: m' sc)
  ultimately show ?thesis by (simp add: mosaic_complete_def)
qed (use assms in \<open>simp add: Mosaic_AddParticipant_def\<close>)


lemma RemoveParticipant_ok:
  assumes "mosaic_ok m" "mosaic_settled m" "Mosaic_RemoveParticipant i m = (b, m')"
  shows "mosaic_ok m' \<and> mosaic_settled m' \<and> (mosaic_complete m \<longrightarrow> mosaic_complete m')"
proof (cases "map_find (participants m) i")
  case (Some info)
  let ?ps = "map_erase i (participants m)"
  let ?o = "order_erase (score_of (participants m)) i (order m)"
  let ?ss = "map (\<lambda>s. if s = i then SlotFree else s) (mosaicSlots m)"
  note ok = mosaic_okD [OF assms(1)]
  have i: "0 < i" using Some ok(2) find_member by blast
  have m': "participants m' = ?ps" "order m' = ?o" "mosaicSlots m' = ?ss" "length (mosaicPos m') = length (mosaicPos m)"
    "mosaicType m' = mosaicType m" "oldPos m' = oldPos m" "vadParticipant m' = (if vadParticipant m = i then 0 else vadParticipant m)"
    using assms(3) Some ok(5) by (auto simp: Mosaic_RemoveParticipant_def free_slots_of_def Let_def)
  have members: "members m' = members m - {i}" by (auto simp: m' members_def set_map_erase)
  have o: "set ?o = {q \<in> set (order m). score_of (participants m) q \<noteq> score_of (participants m) i}"
    by (rule rank.set_erase)
  have "rank.ranked (score_of ?ps) ?o = rank.ranked (score_of (participants m)) ?o"
    by (rule rank.ranked_erase_cong) (rule score_of_erase)
  then have r: "rank.ranked (score_of ?ps) ?o" using rank.ranked_erase [OF ok(3)] by simp
  have "distinct (filter (\<lambda>s. 0 < s) ?ss)"
    using distinct_positive_map [of "\<lambda>s. if s = i then SlotFree else s", OF _ ok(6)] by (simp add: SlotFree_def)
  moreover have "fixed_count m'"
    unfolding fixed_count_def m' map_find_erase
  proof (intro allI impI)
    fix p x assume p: "((map_find (participants m))(i := None)) p = Some x"
    then have "p \<noteq> i" "map_find (participants m) p = Some x" by (auto split: if_splits)
    moreover from this ok(2) find_member have "0 < p" by blast
    ultimately show "isFixed x = of_bool (p \<in> set ?ss)" using ok(7) by (auto simp: SlotFree_def)
  qed
  ultimately have "mosaic_ok m'"
    using ok(1,2,4,5,8-10) r unfolding mosaic_ok_def members m'(1-3,5-7)
    by (auto simp: o m'(4))
  moreover have "mosaic_settled m'"
    using assms(2) unfolding mosaic_settled_def members by (auto simp: m')
  moreover have "mosaic_complete m'" if c: "mosaic_complete m"
  proof -
    have "i \<in> members m" using Some find_member by blast
    then have "set ?o = members m - {i}" using c unfolding mosaic_complete_def o by (auto simp: inj_on_def)
    moreover have "inj_on (score_of ?ps) (members m - {i})"
      using c unfolding mosaic_complete_def by (auto simp: inj_on_def score_of_erase)
    ultimately show ?thesis unfolding mosaic_complete_def members by (simp add: m')
  qed
  ultimately show ?thesis by blast
qed (use assms in \<open>simp add: Mosaic_RemoveParticipant_def\<close>)

lemma SetScore_ok:
  assumes "mosaic_ok m" "SetScore i s m = (b, m')"
  shows "mosaic_ok m' \<and> members m' = members m \<and> (mosaic_settled m \<longrightarrow> mosaic_settled m') \<and>
    (mosaic_complete m \<and> s \<notin> score_of (participants m) ` (members m - {i}) \<longrightarrow> mosaic_complete m')"
proof (cases "map_find (participants m) i")
  case (Some info)
  let ?ps = "map_put i (info\<lparr>score := s\<rparr>) (participants m)"
  let ?sc = "score_of (participants m)"
  note ok = mosaic_okD [OF assms(1)]
  have i: "i \<in> members m" using Some find_member by blast
  have m': "m' = m\<lparr>participants := ?ps, order := order_insert (score_of ?ps) i (order_erase ?sc i (order m))\<rparr>"
    using assms(2) Some by (simp add: SetScore_def Let_def)
  have sc: "score_of ?ps p = (if p = i then s else ?sc p)" for p by (simp add: score_of_put ok(1))
  then have sc_other: "\<And>q. q \<noteq> i \<Longrightarrow> score_of ?ps q = ?sc q" by simp
  have members: "members m' = members m" using i by (auto simp: m' members_def fst_map_put)
  note r = rank.ranked_rescore [OF ok(3) sc_other] rank.set_rescore [OF ok(3) sc_other]
  have "fixed_count m'"
    using ok(1,7) Some by (auto simp: m' fixed_count_def map_find_put split: if_splits)
  moreover have "set (order m') \<subseteq> members m" using r(2) ok(4) i by (auto simp: m')
  ultimately have "mosaic_ok m'"
    using ok(1,2,5,6,8-10) r(1) unfolding mosaic_ok_def members by (auto simp: m')
  moreover have "mosaic_settled m \<longrightarrow> mosaic_settled m'" by (simp add: mosaic_settled_def members) (simp add: m')
  moreover have "mosaic_complete m'" if c: "mosaic_complete m" and new: "s \<notin> ?sc ` (members m - {i})"
  proof -
    have inj: "inj_on (score_of ?ps) (members m)"
      using c new unfolding mosaic_complete_def by (auto simp: inj_on_def sc)
    have "set (order m) = members m" using c by (simp add: mosaic_complete_def)
    from rank.set_rescore_all [OF ok(3) sc_other this i inj] inj show ?thesis
      unfolding mosaic_complete_def members by (simp add: m')
  qed
  ultimately show ?thesis using members by blast
qed (use assms in \<open>simp add: SetScore_def\<close>)


section \<open>Slots are set\<close>

lemma distinct_positive_update:
  assumes "distinct (filter (\<lambda>s. 0 < s) xs)" "n < length xs" "0 < (i::int) \<longrightarrow> i \<notin> set xs \<or> xs ! n = i"
  shows "distinct (filter (\<lambda>s. 0 < s) (xs[n := i]))"
    and "0 < p \<Longrightarrow> p \<in> set (xs[n := i]) \<longleftrightarrow> p = i \<or> p \<in> set xs \<and> p \<noteq> xs ! n"
proof -
  define as bs where "as = take n xs" and "bs = drop (Suc n) xs"
  have xs: "xs = as @ xs ! n # bs" "xs[n := i] = as @ i # bs"
    using assms(2) by (simp_all add: as_def bs_def id_take_nth_drop upd_conv_take_nth_drop)
  have d: "distinct (filter (\<lambda>s. 0 < s) (as @ xs ! n # bs))" "0 < i \<longrightarrow> i \<notin> set (as @ xs ! n # bs) \<or> xs ! n = i"
    using assms(1,3) xs(1) by metis+
  show "distinct (filter (\<lambda>s. 0 < s) (xs[n := i]))"
    unfolding xs(2) using d by (auto split: if_splits)
  show "p \<in> set (xs[n := i]) \<longleftrightarrow> p = i \<or> p \<in> set xs \<and> p \<noteq> xs ! n" if "0 < p"
  proof -
    have "p \<in> set xs \<longleftrightarrow> p \<in> set as \<or> p = xs ! n \<or> p \<in> set bs" using xs(1) by (metis Un_iff set_append set_ConsD list.set_intros insert_iff list.simps(15))
    moreover have "p = xs ! n \<Longrightarrow> p \<notin> set as \<and> p \<notin> set bs" using d(1) that by auto
    ultimately show ?thesis unfolding xs(2) by auto
  qed
qed

lemma fst_add_fixed [simp]: "fst ` set (add_fixed k i ps) = fst ` set ps"
  unfolding add_fixed_def by (metis fst_map_adjust set_map)

lemma omap_wf_add_fixed [simp]: "omap_wf (add_fixed k i ps) = omap_wf ps"
  by (simp add: add_fixed_def)

lemma find_add_fixed:
  "map_find (add_fixed k i ps) p = Some x \<longleftrightarrow>
     (\<exists>y. map_find ps p = Some y \<and> x = (if p = i then y\<lparr>isFixed := isFixed y + k\<rparr> else y))"
  by (auto simp: add_fixed_def map_find_adjust)

lemma find_if_add_fixed:
  "map_find (if c then add_fixed k i ps else ps) p = Some x \<Longrightarrow>
     \<exists>y. map_find ps p = Some y \<and> isFixed x = isFixed y + (if c \<and> p = i then k else 0)"
  by (cases c) (auto simp: find_add_fixed)

lemma participants_slot_updates:
  "participants (m\<lparr>mosaicSlots := xs\<rparr>) = participants m"
  "participants (fix_new old i m) = (if 0 < i \<and> old \<noteq> i then add_fixed 1 i (participants m) else participants m)"
  "participants (unfix_old old i m) = (if 0 < old \<and> old \<noteq> i then add_fixed (-1) old (participants m) else participants m)"
  "participants (forget_vad old m) = participants m"
  by (simp_all add: fix_new_def unfix_old_def forget_vad_def)

lemma frame_slot_updates:
  "m' = forget_vad old (unfix_old old i (fix_new old i m)) \<Longrightarrow>
     mosaicSlots m' = mosaicSlots m \<and> order m' = order m \<and> mosaicPos m' = mosaicPos m \<and> oldPos m' = oldPos m \<and>
     mosaicType m' = mosaicType m \<and> (vadParticipant m' = vadParticipant m \<or> vadParticipant m' = 0)"
  by (simp add: fix_new_def unfix_old_def forget_vad_def)

lemma SetSlot_ok:
  assumes ok: "mosaic_ok m" and new: "0 < i \<longrightarrow> i \<notin> set (mosaicSlots m) \<or> mosaicSlots m ! nat num = i"
    and set: "Mosaic_SetSlot num i m = (b, m')"
  shows "mosaic_ok m' \<and> (mosaic_complete m \<longrightarrow> mosaic_complete m') \<and> members m' = members m \<and>
    score_of (participants m') = score_of (participants m)"
proof (cases "num > int (numSlots m) - 1 \<or> num < 0")
  case False
  let ?n = "nat num" and ?xs = "mosaicSlots m"
  define old where "old = ?xs ! ?n"
  note ok = mosaic_okD [OF ok]
  have n: "?n < length ?xs" using False by (auto simp: numSlots_def)
  have m': "m' = forget_vad old (unfix_old old i (fix_new old i (m\<lparr>mosaicSlots := ?xs[?n := i]\<rparr>)))"
    using set False by (auto simp: Mosaic_SetSlot_def Let_def old_def)
  from frame_slot_updates [OF this]
  have slots: "mosaicSlots m' = ?xs[?n := i]" "order m' = order m" "mosaicPos m' = mosaicPos m" "oldPos m' = oldPos m"
    "mosaicType m' = mosaicType m" "vadParticipant m' = vadParticipant m \<or> vadParticipant m' = 0"
    by simp_all
  define ps1 where "ps1 = (if 0 < i \<and> old \<noteq> i then add_fixed 1 i (participants m) else participants m)"
  have ps: "participants m' = (if 0 < old \<and> old \<noteq> i then add_fixed (-1) old ps1 else ps1)"
    unfolding m' ps1_def participants_slot_updates by (rule refl)
  have members: "members m' = members m" by (simp add: members_def ps ps1_def)
  have sc: "score_of (participants m') = score_of (participants m)" by (simp add: ps ps1_def)
  note upd = distinct_positive_update [OF ok(6) n new]
  have "fixed_count m'"
    unfolding fixed_count_def slots
  proof (intro allI impI)
    fix p x assume "map_find (participants m') p = Some x"
    then obtain z where z: "map_find ps1 p = Some z"
      "isFixed x = isFixed z + (if (0 < old \<and> old \<noteq> i) \<and> p = old then -1 else 0)"
      unfolding ps using find_if_add_fixed by blast
    then obtain y where y: "map_find (participants m) p = Some y"
      "isFixed z = isFixed y + (if (0 < i \<and> old \<noteq> i) \<and> p = i then 1 else 0)"
      unfolding ps1_def using find_if_add_fixed by blast
    have p: "0 < p" using y(1) ok(2) find_member by blast
    have "old \<in> set ?xs" "?xs ! ?n = old" using n by (simp_all add: old_def)
    with z(2) y(2) ok(7) [OF y(1)] upd(2) [OF p] new p show "isFixed x = of_bool (p \<in> set (?xs[?n := i]))" by auto
  qed
  moreover have "omap_wf (participants m')" using ok(1) by (simp add: ps ps1_def)
  moreover have "vadParticipant m' = 0 \<or> vadParticipant m' \<in> members m" using slots(6) ok(8) by metis
  moreover have "\<forall>p \<in> members m. 0 < p" using ok(2) by blast
  ultimately have "mosaic_ok m'"
    using ok(3-5,9,10) upd(1) unfolding mosaic_ok_def members sc slots(1-5) length_list_update by blast
  then show ?thesis using members sc by (simp add: mosaic_complete_def slots)
qed (use assms in \<open>auto simp: Mosaic_SetSlot_def\<close>)

lemma SetVADParticipant_ok:
  assumes "mosaic_ok m" "i = 0 \<or> i \<in> members m"
  shows "mosaic_ok (SetVADParticipant i hide t m)"
  using assms by (auto simp: mosaic_ok_def SetVADParticipant_def members_def fixed_count_def)

lemma Reset_ok: "mosaic_ok m \<Longrightarrow> mosaic_ok (Mosaic_Reset m)"
  by (auto simp: mosaic_ok_def Mosaic_Reset_def members_def fixed_count_def)

lemma find_slot_range: "find_slot i k ss = PositionNotShown \<and> i \<notin> set ss \<or>
    (\<exists>j < length ss. find_slot i k ss = k + int j \<and> ss ! j = i)"
proof (induction ss arbitrary: k)
  case (Cons s ss)
  show ?case
  proof (cases "s = i")
    case False
    then show ?thesis using Cons.IH [of "k + 1"] by (auto intro: exI [of _ "Suc _"])
  qed auto
qed simp


text \<open>Copying slots onto a mosaic whose slots are free is setting them one by one.\<close>

lemma copy_slot_SetSlot:
  assumes "k < numSlots m" "mosaicSlots m ! k = 0"
  shows "copy_slots (i # is) k m = copy_slots is (Suc k) (snd (Mosaic_SetSlot (int k) i m))"
proof -
  have "snd (Mosaic_SetSlot (int k) i m) =
    (if 0 < i then m\<lparr>participants := add_fixed 1 i (participants m)\<rparr> else m)\<lparr>mosaicSlots := (mosaicSlots m)[k := i]\<rparr>"
    using assms
    by (auto simp: Mosaic_SetSlot_def Let_def forget_vad_def unfix_old_def fix_new_def SlotVAD_def)
  moreover have "mosaicSlots (if 0 < i then m\<lparr>participants := add_fixed 1 i (participants m)\<rparr> else m) = mosaicSlots m"
    by simp
  ultimately show ?thesis using assms(1) by simp
qed

lemma copy_slots_ok:
  assumes "mosaic_ok m" "\<forall>j < numSlots m. k \<le> j \<longrightarrow> mosaicSlots m ! j = 0"
    and "distinct (filter (\<lambda>s. 0 < s) is)" "\<forall>i \<in> set is. 0 < i \<longrightarrow> i \<notin> set (mosaicSlots m)"
  shows "mosaic_ok (copy_slots is k m) \<and> (mosaic_complete m \<longrightarrow> mosaic_complete (copy_slots is k m)) \<and>
    members (copy_slots is k m) = members m \<and> score_of (participants (copy_slots is k m)) = score_of (participants m)"
  using assms
proof (induction "is" arbitrary: k m)
  case (Cons i "is")
  show ?case
  proof (cases "k < numSlots m")
    case True
    define m1 where "m1 = snd (Mosaic_SetSlot (int k) i m)"
    have z: "mosaicSlots m ! k = 0" using Cons.prems(2) True by simp
    have ok1: "mosaic_ok m1 \<and> (mosaic_complete m \<longrightarrow> mosaic_complete m1) \<and> members m1 = members m \<and>
        score_of (participants m1) = score_of (participants m)"
      by (rule SetSlot_ok [OF Cons.prems(1), of i "int k" True])
        (use Cons.prems(4) True in \<open>auto simp: m1_def Mosaic_SetSlot_def numSlots_def Let_def\<close>)
    have slots: "mosaicSlots m1 = (mosaicSlots m)[k := i]"
      using True by (simp add: m1_def Mosaic_SetSlot_def Let_def forget_vad_def unfix_old_def fix_new_def)
    have "distinct (filter (\<lambda>s. 0 < s) is)" using Cons.prems(3) by (auto split: if_splits)
    moreover have "\<forall>x \<in> set is. 0 < x \<longrightarrow> x \<notin> set (mosaicSlots m1)"
      using Cons.prems(3,4) set_update_subset_insert [of "mosaicSlots m" k i] unfolding slots by fastforce
    moreover have "\<forall>j < numSlots m1. Suc k \<le> j \<longrightarrow> mosaicSlots m1 ! j = 0"
      using Cons.prems(2) by (auto simp: slots numSlots_def)
    ultimately show ?thesis
      using Cons.IH [of m1 "Suc k"] ok1 unfolding copy_slot_SetSlot [OF True z] m1_def by simp
  qed (use Cons.prems in simp)
qed simp

lemma SetSlots_ok:
  assumes "mosaic_ok m" "set (mosaicSlots m) \<subseteq> {0}" "distinct (filter (\<lambda>s. 0 < s) slots)"
  shows "mosaic_ok (SetSlots (Some slots) m) \<and> (mosaic_complete m \<longrightarrow> mosaic_complete (SetSlots (Some slots) m)) \<and>
    members (SetSlots (Some slots) m) = members m \<and>
    score_of (participants (SetSlots (Some slots) m)) = score_of (participants m)"
proof -
  have "mosaicSlots m = replicate (numSlots m) 0"
    using assms(2) unfolding numSlots_def by (intro replicate_eqI) auto
  then have "m\<lparr>mosaicSlots := replicate (numSlots m) 0\<rparr> = m" by (metis mosaic.surjective mosaic.update_convs(3))
  moreover have "\<forall>j < numSlots m. 0 \<le> j \<longrightarrow> mosaicSlots m ! j = 0"
    using assms(2) nth_mem unfolding numSlots_def by blast
  ultimately show ?thesis
    using copy_slots_ok [OF assms(1) _ assms(3), of 0] assms(2) by (auto simp: SetSlots_def)
qed

end
