(* ===== verification/MosaicPicture.thy ===== *)
theory MosaicPicture
  imports Mosaic
begin

text \<open>
  Drawing into a mosaic (\<open>partedmosaic.cpp\<close>, \<open>asymmetricmosaic.cpp\<close>, \<open>pipmosaic.cpp\<close>).  The picture is one buffer
  with three planes, a byte of luminance for every pixel and a byte of each chrominance for four.  An image comes
  the same way, \<open>None\<close> is a null pointer; what is read or written outside a buffer is a fault.
\<close>

definition SetChanged :: "mosaic \<Rightarrow> mosaic" where
  "SetChanged m = m\<lparr>mosaicChanged := True, overlayNeedsUpdate := True\<rparr>"

text \<open>Where the three planes of a slot begin in the buffer.\<close>

record planes =
  lineaY :: nat
  lineaU :: nat
  lineaV :: nat

definition planes_at :: "mosaic \<Rightarrow> nat \<Rightarrow> nat \<Rightarrow> planes" where
  "planes_at m offset offset2 =
     (let mosaicNumPixels = mosaicTotalWidth m * mosaicTotalHeight m in
      \<lparr>lineaY = offset, lineaU = mosaicNumPixels + offset2, lineaV = mosaicNumPixels + offset2 + mosaicNumPixels div 4\<rparr>)"

definition parted_planes :: "nat \<Rightarrow> nat \<Rightarrow> nat \<Rightarrow> mosaic \<Rightarrow> planes" where
  "parted_planes c r pos m =
     (let W = mosaicTotalWidth m; mosaicWidth = W div c; mosaicHeight = mosaicTotalHeight m div r;
          i = pos div c; j = pos - i * c in
      planes_at m (W * mosaicHeight * i + mosaicWidth * j) (W * mosaicHeight div 4 * i + mosaicWidth div 2 * j))"

definition asym_planes :: "nat \<Rightarrow> nat \<Rightarrow> mosaic \<Rightarrow> planes" where
  "asym_planes x y m =
     (let W = mosaicTotalWidth m in planes_at m (W * y + x) (W * y div 4 + x div 2))"

section \<open>A slot is cleaned\<close>

definition clean_lines :: "nat \<Rightarrow> nat \<Rightarrow> nat \<Rightarrow> planes \<Rightarrow> BYTE list \<Rightarrow> BYTE list res" where
  "clean_lines W width height p d =
     bindR (foldR (\<lambda>i. fill (lineaY p + W * i) width 0) [0..<height] d) (\<lambda>d.
     foldR (\<lambda>i d. bindR (fill (lineaU p + W div 2 * i) (width div 2) 128 d) (fill (lineaV p + W div 2 * i) (width div 2) 128))
       [0..<height div 2] d)"

definition with_picture :: "(BYTE list \<Rightarrow> BYTE list res) \<Rightarrow> mosaic \<Rightarrow> mosaic res" where
  "with_picture f m = bindR (f (picture m)) (\<lambda>d. Ok (m\<lparr>picture := d\<rparr>))"

definition parted_Clean :: "nat \<Rightarrow> mosaic \<Rightarrow> (bool \<times> mosaic) res" where
  "parted_Clean pos m =
     (if pos \<ge> numSlots m then Ok (False, m)
      else bindR (PartedMosaic_grid (mosaicType m)) (\<lambda>(c, r).
        let W = mosaicTotalWidth m in
        bindR (with_picture (clean_lines W (W div c) (mosaicTotalHeight m div r) (parted_planes c r pos m)) m) (\<lambda>m.
        Ok (True, SetChanged m))))"

definition asym_Clean :: "nat \<Rightarrow> mosaic \<Rightarrow> (bool \<times> mosaic) res" where
  "asym_Clean pos m =
     (let t = mosaicType m; W = mosaicTotalWidth m; H = mosaicTotalHeight m in
      if pos \<ge> numSlots m then Ok (False, m)
      else
        bindR (asym_GetLeft t W pos) (\<lambda>x.
        bindR (asym_GetTop t H pos) (\<lambda>y.
        bindR (with_picture (clean_lines W (asym_GetWidth t W pos) (asym_GetHeight t H pos) (asym_planes x y m)) m) (\<lambda>m.
        Ok (True, SetChanged m)))))"

section \<open>An image is drawn into a slot\<close>

text \<open>\<open>memcpy(d+to,img+from,n)\<close>.\<close>

definition move :: "nat \<Rightarrow> nat \<Rightarrow> nat \<Rightarrow> 'a list \<Rightarrow> 'a list \<Rightarrow> 'a list res" where
  "move to from n img d = bindR (copy_out from n img) (\<lambda>l. copy_in to l d)"

text \<open>An image of the size of the slot is copied line by line.\<close>

definition copy_lines :: "nat \<Rightarrow> nat \<Rightarrow> nat \<Rightarrow> BYTE list \<Rightarrow> planes \<Rightarrow> BYTE list \<Rightarrow> BYTE list res" where
  "copy_lines W imgWidth imgHeight img p d =
     (let imgNumPixels = imgHeight * imgWidth; imageU = imgNumPixels; imageV = imageU + imgNumPixels div 4 in
      bindR (foldR (\<lambda>i. move (lineaY p + W * i) (imgWidth * i) imgWidth img) [0..<imgHeight] d) (\<lambda>d.
      foldR (\<lambda>i d.
          bindR (move (lineaU p + W div 2 * i) (imageU + imgWidth div 2 * i) (imgWidth div 2) img d)
            (move (lineaV p + W div 2 * i) (imageV + imgWidth div 2 * i) (imgWidth div 2) img))
        [0..<imgHeight div 2] d))"

definition image_bytes :: "BYTE list option \<Rightarrow> BYTE list res" where
  "image_bytes img = (case img of None \<Rightarrow> Fault NullDeref | Some d \<Rightarrow> Ok d)"

text \<open>Any other one is scaled by the scaler of the slot, which looks at it only when it has a context.\<close>

definition scale_into ::
  "swscale \<Rightarrow> nat \<Rightarrow> nat \<Rightarrow> nat \<Rightarrow> BYTE list option \<Rightarrow> nat \<Rightarrow> nat \<Rightarrow> bool \<Rightarrow> planes \<Rightarrow> mosaic \<Rightarrow> BYTE list \<Rightarrow>
     (mosaic \<times> BYTE list) res" where
  "scale_into sw pos imgWidth imgHeight img width height keepAspectRatio p m d =
     (let imgNumPixels = imgHeight * imgWidth in
      bindR (SetResize sw imgWidth imgHeight imgWidth width height (mosaicTotalWidth m) keepAspectRatio (resizer m ! pos))
        (\<lambda>(_, s).
      bindR (if resizeCtx s = None then Ok [] else image_bytes img) (\<lambda>img.
      bindR (Resize sw img (drop imgNumPixels img) (drop (imgNumPixels + imgNumPixels div 4) img)
               (lineaY p) (lineaU p) (lineaV p) s d) (\<lambda>(_, d).
      Ok (m\<lparr>resizer := (resizer m)[pos := s]\<rparr>, d)))))"

definition draw ::
  "swscale \<Rightarrow> nat \<Rightarrow> BYTE list option \<Rightarrow> nat \<Rightarrow> nat \<Rightarrow> bool \<Rightarrow> nat \<Rightarrow> nat \<Rightarrow> planes \<Rightarrow> mosaic \<Rightarrow> mosaic res" where
  "draw sw pos img imgWidth imgHeight keepAspectRatio width height p m =
     (if imgWidth = width \<and> imgHeight = height
      then bindR (image_bytes img) (\<lambda>img. with_picture (copy_lines (mosaicTotalWidth m) imgWidth imgHeight img p) m)
      else bindR (scale_into sw pos imgWidth imgHeight img width height keepAspectRatio p m (picture m)) (\<lambda>(m, d).
        Ok (m\<lparr>picture := d\<rparr>)))"

definition parted_Update ::
  "swscale \<Rightarrow> nat \<Rightarrow> BYTE list option \<Rightarrow> nat \<Rightarrow> nat \<Rightarrow> bool \<Rightarrow> mosaic \<Rightarrow> (bool \<times> mosaic) res" where
  "parted_Update sw pos img imgWidth imgHeight keepAspectRatio m =
     (if pos \<ge> numSlots m then Ok (False, m)
      else if img = None \<and> imgHeight = 0 then bindR (parted_Clean pos m) (\<lambda>(_, m). Ok (False, m))
      else bindR (PartedMosaic_grid (mosaicType m)) (\<lambda>(c, r).
        bindR (draw sw pos img imgWidth imgHeight keepAspectRatio (mosaicTotalWidth m div c) (mosaicTotalHeight m div r)
                 (parted_planes c r pos m) m) (\<lambda>m.
        Ok (True, SetChanged m))))"

definition asym_Update ::
  "swscale \<Rightarrow> nat \<Rightarrow> BYTE list option \<Rightarrow> nat \<Rightarrow> nat \<Rightarrow> bool \<Rightarrow> mosaic \<Rightarrow> (bool \<times> mosaic) res" where
  "asym_Update sw pos img imgWidth imgHeight keepAspectRatio m =
     (let t = mosaicType m; W = mosaicTotalWidth m; H = mosaicTotalHeight m;
          width = asym_GetWidth t W pos; height = asym_GetHeight t H pos in
      if pos \<ge> numSlots m then Ok (False, m)
      else if img = None \<and> imgHeight = 0 then asym_Clean pos m
      else
        bindR (asym_GetLeft t W pos) (\<lambda>x.
        bindR (asym_GetTop t H pos) (\<lambda>y.
        if imgWidth = width \<and> imgHeight = height \<or> imgWidth > 0 \<and> imgHeight > 0 then
          bindR (draw sw pos img imgWidth imgHeight keepAspectRatio width height (asym_planes x y m) m) (\<lambda>m.
          Ok (True, SetChanged m))
        else Ok (False, m))))"

section \<open>Pictures in a picture\<close>

text \<open>\<open>Clean\<close> has no body: it leaves the picture, and the value it should return is not used.\<close>

definition pip_Clean :: "nat \<Rightarrow> mosaic \<Rightarrow> mosaic" where
  "pip_Clean pos m = m"

text \<open>
  The image of slot 0 is copied around the small pictures, two lines of luminance and one of each chrominance at a
  time.  A segment is a first column and a number of bytes.
\<close>

definition copy_segment ::
  "mosaic \<Rightarrow> BYTE list \<Rightarrow> nat \<Rightarrow> (nat \<times> nat) \<times> (nat \<times> nat) \<Rightarrow> BYTE list \<Rightarrow> BYTE list res" where
  "copy_segment m img j seg d =
     (case seg of ((x, n), (x', n')) \<Rightarrow>
        let W = mosaicTotalWidth m; N = W * mosaicTotalHeight m; y = W * (2 * j) + x; u = N + W div 2 * j + x';
            v = u + N div 4 in
        bindR (move y y n img d) (\<lambda>d.
        bindR (move (y + W) (y + W) n img d) (\<lambda>d.
        bindR (move u u n' img d) (move v v n' img))))"

definition whole_line :: "nat \<Rightarrow> ((nat \<times> nat) \<times> (nat \<times> nat)) list" where
  "whole_line W = [((0, W), (0, W div 2))]"

definition around_small :: "nat \<Rightarrow> nat \<Rightarrow> ((nat \<times> nat) \<times> (nat \<times> nat)) list" where
  "around_small n W =
     (let w = pip_size n W; intraWidth = SIZE4MUL (W div 5) div 2; step = intraWidth + w;
          intraWidthUV = intraWidth div 2; stepUV = intraWidthUV + w div 2 in
      map (\<lambda>i. ((step * i, intraWidth), (stepUV * i, intraWidthUV))) [0..<n - 1] @
      [((step * (n - 1), W - step * (n - 1)), (stepUV * (n - 1), W div 2 - stepUV * (n - 1)))])"

definition pip_background :: "mosaic \<Rightarrow> BYTE list \<Rightarrow> BYTE list \<Rightarrow> BYTE list res" where
  "pip_background m img d =
     (let n = numSlots m; W = mosaicTotalWidth m; H = mosaicTotalHeight m; ini = pip_ini n H; height = pip_size n H;
          pairs = (\<lambda>segs js. foldR (\<lambda>j. foldR (copy_segment m img j) segs) js) in
      bindR (pairs (whole_line W) [0..<ini div 2] d) (\<lambda>d.
      bindR (pairs (around_small n W) [ini div 2..<ini div 2 + height div 2] d) (\<lambda>d.
      pairs (whole_line W) [(ini + height) div 2..<H div 2] d)))"

definition pip_planes :: "nat \<Rightarrow> mosaic \<Rightarrow> planes" where
  "pip_planes pos m =
     (let n = numSlots m; W = mosaicTotalWidth m; w = pip_size n W; intraWidth = SIZE4MUL (W div 5) div 2;
          pipYOffset = W * pip_ini n (mosaicTotalHeight m) in
      planes_at m (pipYOffset + intraWidth + (intraWidth + w) * (pos - 1))
        (pipYOffset div 4 + intraWidth div 2 + (intraWidth div 2 + w div 2) * (pos - 1)))"

definition pip_Update ::
  "swscale \<Rightarrow> nat \<Rightarrow> BYTE list option \<Rightarrow> nat \<Rightarrow> nat \<Rightarrow> bool \<Rightarrow> mosaic \<Rightarrow> (bool \<times> mosaic) res" where
  "pip_Update sw pos img imgWidth imgHeight keepAspectRatio m =
     (let n = numSlots m; W = mosaicTotalWidth m; H = mosaicTotalHeight m; N = W * H;
          width = pip_size n W; height = pip_size n H in
      if img = None \<and> imgHeight = 0 then Ok (False, pip_Clean pos m)
      else if pos + 1 > n then Ok (False, m)
      else if pos = 0 then
        bindR (if imgWidth \<noteq> W \<or> imgHeight \<noteq> H then
                 bindR (scale_into sw pos imgWidth imgHeight img W H keepAspectRatio
                          \<lparr>lineaY = 0, lineaU = N, lineaV = N + N div 4\<rparr> m (under m)) (\<lambda>(m, d).
                 Ok (m\<lparr>under := d\<rparr>, d))
               else bindR (image_bytes img) (\<lambda>img. Ok (m, img))) (\<lambda>(m, img).
        bindR (with_picture (pip_background m img) m) (\<lambda>m. Ok (True, SetChanged m)))
      else if imgWidth = width \<and> imgHeight = height \<or> imgWidth > 0 \<and> imgHeight > 0 then
        bindR (draw sw pos img imgWidth imgHeight keepAspectRatio width height (pip_planes pos m) m) (\<lambda>m.
        Ok (True, SetChanged m))
      else Ok (True, SetChanged m))"

section \<open>The virtual functions\<close>

definition mosaic_Update ::
  "swscale \<Rightarrow> nat \<Rightarrow> BYTE list option \<Rightarrow> nat \<Rightarrow> nat \<Rightarrow> bool \<Rightarrow> mosaic \<Rightarrow> (bool \<times> mosaic) res" where
  "mosaic_Update sw pos img imgWidth imgHeight keepAspectRatio m =
     (case CreateMosaic_class (mosaicType m) of
        PartedMosaic \<Rightarrow> parted_Update sw pos img imgWidth imgHeight keepAspectRatio m
      | AsymmetricMosaic \<Rightarrow> asym_Update sw pos img imgWidth imgHeight keepAspectRatio m
      | PIPMosaic \<Rightarrow> pip_Update sw pos img imgWidth imgHeight keepAspectRatio m)"

definition mosaic_Clean :: "nat \<Rightarrow> mosaic \<Rightarrow> mosaic res" where
  "mosaic_Clean pos m =
     (case CreateMosaic_class (mosaicType m) of
        PartedMosaic \<Rightarrow> bindR (parted_Clean pos m) (\<lambda>(_, m). Ok m)
      | AsymmetricMosaic \<Rightarrow> bindR (asym_Clean pos m) (\<lambda>(_, m). Ok m)
      | PIPMosaic \<Rightarrow> Ok (pip_Clean pos m))"

text \<open>\<open>Clean(index,logo)\<close>: the logo, when there is one, its frame, its width and its height.\<close>

definition mosaic_Clean_logo :: "swscale \<Rightarrow> nat \<Rightarrow> (BYTE list \<times> nat \<times> nat) option \<Rightarrow> mosaic \<Rightarrow> mosaic res" where
  "mosaic_Clean_logo sw pos logo m =
     (case logo of
        Some (frame, w, h) \<Rightarrow> bindR (mosaic_Update sw pos (Some frame) w h False m) (\<lambda>(_, m). Ok m)
      | None \<Rightarrow> mosaic_Clean pos m)"

end
