(* ===== verification/VideoMixer.thy ===== *)
theory VideoMixer
  imports MosaicPicture
begin

text \<open>
  The video mixer of a conference (\<open>src/mcu/src/videomixer.cpp\<close>): its mosaics, and the participants that send a
  picture and are sent the picture of a mosaic.

  A pointer to a mosaic is an address of \<open>vm_heap\<close>, where a deleted mosaic is \<open>None\<close>.  An operation runs under
  \<open>lstVideosUse\<close> and is one step, as is one round of the thread that mixes; but for \<open>EndMixer\<close>, which lets go of
  \<open>lstVideosUse\<close> before it goes through the mosaics: \<open>EndMixer_source\<close> is what it does before, \<open>remove_from\<close> what it does
  with one mosaic, and \<open>vm_EndMixer\<close> all of it when nothing comes in between.  What comes from outside is an argument:
  the pictures the participants send, the level of their voice (the \<open>VADProxy\<close>) and the readings of the clock.
  The pipes the pictures go through, the names drawn over the slots and the events sent to monitors are not modelled.
  Two calls at once that both have only a share of \<open>lstVideosUse\<close> change a mosaic or a source without a lock; they are
  taken one after the other.
\<close>

datatype vad_mode = NoVAD | BasicVAD | FullVAD

record video_source =
  vs_mosaic :: "nat option"
  vs_name :: wstring
  vs_refresh :: bool

record video_mixer =
  vm_videos :: "(int, video_source) omap"
  vm_mosaics :: "(int, nat) omap"
  vm_heap :: "nat \<Rightarrow> mosaic option"
  vm_next :: nat
  vm_maxMosaics :: int
  vm_defaultMosaic :: "nat option"
  vm_mixingVideo :: bool
  vm_ini :: QWORD
  vm_proxy :: bool
  vm_vadMode :: vad_mode
  vm_keepAspectRatio :: bool

definition VideoMixer_new :: video_mixer where
  "VideoMixer_new =
     \<lparr>vm_videos = [], vm_mosaics = [], vm_heap = (\<lambda>_. None), vm_next = 0, vm_maxMosaics = 0, vm_defaultMosaic = None,
      vm_mixingVideo = False, vm_ini = 0, vm_proxy = False, vm_vadMode = NoVAD, vm_keepAspectRatio = True\<rparr>"

section \<open>Mosaics of the mixer\<close>

definition load_mosaic :: "nat \<Rightarrow> video_mixer \<Rightarrow> mosaic res" where
  "load_mosaic p v = (case vm_heap v p of None \<Rightarrow> Fault UseAfterFree | Some m \<Rightarrow> Ok m)"

definition store_mosaic :: "nat \<Rightarrow> mosaic \<Rightarrow> video_mixer \<Rightarrow> video_mixer" where
  "store_mosaic p m v = v\<lparr>vm_heap := (vm_heap v)(p \<mapsto> m)\<rparr>"

text \<open>An operation on the mosaic of an identifier: \<open>False\<close> when there is none.\<close>

definition on_mosaic :: "int \<Rightarrow> (mosaic \<Rightarrow> mosaic) \<Rightarrow> video_mixer \<Rightarrow> (bool \<times> video_mixer) res" where
  "on_mosaic mosaicId f v =
     (case map_find (vm_mosaics v) mosaicId of
        None \<Rightarrow> Ok (False, v)
      | Some p \<Rightarrow> bindR (load_mosaic p v) (\<lambda>m. Ok (True, store_mosaic p (f m) v)))"

definition AddMosaicParticipant :: "int \<Rightarrow> int \<Rightarrow> video_mixer \<Rightarrow> (bool \<times> video_mixer) res" where
  "AddMosaicParticipant mosaicId partId v =
     on_mosaic mosaicId (\<lambda>m. CalculatePositions (snd (Mosaic_AddParticipant partId (vm_ini v - of_int partId) m))) v"

definition RemoveMosaicParticipant :: "int \<Rightarrow> int \<Rightarrow> video_mixer \<Rightarrow> (bool \<times> video_mixer) res" where
  "RemoveMosaicParticipant mosaicId partId v =
     on_mosaic mosaicId (\<lambda>m. CalculatePositions (snd (Mosaic_RemoveParticipant partId m))) v"

text \<open>The participant leaves the slot it is set in before it is set in another one.\<close>

definition leave_slot :: "int \<Rightarrow> mosaic \<Rightarrow> mosaic" where
  "leave_slot i m =
     (if i > 0 then
        let old = GetParticipantSlot i m in
        if old \<noteq> PositionNotFound \<and> old \<noteq> PositionNotShown then snd (Mosaic_SetSlot old SlotFree m) else m
      else m)"

definition vm_SetSlot :: "int \<Rightarrow> int \<Rightarrow> int \<Rightarrow> video_mixer \<Rightarrow> (bool \<times> video_mixer) res" where
  "vm_SetSlot mosaicId num i v =
     on_mosaic mosaicId (\<lambda>m. CalculatePositions (snd (Mosaic_SetSlot num i (leave_slot i m)))) v"

definition GetMosaicPositions :: "int \<Rightarrow> video_mixer \<Rightarrow> int list option res" where
  "GetMosaicPositions mosaicId v =
     (case map_find (vm_mosaics v) mosaicId of
        None \<Rightarrow> Ok None
      | Some p \<Rightarrow> bindR (load_mosaic p v) (\<lambda>m. Ok (Some (mosaicPos m))))"

text \<open>The participants that are still in the mixer follow to the new mosaic.\<close>

definition take_over :: "mosaic \<Rightarrow> (int, video_source) omap \<Rightarrow> mosaic \<Rightarrow> mosaic" where
  "take_over old videos m =
     fold (\<lambda>(i, _) m. if Mosaic_HasParticipant i old then snd (Mosaic_AddParticipant i (GetScore i old) m) else m) videos m"

definition repoint :: "nat \<Rightarrow> nat option \<Rightarrow> (int, video_source) omap \<Rightarrow> (int, video_source) omap" where
  "repoint p q videos = map (\<lambda>(i, s). (i, if vs_mosaic s = Some p then s\<lparr>vs_mosaic := q\<rparr> else s)) videos"

definition new_default :: "nat \<Rightarrow> nat \<Rightarrow> nat option \<Rightarrow> nat option" where
  "new_default p q d = (if d = Some p then Some q else d)"

definition SetCompositionType :: "nat \<Rightarrow> int \<Rightarrow> int \<Rightarrow> int \<Rightarrow> video_mixer \<Rightarrow> video_mixer res" where
  "SetCompositionType padding mosaicId ctype sz v =
     bindR (CreateMosaic padding ctype sz) (\<lambda>m.
     let q = vm_next v; v = v\<lparr>vm_next := Suc q\<rparr> in
     bindR (case map_find (vm_mosaics v) mosaicId of
         None \<Rightarrow> Ok (m, v)
       | Some p \<Rightarrow>
           bindR (load_mosaic p v) (\<lambda>old.
           let m = take_over old (vm_videos v) m;
               m = SetSlots (Some (mosaicSlots old)) m;
               m = SetVADParticipant (vadParticipant m) (vm_vadMode v = FullVAD) (vadBlockingTime m) m in
           Ok (m, v\<lparr>vm_videos := repoint p (Some q) (vm_videos v),
                    vm_defaultMosaic := new_default p q (vm_defaultMosaic v),
                    vm_heap := (vm_heap v)(p := None)\<rparr>))) (\<lambda>(m, v).
     Ok (v\<lparr>vm_heap := (vm_heap v)(q \<mapsto> CalculatePositions m), vm_mosaics := map_put mosaicId q (vm_mosaics v)\<rparr>)))"

definition vm_CreateMosaic :: "nat \<Rightarrow> int \<Rightarrow> int \<Rightarrow> video_mixer \<Rightarrow> (int \<times> video_mixer) res" where
  "vm_CreateMosaic padding ctype sz v =
     (let mosaicId = vm_maxMosaics v in
      bindR (SetCompositionType padding mosaicId ctype sz (v\<lparr>vm_maxMosaics := mosaicId + 1\<rparr>)) (\<lambda>v. Ok (mosaicId, v)))"

definition DeleteMosaic :: "int \<Rightarrow> video_mixer \<Rightarrow> bool \<times> video_mixer" where
  "DeleteMosaic mosaicId v =
     (case map_find (vm_mosaics v) mosaicId of
        None \<Rightarrow> (False, v)
      | Some p \<Rightarrow>
          (True, v\<lparr>vm_videos := repoint p None (vm_videos v), vm_mosaics := map_erase mosaicId (vm_mosaics v),
                   vm_heap := (vm_heap v)(p := None)\<rparr>))"

section \<open>Start and end\<close>

text \<open>
  \<open>CalculatePositions\<close> is declared \<open>int\<close> and has no return statement.  \<open>Init\<close> is the first to run it, when it makes the
  default mosaic; where the compiler makes something of the missing statement there is no mixer after it.
\<close>

definition vm_Init :: "no_return \<Rightarrow> nat \<Rightarrow> int \<Rightarrow> int \<Rightarrow> QWORD \<Rightarrow> video_mixer \<Rightarrow> video_mixer res" where
  "vm_Init u padding ctype sz now v =
     bindR (vm_CreateMosaic padding ctype sz v) (\<lambda>(i, v).
     bindR (ends_without_return u v) (\<lambda>v.
     Ok (v\<lparr>vm_defaultMosaic := map_find (vm_mosaics v) i, vm_mixingVideo := True, vm_ini := now\<rparr>)))"

definition vm_End :: "video_mixer \<Rightarrow> video_mixer" where
  "vm_End v =
     v\<lparr>vm_mixingVideo := False, vm_videos := [],
       vm_heap := foldr (\<lambda>(_, p) h. h(p := None)) (vm_mosaics v) (vm_heap v), vm_mosaics := []\<rparr>"

definition SetVADProxy :: "bool \<Rightarrow> video_mixer \<Rightarrow> video_mixer" where
  "SetVADProxy b v = v\<lparr>vm_proxy := b\<rparr>"

definition SetVADMode :: "vad_mode \<Rightarrow> video_mixer \<Rightarrow> video_mixer" where
  "SetVADMode mode v = v\<lparr>vm_vadMode := mode\<rparr>"

definition SetKeepAspectRatio :: "bool \<Rightarrow> video_mixer \<Rightarrow> video_mixer" where
  "SetKeepAspectRatio b v = v\<lparr>vm_keepAspectRatio := b\<rparr>"

section \<open>Participants of the mixer\<close>

definition vm_CreateMixer :: "int \<Rightarrow> wstring \<Rightarrow> video_mixer \<Rightarrow> bool \<times> video_mixer" where
  "vm_CreateMixer i name v =
     (if map_find (vm_videos v) i \<noteq> None then (False, v)
      else (True, v\<lparr>vm_videos := map_put i \<lparr>vs_mosaic = None, vs_name = name, vs_refresh = True\<rparr> (vm_videos v)\<rparr>))"

text \<open>With no such mosaic the source keeps the one it has.\<close>

definition vm_InitMixer :: "int \<Rightarrow> int \<Rightarrow> video_mixer \<Rightarrow> bool \<times> video_mixer" where
  "vm_InitMixer i mosaicId v =
     (case map_find (vm_videos v) i of
        None \<Rightarrow> (False, v)
      | Some s \<Rightarrow>
          (True, case map_find (vm_mosaics v) mosaicId of
             None \<Rightarrow> v
           | Some p \<Rightarrow> v\<lparr>vm_videos := map_put i (s\<lparr>vs_mosaic := Some p\<rparr>) (vm_videos v)\<rparr>))"

definition SetMixerMosaic :: "int \<Rightarrow> int \<Rightarrow> video_mixer \<Rightarrow> bool \<times> video_mixer" where
  "SetMixerMosaic i mosaicId v =
     (let p = map_find (vm_mosaics v) mosaicId in
      case map_find (vm_videos v) i of
        None \<Rightarrow> (False, v)
      | Some s \<Rightarrow> (True, v\<lparr>vm_videos := map_put i (s\<lparr>vs_mosaic := p, vs_refresh := True\<rparr>) (vm_videos v)\<rparr>))"

definition remove_from :: "int \<Rightarrow> int \<times> nat \<Rightarrow> video_mixer \<Rightarrow> video_mixer res" where
  "remove_from i e v =
     (case e of (_, p) \<Rightarrow>
        bindR (load_mosaic p v) (\<lambda>m.
        Ok (if Mosaic_HasParticipant i m
            then store_mosaic p (CalculatePositions (snd (Mosaic_RemoveParticipant i m))) v else v)))"

definition EndMixer_source :: "int \<Rightarrow> video_mixer \<Rightarrow> bool \<times> video_mixer" where
  "EndMixer_source i v =
     (case map_find (vm_videos v) i of
        None \<Rightarrow> (False, v)
      | Some s \<Rightarrow> (True, v\<lparr>vm_videos := map_put i (s\<lparr>vs_mosaic := None\<rparr>) (vm_videos v)\<rparr>))"

definition vm_EndMixer :: "int \<Rightarrow> video_mixer \<Rightarrow> (bool \<times> video_mixer) res" where
  "vm_EndMixer i v =
     (case EndMixer_source i v of (found, v) \<Rightarrow>
        if found
        then bindR (if vm_mixingVideo v then foldR (remove_from i) (vm_mosaics v) v else Ok v) (\<lambda>v. Ok (True, v))
        else Ok (False, v))"

definition vm_DeleteMixer :: "int \<Rightarrow> video_mixer \<Rightarrow> bool \<times> video_mixer" where
  "vm_DeleteMixer i v =
     (if map_find (vm_videos v) i = None then (False, v) else (True, v\<lparr>vm_videos := map_erase i (vm_videos v)\<rparr>))"

section \<open>The thread that mixes\<close>

text \<open>
  What is given to the participants at the start of a round: the ones whose input is set the picture of their mosaic.
  \<open>refresh\<close> is set to \<open>true\<close> after it.
\<close>

definition send_frame ::
  "bool \<Rightarrow> int \<times> video_source \<Rightarrow> (int \<times> BYTE list) list \<times> video_mixer \<Rightarrow> ((int \<times> BYTE list) list \<times> video_mixer) res" where
  "send_frame forceUpdate e s =
     (case (e, s) of ((i, src), (sent, v)) \<Rightarrow>
        let v' = v\<lparr>vm_videos := map_put i (src\<lparr>vs_refresh := True\<rparr>) (vm_videos v)\<rparr> in
        case vs_mosaic src of
          None \<Rightarrow> Ok (sent, v')
        | Some p \<Rightarrow>
            bindR (load_mosaic p v) (\<lambda>m.
            Ok (if vs_refresh src \<or> mosaicChanged m \<or> forceUpdate then sent @ [(i, picture m)] else sent, v')))"

definition send_frames :: "bool \<Rightarrow> video_mixer \<Rightarrow> ((int \<times> BYTE list) list \<times> video_mixer) res" where
  "send_frames forceUpdate v = foldR (send_frame forceUpdate) (vm_videos v) ([], v)"

text \<open>The loudest participant of the mosaic; the first one when nobody is speaking and there is no active speaker.\<close>

definition louder :: "(int \<Rightarrow> DWORD) \<Rightarrow> mosaic \<Rightarrow> int \<Rightarrow> DWORD \<times> int \<Rightarrow> DWORD \<times> int" where
  "louder level m i s =
     (case s of (maxVAD, vadId) \<Rightarrow>
        if Mosaic_HasParticipant i m \<and> (level i > maxVAD \<or> vadId = 0) then (level i, i) else s)"

definition choose_speaker :: "(int \<Rightarrow> DWORD) \<Rightarrow> video_mixer \<Rightarrow> mosaic \<Rightarrow> int" where
  "choose_speaker level v m = snd (fold (louder level m) (map fst (vm_videos v)) (0, vadParticipant m))"

text \<open>\<open>t1\<close>, \<open>t2\<close> and \<open>t3\<close> are the three readings of the clock, \<open>period\<close> is \<open>vadDefaultChangePeriod\<close>.\<close>

definition may_change_speaker :: "QWORD \<Rightarrow> video_mixer \<Rightarrow> mosaic \<Rightarrow> bool" where
  "may_change_speaker t1 v m \<longleftrightarrow>
     vm_vadMode v \<noteq> NoVAD \<and> vm_proxy v \<and> IsVADShown m \<and> (vadParticipant m = 0 \<or> vadBlockingTime m \<le> t1)"

definition follow_speaker ::
  "DWORD \<Rightarrow> (int \<Rightarrow> DWORD) \<Rightarrow> QWORD \<Rightarrow> QWORD \<Rightarrow> QWORD \<Rightarrow> video_mixer \<Rightarrow> mosaic \<Rightarrow> mosaic" where
  "follow_speaker period level t1 t2 t3 v m =
     (let oldVad = vadParticipant m; vadId = choose_speaker level v m in
      if may_change_speaker t1 v m \<and> oldVad \<noteq> vadId then
        let hide = (vm_vadMode v = FullVAD);
            m = SetVADParticipant vadId hide (t2 + ucast (period * 1000)) m;
            m = (if oldVad \<noteq> 0 \<and> hide then snd (SetScore oldVad t3 m) else m) in
        CalculatePositions m
      else m)"

text \<open>What a participant sends: whether it is new, and the last frame.\<close>

record video_output =
  vo_changed :: bool
  vo_frame :: "BYTE list option"
  vo_width :: nat
  vo_height :: nat

type_synonym logo = "(BYTE list \<times> nat \<times> nat) option"

definition draw_slot ::
  "swscale \<Rightarrow> logo \<Rightarrow> (int \<Rightarrow> video_output) \<Rightarrow> video_mixer \<Rightarrow> int list \<Rightarrow> int list \<Rightarrow> nat \<Rightarrow> mosaic \<Rightarrow> mosaic res" where
  "draw_slot sw logo outputs v old new i m =
     (let partId = new ! i; changed = (old ! i \<noteq> partId); out = outputs partId in
      if partId \<noteq> 0 then
        (if map_find (vm_videos v) partId = None then (if changed then mosaic_Clean_logo sw i logo m else Ok m)
         else if vo_changed out \<or> changed then
           bindR (mosaic_Update sw i (vo_frame out) (vo_width out) (vo_height out) (vm_keepAspectRatio v) m) (\<lambda>(_, m). Ok m)
         else Ok m)
      else if changed then mosaic_Clean_logo sw i logo m
      else Ok m)"

definition draw_mosaic ::
  "swscale \<Rightarrow> logo \<Rightarrow> (int \<Rightarrow> video_output) \<Rightarrow> video_mixer \<Rightarrow> mosaic \<Rightarrow> mosaic res" where
  "draw_mosaic sw logo outputs v m =
     foldR (draw_slot sw logo outputs v (oldPos m) (mosaicPos m)) [0..<numSlots m] (Mosaic_Reset m)"

definition mix_mosaic ::
  "swscale \<Rightarrow> logo \<Rightarrow> DWORD \<Rightarrow> (int \<Rightarrow> video_output) \<Rightarrow> (int \<Rightarrow> DWORD) \<Rightarrow> (int \<Rightarrow> QWORD \<times> QWORD \<times> QWORD) \<Rightarrow>
     int \<times> nat \<Rightarrow> video_mixer \<Rightarrow> video_mixer res" where
  "mix_mosaic sw logo period outputs level clock e v =
     (case e of (i, p) \<Rightarrow> case clock i of (t1, t2, t3) \<Rightarrow>
        bindR (load_mosaic p v) (\<lambda>m.
        bindR (draw_mosaic sw logo outputs v (follow_speaker period level t1 t2 t3 v m)) (\<lambda>m.
        Ok (store_mosaic p m v))))"

definition mix_mosaics ::
  "swscale \<Rightarrow> logo \<Rightarrow> DWORD \<Rightarrow> (int \<Rightarrow> video_output) \<Rightarrow> (int \<Rightarrow> DWORD) \<Rightarrow> (int \<Rightarrow> QWORD \<times> QWORD \<times> QWORD) \<Rightarrow>
     video_mixer \<Rightarrow> video_mixer res" where
  "mix_mosaics sw logo period outputs level clock v =
     foldR (mix_mosaic sw logo period outputs level clock) (vm_mosaics v) v"

end
