(* ===== verification/VideoMixerInvariant.thy ===== *)
theory VideoMixerInvariant
  imports MosaicInvariant VideoMixer
begin

text \<open>
  What every operation of the video mixer keeps: each mosaic satisfies the invariant of mosaics and its positions
  are the ones its slots call for, no two identifiers share a mosaic, and no source points to a deleted one.  The
  scores stay apart because they are either the start of the mixer less an identifier, or a later reading of the
  clock.
\<close>

section \<open>Drawing leaves the slots alone\<close>

definition undrawn :: "mosaic \<Rightarrow> mosaic" where
  "undrawn m = m\<lparr>mosaicChanged := False, overlayNeedsUpdate := False, picture := [], resizer := [], under := []\<rparr>"

lemma undrawn_upd [simp]:
  "undrawn (m\<lparr>picture := d\<rparr>) = undrawn m" "undrawn (m\<lparr>resizer := r\<rparr>) = undrawn m"
  "undrawn (m\<lparr>under := d\<rparr>) = undrawn m" "undrawn (SetChanged m) = undrawn m"
  "undrawn (pip_Clean pos m) = undrawn m"
  by (simp_all add: undrawn_def SetChanged_def pip_Clean_def)

lemma undrawn_eqD:
  assumes "undrawn m' = undrawn m"
  shows "participants m' = participants m" "order m' = order m" "mosaicSlots m' = mosaicSlots m"
    "mosaicPos m' = mosaicPos m" "oldPos m' = oldPos m" "vadParticipant m' = vadParticipant m"
    "hideVadParticipant m' = hideVadParticipant m" "vadBlockingTime m' = vadBlockingTime m"
    "mosaicType m' = mosaicType m" "mosaicTotalWidth m' = mosaicTotalWidth m" "mosaicTotalHeight m' = mosaicTotalHeight m"
  by (use assms in \<open>simp add: undrawn_def, cases m, cases m', simp\<close>)+

lemma with_picture_undrawn: "with_picture f m = Ok m' \<Longrightarrow> undrawn m' = undrawn m"
  by (auto simp: with_picture_def)

lemma scale_into_undrawn:
  "scale_into sw pos w h img width height keep p m d = Ok (m', d') \<Longrightarrow> undrawn m' = undrawn m"
  by (auto simp: scale_into_def Let_def)

lemma draw_undrawn: "draw sw pos img w h keep width height p m = Ok m' \<Longrightarrow> undrawn m' = undrawn m"
  by (auto simp: draw_def dest!: with_picture_undrawn scale_into_undrawn split: if_splits)

lemma parted_Clean_undrawn: "parted_Clean pos m = Ok (b, m') \<Longrightarrow> undrawn m' = undrawn m"
  by (auto simp: parted_Clean_def Let_def dest!: with_picture_undrawn split: if_splits)

lemma asym_Clean_undrawn: "asym_Clean pos m = Ok (b, m') \<Longrightarrow> undrawn m' = undrawn m"
  by (auto simp: asym_Clean_def Let_def dest!: with_picture_undrawn split: if_splits)

lemma parted_Update_undrawn: "parted_Update sw pos img w h keep m = Ok (b, m') \<Longrightarrow> undrawn m' = undrawn m"
  by (auto simp: parted_Update_def dest!: parted_Clean_undrawn draw_undrawn split: if_splits)

lemma asym_Update_undrawn: "asym_Update sw pos img w h keep m = Ok (b, m') \<Longrightarrow> undrawn m' = undrawn m"
  by (auto simp: asym_Update_def Let_def dest!: asym_Clean_undrawn draw_undrawn split: if_splits)

lemma pip_Update_undrawn: "pip_Update sw pos img w h keep m = Ok (b, m') \<Longrightarrow> undrawn m' = undrawn m"
  by (auto simp: pip_Update_def Let_def dest!: scale_into_undrawn with_picture_undrawn draw_undrawn split: if_splits)

lemma mosaic_Update_undrawn: "mosaic_Update sw pos img w h keep m = Ok (b, m') \<Longrightarrow> undrawn m' = undrawn m"
  by (auto simp: mosaic_Update_def dest!: parted_Update_undrawn asym_Update_undrawn pip_Update_undrawn
      split: mosaic_class.splits)

lemma mosaic_Clean_undrawn: "mosaic_Clean pos m = Ok m' \<Longrightarrow> undrawn m' = undrawn m"
  by (auto simp: mosaic_Clean_def dest!: parted_Clean_undrawn asym_Clean_undrawn split: mosaic_class.splits)

lemma mosaic_Clean_logo_undrawn: "mosaic_Clean_logo sw pos logo m = Ok m' \<Longrightarrow> undrawn m' = undrawn m"
  by (auto simp: mosaic_Clean_logo_def dest!: mosaic_Clean_undrawn mosaic_Update_undrawn split: option.splits)

lemma draw_slot_undrawn: "draw_slot sw logo outputs v old new i m = Ok m' \<Longrightarrow> undrawn m' = undrawn m"
  by (auto simp: draw_slot_def Let_def dest!: mosaic_Clean_logo_undrawn mosaic_Update_undrawn split: if_splits)

lemma draw_mosaic_undrawn:
  "draw_mosaic sw logo outputs v m = Ok m' \<Longrightarrow> undrawn m' = undrawn (Mosaic_Reset m)"
  unfolding draw_mosaic_def by (rule foldR_frame) (auto dest!: draw_slot_undrawn)

section \<open>A mosaic of the mixer\<close>

text \<open>The scores, by the start of the mixer and a time that no score is later than.\<close>

definition timely :: "QWORD \<Rightarrow> QWORD \<Rightarrow> mosaic \<Rightarrow> bool" where
  "timely ini clock m \<longleftrightarrow>
     (\<forall>p \<in> members m. p < 2 ^ 31 \<and>
        (score_of (participants m) p = ini - of_int p \<or>
         ini < score_of (participants m) p \<and> score_of (participants m) p \<le> clock))"

definition sound :: "QWORD \<Rightarrow> QWORD \<Rightarrow> mosaic \<Rightarrow> bool" where
  "sound ini clock m \<longleftrightarrow> mosaic_ok m \<and> mosaic_complete m \<and> timely ini clock m"

definition good :: "QWORD \<Rightarrow> QWORD \<Rightarrow> mosaic \<Rightarrow> bool" where
  "good ini clock m \<longleftrightarrow> sound ini clock m \<and> mosaic_settled m \<and> positions_current m"

lemma good_CalculatePositions: "sound ini clock m \<Longrightarrow> good ini clock (CalculatePositions m)"
  unfolding good_def sound_def timely_def members_CalculatePositions
  using CalculatePositions_ok CalculatePositions_complete mosaic_settled_CalculatePositions positions_current_CalculatePositions
  by (auto simp: CalculatePositions_shown)

lemma timely_mono: "timely ini clock m \<Longrightarrow> clock \<le> clock' \<Longrightarrow> timely ini clock' m"
  unfolding timely_def by (meson order.trans)

lemma sound_mono: "sound ini clock m \<Longrightarrow> clock \<le> clock' \<Longrightarrow> sound ini clock' m"
  unfolding sound_def using timely_mono by blast

lemma good_mono: "good ini clock m \<Longrightarrow> clock \<le> clock' \<Longrightarrow> good ini clock' m"
  unfolding good_def using sound_mono by blast

text \<open>Starting scores differ, and are not later than the start.\<close>

lemma start_score:
  assumes "0 < p" "p < 2 ^ 31" "2 ^ 31 \<le> (ini :: QWORD)"
  shows "uint (ini - of_int p) = uint ini - p" "ini - of_int p < ini"
proof -
  have u: "uint (of_int p :: QWORD) = p" using assms by (simp add: uint_word_of_int take_bit_int_eq_self)
  have "(2 :: int) ^ 31 \<le> uint ini" using assms(3) by (simp add: word_le_def)
  then have "p \<le> uint ini" using assms(2) by simp
  then show *: "uint (ini - of_int p) = uint ini - p"
    using uint_sub_lem [of "of_int p" ini] unfolding u by blast
  then show "ini - of_int p < ini" using assms(1) by (simp add: word_less_def)
qed

lemma start_score_fresh:
  assumes "timely ini clock m" "mosaic_ok m" "0 < p" "p < 2 ^ 31" "2 ^ 31 \<le> ini" "p \<notin> members m"
  shows "ini - of_int p \<notin> score_of (participants m) ` members m"
proof
  assume "ini - of_int p \<in> score_of (participants m) ` members m"
  then obtain q where q: "q \<in> members m" "score_of (participants m) q = ini - of_int p" by auto
  have "\<not> ini < ini - of_int p" using start_score(2) [OF assms(3-5)] by simp
  with q assms(1) have "ini - of_int q = ini - of_int p" "q < 2 ^ 31" unfolding timely_def by metis+
  moreover have "0 < q" using q(1) mosaic_okD(2) [OF assms(2)] by blast
  ultimately have "uint ini - q = uint ini - p"
    using start_score(1) [OF _ _ assms(5)] assms(3,4) by metis
  with q(1) assms(6) show False by simp
qed

lemma time_fresh:
  assumes "timely ini clock m" "mosaic_ok m" "ini \<le> clock" "clock < t" "2 ^ 31 \<le> ini"
  shows "t \<notin> score_of (participants m) ` members m"
proof
  assume "t \<in> score_of (participants m) ` members m"
  then obtain q where q: "q \<in> members m" "score_of (participants m) q = t" by auto
  from q assms(1) have "q < 2 ^ 31" "t = ini - of_int q \<or> t \<le> clock" unfolding timely_def by auto
  moreover have "0 < q" using q(1) mosaic_okD(2) [OF assms(2)] by blast
  ultimately show False using start_score(2) [of q ini] assms(3-5) by force
qed

section \<open>The operations on a mosaic\<close>

lemma members_AddParticipant:
  assumes "Mosaic_AddParticipant i s m = (b, m')" "mosaic_ok m"
  shows "members m' = insert i (members m)"
    "score_of (participants m') p = (if p = i \<and> i \<notin> members m then s else score_of (participants m) p)"
proof -
  have wf: "omap_wf (participants m)" using assms(2) by (rule mosaic_okD)
  show "members m' = insert i (members m)"
  proof (cases "map_find (participants m) i = None")
    case True
    then have "participants m' = map_put i \<lparr>score = s, isFixed = 0\<rparr> (participants m)"
      using assms(1) by (auto simp: Mosaic_AddParticipant_def Let_def)
    then show ?thesis by (simp add: members_def fst_map_put)
  next
    case False
    then show ?thesis using assms(1) find_member [of m i] by (auto simp: Mosaic_AddParticipant_def)
  qed
  show "score_of (participants m') p = (if p = i \<and> i \<notin> members m then s else score_of (participants m) p)"
    using assms(1) by (auto simp: Mosaic_AddParticipant_def Let_def score_of_put [OF wf] not_member find_member split: if_splits)
qed

lemma sound_AddParticipant:
  assumes "good ini clock m" "0 < p" "p < 2 ^ 31" "2 ^ 31 \<le> ini"
  shows "sound ini clock (snd (Mosaic_AddParticipant p (ini - of_int p) m))"
proof -
  obtain b m' where m': "Mosaic_AddParticipant p (ini - of_int p) m = (b, m')" by fastforce
  have g: "mosaic_ok m" "mosaic_settled m" "mosaic_complete m" "timely ini clock m"
    using assms(1) by (simp_all add: good_def sound_def)
  note mem = members_AddParticipant [OF m' g(1)]
  have "mosaic_complete m'"
  proof (cases "p \<in> members m")
    case True
    then have "m' = m" using m' find_member [of m p] by (simp add: Mosaic_AddParticipant_def del: not_None_eq)
    then show ?thesis using g(3) by simp
  next
    case False
    from AddParticipant_complete [OF g(1,3) start_score_fresh [OF g(4,1) assms(2-4) False] m'] show ?thesis .
  qed
  moreover have "timely ini clock m'"
    using g(4) assms(3) unfolding timely_def mem by auto
  ultimately show ?thesis
    using AddParticipant_ok [OF g(1,2) assms(2) m'] by (simp add: sound_def m')
qed

lemma sound_RemoveParticipant:
  assumes "good ini clock m"
  shows "sound ini clock (snd (Mosaic_RemoveParticipant i m))"
proof -
  obtain b m' where m': "Mosaic_RemoveParticipant i m = (b, m')" by fastforce
  have g: "mosaic_ok m" "mosaic_settled m" "mosaic_complete m" "timely ini clock m"
    using assms by (simp_all add: good_def sound_def)
  have p: "m' = m \<or> participants m' = map_erase i (participants m)"
    using m' by (auto simp: Mosaic_RemoveParticipant_def free_slots_of_def Let_def split: option.splits)
  then have "members m' \<subseteq> members m" "\<And>q. q \<in> members m' \<Longrightarrow> score_of (participants m') q = score_of (participants m) q"
    by (auto simp: members_def set_map_erase score_of_erase)
  then have "timely ini clock m'" using g(4) unfolding timely_def by auto
  then show ?thesis using RemoveParticipant_ok [OF g(1,2) m'] g(3) by (simp add: sound_def m')
qed


lemma sound_SetSlot:
  assumes "sound ini clock m" "0 < i \<longrightarrow> i \<notin> set (mosaicSlots m) \<or> mosaicSlots m ! nat num = i"
  shows "sound ini clock (snd (Mosaic_SetSlot num i m))"
proof -
  obtain b m' where m': "Mosaic_SetSlot num i m = (b, m')" by fastforce
  from assms(1) have "mosaic_ok m" by (simp add: sound_def)
  from SetSlot_ok [OF this assms(2) m'] assms(1) show ?thesis by (auto simp: m' sound_def timely_def)
qed

text \<open>After \<open>leave_slot\<close> the participant is set in no slot.\<close>

lemma sound_leave_slot:
  assumes "sound ini clock m"
  shows "sound ini clock (leave_slot i m) \<and> (0 < i \<longrightarrow> i \<notin> set (mosaicSlots (leave_slot i m)))"
proof -
  have ok: "mosaic_ok m" using assms by (simp add: sound_def)
  consider "\<not> 0 < i" | "0 < i" "find_slot i 0 (mosaicSlots m) = PositionNotShown" "i \<notin> set (mosaicSlots m)"
    | j where "0 < i" "j < length (mosaicSlots m)" "find_slot i 0 (mosaicSlots m) = int j" "mosaicSlots m ! j = i"
    using find_slot_range [of i 0 "mosaicSlots m"] by force
  then show ?thesis
  proof cases
    case 3
    let ?m = "snd (Mosaic_SetSlot (int j) SlotFree m)"
    have l: "leave_slot i m = ?m"
      using 3 by (simp add: leave_slot_def GetParticipantSlot_def PositionNotFound_def PositionNotShown_def)
    have "mosaicSlots ?m = (mosaicSlots m)[j := SlotFree]"
      using 3 by (simp add: Mosaic_SetSlot_def numSlots_def Let_def forget_vad_def unfix_old_def fix_new_def)
    moreover have "i \<notin> set ((mosaicSlots m)[j := SlotFree])"
      using distinct_positive_update(2) [OF mosaic_okD(6) [OF ok], of j SlotFree i] 3 by (simp add: SlotFree_def)
    ultimately show ?thesis unfolding l using sound_SetSlot [OF assms, of SlotFree "int j"] by (simp add: SlotFree_def)
  qed (use assms in \<open>simp_all add: leave_slot_def GetParticipantSlot_def\<close>)
qed

lemma good_SetSlot:
  "good ini clock m \<Longrightarrow> good ini clock (CalculatePositions (snd (Mosaic_SetSlot num i (leave_slot i m))))"
  using sound_leave_slot [of ini clock m i] by (intro good_CalculatePositions sound_SetSlot) (auto simp: good_def)

lemma sound_SetVADParticipant:
  assumes "sound ini clock m" "i = 0 \<or> i \<in> members m"
  shows "sound ini clock (SetVADParticipant i hide t m)"
proof -
  have "members (SetVADParticipant i hide t m) = members m" by (simp add: members_def SetVADParticipant_def)
  then show ?thesis
    using assms SetVADParticipant_ok unfolding sound_def timely_def mosaic_complete_def
    by (simp add: SetVADParticipant_def)
qed

lemma sound_SetScore:
  assumes "sound ini clock m" "2 ^ 31 \<le> ini" "ini \<le> clock" "clock < t"
  shows "sound ini t (snd (SetScore i t m))"
proof -
  obtain b m' where m': "SetScore i t m = (b, m')" by fastforce
  have g: "mosaic_ok m" "mosaic_complete m" "timely ini clock m" using assms(1) by (simp_all add: sound_def)
  have wf: "omap_wf (participants m)" using g(1) by (rule mosaic_okD)
  note S = SetScore_ok [OF g(1) m']
  have "t \<notin> score_of (participants m) ` (members m - {i})"
    using time_fresh [OF g(3,1) assms(3,4,2)] by blast
  then have "mosaic_complete m'" using S g(2) by blast
  moreover have sc: "score_of (participants m') q = (if q = i \<and> i \<in> members m then t else score_of (participants m) q)" for q
    using m' by (auto simp: SetScore_def Let_def score_of_put [OF wf] not_member split: option.splits dest: iffD1 [OF find_member, rotated])
      (metis find_member option.distinct(1))+
  have mem: "members m' = members m" using S by blast
  have le: "clock \<le> t" "ini < t" using assms(3,4) by auto
  have "timely ini t m'"
    unfolding timely_def mem
  proof
    fix q assume q: "q \<in> members m"
    with g(3) have "q < 2 ^ 31" "score_of (participants m) q = ini - of_int q \<or>
        ini < score_of (participants m) q \<and> score_of (participants m) q \<le> clock" by (auto simp: timely_def)
    then show "q < 2 ^ 31 \<and> (score_of (participants m') q = ini - of_int q \<or>
        ini < score_of (participants m') q \<and> score_of (participants m') q \<le> t)"
      using le unfolding sc by auto
  qed
  ultimately show ?thesis using S by (simp add: sound_def m')
qed

text \<open>The speaker is a participant of the mosaic.\<close>

lemma choose_speaker_member:
  assumes "vadParticipant m = 0 \<or> vadParticipant m \<in> members m"
  shows "choose_speaker level v m = 0 \<or> choose_speaker level v m \<in> members m"
proof -
  have "snd (fold (louder level m) is s) = 0 \<or> snd (fold (louder level m) is s) \<in> members m"
    if "snd s = 0 \<or> snd s \<in> members m" for "is" s
    using that
  proof (induction "is" arbitrary: s)
    case (Cons i "is")
    have "snd (louder level m i s) = 0 \<or> snd (louder level m i s) \<in> members m"
      using Cons.prems find_member [of m i] by (cases s) (auto simp: louder_def Mosaic_HasParticipant_def)
    with Cons.IH show ?case by simp
  qed simp
  from this [of "(0, vadParticipant m)"] assms show ?thesis by (simp add: choose_speaker_def)
qed

lemma good_follow_speaker:
  assumes "good ini clock m" "2 ^ 31 \<le> ini" "ini \<le> clock" "clock < t3" "t3 \<le> clock'"
  shows "good ini clock' (follow_speaker period level t1 t2 t3 v m)"
proof -
  have g: "sound ini clock m" using assms(1) by (simp add: good_def)
  have ok: "mosaic_ok m" using g by (simp add: sound_def)
  let ?i = "choose_speaker level v m"
  have "?i = 0 \<or> ?i \<in> members m"
    using choose_speaker_member [of m level v] mosaic_okD(8) [OF ok] by blast
  from sound_SetVADParticipant [OF g this]
  have s: "sound ini clock (SetVADParticipant ?i hide t m)" for hide t .
  have le: "clock \<le> clock'" using assms(4,5) by auto
  have "sound ini clock' (if c then snd (SetScore j t3 (SetVADParticipant ?i hide t m)) else SetVADParticipant ?i hide t m)"
    for c j hide t
    using sound_mono [OF s le] sound_mono [OF sound_SetScore [OF s assms(2-4)] assms(5)] by simp
  from good_CalculatePositions [OF this] show ?thesis
    using good_mono [OF assms(1) le] by (simp add: follow_speaker_def Let_def)
qed


text \<open>Drawing and the copy of the positions.\<close>

lemma shown_cong:
  assumes "participants m' = participants m" "vadParticipant m' = vadParticipant m"
  shows "shown m' ss es = shown m ss es"
proof -
  have "free_like m' s = free_like m s" for s by (simp add: free_like_def assms(1))
  then show ?thesis using assms(2) by (induction ss arbitrary: es) (simp_all split: list.split)
qed

lemma good_draw:
  assumes "good ini clock m" "undrawn m' = undrawn (Mosaic_Reset m)"
  shows "good ini clock m'"
proof -
  note u = undrawn_eqD [OF assms(2)]
  have e: "participants m' = participants m" "order m' = order m" "mosaicSlots m' = mosaicSlots m"
    "mosaicPos m' = mosaicPos m" "oldPos m' = mosaicPos m" "vadParticipant m' = vadParticipant m"
    "hideVadParticipant m' = hideVadParticipant m" "mosaicType m' = mosaicType m"
    using u by (simp_all add: Mosaic_Reset_def)
  have mem: "members m' = members m" by (simp add: members_def e(1))
  have "skipped m' = skipped m" by (simp add: skipped_def IsVADShown_def e fun_eq_iff)
  then have "candidates m' = candidates m" by (simp add: candidates_def e(2))
  then have "positions_current m' = positions_current m"
    by (simp add: positions_current_def e(3,4) shown_cong [OF e(1,6)])
  moreover have "mosaic_ok m \<Longrightarrow> mosaic_ok m'"
    by (simp add: mosaic_ok_def mem e fixed_count_def)
  ultimately show ?thesis
    using assms(1) by (simp add: good_def sound_def mosaic_complete_def timely_def mosaic_settled_def mem e)
qed

section \<open>A mosaic takes the place of another\<close>

text \<open>The scores of the old mosaic are apart, so those of the new one are.\<close>

definition taking_over :: "mosaic \<Rightarrow> mosaic \<Rightarrow> bool" where
  "taking_over old m \<longleftrightarrow>
     mosaic_ok m \<and> mosaic_complete m \<and> mosaic_settled m \<and> set (mosaicSlots m) \<subseteq> {0} \<and> members m \<subseteq> members old \<and>
     (\<forall>p \<in> members m. score_of (participants m) p = score_of (participants old) p)"

lemma GetScore_score_of: "GetScore i m = score_of (participants m) i"
  by (simp add: GetScore_def score_of_def)

lemma taking_over_add:
  assumes "taking_over old m" "mosaic_ok old" "mosaic_complete old" "Mosaic_HasParticipant i old"
  shows "taking_over old (snd (Mosaic_AddParticipant i (GetScore i old) m))"
proof -
  obtain b m' where m': "Mosaic_AddParticipant i (GetScore i old) m = (b, m')" by fastforce
  have T: "mosaic_ok m" "mosaic_complete m" "mosaic_settled m" "set (mosaicSlots m) \<subseteq> {0}" "members m \<subseteq> members old"
    "\<And>p. p \<in> members m \<Longrightarrow> score_of (participants m) p = score_of (participants old) p"
    using assms(1) by (auto simp: taking_over_def)
  have i: "i \<in> members old" "0 < i"
    using assms(2,4) find_member [of old i] mosaic_okD(2) [OF assms(2)] by (auto simp: Mosaic_HasParticipant_def)
  note mem = members_AddParticipant [OF m' T(1)]
  have "mosaic_complete m'"
  proof (cases "i \<in> members m")
    case True
    then have "m' = m" using m' find_member [of m i] by (simp add: Mosaic_AddParticipant_def del: not_None_eq)
    then show ?thesis using T(2) by simp
  next
    case False
    have "score_of (participants old) i \<notin> score_of (participants m) ` members m"
      using assms(3) T(5,6) i(1) False unfolding mosaic_complete_def inj_on_def by (metis image_iff subsetD)
    from AddParticipant_complete [OF T(1,2) this m' [unfolded GetScore_score_of]] show ?thesis .
  qed
  moreover have "mosaicSlots m' = mosaicSlots m"
    using m' by (auto simp: Mosaic_AddParticipant_def Let_def split: if_splits)
  ultimately have "taking_over old m'"
    using AddParticipant_ok [OF T(1,3) i(2) m'] T(4-6) i(1)
    by (auto simp: taking_over_def mem GetScore_score_of)
  then show ?thesis by (simp add: m')
qed

lemma taking_over_take_over:
  assumes "taking_over old m" "mosaic_ok old" "mosaic_complete old"
  shows "taking_over old (take_over old videos m)"
  using assms(1) unfolding take_over_def
proof (induction videos arbitrary: m)
  case (Cons e videos)
  obtain i s where e: "e = (i, s)" by fastforce
  show ?case
    unfolding e using Cons.IH Cons.prems taking_over_add [OF Cons.prems assms(2,3), of i] by simp
qed simp

lemma good_new: "good ini clock (CalculatePositions (Mosaic_new padding t sz))"
  by (intro good_CalculatePositions)
    (simp add: sound_def mosaic_new_ok mosaic_new_complete timely_def, simp add: members_def Mosaic_new_def Let_def)

lemma good_replacement:
  assumes "good ini clock old" "m = take_over old videos (Mosaic_new padding t sz)" "m' = SetSlots (Some (mosaicSlots old)) m"
  shows "good ini clock (CalculatePositions (SetVADParticipant (vadParticipant m') hide b m'))"
proof -
  have old: "mosaic_ok old" "mosaic_complete old" "timely ini clock old" using assms(1) by (simp_all add: good_def sound_def)
  have "taking_over old (Mosaic_new padding t sz)"
    by (simp add: taking_over_def mosaic_new_ok mosaic_new_complete mosaic_new_settled)
      (auto simp: members_def Mosaic_new_def Let_def)
  from taking_over_take_over [OF this old(1,2)] have T: "taking_over old m" unfolding assms(2) .
  then have "timely ini clock m" using old(3) by (auto simp: taking_over_def timely_def)
  moreover have "mosaic_ok m" "set (mosaicSlots m) \<subseteq> {0}" "mosaic_complete m" using T by (simp_all add: taking_over_def)
  moreover note SetSlots_ok [OF this(1,2) mosaic_okD(6) [OF old(1)]]
  ultimately have s: "sound ini clock m'" unfolding assms(3) sound_def timely_def by auto
  then have "vadParticipant m' = 0 \<or> vadParticipant m' \<in> members m'" using mosaic_okD(8) by (auto simp: sound_def)
  from good_CalculatePositions [OF sound_SetVADParticipant [OF s this]] show ?thesis .
qed

end
