(* ===== verification/VideoMixerReach.thy ===== *)
theory VideoMixerReach
  imports VideoMixerInvariant
begin

text \<open>
  The states the video mixer can be in: after \<open>Init\<close>, any sequence of its operations and of rounds of the thread
  that mixes, with any pictures, voices and readings of a clock that goes forward.
\<close>

section \<open>The invariant of the mixer\<close>

definition mixer_ok :: "QWORD \<Rightarrow> video_mixer \<Rightarrow> bool" where
  "mixer_ok clock v \<longleftrightarrow>
     omap_wf (vm_mosaics v) \<and> omap_wf (vm_videos v) \<and>
     (\<forall>i j p. map_find (vm_mosaics v) i = Some p \<longrightarrow> map_find (vm_mosaics v) j = Some p \<longrightarrow> i = j) \<and>
     (\<forall>i p. map_find (vm_mosaics v) i = Some p \<longrightarrow>
        p < vm_next v \<and> (\<exists>m. vm_heap v p = Some m \<and> good (vm_ini v) clock m)) \<and>
     (\<forall>j s p. map_find (vm_videos v) j = Some s \<longrightarrow> vs_mosaic s = Some p \<longrightarrow> (\<exists>i. map_find (vm_mosaics v) i = Some p))"

lemma mixer_okD:
  assumes "mixer_ok clock v"
  shows "omap_wf (vm_mosaics v)" "omap_wf (vm_videos v)"
    "map_find (vm_mosaics v) i = Some p \<Longrightarrow> map_find (vm_mosaics v) j = Some p \<Longrightarrow> i = j"
    "map_find (vm_mosaics v) i = Some p \<Longrightarrow> p < vm_next v"
    "map_find (vm_mosaics v) i = Some p \<Longrightarrow> \<exists>m. vm_heap v p = Some m \<and> good (vm_ini v) clock m"
    "map_find (vm_videos v) k = Some s \<Longrightarrow> vs_mosaic s = Some p \<Longrightarrow> \<exists>i. map_find (vm_mosaics v) i = Some p"
  using assms unfolding mixer_ok_def by blast+

lemma mixer_okI:
  assumes "omap_wf (vm_mosaics v)" "omap_wf (vm_videos v)"
    "\<And>i j p. map_find (vm_mosaics v) i = Some p \<Longrightarrow> map_find (vm_mosaics v) j = Some p \<Longrightarrow> i = j"
    "\<And>i p. map_find (vm_mosaics v) i = Some p \<Longrightarrow> p < vm_next v"
    "\<And>i p. map_find (vm_mosaics v) i = Some p \<Longrightarrow> \<exists>m. vm_heap v p = Some m \<and> good (vm_ini v) clock m"
    "\<And>k s p. map_find (vm_videos v) k = Some s \<Longrightarrow> vs_mosaic s = Some p \<Longrightarrow> \<exists>i. map_find (vm_mosaics v) i = Some p"
  shows "mixer_ok clock v"
  using assms unfolding mixer_ok_def by blast

lemma mixer_ok_mono:
  assumes "mixer_ok clock v" "clock \<le> clock'"
  shows "mixer_ok clock' v"
proof (rule mixer_okI)
  fix i p assume "map_find (vm_mosaics v) i = Some p"
  then show "\<exists>m. vm_heap v p = Some m \<and> good (vm_ini v) clock' m"
    using mixer_okD(5) [OF assms(1)] good_mono [OF _ assms(2)] by blast
qed (use mixer_okD [OF assms(1)] in blast)+

text \<open>A mosaic is changed in place.\<close>

lemma mixer_ok_store:
  assumes "mixer_ok clock v" "map_find (vm_mosaics v) i = Some p" "good (vm_ini v) clock m"
  shows "mixer_ok clock (store_mosaic p m v)"
  using assms unfolding mixer_ok_def store_mosaic_def by auto

lemma load_mosaic_ok:
  "mixer_ok clock v \<Longrightarrow> map_find (vm_mosaics v) i = Some p \<Longrightarrow> \<exists>m. load_mosaic p v = Ok m \<and> good (vm_ini v) clock m"
  using mixer_okD(5) by (fastforce simp: load_mosaic_def)

lemma on_mosaic_ok:
  assumes "mixer_ok clock v" "\<And>m. good (vm_ini v) clock m \<Longrightarrow> good (vm_ini v) clock (f m)"
  shows "\<exists>r. on_mosaic i f v = Ok r \<and> mixer_ok clock (snd r) \<and> vm_ini (snd r) = vm_ini v"
proof (cases "map_find (vm_mosaics v) i")
  case (Some p)
  then obtain m where m: "load_mosaic p v = Ok m" "good (vm_ini v) clock m" using load_mosaic_ok [OF assms(1)] by blast
  then show ?thesis
    using mixer_ok_store [OF assms(1) Some assms(2)] Some by (simp add: on_mosaic_def store_mosaic_def)
qed (use assms in \<open>simp add: on_mosaic_def\<close>)

text \<open>A source is changed: it points to a mosaic of the mixer, or to none.\<close>

lemma mixer_ok_source:
  assumes "mixer_ok clock v" "\<And>p. vs_mosaic s = Some p \<Longrightarrow> \<exists>i. map_find (vm_mosaics v) i = Some p"
  shows "mixer_ok clock (v\<lparr>vm_videos := map_put j s (vm_videos v)\<rparr>)"
  using assms unfolding mixer_ok_def by (auto simp: map_find_put split: if_splits)

section \<open>Its operations\<close>

lemma AddMosaicParticipant_ok:
  assumes "mixer_ok clock v" "0 < p" "p < 2 ^ 31" "2 ^ 31 \<le> vm_ini v"
  shows "\<exists>r. AddMosaicParticipant i p v = Ok r \<and> mixer_ok clock (snd r) \<and> vm_ini (snd r) = vm_ini v"
  unfolding AddMosaicParticipant_def
  by (rule on_mosaic_ok [OF assms(1)]) (intro good_CalculatePositions sound_AddParticipant assms(2-4), assumption)

lemma RemoveMosaicParticipant_ok:
  assumes "mixer_ok clock v"
  shows "\<exists>r. RemoveMosaicParticipant i p v = Ok r \<and> mixer_ok clock (snd r) \<and> vm_ini (snd r) = vm_ini v"
  unfolding RemoveMosaicParticipant_def
  by (rule on_mosaic_ok [OF assms]) (intro good_CalculatePositions sound_RemoveParticipant)

lemma vm_SetSlot_ok:
  assumes "mixer_ok clock v"
  shows "\<exists>r. vm_SetSlot i num p v = Ok r \<and> mixer_ok clock (snd r) \<and> vm_ini (snd r) = vm_ini v"
  unfolding vm_SetSlot_def by (rule on_mosaic_ok [OF assms]) (rule good_SetSlot)

lemma find_repoint:
  "map_find (repoint p q vs) j =
     map_option (\<lambda>s. if vs_mosaic s = Some p then s\<lparr>vs_mosaic := q\<rparr> else s) (map_find vs j)"
  unfolding repoint_def map_find_def by (induction vs) auto

lemma find_repointD:
  assumes "map_find (repoint p q vs) k = Some s" "vs_mosaic s = Some r" "q \<noteq> Some r"
  shows "\<exists>s'. map_find vs k = Some s' \<and> vs_mosaic s' = Some r \<and> r \<noteq> p"
proof -
  obtain s' where s': "map_find vs k = Some s'" "s = (if vs_mosaic s' = Some p then s'\<lparr>vs_mosaic := q\<rparr> else s')"
    using assms(1) by (auto simp: find_repoint)
  then show ?thesis using assms(2,3) by (cases "vs_mosaic s' = Some p") auto
qed

lemma fst_repoint: "map fst (repoint p q vs) = map fst vs"
  by (simp add: repoint_def split_beta comp_def)

lemma omap_wf_repoint [simp]: "omap_wf (repoint p q vs) = omap_wf vs"
  by (simp add: omap_wf_def fst_repoint)

text \<open>A mosaic is put at a new address under an identifier, in the place of the one that was there.\<close>

lemma mixer_ok_new:
  assumes ok: "mixer_ok clock v" and m: "good (vm_ini v) clock m"
  shows "mixer_ok clock (v\<lparr>vm_next := Suc (vm_next v), vm_maxMosaics := k, vm_defaultMosaic := d,
    vm_videos := (case map_find (vm_mosaics v) i of None \<Rightarrow> vm_videos v | Some p \<Rightarrow> repoint p (Some (vm_next v)) (vm_videos v)),
    vm_heap := (case map_find (vm_mosaics v) i of None \<Rightarrow> vm_heap v | Some p \<Rightarrow> (vm_heap v)(p := None))(vm_next v \<mapsto> m),
    vm_mosaics := map_put i (vm_next v) (vm_mosaics v)\<rparr>)"
proof -
  note D = mixer_okD [OF ok]
  have f: "map_find (map_put i (vm_next v) (vm_mosaics v)) = (map_find (vm_mosaics v))(i \<mapsto> vm_next v)"
    using D(1) by (rule map_find_put)
  have old: "p \<noteq> vm_next v" if "map_find (vm_mosaics v) j = Some p" for j p using D(4) [OF that] by simp
  show ?thesis (is "mixer_ok clock ?v")
  proof (rule mixer_okI)
    show "omap_wf (vm_mosaics ?v)" "omap_wf (vm_videos ?v)" using D(1,2) by (auto split: option.split)
    fix j p assume j: "map_find (vm_mosaics ?v) j = Some p"
    then show "p < vm_next ?v" using D(4) by (auto simp: f less_Suc_eq split: if_splits)
    show "j = k" if "map_find (vm_mosaics ?v) k = Some p" for k
      using j that D(3) old [of j] old [of k] by (auto simp: f split: if_splits)
    show "\<exists>m. vm_heap ?v p = Some m \<and> good (vm_ini ?v) clock m"
    proof (cases "j = i")
      case True
      with j m show ?thesis by (simp add: f)
    next
      case False
      then have j: "map_find (vm_mosaics v) j = Some p" using j by (simp add: f)
      then have "map_find (vm_mosaics v) i \<noteq> Some p" using False D(3) by blast
      then show ?thesis using D(5) [OF j] old [OF j] by (auto split: option.split)
    qed
  next
    fix k s p assume k: "map_find (vm_videos ?v) k = Some s" and s: "vs_mosaic s = Some p"
    show "\<exists>j. map_find (vm_mosaics ?v) j = Some p"
    proof (cases "p = vm_next v")
      case True
      then show ?thesis by (auto simp: f)
    next
      case False
      obtain s' where "map_find (vm_videos v) k = Some s'" "vs_mosaic s' = Some p" "map_find (vm_mosaics v) i \<noteq> Some p"
        using k s False find_repointD [of _ "Some (vm_next v)" "vm_videos v" k s p] by (auto split: option.splits)
      moreover from this obtain j where "map_find (vm_mosaics v) j = Some p" using D(6) by blast
      ultimately show ?thesis by (auto simp: f)
    qed
  qed
qed

lemma SetCompositionType_ok:
  assumes ok: "mixer_ok clock v" and r: "SetCompositionType padding i ctype sz v = Ok v'"
  shows "mixer_ok clock v' \<and> vm_ini v' = vm_ini v"
proof -
  obtain t where t: "CreateMosaic padding ctype sz = Ok (Mosaic_new padding t sz)"
    using r by (auto simp: SetCompositionType_def CreateMosaic_def split: option.splits)
  show ?thesis
  proof (cases "map_find (vm_mosaics v) i")
    case None
    with r t have v': "v' = v\<lparr>vm_next := Suc (vm_next v),
        vm_heap := (vm_heap v)(vm_next v \<mapsto> CalculatePositions (Mosaic_new padding t sz)),
        vm_mosaics := map_put i (vm_next v) (vm_mosaics v)\<rparr>"
      by (simp add: SetCompositionType_def Let_def)
    from mixer_ok_new [OF ok good_new, where k = "vm_maxMosaics v" and d = "vm_defaultMosaic v" and i = i] None
    show ?thesis by (simp add: v')
  next
    case (Some p)
    then obtain old where old: "load_mosaic p v = Ok old" "good (vm_ini v) clock old" using load_mosaic_ok [OF ok] by blast
    then have old': "load_mosaic p (v\<lparr>vm_next := n\<rparr>) = Ok old" for n by (simp add: load_mosaic_def)
    define m where "m = SetSlots (Some (mosaicSlots old)) (take_over old (vm_videos v) (Mosaic_new padding t sz))"
    define m' where "m' = SetVADParticipant (vadParticipant m) (vm_vadMode v = FullVAD) (vadBlockingTime m) m"
    define d where "d = new_default p (vm_next v) (vm_defaultMosaic v)"
    have "good (vm_ini v) clock (CalculatePositions m')"
      unfolding m'_def by (rule good_replacement [OF old(2) refl m_def])
    from mixer_ok_new [OF ok this, where k = "vm_maxMosaics v" and d = d and i = i]
    have "mixer_ok clock (v\<lparr>vm_next := Suc (vm_next v),
        vm_defaultMosaic := d, vm_videos := repoint p (Some (vm_next v)) (vm_videos v),
        vm_heap := (vm_heap v)(p := None, vm_next v \<mapsto> CalculatePositions m'),
        vm_mosaics := map_put i (vm_next v) (vm_mosaics v)\<rparr>)"
      using Some by simp
    moreover have "v' = v\<lparr>vm_next := Suc (vm_next v),
        vm_videos := repoint p (Some (vm_next v)) (vm_videos v),
        vm_defaultMosaic := d,
        vm_heap := (vm_heap v)(p := None, vm_next v \<mapsto> CalculatePositions m'),
        vm_mosaics := map_put i (vm_next v) (vm_mosaics v)\<rparr>"
      using r t old' Some by (simp add: SetCompositionType_def Let_def m'_def m_def d_def)
    ultimately show ?thesis by (simp add: mixer_ok_def)
  qed
qed

lemma mixer_ok_frame:
  "mixer_ok clock (v\<lparr>vm_maxMosaics := k\<rparr>) = mixer_ok clock v" "mixer_ok clock (v\<lparr>vm_defaultMosaic := d\<rparr>) = mixer_ok clock v"
  "mixer_ok clock (v\<lparr>vm_mixingVideo := b\<rparr>) = mixer_ok clock v" "mixer_ok clock (v\<lparr>vm_proxy := b\<rparr>) = mixer_ok clock v"
  "mixer_ok clock (v\<lparr>vm_vadMode := mode\<rparr>) = mixer_ok clock v" "mixer_ok clock (v\<lparr>vm_keepAspectRatio := b\<rparr>) = mixer_ok clock v"
  by (simp_all add: mixer_ok_def)

lemma vm_CreateMosaic_ok:
  "mixer_ok clock v \<Longrightarrow> vm_CreateMosaic padding ctype sz v = Ok (i, v') \<Longrightarrow> mixer_ok clock v' \<and> vm_ini v' = vm_ini v"
  using SetCompositionType_ok [of clock "v\<lparr>vm_maxMosaics := vm_maxMosaics v + 1\<rparr>"]
  by (auto simp: vm_CreateMosaic_def Let_def mixer_ok_frame)

lemma DeleteMosaic_ok:
  assumes ok: "mixer_ok clock v" and r: "DeleteMosaic i v = (b, v')"
  shows "mixer_ok clock v' \<and> vm_ini v' = vm_ini v"
proof (cases "map_find (vm_mosaics v) i")
  case (Some p)
  note D = mixer_okD [OF ok]
  have v': "v' = v\<lparr>vm_videos := repoint p None (vm_videos v), vm_mosaics := map_erase i (vm_mosaics v),
      vm_heap := (vm_heap v)(p := None)\<rparr>"
    using r Some by (simp add: DeleteMosaic_def)
  have other: "q \<noteq> p" "map_find (vm_mosaics v) j = Some q" if "map_find (map_erase i (vm_mosaics v)) j = Some q" for j q
    using that D(3) [OF Some, of j] by (auto simp: map_find_erase split: if_splits)
  have "mixer_ok clock v'"
  proof (rule mixer_okI)
    fix j q assume j: "map_find (vm_mosaics v') j = Some q"
    then have j': "map_find (map_erase i (vm_mosaics v)) j = Some q" by (simp add: v')
    show "q < vm_next v'" using D(4) [OF other(2) [OF j']] by (simp add: v')
    show "\<exists>m. vm_heap v' q = Some m \<and> good (vm_ini v') clock m"
      using D(5) [OF other(2) [OF j']] other(1) [OF j'] by (simp add: v')
    show "j = k" if "map_find (vm_mosaics v') k = Some q" for k
      using that j D(3) by (auto simp: v' map_find_erase split: if_splits)
  next
    fix k s q assume k: "map_find (vm_videos v') k = Some s" and s: "vs_mosaic s = Some q"
    obtain s' where s': "map_find (vm_videos v) k = Some s'" "vs_mosaic s' = Some q" "q \<noteq> p"
      using k s find_repointD [of p None "vm_videos v" k s q] by (auto simp: v')
    then obtain j where j: "map_find (vm_mosaics v) j = Some q" using D(6) by blast
    with s'(3) Some have "j \<noteq> i" by auto
    with j show "\<exists>j. map_find (vm_mosaics v') j = Some q" by (auto simp: v' map_find_erase)
  qed (use D(1,2) in \<open>simp_all add: v'\<close>)
  then show ?thesis by (simp add: v')
qed (use assms in \<open>simp add: DeleteMosaic_def\<close>)


lemma vm_CreateMixer_ok:
  "mixer_ok clock v \<Longrightarrow> vm_CreateMixer i name v = (b, v') \<Longrightarrow> mixer_ok clock v' \<and> vm_ini v' = vm_ini v"
  by (auto simp: vm_CreateMixer_def intro: mixer_ok_source split: if_splits)

lemma vm_InitMixer_ok:
  "mixer_ok clock v \<Longrightarrow> vm_InitMixer i mosaicId v = (b, v') \<Longrightarrow> mixer_ok clock v' \<and> vm_ini v' = vm_ini v"
  by (auto simp: vm_InitMixer_def intro!: mixer_ok_source split: option.splits)

lemma SetMixerMosaic_ok:
  "mixer_ok clock v \<Longrightarrow> SetMixerMosaic i mosaicId v = (b, v') \<Longrightarrow> mixer_ok clock v' \<and> vm_ini v' = vm_ini v"
  by (auto simp: SetMixerMosaic_def Let_def intro!: mixer_ok_source split: option.splits)

lemma vm_DeleteMixer_ok:
  assumes "mixer_ok clock v" "vm_DeleteMixer i v = (b, v')"
  shows "mixer_ok clock v' \<and> vm_ini v' = vm_ini v"
proof -
  have "mixer_ok clock (v\<lparr>vm_videos := map_erase i (vm_videos v)\<rparr>)"
    by (rule mixer_okI) (use mixer_okD [OF assms(1)] in \<open>auto simp: map_find_erase split: if_splits\<close>)
  then show ?thesis using assms by (auto simp: vm_DeleteMixer_def split: if_splits)
qed

lemma vm_End_ok: "mixer_ok clock (vm_End v)"
  by (simp add: mixer_ok_def vm_End_def)

text \<open>A loop over the mosaics: each of them is still where it was.\<close>

definition same_mixer :: "video_mixer \<Rightarrow> video_mixer \<Rightarrow> bool" where
  "same_mixer v w \<longleftrightarrow> vm_mosaics w = vm_mosaics v \<and> vm_ini w = vm_ini v"

lemma mosaics_loop:
  assumes "mixer_ok clock v"
    and "\<And>i p w. map_find (vm_mosaics v) i = Some p \<Longrightarrow> mixer_ok clock w \<Longrightarrow> same_mixer v w \<Longrightarrow>
      \<exists>w'. f (i, p) w = Ok w' \<and> mixer_ok clock w' \<and> same_mixer v w'"
  shows "\<exists>w. foldR f (vm_mosaics v) v = Ok w \<and> mixer_ok clock w \<and> same_mixer v w"
proof (rule foldR_total [where P = "\<lambda>w. mixer_ok clock w \<and> same_mixer v w"])
  show "mixer_ok clock v \<and> same_mixer v v" using assms(1) by (simp add: same_mixer_def)
  fix e w assume "e \<in> set (vm_mosaics v)" "mixer_ok clock w \<and> same_mixer v w"
  then show "\<exists>w'. f e w = Ok w' \<and> mixer_ok clock w' \<and> same_mixer v w'"
    using assms(2) [of "fst e" "snd e" w] map_find_in_iff [OF mixer_okD(1) [OF assms(1)]] by simp
qed

text \<open>\<open>EndMixer\<close> at a mosaic that is there.\<close>

lemma remove_from_ok:
  assumes u: "mixer_ok clock u" and j: "map_find (vm_mosaics u) j = Some p"
  shows "\<exists>u'. remove_from i (j, p) u = Ok u' \<and> mixer_ok clock u' \<and> same_mixer u u'"
proof -
  obtain m where m: "load_mosaic p u = Ok m" "good (vm_ini u) clock m" using load_mosaic_ok [OF u j] by blast
  have "good (vm_ini u) clock (CalculatePositions (snd (Mosaic_RemoveParticipant i m)))"
    by (rule good_CalculatePositions) (rule sound_RemoveParticipant [OF m(2)])
  then show ?thesis
    using mixer_ok_store [OF u j] u m by (simp add: remove_from_def same_mixer_def store_mosaic_def)
qed

lemma vm_EndMixer_ok:
  assumes "mixer_ok clock v"
  shows "\<exists>r. vm_EndMixer i v = Ok r \<and> mixer_ok clock (snd r) \<and> vm_ini (snd r) = vm_ini v"
proof (cases "map_find (vm_videos v) i")
  case (Some s)
  define w where "w = v\<lparr>vm_videos := map_put i (s\<lparr>vs_mosaic := None\<rparr>) (vm_videos v)\<rparr>"
  have w: "mixer_ok clock w" unfolding w_def by (rule mixer_ok_source [OF assms]) simp
  have "\<exists>u. foldR (remove_from i) (vm_mosaics w) w = Ok u \<and> mixer_ok clock u \<and> same_mixer w u"
  proof (rule mosaics_loop [OF w])
    fix j p u assume u: "map_find (vm_mosaics w) j = Some p" "mixer_ok clock u" "same_mixer w u"
    then have "map_find (vm_mosaics u) j = Some p" by (simp add: same_mixer_def)
    from remove_from_ok [OF u(2) this] u(3)
    show "\<exists>u'. remove_from i (j, p) u = Ok u' \<and> mixer_ok clock u' \<and> same_mixer w u'" by (auto simp: same_mixer_def)
  qed
  then obtain u where "foldR (remove_from i) (vm_mosaics w) w = Ok u" "mixer_ok clock u" "vm_ini u = vm_ini v"
    by (auto simp: same_mixer_def w_def)
  then have "vm_EndMixer i v = Ok (True, if vm_mixingVideo v then u else w)"
    using Some by (simp add: vm_EndMixer_def EndMixer_source_def w_def)
  moreover have "vm_ini w = vm_ini v" by (simp add: w_def)
  ultimately show ?thesis using w \<open>mixer_ok clock u\<close> \<open>vm_ini u = vm_ini v\<close> by simp
qed (use assms in \<open>simp add: vm_EndMixer_def EndMixer_source_def\<close>)

lemma EndMixer_source_ok:
  "mixer_ok clock v \<Longrightarrow> EndMixer_source i v = (b, v') \<Longrightarrow> mixer_ok clock v' \<and> vm_ini v' = vm_ini v"
  by (auto simp: EndMixer_source_def intro!: mixer_ok_source split: option.splits)

text \<open>Frames are sent: no pointer of a source dangles.\<close>

lemma send_frame_ok:
  assumes ok: "mixer_ok clock v" and j: "map_find (vm_videos v) i = Some src"
  shows "\<exists>r. send_frame force (i, src) (sent, v) = Ok r \<and> mixer_ok clock (snd r) \<and> vm_ini (snd r) = vm_ini v \<and>
    (\<forall>k. k \<noteq> i \<longrightarrow> map_find (vm_videos (snd r)) k = map_find (vm_videos v) k)"
proof -
  have "mixer_ok clock (v\<lparr>vm_videos := map_put i (src\<lparr>vs_refresh := True\<rparr>) (vm_videos v)\<rparr>)"
    by (rule mixer_ok_source [OF ok]) (use mixer_okD(6) [OF ok j] in simp)
  moreover have "\<exists>m. load_mosaic p v = Ok m" if "vs_mosaic src = Some p" for p
    using mixer_okD(6) [OF ok j that] load_mosaic_ok [OF ok] by blast
  ultimately show ?thesis
    using map_find_put [OF mixer_okD(2) [OF ok]] by (cases "vs_mosaic src") (auto simp: send_frame_def Let_def)
qed

lemma send_frames_ok:
  assumes "mixer_ok clock v"
  shows "\<exists>r. send_frames force v = Ok r \<and> mixer_ok clock (snd r) \<and> vm_ini (snd r) = vm_ini v"
proof -
  have "\<exists>r. foldR (send_frame force) es (sent, w) = Ok r \<and> mixer_ok clock (snd r) \<and> vm_ini (snd r) = vm_ini v"
    if "mixer_ok clock w" "vm_ini w = vm_ini v" "\<forall>(i, s) \<in> set es. map_find (vm_videos w) i = Some s" "distinct (map fst es)"
    for es sent w
    using that
  proof (induction es arbitrary: sent w)
    case (Cons e es)
    obtain i s where e: "e = (i, s)" by fastforce
    obtain sent' w' where w': "send_frame force (i, s) (sent, w) = Ok (sent', w')" "mixer_ok clock w'" "vm_ini w' = vm_ini w"
      "\<And>k. k \<noteq> i \<Longrightarrow> map_find (vm_videos w') k = map_find (vm_videos w) k"
      using send_frame_ok [OF Cons.prems(1), of i s force sent] Cons.prems(3) e by fastforce
    have "\<forall>(k, s) \<in> set es. map_find (vm_videos w') k = Some s"
      using Cons.prems(3,4) w'(4) e by force
    with Cons.IH [OF w'(2) _ this, of sent'] Cons.prems show ?case by (simp add: e w'(1,3))
  qed simp
  moreover have "\<forall>(i, s) \<in> set (vm_videos v). map_find (vm_videos v) i = Some s" "distinct (map fst (vm_videos v))"
    using mixer_okD(2) [OF assms] by (auto simp: map_find_in_iff omap_wf_distinct)
  ultimately show ?thesis using assms unfolding send_frames_def by blast
qed


section \<open>A round of the thread\<close>

text \<open>The readings of the clock for the mosaics, one after the other.\<close>

fun clock_runs :: "QWORD \<Rightarrow> (int \<Rightarrow> QWORD \<times> QWORD \<times> QWORD) \<Rightarrow> int list \<Rightarrow> QWORD \<Rightarrow> bool" where
  "clock_runs c clk [] c' = (c \<le> c')"
| "clock_runs c clk (i # is) c' = (case clk i of (t1, t2, t3) \<Rightarrow> c < t3 \<and> clock_runs t3 clk is c')"

lemma clock_runs_le: "clock_runs c clk is c' \<Longrightarrow> c \<le> c'"
proof (induction "is" arbitrary: c)
  case (Cons i "is")
  obtain t1 t2 t3 where "clk i = (t1, t2, t3)" using prod_cases3 by blast
  with Cons have "c < t3" "t3 \<le> c'" by auto
  then show ?case by simp
qed simp

lemma mix_mosaic_ok:
  assumes ok: "mixer_ok clock v" and p: "map_find (vm_mosaics v) i = Some p" and clk: "clk i = (t1, t2, t3)" "clock < t3"
    and ini: "2 ^ 31 \<le> vm_ini v" "vm_ini v \<le> clock"
    and r: "mix_mosaic sw logo period outputs level clk (i, p) v = Ok v'"
  shows "mixer_ok t3 v' \<and> same_mixer v v'"
proof -
  obtain m where m: "load_mosaic p v = Ok m" "good (vm_ini v) clock m" using load_mosaic_ok [OF ok p] by blast
  then obtain m' where m': "draw_mosaic sw logo outputs v (follow_speaker period level t1 t2 t3 v m) = Ok m'"
    "v' = store_mosaic p m' v"
    using r clk by (auto simp: mix_mosaic_def)
  have "good (vm_ini v) t3 m'"
    by (rule good_draw [OF good_follow_speaker [OF m(2) ini clk(2) order.refl] draw_mosaic_undrawn [OF m'(1)]])
  then have "mixer_ok t3 (store_mosaic p m' v)"
    using clk(2) by (intro mixer_ok_store [OF mixer_ok_mono [OF ok] p]) auto
  then show ?thesis by (simp add: m'(2) same_mixer_def store_mosaic_def)
qed

lemma mix_mosaics_ok:
  assumes ok: "mixer_ok clock v" and ini: "2 ^ 31 \<le> vm_ini v" "vm_ini v \<le> clock"
    and clk: "clock_runs clock clk (map fst (vm_mosaics v)) clock'"
    and r: "mix_mosaics sw logo period outputs level clk v = Ok v'"
  shows "mixer_ok clock' v' \<and> vm_ini v' = vm_ini v"
proof -
  have "mixer_ok clock' v' \<and> same_mixer v v'"
    if "mixer_ok c w" "same_mixer v w" "vm_ini v \<le> c" "set es \<subseteq> set (vm_mosaics v)"
      "clock_runs c clk (map fst es) clock'" "foldR (mix_mosaic sw logo period outputs level clk) es w = Ok v'" for es w c
    using that
  proof (induction es arbitrary: w c)
    case Nil
    then show ?case using mixer_ok_mono by auto
  next
    case (Cons e es)
    obtain i p t1 t2 t3 where e: "e = (i, p)" "clk i = (t1, t2, t3)" by (metis prod_cases3 surj_pair)
    obtain w' where w': "mix_mosaic sw logo period outputs level clk (i, p) w = Ok w'"
      "foldR (mix_mosaic sw logo period outputs level clk) es w' = Ok v'"
      using Cons.prems(6) by (auto simp: e(1))
    have p: "map_find (vm_mosaics w) i = Some p"
      using Cons.prems(2,4) map_find_in_iff [OF mixer_okD(1) [OF ok]] by (simp add: e same_mixer_def)
    have c: "c < t3" "clock_runs t3 clk (map fst es) clock'" using Cons.prems(5) e by auto
    have "2 ^ 31 \<le> vm_ini w" "vm_ini w \<le> c" using ini(1) Cons.prems(2,3) by (simp_all add: same_mixer_def)
    from mix_mosaic_ok [OF Cons.prems(1) p e(2) c(1) this w'(1)]
    have "mixer_ok t3 w'" "same_mixer v w'" using Cons.prems(2) by (auto simp: same_mixer_def)
    moreover have "vm_ini v \<le> t3" using Cons.prems(3) c(1) by simp
    ultimately show ?case using Cons.IH [of t3 w'] Cons.prems(4) c(2) w'(2) by simp
  qed
  from this [of clock v "vm_mosaics v"] assms show ?thesis by (simp add: same_mixer_def mix_mosaics_def)
qed

section \<open>Reachable states\<close>

text \<open>
  \<open>vm_reach clock v\<close>: the mixer can be in state \<open>v\<close> at the time \<open>clock\<close>, in microseconds since 1970 and so beyond
  \<open>2 ^ 31\<close>.  Identifiers of participants are positive, and two readings of the clock for two mosaics, or in two rounds,
  are not the same; those of mosaics and slots, and the values of slots, are what the operations are called with.
  \<open>EndMixer\<close> is taken apart: what it does to the source, and to a mosaic, may come at any time and in any order.
\<close>

inductive vm_reach :: "QWORD \<Rightarrow> video_mixer \<Rightarrow> bool" where
  Init: "vm_Init u padding ctype sz now VideoMixer_new = Ok v \<Longrightarrow> 2 ^ 31 \<le> now \<Longrightarrow> vm_reach now v"
| create_mixer: "vm_reach clock v \<Longrightarrow> vm_CreateMixer i name v = (b, v') \<Longrightarrow> vm_reach clock v'"
| init_mixer: "vm_reach clock v \<Longrightarrow> vm_InitMixer i mosaicId v = (b, v') \<Longrightarrow> vm_reach clock v'"
| set_mixer_mosaic: "vm_reach clock v \<Longrightarrow> SetMixerMosaic i mosaicId v = (b, v') \<Longrightarrow> vm_reach clock v'"
| end_mixer: "vm_reach clock v \<Longrightarrow> vm_EndMixer i v = Ok (b, v') \<Longrightarrow> vm_reach clock v'"
| end_source: "vm_reach clock v \<Longrightarrow> EndMixer_source i v = (b, v') \<Longrightarrow> vm_reach clock v'"
| end_visit: "vm_reach clock v \<Longrightarrow> map_find (vm_mosaics v) k = Some p \<Longrightarrow> remove_from i (k, p) v = Ok v' \<Longrightarrow> vm_reach clock v'"
| delete_mixer: "vm_reach clock v \<Longrightarrow> vm_DeleteMixer i v = (b, v') \<Longrightarrow> vm_reach clock v'"
| create_mosaic: "vm_reach clock v \<Longrightarrow> vm_CreateMosaic padding ctype sz v = Ok (i, v') \<Longrightarrow> vm_reach clock v'"
| composition: "vm_reach clock v \<Longrightarrow> SetCompositionType padding i ctype sz v = Ok v' \<Longrightarrow> vm_reach clock v'"
| delete_mosaic: "vm_reach clock v \<Longrightarrow> DeleteMosaic i v = (b, v') \<Longrightarrow> vm_reach clock v'"
| add: "vm_reach clock v \<Longrightarrow> 0 < p \<Longrightarrow> p < 2 ^ 31 \<Longrightarrow> AddMosaicParticipant i p v = Ok (b, v') \<Longrightarrow> vm_reach clock v'"
| remove: "vm_reach clock v \<Longrightarrow> RemoveMosaicParticipant i p v = Ok (b, v') \<Longrightarrow> vm_reach clock v'"
| set_slot: "vm_reach clock v \<Longrightarrow> vm_SetSlot i num p v = Ok (b, v') \<Longrightarrow> vm_reach clock v'"
| proxy: "vm_reach clock v \<Longrightarrow> vm_reach clock (SetVADProxy c v)"
| mode: "vm_reach clock v \<Longrightarrow> vm_reach clock (SetVADMode md v)"
| aspect: "vm_reach clock v \<Longrightarrow> vm_reach clock (SetKeepAspectRatio c v)"
| send: "vm_reach clock v \<Longrightarrow> send_frames force v = Ok (sent, v') \<Longrightarrow> vm_reach clock v'"
| mix: "vm_reach clock v \<Longrightarrow> clock_runs clock clk (map fst (vm_mosaics v)) clock' \<Longrightarrow>
    mix_mosaics sw logo period outputs level clk v = Ok v' \<Longrightarrow> vm_reach clock' v'"
| End: "vm_reach clock v \<Longrightarrow> vm_reach clock (vm_End v)"

lemma mixer_ok_new_mixer: "mixer_ok clock VideoMixer_new"
  by (simp add: mixer_ok_def VideoMixer_new_def)

lemma good_any_time: "good ini clock m \<Longrightarrow> members m = {} \<Longrightarrow> good ini' clock' m"
  by (simp add: good_def sound_def timely_def)



lemma vm_Init_state:
  assumes "vm_Init u padding ctype sz now VideoMixer_new = Ok v"
  shows "\<exists>t. v = VideoMixer_new\<lparr>vm_next := 1, vm_heap := (\<lambda>_. None)(0 \<mapsto> CalculatePositions (Mosaic_new padding t sz)),
    vm_mosaics := [(0, 0)], vm_maxMosaics := 1, vm_defaultMosaic := Some 0, vm_mixingVideo := True, vm_ini := now\<rparr>"
  using assms
  by (cases u) (auto simp: vm_Init_def vm_CreateMosaic_def SetCompositionType_def CreateMosaic_def VideoMixer_new_def Let_def
      map_find_def split: option.splits)

lemma no_mixer_without_return: "vm_Init Undefined padding ctype sz now v \<noteq> Ok v'"
  by (cases "vm_CreateMosaic padding ctype sz v") (auto simp: vm_Init_def)

lemma vm_Init_ok:
  assumes "vm_Init u padding ctype sz now VideoMixer_new = Ok v"
  shows "mixer_ok now v \<and> vm_ini v = now"
proof -
  obtain t where v: "v = VideoMixer_new\<lparr>vm_next := 1, vm_heap := (\<lambda>_. None)(0 \<mapsto> CalculatePositions (Mosaic_new padding t sz)),
    vm_mosaics := [(0, 0)], vm_maxMosaics := 1, vm_defaultMosaic := Some 0, vm_mixingVideo := True, vm_ini := now\<rparr>"
    using vm_Init_state [OF assms] by blast
  have "good now now (CalculatePositions (Mosaic_new padding t sz))" by (rule good_new)
  then show ?thesis
    by (auto simp: v mixer_ok_def VideoMixer_new_def map_find_def omap_wf_Cons split: if_splits)
qed

lemma reach_ok: "vm_reach clock v \<Longrightarrow> mixer_ok clock v \<and> 2 ^ 31 \<le> vm_ini v \<and> vm_ini v \<le> clock"
proof (induction rule: vm_reach.induct)
  case (Init u padding ctype sz now v)
  then show ?case using vm_Init_ok by auto
next
  case (create_mixer clock v i name b v')
  then show ?case using vm_CreateMixer_ok by metis
next
  case (init_mixer clock v i mosaicId b v')
  then show ?case using vm_InitMixer_ok by metis
next
  case (set_mixer_mosaic clock v i mosaicId b v')
  then show ?case using SetMixerMosaic_ok by metis
next
  case (end_mixer clock v i b v')
  then show ?case using vm_EndMixer_ok [of clock v i] by auto
next
  case (end_source clock v i b v')
  then show ?case using EndMixer_source_ok by metis
next
  case (end_visit clock v k p i v')
  then show ?case using remove_from_ok [of clock v k p i] by (auto simp: same_mixer_def)
next
  case (delete_mixer clock v i b v')
  then show ?case using vm_DeleteMixer_ok by metis
next
  case (create_mosaic clock v padding ctype sz i v')
  then show ?case using vm_CreateMosaic_ok by metis
next
  case (composition clock v padding i ctype sz v')
  then show ?case using SetCompositionType_ok by metis
next
  case (delete_mosaic clock v i b v')
  then show ?case using DeleteMosaic_ok by metis
next
  case (add clock v p i b v')
  then show ?case using AddMosaicParticipant_ok [of clock v p i] by auto
next
  case (remove clock v i p b v')
  then show ?case using RemoveMosaicParticipant_ok [of clock v i p] by auto
next
  case (set_slot clock v i num p b v')
  then show ?case using vm_SetSlot_ok [of clock v i num p] by auto
next
  case (proxy clock v c)
  then show ?case by (simp add: SetVADProxy_def mixer_ok_frame)
next
  case (mode clock v md)
  then show ?case by (simp add: SetVADMode_def mixer_ok_frame)
next
  case (aspect clock v c)
  then show ?case by (simp add: SetKeepAspectRatio_def mixer_ok_frame)
next
  case (send clock v force sent v')
  then show ?case using send_frames_ok [of clock v force] by auto
next
  case (mix clock v clk clock' sw logo period outputs level v')
  then have "mixer_ok clock' v' \<and> vm_ini v' = vm_ini v" "clock \<le> clock'"
    using mix_mosaics_ok clock_runs_le by blast+
  then show ?case using mix.IH by auto
next
  case (End clock v)
  then show ?case using vm_End_ok by (simp add: vm_End_def)
qed

text \<open>Every mosaic of a reachable mixer.\<close>

lemma reach_mosaic:
  assumes "vm_reach clock v" "map_find (vm_mosaics v) i = Some p" "vm_heap v p = Some m"
  shows "good (vm_ini v) clock m"
  using mixer_okD(5) reach_ok assms by fastforce

end
