(* ===== verification/MosaicTiling.thy ===== *)
theory MosaicTiling
  imports MosaicLayout
begin

text \<open>
  The slots of a composition lie inside the picture and do not overlap.  The switches over columns, over rows and over
  the cells of the slots are brought to one grid: \<open>cell_of\<close> is the block of cells a slot stands for.  That the
  blocks of a composition fit the grid and are apart is computed; that the rectangles in pixels lie inside the
  blocks holds for a picture of any size, with one exception, \<open>mosaic1p2\<close>, whose switches divide the height by three
  and by six.
\<close>

definition grid_of :: "mosaic_type \<Rightarrow> nat \<times> nat" where
  "grid_of t =
     (case CreateMosaic_class t of
        PartedMosaic \<Rightarrow> (case PartedMosaic_grid t of Ok g \<Rightarrow> g | Fault _ \<Rightarrow> (1, 1))
      | _ \<Rightarrow> (case asym_grid t of (c, r, _) \<Rightarrow> (c, r)))"

record cell =
  c_col :: nat
  c_row :: nat
  c_cols :: nat
  c_rows :: nat

definition cell_of :: "mosaic_type \<Rightarrow> nat \<Rightarrow> cell" where
  "cell_of t pos =
     (case CreateMosaic_class t of
        PartedMosaic \<Rightarrow>
          (case grid_of t of (c, r) \<Rightarrow> \<lparr>c_col = pos - pos div c * c, c_row = pos div c, c_cols = 1, c_rows = 1\<rparr>)
      | _ \<Rightarrow>
          (case asym_grid t of (c, r, cells) \<Rightarrow>
             \<lparr>c_col = cells ! pos - cells ! pos div c * c, c_row = cells ! pos div c,
              c_cols = (case asym_cols t pos of (d, s) \<Rightarrow> s * c div d),
              c_rows = (case asym_rows t pos of (d, s) \<Rightarrow> s * r div d)\<rparr>))"

definition apart :: "cell \<Rightarrow> cell \<Rightarrow> bool" where
  "apart a b \<longleftrightarrow>
     c_col a + c_cols a \<le> c_col b \<or> c_col b + c_cols b \<le> c_col a \<or>
     c_row a + c_rows a \<le> c_row b \<or> c_row b + c_rows b \<le> c_row a"

definition fits :: "nat \<times> nat \<Rightarrow> cell \<Rightarrow> bool" where
  "fits g a \<longleftrightarrow> c_col a + c_cols a \<le> fst g \<and> c_row a + c_rows a \<le> snd g"

lemma apart_sym: "apart a b \<Longrightarrow> apart b a"
  by (auto simp: apart_def)

section \<open>The blocks of a composition\<close>

definition tiled :: "mosaic_type \<Rightarrow> bool" where
  "tiled t \<longleftrightarrow>
     list_all (\<lambda>p. fits (grid_of t) (cell_of t p) \<and>
                   list_all (\<lambda>q. apart (cell_of t p) (cell_of t q)) [Suc p..<GetNumSlotsForType t])
       [0..<GetNumSlotsForType t]"

lemmas tiling_defs = tiled_def fits_def apart_def cell_of_def grid_of_def

lemma all_tiled: "CreateMosaic_class t \<noteq> PIPMosaic \<Longrightarrow> tiled t"
  by (cases t) (simp_all add: tiling_defs upt_rec)

lemma cells_fit:
  assumes "CreateMosaic_class t \<noteq> PIPMosaic" "p < GetNumSlotsForType t"
  shows "fits (grid_of t) (cell_of t p)"
  using all_tiled [OF assms(1)] assms(2) by (simp add: tiled_def list_all_iff)

lemma cells_apart:
  assumes "CreateMosaic_class t \<noteq> PIPMosaic" "p < GetNumSlotsForType t" "q < GetNumSlotsForType t" "p \<noteq> q"
  shows "apart (cell_of t p) (cell_of t q)"
proof -
  have *: "apart (cell_of t i) (cell_of t j)" if "i < j" "j < GetNumSlotsForType t" for i j
    using all_tiled [OF assms(1)] that by (simp add: tiled_def list_all_iff)
  show ?thesis using * [of p q] * [of q p] assms(2-4) apart_sym by (meson linorder_neqE_nat)
qed

section \<open>From cells to pixels\<close>

definition inside :: "nat \<Rightarrow> nat \<Rightarrow> cell \<Rightarrow> rect \<Rightarrow> bool" where
  "inside u v c a \<longleftrightarrow>
     r_left a = u * c_col c \<and> r_width a \<le> u * c_cols c \<and> r_top a = v * c_row c \<and> r_height a \<le> v * c_rows c"

lemma inside_bounds:
  assumes "inside u v c a" "fits g c" "u * fst g \<le> W" "v * snd g \<le> H"
  shows "r_left a + r_width a \<le> W \<and> r_top a + r_height a \<le> H"
proof -
  have "u * (c_col c + c_cols c) \<le> u * fst g" "v * (c_row c + c_rows c) \<le> v * snd g"
    using assms(2) by (auto simp: fits_def intro!: mult_le_mono2)
  then show ?thesis using assms(1,3,4) unfolding inside_def add_mult_distrib2 by linarith
qed

lemma inside_apart:
  assumes "inside u v c a" "inside u v d b" "apart c d"
  shows "\<not> (in_rect a x y \<and> in_rect b x y)"
proof
  assume xy: "in_rect a x y \<and> in_rect b x y"
  have *: "w * (k + l) \<le> w * m" if "k + l \<le> m" for w k l m :: nat
    using that by (rule mult_le_mono2)
  have "u * (c_col c + c_cols c) \<le> u * c_col d \<or> u * (c_col d + c_cols d) \<le> u * c_col c \<or>
        v * (c_row c + c_rows c) \<le> v * c_row d \<or> v * (c_row d + c_rows d) \<le> v * c_row c"
    using assms(3) * unfolding apart_def by blast
  then show False
    using assms(1,2) xy unfolding inside_def in_rect_def add_mult_distrib2 by linarith
qed

text \<open>The pixels of a cell.\<close>

definition cell_width :: "mosaic_type \<Rightarrow> nat \<Rightarrow> nat" where
  "cell_width t W = W div fst (grid_of t)"

definition cell_height :: "mosaic_type \<Rightarrow> nat \<Rightarrow> nat" where
  "cell_height t H = H div snd (grid_of t)"

definition whole_rows :: "mosaic_type \<Rightarrow> nat \<Rightarrow> bool" where
  "whole_rows t H \<longleftrightarrow> (t = mosaic1p2 \<longrightarrow> H mod 6 < 3)"

lemma parted_rect:
  assumes "CreateMosaic_class t = PartedMosaic" "p < GetNumSlotsForType t"
  shows "\<exists>a. slot_rect t W H p = Ok a \<and> inside (cell_width t W) (cell_height t H) (cell_of t p) a"
  using assms
  by (cases t) (auto simp: slot_rect_def inside_def cell_of_def grid_of_def cell_width_def cell_height_def
      parted_GetLeft_def parted_GetTop_def parted_GetWidth_def parted_GetHeight_def Let_def)


lemma double_half: "W div 4 * 2 \<le> W div (2::nat)"
  by linarith

lemma third_of_sixths: "(H::nat) mod 6 < 3 \<Longrightarrow> H div 3 = H div 6 * 2"
  by presburger

lemma asym_rect:
  assumes "CreateMosaic_class t = AsymmetricMosaic" "p < GetNumSlotsForType t" "whole_rows t H"
  shows "\<exists>a. slot_rect t W H p = Ok a \<and> inside (cell_width t W) (cell_height t H) (cell_of t p) a"
  using assms
  by (cases t) (auto simp: slot_rect_def inside_def cell_of_def grid_of_def cell_width_def cell_height_def whole_rows_def
      asym_GetLeft_def asym_GetTop_def asym_GetWidth_def asym_GetHeight_def Let_def double_half third_of_sixths)

lemma slot_inside:
  assumes "CreateMosaic_class t \<noteq> PIPMosaic" "p < GetNumSlotsForType t" "whole_rows t H"
  shows "\<exists>a. slot_rect t W H p = Ok a \<and> inside (cell_width t W) (cell_height t H) (cell_of t p) a"
  using parted_rect asym_rect assms by (cases "CreateMosaic_class t") auto

section \<open>No slot covers another\<close>

text \<open>Whatever the composition, the picture-in-picture ones apart, and whatever the size of the picture, the rectangle
of a slot lies inside the picture and has no pixel in common with the rectangle of another slot; for \<open>mosaic1p2\<close>
the height modulo six has to be less than three.\<close>

lemma slots_tile_the_picture:
  assumes "CreateMosaic_class t \<noteq> PIPMosaic" "t = mosaic1p2 \<longrightarrow> H mod 6 < 3"
    and "p < GetNumSlotsForType t" "q < GetNumSlotsForType t" "p \<noteq> q"
  shows "\<exists>a b. slot_rect t W H p = Ok a \<and> slot_rect t W H q = Ok b \<and>
    r_left a + r_width a \<le> W \<and> r_top a + r_height a \<le> H \<and> (\<forall>x y. \<not> (in_rect a x y \<and> in_rect b x y))"
proof -
  have w: "whole_rows t H" using assms(2) by (simp add: whole_rows_def)
  obtain a where a: "slot_rect t W H p = Ok a" "inside (cell_width t W) (cell_height t H) (cell_of t p) a"
    using slot_inside [OF assms(1,3) w] by blast
  obtain b where b: "slot_rect t W H q = Ok b" "inside (cell_width t W) (cell_height t H) (cell_of t q) b"
    using slot_inside [OF assms(1,4) w] by blast
  have "cell_width t W * fst (grid_of t) \<le> W" "cell_height t H * snd (grid_of t) \<le> H"
    by (simp_all add: cell_width_def cell_height_def)
  from inside_bounds [OF a(2) cells_fit [OF assms(1,3)] this]
    inside_apart [OF a(2) b(2) cells_apart [OF assms(1,3-5)]] a(1) b(1)
  show ?thesis by blast
qed

text \<open>A picture of 768 by 448 (\<open>W448P\<close>): the two small slots of \<open>mosaic1p2\<close> share a line.\<close>

lemma one_plus_two_overlaps:
  "\<exists>a b. slot_rect mosaic1p2 (GetWidth_size 8) (GetHeight_size 8) 1 = Ok a \<and>
    slot_rect mosaic1p2 (GetWidth_size 8) (GetHeight_size 8) 2 = Ok b \<and> in_rect a 512 222 \<and> in_rect b 512 222"
  by (simp add: slot_rect_def asym_GetLeft_def asym_GetTop_def asym_GetWidth_def asym_GetHeight_def in_rect_def
      GetWidth_size_def GetHeight_size_def)

section \<open>Pictures in a picture\<close>

lemma SIZE4MUL_le: "SIZE4MUL n \<le> n"
  by (simp add: SIZE4MUL_def)

text \<open>The small pictures, where \<open>Update\<close> draws them, lie inside the picture and beside each other.\<close>

definition pip_rect :: "nat \<Rightarrow> nat \<Rightarrow> nat \<Rightarrow> nat \<Rightarrow> rect" where
  "pip_rect n W H pos =
     (let w = pip_size n W; intraWidth = SIZE4MUL (W div 5) div 2 in
      \<lparr>r_left = intraWidth + (intraWidth + w) * (pos - 1), r_top = pip_ini n H, r_width = w, r_height = pip_size n H\<rparr>)"

lemma small_pictures_fit:
  assumes "n = 2 \<or> n = 4" "0 < p" "p < n"
  shows "r_left (pip_rect n W H p) + r_width (pip_rect n W H p) \<le> W \<and>
    r_top (pip_rect n W H p) + r_height (pip_rect n W H p) \<le> H"
proof -
  have s: "SIZE4MUL k \<le> k" for k by (rule SIZE4MUL_le)
  have "4 * pip_size n H \<le> H" using s [of "H div 4"] s [of "H div 5"] by (auto simp: pip_size_def)
  then have top: "pip_ini n H + pip_size n H \<le> H"
    using s [of "H - pip_size n H - SIZE4MUL (H div 5) div 4"] unfolding pip_ini_def by linarith
  have "p = 1 \<or> n = 4 \<and> p = 2 \<or> n = 4 \<and> p = 3" using assms by auto
  moreover have "5 * SIZE4MUL (W div 5) \<le> W" "4 * SIZE4MUL (W div 4) \<le> W"
    using s [of "W div 5"] s [of "W div 4"] by linarith+
  moreover have "2 * (SIZE4MUL (W div 5) div 2) \<le> SIZE4MUL (W div 5)" by simp
  ultimately show ?thesis using top by (auto simp: pip_rect_def pip_size_def Let_def)
qed

lemma small_pictures_apart:
  assumes "0 < p" "p < q"
  shows "\<not> (in_rect (pip_rect n W H p) x y \<and> in_rect (pip_rect n W H q) x y)"
proof -
  define i where "i = SIZE4MUL (W div 5) div 2"
  define w where "w = pip_size n W"
  have "(i + w) * (p - 1) + (i + w) \<le> (i + w) * (q - 1)"
  proof -
    have "(i + w) * p \<le> (i + w) * (q - 1)" using assms by (intro mult_le_mono2) simp
    then show ?thesis using assms by (cases p) simp_all
  qed
  then show ?thesis by (auto simp: pip_rect_def in_rect_def Let_def i_def [symmetric] w_def [symmetric])
qed

text \<open>\<open>GetTop\<close> of \<open>mosaicPIP3\<close> is not the line the small pictures start at: in 640 by 480 they are 24 lines lower.\<close>

lemma names_are_drawn_above_the_small_pictures:
  "slot_rect mosaicPIP3 640 480 1 = Ok \<lparr>r_left = 64, r_top = 336, r_width = 128, r_height = 96\<rparr>"
  "r_top (pip_rect 4 640 480 1) = 360"
  by (simp_all add: slot_rect_def pip_rect_def pip_ini_def pip_size_def SIZE4MUL_def pip_GetLeft_def pip_GetTop_def
      pip_GetWidth_def pip_GetHeight_def)


end
