(* ===== verification/MosaicDrawing.thy ===== *)
theory MosaicDrawing
  imports MosaicTiling MosaicPicture
begin

text \<open>
  What drawing changes of the picture.  \<open>only_changes S d d'\<close>: the two buffers differ at most at the places of \<open>S\<close>;
  every operation that draws is bounded by the places of a slot, whatever is drawn and however it is scaled.
\<close>

section \<open>Places of a buffer\<close>

definition only_changes :: "nat set \<Rightarrow> 'a list \<Rightarrow> 'a list \<Rightarrow> bool" where
  "only_changes S d d' \<longleftrightarrow> length d' = length d \<and> (\<forall>k < length d. k \<notin> S \<longrightarrow> d' ! k = d ! k)"

lemma only_changes_refl [simp]: "only_changes S d d"
  by (simp add: only_changes_def)

lemma only_changes_trans: "only_changes S d d' \<Longrightarrow> only_changes S d' d'' \<Longrightarrow> only_changes S d d''"
  by (auto simp: only_changes_def)

lemma only_changes_mono: "only_changes S d d' \<Longrightarrow> S \<subseteq> T \<Longrightarrow> only_changes T d d'"
  by (auto simp: only_changes_def)

lemma nth_copy_in:
  assumes "copy_in i xs d = Ok d'"
  shows "length d' = length d" "k < length d \<Longrightarrow> d' ! k = (if i \<le> k \<and> k < i + length xs then xs ! (k - i) else d ! k)"
  using assms by (auto simp: copy_in_def nth_append min_def split: if_splits)

lemma copy_in_changes: "copy_in i xs d = Ok d' \<Longrightarrow> {i..<i + length xs} \<subseteq> S \<Longrightarrow> only_changes S d d'"
  using nth_copy_in [of i xs d d'] by (fastforce simp: only_changes_def)

lemma fill_changes: "fill i n v d = Ok d' \<Longrightarrow> {i..<i + n} \<subseteq> S \<Longrightarrow> only_changes S d d'"
  using copy_in_changes [of i "replicate n v" d d' S] by (simp add: fill_def)

lemma move_changes: "move to from n img d = Ok d' \<Longrightarrow> {to..<to + n} \<subseteq> S \<Longrightarrow> only_changes S d d'"
  by (auto simp: move_def copy_out_def split: if_splits dest!: copy_in_changes [where S = S])

lemma foldR_changes:
  assumes "foldR f xs d = Ok d'" "\<And>x d d'. x \<in> set xs \<Longrightarrow> f x d = Ok d' \<Longrightarrow> only_changes S d d'"
  shows "only_changes S d d'"
  by (rule foldR_invariant [OF assms(1), of "only_changes S d"]) (auto intro: only_changes_trans assms(2))

lemma put_line_changes:
  assumes "put_line width w x black line off d = Ok d'" "x + w \<le> width" "{off..<off + width} \<subseteq> S"
  shows "only_changes S d d'"
proof (cases line)
  case None
  then show ?thesis using assms by (auto simp: put_line_def dest!: fill_changes [where S = S])
next
  case (Some l)
  have "{off..<off + x} \<subseteq> {off..<off + width}" "{off + x + w..<off + x + w + (width - w - x)} \<subseteq> {off..<off + width}"
    "{off + x..<off + x + min (length l) w} \<subseteq> {off..<off + width}"
    using assms(2) by auto
  then have sub: "{off..<off + x} \<subseteq> S" "{off + x + w..<off + x + w + (width - w - x)} \<subseteq> S"
    "{off + x..<off + x + min (length l) w} \<subseteq> S"
    using assms(3) by (blast intro: subset_trans)+
  obtain d1 where d1: "copy_in (off + x) (take w l) d1 = Ok d'"
    "(if x > 0 then bindR (fill off x black d) (fill (off + x + w) (width - w - x) black) else Ok d) = Ok d1"
    using assms(1,2) Some by (auto simp: put_line_def split: if_splits)
  have "only_changes S d d1"
    using d1(2) sub(1,2) by (auto split: if_splits dest!: fill_changes [where S = S] intro: only_changes_trans)
  then show ?thesis
    using copy_in_changes [OF d1(1), of S] sub(3) by (auto intro: only_changes_trans)
qed

section \<open>The places of a slot\<close>

text \<open>\<open>h\<close> lines of \<open>w\<close> bytes, the first at \<open>off\<close>, one every \<open>stride\<close> bytes.\<close>

definition box :: "nat \<Rightarrow> nat \<Rightarrow> nat \<Rightarrow> nat \<Rightarrow> nat set" where
  "box off stride w h = (\<Union>i < h. {off + stride * i..<off + stride * i + w})"

lemma box_line: "i < h \<Longrightarrow> {off + stride * i..<off + stride * i + w} \<subseteq> box off stride w h"
  by (auto simp: box_def)

definition places :: "nat \<Rightarrow> nat \<Rightarrow> nat \<Rightarrow> planes \<Rightarrow> nat set" where
  "places W w h p =
     box (lineaY p) W w h \<union> box (lineaU p) (W div 2) (w div 2) (h div 2) \<union> box (lineaV p) (W div 2) (w div 2) (h div 2)"

lemma clean_lines_changes:
  assumes "clean_lines W w h p d = Ok d'"
  shows "only_changes (places W w h p) d d'"
proof -
  obtain d1 where d1: "foldR (\<lambda>i. fill (lineaY p + W * i) w 0) [0..<h] d = Ok d1"
    "foldR (\<lambda>i d. bindR (fill (lineaU p + W div 2 * i) (w div 2) 128 d) (fill (lineaV p + W div 2 * i) (w div 2) 128))
       [0..<h div 2] d1 = Ok d'"
    using assms by (auto simp: clean_lines_def)
  have "only_changes (places W w h p) d d1"
    by (rule foldR_changes [OF d1(1)]) (erule fill_changes, use box_line in \<open>fastforce simp: places_def\<close>)
  moreover have "only_changes (places W w h p) d1 d'"
  proof (rule foldR_changes [OF d1(2)])
    fix i e e' assume i: "i \<in> set [0..<h div 2]"
      and e: "bindR (fill (lineaU p + W div 2 * i) (w div 2) 128 e) (fill (lineaV p + W div 2 * i) (w div 2) 128) = Ok e'"
    from e obtain e1 where e1: "fill (lineaU p + W div 2 * i) (w div 2) 128 e = Ok e1"
      "fill (lineaV p + W div 2 * i) (w div 2) 128 e1 = Ok e'" by auto
    have "only_changes (places W w h p) e e1" "only_changes (places W w h p) e1 e'"
      by (rule fill_changes [OF e1(1)], use i box_line in \<open>fastforce simp: places_def\<close>)
        (rule fill_changes [OF e1(2)], use i box_line in \<open>fastforce simp: places_def\<close>)
    then show "only_changes (places W w h p) e e'" by (rule only_changes_trans)
  qed
  ultimately show ?thesis by (rule only_changes_trans)
qed


text \<open>Two lines of chrominance, one after the other.\<close>

lemma two_lines_changes:
  assumes "bindR (f d) g = Ok d'" "\<And>d1. f d = Ok d1 \<Longrightarrow> only_changes S d d1"
    "\<And>d1. g d1 = Ok d' \<Longrightarrow> only_changes S d1 d'"
  shows "only_changes S d d'"
  using assms by (auto intro: only_changes_trans)

lemma copy_lines_changes:
  assumes "copy_lines W w h img p d = Ok d'"
  shows "only_changes (places W w h p) d d'"
proof -
  obtain u v d1 where d1: "foldR (\<lambda>i. move (lineaY p + W * i) (w * i) w img) [0..<h] d = Ok d1"
    "foldR (\<lambda>i d. bindR (move (lineaU p + W div 2 * i) (u + w div 2 * i) (w div 2) img d)
        (move (lineaV p + W div 2 * i) (v + w div 2 * i) (w div 2) img)) [0..<h div 2] d1 = Ok d'"
    using assms by (auto simp: copy_lines_def Let_def)
  have "only_changes (places W w h p) d d1"
    by (rule foldR_changes [OF d1(1)]) (erule move_changes, use box_line in \<open>fastforce simp: places_def\<close>)
  moreover have "only_changes (places W w h p) d1 d'"
    by (rule foldR_changes [OF d1(2)], erule two_lines_changes)
      (erule move_changes, use box_line in \<open>fastforce simp: places_def\<close>)+
  ultimately show ?thesis by (rule only_changes_trans)
qed

section \<open>Scaling\<close>

lemma half_even_le: "half_even n \<le> n div 2"
  by (simp add: half_even_def)

lemma Resize_changes:
  assumes r: "Resize sw srcY srcU srcV (lineaY p) (lineaU p) (lineaV p) s d = Ok (b, d')"
    and line: "resizeCtx s \<noteq> None \<longrightarrow> resizeDstLineWidth s = W" "even W"
  shows "only_changes (places W (resizeDstWidth s) (resizeDstHeight s) p) d d'"
proof (cases "resizeCtx s")
  case None
  then show ?thesis using r by (simp add: Resize_def)
next
  case (Some c)
  let ?w = "resizeDstWidth s" and ?h = "resizeDstHeight s" and ?aw = "resizeDstAdjustedWidth s"
  define x where "x = half_even (?w - ?aw)"
  have aw: "?aw \<le> ?w" using r Some by (auto simp: Resize_def Let_def split: if_splits)
  have x: "x + ?aw \<le> ?w" "x div 2 + ?aw div 2 \<le> ?w div 2"
    using half_even_le [of "?w - ?aw"] aw unfolding x_def by linarith+
  have chroma: "W * i div 2 = W div 2 * i" for i using line(2) by auto
  obtain lY lU lV d1 where d1:
    "foldR (\<lambda>i. put_line ?w ?aw x 0 (lY i) (lineaY p + W * i)) [0..<?h] d = Ok d1"
    "foldR (\<lambda>i d. bindR (put_line (?w div 2) (?aw div 2) (x div 2) 128 (lU i) (lineaU p + W div 2 * i) d)
        (put_line (?w div 2) (?aw div 2) (x div 2) 128 (lV i) (lineaV p + W div 2 * i))) [0..<?h div 2] d1 = Ok d'"
    using r Some line(1) unfolding Resize_def Let_def x_def
    by (auto simp: chroma split: if_splits prod.splits)
  have "only_changes (places W ?w ?h p) d d1"
    by (rule foldR_changes [OF d1(1)]) (erule put_line_changes [OF _ x(1)], use box_line in \<open>fastforce simp: places_def\<close>)
  moreover have "only_changes (places W ?w ?h p) d1 d'"
    by (rule foldR_changes [OF d1(2)], erule two_lines_changes)
      (erule put_line_changes [OF _ x(2)], use box_line in \<open>fastforce simp: places_def\<close>)+
  ultimately show ?thesis by (rule only_changes_trans)
qed

lemma SetResize_sets:
  assumes "SetResize sw sw0 sh0 sl0 width height W keep s = Ok (b, s')" "resizeCtx s \<noteq> None \<longrightarrow> resizeDstLineWidth s = W"
  shows "resizeCtx s' \<noteq> None \<longrightarrow>
    resizeDstLineWidth s' = W \<and> resizeDstWidth s' = width \<and> resizeDstHeight s' = height"
  using assms by (auto simp: SetResize_def Let_def split: if_splits)

text \<open>The scalers of a mosaic are set up for the lines of its picture.\<close>

definition scalers_ok :: "mosaic \<Rightarrow> bool" where
  "scalers_ok m \<longleftrightarrow> length (resizer m) = numSlots m \<and>
     (\<forall>s \<in> set (resizer m). resizeCtx s \<noteq> None \<longrightarrow> resizeDstLineWidth s = mosaicTotalWidth m)"

lemma scalers_new: "scalers_ok (Mosaic_new padding t sz)"
  by (simp add: scalers_ok_def Mosaic_new_def Let_def numSlots_def FrameScaler_new_def)

lemma scale_into_changes:
  assumes "scale_into sw pos w0 h0 img width height keep p m d = Ok (m', d')"
    and "scalers_ok m" "pos < numSlots m" "even (mosaicTotalWidth m)"
  shows "only_changes (places (mosaicTotalWidth m) width height p) d d' \<and> scalers_ok m' \<and> picture m' = picture m"
proof -
  let ?W = "mosaicTotalWidth m"
  obtain b s' i b' where s: "SetResize sw w0 h0 w0 width height ?W keep (resizer m ! pos) = Ok (b, s')"
    "Resize sw i (drop (h0 * w0) i) (drop (h0 * w0 + h0 * w0 div 4) i) (lineaY p) (lineaU p) (lineaV p) s' d = Ok (b', d')"
    "m' = m\<lparr>resizer := (resizer m)[pos := s']\<rparr>"
    using assms(1) by (auto simp: scale_into_def Let_def)
  have "resizer m ! pos \<in> set (resizer m)" using assms(2,3) by (simp add: scalers_ok_def)
  then have "resizeCtx (resizer m ! pos) \<noteq> None \<longrightarrow> resizeDstLineWidth (resizer m ! pos) = ?W"
    using assms(2) by (simp add: scalers_ok_def)
  note set = SetResize_sets [OF s(1) this]
  have "only_changes (places ?W (resizeDstWidth s') (resizeDstHeight s') p) d d'"
    by (rule Resize_changes [OF s(2)]) (use set assms(4) in auto)
  moreover have "d' = d" if "resizeCtx s' = None" using s(2) that by (simp add: Resize_def)
  ultimately have "only_changes (places ?W width height p) d d'" using set by (cases "resizeCtx s'") auto
  moreover have "scalers_ok m'"
    using assms(2) set set_update_subset_insert [of "resizer m" pos s'] by (auto simp: scalers_ok_def s(3) numSlots_def)
  ultimately show ?thesis by (simp add: s(3))
qed

lemma draw_changes:
  assumes "draw sw pos img w0 h0 keep width height p m = Ok m'"
    and "scalers_ok m" "pos < numSlots m" "even (mosaicTotalWidth m)"
  shows "only_changes (places (mosaicTotalWidth m) width height p) (picture m) (picture m') \<and> scalers_ok m'"
proof (cases "w0 = width \<and> h0 = height")
  case True
  then show ?thesis
    using assms(1,2) by (auto simp: draw_def with_picture_def scalers_ok_def numSlots_def dest: copy_lines_changes)
next
  case False
  then obtain m1 d where m1: "scale_into sw pos w0 h0 img width height keep p m (picture m) = Ok (m1, d)" "m' = m1\<lparr>picture := d\<rparr>"
    using assms(1) by (auto simp: draw_def split: if_splits)
  then show ?thesis
    using scale_into_changes [OF m1(1) assms(2-4)] by (auto simp: scalers_ok_def numSlots_def)
qed

section \<open>Slots that do not lie in one another\<close>

definition slot_planes :: "nat \<Rightarrow> mosaic \<Rightarrow> planes" where
  "slot_planes pos m =
     (case CreateMosaic_class (mosaicType m) of
        PartedMosaic \<Rightarrow> (case grid_of (mosaicType m) of (c, r) \<Rightarrow> parted_planes c r pos m)
      | AsymmetricMosaic \<Rightarrow>
          (case (asym_GetLeft (mosaicType m) (mosaicTotalWidth m) pos, asym_GetTop (mosaicType m) (mosaicTotalHeight m) pos) of
             (Ok x, Ok y) \<Rightarrow> asym_planes x y m | _ \<Rightarrow> \<lparr>lineaY = 0, lineaU = 0, lineaV = 0\<rparr>)
      | PIPMosaic \<Rightarrow> pip_planes pos m)"

lemma SetChanged_simps [simp]: "picture (SetChanged m) = picture m" "scalers_ok (SetChanged m) = scalers_ok m"
  "scalers_ok (m\<lparr>picture := d\<rparr>) = scalers_ok m"
  by (simp_all add: SetChanged_def scalers_ok_def numSlots_def)

lemma grid_of_parted: "CreateMosaic_class t = PartedMosaic \<Longrightarrow> PartedMosaic_grid t = Ok (grid_of t)"
  by (cases t) (simp_all add: grid_of_def)

lemma Clean_changes:
  assumes "mosaic_Clean pos m = Ok m'" "scalers_ok m" "slot_rect (mosaicType m) (mosaicTotalWidth m) (mosaicTotalHeight m) pos = Ok a"
    and "numSlots m = GetNumSlotsForType (mosaicType m)" "CreateMosaic_class (mosaicType m) \<noteq> PIPMosaic"
  shows "only_changes (places (mosaicTotalWidth m) (r_width a) (r_height a) (slot_planes pos m)) (picture m) (picture m') \<and>
    scalers_ok m'"
proof (cases "pos < numSlots m")
  case False
  then show ?thesis
    using assms by (auto simp: mosaic_Clean_def parted_Clean_def asym_Clean_def split: mosaic_class.splits)
next
  case True
  show ?thesis
  proof (cases "CreateMosaic_class (mosaicType m)")
    case PartedMosaic
    then show ?thesis
      using assms(1-4) True grid_of_parted [OF PartedMosaic]
      by (cases "grid_of (mosaicType m)")
        (auto simp: mosaic_Clean_def parted_Clean_def slot_planes_def slot_rect_def parted_GetWidth_def parted_GetHeight_def
          with_picture_def Let_def dest: clean_lines_changes)
  next
    case AsymmetricMosaic
    then show ?thesis
      using assms(1-4) True
      by (auto simp: mosaic_Clean_def asym_Clean_def slot_planes_def slot_rect_def
          with_picture_def Let_def dest: clean_lines_changes)
  qed (use assms(5) in simp)
qed

lemma Update_changes:
  assumes "mosaic_Update sw pos img w h keep m = Ok (b, m')" "scalers_ok m"
    and "slot_rect (mosaicType m) (mosaicTotalWidth m) (mosaicTotalHeight m) pos = Ok a" "even (mosaicTotalWidth m)"
    and "numSlots m = GetNumSlotsForType (mosaicType m)" "CreateMosaic_class (mosaicType m) \<noteq> PIPMosaic"
  shows "only_changes (places (mosaicTotalWidth m) (r_width a) (r_height a) (slot_planes pos m)) (picture m) (picture m') \<and>
    scalers_ok m'"
proof (cases "pos < numSlots m")
  case False
  then show ?thesis
    using assms by (auto simp: mosaic_Update_def parted_Update_def asym_Update_def Let_def split: mosaic_class.splits)
next
  case True
  note C = Clean_changes [OF _ assms(2,3,5,6)]
  show ?thesis
  proof (cases "CreateMosaic_class (mosaicType m)")
    case PartedMosaic
    have c: "mosaic_Clean pos m = bindR (parted_Clean pos m) (\<lambda>(_, m). Ok m)"
      using PartedMosaic by (simp add: mosaic_Clean_def)
    show ?thesis
    proof (cases "img = None \<and> h = 0")
      case True
      then show ?thesis
        using assms(1) C [of m'] c PartedMosaic \<open>pos < numSlots m\<close> by (auto simp: mosaic_Update_def parted_Update_def)
    next
      case False
      obtain g r where g: "grid_of (mosaicType m) = (g, r)" by fastforce
      obtain m1 where m1: "draw sw pos img w h keep (mosaicTotalWidth m div g) (mosaicTotalHeight m div r) (parted_planes g r pos m) m = Ok m1"
        "m' = SetChanged m1"
        using assms(1) False True PartedMosaic grid_of_parted [OF PartedMosaic] g
        by (auto simp: mosaic_Update_def parted_Update_def split: if_splits)
      have "r_width a = mosaicTotalWidth m div g" "r_height a = mosaicTotalHeight m div r" "slot_planes pos m = parted_planes g r pos m"
        using assms(3,5) True PartedMosaic grid_of_parted [OF PartedMosaic] g
        by (auto simp: slot_rect_def parted_GetWidth_def parted_GetHeight_def slot_planes_def Let_def)
      then show ?thesis using draw_changes [OF m1(1) assms(2) True assms(4)] m1(2) by simp
    qed
  next
    case AsymmetricMosaic
    have c: "mosaic_Clean pos m = bindR (asym_Clean pos m) (\<lambda>(_, m). Ok m)"
      using AsymmetricMosaic by (simp add: mosaic_Clean_def)
    show ?thesis
    proof (cases "img = None \<and> h = 0")
      case True
      then show ?thesis
        using assms(1) C [of m'] c AsymmetricMosaic \<open>pos < numSlots m\<close> by (auto simp: mosaic_Update_def asym_Update_def Let_def)
    next
      case False
      let ?t = "mosaicType m" and ?W = "mosaicTotalWidth m" and ?H = "mosaicTotalHeight m"
      obtain x y where xy: "asym_GetLeft ?t ?W pos = Ok x" "asym_GetTop ?t ?H pos = Ok y"
        and a: "r_width a = asym_GetWidth ?t ?W pos" "r_height a = asym_GetHeight ?t ?H pos"
        using assms(3) AsymmetricMosaic by (auto simp: slot_rect_def Let_def)
      have p: "slot_planes pos m = asym_planes x y m" using AsymmetricMosaic xy by (simp add: slot_planes_def)
      have "m' = m \<or> (\<exists>m1. draw sw pos img w h keep (r_width a) (r_height a) (asym_planes x y m) m = Ok m1 \<and> m' = SetChanged m1)"
        using assms(1) False True AsymmetricMosaic xy
        by (auto simp: mosaic_Update_def asym_Update_def Let_def a split: if_splits)
      then show ?thesis using draw_changes [OF _ assms(2) True assms(4)] p assms(2) by auto
    qed
  qed (use assms(6) in simp)
qed


section \<open>Pixels\<close>

definition luma :: "mosaic \<Rightarrow> nat \<Rightarrow> nat \<Rightarrow> BYTE" where
  "luma m x y = picture m ! (mosaicTotalWidth m * y + x)"

text \<open>A sample of chrominance stands for two by two pixels; \<open>False\<close> is the first plane.\<close>

definition chroma :: "bool \<Rightarrow> mosaic \<Rightarrow> nat \<Rightarrow> nat \<Rightarrow> BYTE" where
  "chroma c m x y =
     (let W = mosaicTotalWidth m; N = W * mosaicTotalHeight m in
      picture m ! (N + (if c then N div 4 else 0) + W div 2 * y + x))"

definition half_rect :: "rect \<Rightarrow> rect" where
  "half_rect a = \<lparr>r_left = r_left a div 2, r_top = r_top a div 2, r_width = r_width a div 2, r_height = r_height a div 2\<rparr>"

lemma same_line:
  fixes s :: nat
  assumes "s * a + u = s * b + v" "u < s" "v < s"
  shows "a = b \<and> u = v"
proof -
  have "(s * a + u) div s = a" "(s * b + v) div s = b" using assms(2,3) by simp_all
  with assms(1) show ?thesis by auto
qed

lemma box_pixel:
  assumes "base + s * y + x \<in> box (base + s * t + l) s w h" "x < s" "l + w \<le> s"
  shows "t \<le> y \<and> y < t + h \<and> l \<le> x \<and> x < l + w"
proof -
  obtain i where i: "i < h" "s * (t + i) + l \<le> s * y + x" "s * y + x < s * (t + i) + l + w"
    using assms(1) by (auto simp: box_def add_mult_distrib2)
  define u where "u = s * y + x - s * (t + i)"
  have u: "s * (t + i) + u = s * y + x" "l \<le> u" "u < l + w" using i(2,3) by (auto simp: u_def)
  then have "t + i = y \<and> u = x" using same_line [OF u(1)] assms(2,3) by simp
  then show ?thesis using i(1) u by auto
qed

lemma box_below:
  assumes "k \<in> box (base + s * t + l) s w h" "l + w \<le> s"
  shows "base \<le> k \<and> k < base + s * (t + h)"
proof -
  obtain i where i: "i < h" "base + s * t + l + s * i \<le> k" "k < base + s * t + l + s * i + w"
    using assms(1) by (auto simp: box_def)
  have "s * (t + i) + s \<le> s * (t + h)" using i(1) by (metis add.commute add_Suc_right less_eq_Suc_le mult_Suc_right mult_le_mono2 nat_add_left_cancel_le)
  then show ?thesis using i assms(2) by (simp add: add_mult_distrib2)
qed

lemma halves: "mw * j + mw \<le> W \<Longrightarrow> mw div 2 * j + mw div 2 \<le> W div (2 :: nat)"
proof -
  assume a: "mw * j + mw \<le> W"
  have "2 * (mw div 2 * j + mw div 2) = 2 * (mw div 2) * (j + 1)" by (simp add: algebra_simps)
  also have "\<dots> \<le> mw * (j + 1)" by (intro mult_le_mono1) simp
  also have "\<dots> \<le> W" using a by simp
  finally have "2 * (mw div 2 * j + mw div 2) div 2 \<le> W div 2" by (rule div_le_mono)
  then show "mw div 2 * j + mw div 2 \<le> W div 2" by simp
qed

lemma slot_planes_at:
  assumes "slot_rect (mosaicType m) (mosaicTotalWidth m) (mosaicTotalHeight m) pos = Ok a"
    and "CreateMosaic_class (mosaicType m) \<noteq> PIPMosaic" "4 dvd mosaicTotalWidth m" "pos < GetNumSlotsForType (mosaicType m)"
    and "r_left a + r_width a \<le> mosaicTotalWidth m"
  shows "\<exists>l2. slot_planes pos m =
      planes_at m (mosaicTotalWidth m * r_top a + r_left a) (mosaicTotalWidth m div 4 * r_top a + l2) \<and>
    l2 + r_width a div 2 \<le> mosaicTotalWidth m div 2 \<and>
    (even (r_left a) \<and> even (r_width a) \<longrightarrow> l2 = r_left a div 2)"
proof (cases "CreateMosaic_class (mosaicType m)")
  case PartedMosaic
  let ?W = "mosaicTotalWidth m"
  obtain c r where g: "grid_of (mosaicType m) = (c, r)" by fastforce
  define i j mh mw where "i = pos div c" and "j = pos - pos div c * c" and "mh = mosaicTotalHeight m div r" and "mw = ?W div c"
  have a: "r_left a = mw * j" "r_top a = mh * i" "r_width a = mw"
    using assms(1,4) PartedMosaic g grid_of_parted [OF PartedMosaic]
    by (auto simp: slot_rect_def parted_GetLeft_def parted_GetTop_def parted_GetWidth_def i_def j_def mh_def mw_def Let_def)
  have p: "slot_planes pos m = planes_at m (?W * mh * i + mw * j) (?W * mh div 4 * i + mw div 2 * j)"
    using PartedMosaic g by (simp add: slot_planes_def parted_planes_def Let_def i_def j_def mh_def mw_def)
  have "?W * mh div 4 = ?W div 4 * mh" using assms(3) by auto
  with p have "slot_planes pos m = planes_at m (?W * r_top a + r_left a) (?W div 4 * r_top a + mw div 2 * j)"
    by (simp add: a mult.assoc)
  moreover have "mw div 2 * j + r_width a div 2 \<le> ?W div 2" using halves [of mw j ?W] assms(5) unfolding a by simp
  moreover have "mw div 2 * j = r_left a div 2" if "even (r_width a)" using that unfolding a by (auto elim: evenE)
  ultimately show ?thesis by blast
next
  case AsymmetricMosaic
  let ?W = "mosaicTotalWidth m"
  have p: "slot_planes pos m = planes_at m (?W * r_top a + r_left a) (?W * r_top a div 4 + r_left a div 2)"
    using assms(1) AsymmetricMosaic by (auto simp: slot_planes_def slot_rect_def asym_planes_def Let_def)
  have "?W * r_top a div 4 = ?W div 4 * r_top a" using assms(3) by auto
  moreover have "r_left a div 2 + r_width a div 2 \<le> ?W div 2" using assms(5) by linarith
  ultimately show ?thesis using p by auto
qed (use assms(2) in simp)

lemma even_top: "4 dvd W \<Longrightarrow> even t \<Longrightarrow> W div 4 * t = W div 2 * (t div (2 :: nat))"
  by (auto elim!: dvdE)

text \<open>The boxes of the three planes of a slot, and the pixels in them.\<close>

lemma places_luma:
  assumes "W * y + x \<in> places W w h (planes_at m (W * t + l) o2)" "W = mosaicTotalWidth m" "x < W" "y < mosaicTotalHeight m"
    and "l + w \<le> W"
  shows "t \<le> y \<and> y < t + h \<and> l \<le> x \<and> x < l + w"
proof -
  have "W * y + x < W * Suc y" using assms(3) by simp
  also have "\<dots> \<le> W * mosaicTotalHeight m" using assms(4) by (intro mult_le_mono2) simp
  finally have "W * y + x < W * mosaicTotalHeight m" .
  then have "W * y + x \<notin> box (W * mosaicTotalHeight m + z) u v h'" for z u v h' by (auto simp: box_def)
  then have "W * y + x \<in> box (W * t + l) W w h"
    using assms(1,2) by (simp add: places_def planes_at_def Let_def add.assoc)
  then show ?thesis using box_pixel [of 0 W y x t l w h] assms(3,5) by simp
qed

lemma places_chroma:
  fixes m :: mosaic and c :: bool
  defines "W \<equiv> mosaicTotalWidth m" and "H \<equiv> mosaicTotalHeight m"
  defines "k \<equiv> \<lambda>x y. W * H + (if c then W * H div 4 else 0) + W div 2 * y + x"
  assumes "k x y \<in> places W w h (planes_at m (W * t + l) (W div 2 * (t div 2) + l div 2))"
    and "x < W div 2" "y < H div 2" "4 dvd W" "even H" "l + w \<le> W" "t + h \<le> H" "even l" "even t"
  shows "t div 2 \<le> y \<and> y < t div 2 + h div 2 \<and> l div 2 \<le> x \<and> x < l div 2 + w div 2"
proof -
  let ?s = "W div 2" and ?N = "W * H" and ?b = "W div 2 * (t div 2) + l div 2"
  have lw: "l div 2 + w div 2 \<le> ?s" using assms(9) by linarith
  have th: "t div 2 + h div 2 \<le> H div 2" using assms(10) by linarith
  obtain q r where qr: "W = 4 * q" "H = 2 * r" using assms(7,8) unfolding dvd_def by blast
  have quarter: "?s * (H div 2) = ?N div 4" by (simp add: qr)
  have up: "?s * (t div 2 + h div 2) \<le> ?N div 4" unfolding quarter [symmetric] using th by (rule mult_le_mono2)
  have k: "k x y < ?N + (if c then ?N div 4 else 0) + ?N div 4"
  proof -
    have "?s * y + x < ?s * Suc y" using assms(5) by simp
    also have "\<dots> \<le> ?s * (H div 2)" using assms(6) by (intro mult_le_mono2) simp
    finally show ?thesis unfolding quarter k_def by simp
  qed
  have Y: "k x y \<notin> box (W * t + l) W w h"
  proof
    assume "k x y \<in> box (W * t + l) W w h"
    then have "k x y < W * (t + h)" using box_below [of "k x y" 0 W t l w h] assms(9) by simp
    also have "\<dots> \<le> ?N" using assms(10) by (rule mult_le_mono2)
    finally show False by (simp add: k_def)
  qed
  have other: "k x y \<notin> box (?N + (if c then 0 else ?N div 4) + ?s * (t div 2) + l div 2) ?s (w div 2) (h div 2)"
  proof
    assume "k x y \<in> box (?N + (if c then 0 else ?N div 4) + ?s * (t div 2) + l div 2) ?s (w div 2) (h div 2)"
    from box_below [OF this lw] up k show False by (auto simp: k_def split: if_splits)
  qed
  have "k x y \<in> box (W * t + l) W w h \<union> box (?N + ?b) ?s (w div 2) (h div 2) \<union> box (?N + ?b + ?N div 4) ?s (w div 2) (h div 2)"
    using assms(4) by (simp add: places_def planes_at_def Let_def W_def H_def)
  with Y other have "k x y \<in> box (?N + (if c then ?N div 4 else 0) + ?s * (t div 2) + l div 2) ?s (w div 2) (h div 2)"
    by (cases c) (auto simp: ac_simps)
  then show ?thesis unfolding k_def using box_pixel assms(5) lw by blast
qed

section \<open>Lines that are drawn\<close>

lemma foldR_cong:
  assumes "\<And>x. x \<in> set xs \<Longrightarrow> f x = g x"
  shows "foldR f xs d = foldR g xs d"
  using assms
proof (induction xs arbitrary: d)
  case (Cons a xs)
  then have "foldR f xs = foldR g xs" by (intro ext) simp
  then show ?case using Cons.prems by simp
qed simp

lemma drawn_lines:
  assumes "\<And>i. i < h \<Longrightarrow> length (row i) = n" "\<And>i. i < h \<Longrightarrow> off + s * i + n \<le> length d" "n \<le> s"
  shows "\<exists>d'. foldR (\<lambda>i. copy_in (off + s * i) (row i)) [0..<h] d = Ok d' \<and> length d' = length d \<and>
    (\<forall>i < h. \<forall>x < n. d' ! (off + s * i + x) = row i ! x)"
  using assms(1,2)
proof (induction h)
  case (Suc h)
  then obtain d1 where d1: "foldR (\<lambda>i. copy_in (off + s * i) (row i)) [0..<h] d = Ok d1" "length d1 = length d"
    "\<And>i x. i < h \<Longrightarrow> x < n \<Longrightarrow> d1 ! (off + s * i + x) = row i ! x" by fastforce
  have b: "off + s * h + length (row h) \<le> length d1" "length (row h) = n" using Suc.prems(1,2) [of h] d1(2) by simp_all
  then obtain d2 where d2: "copy_in (off + s * h) (row h) d1 = Ok d2" by (simp add: copy_in_def)
  note nth = nth_copy_in [OF d2]
  have "d2 ! (off + s * i + x) = row i ! x" if "i < Suc h" "x < n" for i x
  proof (cases "i = h")
    case True
    then show ?thesis using nth(2) [of "off + s * h + x"] b that(2) by simp
  next
    case False
    then have "s * i + s \<le> s * h" using that(1) by (metis Suc_leI less_Suc_eq mult_Suc_right mult_le_mono2 add.commute)
    then have "off + s * i + x < off + s * h" using that(2) assms(3) by simp
    then show ?thesis using nth(2) [of "off + s * i + x"] b(1) d1(3) that False by simp
  qed
  then show ?case using d1(1,2) d2 nth(1) by (simp add: foldR_append)
qed simp

lemma move_copy_in: "from + n \<le> length img \<Longrightarrow> move to from n img = copy_in to (take n (drop from img))"
  by (auto simp: move_def copy_out_def)


lemma move_total:
  "from + n \<le> length img \<Longrightarrow> to + n \<le> length d \<Longrightarrow> \<exists>d'. move to from n img d = Ok d' \<and> length d' = length d"
  by (auto simp: move_def copy_out_def copy_in_def)

text \<open>An image of the size of the slot.\<close>

lemma chroma_bound:
  fixes W :: nat
  assumes "4 dvd W" "i < h div 2" "l2 + w div 2 \<le> W div 2" "t + h \<le> H"
  shows "W div 4 * t + l2 + W div 2 * i + w div 2 \<le> W * H div 4"
proof -
  obtain q where q: "W = 4 * q" using assms(1) by (auto elim: dvdE)
  have "2 * i + 2 \<le> h" using assms(2) by linarith
  then have "t + 2 * i + 2 \<le> H" using assms(4) by linarith
  then have "q * (t + 2 * i + 2) \<le> q * H" by (rule mult_le_mono2)
  then show ?thesis using assms(3) by (simp add: q algebra_simps)
qed

lemma copy_lines_total:
  assumes p: "p = planes_at m (W * t + l) (W div 4 * t + l2)" "W = mosaicTotalWidth m" "H = mosaicTotalHeight m"
    and fit: "4 dvd W" "l + w \<le> W" "t + h \<le> H" "l2 + w div 2 \<le> W div 2"
    and len: "W * H + 2 * (W * H div 4) \<le> length d" "w * h + 2 * (w * h div 4) \<le> length img"
  shows "\<exists>d'. copy_lines W w h img p d = Ok d' \<and> (\<forall>i < h. \<forall>x < w. d' ! (W * (t + i) + l + x) = img ! (w * i + x))"
proof -
  let ?N = "W * H" and ?u = "h * w" and ?v = "h * w + h * w div 4"
  have lines: "W * t + l + W * i + w \<le> ?N" if "i < h" for i
  proof -
    have "W * (t + i) + W \<le> W * (t + h)" using that by (metis add.commute add_mult_distrib2 mult.right_neutral mult_le_mono2 Suc_leI add_Suc_right mult_Suc_right nat_add_left_cancel_le)
    also have "\<dots> \<le> ?N" using fit(3) by (rule mult_le_mono2)
    finally show ?thesis using fit(2) by (simp add: add_mult_distrib2)
  qed
  have src: "w * i + w \<le> length img" if "i < h" for i
  proof -
    have "w * i + w \<le> w * h" using that by (metis Suc_leI add.commute mult_Suc_right mult_le_mono2)
    then show ?thesis using len(2) by simp
  qed
  obtain d1 where d1: "foldR (\<lambda>i. copy_in (W * t + l + W * i) (take w (drop (w * i) img))) [0..<h] d = Ok d1" "length d1 = length d"
    "\<And>i x. i < h \<Longrightarrow> x < w \<Longrightarrow> d1 ! (W * t + l + W * i + x) = take w (drop (w * i) img) ! x"
    using drawn_lines [of h "\<lambda>i. take w (drop (w * i) img)" w "W * t + l" W d] src lines fit(2) len(1) by fastforce
  have m1: "foldR (\<lambda>i. move (lineaY p + W * i) (w * i) w img) [0..<h] d = Ok d1"
    unfolding d1(1) [symmetric] by (rule foldR_cong) (simp add: move_copy_in src p(1) planes_at_def Let_def)
  let ?f = "\<lambda>i d. bindR (move (lineaU p + W div 2 * i) (?u + w div 2 * i) (w div 2) img d)
    (move (lineaV p + W div 2 * i) (?v + w div 2 * i) (w div 2) img)"
  have "\<exists>d2. foldR ?f [0..<h div 2] d1 = Ok d2 \<and> length d2 = length d"
  proof (rule foldR_total [where P = "\<lambda>e. length e = length d"])
    fix i and e :: "BYTE list" assume i: "i \<in> set [0..<h div 2]" and e: "length e = length d"
    have "W div 4 * t + l2 + W div 2 * i + w div 2 \<le> ?N div 4" using chroma_bound [OF fit(1) _ fit(4,3), of i] i by simp
    then have to: "lineaU p + W div 2 * i + w div 2 \<le> length d" "lineaV p + W div 2 * i + w div 2 \<le> length d"
      using len(1) by (simp_all add: p planes_at_def Let_def)
    have "w div 2 * i + w div 2 \<le> w div 2 * (h div 2)" using i by (metis Suc_leI add.commute atLeastLessThan_iff mult_Suc_right mult_le_mono2 set_upt)
    also have "\<dots> \<le> h * w div 4"
    proof -
      have "4 * (w div 2 * (h div 2)) = (2 * (w div 2)) * (2 * (h div 2))" by simp
      also have "\<dots> \<le> w * h" by (intro mult_le_mono) simp_all
      finally show ?thesis by (simp add: mult.commute less_eq_div_iff_mult_less_eq)
    qed
    finally have src: "?u + w div 2 * i + w div 2 \<le> length img" "?v + w div 2 * i + w div 2 \<le> length img"
      using len(2) by (simp_all add: mult.commute)
    obtain e1 where e1: "move (lineaU p + W div 2 * i) (?u + w div 2 * i) (w div 2) img e = Ok e1" "length e1 = length d"
      using move_total [OF src(1), of "lineaU p + W div 2 * i" e] to(1) e by auto
    obtain e2 where e2: "move (lineaV p + W div 2 * i) (?v + w div 2 * i) (w div 2) img e1 = Ok e2" "length e2 = length d"
      using move_total [OF src(2), of "lineaV p + W div 2 * i" e1] to(2) e1(2) by auto
    show "\<exists>e'. ?f i e = Ok e' \<and> length e' = length d" using e1 e2 by simp
  qed (rule d1(2))
  then obtain d2 where d2: "foldR ?f [0..<h div 2] d1 = Ok d2" "length d2 = length d" by blast
  have "only_changes {?N..} d1 d2"
    by (rule foldR_changes [OF d2(1)], erule two_lines_changes)
      (erule move_changes, use p in \<open>auto simp: planes_at_def Let_def\<close>)+
  then have same: "d2 ! k = d1 ! k" if "k < ?N" for k
    using that len(1) d1(2) by (simp add: only_changes_def)
  have "d2 ! (W * (t + i) + l + x) = img ! (w * i + x)" if "i < h" "x < w" for i x
  proof -
    have k: "W * (t + i) + l + x = W * t + l + W * i + x" by (simp add: add_mult_distrib2)
    have "W * t + l + W * i + x < ?N" using lines [OF that(1)] that(2) by simp
    from same [OF this] d1(3) [OF that] show ?thesis unfolding k using src [OF that(1)] that(2) by simp
  qed
  then show ?thesis using m1 d2 by (auto simp: copy_lines_def Let_def)
qed

text \<open>Two lines at a time, of the two planes of chrominance.\<close>

lemma drawn_pairs:
  assumes "foldR (\<lambda>i d. bindR (copy_in (u + s * i) (f i) d) (copy_in (v + s * i) (g i))) [0..<h] d = Ok d'" "n \<le> s"
    and "\<And>i. i < h \<Longrightarrow> length (f i) = n \<and> length (g i) = n \<and> u + s * i + n \<le> v \<and> v + s * i + n \<le> length d"
  shows "length d' = length d \<and> (\<forall>i < h. \<forall>x < n. d' ! (u + s * i + x) = f i ! x \<and> d' ! (v + s * i + x) = g i ! x)"
  using assms(1,3)
proof (induction h arbitrary: d')
  case (Suc h)
  obtain d1 d2 where d1: "foldR (\<lambda>i d. bindR (copy_in (u + s * i) (f i) d) (copy_in (v + s * i) (g i))) [0..<h] d = Ok d1"
    and d2: "copy_in (u + s * h) (f h) d1 = Ok d2" and d': "copy_in (v + s * h) (g h) d2 = Ok d'"
    using Suc.prems(1) by (auto simp: foldR_append)
  have IH: "length d1 = length d" "\<And>i x. i < h \<Longrightarrow> x < n \<Longrightarrow> d1 ! (u + s * i + x) = f i ! x \<and> d1 ! (v + s * i + x) = g i ! x"
    using Suc.IH [OF d1] Suc.prems(2) by auto
  have b: "length (f h) = n" "length (g h) = n" "u + s * h + n \<le> v" "v + s * h + n \<le> length d" using Suc.prems(2) by simp_all
  note n1 = nth_copy_in [OF d2] and n2 = nth_copy_in [OF d']
  have "d' ! (u + s * i + x) = f i ! x \<and> d' ! (v + s * i + x) = g i ! x" if "i < Suc h" "x < n" for i x
  proof (cases "i = h")
    case True
    then show ?thesis using n2(2) [of "u + s * h + x"] n1(2) [of "u + s * h + x"] n2(2) [of "v + s * h + x"] n1(1) IH(1) b that(2)
      by simp
  next
    case False
    then have "i < h" using that(1) by simp
    then have "s * i + s \<le> s * h" by (metis Suc_leI mult_Suc_right mult_le_mono2 add.commute)
    then have lt: "u + s * i + x < u + s * h" "v + s * i + x < v + s * h" using that(2) assms(2) by simp_all
    have "d2 ! (u + s * i + x) = f i ! x" "d2 ! (v + s * i + x) = g i ! x"
      using n1(2) [of "u + s * i + x"] n1(2) [of "v + s * i + x"] lt IH(1) IH(2) [OF \<open>i < h\<close> that(2)] b by auto
    then show ?thesis using n2(2) [of "u + s * i + x"] n2(2) [of "v + s * i + x"] n1(1) IH(1) lt b by simp
  qed
  then show ?case using n1(1) n2(1) IH(1) by simp
qed simp

lemma copy_lines_chroma:
  assumes "copy_lines W w h img p d = Ok d'"
    and p: "p = planes_at m (W * t + l) (W div 4 * t + l2)" "W = mosaicTotalWidth m" "H = mosaicTotalHeight m"
    and fit: "4 dvd W" "t + h \<le> H" "l2 + w div 2 \<le> W div 2"
    and len: "W * H + 2 * (W * H div 4) \<le> length d" "w * h + 2 * (w * h div 4) \<le> length img"
    and ix: "i < h div 2" "x < w div 2"
  shows "d' ! (W * H + (if c then W * H div 4 else 0) + (W div 4 * t + l2) + W div 2 * i + x) =
    img ! (w * h + (if c then w * h div 4 else 0) + w div 2 * i + x)"
proof -
  let ?N = "W * H" and ?u = "h * w" and ?v = "h * w + h * w div 4" and ?o = "W div 4 * t + l2"
  let ?row = "\<lambda>o' i. take (w div 2) (drop (o' + w div 2 * i) img)"
  obtain d1 where d1: "foldR (\<lambda>i. move (lineaY p + W * i) (w * i) w img) [0..<h] d = Ok d1"
    and d2: "foldR (\<lambda>i d. bindR (move (lineaU p + W div 2 * i) (?u + w div 2 * i) (w div 2) img d)
      (move (lineaV p + W div 2 * i) (?v + w div 2 * i) (w div 2) img)) [0..<h div 2] d1 = Ok d'"
    using assms(1) by (auto simp: copy_lines_def Let_def)
  have l1: "length d1 = length d"
    by (rule foldR_invariant [OF d1, of "\<lambda>e. length e = length d"])
      (auto dest!: move_changes [where S = UNIV] simp: only_changes_def)
  have src: "?u + w div 2 * i + w div 2 \<le> length img" "?v + w div 2 * i + w div 2 \<le> length img" if "i < h div 2" for i
  proof -
    have "w div 2 * i + w div 2 \<le> w div 2 * (h div 2)" using that by (metis Suc_leI add.commute mult_Suc_right mult_le_mono2)
    also have "\<dots> \<le> h * w div 4"
    proof -
      have "4 * (w div 2 * (h div 2)) = (2 * (w div 2)) * (2 * (h div 2))" by simp
      also have "\<dots> \<le> w * h" by (intro mult_le_mono) simp_all
      finally show ?thesis by (simp add: mult.commute less_eq_div_iff_mult_less_eq)
    qed
    finally show "?u + w div 2 * i + w div 2 \<le> length img" "?v + w div 2 * i + w div 2 \<le> length img"
      using len(2) by (simp_all add: mult.commute)
  qed
  have uv: "lineaU p = ?N + ?o" "lineaV p = ?N + ?o + ?N div 4" by (simp_all add: p planes_at_def Let_def)
  have "foldR (\<lambda>i d. bindR (copy_in (?N + ?o + W div 2 * i) (?row ?u i) d) (copy_in (?N + ?o + ?N div 4 + W div 2 * i) (?row ?v i)))
      [0..<h div 2] d1 = Ok d'"
    unfolding d2 [symmetric]
    by (rule foldR_cong) (simp add: move_copy_in src uv)
  moreover have "?o + W div 2 * i + w div 2 \<le> ?N div 4" if "i < h div 2" for i
    using chroma_bound [OF fit(1) that fit(3,2)] .
  then have "length (?row ?u i) = w div 2 \<and> length (?row ?v i) = w div 2 \<and> ?N + ?o + W div 2 * i + w div 2 \<le> ?N + ?o + ?N div 4 \<and>
      ?N + ?o + ?N div 4 + W div 2 * i + w div 2 \<le> length d1" if "i < h div 2" for i
    using src [OF that] that len(1) l1 by fastforce
  moreover have "w div 2 \<le> W div 2" using fit(3) by simp
  ultimately have "d' ! (?N + ?o + W div 2 * i + x) = ?row ?u i ! x \<and> d' ! (?N + ?o + ?N div 4 + W div 2 * i + x) = ?row ?v i ! x"
    using drawn_pairs [of "?N + ?o" "W div 2" "?row ?u" "?N + ?o + ?N div 4" "?row ?v" "h div 2" d1 d' "w div 2"] ix by blast
  then show ?thesis using src [OF ix(1)] ix(2) by (cases c) (simp_all add: ac_simps)
qed

section \<open>Drawing follows no pointer to a deleted mosaic\<close>

definition stays_live :: "'a res \<Rightarrow> bool" where
  "stays_live r \<longleftrightarrow> r \<noteq> Fault UseAfterFree"

lemma stays_live_simps [simp]: "stays_live (Ok x)" "stays_live (Fault e) \<longleftrightarrow> e \<noteq> UseAfterFree"
  by (simp_all add: stays_live_def)

named_theorems live_intros

lemma live_bind [live_intros]: "stays_live r \<Longrightarrow> (\<And>x. stays_live (f x)) \<Longrightarrow> stays_live (bindR r f)"
  by (cases r) simp_all

lemma live_foldR [live_intros]: "(\<And>x s. stays_live (f x s)) \<Longrightarrow> stays_live (foldR f xs s)"
  by (induction xs arbitrary: s) (simp_all add: live_bind)

lemma live_pair [live_intros]: "(\<And>x y. stays_live (f x y)) \<Longrightarrow> stays_live (case p of (x, y) \<Rightarrow> f x y)"
  by (cases p) simp

lemma live_if [live_intros]: "stays_live r \<Longrightarrow> stays_live s \<Longrightarrow> stays_live (if c then r else s)"
  by simp

lemma live_option [live_intros]: "stays_live r \<Longrightarrow> (\<And>x. stays_live (f x)) \<Longrightarrow> stays_live (case z of None \<Rightarrow> r | Some x \<Rightarrow> f x)"
  by (cases z) simp_all

lemma live_copy [live_intros]: "stays_live (copy_in i xs d)" "stays_live (copy_out i n d)"
  by (simp_all add: copy_in_def copy_out_def)

lemma live_lines [live_intros]:
  "stays_live (move to from n img d)" "stays_live (fill i n v d)" "stays_live (put_line width w x black line off d)"
  unfolding move_def fill_def put_line_def by (intro live_intros | simp)+

lemma live_integer: "stays_live (fp_to_integer w z)"
  by (cases z) (simp_all add: Let_def)

lemma live_scaler [live_intros]:
  "stays_live (adjusted sw sh dw dh keep)" "stays_live (SetResize c sw sh sl dw dh dl keep s)" "stays_live (Resize c y u v dy du dv s d)"
  unfolding adjusted_def SetResize_def Resize_def Let_def
  by (intro live_intros live_integer | simp)+

lemma live_image [live_intros]: "stays_live (image_bytes img)"
  by (simp add: image_bytes_def split: option.split)

lemma live_grid [live_intros]: "stays_live (PartedMosaic_grid t)" "stays_live (asym_GetLeft t W pos)" "stays_live (asym_GetTop t H pos)"
  by (cases t; simp)
    (simp_all add: asym_GetLeft_def asym_GetTop_def Let_def split: prod.split)

lemma live_planes [live_intros]:
  "stays_live (with_picture (clean_lines W width height p) m)" "stays_live (with_picture (copy_lines W w h bs p) m)"
  "stays_live (with_picture (pip_background m' bs) m)"
  unfolding with_picture_def clean_lines_def copy_lines_def pip_background_def copy_segment_def Let_def
  by (intro live_intros | simp)+

lemma live_draw [live_intros]:
  "stays_live (scale_into c pos w h img width height keep p m d)" "stays_live (draw c pos img w h keep width height p m)"
  unfolding scale_into_def draw_def Let_def by (intro live_intros | simp)+

lemma live_Clean [live_intros]: "stays_live (parted_Clean pos m)" "stays_live (asym_Clean pos m)"
  unfolding parted_Clean_def asym_Clean_def Let_def by (intro live_intros | simp)+

lemma live_Update [live_intros]: "stays_live (mosaic_Update c pos img w h keep m)"
proof -
  have "stays_live (parted_Update c pos img w h keep m)" "stays_live (asym_Update c pos img w h keep m)"
    "stays_live (pip_Update c pos img w h keep m)"
    unfolding parted_Update_def asym_Update_def pip_Update_def Let_def by (intro live_intros | simp)+
  then show ?thesis by (simp add: mosaic_Update_def split: mosaic_class.split)
qed

lemma live_Clean_logo [live_intros]: "stays_live (mosaic_Clean_logo c pos logo m)"
proof -
  have "stays_live (mosaic_Clean pos m)"
    unfolding mosaic_Clean_def by (cases "CreateMosaic_class (mosaicType m)") (simp_all add: live_intros)
  then show ?thesis unfolding mosaic_Clean_logo_def by (intro live_intros | simp)+
qed

end
