(* ===== verification/VideoMixerProperties.thy ===== *)
theory VideoMixerProperties
  imports VideoMixerReach MosaicDrawing
begin

text \<open>
  The properties of the video mixer: what its mosaics show, whom the slot of the active speaker shows, that drawing
  into a slot stays in the slot, and that no deleted mosaic is used.
\<close>

section \<open>Pictures of a mosaic\<close>

definition picture_ok :: "mosaic \<Rightarrow> bool" where
  "picture_ok m \<longleftrightarrow>
     (let W = mosaicTotalWidth m; H = mosaicTotalHeight m in
      numSlots m = GetNumSlotsForType (mosaicType m) \<and> scalers_ok m \<and> 4 dvd W \<and> even H \<and>
      W * H + 2 * (W * H div 4) \<le> length (picture m))"


lemma sizes_even: "4 dvd GetWidth_size sz \<and> even (GetHeight_size sz)"
proof (cases "0 \<le> sz \<and> sz < 23")
  case True
  have "list_all (\<lambda>n. 4 dvd [176, 352, 640, 768, 480, 320, 1280, 400, 768, 576, 512, 1024, 704, 704, 1024, 800, 528, 352, 176, 480,
            128, 256, 1920 :: nat] ! n) [0..<23]"
    "list_all (\<lambda>n. even ([144, 288, 480, 576, 320, 240, 720, 240, 448, 448, 288, 576, 576, 480, 768, 480, 384, 240, 120, 360,
            96, 192, 1080 :: nat] ! n)) [0..<23]"
    by (simp_all add: upt_rec)
  moreover have "nat sz \<in> set [0..<23]" using True by auto
  ultimately show ?thesis using True unfolding list_all_iff GetWidth_size_def GetHeight_size_def by auto
qed (auto simp: GetWidth_size_def GetHeight_size_def)

text \<open>A mosaic starts like this, whatever the composition and the size.\<close>

lemma picture_ok_new: "picture_ok (Mosaic_new padding t sz)"
  using sizes_even [of sz] scalers_new [of padding t sz]
  by (simp add: picture_ok_def Mosaic_new_def Let_def numSlots_def)









text \<open>A picture of eight by two pixels with two slots, and an image of four by two.\<close>

definition example_mosaic :: mosaic where
  "example_mosaic = (Mosaic_new 0 mosaic1p1A 99)\<lparr>mosaicTotalWidth := 8, mosaicTotalHeight := 2,
     picture := [7,7,7,7,7,7,7,7, 7,7,7,7,7,7,7,7, 1,1,1,1, 2,2,2,2]\<rparr>"

definition example_image :: "BYTE list" where
  "example_image = [10,11,12,13, 20,21,22,23, 3,4, 5,6]"

lemma example_mosaic_simps [simp]:
  "mosaicTotalWidth example_mosaic = 8" "mosaicTotalHeight example_mosaic = 2" "mosaicType example_mosaic = mosaic1p1A"
  "numSlots example_mosaic = 2" "length example_image = 12"
  by (simp_all add: example_mosaic_def Mosaic_new_def Let_def numSlots_def example_image_def)








text \<open>In a picture of 352 by 288 with five rows a slot has 57 lines, and the chrominance of the second row of slots
starts in the middle of a line.\<close>

lemma new_size [simp]:
  "mosaicTotalWidth (Mosaic_new padding t sz) = GetWidth_size sz" "mosaicTotalHeight (Mosaic_new padding t sz) = GetHeight_size sz"
  "mosaicType (Mosaic_new padding t sz) = t"
  by (simp_all add: Mosaic_new_def Let_def)

lemma chrominance_of_odd_slots_is_shifted:
  "lineaU (parted_planes 5 5 5 (Mosaic_new padding mosaic5x5 1)) = 352 * 288 + 352 div 2 * 28 + 88"
  by (simp add: parted_planes_def planes_at_def GetWidth_size_def GetHeight_size_def Let_def)

section \<open>What the slots show\<close>

text \<open>The participants that may fill a free slot: set in no slot, and not the active speaker when its own slot shows it
and it is to be hidden elsewhere.\<close>

definition waiting :: "mosaic \<Rightarrow> int list" where
  "waiting m = filter (\<lambda>p. p \<notin> set (mosaicSlots m) \<and> \<not> (p = vadParticipant m \<and> hideVadParticipant m \<and> IsVADShown m)) (order m)"

lemma candidates_waiting:
  assumes "mosaic_ok m"
  shows "candidates m = waiting m"
  unfolding candidates_def waiting_def
proof (rule filter_cong [OF refl])
  fix p assume "p \<in> set (order m)"
  then obtain info where "map_find (participants m) p = Some info"
    using mosaic_okD(4) [OF assms] member_info by blast
  with mosaic_okD(7) [OF assms this]
  show "(\<not> skipped m p) = (p \<notin> set (mosaicSlots m) \<and> \<not> (p = vadParticipant m \<and> hideVadParticipant m \<and> IsVADShown m))"
    by (auto simp: skipped_def)
qed

text \<open>C25: In every state the mixer can be in, each mosaic shows what its slots call for: a locked slot shows nobody, the
slot of the active speaker the active speaker, a slot set to a participant that participant, who is in the mosaic;
and the free slots show, from the first on, the waiting participants in the order of their scores, highest first,
until there are no more.  Everybody in the mosaic is in that order.  (Identifiers of participants are positive and the
clock goes forward: no two of its readings for two mosaics or two rounds are the same.)\<close>

theorem positions_follow_the_slots:
  assumes "vm_reach clock v" "map_find (vm_mosaics v) i = Some p" "vm_heap v p = Some m"
  shows "(\<forall>k < numSlots m. mosaicSlots m ! k \<noteq> SlotFree \<longrightarrow> mosaicPos m ! k =
      (if mosaicSlots m ! k = SlotLocked then 0
       else if mosaicSlots m ! k = SlotVAD then vadParticipant m else mosaicSlots m ! k)) \<and>
    set (mosaicSlots m) \<subseteq> {SlotFree, SlotLocked, SlotVAD} \<union> members m \<and>
    (let n = length (filter (\<lambda>s. s = SlotFree) (mosaicSlots m)) in
      free_positions m = take n (waiting m) @ replicate (n - length (waiting m)) 0) \<and>
    sorted_wrt (\<lambda>q r. score_of (participants m) q > score_of (participants m) r) (order m) \<and>
    set (order m) = members m"
proof -
  have g: "good (vm_ini v) clock m" by (rule reach_mosaic [OF assms])
  then have ok: "mosaic_ok m" and st: "mosaic_settled m" and cur: "mosaicPos m = shown m (mosaicSlots m) (waiting m)"
    and full: "mosaic_complete m"
    by (auto simp: good_def sound_def positions_current_def candidates_waiting)
  have pos: "\<forall>q \<in> members m. 0 < q" using mosaic_okD(2) [OF ok] by blast
  have free: "free_like m s \<longleftrightarrow> s = SlotFree" if "s \<in> set (mosaicSlots m)" for s
    by (rule free_like_settled [OF st that pos])
  have "mosaicPos m ! k = (if mosaicSlots m ! k = SlotLocked then 0
       else if mosaicSlots m ! k = SlotVAD then vadParticipant m else mosaicSlots m ! k)"
    if "k < numSlots m" "mosaicSlots m ! k \<noteq> SlotFree" for k
    using nth_shown [of k "mosaicSlots m" m "waiting m"] that free [of "mosaicSlots m ! k"] unfolding cur numSlots_def by simp
  moreover have "free_positions m = take n (waiting m) @ replicate (n - length (waiting m)) 0"
    if n: "n = length (filter (\<lambda>s. s = SlotFree) (mosaicSlots m))" for n
  proof -
    have "filter (\<lambda>(s, q). s = SlotFree) (zip (mosaicSlots m) (mosaicPos m)) =
        filter (\<lambda>(s, q). free_like m s) (zip (mosaicSlots m) (mosaicPos m))"
      by (rule filter_cong [OF refl]) (auto simp: free dest: set_zip_leftD)
    moreover have "filter (\<lambda>s. s = SlotFree) (mosaicSlots m) = filter (free_like m) (mosaicSlots m)"
      by (rule filter_cong [OF refl]) (simp add: free)
    ultimately show ?thesis
      unfolding free_positions_def n by (simp add: zip_shown_free cur)
  qed
  ultimately show ?thesis
    using st full mosaic_okD(3) [OF ok] by (simp add: mosaic_settled_def mosaic_complete_def rank.ranked_def)
qed


text \<open>A mixer whose mosaic has the participant 7, set in the second of four slots.\<close>

definition example_start :: mosaic where
  "example_start = CalculatePositions (Mosaic_new 0 mosaic2x2 99)"

definition example_added :: mosaic where
  "example_added = CalculatePositions (snd (Mosaic_AddParticipant 7 (2 ^ 31 - of_int 7) example_start))"

definition example_set :: mosaic where
  "example_set = CalculatePositions (snd (Mosaic_SetSlot 1 7 (leave_slot 7 example_added)))"

lemma new_fields:
  "participants (Mosaic_new padding t sz) = []" "order (Mosaic_new padding t sz) = []"
  "mosaicSlots (Mosaic_new padding t sz) = replicate (GetNumSlotsForType t) 0" "vadParticipant (Mosaic_new padding t sz) = 0"
  by (simp_all add: Mosaic_new_def Let_def)

lemmas settling = CalculatePositions_shown settled_def free_like_def slot_values

lemma example_start: "participants example_start = []" "mosaicSlots example_start = [0,0,0,0]"
  "vadParticipant example_start = 0" "order example_start = []"
  by (simp_all add: example_start_def settling new_fields numeral_eq_Suc)

lemma example_added: "participants example_added = [(7, \<lparr>score = 2 ^ 31 - 7, isFixed = 0\<rparr>)]" "mosaicSlots example_added = [0,0,0,0]"
  by (simp_all add: example_added_def Mosaic_AddParticipant_def example_start settling)

lemma example_set: "mosaicSlots example_set = [0,7,0,0]"
  by (simp add: example_set_def Mosaic_SetSlot_def leave_slot_def GetParticipantSlot_def PositionNotShown_def PositionNotFound_def
     example_added settling numSlots_def fix_new_def unfix_old_def forget_vad_def
     add_fixed_def map_adjust_def map_find_def Let_def)

definition example_mixer :: "mosaic \<Rightarrow> video_mixer" where
  "example_mixer m = VideoMixer_new\<lparr>vm_next := 1, vm_heap := (\<lambda>_. None)(0 \<mapsto> m), vm_mosaics := [(0, 0)],
     vm_maxMosaics := 1, vm_defaultMosaic := Some 0, vm_mixingVideo := True, vm_ini := 2 ^ 31\<rparr>"

lemma example_added_reach: "vm_reach (2 ^ 31) (example_mixer example_added)"
proof -
  have "vm_Init Harmless 0 1 99 (2 ^ 31) VideoMixer_new = Ok (example_mixer example_start)"
    by (simp add: vm_Init_def vm_CreateMosaic_def SetCompositionType_def CreateMosaic_def mosaic_type_of_def mosaic_types_def
        VideoMixer_new_def example_mixer_def example_start_def Let_def map_find_def)
  then have "vm_reach (2 ^ 31) (example_mixer example_start)" by (rule vm_reach.Init) simp
  moreover have "AddMosaicParticipant 0 7 (example_mixer example_start) = Ok (True, example_mixer example_added)"
    by (simp add: AddMosaicParticipant_def on_mosaic_def load_mosaic_def store_mosaic_def example_mixer_def VideoMixer_new_def
        example_added_def map_find_def)
  ultimately show ?thesis using vm_reach.add [of "2 ^ 31" _ 7 0] by simp
qed

lemma example_reach: "vm_reach (2 ^ 31) (example_mixer example_set)"
proof -
  have "vm_SetSlot 0 1 7 (example_mixer example_added) = Ok (True, example_mixer example_set)"
    by (simp add: vm_SetSlot_def on_mosaic_def load_mosaic_def store_mosaic_def example_mixer_def VideoMixer_new_def
        example_set_def map_find_def)
  with example_added_reach show ?thesis by (rule vm_reach.set_slot)
qed

theorem positions_follow_the_slots_witness:
  "vm_reach (2 ^ 31) (example_mixer example_set) \<and> mosaicPos example_set ! 1 = 7 \<and> set (order example_set) = members example_set"
proof -
  have "map_find (vm_mosaics (example_mixer example_set)) 0 = Some 0" "vm_heap (example_mixer example_set) 0 = Some example_set"
    by (simp_all add: example_mixer_def map_find_def)
  from positions_follow_the_slots [OF example_reach this] example_reach show ?thesis
    by (simp add: example_set numSlots_def slot_values Let_def)
qed


section \<open>The active speaker\<close>

text \<open>The participants of the mosaic that are in the mixer, in the order of their identifiers.\<close>

definition speakers :: "video_mixer \<Rightarrow> mosaic \<Rightarrow> int list" where
  "speakers v m = filter (\<lambda>i. i \<in> members m) (map fst (vm_videos v))"

text \<open>The first of the loudest.\<close>

definition loudest_in :: "(int \<Rightarrow> DWORD) \<Rightarrow> int list \<Rightarrow> int \<Rightarrow> bool" where
  "loudest_in level is c \<longleftrightarrow>
     (\<exists>before after. is = before @ c # after \<and> (\<forall>i \<in> set before. level i < level c) \<and> (\<forall>i \<in> set after. level i \<le> level c))"

lemma loudest_in_single [simp]: "loudest_in level [c] c"
  unfolding loudest_in_def by (rule exI [of _ "[]"]) simp

lemma loudest_in_snoc:
  assumes "loudest_in level is c" "level i \<le> level c"
  shows "loudest_in level (is @ [i]) c"
proof -
  obtain before after where b: "is = before @ c # after" "\<forall>i \<in> set before. level i < level c"
    "\<forall>i \<in> set after. level i \<le> level c"
    using assms(1) unfolding loudest_in_def by blast
  then show ?thesis
    using assms(2) unfolding loudest_in_def by (intro exI [of _ before] exI [of _ "after @ [i]"]) simp
qed

lemma loudest_in_louder:
  "loudest_in level is c \<Longrightarrow> level c < level i \<Longrightarrow> loudest_in level (is @ [i]) i"
  unfolding loudest_in_def by (rule exI [of _ "is"], rule exI [of _ "[]"]) force

lemma fold_louder:
  assumes "\<forall>i \<in> members m. 0 < i" "fold (louder level m) is (0, old) = (mx, c)"
  shows "mx = 0 \<and> c = old \<and> (\<forall>i \<in> set is \<inter> members m. level i = 0) \<and> (old \<noteq> 0 \<or> set is \<inter> members m = {}) \<or>
    mx = level c \<and> 0 < c \<and> loudest_in level (filter (\<lambda>i. i \<in> members m) is) c \<and> (old = 0 \<or> 0 < level c)"
  using assms(2)
proof (induction "is" arbitrary: mx c rule: rev_induct)
  case (snoc i "is")
  obtain mx0 c0 where s: "fold (louder level m) is (0, old) = (mx0, c0)" by fastforce
  note IH = snoc.IH [OF s]
  have step: "(mx, c) = louder level m i (mx0, c0)" using snoc.prems s by simp
  have has: "Mosaic_HasParticipant i m \<longleftrightarrow> i \<in> members m" by (simp add: Mosaic_HasParticipant_def find_member del: not_None_eq)
  show ?case
  proof (cases "i \<in> members m \<and> (level i > mx0 \<or> c0 = 0)")
    case True
    then have c: "mx = level i" "c = i" using step has by (simp_all add: louder_def)
    have "0 < i" using True assms(1) by blast
    moreover have "loudest_in level (filter (\<lambda>i. i \<in> members m) is @ [i]) i"
      using IH
    proof
      assume a: "mx0 = 0 \<and> c0 = old \<and> (\<forall>i \<in> set is \<inter> members m. level i = 0) \<and> (old \<noteq> 0 \<or> set is \<inter> members m = {})"
      then have "\<forall>j \<in> set (filter (\<lambda>i. i \<in> members m) is). level j < level i" using True by auto
      then show ?thesis unfolding loudest_in_def by (intro exI [of _ "filter (\<lambda>i. i \<in> members m) is"] exI [of _ "[]"]) simp
    next
      assume a: "mx0 = level c0 \<and> 0 < c0 \<and> loudest_in level (filter (\<lambda>i. i \<in> members m) is) c0 \<and> (old = 0 \<or> 0 < level c0)"
      then show ?thesis using True by (auto intro: loudest_in_louder)
    qed
    moreover have "old = 0 \<or> 0 < level i" using IH True by (auto simp: word_neq_0_conv intro: order.strict_trans)
    ultimately show ?thesis using c True by simp
  next
    case False
    then have c: "mx = mx0" "c = c0" using step has by (auto simp: louder_def split: if_splits)
    show ?thesis
      using IH False unfolding c by (cases "i \<in> members m") (auto simp: not_less intro: loudest_in_snoc)
  qed
qed (use assms in simp)

text \<open>C26: When the active speaker may change, the new one is the loudest participant of the mosaic, the first of them if
several are equally loud; the old one stays when nobody can be heard, and when there is none the first participant of
the mosaic becomes it.  When the speaker may not change the mosaic stays as it is.  (Identifiers of participants are
positive.)\<close>

theorem loudest_participant_is_the_speaker:
  assumes "vm_reach clock v" "map_find (vm_mosaics v) i = Some p" "vm_heap v p = Some m"
    and "m' = follow_speaker period level t1 t2 t3 v m"
  shows "if may_change_speaker t1 v m then
      (if \<forall>j \<in> set (speakers v m). level j = 0
       then vadParticipant m' = (if vadParticipant m \<noteq> 0 \<or> speakers v m = [] then vadParticipant m else hd (speakers v m))
       else loudest_in level (speakers v m) (vadParticipant m'))
    else m' = m"
proof -
  have ok: "mosaic_ok m" using reach_mosaic [OF assms(1-3)] by (simp add: good_def sound_def)
  then have pos: "\<forall>i \<in> members m. 0 < i" using mosaic_okD(2) by blast
  let ?is = "map fst (vm_videos v)" and ?old = "vadParticipant m"
  obtain mx c where f: "fold (louder level m) ?is (0, ?old) = (mx, c)" by fastforce
  then have c: "choose_speaker level v m = c" by (simp add: choose_speaker_def)
  have set: "set (speakers v m) = set ?is \<inter> members m" by (auto simp: speakers_def)
  have vad: "vadParticipant m' = c" if "may_change_speaker t1 v m"
  proof -
    have "vadParticipant (snd (SetScore j t m1)) = vadParticipant m1" for j t m1
      by (auto simp: SetScore_def Let_def split: option.split)
    then show ?thesis
      using that by (auto simp: assms(4) follow_speaker_def Let_def c CalculatePositions_shown SetVADParticipant_def)
  qed
  show ?thesis
  proof (cases "may_change_speaker t1 v m")
    case False
    then show ?thesis by (simp add: assms(4) follow_speaker_def Let_def)
  next
    case True
    from fold_louder [OF pos f]
    have "if \<forall>j \<in> set (speakers v m). level j = 0
       then c = (if ?old \<noteq> 0 \<or> speakers v m = [] then ?old else hd (speakers v m)) else loudest_in level (speakers v m) c"
    proof
      assume a: "mx = 0 \<and> c = ?old \<and> (\<forall>i \<in> set ?is \<inter> members m. level i = 0) \<and> (?old \<noteq> 0 \<or> set ?is \<inter> members m = {})"
      then have "?old \<noteq> 0 \<or> speakers v m = []" using set by auto
      with a set show ?thesis by simp
    next
      assume a: "mx = level c \<and> 0 < c \<and> loudest_in level (filter (\<lambda>i. i \<in> members m) ?is) c \<and> (?old = 0 \<or> 0 < level c)"
      then have l: "loudest_in level (speakers v m) c" by (simp add: speakers_def)
      show ?thesis
      proof (cases "\<forall>j \<in> set (speakers v m). level j = 0")
        case True
        from l obtain before after where s: "speakers v m = before @ c # after" "\<forall>i \<in> set before. level i < level c"
          unfolding loudest_in_def by blast
        then have "level c = 0" using True by simp
        then have "before = []" using s(2) by (cases before) auto
        moreover have "?old = 0" using a \<open>level c = 0\<close> by auto
        ultimately show ?thesis using s True by simp
      next
        case False
        show ?thesis unfolding if_not_P [OF False] by (rule l)
      qed
    qed
    then show ?thesis using True vad by simp
  qed
qed


text \<open>The participant 7 can be heard, and the first slot is the active speaker's.\<close>

definition example_vad :: mosaic where
  "example_vad = CalculatePositions (snd (Mosaic_SetSlot 0 (-2) (leave_slot (-2) example_added)))"

definition example_talk :: video_mixer where
  "example_talk = SetVADMode BasicVAD (SetVADProxy True (snd (vm_CreateMixer 7 [] (example_mixer example_vad))))"

lemma example_added_vad: "vadParticipant example_added = 0"
  by (simp add: example_added_def Mosaic_AddParticipant_def example_start settling)

lemma example_vad: "mosaicSlots example_vad = [-2,0,0,0]" "vadParticipant example_vad = 0"
  "participants example_vad = participants example_added"
  by (simp_all add: example_vad_def Mosaic_SetSlot_def leave_slot_def example_added example_added_vad settling numSlots_def
      fix_new_def unfix_old_def forget_vad_def Let_def)

lemma example_talk_reach: "vm_reach (2 ^ 31) example_talk"
proof -
  have "vm_SetSlot 0 0 (-2) (example_mixer example_added) = Ok (True, example_mixer example_vad)"
    by (simp add: vm_SetSlot_def on_mosaic_def load_mosaic_def store_mosaic_def example_mixer_def VideoMixer_new_def
        example_vad_def map_find_def)
  with example_added_reach have "vm_reach (2 ^ 31) (example_mixer example_vad)" by (rule vm_reach.set_slot)
  then have "vm_reach (2 ^ 31) (snd (vm_CreateMixer 7 [] (example_mixer example_vad)))"
    by (rule vm_reach.create_mixer [OF _ surjective_pairing])
  then show ?thesis unfolding example_talk_def by (intro vm_reach.mode vm_reach.proxy)
qed

theorem loudest_participant_is_the_speaker_witness:
  "vadParticipant (follow_speaker 5000 (\<lambda>i. if i = 7 then 3 else 9) 0 0 0 example_talk example_vad) = 7"
proof -
  let ?level = "\<lambda>i :: int. if i = 7 then 3 else 9 :: DWORD"
  have m: "map_find (vm_mosaics example_talk) 0 = Some 0" "vm_heap example_talk 0 = Some example_vad"
    by (simp_all add: example_talk_def vm_CreateMixer_def SetVADMode_def SetVADProxy_def example_mixer_def VideoMixer_new_def map_find_def)
  have "vm_videos example_talk = [(7, \<lparr>vs_mosaic = None, vs_name = [], vs_refresh = True\<rparr>)]"
    by (simp add: example_talk_def vm_CreateMixer_def SetVADMode_def SetVADProxy_def example_mixer_def VideoMixer_new_def)
  then have sp: "speakers example_talk example_vad = [7]"
    by (simp add: speakers_def members_def example_vad example_added)
  have may: "may_change_speaker 0 example_talk example_vad"
    by (simp add: may_change_speaker_def IsVADShown_def example_vad SlotVAD_def example_talk_def SetVADMode_def SetVADProxy_def)
  have "loudest_in ?level [7] (vadParticipant (follow_speaker 5000 ?level 0 0 0 example_talk example_vad))"
    using loudest_participant_is_the_speaker [OF example_talk_reach m, of "follow_speaker 5000 ?level 0 0 0 example_talk example_vad"
        5000 ?level 0 0 0] may sp by simp
  then show ?thesis by (auto simp: loudest_in_def Cons_eq_append_conv)
qed

section \<open>Deleted mosaics\<close>






end
