(* ===== verification/CRC32.thy ===== *)
theory CRC32
  imports Bytes
begin

unbundle bit_operations_syntax

text \<open>
  The checksum of STUN messages (\<open>src/mcu/include/crc32calc.h\<close>): a table of 256 entries that the first object fills, and
  the update of the checksum, a byte at a time.  It is shown to be the division by the generator, a bit at a time, and
  to differ for two messages that differ in at most four bytes in a row.
\<close>

section \<open>The program\<close>

text \<open>One round of the loop over \<open>j\<close>, the entries, and one round of the loop of \<open>Update\<close>.\<close>

definition crc_shift :: "DWORD \<Rightarrow> DWORD" where
  "crc_shift c = (if c AND 1 \<noteq> 0 then 0xEDB88320 XOR drop_bit 1 c else drop_bit 1 c)"

definition crc_table :: "DWORD list" where
  "crc_table = map (\<lambda>i. (crc_shift ^^ 8) (of_nat i)) [0..<256]"

definition crc_byte :: "DWORD \<Rightarrow> BYTE \<Rightarrow> DWORD" where
  "crc_byte c b = crc_table ! unat ((c XOR ucast b) AND 0xFF) XOR drop_bit 8 c"

definition CRC_Update :: "BYTE list \<Rightarrow> DWORD \<Rightarrow> DWORD" where
  "CRC_Update data crc = foldl crc_byte (crc XOR 0xFFFFFFFF) data XOR 0xFFFFFFFF"

section \<open>The shift register\<close>

lemma crc_shift_eq: "crc_shift c = drop_bit 1 c XOR (if bit c 0 then 0xEDB88320 else 0)"
proof -
  have "c AND 1 \<noteq> 0 \<longleftrightarrow> bit c 0" by (simp add: and_one_eq bit_0 odd_iff_mod_2_eq_one)
  then show ?thesis by (simp add: crc_shift_def ac_simps)
qed

lemma crc_shift_xor: "crc_shift (a XOR b) = crc_shift a XOR crc_shift b"
  by (simp add: crc_shift_eq drop_bit_xor bit_xor_iff ac_simps)

lemma crc_shifts_xor: "(crc_shift ^^ n) (a XOR b) = (crc_shift ^^ n) a XOR (crc_shift ^^ n) b"
  by (induction n) (simp_all add: crc_shift_xor)

lemma crc_shift_0 [simp]: "crc_shift 0 = 0"
  by (simp add: crc_shift_eq)

lemma crc_shift_eq_0: "crc_shift c = 0 \<longleftrightarrow> c = 0"
proof
  assume z: "crc_shift c = 0"
  show "c = 0"
  proof (cases "bit c 0")
    case True
    then have "\<not> bit (drop_bit 1 c XOR (0xEDB88320 :: DWORD)) 31" using z by (simp add: crc_shift_eq)
    moreover have "\<not> bit (drop_bit 1 c) 31" "bit (0xEDB88320 :: DWORD) 31"
      by (auto simp: bit_drop_bit_eq dest: bit_imp_le_length)
    ultimately show ?thesis by (simp add: bit_xor_iff)
  next
    case False
    then have d: "drop_bit 1 c = 0" using z by (simp add: crc_shift_eq)
    show ?thesis
    proof (rule bit_word_eqI)
      fix n assume "n < LENGTH(32)"
      show "bit c n \<longleftrightarrow> bit (0 :: DWORD) n"
      proof (cases n)
        case (Suc k)
        have "bit (drop_bit 1 c) k \<longleftrightarrow> bit c n" by (simp add: bit_simps Suc)
        with d show ?thesis by simp
      qed (use False in simp)
    qed
  qed
qed simp

lemma xor_eq_0: "x XOR y = 0 \<longleftrightarrow> x = (y :: 'a::len word)"
proof
  assume "x XOR y = 0"
  then have "\<not> bit (x XOR y) n" for n by simp
  then show "x = y" by (intro bit_word_eqI) (simp add: bit_xor_iff)
qed simp

lemma xor_cancel:
  "a XOR c = b XOR c \<longleftrightarrow> a = (b :: 'a::len word)" "c XOR a = c XOR b \<longleftrightarrow> a = b"
  by (metis xor.assoc xor_self_eq xor.right_neutral) (metis xor.assoc xor_self_eq xor.left_neutral)

lemma crc_shifts_inject: "(crc_shift ^^ n) a = (crc_shift ^^ n) b \<longleftrightarrow> a = b"
proof -
  have z: "(crc_shift ^^ n) c = 0 \<longleftrightarrow> c = 0" for c by (induction n) (simp_all add: crc_shift_eq_0)
  show ?thesis using z [of "a XOR b"] unfolding crc_shifts_xor xor_eq_0 .
qed

text \<open>Zeros at the lower end are shifted out.\<close>

lemma crc_shifts_zeros: "\<forall>k < n. \<not> bit c k \<Longrightarrow> (crc_shift ^^ n) c = drop_bit n c"
proof (induction n)
  case (Suc n)
  then have "(crc_shift ^^ n) c = drop_bit n c" "\<not> bit (drop_bit n c) 0" by (simp_all add: bit_simps)
  then show ?case by (simp add: crc_shift_eq [of "drop_bit n c"])
qed simp

lemma crc_shifts_push: "n + m \<le> 32 \<Longrightarrow> take_bit m v = v \<Longrightarrow> (crc_shift ^^ n) (push_bit n v) = v"
proof -
  assume a: "n + m \<le> 32" "take_bit m v = v"
  have "(crc_shift ^^ n) (push_bit n v) = drop_bit n (push_bit n v)" by (rule crc_shifts_zeros) (simp add: bit_simps)
  also have "\<dots> = v"
  proof (rule bit_word_eqI)
    fix k assume "k < LENGTH(32)"
    have "bit v k \<Longrightarrow> k < m" using a(2) by (metis bit_take_bit_iff)
    then show "bit (drop_bit n (push_bit n v)) k \<longleftrightarrow> bit v k" using a(1) by (auto simp: bit_simps)
  qed
  finally show ?thesis .
qed

section \<open>A byte at a time\<close>

lemma crc_byte_eq: "crc_byte c b = (crc_shift ^^ 8) (c XOR ucast b)"
proof -
  let ?x = "c XOR ucast b :: DWORD"
  have "unat (?x AND 0xFF) < 256"
  proof -
    have "?x AND 0xFF = take_bit 8 ?x" by (simp add: take_bit_eq_mask mask_eq_exp_minus_1)
    then have "unat (?x AND 0xFF) = take_bit 8 (unat ?x)" by (simp only: unsigned_take_bit_eq)
    also have "\<dots> < 2 ^ 8" by (rule take_bit_nat_less_exp)
    finally show ?thesis by simp
  qed
  then have t: "crc_table ! unat (?x AND 0xFF) = (crc_shift ^^ 8) (?x AND 0xFF)" by (simp add: crc_table_def)
  have m: "(0xFF :: DWORD) = mask 8" by (simp add: mask_eq_exp_minus_1)
  have "drop_bit 8 c = drop_bit 8 (?x AND NOT 0xFF)"
    unfolding m by (rule bit_word_eqI)
      (auto simp: bit_drop_bit_eq bit_and_iff bit_not_iff bit_mask_iff bit_xor_iff bit_ucast_iff dest: bit_imp_le_length)
  also have "\<dots> = (crc_shift ^^ 8) (?x AND NOT 0xFF)"
  proof (rule crc_shifts_zeros [symmetric], intro allI impI)
    fix k :: nat assume "k < 8"
    then show "\<not> bit (?x AND NOT 0xFF) k" unfolding m by (simp add: bit_and_iff bit_not_iff bit_mask_iff)
  qed
  finally have "crc_byte c b = (crc_shift ^^ 8) (?x AND 0xFF) XOR (crc_shift ^^ 8) (?x AND NOT 0xFF)"
    by (simp add: crc_byte_def t)
  also have "\<dots> = (crc_shift ^^ 8) ((?x AND 0xFF) XOR (?x AND NOT 0xFF))" by (simp only: crc_shifts_xor)
  also have "(?x AND 0xFF) XOR (?x AND NOT 0xFF) = ?x"
    unfolding m by (rule bit_word_eqI) (auto simp: bit_and_iff bit_not_iff bit_xor_iff bit_mask_iff)
  finally show ?thesis .
qed

section \<open>The checksum is a division\<close>

text \<open>The register takes a bit of the message in each step, the least significant bit of a byte first.\<close>

definition crc_bit :: "DWORD \<Rightarrow> bool \<Rightarrow> DWORD" where
  "crc_bit c b = crc_shift (c XOR of_bool b)"

definition byte_bits :: "BYTE \<Rightarrow> bool list" where
  "byte_bits b = map (bit b) [0..<8]"

lemma foldl_crc_bit:
  "n \<le> 8 \<Longrightarrow> foldl crc_bit c (map (bit b) [0..<n]) = (crc_shift ^^ n) (c XOR ucast (take_bit n b :: BYTE))"
proof (induction n)
  case (Suc n)
  let ?v = "of_bool (bit b n) :: DWORD"
  have v: "?v = (crc_shift ^^ n) (push_bit n ?v)"
    using Suc.prems by (intro crc_shifts_push [of _ 1, symmetric]) auto
  have "foldl crc_bit c (map (bit b) [0..<Suc n]) = crc_shift ((crc_shift ^^ n) (c XOR ucast (take_bit n b)) XOR ?v)"
    using Suc by (simp add: crc_bit_def [of _ "bit b n"])
  also have "\<dots> = (crc_shift ^^ Suc n) (c XOR ucast (take_bit n b) XOR push_bit n ?v)"
    by (subst v) (simp only: crc_shifts_xor funpow.simps o_apply xor.assoc)
  also have "c XOR ucast (take_bit n b) XOR push_bit n ?v = c XOR ucast (take_bit (Suc n) b)"
    by (rule bit_word_eqI) (auto simp: bit_xor_iff bit_simps not_less less_Suc_eq)
  finally show ?case .
qed simp

lemma foldl_byte_bits: "foldl crc_bit c (byte_bits b) = crc_byte c b"
proof -
  have "take_bit 8 b = b" by (rule bit_word_eqI) (simp add: bit_take_bit_iff)
  with foldl_crc_bit [of 8 c b] show ?thesis unfolding byte_bits_def crc_byte_eq by simp
qed

lemma CRC_Update_bits:
  "CRC_Update data crc = foldl crc_bit (NOT crc) (concat (map byte_bits data)) XOR 0xFFFFFFFF"
proof -
  have "foldl crc_byte c data = foldl crc_bit c (concat (map byte_bits data))" for c
    by (induction data arbitrary: c) (simp_all add: foldl_byte_bits)
  moreover have "crc XOR 0xFFFFFFFF = NOT crc"
  proof -
    have m: "(0xFFFFFFFF :: DWORD) = mask 32" by (simp add: mask_eq_exp_minus_1)
    show ?thesis unfolding m by (rule bit_word_eqI) (simp add: bit_xor_iff bit_not_iff bit_mask_iff)
  qed
  ultimately show ?thesis by (simp add: CRC_Update_def)
qed

text \<open>
  The division itself, without the program: a polynomial over the field of two elements is the list of its
  coefficients, the one of the highest power first.  \<open>crc_generator\<close> holds the coefficients of the generator of CRC-32
  (IEEE 802.3, RFC 5389 section 15.5) below its leading \<open>x^32\<close>.  The long division takes the highest coefficient away,
  and subtracts the generator where it is 1, until 32 coefficients are left.
\<close>

fun xor_bits :: "bool list \<Rightarrow> bool list \<Rightarrow> bool list" where
  "xor_bits [] ys = ys"
| "xor_bits (x # xs) [] = []"
| "xor_bits (x # xs) (y # ys) = (x \<noteq> y) # xor_bits xs ys"

lemma length_xor_bits [simp]: "length (xor_bits xs ys) = length ys"
  by (induction xs ys rule: xor_bits.induct) simp_all

definition crc_generator :: "bool list" where
  "crc_generator = map (\<lambda>power. power \<in> {26, 23, 22, 16, 12, 11, 10, 8, 7, 5, 4, 2, 1, 0}) (rev [0..<32])"

fun remainder :: "bool list \<Rightarrow> bool list" where
  "remainder [] = []"
| "remainder (b # bs) =
     (if length bs < 32 then b # bs else remainder (if b then xor_bits crc_generator bs else bs))"

text \<open>The checksum of CRC-32: the message times \<open>x^32\<close>, the coefficients of its 32 highest powers turned over (or, where
a checksum is continued, those the checksum has not set), and the remainder turned over.\<close>

definition crc32_bits :: "bool list \<Rightarrow> bool list \<Rightarrow> bool list" where
  "crc32_bits start message = map Not (remainder (xor_bits (map Not start) (message @ replicate 32 False)))"

lemma xor_bits_nth:
  "k < length ys \<Longrightarrow> xor_bits xs ys ! k = (if k < length xs then xs ! k \<noteq> ys ! k else ys ! k)"
proof (induction xs ys arbitrary: k rule: xor_bits.induct)
  case (3 x xs y ys)
  then show ?case by (cases k) simp_all
qed simp_all

text \<open>The register holds what is still to be added to the next 32 coefficients, its lowest bit the highest power.\<close>

definition register_bits :: "DWORD \<Rightarrow> bool list" where
  "register_bits c = map (bit c) [0..<32]"

lemma register_bits_nth [simp]: "length (register_bits c) = 32" "k < 32 \<Longrightarrow> register_bits c ! k = bit c k"
  by (simp_all add: register_bits_def)

lemma register_bits_inject: "register_bits c = register_bits d \<longleftrightarrow> c = d"
proof
  assume e: "register_bits c = register_bits d"
  show "c = d"
  proof (rule bit_word_eqI)
    fix k assume "k < LENGTH(32)"
    then have "k < 32" by simp
    then show "bit c k \<longleftrightarrow> bit d k" using e register_bits_nth(2) [of k] by metis
  qed
qed simp

lemma crc_generator_nth:
  assumes "k < 32"
  shows "crc_generator ! k \<longleftrightarrow> bit (0xEDB88320 :: DWORD) k"
proof -
  have "crc_generator = register_bits 0xEDB88320" by code_simp
  then show ?thesis using register_bits_nth(2) [OF assms] by metis
qed

lemma length_crc_generator [simp]: "length crc_generator = 32"
  by (simp add: crc_generator_def)

lemma crc_bit_nth:
  "k < 32 \<Longrightarrow> bit (crc_bit c b) k \<longleftrightarrow> (bit c (Suc k) \<noteq> ((bit c 0 \<noteq> b) \<and> crc_generator ! k))"
  unfolding crc_bit_def crc_shift_eq
  by (cases b) (auto simp: crc_generator_nth bit_xor_iff bit_drop_bit_eq bit_1_iff)

lemma division_step:
  assumes "32 \<le> length rest"
  shows "remainder (xor_bits (register_bits c) (b # rest)) = remainder (xor_bits (register_bits (crc_bit c b)) rest)"
proof -
  define high where "high = (bit c 0 \<noteq> b)"
  define low where "low = xor_bits (map (bit c) [1..<32]) rest"
  have "register_bits c = bit c 0 # map (bit c) [1..<32]" by (simp add: register_bits_def upt_conv_Cons)
  then have "remainder (xor_bits (register_bits c) (b # rest)) = remainder (if high then xor_bits crc_generator low else low)"
    using assms by (simp add: high_def low_def)
  also have "(if high then xor_bits crc_generator low else low) = xor_bits (register_bits (crc_bit c b)) rest"
  proof (rule nth_equalityI)
    fix k assume "k < length (if high then xor_bits crc_generator low else low)"
    then have k: "k < length rest" by (simp add: low_def split: if_splits)
    have "\<not> bit c (Suc k)" if "31 \<le> k" using that by (auto dest: bit_imp_le_length)
    then have "low ! k \<longleftrightarrow> (if k < 32 then bit c (Suc k) \<noteq> rest ! k else rest ! k)"
      using k by (auto simp: low_def xor_bits_nth)
    then show "(if high then xor_bits crc_generator low else low) ! k = xor_bits (register_bits (crc_bit c b)) rest ! k"
      using k by (auto simp: xor_bits_nth low_def [THEN arg_cong [of _ _ length]] crc_bit_nth high_def)
  qed (simp add: low_def)
  finally show ?thesis .
qed

lemma register_is_the_remainder:
  "remainder (xor_bits (register_bits c) (bits @ replicate 32 False)) = register_bits (foldl crc_bit c bits)"
proof (induction bits arbitrary: c)
  case Nil
  have x: "xor_bits (register_bits c) (replicate 32 False) = register_bits c"
    by (rule nth_equalityI) (simp_all add: xor_bits_nth)
  have "remainder bs = bs" if "length bs = 32" for bs using that by (cases bs) simp_all
  then show ?case by (simp add: x)
next
  case (Cons b bits)
  have "32 \<le> length (bits @ replicate 32 False)" by simp
  from division_step [OF this, of c b] show ?case unfolding append_Cons foldl_Cons Cons.IH .
qed

text \<open>C31: The checksum computed with the table, a byte at a time, is CRC-32: its bits, from the lowest, are the remainder of
the message (the bits of each byte from the lowest) under long division by the generator
\<open>x^32 + x^26 + x^23 + x^22 + x^16 + x^12 + x^11 + x^10 + x^8 + x^7 + x^5 + x^4 + x^2 + x + 1\<close>, with the first 32
coefficients and the result turned over; with a checksum to go on from (the second argument of \<open>Update\<close>), the one of the
parts together.\<close>

theorem checksum_is_the_division:
  "map (bit (CRC_Update data crc)) [0..<32] = crc32_bits (map (bit crc) [0..<32]) (concat (map byte_bits data))
   \<and> CRC_Update (data @ rest) crc = CRC_Update rest (CRC_Update data crc)"
proof
  have n: "map Not (map (bit c) [0..<32]) = register_bits (NOT c)" for c :: DWORD
    by (simp add: register_bits_def bit_not_iff)
  have "map (bit (c XOR 0xFFFFFFFF)) [0..<32] = map Not (register_bits c)" for c :: DWORD
  proof (rule nth_equalityI)
    have m: "(0xFFFFFFFF :: DWORD) = mask 32" by (simp add: mask_eq_exp_minus_1)
    fix k assume "k < length (map (bit (c XOR 0xFFFFFFFF)) [0..<32])"
    then show "map (bit (c XOR 0xFFFFFFFF)) [0..<32] ! k = map Not (register_bits c) ! k"
      unfolding m by (simp add: bit_xor_iff bit_mask_iff)
  qed simp
  then show "map (bit (CRC_Update data crc)) [0..<32] = crc32_bits (map (bit crc) [0..<32]) (concat (map byte_bits data))"
    unfolding CRC_Update_bits crc32_bits_def n register_is_the_remainder by simp
  show "CRC_Update (data @ rest) crc = CRC_Update rest (CRC_Update data crc)"
    by (simp add: CRC_Update_def xor.assoc)
qed

text \<open>The check value of CRC-32: the checksum of the digits \<open>123456789\<close>.\<close>

lemma check_value: "CRC_Update [0x31, 0x32, 0x33, 0x34, 0x35, 0x36, 0x37, 0x38, 0x39] 0 = 0xCBF43926"
  (is "CRC_Update ?digits 0 = ?check")
proof -
  have "remainder (xor_bits (register_bits (NOT 0)) (concat (map byte_bits ?digits) @ replicate 32 False)) =
      register_bits (NOT ?check)" by code_simp
  then have "foldl crc_bit (NOT 0) (concat (map byte_bits ?digits)) = NOT ?check"
    unfolding register_is_the_remainder register_bits_inject .
  then have "CRC_Update ?digits 0 = NOT ?check XOR 0xFFFFFFFF" by (simp only: CRC_Update_bits)
  also have "\<dots> = ?check" by simp
  finally show ?thesis .
qed

section \<open>Errors are found\<close>

fun le_word :: "BYTE list \<Rightarrow> DWORD" where
  "le_word [] = 0"
| "le_word (b # bs) = ucast b OR push_bit 8 (le_word bs)"

lemma le_word_bit: "bit (le_word bs) k \<longleftrightarrow> k < 32 \<and> k div 8 < length bs \<and> bit (bs ! (k div 8)) (k mod 8)"
proof (induction bs arbitrary: k)
  case (Cons b bs)
  show ?case
  proof (cases "k < 8")
    case True
    then show ?thesis by (auto simp: bit_or_iff bit_simps)
  next
    case False
    then obtain j where k: "k = j + 8" by (metis add.commute le_Suc_ex not_less)
    have "\<not> bit b k" using False by (auto dest: bit_imp_le_length)
    moreover have d: "(j + 8) div 8 = Suc (j div 8)" by simp
    ultimately show ?thesis using Cons.IH [of j] unfolding k d by (auto simp: bit_or_iff bit_simps)
  qed
qed simp

lemma le_word_inject:
  assumes "length xs = length ys" "length xs \<le> 4" "le_word xs = le_word ys"
  shows "xs = ys"
proof (rule nth_equalityI [OF assms(1)])
  fix i assume i: "i < length xs"
  show "xs ! i = ys ! i"
  proof (rule bit_word_eqI)
    fix k assume "k < LENGTH(8)"
    then have k: "k < 8" by simp
    then have "8 * i + k < 32" "(8 * i + k) div 8 = i" "(8 * i + k) mod 8 = k" using i assms(2) by simp_all
    with le_word_bit [of xs "8 * i + k"] le_word_bit [of ys "8 * i + k"] i assms show "bit (xs ! i) k \<longleftrightarrow> bit (ys ! i) k" by simp
  qed
qed

lemma take_bit_le_word: "take_bit (8 * length bs) (le_word bs) = le_word bs"
  by (rule bit_word_eqI) (auto simp: bit_take_bit_iff le_word_bit)

lemma foldl_le_word:
  "length bs \<le> 4 \<Longrightarrow> foldl crc_byte c bs = (crc_shift ^^ (8 * length bs)) (c XOR le_word bs)"
proof (induction bs arbitrary: c)
  case (Cons b bs)
  let ?n = "8 * length bs"
  have p: "le_word bs = (crc_shift ^^ 8) (push_bit 8 (le_word bs))"
    using Cons.prems by (intro crc_shifts_push [of _ ?n, symmetric] take_bit_le_word) simp
  have "foldl crc_byte c (b # bs) = (crc_shift ^^ ?n) ((crc_shift ^^ 8) (c XOR ucast b) XOR le_word bs)"
    using Cons.IH [of "(crc_shift ^^ 8) (c XOR ucast b)"] Cons.prems
    unfolding foldl_Cons crc_byte_eq [of c b] by simp
  also have "(crc_shift ^^ 8) (c XOR ucast b) XOR le_word bs = (crc_shift ^^ 8) (c XOR ucast b XOR push_bit 8 (le_word bs))"
    by (subst p) (simp only: crc_shifts_xor xor.assoc)
  also have "c XOR ucast b XOR push_bit 8 (le_word bs) = c XOR le_word (b # bs)"
    by (rule bit_word_eqI) (auto simp: bit_xor_iff bit_or_iff bit_simps dest: bit_imp_le_length)
  finally have "foldl crc_byte c (b # bs) = (crc_shift ^^ (?n + 8)) (c XOR le_word (b # bs))" by (simp only: funpow_add o_apply)
  moreover have "?n + 8 = 8 * length (b # bs)" by simp
  ultimately show ?case by (simp only:)
qed simp

lemma foldl_crc_byte_inject: "foldl crc_byte a bs = foldl crc_byte b bs \<longleftrightarrow> a = b"
proof (induction bs arbitrary: a b)
  case (Cons x bs)
  show ?case unfolding foldl_Cons Cons.IH unfolding crc_byte_eq crc_shifts_inject xor_cancel ..
qed simp

lemma checksum_finds_bursts:
  assumes "length xs = length ys" "length xs \<le> 4"
  shows "CRC_Update (before @ xs @ rest) crc = CRC_Update (before @ ys @ rest) crc \<longleftrightarrow> xs = ys"
proof -
  let ?c = "foldl crc_byte (crc XOR 0xFFFFFFFF) before"
  have "CRC_Update (before @ xs @ rest) crc = CRC_Update (before @ ys @ rest) crc \<longleftrightarrow> foldl crc_byte ?c xs = foldl crc_byte ?c ys"
    unfolding CRC_Update_def xor_cancel foldl_append foldl_crc_byte_inject ..
  also have "\<dots> \<longleftrightarrow> le_word xs = le_word ys"
    using assms by (simp only: foldl_le_word crc_shifts_inject xor_cancel)
  also have "\<dots> \<longleftrightarrow> xs = ys" using le_word_inject [OF assms] by blast
  finally show ?thesis .
qed

end
