(* ===== verification/STUN.thy ===== *)
theory STUN
  imports RTCP CRC32
begin

unbundle bit_operations_syntax

text \<open>
  STUN messages (\<open>src/mcu/include/stunmessage.h\<close>, \<open>src/mcu/src/stunmessage.cpp\<close>): a header of 20 bytes and a list of
  attributes, how they are read and how they are written with or without MESSAGE-INTEGRITY and FINGERPRINT.

  \<open>d\<close> is the memory from the pointer \<open>data\<close> on, \<open>sz\<close> the argument of the call.  Sizes are natural numbers, as no
  datagram comes near \<open>2^32\<close> bytes; the \<open>WORD\<close>s the code stores sizes in are kept.  A \<open>Parse\<close> that returns a null
  pointer gives \<open>None\<close>, a serialisation that fails returns 0.  \<open>HMAC\<close> is a function of OpenSSL and a parameter.
\<close>

section \<open>Messages\<close>

datatype stun_type = STUN_Request | STUN_Indication | STUN_Response | STUN_Error

fun type_number :: "stun_type \<Rightarrow> WORD" where
  "type_number STUN_Request = 0"
| "type_number STUN_Indication = 1"
| "type_number STUN_Response = 2"
| "type_number STUN_Error = 3"

definition type_of_number :: "WORD \<Rightarrow> stun_type" where
  "type_of_number n =
     (if n = 0 then STUN_Request else if n = 1 then STUN_Indication else if n = 2 then STUN_Response else STUN_Error)"

definition Method_Binding :: WORD where "Method_Binding = 1"

definition Attr_Username :: WORD where "Attr_Username = 0x0006"
definition Attr_MessageIntegrity :: WORD where "Attr_MessageIntegrity = 0x0008"
definition Attr_Priority :: WORD where "Attr_Priority = 0x0024"
definition Attr_UseCandidate :: WORD where "Attr_UseCandidate = 0x0025"
definition Attr_MappedAddress :: WORD where "Attr_MappedAddress = 0x0001"
definition Attr_XorMappedAddress :: WORD where "Attr_XorMappedAddress = 0x0020"
definition Attr_FingerPrint :: WORD where "Attr_FingerPrint = 0x8028"
definition Attr_IceControlled :: WORD where "Attr_IceControlled = 0x8029"

lemmas attribute_types =
  Attr_Username_def Attr_MessageIntegrity_def Attr_Priority_def Attr_UseCandidate_def Attr_MappedAddress_def
  Attr_XorMappedAddress_def Attr_FingerPrint_def Attr_IceControlled_def

text \<open>The value is \<open>None\<close> for the null pointer.\<close>

record stun_attribute =
  sa_type :: WORD
  sa_size :: WORD
  sa_value :: "BYTE list option"

record stun_message =
  st_type :: stun_type
  st_method :: WORD
  st_transId :: "BYTE list"
  st_attributes :: "stun_attribute list"

text \<open>The size becomes a \<open>WORD\<close>, and as many bytes are copied.\<close>

definition Attribute_new :: "WORD \<Rightarrow> BYTE list option \<Rightarrow> stun_attribute" where
  "Attribute_new t v =
     (case v of
        None \<Rightarrow> \<lparr>sa_type = t, sa_size = 0, sa_value = None\<rparr>
      | Some xs \<Rightarrow>
          let n = of_nat (length xs) :: WORD in \<lparr>sa_type = t, sa_size = n, sa_value = Some (take (unat n) xs)\<rparr>)"

text \<open>The value of eight bytes \<open>set8\<close> writes, and the one of four.\<close>

definition Attribute_QWORD :: "WORD \<Rightarrow> QWORD \<Rightarrow> stun_attribute" where
  "Attribute_QWORD t v =
     \<lparr>sa_type = t, sa_size = 8, sa_value = Some (map (\<lambda>k. ucast (drop_bit (8 * k) v)) [7, 6, 5, 4, 3, 2, 1, 0])\<rparr>"

definition Attribute_DWORD :: "WORD \<Rightarrow> DWORD \<Rightarrow> stun_attribute" where
  "Attribute_DWORD t v =
     \<lparr>sa_type = t, sa_size = 4, sa_value = Some (map (\<lambda>k. ucast (drop_bit (8 * k) v)) [3, 2, 1, 0])\<rparr>"

definition STUNMessage_new :: "stun_type \<Rightarrow> WORD \<Rightarrow> BYTE list \<Rightarrow> stun_message" where
  "STUNMessage_new t m transId = \<lparr>st_type = t, st_method = m, st_transId = take 12 transId, st_attributes = []\<rparr>"

definition stun_AddAttribute :: "stun_attribute \<Rightarrow> stun_message \<Rightarrow> stun_message" where
  "stun_AddAttribute a m = m\<lparr>st_attributes := st_attributes m @ [a]\<rparr>"

definition stun_GetAttribute :: "WORD \<Rightarrow> stun_message \<Rightarrow> stun_attribute option" where
  "stun_GetAttribute t m = find (\<lambda>a. sa_type a = t) (st_attributes m)"

definition stun_HasAttribute :: "WORD \<Rightarrow> stun_message \<Rightarrow> bool" where
  "stun_HasAttribute t m = list_ex (\<lambda>a. sa_type a = t) (st_attributes m)"

definition CreateResponse :: "stun_message \<Rightarrow> stun_message" where
  "CreateResponse m = STUNMessage_new STUN_Response (st_method m) (st_transId m)"

text \<open>\<open>remote:local\<close>.\<close>

definition AddUsernameAttribute :: "BYTE list \<Rightarrow> BYTE list \<Rightarrow> stun_message \<Rightarrow> stun_message" where
  "AddUsernameAttribute local remote m = stun_AddAttribute (Attribute_new Attr_Username (Some (remote @ 0x3A # local))) m"

text \<open>An address as its bytes in memory, the network order.\<close>

type_synonym ip = "BYTE \<times> BYTE \<times> BYTE \<times> BYTE"

record sockaddr =
  sin_port :: "BYTE \<times> BYTE"
  sin_addr :: ip

definition AddAddressAttribute :: "sockaddr \<Rightarrow> stun_message \<Rightarrow> stun_message" where
  "AddAddressAttribute addr m =
     (case (sin_port addr, sin_addr addr) of ((p0, p1), (a0, a1, a2, a3)) \<Rightarrow>
        stun_AddAttribute (Attribute_new Attr_MappedAddress (Some [0, 1, p0, p1, a0, a1, a2, a3])) m)"

definition MagicCookie :: "BYTE list" where
  "MagicCookie = [0x21, 0x12, 0xA4, 0x42]"

definition AddXorAddressAttribute :: "sockaddr \<Rightarrow> stun_message \<Rightarrow> stun_message" where
  "AddXorAddressAttribute addr m =
     (case (sin_port addr, sin_addr addr) of ((p0, p1), (a0, a1, a2, a3)) \<Rightarrow>
        stun_AddAttribute (Attribute_new Attr_XorMappedAddress
          (Some ([0, 1, p0 XOR MagicCookie ! 0, p1 XOR MagicCookie ! 1] @ map2 (XOR) [a0, a1, a2, a3] MagicCookie))) m)"

section \<open>Reading\<close>

definition IsSTUN :: "BYTE list \<Rightarrow> nat \<Rightarrow> bool res" where
  "IsSTUN d sz =
     (if sz \<ge> 20 then
        bindR (byte_at d 0) (\<lambda>b.
        if b AND 0xC0 = 0 then bindR (copy_out 4 4 d) (\<lambda>c. Ok (c = MagicCookie)) else Ok False)
      else Ok False)"

definition method_of_field :: "WORD \<Rightarrow> WORD" where
  "method_of_field m = (m AND 0x000f) OR drop_bit 1 (m AND 0x00e0) OR drop_bit 2 (m AND 0x3E00)"

definition type_of_bytes :: "BYTE \<Rightarrow> BYTE \<Rightarrow> stun_type" where
  "type_of_bytes b0 b1 = type_of_number (push_bit 1 (ucast b0 AND 0x01) OR drop_bit 4 (ucast b1 AND 0x10))"

lemma pad32_gt: "i < pad32 (i + 4 + n)"
  using mod_less_divisor [of 4 "i + 4 + n"] by (simp add: pad32_def) linarith

text \<open>
  The loop over the attributes: the position, whether MESSAGE-INTEGRITY has been seen, the position of FINGERPRINT, and
  the attributes read.
\<close>

function parse_attributes ::
  "BYTE list \<Rightarrow> nat \<Rightarrow> nat \<Rightarrow> bool \<Rightarrow> nat option \<Rightarrow> stun_attribute list \<Rightarrow>
     (nat \<times> nat option \<times> stun_attribute list) option res"
where
  "parse_attributes d sz i hasMessageIntegrity fingerprint as =
     (if i + 4 \<le> sz then
        bindR (get2 d i) (\<lambda>t. bindR (get2 d (i + 2)) (\<lambda>n.
        let attrType = ucast t :: WORD; attrLen = unat (ucast n :: WORD) in
        if sz < i + 4 + attrLen then Ok None
        else if fingerprint \<noteq> None then Ok None
        else if hasMessageIntegrity \<and> attrType \<noteq> Attr_FingerPrint then Ok None
        else
          bindR (copy_out (i + 4) attrLen d) (\<lambda>xs.
          parse_attributes d sz (pad32 (i + 4 + attrLen)) (hasMessageIntegrity \<or> attrType = Attr_MessageIntegrity)
            (if attrType = Attr_FingerPrint then Some i else fingerprint) (as @ [Attribute_new attrType (Some xs)]))))
      else Ok (Some (i, fingerprint, as)))"
  by pat_completeness auto

termination
  by (relation "measure (\<lambda>(d, sz, i, _). sz - i)") (auto intro!: diff_less_mono2 pad32_gt)

declare parse_attributes.simps [simp del]

text \<open>What follows the loop: the size, and the checksum when there is a FINGERPRINT.\<close>

definition check_message ::
  "BYTE list \<Rightarrow> nat \<Rightarrow> stun_message \<Rightarrow> (nat \<times> nat option \<times> stun_attribute list) option \<Rightarrow> stun_message option res" where
  "check_message d sz msg r =
     (case r of
        None \<Rightarrow> Ok None
      | Some (i, fingerprint, as) \<Rightarrow>
          let msg = msg\<lparr>st_attributes := as\<rparr> in
          if i \<noteq> sz then Ok None
          else (case fingerprint of
              None \<Rightarrow> Ok (Some msg)
            | Some pos \<Rightarrow>
                bindR (get4 d (pos + 4)) (\<lambda>announced. bindR (copy_out 0 pos d) (\<lambda>xs.
                let computed = CRC_Update xs 0 XOR 0x5354554e in
                Ok (if announced \<noteq> computed then None else Some msg)))))"

definition STUN_Parse :: "BYTE list \<Rightarrow> nat \<Rightarrow> stun_message option res" where
  "STUN_Parse d sz =
     bindR (IsSTUN d sz) (\<lambda>b.
     if \<not> b then Ok None
     else
       bindR (get2 d 0) (\<lambda>f. bindR (byte_at d 0) (\<lambda>b0. bindR (byte_at d 1) (\<lambda>b1. bindR (copy_out 8 12 d) (\<lambda>transId.
       let msg = STUNMessage_new (type_of_bytes b0 b1) (method_of_field (ucast f)) transId in
       bindR (parse_attributes d sz 20 False None []) (check_message d sz msg))))))"

section \<open>Writing\<close>

definition stun_GetSize :: "stun_message \<Rightarrow> nat" where
  "stun_GetSize m = fold (\<lambda>a sz. pad32 (sz + 4 + unat (sa_size a))) (st_attributes m) (20 + 24 + 8)"

definition type_field :: "stun_type \<Rightarrow> WORD \<Rightarrow> DWORD" where
  "type_field t m =
     push_bit 2 (ucast m AND 0x0f80) OR push_bit 1 (ucast m AND 0x0070) OR (ucast m AND 0x000f) OR
     push_bit 7 (ucast (type_number t) AND 0x02) OR push_bit 4 (ucast (type_number t) AND 0x01)"

definition put_attribute :: "stun_attribute \<Rightarrow> nat \<times> BYTE list \<Rightarrow> (nat \<times> BYTE list) res" where
  "put_attribute a s =
     (case s of (i, d) \<Rightarrow>
        bindR (set2 d i (ucast (sa_type a))) (\<lambda>d.
        bindR (set2 d (i + 2) (ucast (sa_size a))) (\<lambda>d.
        bindR (case sa_value a of None \<Rightarrow> Ok d | Some xs \<Rightarrow> copy_in (i + 4) (take (unat (sa_size a)) xs) d) (\<lambda>d.
        Ok (pad32 (i + 4 + unat (sa_size a)), d)))))"

text \<open>The part the two ways of writing have in common: the header and the attributes.\<close>

definition put_message :: "DWORD \<Rightarrow> stun_message \<Rightarrow> BYTE list \<Rightarrow> (nat \<times> BYTE list) res" where
  "put_message attrSize m d =
     bindR (set2 d 0 (type_field (st_type m) (st_method m))) (\<lambda>d.
     bindR (set2 d 2 attrSize) (\<lambda>d.
     bindR (copy_in 4 MagicCookie d) (\<lambda>d.
     bindR (copy_in 8 (st_transId m) d) (\<lambda>d.
     foldR put_attribute (st_attributes m) (20, d)))))"

definition NonAuthenticatedFingerPrint :: "BYTE list \<Rightarrow> nat \<Rightarrow> stun_message \<Rightarrow> (nat \<times> BYTE list) res" where
  "NonAuthenticatedFingerPrint d sz m =
     (let msgSize = of_nat (stun_GetSize m) - 24 - 8 :: WORD in
      if sz < unat msgSize then Ok (0, d) else put_message (ucast msgSize - 20) m d)"

text \<open>The value of MESSAGE-INTEGRITY is written before its type and its length.\<close>

definition put_integrity :: "nat \<Rightarrow> BYTE list \<Rightarrow> BYTE list \<Rightarrow> BYTE list res" where
  "put_integrity i mac d =
     bindR (copy_in (i + 4) mac d) (\<lambda>d.
     bindR (set2 d i (ucast Attr_MessageIntegrity)) (\<lambda>d. set2 d (i + 2) (of_nat (length mac))))"

definition put_fingerprint :: "nat \<Rightarrow> DWORD \<Rightarrow> BYTE list \<Rightarrow> BYTE list res" where
  "put_fingerprint i crc32 d =
     bindR (set2 d i (ucast Attr_FingerPrint)) (\<lambda>d. bindR (set2 d (i + 2) 4) (\<lambda>d. set4 d (i + 4) crc32))"

definition AuthenticatedFingerPrint ::
  "(BYTE list \<Rightarrow> BYTE list \<Rightarrow> BYTE list) \<Rightarrow> BYTE list \<Rightarrow> nat \<Rightarrow> BYTE list \<Rightarrow> stun_message \<Rightarrow> (nat \<times> BYTE list) res" where
  "AuthenticatedFingerPrint HMAC d sz pwd m =
     (let msgSize = of_nat (stun_GetSize m) :: WORD in
      if sz < unat msgSize then Ok (0, d)
      else
        bindR (put_message (ucast msgSize - 20) m d) (\<lambda>(i, d).
        bindR (set2 d 2 (ucast msgSize - 20 - 8)) (\<lambda>d.
        bindR (copy_out 0 i d) (\<lambda>xs.
        let mac = HMAC pwd xs in
        bindR (put_integrity i mac d) (\<lambda>d.
        let i = pad32 (i + 4 + length mac) in
        bindR (set2 d 2 (ucast msgSize - 20)) (\<lambda>d.
        bindR (copy_out 0 i d) (\<lambda>xs.
        bindR (put_fingerprint i (CRC_Update xs 0 XOR 0x5354554e) d) (\<lambda>d.
        Ok (pad32 (i + 8), d)))))))))"

end
