(* ===== verification/ICE.thy ===== *)
theory ICE
  imports STUN
begin

unbundle bit_operations_syntax

text \<open>
  Where an RTP session sends its packets (\<open>src/mcu/src/rtpsession.cpp\<close>): the address the control server sets, the one
  the first packet came from, and the ones the STUN requests of ICE ask for; and every place where it sends one.

  \<open>ice_session\<close> holds the fields of \<open>RTPSession\<close> this depends on and what has been sent, the socket, the bytes and the
  address.  Arguments from outside are the datagram received and its source, the clock, the HMAC of OpenSSL, the bytes
  the DTLS connection has to send, and what SRTP makes of a packet.  The bytes of a packet of its own are an argument
  too: the header \<open>SendPacket\<close> writes, and what \<open>ReSendPacket\<close> changes in it, have no influence on where it goes.  What is
  done with a media packet once its source is known is not part of this model.
\<close>

definition INADDR_ANY :: ip where "INADDR_ANY = (0, 0, 0, 0)"

datatype socket = simSocket | simRtcpSocket

record ice_session =
  iceLocalUsername :: "BYTE list option"
  iceLocalPwd :: "BYTE list option"
  iceRemoteUsername :: "BYTE list option"
  iceRemotePwd :: "BYTE list option"
  ice_prio :: DWORD
  recIP :: ip
  recPort :: "BYTE \<times> BYTE"
  sendAddr :: sockaddr
  sendRtcpAddr :: sockaddr
  ice_muxRTCP :: bool
  ice_listener :: bool
  ice_fpus :: nat
  ice_useNACK :: bool
  ice_rtxs :: "(DWORD \<times> QWORD \<times> BYTE list) list"
  ice_sent :: "(socket \<times> BYTE list \<times> sockaddr) list"

definition ICE_new :: "bool \<Rightarrow> ice_session" where
  "ICE_new listener =
     \<lparr>iceLocalUsername = None, iceLocalPwd = None, iceRemoteUsername = None, iceRemotePwd = None, ice_prio = 0,
      recIP = INADDR_ANY, recPort = (0, 0), sendAddr = \<lparr>sin_port = (0, 0), sin_addr = INADDR_ANY\<rparr>,
      sendRtcpAddr = \<lparr>sin_port = (0, 0), sin_addr = INADDR_ANY\<rparr>, ice_muxRTCP = False, ice_listener = listener,
      ice_fpus = 0, ice_useNACK = False, ice_rtxs = [], ice_sent = []\<rparr>"

definition sendto :: "socket \<Rightarrow> BYTE list \<Rightarrow> sockaddr \<Rightarrow> ice_session \<Rightarrow> ice_session" where
  "sendto k xs a s = s\<lparr>ice_sent := ice_sent s @ [(k, xs, a)]\<rparr>"

definition onFPURequested :: "ice_session \<Rightarrow> ice_session" where
  "onFPURequested s = (if ice_listener s then s\<lparr>ice_fpus := ice_fpus s + 1\<rparr> else s)"

section \<open>Set by the control server\<close>

definition SetLocalSTUNCredentials :: "BYTE list \<Rightarrow> BYTE list \<Rightarrow> ice_session \<Rightarrow> ice_session" where
  "SetLocalSTUNCredentials username pwd s = s\<lparr>iceLocalUsername := Some username, iceLocalPwd := Some pwd\<rparr>"

definition SetRemoteSTUNCredentials :: "BYTE list \<Rightarrow> BYTE list \<Rightarrow> ice_session \<Rightarrow> ice_session" where
  "SetRemoteSTUNCredentials username pwd s = s\<lparr>iceRemoteUsername := Some username, iceRemotePwd := Some pwd\<rparr>"

definition SetProperty_rtcp_mux :: "bool \<Rightarrow> ice_session \<Rightarrow> ice_session" where
  "SetProperty_rtcp_mux b s = s\<lparr>ice_muxRTCP := b\<rparr>"

definition SetProperty_useNACK :: "bool \<Rightarrow> ice_session \<Rightarrow> ice_session" where
  "SetProperty_useNACK b s = s\<lparr>ice_useNACK := b\<rparr>"

text \<open>\<open>htons\<close>: the two bytes of a port, the high one first.\<close>

definition htons :: "int \<Rightarrow> BYTE \<times> BYTE" where
  "htons p = (of_int (p div 256), of_int p)"

definition rtpEmpty :: "BYTE list" where
  "rtpEmpty = [0x80, 0x14, 0, 0, 0, 0, 0, 0]"

definition SendEmptyPacket :: "ice_session \<Rightarrow> ice_session" where
  "SendEmptyPacket s =
     (let s = sendto simSocket rtpEmpty (sendAddr s) s in
      if ice_muxRTCP s then s else sendto simRtcpSocket rtpEmpty (sendRtcpAddr s) s)"

text \<open>Once a packet has come from somewhere the address is not changed any more.\<close>

definition SetRemotePort :: "ip \<Rightarrow> int \<Rightarrow> ice_session \<Rightarrow> ice_session" where
  "SetRemotePort ipAddr sendPort s =
     (if recIP s \<noteq> INADDR_ANY then s
      else SendEmptyPacket
        (s\<lparr>sendAddr := \<lparr>sin_port = htons sendPort, sin_addr = ipAddr\<rparr>,
           sendRtcpAddr := \<lparr>sin_port = htons (if ice_muxRTCP s then sendPort else sendPort + 1), sin_addr = ipAddr\<rparr>\<rparr>))"

section \<open>STUN messages of the session\<close>

text \<open>A buffer of zeros of the size of the message is filled, and as many bytes are sent as were written.\<close>

definition serialised ::
  "(BYTE list \<Rightarrow> BYTE list \<Rightarrow> BYTE list) \<Rightarrow> BYTE list option \<Rightarrow> stun_message \<Rightarrow> BYTE list res" where
  "serialised HMAC pwd m =
     (let sz = stun_GetSize m; aux = replicate sz 0 in
      bindR (case pwd of
          Some pwd \<Rightarrow> AuthenticatedFingerPrint HMAC aux sz pwd m
        | None \<Rightarrow> NonAuthenticatedFingerPrint aux sz m) (\<lambda>(len, aux).
      copy_out 0 len aux))"

text \<open>The answer to a request, with the address it came from.\<close>

definition binding_response :: "stun_message \<Rightarrow> sockaddr \<Rightarrow> stun_message" where
  "binding_response m from_addr = AddXorAddressAttribute from_addr (CreateResponse m)"

text \<open>A request of the session's own, its identifier is made of the clock.\<close>

definition transaction :: "QWORD \<Rightarrow> BYTE list" where
  "transaction now = [0, 0, 0, 0] @ map (\<lambda>k. ucast (drop_bit (8 * k) now)) [7, 6, 5, 4, 3, 2, 1, 0]"

definition binding_request :: "QWORD \<Rightarrow> BYTE list option \<Rightarrow> BYTE list option \<Rightarrow> stun_message" where
  "binding_request now local remote =
     (let m = STUNMessage_new STUN_Request Method_Binding (transaction now);
          m = (case (local, remote) of (Some l, Some r) \<Rightarrow> AddUsernameAttribute l r m | _ \<Rightarrow> m);
          m = stun_AddAttribute (Attribute_QWORD Attr_IceControlled 1) m in
      stun_AddAttribute (Attribute_DWORD Attr_Priority 33554431) m)"

definition candidate_priority :: "stun_message \<Rightarrow> DWORD res" where
  "candidate_priority m =
     (if stun_HasAttribute Attr_Priority m then
        (case stun_GetAttribute Attr_Priority m of
           None \<Rightarrow> Fault NullDeref
         | Some a \<Rightarrow>
             if sa_size a = 4 then (case sa_value a of None \<Rightarrow> Fault NullDeref | Some xs \<Rightarrow> get4 xs 0) else Ok 0)
      else Ok 0)"

section \<open>A datagram arrives\<close>

text \<open>The request moves the session to its source.\<close>

definition follow_candidate ::
  "(BYTE list \<Rightarrow> BYTE list \<Rightarrow> BYTE list) \<Rightarrow> QWORD \<Rightarrow> BYTE list \<Rightarrow> sockaddr \<Rightarrow> bool \<Rightarrow> DWORD \<Rightarrow> ice_session \<Rightarrow> ice_session res" where
  "follow_candidate HMAC now hello from_addr use candPrio s =
     (let s = (if use then s\<lparr>ice_prio := candPrio\<rparr> else s);
          s = onFPURequested (s\<lparr>sendAddr := from_addr\<rparr>) in
      bindR (serialised HMAC (iceRemotePwd s) (binding_request now (iceLocalUsername s) (iceRemoteUsername s))) (\<lambda>xs.
      let s = sendto simSocket xs from_addr s in
      Ok (if hello \<noteq> [] then sendto simSocket hello from_addr s else s)))"

definition moves_address :: "sockaddr \<Rightarrow> bool \<Rightarrow> DWORD \<Rightarrow> ice_session \<Rightarrow> bool" where
  "moves_address from_addr use candPrio s \<longleftrightarrow>
     recIP s = INADDR_ANY \<or> recIP s = sin_addr from_addr \<and> sin_addr (sendAddr s) \<noteq> sin_addr from_addr \<or>
     use \<and> candPrio > ice_prio s"

definition on_binding_request ::
  "(BYTE list \<Rightarrow> BYTE list \<Rightarrow> BYTE list) \<Rightarrow> QWORD \<Rightarrow> BYTE list \<Rightarrow> sockaddr \<Rightarrow> stun_message \<Rightarrow> ice_session \<Rightarrow> ice_session res" where
  "on_binding_request HMAC now hello from_addr stun s =
     bindR (serialised HMAC (iceLocalPwd s) (binding_response stun from_addr)) (\<lambda>xs.
     let s = sendto simSocket xs from_addr s in
     bindR (candidate_priority stun) (\<lambda>candPrio.
     let use = stun_HasAttribute Attr_UseCandidate stun in
     if moves_address from_addr use candPrio s then follow_candidate HMAC now hello from_addr use candPrio s else Ok s))"

text \<open>
  \<open>ReadRTP\<close> and \<open>ReadRTCP\<close> for a datagram of \<open>sz\<close> bytes: \<open>None\<close> when it is no STUN message, otherwise the value
  returned and the session afterwards.
\<close>

definition ReadRTP_stun ::
  "(BYTE list \<Rightarrow> BYTE list \<Rightarrow> BYTE list) \<Rightarrow> QWORD \<Rightarrow> BYTE list \<Rightarrow> sockaddr \<Rightarrow> BYTE list \<Rightarrow> nat \<Rightarrow> ice_session \<Rightarrow>
     (bool \<times> ice_session) option res" where
  "ReadRTP_stun HMAC now hello from_addr buffer sz s =
     bindR (IsSTUN buffer sz) (\<lambda>b.
     if \<not> b then Ok None
     else
       bindR (STUN_Parse buffer sz) (\<lambda>r.
       case r of
         None \<Rightarrow> Ok (Some (False, s))
       | Some stun \<Rightarrow>
           bindR (if st_type stun = STUN_Request \<and> st_method stun = Method_Binding
                  then on_binding_request HMAC now hello from_addr stun s else Ok s) (\<lambda>s.
           Ok (Some (True, s)))))"

text \<open>The port for RTCP is given the address: the first two bytes of it in memory.\<close>

definition on_rtcp_binding_request ::
  "(BYTE list \<Rightarrow> BYTE list \<Rightarrow> BYTE list) \<Rightarrow> sockaddr \<Rightarrow> stun_message \<Rightarrow> ice_session \<Rightarrow> ice_session res" where
  "on_rtcp_binding_request HMAC from_addr stun s =
     bindR (serialised HMAC (iceLocalPwd s) (binding_response stun from_addr)) (\<lambda>xs.
     let s = sendto simRtcpSocket xs from_addr s in
     case sin_addr from_addr of (a0, a1, _) \<Rightarrow>
       Ok (s\<lparr>sendRtcpAddr := \<lparr>sin_port = (a0, a1), sin_addr = sin_addr from_addr\<rparr>\<rparr>))"

definition ReadRTCP_stun ::
  "(BYTE list \<Rightarrow> BYTE list \<Rightarrow> BYTE list) \<Rightarrow> sockaddr \<Rightarrow> BYTE list \<Rightarrow> nat \<Rightarrow> ice_session \<Rightarrow> (bool \<times> ice_session) option res" where
  "ReadRTCP_stun HMAC from_addr buffer sz s =
     bindR (IsSTUN buffer sz) (\<lambda>b.
     if \<not> b then Ok None
     else
       bindR (STUN_Parse buffer sz) (\<lambda>r.
       case r of
         None \<Rightarrow> Ok (Some (False, s))
       | Some stun \<Rightarrow>
           bindR (if st_type stun = STUN_Request \<and> st_method stun = Method_Binding
                  then on_rtcp_binding_request HMAC from_addr stun s else Ok s) (\<lambda>s.
           Ok (Some (True, s)))))"

text \<open>
  RTCP on the port of RTP turns multiplexing on, unless SRTP rejects it.  \<open>ReadRTP\<close> keeps the source of any other
  packet, \<open>ReadRTCP\<close> that of the first one, and RTCP on its own port turns multiplexing off.
\<close>

definition ReadRTP_rtcp :: "bool \<Rightarrow> ice_session \<Rightarrow> ice_session" where
  "ReadRTP_rtcp accepted s = (if accepted then s\<lparr>ice_muxRTCP := True\<rparr> else s)"

definition ReadRTP_source :: "sockaddr \<Rightarrow> ice_session \<Rightarrow> ice_session" where
  "ReadRTP_source from_addr s =
     (let s = (if recIP s \<noteq> sin_addr from_addr then onFPURequested s else s) in
      s\<lparr>recIP := sin_addr from_addr, recPort := sin_port from_addr\<rparr>)"

definition ReadRTCP_source :: "sockaddr \<Rightarrow> bool \<Rightarrow> ice_session \<Rightarrow> ice_session" where
  "ReadRTCP_source from_addr accepted s =
     (let s = (if sin_addr (sendRtcpAddr s) = INADDR_ANY then s\<lparr>sendRtcpAddr := from_addr\<rparr> else s) in
      if accepted then s\<lparr>ice_muxRTCP := False\<rparr> else s)"

text \<open>A DTLS packet is given to the DTLS connection, whose answer goes back.\<close>

definition IsDTLS :: "BYTE list \<Rightarrow> bool res" where
  "IsDTLS buffer = bindR (byte_at buffer 0) (\<lambda>b. Ok (20 \<le> b \<and> b \<le> 64))"

definition ReadRTP_dtls :: "BYTE list \<Rightarrow> sockaddr \<Rightarrow> ice_session \<Rightarrow> ice_session" where
  "ReadRTP_dtls answer from_addr s = (if answer \<noteq> [] then sendto simSocket answer from_addr s else s)"

text \<open>The whole of \<open>ReadRTP\<close> and of \<open>ReadRTCP\<close>, as far as addresses go; \<open>recvfrom\<close> has returned \<open>sz\<close>.\<close>

definition ReadRTP ::
  "(BYTE list \<Rightarrow> BYTE list \<Rightarrow> BYTE list) \<Rightarrow> QWORD \<Rightarrow> BYTE list \<Rightarrow> bool \<Rightarrow> sockaddr \<Rightarrow> BYTE list \<Rightarrow> nat \<Rightarrow> ice_session \<Rightarrow>
     ice_session res" where
  "ReadRTP HMAC now dtls accepted from_addr buffer sz s =
     (if sz = 0 then Ok s
      else
        bindR (ReadRTP_stun HMAC now dtls from_addr buffer sz s) (\<lambda>r.
        case r of
          Some (_, s) \<Rightarrow> Ok s
        | None \<Rightarrow>
            bindR (IsRTCP buffer sz) (\<lambda>rtcp.
            if rtcp then Ok (ReadRTP_rtcp accepted s)
            else bindR (IsDTLS buffer) (\<lambda>d.
              if d then Ok (ReadRTP_dtls dtls from_addr s)
              else bindR (IsRTP buffer (of_nat sz)) (\<lambda>rtp.
                Ok (if rtp then ReadRTP_source from_addr s else s))))))"

definition ReadRTCP ::
  "(BYTE list \<Rightarrow> BYTE list \<Rightarrow> BYTE list) \<Rightarrow> bool \<Rightarrow> sockaddr \<Rightarrow> BYTE list \<Rightarrow> nat \<Rightarrow> ice_session \<Rightarrow> ice_session res" where
  "ReadRTCP HMAC accepted from_addr buffer sz s =
     (if sz = 0 then Ok s
      else
        bindR (ReadRTCP_stun HMAC from_addr buffer sz s) (\<lambda>r.
        case r of
          Some (_, s) \<Rightarrow> Ok s
        | None \<Rightarrow> bindR (IsRTCP buffer sz) (\<lambda>rtcp. Ok (if rtcp then ReadRTCP_source from_addr accepted s else s))))"

section \<open>A packet is sent\<close>

text \<open>
  The start of \<open>SendPacket\<close>: the session sends to where packets come from when it has no address, \<open>False\<close> when it knows
  none.  \<open>aux\<close> is the buffer on the stack, its contents are whatever was there; the request may take 1350 bytes of it
  (\<open>RTPPAYLOADSIZE\<close>).
\<close>

definition SendPacket_address ::
  "(BYTE list \<Rightarrow> BYTE list \<Rightarrow> BYTE list) \<Rightarrow> QWORD \<Rightarrow> BYTE list \<Rightarrow> ice_session \<Rightarrow> (bool \<times> ice_session) res" where
  "SendPacket_address HMAC now aux s =
     (if sin_addr (sendAddr s) \<noteq> INADDR_ANY then Ok (True, s)
      else if recIP s \<noteq> INADDR_ANY then
        let s = s\<lparr>sendAddr := \<lparr>sin_port = recPort s, sin_addr = recIP s\<rparr>\<rparr> in
        (case (iceRemoteUsername s, iceRemotePwd s, iceLocalUsername s) of
           (Some r, Some pwd, Some l) \<Rightarrow>
             bindR (AuthenticatedFingerPrint HMAC aux 1350 pwd (binding_request now (Some l) (Some r)))
               (\<lambda>(len, aux).
             bindR (copy_out 0 len aux) (\<lambda>xs. Ok (True, sendto simSocket xs (sendAddr s) s)))
         | _ \<Rightarrow> Ok (True, s))
      else Ok (False, s))"

text \<open>
  The end of \<open>SendPacket\<close>, under \<open>sendMutex\<close>: the packet is kept for retransmissions by its extended number, sent as it is
  after SRTP (\<open>None\<close> when it cannot be protected), and those kept for too long are dropped.  The map of the kept packets
  is a list in the order of their numbers.
\<close>

fun keep_packet :: "DWORD \<Rightarrow> 'a \<Rightarrow> (DWORD \<times> 'a) list \<Rightarrow> (DWORD \<times> 'a) list" where
  "keep_packet ext p [] = [(ext, p)]"
| "keep_packet ext p ((n, q) # ps) =
     (if ext < n then (ext, p) # (n, q) # ps
      else if ext = n then (ext, p) # ps
      else (n, q) # keep_packet ext p ps)"

definition send_media ::
  "DWORD \<Rightarrow> QWORD \<Rightarrow> QWORD \<Rightarrow> BYTE list \<Rightarrow> BYTE list option \<Rightarrow> ice_session \<Rightarrow> ice_session" where
  "send_media ext time until packet protected s =
     (let s = (if ice_useNACK s then s\<lparr>ice_rtxs := keep_packet ext (time, packet) (ice_rtxs s)\<rparr> else s);
          s = (case protected of
                 None \<Rightarrow> s
               | Some xs \<Rightarrow> if xs \<noteq> [] then sendto simSocket xs (sendAddr s) s else s) in
      s\<lparr>ice_rtxs := dropWhile (\<lambda>(_, t, _). \<not> t > until) (ice_rtxs s)\<rparr>)"

text \<open>\<open>SendPacket\<close> for RTCP: \<open>None\<close> when the packet cannot be serialised or protected.\<close>

definition SendPacket_rtcp :: "BYTE list option \<Rightarrow> ice_session \<Rightarrow> bool \<times> ice_session" where
  "SendPacket_rtcp packet s =
     (if sin_addr (sendRtcpAddr s) = INADDR_ANY \<and> \<not> ice_muxRTCP s then (False, s)
      else (case packet of
          None \<Rightarrow> (False, s)
        | Some xs \<Rightarrow>
            (True, if ice_muxRTCP s then sendto simSocket xs (sendAddr s) s
                   else sendto simRtcpSocket xs (sendRtcpAddr s) s)))"

text \<open>The whole of \<open>SendPacket\<close>; \<open>report\<close> is the sender report when it is time for one.\<close>

definition SendPacket ::
  "(BYTE list \<Rightarrow> BYTE list \<Rightarrow> BYTE list) \<Rightarrow> QWORD \<Rightarrow> BYTE list \<Rightarrow> BYTE list option option \<Rightarrow> DWORD \<Rightarrow> QWORD \<Rightarrow> QWORD \<Rightarrow>
     BYTE list \<Rightarrow> BYTE list option \<Rightarrow> ice_session \<Rightarrow> ice_session res" where
  "SendPacket HMAC now aux report ext time until packet protected s =
     bindR (SendPacket_address HMAC now aux s) (\<lambda>(ok, s).
     if \<not> ok then Ok s
     else let s = (case report of None \<Rightarrow> s | Some rtcp \<Rightarrow> snd (SendPacket_rtcp rtcp s)) in
       Ok (if length packet > 1500 then s else send_media ext time until packet protected s))"

text \<open>
  A negative acknowledgement asks for a packet again.  \<open>resent\<close> is what becomes of the kept packet (the sending time, the
  header of the RTX stream), \<open>srtp\<close> is \<open>None\<close> without a session, and its function gives \<open>None\<close> when the packet cannot be
  protected.
\<close>

definition ReSendPacket ::
  "DWORD \<Rightarrow> DWORD \<Rightarrow> (BYTE list \<Rightarrow> BYTE list) \<Rightarrow> (BYTE list \<Rightarrow> BYTE list option) option \<Rightarrow> ice_session \<Rightarrow> ice_session" where
  "ReSendPacket cycles seq resent srtp s =
     (case map_of (ice_rtxs s) (push_bit 16 cycles OR seq) of
        None \<Rightarrow> onFPURequested s
      | Some (time, packet) \<Rightarrow>
          if length packet + 2 > 1500 then s
          else (case srtp of
              None \<Rightarrow> s
            | Some protect \<Rightarrow>
                (case protect (resent packet) of
                   None \<Rightarrow> onFPURequested s
                 | Some xs \<Rightarrow> if xs \<noteq> [] then sendto simSocket xs (sendAddr s) s else s)))"

end
