(* ===== verification/STUNProperties.thy ===== *)
theory STUNProperties
  imports STUN RTCPProperties
begin

unbundle bit_operations_syntax

text \<open>
  What a STUN message looks like in the buffer, that it is read back, and that a damaged one is refused.
\<close>

section \<open>Putting bytes into a buffer\<close>

lemma put_inside:
  "k = length a \<Longrightarrow> length b' = length b \<Longrightarrow> length (a @ b @ c) \<le> length d \<Longrightarrow>
     put_at k b' (put_at 0 (a @ b @ c) d) = put_at 0 (a @ b' @ c) d"
  by (simp add: put_at_def)

lemma put_gap:
  "length (a @ m) + k \<le> length d \<Longrightarrow>
     put_at (length a + k) m (put_at 0 a d) = put_at 0 (a @ take k (drop (length a) d) @ m) d"
  by (simp add: put_at_def ac_simps)

lemma put_after: "length a + length b \<le> length d \<Longrightarrow> put_at (length a) b (put_at 0 a d) = put_at 0 (a @ b) d"
  by (simp add: put_at_def ac_simps)

lemma put_at_0: "put_at 0 xs d = xs @ drop (length xs) d"
  by (simp add: put_at_def)

lemma put_at_own: "i + length xs + n \<le> length d \<Longrightarrow> put_at i (xs @ take n (drop (i + length xs) d)) d = put_at i xs d"
  by (simp add: put_at_def add.commute min_def) (metis append_take_drop_id drop_drop add.commute add.left_commute)

lemma drop_put_at: "i + length xs \<le> j \<Longrightarrow> j \<le> length d \<Longrightarrow> drop j (put_at i xs d) = drop j d"
  by (simp add: put_at_def)

section \<open>Attributes\<close>

definition value_bytes :: "stun_attribute \<Rightarrow> BYTE list" where
  "value_bytes a = (case sa_value a of None \<Rightarrow> [] | Some xs \<Rightarrow> take (unat (sa_size a)) xs)"

definition attribute_ok :: "stun_attribute \<Rightarrow> bool" where
  "attribute_ok a \<longleftrightarrow> length (value_bytes a) = unat (sa_size a)"

definition enc_attribute :: "stun_attribute \<Rightarrow> BYTE list" where
  "enc_attribute a = be2 (ucast (sa_type a)) @ be2 (ucast (sa_size a)) @ value_bytes a"

lemma length_enc_attribute: "attribute_ok a \<Longrightarrow> length (enc_attribute a) = 4 + unat (sa_size a)"
  by (simp add: enc_attribute_def attribute_ok_def)

lemma put_attribute_eq:
  assumes "attribute_ok a" "i + 4 + unat (sa_size a) \<le> length d"
  shows "put_attribute a (i, d) = Ok (pad32 (i + 4 + unat (sa_size a)), put_at i (enc_attribute a) d)"
proof -
  let ?h = "be2 (ucast (sa_type a)) @ be2 (ucast (sa_size a))"
  have "(case sa_value a of None \<Rightarrow> Ok (put_at i ?h d) | Some xs \<Rightarrow> copy_in (i + 4) (take (unat (sa_size a)) xs) (put_at i ?h d)) =
      Ok (put_at i (?h @ value_bytes a) d)"
    using assms by (cases "sa_value a") (simp_all add: value_bytes_def attribute_ok_def writes_bytes put_next)
  then show ?thesis using assms(2) by (simp add: put_attribute_def writes_bytes put_next enc_attribute_def)
qed

text \<open>
  The attributes in a buffer from the position \<open>i\<close> on: the bytes that pad an attribute are those the buffer had before.
\<close>

fun laid_out :: "BYTE list \<Rightarrow> nat \<Rightarrow> stun_attribute list \<Rightarrow> BYTE list" where
  "laid_out d i [] = []"
| "laid_out d i (a # as) =
     (let j = i + 4 + unat (sa_size a) in
      enc_attribute a @ take (pad32 j - j) (drop j d) @ laid_out d (pad32 j) as)"

definition end_of :: "nat \<Rightarrow> stun_attribute list \<Rightarrow> nat" where
  "end_of i as = fold (\<lambda>a n. pad32 (n + 4 + unat (sa_size a))) as i"

lemma end_of_simps [simp]: "end_of i [] = i" "end_of i (a # as) = end_of (pad32 (i + 4 + unat (sa_size a))) as"
  by (simp_all add: end_of_def)

lemma end_of_ge: "i \<le> end_of i as"
proof (induction as arbitrary: i)
  case (Cons a as)
  have "i \<le> pad32 (i + 4 + unat (sa_size a))" using pad32_gt [of i "unat (sa_size a)"] by simp
  also have "\<dots> \<le> end_of (pad32 (i + 4 + unat (sa_size a))) as" by (rule Cons.IH)
  finally show ?case by simp
qed simp

lemma pad32_add: "k mod 4 = 0 \<Longrightarrow> pad32 (n + k) = pad32 n + k"
proof -
  assume k: "k mod 4 = 0"
  then have m: "(n + k) mod 4 = n mod 4" by presburger
  have "n mod 4 \<le> n" by (rule mod_less_eq_dividend)
  then show ?thesis unfolding pad32_def m by (auto simp: ac_simps)
qed

lemma end_of_add: "k mod 4 = 0 \<Longrightarrow> end_of (i + k) as = end_of i as + k"
proof (induction as arbitrary: i)
  case (Cons a as)
  then have "pad32 (i + k + 4 + unat (sa_size a)) = pad32 (i + 4 + unat (sa_size a)) + k"
    using pad32_add [of k "i + 4 + unat (sa_size a)"] by (simp add: ac_simps)
  with Cons show ?case by simp
qed simp

lemma GetSize_end: "stun_GetSize m = end_of 20 (st_attributes m) + 32"
  using end_of_add [of 32 20 "st_attributes m"] by (simp add: stun_GetSize_def end_of_def)

lemma end_of_mod: "i mod 4 = 0 \<Longrightarrow> end_of i as mod 4 = 0"
  by (induction as arbitrary: i) simp_all

lemma laid_out_cong: "(\<And>j. j \<ge> i \<Longrightarrow> drop j d = drop j d') \<Longrightarrow> laid_out d i as = laid_out d' i as"
proof (induction as arbitrary: i)
  case (Cons a as)
  have "pad32 (i + 4 + unat (sa_size a)) \<ge> i" using pad32_gt [of i "unat (sa_size a)"] by simp
  then have "laid_out d (pad32 (i + 4 + unat (sa_size a))) as = laid_out d' (pad32 (i + 4 + unat (sa_size a))) as"
    using Cons.prems by (intro Cons.IH) auto
  then show ?case using Cons.prems by (simp add: Let_def)
qed simp

lemma length_laid_out:
  "list_all attribute_ok as \<Longrightarrow> end_of i as \<le> length d \<Longrightarrow> i + length (laid_out d i as) = end_of i as"
proof (induction as arbitrary: i)
  case (Cons a as)
  let ?j = "i + 4 + unat (sa_size a)"
  have "?j \<le> pad32 ?j" "pad32 ?j \<le> length d"
    using pad32_ge [of ?j] end_of_ge [of "pad32 ?j" as] Cons.prems by auto
  moreover have "pad32 ?j + length (laid_out d (pad32 ?j) as) = end_of (pad32 ?j) as" using Cons by simp
  moreover have "length (take (pad32 ?j - ?j) (drop ?j d)) = pad32 ?j - ?j" using calculation(2) by simp
  ultimately show ?case using Cons.prems
    by (simp only: laid_out.simps Let_def length_append length_enc_attribute list.pred_inject end_of_simps)
qed simp

lemma put_attributes_eq:
  "list_all attribute_ok as \<Longrightarrow> end_of i as \<le> length d \<Longrightarrow>
     foldR put_attribute as (i, d) = Ok (end_of i as, put_at i (laid_out d i as) d)"
proof (induction as arbitrary: i d)
  case (Cons a as)
  let ?j = "i + 4 + unat (sa_size a)" and ?e = "enc_attribute a"
  let ?p = "take (pad32 ?j - ?j) (drop ?j d)" and ?d = "put_at i ?e d"
  have j: "?j \<le> pad32 ?j" "pad32 ?j \<le> length d"
    using pad32_ge [of ?j] end_of_ge [of "pad32 ?j" as] Cons.prems by auto
  have e: "length ?e = 4 + unat (sa_size a)" using Cons.prems by (simp add: length_enc_attribute)
  have put: "put_attribute a (i, d) = Ok (pad32 ?j, ?d)" using Cons.prems j by (intro put_attribute_eq) auto
  have len: "length ?d = length d" using e j by simp
  have own: "?d = put_at i (?e @ ?p) d" using put_at_own [of i ?e "pad32 ?j - ?j" d] e j by (simp add: add.assoc)
  have "drop k ?d = drop k d" if "k \<ge> pad32 ?j" for k
  proof (cases "k \<le> length d")
    case True
    then show ?thesis using that e j by (intro drop_put_at) auto
  qed (simp add: len)
  then have l: "laid_out ?d (pad32 ?j) as = laid_out d (pad32 ?j) as" by (rule laid_out_cong)
  have "foldR put_attribute (a # as) (i, d) = Ok (end_of (pad32 ?j) as, put_at (pad32 ?j) (laid_out d (pad32 ?j) as) ?d)"
    using Cons.IH [of "pad32 ?j" ?d] Cons.prems by (simp add: put len l)
  also have "put_at (pad32 ?j) (laid_out d (pad32 ?j) as) ?d = put_at i (laid_out d i (a # as)) d"
    unfolding own using e j by (simp add: put_next Let_def)
  finally show ?case by simp
qed (simp add: put_at_Nil)

section \<open>Writing\<close>

definition message_ok :: "stun_message \<Rightarrow> bool" where
  "message_ok m \<longleftrightarrow>
     length (st_transId m) = 12 \<and> st_method m AND 0x0FFF = st_method m \<and>
     list_all (\<lambda>a. attribute_ok a \<and> sa_type a \<noteq> Attr_MessageIntegrity \<and> sa_type a \<noteq> Attr_FingerPrint) (st_attributes m) \<and>
     stun_GetSize m < 2 ^ 16"

lemma message_okD:
  assumes "message_ok m"
  shows "length (st_transId m) = 12" "st_method m AND 0x0FFF = st_method m" "list_all attribute_ok (st_attributes m)"
    "list_all (\<lambda>a. sa_type a \<noteq> Attr_MessageIntegrity \<and> sa_type a \<noteq> Attr_FingerPrint) (st_attributes m)"
    "stun_GetSize m < 2 ^ 16"
  using assms by (auto simp: message_ok_def list_all_iff)

definition enc_head :: "DWORD \<Rightarrow> stun_message \<Rightarrow> BYTE list" where
  "enc_head n m = be2 (type_field (st_type m) (st_method m)) @ be2 n @ MagicCookie @ st_transId m"

lemma length_enc_head: "length (st_transId m) = 12 \<Longrightarrow> length (enc_head n m) = 20"
  by (simp add: enc_head_def MagicCookie_def)

text \<open>The header and the attributes, in a buffer \<open>d\<close>.\<close>

definition enc_body :: "BYTE list \<Rightarrow> DWORD \<Rightarrow> stun_message \<Rightarrow> BYTE list" where
  "enc_body d n m = enc_head n m @ laid_out d 20 (st_attributes m)"

lemma length_enc_body:
  assumes "message_ok m" "end_of 20 (st_attributes m) \<le> length d"
  shows "length (enc_body d n m) = end_of 20 (st_attributes m)"
  using length_laid_out [OF message_okD(3) [OF assms(1)] assms(2)] message_okD(1) [OF assms(1)]
  by (simp add: enc_body_def length_enc_head)

lemma put_message_eq:
  assumes ok: "message_ok m" and d: "end_of 20 (st_attributes m) \<le> length d"
  shows "put_message n m d = Ok (end_of 20 (st_attributes m), put_at 0 (enc_body d n m) d)"
proof -
  have h: "length (enc_head n m) = 20" using length_enc_head message_okD(1) [OF ok] by blast
  have l: "20 \<le> length d" using d end_of_ge [of 20 "st_attributes m"] by simp
  let ?d = "put_at 0 (enc_head n m) d"
  have "length ?d = length d" using h l by simp
  moreover have "laid_out ?d 20 (st_attributes m) = laid_out d 20 (st_attributes m)"
  proof (rule laid_out_cong)
    fix j :: nat assume "j \<ge> 20"
    then show "drop j ?d = drop j d" by (simp add: put_at_0 h)
  qed
  ultimately have "foldR put_attribute (st_attributes m) (20, ?d) =
      Ok (end_of 20 (st_attributes m), put_at 20 (laid_out d 20 (st_attributes m)) ?d)"
    using put_attributes_eq [OF message_okD(3) [OF ok], of 20 ?d] d by simp
  moreover have "put_at 20 (laid_out d 20 (st_attributes m)) ?d = put_at 0 (enc_body d n m) d"
    using h l by (simp add: put_next enc_body_def)
  moreover have "put_message n m d = foldR put_attribute (st_attributes m) (20, ?d)"
    using l message_okD(1) [OF ok] by (simp add: put_message_def enc_head_def writes_bytes put_next MagicCookie_def)
  ultimately show ?thesis by simp
qed

text \<open>What follows the attributes, given the HMAC and the checksum.\<close>

definition enc_integrity :: "BYTE list \<Rightarrow> BYTE list" where
  "enc_integrity mac = be2 (ucast Attr_MessageIntegrity) @ be2 20 @ mac"

definition enc_fingerprint :: "DWORD \<Rightarrow> BYTE list" where
  "enc_fingerprint crc = be2 (ucast Attr_FingerPrint) @ be2 4 @ be4 crc"

definition checksum :: "BYTE list \<Rightarrow> DWORD" where
  "checksum xs = CRC_Update xs 0 XOR 0x5354554e"

lemma put_size:
  assumes "length (st_transId m) = 12" "length (enc_body b n m @ xs) \<le> length d"
  shows "set2 (put_at 0 (enc_body b n m @ xs) d) 2 n' = Ok (put_at 0 (enc_body b n' m @ xs) d)"
proof -
  let ?f = "be2 (type_field (st_type m) (st_method m))"
  have e: "enc_body b n m @ xs = ?f @ be2 n @ (MagicCookie @ st_transId m @ laid_out b 20 (st_attributes m) @ xs)" for n
    by (simp add: enc_body_def enc_head_def)
  have "put_at 2 (be2 n') (put_at 0 (enc_body b n m @ xs) d) = put_at 0 (enc_body b n' m @ xs) d"
    using assms(2) unfolding e by (intro put_inside) simp_all
  moreover have "2 + 2 \<le> length (put_at 0 (enc_body b n m @ xs) d)"
    using assms by (simp add: enc_body_def length_enc_head)
  ultimately show ?thesis by (simp only: writes_bytes)
qed

lemma copy_front: "length xs \<le> length d \<Longrightarrow> n = length xs \<Longrightarrow> copy_out 0 n (put_at 0 xs d) = Ok xs"
  by (simp add: copy_out_def put_at_0)

lemma put_integrity_eq:
  assumes "n = length xs" "length mac = 20" "n + 24 \<le> length d"
  shows "put_integrity n mac (put_at 0 xs d) = Ok (put_at 0 (xs @ enc_integrity mac) d)"
proof -
  define g where "g = take 4 (drop n d)"
  have g: "length g = 4" using assms by (simp add: g_def)
  have g2: "take 2 g @ drop 2 g @ mac = g @ mac" by (simp flip: append_assoc)
  have "copy_in (n + 4) mac (put_at 0 xs d) = Ok (put_at 0 (xs @ g @ mac) d)"
    using assms put_gap [of xs mac 4 d] by (simp add: writes_bytes g_def)
  moreover have "set2 (put_at 0 (xs @ g @ mac) d) n v = Ok (put_at 0 (xs @ be2 v @ drop 2 g @ mac) d)" for v
    using put_inside [of n xs "be2 v" "take 2 g" "drop 2 g @ mac" d] assms g g2 by (simp add: writes_bytes)
  moreover have "set2 (put_at 0 (xs @ be2 v @ drop 2 g @ mac) d) (n + 2) w = Ok (put_at 0 (xs @ be2 v @ be2 w @ mac) d)" for v w
    using put_inside [of "n + 2" "xs @ be2 v" "be2 w" "drop 2 g" mac d] assms g by (simp add: writes_bytes)
  ultimately show ?thesis using assms(2) by (simp add: put_integrity_def enc_integrity_def)
qed

lemma put_fingerprint_eq:
  assumes "n = length xs" "n + 8 \<le> length d"
  shows "put_fingerprint n crc (put_at 0 xs d) = Ok (put_at 0 (xs @ enc_fingerprint crc) d)"
  using assms by (simp add: put_fingerprint_def writes_bytes put_next enc_fingerprint_def)

text \<open>All but the fingerprint of an authenticated message.  The HMAC is that of the message up to it with a length that
does not count the fingerprint.\<close>

definition enc_authenticated ::
  "(BYTE list \<Rightarrow> BYTE list \<Rightarrow> BYTE list) \<Rightarrow> BYTE list \<Rightarrow> BYTE list \<Rightarrow> stun_message \<Rightarrow> BYTE list" where
  "enc_authenticated HMAC pwd d m =
     (let n = of_nat (stun_GetSize m) in
      enc_body d (n - 20) m @ enc_integrity (HMAC pwd (enc_body d (n - 28) m)))"

lemma size_word:
  "n < 2 ^ 16 \<Longrightarrow> unat (of_nat n :: WORD) = n" "n < 2 ^ 16 \<Longrightarrow> ucast (of_nat n :: WORD) = (of_nat n :: DWORD)"
  by (simp_all add: unat_of_nat take_bit_nat_eq_self unsigned_of_nat)

lemma Authenticated_eq:
  assumes ok: "message_ok m" and d: "stun_GetSize m \<le> sz" "stun_GetSize m \<le> length d"
    and mac: "\<And>k x. length (HMAC k x) = 20"
  shows "AuthenticatedFingerPrint HMAC d sz pwd m =
    Ok (stun_GetSize m, put_at 0 (enc_authenticated HMAC pwd d m @ enc_fingerprint (checksum (enc_authenticated HMAC pwd d m))) d)"
proof -
  define n where "n = (of_nat (stun_GetSize m) :: DWORD)"
  define xs where "xs = enc_authenticated HMAC pwd d m"
  have xs_eq: "xs = enc_body d (n - 20) m @ enc_integrity (HMAC pwd (enc_body d (n - 28) m))"
    by (simp add: xs_def enc_authenticated_def n_def Let_def)
  define e where "e = end_of 20 (st_attributes m)"
  have e: "stun_GetSize m = e + 32" "e + 32 \<le> length d" "e mod 4 = 0"
    using d end_of_mod [of 20] by (simp_all add: GetSize_end e_def)
  let ?n = "of_nat (stun_GetSize m) :: WORD"
  have guard: "\<not> sz < unat ?n" and n: "ucast ?n = n"
    using size_word [OF message_okD(5) [OF ok]] d(1) by (simp_all add: n_def)
  have l: "length (enc_body d k m) = e" for k using length_enc_body [OF ok] e by (simp add: e_def)
  have pads: "pad32 (e + 4 + 20) = e + 24" "pad32 (e + 24 + 8) = e + 32"
    using e(3) pad32_add [of 24 e] pad32_add [of 32 e] pad32_same [of e] by (simp_all add: add.assoc)
  have sub: "n - 20 - 8 = n - 28" by simp
  let ?mac = "HMAC pwd (enc_body d (n - 28) m)"
  have s0: "put_message (n - 20) m d = Ok (e, put_at 0 (enc_body d (n - 20) m) d)"
    using put_message_eq [OF ok] e(2) by (simp add: e_def)
  have s1: "set2 (put_at 0 (enc_body d (n - 20) m) d) 2 (n - 28) = Ok (put_at 0 (enc_body d (n - 28) m) d)"
    using put_size [OF message_okD(1) [OF ok], of d "n - 20" "[]" d "n - 28"] l e by simp
  have s2: "copy_out 0 e (put_at 0 (enc_body d (n - 28) m) d) = Ok (enc_body d (n - 28) m)"
    using e(2) by (intro copy_front) (simp_all add: l)
  have s3: "put_integrity e ?mac (put_at 0 (enc_body d (n - 28) m) d) = Ok (put_at 0 (enc_body d (n - 28) m @ enc_integrity ?mac) d)"
    using e(2) by (intro put_integrity_eq) (simp_all add: l mac)
  have s4: "set2 (put_at 0 (enc_body d (n - 28) m @ enc_integrity ?mac) d) 2 (n - 20) = Ok (put_at 0 xs d)"
    unfolding xs_eq using e by (intro put_size message_okD(1) [OF ok]) (simp add: l mac enc_integrity_def)
  have lx: "length xs = e + 24" by (simp add: xs_eq l mac enc_integrity_def)
  have s5: "copy_out 0 (e + 24) (put_at 0 xs d) = Ok xs"
    using e(2) by (intro copy_front) (simp_all add: lx)
  have s6: "put_fingerprint (e + 24) (checksum xs) (put_at 0 xs d) = Ok (put_at 0 (xs @ enc_fingerprint (checksum xs)) d)"
    using e(2) by (intro put_fingerprint_eq) (simp_all add: lx)
  show ?thesis
    unfolding AuthenticatedFingerPrint_def Let_def n if_not_P [OF guard] s0 bindR.simps prod.case sub s1 s2 s3 mac pads s4 s5
      checksum_def [symmetric] s6 xs_def [symmetric] unfolding e(1) ..
qed

lemma NonAuthenticated_eq:
  assumes ok: "message_ok m" and d: "stun_GetSize m - 32 \<le> sz" "stun_GetSize m - 32 \<le> length d"
  shows "NonAuthenticatedFingerPrint d sz m =
    Ok (stun_GetSize m - 32, put_at 0 (enc_body d (of_nat (stun_GetSize m) - 52) m) d)"
proof -
  let ?e = "end_of 20 (st_attributes m)"
  have e: "stun_GetSize m = ?e + 32" by (rule GetSize_end)
  have w: "of_nat (stun_GetSize m) - 24 - 8 = (of_nat ?e :: WORD)" by (simp add: e)
  have u: "unat (of_nat ?e :: WORD) = ?e" "ucast (of_nat ?e :: WORD) = (of_nat ?e :: DWORD)"
    using message_okD(5) [OF ok] e by (simp_all add: size_word)
  show ?thesis
    using d by (simp add: NonAuthenticatedFingerPrint_def Let_def w u e put_message_eq [OF ok])
qed

section \<open>The type and the method\<close>

lemma take_bit_16: "ucast (take_bit 16 v) = (ucast (v :: DWORD) :: WORD)" "ucast (ucast w :: DWORD) = (w :: WORD)"
  by (rule bit_word_eqI; simp add: bit_simps)+

lemma bit_field:
  "bit (v AND push_bit k (mask l)) n \<longleftrightarrow> k \<le> n \<and> n < k + l \<and> bit (v :: 'a::len word) n"
  by (auto simp: bit_simps dest: bit_imp_le_length)

lemma fields:
  "(0x000f :: 'a::len word) = push_bit 0 (mask 4)" "(0x00e0 :: 'a word) = push_bit 5 (mask 3)" "(0x3E00 :: 'a word) = push_bit 9 (mask 5)"
  "(0x0f80 :: 'a word) = push_bit 7 (mask 5)" "(0x0070 :: 'a word) = push_bit 4 (mask 3)"
  "(0x0002 :: 'a word) = push_bit 1 (mask 1)" "(0x0001 :: 'a word) = push_bit 0 (mask 1)" "(0x0010 :: 'a word) = push_bit 4 (mask 1)"
  "(0x0FFF :: 'a word) = push_bit 0 (mask 12)" "(0x00C0 :: 'a word) = push_bit 6 (mask 2)"
  by (simp_all add: mask_eq_exp_minus_1 push_bit_eq_mult)

lemma method_bits:
  "bit (method_of_field f) n \<longleftrightarrow>
     n < 4 \<and> bit f n \<or> 4 \<le> n \<and> n < 7 \<and> bit f (n + 1) \<or> 7 \<le> n \<and> n < 12 \<and> bit f (n + 2)"
  unfolding method_of_field_def fields bit_or_iff bit_drop_bit_eq o_apply bit_field by (auto simp: add.commute dest: bit_imp_le_length)

lemma type_field_bits:
  "bit (type_field t m) n \<longleftrightarrow>
     n < 4 \<and> bit m n \<or> n = 4 \<and> bit (type_number t) 0 \<or> 5 \<le> n \<and> n < 8 \<and> bit m (n - 1) \<or> n = 8 \<and> bit (type_number t) 1 \<or>
     9 \<le> n \<and> n < 14 \<and> bit m (n - 2)"
proof -
  have "bit (push_bit k (w AND push_bit a (mask l))) n \<longleftrightarrow> k + a \<le> n \<and> n < k + a + l \<and> n < 32 \<and> bit w (n - k)" for k a l and w :: DWORD
    unfolding bit_push_bit_iff bit_field by (auto simp: bit_simps dest: bit_imp_le_length)
  note p = this
  have u: "bit (ucast w :: DWORD) k \<longleftrightarrow> bit (w :: WORD) k" for w k by (auto simp: bit_simps dest: bit_imp_le_length)
  show ?thesis
    unfolding type_field_def fields bit_or_iff p bit_field u
    by (auto simp: numeral_eq_Suc less_Suc_eq)
qed

lemma method_of_type_field:
  assumes "m AND 0x0FFF = m"
  shows "method_of_field (ucast (type_field t m)) = m"
proof (rule bit_word_eqI)
  fix n :: nat
  have h: "bit m k \<Longrightarrow> k < 12" for k using bit_field [of m 0 12 k] assms unfolding fields by simp
  have u: "bit (ucast (type_field t m) :: WORD) k \<longleftrightarrow> k < 16 \<and> bit (type_field t m) k" for k by (auto simp: bit_ucast_iff)
  consider "n < 4" | "4 \<le> n" "n < 7" | "7 \<le> n" "n < 12" | "12 \<le> n" by linarith
  then show "bit (method_of_field (ucast (type_field t m))) n \<longleftrightarrow> bit m n"
  proof cases
    case 4
    then show ?thesis using h [of n] unfolding method_bits by auto
  qed (simp_all add: method_bits u type_field_bits)
qed

lemma type_of_type_field: "type_of_bytes (ucast (drop_bit 8 (type_field t m))) (ucast (type_field t m)) = t"
proof -
  let ?b0 = "ucast (drop_bit 8 (type_field t m)) :: BYTE" and ?b1 = "ucast (type_field t m) :: BYTE"
  have "type_number t AND push_bit 0 (mask 2) = type_number t" by (cases t) (simp_all add: mask_eq_exp_minus_1)
  then have t: "bit (type_number t) k \<Longrightarrow> k < 2" for k using bit_field [of "type_number t" 0 2 k] by simp
  have "push_bit 1 (ucast ?b0 AND 0x01) OR drop_bit 4 (ucast ?b1 AND 0x10) = type_number t"
  proof (rule bit_word_eqI)
    fix n assume "n < LENGTH(16)"
    have "bit (push_bit 1 (ucast ?b0 AND 0x01) OR drop_bit 4 (ucast ?b1 AND 0x10) :: WORD) n \<longleftrightarrow>
        n = 1 \<and> bit ?b0 0 \<or> n = 0 \<and> bit ?b1 4"
      unfolding fields bit_or_iff bit_push_bit_iff bit_drop_bit_eq o_apply bit_field by (auto simp: bit_ucast_iff)
    also have "\<dots> \<longleftrightarrow> n = 1 \<and> bit (type_number t) 1 \<or> n = 0 \<and> bit (type_number t) 0"
      by (simp add: bit_ucast_iff bit_drop_bit_eq type_field_bits)
    also have "\<dots> \<longleftrightarrow> bit (type_number t) n" using t [of n] by (auto simp: less_2_cases_iff)
    finally show "bit (push_bit 1 (ucast ?b0 AND 0x01) OR drop_bit 4 (ucast ?b1 AND 0x10) :: WORD) n \<longleftrightarrow> bit (type_number t) n" .
  qed
  then show ?thesis unfolding type_of_bytes_def by (cases t) (simp_all add: type_of_number_def)
qed

lemma first_bits_zero: "(ucast (drop_bit 8 (type_field t m)) :: BYTE) AND 0xC0 = 0"
  by (rule bit_word_eqI) (auto simp: fields bit_field bit_ucast_iff bit_drop_bit_eq type_field_bits)

section \<open>Reading\<close>

text \<open>What is read for an attribute: no value and an empty one are the same.\<close>

definition as_read :: "stun_attribute \<Rightarrow> stun_attribute" where
  "as_read a = a\<lparr>sa_value := Some (value_bytes a)\<rparr>"

lemma Attribute_new_read: "attribute_ok a \<Longrightarrow> Attribute_new (sa_type a) (Some (value_bytes a)) = as_read a"
  by (simp add: Attribute_new_def as_read_def attribute_ok_def)

lemma get2_field: "drop i d = be2 (ucast (w :: WORD)) @ rest \<Longrightarrow> bindR (get2 d i) (\<lambda>t. f (ucast t :: WORD)) = f w"
  using get2_at [of i d "ucast w" rest] by (simp add: take_bit_16)

lemma parse_attribute:
  assumes d: "drop i d = be2 (ucast t) @ be2 (ucast (n :: WORD)) @ xs @ rest" and n: "length xs = unat n"
    and sz: "i + 4 + unat n \<le> sz" and h: "h \<longrightarrow> t = Attr_FingerPrint"
  shows "parse_attributes d sz i h None as =
    parse_attributes d sz (pad32 (i + 4 + unat n)) (h \<or> t = Attr_MessageIntegrity)
      (if t = Attr_FingerPrint then Some i else None) (as @ [Attribute_new t (Some xs)])"
proof -
  have d2: "drop (i + 2) d = be2 (ucast n) @ xs @ rest" using drop_past [OF d] by simp
  have d4: "drop (i + 4) d = xs @ rest" using drop_past [OF d2] by (simp add: eval_nat_numeral)
  have l: "i + 4 \<le> length d"
  proof -
    have "length (drop i d) \<ge> 4" unfolding d by simp
    then show ?thesis by simp
  qed
  have c: "copy_out (i + 4) (unat n) d = Ok xs" using copy_out_at [OF d4 l] by (simp add: n)
  have g: "get2 d i = Ok (take_bit 16 (ucast t))" "get2 d (i + 2) = Ok (take_bit 16 (ucast n))"
    using get2_at [OF d] get2_at [OF d2] by simp_all
  have b: "i + 4 \<le> sz" "\<not> sz < i + 4 + unat n" using sz by simp_all
  show ?thesis
    by (subst parse_attributes.simps)
      (use h in \<open>simp only: g take_bit_16 c b bindR.simps Let_def if_True if_False not_True_eq_False simp_thms, auto\<close>)
qed

lemma parse_laid_out:
  assumes "list_all attribute_ok as" "list_all (\<lambda>a. sa_type a \<noteq> Attr_MessageIntegrity \<and> sa_type a \<noteq> Attr_FingerPrint) as"
    and "drop i d = laid_out b i as @ rest" "end_of i as \<le> sz" "end_of i as \<le> length b"
  shows "parse_attributes d sz i False None acc = parse_attributes d sz (end_of i as) False None (acc @ map as_read as)"
  using assms
proof (induction as arbitrary: i acc)
  case (Cons a as)
  let ?j = "i + 4 + unat (sa_size a)"
  let ?pad = "take (pad32 ?j - ?j) (drop ?j b)"
  have ok: "attribute_ok a" "sa_type a \<noteq> Attr_MessageIntegrity" "sa_type a \<noteq> Attr_FingerPrint" using Cons.prems by simp_all
  have j: "?j \<le> pad32 ?j" "pad32 ?j \<le> end_of (pad32 ?j) as" using pad32_ge end_of_ge by blast+
  have d: "drop i d = be2 (ucast (sa_type a)) @ be2 (ucast (sa_size a)) @ value_bytes a @ ?pad @ laid_out b (pad32 ?j) as @ rest"
    using Cons.prems(3) by (simp add: Let_def enc_attribute_def)
  have "parse_attributes d sz i False None acc = parse_attributes d sz (pad32 ?j) False None (acc @ [as_read a])"
    using parse_attribute [OF d _ _, of sz False acc] ok j Cons.prems(4) by (simp add: attribute_ok_def Attribute_new_read)
  also have "drop (pad32 ?j) d = laid_out b (pad32 ?j) as @ rest"
  proof -
    have e: "drop i d = (enc_attribute a @ ?pad) @ laid_out b (pad32 ?j) as @ rest" using Cons.prems(3) by (simp add: Let_def)
    have "length (enc_attribute a @ ?pad) = pad32 ?j - i"
      using j Cons.prems(5) by (simp add: length_enc_attribute [OF ok(1)])
    then show ?thesis using drop_past [OF e] j(1) by simp
  qed
  then have "parse_attributes d sz (pad32 ?j) False None (acc @ [as_read a]) =
      parse_attributes d sz (end_of i (a # as)) False None (acc @ map as_read (a # as))"
    using Cons.IH [of "pad32 ?j" "acc @ [as_read a]"] Cons.prems by simp
  finally show ?case .
qed simp

lemma check_message_cong: "check_message d sz (m\<lparr>st_attributes := []\<rparr>) = check_message d sz m"
  by (rule ext) (auto simp: check_message_def Let_def split: option.splits)

lemma parse_written:
  assumes ok: "message_ok m" and sz: "20 \<le> sz"
  shows "STUN_Parse (enc_head n m @ rest) sz =
    bindR (parse_attributes (enc_head n m @ rest) sz 20 False None []) (check_message (enc_head n m @ rest) sz m)"
proof -
  let ?d = "enc_head n m @ rest" and ?f = "type_field (st_type m) (st_method m)"
  have t: "length (st_transId m) = 12" by (rule message_okD(1) [OF ok])
  have b: "byte_at ?d 0 = Ok (ucast (drop_bit 8 ?f))" "byte_at ?d 1 = Ok (ucast ?f)"
    by (simp_all add: byte_at_def enc_head_def be2_def)
  have g: "get2 ?d 0 = Ok (take_bit 16 ?f)" using get2_at [of 0 ?d ?f] by (simp add: enc_head_def)
  have c: "copy_out 4 4 ?d = Ok MagicCookie" by (simp add: copy_out_def enc_head_def be2_def MagicCookie_def)
  have i: "copy_out 8 12 ?d = Ok (st_transId m)" by (simp add: copy_out_def enc_head_def be2_def MagicCookie_def t)
  have "IsSTUN ?d sz = Ok True" using sz by (simp only: IsSTUN_def b c first_bits_zero bindR.simps) simp
  moreover have "STUNMessage_new (type_of_bytes (ucast (drop_bit 8 ?f)) (ucast ?f)) (method_of_field (ucast (take_bit 16 ?f))) (st_transId m)
      = m\<lparr>st_attributes := []\<rparr>"
    using t unfolding take_bit_16 type_of_type_field method_of_type_field [OF message_okD(2) [OF ok]]
    by (simp add: STUNMessage_new_def)
  ultimately show ?thesis
    unfolding STUN_Parse_def g i b Let_def by (simp add: check_message_cong)
qed

lemma parse_end: "sz < i + 4 \<Longrightarrow> parse_attributes d sz i h fp as = Ok (Some (i, fp, as))"
  by (subst parse_attributes.simps) simp

lemma parse_body:
  assumes ok: "message_ok m" and b: "end_of 20 (st_attributes m) \<le> length b" "end_of 20 (st_attributes m) \<le> sz"
  shows "STUN_Parse (enc_body b n m @ rest) sz =
    bindR (parse_attributes (enc_body b n m @ rest) sz (end_of 20 (st_attributes m)) False None (map as_read (st_attributes m)))
      (check_message (enc_body b n m @ rest) sz m)"
proof -
  have h: "drop 20 (enc_body b n m @ rest) = laid_out b 20 (st_attributes m) @ rest"
    using length_enc_head [OF message_okD(1) [OF ok], of n] by (simp add: enc_body_def)
  have "20 \<le> sz" using end_of_ge [of 20 "st_attributes m"] b(2) by simp
  with parse_written [OF ok, of sz n "laid_out b 20 (st_attributes m) @ rest"]
    parse_laid_out [OF message_okD(3,4) [OF ok] h b(2,1), of "[]"]
  show ?thesis by (simp add: enc_body_def)
qed

text \<open>A message as \<open>Parse\<close> gives it back.\<close>

definition message_read :: "stun_attribute list \<Rightarrow> stun_message \<Rightarrow> stun_message" where
  "message_read extra m = m\<lparr>st_attributes := map as_read (st_attributes m) @ extra\<rparr>"

definition integrity_attribute :: "BYTE list \<Rightarrow> stun_attribute" where
  "integrity_attribute mac = \<lparr>sa_type = Attr_MessageIntegrity, sa_size = 20, sa_value = Some mac\<rparr>"

definition fingerprint_attribute :: "DWORD \<Rightarrow> stun_attribute" where
  "fingerprint_attribute crc = \<lparr>sa_type = Attr_FingerPrint, sa_size = 4, sa_value = Some (be4 crc)\<rparr>"

lemma parse_plain:
  assumes ok: "message_ok m" and b: "end_of 20 (st_attributes m) \<le> length b"
  shows "STUN_Parse (enc_body b n m @ rest) (end_of 20 (st_attributes m)) = Ok (Some (message_read [] m))"
  using parse_body [OF ok b order.refl, of n rest] by (simp add: parse_end check_message_def message_read_def)

lemma parse_tail:
  assumes ok: "message_ok m" and b: "stun_GetSize m \<le> length b" and mac: "length mac = 20"
  shows "parse_attributes (enc_body b n m @ enc_integrity mac @ enc_fingerprint crc @ rest) (stun_GetSize m) 20 False None [] =
    Ok (Some (stun_GetSize m, Some (stun_GetSize m - 8),
      map as_read (st_attributes m) @ [integrity_attribute mac, fingerprint_attribute crc]))"
proof -
  define e where "e = end_of 20 (st_attributes m)"
  have e: "stun_GetSize m = e + 32" "e mod 4 = 0" using end_of_mod [of 20] by (simp_all add: GetSize_end e_def)
  have l: "length (enc_body b n m) = e" using length_enc_body [OF ok] b e by (simp add: e_def)
  let ?d = "enc_body b n m @ enc_integrity mac @ enc_fingerprint crc @ rest" and ?as = "map as_read (st_attributes m)"
  have pads: "pad32 (e + 24) = e + 24" "pad32 (e + 32) = e + 32" "pad32 (24 + e) = e + 24" "pad32 (32 + e) = e + 32"
    using e(2) pad32_add [of 24 e] pad32_add [of 32 e] pad32_same [of e] by (simp_all add: add.commute [of _ e])
  have d20: "drop 20 ?d = laid_out b 20 (st_attributes m) @ enc_integrity mac @ enc_fingerprint crc @ rest"
    using length_enc_head [OF message_okD(1) [OF ok], of n] by (simp add: enc_body_def)
  have d: "drop e ?d = be2 (ucast Attr_MessageIntegrity) @ be2 (ucast (20 :: WORD)) @ mac @ enc_fingerprint crc @ rest"
    using l by (simp add: enc_integrity_def)
  have li: "length (enc_integrity mac) = 24" by (simp add: enc_integrity_def mac)
  have d24: "drop (e + 24) ?d = be2 (ucast Attr_FingerPrint) @ be2 (ucast (4 :: WORD)) @ be4 crc @ rest"
    using l li by (simp add: enc_fingerprint_def)
  have "parse_attributes ?d (e + 32) 20 False None [] = parse_attributes ?d (e + 32) e False None ?as"
    using parse_laid_out [OF message_okD(3,4) [OF ok] d20, of "e + 32" "[]"] b e by (simp add: e_def)
  also have "\<dots> = parse_attributes ?d (e + 32) (e + 24) True None (?as @ [integrity_attribute mac])"
    using parse_attribute [OF d, of "e + 32" False ?as] mac pads
    by (simp add: attribute_types integrity_attribute_def Attribute_new_def)
  also have "\<dots> = parse_attributes ?d (e + 32) (e + 32) True (Some (e + 24)) (?as @ [integrity_attribute mac, fingerprint_attribute crc])"
    using parse_attribute [OF d24, of "e + 32" True "?as @ [integrity_attribute mac]"] pads
    by (simp add: attribute_types fingerprint_attribute_def Attribute_new_def)
  also have "\<dots> = Ok (Some (e + 32, Some (e + 24), ?as @ [integrity_attribute mac, fingerprint_attribute crc]))"
    by (simp add: parse_end)
  finally show ?thesis unfolding e(1) by simp
qed

lemma parse_authenticated:
  assumes ok: "message_ok m" and b: "stun_GetSize m \<le> length b" and mac: "length mac = 20"
  shows "STUN_Parse (enc_body b n m @ enc_integrity mac @ enc_fingerprint crc @ rest) (stun_GetSize m) =
    Ok (if crc = checksum (enc_body b n m @ enc_integrity mac)
        then Some (message_read [integrity_attribute mac, fingerprint_attribute crc] m) else None)"
proof -
  define e where "e = end_of 20 (st_attributes m)"
  have e: "stun_GetSize m = e + 32" by (simp add: GetSize_end e_def)
  have l: "length (enc_body b n m) = e" using length_enc_body [OF ok] b e by (simp add: e_def)
  let ?d = "enc_body b n m @ enc_integrity mac @ enc_fingerprint crc @ rest"
  have li: "length (enc_integrity mac) = 24" by (simp add: enc_integrity_def mac)
  have "drop (e + 24 + 4) ?d = be4 crc @ rest"
    using l li by (simp add: enc_fingerprint_def be2_def)
  then have g: "get4 ?d (e + 24 + 4) = Ok crc" by (rule get4_at)
  have c: "copy_out 0 (e + 24) ?d = Ok (enc_body b n m @ enc_integrity mac)" using l li by (simp add: copy_out_def)
  have s: "e + 32 - 8 = e + 24" by simp
  have split: "?d = enc_head n m @ laid_out b 20 (st_attributes m) @ enc_integrity mac @ enc_fingerprint crc @ rest"
    by (simp add: enc_body_def)
  have "20 \<le> e + 32" using end_of_ge [of 20 "st_attributes m"] by (simp add: e_def)
  then have "STUN_Parse ?d (e + 32) =
      bindR (parse_attributes ?d (e + 32) 20 False None []) (check_message ?d (e + 32) m)"
    unfolding split by (rule parse_written [OF ok])
  also have "\<dots> = check_message ?d (e + 32) m (Some (e + 32, Some (e + 24),
      map as_read (st_attributes m) @ [integrity_attribute mac, fingerprint_attribute crc]))"
    by (simp only: parse_tail [OF ok b mac, unfolded e s] bindR.simps)
  finally show ?thesis
    unfolding e check_message_def Let_def option.case prod.case
    by (simp only: g c bindR.simps checksum_def message_read_def) simp
qed

section \<open>Round trip\<close>

text \<open>C19: A message is read back from what is written for it.  Written with a password it has two more attributes: the
HMAC of what comes before it, with a length that does not count the fingerprint, and the checksum of all that comes
before that.  Nothing is written behind the message.\<close>

theorem stun_message_is_read_back:
  assumes "message_ok m" "stun_GetSize m \<le> sz" "sz \<le> length d" "\<forall>k x. length (HMAC k x) = 20"
  shows "(\<exists>d' mac crc authenticated.
      AuthenticatedFingerPrint HMAC d sz pwd m = Ok (stun_GetSize m, d') \<and>
      STUN_Parse d' (stun_GetSize m) = Ok (Some (message_read [integrity_attribute mac, fingerprint_attribute crc] m)) \<and>
      set2 d' 2 (of_nat (stun_GetSize m) - 28) = Ok authenticated \<and>
      mac = HMAC pwd (take (stun_GetSize m - 32) authenticated) \<and>
      crc = checksum (take (stun_GetSize m - 8) d') \<and> drop (stun_GetSize m) d' = drop (stun_GetSize m) d) \<and>
    (\<exists>d'. NonAuthenticatedFingerPrint d sz m = Ok (stun_GetSize m - 32, d') \<and>
      STUN_Parse d' (stun_GetSize m - 32) = Ok (Some (message_read [] m)) \<and>
      drop (stun_GetSize m - 32) d' = drop (stun_GetSize m - 32) d)"
proof
  define n where "n = (of_nat (stun_GetSize m) :: DWORD)"
  define e where "e = end_of 20 (st_attributes m)"
  have e: "stun_GetSize m = e + 32" by (simp add: GetSize_end e_def)
  have d: "stun_GetSize m \<le> length d" using assms by simp
  have l: "length (enc_body d k m) = e" for k using length_enc_body [OF assms(1)] d e by (simp add: e_def)
  let ?mac = "HMAC pwd (enc_body d (n - 28) m)"
  let ?b = "enc_body d (n - 20) m @ enc_integrity ?mac"
  have lb: "length ?b = e + 24" using assms(4) by (simp add: l enc_integrity_def)
  let ?d = "put_at 0 (?b @ enc_fingerprint (checksum ?b)) d"
  have f: "length (enc_fingerprint c) = 8" for c by (simp add: enc_fingerprint_def)
  have a: "AuthenticatedFingerPrint HMAC d sz pwd m = Ok (stun_GetSize m, ?d)"
    using Authenticated_eq [OF assms(1,2) d, of HMAC pwd] assms(4) by (simp add: enc_authenticated_def n_def Let_def)
  have p: "STUN_Parse ?d (stun_GetSize m) = Ok (Some (message_read [integrity_attribute ?mac, fingerprint_attribute (checksum ?b)] m))"
    using parse_authenticated [OF assms(1) d, of ?mac "n - 20" "checksum ?b"] assms(4) by (simp add: put_at_0)
  have "length (?b @ enc_fingerprint (checksum ?b)) \<le> length d" using d e lb by (simp only: length_append f)
  then have s: "set2 ?d 2 (n - 28) =
      Ok (put_at 0 (enc_body d (n - 28) m @ enc_integrity ?mac @ enc_fingerprint (checksum ?b)) d)"
    using put_size [OF message_okD(1) [OF assms(1)], of d "n - 20" "enc_integrity ?mac @ enc_fingerprint (checksum ?b)" d "n - 28"] by simp
  have t: "?mac = HMAC pwd (take (stun_GetSize m - 32) (put_at 0 (enc_body d (n - 28) m @ xs) d))" for xs
    by (simp add: put_at_0 l e)
  have b: "checksum ?b = checksum (take (stun_GetSize m - 8) ?d)" unfolding e using lb by (simp only: put_at_0) simp
  have r: "drop (stun_GetSize m) ?d = drop (stun_GetSize m) d"
    unfolding e put_at_0 length_append f using lb by (simp add: f add.commute)
  show "\<exists>d' mac crc authenticated.
      AuthenticatedFingerPrint HMAC d sz pwd m = Ok (stun_GetSize m, d') \<and>
      STUN_Parse d' (stun_GetSize m) = Ok (Some (message_read [integrity_attribute mac, fingerprint_attribute crc] m)) \<and>
      set2 d' 2 (of_nat (stun_GetSize m) - 28) = Ok authenticated \<and>
      mac = HMAC pwd (take (stun_GetSize m - 32) authenticated) \<and>
      crc = checksum (take (stun_GetSize m - 8) d') \<and> drop (stun_GetSize m) d' = drop (stun_GetSize m) d"
    unfolding n_def [symmetric] by (intro exI conjI) (rule a p s t b r)+
  have "NonAuthenticatedFingerPrint d sz m = Ok (stun_GetSize m - 32, put_at 0 (enc_body d (n - 52) m) d)"
    using NonAuthenticated_eq [OF assms(1), of sz d] assms(2) d by (simp add: n_def)
  moreover have "STUN_Parse (put_at 0 (enc_body d (n - 52) m) d) (stun_GetSize m - 32) = Ok (Some (message_read [] m))"
    using parse_plain [OF assms(1), of d "n - 52"] d e by (simp add: put_at_0 e_def)
  moreover have "drop (stun_GetSize m - 32) (put_at 0 (enc_body d (n - 52) m) d) = drop (stun_GetSize m - 32) d"
    using l e by (simp add: put_at_0)
  ultimately show "\<exists>d'. NonAuthenticatedFingerPrint d sz m = Ok (stun_GetSize m - 32, d') \<and>
      STUN_Parse d' (stun_GetSize m - 32) = Ok (Some (message_read [] m)) \<and>
      drop (stun_GetSize m - 32) d' = drop (stun_GetSize m - 32) d"
    by blast
qed

text \<open>A request with the name of the user and an attribute without a value.\<close>

definition example_request :: stun_message where
  "example_request =
     stun_AddAttribute (Attribute_new Attr_UseCandidate None)
       (AddUsernameAttribute [0x62] [0x61] (STUNMessage_new STUN_Request Method_Binding (replicate 12 7)))"

lemma example_request_ok: "message_ok example_request" "stun_GetSize example_request = 64"
  by (simp_all add: example_request_def message_ok_def stun_AddAttribute_def AddUsernameAttribute_def STUNMessage_new_def
      Attribute_new_def attribute_types Method_Binding_def stun_GetSize_def attribute_ok_def value_bytes_def pad32_def)

theorem stun_message_is_read_back_witness:
  "\<exists>d' r. AuthenticatedFingerPrint (\<lambda>_ _. replicate 20 1) (replicate 64 0) 64 [0x70] example_request = Ok (64, d') \<and>
     STUN_Parse d' 64 = Ok (Some r) \<and> length (st_attributes r) = 4"
proof -
  have "length (st_attributes example_request) = 2"
    by (simp add: example_request_def stun_AddAttribute_def AddUsernameAttribute_def STUNMessage_new_def)
  with stun_message_is_read_back [OF example_request_ok(1), of 64 "replicate 64 0" "\<lambda>_ _. replicate 20 1" "[0x70]"]
  show ?thesis by (auto simp: example_request_ok(2) message_read_def)
qed

section \<open>Damage\<close>

text \<open>Where the FINGERPRINT of the message is.\<close>

definition fingerprint_pos :: "BYTE list \<Rightarrow> nat \<Rightarrow> nat option" where
  "fingerprint_pos d sz =
     (case parse_attributes d sz 20 False None [] of Ok (Some (_, fingerprint, _)) \<Rightarrow> fingerprint | _ \<Rightarrow> None)"

lemma copy_out_cong:
  "length d = length d' \<Longrightarrow> (\<And>k. i \<le> k \<Longrightarrow> d ! k = d' ! k) \<Longrightarrow> copy_out i n d = copy_out i n d'"
  by (auto simp: copy_out_def intro!: nth_equalityI)

lemma get4_cong: "length d = length d' \<Longrightarrow> (\<And>k. i \<le> k \<Longrightarrow> d ! k = d' ! k) \<Longrightarrow> get4 d i = get4 d' i"
  by (simp add: get4_def byte_at_def)

lemma parse_attributes_cong:
  assumes "length d = length d'" "\<And>k. i \<le> k \<Longrightarrow> d ! k = d' ! k"
  shows "parse_attributes d sz i h fp as = parse_attributes d' sz i h fp as"
  using assms
proof (induction d sz i h fp as rule: parse_attributes.induct)
  case (1 d sz i h fp as)
  have g: "get2 d i = get2 d' i" "get2 d (i + 2) = get2 d' (i + 2)"
    using "1.prems" by (simp_all add: get2_def byte_at_def)
  have c: "copy_out (i + 4) n d = copy_out (i + 4) n d'" for n by (rule copy_out_cong) (use "1.prems" in simp_all)
  have later: "i \<le> pad32 (i + 4 + n)" for n using pad32_gt [of i n] by simp
  show ?case
  proof (subst (1 2) parse_attributes.simps, unfold g c Let_def, intro if_cong refl bindR_cong)
    fix t n xs
    assume a: "i + 4 \<le> sz" "get2 d' i = Ok t" "get2 d' (i + 2) = Ok n" "\<not> sz < i + 4 + unat (ucast n :: WORD)"
      "\<not> fp \<noteq> None" "\<not> (h \<and> ucast t \<noteq> Attr_FingerPrint)" "copy_out (i + 4) (unat (ucast n :: WORD)) d' = Ok xs"
    show "parse_attributes d sz (pad32 (i + 4 + unat (ucast n :: WORD))) (h \<or> ucast t = Attr_MessageIntegrity)
        (if ucast t = Attr_FingerPrint then Some i else fp) (as @ [Attribute_new (ucast t) (Some xs)]) =
      parse_attributes d' sz (pad32 (i + 4 + unat (ucast n :: WORD))) (h \<or> ucast t = Attr_MessageIntegrity)
        (if ucast t = Attr_FingerPrint then Some i else fp) (as @ [Attribute_new (ucast t) (Some xs)])"
      by (rule "1.IH" [OF a(1) a(2) [folded g] a(3) [folded g] refl refl]) (use a "1.prems" later in \<open>auto simp: c intro: order.trans\<close>)
  qed
qed

lemma parse_attributes_fingerprint:
  "parse_attributes d sz i h fp as = Ok (Some (j, fp', as')) \<Longrightarrow> fp' = fp \<or> (\<exists>pos. fp' = Some pos \<and> i \<le> pos \<and> pos + 4 \<le> sz)"
proof (induction d sz i h fp as rule: parse_attributes.induct)
  case (1 d sz i h fp as)
  show ?case
  proof (cases "i + 4 \<le> sz")
    case False
    then show ?thesis using "1.prems" by (simp add: parse_end)
  next
    case True
    from "1.prems" True obtain t n xs where
      s: "get2 d i = Ok t" "get2 d (i + 2) = Ok n" "\<not> sz < i + 4 + unat (ucast n :: WORD)" "fp = None"
        "\<not> (h \<and> ucast t \<noteq> Attr_FingerPrint)" "copy_out (i + 4) (unat (ucast n :: WORD)) d = Ok xs"
      and r: "parse_attributes d sz (pad32 (i + 4 + unat (ucast n :: WORD))) (h \<or> ucast t = Attr_MessageIntegrity)
        (if ucast t = Attr_FingerPrint then Some i else fp) (as @ [Attribute_new (ucast t) (Some xs)]) = Ok (Some (j, fp', as'))"
      by (subst (asm) parse_attributes.simps) (auto simp: Let_def split: if_splits)
    have "fp' = (if ucast t = Attr_FingerPrint then Some i else fp) \<or>
        (\<exists>pos. fp' = Some pos \<and> pad32 (i + 4 + unat (ucast n :: WORD)) \<le> pos \<and> pos + 4 \<le> sz)"
      using s by (intro "1.IH" [OF True s(1,2) refl refl _ _ _ s(6) r]) auto
    moreover have "i \<le> pad32 (i + 4 + unat (ucast n :: WORD))" using pad32_gt less_imp_le by blast
    ultimately show ?thesis using True s(4) by (auto split: if_splits intro: order.trans)
  qed
qed

lemma fingerprint_pos_bounds: "fingerprint_pos d sz = Some pos \<Longrightarrow> 20 \<le> pos \<and> pos + 4 \<le> sz"
  by (auto simp: fingerprint_pos_def split: res.splits option.splits dest!: parse_attributes_fingerprint)

lemma fingerprint_pos_header:
  assumes "length xs = length ys" "length (before @ xs) \<le> 20"
  shows "fingerprint_pos (before @ xs @ rest) sz = fingerprint_pos (before @ ys @ rest) sz"
proof -
  have "parse_attributes (before @ xs @ rest) sz 20 False None [] = parse_attributes (before @ ys @ rest) sz 20 False None []"
    using assms by (intro parse_attributes_cong) (auto simp: nth_append)
  then show ?thesis by (simp add: fingerprint_pos_def)
qed

lemma Parse_message:
  assumes "STUN_Parse d sz = Ok (Some m)"
  shows "IsSTUN d sz = Ok True" "20 \<le> sz" "20 \<le> length d" "length (st_transId m) = 12"
    "\<exists>msg r. parse_attributes d sz 20 False None [] = Ok r \<and> check_message d sz msg r = Ok (Some m)"
proof -
  from assms obtain f b0 b1 transId r where
    p: "IsSTUN d sz = Ok True" "get2 d 0 = Ok f" "byte_at d 0 = Ok b0" "byte_at d 1 = Ok b1" "copy_out 8 12 d = Ok transId"
      "parse_attributes d sz 20 False None [] = Ok r"
      "check_message d sz (STUNMessage_new (type_of_bytes b0 b1) (method_of_field (ucast f)) transId) r = Ok (Some m)"
    by (auto simp: STUN_Parse_def Let_def split: if_splits)
  then show "IsSTUN d sz = Ok True" "\<exists>msg r. parse_attributes d sz 20 False None [] = Ok r \<and> check_message d sz msg r = Ok (Some m)"
    by blast+
  show "20 \<le> sz" using p(1) by (simp add: IsSTUN_def split: if_splits)
  show "20 \<le> length d" using p(5) by (simp add: copy_out_def split: if_splits)
  have "length transId = 12" using p(5) by (auto simp: copy_out_def split: if_splits)
  with p(7) show "length (st_transId m) = 12"
    by (auto simp: check_message_def STUNMessage_new_def Let_def split: option.splits if_splits)
qed

lemma Parse_checksum:
  assumes "STUN_Parse d sz = Ok (Some m)" "fingerprint_pos d sz = Some pos"
  shows "get4 d (pos + 4) = Ok (checksum (take pos d))" "pos \<le> length d"
proof -
  from Parse_message(5) [OF assms(1)] obtain msg r where
    r: "parse_attributes d sz 20 False None [] = Ok r" "check_message d sz msg r = Ok (Some m)" by blast
  with assms(2) obtain i as where "r = Some (i, Some pos, as)"
    by (auto simp: fingerprint_pos_def split: option.splits)
  with r(2) have "\<exists>xs. get4 d (pos + 4) = Ok (checksum xs) \<and> copy_out 0 pos d = Ok xs"
    by (auto simp: check_message_def Let_def checksum_def split: if_splits)
  then show "get4 d (pos + 4) = Ok (checksum (take pos d))" "pos \<le> length d" by (auto simp: copy_out_def split: if_splits)
qed

lemma Parse_refuses:
  assumes "20 \<le> length d" "parse_attributes d sz 20 False None [] = Ok r" "\<And>msg. check_message d sz msg r = Ok None"
  shows "STUN_Parse d sz = Ok None"
proof -
  have "\<exists>b. IsSTUN d sz = Ok b" "\<exists>f. get2 d 0 = Ok f" "\<exists>b. byte_at d 0 = Ok b" "\<exists>b. byte_at d 1 = Ok b"
    "\<exists>t. copy_out 8 12 d = Ok t"
    using assms(1) by (auto simp: IsSTUN_def get2_def byte_at_def copy_out_def)
  then show ?thesis using assms(2,3) by (auto simp: STUN_Parse_def Let_def)
qed

text \<open>C20: The fingerprint finds every damage of up to four bytes in a row before it: the damaged message is refused.  In
the header any bytes may have changed, behind it those that leave the FINGERPRINT where it was.\<close>

theorem damaged_message_is_refused:
  assumes "STUN_Parse (before @ xs @ rest) sz = Ok (Some m)" "fingerprint_pos (before @ xs @ rest) sz = Some pos"
    and "length (before @ xs) \<le> pos" "length ys = length xs" "length xs \<le> 4" "ys \<noteq> xs"
    and "length (before @ xs) \<le> 20 \<or> fingerprint_pos (before @ ys @ rest) sz = Some pos"
  shows "STUN_Parse (before @ ys @ rest) sz = Ok None"
proof -
  let ?d = "before @ xs @ rest" and ?d' = "before @ ys @ rest"
  have pos: "fingerprint_pos ?d' sz = Some pos" using assms(2,7) fingerprint_pos_header [OF assms(4) [symmetric]] by metis
  note P = Parse_message [OF assms(1)] and C = Parse_checksum [OF assms(1,2)]
  have len: "length ?d' = length ?d" using assms(4) by simp
  have split: "take pos (before @ zs @ rest) = before @ zs @ take (pos - length (before @ zs)) rest"
    if "length zs = length xs" for zs
    using that assms(3) by simp
  have "CRC_Update (take pos ?d') 0 \<noteq> CRC_Update (take pos ?d) 0"
    using checksum_finds_bursts [of ys xs before "take (pos - length (before @ xs)) rest" 0] assms(4,5,6)
    by (simp only: split length_append) simp
  then have ne: "checksum (take pos ?d') \<noteq> checksum (take pos ?d)" unfolding checksum_def xor_cancel .
  have "?d' ! k = ?d ! k" if "pos \<le> k" for k using that assms(3,4) by (auto simp: nth_append)
  then have "get4 ?d' (pos + 4) = get4 ?d (pos + 4)" using len by (intro get4_cong) simp_all
  with C(1) have g: "get4 ?d' (pos + 4) = Ok (checksum (take pos ?d))" by (simp only:)
  from pos obtain i as where r: "parse_attributes ?d' sz 20 False None [] = Ok (Some (i, Some pos, as))"
    by (auto simp: fingerprint_pos_def split: res.splits option.splits)
  have c: "copy_out 0 pos ?d' = Ok (take pos ?d')" using C(2) len by (simp only: copy_out_def) simp
  have check: "check_message ?d' sz msg (Some (i, Some pos, as)) = Ok None" for msg
    using ne by (simp only: check_message_def option.case prod.case Let_def g c bindR.simps) (simp add: checksum_def)
  have d: "20 \<le> length ?d'" using P(3) len by simp
  then show ?thesis using r check by (rule Parse_refuses)
qed

text \<open>The example, written with a password, and its identifier damaged.\<close>

definition example_bytes :: "BYTE list" where
  "example_bytes =
     (let b = enc_body (replicate 64 0) 44 example_request @ enc_integrity (replicate 20 1) in b @ enc_fingerprint (checksum b))"

lemma example_parts:
  "length (enc_body (replicate 64 0) n example_request) = 32"
  "length (enc_integrity (replicate 20 1)) = 24" "length (enc_fingerprint crc) = 8"
  using length_enc_body [OF example_request_ok(1), of "replicate 64 0" n] example_request_ok(2)
  by (simp_all add: GetSize_end enc_integrity_def enc_fingerprint_def)

lemma example_bytes_parse: "\<exists>m. STUN_Parse example_bytes 64 = Ok (Some m)" "fingerprint_pos example_bytes 64 = Some 56"
proof -
  let ?b = "enc_body (replicate 64 0) 44 example_request @ enc_integrity (replicate 20 1)"
  have split: "example_bytes = enc_body (replicate 64 0) 44 example_request @ enc_integrity (replicate 20 1) @
      enc_fingerprint (checksum ?b) @ []"
    by (simp add: example_bytes_def Let_def)
  show "\<exists>m. STUN_Parse example_bytes 64 = Ok (Some m)"
    unfolding split using parse_authenticated [OF example_request_ok(1), of "replicate 64 0" "replicate 20 1" 44 "checksum ?b" "[]"]
    by (simp only: example_request_ok(2)) simp
  show "fingerprint_pos example_bytes 64 = Some 56"
    unfolding split fingerprint_pos_def
    using parse_tail [OF example_request_ok(1), of "replicate 64 0" "replicate 20 1" 44 "checksum ?b" "[]"]
    by (simp only: example_request_ok(2)) simp
qed

lemma length_example_bytes: "length example_bytes = 64"
  by (simp add: example_bytes_def Let_def example_parts)

theorem damaged_message_is_refused_witness:
  "\<exists>m. STUN_Parse example_bytes 64 = Ok (Some m) \<and>
     STUN_Parse (take 8 example_bytes @ [example_bytes ! 8 + 1] @ drop 9 example_bytes) 64 = Ok None"
proof -
  have split: "example_bytes = take 8 example_bytes @ [example_bytes ! 8] @ drop 9 example_bytes"
    using id_take_nth_drop [of 8 example_bytes] by (simp add: length_example_bytes)
  obtain m where m: "STUN_Parse example_bytes 64 = Ok (Some m)" using example_bytes_parse(1) by blast
  have "STUN_Parse (take 8 example_bytes @ [example_bytes ! 8 + 1] @ drop 9 example_bytes) 64 = Ok None"
    by (rule damaged_message_is_refused [of _ "[example_bytes ! 8]" _ _ m 56])
      (simp_all only: split [symmetric] m example_bytes_parse(2), simp_all add: length_example_bytes)
  with m show ?thesis by blast
qed

section \<open>Bounds\<close>

lemma parse_attributes_total: "sz \<le> length d \<Longrightarrow> \<exists>r. parse_attributes d sz i h fp as = Ok r"
proof (induction d sz i h fp as rule: parse_attributes.induct)
  case (1 d sz i h fp as)
  show ?case
  proof (cases "i + 4 \<le> sz")
    case True
    with "1.prems" obtain t n where g: "get2 d i = Ok t" "get2 d (i + 2) = Ok n" by (auto simp: get2_def byte_at_def)
    let ?n = "unat (ucast n :: WORD)"
    show ?thesis
    proof (cases "sz < i + 4 + ?n \<or> fp \<noteq> None \<or> h \<and> ucast t \<noteq> Attr_FingerPrint")
      case True
      then show ?thesis using g \<open>i + 4 \<le> sz\<close> by (subst parse_attributes.simps) (auto simp: Let_def)
    next
      case False
      then have c: "copy_out (i + 4) ?n d = Ok (take ?n (drop (i + 4) d))" using "1.prems" by (simp add: copy_out_def)
      have "\<exists>r. parse_attributes d sz (pad32 (i + 4 + ?n)) (h \<or> ucast t = Attr_MessageIntegrity)
          (if ucast t = Attr_FingerPrint then Some i else fp) (as @ [Attribute_new (ucast t) (Some (take ?n (drop (i + 4) d)))]) = Ok r"
        by (rule "1.IH" [OF True g refl refl _ _ _ c "1.prems"]) (use False in auto)
      then show ?thesis using g c False True by (subst parse_attributes.simps) (simp add: Let_def)
    qed
  qed (simp add: parse_end)
qed

lemma check_message_total:
  assumes "sz + 4 \<le> length d" "parse_attributes d sz 20 False None [] = Ok r"
  shows "\<exists>x. check_message d sz msg r = Ok x"
proof (cases r)
  case (Some t)
  obtain i fp as where t: "t = (i, fp, as)" by (cases t)
  have "\<exists>x. get4 d (pos + 4) = Ok x" "\<exists>xs. copy_out 0 pos d = Ok xs" if "fp = Some pos" for pos
    using parse_attributes_fingerprint [OF assms(2) [unfolded Some t]] assms(1) that
    by (auto simp: get4_def byte_at_def copy_out_def)
  then show ?thesis using Some t by (cases fp) (auto simp: check_message_def Let_def)
qed (simp add: check_message_def)

text \<open>Reading a message of any bytes looks at no byte behind the four that follow it.  It does look at those: a
FINGERPRINT of length 0 at the end of the message is compared with what is behind it.\<close>

lemma stun_parse_stays_in_bounds:
  "(sz + 4 \<le> length d \<longrightarrow> (\<exists>r. STUN_Parse d sz = Ok r)) \<and>
   (length transId = 12 \<longrightarrow>
     STUN_Parse ([0, 1, 0, 4] @ MagicCookie @ transId @ [0x80, 0x28, 0, 0]) 24 = Fault OutOfBounds)"
proof (intro conjI impI)
  assume sz: "sz + 4 \<le> length d"
  show "\<exists>r. STUN_Parse d sz = Ok r"
  proof (cases "20 \<le> sz")
    case True
    have "\<exists>b. IsSTUN d sz = Ok b" "\<exists>f. get2 d 0 = Ok f" "\<exists>b. byte_at d 0 = Ok b" "\<exists>b. byte_at d 1 = Ok b"
      "\<exists>t. copy_out 8 12 d = Ok t"
      using sz True by (auto simp: IsSTUN_def get2_def byte_at_def copy_out_def)
    moreover obtain r where "parse_attributes d sz 20 False None [] = Ok r"
      using parse_attributes_total [of sz d 20 False None "[]"] sz by auto
    ultimately show ?thesis using check_message_total [OF sz] by (auto simp: STUN_Parse_def Let_def)
  qed (simp add: STUN_Parse_def IsSTUN_def)
next
  assume t: "length transId = 12"
  let ?d = "[0, 1, 0, 4] @ MagicCookie @ transId @ [0x80, 0x28, 0, 0 :: BYTE]"
  have l: "length ?d = 24" using t by (simp add: MagicCookie_def)
  have d: "drop 20 ?d = be2 (ucast Attr_FingerPrint) @ be2 (ucast (0 :: WORD)) @ [] @ []"
    using t by (simp add: MagicCookie_def be2_def Attr_FingerPrint_def)
  have "parse_attributes ?d 24 20 False None [] = Ok (Some (24, Some 20, [Attribute_new Attr_FingerPrint (Some [])]))"
    using parse_attribute [OF d, of 24 False "[]"] by (simp add: attribute_types pad32_def parse_end)
  moreover have "get4 ?d 24 = Fault OutOfBounds" using l by (simp only: get4_def byte_at_def) simp
  moreover have "byte_at ?d 0 = Ok 0" "byte_at ?d 1 = Ok 1" "copy_out 4 4 ?d = Ok MagicCookie" "get2 ?d 0 = Ok 1"
    "\<exists>x. copy_out 8 12 ?d = Ok x"
    using t by (simp_all add: byte_at_def copy_out_def get2_def MagicCookie_def)
  ultimately show "STUN_Parse ?d 24 = Fault OutOfBounds"
    by (auto simp: STUN_Parse_def IsSTUN_def check_message_def Let_def)
qed

end
