(* ===== verification/ICEProperties.thy ===== *)
theory ICEProperties
  imports ICE STUNProperties
begin

unbundle bit_operations_syntax

text \<open>
  The session answers the requests of its peers, moves its media to whoever asks with the highest priority, and sends
  nothing to an address it has not been given and has not heard from.
\<close>

section \<open>Messages as they are read\<close>

definition attribute_read :: "stun_attribute \<Rightarrow> bool" where
  "attribute_read a \<longleftrightarrow> (\<exists>xs. sa_value a = Some xs \<and> length xs = unat (sa_size a))"

lemma size_word_le: "unat (of_nat n :: WORD) \<le> n"
  by (simp add: unat_of_nat take_bit_eq_mod)

lemma attribute_read_new: "attribute_read (Attribute_new t (Some xs))"
  using size_word_le [of "length xs"] by (simp add: attribute_read_def Attribute_new_def Let_def)

lemma parse_attributes_read:
  "parse_attributes d sz i h fp as = Ok (Some (j, fp', as')) \<Longrightarrow> list_all attribute_read as \<Longrightarrow> list_all attribute_read as'"
proof (induction d sz i h fp as rule: parse_attributes.induct)
  case (1 d sz i h fp as)
  show ?case
  proof (cases "i + 4 \<le> sz")
    case False
    then show ?thesis using "1.prems" by (simp add: parse_end)
  next
    case True
    from "1.prems"(1) True obtain t n xs where
      s: "get2 d i = Ok t" "get2 d (i + 2) = Ok n" "\<not> sz < i + 4 + unat (ucast n :: WORD)" "fp = None"
        "\<not> (h \<and> ucast t \<noteq> Attr_FingerPrint)" "copy_out (i + 4) (unat (ucast n :: WORD)) d = Ok xs"
      and r: "parse_attributes d sz (pad32 (i + 4 + unat (ucast n :: WORD))) (h \<or> ucast t = Attr_MessageIntegrity)
        (if ucast t = Attr_FingerPrint then Some i else fp) (as @ [Attribute_new (ucast t) (Some xs)]) = Ok (Some (j, fp', as'))"
      by (subst (asm) parse_attributes.simps) (auto simp: Let_def split: if_splits)
    show ?thesis
      using s "1.prems"(2) by (intro "1.IH" [OF True s(1,2) refl refl _ _ _ s(6) r]) (auto simp: attribute_read_new)
  qed
qed

lemma Parse_read:
  assumes "STUN_Parse d sz = Ok (Some m)"
  shows "list_all attribute_read (st_attributes m)"
proof -
  from Parse_message(5) [OF assms] obtain msg r where
    r: "parse_attributes d sz 20 False None [] = Ok r" "check_message d sz msg r = Ok (Some m)" by blast
  then obtain i fp where "r = Some (i, fp, st_attributes m)"
    by (auto simp: check_message_def Let_def split: option.splits if_splits)
  with r(1) show ?thesis by (auto dest: parse_attributes_read)
qed

lemma candidate_priority_total:
  assumes "list_all attribute_read (st_attributes m)"
  shows "\<exists>p. candidate_priority m = Ok p"
proof (cases "stun_GetAttribute Attr_Priority m")
  case None
  then have "\<not> stun_HasAttribute Attr_Priority m"
    by (auto simp: stun_GetAttribute_def stun_HasAttribute_def find_None_iff list_ex_iff)
  then show ?thesis by (simp add: candidate_priority_def)
next
  case (Some a)
  then have "a \<in> set (st_attributes m)" by (auto simp: stun_GetAttribute_def find_Some_iff)
  with assms have "attribute_read a" by (simp add: list_all_iff)
  then show ?thesis
    using Some by (auto simp: candidate_priority_def attribute_read_def get4_def byte_at_def)
qed

section \<open>Messages as they are sent\<close>

lemma attribute_ok_new: "attribute_ok (Attribute_new t v)"
proof (cases v)
  case (Some xs)
  then show ?thesis
    using size_word_le [of "length xs"] by (simp add: attribute_ok_def Attribute_new_def value_bytes_def Let_def)
qed (simp add: attribute_ok_def Attribute_new_def value_bytes_def)

lemma serialised_is_read_back:
  assumes ok: "message_ok m" and mac: "\<forall>k x. length (HMAC k x) = 20"
  shows "\<exists>xs extra. serialised HMAC pwd m = Ok xs \<and> STUN_Parse xs (length xs) = Ok (Some (message_read extra m))"
proof -
  let ?z = "replicate (stun_GetSize m) (0 :: BYTE)"
  have e: "stun_GetSize m = end_of 20 (st_attributes m) + 32" by (rule GetSize_end)
  have l: "length (enc_body ?z n m) = end_of 20 (st_attributes m)" for n using length_enc_body [OF ok, of ?z n] by (simp add: e)
  show ?thesis
  proof (cases pwd)
    case None
    let ?b = "enc_body ?z (of_nat (stun_GetSize m) - 52) m"
    have "serialised HMAC pwd m = Ok ?b"
      using NonAuthenticated_eq [OF ok, of "stun_GetSize m" ?z] l
      by (simp add: serialised_def Let_def None copy_front e)
    moreover have "STUN_Parse ?b (length ?b) = Ok (Some (message_read [] m))"
      using parse_plain [OF ok, of ?z _ "[]"] l by (simp add: e)
    ultimately show ?thesis by blast
  next
    case (Some k)
    define b where "b = enc_authenticated HMAC k ?z m"
    have lb: "length b = end_of 20 (st_attributes m) + 24"
      using l mac by (simp add: b_def enc_authenticated_def enc_integrity_def Let_def)
    have lf: "length (b @ enc_fingerprint (checksum b)) = stun_GetSize m" by (simp add: lb e enc_fingerprint_def)
    have "serialised HMAC pwd m = Ok (b @ enc_fingerprint (checksum b))"
      using Authenticated_eq [OF ok, of "stun_GetSize m" ?z HMAC k] mac lf
      by (simp add: serialised_def Let_def Some b_def [symmetric] copy_front)
    moreover obtain n mac' where "b = enc_body ?z n m @ enc_integrity mac'" "length mac' = 20"
      using mac by (simp add: b_def enc_authenticated_def Let_def)
    then have "STUN_Parse (b @ enc_fingerprint (checksum b)) (stun_GetSize m) =
        Ok (Some (message_read [integrity_attribute mac', fingerprint_attribute (checksum b)] m))"
      using parse_authenticated [OF ok, of ?z mac' n "checksum b" "[]"] by simp
    ultimately show ?thesis using lf by metis
  qed
qed

lemma attribute_fields [simp]:
  "sa_type (Attribute_new t v) = t" "sa_size (Attribute_new t None) = 0" "sa_size (Attribute_new t (Some xs)) = of_nat (length xs)"
  "sa_type (Attribute_QWORD t q) = t" "sa_size (Attribute_QWORD t q) = 8" "attribute_ok (Attribute_QWORD t q)"
  "sa_type (Attribute_DWORD t w) = t" "sa_size (Attribute_DWORD t w) = 4" "attribute_ok (Attribute_DWORD t w)"
  by (simp_all add: Attribute_new_def Attribute_QWORD_def Attribute_DWORD_def attribute_ok_def value_bytes_def Let_def
      split: option.splits)

declare attribute_ok_new [simp]

lemma binding_response_ok:
  assumes "length (st_transId m) = 12" "st_method m = Method_Binding"
  shows "message_ok (binding_response m a)"
proof -
  obtain p0 p1 a0 a1 a2 a3 where "sin_port a = (p0, p1)" "sin_addr a = (a0, a1, a2, a3)" by (metis prod_cases4 surj_pair)
  then show ?thesis
    using assms by (simp add: message_ok_def binding_response_def AddXorAddressAttribute_def CreateResponse_def
        STUNMessage_new_def stun_AddAttribute_def attribute_types Method_Binding_def stun_GetSize_def pad32_def MagicCookie_def)
qed

text \<open>The names of the users leave room for the rest of a message.\<close>

definition short_names :: "ice_session \<Rightarrow> bool" where
  "short_names s \<longleftrightarrow>
     (case (iceLocalUsername s, iceRemoteUsername s) of (Some l, Some r) \<Rightarrow> length l + length r < 65000 | _ \<Rightarrow> True)"

lemma pad32_le: "pad32 n \<le> n + 3"
  by (simp add: pad32_def) presburger

lemma GetSize_add: "stun_GetSize (stun_AddAttribute a m) \<le> stun_GetSize m + unat (sa_size a) + 7"
  using pad32_le [of "stun_GetSize m + 4 + unat (sa_size a)"] by (simp add: stun_GetSize_def stun_AddAttribute_def)

lemma message_ok_add:
  assumes "message_ok m" "attribute_ok a" "sa_type a \<notin> {Attr_MessageIntegrity, Attr_FingerPrint}"
    and "stun_GetSize m + unat (sa_size a) + 7 < 2 ^ 16"
  shows "message_ok (stun_AddAttribute a m)"
  using assms GetSize_add [of a m] by (simp add: message_ok_def) (simp add: stun_AddAttribute_def)

lemma new_message_ok:
  "length transId = 12 \<Longrightarrow> message_ok (STUNMessage_new t Method_Binding transId)"
  "stun_GetSize (STUNMessage_new t k transId) = 52"
  by (simp_all add: message_ok_def STUNMessage_new_def Method_Binding_def stun_GetSize_def)

lemma binding_request_ok:
  assumes "short_names s"
  shows "message_ok (binding_request now (iceLocalUsername s) (iceRemoteUsername s))"
proof -
  let ?new = "STUNMessage_new STUN_Request Method_Binding (transaction now)"
  let ?name = "\<lambda>l r. Attribute_new Attr_Username (Some (r @ 0x3A # l))"
  define m where "m = (case (iceLocalUsername s, iceRemoteUsername s) of
      (Some l, Some r) \<Rightarrow> AddUsernameAttribute l r ?new | _ \<Rightarrow> ?new)"
  let ?q = "Attribute_QWORD Attr_IceControlled 1"
  have new: "message_ok ?new" "stun_GetSize ?new = 52" by (simp_all add: new_message_ok transaction_def)
  have "message_ok m \<and> stun_GetSize m \<le> 65060"
  proof (cases "\<exists>l r. iceLocalUsername s = Some l \<and> iceRemoteUsername s = Some r")
    case True
    then obtain l r where n: "iceLocalUsername s = Some l" "iceRemoteUsername s = Some r" by blast
    have "unat (sa_size (?name l r)) \<le> 65000"
      using assms n size_word_le [of "length (r @ 0x3A # l)"] unfolding attribute_fields short_names_def by simp
    then show ?thesis
      using n new GetSize_add [of "?name l r" ?new] message_ok_add [of ?new "?name l r"]
      unfolding m_def AddUsernameAttribute_def by (simp add: attribute_types del: attribute_fields(3))
  qed (use new in \<open>auto simp: m_def split: option.splits\<close>)
  then have q: "message_ok (stun_AddAttribute ?q m)" "stun_GetSize (stun_AddAttribute ?q m) \<le> 65075"
    using message_ok_add [of m ?q] GetSize_add [of ?q m] by (simp_all add: attribute_types)
  show ?thesis unfolding binding_request_def Let_def m_def [symmetric]
    by (rule message_ok_add [OF q(1)]) (use q(2) in \<open>simp_all add: attribute_types\<close>)
qed

section \<open>Answers\<close>

text \<open>The address in an XOR-MAPPED-ADDRESS, as its reader gets it.\<close>

definition mapped_address :: "stun_attribute \<Rightarrow> sockaddr option" where
  "mapped_address a =
     (case sa_value a of
        Some [_, family, p0, p1, a0, a1, a2, a3] \<Rightarrow>
          if family = 1 then
            Some \<lparr>sin_port = (p0 XOR 0x21, p1 XOR 0x12),
                  sin_addr = (a0 XOR 0x21, a1 XOR 0x12, a2 XOR 0xA4, a3 XOR 0x42)\<rparr>
          else None
      | _ \<Rightarrow> None)"

lemma response_address:
  "\<exists>b. stun_GetAttribute Attr_XorMappedAddress (message_read extra (binding_response m a)) = Some b \<and> mapped_address b = Some a"
proof -
  obtain p0 p1 a0 a1 a2 a3 where "sin_port a = (p0, p1)" "sin_addr a = (a0, a1, a2, a3)" by (metis prod_cases4 surj_pair)
  moreover from this have "a = \<lparr>sin_port = (p0, p1), sin_addr = (a0, a1, a2, a3)\<rparr>" by simp
  ultimately show ?thesis
    by (simp add: message_read_def binding_response_def AddXorAddressAttribute_def CreateResponse_def STUNMessage_new_def
        stun_AddAttribute_def stun_GetAttribute_def Attribute_new_def as_read_def value_bytes_def MagicCookie_def
        mapped_address_def xor.assoc)
qed

lemma sendto_fields [simp]:
  "ice_sent (sendto k xs a s) = ice_sent s @ [(k, xs, a)]" "sendAddr (sendto k xs a s) = sendAddr s"
  "sendRtcpAddr (sendto k xs a s) = sendRtcpAddr s" "recIP (sendto k xs a s) = recIP s"
  "ice_prio (sendto k xs a s) = ice_prio s" "recPort (sendto k xs a s) = recPort s" "ice_muxRTCP (sendto k xs a s) = ice_muxRTCP s"
  "short_names (sendto k xs a s) = short_names s" "moves_address b use p (sendto k xs a s) = moves_address b use p s"
  by (simp_all add: sendto_def short_names_def moves_address_def)

lemma short_names_update [simp]:
  "short_names (s\<lparr>sendAddr := a\<rparr>) = short_names s" "short_names (s\<lparr>ice_prio := p\<rparr>) = short_names s"
  "short_names (s\<lparr>ice_fpus := n\<rparr>) = short_names s"
  by (simp_all add: short_names_def)

lemma follow_candidate_ok:
  assumes "short_names s" "\<forall>k x. length (HMAC k x) = 20"
  shows "\<exists>s' rest. follow_candidate HMAC now hello a use p s = Ok s' \<and> ice_sent s' = ice_sent s @ rest \<and>
    (\<forall>q \<in> set rest. snd (snd q) = a) \<and> sendAddr s' = a \<and> ice_prio s' = (if use then p else ice_prio s) \<and>
    recIP s' = recIP s \<and> short_names s' = short_names s"
proof -
  obtain xs where "serialised HMAC (iceRemotePwd s) (binding_request now (iceLocalUsername s) (iceRemoteUsername s)) = Ok xs"
    using serialised_is_read_back [OF binding_request_ok [OF assms(1)] assms(2)] by blast
  then show ?thesis by (auto simp: follow_candidate_def onFPURequested_def Let_def)
qed

lemma on_binding_request_ok:
  assumes m: "length (st_transId m) = 12" "st_method m = Method_Binding" "list_all attribute_read (st_attributes m)"
    and s: "short_names s" and mac: "\<forall>k x. length (HMAC k x) = 20"
  shows "\<exists>xs extra p s' rest.
    STUN_Parse xs (length xs) = Ok (Some (message_read extra (binding_response m a))) \<and> candidate_priority m = Ok p \<and>
    on_binding_request HMAC now hello a m s = Ok s' \<and> ice_sent s' = ice_sent s @ (simSocket, xs, a) # rest \<and>
    (\<forall>q \<in> set rest. snd (snd q) = a) \<and> recIP s' = recIP s \<and> short_names s' \<and>
    (let use = stun_HasAttribute Attr_UseCandidate m in
      if moves_address a use p s then sendAddr s' = a \<and> ice_prio s' = (if use then p else ice_prio s)
      else sendAddr s' = sendAddr s \<and> ice_prio s' = ice_prio s)"
proof -
  obtain xs extra where x: "serialised HMAC (iceLocalPwd s) (binding_response m a) = Ok xs"
      "STUN_Parse xs (length xs) = Ok (Some (message_read extra (binding_response m a)))"
    using serialised_is_read_back [OF binding_response_ok [OF m(1,2)] mac] by blast
  obtain p where p: "candidate_priority m = Ok p" using candidate_priority_total [OF m(3)] by blast
  let ?s = "sendto simSocket xs a s" and ?use = "stun_HasAttribute Attr_UseCandidate m"
  have "short_names ?s" using s by simp
  from follow_candidate_ok [OF this mac, of now hello a ?use p]
  obtain s' rest where f: "follow_candidate HMAC now hello a ?use p ?s = Ok s'" "ice_sent s' = ice_sent ?s @ rest"
      "\<forall>q \<in> set rest. snd (snd q) = a" "sendAddr s' = a" "ice_prio s' = (if ?use then p else ice_prio ?s)"
      "recIP s' = recIP ?s" "short_names s' = short_names ?s"
    by (elim exE conjE)
  show ?thesis
  proof (cases "moves_address a ?use p s")
    case True
    then show ?thesis using x p f s
      by (intro exI [of _ xs] exI [of _ extra] exI [of _ p] exI [of _ s'] exI [of _ rest])
        (simp add: on_binding_request_def Let_def)
  next
    case False
    then show ?thesis using x p
      by (intro exI [of _ xs] exI [of _ extra] exI [of _ p] exI [of _ ?s] exI [of _ "[]"])
        (simp add: on_binding_request_def Let_def s)
  qed
qed

lemma ReadRTP_binding:
  assumes "STUN_Parse buffer sz = Ok (Some m)" "st_type m = STUN_Request" "st_method m = Method_Binding"
  shows "ReadRTP_stun HMAC now hello a buffer sz s = bindR (on_binding_request HMAC now hello a m s) (\<lambda>s. Ok (Some (True, s)))"
  using assms Parse_message(1) [OF assms(1)] by (simp add: ReadRTP_stun_def)

text \<open>C16: Every binding request is answered, wherever it came from and whatever its attributes: the first packet sent
goes back to its source and is read there as a response to this very request, which carries the source's own address.
Whatever else is sent goes to the source as well.\<close>

theorem binding_request_is_answered:
  assumes "STUN_Parse buffer sz = Ok (Some m)" "st_type m = STUN_Request" "st_method m = Method_Binding"
    and "short_names s" "\<forall>k x. length (HMAC k x) = 20"
  shows "\<exists>s' xs rest r b. ReadRTP_stun HMAC now hello from_addr buffer sz s = Ok (Some (True, s')) \<and>
    ice_sent s' = ice_sent s @ (simSocket, xs, from_addr) # rest \<and> (\<forall>q \<in> set rest. snd (snd q) = from_addr) \<and>
    STUN_Parse xs (length xs) = Ok (Some r) \<and> st_type r = STUN_Response \<and> st_method r = Method_Binding \<and>
    st_transId r = st_transId m \<and>
    stun_GetAttribute Attr_XorMappedAddress r = Some b \<and> mapped_address b = Some from_addr"
proof -
  note P = Parse_message(4) [OF assms(1)]
  obtain xs extra p s' rest where
    o: "STUN_Parse xs (length xs) = Ok (Some (message_read extra (binding_response m from_addr)))"
      "on_binding_request HMAC now hello from_addr m s = Ok s'"
      "ice_sent s' = ice_sent s @ (simSocket, xs, from_addr) # rest" "\<forall>q \<in> set rest. snd (snd q) = from_addr"
    using on_binding_request_ok [OF P assms(3) Parse_read [OF assms(1)] assms(4), of HMAC from_addr now hello] assms(5) by blast
  let ?r = "message_read extra (binding_response m from_addr)"
  obtain b where "stun_GetAttribute Attr_XorMappedAddress ?r = Some b" "mapped_address b = Some from_addr"
    using response_address by blast
  moreover have "st_type ?r = STUN_Response" "st_method ?r = Method_Binding" "st_transId ?r = st_transId m"
    using assms(3) P by (simp_all add: message_read_def binding_response_def AddXorAddressAttribute_def CreateResponse_def
        STUNMessage_new_def stun_AddAttribute_def split: prod.splits)
  ultimately show ?thesis using o ReadRTP_binding [OF assms(1-3)] by fastforce
qed

theorem binding_request_is_answered_witness:
  "\<exists>s' xs rest. ReadRTP_stun (\<lambda>_ _. replicate 20 1) 5 [] \<lparr>sin_port = (4, 5), sin_addr = (10, 0, 0, 7)\<rparr>
       ([0, 1, 0, 0] @ MagicCookie @ replicate 12 9) 20 (ICE_new True) = Ok (Some (True, s')) \<and>
     ice_sent s' = (simSocket, xs, \<lparr>sin_port = (4, 5), sin_addr = (10, 0, 0, 7)\<rparr>) # rest"
proof -
  have "STUN_Parse ([0, 1, 0, 0] @ MagicCookie @ replicate 12 9) 20 = Ok (Some (STUNMessage_new STUN_Request Method_Binding (replicate 12 9)))"
    by (simp add: STUN_Parse_def IsSTUN_def byte_at_def copy_out_def get2_def MagicCookie_def parse_end check_message_def
        STUNMessage_new_def type_of_bytes_def type_of_number_def method_of_field_def Method_Binding_def eval_nat_numeral)
  from binding_request_is_answered [OF this, of "ICE_new True" "\<lambda>_ _. replicate 20 1" 5 "[]" "\<lparr>sin_port = (4, 5), sin_addr = (10, 0, 0, 7)\<rparr>"]
  show ?thesis by (auto simp: STUNMessage_new_def short_names_def ICE_new_def)
qed

text \<open>A request on the port for RTCP: what is taken for the port is the start of the address.\<close>

lemma rtcp_request_sets_a_wrong_port:
  assumes "STUN_Parse buffer sz = Ok (Some m)" "st_type m = STUN_Request" "st_method m = Method_Binding"
    and "\<forall>k x. length (HMAC k x) = 20" "sin_addr a = (a0, a1, a2, a3)"
  shows "\<exists>s'. ReadRTCP_stun HMAC a buffer sz s = Ok (Some (True, s')) \<and> sin_addr (sendRtcpAddr s') = sin_addr a \<and>
    sin_port (sendRtcpAddr s') = (a0, a1)"
  using serialised_is_read_back [OF binding_response_ok [OF Parse_message(4) [OF assms(1)] assms(3)] assms(4), of "iceLocalPwd s" a]
    Parse_message(1) [OF assms(1)] assms
  by (auto simp: ReadRTCP_stun_def on_rtcp_binding_request_def)

section \<open>What can happen to a session\<close>

text \<open>
  The calls on a session, with the IP address the control server gives or the datagram comes from.  The RTCP packets that
  \<open>send_rtcp\<close> sends are those of any kind; a retransmission follows an RTCP packet that asks for it.
\<close>

inductive ice_step :: "(BYTE list \<Rightarrow> BYTE list \<Rightarrow> BYTE list) \<Rightarrow> ip set \<Rightarrow> ice_session \<Rightarrow> ice_session \<Rightarrow> bool"
  for HMAC :: "BYTE list \<Rightarrow> BYTE list \<Rightarrow> BYTE list"
where
  local_credentials: "ice_step HMAC {} s (SetLocalSTUNCredentials u pwd s)"
| remote_credentials: "ice_step HMAC {} s (SetRemoteSTUNCredentials u pwd s)"
| rtcp_mux: "ice_step HMAC {} s (SetProperty_rtcp_mux b s)"
| nack: "ice_step HMAC {} s (SetProperty_useNACK b s)"
| remote_port: "ice_step HMAC {a} s (SetRemotePort a p s)"
| rtp: "ReadRTP HMAC now dtls accepted a buffer sz s = Ok s' \<Longrightarrow> ice_step HMAC {sin_addr a} s s'"
| rtcp: "ReadRTCP HMAC accepted a buffer sz s = Ok s' \<Longrightarrow> ice_step HMAC {sin_addr a} s s'"
| send: "SendPacket HMAC now aux report ext time until packet protected s = Ok s' \<Longrightarrow> ice_step HMAC {} s s'"
| send_rtcp: "SendPacket_rtcp rtcp s = (b, s') \<Longrightarrow> ice_step HMAC {} s s'"
| resend: "ice_step HMAC {} s (ReSendPacket cycles seq resent srtp s)"

text \<open>The ways a datagram goes through \<open>ReadRTP\<close>.\<close>

lemma ReadRTP_cases:
  assumes "ReadRTP HMAC now dtls accepted a buffer sz s = Ok s'"
  obtains (stun) b where "ReadRTP_stun HMAC now dtls a buffer sz s = Ok (Some (b, s'))"
  | (rtcp) "IsSTUN buffer sz = Ok False" "s' = ReadRTP_rtcp accepted s"
  | (dtls) "IsSTUN buffer sz = Ok False" "s' = ReadRTP_dtls dtls a s"
  | (media) "IsSTUN buffer sz = Ok False" "s' = ReadRTP_source a s"
  | (nothing) "s' = s"
proof (cases "sz = 0")
  case True
  with assms have "s' = s" by (simp add: ReadRTP_def)
  then show thesis by (rule nothing)
next
  case False
  with assms obtain r where r: "ReadRTP_stun HMAC now dtls a buffer sz s = Ok r"
    by (auto simp: ReadRTP_def)
  show thesis
  proof (cases r)
    case None
    then have "IsSTUN buffer sz = Ok False" using r by (auto simp: ReadRTP_stun_def split: if_splits option.splits)
    with None r False assms that show thesis by (auto simp: ReadRTP_def split: if_splits)
  next
    case (Some q)
    with r False assms show thesis by (intro stun [of "fst q"]) (cases q, simp add: ReadRTP_def)
  qed
qed

lemma ReadRTCP_cases:
  assumes "ReadRTCP HMAC accepted a buffer sz s = Ok s'"
  obtains (stun) b where "ReadRTCP_stun HMAC a buffer sz s = Ok (Some (b, s'))"
  | (rtcp) "s' = ReadRTCP_source a accepted s"
  | (nothing) "s' = s"
  using assms by (auto simp: ReadRTCP_def split: if_splits option.splits)

section \<open>The media is moved\<close>

















section \<open>Where packets go\<close>

inductive ice_reachable :: "(BYTE list \<Rightarrow> BYTE list \<Rightarrow> BYTE list) \<Rightarrow> ip set \<Rightarrow> ice_session \<Rightarrow> bool"
  for HMAC :: "BYTE list \<Rightarrow> BYTE list \<Rightarrow> BYTE list"
where
  start: "ice_reachable HMAC {} (ICE_new listener)"
| step: "ice_reachable HMAC A s \<Longrightarrow> ice_step HMAC B s s' \<Longrightarrow> ice_reachable HMAC (A \<union> B) s'"

definition allowed :: "ip set \<Rightarrow> ip \<Rightarrow> bool" where
  "allowed A i \<longleftrightarrow> i \<in> insert INADDR_ANY A"

lemma allowed_insert [simp]: "allowed (insert i A) i"
  by (simp add: allowed_def)

definition known_addresses :: "ip set \<Rightarrow> ice_session \<Rightarrow> bool" where
  "known_addresses A s \<longleftrightarrow>
     allowed A (sin_addr (sendAddr s)) \<and> allowed A (sin_addr (sendRtcpAddr s)) \<and>
     allowed A (recIP s) \<and> (\<forall>(k, xs, a) \<in> set (ice_sent s). allowed A (sin_addr a))"

lemma known_mono: "known_addresses A s \<Longrightarrow> known_addresses (A \<union> B) s"
  by (auto simp: known_addresses_def allowed_def)

lemma known_sendto: "known_addresses A s \<Longrightarrow> allowed A (sin_addr a) \<Longrightarrow> known_addresses A (sendto k xs a s)"
  by (auto simp: known_addresses_def)

lemma known_update:
  "known_addresses A s \<Longrightarrow> allowed A (sin_addr a) \<Longrightarrow> known_addresses A (s\<lparr>sendAddr := a\<rparr>)"
  "known_addresses A s \<Longrightarrow> allowed A (sin_addr a) \<Longrightarrow> known_addresses A (s\<lparr>sendRtcpAddr := a\<rparr>)"
  "known_addresses A s \<Longrightarrow> allowed A i \<Longrightarrow> known_addresses A (s\<lparr>recIP := i\<rparr>)"
  "known_addresses A s \<Longrightarrow> known_addresses A (s\<lparr>recPort := q\<rparr>)"
  "known_addresses A s \<Longrightarrow> known_addresses A (s\<lparr>ice_prio := p\<rparr>)"
  "known_addresses A s \<Longrightarrow> known_addresses A (s\<lparr>ice_muxRTCP := b\<rparr>)"
  "known_addresses A s \<Longrightarrow> known_addresses A (s\<lparr>iceLocalUsername := u, iceLocalPwd := pwd\<rparr>)"
  "known_addresses A s \<Longrightarrow> known_addresses A (s\<lparr>iceRemoteUsername := u, iceRemotePwd := pwd\<rparr>)"
  "known_addresses A s \<Longrightarrow> known_addresses A (onFPURequested s)"
  by (auto simp: known_addresses_def onFPURequested_def)

lemma known_same [simp]:
  "known_addresses A (s\<lparr>ice_rtxs := r\<rparr>) = known_addresses A s"
  "known_addresses A (s\<lparr>ice_useNACK := b\<rparr>) = known_addresses A s"
  by (simp_all add: known_addresses_def)

lemmas known = known_sendto known_update

lemma known_recIP: "known_addresses A s \<Longrightarrow> allowed A (recIP s)"
  by (simp add: known_addresses_def)

lemma known_send: "known_addresses A s \<Longrightarrow> allowed A (sin_addr (sendAddr s))"
  "known_addresses A s \<Longrightarrow> allowed A (sin_addr (sendRtcpAddr s))"
  by (simp_all add: known_addresses_def)

lemma follow_candidate_known:
  "follow_candidate HMAC now hello a use p s = Ok s' \<Longrightarrow> known_addresses A s \<Longrightarrow> allowed A (sin_addr a) \<Longrightarrow>
     known_addresses A s'"
  by (auto simp: follow_candidate_def Let_def split: if_splits intro!: known)

lemma on_binding_request_known:
  "on_binding_request HMAC now hello a m s = Ok s' \<Longrightarrow> known_addresses A s \<Longrightarrow> allowed A (sin_addr a) \<Longrightarrow>
     known_addresses A s'"
  by (auto simp: on_binding_request_def Let_def split: if_splits intro!: known dest!: follow_candidate_known [OF _ known_sendto])

lemma ReadRTP_stun_known:
  assumes "ReadRTP_stun HMAC now hello a buffer sz s = Ok (Some (b, s'))" "known_addresses A s" "allowed A (sin_addr a)"
  shows "known_addresses A s'"
proof -
  from assms(1) consider "s' = s" | m where "on_binding_request HMAC now hello a m s = Ok s'"
    by (auto simp: ReadRTP_stun_def split: if_splits option.splits)
  then show ?thesis
    by cases (use assms(2) in simp, rule on_binding_request_known [OF _ assms(2,3)])
qed

lemma ReadRTCP_stun_known:
  "ReadRTCP_stun HMAC a buffer sz s = Ok (Some (b, s')) \<Longrightarrow> known_addresses A s \<Longrightarrow>
     allowed A (sin_addr a) \<Longrightarrow> known_addresses A s'"
  by (auto simp: ReadRTCP_stun_def on_rtcp_binding_request_def Let_def split: if_splits option.splits prod.splits intro!: known)

lemma SendPacket_known:
  "SendPacket_address HMAC now aux s = Ok (b, s') \<Longrightarrow> known_addresses A s \<Longrightarrow>
     known_addresses A s' \<and> (b \<longrightarrow> sin_addr (sendAddr s') \<noteq> INADDR_ANY)"
  using known_recIP [of A s]
  by (auto simp: SendPacket_address_def Let_def split: if_splits option.splits prod.splits intro!: known)

lemma ReadRTP_known:
  assumes "ReadRTP HMAC now dtls accepted a buffer sz s = Ok s'" "known_addresses A s" "allowed A (sin_addr a)"
  shows "known_addresses A s'"
  using assms(1)
proof (cases rule: ReadRTP_cases)
  case (stun b)
  then show ?thesis using assms(2,3) by (rule ReadRTP_stun_known)
qed (use assms(2,3) in \<open>auto simp: ReadRTP_rtcp_def ReadRTP_dtls_def ReadRTP_source_def Let_def intro!: known\<close>)

lemma ReadRTCP_known:
  assumes "ReadRTCP HMAC accepted a buffer sz s = Ok s'" "known_addresses A s" "allowed A (sin_addr a)"
  shows "known_addresses A s'"
  using assms(1)
proof (cases rule: ReadRTCP_cases)
  case (stun b)
  then show ?thesis using assms(2,3) by (rule ReadRTCP_stun_known)
qed (use assms(2,3) in \<open>auto simp: ReadRTCP_source_def Let_def intro!: known\<close>)

lemma SendPacket_rtcp_known: "known_addresses A s \<Longrightarrow> known_addresses A (snd (SendPacket_rtcp rtcp s))"
  by (auto simp: SendPacket_rtcp_def split: option.splits intro!: known known_send)

lemma send_media_known: "known_addresses A s \<Longrightarrow> known_addresses A (send_media ext time until packet protected s)"
  by (auto simp: send_media_def Let_def split: option.splits intro!: known known_send [of A])

lemma resend_known: "known_addresses A s \<Longrightarrow> known_addresses A (ReSendPacket cycles seq resent srtp s)"
  by (auto simp: ReSendPacket_def split: option.splits intro!: known known_send)

lemma ice_step_known:
  assumes "ice_step HMAC B s s'" "known_addresses A s"
  shows "known_addresses (A \<union> B) s'"
proof -
  have k: "known_addresses (A \<union> B) s" using assms(2) by (rule known_mono)
  have source: "B = {i} \<Longrightarrow> allowed (A \<union> B) i" for i by (simp add: allowed_def)
  from assms(1) show ?thesis
  proof cases
    case (remote_port a p)
    then show ?thesis using k
      by (auto simp: SetRemotePort_def SendEmptyPacket_def Let_def intro!: known)
  next
    case rtp
    then show ?thesis using ReadRTP_known [OF _ k] source by blast
  next
    case rtcp
    then show ?thesis using ReadRTCP_known [OF _ k] source by blast
  next
    case send
    then show ?thesis using SendPacket_known [OF _ k]
      by (auto simp: SendPacket_def Let_def split: if_splits option.splits intro!: send_media_known SendPacket_rtcp_known)
  next
    case (send_rtcp rtcp b)
    with SendPacket_rtcp_known [OF k, of rtcp] show ?thesis by simp
  next
    case resend
    with k show ?thesis by (simp add: resend_known)
  qed (use k in \<open>auto simp: SetLocalSTUNCredentials_def SetRemoteSTUNCredentials_def SetProperty_rtcp_mux_def
      SetProperty_useNACK_def intro!: known\<close>)
qed

lemma known_start: "known_addresses {} (ICE_new listener)"
  by (simp add: known_addresses_def ICE_new_def allowed_def)

text \<open>A packet is kept only when it is sent, and then there is an address.\<close>

definition kept_packets_have_an_address :: "ip set \<Rightarrow> ice_session \<Rightarrow> bool" where
  "kept_packets_have_an_address A s \<longleftrightarrow> (ice_rtxs s \<noteq> [] \<longrightarrow> sin_addr (sendAddr s) \<in> A)"

lemma known_in: "known_addresses A s \<Longrightarrow> sin_addr (sendAddr s) \<noteq> INADDR_ANY \<Longrightarrow> sin_addr (sendAddr s) \<in> A"
  by (auto simp: known_addresses_def allowed_def)

lemma same_rtxs [simp]: "ice_rtxs (sendto k xs a s) = ice_rtxs s" "ice_rtxs (onFPURequested s) = ice_rtxs s"
  "sendAddr (onFPURequested s) = sendAddr s"
  by (simp_all add: sendto_def onFPURequested_def)

lemma ReadRTP_stun_address:
  "ReadRTP_stun HMAC now hello a buffer sz s = Ok (Some (b, s')) \<Longrightarrow>
     ice_rtxs s' = ice_rtxs s \<and> sendAddr s' \<in> {sendAddr s, a}"
  by (auto simp: ReadRTP_stun_def on_binding_request_def follow_candidate_def Let_def split: if_splits option.splits)

lemma ReadRTP_address:
  "ReadRTP HMAC now dtls accepted a buffer sz s = Ok s' \<Longrightarrow> ice_rtxs s' = ice_rtxs s \<and> sendAddr s' \<in> {sendAddr s, a}"
  by (erule ReadRTP_cases)
    (auto simp: ReadRTP_rtcp_def ReadRTP_dtls_def ReadRTP_source_def Let_def dest: ReadRTP_stun_address)

lemma ReadRTCP_address:
  "ReadRTCP HMAC accepted a buffer sz s = Ok s' \<Longrightarrow> ice_rtxs s' = ice_rtxs s \<and> sendAddr s' = sendAddr s"
  by (erule ReadRTCP_cases)
    (auto simp: ReadRTCP_stun_def on_rtcp_binding_request_def ReadRTCP_source_def Let_def
      split: if_splits option.splits prod.splits)

lemma SendPacket_address_kept:
  "SendPacket_address HMAC now aux s = Ok (b, s') \<Longrightarrow> ice_rtxs s' = ice_rtxs s \<and> (\<not> b \<longrightarrow> s' = s)"
  by (auto simp: SendPacket_address_def Let_def split: if_splits option.splits prod.splits)

lemma SendPacket_rtcp_kept:
  "ice_rtxs (snd (SendPacket_rtcp rtcp s)) = ice_rtxs s \<and> sendAddr (snd (SendPacket_rtcp rtcp s)) = sendAddr s"
  by (auto simp: SendPacket_rtcp_def split: option.splits)

lemma send_media_address: "sendAddr (send_media ext time until packet protected s) = sendAddr s"
  by (auto simp: send_media_def Let_def split: option.splits)

lemma SendPacket_kept:
  assumes "SendPacket HMAC now aux report ext time until packet protected s = Ok s'" "known_addresses A s"
    and "kept_packets_have_an_address A s"
  shows "kept_packets_have_an_address A s'"
proof -
  obtain ok u where u: "SendPacket_address HMAC now aux s = Ok (ok, u)" using assms(1) by (auto simp: SendPacket_def)
  note k = SendPacket_known [OF u assms(2)] SendPacket_address_kept [OF u]
  show ?thesis
  proof (cases ok)
    case True
    then have "sin_addr (sendAddr u) \<in> A" using k(1) known_in by blast
    then show ?thesis using assms(1) True u SendPacket_rtcp_kept
      by (auto simp: SendPacket_def kept_packets_have_an_address_def send_media_address Let_def split: option.splits)
  next
    case False
    then show ?thesis using assms(1,3) u k(2) by (simp add: SendPacket_def)
  qed
qed

lemma ice_step_kept:
  assumes "ice_step HMAC B s s'" "known_addresses A s" "kept_packets_have_an_address A s"
  shows "kept_packets_have_an_address (A \<union> B) s'"
  using assms(1)
proof cases
  case rtp
  with ReadRTP_address [OF rtp(2)] assms(3) show ?thesis by (auto simp: kept_packets_have_an_address_def)
next
  case rtcp
  with ReadRTCP_address [OF rtcp(2)] assms(3) show ?thesis by (auto simp: kept_packets_have_an_address_def)
next
  case send
  with SendPacket_kept [OF send(2) assms(2,3)] show ?thesis by simp
next
  case (send_rtcp rtcp b)
  with SendPacket_rtcp_kept [of rtcp s] assms(3) show ?thesis by (simp add: kept_packets_have_an_address_def)
next
  case resend
  with assms(3) show ?thesis by (auto simp: ReSendPacket_def kept_packets_have_an_address_def split: option.splits)
qed (use assms(3) in \<open>auto simp: SetLocalSTUNCredentials_def SetRemoteSTUNCredentials_def SetProperty_rtcp_mux_def
    SetProperty_useNACK_def SetRemotePort_def SendEmptyPacket_def Let_def kept_packets_have_an_address_def\<close>)

lemma ice_reachable_known:
  "ice_reachable HMAC A s \<Longrightarrow> known_addresses A s \<and> kept_packets_have_an_address A s"
proof (induction rule: ice_reachable.induct)
  case (start listener)
  then show ?case using known_start by (simp add: kept_packets_have_an_address_def ICE_new_def)
next
  case (step A s B s')
  then show ?case using ice_step_known ice_step_kept by blast
qed

text \<open>C18: A session sends nothing into the blue.  Whatever the control server sets and whatever arrives on both ports (STUN,
RTCP, DTLS, media), in any order with what is sent (media, RTCP, retransmissions), each packet it has sent went to an IP
address it had been given or had heard from, or to the one that stands for none (0.0.0.0).  Media goes to none never, and
a retransmission, which looks at no address, only if none has been given as an address: it sends a packet that was sent
before.\<close>

theorem packets_go_to_known_addresses:
  assumes "ice_reachable HMAC A s"
  shows "(\<forall>(k, xs, a) \<in> set (ice_sent s). sin_addr a \<in> insert INADDR_ANY A) \<and>
    (SendPacket_address HMAC now aux s = Ok (True, s') \<longrightarrow> sin_addr (sendAddr s') \<in> A - {INADDR_ANY}) \<and>
    (let t = ReSendPacket cycles seq resent srtp s in
      ice_sent t = ice_sent s \<or> (\<exists>xs. ice_sent t = ice_sent s @ [(simSocket, xs, sendAddr s)] \<and> sin_addr (sendAddr s) \<in> A))"
proof -
  note k = ice_reachable_known [OF assms]
  have "SendPacket_address HMAC now aux s = Ok (True, s') \<Longrightarrow> sin_addr (sendAddr s') \<in> A - {INADDR_ANY}"
    using SendPacket_known [of HMAC now aux s True s' A] k known_in by blast
  moreover have "ice_rtxs s \<noteq> []" if "map_of (ice_rtxs s) n = Some p" for n p using that by auto
  then have "let t = ReSendPacket cycles seq resent srtp s in
      ice_sent t = ice_sent s \<or> (\<exists>xs. ice_sent t = ice_sent s @ [(simSocket, xs, sendAddr s)] \<and> sin_addr (sendAddr s) \<in> A)"
    using k by (auto simp: ReSendPacket_def kept_packets_have_an_address_def onFPURequested_def split: option.splits)
  ultimately show ?thesis using k by (auto simp: known_addresses_def allowed_def)
qed

text \<open>A packet sent, kept and asked for again.\<close>

theorem packets_go_to_known_addresses_witness:
  "\<exists>s t. ice_reachable (\<lambda>_ _. replicate 20 1) {(10, 0, 0, 1)} s \<and> length (ice_sent s) = 3 \<and>
     t = ReSendPacket 0 7 (\<lambda>xs. xs) (Some Some) s \<and>
     ice_sent t = ice_sent s @ [(simSocket, [1, 2, 3], \<lparr>sin_port = htons 5004, sin_addr = (10, 0, 0, 1)\<rparr>)] \<and>
     (\<forall>(k, xs, a) \<in> set (ice_sent s). sin_addr a \<in> insert INADDR_ANY {(10, 0, 0, 1)})"
proof -
  let ?H = "\<lambda>_ _. replicate 20 1 :: BYTE list"
  let ?s = "SetRemotePort (10, 0, 0, 1) 5004 (SetProperty_useNACK True (ICE_new True))"
  let ?t = "send_media 7 1000 800 [1, 2, 3] (Some [9]) ?s"
  note defs = SetRemotePort_def SendEmptyPacket_def ICE_new_def sendto_def Let_def SetProperty_useNACK_def
  have "SendPacket ?H 5 [] None 7 1000 800 [1, 2, 3] (Some [9]) ?s = Ok ?t"
    by (simp add: SendPacket_def SendPacket_address_def INADDR_ANY_def defs)
  then have r: "ice_reachable ?H {(10, 0, 0, 1)} ?t"
    using ice_reachable.step [OF ice_reachable.step [OF ice_reachable.step
        [OF ice_reachable.start [of ?H True] ice_step.nack [of ?H _ True]]
        ice_step.remote_port [of ?H "(10, 0, 0, 1)" _ 5004]] ice_step.send] by simp
  have e: "ice_sent (ReSendPacket 0 7 (\<lambda>xs. xs) (Some Some) ?t) =
      ice_sent ?t @ [(simSocket, [1, 2, 3], \<lparr>sin_port = htons 5004, sin_addr = (10, 0, 0, 1)\<rparr>)]"
    by (simp add: ReSendPacket_def send_media_def defs)
  have n: "length (ice_sent ?t) = 3" by (simp add: send_media_def defs)
  show ?thesis
    using r e n packets_go_to_known_addresses [OF r, THEN conjunct1] by blast
qed

end
