(* ===== verification/Spec2Isabelle.thy ===== *)
theory Spec2Isabelle
  imports BFCPProperties BFCPParseProperties BFCPServiceProperties BFCPOverWebSocket Bytes
    LockProperties QueueProperties AudioMixerProperties Acumulator
    RTPBuffer RTCPProperties FECDecoderProperties VideoMixerProperties ICEProperties
begin

text \<open>
  A model of the MCU media server, the C++ program under \<open>src/mcu\<close>: a multipoint conference unit that mixes the audio
  and the video of its participants, speaks RTP, RTMP and WebSocket, and controls who may share an application with the
  Binary Floor Control Protocol (BFCP).  File names below are relative to \<open>src/mcu/src\<close> and \<open>src/mcu/include\<close>.

  \<^bold>\<open>How the program is modelled.\<close>  A class is a record, an enumeration or a hierarchy of classes a datatype, a
  method a function from the old state to the new one.  \<open>BYTE\<close>, \<open>WORD\<close>, \<open>DWORD\<close> and \<open>QWORD\<close> are words of 8, 16, 32 and
  64 bits wherever they can wrap.  A call returns a \<open>res\<close> (\<open>Prelude\<close>): \<open>Ok\<close> with its value, or \<open>Fault\<close> for what the
  language leaves undefined (a deleted object, a read past a buffer), for an exception that leaves the call and for a
  loop that uses up its fuel.  A theorem that a call returns \<open>Ok\<close> therefore says that none of this happens.
  \<open>std::map\<close> is an association list in key order, since the order of what the server sends depends on it.  Where
  pointers are shared and deleted, the objects live in an explicit store.

  \<^bold>\<open>The parts, from the floor control downwards.\<close>
  \<^item> \<open>BFCPAttributes\<close>, \<open>BFCPMessages\<close> (\<open>bfcp/attributes\<close>, \<open>bfcp/messages\<close>, \<open>bfcp/BFCPAttribute.cpp\<close>,
    \<open>bfcp/BFCPMessage.cpp\<close>): the objects of the protocol, their accessors with the exceptions they throw, and how they
    are printed as JSON.
  \<^item> \<open>FloatingPoint\<close>, \<open>StringParser\<close>, \<open>JSONParser\<close> (\<open>stringparser.h\<close>): the hand-written parsers, with their cursor,
    the reads past the end and the value of \<open>errno\<close>.  \<open>JSONProgress\<close> shows that they move forward and end,
    \<open>JSONTokens\<close> what they do on text of the expected form.
  \<^item> \<open>BFCPParse\<close>, \<open>BFCPParseProperties\<close>: \<open>BFCPMessage::Parse\<close> and \<open>ParseAttributes\<close>: they end on every text, what they
    accept is well formed and can be processed, what the server prints is read back.
  \<^item> \<open>BFCPFloorRequest\<close>, \<open>BFCPServer\<close>, \<open>BFCPConference\<close> (\<open>bfcp/BFCPFloorRequest.cpp\<close>, \<open>bfcp/BFCPUser.cpp\<close>,
    \<open>bfcp/BFCPFloorControlServer.cpp\<close>, the listener at the end of \<open>multiconf.cpp\<close>, the roles of \<open>appmixer.cpp\<close>): the
    floor control server of a conference.  The record \<open>conf\<close> is its state with the listener's and the sent messages.
    The server calls the listener in the middle of an operation and the listener calls the server again; the model
    keeps this recursion.  \<open>BFCPInvariant\<close> holds the invariant, the abstract state \<open>requests\<close>, and the effect of
    revoking; \<open>BFCPOperations\<close> and \<open>BFCPSafety\<close> one lemma for each operation (it ends without a fault, keeps the
    invariant, changes the requests, the users and the roles as stated); \<open>BFCPReach\<close> the states any sequence of
    calls leads to; \<open>BFCPProperties\<close> the properties.
  \<^item> \<open>BFCPTransport\<close>, \<open>BFCPService\<close> (\<open>bfcp.cpp\<close>): the conferences and the WebSockets of their users.  The contract between
    the service and an operation of a conference is the locale \<open>conference_op\<close> of \<open>BFCPServiceInvariant\<close>, interpreted on
    every operation the service calls; \<open>BFCPServiceEvents\<close>, \<open>BFCPServiceReach\<close> and \<open>BFCPServiceProperties\<close> follow the pattern
    of the conference.
  \<^item> \<open>UTF8\<close>, \<open>Bytes\<close> (\<open>amf.cpp\<close>, \<open>amf.h\<close>, \<open>tools.h\<close>): big-endian access to buffers, the integer parsers, the incremental
    UTF-8 decoder.
  \<^item> \<open>WebSocketFrames\<close>, \<open>WebSocketConnection\<close> (\<open>websocketconnection.h\<close>, \<open>websocketconnection.cpp\<close>): headers, frames,
    the loop over the input, sending and closing.  \<open>WebSocketStream\<close> gives the abstract view of a connection inside a
    stream of frames, which every round of the loop keeps; \<open>WebSocketProperties\<close> and \<open>BFCPOverWebSocket\<close> conclude that
    the pieces the bytes arrive in do not matter, up to the messages the floor control server receives.
  \<^item> \<open>UseLock\<close>, \<open>LockProperties\<close> (\<open>use.h\<close>): the readers-writer lock as a step relation over the calls of the thread
    library; exclusion, and that a fair scheduler always has a way to let every thread through.
  \<^item> \<open>Fifo\<close>, \<open>QueueProperties\<close> (\<open>fifo.h\<close>): the ring buffer; the locale \<open>bounded_queue\<close> is the contract of a bounded queue.
  \<^item> \<open>AudioPipes\<close>, \<open>AudioMixer\<close>, \<open>AudioMixing\<close>, \<open>AudioMixerProperties\<close> (\<open>audiomixer.cpp\<close>, \<open>sidebar.cpp\<close>,
    \<open>pipeaudioinput.cpp\<close>, \<open>pipeaudiooutput.cpp\<close>, \<open>audiotransrater.cpp\<close>, \<open>vad.cpp\<close>): the audio mixer, from the samples a
    participant plays to the samples it hears.
  \<^item> \<open>Acumulator\<close> (\<open>acumulator.h\<close>): the counter over a sliding window.
  \<^item> \<open>BitStream\<close> (\<open>bitstream.h\<close>): reading and writing of bits, Exp-Golomb codes.
  \<^item> \<open>RTPPacket\<close>, \<open>RTPPacketProperties\<close> (\<open>rtp.h\<close>, \<open>rtp.cpp\<close>): packets, header extensions, redundant packets.
  \<^item> \<open>RTPBuffer\<close> (\<open>rtpbuffer.h\<close>): the jitter buffer.
  \<^item> \<open>RTPLostPackets\<close> (\<open>rtp.cpp\<close>): the window of received packets and the retransmissions asked for.
  \<^item> \<open>FECDecoder\<close>, \<open>FECRecovery\<close>, \<open>FECDecoderProperties\<close> (\<open>fecdecoder.h\<close>, \<open>fecdecoder.cpp\<close>, the loop of
    \<open>rtpsession.cpp\<close> that calls it): forward error correction.  The locale \<open>xor_group\<close> is what the proofs use of the
    exclusive or; the decoder recovers exactly the packets that FEC packets determine, and two kinds of FEC packets break it.
  \<^item> \<open>RTCP\<close>, \<open>RTCPProperties\<close> (\<open>rtp.h\<close>, \<open>rtp.cpp\<close>): every RTCP packet, its parser and its writer.
  \<^item> \<open>CRC32\<close>, \<open>STUN\<close>, \<open>STUNProperties\<close> (\<open>crc32calc.h\<close>, \<open>stunmessage.h\<close>, \<open>stunmessage.cpp\<close>): the checksum, which is
    the division by its generator, and the messages of STUN, their parser and their writer.
  \<^item> \<open>ICE\<close>, \<open>ICEProperties\<close> (\<open>rtpsession.cpp\<close>): where a session sends its packets: the address set, the source of the
    first packet, and the requests for another one.  The relation \<open>ice_step\<close> is what can happen to a session.
  \<^item> \<open>MosaicLayout\<close>, \<open>MosaicTiling\<close> (\<open>mosaic.h\<close>, \<open>config.h\<close>, the sizes and places in \<open>partedmosaic.cpp\<close>,
    \<open>asymmetricmosaic.cpp\<close>, \<open>pipmosaic.cpp\<close>): the compositions of a mosaic and the rectangles of their slots; that the
    slots lie apart inside the picture.
  \<^item> \<open>FrameScaler\<close> (\<open>framescaler.cpp\<close>), \<open>MosaicPicture\<close> (\<open>Update\<close> and \<open>Clean\<close> of the three classes of mosaics): drawing
    into the buffer of a mosaic.  \<open>MosaicDrawing\<close> bounds what is written to the places of a slot.
  \<^item> \<open>Mosaic\<close> (\<open>mosaic.cpp\<close>): participants, their order, the setting of the slots and what they show.  \<open>MosaicPositions\<close>
    describes the result of \<open>CalculatePositions\<close> without its loop; \<open>MosaicInvariant\<close> holds the locale \<open>ranked_set\<close>, the
    contract of the ordered set the participants are kept in, and the invariant of the operations.
  \<^item> \<open>VideoMixer\<close> (\<open>videomixer.cpp\<close>): the mosaics and the sources of a conference, and the rounds of the thread that mixes.
    \<open>VideoMixerInvariant\<close>, \<open>VideoMixerReach\<close> and \<open>VideoMixerProperties\<close> follow the pattern of the conference.

  \<^bold>\<open>What the properties show.\<close>  Safety of every reachable state (no two holders of a floor, no use of a deleted object,
  no fault in a round of the audio mixer, no writer beside a reader, no picture drawn over another), functional
  behaviour of the operations on every branch, refinement (the ring buffer is a bounded queue, the byte stream is the
  stream of messages), round trips (messages, RTCP packets, STUN messages, bits), bounds (the mantissa of a bitrate, the size of a
  pong), termination (the parser, the loop over the input, the end of a conference), and the inputs on which the code
  goes wrong, each as a theorem about the model of that code.

  \<^bold>\<open>Bounds and fuel.\<close>  \<open>skip_fuel\<close> of the JSON parser is a function of the length of the text, and
  \<open>Parse_ends\<close> shows that it is enough.  \<open>ProcessData\<close> gives its loop twice the number of bytes and one rounds;
  \<open>input_is_always_consumed\<close> shows that it never needs more.  The loop that counts the zeros of an Exp-Golomb code has
  as much fuel as there are bits left; the loop over the mask of FEC data has one step for each of its 64 bits, and
  the loop of the session that recovers packets needs at most 64 rounds; the search for the exponent of a bitrate has
  one step for each value of the six bits of the exponent; the loop of the voice detector takes a frame of samples in
  each step.

  \<^bold>\<open>Outside of the sources, and parameters of the model:\<close> the resampler (speex), the voice detector (WebRTC) and the
  loudness in floating point, the scaling of pictures (libswscale), the HTTP parser before the upgrade of a connection,
  the HMAC of OpenSSL and what a DTLS connection has to send, the clock, the scheduler.
  What is proved about them is proved for any behaviour of them, or under the documented law the theorem names.

  \<^bold>\<open>Not modelled.\<close>  Threads, sockets and files (the poll loops, the XML-RPC handlers, recorders, players,
  participants); codecs and their wrappers; the vendored libraries (libvncserver, the HTTP parser of Node.js, speex,
  WebRTC); logging; the second copy of the RTP sources under \<open>src/cca\<close>; the Java programs.  These are I/O and glue around
  libraries that are not part of the sources.  Of the own logic of the server, not modelled: the
  rate estimation, AMF and RTMP, the participants, the sockets and SRTP of an RTP session; of the video mixer the overlays (names and images drawn over a
  mosaic), the level meter drawn when debugging and the pipes.
\<close>

end
